(* ===== verification/C_Prelude.thy ===== *)
theory C_Prelude
  imports Main "HOL-Library.Word"
begin

text \<open>
  What every component of the model shares: the machine integers of the C code as words of
  their width, the bytes behind a pointer, the little-endian reads and writes that the codec
  tables repeat, and the generic lemmas about them.

  A byte pointer is a function from the offset to the byte stored there (\<open>buf\<close>): C reads
  memory at any offset, so a read is total, and that a routine stays inside an array is a
  theorem about the routine (its result depends only on the first bytes, see \<open>buf_agree\<close>).
  A pointer that the code compares with NULL is an \<open>option\<close>.
\<close>

unbundle bit_operations_syntax

type_synonym u8 = "8 word"
type_synonym u16 = "16 word"
type_synonym u32 = "32 word"
type_synonym u64 = "64 word"
type_synonym buf = "nat \<Rightarrow> u8"

named_theorems buf_simps \<open>evaluation of byte reads after stores\<close>
named_theorems codec_defs \<open>unfolding of the codec tables (default and sink capabilities)\<close>

subsection \<open>Buffers\<close>

text \<open>\<open>*p++ = v\<close> repeated for the values of a list, and the bulk copies of string.h.\<close>

primrec store :: "buf \<Rightarrow> nat \<Rightarrow> u8 list \<Rightarrow> buf" where
  "store m p [] = m"
| "store m p (v # vs) = store (m(p := v)) (Suc p) vs"

definition memcpy :: "buf \<Rightarrow> buf \<Rightarrow> nat \<Rightarrow> buf" where
  "memcpy dst src n = (\<lambda>i. if i < n then src i else dst i)"

definition memset :: "buf \<Rightarrow> u8 \<Rightarrow> nat \<Rightarrow> buf" where
  "memset dst v n = (\<lambda>i. if i < n then v else dst i)"

definition buf_agree :: "nat \<Rightarrow> buf \<Rightarrow> buf \<Rightarrow> bool" where
  "buf_agree n a b \<longleftrightarrow> list_all (\<lambda>i. a i = b i) [0..<n]"

text \<open>A zero-filled array that starts with the given bytes.\<close>

definition bytes :: "u8 list \<Rightarrow> buf" where
  "bytes xs = (\<lambda>i. if i < length xs then xs ! i else 0)"

lemma buf_agree_iff: "buf_agree n a b \<longleftrightarrow> (\<forall>i<n. a i = b i)"
  by (auto simp: buf_agree_def list_all_iff)

lemma buf_agreeD: "buf_agree n a b \<Longrightarrow> i < n \<Longrightarrow> a i = b i"
  by (simp add: buf_agree_iff)

lemma buf_agree_refl [simp]: "buf_agree n a a"
  by (simp add: buf_agree_iff)

lemma buf_agree_mono: "buf_agree n a b \<Longrightarrow> m \<le> n \<Longrightarrow> buf_agree m a b"
  by (simp add: buf_agree_iff)

lemma buf_agree_memcpy [simp]: "buf_agree n (memcpy dst src n) src"
  by (simp add: buf_agree_iff memcpy_def)

lemma store_apply:
  "store m p vs i = (if p \<le> i \<and> i < p + length vs then vs ! (i - p) else m i)"
proof (induction vs arbitrary: m p)
  case Nil
  show ?case by auto
next
  case (Cons v vs)
  have "i - p = Suc (i - Suc p)" if "Suc p \<le> i" using that by simp
  then show ?case by (auto simp: Cons.IH nth_Cons' not_le)
qed

lemma store_below: "i < p \<Longrightarrow> store m p vs i = m i"
  by (simp add: store_apply)

lemma store_at: "k < length vs \<Longrightarrow> store m p vs (p + k) = vs ! k"
  by (simp add: store_apply)

lemma store_0: "k < length vs \<Longrightarrow> store m 0 vs k = vs ! k"
  by (simp add: store_apply)

lemma store_append: "store m p (vs @ ws) = store (store m p vs) (p + length vs) ws"
  by (induction vs arbitrary: m p) simp_all

lemma map_store: "map (store m p vs) [0..<p + length vs] = map m [0..<p] @ vs"
  by (rule nth_equalityI) (auto simp: store_apply nth_append)

lemma store_0_beyond: "length vs \<le> k \<Longrightarrow> store m 0 vs k = m k"
  by (simp add: store_apply)

lemmas [buf_simps] = store_0 store_0_beyond

text \<open>Unrolling a store keeps the offsets as numerals.\<close>

lemma store_Cons_numeral [simp]:
  "store m 0 (v # vs) = store (m(0 := v)) (Suc 0) vs"
  "store m (Suc 0) (v # vs) = store (m(Suc 0 := v)) 2 vs"
  "store m (numeral k) (v # vs) = store (m(numeral k := v)) (numeral (k + num.One)) vs"
  by (simp_all add: numeral_2_eq_2)

declare store.simps(2) [simp del]

subsection \<open>Words bit by bit\<close>

text \<open>
  Two 8-bit words are equal when their eight bits are: with it \<open>simp\<close> decides the masks
  of the codec tables.
\<close>

lemma less_8_cases: "n < 8 \<Longrightarrow> n \<in> {0, 1, 2, 3, 4, 5, 6, 7::nat}"
  by auto

lemma u8_eq_iff:
  fixes x y :: u8
  shows "x = y \<longleftrightarrow> bit x 0 = bit y 0 \<and> bit x 1 = bit y 1 \<and> bit x 2 = bit y 2 \<and>
    bit x 3 = bit y 3 \<and> bit x 4 = bit y 4 \<and> bit x 5 = bit y 5 \<and> bit x 6 = bit y 6 \<and>
    bit x 7 = bit y 7" (is "_ \<longleftrightarrow> ?r")
proof
  assume r: ?r
  show "x = y"
  proof (rule bit_word_eqI)
    fix n assume "n < LENGTH(8)"
    then have "n \<in> {0, 1, 2, 3, 4, 5, 6, 7}" by auto
    with r show "bit x n = bit y n" by auto
  qed
qed simp

lemma u8_bit_beyond [simp]: "8 \<le> n \<Longrightarrow> \<not> bit (x :: u8) n"
  using bit_imp_le_length [of x n] by auto

text \<open>A bounded quantifier over bit positions, as a list of numerals that \<open>simp\<close> unrolls.\<close>

lemma all_less_iff_list_all: "(\<forall>n < k. P n) \<longleftrightarrow> list_all P [0..<k]"
  by (auto simp: list_all_iff)

lemma u16_eqI:
  fixes x y :: u16
  assumes "list_all (\<lambda>n. bit x n = bit y n) [0..<16]"
  shows "x = y"
  using assms by (intro bit_word_eqI) (simp add: all_less_iff_list_all [symmetric])

lemma u32_eqI:
  fixes x y :: u32
  assumes "list_all (\<lambda>n. bit x n = bit y n) [0..<32]"
  shows "x = y"
  using assms by (intro bit_word_eqI) (simp add: all_less_iff_list_all [symmetric])

lemma and_mask_idem [simp]: "(x AND m) AND m = x AND (m :: 'a :: len word)"
  by (simp add: and.assoc)

lemma and_not_mask_iff: "x AND NOT m = 0 \<longleftrightarrow> x AND m = (x :: 'a :: len word)"
proof
  assume "x AND NOT m = 0"
  then have "\<not> bit (x AND NOT m) n" for n by simp
  then show "x AND m = x" by (intro bit_word_eqI) (auto simp: bit_simps)
next
  assume "x AND m = x"
  then have "x AND NOT m = (x AND m) AND NOT m" by simp
  then show "x AND NOT m = 0" by (simp add: and.assoc)
qed

text \<open>Fields packed into one byte under disjoint masks are read back by their mask.\<close>

lemma or_and_mask:
  fixes x y m :: "'a :: len word"
  assumes "x AND m = x" and "y AND m' = y" and "m' AND m = 0"
  shows "(x OR y) AND m = x" and "(y OR x) AND m = x"
proof -
  have "y AND m = (y AND m') AND m" using assms(2) by simp
  also have "\<dots> = 0" using assms(3) by (simp add: and.assoc)
  finally have "y AND m = 0" .
  with assms(1) show "(x OR y) AND m = x" "(y OR x) AND m = x"
    by (simp_all add: bit.conj_disj_distrib2)
qed

lemma or_and_mask3:
  fixes x y z m :: "'a :: len word"
  assumes "x AND m = x" and "y AND m' = y" and "z AND m'' = z"
    and "m' AND m = 0" and "m'' AND m = 0"
  shows "(x OR y OR z) AND m = x" and "(y OR x OR z) AND m = x" and "(y OR z OR x) AND m = x"
proof -
  have "y AND m = 0" "z AND m = 0"
    by (metis assms(2,4) and.assoc and_zero_eq, metis assms(3,5) and.assoc and_zero_eq)
  with assms(1) show "(x OR y OR z) AND m = x" "(y OR x OR z) AND m = x" "(y OR z OR x) AND m = x"
    by (simp_all add: bit.conj_disj_distrib2)
qed

lemma ucast_eq_0_iff:
  fixes x :: "'a :: len word"
  assumes "LENGTH('a) \<le> LENGTH('b)"
  shows "(ucast x :: 'b :: len word) = 0 \<longleftrightarrow> x = 0"
proof
  assume *: "(ucast x :: 'b word) = 0"
  have "ucast (ucast x :: 'b word) = x"
    using assms by (intro bit_word_eqI) (simp add: bit_simps)
  with * show "x = 0" by simp
qed simp

lemma ucast_u8_eq_0_iff [simp]:
  fixes x :: u8
  shows "(ucast x :: u64) = 0 \<longleftrightarrow> x = 0" and "(ucast x :: u32) = 0 \<longleftrightarrow> x = 0"
    and "(ucast x :: u16) = 0 \<longleftrightarrow> x = 0"
  by (rule ucast_eq_0_iff, simp)+

lemma ucast_u16_eq_0_iff [simp]: "(ucast (x :: u16) :: u64) = 0 \<longleftrightarrow> x = 0"
  by (rule ucast_eq_0_iff) simp

lemma ucast_u32_eq_0_iff [simp]: "(ucast (x :: u32) :: u64) = 0 \<longleftrightarrow> x = 0"
  by (rule ucast_eq_0_iff) simp

subsection \<open>Little-endian fields\<close>

text \<open>
  The expressions the parsers write out for a 32-bit and a 16-bit field: each byte is
  promoted to \<open>int\<close>, shifted and masked; the sum of the masks covers the word.
\<close>

definition rd32le :: "buf \<Rightarrow> nat \<Rightarrow> u32" where
  "rd32le b p =
     (ucast (b p) AND 0x000000FF) OR (push_bit 8 (ucast (b (p + 1))) AND 0x0000FF00) OR
     (push_bit 16 (ucast (b (p + 2))) AND 0x00FF0000) OR
     (push_bit 24 (ucast (b (p + 3))) AND 0xFF000000)"

definition rd16le :: "buf \<Rightarrow> nat \<Rightarrow> u16" where
  "rd16le b p =
     ucast (((ucast (b p) :: u32) AND 0x00FF) OR (push_bit 8 (ucast (b (p + 1))) AND 0xFF00))"

definition put32le :: "u32 \<Rightarrow> u8 list" where
  "put32le v =
     [ucast (v AND 0x000000FF), ucast (drop_bit 8 (v AND 0x0000FF00)),
      ucast (drop_bit 16 (v AND 0x00FF0000)), ucast (drop_bit 24 (v AND 0xFF000000))]"

definition put16le :: "u16 \<Rightarrow> u8 list" where
  "put16le v = [ucast (v AND 0x00FF), ucast (drop_bit 8 (v AND 0xFF00))]"

lemma length_put32le [simp]: "length (put32le v) = 4"
  by (simp add: put32le_def)

lemma length_put16le [simp]: "length (put16le v) = 2"
  by (simp add: put16le_def)

lemma rd32le_put32le:
  assumes "b p = put32le v ! 0" "b (p + 1) = put32le v ! 1"
    "b (p + 2) = put32le v ! 2" "b (p + 3) = put32le v ! 3"
  shows "rd32le b p = v"
  unfolding rd32le_def assms put32le_def
  by (rule u32_eqI) (simp add: upt_rec bit_simps, simp add: numeral_eq_Suc)

lemma rd16le_put16le:
  assumes "b p = put16le v ! 0" "b (p + 1) = put16le v ! 1"
  shows "rd16le b p = v"
  unfolding rd16le_def assms put16le_def
  by (rule u16_eqI) (simp add: upt_rec bit_simps, simp add: numeral_eq_Suc)

lemma rd32le_cong:
  "a p = b p \<Longrightarrow> a (p + 1) = b (p + 1) \<Longrightarrow> a (p + 2) = b (p + 2) \<Longrightarrow> a (p + 3) = b (p + 3) \<Longrightarrow>
    rd32le a p = rd32le b p"
  by (simp add: rd32le_def)

lemma rd16le_cong: "a p = b p \<Longrightarrow> a (p + 1) = b (p + 1) \<Longrightarrow> rd16le a p = rd16le b p"
  by (simp add: rd16le_def)

text \<open>The header of a vendor codec: length, media type, codec type, vendor and codec ids.\<close>

lemma store_header:
  fixes r s :: buf
  assumes s: "s = store r 0 ([a, b, c] @ put32le v @ put16le w @ xs)"
  shows "s 0 = a" and "s (Suc 0) = b" and "s 2 = c" and "rd32le s 3 = v" and "rd16le s 7 = w"
    and "k < length xs \<Longrightarrow> s (9 + k) = xs ! k"
proof -
  let ?xs = "[a, b, c] @ put32le v @ put16le w @ xs"
  have at: "s k = ?xs ! k" if "k < 9 + length xs" for k
    unfolding s by (rule store_0) (use that in simp)
  show "s 0 = a" "s (Suc 0) = b" "s 2 = c"
    by (simp_all add: at)
  show "rd32le s 3 = v"
    by (rule rd32le_put32le) (simp_all add: at nth_append put32le_def put16le_def)
  show "rd16le s 7 = w"
    by (rule rd16le_put16le) (simp_all add: at nth_append put32le_def put16le_def)
  show "s (9 + k) = xs ! k" if "k < length xs"
    using that by (simp add: at nth_append)
qed

lemma rd32le_upd [simp]:
  "k < p \<or> p + 3 < k \<Longrightarrow> rd32le (b(k := x)) p = rd32le b p"
  by (auto intro!: rd32le_cong)

lemma rd16le_upd [simp]:
  "k < p \<or> p + 1 < k \<Longrightarrow> rd16le (b(k := x)) p = rd16le b p"
  by (auto intro!: rd16le_cong)

lemma rd32le_agree: "buf_agree n a b \<Longrightarrow> p + 3 < n \<Longrightarrow> rd32le a p = rd32le b p"
  by (rule rd32le_cong) (simp_all add: buf_agreeD)

lemma rd16le_agree: "buf_agree n a b \<Longrightarrow> p + 1 < n \<Longrightarrow> rd16le a p = rd16le b p"
  by (rule rd16le_cong) (simp_all add: buf_agreeD)

lemmas agree_simps = buf_agreeD rd32le_agree rd16le_agree

subsection \<open>Preference chains\<close>

text \<open>
  The codec files pick a setting by a chain \<open>if (cap & A) x = A; else if (cap & B) x = B; \<dots>\<close>.
  \<open>first_set\<close> is such a chain over the masks in the order of the code; \<open>None\<close> is the
  final \<open>else\<close>.
\<close>

fun first_set :: "u8 \<Rightarrow> u8 list \<Rightarrow> u8 option" where
  "first_set x [] = None"
| "first_set x (m # ms) = (if x AND m \<noteq> 0 then Some m else first_set x ms)"

definition one_bit :: "u8 \<Rightarrow> bool" where
  "one_bit m \<longleftrightarrow> m = 1 \<or> m = 2 \<or> m = 4 \<or> m = 8 \<or> m = 16 \<or> m = 32 \<or> m = 64 \<or> m = 128"

lemma one_bit_nonzero: "one_bit m \<Longrightarrow> m \<noteq> 0"
  by (auto simp: one_bit_def)

lemma one_bit_and: "one_bit m \<Longrightarrow> x AND m \<noteq> 0 \<Longrightarrow> m AND x = m"
  by (auto simp: one_bit_def u8_eq_iff bit_simps)

lemma first_set_None_iff: "first_set x ms = None \<longleftrightarrow> (\<forall>m \<in> set ms. x AND m = 0)"
  by (induction ms) auto

lemma first_set_SomeD:
  assumes "first_set x ms = Some m"
  shows "m \<in> set ms" and "x AND m \<noteq> 0"
  using assms by (induction ms) (auto split: if_splits)

text \<open>The chosen mask is the first of the list that the capability has.\<close>

lemma first_set_prefers:
  assumes "first_set x ms = Some m" and "sorted_wrt R ms" and "m' \<in> set ms" and "x AND m' \<noteq> 0"
  shows "m' = m \<or> R m m'"
  using assms by (induction ms) (auto split: if_splits dest: first_set_SomeD)

lemma first_set_one_bit:
  assumes "first_set x ms = Some m" and "list_all one_bit ms"
  shows "one_bit m" and "m AND x = m"
  using first_set_SomeD [OF assms(1)] assms(2) one_bit_and by (auto simp: list_all_iff)

text \<open>A chain without a final \<open>else\<close> keeps the setting it started from.\<close>

definition first_set_or :: "u8 \<Rightarrow> u8 list \<Rightarrow> u8 \<Rightarrow> u8" where
  "first_set_or x ms d = (case first_set x ms of None \<Rightarrow> d | Some m \<Rightarrow> m)"

lemma first_set_or_one_bit:
  "list_all one_bit ms \<Longrightarrow> one_bit d \<Longrightarrow> one_bit (first_set_or x ms d)"
  by (auto simp: first_set_or_def dest: first_set_one_bit split: option.split)

lemma first_set_or_in: "first_set_or x ms d \<in> set (d # ms)"
  by (auto simp: first_set_or_def dest: first_set_SomeD split: option.split)

lemma first_set_or_offered:
  "list_all one_bit ms \<Longrightarrow> \<exists>m \<in> set ms. x AND m \<noteq> 0 \<Longrightarrow>
    first_set_or x ms d AND x = first_set_or x ms d"
  by (auto simp: first_set_or_def first_set_None_iff dest: first_set_one_bit split: option.split)

lemma first_set_or_default: "\<forall>m \<in> set ms. x AND m = 0 \<Longrightarrow> first_set_or x ms d = d"
  by (simp add: first_set_or_def first_set_None_iff [THEN iffD2])

end
