(* ===== verification/A2D_Api.thy ===== *)
theory A2D_Api
  imports C_Prelude
begin

text \<open>
  stack/a2dp/a2d_api.c: the status codes of the A2DP layer (a2d_api.h), the bit counter
  \<open>A2D_BitsSet\<close> that every codec parser uses, and the control block \<open>a2d_cb\<close> of the service
  discovery with its operations. The SDP calls are the stack's SDP component, which is not
  modelled: their results are arguments of the operations that make them.
\<close>

subsection \<open>Constants of a2d\_api.h, avdt\_api.h and sdpdefs.h\<close>

abbreviation (input) A2D_SUCCESS :: u8 where "A2D_SUCCESS \<equiv> 0"
abbreviation (input) A2D_FAIL :: u8 where "A2D_FAIL \<equiv> 0x0A"
abbreviation (input) A2D_BUSY :: u8 where "A2D_BUSY \<equiv> 0x0B"
abbreviation (input) A2D_INVALID_PARAMS :: u8 where "A2D_INVALID_PARAMS \<equiv> 0x0C"
abbreviation (input) A2D_WRONG_CODEC :: u8 where "A2D_WRONG_CODEC \<equiv> 0x0D"
abbreviation (input) A2D_BAD_SAMP_FREQ :: u8 where "A2D_BAD_SAMP_FREQ \<equiv> 0xC3"
abbreviation (input) A2D_NS_SAMP_FREQ :: u8 where "A2D_NS_SAMP_FREQ \<equiv> 0xC4"
abbreviation (input) A2D_BAD_CH_MODE :: u8 where "A2D_BAD_CH_MODE \<equiv> 0xC5"
abbreviation (input) A2D_NS_CH_MODE :: u8 where "A2D_NS_CH_MODE \<equiv> 0xC6"
abbreviation (input) A2D_BAD_SUBBANDS :: u8 where "A2D_BAD_SUBBANDS \<equiv> 0xC7"
abbreviation (input) A2D_NS_SUBBANDS :: u8 where "A2D_NS_SUBBANDS \<equiv> 0xC8"
abbreviation (input) A2D_BAD_ALLOC_MTHD :: u8 where "A2D_BAD_ALLOC_MTHD \<equiv> 0xC9"
abbreviation (input) A2D_NS_ALLOC_MTHD :: u8 where "A2D_NS_ALLOC_MTHD \<equiv> 0xCA"
abbreviation (input) A2D_BAD_MIN_BITPOOL :: u8 where "A2D_BAD_MIN_BITPOOL \<equiv> 0xCB"
abbreviation (input) A2D_NS_MIN_BITPOOL :: u8 where "A2D_NS_MIN_BITPOOL \<equiv> 0xCC"
abbreviation (input) A2D_BAD_MAX_BITPOOL :: u8 where "A2D_BAD_MAX_BITPOOL \<equiv> 0xCD"
abbreviation (input) A2D_NS_MAX_BITPOOL :: u8 where "A2D_NS_MAX_BITPOOL \<equiv> 0xCE"
abbreviation (input) A2D_BAD_OBJ_TYPE :: u8 where "A2D_BAD_OBJ_TYPE \<equiv> 0xD6"
abbreviation (input) A2D_BAD_BLOCK_LEN :: u8 where "A2D_BAD_BLOCK_LEN \<equiv> 0xDD"
abbreviation (input) A2D_BAD_CP_TYPE :: u8 where "A2D_BAD_CP_TYPE \<equiv> 0xE0"

abbreviation (input) A2D_SET_ONE_BIT :: u8 where "A2D_SET_ONE_BIT \<equiv> 1"
abbreviation (input) A2D_SET_ZERO_BIT :: u8 where "A2D_SET_ZERO_BIT \<equiv> 0"
abbreviation (input) A2D_SET_MULTL_BIT :: u8 where "A2D_SET_MULTL_BIT \<equiv> 2"

abbreviation (input) A2D_MEDIA_TYPE_AUDIO :: u8 where "A2D_MEDIA_TYPE_AUDIO \<equiv> 0x00"
abbreviation (input) AVDT_MEDIA_TYPE_AUDIO :: u8 where "AVDT_MEDIA_TYPE_AUDIO \<equiv> A2D_MEDIA_TYPE_AUDIO"
abbreviation (input) AVDT_MEDIA_AUDIO :: u8 where "AVDT_MEDIA_AUDIO \<equiv> 0"
abbreviation (input) A2D_MEDIA_CT_SBC :: u8 where "A2D_MEDIA_CT_SBC \<equiv> 0x00"
abbreviation (input) A2D_MEDIA_CT_M24 :: u8 where "A2D_MEDIA_CT_M24 \<equiv> 0x02"
abbreviation (input) A2D_MEDIA_CT_NON_A2DP :: u8 where "A2D_MEDIA_CT_NON_A2DP \<equiv> 0xFF"

abbreviation (input) AVDT_CODEC_SIZE :: nat where "AVDT_CODEC_SIZE \<equiv> 30"
abbreviation (input) AVDT_CODEC_TYPE_INDEX :: nat where "AVDT_CODEC_TYPE_INDEX \<equiv> 2"

abbreviation (input) UUID_PROTOCOL_L2CAP :: u16 where "UUID_PROTOCOL_L2CAP \<equiv> 0x0100"
abbreviation (input) UUID_PROTOCOL_AVDTP :: u16 where "UUID_PROTOCOL_AVDTP \<equiv> 0x0019"
abbreviation (input) AVDT_PSM :: u16 where "AVDT_PSM \<equiv> 0x0019"
abbreviation (input) UUID_SERVCLASS_ADV_AUDIO_DISTRIBUTION :: u16 where
  "UUID_SERVCLASS_ADV_AUDIO_DISTRIBUTION \<equiv> 0x110D"
abbreviation (input) UUID_SERVCLASS_PUBLIC_BROWSE_GROUP :: u16 where
  "UUID_SERVCLASS_PUBLIC_BROWSE_GROUP \<equiv> 0x1002"
abbreviation (input) ATTR_ID_SUPPORTED_FEATURES :: u16 where "ATTR_ID_SUPPORTED_FEATURES \<equiv> 0x0311"
abbreviation (input) ATTR_ID_PROVIDER_NAME :: u16 where "ATTR_ID_PROVIDER_NAME \<equiv> 0x0102"
abbreviation (input) ATTR_ID_SERVICE_NAME :: u16 where "ATTR_ID_SERVICE_NAME \<equiv> 0x0100"
abbreviation (input) ATTR_ID_BROWSE_GROUP_LIST :: u16 where "ATTR_ID_BROWSE_GROUP_LIST \<equiv> 0x0005"
abbreviation (input) UINT_DESC_TYPE :: u8 where "UINT_DESC_TYPE \<equiv> 1"
abbreviation (input) TEXT_STR_DESC_TYPE :: u8 where "TEXT_STR_DESC_TYPE \<equiv> 4"
abbreviation (input) UUID_SERVCLASS_AUDIO_SOURCE :: u16 where "UUID_SERVCLASS_AUDIO_SOURCE \<equiv> 0x110A"
abbreviation (input) UUID_SERVCLASS_AUDIO_SINK :: u16 where "UUID_SERVCLASS_AUDIO_SINK \<equiv> 0x110B"
abbreviation (input) AVDT_VERSION :: u16 where "AVDT_VERSION \<equiv> 0x0102"
abbreviation (input) A2D_VERSION :: u16 where "A2D_VERSION \<equiv> 0x0102"
abbreviation (input) SDP_SUCCESS :: u16 where "SDP_SUCCESS \<equiv> 0"

subsection \<open>Counting bits\<close>

definition A2D_BitsSet :: "u64 \<Rightarrow> u8" where
  "A2D_BitsSet num =
     (if num = 0 then A2D_SET_ZERO_BIT
      else if num AND (num - 1) = 0 then A2D_SET_ONE_BIT else A2D_SET_MULTL_BIT)"

text \<open>Clearing the lowest set bit leaves nothing exactly for the powers of two.\<close>

lemma nat_and_pred_eq_0_iff: "0 < n \<Longrightarrow> n AND (n - 1) = 0 \<longleftrightarrow> (\<exists>k. n = 2 ^ k)" for n :: nat
proof (induction n rule: less_induct)
  case (less n)
  show ?case
  proof (cases "even n")
    case True
    then obtain m where m: "n = 2 * m" by (elim evenE)
    with less.prems have m0: "0 < m" by simp
    have "n - 1 = Suc (2 * (m - 1))" using m m0 by simp
    then have "n AND (n - 1) = 2 * (m AND (m - 1))"
      by (simp add: m and_nat_unfold [of "2 * m"])
    then have "n AND (n - 1) = 0 \<longleftrightarrow> (\<exists>k. m = 2 ^ k)"
      using less.IH [of m] m m0 by simp
    also have "\<dots> \<longleftrightarrow> (\<exists>k. n = 2 ^ k)"
    proof
      assume "\<exists>k. m = 2 ^ k"
      then obtain k where "m = 2 ^ k" by blast
      then have "n = 2 ^ Suc k" by (simp add: m)
      then show "\<exists>k. n = 2 ^ k" by blast
    next
      assume "\<exists>k. n = 2 ^ k"
      then obtain k where k: "n = 2 ^ k" by blast
      with m have "k \<noteq> 0" by (intro notI) simp
      then obtain j where "k = Suc j" by (cases k) auto
      with k m show "\<exists>k. m = 2 ^ k" by auto
    qed
    finally show ?thesis .
  next
    case False
    then obtain m where m: "n = Suc (2 * m)" by (elim oddE) simp
    have "n AND (n - 1) = 2 * m"
      by (simp add: m and_nat_unfold [of "Suc (2 * m)"])
    moreover have "(\<exists>k. n = 2 ^ k) \<longleftrightarrow> m = 0"
    proof
      assume "\<exists>k. n = 2 ^ k"
      then obtain k where k: "n = 2 ^ k" by blast
      with False have "k = 0" by (cases k) auto
      with k m show "m = 0" by simp
    next
      assume "m = 0"
      then show "\<exists>k. n = 2 ^ k" using m by (intro exI [of _ 0]) simp
    qed
    ultimately show ?thesis by simp
  qed
qed

lemma unat_two_power:
  assumes "k < LENGTH('a)"
  shows "unat (2 ^ k :: 'a :: len word) = 2 ^ k"
proof -
  have "unat (of_nat (2 ^ k) :: 'a word) = take_bit LENGTH('a) (2 ^ k)"
    by (simp only: unsigned_of_nat of_nat_id)
  also have "\<dots> = 2 ^ k"
    using assms by (simp add: take_bit_nat_eq_self)
  finally show ?thesis by simp
qed

lemma and_pred_eq_0_iff:
  fixes x :: "'a :: len word"
  assumes "x \<noteq> 0"
  shows "x AND (x - 1) = 0 \<longleftrightarrow> (\<exists>k < LENGTH('a). x = 2 ^ k)"
proof -
  have pos: "0 < unat x" using assms by (simp add: unat_gt_0)
  have "x AND (x - 1) = 0 \<longleftrightarrow> unat x AND unat (x - 1) = 0"
    by (metis unat_0 unat_eq_zero unsigned_and_eq)
  also have "\<dots> \<longleftrightarrow> (\<exists>k. unat x = 2 ^ k)"
    using nat_and_pred_eq_0_iff [OF pos] assms by (simp add: unat_minus_one)
  also have "\<dots> \<longleftrightarrow> (\<exists>k < LENGTH('a). x = 2 ^ k)"
  proof
    assume "\<exists>k. unat x = 2 ^ k"
    then obtain k where k: "unat x = 2 ^ k" by blast
    then have "k < LENGTH('a)"
      by (metis nat_power_less_imp_less numeral_2_eq_2 unsigned_less zero_less_Suc)
    moreover from this have "x = 2 ^ k"
      using k by (simp add: word_unat_eq_iff unat_two_power)
    ultimately show "\<exists>k < LENGTH('a). x = 2 ^ k" by blast
  next
    assume "\<exists>k < LENGTH('a). x = 2 ^ k"
    then show "\<exists>k. unat x = 2 ^ k" by (auto simp: unat_two_power)
  qed
  finally show ?thesis .
qed

lemma A2D_BitsSet_zero_iff [simp]: "A2D_BitsSet num = A2D_SET_ZERO_BIT \<longleftrightarrow> num = 0"
  by (simp add: A2D_BitsSet_def)

lemma A2D_BitsSet_one_iff: "A2D_BitsSet num = A2D_SET_ONE_BIT \<longleftrightarrow> (\<exists>k < 64. num = 2 ^ k)"
proof (cases "num = 0")
  case True
  have "num \<noteq> 2 ^ k" if "k < 64" for k
  proof
    assume "num = 2 ^ k"
    with that have "unat num = 2 ^ k" by (simp add: unat_two_power)
    with True show False by simp
  qed
  with True show ?thesis by (auto simp: A2D_BitsSet_def)
next
  case False
  then show ?thesis using and_pred_eq_0_iff [of num] by (simp add: A2D_BitsSet_def)
qed

lemma bits_of_two_power: "k < LENGTH('a) \<Longrightarrow> {n. bit (2 ^ k :: 'a :: len word) n} = {k}"
  by (auto simp: bit_exp_iff)

lemma one_bit_two_power:
  assumes "{n. bit (x :: 'a :: len word) n} = {k}"
  shows "k < LENGTH('a) \<and> x = 2 ^ k"
proof -
  have "bit x k" using assms by auto
  then have k: "k < LENGTH('a)" by (rule bit_imp_le_length)
  moreover have "x = 2 ^ k"
  proof (rule bit_word_eqI)
    fix n assume "n < LENGTH('a)"
    have "bit x n \<longleftrightarrow> n = k" using assms by auto
    then show "bit x n = bit (2 ^ k :: 'a word) n" using k by (auto simp: bit_exp_iff)
  qed
  ultimately show ?thesis ..
qed

lemma finite_bits [simp]: "finite {n. bit (x :: 'a :: len word) n}"
  by (rule finite_subset [of _ "{..< LENGTH('a)}"]) (auto dest: bit_imp_le_length)

text \<open>
  The three answers of \<open>A2D_BitsSet\<close> are the number of set bits, cut at two.
\<close>

lemma A2D_BitsSet_card_one: "A2D_BitsSet num = A2D_SET_ONE_BIT \<longleftrightarrow> card {n. bit num n} = 1"
proof -
  have "(\<exists>k < 64. num = 2 ^ k) \<longleftrightarrow> (\<exists>k. {n. bit num n} = {k})"
    using one_bit_two_power [of num] bits_of_two_power [where 'a = 64] by auto
  then show ?thesis by (simp add: A2D_BitsSet_one_iff card_1_singleton_iff)
qed

lemma A2D_BitsSet_u8_one:
  "A2D_BitsSet (ucast (x :: u8)) = A2D_SET_ONE_BIT \<longleftrightarrow> one_bit x"
proof -
  have "{n. bit (ucast x :: u64) n} = {n. bit x n}"
    by (auto simp: bit_simps dest: bit_imp_le_length)
  then have "A2D_BitsSet (ucast x) = A2D_SET_ONE_BIT \<longleftrightarrow> (\<exists>k. {n. bit x n} = {k})"
    by (simp add: A2D_BitsSet_card_one card_1_singleton_iff)
  also have "\<dots> \<longleftrightarrow> (\<exists>k < 8. x = 2 ^ k)"
    using one_bit_two_power [of x] bits_of_two_power [where 'a = 8] by auto
  also have "\<dots> \<longleftrightarrow> (\<exists>k \<in> {0, 1, 2, 3, 4, 5, 6, 7}. x = 2 ^ k)"
  proof -
    have "k < 8 \<longleftrightarrow> k \<in> {0, 1, 2, 3, 4, 5, 6, 7}" for k :: nat by auto
    then show ?thesis by (simp only: Bex_def)
  qed
  finally show ?thesis by (simp add: one_bit_def)
qed

subsection \<open>The control block and service discovery\<close>

text \<open>
  Pointers to application callbacks and to discovery databases are numbers; NULL is
  \<open>None\<close>. \<open>tA2D_SDP_DB_PARAMS\<close> is the caller's parameter block, which \<open>A2D_FindService\<close>
  completes with the default attribute list.
\<close>

record tA2D_CB =
  find_p_cback :: "nat option"
  find_p_db :: "nat option"
  find_service_uuid :: u16
  a2d_trace_level :: u8
  avdt_sdp_ver :: u16
  a2dp_sdp_ver :: u16

record tA2D_SDP_DB_PARAMS =
  db_len :: u32
  num_attr :: u16
  p_db :: "nat option"
  p_attrs :: "u16 list option"

record tA2D_Service =
  service_len :: u16
  provider_len :: u16
  p_service_name :: "u8 list option"
  p_provider_name :: "u8 list option"
  svc_features :: u16
  svc_avdt_version :: u16

text \<open>What SDP returns for the record it found: each attribute is there or not.\<close>

record sdp_record =
  rec_service_name :: "u8 list option"
  rec_provider_name :: "u8 list option"
  rec_features :: "u16 option"
  rec_avdtp_param :: "u16 option"

definition a2d_service_zero :: tA2D_Service where
  "a2d_service_zero = \<lparr>service_len = 0, provider_len = 0, p_service_name = None,
     p_provider_name = None, svc_features = 0, svc_avdt_version = 0\<rparr>"

text \<open>\<open>A2D_Init\<close> with the static control block; \<open>initial_trace\<close> is A2D\_INITIAL\_TRACE\_LEVEL.\<close>

definition A2D_Init :: "u8 \<Rightarrow> tA2D_CB" where
  "A2D_Init initial_trace = \<lparr>find_p_cback = None, find_p_db = None, find_service_uuid = 0,
     a2d_trace_level = initial_trace, avdt_sdp_ver = AVDT_VERSION, a2dp_sdp_ver = A2D_VERSION\<rparr>"

definition a2d_set_avdt_sdp_ver :: "u16 \<Rightarrow> tA2D_CB \<Rightarrow> tA2D_CB" where
  "a2d_set_avdt_sdp_ver ver cb = cb\<lparr>avdt_sdp_ver := ver\<rparr>"

definition a2d_set_a2dp_sdp_ver :: "u16 \<Rightarrow> tA2D_CB \<Rightarrow> tA2D_CB" where
  "a2d_set_a2dp_sdp_ver ver cb = cb\<lparr>a2dp_sdp_ver := ver\<rparr>"

definition A2D_SetTraceLevel :: "u8 \<Rightarrow> tA2D_CB \<Rightarrow> u8 \<times> tA2D_CB" where
  "A2D_SetTraceLevel new_level cb =
     (let cb' = (if new_level \<noteq> 0xFF then cb\<lparr>a2d_trace_level := new_level\<rparr> else cb)
      in (a2d_trace_level cb', cb'))"

text \<open>
  The attribute identifiers of the default list, in the order of the code
  (\<open>a2d_attr_list\<close>, A2D\_NUM\_ATTR of them).
\<close>

definition a2d_attr_list :: "u16 list" where
  "a2d_attr_list = [0x0001, 0x0009, 0x0311, 0x0100, 0x0004, 0x0102]"

definition A2D_FindService ::
  "(tA2D_SDP_DB_PARAMS \<Rightarrow> u16 \<Rightarrow> bool) \<Rightarrow> bool \<Rightarrow> u16 \<Rightarrow> tA2D_SDP_DB_PARAMS option \<Rightarrow>
   nat option \<Rightarrow> tA2D_CB \<Rightarrow> u8 \<times> tA2D_SDP_DB_PARAMS option \<times> tA2D_CB" where
  "A2D_FindService sdp_init sdp_search service_uuid db_params p_cback cb =
     (case db_params of
        None \<Rightarrow> (A2D_INVALID_PARAMS, db_params, cb)
      | Some db \<Rightarrow>
          if (service_uuid \<noteq> UUID_SERVCLASS_AUDIO_SOURCE \<and> service_uuid \<noteq> UUID_SERVCLASS_AUDIO_SINK)
             \<or> p_db db = None \<or> p_cback = None
          then (A2D_INVALID_PARAMS, db_params, cb)
          else if find_service_uuid cb = UUID_SERVCLASS_AUDIO_SOURCE \<or>
                  find_service_uuid cb = UUID_SERVCLASS_AUDIO_SINK
          then (A2D_BUSY, db_params, cb)
          else
            (let db' = (if p_attrs db = None \<or> num_attr db = 0
                        then db\<lparr>p_attrs := Some a2d_attr_list, num_attr := 6\<rparr> else db)
             in if sdp_init db' service_uuid
                then (let cb1 = cb\<lparr>find_p_db := p_db db', find_service_uuid := service_uuid,
                                  find_p_cback := p_cback\<rparr>
                      in if sdp_search then (A2D_SUCCESS, Some db', cb1)
                         else (A2D_FAIL, Some db', cb1\<lparr>find_service_uuid := 0\<rparr>))
                else (A2D_FAIL, Some db', cb)))"

text \<open>
  The SDP callback: \<open>recrd\<close> is what the search of the database returns, when it was successful.
  The result is the call made to the application, if any (callback, found flag, service).
\<close>

definition a2d_sdp_cback ::
  "u16 \<Rightarrow> sdp_record option \<Rightarrow> tA2D_CB \<Rightarrow> (nat \<times> bool \<times> tA2D_Service) option \<times> tA2D_CB" where
  "a2d_sdp_cback status recrd cb =
     (let (found, svc) =
        (if status = SDP_SUCCESS
         then (case recrd of
                 None \<Rightarrow> (False, a2d_service_zero)
               | Some r \<Rightarrow>
                   (let s0 = a2d_service_zero;
                        s1 = (case rec_service_name r of None \<Rightarrow> s0 | Some nm \<Rightarrow>
                               s0\<lparr>p_service_name := Some nm, service_len := of_nat (length nm)\<rparr>);
                        s2 = (case rec_provider_name r of None \<Rightarrow> s1 | Some nm \<Rightarrow>
                               s1\<lparr>p_provider_name := Some nm, provider_len := of_nat (length nm)\<rparr>);
                        s3 = (case rec_features r of None \<Rightarrow> s2 | Some f \<Rightarrow> s2\<lparr>svc_features := f\<rparr>);
                        s4 = (case rec_avdtp_param r of None \<Rightarrow> s3 | Some v \<Rightarrow>
                               s3\<lparr>svc_avdt_version := v\<rparr>)
                    in (True, s4)))
         else (False, a2d_service_zero));
        cb' = cb\<lparr>find_service_uuid := 0\<rparr>
      in (case find_p_cback cb' of None \<Rightarrow> None | Some f \<Rightarrow> Some (f, found, svc), cb'))"

text \<open>
  A discovery in progress is the audio UUID in the control block; these are the two ways a
  history of calls can change it.
\<close>

definition find_busy :: "tA2D_CB \<Rightarrow> bool" where
  "find_busy cb \<longleftrightarrow> find_service_uuid cb = UUID_SERVCLASS_AUDIO_SOURCE \<or>
     find_service_uuid cb = UUID_SERVCLASS_AUDIO_SINK"

lemma A2D_FindService_busy:
  "find_busy cb \<Longrightarrow> snd (snd (A2D_FindService i s u db f cb)) = cb \<and>
     fst (A2D_FindService i s u db f cb) \<noteq> A2D_SUCCESS"
  by (auto simp: A2D_FindService_def find_busy_def split: option.splits)

lemma A2D_FindService_success:
  "A2D_FindService i s u db f cb = (A2D_SUCCESS, db', cb') \<Longrightarrow>
     \<not> find_busy cb \<and> find_busy cb' \<and> find_p_cback cb' = f \<and> f \<noteq> None"
  by (auto simp: A2D_FindService_def find_busy_def Let_def split: option.splits if_splits)

lemma A2D_FindService_failure:
  "A2D_FindService i s u db f cb = (st, db', cb') \<Longrightarrow> st \<noteq> A2D_SUCCESS \<Longrightarrow>
     find_busy cb' = find_busy cb"
  by (auto simp: A2D_FindService_def find_busy_def Let_def split: option.splits if_splits)

lemma a2d_sdp_cback_releases: "\<not> find_busy (snd (a2d_sdp_cback st r cb))"
  by (simp add: a2d_sdp_cback_def find_busy_def Let_def split: prod.splits)

text \<open>
  \<open>A2D_AddRecord\<close> fills a service record by calls to SDP, whose results are those of the stack's
  SDP server: \<open>sdp\<close> gives the result of the last call of a sequence. All calls are made, also
  after one has failed. Names are given without their final NUL, which is sent.
\<close>

datatype sdp_call =
    SDP_AddServiceClassIdList u32 "u16 list"
  | SDP_AddProtocolList u32 "(u16 \<times> u16 list) list"
  | SDP_AddProfileDescriptorList u32 u16 u16
  | SDP_AddAttribute u32 u16 u8 "u8 list"
  | SDP_AddUuidSequence u32 u16 "u16 list"

definition A2D_AddRecord ::
  "(sdp_call list \<Rightarrow> bool) \<Rightarrow> u16 \<Rightarrow> u8 list option \<Rightarrow> u8 list option \<Rightarrow> u16 \<Rightarrow> u32 \<Rightarrow> tA2D_CB \<Rightarrow>
   u8 \<times> sdp_call list" where
  "A2D_AddRecord sdp service_uuid service_name provider_name features sdp_handle cb =
     (if sdp_handle = 0 \<or>
         (service_uuid \<noteq> UUID_SERVCLASS_AUDIO_SOURCE \<and> service_uuid \<noteq> UUID_SERVCLASS_AUDIO_SINK)
      then (A2D_INVALID_PARAMS, [])
      else
        (let calls =
           [SDP_AddServiceClassIdList sdp_handle [service_uuid],
            SDP_AddProtocolList sdp_handle
              [(UUID_PROTOCOL_L2CAP, [AVDT_PSM]), (UUID_PROTOCOL_AVDTP, [avdt_sdp_ver cb])],
            SDP_AddProfileDescriptorList sdp_handle UUID_SERVCLASS_ADV_AUDIO_DISTRIBUTION
              (a2dp_sdp_ver cb)] @
           (if features \<noteq> 0
            then [SDP_AddAttribute sdp_handle ATTR_ID_SUPPORTED_FEATURES UINT_DESC_TYPE
                    [ucast (drop_bit 8 features), ucast features]]
            else []) @
           (case provider_name of None \<Rightarrow> [] | Some nm \<Rightarrow>
              [SDP_AddAttribute sdp_handle ATTR_ID_PROVIDER_NAME TEXT_STR_DESC_TYPE (nm @ [0])]) @
           (case service_name of None \<Rightarrow> [] | Some nm \<Rightarrow>
              [SDP_AddAttribute sdp_handle ATTR_ID_SERVICE_NAME TEXT_STR_DESC_TYPE (nm @ [0])]) @
           [SDP_AddUuidSequence sdp_handle ATTR_ID_BROWSE_GROUP_LIST
              [UUID_SERVCLASS_PUBLIC_BROWSE_GROUP]];
             result = list_all (\<lambda>i. sdp (take (Suc i) calls)) [0 ..< length calls]
         in (if result then A2D_SUCCESS else A2D_FAIL, calls)))"

subsection \<open>Discovery as a state machine\<close>

text \<open>
  The control block together with the number of service searches that SDP still has to answer.
  A call of \<open>A2D_FindService\<close> that gets as far as an accepted search adds one; SDP answers each
  accepted search by one call of \<open>a2d_sdp_cback\<close>. The setters may be called at any time.
\<close>

inductive a2d_step :: "tA2D_CB \<times> nat \<Rightarrow> tA2D_CB \<times> nat \<Rightarrow> bool" where
  find_sent: "A2D_FindService i s u db f cb = (A2D_SUCCESS, db', cb') \<Longrightarrow>
    a2d_step (cb, n) (cb', Suc n)"
| find_refused: "A2D_FindService i s u db f cb = (st, db', cb') \<Longrightarrow> st \<noteq> A2D_SUCCESS \<Longrightarrow>
    a2d_step (cb, n) (cb', n)"
| answer: "a2d_sdp_cback st r cb = (call, cb') \<Longrightarrow> a2d_step (cb, Suc n) (cb', n)"
| set_avdt: "a2d_step (cb, n) (a2d_set_avdt_sdp_ver v cb, n)"
| set_a2dp: "a2d_step (cb, n) (a2d_set_a2dp_sdp_ver v cb, n)"
| set_trace: "a2d_step (cb, n) (snd (A2D_SetTraceLevel l cb), n)"

definition a2d_inv :: "tA2D_CB \<times> nat \<Rightarrow> bool" where
  "a2d_inv st \<longleftrightarrow> snd st = (if find_busy (fst st) then 1 else 0) \<and>
     (find_busy (fst st) \<longrightarrow> find_p_cback (fst st) \<noteq> None)"

lemma a2d_setters [simp]:
  "find_service_uuid (a2d_set_avdt_sdp_ver v cb) = find_service_uuid cb"
  "find_p_cback (a2d_set_avdt_sdp_ver v cb) = find_p_cback cb"
  "find_service_uuid (a2d_set_a2dp_sdp_ver v cb) = find_service_uuid cb"
  "find_p_cback (a2d_set_a2dp_sdp_ver v cb) = find_p_cback cb"
  "find_service_uuid (snd (A2D_SetTraceLevel l cb)) = find_service_uuid cb"
  "find_p_cback (snd (A2D_SetTraceLevel l cb)) = find_p_cback cb"
  by (simp_all add: a2d_set_avdt_sdp_ver_def a2d_set_a2dp_sdp_ver_def A2D_SetTraceLevel_def Let_def)

lemma A2D_FindService_refused_keeps:
  assumes "A2D_FindService i s u db f cb = (st, db', cb')" and "st \<noteq> A2D_SUCCESS"
  shows "find_busy cb' = find_busy cb \<and> (find_busy cb \<longrightarrow> cb' = cb)"
  using A2D_FindService_failure [OF assms] A2D_FindService_busy [of cb i s u db f] assms by auto

lemma a2d_step_inv: "a2d_step st st' \<Longrightarrow> a2d_inv st \<Longrightarrow> a2d_inv st'"
proof (induction rule: a2d_step.induct)
  case (find_sent i s u db f cb db' cb' n)
  then show ?case using A2D_FindService_success [OF find_sent.hyps] by (simp add: a2d_inv_def)
next
  case (find_refused i s u db f cb st db' cb' n)
  then show ?case using A2D_FindService_refused_keeps [OF find_refused.hyps]
    by (cases "find_busy cb") (simp_all add: a2d_inv_def)
next
  case (answer st r cb call cb' n)
  then show ?case using a2d_sdp_cback_releases [of st r cb]
    by (auto simp: a2d_inv_def split: if_splits)
qed (simp_all add: a2d_inv_def find_busy_def)

lemma a2d_init_inv: "a2d_inv (A2D_Init l, 0)"
  by (simp add: a2d_inv_def A2D_Init_def find_busy_def)

lemma a2d_reachable_inv: "a2d_step\<^sup>*\<^sup>* (A2D_Init l, 0) st \<Longrightarrow> a2d_inv st"
  by (induction rule: rtranclp_induct) (use a2d_init_inv a2d_step_inv in blast)+

text \<open>
  C36 (invariant). Whatever calls and answers follow the initialisation of the layer, at most one
  service search is outstanding, and the layer reports itself busy exactly while one is; then a
  callback is registered, so the answer reaches the application.
\<close>
theorem a2d_one_discovery:
  assumes "a2d_step\<^sup>*\<^sup>* (A2D_Init l, 0) (cb, n)"
  shows "n \<le> 1 \<and> (n = 1 \<longleftrightarrow> find_busy cb) \<and>
    (n = 1 \<longrightarrow> fst (a2d_sdp_cback st r cb) \<noteq> None)"
  using a2d_reachable_inv [OF assms]
  by (auto simp: a2d_inv_def a2d_sdp_cback_def Let_def split: if_splits prod.splits)

theorem a2d_one_discovery_witness:
  "(1 :: nat) \<le> 1 \<and> find_busy ((A2D_Init 0)\<lparr>find_p_db := Some 7,
      find_service_uuid := UUID_SERVCLASS_AUDIO_SINK, find_p_cback := Some 3\<rparr>)"
proof -
  let ?db = "\<lparr>db_len = 1000, num_attr = 0, p_db = Some 7, p_attrs = None\<rparr>"
  let ?cb = "(A2D_Init 0)\<lparr>find_p_db := Some 7,
      find_service_uuid := UUID_SERVCLASS_AUDIO_SINK, find_p_cback := Some 3\<rparr>"
  have "A2D_FindService (\<lambda>_ _. True) True UUID_SERVCLASS_AUDIO_SINK (Some ?db) (Some 3) (A2D_Init 0) =
      (A2D_SUCCESS, Some (?db\<lparr>p_attrs := Some a2d_attr_list, num_attr := 6\<rparr>), ?cb)"
    by (simp add: A2D_FindService_def A2D_Init_def)
  then have "a2d_step\<^sup>*\<^sup>* (A2D_Init 0, 0) (?cb, 1)"
    using find_sent [of _ _ _ _ _ "A2D_Init 0"] by fastforce
  from a2d_one_discovery [OF this] show ?thesis by simp
qed

text \<open>
  The bit counter answers zero, one or several exactly by the number of bits
  that are set in the 64 bit word.
\<close>
theorem bits_set_counts:
  "A2D_BitsSet num =
     (if card {n. bit num n} = 0 then A2D_SET_ZERO_BIT
      else if card {n. bit num n} = 1 then A2D_SET_ONE_BIT else A2D_SET_MULTL_BIT)"
proof (cases "card {n. bit num n} = 1")
  case True
  then show ?thesis using A2D_BitsSet_card_one [of num] by simp
next
  case False
  have "{n. bit num n} = {} \<longleftrightarrow> num = 0"
    by (auto intro!: bit_word_eqI)
  then have "card {n. bit num n} = 0 \<longleftrightarrow> num = 0" by simp
  moreover have "A2D_BitsSet num \<noteq> A2D_SET_ONE_BIT"
    using False by (simp add: A2D_BitsSet_card_one)
  ultimately show ?thesis using False by (auto simp: A2D_BitsSet_def split: if_splits)
qed

end
