(* ===== verification/Codec_Interface.thy ===== *)
theory Codec_Interface
  imports A2D_Api
begin

text \<open>
  The contract every codec of stack/a2dp offers to the layers above it (the dispatchers
  a2dp\_vendor.c and a2dp\_codec\_config.c, and the call-outs of bta\_av\_co.c): a parser and a
  builder of the codec information element, which are inverse to each other on well-formed
  elements; the parser looks at no byte beyond the element, and the builder writes none. Each codec theory
  interprets the locale that fits its code.

  \<open>strict_codec\<close> is a codec whose configurations are always acceptable as capabilities;
  \<open>lenient_codec\<close> one whose parser checks nothing more for a configuration, so that every
  capability passes as a configuration.
\<close>

type_synonym 'cie parser = "'cie option \<Rightarrow> buf option \<Rightarrow> bool \<Rightarrow> u8 \<times> 'cie option"
type_synonym 'cie builder = "u8 \<Rightarrow> 'cie option \<Rightarrow> buf option \<Rightarrow> u8 \<times> buf option"

text \<open>The enumerators of bt\_av.h, with every decoder of the configuration included.\<close>

datatype btav_a2dp_codec_index_t =
    BTAV_A2DP_CODEC_INDEX_SOURCE_SBC | BTAV_A2DP_CODEC_INDEX_SOURCE_AAC
  | BTAV_A2DP_CODEC_INDEX_SOURCE_APTX | BTAV_A2DP_CODEC_INDEX_SOURCE_APTX_HD
  | BTAV_A2DP_CODEC_INDEX_SOURCE_APTX_LL | BTAV_A2DP_CODEC_INDEX_SOURCE_LDAC
  | BTAV_A2DP_CODEC_INDEX_SOURCE_OPUS | BTAV_A2DP_CODEC_INDEX_SOURCE_LC3PLUS
  | BTAV_A2DP_CODEC_INDEX_SOURCE_LHDCV5
  | BTAV_A2DP_CODEC_INDEX_SINK_SBC | BTAV_A2DP_CODEC_INDEX_SINK_AAC
  | BTAV_A2DP_CODEC_INDEX_SINK_APTX | BTAV_A2DP_CODEC_INDEX_SINK_APTX_HD
  | BTAV_A2DP_CODEC_INDEX_SINK_APTX_LL | BTAV_A2DP_CODEC_INDEX_SINK_LDAC
  | BTAV_A2DP_CODEC_INDEX_SINK_OPUS | BTAV_A2DP_CODEC_INDEX_SINK_OPUS_ANDROID
  | BTAV_A2DP_CODEC_INDEX_SINK_LC3PLUS | BTAV_A2DP_CODEC_INDEX_SINK_LHDCV5
  | BTAV_A2DP_CODEC_INDEX_MAX

datatype btav_a2dp_codec_bits_per_sample_t =
    BTAV_A2DP_CODEC_BITS_PER_SAMPLE_NONE | BTAV_A2DP_CODEC_BITS_PER_SAMPLE_16
  | BTAV_A2DP_CODEC_BITS_PER_SAMPLE_24 | BTAV_A2DP_CODEC_BITS_PER_SAMPLE_32

text \<open>The decoder interface tables, each a distinct object of its codec's file.\<close>

datatype tA2DP_DECODER_INTERFACE =
    a2dp_decoder_interface_sbc | a2dp_decoder_interface_aac | a2dp_decoder_interface_aptx
  | a2dp_decoder_interface_aptx_hd | a2dp_decoder_interface_aptx_ll
  | a2dp_decoder_interface_ldac | a2dp_decoder_interface_opus
  | a2dp_decoder_interface_lc3plus | a2dp_decoder_interface_lhdcv5

text \<open>The media codec type is the third octet of every codec information element.\<close>

definition A2DP_GetCodecType :: "buf \<Rightarrow> u8" where
  "A2DP_GetCodecType p_codec_info = p_codec_info AVDT_CODEC_TYPE_INDEX"

locale codec_info =
  fixes parse :: "'cie parser"
    and build :: "'cie builder"
    and len :: nat
    and wf :: "'cie \<Rightarrow> bool"
    and norm :: "'cie \<Rightarrow> 'cie \<Rightarrow> 'cie"
  assumes len_bound: "len \<le> AVDT_CODEC_SIZE"
    and parse_local: "buf_agree len b b' \<Longrightarrow> parse p (Some b) cap = parse p (Some b') cap"
    and parse_status:
      "fst (parse (Some ie) (Some b) cap) = fst (parse (Some ie') (Some b) cap)"
    and parse_wf: "parse (Some ie0) (Some b) True = (A2D_SUCCESS, Some ie) \<Longrightarrow> wf ie"
    and build_frame: "len \<le> k \<Longrightarrow> \<exists>r'. snd (build mt p (Some r)) = Some r' \<and> r' k = r k"
    and parse_some: "snd (parse (Some ie0) (Some b) cap) \<noteq> None"
    and parse_build:
      "wf ie \<Longrightarrow> \<exists>r'. build A2D_MEDIA_TYPE_AUDIO (Some ie) (Some r) = (A2D_SUCCESS, Some r') \<and>
         parse (Some ie0) (Some r') True = (A2D_SUCCESS, Some (norm ie0 ie))"
begin

lemma parse_prefix:
  assumes "buf_agree AVDT_CODEC_SIZE b b'"
  shows "parse p (Some b) cap = parse p (Some b') cap"
  using assms len_bound by (blast intro: parse_local buf_agree_mono)

lemma parse_memcpy: "parse p (Some (memcpy d b AVDT_CODEC_SIZE)) cap = parse p (Some b) cap"
  by (rule parse_prefix) simp

lemma build_beyond: "len \<le> k \<Longrightarrow> the (snd (build mt p (Some r))) k = r k"
  using build_frame [of k mt p r] by auto

lemma build_success:
  "wf ie \<Longrightarrow> fst (build A2D_MEDIA_TYPE_AUDIO (Some ie) (Some r)) = A2D_SUCCESS"
  by (metis fst_conv parse_build)

text \<open>Whatever the builder wrote for a well-formed element parses back to it.\<close>

lemma parse_built:
  assumes "wf ie" and "build A2D_MEDIA_TYPE_AUDIO (Some ie) (Some r) = (st, Some r')"
  shows "parse (Some ie0) (Some r') True = (A2D_SUCCESS, Some (norm ie0 ie))" and "st = A2D_SUCCESS"
  using parse_build [OF assms(1), of r ie0] assms(2) by auto

lemma built:
  assumes "wf ie"
  obtains r' where "build A2D_MEDIA_TYPE_AUDIO (Some ie) (Some r) = (A2D_SUCCESS, Some r')"
    and "\<And>ie0. parse (Some ie0) (Some r') True = (A2D_SUCCESS, Some (norm ie0 ie))"
  using parse_build [OF assms, of r] parse_built(1) [OF assms] by blast

lemma parsed:
  assumes "fst (parse (Some ie0) (Some b) True) = A2D_SUCCESS"
  obtains ie where "parse (Some ie0) (Some b) True = (A2D_SUCCESS, Some ie)" and "wf ie"
  using assms parse_some [of ie0 b True] parse_wf
  by (cases "parse (Some ie0) (Some b) True") auto

text \<open>Rebuilding a parsed element and parsing it again gives the same fields.\<close>

lemma rebuild:
  assumes "parse (Some ie0) (Some b) True = (A2D_SUCCESS, Some ie)"
  shows "\<exists>r'. build A2D_MEDIA_TYPE_AUDIO (Some ie) (Some r) = (A2D_SUCCESS, Some r') \<and>
    parse (Some ie1) (Some r') True = (A2D_SUCCESS, Some (norm ie1 ie))"
  using assms by (intro parse_build parse_wf)

end

locale strict_codec = codec_info +
  assumes config_capability:
    "fst (parse (Some ie) (Some b) False) = A2D_SUCCESS \<Longrightarrow>
       fst (parse (Some ie) (Some b) True) = A2D_SUCCESS"
begin

lemma either_capability:
  "fst (parse (Some ie) (Some b) False) = A2D_SUCCESS \<or>
   fst (parse (Some ie') (Some b) True) = A2D_SUCCESS \<longleftrightarrow>
   fst (parse (Some ie'') (Some b) True) = A2D_SUCCESS"
  using config_capability [of ie b] parse_status by metis

end

locale lenient_codec = codec_info +
  assumes capability_config:
    "fst (parse (Some ie) (Some b) True) = A2D_SUCCESS \<Longrightarrow>
       fst (parse (Some ie) (Some b) False) = A2D_SUCCESS"
begin

lemma either_config:
  "fst (parse (Some ie) (Some b) False) = A2D_SUCCESS \<or>
   fst (parse (Some ie') (Some b) True) = A2D_SUCCESS \<longleftrightarrow>
   fst (parse (Some ie'') (Some b) False) = A2D_SUCCESS"
  using capability_config parse_status by metis

end

text \<open>
  A codec whose configuration builder keeps to what the peer offered: the configuration it
  writes parses as one, and lies within the capability it was made from.
\<close>

locale negotiated_codec = codec_info +
  fixes ie_local :: 'a
    and negotiate :: "buf \<Rightarrow> buf \<Rightarrow> bool \<times> buf"
    and within :: "'a \<Rightarrow> 'a \<Rightarrow> bool"
  assumes negotiate_sound:
    "negotiate src r = (True, r') \<Longrightarrow>
       \<exists>s c. parse (Some ie_local) (Some src) True = (A2D_SUCCESS, Some s) \<and>
         parse (Some ie_local) (Some r') False = (A2D_SUCCESS, Some c) \<and> within c s"
    and negotiate_local: "buf_agree len src src' \<Longrightarrow> negotiate src r = negotiate src' r"
    and negotiate_frame: "len \<le> k \<Longrightarrow> snd (negotiate src r) k = r k"
begin

lemma negotiate_prefix:
  "buf_agree AVDT_CODEC_SIZE src src' \<Longrightarrow> negotiate src r = negotiate src' r"
  using len_bound by (blast intro: negotiate_local buf_agree_mono)

lemma negotiate_beyond: "AVDT_CODEC_SIZE \<le> k \<Longrightarrow> snd (negotiate src r) k = r k"
  using len_bound by (intro negotiate_frame) simp

lemma negotiated_needs_capability:
  "negotiate src r = (True, r') \<Longrightarrow> fst (parse (Some ie) (Some src) True) = A2D_SUCCESS"
  using negotiate_sound [of src r r'] parse_status [of ie src True ie_local] by auto

lemma negotiated_is_config:
  "negotiate src r = (True, r') \<Longrightarrow> fst (parse (Some ie) (Some r') False) = A2D_SUCCESS"
  using negotiate_sound [of src r r'] parse_status [of ie r' False ie_local] by auto

end

end
