(* ===== verification/A2D_Sbc.thy ===== *)
theory A2D_Sbc
  imports Codec_Interface
begin

text \<open>
  stack/a2dp/a2d\_sbc.c: the SBC codec information element with its parser and builder, the
  header of a media packet, the check against the own capabilities and the choice of a
  configuration (48 kHz and joint stereo first, bitpool at most 53).
\<close>

abbreviation (input) A2D_SBC_INFO_LEN :: u8 where "A2D_SBC_INFO_LEN \<equiv> 6"
abbreviation (input) A2D_SBC_IE_SAMP_FREQ_MSK :: u8 where "A2D_SBC_IE_SAMP_FREQ_MSK \<equiv> 0xF0"
abbreviation (input) A2D_SBC_IE_SAMP_FREQ_16 :: u8 where "A2D_SBC_IE_SAMP_FREQ_16 \<equiv> 0x80"
abbreviation (input) A2D_SBC_IE_SAMP_FREQ_32 :: u8 where "A2D_SBC_IE_SAMP_FREQ_32 \<equiv> 0x40"
abbreviation (input) A2D_SBC_IE_SAMP_FREQ_44 :: u8 where "A2D_SBC_IE_SAMP_FREQ_44 \<equiv> 0x20"
abbreviation (input) A2D_SBC_IE_SAMP_FREQ_48 :: u8 where "A2D_SBC_IE_SAMP_FREQ_48 \<equiv> 0x10"
abbreviation (input) A2D_SBC_IE_CH_MD_MSK :: u8 where "A2D_SBC_IE_CH_MD_MSK \<equiv> 0x0F"
abbreviation (input) A2D_SBC_IE_CH_MD_MONO :: u8 where "A2D_SBC_IE_CH_MD_MONO \<equiv> 0x08"
abbreviation (input) A2D_SBC_IE_CH_MD_DUAL :: u8 where "A2D_SBC_IE_CH_MD_DUAL \<equiv> 0x04"
abbreviation (input) A2D_SBC_IE_CH_MD_STEREO :: u8 where "A2D_SBC_IE_CH_MD_STEREO \<equiv> 0x02"
abbreviation (input) A2D_SBC_IE_CH_MD_JOINT :: u8 where "A2D_SBC_IE_CH_MD_JOINT \<equiv> 0x01"
abbreviation (input) A2D_SBC_IE_BLOCKS_MSK :: u8 where "A2D_SBC_IE_BLOCKS_MSK \<equiv> 0xF0"
abbreviation (input) A2D_SBC_IE_BLOCKS_4 :: u8 where "A2D_SBC_IE_BLOCKS_4 \<equiv> 0x80"
abbreviation (input) A2D_SBC_IE_BLOCKS_8 :: u8 where "A2D_SBC_IE_BLOCKS_8 \<equiv> 0x40"
abbreviation (input) A2D_SBC_IE_BLOCKS_12 :: u8 where "A2D_SBC_IE_BLOCKS_12 \<equiv> 0x20"
abbreviation (input) A2D_SBC_IE_BLOCKS_16 :: u8 where "A2D_SBC_IE_BLOCKS_16 \<equiv> 0x10"
abbreviation (input) A2D_SBC_IE_SUBBAND_MSK :: u8 where "A2D_SBC_IE_SUBBAND_MSK \<equiv> 0x0C"
abbreviation (input) A2D_SBC_IE_SUBBAND_4 :: u8 where "A2D_SBC_IE_SUBBAND_4 \<equiv> 0x08"
abbreviation (input) A2D_SBC_IE_SUBBAND_8 :: u8 where "A2D_SBC_IE_SUBBAND_8 \<equiv> 0x04"
abbreviation (input) A2D_SBC_IE_ALLOC_MD_MSK :: u8 where "A2D_SBC_IE_ALLOC_MD_MSK \<equiv> 0x03"
abbreviation (input) A2D_SBC_IE_ALLOC_MD_S :: u8 where "A2D_SBC_IE_ALLOC_MD_S \<equiv> 0x02"
abbreviation (input) A2D_SBC_IE_ALLOC_MD_L :: u8 where "A2D_SBC_IE_ALLOC_MD_L \<equiv> 0x01"
abbreviation (input) A2D_SBC_IE_MIN_BITPOOL :: u8 where "A2D_SBC_IE_MIN_BITPOOL \<equiv> 2"
abbreviation (input) A2D_SBC_IE_MAX_BITPOOL :: u8 where "A2D_SBC_IE_MAX_BITPOOL \<equiv> 250"
abbreviation (input) A2D_SBC_HDR_F_MSK :: u8 where "A2D_SBC_HDR_F_MSK \<equiv> 0x80"
abbreviation (input) A2D_SBC_HDR_S_MSK :: u8 where "A2D_SBC_HDR_S_MSK \<equiv> 0x40"
abbreviation (input) A2D_SBC_HDR_L_MSK :: u8 where "A2D_SBC_HDR_L_MSK \<equiv> 0x20"
abbreviation (input) A2D_SBC_HDR_NUM_MSK :: u8 where "A2D_SBC_HDR_NUM_MSK \<equiv> 0x0F"
abbreviation (input) BTA_AV_CO_SBC_MAX_BITPOOL :: u8 where "BTA_AV_CO_SBC_MAX_BITPOOL \<equiv> 53"
abbreviation (input) BTC_AV_SBC_DEFAULT_SAMP_FREQ :: u8 where "BTC_AV_SBC_DEFAULT_SAMP_FREQ \<equiv> A2D_SBC_IE_SAMP_FREQ_44"

record tA2D_SBC_CIE =
  sbc_samp_freq :: u8
  sbc_ch_mode :: u8
  sbc_block_len :: u8
  sbc_num_subbands :: u8
  sbc_alloc_mthd :: u8
  sbc_max_bitpool :: u8
  sbc_min_bitpool :: u8

definition sbc_cie_local :: tA2D_SBC_CIE where
  "sbc_cie_local = \<lparr>sbc_samp_freq = 0, sbc_ch_mode = 0, sbc_block_len = 0, sbc_num_subbands = 0,
     sbc_alloc_mthd = 0, sbc_max_bitpool = 0, sbc_min_bitpool = 0\<rparr>"

definition a2dp_sbc_src_caps :: tA2D_SBC_CIE where
  "a2dp_sbc_src_caps = \<lparr>sbc_samp_freq = A2D_SBC_IE_SAMP_FREQ_44,
     sbc_ch_mode = A2D_SBC_IE_CH_MD_MONO OR A2D_SBC_IE_CH_MD_STEREO OR A2D_SBC_IE_CH_MD_JOINT OR
       A2D_SBC_IE_CH_MD_DUAL,
     sbc_block_len = A2D_SBC_IE_BLOCKS_16 OR A2D_SBC_IE_BLOCKS_12 OR A2D_SBC_IE_BLOCKS_8 OR
       A2D_SBC_IE_BLOCKS_4,
     sbc_num_subbands = A2D_SBC_IE_SUBBAND_4 OR A2D_SBC_IE_SUBBAND_8,
     sbc_alloc_mthd = A2D_SBC_IE_ALLOC_MD_L OR A2D_SBC_IE_ALLOC_MD_S,
     sbc_max_bitpool = BTA_AV_CO_SBC_MAX_BITPOOL, sbc_min_bitpool = A2D_SBC_IE_MIN_BITPOOL\<rparr>"

definition a2dp_sbc_sink_caps :: tA2D_SBC_CIE where
  "a2dp_sbc_sink_caps = \<lparr>sbc_samp_freq = A2D_SBC_IE_SAMP_FREQ_48 OR A2D_SBC_IE_SAMP_FREQ_44,
     sbc_ch_mode = A2D_SBC_IE_CH_MD_MONO OR A2D_SBC_IE_CH_MD_STEREO OR A2D_SBC_IE_CH_MD_JOINT OR
       A2D_SBC_IE_CH_MD_DUAL,
     sbc_block_len = A2D_SBC_IE_BLOCKS_16 OR A2D_SBC_IE_BLOCKS_12 OR A2D_SBC_IE_BLOCKS_8 OR
       A2D_SBC_IE_BLOCKS_4,
     sbc_num_subbands = A2D_SBC_IE_SUBBAND_4 OR A2D_SBC_IE_SUBBAND_8,
     sbc_alloc_mthd = A2D_SBC_IE_ALLOC_MD_L OR A2D_SBC_IE_ALLOC_MD_S,
     sbc_max_bitpool = A2D_SBC_IE_MAX_BITPOOL, sbc_min_bitpool = A2D_SBC_IE_MIN_BITPOOL\<rparr>"

definition a2dp_sbc_default_config :: tA2D_SBC_CIE where
  "a2dp_sbc_default_config = \<lparr>sbc_samp_freq = BTC_AV_SBC_DEFAULT_SAMP_FREQ,
     sbc_ch_mode = A2D_SBC_IE_CH_MD_JOINT, sbc_block_len = A2D_SBC_IE_BLOCKS_16,
     sbc_num_subbands = A2D_SBC_IE_SUBBAND_8, sbc_alloc_mthd = A2D_SBC_IE_ALLOC_MD_L,
     sbc_max_bitpool = BTA_AV_CO_SBC_MAX_BITPOOL, sbc_min_bitpool = A2D_SBC_IE_MIN_BITPOOL\<rparr>"

text \<open>Nothing is written unless every field is in range.\<close>

definition A2D_BldSbcInfo :: "tA2D_SBC_CIE builder" where
  "A2D_BldSbcInfo media_type p_ie p_result =
     (case (p_ie, p_result) of
        (Some ie, Some r) \<Rightarrow>
          if sbc_samp_freq ie AND NOT A2D_SBC_IE_SAMP_FREQ_MSK \<noteq> 0 \<or>
             sbc_ch_mode ie AND NOT A2D_SBC_IE_CH_MD_MSK \<noteq> 0 \<or>
             sbc_block_len ie AND NOT A2D_SBC_IE_BLOCKS_MSK \<noteq> 0 \<or>
             sbc_num_subbands ie AND NOT A2D_SBC_IE_SUBBAND_MSK \<noteq> 0 \<or>
             sbc_alloc_mthd ie AND NOT A2D_SBC_IE_ALLOC_MD_MSK \<noteq> 0 \<or>
             sbc_max_bitpool ie < sbc_min_bitpool ie \<or>
             sbc_max_bitpool ie < A2D_SBC_IE_MIN_BITPOOL \<or>
             sbc_max_bitpool ie > A2D_SBC_IE_MAX_BITPOOL \<or>
             sbc_min_bitpool ie < A2D_SBC_IE_MIN_BITPOOL \<or>
             sbc_min_bitpool ie > A2D_SBC_IE_MAX_BITPOOL
          then (A2D_INVALID_PARAMS, Some r)
          else (A2D_SUCCESS, Some (store r 0
                 [A2D_SBC_INFO_LEN, media_type, A2D_MEDIA_CT_SBC,
                  sbc_samp_freq ie OR sbc_ch_mode ie,
                  sbc_block_len ie OR sbc_num_subbands ie OR sbc_alloc_mthd ie,
                  sbc_min_bitpool ie, sbc_max_bitpool ie]))
      | _ \<Rightarrow> (A2D_INVALID_PARAMS, p_result))"

definition A2D_ParsSbcInfo :: "tA2D_SBC_CIE parser" where
  "A2D_ParsSbcInfo p_ie p_info for_caps =
     (case (p_ie, p_info) of
        (Some ie, Some b) \<Rightarrow>
          (let losc = b 0; media_type = b 1
           in if losc \<noteq> A2D_SBC_INFO_LEN \<or> media_type \<noteq> A2D_MEDIA_TYPE_AUDIO \<or> b 2 \<noteq> A2D_MEDIA_CT_SBC
              then (A2D_WRONG_CODEC, Some ie)
              else
                (let ie' = ie\<lparr>sbc_samp_freq := b 3 AND A2D_SBC_IE_SAMP_FREQ_MSK,
                       sbc_ch_mode := b 3 AND A2D_SBC_IE_CH_MD_MSK,
                       sbc_block_len := b 4 AND A2D_SBC_IE_BLOCKS_MSK,
                       sbc_num_subbands := b 4 AND A2D_SBC_IE_SUBBAND_MSK,
                       sbc_alloc_mthd := b 4 AND A2D_SBC_IE_ALLOC_MD_MSK,
                       sbc_min_bitpool := b 5, sbc_max_bitpool := b 6\<rparr>
                 in ((if sbc_min_bitpool ie' < A2D_SBC_IE_MIN_BITPOOL \<or>
                         sbc_min_bitpool ie' > A2D_SBC_IE_MAX_BITPOOL then A2D_BAD_MIN_BITPOOL
                      else if sbc_max_bitpool ie' < A2D_SBC_IE_MIN_BITPOOL \<or>
                         sbc_max_bitpool ie' > A2D_SBC_IE_MAX_BITPOOL \<or>
                         sbc_max_bitpool ie' < sbc_min_bitpool ie' then A2D_BAD_MAX_BITPOOL
                      else if \<not> for_caps then
                        (if A2D_BitsSet (ucast (sbc_samp_freq ie')) \<noteq> A2D_SET_ONE_BIT
                         then A2D_BAD_SAMP_FREQ
                         else if A2D_BitsSet (ucast (sbc_ch_mode ie')) \<noteq> A2D_SET_ONE_BIT
                         then A2D_BAD_CH_MODE
                         else if A2D_BitsSet (ucast (sbc_block_len ie')) \<noteq> A2D_SET_ONE_BIT
                         then A2D_BAD_BLOCK_LEN
                         else if A2D_BitsSet (ucast (sbc_num_subbands ie')) \<noteq> A2D_SET_ONE_BIT
                         then A2D_BAD_SUBBANDS
                         else if A2D_BitsSet (ucast (sbc_alloc_mthd ie')) \<noteq> A2D_SET_ONE_BIT
                         then A2D_BAD_ALLOC_MTHD else A2D_SUCCESS)
                      else A2D_SUCCESS), Some ie')))
      | _ \<Rightarrow> (A2D_INVALID_PARAMS, p_ie))"

definition A2D_BldSbcMplHdr :: "u8 option \<Rightarrow> bool \<Rightarrow> bool \<Rightarrow> bool \<Rightarrow> u8 \<Rightarrow> u8 option" where
  "A2D_BldSbcMplHdr p_dst frag start last_pkt num =
     (case p_dst of
        None \<Rightarrow> None
      | Some _ \<Rightarrow>
          (let d0 = 0;
               d1 = (if frag then d0 OR A2D_SBC_HDR_F_MSK else d0);
               d2 = (if start then d1 OR A2D_SBC_HDR_S_MSK else d1);
               d3 = (if last_pkt then d2 OR A2D_SBC_HDR_L_MSK else d2)
           in Some (d3 OR (A2D_SBC_HDR_NUM_MSK AND num))))"

text \<open>The four results of the header parser; with a NULL argument none of them is written.\<close>

definition A2D_ParsSbcMplHdr ::
  "u8 option \<Rightarrow> bool option \<Rightarrow> bool option \<Rightarrow> bool option \<Rightarrow> u8 option \<Rightarrow>
     bool option \<times> bool option \<times> bool option \<times> u8 option" where
  "A2D_ParsSbcMplHdr p_src p_frag p_start p_last p_num =
     (case p_src of
        Some h \<Rightarrow>
          if p_frag \<noteq> None \<and> p_start \<noteq> None \<and> p_last \<noteq> None \<and> p_num \<noteq> None
          then (Some (h AND A2D_SBC_HDR_F_MSK \<noteq> 0), Some (h AND A2D_SBC_HDR_S_MSK \<noteq> 0),
                Some (h AND A2D_SBC_HDR_L_MSK \<noteq> 0), Some (h AND A2D_SBC_HDR_NUM_MSK))
          else (p_frag, p_start, p_last, p_num)
      | None \<Rightarrow> (p_frag, p_start, p_last, p_num))"

definition A2DP_CodecNameSbc :: "buf \<Rightarrow> string" where
  "A2DP_CodecNameSbc p = ''SBC''"

definition A2DP_IsSinkCodecValidSbc :: "buf \<Rightarrow> bool" where
  "A2DP_IsSinkCodecValidSbc p \<longleftrightarrow>
     fst (A2D_ParsSbcInfo (Some sbc_cie_local) (Some p) False) = A2D_SUCCESS \<or>
     fst (A2D_ParsSbcInfo (Some sbc_cie_local) (Some p) True) = A2D_SUCCESS"

definition A2DP_IsPeerSinkCodecValidSbc :: "buf \<Rightarrow> bool" where
  "A2DP_IsPeerSinkCodecValidSbc p \<longleftrightarrow>
     fst (A2D_ParsSbcInfo (Some sbc_cie_local) (Some p) False) = A2D_SUCCESS \<or>
     fst (A2D_ParsSbcInfo (Some sbc_cie_local) (Some p) True) = A2D_SUCCESS"

definition A2DP_CodecInfoMatchesCapabilitySbc :: "tA2D_SBC_CIE \<Rightarrow> buf \<Rightarrow> bool \<Rightarrow> u8" where
  "A2DP_CodecInfoMatchesCapabilitySbc p_cap p is_capability =
     (case A2D_ParsSbcInfo (Some sbc_cie_local) (Some p) is_capability of
        (status, cfg) \<Rightarrow>
          if status \<noteq> A2D_SUCCESS then status
          else if sbc_samp_freq (the cfg) AND sbc_samp_freq p_cap = 0 then A2D_NS_SAMP_FREQ
          else if sbc_ch_mode (the cfg) AND sbc_ch_mode p_cap = 0 then A2D_NS_CH_MODE
          else if sbc_block_len (the cfg) AND sbc_block_len p_cap = 0 then A2D_BAD_BLOCK_LEN
          else if sbc_num_subbands (the cfg) AND sbc_num_subbands p_cap = 0 then A2D_NS_SUBBANDS
          else if sbc_alloc_mthd (the cfg) AND sbc_alloc_mthd p_cap = 0 then A2D_NS_ALLOC_MTHD
          else if sbc_min_bitpool (the cfg) > sbc_max_bitpool p_cap then A2D_NS_MIN_BITPOOL
          else if sbc_max_bitpool (the cfg) < sbc_min_bitpool p_cap then A2D_NS_MAX_BITPOOL
          else A2D_SUCCESS)"

definition A2DP_IsSinkCodecSupportedSbc :: "buf \<Rightarrow> u8" where
  "A2DP_IsSinkCodecSupportedSbc p = A2DP_CodecInfoMatchesCapabilitySbc a2dp_sbc_sink_caps p False"

definition A2DP_IsPeerSourceCodecSupportedSbc :: "buf \<Rightarrow> u8" where
  "A2DP_IsPeerSourceCodecSupportedSbc p =
     A2DP_CodecInfoMatchesCapabilitySbc a2dp_sbc_sink_caps p True"

definition A2DP_SinkCodecIndexSbc :: "buf \<Rightarrow> btav_a2dp_codec_index_t" where
  "A2DP_SinkCodecIndexSbc p = BTAV_A2DP_CODEC_INDEX_SINK_SBC"

definition A2DP_SourceCodecIndexSbc :: "buf \<Rightarrow> btav_a2dp_codec_index_t" where
  "A2DP_SourceCodecIndexSbc p = BTAV_A2DP_CODEC_INDEX_SOURCE_SBC"

definition A2DP_CodecTypeEqualsSbc :: "buf \<Rightarrow> buf \<Rightarrow> bool" where
  "A2DP_CodecTypeEqualsSbc a b =
     (if fst (A2D_ParsSbcInfo (Some sbc_cie_local) (Some a) True) \<noteq> A2D_SUCCESS then False
      else if fst (A2D_ParsSbcInfo (Some sbc_cie_local) (Some b) True) \<noteq> A2D_SUCCESS then False
      else A2DP_GetCodecType a = A2DP_GetCodecType b \<and> A2DP_GetCodecType a = A2D_MEDIA_CT_SBC)"

definition A2DP_InitCodecConfigSbcSink :: "buf \<Rightarrow> bool \<times> buf" where
  "A2DP_InitCodecConfigSbcSink p =
     (case A2D_BldSbcInfo A2D_MEDIA_TYPE_AUDIO (Some a2dp_sbc_sink_caps) (Some p) of
        (sts, p') \<Rightarrow> if sts \<noteq> A2D_SUCCESS then (False, the p') else (True, the p'))"

definition A2DP_InitCodecConfigSbcSrc :: "buf \<Rightarrow> bool \<times> buf" where
  "A2DP_InitCodecConfigSbcSrc p =
     (case A2D_BldSbcInfo A2D_MEDIA_TYPE_AUDIO (Some a2dp_sbc_src_caps) (Some p) of
        (sts, p') \<Rightarrow> if sts \<noteq> A2D_SUCCESS then (False, the p') else (True, the p'))"

definition A2DP_InitCodecConfigSbc :: "btav_a2dp_codec_index_t \<Rightarrow> buf \<Rightarrow> bool \<times> buf" where
  "A2DP_InitCodecConfigSbc codec_index p =
     (case codec_index of
        BTAV_A2DP_CODEC_INDEX_SINK_SBC \<Rightarrow> A2DP_InitCodecConfigSbcSink p
      | BTAV_A2DP_CODEC_INDEX_SOURCE_SBC \<Rightarrow> A2DP_InitCodecConfigSbcSrc p
      | _ \<Rightarrow> (False, p))"

text \<open>The preferred configuration for the capabilities of a source, from the default one.\<close>

definition sbc_pref_cap :: "tA2D_SBC_CIE \<Rightarrow> tA2D_SBC_CIE" where
  "sbc_pref_cap src_cap =
     (let dft = a2dp_sbc_default_config
      in dft\<lparr>
           sbc_samp_freq := first_set_or (sbc_samp_freq src_cap)
             [A2D_SBC_IE_SAMP_FREQ_48, A2D_SBC_IE_SAMP_FREQ_44] (sbc_samp_freq dft),
           sbc_ch_mode := first_set_or (sbc_ch_mode src_cap)
             [A2D_SBC_IE_CH_MD_JOINT, A2D_SBC_IE_CH_MD_STEREO, A2D_SBC_IE_CH_MD_DUAL,
              A2D_SBC_IE_CH_MD_MONO] (sbc_ch_mode dft),
           sbc_block_len := first_set_or (sbc_block_len src_cap)
             [A2D_SBC_IE_BLOCKS_16, A2D_SBC_IE_BLOCKS_12, A2D_SBC_IE_BLOCKS_8,
              A2D_SBC_IE_BLOCKS_4] (sbc_block_len dft),
           sbc_num_subbands := first_set_or (sbc_num_subbands src_cap)
             [A2D_SBC_IE_SUBBAND_8, A2D_SBC_IE_SUBBAND_4] (sbc_num_subbands dft),
           sbc_alloc_mthd := first_set_or (sbc_alloc_mthd src_cap)
             [A2D_SBC_IE_ALLOC_MD_L, A2D_SBC_IE_ALLOC_MD_S] (sbc_alloc_mthd dft),
           sbc_max_bitpool :=
             (if A2D_SBC_IE_MIN_BITPOOL \<le> sbc_max_bitpool src_cap \<and>
                 sbc_max_bitpool src_cap \<le> A2D_SBC_IE_MAX_BITPOOL
              then if sbc_max_bitpool dft < sbc_max_bitpool src_cap
                   then sbc_max_bitpool dft else sbc_max_bitpool src_cap
              else sbc_max_bitpool dft),
           sbc_min_bitpool :=
             (if A2D_SBC_IE_MIN_BITPOOL \<le> sbc_min_bitpool src_cap \<and>
                 sbc_min_bitpool src_cap \<le> A2D_SBC_IE_MAX_BITPOOL
              then if sbc_min_bitpool dft > sbc_min_bitpool src_cap
                   then sbc_min_bitpool dft else sbc_min_bitpool src_cap
              else sbc_min_bitpool dft)\<rparr>)"

definition A2DP_BuildCodecConfigSbc :: "buf \<Rightarrow> buf \<Rightarrow> bool \<times> buf" where
  "A2DP_BuildCodecConfigSbc p_src_cap p_result =
     (case A2D_ParsSbcInfo (Some sbc_cie_local) (Some p_src_cap) True of
        (status, src) \<Rightarrow>
          if status \<noteq> 0 then (False, p_result)
          else (case A2D_BldSbcInfo A2D_MEDIA_TYPE_AUDIO (Some (sbc_pref_cap (the src)))
                       (Some p_result) of
                  (sts, r) \<Rightarrow> (sts = A2D_SUCCESS, the r)))"

definition A2DP_GetDecoderInterfaceSbc :: "buf \<Rightarrow> tA2DP_DECODER_INTERFACE option" where
  "A2DP_GetDecoderInterfaceSbc p =
     (if \<not> A2DP_IsSinkCodecValidSbc p then None else Some a2dp_decoder_interface_sbc)"

subsection \<open>The contract\<close>

text \<open>What the builder accepts: no unused bit set, an ordered bitpool range within 2 to 250.\<close>

definition sbc_wf :: "tA2D_SBC_CIE \<Rightarrow> bool" where
  "sbc_wf ie \<longleftrightarrow>
     sbc_samp_freq ie AND A2D_SBC_IE_SAMP_FREQ_MSK = sbc_samp_freq ie \<and>
     sbc_ch_mode ie AND A2D_SBC_IE_CH_MD_MSK = sbc_ch_mode ie \<and>
     sbc_block_len ie AND A2D_SBC_IE_BLOCKS_MSK = sbc_block_len ie \<and>
     sbc_num_subbands ie AND A2D_SBC_IE_SUBBAND_MSK = sbc_num_subbands ie \<and>
     sbc_alloc_mthd ie AND A2D_SBC_IE_ALLOC_MD_MSK = sbc_alloc_mthd ie \<and>
     A2D_SBC_IE_MIN_BITPOOL \<le> sbc_min_bitpool ie \<and> sbc_min_bitpool ie \<le> sbc_max_bitpool ie \<and>
     sbc_max_bitpool ie \<le> A2D_SBC_IE_MAX_BITPOOL"

text \<open>Every field is written out, so parsing forgets what was in the element before.\<close>

definition sbc_norm :: "tA2D_SBC_CIE \<Rightarrow> tA2D_SBC_CIE \<Rightarrow> tA2D_SBC_CIE" where
  "sbc_norm ie0 ie = ie"

lemma A2D_BldSbcInfo_wf:
  "A2D_BldSbcInfo mt (Some ie) (Some r) =
     (if sbc_wf ie then (A2D_SUCCESS, Some (store r 0
        [A2D_SBC_INFO_LEN, mt, A2D_MEDIA_CT_SBC, sbc_samp_freq ie OR sbc_ch_mode ie,
         sbc_block_len ie OR sbc_num_subbands ie OR sbc_alloc_mthd ie,
         sbc_min_bitpool ie, sbc_max_bitpool ie]))
      else (A2D_INVALID_PARAMS, Some r))"
  unfolding A2D_BldSbcInfo_def and_not_mask_iff by (auto simp: sbc_wf_def not_less)

lemma sbc_wf_packed:
  assumes "sbc_wf ie"
  shows "(sbc_samp_freq ie OR sbc_ch_mode ie) AND A2D_SBC_IE_SAMP_FREQ_MSK = sbc_samp_freq ie"
    and "(sbc_samp_freq ie OR sbc_ch_mode ie) AND A2D_SBC_IE_CH_MD_MSK = sbc_ch_mode ie"
    and "(sbc_block_len ie OR sbc_num_subbands ie OR sbc_alloc_mthd ie) AND A2D_SBC_IE_BLOCKS_MSK =
      sbc_block_len ie"
    and "(sbc_block_len ie OR sbc_num_subbands ie OR sbc_alloc_mthd ie) AND A2D_SBC_IE_SUBBAND_MSK =
      sbc_num_subbands ie"
    and "(sbc_block_len ie OR sbc_num_subbands ie OR sbc_alloc_mthd ie) AND A2D_SBC_IE_ALLOC_MD_MSK =
      sbc_alloc_mthd ie"
proof -
  note wf = assms [unfolded sbc_wf_def]
  show "(sbc_samp_freq ie OR sbc_ch_mode ie) AND A2D_SBC_IE_SAMP_FREQ_MSK = sbc_samp_freq ie"
    and "(sbc_samp_freq ie OR sbc_ch_mode ie) AND A2D_SBC_IE_CH_MD_MSK = sbc_ch_mode ie"
    using wf or_and_mask [where x = "sbc_samp_freq ie" and m = "0xF0" and y = "sbc_ch_mode ie" and m' = "0x0F"]
      or_and_mask [where x = "sbc_ch_mode ie" and m = "0x0F" and y = "sbc_samp_freq ie" and m' = "0xF0"] by simp_all
  show "(sbc_block_len ie OR sbc_num_subbands ie OR sbc_alloc_mthd ie) AND A2D_SBC_IE_BLOCKS_MSK =
      sbc_block_len ie"
    and "(sbc_block_len ie OR sbc_num_subbands ie OR sbc_alloc_mthd ie) AND A2D_SBC_IE_SUBBAND_MSK =
      sbc_num_subbands ie"
    and "(sbc_block_len ie OR sbc_num_subbands ie OR sbc_alloc_mthd ie) AND A2D_SBC_IE_ALLOC_MD_MSK =
      sbc_alloc_mthd ie"
    using wf or_and_mask3 [where x = "sbc_block_len ie" and m = "0xF0" and y = "sbc_num_subbands ie" and m' = "0x0C" and z = "sbc_alloc_mthd ie" and m'' = "0x03"]
      or_and_mask3 [where x = "sbc_num_subbands ie" and m = "0x0C" and y = "sbc_block_len ie" and m' = "0xF0" and z = "sbc_alloc_mthd ie" and m'' = "0x03"]
      or_and_mask3 [where x = "sbc_alloc_mthd ie" and m = "0x03" and y = "sbc_block_len ie" and m' = "0xF0" and z = "sbc_num_subbands ie" and m'' = "0x0C"]
    by simp_all
qed

lemma A2D_ParsSbcInfo_True:
  "A2D_ParsSbcInfo (Some ie0) (Some b) True = (A2D_SUCCESS, Some ie) \<longleftrightarrow>
     b 0 = A2D_SBC_INFO_LEN \<and> b 1 = A2D_MEDIA_TYPE_AUDIO \<and> b 2 = A2D_MEDIA_CT_SBC \<and>
     A2D_SBC_IE_MIN_BITPOOL \<le> b 5 \<and> b 5 \<le> b 6 \<and> b 6 \<le> A2D_SBC_IE_MAX_BITPOOL \<and>
     ie = \<lparr>sbc_samp_freq = b 3 AND A2D_SBC_IE_SAMP_FREQ_MSK,
       sbc_ch_mode = b 3 AND A2D_SBC_IE_CH_MD_MSK, sbc_block_len = b 4 AND A2D_SBC_IE_BLOCKS_MSK,
       sbc_num_subbands = b 4 AND A2D_SBC_IE_SUBBAND_MSK,
       sbc_alloc_mthd = b 4 AND A2D_SBC_IE_ALLOC_MD_MSK, sbc_max_bitpool = b 6,
       sbc_min_bitpool = b 5\<rparr>"
  by (auto simp: A2D_ParsSbcInfo_def Let_def not_less split: if_splits)

text \<open>A configuration is a capability with one bit in every field.\<close>

lemma A2D_ParsSbcInfo_False:
  "A2D_ParsSbcInfo (Some ie0) (Some b) False = (A2D_SUCCESS, Some ie) \<longleftrightarrow>
     A2D_ParsSbcInfo (Some ie0) (Some b) True = (A2D_SUCCESS, Some ie) \<and>
     one_bit (sbc_samp_freq ie) \<and> one_bit (sbc_ch_mode ie) \<and> one_bit (sbc_block_len ie) \<and>
     one_bit (sbc_num_subbands ie) \<and> one_bit (sbc_alloc_mthd ie)"
  by (auto simp: A2D_ParsSbcInfo_def Let_def A2D_BitsSet_u8_one split: if_splits)

interpretation sbc: strict_codec A2D_ParsSbcInfo A2D_BldSbcInfo 7 sbc_wf sbc_norm
proof
  show "(7::nat) \<le> AVDT_CODEC_SIZE" by simp
next
  fix b b' :: buf and p cap
  assume "buf_agree 7 b b'"
  then show "A2D_ParsSbcInfo p (Some b) cap = A2D_ParsSbcInfo p (Some b') cap"
    by (simp add: A2D_ParsSbcInfo_def Let_def agree_simps [of 7] split: option.split)
next
  fix ie ie' :: tA2D_SBC_CIE and b cap
  show "fst (A2D_ParsSbcInfo (Some ie) (Some b) cap) = fst (A2D_ParsSbcInfo (Some ie') (Some b) cap)"
    by (simp add: A2D_ParsSbcInfo_def Let_def)
next
  fix ie0 ie :: tA2D_SBC_CIE and b
  assume "A2D_ParsSbcInfo (Some ie0) (Some b) True = (A2D_SUCCESS, Some ie)"
  then show "sbc_wf ie" by (simp add: A2D_ParsSbcInfo_True sbc_wf_def)
next
  fix mt r and k :: nat and p :: "tA2D_SBC_CIE option"
  assume "7 \<le> k"
  then show "\<exists>r'. snd (A2D_BldSbcInfo mt p (Some r)) = Some r' \<and> r' k = r k"
    by (auto simp: A2D_BldSbcInfo_def Let_def split: option.split)
next
  fix ie0 :: tA2D_SBC_CIE and b cap
  show "snd (A2D_ParsSbcInfo (Some ie0) (Some b) cap) \<noteq> None"
    by (simp add: A2D_ParsSbcInfo_def Let_def)
next
  fix ie ie0 :: tA2D_SBC_CIE and r
  assume wf: "sbc_wf ie"
  then show "\<exists>r'. A2D_BldSbcInfo A2D_MEDIA_TYPE_AUDIO (Some ie) (Some r) = (A2D_SUCCESS, Some r') \<and>
      A2D_ParsSbcInfo (Some ie0) (Some r') True = (A2D_SUCCESS, Some (sbc_norm ie0 ie))"
    by (simp add: A2D_BldSbcInfo_wf A2D_ParsSbcInfo_True sbc_wf_packed sbc_norm_def)
      (simp add: sbc_wf_def)
next
  fix ie :: tA2D_SBC_CIE and b
  assume "fst (A2D_ParsSbcInfo (Some ie) (Some b) False) = A2D_SUCCESS"
  then show "fst (A2D_ParsSbcInfo (Some ie) (Some b) True) = A2D_SUCCESS"
    by (auto simp: A2D_ParsSbcInfo_def Let_def split: if_splits)
qed

subsection \<open>The choice of a configuration\<close>

text \<open>
  A configuration within a capability: each setting is one of the offered ones, as far as the
  source offers one that the code supports (48 or 44.1 kHz; a capability may also have an empty
  field), and the bitpool range is a part of the offered one, with the maximum cut at 53.
\<close>

definition sbc_within :: "tA2D_SBC_CIE \<Rightarrow> tA2D_SBC_CIE \<Rightarrow> bool" where
  "sbc_within c s \<longleftrightarrow>
     (sbc_samp_freq s AND (A2D_SBC_IE_SAMP_FREQ_48 OR A2D_SBC_IE_SAMP_FREQ_44) \<noteq> 0 \<longrightarrow>
        sbc_samp_freq c AND sbc_samp_freq s = sbc_samp_freq c) \<and>
     (sbc_ch_mode s \<noteq> 0 \<longrightarrow> sbc_ch_mode c AND sbc_ch_mode s = sbc_ch_mode c) \<and>
     (sbc_block_len s \<noteq> 0 \<longrightarrow> sbc_block_len c AND sbc_block_len s = sbc_block_len c) \<and>
     (sbc_num_subbands s \<noteq> 0 \<longrightarrow> sbc_num_subbands c AND sbc_num_subbands s = sbc_num_subbands c) \<and>
     (sbc_alloc_mthd s \<noteq> 0 \<longrightarrow> sbc_alloc_mthd c AND sbc_alloc_mthd s = sbc_alloc_mthd c) \<and>
     sbc_min_bitpool c = sbc_min_bitpool s \<and>
     sbc_max_bitpool c = min (sbc_max_bitpool s) BTA_AV_CO_SBC_MAX_BITPOOL"

lemma masked_zero_cases:
  fixes x :: u8
  shows "x AND 0xF0 = x \<Longrightarrow> x AND 16 = 0 \<Longrightarrow> x AND 32 = 0 \<Longrightarrow> x AND 64 = 0 \<Longrightarrow> x AND 128 = 0 \<Longrightarrow> x = 0"
    and "x AND 0x0F = x \<Longrightarrow> x AND 1 = 0 \<Longrightarrow> x AND 2 = 0 \<Longrightarrow> x AND 4 = 0 \<Longrightarrow> x AND 8 = 0 \<Longrightarrow> x = 0"
    and "x AND 0x0C = x \<Longrightarrow> x AND 4 = 0 \<Longrightarrow> x AND 8 = 0 \<Longrightarrow> x = 0"
    and "x AND 0x03 = x \<Longrightarrow> x AND 1 = 0 \<Longrightarrow> x AND 2 = 0 \<Longrightarrow> x = 0"
    and "x AND 48 \<noteq> 0 \<Longrightarrow> x AND 16 = 0 \<Longrightarrow> x AND 32 \<noteq> 0"
  by (auto simp: u8_eq_iff bit_simps)

lemma sbc_pref_cap_within:
  assumes "sbc_wf s"
  shows "sbc_within (sbc_pref_cap s) s"
proof -
  note wf = assms [unfolded sbc_wf_def]
  have samp: "\<exists>m \<in> set [0x10, 0x20]. sbc_samp_freq s AND m \<noteq> 0"
    if "sbc_samp_freq s AND 48 \<noteq> 0"
    using that masked_zero_cases(5) by auto
  have ch: "\<exists>m \<in> set [1, 2, 4, 8]. sbc_ch_mode s AND m \<noteq> 0" if "sbc_ch_mode s \<noteq> 0"
    using that wf masked_zero_cases(2) by auto
  have bl: "\<exists>m \<in> set [0x10, 0x20, 0x40, 0x80]. sbc_block_len s AND m \<noteq> 0" if "sbc_block_len s \<noteq> 0"
    using that wf masked_zero_cases(1) by auto
  have sb: "\<exists>m \<in> set [4, 8]. sbc_num_subbands s AND m \<noteq> 0" if "sbc_num_subbands s \<noteq> 0"
    using that wf masked_zero_cases(3) by auto
  have al: "\<exists>m \<in> set [1, 2]. sbc_alloc_mthd s AND m \<noteq> 0" if "sbc_alloc_mthd s \<noteq> 0"
    using that wf masked_zero_cases(4) by auto
  have obl: "list_all one_bit [0x10, 0x20]" "list_all one_bit [1, 2, 4, 8]"
    "list_all one_bit [0x10, 0x20, 0x40, 0x80]" "list_all one_bit [4, 8]" "list_all one_bit [1, 2]"
    by (simp_all add: one_bit_def)
  have bp: "2 \<le> sbc_max_bitpool s" "sbc_min_bitpool s \<le> 250"
    using wf by (auto intro: order_trans)
  show ?thesis
    unfolding sbc_within_def sbc_pref_cap_def a2dp_sbc_default_config_def Let_def
    using wf bp first_set_or_offered [OF obl(1) samp] first_set_or_offered [OF obl(2) ch]
      first_set_or_offered [OF obl(3) bl] first_set_or_offered [OF obl(4) sb]
      first_set_or_offered [OF obl(5) al]
    by (simp add: min_def not_less) auto
qed

text \<open>The configuration has one bit in every field.\<close>

lemma sbc_pref_cap_one_bit:
  "one_bit (sbc_samp_freq (sbc_pref_cap s)) \<and> one_bit (sbc_ch_mode (sbc_pref_cap s)) \<and>
   one_bit (sbc_block_len (sbc_pref_cap s)) \<and> one_bit (sbc_num_subbands (sbc_pref_cap s)) \<and>
   one_bit (sbc_alloc_mthd (sbc_pref_cap s))"
  by (simp add: sbc_pref_cap_def a2dp_sbc_default_config_def Let_def)
    (intro conjI first_set_or_one_bit; simp add: one_bit_def)

lemma sbc_pref_cap_fields:
  "sbc_samp_freq (sbc_pref_cap s) \<in> {0x10, 0x20}"
  "sbc_ch_mode (sbc_pref_cap s) \<in> {1, 2, 4, 8}"
  "sbc_block_len (sbc_pref_cap s) \<in> {0x10, 0x20, 0x40, 0x80}"
  "sbc_num_subbands (sbc_pref_cap s) \<in> {4, 8}"
  "sbc_alloc_mthd (sbc_pref_cap s) \<in> {1, 2}"
  unfolding sbc_pref_cap_def a2dp_sbc_default_config_def Let_def
  using first_set_or_in [of "sbc_samp_freq s" "[0x10, 0x20]" "0x20"]
    first_set_or_in [of "sbc_ch_mode s" "[1, 2, 4, 8]" 1]
    first_set_or_in [of "sbc_block_len s" "[0x10, 0x20, 0x40, 0x80]" "0x10"]
    first_set_or_in [of "sbc_num_subbands s" "[4, 8]" 4]
    first_set_or_in [of "sbc_alloc_mthd s" "[1, 2]" 1]
  by auto

lemma sbc_pref_cap_wf:
  assumes "sbc_wf s"
  shows "sbc_wf (sbc_pref_cap s) \<longleftrightarrow> sbc_min_bitpool s \<le> BTA_AV_CO_SBC_MAX_BITPOOL"
proof -
  have "sbc_min_bitpool (sbc_pref_cap s) = sbc_min_bitpool s"
    "sbc_max_bitpool (sbc_pref_cap s) = min (sbc_max_bitpool s) BTA_AV_CO_SBC_MAX_BITPOOL"
    using sbc_pref_cap_within [OF assms] by (simp_all add: sbc_within_def)
  moreover have "sbc_samp_freq (sbc_pref_cap s) AND A2D_SBC_IE_SAMP_FREQ_MSK = sbc_samp_freq (sbc_pref_cap s)"
    "sbc_ch_mode (sbc_pref_cap s) AND A2D_SBC_IE_CH_MD_MSK = sbc_ch_mode (sbc_pref_cap s)"
    "sbc_block_len (sbc_pref_cap s) AND A2D_SBC_IE_BLOCKS_MSK = sbc_block_len (sbc_pref_cap s)"
    "sbc_num_subbands (sbc_pref_cap s) AND A2D_SBC_IE_SUBBAND_MSK = sbc_num_subbands (sbc_pref_cap s)"
    "sbc_alloc_mthd (sbc_pref_cap s) AND A2D_SBC_IE_ALLOC_MD_MSK = sbc_alloc_mthd (sbc_pref_cap s)"
    using sbc_pref_cap_fields [of s] by (elim insertE emptyE; simp)+
  moreover have "2 \<le> sbc_min_bitpool s" "sbc_min_bitpool s \<le> sbc_max_bitpool s" "sbc_max_bitpool s \<le> 250"
    using assms by (simp_all add: sbc_wf_def)
  ultimately show ?thesis
    by (auto simp: sbc_wf_def min_def intro: order_trans)
qed

lemma A2DP_BuildCodecConfigSbc_eq:
  "A2DP_BuildCodecConfigSbc src r = (True, r') \<longleftrightarrow>
     (\<exists>s. A2D_ParsSbcInfo (Some sbc_cie_local) (Some src) True = (A2D_SUCCESS, Some s) \<and>
        sbc_min_bitpool s \<le> BTA_AV_CO_SBC_MAX_BITPOOL \<and>
        A2D_BldSbcInfo A2D_MEDIA_TYPE_AUDIO (Some (sbc_pref_cap s)) (Some r) = (A2D_SUCCESS, Some r'))"
proof (cases "fst (A2D_ParsSbcInfo (Some sbc_cie_local) (Some src) True) = A2D_SUCCESS")
  case True
  then obtain s where "A2D_ParsSbcInfo (Some sbc_cie_local) (Some src) True = (A2D_SUCCESS, Some s)"
    and "sbc_wf s" by (rule sbc.parsed)
  then show ?thesis
    by (auto simp: A2DP_BuildCodecConfigSbc_def A2D_BldSbcInfo_wf sbc_pref_cap_wf)
next
  case False
  then show ?thesis by (auto simp: A2DP_BuildCodecConfigSbc_def split: prod.split)
qed

interpretation sbc: negotiated_codec A2D_ParsSbcInfo A2D_BldSbcInfo 7 sbc_wf sbc_norm
  sbc_cie_local A2DP_BuildCodecConfigSbc sbc_within
proof
  fix src r r'
  assume "A2DP_BuildCodecConfigSbc src r = (True, r')"
  then obtain s where s: "A2D_ParsSbcInfo (Some sbc_cie_local) (Some src) True = (A2D_SUCCESS, Some s)"
    and min: "sbc_min_bitpool s \<le> BTA_AV_CO_SBC_MAX_BITPOOL"
    and r': "A2D_BldSbcInfo A2D_MEDIA_TYPE_AUDIO (Some (sbc_pref_cap s)) (Some r) = (A2D_SUCCESS, Some r')"
    by (auto simp: A2DP_BuildCodecConfigSbc_eq)
  have wf: "sbc_wf s" using s by (rule sbc.parse_wf)
  have wfc: "sbc_wf (sbc_pref_cap s)" using wf min by (simp add: sbc_pref_cap_wf)
  then have c: "A2D_ParsSbcInfo (Some sbc_cie_local) (Some r') True = (A2D_SUCCESS, Some (sbc_pref_cap s))"
    using sbc.parse_build [OF wfc, of r sbc_cie_local] r' by (auto simp: sbc_norm_def)
  then have "A2D_ParsSbcInfo (Some sbc_cie_local) (Some r') False = (A2D_SUCCESS, Some (sbc_pref_cap s))"
    using sbc_pref_cap_one_bit [of s] by (simp add: A2D_ParsSbcInfo_False)
  with s sbc_pref_cap_within [OF wf]
  show "\<exists>s c. A2D_ParsSbcInfo (Some sbc_cie_local) (Some src) True = (A2D_SUCCESS, Some s) \<and>
      A2D_ParsSbcInfo (Some sbc_cie_local) (Some r') False = (A2D_SUCCESS, Some c) \<and> sbc_within c s"
    by blast
next
  fix src src' r
  assume "buf_agree 7 src src'"
  then have "A2D_ParsSbcInfo (Some sbc_cie_local) (Some src) True = A2D_ParsSbcInfo (Some sbc_cie_local) (Some src') True"
    by (rule sbc.parse_local)
  then show "A2DP_BuildCodecConfigSbc src r = A2DP_BuildCodecConfigSbc src' r"
    by (simp add: A2DP_BuildCodecConfigSbc_def)
next
  fix src r and k :: nat
  assume "7 \<le> k"
  then show "snd (A2DP_BuildCodecConfigSbc src r) k = r k"
    by (simp add: A2DP_BuildCodecConfigSbc_def Let_def case_prod_unfold sbc.build_beyond
        del: first_set.simps split: option.split)
qed

subsection \<open>Properties\<close>

text \<open>
  Every well-formed SBC element is built, and parsing the octets gives the same
  element back; an element that is not well-formed is rejected and nothing is written.
\<close>
theorem sbc_build_parse:
  "if sbc_wf ie
   then \<exists>r'. A2D_BldSbcInfo A2D_MEDIA_TYPE_AUDIO (Some ie) (Some r) = (A2D_SUCCESS, Some r') \<and>
          A2D_ParsSbcInfo (Some ie0) (Some r') True = (A2D_SUCCESS, Some ie)
   else A2D_BldSbcInfo A2D_MEDIA_TYPE_AUDIO (Some ie) (Some r) = (A2D_INVALID_PARAMS, Some r)"
  using sbc.parse_build [of ie r ie0] by (simp add: sbc_norm_def A2D_BldSbcInfo_wf)

text \<open>
  The SBC configuration that is chosen for a source is accepted as a configuration
  (one bit in every field), and every setting is one the source offers, the bitpool range
  being the offered one with its maximum cut at 53.
\<close>
theorem sbc_config_sound:
  assumes "A2DP_BuildCodecConfigSbc src r = (True, r')"
  shows "\<exists>s c. A2D_ParsSbcInfo (Some sbc_cie_local) (Some src) True = (A2D_SUCCESS, Some s) \<and>
    A2D_ParsSbcInfo (Some sbc_cie_local) (Some r') False = (A2D_SUCCESS, Some c) \<and> sbc_within c s"
  using assms by (rule sbc.negotiate_sound)

theorem sbc_config_sound_witness:
  "\<exists>s c. A2D_ParsSbcInfo (Some sbc_cie_local) (Some (bytes [6, 0, 0, 0xFF, 0xFF, 2, 250])) True =
      (A2D_SUCCESS, Some s) \<and>
    A2D_ParsSbcInfo (Some sbc_cie_local)
      (Some (store (bytes []) 0 [6, 0, 0, 0x11, 0x15, 2, 53])) False = (A2D_SUCCESS, Some c) \<and>
    sbc_within c s"
  by (rule sbc_config_sound [of _ "bytes []"])
    (simp add: A2DP_BuildCodecConfigSbc_def A2D_ParsSbcInfo_def A2D_BldSbcInfo_def Let_def
      sbc_pref_cap_def a2dp_sbc_default_config_def first_set_or_def bytes_def)

text \<open>
  Choosing an SBC configuration succeeds exactly when the source's octets parse as a
  capability whose minimal bitpool is at most 53; otherwise nothing is written. In particular a
  source whose bitpool range lies above 53 is refused although the device could decode it.
\<close>
theorem sbc_config_succeeds_iff:
  "(fst (A2DP_BuildCodecConfigSbc src r) \<longleftrightarrow>
      fst (A2D_ParsSbcInfo (Some sbc_cie_local) (Some src) True) = A2D_SUCCESS \<and>
      src 5 \<le> BTA_AV_CO_SBC_MAX_BITPOOL) \<and>
   (\<not> fst (A2DP_BuildCodecConfigSbc src r) \<longrightarrow> snd (A2DP_BuildCodecConfigSbc src r) = r)"
proof (cases "fst (A2D_ParsSbcInfo (Some sbc_cie_local) (Some src) True) = A2D_SUCCESS")
  case True
  then obtain s where s: "A2D_ParsSbcInfo (Some sbc_cie_local) (Some src) True = (A2D_SUCCESS, Some s)"
    and "sbc_wf s" by (rule sbc.parsed)
  moreover from s have "sbc_min_bitpool s = src 5" by (simp add: A2D_ParsSbcInfo_True)
  ultimately show ?thesis
    by (simp add: A2DP_BuildCodecConfigSbc_def A2D_BldSbcInfo_wf sbc_pref_cap_wf)
next
  case False
  then show ?thesis by (auto simp: A2DP_BuildCodecConfigSbc_def split: prod.split)
qed

theorem sbc_config_succeeds_iff_witness:
  "snd (A2DP_BuildCodecConfigSbc (bytes [6, 0, 0, 0xFF, 0xFF, 60, 250]) (bytes [1])) = bytes [1]"
  using sbc_config_succeeds_iff [of "bytes [6, 0, 0, 0xFF, 0xFF, 60, 250]" "bytes [1]"]
  by (simp add: bytes_def)

text \<open>
  The media payload header of an SBC packet: parsing the built header gives the
  three fragmentation flags back and the number of frames modulo 16, the four bits it has.
\<close>
theorem sbc_header_roundtrip:
  "A2D_ParsSbcMplHdr (A2D_BldSbcMplHdr (Some d) frag start last_pkt num)
     (Some f0) (Some s0) (Some l0) (Some n0) =
   (Some frag, Some start, Some last_pkt, Some (num AND 0x0F))"
  by (auto simp: A2D_ParsSbcMplHdr_def A2D_BldSbcMplHdr_def Let_def u8_eq_iff bit_simps)

text \<open>
  A peer's SBC configuration is supported by the sink exactly when it is a
  configuration at 44.1 or 48 kHz: the sink takes every channel mode, block length, number of
  subbands, allocation method and bitpool range that a configuration can have.
\<close>
theorem sbc_sink_supported_iff:
  "A2DP_IsSinkCodecSupportedSbc p = A2D_SUCCESS \<longleftrightarrow>
     fst (A2D_ParsSbcInfo (Some sbc_cie_local) (Some p) False) = A2D_SUCCESS \<and>
     p 3 AND (A2D_SBC_IE_SAMP_FREQ_44 OR A2D_SBC_IE_SAMP_FREQ_48) \<noteq> 0"
proof (cases "fst (A2D_ParsSbcInfo (Some sbc_cie_local) (Some p) False) = A2D_SUCCESS")
  case True
  then obtain c where c: "A2D_ParsSbcInfo (Some sbc_cie_local) (Some p) False = (A2D_SUCCESS, Some c)"
    using sbc.parse_some [of sbc_cie_local p False]
    by (cases "A2D_ParsSbcInfo (Some sbc_cie_local) (Some p) False") auto
  then have eq: "sbc_samp_freq c = p 3 AND 0xF0" and "one_bit (sbc_ch_mode c)"
    and "one_bit (sbc_block_len c)" "one_bit (sbc_num_subbands c)" "one_bit (sbc_alloc_mthd c)"
    and wf: "sbc_wf c"
    using sbc.parse_wf [of sbc_cie_local p c] by (auto simp: A2D_ParsSbcInfo_False A2D_ParsSbcInfo_True)
  then have "sbc_ch_mode c AND 0x0F \<noteq> 0" "sbc_block_len c AND 0xF0 \<noteq> 0"
    "sbc_num_subbands c AND 0x0C \<noteq> 0" "sbc_alloc_mthd c AND 0x03 \<noteq> 0"
    by (simp_all add: sbc_wf_def one_bit_nonzero)
  moreover have "\<not> sbc_max_bitpool c < 2" "\<not> 250 < sbc_min_bitpool c"
    using wf by (auto simp: sbc_wf_def not_less intro: order_trans)
  ultimately show ?thesis using c
    by (simp add: A2DP_IsSinkCodecSupportedSbc_def A2DP_CodecInfoMatchesCapabilitySbc_def
        a2dp_sbc_sink_caps_def eq and.assoc)
next
  case False
  then show ?thesis
    by (auto simp: A2DP_IsSinkCodecSupportedSbc_def A2DP_CodecInfoMatchesCapabilitySbc_def
        split: prod.split)
qed

end
