(* ===== verification/A2DP_Aac.thy ===== *)
theory A2DP_Aac
  imports Codec_Interface
begin

text \<open>
  stack/a2dp/a2dp\_aac.c: the AAC (MPEG-2,4) codec information element with its parser and
  builder, the check against the own capabilities and the configuration for a source.
\<close>

abbreviation (input) A2DP_AAC_CODEC_LEN :: u8 where "A2DP_AAC_CODEC_LEN \<equiv> 8"
abbreviation (input) A2DP_AAC_OBJECT_TYPE_MPEG2_LC :: u8 where "A2DP_AAC_OBJECT_TYPE_MPEG2_LC \<equiv> 0x80"
abbreviation (input) A2DP_AAC_SAMPLING_FREQ_MASK0 :: u16 where "A2DP_AAC_SAMPLING_FREQ_MASK0 \<equiv> 0x00FF"
abbreviation (input) A2DP_AAC_SAMPLING_FREQ_44100 :: u16 where "A2DP_AAC_SAMPLING_FREQ_44100 \<equiv> 0x01"
abbreviation (input) A2DP_AAC_SAMPLING_FREQ_MASK1 :: u16 where "A2DP_AAC_SAMPLING_FREQ_MASK1 \<equiv> 0xF000"
abbreviation (input) A2DP_AAC_SAMPLING_FREQ_48000 :: u16 where "A2DP_AAC_SAMPLING_FREQ_48000 \<equiv> 0x8000"
abbreviation (input) A2DP_AAC_CHANNEL_MODE_MASK :: u8 where "A2DP_AAC_CHANNEL_MODE_MASK \<equiv> 0x0C"
abbreviation (input) A2DP_AAC_CHANNEL_MODE_MONO :: u8 where "A2DP_AAC_CHANNEL_MODE_MONO \<equiv> 0x08"
abbreviation (input) A2DP_AAC_CHANNEL_MODE_STEREO :: u8 where "A2DP_AAC_CHANNEL_MODE_STEREO \<equiv> 0x04"
abbreviation (input) A2DP_AAC_VARIABLE_BIT_RATE_MASK :: u8 where "A2DP_AAC_VARIABLE_BIT_RATE_MASK \<equiv> 0x80"
abbreviation (input) A2DP_AAC_VARIABLE_BIT_RATE_ENABLED :: u8 where "A2DP_AAC_VARIABLE_BIT_RATE_ENABLED \<equiv> 0x80"
abbreviation (input) A2DP_AAC_VARIABLE_BIT_RATE_DISABLED :: u8 where "A2DP_AAC_VARIABLE_BIT_RATE_DISABLED \<equiv> 0x00"
abbreviation (input) A2DP_AAC_BIT_RATE_MASK0 :: u32 where "A2DP_AAC_BIT_RATE_MASK0 \<equiv> 0x7F0000"
abbreviation (input) A2DP_AAC_BIT_RATE_MASK1 :: u32 where "A2DP_AAC_BIT_RATE_MASK1 \<equiv> 0xFF00"
abbreviation (input) A2DP_AAC_BIT_RATE_MASK2 :: u32 where "A2DP_AAC_BIT_RATE_MASK2 \<equiv> 0xFF"
abbreviation (input) A2DP_AAC_DEFAULT_BITRATE :: u32 where "A2DP_AAC_DEFAULT_BITRATE \<equiv> 320000"

record tA2DP_AAC_CIE =
  aac_objectType :: u8
  aac_sampleRate :: u16
  aac_channelMode :: u8
  aac_variableBitRateSupport :: u8
  aac_bitRate :: u32
  aac_bits_per_sample :: btav_a2dp_codec_bits_per_sample_t

definition aac_cie_local :: tA2DP_AAC_CIE where
  "aac_cie_local = \<lparr>aac_objectType = 0, aac_sampleRate = 0, aac_channelMode = 0,
     aac_variableBitRateSupport = 0, aac_bitRate = 0,
     aac_bits_per_sample = BTAV_A2DP_CODEC_BITS_PER_SAMPLE_NONE\<rparr>"

definition a2dp_aac_cbr_source_caps :: tA2DP_AAC_CIE where
  "a2dp_aac_cbr_source_caps = \<lparr>
     aac_objectType = A2DP_AAC_OBJECT_TYPE_MPEG2_LC OR A2DP_AAC_OBJECT_TYPE_MPEG2_LC,
     aac_sampleRate = A2DP_AAC_SAMPLING_FREQ_44100,
     aac_channelMode = A2DP_AAC_CHANNEL_MODE_STEREO,
     aac_variableBitRateSupport = A2DP_AAC_VARIABLE_BIT_RATE_DISABLED,
     aac_bitRate = A2DP_AAC_DEFAULT_BITRATE,
     aac_bits_per_sample = BTAV_A2DP_CODEC_BITS_PER_SAMPLE_16\<rparr>"

definition a2dp_aac_sink_caps :: tA2DP_AAC_CIE where
  "a2dp_aac_sink_caps = \<lparr>
     aac_objectType = A2DP_AAC_OBJECT_TYPE_MPEG2_LC OR A2DP_AAC_OBJECT_TYPE_MPEG2_LC,
     aac_sampleRate = A2DP_AAC_SAMPLING_FREQ_44100 OR A2DP_AAC_SAMPLING_FREQ_48000,
     aac_channelMode = A2DP_AAC_CHANNEL_MODE_MONO OR A2DP_AAC_CHANNEL_MODE_STEREO,
     aac_variableBitRateSupport = A2DP_AAC_VARIABLE_BIT_RATE_ENABLED,
     aac_bitRate = A2DP_AAC_DEFAULT_BITRATE,
     aac_bits_per_sample = BTAV_A2DP_CODEC_BITS_PER_SAMPLE_16\<rparr>"

text \<open>
  The octets are written one by one; the second octet of the sampling frequency shares its byte
  with the channel mode, and the first octet of the bit rate with the variable bit rate flag.
\<close>

definition A2DP_BuildInfoAac :: "tA2DP_AAC_CIE builder" where
  "A2DP_BuildInfoAac media_type p_ie p_result =
     (case (p_ie, p_result) of
        (Some ie, Some r) \<Rightarrow>
          (let r1 = store r 0 [A2DP_AAC_CODEC_LEN, push_bit 4 media_type, A2D_MEDIA_CT_M24]
           in if aac_objectType ie = 0 then (A2D_INVALID_PARAMS, Some r1)
              else
                (let r2 = r1(3 := aac_objectType ie)
                 in if aac_sampleRate ie = 0 then (A2D_INVALID_PARAMS, Some r2)
                    else
                      (let r3 = r2(4 := ucast (aac_sampleRate ie AND A2DP_AAC_SAMPLING_FREQ_MASK0),
                             5 := ucast (drop_bit 8 (aac_sampleRate ie AND A2DP_AAC_SAMPLING_FREQ_MASK1)))
                       in if aac_channelMode ie = 0 then (A2D_INVALID_PARAMS, Some r3)
                          else
                            (let r4 = r3(5 := r3 5 OR (aac_channelMode ie AND A2DP_AAC_CHANNEL_MODE_MASK));
                                 r5 = r4(6 := aac_variableBitRateSupport ie AND
                                              A2DP_AAC_VARIABLE_BIT_RATE_MASK);
                                 r6 = r5(6 := r5 6 OR
                                        ucast (drop_bit 16 (aac_bitRate ie AND A2DP_AAC_BIT_RATE_MASK0)),
                                      7 := ucast (drop_bit 8 (aac_bitRate ie AND A2DP_AAC_BIT_RATE_MASK1)),
                                      8 := ucast (aac_bitRate ie AND A2DP_AAC_BIT_RATE_MASK2))
                             in (A2D_SUCCESS, Some r6)))))
      | _ \<Rightarrow> (A2D_INVALID_PARAMS, p_result))"

definition A2DP_ParseInfoAac :: "tA2DP_AAC_CIE parser" where
  "A2DP_ParseInfoAac p_ie p_codec_info is_capability =
     (case (p_ie, p_codec_info) of
        (Some ie, Some b) \<Rightarrow>
          if b 0 \<noteq> A2DP_AAC_CODEC_LEN then (A2D_WRONG_CODEC, Some ie)
          else if drop_bit 4 (b 1) \<noteq> A2D_MEDIA_TYPE_AUDIO \<or> b 2 \<noteq> A2D_MEDIA_CT_M24
          then (A2D_WRONG_CODEC, Some ie)
          else
            (let ie' = ie\<lparr>aac_objectType := b 3,
                   aac_sampleRate := (ucast (b 4) AND A2DP_AAC_SAMPLING_FREQ_MASK0) OR
                     (push_bit 8 (ucast (b 5)) AND A2DP_AAC_SAMPLING_FREQ_MASK1),
                   aac_channelMode := b 5 AND A2DP_AAC_CHANNEL_MODE_MASK,
                   aac_variableBitRateSupport := b 6 AND A2DP_AAC_VARIABLE_BIT_RATE_MASK,
                   aac_bitRate := (push_bit 16 (ucast (b 6)) AND A2DP_AAC_BIT_RATE_MASK0) OR
                     (push_bit 8 (ucast (b 7)) AND A2DP_AAC_BIT_RATE_MASK1) OR
                     (ucast (b 8) AND A2DP_AAC_BIT_RATE_MASK2)\<rparr>
             in if is_capability then
                  (if A2D_BitsSet (ucast (aac_objectType ie')) = A2D_SET_ZERO_BIT
                   then (A2D_BAD_OBJ_TYPE, Some ie')
                   else if A2D_BitsSet (ucast (aac_sampleRate ie')) = A2D_SET_ZERO_BIT
                   then (A2D_BAD_SAMP_FREQ, Some ie')
                   else if A2D_BitsSet (ucast (aac_channelMode ie')) = A2D_SET_ZERO_BIT
                   then (A2D_BAD_CH_MODE, Some ie')
                   else (A2D_SUCCESS, Some ie'))
                else if A2D_BitsSet (ucast (aac_objectType ie')) \<noteq> A2D_SET_ONE_BIT
                then (A2D_BAD_OBJ_TYPE, Some ie')
                else if A2D_BitsSet (ucast (aac_sampleRate ie')) \<noteq> A2D_SET_ONE_BIT
                then (A2D_BAD_SAMP_FREQ, Some ie')
                else if A2D_BitsSet (ucast (aac_channelMode ie')) \<noteq> A2D_SET_ONE_BIT
                then (A2D_BAD_CH_MODE, Some ie')
                else (A2D_SUCCESS, Some ie'))
      | _ \<Rightarrow> (A2D_INVALID_PARAMS, p_ie))"

definition A2DP_CodecInfoMatchesCapabilityAac :: "tA2DP_AAC_CIE \<Rightarrow> buf \<Rightarrow> bool \<Rightarrow> u8" where
  "A2DP_CodecInfoMatchesCapabilityAac p_cap p is_capability =
     (case A2DP_ParseInfoAac (Some aac_cie_local) (Some p) is_capability of
        (status, cfg) \<Rightarrow>
          if status \<noteq> A2D_SUCCESS then status
          else if aac_objectType (the cfg) AND aac_objectType p_cap = 0 then A2D_BAD_OBJ_TYPE
          else if aac_sampleRate (the cfg) AND aac_sampleRate p_cap = 0 then A2D_BAD_SAMP_FREQ
          else if aac_channelMode (the cfg) AND aac_channelMode p_cap = 0 then A2D_NS_CH_MODE
          else A2D_SUCCESS)"

definition A2DP_CodecNameAac :: "buf \<Rightarrow> string" where
  "A2DP_CodecNameAac p = ''AAC''"

definition A2DP_IsPeerSinkCodecValidAac :: "buf \<Rightarrow> bool" where
  "A2DP_IsPeerSinkCodecValidAac p \<longleftrightarrow>
     fst (A2DP_ParseInfoAac (Some aac_cie_local) (Some p) False) = A2D_SUCCESS \<or>
     fst (A2DP_ParseInfoAac (Some aac_cie_local) (Some p) True) = A2D_SUCCESS"

definition A2DP_CodecTypeEqualsAac :: "buf \<Rightarrow> buf \<Rightarrow> bool" where
  "A2DP_CodecTypeEqualsAac a b =
     (if fst (A2DP_ParseInfoAac (Some aac_cie_local) (Some a) True) \<noteq> A2D_SUCCESS then False
      else if fst (A2DP_ParseInfoAac (Some aac_cie_local) (Some b) True) \<noteq> A2D_SUCCESS then False
      else True)"

definition A2DP_IsSinkCodecValidAac :: "buf \<Rightarrow> bool" where
  "A2DP_IsSinkCodecValidAac p \<longleftrightarrow>
     fst (A2DP_ParseInfoAac (Some aac_cie_local) (Some p) False) = A2D_SUCCESS \<or>
     fst (A2DP_ParseInfoAac (Some aac_cie_local) (Some p) True) = A2D_SUCCESS"

definition A2DP_IsPeerSourceCodecValidAac :: "buf \<Rightarrow> bool" where
  "A2DP_IsPeerSourceCodecValidAac p \<longleftrightarrow>
     fst (A2DP_ParseInfoAac (Some aac_cie_local) (Some p) False) = A2D_SUCCESS \<or>
     fst (A2DP_ParseInfoAac (Some aac_cie_local) (Some p) True) = A2D_SUCCESS"

definition A2DP_IsSinkCodecSupportedAac :: "buf \<Rightarrow> u8" where
  "A2DP_IsSinkCodecSupportedAac p = A2DP_CodecInfoMatchesCapabilityAac a2dp_aac_sink_caps p False"

definition A2DP_IsPeerSourceCodecSupportedAac :: "buf \<Rightarrow> u8" where
  "A2DP_IsPeerSourceCodecSupportedAac p =
     A2DP_CodecInfoMatchesCapabilityAac a2dp_aac_sink_caps p True"

definition A2DP_SinkCodecIndexAac :: "buf \<Rightarrow> btav_a2dp_codec_index_t" where
  "A2DP_SinkCodecIndexAac p = BTAV_A2DP_CODEC_INDEX_SINK_AAC"

definition A2DP_SourceCodecIndexAac :: "buf \<Rightarrow> btav_a2dp_codec_index_t" where
  "A2DP_SourceCodecIndexAac p = BTAV_A2DP_CODEC_INDEX_SOURCE_AAC"

definition A2DP_GetDecoderInterfaceAac :: "buf \<Rightarrow> tA2DP_DECODER_INTERFACE option" where
  "A2DP_GetDecoderInterfaceAac p =
     (if \<not> A2DP_IsSinkCodecValidAac p then None else Some a2dp_decoder_interface_aac)"

definition A2DP_InitCodecConfigAacSink :: "buf \<Rightarrow> bool \<times> buf" where
  "A2DP_InitCodecConfigAacSink p =
     (case A2DP_BuildInfoAac A2D_MEDIA_TYPE_AUDIO (Some a2dp_aac_sink_caps) (Some p) of
        (sts, p') \<Rightarrow> (sts = A2D_SUCCESS, the p'))"

definition A2DP_InitCodecConfigAac :: "btav_a2dp_codec_index_t \<Rightarrow> buf \<Rightarrow> bool \<times> buf" where
  "A2DP_InitCodecConfigAac codec_index p =
     (case codec_index of
        BTAV_A2DP_CODEC_INDEX_SINK_AAC \<Rightarrow> A2DP_InitCodecConfigAacSink p
      | _ \<Rightarrow> (False, p))"

definition A2DP_BuildCodecConfigAac :: "buf \<Rightarrow> buf \<Rightarrow> bool \<times> buf" where
  "A2DP_BuildCodecConfigAac p_src_cap p_result =
     (case A2DP_BuildInfoAac A2D_MEDIA_TYPE_AUDIO (Some a2dp_aac_sink_caps) (Some p_result) of
        (sts, r) \<Rightarrow> (sts = A2D_SUCCESS, the r))"

subsection \<open>The contract\<close>

text \<open>
  A well-formed element: a non-empty object type, sampling frequencies without the reserved
  bits and not empty, a channel mode under its mask, a bit rate of 23 bits.
\<close>

definition aac_wf :: "tA2DP_AAC_CIE \<Rightarrow> bool" where
  "aac_wf ie \<longleftrightarrow> aac_objectType ie \<noteq> 0 \<and>
     aac_sampleRate ie AND 0xF0FF = aac_sampleRate ie \<and> aac_sampleRate ie \<noteq> 0 \<and>
     aac_channelMode ie AND A2DP_AAC_CHANNEL_MODE_MASK = aac_channelMode ie \<and>
     aac_channelMode ie \<noteq> 0 \<and>
     aac_variableBitRateSupport ie AND A2DP_AAC_VARIABLE_BIT_RATE_MASK =
       aac_variableBitRateSupport ie \<and>
     aac_bitRate ie AND 0x7FFFFF = aac_bitRate ie"

text \<open>The sample size is not part of the octets.\<close>

definition aac_norm :: "tA2DP_AAC_CIE \<Rightarrow> tA2DP_AAC_CIE \<Rightarrow> tA2DP_AAC_CIE" where
  "aac_norm ie0 ie = ie\<lparr>aac_bits_per_sample := aac_bits_per_sample ie0\<rparr>"

text \<open>The sampling frequency and the bit rate as the parser assembles them.\<close>

definition aac_rd_rate :: "buf \<Rightarrow> u16" where
  "aac_rd_rate b = (ucast (b 4) AND A2DP_AAC_SAMPLING_FREQ_MASK0) OR
     (push_bit 8 (ucast (b 5)) AND A2DP_AAC_SAMPLING_FREQ_MASK1)"

definition aac_rd_bitrate :: "buf \<Rightarrow> u32" where
  "aac_rd_bitrate b = (push_bit 16 (ucast (b 6)) AND A2DP_AAC_BIT_RATE_MASK0) OR
     (push_bit 8 (ucast (b 7)) AND A2DP_AAC_BIT_RATE_MASK1) OR
     (ucast (b 8) AND A2DP_AAC_BIT_RATE_MASK2)"

text \<open>The fields that share bytes are read back under their masks.\<close>

lemma aac_packed_rate:
  fixes f :: u16 and m :: u8
  shows "(ucast (ucast (f AND 0xFF) :: u8) AND 0xFF) OR
      (push_bit 8 (ucast (ucast (drop_bit 8 (f AND 0xF000)) OR (m AND 0x0C) :: u8)) AND 0xF000) =
    f AND 0xF0FF"
  by (rule u16_eqI) (simp add: upt_rec bit_simps, simp add: numeral_eq_Suc)

lemma aac_packed_mode:
  fixes f :: u16 and m :: u8
  shows "(ucast (drop_bit 8 (f AND 0xF000)) OR (m AND 0x0C)) AND 0x0C = m AND 0x0C"
  by (auto simp: u8_eq_iff bit_simps)

lemma aac_packed_vbr:
  fixes v :: u8 and x :: u32
  shows "(v AND 0x80 OR ucast (drop_bit 16 (x AND 0x7F0000))) AND 0x80 = v AND 0x80"
  by (auto simp: u8_eq_iff bit_simps)

lemma aac_packed_bitrate:
  fixes v :: u8 and x :: u32
  shows "(push_bit 16 (ucast (v AND 0x80 OR ucast (drop_bit 16 (x AND 0x7F0000)))) AND 0x7F0000) OR
      (push_bit 8 (ucast (ucast (drop_bit 8 (x AND 0xFF00)) :: u8)) AND 0xFF00) OR
      (ucast (ucast (x AND 0xFF) :: u8) AND 0xFF) =
    x AND 0x7FFFFF"
  by (rule u32_eqI) (simp add: upt_rec bit_simps, simp add: numeral_eq_Suc)

lemmas aac_packed = aac_packed_rate aac_packed_mode aac_packed_vbr aac_packed_bitrate

lemma aac_parsed_rate:
  fixes a b :: u8
  shows "((ucast a :: u16) AND 0xFF OR push_bit 8 (ucast b) AND 0xF000) AND 0xF0FF =
    (ucast a AND 0xFF OR push_bit 8 (ucast b) AND 0xF000)"
  by (rule u16_eqI) (simp add: upt_rec bit_simps)

lemma aac_parsed_bitrate:
  fixes a b c :: u8
  shows "((push_bit 16 (ucast a) AND 0x7F0000) OR (push_bit 8 (ucast b) AND 0xFF00) OR
      ((ucast c :: u32) AND 0xFF)) AND 0x7FFFFF =
    (push_bit 16 (ucast a) AND 0x7F0000) OR (push_bit 8 (ucast b) AND 0xFF00) OR (ucast c AND 0xFF)"
  by (rule u32_eqI) (simp add: upt_rec bit_simps)

lemma A2DP_BuildInfoAac_wf:
  assumes "aac_wf ie"
  obtains r' where "A2DP_BuildInfoAac A2D_MEDIA_TYPE_AUDIO (Some ie) (Some r) = (A2D_SUCCESS, Some r')"
    and "r' 0 = A2DP_AAC_CODEC_LEN" "r' (Suc 0) = 0" "r' 2 = A2D_MEDIA_CT_M24"
    and "r' 3 = aac_objectType ie"
    and "aac_rd_rate r' = aac_sampleRate ie" and "r' 5 AND 0x0C = aac_channelMode ie"
    and "r' 6 AND 0x80 = aac_variableBitRateSupport ie" and "aac_rd_bitrate r' = aac_bitRate ie"
proof -
  note wf = assms [unfolded aac_wf_def]
  obtain r' where r': "A2DP_BuildInfoAac A2D_MEDIA_TYPE_AUDIO (Some ie) (Some r) = (A2D_SUCCESS, Some r')"
    using wf by (auto simp: A2DP_BuildInfoAac_def Let_def)
  then have "r' 0 = A2DP_AAC_CODEC_LEN" "r' (Suc 0) = 0" "r' 2 = A2D_MEDIA_CT_M24"
    "r' 3 = aac_objectType ie"
    using wf by (auto simp: A2DP_BuildInfoAac_def Let_def)
  moreover have b: "r' 4 = ucast (aac_sampleRate ie AND 0xFF)"
    "r' 5 = ucast (drop_bit 8 (aac_sampleRate ie AND 0xF000)) OR (aac_channelMode ie AND 0x0C)"
    "r' 6 = aac_variableBitRateSupport ie AND 0x80 OR ucast (drop_bit 16 (aac_bitRate ie AND 0x7F0000))"
    "r' 7 = ucast (drop_bit 8 (aac_bitRate ie AND 0xFF00))" "r' 8 = ucast (aac_bitRate ie AND 0xFF)"
    using r' wf by (auto simp: A2DP_BuildInfoAac_def Let_def)
  have "aac_rd_rate r' = aac_sampleRate ie AND 0xF0FF" "r' 5 AND 0x0C = aac_channelMode ie AND 0x0C"
    "r' 6 AND 0x80 = aac_variableBitRateSupport ie AND 0x80"
    "aac_rd_bitrate r' = aac_bitRate ie AND 0x7FFFFF"
    unfolding aac_rd_rate_def aac_rd_bitrate_def b by (rule aac_packed)+
  then have "aac_rd_rate r' = aac_sampleRate ie" "r' 5 AND 0x0C = aac_channelMode ie"
    "r' 6 AND 0x80 = aac_variableBitRateSupport ie" "aac_rd_bitrate r' = aac_bitRate ie"
    using wf by simp_all
  ultimately show thesis using r' that by blast
qed

text \<open>The parser in terms of these fields.\<close>

lemma A2DP_ParseInfoAac_True:
  "A2DP_ParseInfoAac (Some ie0) (Some b) True = (A2D_SUCCESS, Some ie) \<longleftrightarrow>
     b 0 = A2DP_AAC_CODEC_LEN \<and> drop_bit 4 (b 1) = A2D_MEDIA_TYPE_AUDIO \<and> b 2 = A2D_MEDIA_CT_M24 \<and>
     b 3 \<noteq> 0 \<and> aac_rd_rate b \<noteq> 0 \<and> b 5 AND A2DP_AAC_CHANNEL_MODE_MASK \<noteq> 0 \<and>
     ie = ie0\<lparr>aac_objectType := b 3, aac_sampleRate := aac_rd_rate b,
       aac_channelMode := b 5 AND A2DP_AAC_CHANNEL_MODE_MASK,
       aac_variableBitRateSupport := b 6 AND A2DP_AAC_VARIABLE_BIT_RATE_MASK,
       aac_bitRate := aac_rd_bitrate b\<rparr>"
  by (auto simp: A2DP_ParseInfoAac_def aac_rd_rate_def aac_rd_bitrate_def Let_def)

interpretation aac: strict_codec A2DP_ParseInfoAac A2DP_BuildInfoAac 9 aac_wf aac_norm
proof
  show "(9::nat) \<le> AVDT_CODEC_SIZE" by simp
next
  fix b b' :: buf and p cap
  assume "buf_agree 9 b b'"
  then show "A2DP_ParseInfoAac p (Some b) cap = A2DP_ParseInfoAac p (Some b') cap"
    by (simp add: A2DP_ParseInfoAac_def Let_def agree_simps [of 9] split: option.split)
next
  fix ie ie' :: tA2DP_AAC_CIE and b cap
  show "fst (A2DP_ParseInfoAac (Some ie) (Some b) cap) =
      fst (A2DP_ParseInfoAac (Some ie') (Some b) cap)"
    by (simp add: A2DP_ParseInfoAac_def Let_def)
next
  fix ie0 ie :: tA2DP_AAC_CIE and b
  assume "A2DP_ParseInfoAac (Some ie0) (Some b) True = (A2D_SUCCESS, Some ie)"
  then show "aac_wf ie"
    by (auto simp: A2DP_ParseInfoAac_True aac_wf_def aac_rd_rate_def aac_rd_bitrate_def
        aac_parsed_rate aac_parsed_bitrate)
next
  fix mt r and k :: nat and p :: "tA2DP_AAC_CIE option"
  assume "9 \<le> k"
  then show "\<exists>r'. snd (A2DP_BuildInfoAac mt p (Some r)) = Some r' \<and> r' k = r k"
    by (auto simp: A2DP_BuildInfoAac_def Let_def split: option.split)
next
  fix ie0 :: tA2DP_AAC_CIE and b cap
  show "snd (A2DP_ParseInfoAac (Some ie0) (Some b) cap) \<noteq> None"
    by (simp add: A2DP_ParseInfoAac_def Let_def)
next
  fix ie ie0 :: tA2DP_AAC_CIE and r
  assume wf: "aac_wf ie"
  then obtain r' where r': "A2DP_BuildInfoAac A2D_MEDIA_TYPE_AUDIO (Some ie) (Some r) = (A2D_SUCCESS, Some r')"
    and head: "r' 0 = A2DP_AAC_CODEC_LEN" "r' (Suc 0) = 0" "r' 2 = A2D_MEDIA_CT_M24"
    and obj: "r' 3 = aac_objectType ie"
    and fields: "aac_rd_rate r' = aac_sampleRate ie" "r' 5 AND 0x0C = aac_channelMode ie"
      "r' 6 AND 0x80 = aac_variableBitRateSupport ie" "aac_rd_bitrate r' = aac_bitRate ie"
    by (rule A2DP_BuildInfoAac_wf [of _ r])
  then show "\<exists>r'. A2DP_BuildInfoAac A2D_MEDIA_TYPE_AUDIO (Some ie) (Some r) = (A2D_SUCCESS, Some r') \<and>
      A2DP_ParseInfoAac (Some ie0) (Some r') True = (A2D_SUCCESS, Some (aac_norm ie0 ie))"
    using wf
    by (simp add: A2DP_ParseInfoAac_True aac_wf_def aac_norm_def)
next
  fix ie :: tA2DP_AAC_CIE and b
  assume "fst (A2DP_ParseInfoAac (Some ie) (Some b) False) = A2D_SUCCESS"
  then show "fst (A2DP_ParseInfoAac (Some ie) (Some b) True) = A2D_SUCCESS"
    by (auto simp: A2DP_ParseInfoAac_def Let_def A2D_BitsSet_def split: if_splits)
qed

subsection \<open>Properties\<close>

text \<open>
  Every well-formed AAC element is built and parsed back, although the sampling
  frequency and the bit rate share octets with the channel mode and the variable bit rate flag;
  only the sample size, which is not transmitted, keeps the value it had in the target.
\<close>
theorem aac_build_parse:
  assumes "aac_wf ie"
  shows "\<exists>r'. A2DP_BuildInfoAac A2D_MEDIA_TYPE_AUDIO (Some ie) (Some r) = (A2D_SUCCESS, Some r') \<and>
    A2DP_ParseInfoAac (Some ie0) (Some r') True =
      (A2D_SUCCESS, Some (ie\<lparr>aac_bits_per_sample := aac_bits_per_sample ie0\<rparr>))"
  using aac.parse_build [OF assms, of r ie0] by (simp add: aac_norm_def)

theorem aac_build_parse_witness:
  "\<exists>r'. A2DP_BuildInfoAac A2D_MEDIA_TYPE_AUDIO (Some a2dp_aac_sink_caps) (Some (bytes [])) =
      (A2D_SUCCESS, Some r') \<and>
    A2DP_ParseInfoAac (Some aac_cie_local) (Some r') True =
      (A2D_SUCCESS, Some (a2dp_aac_sink_caps\<lparr>aac_bits_per_sample := BTAV_A2DP_CODEC_BITS_PER_SAMPLE_NONE\<rparr>))"
  using aac_build_parse [of a2dp_aac_sink_caps "bytes []" aac_cie_local]
  by (simp add: aac_wf_def a2dp_aac_sink_caps_def aac_cie_local_def)

text \<open>
  The AAC configuration builder does not look at the source: for all octets of a
  source it succeeds and writes the capability element of the sink (44.1 and 48 kHz, mono and
  stereo). These octets are not a configuration: the parser refuses them as one, with two
  sampling frequencies set.
\<close>
theorem aac_config_is_capability:
  "A2DP_BuildCodecConfigAac src r =
     (True, store r 0 [8, 0, 2, 0x80, 0x01, 0x8C, 0x84, 0xE2, 0x00]) \<and>
   fst (A2DP_ParseInfoAac (Some ie) (Some (snd (A2DP_BuildCodecConfigAac src r))) True) = A2D_SUCCESS \<and>
   fst (A2DP_ParseInfoAac (Some ie) (Some (snd (A2DP_BuildCodecConfigAac src r))) False) = A2D_BAD_SAMP_FREQ"
proof -
  have *: "A2DP_BuildCodecConfigAac src r =
      (True, store r 0 [8, 0, 2, 0x80, 0x01, 0x8C, 0x84, 0xE2, 0x00])"
    by (simp add: A2DP_BuildCodecConfigAac_def A2DP_BuildInfoAac_def a2dp_aac_sink_caps_def Let_def
        fun_upd_twist)
  show ?thesis
    unfolding * by (simp add: A2DP_ParseInfoAac_def A2D_BitsSet_def Let_def)
qed

end
