(* ===== verification/A2DP_Aptx.thy ===== *)
theory A2DP_Aptx
  imports Codec_Interface
begin

text \<open>
  stack/a2dp/a2dp\_vendor\_aptx.c: the aptX codec information element.
\<close>

abbreviation (input) A2DP_APTX_CODEC_LEN :: u8 where "A2DP_APTX_CODEC_LEN \<equiv> 9"
abbreviation (input) A2DP_APTX_VENDOR_ID :: u32 where "A2DP_APTX_VENDOR_ID \<equiv> 0x4F"
abbreviation (input) A2DP_APTX_CODEC_ID_BLUETOOTH :: u16 where "A2DP_APTX_CODEC_ID_BLUETOOTH \<equiv> 0x0001"
abbreviation (input) A2DP_APTX_SAMPLERATE_44100 :: u8 where "A2DP_APTX_SAMPLERATE_44100 \<equiv> 0x20"
abbreviation (input) A2DP_APTX_SAMPLERATE_48000 :: u8 where "A2DP_APTX_SAMPLERATE_48000 \<equiv> 0x10"
abbreviation (input) A2DP_APTX_CHANNELS_STEREO :: u8 where "A2DP_APTX_CHANNELS_STEREO \<equiv> 0x02"
abbreviation (input) A2DP_APTX_CHANNELS_MONO :: u8 where "A2DP_APTX_CHANNELS_MONO \<equiv> 0x01"
abbreviation (input) A2DP_APTX_FUTURE_1 :: u8 where "A2DP_APTX_FUTURE_1 \<equiv> 0"
abbreviation (input) A2DP_APTX_FUTURE_2 :: u8 where "A2DP_APTX_FUTURE_2 \<equiv> 0"

record tA2DP_APTX_CIE =
  aptx_vendorId :: u32
  aptx_codecId :: u16
  aptx_sampleRate :: u8
  aptx_channelMode :: u8
  aptx_future1 :: u8
  aptx_future2 :: u8
  aptx_bits_per_sample :: btav_a2dp_codec_bits_per_sample_t

definition aptx_cie_local :: tA2DP_APTX_CIE where
  "aptx_cie_local = \<lparr>aptx_vendorId = 0, aptx_codecId = 0, aptx_sampleRate = 0,
     aptx_channelMode = 0, aptx_future1 = 0, aptx_future2 = 0,
     aptx_bits_per_sample = BTAV_A2DP_CODEC_BITS_PER_SAMPLE_NONE\<rparr>"

definition a2dp_aptx_source_caps :: tA2DP_APTX_CIE where
  "a2dp_aptx_source_caps = \<lparr>aptx_vendorId = A2DP_APTX_VENDOR_ID,
     aptx_codecId = A2DP_APTX_CODEC_ID_BLUETOOTH,
     aptx_sampleRate = A2DP_APTX_SAMPLERATE_44100 OR A2DP_APTX_SAMPLERATE_48000,
     aptx_channelMode = A2DP_APTX_CHANNELS_STEREO,
     aptx_future1 = A2DP_APTX_FUTURE_1,
     aptx_future2 = A2DP_APTX_FUTURE_2,
     aptx_bits_per_sample = BTAV_A2DP_CODEC_BITS_PER_SAMPLE_16\<rparr>"

definition a2dp_aptx_sink_caps :: tA2DP_APTX_CIE where
  "a2dp_aptx_sink_caps = \<lparr>aptx_vendorId = A2DP_APTX_VENDOR_ID,
     aptx_codecId = A2DP_APTX_CODEC_ID_BLUETOOTH,
     aptx_sampleRate = A2DP_APTX_SAMPLERATE_44100 OR A2DP_APTX_SAMPLERATE_48000,
     aptx_channelMode = A2DP_APTX_CHANNELS_STEREO,
     aptx_future1 = A2DP_APTX_FUTURE_1,
     aptx_future2 = A2DP_APTX_FUTURE_2,
     aptx_bits_per_sample = BTAV_A2DP_CODEC_BITS_PER_SAMPLE_16\<rparr>"

definition a2dp_aptx_default_config :: tA2DP_APTX_CIE where
  "a2dp_aptx_default_config = \<lparr>aptx_vendorId = A2DP_APTX_VENDOR_ID,
     aptx_codecId = A2DP_APTX_CODEC_ID_BLUETOOTH,
     aptx_sampleRate = A2DP_APTX_SAMPLERATE_48000,
     aptx_channelMode = A2DP_APTX_CHANNELS_STEREO,
     aptx_future1 = A2DP_APTX_FUTURE_1,
     aptx_future2 = A2DP_APTX_FUTURE_2,
     aptx_bits_per_sample = BTAV_A2DP_CODEC_BITS_PER_SAMPLE_16\<rparr>"

definition A2DP_BuildInfoAptx :: "tA2DP_APTX_CIE builder" where
  "A2DP_BuildInfoAptx media_type p_ie p_result =
     (case (p_ie, p_result) of
        (Some ie, Some r) \<Rightarrow>
          (A2D_SUCCESS, Some (store r 0
             ([A2DP_APTX_CODEC_LEN, push_bit 4 media_type, A2D_MEDIA_CT_NON_A2DP]
              @ put32le (aptx_vendorId ie) @ put16le (aptx_codecId ie)
              @ [aptx_sampleRate ie OR aptx_channelMode ie])))
      | _ \<Rightarrow> (A2D_INVALID_PARAMS, p_result))"

definition A2DP_ParseInfoAptx :: "tA2DP_APTX_CIE parser" where
  "A2DP_ParseInfoAptx p_ie p_codec_info is_capability =
     (case (p_ie, p_codec_info) of
        (Some ie, Some b) \<Rightarrow>
          if b 0 \<noteq> A2DP_APTX_CODEC_LEN then (A2D_WRONG_CODEC, Some ie)
          else if drop_bit 4 (b 1) \<noteq> AVDT_MEDIA_TYPE_AUDIO \<or> b 2 \<noteq> A2D_MEDIA_CT_NON_A2DP
          then (A2D_WRONG_CODEC, Some ie)
          else
            (let ie1 = ie\<lparr>aptx_vendorId := rd32le b 3, aptx_codecId := rd16le b 7\<rparr>
             in if aptx_vendorId ie1 \<noteq> A2DP_APTX_VENDOR_ID \<or>
                   aptx_codecId ie1 \<noteq> A2DP_APTX_CODEC_ID_BLUETOOTH
                then (A2D_WRONG_CODEC, Some ie1)
                else
                  (let ie2 = ie1\<lparr>aptx_channelMode := b 9 AND 0x0F,
                         aptx_sampleRate := b 9 AND 0xF0\<rparr>
                   in if is_capability then
                        (if A2D_BitsSet (ucast (aptx_sampleRate ie2)) = A2D_SET_ZERO_BIT
                         then (A2D_BAD_SAMP_FREQ, Some ie2)
                         else if A2D_BitsSet (ucast (aptx_channelMode ie2)) = A2D_SET_ZERO_BIT
                         then (A2D_BAD_CH_MODE, Some ie2)
                         else (A2D_SUCCESS, Some ie2))
                      else if A2D_BitsSet (ucast (aptx_sampleRate ie2)) \<noteq> A2D_SET_ONE_BIT
                      then (A2D_BAD_SAMP_FREQ, Some ie2)
                      else if A2D_BitsSet (ucast (aptx_channelMode ie2)) \<noteq> A2D_SET_ONE_BIT
                      then (A2D_BAD_CH_MODE, Some ie2)
                      else (A2D_SUCCESS, Some ie2)))
      | _ \<Rightarrow> (A2D_INVALID_PARAMS, p_ie))"

definition A2DP_IsVendorPeerSourceCodecValidAptx :: "buf \<Rightarrow> u8" where
  "A2DP_IsVendorPeerSourceCodecValidAptx p =
     (let status = fst (A2DP_ParseInfoAptx (Some aptx_cie_local) (Some p) True)
      in if status = A2D_SUCCESS then status
         else fst (A2DP_ParseInfoAptx (Some aptx_cie_local) (Some p) False))"

definition A2DP_IsVendorPeerSinkCodecValidAptx :: "buf \<Rightarrow> bool" where
  "A2DP_IsVendorPeerSinkCodecValidAptx p \<longleftrightarrow>
     fst (A2DP_ParseInfoAptx (Some aptx_cie_local) (Some p) False) = A2D_SUCCESS \<or>
     fst (A2DP_ParseInfoAptx (Some aptx_cie_local) (Some p) True) = A2D_SUCCESS"

definition A2DP_CodecInfoMatchesCapabilityAptx ::
  "tA2DP_APTX_CIE \<Rightarrow> buf \<Rightarrow> bool \<Rightarrow> u8" where
  "A2DP_CodecInfoMatchesCapabilityAptx p_cap p is_capability =
     (case A2DP_ParseInfoAptx (Some aptx_cie_local) (Some p) is_capability of
        (status, cfg) \<Rightarrow>
          if status \<noteq> A2D_SUCCESS then status
          else if aptx_sampleRate (the cfg) AND aptx_sampleRate p_cap = 0 then A2D_NS_SAMP_FREQ
          else if aptx_channelMode (the cfg) AND aptx_channelMode p_cap = 0 then A2D_NS_CH_MODE
          else A2D_SUCCESS)"

definition A2DP_VendorSinkCodecIndexAptx :: "buf \<Rightarrow> btav_a2dp_codec_index_t" where
  "A2DP_VendorSinkCodecIndexAptx p = BTAV_A2DP_CODEC_INDEX_SINK_APTX"

definition A2DP_VendorSourceCodecIndexAptx :: "buf \<Rightarrow> btav_a2dp_codec_index_t" where
  "A2DP_VendorSourceCodecIndexAptx p = BTAV_A2DP_CODEC_INDEX_SOURCE_APTX"

definition A2DP_VendorCodecNameAptx :: "buf \<Rightarrow> string" where
  "A2DP_VendorCodecNameAptx p = ''aptX''"

definition A2DP_VendorCodecTypeEqualsAptx :: "buf \<Rightarrow> buf \<Rightarrow> bool" where
  "A2DP_VendorCodecTypeEqualsAptx a b =
     (if fst (A2DP_ParseInfoAptx (Some aptx_cie_local) (Some a) True) \<noteq> A2D_SUCCESS then False
      else if fst (A2DP_ParseInfoAptx (Some aptx_cie_local) (Some b) True) \<noteq> A2D_SUCCESS then False
      else True)"

definition A2DP_VendorInitCodecConfigAptxSink :: "buf \<Rightarrow> bool \<times> buf" where
  "A2DP_VendorInitCodecConfigAptxSink p =
     (case A2DP_BuildInfoAptx A2D_MEDIA_TYPE_AUDIO (Some a2dp_aptx_sink_caps) (Some p) of
        (sts, p') \<Rightarrow> (sts = A2D_SUCCESS, the p'))"

definition A2DP_VendorInitCodecConfigAptx ::
  "btav_a2dp_codec_index_t \<Rightarrow> buf \<Rightarrow> bool \<times> buf" where
  "A2DP_VendorInitCodecConfigAptx codec_index p =
     (case codec_index of
        BTAV_A2DP_CODEC_INDEX_SINK_APTX \<Rightarrow> A2DP_VendorInitCodecConfigAptxSink p
      | _ \<Rightarrow> (False, p))"

text \<open>Both tests of the channel mode are for stereo, as in the code.\<close>

definition A2DP_VendorBuildCodecConfigAptx :: "buf \<Rightarrow> buf \<Rightarrow> bool \<times> buf" where
  "A2DP_VendorBuildCodecConfigAptx p_src_cap p_result =
     (case A2DP_ParseInfoAptx (Some aptx_cie_local) (Some p_src_cap) True of
        (status, src) \<Rightarrow>
          if status \<noteq> 0 then (False, p_result)
          else
            (let src_cap = the src; pref_cap = a2dp_aptx_default_config;
                 rate = first_set (aptx_sampleRate src_cap)
                   [A2DP_APTX_SAMPLERATE_48000, A2DP_APTX_SAMPLERATE_44100];
                 mode = (if aptx_channelMode src_cap AND A2DP_APTX_CHANNELS_STEREO \<noteq> 0
                         then Some A2DP_APTX_CHANNELS_STEREO
                         else if aptx_channelMode src_cap AND A2DP_APTX_CHANNELS_STEREO \<noteq> 0
                         then Some A2DP_APTX_CHANNELS_MONO
                         else None)
             in case rate of
                  None \<Rightarrow> (False, p_result)
                | Some f \<Rightarrow>
                    (case mode of
                       None \<Rightarrow> (False, p_result)
                     | Some m \<Rightarrow>
                         (True, the (snd (A2DP_BuildInfoAptx A2D_MEDIA_TYPE_AUDIO
                           (Some (pref_cap\<lparr>aptx_sampleRate := f, aptx_channelMode := m\<rparr>))
                           (Some p_result)))))))"

definition A2DP_GetVendorDecoderInterfaceAptx :: "buf \<Rightarrow> tA2DP_DECODER_INTERFACE option" where
  "A2DP_GetVendorDecoderInterfaceAptx p =
     (if \<not> A2DP_IsVendorPeerSinkCodecValidAptx p then None else Some a2dp_decoder_interface_aptx)"

subsection \<open>The contract\<close>

definition aptx_wf :: "tA2DP_APTX_CIE \<Rightarrow> bool" where
  "aptx_wf ie \<longleftrightarrow> aptx_vendorId ie = A2DP_APTX_VENDOR_ID \<and>
     aptx_codecId ie = A2DP_APTX_CODEC_ID_BLUETOOTH \<and>
     aptx_sampleRate ie AND 0xF0 = aptx_sampleRate ie \<and> aptx_sampleRate ie \<noteq> 0 \<and>
     aptx_channelMode ie AND 0x0F = aptx_channelMode ie \<and> aptx_channelMode ie \<noteq> 0"

text \<open>The fields that are not part of the octets keep the value they had.\<close>

definition aptx_norm :: "tA2DP_APTX_CIE \<Rightarrow> tA2DP_APTX_CIE \<Rightarrow> tA2DP_APTX_CIE" where
  "aptx_norm ie0 ie = ie\<lparr>aptx_future1 := aptx_future1 ie0, aptx_future2 := aptx_future2 ie0, aptx_bits_per_sample := aptx_bits_per_sample ie0\<rparr>"

definition aptx_within :: "tA2DP_APTX_CIE \<Rightarrow> tA2DP_APTX_CIE \<Rightarrow> bool" where
  "aptx_within c s \<longleftrightarrow> aptx_sampleRate c AND aptx_sampleRate s = aptx_sampleRate c \<and>
     aptx_channelMode c AND aptx_channelMode s = aptx_channelMode c"

lemma A2DP_BuildInfoAptx_ok:
  obtains r' where "A2DP_BuildInfoAptx A2D_MEDIA_TYPE_AUDIO (Some ie) (Some r) = (A2D_SUCCESS, Some r')"
    and "r' 0 = A2DP_APTX_CODEC_LEN" "r' (Suc 0) = 0" "r' 2 = A2D_MEDIA_CT_NON_A2DP"
    and "rd32le r' 3 = aptx_vendorId ie" "rd16le r' 7 = aptx_codecId ie"
    and "r' 9 = aptx_sampleRate ie OR aptx_channelMode ie"
proof -
  define s where "s = store r 0 ([A2DP_APTX_CODEC_LEN, 0, A2D_MEDIA_CT_NON_A2DP] @
    put32le (aptx_vendorId ie) @ put16le (aptx_codecId ie) @
    [aptx_sampleRate ie OR aptx_channelMode ie])"
  have "A2DP_BuildInfoAptx A2D_MEDIA_TYPE_AUDIO (Some ie) (Some r) = (A2D_SUCCESS, Some s)"
    by (simp add: A2DP_BuildInfoAptx_def s_def)
  then show thesis
    by (rule that) (simp_all add: store_header(1-5) [OF s_def] store_header(6) [OF s_def, of 0, simplified])
qed

lemma A2DP_ParseInfoAptx_True:
  "A2DP_ParseInfoAptx (Some ie0) (Some b) True = (A2D_SUCCESS, Some ie) \<longleftrightarrow>
     b 0 = A2DP_APTX_CODEC_LEN \<and> drop_bit 4 (b 1) = AVDT_MEDIA_TYPE_AUDIO \<and>
     b 2 = A2D_MEDIA_CT_NON_A2DP \<and> rd32le b 3 = A2DP_APTX_VENDOR_ID \<and>
     rd16le b 7 = A2DP_APTX_CODEC_ID_BLUETOOTH \<and> b 9 AND 0xF0 \<noteq> 0 \<and> b 9 AND 0x0F \<noteq> 0 \<and>
     ie = ie0\<lparr>aptx_vendorId := A2DP_APTX_VENDOR_ID, aptx_codecId := A2DP_APTX_CODEC_ID_BLUETOOTH,
       aptx_channelMode := b 9 AND 0x0F, aptx_sampleRate := b 9 AND 0xF0\<rparr>"
  by (auto simp: A2DP_ParseInfoAptx_def Let_def)

lemma A2DP_ParseInfoAptx_False:
  "A2DP_ParseInfoAptx (Some ie0) (Some b) False = (A2D_SUCCESS, Some ie) \<longleftrightarrow>
     A2DP_ParseInfoAptx (Some ie0) (Some b) True = (A2D_SUCCESS, Some ie) \<and>
     one_bit (aptx_sampleRate ie) \<and> one_bit (aptx_channelMode ie)"
  by (auto simp: A2DP_ParseInfoAptx_def Let_def A2D_BitsSet_u8_one one_bit_nonzero split: if_splits)

text \<open>A successful parse fixes the codec type and the ids.\<close>

lemma aptx_parse_ids:
  "fst (A2DP_ParseInfoAptx (Some ie) (Some p) cap) = A2D_SUCCESS \<Longrightarrow>
     p 2 = A2D_MEDIA_CT_NON_A2DP \<and> rd32le p 3 = A2DP_APTX_VENDOR_ID \<and> rd16le p 7 = A2DP_APTX_CODEC_ID_BLUETOOTH"
  by (simp add: A2DP_ParseInfoAptx_def Let_def split: if_split_asm)

interpretation aptx: strict_codec A2DP_ParseInfoAptx A2DP_BuildInfoAptx 10 aptx_wf aptx_norm
proof
  show "(10::nat) \<le> AVDT_CODEC_SIZE" by simp
next
  fix b b' :: buf and p cap
  assume "buf_agree 10 b b'"
  then show "A2DP_ParseInfoAptx p (Some b) cap = A2DP_ParseInfoAptx p (Some b') cap"
    by (simp add: A2DP_ParseInfoAptx_def Let_def agree_simps [of 10] split: option.split)
next
  fix ie ie' :: tA2DP_APTX_CIE and b cap
  show "fst (A2DP_ParseInfoAptx (Some ie) (Some b) cap) =
      fst (A2DP_ParseInfoAptx (Some ie') (Some b) cap)"
    by (simp add: A2DP_ParseInfoAptx_def Let_def)
next
  fix ie0 ie :: tA2DP_APTX_CIE and b
  assume "A2DP_ParseInfoAptx (Some ie0) (Some b) True = (A2D_SUCCESS, Some ie)"
  then show "aptx_wf ie" by (simp add: A2DP_ParseInfoAptx_True aptx_wf_def)
next
  fix mt r and k :: nat and p :: "tA2DP_APTX_CIE option"
  assume "10 \<le> k"
  then show "\<exists>r'. snd (A2DP_BuildInfoAptx mt p (Some r)) = Some r' \<and> r' k = r k"
    by (auto simp: A2DP_BuildInfoAptx_def Let_def store_apply split: option.split)
next
  fix ie0 :: tA2DP_APTX_CIE and b cap
  show "snd (A2DP_ParseInfoAptx (Some ie0) (Some b) cap) \<noteq> None"
    by (simp add: A2DP_ParseInfoAptx_def Let_def)
next
  fix ie ie0 :: tA2DP_APTX_CIE and r
  assume wf: "aptx_wf ie"
  then have packed: "(aptx_sampleRate ie OR aptx_channelMode ie) AND 0xF0 = aptx_sampleRate ie"
    "(aptx_sampleRate ie OR aptx_channelMode ie) AND 0x0F = aptx_channelMode ie"
    using or_and_mask [where x = "aptx_sampleRate ie" and m = "0xF0" and y = "aptx_channelMode ie" and m' = "0x0F"]
      or_and_mask [where x = "aptx_channelMode ie" and m = "0x0F" and y = "aptx_sampleRate ie" and m' = "0xF0"]
    by (simp_all add: aptx_wf_def)
  show "\<exists>r'. A2DP_BuildInfoAptx A2D_MEDIA_TYPE_AUDIO (Some ie) (Some r) = (A2D_SUCCESS, Some r') \<and>
      A2DP_ParseInfoAptx (Some ie0) (Some r') True = (A2D_SUCCESS, Some (aptx_norm ie0 ie))"
    by (rule A2DP_BuildInfoAptx_ok [of ie r])
      (use wf packed in \<open>simp add: A2DP_ParseInfoAptx_True aptx_wf_def aptx_norm_def\<close>)
next
  fix ie :: tA2DP_APTX_CIE and b
  assume "fst (A2DP_ParseInfoAptx (Some ie) (Some b) False) = A2D_SUCCESS"
  then show "fst (A2DP_ParseInfoAptx (Some ie) (Some b) True) = A2D_SUCCESS"
    by (auto simp: A2DP_ParseInfoAptx_def Let_def A2D_BitsSet_def split: if_splits)
qed

subsection \<open>The choice of a configuration\<close>

text \<open>The configuration written for a source, or nothing.\<close>

definition aptx_choice :: "buf \<Rightarrow> tA2DP_APTX_CIE option" where
  "aptx_choice src =
     (if fst (A2DP_ParseInfoAptx (Some aptx_cie_local) (Some src) True) = A2D_SUCCESS \<and>
         src 9 AND 0x30 \<noteq> 0 \<and> src 9 AND A2DP_APTX_CHANNELS_STEREO \<noteq> 0
      then Some (a2dp_aptx_default_config\<lparr>
        aptx_sampleRate := (if src 9 AND A2DP_APTX_SAMPLERATE_48000 \<noteq> 0
          then A2DP_APTX_SAMPLERATE_48000 else A2DP_APTX_SAMPLERATE_44100),
        aptx_channelMode := A2DP_APTX_CHANNELS_STEREO\<rparr>)
      else None)"

lemma A2DP_VendorBuildCodecConfigAptx_choice:
  "A2DP_VendorBuildCodecConfigAptx src r =
     (case aptx_choice src of None \<Rightarrow> (False, r)
      | Some c \<Rightarrow> (True, the (snd (A2DP_BuildInfoAptx A2D_MEDIA_TYPE_AUDIO (Some c) (Some r)))))"
proof (cases "fst (A2DP_ParseInfoAptx (Some aptx_cie_local) (Some src) True) = A2D_SUCCESS")
  case True
  then obtain s where s: "A2DP_ParseInfoAptx (Some aptx_cie_local) (Some src) True = (A2D_SUCCESS, Some s)"
    by (rule aptx.parsed)
  then have fields: "aptx_sampleRate s = src 9 AND 0xF0" "aptx_channelMode s = src 9 AND 0x0F"
    by (simp_all add: A2DP_ParseInfoAptx_True)
  have bits: "src 9 AND 0x30 = 0 \<longleftrightarrow> src 9 AND 16 = 0 \<and> src 9 AND 32 = 0"
    "src 9 AND 3 = 0 \<longleftrightarrow> src 9 AND 1 = 0 \<and> src 9 AND 2 = 0"
    by (auto simp: u8_eq_iff bit_simps)
  show ?thesis
    unfolding A2DP_VendorBuildCodecConfigAptx_def aptx_choice_def s Let_def prod.case
    by (simp add: fields bits and.assoc)
next
  case False
  then show ?thesis
    by (auto simp: A2DP_VendorBuildCodecConfigAptx_def aptx_choice_def split: prod.split)
qed

interpretation aptx: negotiated_codec A2DP_ParseInfoAptx A2DP_BuildInfoAptx 10 aptx_wf aptx_norm
  aptx_cie_local A2DP_VendorBuildCodecConfigAptx aptx_within
proof
  fix src r r'
  assume "A2DP_VendorBuildCodecConfigAptx src r = (True, r')"
  then obtain c where c: "aptx_choice src = Some c"
    and r': "r' = the (snd (A2DP_BuildInfoAptx A2D_MEDIA_TYPE_AUDIO (Some c) (Some r)))"
    by (auto simp: A2DP_VendorBuildCodecConfigAptx_choice split: option.splits)
  then obtain s where s: "A2DP_ParseInfoAptx (Some aptx_cie_local) (Some src) True = (A2D_SUCCESS, Some s)"
    using aptx.parsed [of aptx_cie_local src] by (auto simp: aptx_choice_def split: if_splits)
  have wf: "aptx_wf c" and one: "one_bit (aptx_sampleRate c)" "one_bit (aptx_channelMode c)"
    and off: "src 9 AND aptx_sampleRate c \<noteq> 0" "src 9 AND aptx_channelMode c \<noteq> 0"
    and mask: "aptx_sampleRate c AND 0xF0 = aptx_sampleRate c" "aptx_channelMode c AND 0x0F = aptx_channelMode c"
    using c by (auto simp: aptx_choice_def aptx_wf_def a2dp_aptx_default_config_def one_bit_def
        u8_eq_iff [of "src 9 AND k" 0 for k] bit_simps split: if_splits)
  have "A2DP_ParseInfoAptx (Some aptx_cie_local) (Some r') True = (A2D_SUCCESS, Some (aptx_norm aptx_cie_local c))"
    by (rule aptx.built [OF wf, of r]) (simp add: r')
  then have c': "A2DP_ParseInfoAptx (Some aptx_cie_local) (Some r') False = (A2D_SUCCESS, Some (aptx_norm aptx_cie_local c))"
    using one by (simp add: A2DP_ParseInfoAptx_False aptx_norm_def)
  have "aptx_sampleRate s = src 9 AND 0xF0" "aptx_channelMode s = src 9 AND 0x0F"
    using s by (simp_all add: A2DP_ParseInfoAptx_True)
  then have "aptx_within (aptx_norm aptx_cie_local c) s"
    using one_bit_and [OF one(1) off(1)] one_bit_and [OF one(2) off(2)] mask
    by (simp add: aptx_within_def aptx_norm_def and.assoc [symmetric])
  with s c' show "\<exists>s c. A2DP_ParseInfoAptx (Some aptx_cie_local) (Some src) True = (A2D_SUCCESS, Some s) \<and>
      A2DP_ParseInfoAptx (Some aptx_cie_local) (Some r') False = (A2D_SUCCESS, Some c) \<and> aptx_within c s"
    by blast
next
  fix src src' r
  assume "buf_agree 10 src src'"
  then have "A2DP_ParseInfoAptx (Some aptx_cie_local) (Some src) True = A2DP_ParseInfoAptx (Some aptx_cie_local) (Some src') True"
    by (rule aptx.parse_local)
  then show "A2DP_VendorBuildCodecConfigAptx src r = A2DP_VendorBuildCodecConfigAptx src' r"
    by (simp add: A2DP_VendorBuildCodecConfigAptx_def)
next
  fix src r and k :: nat
  assume "10 \<le> k"
  then show "snd (A2DP_VendorBuildCodecConfigAptx src r) k = r k"
    by (simp add: A2DP_VendorBuildCodecConfigAptx_def Let_def case_prod_unfold aptx.build_beyond
        del: first_set.simps split: option.split)
qed

subsection \<open>Properties\<close>

text \<open>
  Choosing an aptX configuration succeeds exactly for a capability that offers 44.1 or
  48 kHz and stereo; the octets written name the best offered rate and stereo. A source that
  offers mono only is refused, although the code has a branch that selects mono: its test
  repeats the one for stereo.
\<close>
theorem aptx_config_eq:
  "A2DP_VendorBuildCodecConfigAptx src r =
     (if fst (A2DP_ParseInfoAptx (Some aptx_cie_local) (Some src) True) = A2D_SUCCESS \<and>
         src 9 AND (A2DP_APTX_SAMPLERATE_48000 OR A2DP_APTX_SAMPLERATE_44100) \<noteq> 0 \<and>
         src 9 AND A2DP_APTX_CHANNELS_STEREO \<noteq> 0
      then (True, store r 0 [9, 0, 0xFF, 0x4F, 0, 0, 0, 1, 0,
        (if src 9 AND A2DP_APTX_SAMPLERATE_48000 \<noteq> 0
         then A2DP_APTX_SAMPLERATE_48000 else A2DP_APTX_SAMPLERATE_44100) OR
        A2DP_APTX_CHANNELS_STEREO])
      else (False, r))"
  by (simp add: A2DP_VendorBuildCodecConfigAptx_choice aptx_choice_def A2DP_BuildInfoAptx_def
      a2dp_aptx_default_config_def put32le_def put16le_def fun_upd_twist)

end
