(* ===== verification/A2DP_Aptx_Hd.thy ===== *)
theory A2DP_Aptx_Hd
  imports Codec_Interface
begin

text \<open>
  stack/a2dp/a2dp\_vendor\_aptx\_hd.c: the aptX HD codec information element.
\<close>

abbreviation (input) A2DP_APTX_HD_CODEC_LEN :: u8 where "A2DP_APTX_HD_CODEC_LEN \<equiv> 13"
abbreviation (input) A2DP_APTX_HD_VENDOR_ID :: u32 where "A2DP_APTX_HD_VENDOR_ID \<equiv> 0xD7"
abbreviation (input) A2DP_APTX_HD_CODEC_ID_BLUETOOTH :: u16 where "A2DP_APTX_HD_CODEC_ID_BLUETOOTH \<equiv> 0x0024"
abbreviation (input) A2DP_APTX_HD_SAMPLERATE_44100 :: u8 where "A2DP_APTX_HD_SAMPLERATE_44100 \<equiv> 0x20"
abbreviation (input) A2DP_APTX_HD_SAMPLERATE_48000 :: u8 where "A2DP_APTX_HD_SAMPLERATE_48000 \<equiv> 0x10"
abbreviation (input) A2DP_APTX_HD_CHANNELS_STEREO :: u8 where "A2DP_APTX_HD_CHANNELS_STEREO \<equiv> 0x02"
abbreviation (input) A2DP_APTX_HD_CHANNELS_MONO :: u8 where "A2DP_APTX_HD_CHANNELS_MONO \<equiv> 0x01"
abbreviation (input) A2DP_APTX_HD_ACL_SPRINT_RESERVED0 :: u8 where "A2DP_APTX_HD_ACL_SPRINT_RESERVED0 \<equiv> 0"
abbreviation (input) A2DP_APTX_HD_ACL_SPRINT_RESERVED1 :: u8 where "A2DP_APTX_HD_ACL_SPRINT_RESERVED1 \<equiv> 0"
abbreviation (input) A2DP_APTX_HD_ACL_SPRINT_RESERVED2 :: u8 where "A2DP_APTX_HD_ACL_SPRINT_RESERVED2 \<equiv> 0"
abbreviation (input) A2DP_APTX_HD_ACL_SPRINT_RESERVED3 :: u8 where "A2DP_APTX_HD_ACL_SPRINT_RESERVED3 \<equiv> 0"

record tA2DP_APTX_HD_CIE =
  aptx_hd_vendorId :: u32
  aptx_hd_codecId :: u16
  aptx_hd_sampleRate :: u8
  aptx_hd_channelMode :: u8
  aptx_hd_acl_sprint_reserved0 :: u8
  aptx_hd_acl_sprint_reserved1 :: u8
  aptx_hd_acl_sprint_reserved2 :: u8
  aptx_hd_acl_sprint_reserved3 :: u8
  aptx_hd_bits_per_sample :: btav_a2dp_codec_bits_per_sample_t

definition aptx_hd_cie_local :: tA2DP_APTX_HD_CIE where
  "aptx_hd_cie_local = \<lparr>aptx_hd_vendorId = 0, aptx_hd_codecId = 0, aptx_hd_sampleRate = 0,
     aptx_hd_channelMode = 0, aptx_hd_acl_sprint_reserved0 = 0, aptx_hd_acl_sprint_reserved1 = 0, aptx_hd_acl_sprint_reserved2 = 0, aptx_hd_acl_sprint_reserved3 = 0,
     aptx_hd_bits_per_sample = BTAV_A2DP_CODEC_BITS_PER_SAMPLE_NONE\<rparr>"

definition a2dp_aptx_hd_source_caps :: tA2DP_APTX_HD_CIE where
  "a2dp_aptx_hd_source_caps = \<lparr>aptx_hd_vendorId = A2DP_APTX_HD_VENDOR_ID,
     aptx_hd_codecId = A2DP_APTX_HD_CODEC_ID_BLUETOOTH,
     aptx_hd_sampleRate = A2DP_APTX_HD_SAMPLERATE_44100 OR A2DP_APTX_HD_SAMPLERATE_48000,
     aptx_hd_channelMode = A2DP_APTX_HD_CHANNELS_STEREO,
     aptx_hd_acl_sprint_reserved0 = A2DP_APTX_HD_ACL_SPRINT_RESERVED0,
     aptx_hd_acl_sprint_reserved1 = A2DP_APTX_HD_ACL_SPRINT_RESERVED1,
     aptx_hd_acl_sprint_reserved2 = A2DP_APTX_HD_ACL_SPRINT_RESERVED2,
     aptx_hd_acl_sprint_reserved3 = A2DP_APTX_HD_ACL_SPRINT_RESERVED3,
     aptx_hd_bits_per_sample = BTAV_A2DP_CODEC_BITS_PER_SAMPLE_16\<rparr>"

definition a2dp_aptx_hd_sink_caps :: tA2DP_APTX_HD_CIE where
  "a2dp_aptx_hd_sink_caps = \<lparr>aptx_hd_vendorId = A2DP_APTX_HD_VENDOR_ID,
     aptx_hd_codecId = A2DP_APTX_HD_CODEC_ID_BLUETOOTH,
     aptx_hd_sampleRate = A2DP_APTX_HD_SAMPLERATE_44100 OR A2DP_APTX_HD_SAMPLERATE_48000,
     aptx_hd_channelMode = A2DP_APTX_HD_CHANNELS_STEREO,
     aptx_hd_acl_sprint_reserved0 = A2DP_APTX_HD_ACL_SPRINT_RESERVED0,
     aptx_hd_acl_sprint_reserved1 = A2DP_APTX_HD_ACL_SPRINT_RESERVED1,
     aptx_hd_acl_sprint_reserved2 = A2DP_APTX_HD_ACL_SPRINT_RESERVED2,
     aptx_hd_acl_sprint_reserved3 = A2DP_APTX_HD_ACL_SPRINT_RESERVED3,
     aptx_hd_bits_per_sample = BTAV_A2DP_CODEC_BITS_PER_SAMPLE_16\<rparr>"

definition a2dp_aptx_hd_default_config :: tA2DP_APTX_HD_CIE where
  "a2dp_aptx_hd_default_config = \<lparr>aptx_hd_vendorId = A2DP_APTX_HD_VENDOR_ID,
     aptx_hd_codecId = A2DP_APTX_HD_CODEC_ID_BLUETOOTH,
     aptx_hd_sampleRate = A2DP_APTX_HD_SAMPLERATE_48000,
     aptx_hd_channelMode = A2DP_APTX_HD_CHANNELS_STEREO,
     aptx_hd_acl_sprint_reserved0 = A2DP_APTX_HD_ACL_SPRINT_RESERVED0,
     aptx_hd_acl_sprint_reserved1 = A2DP_APTX_HD_ACL_SPRINT_RESERVED1,
     aptx_hd_acl_sprint_reserved2 = A2DP_APTX_HD_ACL_SPRINT_RESERVED2,
     aptx_hd_acl_sprint_reserved3 = A2DP_APTX_HD_ACL_SPRINT_RESERVED3,
     aptx_hd_bits_per_sample = BTAV_A2DP_CODEC_BITS_PER_SAMPLE_16\<rparr>"

definition A2DP_BuildInfoAptxHd :: "tA2DP_APTX_HD_CIE builder" where
  "A2DP_BuildInfoAptxHd media_type p_ie p_result =
     (case (p_ie, p_result) of
        (Some ie, Some r) \<Rightarrow>
          (A2D_SUCCESS, Some (store r 0
             ([A2DP_APTX_HD_CODEC_LEN, push_bit 4 media_type, A2D_MEDIA_CT_NON_A2DP]
              @ put32le (aptx_hd_vendorId ie) @ put16le (aptx_hd_codecId ie)
              @ [aptx_hd_sampleRate ie OR aptx_hd_channelMode ie,
                 aptx_hd_acl_sprint_reserved0 ie,
                 aptx_hd_acl_sprint_reserved1 ie,
                 aptx_hd_acl_sprint_reserved2 ie,
                 aptx_hd_acl_sprint_reserved3 ie])))
      | _ \<Rightarrow> (A2D_INVALID_PARAMS, p_result))"

definition A2DP_ParseInfoAptxHd :: "tA2DP_APTX_HD_CIE parser" where
  "A2DP_ParseInfoAptxHd p_ie p_codec_info is_capability =
     (case (p_ie, p_codec_info) of
        (Some ie, Some b) \<Rightarrow>
          if b 0 \<noteq> A2DP_APTX_HD_CODEC_LEN then (A2D_WRONG_CODEC, Some ie)
          else if drop_bit 4 (b 1) \<noteq> AVDT_MEDIA_TYPE_AUDIO \<or> b 2 \<noteq> A2D_MEDIA_CT_NON_A2DP
          then (A2D_WRONG_CODEC, Some ie)
          else
            (let ie1 = ie\<lparr>aptx_hd_vendorId := rd32le b 3, aptx_hd_codecId := rd16le b 7\<rparr>
             in if aptx_hd_vendorId ie1 \<noteq> A2DP_APTX_HD_VENDOR_ID \<or>
                   aptx_hd_codecId ie1 \<noteq> A2DP_APTX_HD_CODEC_ID_BLUETOOTH
                then (A2D_WRONG_CODEC, Some ie1)
                else
                  (let ie2 = ie1\<lparr>aptx_hd_channelMode := b 9 AND 0x0F,
                         aptx_hd_sampleRate := b 9 AND 0xF0,
                         aptx_hd_acl_sprint_reserved0 := b 10,
                         aptx_hd_acl_sprint_reserved1 := b 11,
                         aptx_hd_acl_sprint_reserved2 := b 12,
                         aptx_hd_acl_sprint_reserved3 := b 13\<rparr>
                   in if is_capability then
                        (if A2D_BitsSet (ucast (aptx_hd_sampleRate ie2)) = A2D_SET_ZERO_BIT
                         then (A2D_BAD_SAMP_FREQ, Some ie2)
                         else if A2D_BitsSet (ucast (aptx_hd_channelMode ie2)) = A2D_SET_ZERO_BIT
                         then (A2D_BAD_CH_MODE, Some ie2)
                         else (A2D_SUCCESS, Some ie2))
                      else if A2D_BitsSet (ucast (aptx_hd_sampleRate ie2)) \<noteq> A2D_SET_ONE_BIT
                      then (A2D_BAD_SAMP_FREQ, Some ie2)
                      else if A2D_BitsSet (ucast (aptx_hd_channelMode ie2)) \<noteq> A2D_SET_ONE_BIT
                      then (A2D_BAD_CH_MODE, Some ie2)
                      else (A2D_SUCCESS, Some ie2)))
      | _ \<Rightarrow> (A2D_INVALID_PARAMS, p_ie))"

definition A2DP_IsVendorPeerSourceCodecValidAptxHd :: "buf \<Rightarrow> u8" where
  "A2DP_IsVendorPeerSourceCodecValidAptxHd p =
     (let status = fst (A2DP_ParseInfoAptxHd (Some aptx_hd_cie_local) (Some p) True)
      in if status = A2D_SUCCESS then status
         else fst (A2DP_ParseInfoAptxHd (Some aptx_hd_cie_local) (Some p) False))"

definition A2DP_IsVendorPeerSinkCodecValidAptxHd :: "buf \<Rightarrow> bool" where
  "A2DP_IsVendorPeerSinkCodecValidAptxHd p \<longleftrightarrow>
     fst (A2DP_ParseInfoAptxHd (Some aptx_hd_cie_local) (Some p) False) = A2D_SUCCESS \<or>
     fst (A2DP_ParseInfoAptxHd (Some aptx_hd_cie_local) (Some p) True) = A2D_SUCCESS"

definition A2DP_CodecInfoMatchesCapabilityAptxHd ::
  "tA2DP_APTX_HD_CIE \<Rightarrow> buf \<Rightarrow> bool \<Rightarrow> u8" where
  "A2DP_CodecInfoMatchesCapabilityAptxHd p_cap p is_capability =
     (case A2DP_ParseInfoAptxHd (Some aptx_hd_cie_local) (Some p) is_capability of
        (status, cfg) \<Rightarrow>
          if status \<noteq> A2D_SUCCESS then status
          else if aptx_hd_sampleRate (the cfg) AND aptx_hd_sampleRate p_cap = 0 then A2D_NS_SAMP_FREQ
          else if aptx_hd_channelMode (the cfg) AND aptx_hd_channelMode p_cap = 0 then A2D_NS_CH_MODE
          else A2D_SUCCESS)"

definition A2DP_VendorSinkCodecIndexAptxHd :: "buf \<Rightarrow> btav_a2dp_codec_index_t" where
  "A2DP_VendorSinkCodecIndexAptxHd p = BTAV_A2DP_CODEC_INDEX_SINK_APTX_HD"

definition A2DP_VendorSourceCodecIndexAptxHd :: "buf \<Rightarrow> btav_a2dp_codec_index_t" where
  "A2DP_VendorSourceCodecIndexAptxHd p = BTAV_A2DP_CODEC_INDEX_SOURCE_APTX_HD"

definition A2DP_VendorCodecNameAptxHd :: "buf \<Rightarrow> string" where
  "A2DP_VendorCodecNameAptxHd p = ''aptX-HD''"

definition A2DP_VendorCodecTypeEqualsAptxHd :: "buf \<Rightarrow> buf \<Rightarrow> bool" where
  "A2DP_VendorCodecTypeEqualsAptxHd a b =
     (if fst (A2DP_ParseInfoAptxHd (Some aptx_hd_cie_local) (Some a) True) \<noteq> A2D_SUCCESS then False
      else if fst (A2DP_ParseInfoAptxHd (Some aptx_hd_cie_local) (Some b) True) \<noteq> A2D_SUCCESS then False
      else True)"

definition A2DP_VendorInitCodecConfigAptxHdSink :: "buf \<Rightarrow> bool \<times> buf" where
  "A2DP_VendorInitCodecConfigAptxHdSink p =
     (case A2DP_BuildInfoAptxHd A2D_MEDIA_TYPE_AUDIO (Some a2dp_aptx_hd_sink_caps) (Some p) of
        (sts, p') \<Rightarrow> (sts = A2D_SUCCESS, the p'))"

definition A2DP_VendorInitCodecConfigAptxHd ::
  "btav_a2dp_codec_index_t \<Rightarrow> buf \<Rightarrow> bool \<times> buf" where
  "A2DP_VendorInitCodecConfigAptxHd codec_index p =
     (case codec_index of
        BTAV_A2DP_CODEC_INDEX_SINK_APTX_HD \<Rightarrow> A2DP_VendorInitCodecConfigAptxHdSink p
      | _ \<Rightarrow> (False, p))"

definition A2DP_VendorBuildCodecConfigAptxHd :: "buf \<Rightarrow> buf \<Rightarrow> bool \<times> buf" where
  "A2DP_VendorBuildCodecConfigAptxHd p_src_cap p_result =
     (case A2DP_ParseInfoAptxHd (Some aptx_hd_cie_local) (Some p_src_cap) True of
        (status, src) \<Rightarrow>
          if status \<noteq> 0 then (False, p_result)
          else
            (let src_cap = the src; pref_cap = a2dp_aptx_hd_default_config;
                 rate = first_set (aptx_hd_sampleRate src_cap)
                   [A2DP_APTX_HD_SAMPLERATE_48000, A2DP_APTX_HD_SAMPLERATE_44100];
                 mode = first_set (aptx_hd_channelMode src_cap)
                   [A2DP_APTX_HD_CHANNELS_STEREO, A2DP_APTX_HD_CHANNELS_MONO]
             in case rate of
                  None \<Rightarrow> (False, p_result)
                | Some f \<Rightarrow>
                    (case mode of
                       None \<Rightarrow> (False, p_result)
                     | Some m \<Rightarrow>
                         (True, the (snd (A2DP_BuildInfoAptxHd A2D_MEDIA_TYPE_AUDIO
                           (Some (pref_cap\<lparr>aptx_hd_sampleRate := f, aptx_hd_channelMode := m\<rparr>))
                           (Some p_result)))))))"

definition A2DP_GetVendorDecoderInterfaceAptxHd :: "buf \<Rightarrow> tA2DP_DECODER_INTERFACE option" where
  "A2DP_GetVendorDecoderInterfaceAptxHd p =
     (if \<not> A2DP_IsVendorPeerSinkCodecValidAptxHd p then None else Some a2dp_decoder_interface_aptx_hd)"

subsection \<open>The contract\<close>

definition aptx_hd_wf :: "tA2DP_APTX_HD_CIE \<Rightarrow> bool" where
  "aptx_hd_wf ie \<longleftrightarrow> aptx_hd_vendorId ie = A2DP_APTX_HD_VENDOR_ID \<and>
     aptx_hd_codecId ie = A2DP_APTX_HD_CODEC_ID_BLUETOOTH \<and>
     aptx_hd_sampleRate ie AND 0xF0 = aptx_hd_sampleRate ie \<and> aptx_hd_sampleRate ie \<noteq> 0 \<and>
     aptx_hd_channelMode ie AND 0x0F = aptx_hd_channelMode ie \<and> aptx_hd_channelMode ie \<noteq> 0"

text \<open>The fields that are not part of the octets keep the value they had.\<close>

definition aptx_hd_norm :: "tA2DP_APTX_HD_CIE \<Rightarrow> tA2DP_APTX_HD_CIE \<Rightarrow> tA2DP_APTX_HD_CIE" where
  "aptx_hd_norm ie0 ie = ie\<lparr>aptx_hd_bits_per_sample := aptx_hd_bits_per_sample ie0\<rparr>"

definition aptx_hd_within :: "tA2DP_APTX_HD_CIE \<Rightarrow> tA2DP_APTX_HD_CIE \<Rightarrow> bool" where
  "aptx_hd_within c s \<longleftrightarrow> aptx_hd_sampleRate c AND aptx_hd_sampleRate s = aptx_hd_sampleRate c \<and>
     aptx_hd_channelMode c AND aptx_hd_channelMode s = aptx_hd_channelMode c"

lemma A2DP_BuildInfoAptxHd_ok:
  obtains r' where "A2DP_BuildInfoAptxHd A2D_MEDIA_TYPE_AUDIO (Some ie) (Some r) = (A2D_SUCCESS, Some r')"
    and "r' 0 = A2DP_APTX_HD_CODEC_LEN" "r' (Suc 0) = 0" "r' 2 = A2D_MEDIA_CT_NON_A2DP"
    and "rd32le r' 3 = aptx_hd_vendorId ie" "rd16le r' 7 = aptx_hd_codecId ie"
    and "r' 9 = aptx_hd_sampleRate ie OR aptx_hd_channelMode ie"
    and "r' 10 = aptx_hd_acl_sprint_reserved0 ie"
    and "r' 11 = aptx_hd_acl_sprint_reserved1 ie"
    and "r' 12 = aptx_hd_acl_sprint_reserved2 ie"
    and "r' 13 = aptx_hd_acl_sprint_reserved3 ie"
proof -
  define s where "s = store r 0 ([A2DP_APTX_HD_CODEC_LEN, 0, A2D_MEDIA_CT_NON_A2DP] @
    put32le (aptx_hd_vendorId ie) @ put16le (aptx_hd_codecId ie) @
    [aptx_hd_sampleRate ie OR aptx_hd_channelMode ie,
                 aptx_hd_acl_sprint_reserved0 ie,
                 aptx_hd_acl_sprint_reserved1 ie,
                 aptx_hd_acl_sprint_reserved2 ie,
                 aptx_hd_acl_sprint_reserved3 ie])"
  have "A2DP_BuildInfoAptxHd A2D_MEDIA_TYPE_AUDIO (Some ie) (Some r) = (A2D_SUCCESS, Some s)"
    by (simp add: A2DP_BuildInfoAptxHd_def s_def)
  then show thesis
    by (rule that) (simp_all add: store_header(1-5) [OF s_def] store_header(6) [OF s_def, of 0, simplified]
      store_header(6) [OF s_def, of 1, simplified]
      store_header(6) [OF s_def, of 2, simplified]
      store_header(6) [OF s_def, of 3, simplified]
      store_header(6) [OF s_def, of 4, simplified])
qed

lemma A2DP_ParseInfoAptxHd_True:
  "A2DP_ParseInfoAptxHd (Some ie0) (Some b) True = (A2D_SUCCESS, Some ie) \<longleftrightarrow>
     b 0 = A2DP_APTX_HD_CODEC_LEN \<and> drop_bit 4 (b 1) = AVDT_MEDIA_TYPE_AUDIO \<and>
     b 2 = A2D_MEDIA_CT_NON_A2DP \<and> rd32le b 3 = A2DP_APTX_HD_VENDOR_ID \<and>
     rd16le b 7 = A2DP_APTX_HD_CODEC_ID_BLUETOOTH \<and> b 9 AND 0xF0 \<noteq> 0 \<and> b 9 AND 0x0F \<noteq> 0 \<and>
     ie = ie0\<lparr>aptx_hd_vendorId := A2DP_APTX_HD_VENDOR_ID, aptx_hd_codecId := A2DP_APTX_HD_CODEC_ID_BLUETOOTH,
       aptx_hd_channelMode := b 9 AND 0x0F, aptx_hd_sampleRate := b 9 AND 0xF0,
                         aptx_hd_acl_sprint_reserved0 := b 10,
                         aptx_hd_acl_sprint_reserved1 := b 11,
                         aptx_hd_acl_sprint_reserved2 := b 12,
                         aptx_hd_acl_sprint_reserved3 := b 13\<rparr>"
  by (auto simp: A2DP_ParseInfoAptxHd_def Let_def)

lemma A2DP_ParseInfoAptxHd_False:
  "A2DP_ParseInfoAptxHd (Some ie0) (Some b) False = (A2D_SUCCESS, Some ie) \<longleftrightarrow>
     A2DP_ParseInfoAptxHd (Some ie0) (Some b) True = (A2D_SUCCESS, Some ie) \<and>
     one_bit (aptx_hd_sampleRate ie) \<and> one_bit (aptx_hd_channelMode ie)"
  by (auto simp: A2DP_ParseInfoAptxHd_def Let_def A2D_BitsSet_u8_one one_bit_nonzero split: if_splits)

text \<open>A successful parse fixes the codec type and the ids.\<close>

lemma aptx_hd_parse_ids:
  "fst (A2DP_ParseInfoAptxHd (Some ie) (Some p) cap) = A2D_SUCCESS \<Longrightarrow>
     p 2 = A2D_MEDIA_CT_NON_A2DP \<and> rd32le p 3 = A2DP_APTX_HD_VENDOR_ID \<and> rd16le p 7 = A2DP_APTX_HD_CODEC_ID_BLUETOOTH"
  by (simp add: A2DP_ParseInfoAptxHd_def Let_def split: if_split_asm)

interpretation aptx_hd: strict_codec A2DP_ParseInfoAptxHd A2DP_BuildInfoAptxHd 14 aptx_hd_wf aptx_hd_norm
proof
  show "(14::nat) \<le> AVDT_CODEC_SIZE" by simp
next
  fix b b' :: buf and p cap
  assume "buf_agree 14 b b'"
  then show "A2DP_ParseInfoAptxHd p (Some b) cap = A2DP_ParseInfoAptxHd p (Some b') cap"
    by (simp add: A2DP_ParseInfoAptxHd_def Let_def agree_simps [of 14] split: option.split)
next
  fix ie ie' :: tA2DP_APTX_HD_CIE and b cap
  show "fst (A2DP_ParseInfoAptxHd (Some ie) (Some b) cap) =
      fst (A2DP_ParseInfoAptxHd (Some ie') (Some b) cap)"
    by (simp add: A2DP_ParseInfoAptxHd_def Let_def)
next
  fix ie0 ie :: tA2DP_APTX_HD_CIE and b
  assume "A2DP_ParseInfoAptxHd (Some ie0) (Some b) True = (A2D_SUCCESS, Some ie)"
  then show "aptx_hd_wf ie" by (simp add: A2DP_ParseInfoAptxHd_True aptx_hd_wf_def)
next
  fix mt r and k :: nat and p :: "tA2DP_APTX_HD_CIE option"
  assume "14 \<le> k"
  then show "\<exists>r'. snd (A2DP_BuildInfoAptxHd mt p (Some r)) = Some r' \<and> r' k = r k"
    by (auto simp: A2DP_BuildInfoAptxHd_def Let_def store_apply split: option.split)
next
  fix ie0 :: tA2DP_APTX_HD_CIE and b cap
  show "snd (A2DP_ParseInfoAptxHd (Some ie0) (Some b) cap) \<noteq> None"
    by (simp add: A2DP_ParseInfoAptxHd_def Let_def)
next
  fix ie ie0 :: tA2DP_APTX_HD_CIE and r
  assume wf: "aptx_hd_wf ie"
  then have packed: "(aptx_hd_sampleRate ie OR aptx_hd_channelMode ie) AND 0xF0 = aptx_hd_sampleRate ie"
    "(aptx_hd_sampleRate ie OR aptx_hd_channelMode ie) AND 0x0F = aptx_hd_channelMode ie"
    using or_and_mask [where x = "aptx_hd_sampleRate ie" and m = "0xF0" and y = "aptx_hd_channelMode ie" and m' = "0x0F"]
      or_and_mask [where x = "aptx_hd_channelMode ie" and m = "0x0F" and y = "aptx_hd_sampleRate ie" and m' = "0xF0"]
    by (simp_all add: aptx_hd_wf_def)
  show "\<exists>r'. A2DP_BuildInfoAptxHd A2D_MEDIA_TYPE_AUDIO (Some ie) (Some r) = (A2D_SUCCESS, Some r') \<and>
      A2DP_ParseInfoAptxHd (Some ie0) (Some r') True = (A2D_SUCCESS, Some (aptx_hd_norm ie0 ie))"
    by (rule A2DP_BuildInfoAptxHd_ok [of ie r])
      (use wf packed in \<open>simp add: A2DP_ParseInfoAptxHd_True aptx_hd_wf_def aptx_hd_norm_def\<close>)
next
  fix ie :: tA2DP_APTX_HD_CIE and b
  assume "fst (A2DP_ParseInfoAptxHd (Some ie) (Some b) False) = A2D_SUCCESS"
  then show "fst (A2DP_ParseInfoAptxHd (Some ie) (Some b) True) = A2D_SUCCESS"
    by (auto simp: A2DP_ParseInfoAptxHd_def Let_def A2D_BitsSet_def split: if_splits)
qed

subsection \<open>The choice of a configuration\<close>

text \<open>The configuration written for a source, or nothing.\<close>

definition aptx_hd_choice :: "buf \<Rightarrow> tA2DP_APTX_HD_CIE option" where
  "aptx_hd_choice src =
     (if fst (A2DP_ParseInfoAptxHd (Some aptx_hd_cie_local) (Some src) True) = A2D_SUCCESS \<and>
         src 9 AND 0x30 \<noteq> 0 \<and> src 9 AND 0x03 \<noteq> 0
      then Some (a2dp_aptx_hd_default_config\<lparr>
        aptx_hd_sampleRate := (if src 9 AND A2DP_APTX_HD_SAMPLERATE_48000 \<noteq> 0
          then A2DP_APTX_HD_SAMPLERATE_48000 else A2DP_APTX_HD_SAMPLERATE_44100),
        aptx_hd_channelMode := (if src 9 AND A2DP_APTX_HD_CHANNELS_STEREO \<noteq> 0 then A2DP_APTX_HD_CHANNELS_STEREO else A2DP_APTX_HD_CHANNELS_MONO)\<rparr>)
      else None)"

lemma A2DP_VendorBuildCodecConfigAptxHd_choice:
  "A2DP_VendorBuildCodecConfigAptxHd src r =
     (case aptx_hd_choice src of None \<Rightarrow> (False, r)
      | Some c \<Rightarrow> (True, the (snd (A2DP_BuildInfoAptxHd A2D_MEDIA_TYPE_AUDIO (Some c) (Some r)))))"
proof (cases "fst (A2DP_ParseInfoAptxHd (Some aptx_hd_cie_local) (Some src) True) = A2D_SUCCESS")
  case True
  then obtain s where s: "A2DP_ParseInfoAptxHd (Some aptx_hd_cie_local) (Some src) True = (A2D_SUCCESS, Some s)"
    by (rule aptx_hd.parsed)
  then have fields: "aptx_hd_sampleRate s = src 9 AND 0xF0" "aptx_hd_channelMode s = src 9 AND 0x0F"
    by (simp_all add: A2DP_ParseInfoAptxHd_True)
  have bits: "src 9 AND 0x30 = 0 \<longleftrightarrow> src 9 AND 16 = 0 \<and> src 9 AND 32 = 0"
    "src 9 AND 3 = 0 \<longleftrightarrow> src 9 AND 1 = 0 \<and> src 9 AND 2 = 0"
    by (auto simp: u8_eq_iff bit_simps)
  show ?thesis
    unfolding A2DP_VendorBuildCodecConfigAptxHd_def aptx_hd_choice_def s Let_def prod.case
    by (simp add: fields bits and.assoc)
next
  case False
  then show ?thesis
    by (auto simp: A2DP_VendorBuildCodecConfigAptxHd_def aptx_hd_choice_def split: prod.split)
qed

interpretation aptx_hd: negotiated_codec A2DP_ParseInfoAptxHd A2DP_BuildInfoAptxHd 14 aptx_hd_wf aptx_hd_norm
  aptx_hd_cie_local A2DP_VendorBuildCodecConfigAptxHd aptx_hd_within
proof
  fix src r r'
  assume "A2DP_VendorBuildCodecConfigAptxHd src r = (True, r')"
  then obtain c where c: "aptx_hd_choice src = Some c"
    and r': "r' = the (snd (A2DP_BuildInfoAptxHd A2D_MEDIA_TYPE_AUDIO (Some c) (Some r)))"
    by (auto simp: A2DP_VendorBuildCodecConfigAptxHd_choice split: option.splits)
  then obtain s where s: "A2DP_ParseInfoAptxHd (Some aptx_hd_cie_local) (Some src) True = (A2D_SUCCESS, Some s)"
    using aptx_hd.parsed [of aptx_hd_cie_local src] by (auto simp: aptx_hd_choice_def split: if_splits)
  have wf: "aptx_hd_wf c" and one: "one_bit (aptx_hd_sampleRate c)" "one_bit (aptx_hd_channelMode c)"
    and off: "src 9 AND aptx_hd_sampleRate c \<noteq> 0" "src 9 AND aptx_hd_channelMode c \<noteq> 0"
    and mask: "aptx_hd_sampleRate c AND 0xF0 = aptx_hd_sampleRate c" "aptx_hd_channelMode c AND 0x0F = aptx_hd_channelMode c"
    using c by (auto simp: aptx_hd_choice_def aptx_hd_wf_def a2dp_aptx_hd_default_config_def one_bit_def
        u8_eq_iff [of "src 9 AND k" 0 for k] bit_simps split: if_splits)
  have "A2DP_ParseInfoAptxHd (Some aptx_hd_cie_local) (Some r') True = (A2D_SUCCESS, Some (aptx_hd_norm aptx_hd_cie_local c))"
    by (rule aptx_hd.built [OF wf, of r]) (simp add: r')
  then have c': "A2DP_ParseInfoAptxHd (Some aptx_hd_cie_local) (Some r') False = (A2D_SUCCESS, Some (aptx_hd_norm aptx_hd_cie_local c))"
    using one by (simp add: A2DP_ParseInfoAptxHd_False aptx_hd_norm_def)
  have "aptx_hd_sampleRate s = src 9 AND 0xF0" "aptx_hd_channelMode s = src 9 AND 0x0F"
    using s by (simp_all add: A2DP_ParseInfoAptxHd_True)
  then have "aptx_hd_within (aptx_hd_norm aptx_hd_cie_local c) s"
    using one_bit_and [OF one(1) off(1)] one_bit_and [OF one(2) off(2)] mask
    by (simp add: aptx_hd_within_def aptx_hd_norm_def and.assoc [symmetric])
  with s c' show "\<exists>s c. A2DP_ParseInfoAptxHd (Some aptx_hd_cie_local) (Some src) True = (A2D_SUCCESS, Some s) \<and>
      A2DP_ParseInfoAptxHd (Some aptx_hd_cie_local) (Some r') False = (A2D_SUCCESS, Some c) \<and> aptx_hd_within c s"
    by blast
next
  fix src src' r
  assume "buf_agree 14 src src'"
  then have "A2DP_ParseInfoAptxHd (Some aptx_hd_cie_local) (Some src) True = A2DP_ParseInfoAptxHd (Some aptx_hd_cie_local) (Some src') True"
    by (rule aptx_hd.parse_local)
  then show "A2DP_VendorBuildCodecConfigAptxHd src r = A2DP_VendorBuildCodecConfigAptxHd src' r"
    by (simp add: A2DP_VendorBuildCodecConfigAptxHd_def)
next
  fix src r and k :: nat
  assume "14 \<le> k"
  then show "snd (A2DP_VendorBuildCodecConfigAptxHd src r) k = r k"
    by (simp add: A2DP_VendorBuildCodecConfigAptxHd_def Let_def case_prod_unfold aptx_hd.build_beyond
        del: first_set.simps split: option.split)
qed

subsection \<open>Properties\<close>

text \<open>
  Choosing an aptX HD configuration succeeds exactly for a capability that offers
  44.1 or 48 kHz and stereo or mono; the octets written name the best offered rate and mode,
  and nothing is written otherwise.
\<close>
theorem aptx_hd_config_eq:
  "A2DP_VendorBuildCodecConfigAptxHd src r =
     (if fst (A2DP_ParseInfoAptxHd (Some aptx_hd_cie_local) (Some src) True) = A2D_SUCCESS \<and>
         src 9 AND (A2DP_APTX_HD_SAMPLERATE_48000 OR A2DP_APTX_HD_SAMPLERATE_44100) \<noteq> 0 \<and>
         src 9 AND (A2DP_APTX_HD_CHANNELS_STEREO OR A2DP_APTX_HD_CHANNELS_MONO) \<noteq> 0
      then (True, store r 0 [13, 0, 0xFF, 0xD7, 0, 0, 0, 0x24, 0,
        (if src 9 AND A2DP_APTX_HD_SAMPLERATE_48000 \<noteq> 0
         then A2DP_APTX_HD_SAMPLERATE_48000 else A2DP_APTX_HD_SAMPLERATE_44100) OR
        (if src 9 AND A2DP_APTX_HD_CHANNELS_STEREO \<noteq> 0 then A2DP_APTX_HD_CHANNELS_STEREO else A2DP_APTX_HD_CHANNELS_MONO), 0, 0, 0, 0])
      else (False, r))"
  by (simp add: A2DP_VendorBuildCodecConfigAptxHd_choice aptx_hd_choice_def A2DP_BuildInfoAptxHd_def
      a2dp_aptx_hd_default_config_def put32le_def put16le_def fun_upd_twist)

end
