(* ===== verification/A2DP_Aptx_Ll.thy ===== *)
theory A2DP_Aptx_Ll
  imports Codec_Interface
begin

text \<open>
  stack/a2dp/a2dp\_vendor\_aptx\_ll.c: the aptX Low Latency codec information element.
\<close>

abbreviation (input) A2DP_APTX_LL_CODEC_LEN :: u8 where "A2DP_APTX_LL_CODEC_LEN \<equiv> 10"
abbreviation (input) A2DP_APTX_LL_VENDOR_ID :: u32 where "A2DP_APTX_LL_VENDOR_ID \<equiv> 0x0A"
abbreviation (input) A2DP_APTX_LL_CODEC_ID_BLUETOOTH :: u16 where "A2DP_APTX_LL_CODEC_ID_BLUETOOTH \<equiv> 0x0002"
abbreviation (input) A2DP_APTX_LL_SAMPLERATE_44100 :: u8 where "A2DP_APTX_LL_SAMPLERATE_44100 \<equiv> 0x20"
abbreviation (input) A2DP_APTX_LL_SAMPLERATE_48000 :: u8 where "A2DP_APTX_LL_SAMPLERATE_48000 \<equiv> 0x10"
abbreviation (input) A2DP_APTX_LL_CHANNELS_STEREO :: u8 where "A2DP_APTX_LL_CHANNELS_STEREO \<equiv> 0x02"
abbreviation (input) A2DP_APTX_LL_CHANNELS_MONO :: u8 where "A2DP_APTX_LL_CHANNELS_MONO \<equiv> 0x01"

record tA2DP_APTX_LL_CIE =
  aptx_ll_vendorId :: u32
  aptx_ll_codecId :: u16
  aptx_ll_sampleRate :: u8
  aptx_ll_channelMode :: u8
  aptx_ll_bidirect_link :: u8
  aptx_ll_has_new_caps :: u8
  aptx_ll_bits_per_sample :: btav_a2dp_codec_bits_per_sample_t

definition aptx_ll_cie_local :: tA2DP_APTX_LL_CIE where
  "aptx_ll_cie_local = \<lparr>aptx_ll_vendorId = 0, aptx_ll_codecId = 0, aptx_ll_sampleRate = 0,
     aptx_ll_channelMode = 0, aptx_ll_bidirect_link = 0, aptx_ll_has_new_caps = 0,
     aptx_ll_bits_per_sample = BTAV_A2DP_CODEC_BITS_PER_SAMPLE_NONE\<rparr>"

definition a2dp_aptx_ll_source_caps :: tA2DP_APTX_LL_CIE where
  "a2dp_aptx_ll_source_caps = \<lparr>aptx_ll_vendorId = A2DP_APTX_LL_VENDOR_ID,
     aptx_ll_codecId = A2DP_APTX_LL_CODEC_ID_BLUETOOTH,
     aptx_ll_sampleRate = A2DP_APTX_LL_SAMPLERATE_44100 OR A2DP_APTX_LL_SAMPLERATE_48000,
     aptx_ll_channelMode = A2DP_APTX_LL_CHANNELS_STEREO,
     aptx_ll_bidirect_link = 0,
     aptx_ll_has_new_caps = 0,
     aptx_ll_bits_per_sample = BTAV_A2DP_CODEC_BITS_PER_SAMPLE_16\<rparr>"

definition a2dp_aptx_ll_sink_caps :: tA2DP_APTX_LL_CIE where
  "a2dp_aptx_ll_sink_caps = \<lparr>aptx_ll_vendorId = A2DP_APTX_LL_VENDOR_ID,
     aptx_ll_codecId = A2DP_APTX_LL_CODEC_ID_BLUETOOTH,
     aptx_ll_sampleRate = A2DP_APTX_LL_SAMPLERATE_44100 OR A2DP_APTX_LL_SAMPLERATE_48000,
     aptx_ll_channelMode = A2DP_APTX_LL_CHANNELS_STEREO,
     aptx_ll_bidirect_link = 0,
     aptx_ll_has_new_caps = 0,
     aptx_ll_bits_per_sample = BTAV_A2DP_CODEC_BITS_PER_SAMPLE_16\<rparr>"

definition a2dp_aptx_ll_default_config :: tA2DP_APTX_LL_CIE where
  "a2dp_aptx_ll_default_config = \<lparr>aptx_ll_vendorId = A2DP_APTX_LL_VENDOR_ID,
     aptx_ll_codecId = A2DP_APTX_LL_CODEC_ID_BLUETOOTH,
     aptx_ll_sampleRate = A2DP_APTX_LL_SAMPLERATE_48000,
     aptx_ll_channelMode = A2DP_APTX_LL_CHANNELS_STEREO,
     aptx_ll_bidirect_link = 0,
     aptx_ll_has_new_caps = 0,
     aptx_ll_bits_per_sample = BTAV_A2DP_CODEC_BITS_PER_SAMPLE_16\<rparr>"

definition A2DP_BuildInfoAptxLl :: "tA2DP_APTX_LL_CIE builder" where
  "A2DP_BuildInfoAptxLl media_type p_ie p_result =
     (case (p_ie, p_result) of
        (Some ie, Some r) \<Rightarrow>
          (A2D_SUCCESS, Some (store r 0
             ([A2DP_APTX_LL_CODEC_LEN, push_bit 4 media_type, A2D_MEDIA_CT_NON_A2DP]
              @ put32le (aptx_ll_vendorId ie) @ put16le (aptx_ll_codecId ie)
              @ [aptx_ll_sampleRate ie OR aptx_ll_channelMode ie,
                 push_bit 1 (aptx_ll_has_new_caps ie AND 0x1) OR push_bit 0 (aptx_ll_bidirect_link ie AND 0x1)])))
      | _ \<Rightarrow> (A2D_INVALID_PARAMS, p_result))"

definition A2DP_ParseInfoAptxLl :: "tA2DP_APTX_LL_CIE parser" where
  "A2DP_ParseInfoAptxLl p_ie p_codec_info is_capability =
     (case (p_ie, p_codec_info) of
        (Some ie, Some b) \<Rightarrow>
          if b 0 \<noteq> A2DP_APTX_LL_CODEC_LEN then (A2D_WRONG_CODEC, Some ie)
          else if drop_bit 4 (b 1) \<noteq> AVDT_MEDIA_TYPE_AUDIO \<or> b 2 \<noteq> A2D_MEDIA_CT_NON_A2DP
          then (A2D_WRONG_CODEC, Some ie)
          else
            (let ie1 = ie\<lparr>aptx_ll_vendorId := rd32le b 3, aptx_ll_codecId := rd16le b 7\<rparr>
             in if aptx_ll_vendorId ie1 \<noteq> A2DP_APTX_LL_VENDOR_ID \<or>
                   aptx_ll_codecId ie1 \<noteq> A2DP_APTX_LL_CODEC_ID_BLUETOOTH
                then (A2D_WRONG_CODEC, Some ie1)
                else
                  (let ie2 = ie1\<lparr>aptx_ll_channelMode := b 9 AND 0x0F,
                         aptx_ll_sampleRate := b 9 AND 0xF0,
                         aptx_ll_has_new_caps := drop_bit 1 (b 10) AND 0x01,
                         aptx_ll_bidirect_link := drop_bit 0 (b 10) AND 0x01\<rparr>
                   in if is_capability then
                        (if A2D_BitsSet (ucast (aptx_ll_sampleRate ie2)) = A2D_SET_ZERO_BIT
                         then (A2D_BAD_SAMP_FREQ, Some ie2)
                         else if A2D_BitsSet (ucast (aptx_ll_channelMode ie2)) = A2D_SET_ZERO_BIT
                         then (A2D_BAD_CH_MODE, Some ie2)
                         else (A2D_SUCCESS, Some ie2))
                      else if A2D_BitsSet (ucast (aptx_ll_sampleRate ie2)) \<noteq> A2D_SET_ONE_BIT
                      then (A2D_BAD_SAMP_FREQ, Some ie2)
                      else if A2D_BitsSet (ucast (aptx_ll_channelMode ie2)) \<noteq> A2D_SET_ONE_BIT
                      then (A2D_BAD_CH_MODE, Some ie2)
                      else (A2D_SUCCESS, Some ie2)))
      | _ \<Rightarrow> (A2D_INVALID_PARAMS, p_ie))"

definition A2DP_IsVendorPeerSourceCodecValidAptxLl :: "buf \<Rightarrow> u8" where
  "A2DP_IsVendorPeerSourceCodecValidAptxLl p =
     (let status = fst (A2DP_ParseInfoAptxLl (Some aptx_ll_cie_local) (Some p) True)
      in if status = A2D_SUCCESS then status
         else fst (A2DP_ParseInfoAptxLl (Some aptx_ll_cie_local) (Some p) False))"

definition A2DP_IsVendorPeerSinkCodecValidAptxLl :: "buf \<Rightarrow> bool" where
  "A2DP_IsVendorPeerSinkCodecValidAptxLl p \<longleftrightarrow>
     fst (A2DP_ParseInfoAptxLl (Some aptx_ll_cie_local) (Some p) False) = A2D_SUCCESS \<or>
     fst (A2DP_ParseInfoAptxLl (Some aptx_ll_cie_local) (Some p) True) = A2D_SUCCESS"

definition A2DP_CodecInfoMatchesCapabilityAptxLl ::
  "tA2DP_APTX_LL_CIE \<Rightarrow> buf \<Rightarrow> bool \<Rightarrow> u8" where
  "A2DP_CodecInfoMatchesCapabilityAptxLl p_cap p is_capability =
     (case A2DP_ParseInfoAptxLl (Some aptx_ll_cie_local) (Some p) is_capability of
        (status, cfg) \<Rightarrow>
          if status \<noteq> A2D_SUCCESS then status
          else if aptx_ll_sampleRate (the cfg) AND aptx_ll_sampleRate p_cap = 0 then A2D_NS_SAMP_FREQ
          else if aptx_ll_channelMode (the cfg) AND aptx_ll_channelMode p_cap = 0 then A2D_NS_CH_MODE
          else A2D_SUCCESS)"

definition A2DP_VendorSinkCodecIndexAptxLl :: "buf \<Rightarrow> btav_a2dp_codec_index_t" where
  "A2DP_VendorSinkCodecIndexAptxLl p = BTAV_A2DP_CODEC_INDEX_SINK_APTX_LL"

definition A2DP_VendorSourceCodecIndexAptxLl :: "buf \<Rightarrow> btav_a2dp_codec_index_t" where
  "A2DP_VendorSourceCodecIndexAptxLl p = BTAV_A2DP_CODEC_INDEX_SOURCE_APTX_LL"

definition A2DP_VendorCodecNameAptxLl :: "buf \<Rightarrow> string" where
  "A2DP_VendorCodecNameAptxLl p = ''aptX-LL''"

definition A2DP_VendorCodecTypeEqualsAptxLl :: "buf \<Rightarrow> buf \<Rightarrow> bool" where
  "A2DP_VendorCodecTypeEqualsAptxLl a b =
     (if fst (A2DP_ParseInfoAptxLl (Some aptx_ll_cie_local) (Some a) True) \<noteq> A2D_SUCCESS then False
      else if fst (A2DP_ParseInfoAptxLl (Some aptx_ll_cie_local) (Some b) True) \<noteq> A2D_SUCCESS then False
      else True)"

definition A2DP_VendorInitCodecConfigAptxLlSink :: "buf \<Rightarrow> bool \<times> buf" where
  "A2DP_VendorInitCodecConfigAptxLlSink p =
     (case A2DP_BuildInfoAptxLl A2D_MEDIA_TYPE_AUDIO (Some a2dp_aptx_ll_sink_caps) (Some p) of
        (sts, p') \<Rightarrow> (sts = A2D_SUCCESS, the p'))"

definition A2DP_VendorInitCodecConfigAptxLl ::
  "btav_a2dp_codec_index_t \<Rightarrow> buf \<Rightarrow> bool \<times> buf" where
  "A2DP_VendorInitCodecConfigAptxLl codec_index p =
     (case codec_index of
        BTAV_A2DP_CODEC_INDEX_SINK_APTX_LL \<Rightarrow> A2DP_VendorInitCodecConfigAptxLlSink p
      | _ \<Rightarrow> (False, p))"

definition A2DP_VendorBuildCodecConfigAptxLl :: "buf \<Rightarrow> buf \<Rightarrow> bool \<times> buf" where
  "A2DP_VendorBuildCodecConfigAptxLl p_src_cap p_result =
     (case A2DP_ParseInfoAptxLl (Some aptx_ll_cie_local) (Some p_src_cap) True of
        (status, src) \<Rightarrow>
          if status \<noteq> 0 then (False, p_result)
          else
            (let src_cap = the src; pref_cap = a2dp_aptx_ll_default_config;
                 rate = first_set (aptx_ll_sampleRate src_cap)
                   [A2DP_APTX_LL_SAMPLERATE_48000, A2DP_APTX_LL_SAMPLERATE_44100];
                 mode = first_set (aptx_ll_channelMode src_cap)
                   [A2DP_APTX_LL_CHANNELS_STEREO, A2DP_APTX_LL_CHANNELS_MONO]
             in case rate of
                  None \<Rightarrow> (False, p_result)
                | Some f \<Rightarrow>
                    (case mode of
                       None \<Rightarrow> (False, p_result)
                     | Some m \<Rightarrow>
                         (True, the (snd (A2DP_BuildInfoAptxLl A2D_MEDIA_TYPE_AUDIO
                           (Some (pref_cap\<lparr>aptx_ll_sampleRate := f, aptx_ll_channelMode := m\<rparr>))
                           (Some p_result)))))))"

definition A2DP_GetVendorDecoderInterfaceAptxLl :: "buf \<Rightarrow> tA2DP_DECODER_INTERFACE option" where
  "A2DP_GetVendorDecoderInterfaceAptxLl p =
     (if \<not> A2DP_IsVendorPeerSinkCodecValidAptxLl p then None else Some a2dp_decoder_interface_aptx_ll)"

subsection \<open>The contract\<close>

definition aptx_ll_wf :: "tA2DP_APTX_LL_CIE \<Rightarrow> bool" where
  "aptx_ll_wf ie \<longleftrightarrow> aptx_ll_vendorId ie = A2DP_APTX_LL_VENDOR_ID \<and>
     aptx_ll_codecId ie = A2DP_APTX_LL_CODEC_ID_BLUETOOTH \<and>
     aptx_ll_sampleRate ie AND 0xF0 = aptx_ll_sampleRate ie \<and> aptx_ll_sampleRate ie \<noteq> 0 \<and>
     aptx_ll_channelMode ie AND 0x0F = aptx_ll_channelMode ie \<and> aptx_ll_channelMode ie \<noteq> 0 \<and>
     aptx_ll_bidirect_link ie AND 0x01 = aptx_ll_bidirect_link ie \<and>
     aptx_ll_has_new_caps ie AND 0x01 = aptx_ll_has_new_caps ie"

text \<open>The fields that are not part of the octets keep the value they had.\<close>

definition aptx_ll_norm :: "tA2DP_APTX_LL_CIE \<Rightarrow> tA2DP_APTX_LL_CIE \<Rightarrow> tA2DP_APTX_LL_CIE" where
  "aptx_ll_norm ie0 ie = ie\<lparr>aptx_ll_bits_per_sample := aptx_ll_bits_per_sample ie0\<rparr>"

definition aptx_ll_within :: "tA2DP_APTX_LL_CIE \<Rightarrow> tA2DP_APTX_LL_CIE \<Rightarrow> bool" where
  "aptx_ll_within c s \<longleftrightarrow> aptx_ll_sampleRate c AND aptx_ll_sampleRate s = aptx_ll_sampleRate c \<and>
     aptx_ll_channelMode c AND aptx_ll_channelMode s = aptx_ll_channelMode c"

lemma and_1_cases: "x AND 1 = x \<Longrightarrow> x = 0 \<or> x = 1" for x :: u8
  by (auto simp: u8_eq_iff bit_simps)

lemma A2DP_BuildInfoAptxLl_ok:
  obtains r' where "A2DP_BuildInfoAptxLl A2D_MEDIA_TYPE_AUDIO (Some ie) (Some r) = (A2D_SUCCESS, Some r')"
    and "r' 0 = A2DP_APTX_LL_CODEC_LEN" "r' (Suc 0) = 0" "r' 2 = A2D_MEDIA_CT_NON_A2DP"
    and "rd32le r' 3 = aptx_ll_vendorId ie" "rd16le r' 7 = aptx_ll_codecId ie"
    and "r' 9 = aptx_ll_sampleRate ie OR aptx_ll_channelMode ie"
    and "r' 10 = push_bit 1 (aptx_ll_has_new_caps ie AND 0x1) OR push_bit 0 (aptx_ll_bidirect_link ie AND 0x1)"
proof -
  define s where "s = store r 0 ([A2DP_APTX_LL_CODEC_LEN, 0, A2D_MEDIA_CT_NON_A2DP] @
    put32le (aptx_ll_vendorId ie) @ put16le (aptx_ll_codecId ie) @
    [aptx_ll_sampleRate ie OR aptx_ll_channelMode ie,
                 push_bit 1 (aptx_ll_has_new_caps ie AND 0x1) OR push_bit 0 (aptx_ll_bidirect_link ie AND 0x1)])"
  have "A2DP_BuildInfoAptxLl A2D_MEDIA_TYPE_AUDIO (Some ie) (Some r) = (A2D_SUCCESS, Some s)"
    by (simp add: A2DP_BuildInfoAptxLl_def s_def)
  then show thesis
    by (rule that) (simp_all add: store_header(1-5) [OF s_def] store_header(6) [OF s_def, of 0, simplified]
      store_header(6) [OF s_def, of 1, simplified])
qed

lemma A2DP_ParseInfoAptxLl_True:
  "A2DP_ParseInfoAptxLl (Some ie0) (Some b) True = (A2D_SUCCESS, Some ie) \<longleftrightarrow>
     b 0 = A2DP_APTX_LL_CODEC_LEN \<and> drop_bit 4 (b 1) = AVDT_MEDIA_TYPE_AUDIO \<and>
     b 2 = A2D_MEDIA_CT_NON_A2DP \<and> rd32le b 3 = A2DP_APTX_LL_VENDOR_ID \<and>
     rd16le b 7 = A2DP_APTX_LL_CODEC_ID_BLUETOOTH \<and> b 9 AND 0xF0 \<noteq> 0 \<and> b 9 AND 0x0F \<noteq> 0 \<and>
     ie = ie0\<lparr>aptx_ll_vendorId := A2DP_APTX_LL_VENDOR_ID, aptx_ll_codecId := A2DP_APTX_LL_CODEC_ID_BLUETOOTH,
       aptx_ll_channelMode := b 9 AND 0x0F, aptx_ll_sampleRate := b 9 AND 0xF0,
                         aptx_ll_has_new_caps := drop_bit 1 (b 10) AND 0x01,
                         aptx_ll_bidirect_link := drop_bit 0 (b 10) AND 0x01\<rparr>"
  by (auto simp: A2DP_ParseInfoAptxLl_def Let_def)

lemma A2DP_ParseInfoAptxLl_False:
  "A2DP_ParseInfoAptxLl (Some ie0) (Some b) False = (A2D_SUCCESS, Some ie) \<longleftrightarrow>
     A2DP_ParseInfoAptxLl (Some ie0) (Some b) True = (A2D_SUCCESS, Some ie) \<and>
     one_bit (aptx_ll_sampleRate ie) \<and> one_bit (aptx_ll_channelMode ie)"
  by (auto simp: A2DP_ParseInfoAptxLl_def Let_def A2D_BitsSet_u8_one one_bit_nonzero split: if_splits)

text \<open>A successful parse fixes the codec type and the ids.\<close>

lemma aptx_ll_parse_ids:
  "fst (A2DP_ParseInfoAptxLl (Some ie) (Some p) cap) = A2D_SUCCESS \<Longrightarrow>
     p 2 = A2D_MEDIA_CT_NON_A2DP \<and> rd32le p 3 = A2DP_APTX_LL_VENDOR_ID \<and> rd16le p 7 = A2DP_APTX_LL_CODEC_ID_BLUETOOTH"
  by (simp add: A2DP_ParseInfoAptxLl_def Let_def split: if_split_asm)

interpretation aptx_ll: strict_codec A2DP_ParseInfoAptxLl A2DP_BuildInfoAptxLl 11 aptx_ll_wf aptx_ll_norm
proof
  show "(11::nat) \<le> AVDT_CODEC_SIZE" by simp
next
  fix b b' :: buf and p cap
  assume "buf_agree 11 b b'"
  then show "A2DP_ParseInfoAptxLl p (Some b) cap = A2DP_ParseInfoAptxLl p (Some b') cap"
    by (simp add: A2DP_ParseInfoAptxLl_def Let_def agree_simps [of 11] split: option.split)
next
  fix ie ie' :: tA2DP_APTX_LL_CIE and b cap
  show "fst (A2DP_ParseInfoAptxLl (Some ie) (Some b) cap) =
      fst (A2DP_ParseInfoAptxLl (Some ie') (Some b) cap)"
    by (simp add: A2DP_ParseInfoAptxLl_def Let_def)
next
  fix ie0 ie :: tA2DP_APTX_LL_CIE and b
  assume "A2DP_ParseInfoAptxLl (Some ie0) (Some b) True = (A2D_SUCCESS, Some ie)"
  then show "aptx_ll_wf ie" by (simp add: A2DP_ParseInfoAptxLl_True aptx_ll_wf_def)
next
  fix mt r and k :: nat and p :: "tA2DP_APTX_LL_CIE option"
  assume "11 \<le> k"
  then show "\<exists>r'. snd (A2DP_BuildInfoAptxLl mt p (Some r)) = Some r' \<and> r' k = r k"
    by (auto simp: A2DP_BuildInfoAptxLl_def Let_def store_apply split: option.split)
next
  fix ie0 :: tA2DP_APTX_LL_CIE and b cap
  show "snd (A2DP_ParseInfoAptxLl (Some ie0) (Some b) cap) \<noteq> None"
    by (simp add: A2DP_ParseInfoAptxLl_def Let_def)
next
  fix ie ie0 :: tA2DP_APTX_LL_CIE and r
  assume wf: "aptx_ll_wf ie"
  then have packed: "(aptx_ll_sampleRate ie OR aptx_ll_channelMode ie) AND 0xF0 = aptx_ll_sampleRate ie"
    "(aptx_ll_sampleRate ie OR aptx_ll_channelMode ie) AND 0x0F = aptx_ll_channelMode ie"
    using or_and_mask [where x = "aptx_ll_sampleRate ie" and m = "0xF0" and y = "aptx_ll_channelMode ie" and m' = "0x0F"]
      or_and_mask [where x = "aptx_ll_channelMode ie" and m = "0x0F" and y = "aptx_ll_sampleRate ie" and m' = "0xF0"]
    by (simp_all add: aptx_ll_wf_def)
  show "\<exists>r'. A2DP_BuildInfoAptxLl A2D_MEDIA_TYPE_AUDIO (Some ie) (Some r) = (A2D_SUCCESS, Some r') \<and>
      A2DP_ParseInfoAptxLl (Some ie0) (Some r') True = (A2D_SUCCESS, Some (aptx_ll_norm ie0 ie))"
    by (rule A2DP_BuildInfoAptxLl_ok [of ie r])
      (use wf packed in \<open>auto simp: A2DP_ParseInfoAptxLl_True aptx_ll_wf_def aptx_ll_norm_def dest!: and_1_cases\<close>)
next
  fix ie :: tA2DP_APTX_LL_CIE and b
  assume "fst (A2DP_ParseInfoAptxLl (Some ie) (Some b) False) = A2D_SUCCESS"
  then show "fst (A2DP_ParseInfoAptxLl (Some ie) (Some b) True) = A2D_SUCCESS"
    by (auto simp: A2DP_ParseInfoAptxLl_def Let_def A2D_BitsSet_def split: if_splits)
qed

subsection \<open>The choice of a configuration\<close>

text \<open>The configuration written for a source, or nothing.\<close>

definition aptx_ll_choice :: "buf \<Rightarrow> tA2DP_APTX_LL_CIE option" where
  "aptx_ll_choice src =
     (if fst (A2DP_ParseInfoAptxLl (Some aptx_ll_cie_local) (Some src) True) = A2D_SUCCESS \<and>
         src 9 AND 0x30 \<noteq> 0 \<and> src 9 AND 0x03 \<noteq> 0
      then Some (a2dp_aptx_ll_default_config\<lparr>
        aptx_ll_sampleRate := (if src 9 AND A2DP_APTX_LL_SAMPLERATE_48000 \<noteq> 0
          then A2DP_APTX_LL_SAMPLERATE_48000 else A2DP_APTX_LL_SAMPLERATE_44100),
        aptx_ll_channelMode := (if src 9 AND A2DP_APTX_LL_CHANNELS_STEREO \<noteq> 0 then A2DP_APTX_LL_CHANNELS_STEREO else A2DP_APTX_LL_CHANNELS_MONO)\<rparr>)
      else None)"

lemma A2DP_VendorBuildCodecConfigAptxLl_choice:
  "A2DP_VendorBuildCodecConfigAptxLl src r =
     (case aptx_ll_choice src of None \<Rightarrow> (False, r)
      | Some c \<Rightarrow> (True, the (snd (A2DP_BuildInfoAptxLl A2D_MEDIA_TYPE_AUDIO (Some c) (Some r)))))"
proof (cases "fst (A2DP_ParseInfoAptxLl (Some aptx_ll_cie_local) (Some src) True) = A2D_SUCCESS")
  case True
  then obtain s where s: "A2DP_ParseInfoAptxLl (Some aptx_ll_cie_local) (Some src) True = (A2D_SUCCESS, Some s)"
    by (rule aptx_ll.parsed)
  then have fields: "aptx_ll_sampleRate s = src 9 AND 0xF0" "aptx_ll_channelMode s = src 9 AND 0x0F"
    by (simp_all add: A2DP_ParseInfoAptxLl_True)
  have bits: "src 9 AND 0x30 = 0 \<longleftrightarrow> src 9 AND 16 = 0 \<and> src 9 AND 32 = 0"
    "src 9 AND 3 = 0 \<longleftrightarrow> src 9 AND 1 = 0 \<and> src 9 AND 2 = 0"
    by (auto simp: u8_eq_iff bit_simps)
  show ?thesis
    unfolding A2DP_VendorBuildCodecConfigAptxLl_def aptx_ll_choice_def s Let_def prod.case
    by (simp add: fields bits and.assoc)
next
  case False
  then show ?thesis
    by (auto simp: A2DP_VendorBuildCodecConfigAptxLl_def aptx_ll_choice_def split: prod.split)
qed

interpretation aptx_ll: negotiated_codec A2DP_ParseInfoAptxLl A2DP_BuildInfoAptxLl 11 aptx_ll_wf aptx_ll_norm
  aptx_ll_cie_local A2DP_VendorBuildCodecConfigAptxLl aptx_ll_within
proof
  fix src r r'
  assume "A2DP_VendorBuildCodecConfigAptxLl src r = (True, r')"
  then obtain c where c: "aptx_ll_choice src = Some c"
    and r': "r' = the (snd (A2DP_BuildInfoAptxLl A2D_MEDIA_TYPE_AUDIO (Some c) (Some r)))"
    by (auto simp: A2DP_VendorBuildCodecConfigAptxLl_choice split: option.splits)
  then obtain s where s: "A2DP_ParseInfoAptxLl (Some aptx_ll_cie_local) (Some src) True = (A2D_SUCCESS, Some s)"
    using aptx_ll.parsed [of aptx_ll_cie_local src] by (auto simp: aptx_ll_choice_def split: if_splits)
  have wf: "aptx_ll_wf c" and one: "one_bit (aptx_ll_sampleRate c)" "one_bit (aptx_ll_channelMode c)"
    and off: "src 9 AND aptx_ll_sampleRate c \<noteq> 0" "src 9 AND aptx_ll_channelMode c \<noteq> 0"
    and mask: "aptx_ll_sampleRate c AND 0xF0 = aptx_ll_sampleRate c" "aptx_ll_channelMode c AND 0x0F = aptx_ll_channelMode c"
    using c by (auto simp: aptx_ll_choice_def aptx_ll_wf_def a2dp_aptx_ll_default_config_def one_bit_def
        u8_eq_iff [of "src 9 AND k" 0 for k] bit_simps split: if_splits)
  have "A2DP_ParseInfoAptxLl (Some aptx_ll_cie_local) (Some r') True = (A2D_SUCCESS, Some (aptx_ll_norm aptx_ll_cie_local c))"
    by (rule aptx_ll.built [OF wf, of r]) (simp add: r')
  then have c': "A2DP_ParseInfoAptxLl (Some aptx_ll_cie_local) (Some r') False = (A2D_SUCCESS, Some (aptx_ll_norm aptx_ll_cie_local c))"
    using one by (simp add: A2DP_ParseInfoAptxLl_False aptx_ll_norm_def)
  have "aptx_ll_sampleRate s = src 9 AND 0xF0" "aptx_ll_channelMode s = src 9 AND 0x0F"
    using s by (simp_all add: A2DP_ParseInfoAptxLl_True)
  then have "aptx_ll_within (aptx_ll_norm aptx_ll_cie_local c) s"
    using one_bit_and [OF one(1) off(1)] one_bit_and [OF one(2) off(2)] mask
    by (simp add: aptx_ll_within_def aptx_ll_norm_def and.assoc [symmetric])
  with s c' show "\<exists>s c. A2DP_ParseInfoAptxLl (Some aptx_ll_cie_local) (Some src) True = (A2D_SUCCESS, Some s) \<and>
      A2DP_ParseInfoAptxLl (Some aptx_ll_cie_local) (Some r') False = (A2D_SUCCESS, Some c) \<and> aptx_ll_within c s"
    by blast
next
  fix src src' r
  assume "buf_agree 11 src src'"
  then have "A2DP_ParseInfoAptxLl (Some aptx_ll_cie_local) (Some src) True = A2DP_ParseInfoAptxLl (Some aptx_ll_cie_local) (Some src') True"
    by (rule aptx_ll.parse_local)
  then show "A2DP_VendorBuildCodecConfigAptxLl src r = A2DP_VendorBuildCodecConfigAptxLl src' r"
    by (simp add: A2DP_VendorBuildCodecConfigAptxLl_def)
next
  fix src r and k :: nat
  assume "11 \<le> k"
  then show "snd (A2DP_VendorBuildCodecConfigAptxLl src r) k = r k"
    by (simp add: A2DP_VendorBuildCodecConfigAptxLl_def Let_def case_prod_unfold aptx_ll.build_beyond
        del: first_set.simps split: option.split)
qed

subsection \<open>Properties\<close>

text \<open>
  Choosing an aptX LL configuration succeeds exactly for a capability that offers
  44.1 or 48 kHz and stereo or mono; the octets written name the best offered rate and mode,
  without the flags of a bidirectional link and of new capabilities.
\<close>
theorem aptx_ll_config_eq:
  "A2DP_VendorBuildCodecConfigAptxLl src r =
     (if fst (A2DP_ParseInfoAptxLl (Some aptx_ll_cie_local) (Some src) True) = A2D_SUCCESS \<and>
         src 9 AND (A2DP_APTX_LL_SAMPLERATE_48000 OR A2DP_APTX_LL_SAMPLERATE_44100) \<noteq> 0 \<and>
         src 9 AND (A2DP_APTX_LL_CHANNELS_STEREO OR A2DP_APTX_LL_CHANNELS_MONO) \<noteq> 0
      then (True, store r 0 [10, 0, 0xFF, 0x0A, 0, 0, 0, 2, 0,
        (if src 9 AND A2DP_APTX_LL_SAMPLERATE_48000 \<noteq> 0
         then A2DP_APTX_LL_SAMPLERATE_48000 else A2DP_APTX_LL_SAMPLERATE_44100) OR
        (if src 9 AND A2DP_APTX_LL_CHANNELS_STEREO \<noteq> 0 then A2DP_APTX_LL_CHANNELS_STEREO else A2DP_APTX_LL_CHANNELS_MONO), 0])
      else (False, r))"
  by (simp add: A2DP_VendorBuildCodecConfigAptxLl_choice aptx_ll_choice_def A2DP_BuildInfoAptxLl_def
      a2dp_aptx_ll_default_config_def put32le_def put16le_def fun_upd_twist)

text \<open>
  Every well-formed aptX LL element is built and parsed back: rate and mode share
  an octet, and the two flags share the last one; only the sample size is not transmitted.
\<close>
theorem aptx_ll_build_parse:
  assumes "aptx_ll_wf ie"
  shows "\<exists>r'. A2DP_BuildInfoAptxLl A2D_MEDIA_TYPE_AUDIO (Some ie) (Some r) = (A2D_SUCCESS, Some r') \<and>
    A2DP_ParseInfoAptxLl (Some ie0) (Some r') True =
      (A2D_SUCCESS, Some (ie\<lparr>aptx_ll_bits_per_sample := aptx_ll_bits_per_sample ie0\<rparr>))"
  using aptx_ll.parse_build [OF assms, of r ie0] by (simp add: aptx_ll_norm_def)

theorem aptx_ll_build_parse_witness:
  "\<exists>r'. A2DP_BuildInfoAptxLl A2D_MEDIA_TYPE_AUDIO
      (Some (a2dp_aptx_ll_sink_caps\<lparr>aptx_ll_has_new_caps := 1\<rparr>)) (Some (bytes [])) = (A2D_SUCCESS, Some r') \<and>
    A2DP_ParseInfoAptxLl (Some aptx_ll_cie_local) (Some r') True =
      (A2D_SUCCESS, Some (a2dp_aptx_ll_sink_caps\<lparr>aptx_ll_has_new_caps := 1,
         aptx_ll_bits_per_sample := BTAV_A2DP_CODEC_BITS_PER_SAMPLE_NONE\<rparr>))"
  using aptx_ll_build_parse [of "a2dp_aptx_ll_sink_caps\<lparr>aptx_ll_has_new_caps := 1\<rparr>" "bytes []" aptx_ll_cie_local]
  by (simp add: aptx_ll_wf_def a2dp_aptx_ll_sink_caps_def aptx_ll_cie_local_def)

end
