(* ===== verification/A2DP_Ldac.thy ===== *)
theory A2DP_Ldac
  imports Codec_Interface
begin

text \<open>
  stack/a2dp/a2dp\_vendor\_ldac.c: the LDAC codec information element, its parser and builder,
  the capability checks and the choice of a configuration (96 kHz first).
\<close>

abbreviation (input) A2DP_LDAC_CODEC_LEN :: u8 where "A2DP_LDAC_CODEC_LEN \<equiv> 10"
abbreviation (input) A2DP_LDAC_VENDOR_ID :: u32 where "A2DP_LDAC_VENDOR_ID \<equiv> 0x0000012D"
abbreviation (input) A2DP_LDAC_CODEC_ID :: u16 where "A2DP_LDAC_CODEC_ID \<equiv> 0x00AA"
abbreviation (input) A2DP_LDAC_SAMPLING_FREQ_MASK :: u8 where "A2DP_LDAC_SAMPLING_FREQ_MASK \<equiv> 0x3F"
abbreviation (input) A2DP_LDAC_SAMPLING_FREQ_44100 :: u8 where "A2DP_LDAC_SAMPLING_FREQ_44100 \<equiv> 0x20"
abbreviation (input) A2DP_LDAC_SAMPLING_FREQ_48000 :: u8 where "A2DP_LDAC_SAMPLING_FREQ_48000 \<equiv> 0x10"
abbreviation (input) A2DP_LDAC_SAMPLING_FREQ_88200 :: u8 where "A2DP_LDAC_SAMPLING_FREQ_88200 \<equiv> 0x08"
abbreviation (input) A2DP_LDAC_SAMPLING_FREQ_96000 :: u8 where "A2DP_LDAC_SAMPLING_FREQ_96000 \<equiv> 0x04"
abbreviation (input) A2DP_LDAC_CHANNEL_MODE_MASK :: u8 where "A2DP_LDAC_CHANNEL_MODE_MASK \<equiv> 0x07"
abbreviation (input) A2DP_LDAC_CHANNEL_MODE_MONO :: u8 where "A2DP_LDAC_CHANNEL_MODE_MONO \<equiv> 0x04"
abbreviation (input) A2DP_LDAC_SAMPLING_FREQ_176400 :: u8 where "A2DP_LDAC_SAMPLING_FREQ_176400 \<equiv> 0x02"
abbreviation (input) A2DP_LDAC_SAMPLING_FREQ_192000 :: u8 where "A2DP_LDAC_SAMPLING_FREQ_192000 \<equiv> 0x01"
abbreviation (input) A2DP_LDAC_CHANNEL_MODE_DUAL :: u8 where "A2DP_LDAC_CHANNEL_MODE_DUAL \<equiv> 0x02"
abbreviation (input) A2DP_LDAC_CHANNEL_MODE_STEREO :: u8 where "A2DP_LDAC_CHANNEL_MODE_STEREO \<equiv> 0x01"

record tA2DP_LDAC_CIE =
  ldac_vendorId :: u32
  ldac_codecId :: u16
  ldac_sampleRate :: u8
  ldac_channelMode :: u8
  ldac_bits_per_sample :: btav_a2dp_codec_bits_per_sample_t

text \<open>The initial contents of a local variable of the type: no result depends on them.\<close>

definition ldac_cie_local :: tA2DP_LDAC_CIE where
  "ldac_cie_local = \<lparr>ldac_vendorId = 0, ldac_codecId = 0, ldac_sampleRate = 0,
     ldac_channelMode = 0, ldac_bits_per_sample = BTAV_A2DP_CODEC_BITS_PER_SAMPLE_NONE\<rparr>"

definition a2dp_ldac_source_caps :: tA2DP_LDAC_CIE where
  "a2dp_ldac_source_caps = \<lparr>ldac_vendorId = A2DP_LDAC_VENDOR_ID,
     ldac_codecId = A2DP_LDAC_CODEC_ID,
     ldac_sampleRate = A2DP_LDAC_SAMPLING_FREQ_44100 OR A2DP_LDAC_SAMPLING_FREQ_48000 OR
       A2DP_LDAC_SAMPLING_FREQ_88200 OR A2DP_LDAC_SAMPLING_FREQ_96000,
     ldac_channelMode = A2DP_LDAC_CHANNEL_MODE_DUAL OR A2DP_LDAC_CHANNEL_MODE_STEREO,
     ldac_bits_per_sample = BTAV_A2DP_CODEC_BITS_PER_SAMPLE_32\<rparr>"

definition a2dp_ldac_sink_caps :: tA2DP_LDAC_CIE where
  "a2dp_ldac_sink_caps = \<lparr>ldac_vendorId = A2DP_LDAC_VENDOR_ID,
     ldac_codecId = A2DP_LDAC_CODEC_ID,
     ldac_sampleRate = A2DP_LDAC_SAMPLING_FREQ_44100 OR A2DP_LDAC_SAMPLING_FREQ_48000 OR
       A2DP_LDAC_SAMPLING_FREQ_88200 OR A2DP_LDAC_SAMPLING_FREQ_96000,
     ldac_channelMode = A2DP_LDAC_CHANNEL_MODE_MONO OR A2DP_LDAC_CHANNEL_MODE_DUAL OR
       A2DP_LDAC_CHANNEL_MODE_STEREO,
     ldac_bits_per_sample = BTAV_A2DP_CODEC_BITS_PER_SAMPLE_32\<rparr>"

definition a2dp_ldac_default_config :: tA2DP_LDAC_CIE where
  "a2dp_ldac_default_config = \<lparr>ldac_vendorId = A2DP_LDAC_VENDOR_ID,
     ldac_codecId = A2DP_LDAC_CODEC_ID, ldac_sampleRate = A2DP_LDAC_SAMPLING_FREQ_48000,
     ldac_channelMode = A2DP_LDAC_CHANNEL_MODE_STEREO,
     ldac_bits_per_sample = BTAV_A2DP_CODEC_BITS_PER_SAMPLE_32\<rparr>"

text \<open>
  The builder writes the element octet by octet; a missing sampling frequency or channel mode
  is noticed after the octets before it have been written.
\<close>

definition A2DP_BuildInfoLdac :: "tA2DP_LDAC_CIE builder" where
  "A2DP_BuildInfoLdac media_type p_ie p_result =
     (case (p_ie, p_result) of
        (Some ie, Some r) \<Rightarrow>
          (let r1 = store r 0 ([A2DP_LDAC_CODEC_LEN, push_bit 4 media_type, A2D_MEDIA_CT_NON_A2DP]
                      @ put32le (ldac_vendorId ie) @ put16le (ldac_codecId ie));
               r2 = r1(9 := ldac_sampleRate ie AND A2DP_LDAC_SAMPLING_FREQ_MASK)
           in if r2 9 = 0 then (A2D_INVALID_PARAMS, Some r2)
              else (let r3 = r2(10 := ldac_channelMode ie AND A2DP_LDAC_CHANNEL_MODE_MASK)
                    in if r3 10 = 0 then (A2D_INVALID_PARAMS, Some r3)
                       else (A2D_SUCCESS, Some r3)))
      | _ \<Rightarrow> (A2D_INVALID_PARAMS, p_result))"

definition A2DP_ParseInfoLdac :: "tA2DP_LDAC_CIE parser" where
  "A2DP_ParseInfoLdac p_ie p_codec_info is_capability =
     (case (p_ie, p_codec_info) of
        (Some ie, Some b) \<Rightarrow>
          if b 0 \<noteq> A2DP_LDAC_CODEC_LEN then (A2D_WRONG_CODEC, Some ie)
          else if drop_bit 4 (b 1) \<noteq> AVDT_MEDIA_TYPE_AUDIO \<or> b 2 \<noteq> A2D_MEDIA_CT_NON_A2DP
          then (A2D_WRONG_CODEC, Some ie)
          else
            (let ie1 = ie\<lparr>ldac_vendorId := rd32le b 3, ldac_codecId := rd16le b 7\<rparr>
             in if ldac_vendorId ie1 \<noteq> A2DP_LDAC_VENDOR_ID \<or> ldac_codecId ie1 \<noteq> A2DP_LDAC_CODEC_ID
                then (A2D_WRONG_CODEC, Some ie1)
                else
                  (let ie2 = ie1\<lparr>ldac_sampleRate := b 9 AND A2DP_LDAC_SAMPLING_FREQ_MASK,
                                 ldac_channelMode := b 10 AND A2DP_LDAC_CHANNEL_MODE_MASK\<rparr>
                   in if is_capability then
                        (if A2D_BitsSet (ucast (ldac_sampleRate ie2)) = A2D_SET_ZERO_BIT
                         then (A2D_BAD_SAMP_FREQ, Some ie2)
                         else if A2D_BitsSet (ucast (ldac_channelMode ie2)) = A2D_SET_ZERO_BIT
                         then (A2D_BAD_CH_MODE, Some ie2)
                         else (A2D_SUCCESS, Some ie2))
                      else if A2D_BitsSet (ucast (ldac_sampleRate ie2)) \<noteq> A2D_SET_ONE_BIT
                      then (A2D_BAD_SAMP_FREQ, Some ie2)
                      else if A2D_BitsSet (ucast (ldac_channelMode ie2)) \<noteq> A2D_SET_ONE_BIT
                      then (A2D_BAD_CH_MODE, Some ie2)
                      else (A2D_SUCCESS, Some ie2)))
      | _ \<Rightarrow> (A2D_INVALID_PARAMS, p_ie))"

definition A2DP_IsVendorPeerSourceCodecValidLdac :: "buf \<Rightarrow> u8" where
  "A2DP_IsVendorPeerSourceCodecValidLdac p =
     (let status = fst (A2DP_ParseInfoLdac (Some ldac_cie_local) (Some p) True)
      in if status = A2D_SUCCESS then status
         else fst (A2DP_ParseInfoLdac (Some ldac_cie_local) (Some p) False))"

definition A2DP_IsVendorPeerSinkCodecValidLdac :: "buf \<Rightarrow> bool" where
  "A2DP_IsVendorPeerSinkCodecValidLdac p \<longleftrightarrow>
     fst (A2DP_ParseInfoLdac (Some ldac_cie_local) (Some p) False) = A2D_SUCCESS \<or>
     fst (A2DP_ParseInfoLdac (Some ldac_cie_local) (Some p) True) = A2D_SUCCESS"

definition A2DP_CodecInfoMatchesCapabilityLdac ::
  "tA2DP_LDAC_CIE \<Rightarrow> buf \<Rightarrow> bool \<Rightarrow> u8" where
  "A2DP_CodecInfoMatchesCapabilityLdac p_cap p is_capability =
     (case A2DP_ParseInfoLdac (Some ldac_cie_local) (Some p) is_capability of
        (status, cfg) \<Rightarrow>
          if status \<noteq> A2D_SUCCESS then status
          else if ldac_sampleRate (the cfg) AND ldac_sampleRate p_cap = 0 then A2D_NS_SAMP_FREQ
          else if ldac_channelMode (the cfg) AND ldac_channelMode p_cap = 0 then A2D_NS_CH_MODE
          else A2D_SUCCESS)"

definition A2DP_VendorSinkCodecIndexLdac :: "buf \<Rightarrow> btav_a2dp_codec_index_t" where
  "A2DP_VendorSinkCodecIndexLdac p = BTAV_A2DP_CODEC_INDEX_SINK_LDAC"

definition A2DP_VendorSourceCodecIndexLdac :: "buf \<Rightarrow> btav_a2dp_codec_index_t" where
  "A2DP_VendorSourceCodecIndexLdac p = BTAV_A2DP_CODEC_INDEX_SOURCE_LDAC"

definition A2DP_VendorCodecNameLdac :: "buf \<Rightarrow> string" where
  "A2DP_VendorCodecNameLdac p = ''LDAC''"

definition A2DP_VendorCodecTypeEqualsLdac :: "buf \<Rightarrow> buf \<Rightarrow> bool" where
  "A2DP_VendorCodecTypeEqualsLdac a b =
     (if fst (A2DP_ParseInfoLdac (Some ldac_cie_local) (Some a) True) \<noteq> A2D_SUCCESS then False
      else if fst (A2DP_ParseInfoLdac (Some ldac_cie_local) (Some b) True) \<noteq> A2D_SUCCESS then False
      else True)"

definition A2DP_VendorInitCodecConfigLdacSink :: "buf \<Rightarrow> bool \<times> buf" where
  "A2DP_VendorInitCodecConfigLdacSink p =
     (case A2DP_BuildInfoLdac AVDT_MEDIA_TYPE_AUDIO (Some a2dp_ldac_sink_caps) (Some p) of
        (sts, p') \<Rightarrow> (sts = A2D_SUCCESS, the p'))"

definition A2DP_VendorInitCodecConfigLdac ::
  "btav_a2dp_codec_index_t \<Rightarrow> buf \<Rightarrow> bool \<times> buf" where
  "A2DP_VendorInitCodecConfigLdac codec_index p =
     (if codec_index = BTAV_A2DP_CODEC_INDEX_SINK_LDAC then A2DP_VendorInitCodecConfigLdacSink p
      else (False, p))"

definition A2DP_VendorBuildCodecConfigLdac :: "buf \<Rightarrow> buf \<Rightarrow> bool \<times> buf" where
  "A2DP_VendorBuildCodecConfigLdac p_src_cap p_result =
     (case A2DP_ParseInfoLdac (Some ldac_cie_local) (Some p_src_cap) True of
        (status, src) \<Rightarrow>
          if status \<noteq> 0 then (False, p_result)
          else
            (let src_cap = the src; pref_cap = a2dp_ldac_default_config;
                 rate = first_set (ldac_sampleRate src_cap)
                   [A2DP_LDAC_SAMPLING_FREQ_96000, A2DP_LDAC_SAMPLING_FREQ_88200,
                    A2DP_LDAC_SAMPLING_FREQ_48000, A2DP_LDAC_SAMPLING_FREQ_44100];
                 mode = first_set (ldac_channelMode src_cap)
                   [A2DP_LDAC_CHANNEL_MODE_STEREO, A2DP_LDAC_CHANNEL_MODE_DUAL,
                    A2DP_LDAC_CHANNEL_MODE_MONO]
             in case rate of
                  None \<Rightarrow> (False, p_result)
                | Some f \<Rightarrow>
                    (case mode of
                       None \<Rightarrow> (False, p_result)
                     | Some m \<Rightarrow>
                         (True, the (snd (A2DP_BuildInfoLdac A2D_MEDIA_TYPE_AUDIO
                           (Some (pref_cap\<lparr>ldac_sampleRate := f, ldac_channelMode := m\<rparr>))
                           (Some p_result)))))))"

definition A2DP_GetVendorDecoderInterfaceLdac :: "buf \<Rightarrow> tA2DP_DECODER_INTERFACE option" where
  "A2DP_GetVendorDecoderInterfaceLdac p =
     (if \<not> A2DP_IsVendorPeerSinkCodecValidLdac p then None else Some a2dp_decoder_interface_ldac)"

subsection \<open>The contract\<close>

text \<open>A well-formed element: the LDAC ids, no reserved bit set, a rate and a mode offered.\<close>

definition ldac_wf :: "tA2DP_LDAC_CIE \<Rightarrow> bool" where
  "ldac_wf ie \<longleftrightarrow> ldac_vendorId ie = A2DP_LDAC_VENDOR_ID \<and> ldac_codecId ie = A2DP_LDAC_CODEC_ID \<and>
     ldac_sampleRate ie AND A2DP_LDAC_SAMPLING_FREQ_MASK = ldac_sampleRate ie \<and>
     ldac_sampleRate ie \<noteq> 0 \<and>
     ldac_channelMode ie AND A2DP_LDAC_CHANNEL_MODE_MASK = ldac_channelMode ie \<and>
     ldac_channelMode ie \<noteq> 0"

text \<open>The sample size is not part of the octets: parsing leaves it as it was.\<close>

definition ldac_norm :: "tA2DP_LDAC_CIE \<Rightarrow> tA2DP_LDAC_CIE \<Rightarrow> tA2DP_LDAC_CIE" where
  "ldac_norm ie0 ie = ie\<lparr>ldac_bits_per_sample := ldac_bits_per_sample ie0\<rparr>"

text \<open>A configuration selects one rate and one mode that the capability has.\<close>

definition ldac_within :: "tA2DP_LDAC_CIE \<Rightarrow> tA2DP_LDAC_CIE \<Rightarrow> bool" where
  "ldac_within c s \<longleftrightarrow> ldac_sampleRate c AND ldac_sampleRate s = ldac_sampleRate c \<and>
     ldac_channelMode c AND ldac_channelMode s = ldac_channelMode c"

lemma A2DP_BuildInfoLdac_wf:
  assumes "ldac_wf ie"
  obtains r' where "A2DP_BuildInfoLdac A2D_MEDIA_TYPE_AUDIO (Some ie) (Some r) = (A2D_SUCCESS, Some r')"
    and "r' 0 = A2DP_LDAC_CODEC_LEN" "r' (Suc 0) = 0" "r' 2 = A2D_MEDIA_CT_NON_A2DP"
    and "rd32le r' 3 = ldac_vendorId ie" "rd16le r' 7 = ldac_codecId ie"
    and "r' 9 = ldac_sampleRate ie" "r' 10 = ldac_channelMode ie"
proof -
  define s where "s = store r 0 ([A2DP_LDAC_CODEC_LEN, 0, A2D_MEDIA_CT_NON_A2DP] @
    put32le (ldac_vendorId ie) @ put16le (ldac_codecId ie) @ [])"
  let ?r = "s(9 := ldac_sampleRate ie, 10 := ldac_channelMode ie)"
  have "A2DP_BuildInfoLdac A2D_MEDIA_TYPE_AUDIO (Some ie) (Some r) = (A2D_SUCCESS, Some ?r)"
    using assms by (simp add: A2DP_BuildInfoLdac_def Let_def ldac_wf_def s_def)
  then show thesis
    by (rule that) (simp_all add: store_header [OF s_def])
qed

text \<open>A successful parse fixes the codec type and the ids.\<close>

lemma ldac_parse_ids:
  "fst (A2DP_ParseInfoLdac (Some ie) (Some p) cap) = A2D_SUCCESS \<Longrightarrow>
     p 2 = A2D_MEDIA_CT_NON_A2DP \<and> rd32le p 3 = A2DP_LDAC_VENDOR_ID \<and> rd16le p 7 = A2DP_LDAC_CODEC_ID"
  by (simp add: A2DP_ParseInfoLdac_def Let_def split: if_split_asm)

interpretation ldac: strict_codec A2DP_ParseInfoLdac A2DP_BuildInfoLdac 11 ldac_wf ldac_norm
proof
  show "(11::nat) \<le> AVDT_CODEC_SIZE" by simp
next
  fix b b' :: buf and p cap
  assume "buf_agree 11 b b'"
  then show "A2DP_ParseInfoLdac p (Some b) cap = A2DP_ParseInfoLdac p (Some b') cap"
    by (simp add: A2DP_ParseInfoLdac_def Let_def agree_simps [of 11] split: option.split)
next
  fix ie ie' :: tA2DP_LDAC_CIE and b cap
  show "fst (A2DP_ParseInfoLdac (Some ie) (Some b) cap) =
      fst (A2DP_ParseInfoLdac (Some ie') (Some b) cap)"
    by (simp add: A2DP_ParseInfoLdac_def Let_def)
next
  fix ie0 ie :: tA2DP_LDAC_CIE and b
  assume "A2DP_ParseInfoLdac (Some ie0) (Some b) True = (A2D_SUCCESS, Some ie)"
  then show "ldac_wf ie"
    by (auto simp: A2DP_ParseInfoLdac_def Let_def ldac_wf_def split: if_splits)
next
  fix mt r and k :: nat and p :: "tA2DP_LDAC_CIE option"
  assume "11 \<le> k"
  then show "\<exists>r'. snd (A2DP_BuildInfoLdac mt p (Some r)) = Some r' \<and> r' k = r k"
    by (auto simp: A2DP_BuildInfoLdac_def Let_def store_apply split: option.split)
next
  fix ie0 :: tA2DP_LDAC_CIE and b cap
  show "snd (A2DP_ParseInfoLdac (Some ie0) (Some b) cap) \<noteq> None"
    by (simp add: A2DP_ParseInfoLdac_def Let_def)
next
  fix ie ie0 :: tA2DP_LDAC_CIE and r
  assume wf: "ldac_wf ie"
  then show "\<exists>r'. A2DP_BuildInfoLdac A2D_MEDIA_TYPE_AUDIO (Some ie) (Some r) = (A2D_SUCCESS, Some r') \<and>
      A2DP_ParseInfoLdac (Some ie0) (Some r') True = (A2D_SUCCESS, Some (ldac_norm ie0 ie))"
    by (rule A2DP_BuildInfoLdac_wf [of _ r])
      (use wf in \<open>auto simp: A2DP_ParseInfoLdac_def Let_def ldac_wf_def ldac_norm_def\<close>)
next
  fix ie :: tA2DP_LDAC_CIE and b
  assume "fst (A2DP_ParseInfoLdac (Some ie) (Some b) False) = A2D_SUCCESS"
  then show "fst (A2DP_ParseInfoLdac (Some ie) (Some b) True) = A2D_SUCCESS"
    by (auto simp: A2DP_ParseInfoLdac_def Let_def A2D_BitsSet_def split: if_splits)
qed

text \<open>The rate and the mode that the configuration builder writes for a capability.\<close>

lemma A2DP_VendorBuildCodecConfigLdac_True:
  assumes "A2DP_VendorBuildCodecConfigLdac src r = (True, r')"
  obtains s f m where "A2DP_ParseInfoLdac (Some ldac_cie_local) (Some src) True = (A2D_SUCCESS, Some s)"
    and "ldac_wf s" and "first_set (ldac_sampleRate s) [0x04, 0x08, 0x10, 0x20] = Some f"
    and "first_set (ldac_channelMode s) [0x01, 0x02, 0x04] = Some m"
    and "r' = the (snd (A2DP_BuildInfoLdac A2D_MEDIA_TYPE_AUDIO
      (Some (a2dp_ldac_default_config\<lparr>ldac_sampleRate := f, ldac_channelMode := m\<rparr>)) (Some r)))"
proof -
  have "fst (A2DP_ParseInfoLdac (Some ldac_cie_local) (Some src) True) = A2D_SUCCESS"
    using assms by (auto simp: A2DP_VendorBuildCodecConfigLdac_def split: prod.splits if_splits)
  then obtain s where s: "A2DP_ParseInfoLdac (Some ldac_cie_local) (Some src) True = (A2D_SUCCESS, Some s)"
    and wf: "ldac_wf s" by (rule ldac.parsed)
  with assms show thesis
    by (auto simp: A2DP_VendorBuildCodecConfigLdac_def Let_def split: option.splits intro: that [OF s wf]
        simp del: first_set.simps)
qed

text \<open>A configuration is a capability with one rate and one mode.\<close>

lemma A2DP_ParseInfoLdac_True:
  "A2DP_ParseInfoLdac (Some ie0) (Some b) True = (A2D_SUCCESS, Some ie) \<longleftrightarrow>
     b 0 = A2DP_LDAC_CODEC_LEN \<and> drop_bit 4 (b 1) = AVDT_MEDIA_TYPE_AUDIO \<and>
     b 2 = A2D_MEDIA_CT_NON_A2DP \<and> rd32le b 3 = A2DP_LDAC_VENDOR_ID \<and>
     rd16le b 7 = A2DP_LDAC_CODEC_ID \<and> b 9 AND A2DP_LDAC_SAMPLING_FREQ_MASK \<noteq> 0 \<and>
     b 10 AND A2DP_LDAC_CHANNEL_MODE_MASK \<noteq> 0 \<and>
     ie = ie0\<lparr>ldac_vendorId := A2DP_LDAC_VENDOR_ID, ldac_codecId := A2DP_LDAC_CODEC_ID,
       ldac_sampleRate := b 9 AND A2DP_LDAC_SAMPLING_FREQ_MASK,
       ldac_channelMode := b 10 AND A2DP_LDAC_CHANNEL_MODE_MASK\<rparr>"
  by (auto simp: A2DP_ParseInfoLdac_def Let_def)

lemma A2DP_ParseInfoLdac_False:
  "A2DP_ParseInfoLdac (Some ie0) (Some b) False = (A2D_SUCCESS, Some ie) \<longleftrightarrow>
     A2DP_ParseInfoLdac (Some ie0) (Some b) True = (A2D_SUCCESS, Some ie) \<and>
     one_bit (ldac_sampleRate ie) \<and> one_bit (ldac_channelMode ie)"
  by (auto simp: A2DP_ParseInfoLdac_def Let_def A2D_BitsSet_u8_one one_bit_nonzero split: if_splits)

interpretation ldac: negotiated_codec A2DP_ParseInfoLdac A2DP_BuildInfoLdac 11 ldac_wf ldac_norm
  ldac_cie_local A2DP_VendorBuildCodecConfigLdac ldac_within
proof
  fix src r r'
  assume "A2DP_VendorBuildCodecConfigLdac src r = (True, r')"
  then obtain s f m where s: "A2DP_ParseInfoLdac (Some ldac_cie_local) (Some src) True = (A2D_SUCCESS, Some s)"
    and f: "first_set (ldac_sampleRate s) [0x04, 0x08, 0x10, 0x20] = Some f"
    and m: "first_set (ldac_channelMode s) [0x01, 0x02, 0x04] = Some m"
    and r': "r' = the (snd (A2DP_BuildInfoLdac A2D_MEDIA_TYPE_AUDIO
      (Some (a2dp_ldac_default_config\<lparr>ldac_sampleRate := f, ldac_channelMode := m\<rparr>)) (Some r)))"
    by (rule A2DP_VendorBuildCodecConfigLdac_True)
  let ?c = "a2dp_ldac_default_config\<lparr>ldac_sampleRate := f, ldac_channelMode := m\<rparr>"
  have fm: "f \<in> {0x04, 0x08, 0x10, 0x20}" "m \<in> {0x01, 0x02, 0x04}"
    using first_set_SomeD(1) [OF f] first_set_SomeD(1) [OF m] by simp_all
  then have wf: "ldac_wf ?c"
    by (auto simp: ldac_wf_def a2dp_ldac_default_config_def)
  have one: "one_bit f" "one_bit m" using fm by (auto simp: one_bit_def)
  have "A2DP_ParseInfoLdac (Some ldac_cie_local) (Some r') True = (A2D_SUCCESS, Some (ldac_norm ldac_cie_local ?c))"
    by (rule ldac.built [OF wf, of r]) (simp add: r')
  then have c: "A2DP_ParseInfoLdac (Some ldac_cie_local) (Some r') False = (A2D_SUCCESS, Some (ldac_norm ldac_cie_local ?c))"
    using one by (simp add: A2DP_ParseInfoLdac_False ldac_norm_def)
  have w: "f AND ldac_sampleRate s = f" "m AND ldac_channelMode s = m"
    using first_set_one_bit(2) [OF f] first_set_one_bit(2) [OF m] by (simp_all add: one_bit_def)
  then have "ldac_within (ldac_norm ldac_cie_local ?c) s"
    by (simp add: ldac_within_def ldac_norm_def)
  with s c show "\<exists>s c. A2DP_ParseInfoLdac (Some ldac_cie_local) (Some src) True = (A2D_SUCCESS, Some s) \<and>
      A2DP_ParseInfoLdac (Some ldac_cie_local) (Some r') False = (A2D_SUCCESS, Some c) \<and> ldac_within c s"
    by blast
next
  fix src src' r
  assume "buf_agree 11 src src'"
  then have "A2DP_ParseInfoLdac (Some ldac_cie_local) (Some src) True = A2DP_ParseInfoLdac (Some ldac_cie_local) (Some src') True"
    by (rule ldac.parse_local)
  then show "A2DP_VendorBuildCodecConfigLdac src r = A2DP_VendorBuildCodecConfigLdac src' r"
    by (simp add: A2DP_VendorBuildCodecConfigLdac_def)
next
  fix src r and k :: nat
  assume "11 \<le> k"
  then show "snd (A2DP_VendorBuildCodecConfigLdac src r) k = r k"
    by (simp add: A2DP_VendorBuildCodecConfigLdac_def Let_def case_prod_unfold ldac.build_beyond
        del: first_set.simps split: option.split)
qed

subsection \<open>Properties\<close>

text \<open>
  Every well-formed LDAC element is built, and parsing the octets gives it back
  up to the sample size, which is not transmitted.
\<close>
theorem ldac_build_parse:
  assumes "ldac_wf ie"
  shows "\<exists>r'. A2DP_BuildInfoLdac A2D_MEDIA_TYPE_AUDIO (Some ie) (Some r) = (A2D_SUCCESS, Some r') \<and>
    A2DP_ParseInfoLdac (Some ie0) (Some r') True =
      (A2D_SUCCESS, Some (ie\<lparr>ldac_bits_per_sample := ldac_bits_per_sample ie0\<rparr>))"
  using ldac.parse_build [OF assms, of r ie0] by (simp add: ldac_norm_def)

theorem ldac_build_parse_witness:
  "\<exists>r'. A2DP_BuildInfoLdac A2D_MEDIA_TYPE_AUDIO (Some a2dp_ldac_source_caps) (Some (bytes [])) =
      (A2D_SUCCESS, Some r') \<and>
    A2DP_ParseInfoLdac (Some ldac_cie_local) (Some r') True =
      (A2D_SUCCESS, Some (a2dp_ldac_source_caps\<lparr>ldac_bits_per_sample := BTAV_A2DP_CODEC_BITS_PER_SAMPLE_NONE\<rparr>))"
  using ldac_build_parse [of a2dp_ldac_source_caps "bytes []" ldac_cie_local]
  by (simp add: ldac_wf_def a2dp_ldac_source_caps_def ldac_cie_local_def)

text \<open>
  Choosing an LDAC configuration succeeds exactly when the source's octets parse
  as a capability with one of the four rates 44.1 to 96 kHz; the octets written are then the
  element of the highest offered rate and the preferred offered channel mode (stereo, dual,
  mono), and without success nothing is written.
\<close>
theorem ldac_config_eq:
  "A2DP_VendorBuildCodecConfigLdac src r =
     (if fst (A2DP_ParseInfoLdac (Some ldac_cie_local) (Some src) True) = A2D_SUCCESS \<and>
         src 9 AND 0x3C \<noteq> 0
      then (True, store r 0 [10, 0, 0xFF, 0x2D, 0x01, 0, 0, 0xAA, 0,
        if src 9 AND A2DP_LDAC_SAMPLING_FREQ_96000 \<noteq> 0 then A2DP_LDAC_SAMPLING_FREQ_96000
        else if src 9 AND A2DP_LDAC_SAMPLING_FREQ_88200 \<noteq> 0 then A2DP_LDAC_SAMPLING_FREQ_88200
        else if src 9 AND A2DP_LDAC_SAMPLING_FREQ_48000 \<noteq> 0 then A2DP_LDAC_SAMPLING_FREQ_48000
        else A2DP_LDAC_SAMPLING_FREQ_44100,
        if src 10 AND A2DP_LDAC_CHANNEL_MODE_STEREO \<noteq> 0 then A2DP_LDAC_CHANNEL_MODE_STEREO
        else if src 10 AND A2DP_LDAC_CHANNEL_MODE_DUAL \<noteq> 0 then A2DP_LDAC_CHANNEL_MODE_DUAL
        else A2DP_LDAC_CHANNEL_MODE_MONO])
      else (False, r))"
proof (cases "fst (A2DP_ParseInfoLdac (Some ldac_cie_local) (Some src) True) = A2D_SUCCESS")
  case True
  then obtain s where s: "A2DP_ParseInfoLdac (Some ldac_cie_local) (Some src) True = (A2D_SUCCESS, Some s)"
    by (rule ldac.parsed)
  have rate: "src 9 AND 0x3C = 0 \<longleftrightarrow> src 9 AND 4 = 0 \<and> src 9 AND 8 = 0 \<and> src 9 AND 16 = 0 \<and> src 9 AND 32 = 0"
    by (auto simp: u8_eq_iff bit_simps)
  have mode: "src 10 AND 7 \<noteq> 0 \<Longrightarrow> src 10 AND 1 = 0 \<Longrightarrow> src 10 AND 2 = 0 \<Longrightarrow> src 10 AND 4 \<noteq> 0"
    by (auto simp: u8_eq_iff bit_simps)
  have fields: "ldac_sampleRate s = src 9 AND 0x3F" "ldac_channelMode s = src 10 AND 7" "src 10 AND 7 \<noteq> 0"
    using s by (simp_all add: A2DP_ParseInfoLdac_True)
  show ?thesis using mode [OF fields(3)]
    unfolding A2DP_VendorBuildCodecConfigLdac_def s Let_def prod.case
    by (simp add: fields(1,2) rate and.assoc A2DP_BuildInfoLdac_def a2dp_ldac_default_config_def
        put32le_def put16le_def fun_upd_twist)
next
  case False
  then show ?thesis by (auto simp: A2DP_VendorBuildCodecConfigLdac_def split: prod.split)
qed

end
