(* ===== verification/A2DP_Opus.thy ===== *)
theory A2DP_Opus
  imports Codec_Interface
begin

text \<open>
  stack/a2dp/a2dp\_vendor\_opus.c: one element type for two Opus codecs, the one of Android (one
  octet of settings) and the one of PipeWire and BlueZ ("Opus 05", eighteen octets), told apart
  by vendor and codec id.
\<close>

abbreviation (input) A2DP_OPUS_VARIANT_ANDROID :: u8 where "A2DP_OPUS_VARIANT_ANDROID \<equiv> 0"
abbreviation (input) A2DP_OPUS_VARIANT_PIPEWIRE :: u8 where "A2DP_OPUS_VARIANT_PIPEWIRE \<equiv> 1"
abbreviation (input) A2DP_OPUS_ANDROID_VENDOR_ID :: u32 where "A2DP_OPUS_ANDROID_VENDOR_ID \<equiv> 0xE0"
abbreviation (input) A2DP_OPUS_ANDROID_CODEC_ID :: u16 where "A2DP_OPUS_ANDROID_CODEC_ID \<equiv> 0x0001"
abbreviation (input) A2DP_OPUS_PIPEWIRE_VENDOR_ID :: u32 where "A2DP_OPUS_PIPEWIRE_VENDOR_ID \<equiv> 0x5F1"
abbreviation (input) A2DP_OPUS_PIPEWIRE_CODEC_ID :: u16 where "A2DP_OPUS_PIPEWIRE_CODEC_ID \<equiv> 0x1005"
abbreviation (input) A2DP_OPUS_ANDROID_CODEC_LEN :: u8 where "A2DP_OPUS_ANDROID_CODEC_LEN \<equiv> 9"
abbreviation (input) A2DP_OPUS_PIPEWIRE_CODEC_LEN :: u8 where "A2DP_OPUS_PIPEWIRE_CODEC_LEN \<equiv> 26"
abbreviation (input) A2DP_OPUS_CHANNEL_MODE_MASK :: u8 where "A2DP_OPUS_CHANNEL_MODE_MASK \<equiv> 0x07"
abbreviation (input) A2DP_OPUS_CHANNEL_MODE_STEREO :: u8 where "A2DP_OPUS_CHANNEL_MODE_STEREO \<equiv> 0x02"
abbreviation (input) A2DP_OPUS_FRAMESIZE_MASK :: u8 where "A2DP_OPUS_FRAMESIZE_MASK \<equiv> 0x18"
abbreviation (input) A2DP_OPUS_20MS_FRAMESIZE :: u8 where "A2DP_OPUS_20MS_FRAMESIZE \<equiv> 0x10"
abbreviation (input) A2DP_OPUS_SAMPLING_FREQ_MASK :: u8 where "A2DP_OPUS_SAMPLING_FREQ_MASK \<equiv> 0x80"
abbreviation (input) A2DP_OPUS_SAMPLING_FREQ_48000 :: u8 where "A2DP_OPUS_SAMPLING_FREQ_48000 \<equiv> 0x80"
abbreviation (input) A2DP_OPUS_AUDIO_LOCATION_FL :: u32 where "A2DP_OPUS_AUDIO_LOCATION_FL \<equiv> 1"
abbreviation (input) A2DP_OPUS_AUDIO_LOCATION_FR :: u32 where "A2DP_OPUS_AUDIO_LOCATION_FR \<equiv> 2"
abbreviation (input) A2DP_OPUS_FRAME_DURATION_10 :: u8 where "A2DP_OPUS_FRAME_DURATION_10 \<equiv> 0x04"
abbreviation (input) A2DP_OPUS_FRAME_DURATION_20 :: u8 where "A2DP_OPUS_FRAME_DURATION_20 \<equiv> 0x08"
abbreviation (input) A2DP_OPUS_FRAME_DURATION_40 :: u8 where "A2DP_OPUS_FRAME_DURATION_40 \<equiv> 0x10"
abbreviation (input) A2DP_OPUS_FRAME_BITRATE_ALL :: u16 where "A2DP_OPUS_FRAME_BITRATE_ALL \<equiv> 0"

record tA2DP_OPUS_CIE =
  opus_vendorId :: u32
  opus_codecId :: u16
  opus_variant :: u8
  opus_channelMode :: u8
  opus_frameSize :: u8
  opus_samplingFreq :: u8
  opus_channels :: u8
  opus_coupled_streams :: u8
  opus_audio_location :: u32
  opus_frame_duration :: u8
  opus_maximum_bitrate :: u16
  opus_bidi_channels :: u8
  opus_bidi_coupled_streams :: u8
  opus_bidi_audio_location :: u32
  opus_bidi_frame_duration :: u8
  opus_bidi_maximum_bitrate :: u16

text \<open>All members zero, as \<open>memset\<close> leaves them.\<close>

definition opus_cie_zero :: tA2DP_OPUS_CIE where
  "opus_cie_zero = \<lparr>opus_vendorId = 0,
     opus_codecId = 0,
     opus_variant = 0,
     opus_channelMode = 0,
     opus_frameSize = 0,
     opus_samplingFreq = 0,
     opus_channels = 0,
     opus_coupled_streams = 0,
     opus_audio_location = 0,
     opus_frame_duration = 0,
     opus_maximum_bitrate = 0,
     opus_bidi_channels = 0,
     opus_bidi_coupled_streams = 0,
     opus_bidi_audio_location = 0,
     opus_bidi_frame_duration = 0,
     opus_bidi_maximum_bitrate = 0\<rparr>"

definition a2dp_opus_android_sink_caps :: tA2DP_OPUS_CIE where
  "a2dp_opus_android_sink_caps = \<lparr>opus_vendorId = A2DP_OPUS_ANDROID_VENDOR_ID,
     opus_codecId = A2DP_OPUS_ANDROID_CODEC_ID,
     opus_variant = A2DP_OPUS_VARIANT_ANDROID,
     opus_channelMode = A2DP_OPUS_CHANNEL_MODE_STEREO,
     opus_frameSize = A2DP_OPUS_20MS_FRAMESIZE,
     opus_samplingFreq = A2DP_OPUS_SAMPLING_FREQ_48000,
     opus_channels = 0,
     opus_coupled_streams = 0,
     opus_audio_location = 0,
     opus_frame_duration = 0,
     opus_maximum_bitrate = 0,
     opus_bidi_channels = 0,
     opus_bidi_coupled_streams = 0,
     opus_bidi_audio_location = 0,
     opus_bidi_frame_duration = 0,
     opus_bidi_maximum_bitrate = 0\<rparr>"

definition a2dp_opus_pipewire_sink_caps :: tA2DP_OPUS_CIE where
  "a2dp_opus_pipewire_sink_caps = \<lparr>opus_vendorId = A2DP_OPUS_PIPEWIRE_VENDOR_ID,
     opus_codecId = A2DP_OPUS_PIPEWIRE_CODEC_ID,
     opus_variant = A2DP_OPUS_VARIANT_PIPEWIRE,
     opus_channelMode = 0,
     opus_frameSize = 0,
     opus_samplingFreq = 0,
     opus_channels = 2,
     opus_coupled_streams = 1,
     opus_audio_location = A2DP_OPUS_AUDIO_LOCATION_FL OR A2DP_OPUS_AUDIO_LOCATION_FR,
     opus_frame_duration = A2DP_OPUS_FRAME_DURATION_10 OR A2DP_OPUS_FRAME_DURATION_20 OR
       A2DP_OPUS_FRAME_DURATION_40,
     opus_maximum_bitrate = A2DP_OPUS_FRAME_BITRATE_ALL,
     opus_bidi_channels = 0,
     opus_bidi_coupled_streams = 0,
     opus_bidi_audio_location = 0,
     opus_bidi_frame_duration = 0,
     opus_bidi_maximum_bitrate = A2DP_OPUS_FRAME_BITRATE_ALL\<rparr>"

definition a2dp_opus_android_default_config :: tA2DP_OPUS_CIE where
  "a2dp_opus_android_default_config = \<lparr>opus_vendorId = A2DP_OPUS_ANDROID_VENDOR_ID,
     opus_codecId = A2DP_OPUS_ANDROID_CODEC_ID,
     opus_variant = A2DP_OPUS_VARIANT_ANDROID,
     opus_channelMode = A2DP_OPUS_CHANNEL_MODE_STEREO,
     opus_frameSize = A2DP_OPUS_20MS_FRAMESIZE,
     opus_samplingFreq = A2DP_OPUS_SAMPLING_FREQ_48000,
     opus_channels = 0,
     opus_coupled_streams = 0,
     opus_audio_location = 0,
     opus_frame_duration = 0,
     opus_maximum_bitrate = 0,
     opus_bidi_channels = 0,
     opus_bidi_coupled_streams = 0,
     opus_bidi_audio_location = 0,
     opus_bidi_frame_duration = 0,
     opus_bidi_maximum_bitrate = 0\<rparr>"

definition a2dp_opus_pipewire_default_config :: tA2DP_OPUS_CIE where
  "a2dp_opus_pipewire_default_config = \<lparr>opus_vendorId = A2DP_OPUS_PIPEWIRE_VENDOR_ID,
     opus_codecId = A2DP_OPUS_PIPEWIRE_CODEC_ID,
     opus_variant = A2DP_OPUS_VARIANT_PIPEWIRE,
     opus_channelMode = 0,
     opus_frameSize = 0,
     opus_samplingFreq = 0,
     opus_channels = 2,
     opus_coupled_streams = 1,
     opus_audio_location = A2DP_OPUS_AUDIO_LOCATION_FL OR A2DP_OPUS_AUDIO_LOCATION_FR,
     opus_frame_duration = A2DP_OPUS_FRAME_DURATION_20,
     opus_maximum_bitrate = A2DP_OPUS_FRAME_BITRATE_ALL,
     opus_bidi_channels = 0,
     opus_bidi_coupled_streams = 0,
     opus_bidi_audio_location = 0,
     opus_bidi_frame_duration = 0,
     opus_bidi_maximum_bitrate = A2DP_OPUS_FRAME_BITRATE_ALL\<rparr>"

definition a2dp_opus_is_android :: "u32 \<Rightarrow> u16 \<Rightarrow> bool" where
  "a2dp_opus_is_android vendor_id codec_id \<longleftrightarrow>
     vendor_id = A2DP_OPUS_ANDROID_VENDOR_ID \<and> codec_id = A2DP_OPUS_ANDROID_CODEC_ID"

definition a2dp_opus_is_pipewire :: "u32 \<Rightarrow> u16 \<Rightarrow> bool" where
  "a2dp_opus_is_pipewire vendor_id codec_id \<longleftrightarrow>
     vendor_id = A2DP_OPUS_PIPEWIRE_VENDOR_ID \<and> codec_id = A2DP_OPUS_PIPEWIRE_CODEC_ID"

definition A2DP_VendorCodecIsOpus :: "u32 \<Rightarrow> u16 \<Rightarrow> bool" where
  "A2DP_VendorCodecIsOpus vendor_id codec_id \<longleftrightarrow>
     a2dp_opus_is_android vendor_id codec_id \<or> a2dp_opus_is_pipewire vendor_id codec_id"

definition A2DP_BuildInfoOpus :: "tA2DP_OPUS_CIE builder" where
  "A2DP_BuildInfoOpus media_type p_ie p_result =
     (case (p_ie, p_result) of
        (Some ie, Some r) \<Rightarrow>
          (let is_android = a2dp_opus_is_android (opus_vendorId ie) (opus_codecId ie);
               is_pipewire = a2dp_opus_is_pipewire (opus_vendorId ie) (opus_codecId ie)
           in if \<not> is_android \<and> \<not> is_pipewire then (A2D_WRONG_CODEC, Some r)
              else
                (let header =
                       [if is_android then A2DP_OPUS_ANDROID_CODEC_LEN else A2DP_OPUS_PIPEWIRE_CODEC_LEN,
                        push_bit 4 media_type, A2D_MEDIA_CT_NON_A2DP]
                       @ put32le (opus_vendorId ie) @ put16le (opus_codecId ie)
                 in if is_android then
                      (A2D_SUCCESS, Some (store r 0 (header @
                         [opus_channelMode ie OR opus_frameSize ie OR opus_samplingFreq ie])))
                    else
                      (A2D_SUCCESS, Some (store r 0 (header @
                         [opus_channels ie, opus_coupled_streams ie] @ put32le (opus_audio_location ie) @
                         [opus_frame_duration ie] @ put16le (opus_maximum_bitrate ie) @
                         [opus_bidi_channels ie, opus_bidi_coupled_streams ie] @
                         put32le (opus_bidi_audio_location ie) @
                         [opus_bidi_frame_duration ie] @ put16le (opus_bidi_maximum_bitrate ie))))))
      | _ \<Rightarrow> (A2D_INVALID_PARAMS, p_result))"

definition A2DP_ParseInfoOpus :: "tA2DP_OPUS_CIE parser" where
  "A2DP_ParseInfoOpus p_ie p_codec_info is_capability =
     (case (p_ie, p_codec_info) of
        (Some ie0, Some b) \<Rightarrow>
          (let ie = opus_cie_zero; losc = b 0
           in if drop_bit 4 (b 1) \<noteq> A2D_MEDIA_TYPE_AUDIO \<or> b 2 \<noteq> A2D_MEDIA_CT_NON_A2DP
              then (A2D_WRONG_CODEC, Some ie)
              else
                (let ie1 = ie\<lparr>opus_vendorId := rd32le b 3, opus_codecId := rd16le b 7\<rparr>
                 in if a2dp_opus_is_android (opus_vendorId ie1) (opus_codecId ie1) then
                      (if losc \<noteq> A2DP_OPUS_ANDROID_CODEC_LEN then (A2D_WRONG_CODEC, Some ie1)
                       else
                         (let ie2 = ie1\<lparr>opus_variant := A2DP_OPUS_VARIANT_ANDROID,
                                opus_channelMode := b 9 AND A2DP_OPUS_CHANNEL_MODE_MASK,
                                opus_frameSize := b 9 AND A2DP_OPUS_FRAMESIZE_MASK,
                                opus_samplingFreq := b 9 AND A2DP_OPUS_SAMPLING_FREQ_MASK\<rparr>
                          in if is_capability then
                               (if A2D_BitsSet (ucast (opus_channelMode ie2)) = A2D_SET_ZERO_BIT
                                then (A2D_BAD_CH_MODE, Some ie2)
                                else if A2D_BitsSet (ucast (opus_frameSize ie2)) = A2D_SET_ZERO_BIT
                                then (A2D_FAIL, Some ie2)
                                else if A2D_BitsSet (ucast (opus_samplingFreq ie2)) = A2D_SET_ZERO_BIT
                                then (A2D_BAD_SAMP_FREQ, Some ie2)
                                else (A2D_SUCCESS, Some ie2))
                             else if A2D_BitsSet (ucast (opus_channelMode ie2)) \<noteq> A2D_SET_ONE_BIT
                             then (A2D_BAD_CH_MODE, Some ie2)
                             else if A2D_BitsSet (ucast (opus_frameSize ie2)) \<noteq> A2D_SET_ONE_BIT
                             then (A2D_FAIL, Some ie2)
                             else if A2D_BitsSet (ucast (opus_samplingFreq ie2)) \<noteq> A2D_SET_ONE_BIT
                             then (A2D_BAD_SAMP_FREQ, Some ie2)
                             else (A2D_SUCCESS, Some ie2)))
                    else if \<not> a2dp_opus_is_pipewire (opus_vendorId ie1) (opus_codecId ie1) \<or>
                            losc \<noteq> A2DP_OPUS_PIPEWIRE_CODEC_LEN
                    then (A2D_WRONG_CODEC, Some ie1)
                    else
                      (let ie2 = ie1\<lparr>opus_variant := A2DP_OPUS_VARIANT_PIPEWIRE,
                             opus_channels := b 9, opus_coupled_streams := b 10,
                             opus_audio_location := rd32le b 11, opus_frame_duration := b 15,
                             opus_maximum_bitrate := rd16le b 16, opus_bidi_channels := b 18,
                             opus_bidi_coupled_streams := b 19, opus_bidi_audio_location := rd32le b 20,
                             opus_bidi_frame_duration := b 24, opus_bidi_maximum_bitrate := rd16le b 25\<rparr>
                       in if is_capability then
                            (if A2D_BitsSet (ucast (opus_channels ie2)) = A2D_SET_ZERO_BIT
                             then (A2D_BAD_CH_MODE, Some ie2)
                             else if A2D_BitsSet (ucast (opus_coupled_streams ie2)) = A2D_SET_ZERO_BIT
                             then (A2D_BAD_CH_MODE, Some ie2)
                             else if A2D_BitsSet (ucast (opus_audio_location ie2)) = A2D_SET_ZERO_BIT
                             then (A2D_BAD_CH_MODE, Some ie2)
                             else (A2D_SUCCESS, Some ie2))
                          else (A2D_SUCCESS, Some ie2))))
      | _ \<Rightarrow> (A2D_INVALID_PARAMS, p_ie))"

definition A2DP_IsVendorPeerSourceCodecValidOpus :: "buf \<Rightarrow> u8" where
  "A2DP_IsVendorPeerSourceCodecValidOpus p =
     (let status = fst (A2DP_ParseInfoOpus (Some opus_cie_zero) (Some p) True)
      in if status = A2D_SUCCESS then status
         else fst (A2DP_ParseInfoOpus (Some opus_cie_zero) (Some p) False))"

definition A2DP_IsVendorPeerSinkCodecValidOpus :: "buf \<Rightarrow> bool" where
  "A2DP_IsVendorPeerSinkCodecValidOpus p \<longleftrightarrow>
     fst (A2DP_ParseInfoOpus (Some opus_cie_zero) (Some p) False) = A2D_SUCCESS \<or>
     fst (A2DP_ParseInfoOpus (Some opus_cie_zero) (Some p) True) = A2D_SUCCESS"

text \<open>The second parse runs only if the first fails, and then overwrites its result.\<close>

definition A2DP_VendorSinkCodecIndexOpus :: "buf \<Rightarrow> btav_a2dp_codec_index_t" where
  "A2DP_VendorSinkCodecIndexOpus p =
     (case A2DP_ParseInfoOpus (Some opus_cie_zero) (Some p) True of
        (st, cie1) \<Rightarrow>
          (case (if st \<noteq> A2D_SUCCESS then A2DP_ParseInfoOpus cie1 (Some p) False else (st, cie1)) of
             (st', cie2) \<Rightarrow>
               if st' \<noteq> A2D_SUCCESS then BTAV_A2DP_CODEC_INDEX_MAX
               else if opus_variant (the cie2) = A2DP_OPUS_VARIANT_ANDROID
               then BTAV_A2DP_CODEC_INDEX_SINK_OPUS_ANDROID else BTAV_A2DP_CODEC_INDEX_SINK_OPUS))"

definition A2DP_VendorSourceCodecIndexOpus :: "buf \<Rightarrow> btav_a2dp_codec_index_t" where
  "A2DP_VendorSourceCodecIndexOpus p = BTAV_A2DP_CODEC_INDEX_SOURCE_OPUS"

definition A2DP_VendorCodecNameOpus :: "buf \<Rightarrow> string" where
  "A2DP_VendorCodecNameOpus p =
     (case A2DP_ParseInfoOpus (Some opus_cie_zero) (Some p) True of
        (st, cie1) \<Rightarrow>
          (case (if st \<noteq> A2D_SUCCESS then A2DP_ParseInfoOpus cie1 (Some p) False else (st, cie1)) of
             (st', cie2) \<Rightarrow>
               if st' \<noteq> A2D_SUCCESS then ''Opus''
               else if opus_variant (the cie2) = A2DP_OPUS_VARIANT_ANDROID then ''Opus''
               else ''Opus 05''))"

definition A2DP_VendorCodecTypeEqualsOpus :: "buf \<Rightarrow> buf \<Rightarrow> bool" where
  "A2DP_VendorCodecTypeEqualsOpus a b =
     (case A2DP_ParseInfoOpus (Some opus_cie_zero) (Some a) True of
        (sta, cie_a) \<Rightarrow>
          if sta \<noteq> A2D_SUCCESS then False
          else (case A2DP_ParseInfoOpus (Some opus_cie_zero) (Some b) True of
                  (stb, cie_b) \<Rightarrow>
                    if stb \<noteq> A2D_SUCCESS then False
                    else opus_vendorId (the cie_a) = opus_vendorId (the cie_b) \<and>
                         opus_codecId (the cie_a) = opus_codecId (the cie_b)))"

definition A2DP_VendorInitCodecConfigOpus ::
  "btav_a2dp_codec_index_t \<Rightarrow> buf \<Rightarrow> bool \<times> buf" where
  "A2DP_VendorInitCodecConfigOpus codec_index p =
     (case codec_index of
        BTAV_A2DP_CODEC_INDEX_SINK_OPUS \<Rightarrow>
          (case A2DP_BuildInfoOpus A2D_MEDIA_TYPE_AUDIO (Some a2dp_opus_pipewire_sink_caps) (Some p) of
             (sts, p') \<Rightarrow> (sts = A2D_SUCCESS, the p'))
      | BTAV_A2DP_CODEC_INDEX_SINK_OPUS_ANDROID \<Rightarrow>
          (case A2DP_BuildInfoOpus A2D_MEDIA_TYPE_AUDIO (Some a2dp_opus_android_sink_caps) (Some p) of
             (sts, p') \<Rightarrow> (sts = A2D_SUCCESS, the p'))
      | _ \<Rightarrow> (False, p))"

definition A2DP_VendorInitCodecConfigOpusSink :: "buf \<Rightarrow> bool \<times> buf" where
  "A2DP_VendorInitCodecConfigOpusSink p =
     (case A2DP_BuildInfoOpus A2D_MEDIA_TYPE_AUDIO (Some a2dp_opus_pipewire_sink_caps) (Some p) of
        (sts, p') \<Rightarrow> (sts = A2D_SUCCESS, the p'))"

text \<open>
  The configuration for a parsed capability, \<open>None\<close> where the code gives up. The comparison of
  the channels with twice the coupled streams is one of \<open>int\<close>s: it does not wrap.
\<close>

definition opus_pref_cap :: "tA2DP_OPUS_CIE \<Rightarrow> tA2DP_OPUS_CIE option" where
  "opus_pref_cap src_cap =
     (if opus_variant src_cap = A2DP_OPUS_VARIANT_ANDROID then
        (let dft = a2dp_opus_android_default_config;
             pref_cap = dft\<lparr>opus_channelMode := opus_channelMode dft AND opus_channelMode src_cap,
               opus_frameSize := opus_frameSize dft AND opus_frameSize src_cap,
               opus_samplingFreq := opus_samplingFreq dft AND opus_samplingFreq src_cap\<rparr>
         in if A2D_BitsSet (ucast (opus_channelMode pref_cap)) = A2D_SET_ZERO_BIT \<or>
               A2D_BitsSet (ucast (opus_frameSize pref_cap)) = A2D_SET_ZERO_BIT \<or>
               A2D_BitsSet (ucast (opus_samplingFreq pref_cap)) = A2D_SET_ZERO_BIT
            then None else Some pref_cap)
      else
        (let dft = a2dp_opus_pipewire_default_config
         in if unat (opus_channels src_cap) < 2 * unat (opus_coupled_streams src_cap) then None
            else
              (let pref_cap = dft\<lparr>opus_channels := min (opus_channels src_cap) (opus_channels dft),
                     opus_coupled_streams :=
                       min (opus_coupled_streams src_cap) (opus_coupled_streams dft),
                     opus_audio_location := opus_audio_location src_cap AND
                       (A2DP_OPUS_AUDIO_LOCATION_FL OR A2DP_OPUS_AUDIO_LOCATION_FR),
                     opus_frame_duration := opus_frame_duration src_cap AND opus_frame_duration dft\<rparr>
               in if A2D_BitsSet (ucast (opus_audio_location pref_cap)) = A2D_SET_ZERO_BIT \<or>
                     A2D_BitsSet (ucast (opus_frame_duration pref_cap)) = A2D_SET_ZERO_BIT
                  then None
                  else Some (if opus_maximum_bitrate src_cap > 0
                             then pref_cap\<lparr>opus_maximum_bitrate := opus_maximum_bitrate src_cap\<rparr>
                             else pref_cap))))"

definition A2DP_VendorBuildCodecConfigOpus :: "buf \<Rightarrow> buf \<Rightarrow> bool \<times> buf" where
  "A2DP_VendorBuildCodecConfigOpus p_src_cap p_result =
     (case A2DP_ParseInfoOpus (Some opus_cie_zero) (Some p_src_cap) True of
        (status, src) \<Rightarrow>
          if status \<noteq> A2D_SUCCESS then (False, p_result)
          else (case opus_pref_cap (the src) of
                  None \<Rightarrow> (False, p_result)
                | Some pref_cap \<Rightarrow>
                    (case A2DP_BuildInfoOpus A2D_MEDIA_TYPE_AUDIO (Some pref_cap) (Some p_result) of
                       (sts, r) \<Rightarrow> (sts = A2D_SUCCESS, the r))))"

definition A2DP_GetVendorDecoderInterfaceOpus :: "buf \<Rightarrow> tA2DP_DECODER_INTERFACE option" where
  "A2DP_GetVendorDecoderInterfaceOpus p =
     (if \<not> A2DP_IsVendorPeerSinkCodecValidOpus p then None else Some a2dp_decoder_interface_opus)"

subsection \<open>The contract\<close>

text \<open>The two kinds of well-formed element: each has the members of the other one zero.\<close>

definition opus_wf_android :: "tA2DP_OPUS_CIE \<Rightarrow> bool" where
  "opus_wf_android ie \<longleftrightarrow>
     opus_channelMode ie AND A2DP_OPUS_CHANNEL_MODE_MASK = opus_channelMode ie \<and> opus_channelMode ie \<noteq> 0 \<and>
     opus_frameSize ie AND A2DP_OPUS_FRAMESIZE_MASK = opus_frameSize ie \<and> opus_frameSize ie \<noteq> 0 \<and>
     opus_samplingFreq ie AND A2DP_OPUS_SAMPLING_FREQ_MASK = opus_samplingFreq ie \<and> opus_samplingFreq ie \<noteq> 0 \<and>
     ie = opus_cie_zero\<lparr>opus_vendorId := A2DP_OPUS_ANDROID_VENDOR_ID,
       opus_codecId := A2DP_OPUS_ANDROID_CODEC_ID, opus_variant := A2DP_OPUS_VARIANT_ANDROID,
       opus_channelMode := opus_channelMode ie, opus_frameSize := opus_frameSize ie,
       opus_samplingFreq := opus_samplingFreq ie\<rparr>"

definition opus_wf_pipewire :: "tA2DP_OPUS_CIE \<Rightarrow> bool" where
  "opus_wf_pipewire ie \<longleftrightarrow> opus_channels ie \<noteq> 0 \<and> opus_coupled_streams ie \<noteq> 0 \<and>
     opus_audio_location ie \<noteq> 0 \<and>
     opus_vendorId ie = A2DP_OPUS_PIPEWIRE_VENDOR_ID \<and> opus_codecId ie = A2DP_OPUS_PIPEWIRE_CODEC_ID \<and>
     opus_variant ie = A2DP_OPUS_VARIANT_PIPEWIRE \<and> opus_channelMode ie = 0 \<and>
     opus_frameSize ie = 0 \<and> opus_samplingFreq ie = 0"

definition opus_wf :: "tA2DP_OPUS_CIE \<Rightarrow> bool" where
  "opus_wf ie \<longleftrightarrow> opus_wf_android ie \<or> opus_wf_pipewire ie"

definition opus_norm :: "tA2DP_OPUS_CIE \<Rightarrow> tA2DP_OPUS_CIE \<Rightarrow> tA2DP_OPUS_CIE" where
  "opus_norm ie0 ie = ie"

definition opus_rd_android :: "buf \<Rightarrow> tA2DP_OPUS_CIE" where
  "opus_rd_android b = opus_cie_zero\<lparr>opus_vendorId := A2DP_OPUS_ANDROID_VENDOR_ID,
     opus_codecId := A2DP_OPUS_ANDROID_CODEC_ID, opus_variant := A2DP_OPUS_VARIANT_ANDROID,
     opus_channelMode := b 9 AND A2DP_OPUS_CHANNEL_MODE_MASK,
     opus_frameSize := b 9 AND A2DP_OPUS_FRAMESIZE_MASK,
     opus_samplingFreq := b 9 AND A2DP_OPUS_SAMPLING_FREQ_MASK\<rparr>"

definition opus_rd_pipewire :: "buf \<Rightarrow> tA2DP_OPUS_CIE" where
  "opus_rd_pipewire b = \<lparr>opus_vendorId = A2DP_OPUS_PIPEWIRE_VENDOR_ID,
     opus_codecId = A2DP_OPUS_PIPEWIRE_CODEC_ID, opus_variant = A2DP_OPUS_VARIANT_PIPEWIRE,
     opus_channelMode = 0, opus_frameSize = 0, opus_samplingFreq = 0,
     opus_channels = b 9, opus_coupled_streams = b 10,
     opus_audio_location = rd32le b 11, opus_frame_duration = b 15,
     opus_maximum_bitrate = rd16le b 16, opus_bidi_channels = b 18,
     opus_bidi_coupled_streams = b 19, opus_bidi_audio_location = rd32le b 20,
     opus_bidi_frame_duration = b 24, opus_bidi_maximum_bitrate = rd16le b 25\<rparr>"

lemma A2DP_ParseInfoOpus_eq:
  "A2DP_ParseInfoOpus (Some ie0) (Some b) cap = (A2D_SUCCESS, Some ie) \<longleftrightarrow>
     drop_bit 4 (b 1) = A2D_MEDIA_TYPE_AUDIO \<and> b 2 = A2D_MEDIA_CT_NON_A2DP \<and>
     (rd32le b 3 = A2DP_OPUS_ANDROID_VENDOR_ID \<and> rd16le b 7 = A2DP_OPUS_ANDROID_CODEC_ID \<and>
      b 0 = A2DP_OPUS_ANDROID_CODEC_LEN \<and> ie = opus_rd_android b \<and>
      (if cap then opus_channelMode ie \<noteq> 0 \<and> opus_frameSize ie \<noteq> 0 \<and> opus_samplingFreq ie \<noteq> 0
       else one_bit (opus_channelMode ie) \<and> one_bit (opus_frameSize ie) \<and> one_bit (opus_samplingFreq ie)) \<or>
      rd32le b 3 = A2DP_OPUS_PIPEWIRE_VENDOR_ID \<and> rd16le b 7 = A2DP_OPUS_PIPEWIRE_CODEC_ID \<and>
      b 0 = A2DP_OPUS_PIPEWIRE_CODEC_LEN \<and> ie = opus_rd_pipewire b \<and>
      (cap \<longrightarrow> b 9 \<noteq> 0 \<and> b 10 \<noteq> 0 \<and> rd32le b 11 \<noteq> 0))"
proof (cases cap)
  case True
  then show ?thesis
    by (auto simp: A2DP_ParseInfoOpus_def Let_def a2dp_opus_is_android_def a2dp_opus_is_pipewire_def
        opus_rd_android_def opus_rd_pipewire_def opus_cie_zero_def)
next
  case False
  then show ?thesis
    by (auto simp: A2DP_ParseInfoOpus_def Let_def a2dp_opus_is_android_def a2dp_opus_is_pipewire_def
        opus_rd_android_def opus_rd_pipewire_def opus_cie_zero_def A2D_BitsSet_u8_one)
qed

lemma A2DP_BuildInfoOpus_android:
  assumes "opus_wf_android ie"
  obtains r' where "A2DP_BuildInfoOpus A2D_MEDIA_TYPE_AUDIO (Some ie) (Some r) = (A2D_SUCCESS, Some r')"
    and "r' 0 = A2DP_OPUS_ANDROID_CODEC_LEN" "r' (Suc 0) = 0" "r' 2 = A2D_MEDIA_CT_NON_A2DP"
    and "rd32le r' 3 = A2DP_OPUS_ANDROID_VENDOR_ID" "rd16le r' 7 = A2DP_OPUS_ANDROID_CODEC_ID"
    and "opus_rd_android r' = ie"
proof -
  note wf = assms [unfolded opus_wf_android_def]
  from wf have "ie = opus_cie_zero\<lparr>opus_vendorId := A2DP_OPUS_ANDROID_VENDOR_ID,
       opus_codecId := A2DP_OPUS_ANDROID_CODEC_ID, opus_variant := A2DP_OPUS_VARIANT_ANDROID,
       opus_channelMode := opus_channelMode ie, opus_frameSize := opus_frameSize ie,
       opus_samplingFreq := opus_samplingFreq ie\<rparr>" by blast
  then have ids: "opus_vendorId ie = A2DP_OPUS_ANDROID_VENDOR_ID" "opus_codecId ie = A2DP_OPUS_ANDROID_CODEC_ID"
    by (metis opus_cie_zero_def tA2DP_OPUS_CIE.select_convs(1,2) tA2DP_OPUS_CIE.surjective
        tA2DP_OPUS_CIE.update_convs(1-6))+
  define s where "s = store r 0 ([A2DP_OPUS_ANDROID_CODEC_LEN, 0, A2D_MEDIA_CT_NON_A2DP] @
    put32le A2DP_OPUS_ANDROID_VENDOR_ID @ put16le A2DP_OPUS_ANDROID_CODEC_ID @
    [opus_channelMode ie OR opus_frameSize ie OR opus_samplingFreq ie])"
  have b: "A2DP_BuildInfoOpus A2D_MEDIA_TYPE_AUDIO (Some ie) (Some r) = (A2D_SUCCESS, Some s)"
    by (simp add: A2DP_BuildInfoOpus_def Let_def ids a2dp_opus_is_android_def s_def)
  have s9: "s 9 = opus_channelMode ie OR opus_frameSize ie OR opus_samplingFreq ie"
    using store_header(6) [OF s_def, of 0] by simp
  have "s 9 AND 0x07 = opus_channelMode ie" "s 9 AND 0x18 = opus_frameSize ie" "s 9 AND 0x80 = opus_samplingFreq ie"
    unfolding s9
    using wf or_and_mask3(1) [where x = "opus_channelMode ie" and m = "0x07"
        and y = "opus_frameSize ie" and m' = "0x18" and z = "opus_samplingFreq ie" and m'' = "0x80"]
      or_and_mask3(2) [where y = "opus_channelMode ie" and m' = "0x07"
        and x = "opus_frameSize ie" and m = "0x18" and z = "opus_samplingFreq ie" and m'' = "0x80"]
      or_and_mask3(3) [where y = "opus_channelMode ie" and m' = "0x07"
        and z = "opus_frameSize ie" and m'' = "0x18" and x = "opus_samplingFreq ie" and m = "0x80"]
    by simp_all
  then have "opus_rd_android s = ie"
    unfolding opus_rd_android_def using wf by simp
  then show thesis
    by (intro that [OF b]) (simp_all add: store_header(1-5) [OF s_def])
qed

lemma A2DP_BuildInfoOpus_pipewire:
  assumes "opus_wf_pipewire ie"
  obtains r' where "A2DP_BuildInfoOpus A2D_MEDIA_TYPE_AUDIO (Some ie) (Some r) = (A2D_SUCCESS, Some r')"
    and "r' 0 = A2DP_OPUS_PIPEWIRE_CODEC_LEN" "r' (Suc 0) = 0" "r' 2 = A2D_MEDIA_CT_NON_A2DP"
    and "rd32le r' 3 = A2DP_OPUS_PIPEWIRE_VENDOR_ID" "rd16le r' 7 = A2DP_OPUS_PIPEWIRE_CODEC_ID"
    and "opus_rd_pipewire r' = ie"
proof -
  note wf = assms [unfolded opus_wf_pipewire_def]
  define xs where "xs = [opus_channels ie, opus_coupled_streams ie] @ put32le (opus_audio_location ie) @
    [opus_frame_duration ie] @ put16le (opus_maximum_bitrate ie) @
    [opus_bidi_channels ie, opus_bidi_coupled_streams ie] @ put32le (opus_bidi_audio_location ie) @
    [opus_bidi_frame_duration ie] @ put16le (opus_bidi_maximum_bitrate ie)"
  define s where "s = store r 0 ([A2DP_OPUS_PIPEWIRE_CODEC_LEN, 0, A2D_MEDIA_CT_NON_A2DP] @
    put32le (opus_vendorId ie) @ put16le (opus_codecId ie) @ xs)"
  have b: "A2DP_BuildInfoOpus A2D_MEDIA_TYPE_AUDIO (Some ie) (Some r) = (A2D_SUCCESS, Some s)"
    using wf by (simp add: A2DP_BuildInfoOpus_def Let_def a2dp_opus_is_android_def
        a2dp_opus_is_pipewire_def s_def xs_def)
  have at: "s (9 + k) = xs ! k" if "k < 18" for k
    using that by (intro store_header(6) [OF s_def]) (simp add: xs_def)
  have "rd32le s 11 = opus_audio_location ie"
    using at [of 2] at [of 3] at [of 4] at [of 5]
    by (intro rd32le_put32le) (simp_all add: xs_def nth_append put32le_def put16le_def)
  moreover have "rd16le s 16 = opus_maximum_bitrate ie"
    using at [of 7] at [of 8]
    by (intro rd16le_put16le) (simp_all add: xs_def nth_append put32le_def put16le_def)
  moreover have "rd32le s 20 = opus_bidi_audio_location ie"
    using at [of 11] at [of 12] at [of 13] at [of 14]
    by (intro rd32le_put32le) (simp_all add: xs_def nth_append put32le_def put16le_def)
  moreover have "rd16le s 25 = opus_bidi_maximum_bitrate ie"
    using at [of 16] at [of 17]
    by (intro rd16le_put16le) (simp_all add: xs_def nth_append put32le_def put16le_def)
  moreover have "s 9 = opus_channels ie" "s 10 = opus_coupled_streams ie" "s 15 = opus_frame_duration ie"
    "s 18 = opus_bidi_channels ie" "s 19 = opus_bidi_coupled_streams ie" "s 24 = opus_bidi_frame_duration ie"
    using at [of 0] at [of 1] at [of 6] at [of 9] at [of 10] at [of 15]
    by (simp_all add: xs_def nth_append put32le_def put16le_def)
  ultimately have "opus_rd_pipewire s = ie"
    using wf by (simp add: opus_rd_pipewire_def)
  then show thesis
    using wf by (intro that [OF b]) (simp_all add: store_header(1-5) [OF s_def])
qed

text \<open>A successful parse fixes the codec type and the ids.\<close>

lemma opus_parse_ids:
  "fst (A2DP_ParseInfoOpus (Some ie) (Some p) cap) = A2D_SUCCESS \<Longrightarrow>
     p 2 = A2D_MEDIA_CT_NON_A2DP \<and> A2DP_VendorCodecIsOpus (rd32le p 3) (rd16le p 7)"
  by (simp add: A2DP_ParseInfoOpus_def A2DP_VendorCodecIsOpus_def Let_def split: if_split_asm)

interpretation opus: codec_info A2DP_ParseInfoOpus A2DP_BuildInfoOpus 27 opus_wf opus_norm
proof
  show "(27::nat) \<le> AVDT_CODEC_SIZE" by simp
next
  fix b b' :: buf and p cap
  assume "buf_agree 27 b b'"
  then show "A2DP_ParseInfoOpus p (Some b) cap = A2DP_ParseInfoOpus p (Some b') cap"
    by (simp add: A2DP_ParseInfoOpus_def Let_def agree_simps [of 27] split: option.split)
next
  fix ie ie' :: tA2DP_OPUS_CIE and b cap
  show "fst (A2DP_ParseInfoOpus (Some ie) (Some b) cap) = fst (A2DP_ParseInfoOpus (Some ie') (Some b) cap)"
    by (simp add: A2DP_ParseInfoOpus_def Let_def)
next
  fix ie0 ie :: tA2DP_OPUS_CIE and b
  assume "A2DP_ParseInfoOpus (Some ie0) (Some b) True = (A2D_SUCCESS, Some ie)"
  then show "opus_wf ie"
    by (auto simp: A2DP_ParseInfoOpus_eq opus_wf_def opus_wf_android_def opus_wf_pipewire_def
        opus_rd_android_def opus_rd_pipewire_def opus_cie_zero_def)
next
  fix mt r and k :: nat and p :: "tA2DP_OPUS_CIE option"
  assume "27 \<le> k"
  then show "\<exists>r'. snd (A2DP_BuildInfoOpus mt p (Some r)) = Some r' \<and> r' k = r k"
    by (auto simp: A2DP_BuildInfoOpus_def Let_def store_apply split: option.split)
next
  fix ie0 :: tA2DP_OPUS_CIE and b cap
  show "snd (A2DP_ParseInfoOpus (Some ie0) (Some b) cap) \<noteq> None"
    by (simp add: A2DP_ParseInfoOpus_def Let_def)
next
  fix ie ie0 :: tA2DP_OPUS_CIE and r
  assume "opus_wf ie"
  then consider (android) "opus_wf_android ie" | (pipewire) "opus_wf_pipewire ie"
    by (auto simp: opus_wf_def)
  then show "\<exists>r'. A2DP_BuildInfoOpus A2D_MEDIA_TYPE_AUDIO (Some ie) (Some r) = (A2D_SUCCESS, Some r') \<and>
      A2DP_ParseInfoOpus (Some ie0) (Some r') True = (A2D_SUCCESS, Some (opus_norm ie0 ie))"
  proof cases
    case android
    then show ?thesis
      by (rule A2DP_BuildInfoOpus_android [of ie r])
        (use android in \<open>simp add: A2DP_ParseInfoOpus_eq opus_norm_def opus_wf_android_def\<close>)
  next
    case pipewire
    then obtain r' where b: "A2DP_BuildInfoOpus A2D_MEDIA_TYPE_AUDIO (Some ie) (Some r) = (A2D_SUCCESS, Some r')"
      and h: "r' 0 = A2DP_OPUS_PIPEWIRE_CODEC_LEN" "r' (Suc 0) = 0" "r' 2 = A2D_MEDIA_CT_NON_A2DP"
        "rd32le r' 3 = A2DP_OPUS_PIPEWIRE_VENDOR_ID" "rd16le r' 7 = A2DP_OPUS_PIPEWIRE_CODEC_ID"
      and rd: "opus_rd_pipewire r' = ie"
      by (rule A2DP_BuildInfoOpus_pipewire [of ie r])
    have "r' 9 = opus_channels ie" "r' 10 = opus_coupled_streams ie" "rd32le r' 11 = opus_audio_location ie"
      unfolding rd [symmetric] by (simp_all add: opus_rd_pipewire_def)
    with pipewire h have "A2DP_ParseInfoOpus (Some ie0) (Some r') True = (A2D_SUCCESS, Some ie)"
      by (simp add: A2DP_ParseInfoOpus_eq rd opus_wf_pipewire_def)
    with b show ?thesis by (auto simp: opus_norm_def)
  qed
qed

subsection \<open>The choice of a configuration\<close>

definition opus_within :: "tA2DP_OPUS_CIE \<Rightarrow> tA2DP_OPUS_CIE \<Rightarrow> bool" where
  "opus_within c s \<longleftrightarrow> opus_vendorId c = opus_vendorId s \<and> opus_codecId c = opus_codecId s \<and>
     opus_variant c = opus_variant s \<and>
     (if opus_variant s = A2DP_OPUS_VARIANT_ANDROID then
        opus_channelMode c = A2DP_OPUS_CHANNEL_MODE_STEREO \<and> opus_channelMode s AND A2DP_OPUS_CHANNEL_MODE_STEREO \<noteq> 0 \<and>
        opus_frameSize c = A2DP_OPUS_20MS_FRAMESIZE \<and> opus_frameSize s AND A2DP_OPUS_20MS_FRAMESIZE \<noteq> 0 \<and>
        opus_samplingFreq c = A2DP_OPUS_SAMPLING_FREQ_48000 \<and> opus_samplingFreq s = A2DP_OPUS_SAMPLING_FREQ_48000
      else
        opus_channels c = 2 \<and> opus_coupled_streams c = 1 \<and>
        2 \<le> opus_channels s \<and> 1 \<le> opus_coupled_streams s \<and>
        opus_audio_location c \<noteq> 0 \<and> opus_audio_location c = opus_audio_location s AND 3 \<and>
        opus_frame_duration c = A2DP_OPUS_FRAME_DURATION_20 \<and>
        opus_frame_duration s AND A2DP_OPUS_FRAME_DURATION_20 \<noteq> 0 \<and>
        opus_maximum_bitrate c = opus_maximum_bitrate s)"

lemma opus_and_masks:
  fixes x :: u8
  shows "2 AND x \<noteq> 0 \<Longrightarrow> 2 AND x = 2" and "0x10 AND x \<noteq> 0 \<Longrightarrow> 0x10 AND x = 0x10"
    and "0x80 AND x \<noteq> 0 \<Longrightarrow> 0x80 AND x = 0x80" and "x AND 8 \<noteq> 0 \<Longrightarrow> x AND 8 = 8"
  by (auto simp: u8_eq_iff bit_simps)

lemma opus_pref_cap_android:
  assumes "opus_pref_cap s = Some c" and wf: "opus_wf_android s"
  shows "opus_wf_android c" and "opus_within c s"
proof -
  have var: "opus_variant s = 0" "opus_vendorId s = A2DP_OPUS_ANDROID_VENDOR_ID"
    "opus_codecId s = A2DP_OPUS_ANDROID_CODEC_ID"
    using wf by (auto simp: opus_wf_android_def opus_cie_zero_def
        dest: arg_cong [where f = opus_variant] arg_cong [where f = opus_vendorId] arg_cong [where f = opus_codecId])
  let ?c = "a2dp_opus_android_default_config\<lparr>opus_channelMode := 2 AND opus_channelMode s,
    opus_frameSize := 0x10 AND opus_frameSize s, opus_samplingFreq := 0x80 AND opus_samplingFreq s\<rparr>"
  have nz: "2 AND opus_channelMode s \<noteq> 0" "0x10 AND opus_frameSize s \<noteq> 0" "0x80 AND opus_samplingFreq s \<noteq> 0"
    and c: "c = ?c"
    using assms(1) var by (auto simp: opus_pref_cap_def Let_def a2dp_opus_android_default_config_def split: if_splits)
  have eq: "c = a2dp_opus_android_default_config"
    unfolding c opus_and_masks(1) [OF nz(1)] opus_and_masks(2) [OF nz(2)] opus_and_masks(3) [OF nz(3)]
    by (simp add: a2dp_opus_android_default_config_def)
  show "opus_wf_android c"
    by (simp add: eq a2dp_opus_android_default_config_def opus_wf_android_def opus_cie_zero_def)
  have "opus_samplingFreq s AND 0x80 = opus_samplingFreq s" using wf by (simp add: opus_wf_android_def)
  then have "opus_samplingFreq s = 0x80" using opus_and_masks(3) [OF nz(3)] by (simp add: and.commute)
  then show "opus_within c s"
    using nz var by (simp add: opus_within_def eq a2dp_opus_android_default_config_def and.commute)
qed

lemma opus_pref_cap_pipewire:
  assumes "opus_pref_cap s = Some c" and wf: "opus_wf_pipewire s"
  shows "opus_wf_pipewire c" and "opus_within c s"
proof -
  have var: "opus_variant s = 1" "opus_vendorId s = A2DP_OPUS_PIPEWIRE_VENDOR_ID"
    "opus_codecId s = A2DP_OPUS_PIPEWIRE_CODEC_ID" and cs: "opus_coupled_streams s \<noteq> 0"
    using wf by (simp_all add: opus_wf_pipewire_def)
  have ch: "\<not> unat (opus_channels s) < 2 * unat (opus_coupled_streams s)"
    and loc: "opus_audio_location s AND 3 \<noteq> 0" and dur: "opus_frame_duration s AND 8 \<noteq> 0"
    and c: "c = a2dp_opus_pipewire_default_config\<lparr>opus_channels := min (opus_channels s) 2,
      opus_coupled_streams := min (opus_coupled_streams s) 1,
      opus_audio_location := opus_audio_location s AND 3,
      opus_frame_duration := opus_frame_duration s AND 8,
      opus_maximum_bitrate := opus_maximum_bitrate s\<rparr>"
    using assms(1) var
    by (auto simp: opus_pref_cap_def Let_def a2dp_opus_pipewire_default_config_def word_gt_0 split: if_splits)
  have "0 < unat (opus_coupled_streams s)" using cs by (simp add: unat_gt_0)
  with ch have two: "2 \<le> opus_channels s" "1 \<le> opus_coupled_streams s"
    by (simp_all add: word_le_nat_alt)
  then have c': "opus_channels c = 2" "opus_coupled_streams c = 1"
    by (simp_all add: c min_def)
  show "opus_wf_pipewire c" using loc c'
    by (simp add: opus_wf_pipewire_def) (simp add: c a2dp_opus_pipewire_default_config_def)
  show "opus_within c s" using loc dur c' two var opus_and_masks(4) [OF dur]
    by (simp add: opus_within_def) (simp add: c a2dp_opus_pipewire_default_config_def)
qed

lemma opus_pref_cap_sound:
  assumes "opus_pref_cap s = Some c" and "opus_wf s"
  shows "opus_wf c" and "opus_within c s"
  using assms opus_pref_cap_android opus_pref_cap_pipewire by (auto simp: opus_wf_def)

text \<open>An Android element of a configuration has one bit in each field.\<close>

lemma opus_within_config:
  assumes "A2DP_ParseInfoOpus (Some ie0) (Some b) True = (A2D_SUCCESS, Some c)" and "opus_within c s"
  shows "A2DP_ParseInfoOpus (Some ie0) (Some b) False = (A2D_SUCCESS, Some c)"
  using assms by (auto simp: A2DP_ParseInfoOpus_eq opus_within_def one_bit_def opus_rd_android_def
      opus_cie_zero_def split: if_splits)

interpretation opus: negotiated_codec A2DP_ParseInfoOpus A2DP_BuildInfoOpus 27 opus_wf opus_norm
  opus_cie_zero A2DP_VendorBuildCodecConfigOpus opus_within
proof
  fix src r r'
  assume *: "A2DP_VendorBuildCodecConfigOpus src r = (True, r')"
  then have "fst (A2DP_ParseInfoOpus (Some opus_cie_zero) (Some src) True) = A2D_SUCCESS"
    by (auto simp: A2DP_VendorBuildCodecConfigOpus_def split: prod.splits if_splits)
  then obtain s where s: "A2DP_ParseInfoOpus (Some opus_cie_zero) (Some src) True = (A2D_SUCCESS, Some s)"
    and wf: "opus_wf s" by (rule opus.parsed)
  with * obtain c where c: "opus_pref_cap s = Some c"
    and r': "r' = the (snd (A2DP_BuildInfoOpus A2D_MEDIA_TYPE_AUDIO (Some c) (Some r)))"
    by (auto simp: A2DP_VendorBuildCodecConfigOpus_def split: option.splits prod.splits)
  have "A2DP_ParseInfoOpus (Some opus_cie_zero) (Some r') True = (A2D_SUCCESS, Some (opus_norm opus_cie_zero c))"
    by (rule opus.built [OF opus_pref_cap_sound(1) [OF c wf], of r]) (simp add: r')
  then have "A2DP_ParseInfoOpus (Some opus_cie_zero) (Some r') False = (A2D_SUCCESS, Some c)"
    using opus_within_config opus_pref_cap_sound(2) [OF c wf] by (simp add: opus_norm_def)
  then show "\<exists>s c. A2DP_ParseInfoOpus (Some opus_cie_zero) (Some src) True = (A2D_SUCCESS, Some s) \<and>
      A2DP_ParseInfoOpus (Some opus_cie_zero) (Some r') False = (A2D_SUCCESS, Some c) \<and> opus_within c s"
    using s opus_pref_cap_sound(2) [OF c wf] by blast
next
  fix src src' r
  assume "buf_agree 27 src src'"
  then have "A2DP_ParseInfoOpus (Some opus_cie_zero) (Some src) True = A2DP_ParseInfoOpus (Some opus_cie_zero) (Some src') True"
    by (rule opus.parse_local)
  then show "A2DP_VendorBuildCodecConfigOpus src r = A2DP_VendorBuildCodecConfigOpus src' r"
    by (simp add: A2DP_VendorBuildCodecConfigOpus_def)
next
  fix src r and k :: nat
  assume "27 \<le> k"
  then show "snd (A2DP_VendorBuildCodecConfigOpus src r) k = r k"
    by (simp add: A2DP_VendorBuildCodecConfigOpus_def Let_def case_prod_unfold opus.build_beyond
        del: first_set.simps split: option.split)
qed

subsection \<open>Properties\<close>

text \<open>
  Both kinds of Opus element, the one of Android and the one of PipeWire, are built
  and parsed back to the same element: no field is lost, and the two are never confused.
\<close>
theorem opus_build_parse:
  assumes "opus_wf ie"
  shows "\<exists>r'. A2DP_BuildInfoOpus A2D_MEDIA_TYPE_AUDIO (Some ie) (Some r) = (A2D_SUCCESS, Some r') \<and>
    A2DP_ParseInfoOpus (Some ie0) (Some r') True = (A2D_SUCCESS, Some ie)"
  using opus.parse_build [OF assms, of r ie0] by (simp add: opus_norm_def)

theorem opus_build_parse_witness:
  "\<exists>r'. A2DP_BuildInfoOpus A2D_MEDIA_TYPE_AUDIO (Some a2dp_opus_pipewire_sink_caps) (Some (bytes [])) =
      (A2D_SUCCESS, Some r') \<and>
    A2DP_ParseInfoOpus (Some opus_cie_zero) (Some r') True = (A2D_SUCCESS, Some a2dp_opus_pipewire_sink_caps)"
  using opus_build_parse [of a2dp_opus_pipewire_sink_caps "bytes []" opus_cie_zero]
  by (simp add: opus_wf_def opus_wf_pipewire_def a2dp_opus_pipewire_sink_caps_def)

text \<open>
  The Opus configuration chosen for a source parses as a configuration of the same
  kind. For Android it is stereo, 20 ms and 48 kHz, all offered by the source; for PipeWire it
  has two channels in one coupled stream, and locations, frame duration and bit rate that the
  source offers.
\<close>
theorem opus_config_sound:
  assumes "A2DP_VendorBuildCodecConfigOpus src r = (True, r')"
  shows "\<exists>s c. A2DP_ParseInfoOpus (Some opus_cie_zero) (Some src) True = (A2D_SUCCESS, Some s) \<and>
    A2DP_ParseInfoOpus (Some opus_cie_zero) (Some r') False = (A2D_SUCCESS, Some c) \<and>
    opus_within c s"
  using assms by (rule opus.negotiate_sound)

theorem opus_config_sound_witness:
  "\<exists>s c. A2DP_ParseInfoOpus (Some opus_cie_zero)
      (Some (bytes [9, 0, 0xFF, 0xE0, 0, 0, 0, 1, 0, 0x9F])) True = (A2D_SUCCESS, Some s) \<and>
    A2DP_ParseInfoOpus (Some opus_cie_zero)
      (Some (store (bytes []) 0 [9, 0, 0xFF, 0xE0, 0, 0, 0, 1, 0, 0x92])) False = (A2D_SUCCESS, Some c) \<and>
    opus_within c s"
  by (rule opus_config_sound [of _ "bytes []"])
    (simp add: A2DP_VendorBuildCodecConfigOpus_def A2DP_ParseInfoOpus_def Let_def bytes_def
      rd32le_def rd16le_def a2dp_opus_is_android_def opus_cie_zero_def opus_pref_cap_def
      a2dp_opus_android_default_config_def A2DP_BuildInfoOpus_def put32le_def put16le_def)

end
