(* ===== verification/A2DP_Lc3plus.thy ===== *)
theory A2DP_Lc3plus
  imports Codec_Interface
begin

text \<open>
  stack/a2dp/a2dp\_vendor\_lc3plus.c: the LC3plus codec information element. The parser checks
  nothing beyond the ids for a configuration, and loses the low octet of the frequency.
\<close>

abbreviation (input) A2DP_LC3PLUS_CODEC_LEN :: u8 where "A2DP_LC3PLUS_CODEC_LEN \<equiv> 12"
abbreviation (input) A2DP_LC3PLUS_VENDOR_ID :: u32 where "A2DP_LC3PLUS_VENDOR_ID \<equiv> 0x8A9"
abbreviation (input) A2DP_LC3PLUS_CODEC_ID :: u16 where "A2DP_LC3PLUS_CODEC_ID \<equiv> 0x0001"
abbreviation (input) A2DP_LC3PLUS_FRAME_DURATION_10MS :: u8 where "A2DP_LC3PLUS_FRAME_DURATION_10MS \<equiv> 0x40"
abbreviation (input) A2DP_LC3PLUS_FRAME_DURATION_5MS :: u8 where "A2DP_LC3PLUS_FRAME_DURATION_5MS \<equiv> 0x20"
abbreviation (input) A2DP_LC3PLUS_FRAME_DURATION_2_5MS :: u8 where "A2DP_LC3PLUS_FRAME_DURATION_2_5MS \<equiv> 0x10"
abbreviation (input) A2DP_LC3PLUS_CHANNELS_2 :: u8 where "A2DP_LC3PLUS_CHANNELS_2 \<equiv> 0x40"
abbreviation (input) A2DP_LC3PLUS_CHANNELS_1 :: u8 where "A2DP_LC3PLUS_CHANNELS_1 \<equiv> 0x80"
abbreviation (input) A2DP_LC3PLUS_SAMPLING_FREQ_96000 :: u16 where "A2DP_LC3PLUS_SAMPLING_FREQ_96000 \<equiv> 0x80"
abbreviation (input) A2DP_LC3PLUS_SAMPLING_FREQ_48000 :: u16 where "A2DP_LC3PLUS_SAMPLING_FREQ_48000 \<equiv> 0x100"

record tA2DP_LC3PLUS_CIE =
  lc3plus_vendorId :: u32
  lc3plus_codecId :: u16
  lc3plus_frame_duration :: u8
  lc3plus_channels :: u8
  lc3plus_frequency :: u16

definition lc3plus_cie_local :: tA2DP_LC3PLUS_CIE where
  "lc3plus_cie_local = \<lparr>lc3plus_vendorId = 0, lc3plus_codecId = 0, lc3plus_frame_duration = 0,
     lc3plus_channels = 0, lc3plus_frequency = 0\<rparr>"

definition a2dp_lc3plus_source_caps :: tA2DP_LC3PLUS_CIE where
  "a2dp_lc3plus_source_caps = \<lparr>lc3plus_vendorId = A2DP_LC3PLUS_VENDOR_ID,
     lc3plus_codecId = A2DP_LC3PLUS_CODEC_ID,
     lc3plus_frame_duration = A2DP_LC3PLUS_FRAME_DURATION_2_5MS OR
       A2DP_LC3PLUS_FRAME_DURATION_5MS OR A2DP_LC3PLUS_FRAME_DURATION_10MS,
     lc3plus_channels = A2DP_LC3PLUS_CHANNELS_1 OR A2DP_LC3PLUS_CHANNELS_2,
     lc3plus_frequency = A2DP_LC3PLUS_SAMPLING_FREQ_48000 OR A2DP_LC3PLUS_SAMPLING_FREQ_96000\<rparr>"

definition a2dp_lc3plus_sink_caps :: tA2DP_LC3PLUS_CIE where
  "a2dp_lc3plus_sink_caps = \<lparr>lc3plus_vendorId = A2DP_LC3PLUS_VENDOR_ID,
     lc3plus_codecId = A2DP_LC3PLUS_CODEC_ID,
     lc3plus_frame_duration = A2DP_LC3PLUS_FRAME_DURATION_2_5MS OR
       A2DP_LC3PLUS_FRAME_DURATION_5MS OR A2DP_LC3PLUS_FRAME_DURATION_10MS,
     lc3plus_channels = A2DP_LC3PLUS_CHANNELS_1 OR A2DP_LC3PLUS_CHANNELS_2,
     lc3plus_frequency = A2DP_LC3PLUS_SAMPLING_FREQ_48000 OR A2DP_LC3PLUS_SAMPLING_FREQ_96000\<rparr>"

definition a2dp_lc3plus_default_config :: tA2DP_LC3PLUS_CIE where
  "a2dp_lc3plus_default_config = \<lparr>lc3plus_vendorId = A2DP_LC3PLUS_VENDOR_ID,
     lc3plus_codecId = A2DP_LC3PLUS_CODEC_ID,
     lc3plus_frame_duration = A2DP_LC3PLUS_FRAME_DURATION_2_5MS OR
       A2DP_LC3PLUS_FRAME_DURATION_5MS OR A2DP_LC3PLUS_FRAME_DURATION_10MS,
     lc3plus_channels = A2DP_LC3PLUS_CHANNELS_1 OR A2DP_LC3PLUS_CHANNELS_2,
     lc3plus_frequency = A2DP_LC3PLUS_SAMPLING_FREQ_48000 OR A2DP_LC3PLUS_SAMPLING_FREQ_96000\<rparr>"

definition A2DP_BuildInfoLc3Plus :: "tA2DP_LC3PLUS_CIE builder" where
  "A2DP_BuildInfoLc3Plus media_type p_ie p_result =
     (case (p_ie, p_result) of
        (Some ie, Some r) \<Rightarrow>
          (A2D_SUCCESS, Some (store r 0
             ([A2DP_LC3PLUS_CODEC_LEN, push_bit 4 media_type, A2D_MEDIA_CT_NON_A2DP]
              @ put32le (lc3plus_vendorId ie) @ put16le (lc3plus_codecId ie)
              @ [lc3plus_frame_duration ie, lc3plus_channels ie,
                 ucast (drop_bit 8 (lc3plus_frequency ie AND 0xFF00)),
                 ucast (lc3plus_frequency ie AND 0x00FF)])))
      | _ \<Rightarrow> (A2D_INVALID_PARAMS, p_result))"

text \<open>
  The frequency is big-endian. Its low octet is shifted to the right by eight, as an \<open>int\<close>,
  where the high one is shifted to the left.
\<close>

definition A2DP_ParseInfoLc3Plus :: "tA2DP_LC3PLUS_CIE parser" where
  "A2DP_ParseInfoLc3Plus p_ie p_codec_info is_capability =
     (case (p_ie, p_codec_info) of
        (Some ie, Some b) \<Rightarrow>
          if b 0 \<noteq> A2DP_LC3PLUS_CODEC_LEN then (A2D_WRONG_CODEC, Some ie)
          else if drop_bit 4 (b 1) \<noteq> A2D_MEDIA_TYPE_AUDIO \<or> b 2 \<noteq> A2D_MEDIA_CT_NON_A2DP
          then (A2D_WRONG_CODEC, Some ie)
          else
            (let ie1 = ie\<lparr>lc3plus_vendorId := rd32le b 3, lc3plus_codecId := rd16le b 7\<rparr>
             in if lc3plus_vendorId ie1 \<noteq> A2DP_LC3PLUS_VENDOR_ID \<or>
                   lc3plus_codecId ie1 \<noteq> A2DP_LC3PLUS_CODEC_ID
                then (A2D_WRONG_CODEC, Some ie1)
                else
                  (let ie2 = ie1\<lparr>lc3plus_frame_duration := b 9, lc3plus_channels := b 10,
                         lc3plus_frequency :=
                           ucast ((drop_bit 8 (ucast (b 12) :: u32) AND 0x00FF) OR
                                  (push_bit 8 (ucast (b 11)) AND 0xFF00))\<rparr>
                   in if is_capability then
                        (if A2D_BitsSet (ucast (lc3plus_frame_duration ie2)) = A2D_SET_ZERO_BIT
                         then (A2D_FAIL, Some ie2)
                         else if A2D_BitsSet (ucast (lc3plus_channels ie2)) = A2D_SET_ZERO_BIT
                         then (A2D_NS_CH_MODE, Some ie2)
                         else if A2D_BitsSet (ucast (lc3plus_frequency ie2)) = A2D_SET_ZERO_BIT
                         then (A2D_NS_SAMP_FREQ, Some ie2)
                         else (A2D_SUCCESS, Some ie2))
                      else (A2D_SUCCESS, Some ie2)))
      | _ \<Rightarrow> (A2D_INVALID_PARAMS, p_ie))"

definition A2DP_IsVendorPeerSourceCodecValidLc3Plus :: "buf \<Rightarrow> u8" where
  "A2DP_IsVendorPeerSourceCodecValidLc3Plus p =
     (let status = fst (A2DP_ParseInfoLc3Plus (Some lc3plus_cie_local) (Some p) True)
      in if status = A2D_SUCCESS then status
         else fst (A2DP_ParseInfoLc3Plus (Some lc3plus_cie_local) (Some p) False))"

definition A2DP_IsVendorPeerSinkCodecValidLc3Plus :: "buf \<Rightarrow> bool" where
  "A2DP_IsVendorPeerSinkCodecValidLc3Plus p \<longleftrightarrow>
     fst (A2DP_ParseInfoLc3Plus (Some lc3plus_cie_local) (Some p) False) = A2D_SUCCESS \<or>
     fst (A2DP_ParseInfoLc3Plus (Some lc3plus_cie_local) (Some p) True) = A2D_SUCCESS"

definition A2DP_VendorSinkCodecIndexLc3Plus :: "buf \<Rightarrow> btav_a2dp_codec_index_t" where
  "A2DP_VendorSinkCodecIndexLc3Plus p = BTAV_A2DP_CODEC_INDEX_SINK_LC3PLUS"

definition A2DP_VendorSourceCodecIndexLc3Plus :: "buf \<Rightarrow> btav_a2dp_codec_index_t" where
  "A2DP_VendorSourceCodecIndexLc3Plus p = BTAV_A2DP_CODEC_INDEX_SOURCE_LC3PLUS"

definition A2DP_VendorCodecNameLc3Plus :: "buf \<Rightarrow> string" where
  "A2DP_VendorCodecNameLc3Plus p = ''Lc3Plus''"

definition A2DP_VendorCodecTypeEqualsLc3Plus :: "buf \<Rightarrow> buf \<Rightarrow> bool" where
  "A2DP_VendorCodecTypeEqualsLc3Plus a b =
     (if fst (A2DP_ParseInfoLc3Plus (Some lc3plus_cie_local) (Some a) True) \<noteq> A2D_SUCCESS then False
      else if fst (A2DP_ParseInfoLc3Plus (Some lc3plus_cie_local) (Some b) True) \<noteq> A2D_SUCCESS then False
      else True)"

definition A2DP_VendorInitCodecConfigLc3PlusSink :: "buf \<Rightarrow> bool \<times> buf" where
  "A2DP_VendorInitCodecConfigLc3PlusSink p =
     (case A2DP_BuildInfoLc3Plus A2D_MEDIA_TYPE_AUDIO (Some a2dp_lc3plus_sink_caps) (Some p) of
        (sts, p') \<Rightarrow> (sts = A2D_SUCCESS, the p'))"

definition A2DP_VendorInitCodecConfigLc3Plus ::
  "btav_a2dp_codec_index_t \<Rightarrow> buf \<Rightarrow> bool \<times> buf" where
  "A2DP_VendorInitCodecConfigLc3Plus codec_index p =
     (case codec_index of
        BTAV_A2DP_CODEC_INDEX_SINK_LC3PLUS \<Rightarrow> A2DP_VendorInitCodecConfigLc3PlusSink p
      | _ \<Rightarrow> (False, p))"

definition A2DP_GetVendorDecoderInterfaceLc3Plus :: "buf \<Rightarrow> tA2DP_DECODER_INTERFACE option" where
  "A2DP_GetVendorDecoderInterfaceLc3Plus p =
     (if \<not> A2DP_IsVendorPeerSinkCodecValidLc3Plus p then None else Some a2dp_decoder_interface_lc3plus)"

definition A2DP_VendorBuildCodecConfigLc3Plus :: "buf \<Rightarrow> buf \<Rightarrow> bool \<times> buf" where
  "A2DP_VendorBuildCodecConfigLc3Plus p_src_cap p_result =
     (case A2DP_ParseInfoLc3Plus (Some lc3plus_cie_local) (Some p_src_cap) True of
        (status, src) \<Rightarrow>
          if status \<noteq> 0 then (False, p_result)
          else
            (let src_cap = the src;
                 pref_cap = a2dp_lc3plus_default_config\<lparr>
                   lc3plus_frame_duration := lc3plus_frame_duration src_cap,
                   lc3plus_channels := lc3plus_channels src_cap,
                   lc3plus_frequency := lc3plus_frequency src_cap\<rparr>
             in case A2DP_BuildInfoLc3Plus A2D_MEDIA_TYPE_AUDIO (Some pref_cap) (Some p_result) of
                  (sts, r) \<Rightarrow> (sts = A2D_SUCCESS, the r)))"

subsection \<open>The contract\<close>

text \<open>
  A well-formed element has a frequency of the high octet: the parser never reports one of the
  low octet, so 96 kHz alone is no frequency to it.
\<close>

definition lc3plus_wf :: "tA2DP_LC3PLUS_CIE \<Rightarrow> bool" where
  "lc3plus_wf ie \<longleftrightarrow> lc3plus_vendorId ie = A2DP_LC3PLUS_VENDOR_ID \<and>
     lc3plus_codecId ie = A2DP_LC3PLUS_CODEC_ID \<and> lc3plus_frame_duration ie \<noteq> 0 \<and>
     lc3plus_channels ie \<noteq> 0 \<and> lc3plus_frequency ie AND 0xFF00 \<noteq> 0"

text \<open>Building and parsing loses the low octet of the frequency.\<close>

definition lc3plus_norm :: "tA2DP_LC3PLUS_CIE \<Rightarrow> tA2DP_LC3PLUS_CIE \<Rightarrow> tA2DP_LC3PLUS_CIE" where
  "lc3plus_norm ie0 ie = ie\<lparr>lc3plus_frequency := lc3plus_frequency ie AND 0xFF00\<rparr>"

lemma lc3plus_rd_frequency:
  fixes lo hi :: u8
  shows "(ucast ((drop_bit 8 (ucast lo :: u32) AND 0x00FF) OR (push_bit 8 (ucast hi) AND 0xFF00)) :: u16) =
    push_bit 8 (ucast hi)"
  by (rule u16_eqI) (simp add: upt_rec bit_simps)

lemma lc3plus_hi_octet:
  fixes f :: u16
  shows "push_bit 8 (ucast (ucast (drop_bit 8 (f AND 0xFF00)) :: u8) :: u16) = f AND 0xFF00"
    and "(push_bit 8 (ucast (h :: u8) :: u16)) AND 0xFF00 = push_bit 8 (ucast h)"
    and "push_bit 8 (ucast h :: u16) = 0 \<longleftrightarrow> h = 0"
proof -
  show "push_bit 8 (ucast (ucast (drop_bit 8 (f AND 0xFF00)) :: u8) :: u16) = f AND 0xFF00"
    by (rule u16_eqI) (simp add: upt_rec bit_simps, simp add: numeral_eq_Suc)
  show "(push_bit 8 (ucast (h :: u8) :: u16)) AND 0xFF00 = push_bit 8 (ucast h)"
    by (rule u16_eqI) (simp add: upt_rec bit_simps)
  show "push_bit 8 (ucast h :: u16) = 0 \<longleftrightarrow> h = 0"
  proof
    assume "push_bit 8 (ucast h :: u16) = 0"
    then have "ucast (drop_bit 8 (push_bit 8 (ucast h :: u16))) = (0 :: u8)" by simp
    moreover have "ucast (drop_bit 8 (push_bit 8 (ucast h :: u16))) = h"
      by (auto simp: u8_eq_iff bit_simps)
    ultimately show "h = 0" by simp
  qed simp
qed

lemma A2DP_ParseInfoLc3Plus_eq:
  "A2DP_ParseInfoLc3Plus (Some ie0) (Some b) cap = (A2D_SUCCESS, Some ie) \<longleftrightarrow>
     b 0 = A2DP_LC3PLUS_CODEC_LEN \<and> drop_bit 4 (b 1) = A2D_MEDIA_TYPE_AUDIO \<and>
     b 2 = A2D_MEDIA_CT_NON_A2DP \<and> rd32le b 3 = A2DP_LC3PLUS_VENDOR_ID \<and>
     rd16le b 7 = A2DP_LC3PLUS_CODEC_ID \<and> (cap \<longrightarrow> b 9 \<noteq> 0 \<and> b 10 \<noteq> 0 \<and> b 11 \<noteq> 0) \<and>
     ie = \<lparr>lc3plus_vendorId = A2DP_LC3PLUS_VENDOR_ID, lc3plus_codecId = A2DP_LC3PLUS_CODEC_ID,
       lc3plus_frame_duration = b 9, lc3plus_channels = b 10,
       lc3plus_frequency = push_bit 8 (ucast (b 11))\<rparr>"
  unfolding A2DP_ParseInfoLc3Plus_def lc3plus_rd_frequency
  by (auto simp: Let_def lc3plus_hi_octet(3))

lemma A2DP_BuildInfoLc3Plus_ok:
  obtains r' where "A2DP_BuildInfoLc3Plus A2D_MEDIA_TYPE_AUDIO (Some ie) (Some r) = (A2D_SUCCESS, Some r')"
    and "r' 0 = A2DP_LC3PLUS_CODEC_LEN" "r' (Suc 0) = 0" "r' 2 = A2D_MEDIA_CT_NON_A2DP"
    and "rd32le r' 3 = lc3plus_vendorId ie" "rd16le r' 7 = lc3plus_codecId ie"
    and "r' 9 = lc3plus_frame_duration ie" "r' 10 = lc3plus_channels ie"
    and "push_bit 8 (ucast (r' 11)) = lc3plus_frequency ie AND 0xFF00"
    and "r' 11 = 0 \<longleftrightarrow> lc3plus_frequency ie AND 0xFF00 = 0"
proof -
  define s where "s = store r 0 ([A2DP_LC3PLUS_CODEC_LEN, 0, A2D_MEDIA_CT_NON_A2DP] @
    put32le (lc3plus_vendorId ie) @ put16le (lc3plus_codecId ie) @
    [lc3plus_frame_duration ie, lc3plus_channels ie,
     ucast (drop_bit 8 (lc3plus_frequency ie AND 0xFF00)), ucast (lc3plus_frequency ie AND 0x00FF)])"
  have "A2DP_BuildInfoLc3Plus A2D_MEDIA_TYPE_AUDIO (Some ie) (Some r) = (A2D_SUCCESS, Some s)"
    unfolding A2DP_BuildInfoLc3Plus_def s_def prod.case option.case push_bit_of_0 ..
  moreover have f: "push_bit 8 (ucast (s 11)) = lc3plus_frequency ie AND 0xFF00"
    using store_header(6) [OF s_def, of 2] lc3plus_hi_octet(1) [of "lc3plus_frequency ie"]
    by (simp del: drop_bit_and)
  moreover have "s 11 = 0 \<longleftrightarrow> lc3plus_frequency ie AND 0xFF00 = 0"
    using lc3plus_hi_octet(3) [of "s 11"] by (simp only: f)
  ultimately show thesis
    by (intro that [of s]) (simp_all add: store_header(1-5) [OF s_def]
      store_header(6) [OF s_def, of 0, simplified] store_header(6) [OF s_def, of 1, simplified])
qed

text \<open>A successful parse fixes the codec type and the ids.\<close>

lemma lc3plus_parse_ids:
  "fst (A2DP_ParseInfoLc3Plus (Some ie) (Some p) cap) = A2D_SUCCESS \<Longrightarrow>
     p 2 = A2D_MEDIA_CT_NON_A2DP \<and> rd32le p 3 = A2DP_LC3PLUS_VENDOR_ID \<and> rd16le p 7 = A2DP_LC3PLUS_CODEC_ID"
  by (simp add: A2DP_ParseInfoLc3Plus_def Let_def split: if_split_asm)

interpretation lc3plus: lenient_codec A2DP_ParseInfoLc3Plus A2DP_BuildInfoLc3Plus 13 lc3plus_wf
  lc3plus_norm
proof
  show "(13::nat) \<le> AVDT_CODEC_SIZE" by simp
next
  fix b b' :: buf and p cap
  assume "buf_agree 13 b b'"
  then show "A2DP_ParseInfoLc3Plus p (Some b) cap = A2DP_ParseInfoLc3Plus p (Some b') cap"
    by (simp add: A2DP_ParseInfoLc3Plus_def Let_def agree_simps [of 13] split: option.split)
next
  fix ie ie' :: tA2DP_LC3PLUS_CIE and b cap
  show "fst (A2DP_ParseInfoLc3Plus (Some ie) (Some b) cap) =
      fst (A2DP_ParseInfoLc3Plus (Some ie') (Some b) cap)"
    by (simp add: A2DP_ParseInfoLc3Plus_def Let_def)
next
  fix ie0 ie :: tA2DP_LC3PLUS_CIE and b
  assume "A2DP_ParseInfoLc3Plus (Some ie0) (Some b) True = (A2D_SUCCESS, Some ie)"
  then show "lc3plus_wf ie"
    by (simp add: A2DP_ParseInfoLc3Plus_eq lc3plus_wf_def lc3plus_hi_octet)
next
  fix mt r and k :: nat and p :: "tA2DP_LC3PLUS_CIE option"
  assume "13 \<le> k"
  then show "\<exists>r'. snd (A2DP_BuildInfoLc3Plus mt p (Some r)) = Some r' \<and> r' k = r k"
    by (auto simp: A2DP_BuildInfoLc3Plus_def Let_def store_apply split: option.split)
next
  fix ie0 :: tA2DP_LC3PLUS_CIE and b cap
  show "snd (A2DP_ParseInfoLc3Plus (Some ie0) (Some b) cap) \<noteq> None"
    by (simp add: A2DP_ParseInfoLc3Plus_def Let_def)
next
  fix ie ie0 :: tA2DP_LC3PLUS_CIE and r
  assume wf: "lc3plus_wf ie"
  show "\<exists>r'. A2DP_BuildInfoLc3Plus A2D_MEDIA_TYPE_AUDIO (Some ie) (Some r) = (A2D_SUCCESS, Some r') \<and>
      A2DP_ParseInfoLc3Plus (Some ie0) (Some r') True = (A2D_SUCCESS, Some (lc3plus_norm ie0 ie))"
    by (rule A2DP_BuildInfoLc3Plus_ok [of ie r])
      (use wf in \<open>simp add: A2DP_ParseInfoLc3Plus_eq lc3plus_wf_def lc3plus_norm_def\<close>)
next
  fix ie :: tA2DP_LC3PLUS_CIE and b
  assume "fst (A2DP_ParseInfoLc3Plus (Some ie) (Some b) True) = A2D_SUCCESS"
  then show "fst (A2DP_ParseInfoLc3Plus (Some ie) (Some b) False) = A2D_SUCCESS"
    by (auto simp: A2DP_ParseInfoLc3Plus_def Let_def split: if_splits)
qed

subsection \<open>The choice of a configuration\<close>

text \<open>The configuration takes over all that the source offers.\<close>

definition lc3plus_within :: "tA2DP_LC3PLUS_CIE \<Rightarrow> tA2DP_LC3PLUS_CIE \<Rightarrow> bool" where
  "lc3plus_within c s \<longleftrightarrow> c = s"

interpretation lc3plus: negotiated_codec A2DP_ParseInfoLc3Plus A2DP_BuildInfoLc3Plus 13 lc3plus_wf
  lc3plus_norm lc3plus_cie_local A2DP_VendorBuildCodecConfigLc3Plus lc3plus_within
proof
  fix src r r'
  assume *: "A2DP_VendorBuildCodecConfigLc3Plus src r = (True, r')"
  then have "fst (A2DP_ParseInfoLc3Plus (Some lc3plus_cie_local) (Some src) True) = A2D_SUCCESS"
    by (auto simp: A2DP_VendorBuildCodecConfigLc3Plus_def split: prod.splits if_splits)
  then obtain s where s: "A2DP_ParseInfoLc3Plus (Some lc3plus_cie_local) (Some src) True = (A2D_SUCCESS, Some s)"
    and wf: "lc3plus_wf s" by (rule lc3plus.parsed)
  have "s = a2dp_lc3plus_default_config\<lparr>lc3plus_frame_duration := lc3plus_frame_duration s,
      lc3plus_channels := lc3plus_channels s, lc3plus_frequency := lc3plus_frequency s\<rparr>"
    using wf by (simp add: lc3plus_wf_def a2dp_lc3plus_default_config_def)
  with * s have r': "r' = the (snd (A2DP_BuildInfoLc3Plus A2D_MEDIA_TYPE_AUDIO (Some s) (Some r)))"
    by (auto simp: A2DP_VendorBuildCodecConfigLc3Plus_def Let_def split: prod.splits)
  have "A2DP_ParseInfoLc3Plus (Some lc3plus_cie_local) (Some r') True =
      (A2D_SUCCESS, Some (lc3plus_norm lc3plus_cie_local s))"
    by (rule lc3plus.built [OF wf, of r]) (simp add: r')
  moreover have "lc3plus_norm lc3plus_cie_local s = s"
    using s by (simp add: lc3plus_norm_def A2DP_ParseInfoLc3Plus_eq lc3plus_hi_octet)
  ultimately show "\<exists>s c. A2DP_ParseInfoLc3Plus (Some lc3plus_cie_local) (Some src) True = (A2D_SUCCESS, Some s) \<and>
      A2DP_ParseInfoLc3Plus (Some lc3plus_cie_local) (Some r') False = (A2D_SUCCESS, Some c) \<and>
      lc3plus_within c s"
    using s by (auto simp: lc3plus_within_def A2DP_ParseInfoLc3Plus_eq)
next
  fix src src' r
  assume "buf_agree 13 src src'"
  then have "A2DP_ParseInfoLc3Plus (Some lc3plus_cie_local) (Some src) True = A2DP_ParseInfoLc3Plus (Some lc3plus_cie_local) (Some src') True"
    by (rule lc3plus.parse_local)
  then show "A2DP_VendorBuildCodecConfigLc3Plus src r = A2DP_VendorBuildCodecConfigLc3Plus src' r"
    by (simp add: A2DP_VendorBuildCodecConfigLc3Plus_def)
next
  fix src r and k :: nat
  assume "13 \<le> k"
  then show "snd (A2DP_VendorBuildCodecConfigLc3Plus src r) k = r k"
    by (simp add: A2DP_VendorBuildCodecConfigLc3Plus_def Let_def case_prod_unfold lc3plus.build_beyond
        del: first_set.simps split: option.split)
qed

subsection \<open>Properties\<close>

text \<open>
  Building an LC3plus element and parsing the octets gives all fields back except
  the low octet of the frequency, which is lost: 96 kHz (bit 7) of the own capabilities does
  not survive.
\<close>
theorem lc3plus_build_parse:
  assumes "lc3plus_wf ie"
  shows "\<exists>r'. A2DP_BuildInfoLc3Plus A2D_MEDIA_TYPE_AUDIO (Some ie) (Some r) = (A2D_SUCCESS, Some r') \<and>
    A2DP_ParseInfoLc3Plus (Some ie0) (Some r') True =
      (A2D_SUCCESS, Some (ie\<lparr>lc3plus_frequency := lc3plus_frequency ie AND 0xFF00\<rparr>))"
  using lc3plus.parse_build [OF assms, of r ie0] by (simp add: lc3plus_norm_def)

theorem lc3plus_build_parse_witness:
  "\<exists>r'. A2DP_BuildInfoLc3Plus A2D_MEDIA_TYPE_AUDIO (Some a2dp_lc3plus_sink_caps) (Some (bytes [])) =
      (A2D_SUCCESS, Some r') \<and>
    A2DP_ParseInfoLc3Plus (Some lc3plus_cie_local) (Some r') True =
      (A2D_SUCCESS, Some (a2dp_lc3plus_sink_caps\<lparr>lc3plus_frequency := A2DP_LC3PLUS_SAMPLING_FREQ_48000\<rparr>))"
  using lc3plus_build_parse [of a2dp_lc3plus_sink_caps "bytes []" lc3plus_cie_local]
  by (simp add: lc3plus_wf_def a2dp_lc3plus_sink_caps_def)

text \<open>
  A peer that offers LC3plus at 96 kHz only (the frequency field has just bit 7) is
  refused with "sampling frequency not supported", whatever else it offers, although 96 kHz is
  one of the two frequencies the device advertises.
\<close>
theorem lc3plus_96k_refused:
  "fst (A2DP_ParseInfoLc3Plus (Some ie) (Some (bytes [12, 0, 0xFF, 0xA9, 0x08, 0, 0, 1, 0,
     d, c, ucast (drop_bit 8 A2DP_LC3PLUS_SAMPLING_FREQ_96000), ucast A2DP_LC3PLUS_SAMPLING_FREQ_96000])) True) =
   (if d = 0 then A2D_FAIL else if c = 0 then A2D_NS_CH_MODE else A2D_NS_SAMP_FREQ) \<and>
   lc3plus_frequency a2dp_lc3plus_sink_caps AND A2DP_LC3PLUS_SAMPLING_FREQ_96000 \<noteq> 0"
  by (simp add: A2DP_ParseInfoLc3Plus_def Let_def bytes_def rd32le_def rd16le_def
      a2dp_lc3plus_sink_caps_def)

end
