(* ===== verification/A2DP_Lhdcv5.thy ===== *)
theory A2DP_Lhdcv5
  imports Codec_Interface
begin

text \<open>
  stack/a2dp/a2dp\_vendor\_lhdcv5.c: the LHDC V5 codec information element with its feature
  flags, and the choice of a configuration (192 kHz first, the bit rate range of the source
  echoed).
\<close>

abbreviation (input) A2DP_LHDCV5_VENDOR_ID :: u32 where "A2DP_LHDCV5_VENDOR_ID \<equiv> 0x53A"
abbreviation (input) A2DP_LHDCV5_CODEC_ID :: u16 where "A2DP_LHDCV5_CODEC_ID \<equiv> 0x4C35"
abbreviation (input) A2DP_LHDCV5_CODEC_LEN :: u8 where "A2DP_LHDCV5_CODEC_LEN \<equiv> 13"
abbreviation (input) A2DP_LHDCV5_SAMPLING_FREQ_MASK :: u8 where "A2DP_LHDCV5_SAMPLING_FREQ_MASK \<equiv> 0x35"
abbreviation (input) A2DP_LHDCV5_SAMPLING_FREQ_192000 :: u8 where "A2DP_LHDCV5_SAMPLING_FREQ_192000 \<equiv> 0x01"
abbreviation (input) A2DP_LHDCV5_SAMPLING_FREQ_96000 :: u8 where "A2DP_LHDCV5_SAMPLING_FREQ_96000 \<equiv> 0x04"
abbreviation (input) A2DP_LHDCV5_SAMPLING_FREQ_48000 :: u8 where "A2DP_LHDCV5_SAMPLING_FREQ_48000 \<equiv> 0x10"
abbreviation (input) A2DP_LHDCV5_SAMPLING_FREQ_44100 :: u8 where "A2DP_LHDCV5_SAMPLING_FREQ_44100 \<equiv> 0x20"
abbreviation (input) A2DP_LHDCV5_CHANNEL_MODE_STEREO :: u8 where "A2DP_LHDCV5_CHANNEL_MODE_STEREO \<equiv> 0x02"
abbreviation (input) A2DP_LHDCV5_BIT_FMT_MASK :: u8 where "A2DP_LHDCV5_BIT_FMT_MASK \<equiv> 0x07"
abbreviation (input) A2DP_LHDCV5_BITS_PER_SAMPLE_24 :: u8 where "A2DP_LHDCV5_BITS_PER_SAMPLE_24 \<equiv> 0x02"
abbreviation (input) A2DP_LHDCV5_BITS_PER_SAMPLE_16 :: u8 where "A2DP_LHDCV5_BITS_PER_SAMPLE_16 \<equiv> 0x04"
abbreviation (input) A2DP_LHDCV5_MAX_BIT_RATE_MASK :: u8 where "A2DP_LHDCV5_MAX_BIT_RATE_MASK \<equiv> 0x30"
abbreviation (input) A2DP_LHDCV5_MAX_BIT_RATE_1000K :: u8 where "A2DP_LHDCV5_MAX_BIT_RATE_1000K \<equiv> 0x00"
abbreviation (input) A2DP_LHDCV5_MIN_BIT_RATE_MASK :: u8 where "A2DP_LHDCV5_MIN_BIT_RATE_MASK \<equiv> 0xC0"
abbreviation (input) A2DP_LHDCV5_MIN_BIT_RATE_64K :: u8 where "A2DP_LHDCV5_MIN_BIT_RATE_64K \<equiv> 0x00"
abbreviation (input) A2DP_LHDCV5_VERSION_MASK :: u8 where "A2DP_LHDCV5_VERSION_MASK \<equiv> 0x0F"
abbreviation (input) A2DP_LHDCV5_VER_1 :: u8 where "A2DP_LHDCV5_VER_1 \<equiv> 0x01"
abbreviation (input) A2DP_LHDCV5_FRAME_LEN_MASK :: u8 where "A2DP_LHDCV5_FRAME_LEN_MASK \<equiv> 0x10"
abbreviation (input) A2DP_LHDCV5_FRAME_LEN_5MS :: u8 where "A2DP_LHDCV5_FRAME_LEN_5MS \<equiv> 0x10"
abbreviation (input) A2DP_LHDCV5_FEATURE_MASK :: u8 where "A2DP_LHDCV5_FEATURE_MASK \<equiv> 0xC7"
abbreviation (input) A2DP_LHDCV5_FEATURE_LLESS48K :: u8 where "A2DP_LHDCV5_FEATURE_LLESS48K \<equiv> 0x80"
abbreviation (input) A2DP_LHDCV5_FEATURE_LL :: u8 where "A2DP_LHDCV5_FEATURE_LL \<equiv> 0x40"
abbreviation (input) A2DP_LHDCV5_FEATURE_LLESS24BIT :: u8 where "A2DP_LHDCV5_FEATURE_LLESS24BIT \<equiv> 0x20"
abbreviation (input) A2DP_LHDCV5_FEATURE_LLESS96K :: u8 where "A2DP_LHDCV5_FEATURE_LLESS96K \<equiv> 0x10"
abbreviation (input) A2DP_LHDCV5_FEATURE_META :: u8 where "A2DP_LHDCV5_FEATURE_META \<equiv> 0x04"
abbreviation (input) A2DP_LHDCV5_FEATURE_JAS :: u8 where "A2DP_LHDCV5_FEATURE_JAS \<equiv> 0x02"
abbreviation (input) A2DP_LHDCV5_FEATURE_AR :: u8 where "A2DP_LHDCV5_FEATURE_AR \<equiv> 0x01"
abbreviation (input) A2DP_LHDCV5_FEATURE_LLESS_RAW :: u8 where "A2DP_LHDCV5_FEATURE_LLESS_RAW \<equiv> 0x80"

record tA2DP_LHDCV5_CIE =
  lhdcv5_vendorId :: u32
  lhdcv5_codecId :: u16
  lhdcv5_sampleRate :: u8
  lhdcv5_bitsPerSample :: u8
  lhdcv5_channelMode :: u8
  lhdcv5_version :: u8
  lhdcv5_frameLenType :: u8
  lhdcv5_maxTargetBitrate :: u8
  lhdcv5_minTargetBitrate :: u8
  lhdcv5_hasFeatureAR :: bool
  lhdcv5_hasFeatureJAS :: bool
  lhdcv5_hasFeatureMETA :: bool
  lhdcv5_hasFeatureLL :: bool
  lhdcv5_hasFeatureLLESS48K :: bool
  lhdcv5_hasFeatureLLESS24Bit :: bool
  lhdcv5_hasFeatureLLESS96K :: bool
  lhdcv5_hasFeatureLLESSRaw :: bool

text \<open>All members zero, as \<open>memset\<close> leaves them.\<close>

definition lhdcv5_cie_zero :: tA2DP_LHDCV5_CIE where
  "lhdcv5_cie_zero = \<lparr>lhdcv5_vendorId = 0,
     lhdcv5_codecId = 0,
     lhdcv5_sampleRate = 0,
     lhdcv5_bitsPerSample = 0,
     lhdcv5_channelMode = 0,
     lhdcv5_version = 0,
     lhdcv5_frameLenType = 0,
     lhdcv5_maxTargetBitrate = 0,
     lhdcv5_minTargetBitrate = 0,
     lhdcv5_hasFeatureAR = False,
     lhdcv5_hasFeatureJAS = False,
     lhdcv5_hasFeatureMETA = False,
     lhdcv5_hasFeatureLL = False,
     lhdcv5_hasFeatureLLESS48K = False,
     lhdcv5_hasFeatureLLESS24Bit = False,
     lhdcv5_hasFeatureLLESS96K = False,
     lhdcv5_hasFeatureLLESSRaw = False\<rparr>"

definition a2dp_lhdcv5_sink_caps :: tA2DP_LHDCV5_CIE where
  "a2dp_lhdcv5_sink_caps = \<lparr>lhdcv5_vendorId = A2DP_LHDCV5_VENDOR_ID,
     lhdcv5_codecId = A2DP_LHDCV5_CODEC_ID,
     lhdcv5_sampleRate = A2DP_LHDCV5_SAMPLING_FREQ_192000 OR A2DP_LHDCV5_SAMPLING_FREQ_96000 OR
       A2DP_LHDCV5_SAMPLING_FREQ_48000 OR A2DP_LHDCV5_SAMPLING_FREQ_44100,
     lhdcv5_bitsPerSample = A2DP_LHDCV5_BITS_PER_SAMPLE_24 OR A2DP_LHDCV5_BITS_PER_SAMPLE_16,
     lhdcv5_channelMode = A2DP_LHDCV5_CHANNEL_MODE_STEREO,
     lhdcv5_version = A2DP_LHDCV5_VER_1,
     lhdcv5_frameLenType = A2DP_LHDCV5_FRAME_LEN_5MS,
     lhdcv5_maxTargetBitrate = A2DP_LHDCV5_MAX_BIT_RATE_1000K,
     lhdcv5_minTargetBitrate = A2DP_LHDCV5_MIN_BIT_RATE_64K,
     lhdcv5_hasFeatureAR = False,
     lhdcv5_hasFeatureJAS = False,
     lhdcv5_hasFeatureMETA = False,
     lhdcv5_hasFeatureLL = True,
     lhdcv5_hasFeatureLLESS48K = False,
     lhdcv5_hasFeatureLLESS24Bit = False,
     lhdcv5_hasFeatureLLESS96K = False,
     lhdcv5_hasFeatureLLESSRaw = False\<rparr>"

definition a2dp_lhdcv5_default_config :: tA2DP_LHDCV5_CIE where
  "a2dp_lhdcv5_default_config = \<lparr>lhdcv5_vendorId = A2DP_LHDCV5_VENDOR_ID,
     lhdcv5_codecId = A2DP_LHDCV5_CODEC_ID,
     lhdcv5_sampleRate = A2DP_LHDCV5_SAMPLING_FREQ_192000,
     lhdcv5_bitsPerSample = A2DP_LHDCV5_BITS_PER_SAMPLE_24,
     lhdcv5_channelMode = A2DP_LHDCV5_CHANNEL_MODE_STEREO,
     lhdcv5_version = A2DP_LHDCV5_VER_1,
     lhdcv5_frameLenType = A2DP_LHDCV5_FRAME_LEN_5MS,
     lhdcv5_maxTargetBitrate = A2DP_LHDCV5_MAX_BIT_RATE_1000K,
     lhdcv5_minTargetBitrate = A2DP_LHDCV5_MIN_BIT_RATE_64K,
     lhdcv5_hasFeatureAR = False,
     lhdcv5_hasFeatureJAS = False,
     lhdcv5_hasFeatureMETA = False,
     lhdcv5_hasFeatureLL = True,
     lhdcv5_hasFeatureLLESS48K = False,
     lhdcv5_hasFeatureLLESS24Bit = False,
     lhdcv5_hasFeatureLLESS96K = False,
     lhdcv5_hasFeatureLLESSRaw = False\<rparr>"

definition A2DP_BuildInfoLhdcV5 :: "tA2DP_LHDCV5_CIE builder" where
  "A2DP_BuildInfoLhdcV5 media_type p_ie p_result =
     (case (p_ie, p_result) of
        (Some ie, Some r) \<Rightarrow>
          (A2D_SUCCESS, Some (store r 0
             [A2DP_LHDCV5_CODEC_LEN, push_bit 4 media_type, A2D_MEDIA_CT_NON_A2DP,
              ucast (lhdcv5_vendorId ie AND 0xFF), ucast (drop_bit 8 (lhdcv5_vendorId ie) AND 0xFF),
              ucast (drop_bit 16 (lhdcv5_vendorId ie) AND 0xFF),
              ucast (drop_bit 24 (lhdcv5_vendorId ie) AND 0xFF),
              ucast (lhdcv5_codecId ie AND 0xFF), ucast (drop_bit 8 (lhdcv5_codecId ie) AND 0xFF),
              lhdcv5_sampleRate ie AND A2DP_LHDCV5_SAMPLING_FREQ_MASK,
              (lhdcv5_bitsPerSample ie AND A2DP_LHDCV5_BIT_FMT_MASK) OR
                (lhdcv5_maxTargetBitrate ie AND A2DP_LHDCV5_MAX_BIT_RATE_MASK) OR
                (lhdcv5_minTargetBitrate ie AND A2DP_LHDCV5_MIN_BIT_RATE_MASK),
              (lhdcv5_version ie AND A2DP_LHDCV5_VERSION_MASK) OR
                (lhdcv5_frameLenType ie AND A2DP_LHDCV5_FRAME_LEN_MASK),
              (if lhdcv5_hasFeatureAR ie then A2DP_LHDCV5_FEATURE_AR else 0) OR
                (if lhdcv5_hasFeatureJAS ie then A2DP_LHDCV5_FEATURE_JAS else 0) OR
                (if lhdcv5_hasFeatureMETA ie then A2DP_LHDCV5_FEATURE_META else 0) OR
                (if lhdcv5_hasFeatureLL ie then A2DP_LHDCV5_FEATURE_LL else 0) OR
                (if lhdcv5_hasFeatureLLESS48K ie then A2DP_LHDCV5_FEATURE_LLESS48K else 0) OR
                (if lhdcv5_hasFeatureLLESS24Bit ie then A2DP_LHDCV5_FEATURE_LLESS24BIT else 0) OR
                (if lhdcv5_hasFeatureLLESS96K ie then A2DP_LHDCV5_FEATURE_LLESS96K else 0),
              (if lhdcv5_hasFeatureLLESSRaw ie then A2DP_LHDCV5_FEATURE_LLESS_RAW else 0)]))
      | _ \<Rightarrow> (A2D_INVALID_PARAMS, p_result))"

definition A2DP_ParseInfoLhdcV5 :: "tA2DP_LHDCV5_CIE parser" where
  "A2DP_ParseInfoLhdcV5 p_ie p_codec_info is_capability =
     (case (p_ie, p_codec_info) of
        (Some ie0, Some b) \<Rightarrow>
          (let ie = lhdcv5_cie_zero
           in if b 0 \<noteq> A2DP_LHDCV5_CODEC_LEN then (A2D_WRONG_CODEC, Some ie)
              else if drop_bit 4 (b 1) \<noteq> A2D_MEDIA_TYPE_AUDIO \<or> b 2 \<noteq> A2D_MEDIA_CT_NON_A2DP
              then (A2D_WRONG_CODEC, Some ie)
              else
                (let ie1 = ie\<lparr>
                       lhdcv5_vendorId := ucast (b 3) OR push_bit 8 (ucast (b 4)) OR
                         push_bit 16 (ucast (b 5)) OR push_bit 24 (ucast (b 6)),
                       lhdcv5_codecId := ucast (b 7) OR push_bit 8 (ucast (b 8))\<rparr>
                 in if lhdcv5_vendorId ie1 \<noteq> A2DP_LHDCV5_VENDOR_ID \<or>
                       lhdcv5_codecId ie1 \<noteq> A2DP_LHDCV5_CODEC_ID
                    then (A2D_WRONG_CODEC, Some ie1)
                    else
                      (let bitrate_depth = b 10; version_frame = b 11;
                           features = b 12 AND A2DP_LHDCV5_FEATURE_MASK;
                           ie2 = ie1\<lparr>
                             lhdcv5_sampleRate := b 9 AND A2DP_LHDCV5_SAMPLING_FREQ_MASK,
                             lhdcv5_bitsPerSample := bitrate_depth AND A2DP_LHDCV5_BIT_FMT_MASK,
                             lhdcv5_maxTargetBitrate := bitrate_depth AND A2DP_LHDCV5_MAX_BIT_RATE_MASK,
                             lhdcv5_minTargetBitrate := bitrate_depth AND A2DP_LHDCV5_MIN_BIT_RATE_MASK,
                             lhdcv5_version := version_frame AND A2DP_LHDCV5_VERSION_MASK,
                             lhdcv5_frameLenType := version_frame AND A2DP_LHDCV5_FRAME_LEN_MASK,
                             lhdcv5_channelMode := A2DP_LHDCV5_CHANNEL_MODE_STEREO,
                             lhdcv5_hasFeatureAR := features AND A2DP_LHDCV5_FEATURE_AR \<noteq> 0,
                             lhdcv5_hasFeatureJAS := features AND A2DP_LHDCV5_FEATURE_JAS \<noteq> 0,
                             lhdcv5_hasFeatureMETA := features AND A2DP_LHDCV5_FEATURE_META \<noteq> 0,
                             lhdcv5_hasFeatureLL := features AND A2DP_LHDCV5_FEATURE_LL \<noteq> 0,
                             lhdcv5_hasFeatureLLESS48K := features AND A2DP_LHDCV5_FEATURE_LLESS48K \<noteq> 0,
                             lhdcv5_hasFeatureLLESS24Bit := features AND A2DP_LHDCV5_FEATURE_LLESS24BIT \<noteq> 0,
                             lhdcv5_hasFeatureLLESS96K := features AND A2DP_LHDCV5_FEATURE_LLESS96K \<noteq> 0,
                             lhdcv5_hasFeatureLLESSRaw := b 13 AND A2DP_LHDCV5_FEATURE_LLESS_RAW \<noteq> 0\<rparr>
                       in if is_capability then
                            (if A2D_BitsSet (ucast (lhdcv5_sampleRate ie2)) = A2D_SET_ZERO_BIT
                             then (A2D_BAD_SAMP_FREQ, Some ie2)
                             else if A2D_BitsSet (ucast (lhdcv5_bitsPerSample ie2)) = A2D_SET_ZERO_BIT
                             then (A2D_FAIL, Some ie2)
                             else if lhdcv5_version ie2 AND A2DP_LHDCV5_VER_1 = 0
                             then (A2D_WRONG_CODEC, Some ie2)
                             else if A2D_BitsSet (ucast (lhdcv5_frameLenType ie2)) = A2D_SET_ZERO_BIT
                             then (A2D_FAIL, Some ie2)
                             else (A2D_SUCCESS, Some ie2))
                          else (A2D_SUCCESS, Some ie2))))
      | _ \<Rightarrow> (A2D_INVALID_PARAMS, p_ie))"

definition A2DP_IsVendorPeerSourceCodecValidLhdcV5 :: "buf \<Rightarrow> u8" where
  "A2DP_IsVendorPeerSourceCodecValidLhdcV5 p =
     (let status = fst (A2DP_ParseInfoLhdcV5 (Some lhdcv5_cie_zero) (Some p) True)
      in if status = A2D_SUCCESS then status
         else fst (A2DP_ParseInfoLhdcV5 (Some lhdcv5_cie_zero) (Some p) False))"

definition A2DP_IsVendorPeerSinkCodecValidLhdcV5 :: "buf \<Rightarrow> bool" where
  "A2DP_IsVendorPeerSinkCodecValidLhdcV5 p \<longleftrightarrow>
     fst (A2DP_ParseInfoLhdcV5 (Some lhdcv5_cie_zero) (Some p) False) = A2D_SUCCESS \<or>
     fst (A2DP_ParseInfoLhdcV5 (Some lhdcv5_cie_zero) (Some p) True) = A2D_SUCCESS"

definition A2DP_VendorSinkCodecIndexLhdcV5 :: "buf \<Rightarrow> btav_a2dp_codec_index_t" where
  "A2DP_VendorSinkCodecIndexLhdcV5 p = BTAV_A2DP_CODEC_INDEX_SINK_LHDCV5"

definition A2DP_VendorSourceCodecIndexLhdcV5 :: "buf \<Rightarrow> btav_a2dp_codec_index_t" where
  "A2DP_VendorSourceCodecIndexLhdcV5 p = BTAV_A2DP_CODEC_INDEX_SOURCE_LHDCV5"

definition A2DP_VendorCodecNameLhdcV5 :: "buf \<Rightarrow> string" where
  "A2DP_VendorCodecNameLhdcV5 p = ''LHDC V5''"

definition A2DP_VendorCodecTypeEqualsLhdcV5 :: "buf \<Rightarrow> buf \<Rightarrow> bool" where
  "A2DP_VendorCodecTypeEqualsLhdcV5 a b =
     (if fst (A2DP_ParseInfoLhdcV5 (Some lhdcv5_cie_zero) (Some a) True) \<noteq> A2D_SUCCESS then False
      else if fst (A2DP_ParseInfoLhdcV5 (Some lhdcv5_cie_zero) (Some b) True) \<noteq> A2D_SUCCESS then False
      else True)"

definition A2DP_VendorInitCodecConfigLhdcV5Sink :: "buf \<Rightarrow> bool \<times> buf" where
  "A2DP_VendorInitCodecConfigLhdcV5Sink p =
     (case A2DP_BuildInfoLhdcV5 A2D_MEDIA_TYPE_AUDIO (Some a2dp_lhdcv5_sink_caps) (Some p) of
        (sts, p') \<Rightarrow> (sts = A2D_SUCCESS, the p'))"

definition A2DP_VendorInitCodecConfigLhdcV5 ::
  "btav_a2dp_codec_index_t \<Rightarrow> buf \<Rightarrow> bool \<times> buf" where
  "A2DP_VendorInitCodecConfigLhdcV5 codec_index p =
     (case codec_index of
        BTAV_A2DP_CODEC_INDEX_SINK_LHDCV5 \<Rightarrow> A2DP_VendorInitCodecConfigLhdcV5Sink p
      | _ \<Rightarrow> (False, p))"

definition A2DP_GetVendorDecoderInterfaceLhdcV5 :: "buf \<Rightarrow> tA2DP_DECODER_INTERFACE option" where
  "A2DP_GetVendorDecoderInterfaceLhdcV5 p =
     (if \<not> A2DP_IsVendorPeerSinkCodecValidLhdcV5 p then None else Some a2dp_decoder_interface_lhdcv5)"

text \<open>The preferred configuration for a capability; \<open>None\<close> when it has none of the four rates.\<close>

definition lhdcv5_pref_cap :: "tA2DP_LHDCV5_CIE \<Rightarrow> tA2DP_LHDCV5_CIE option" where
  "lhdcv5_pref_cap src_cap =
     (let dft = a2dp_lhdcv5_default_config
      in case first_set (lhdcv5_sampleRate src_cap)
             [A2DP_LHDCV5_SAMPLING_FREQ_192000, A2DP_LHDCV5_SAMPLING_FREQ_96000,
              A2DP_LHDCV5_SAMPLING_FREQ_48000, A2DP_LHDCV5_SAMPLING_FREQ_44100] of
           None \<Rightarrow> None
         | Some f \<Rightarrow>
             Some (dft\<lparr>lhdcv5_sampleRate := f,
               lhdcv5_bitsPerSample := first_set_or (lhdcv5_bitsPerSample src_cap)
                 [A2DP_LHDCV5_BITS_PER_SAMPLE_24, A2DP_LHDCV5_BITS_PER_SAMPLE_16]
                 (lhdcv5_bitsPerSample dft),
               lhdcv5_maxTargetBitrate := lhdcv5_maxTargetBitrate src_cap,
               lhdcv5_minTargetBitrate := lhdcv5_minTargetBitrate src_cap,
               lhdcv5_hasFeatureAR := lhdcv5_hasFeatureAR src_cap,
               lhdcv5_hasFeatureJAS := lhdcv5_hasFeatureJAS src_cap,
               lhdcv5_hasFeatureMETA := lhdcv5_hasFeatureMETA src_cap,
               lhdcv5_hasFeatureLL := lhdcv5_hasFeatureLL src_cap,
               lhdcv5_hasFeatureLLESS48K := lhdcv5_hasFeatureLLESS48K src_cap,
               lhdcv5_hasFeatureLLESS24Bit := lhdcv5_hasFeatureLLESS24Bit src_cap,
               lhdcv5_hasFeatureLLESS96K := lhdcv5_hasFeatureLLESS96K src_cap,
               lhdcv5_hasFeatureLLESSRaw := lhdcv5_hasFeatureLLESSRaw src_cap\<rparr>))"

definition A2DP_VendorBuildCodecConfigLhdcV5 :: "buf \<Rightarrow> buf \<Rightarrow> bool \<times> buf" where
  "A2DP_VendorBuildCodecConfigLhdcV5 p_src_cap p_result =
     (case A2DP_ParseInfoLhdcV5 (Some lhdcv5_cie_zero) (Some p_src_cap) True of
        (status, src) \<Rightarrow>
          if status \<noteq> A2D_SUCCESS then (False, p_result)
          else (case lhdcv5_pref_cap (the src) of
                  None \<Rightarrow> (False, p_result)
                | Some pref_cap \<Rightarrow>
                    (case A2DP_BuildInfoLhdcV5 A2D_MEDIA_TYPE_AUDIO (Some pref_cap) (Some p_result) of
                       (sts, r) \<Rightarrow> (sts = A2D_SUCCESS, the r))))"

subsection \<open>The contract\<close>

text \<open>
  The element as the parser reads it from the octets: the flags of lossless 24 bit and lossless
  96 kHz are masked out, so they are false.
\<close>

definition lhdcv5_rd :: "buf \<Rightarrow> tA2DP_LHDCV5_CIE" where
  "lhdcv5_rd b = \<lparr>lhdcv5_vendorId = A2DP_LHDCV5_VENDOR_ID, lhdcv5_codecId = A2DP_LHDCV5_CODEC_ID,
     lhdcv5_sampleRate = b 9 AND A2DP_LHDCV5_SAMPLING_FREQ_MASK,
     lhdcv5_bitsPerSample = b 10 AND A2DP_LHDCV5_BIT_FMT_MASK,
     lhdcv5_channelMode = A2DP_LHDCV5_CHANNEL_MODE_STEREO,
     lhdcv5_version = b 11 AND A2DP_LHDCV5_VERSION_MASK,
     lhdcv5_frameLenType = b 11 AND A2DP_LHDCV5_FRAME_LEN_MASK,
     lhdcv5_maxTargetBitrate = b 10 AND A2DP_LHDCV5_MAX_BIT_RATE_MASK,
     lhdcv5_minTargetBitrate = b 10 AND A2DP_LHDCV5_MIN_BIT_RATE_MASK,
     lhdcv5_hasFeatureAR = (b 12 AND A2DP_LHDCV5_FEATURE_AR \<noteq> 0),
     lhdcv5_hasFeatureJAS = (b 12 AND A2DP_LHDCV5_FEATURE_JAS \<noteq> 0),
     lhdcv5_hasFeatureMETA = (b 12 AND A2DP_LHDCV5_FEATURE_META \<noteq> 0),
     lhdcv5_hasFeatureLL = (b 12 AND A2DP_LHDCV5_FEATURE_LL \<noteq> 0),
     lhdcv5_hasFeatureLLESS48K = (b 12 AND A2DP_LHDCV5_FEATURE_LLESS48K \<noteq> 0),
     lhdcv5_hasFeatureLLESS24Bit = False, lhdcv5_hasFeatureLLESS96K = False,
     lhdcv5_hasFeatureLLESSRaw = (b 13 AND A2DP_LHDCV5_FEATURE_LLESS_RAW \<noteq> 0)\<rparr>"

definition lhdcv5_ids :: "buf \<Rightarrow> bool" where
  "lhdcv5_ids b \<longleftrightarrow> b 0 = A2DP_LHDCV5_CODEC_LEN \<and> drop_bit 4 (b 1) = A2D_MEDIA_TYPE_AUDIO \<and>
     b 2 = A2D_MEDIA_CT_NON_A2DP \<and> rd32le b 3 = A2DP_LHDCV5_VENDOR_ID \<and>
     rd16le b 7 = A2DP_LHDCV5_CODEC_ID"

lemma lhdcv5_le:
  "ucast (b 3) OR push_bit 8 (ucast (b 4)) OR push_bit 16 (ucast (b 5)) OR push_bit 24 (ucast (b 6)) = rd32le b 3"
  "ucast (b 7) OR push_bit 8 (ucast (b 8)) = rd16le b 7"
proof -
  show "ucast (b 3) OR push_bit 8 (ucast (b 4)) OR push_bit 16 (ucast (b 5)) OR push_bit 24 (ucast (b 6)) = rd32le b 3"
    unfolding rd32le_def by (rule u32_eqI) (simp add: upt_rec bit_simps)
  show "ucast (b 7) OR push_bit 8 (ucast (b 8)) = rd16le b 7"
    unfolding rd16le_def by (rule u16_eqI) (simp add: upt_rec bit_simps)
qed

lemma lhdcv5_put:
  "[ucast (v AND 0xFF), ucast (drop_bit 8 v AND 0xFF), ucast (drop_bit 16 v AND 0xFF),
    ucast (drop_bit 24 v AND 0xFF)] = put32le v"
  "[ucast (w AND 0xFF), ucast (drop_bit 8 w AND 0xFF)] = put16le w"
  by (simp_all add: put32le_def put16le_def)

lemma A2DP_ParseInfoLhdcV5_eq:
  "A2DP_ParseInfoLhdcV5 (Some ie0) (Some b) cap = (A2D_SUCCESS, Some ie) \<longleftrightarrow>
     lhdcv5_ids b \<and>
     (cap \<longrightarrow> b 9 AND A2DP_LHDCV5_SAMPLING_FREQ_MASK \<noteq> 0 \<and> b 10 AND A2DP_LHDCV5_BIT_FMT_MASK \<noteq> 0 \<and>
        b 11 AND A2DP_LHDCV5_VER_1 \<noteq> 0 \<and> b 11 AND A2DP_LHDCV5_FRAME_LEN_MASK \<noteq> 0) \<and>
     ie = lhdcv5_rd b"
  unfolding A2DP_ParseInfoLhdcV5_def lhdcv5_le
  by (auto simp: lhdcv5_ids_def lhdcv5_rd_def lhdcv5_cie_zero_def and.assoc Let_def)

definition lhdcv5_wf :: "tA2DP_LHDCV5_CIE \<Rightarrow> bool" where
  "lhdcv5_wf ie \<longleftrightarrow> lhdcv5_vendorId ie = A2DP_LHDCV5_VENDOR_ID \<and>
     lhdcv5_codecId ie = A2DP_LHDCV5_CODEC_ID \<and>
     lhdcv5_sampleRate ie AND A2DP_LHDCV5_SAMPLING_FREQ_MASK = lhdcv5_sampleRate ie \<and>
     lhdcv5_sampleRate ie \<noteq> 0 \<and>
     lhdcv5_bitsPerSample ie AND A2DP_LHDCV5_BIT_FMT_MASK = lhdcv5_bitsPerSample ie \<and>
     lhdcv5_bitsPerSample ie \<noteq> 0 \<and> lhdcv5_channelMode ie = A2DP_LHDCV5_CHANNEL_MODE_STEREO \<and>
     lhdcv5_version ie AND A2DP_LHDCV5_VERSION_MASK = lhdcv5_version ie \<and>
     lhdcv5_version ie AND A2DP_LHDCV5_VER_1 \<noteq> 0 \<and>
     lhdcv5_frameLenType ie = A2DP_LHDCV5_FRAME_LEN_5MS \<and>
     lhdcv5_maxTargetBitrate ie AND A2DP_LHDCV5_MAX_BIT_RATE_MASK = lhdcv5_maxTargetBitrate ie \<and>
     lhdcv5_minTargetBitrate ie AND A2DP_LHDCV5_MIN_BIT_RATE_MASK = lhdcv5_minTargetBitrate ie"

definition lhdcv5_norm :: "tA2DP_LHDCV5_CIE \<Rightarrow> tA2DP_LHDCV5_CIE \<Rightarrow> tA2DP_LHDCV5_CIE" where
  "lhdcv5_norm ie0 ie = ie\<lparr>lhdcv5_hasFeatureLLESS24Bit := False, lhdcv5_hasFeatureLLESS96K := False\<rparr>"

text \<open>The octet of the feature flags, and the flags read back from it.\<close>

definition lhdcv5_features :: "tA2DP_LHDCV5_CIE \<Rightarrow> u8" where
  "lhdcv5_features ie =
     (if lhdcv5_hasFeatureAR ie then A2DP_LHDCV5_FEATURE_AR else 0) OR
     (if lhdcv5_hasFeatureJAS ie then A2DP_LHDCV5_FEATURE_JAS else 0) OR
     (if lhdcv5_hasFeatureMETA ie then A2DP_LHDCV5_FEATURE_META else 0) OR
     (if lhdcv5_hasFeatureLL ie then A2DP_LHDCV5_FEATURE_LL else 0) OR
     (if lhdcv5_hasFeatureLLESS48K ie then A2DP_LHDCV5_FEATURE_LLESS48K else 0) OR
     (if lhdcv5_hasFeatureLLESS24Bit ie then A2DP_LHDCV5_FEATURE_LLESS24BIT else 0) OR
     (if lhdcv5_hasFeatureLLESS96K ie then A2DP_LHDCV5_FEATURE_LLESS96K else 0)"

lemma lhdcv5_features_bits:
  "lhdcv5_features ie AND A2DP_LHDCV5_FEATURE_AR \<noteq> 0 \<longleftrightarrow> lhdcv5_hasFeatureAR ie"
  "lhdcv5_features ie AND A2DP_LHDCV5_FEATURE_JAS \<noteq> 0 \<longleftrightarrow> lhdcv5_hasFeatureJAS ie"
  "lhdcv5_features ie AND A2DP_LHDCV5_FEATURE_META \<noteq> 0 \<longleftrightarrow> lhdcv5_hasFeatureMETA ie"
  "lhdcv5_features ie AND A2DP_LHDCV5_FEATURE_LL \<noteq> 0 \<longleftrightarrow> lhdcv5_hasFeatureLL ie"
  "lhdcv5_features ie AND A2DP_LHDCV5_FEATURE_LLESS48K \<noteq> 0 \<longleftrightarrow> lhdcv5_hasFeatureLLESS48K ie"
  unfolding lhdcv5_features_def by (simp_all add: bit.conj_disj_distrib2)

lemma A2DP_BuildInfoLhdcV5_ok:
  obtains r' where "A2DP_BuildInfoLhdcV5 A2D_MEDIA_TYPE_AUDIO (Some ie) (Some r) = (A2D_SUCCESS, Some r')"
    and "r' 0 = A2DP_LHDCV5_CODEC_LEN" "r' (Suc 0) = 0" "r' 2 = A2D_MEDIA_CT_NON_A2DP"
    and "rd32le r' 3 = lhdcv5_vendorId ie" "rd16le r' 7 = lhdcv5_codecId ie"
    and "r' 9 = lhdcv5_sampleRate ie AND A2DP_LHDCV5_SAMPLING_FREQ_MASK"
    and "r' 10 = (lhdcv5_bitsPerSample ie AND A2DP_LHDCV5_BIT_FMT_MASK) OR
      (lhdcv5_maxTargetBitrate ie AND A2DP_LHDCV5_MAX_BIT_RATE_MASK) OR
      (lhdcv5_minTargetBitrate ie AND A2DP_LHDCV5_MIN_BIT_RATE_MASK)"
    and "r' 11 = (lhdcv5_version ie AND A2DP_LHDCV5_VERSION_MASK) OR
      (lhdcv5_frameLenType ie AND A2DP_LHDCV5_FRAME_LEN_MASK)"
    and "r' 12 = lhdcv5_features ie"
    and "r' 13 = (if lhdcv5_hasFeatureLLESSRaw ie then A2DP_LHDCV5_FEATURE_LLESS_RAW else 0)"
proof -
  define xs where "xs = [lhdcv5_sampleRate ie AND A2DP_LHDCV5_SAMPLING_FREQ_MASK,
    (lhdcv5_bitsPerSample ie AND A2DP_LHDCV5_BIT_FMT_MASK) OR
      (lhdcv5_maxTargetBitrate ie AND A2DP_LHDCV5_MAX_BIT_RATE_MASK) OR
      (lhdcv5_minTargetBitrate ie AND A2DP_LHDCV5_MIN_BIT_RATE_MASK),
    (lhdcv5_version ie AND A2DP_LHDCV5_VERSION_MASK) OR
      (lhdcv5_frameLenType ie AND A2DP_LHDCV5_FRAME_LEN_MASK),
    lhdcv5_features ie, if lhdcv5_hasFeatureLLESSRaw ie then A2DP_LHDCV5_FEATURE_LLESS_RAW else 0]"
  define s where "s = store r 0 ([A2DP_LHDCV5_CODEC_LEN, 0, A2D_MEDIA_CT_NON_A2DP] @
    put32le (lhdcv5_vendorId ie) @ put16le (lhdcv5_codecId ie) @ xs)"
  have "A2DP_BuildInfoLhdcV5 A2D_MEDIA_TYPE_AUDIO (Some ie) (Some r) = (A2D_SUCCESS, Some s)"
    unfolding A2DP_BuildInfoLhdcV5_def s_def xs_def lhdcv5_put [symmetric] lhdcv5_features_def by simp
  moreover have "s (9 + k) = xs ! k" if "k < 5" for k
    using that by (intro store_header(6) [OF s_def]) (simp add: xs_def)
  note this [of 0] this [of 1] this [of 2] this [of 3] this [of 4]
  ultimately show thesis
    by (intro that [of s]) (simp_all add: store_header(1-5) [OF s_def] xs_def)
qed

lemma lhdcv5_rd_built:
  assumes "lhdcv5_wf ie"
    and "r' 9 = lhdcv5_sampleRate ie AND A2DP_LHDCV5_SAMPLING_FREQ_MASK"
    and "r' 10 = (lhdcv5_bitsPerSample ie AND A2DP_LHDCV5_BIT_FMT_MASK) OR
      (lhdcv5_maxTargetBitrate ie AND A2DP_LHDCV5_MAX_BIT_RATE_MASK) OR
      (lhdcv5_minTargetBitrate ie AND A2DP_LHDCV5_MIN_BIT_RATE_MASK)"
    and "r' 11 = (lhdcv5_version ie AND A2DP_LHDCV5_VERSION_MASK) OR
      (lhdcv5_frameLenType ie AND A2DP_LHDCV5_FRAME_LEN_MASK)"
    and "r' 12 = lhdcv5_features ie"
    and "r' 13 = (if lhdcv5_hasFeatureLLESSRaw ie then A2DP_LHDCV5_FEATURE_LLESS_RAW else 0)"
  shows "lhdcv5_rd r' = lhdcv5_norm ie0 ie"
proof -
  note wf = assms(1) [unfolded lhdcv5_wf_def]
  have "r' 10 AND 0x07 = lhdcv5_bitsPerSample ie" "r' 10 AND 0x30 = lhdcv5_maxTargetBitrate ie"
    "r' 10 AND 0xC0 = lhdcv5_minTargetBitrate ie"
    using wf or_and_mask3(1) [where x = "lhdcv5_bitsPerSample ie" and m = "0x07"
        and y = "lhdcv5_maxTargetBitrate ie" and m' = "0x30" and z = "lhdcv5_minTargetBitrate ie" and m'' = "0xC0"]
      or_and_mask3(2) [where y = "lhdcv5_bitsPerSample ie" and m' = "0x07"
        and x = "lhdcv5_maxTargetBitrate ie" and m = "0x30" and z = "lhdcv5_minTargetBitrate ie" and m'' = "0xC0"]
      or_and_mask3(3) [where y = "lhdcv5_bitsPerSample ie" and m' = "0x07"
        and z = "lhdcv5_maxTargetBitrate ie" and m'' = "0x30" and x = "lhdcv5_minTargetBitrate ie" and m = "0xC0"]
    by (simp_all add: assms(3))
  moreover have "r' 11 AND 0x0F = lhdcv5_version ie" "r' 11 AND 0x10 = lhdcv5_frameLenType ie"
    using wf or_and_mask(1) [where x = "lhdcv5_version ie" and m = "0x0F" and y = "0x10" and m' = "0x10"]
      or_and_mask(2) [where y = "lhdcv5_version ie" and m' = "0x0F" and x = "0x10" and m = "0x10"]
    by (simp_all add: assms(4))
  ultimately show ?thesis
    using wf by (simp add: lhdcv5_rd_def lhdcv5_norm_def assms(2,5,6) lhdcv5_features_bits)
qed

lemma lhdcv5_and_masks:
  fixes x :: u8
  shows "x AND 0x0F AND 1 = x AND 1" and "x AND 0x10 \<noteq> 0 \<Longrightarrow> x AND 0x10 = 0x10"
  by (auto simp: u8_eq_iff bit_simps)

text \<open>A successful parse fixes the codec type and the ids.\<close>

lemma lhdcv5_parse_ids:
  "fst (A2DP_ParseInfoLhdcV5 (Some ie) (Some p) cap) = A2D_SUCCESS \<Longrightarrow>
     p 2 = A2D_MEDIA_CT_NON_A2DP \<and> rd32le p 3 = A2DP_LHDCV5_VENDOR_ID \<and> rd16le p 7 = A2DP_LHDCV5_CODEC_ID"
  unfolding A2DP_ParseInfoLhdcV5_def lhdcv5_le by (simp add: Let_def split: if_split_asm)

interpretation lhdcv5: lenient_codec A2DP_ParseInfoLhdcV5 A2DP_BuildInfoLhdcV5 14 lhdcv5_wf
  lhdcv5_norm
proof
  show "(14::nat) \<le> AVDT_CODEC_SIZE" by simp
next
  fix b b' :: buf and p cap
  assume "buf_agree 14 b b'"
  then show "A2DP_ParseInfoLhdcV5 p (Some b) cap = A2DP_ParseInfoLhdcV5 p (Some b') cap"
    by (simp add: A2DP_ParseInfoLhdcV5_def Let_def agree_simps [of 14] split: option.split)
next
  fix ie ie' :: tA2DP_LHDCV5_CIE and b cap
  show "fst (A2DP_ParseInfoLhdcV5 (Some ie) (Some b) cap) =
      fst (A2DP_ParseInfoLhdcV5 (Some ie') (Some b) cap)"
    by (simp add: A2DP_ParseInfoLhdcV5_def Let_def)
next
  fix ie0 ie :: tA2DP_LHDCV5_CIE and b
  assume "A2DP_ParseInfoLhdcV5 (Some ie0) (Some b) True = (A2D_SUCCESS, Some ie)"
  then show "lhdcv5_wf ie"
    by (auto simp: A2DP_ParseInfoLhdcV5_eq lhdcv5_wf_def lhdcv5_rd_def lhdcv5_and_masks and.assoc)
next
  fix mt r and k :: nat and p :: "tA2DP_LHDCV5_CIE option"
  assume "14 \<le> k"
  then show "\<exists>r'. snd (A2DP_BuildInfoLhdcV5 mt p (Some r)) = Some r' \<and> r' k = r k"
    by (auto simp: A2DP_BuildInfoLhdcV5_def Let_def store_apply split: option.split)
next
  fix ie0 :: tA2DP_LHDCV5_CIE and b cap
  show "snd (A2DP_ParseInfoLhdcV5 (Some ie0) (Some b) cap) \<noteq> None"
    by (simp add: A2DP_ParseInfoLhdcV5_def Let_def)
next
  fix ie ie0 :: tA2DP_LHDCV5_CIE and r
  assume wf: "lhdcv5_wf ie"
  show "\<exists>r'. A2DP_BuildInfoLhdcV5 A2D_MEDIA_TYPE_AUDIO (Some ie) (Some r) = (A2D_SUCCESS, Some r') \<and>
      A2DP_ParseInfoLhdcV5 (Some ie0) (Some r') True = (A2D_SUCCESS, Some (lhdcv5_norm ie0 ie))"
  proof (rule A2DP_BuildInfoLhdcV5_ok [of ie r])
    fix r'
    assume b: "A2DP_BuildInfoLhdcV5 A2D_MEDIA_TYPE_AUDIO (Some ie) (Some r) = (A2D_SUCCESS, Some r')"
      and ids: "r' 0 = A2DP_LHDCV5_CODEC_LEN" "r' (Suc 0) = 0" "r' 2 = A2D_MEDIA_CT_NON_A2DP"
        "rd32le r' 3 = lhdcv5_vendorId ie" "rd16le r' 7 = lhdcv5_codecId ie"
      and fields: "r' 9 = lhdcv5_sampleRate ie AND A2DP_LHDCV5_SAMPLING_FREQ_MASK"
        "r' 10 = (lhdcv5_bitsPerSample ie AND A2DP_LHDCV5_BIT_FMT_MASK) OR
          (lhdcv5_maxTargetBitrate ie AND A2DP_LHDCV5_MAX_BIT_RATE_MASK) OR
          (lhdcv5_minTargetBitrate ie AND A2DP_LHDCV5_MIN_BIT_RATE_MASK)"
        "r' 11 = (lhdcv5_version ie AND A2DP_LHDCV5_VERSION_MASK) OR
          (lhdcv5_frameLenType ie AND A2DP_LHDCV5_FRAME_LEN_MASK)"
        "r' 12 = lhdcv5_features ie"
        "r' 13 = (if lhdcv5_hasFeatureLLESSRaw ie then A2DP_LHDCV5_FEATURE_LLESS_RAW else 0)"
    have rd: "lhdcv5_rd r' = lhdcv5_norm ie0 ie" by (rule lhdcv5_rd_built [OF wf fields])
    have "lhdcv5_sampleRate (lhdcv5_rd r') \<noteq> 0" "lhdcv5_bitsPerSample (lhdcv5_rd r') \<noteq> 0"
      "lhdcv5_version (lhdcv5_rd r') AND 1 \<noteq> 0" "lhdcv5_frameLenType (lhdcv5_rd r') \<noteq> 0"
      unfolding rd using wf by (auto simp: lhdcv5_norm_def lhdcv5_wf_def)
    then have "A2DP_ParseInfoLhdcV5 (Some ie0) (Some r') True = (A2D_SUCCESS, Some (lhdcv5_rd r'))"
      using wf ids by (simp add: A2DP_ParseInfoLhdcV5_eq lhdcv5_ids_def lhdcv5_wf_def)
        (simp add: lhdcv5_rd_def lhdcv5_and_masks and.assoc)
    then show "\<exists>r'. A2DP_BuildInfoLhdcV5 A2D_MEDIA_TYPE_AUDIO (Some ie) (Some r) = (A2D_SUCCESS, Some r') \<and>
      A2DP_ParseInfoLhdcV5 (Some ie0) (Some r') True = (A2D_SUCCESS, Some (lhdcv5_norm ie0 ie))"
      using b rd by auto
  qed
next
  fix ie :: tA2DP_LHDCV5_CIE and b
  assume "fst (A2DP_ParseInfoLhdcV5 (Some ie) (Some b) True) = A2D_SUCCESS"
  then show "fst (A2DP_ParseInfoLhdcV5 (Some ie) (Some b) False) = A2D_SUCCESS"
    by (auto simp: A2DP_ParseInfoLhdcV5_def Let_def split: if_splits)
qed

subsection \<open>The choice of a configuration\<close>

text \<open>
  The rate is one the source offers, and so is the sample size if the source offers 16 or 24
  bits; the bit rate range and the feature flags are the ones of the source.
\<close>

definition lhdcv5_within :: "tA2DP_LHDCV5_CIE \<Rightarrow> tA2DP_LHDCV5_CIE \<Rightarrow> bool" where
  "lhdcv5_within c s \<longleftrightarrow> one_bit (lhdcv5_sampleRate c) \<and>
     lhdcv5_sampleRate c AND lhdcv5_sampleRate s = lhdcv5_sampleRate c \<and>
     (lhdcv5_bitsPerSample s AND (A2DP_LHDCV5_BITS_PER_SAMPLE_24 OR A2DP_LHDCV5_BITS_PER_SAMPLE_16) \<noteq> 0 \<longrightarrow>
        lhdcv5_bitsPerSample c AND lhdcv5_bitsPerSample s = lhdcv5_bitsPerSample c) \<and>
     lhdcv5_maxTargetBitrate c = lhdcv5_maxTargetBitrate s \<and>
     lhdcv5_minTargetBitrate c = lhdcv5_minTargetBitrate s \<and>
     lhdcv5_hasFeatureAR c = lhdcv5_hasFeatureAR s \<and> lhdcv5_hasFeatureJAS c = lhdcv5_hasFeatureJAS s \<and>
     lhdcv5_hasFeatureMETA c = lhdcv5_hasFeatureMETA s \<and> lhdcv5_hasFeatureLL c = lhdcv5_hasFeatureLL s \<and>
     lhdcv5_hasFeatureLLESS48K c = lhdcv5_hasFeatureLLESS48K s \<and>
     lhdcv5_hasFeatureLLESSRaw c = lhdcv5_hasFeatureLLESSRaw s"

lemma lhdcv5_pref_cap_Some:
  assumes "lhdcv5_pref_cap s = Some c" and wf: "lhdcv5_wf s"
  shows "lhdcv5_wf c" and "lhdcv5_within c s"
proof -
  obtain f where f: "first_set (lhdcv5_sampleRate s) [0x01, 0x04, 0x10, 0x20] = Some f"
    and c: "lhdcv5_sampleRate c = f"
      "lhdcv5_bitsPerSample c = first_set_or (lhdcv5_bitsPerSample s) [0x02, 0x04] 0x02"
    and rest: "lhdcv5_vendorId c = A2DP_LHDCV5_VENDOR_ID" "lhdcv5_codecId c = A2DP_LHDCV5_CODEC_ID"
      "lhdcv5_channelMode c = A2DP_LHDCV5_CHANNEL_MODE_STEREO" "lhdcv5_version c = A2DP_LHDCV5_VER_1"
      "lhdcv5_frameLenType c = A2DP_LHDCV5_FRAME_LEN_5MS"
      "lhdcv5_maxTargetBitrate c = lhdcv5_maxTargetBitrate s"
      "lhdcv5_minTargetBitrate c = lhdcv5_minTargetBitrate s"
      "lhdcv5_hasFeatureAR c = lhdcv5_hasFeatureAR s" "lhdcv5_hasFeatureJAS c = lhdcv5_hasFeatureJAS s"
      "lhdcv5_hasFeatureMETA c = lhdcv5_hasFeatureMETA s" "lhdcv5_hasFeatureLL c = lhdcv5_hasFeatureLL s"
      "lhdcv5_hasFeatureLLESS48K c = lhdcv5_hasFeatureLLESS48K s"
      "lhdcv5_hasFeatureLLESSRaw c = lhdcv5_hasFeatureLLESSRaw s"
    using assms(1) by (auto simp: lhdcv5_pref_cap_def a2dp_lhdcv5_default_config_def Let_def
        simp del: first_set.simps split: option.splits)
  have "f \<in> {0x01, 0x04, 0x10, 0x20}"
    using first_set_SomeD(1) [OF f] by simp
  moreover have "first_set_or (lhdcv5_bitsPerSample s) [0x02, 0x04] 0x02 \<in> {0x02, 0x04}"
    using first_set_or_in [of "lhdcv5_bitsPerSample s" "[0x02, 0x04]" "0x02"] by auto
  ultimately show "lhdcv5_wf c"
    using wf by (auto simp: lhdcv5_wf_def c rest)
  have obl: "list_all one_bit [0x01, 0x04, 0x10, 0x20]" "list_all one_bit [0x02, 0x04]"
    by (simp_all add: one_bit_def)
  have "x AND 6 \<noteq> 0 \<Longrightarrow> x AND 2 \<noteq> 0 \<or> x AND 4 \<noteq> 0" for x :: u8
    by (auto simp: u8_eq_iff bit_simps)
  then have "lhdcv5_bitsPerSample s AND 6 \<noteq> 0 \<Longrightarrow> \<exists>m \<in> set [0x02, 0x04]. lhdcv5_bitsPerSample s AND m \<noteq> 0"
    by auto
  then show "lhdcv5_within c s"
    using first_set_one_bit [OF f obl(1)] first_set_or_offered [OF obl(2), of "lhdcv5_bitsPerSample s" "0x02"]
    by (simp add: lhdcv5_within_def c rest)
qed

lemma A2DP_VendorBuildCodecConfigLhdcV5_True:
  assumes "A2DP_VendorBuildCodecConfigLhdcV5 src r = (True, r')"
  obtains s c where "A2DP_ParseInfoLhdcV5 (Some lhdcv5_cie_zero) (Some src) True = (A2D_SUCCESS, Some s)"
    and "lhdcv5_wf s" and "lhdcv5_pref_cap s = Some c"
    and "r' = the (snd (A2DP_BuildInfoLhdcV5 A2D_MEDIA_TYPE_AUDIO (Some c) (Some r)))"
proof -
  have "fst (A2DP_ParseInfoLhdcV5 (Some lhdcv5_cie_zero) (Some src) True) = A2D_SUCCESS"
    using assms by (auto simp: A2DP_VendorBuildCodecConfigLhdcV5_def split: prod.splits if_splits)
  then obtain s where s: "A2DP_ParseInfoLhdcV5 (Some lhdcv5_cie_zero) (Some src) True = (A2D_SUCCESS, Some s)"
    and wf: "lhdcv5_wf s" by (rule lhdcv5.parsed)
  with assms show thesis
    by (auto simp: A2DP_VendorBuildCodecConfigLhdcV5_def split: option.splits prod.splits
        intro: that [OF s wf])
qed

interpretation lhdcv5: negotiated_codec A2DP_ParseInfoLhdcV5 A2DP_BuildInfoLhdcV5 14 lhdcv5_wf
  lhdcv5_norm lhdcv5_cie_zero A2DP_VendorBuildCodecConfigLhdcV5 lhdcv5_within
proof
  fix src r r'
  assume "A2DP_VendorBuildCodecConfigLhdcV5 src r = (True, r')"
  then obtain s c where s: "A2DP_ParseInfoLhdcV5 (Some lhdcv5_cie_zero) (Some src) True = (A2D_SUCCESS, Some s)"
    and wf: "lhdcv5_wf s" and c: "lhdcv5_pref_cap s = Some c"
    and r': "r' = the (snd (A2DP_BuildInfoLhdcV5 A2D_MEDIA_TYPE_AUDIO (Some c) (Some r)))"
    by (rule A2DP_VendorBuildCodecConfigLhdcV5_True)
  have "A2DP_ParseInfoLhdcV5 (Some lhdcv5_cie_zero) (Some r') True =
      (A2D_SUCCESS, Some (lhdcv5_norm lhdcv5_cie_zero c))"
    by (rule lhdcv5.built [OF lhdcv5_pref_cap_Some(1) [OF c wf], of r]) (simp add: r')
  then have "A2DP_ParseInfoLhdcV5 (Some lhdcv5_cie_zero) (Some r') False =
      (A2D_SUCCESS, Some (lhdcv5_norm lhdcv5_cie_zero c))"
    by (simp add: A2DP_ParseInfoLhdcV5_eq)
  moreover have "lhdcv5_within (lhdcv5_norm lhdcv5_cie_zero c) s"
    using lhdcv5_pref_cap_Some(2) [OF c wf] by (simp add: lhdcv5_within_def lhdcv5_norm_def)
  ultimately show "\<exists>s c. A2DP_ParseInfoLhdcV5 (Some lhdcv5_cie_zero) (Some src) True = (A2D_SUCCESS, Some s) \<and>
      A2DP_ParseInfoLhdcV5 (Some lhdcv5_cie_zero) (Some r') False = (A2D_SUCCESS, Some c) \<and> lhdcv5_within c s"
    using s by blast
next
  fix src src' r
  assume "buf_agree 14 src src'"
  then have "A2DP_ParseInfoLhdcV5 (Some lhdcv5_cie_zero) (Some src) True = A2DP_ParseInfoLhdcV5 (Some lhdcv5_cie_zero) (Some src') True"
    by (rule lhdcv5.parse_local)
  then show "A2DP_VendorBuildCodecConfigLhdcV5 src r = A2DP_VendorBuildCodecConfigLhdcV5 src' r"
    by (simp add: A2DP_VendorBuildCodecConfigLhdcV5_def)
next
  fix src r and k :: nat
  assume "14 \<le> k"
  then show "snd (A2DP_VendorBuildCodecConfigLhdcV5 src r) k = r k"
    by (simp add: A2DP_VendorBuildCodecConfigLhdcV5_def Let_def case_prod_unfold lhdcv5.build_beyond
        del: first_set.simps split: option.split)
qed

subsection \<open>Properties\<close>

text \<open>
  The LHDC V5 configuration chosen for a source parses as a configuration; its rate is
  a single one that the source offers, its sample size one the source offers if that includes
  16 or 24 bits, and the target bit rates and the feature flags are the source's.
\<close>
theorem lhdcv5_config_sound:
  assumes "A2DP_VendorBuildCodecConfigLhdcV5 src r = (True, r')"
  shows "\<exists>s c. A2DP_ParseInfoLhdcV5 (Some lhdcv5_cie_zero) (Some src) True = (A2D_SUCCESS, Some s) \<and>
    A2DP_ParseInfoLhdcV5 (Some lhdcv5_cie_zero) (Some r') False = (A2D_SUCCESS, Some c) \<and>
    lhdcv5_within c s"
  using assms by (rule lhdcv5.negotiate_sound)

theorem lhdcv5_config_sound_witness:
  "\<exists>s c. A2DP_ParseInfoLhdcV5 (Some lhdcv5_cie_zero)
      (Some (bytes [13, 0, 0xFF, 0x3A, 0x05, 0, 0, 0x35, 0x4C, 0x30, 0x84, 0x11, 0x40, 0])) True =
      (A2D_SUCCESS, Some s) \<and>
    A2DP_ParseInfoLhdcV5 (Some lhdcv5_cie_zero)
      (Some (snd (A2DP_VendorBuildCodecConfigLhdcV5
        (bytes [13, 0, 0xFF, 0x3A, 0x05, 0, 0, 0x35, 0x4C, 0x30, 0x84, 0x11, 0x40, 0]) (bytes [])))) False =
      (A2D_SUCCESS, Some c) \<and> lhdcv5_within c s"
proof (rule lhdcv5_config_sound)
  let ?src = "bytes [13, 0, 0xFF, 0x3A, 0x05, 0, 0, 0x35, 0x4C, 0x30, 0x84, 0x11, 0x40, 0]"
  have "fst (A2DP_VendorBuildCodecConfigLhdcV5 ?src (bytes []))"
    by (simp add: A2DP_VendorBuildCodecConfigLhdcV5_def A2DP_ParseInfoLhdcV5_def Let_def bytes_def
        lhdcv5_pref_cap_def A2DP_BuildInfoLhdcV5_def)
  then show "A2DP_VendorBuildCodecConfigLhdcV5 ?src (bytes []) =
      (True, snd (A2DP_VendorBuildCodecConfigLhdcV5 ?src (bytes [])))"
    by (simp add: prod_eq_iff)
qed

text \<open>
  Building an LHDC V5 element and parsing the octets gives every field back except
  the flags of lossless 24 bit and lossless 96 kHz: the builder sets their bits, and the feature
  mask of the parser drops them, so both are read as false.
\<close>
theorem lhdcv5_build_parse:
  assumes "lhdcv5_wf ie"
  shows "\<exists>r'. A2DP_BuildInfoLhdcV5 A2D_MEDIA_TYPE_AUDIO (Some ie) (Some r) = (A2D_SUCCESS, Some r') \<and>
    A2DP_ParseInfoLhdcV5 (Some ie0) (Some r') True =
      (A2D_SUCCESS, Some (ie\<lparr>lhdcv5_hasFeatureLLESS24Bit := False, lhdcv5_hasFeatureLLESS96K := False\<rparr>))"
  using lhdcv5.parse_build [OF assms, of r ie0] by (simp add: lhdcv5_norm_def)

theorem lhdcv5_build_parse_witness:
  "\<exists>r'. A2DP_BuildInfoLhdcV5 A2D_MEDIA_TYPE_AUDIO
      (Some (a2dp_lhdcv5_sink_caps\<lparr>lhdcv5_hasFeatureLLESS96K := True\<rparr>)) (Some (bytes [])) = (A2D_SUCCESS, Some r') \<and>
    A2DP_ParseInfoLhdcV5 (Some lhdcv5_cie_zero) (Some r') True = (A2D_SUCCESS, Some a2dp_lhdcv5_sink_caps)"
  using lhdcv5_build_parse [of "a2dp_lhdcv5_sink_caps\<lparr>lhdcv5_hasFeatureLLESS96K := True\<rparr>" "bytes []" lhdcv5_cie_zero]
  by (simp add: lhdcv5_wf_def a2dp_lhdcv5_sink_caps_def)

end
