(* ===== verification/A2DP_Vendor.thy ===== *)
theory A2DP_Vendor
  imports A2DP_Aptx A2DP_Aptx_Hd A2DP_Aptx_Ll A2DP_Ldac A2DP_Opus A2DP_Lc3plus A2DP_Lhdcv5
begin

text \<open>
  stack/a2dp/a2dp\_vendor.c: the dispatch of a vendor specific codec element to its codec by the
  vendor and codec ids of octets 3 to 8. Every function of the file repeats the same chain of
  comparisons; \<open>vendor_codec\<close> is that chain.
\<close>

datatype vendor_codec_t = V_APTX | V_APTX_HD | V_APTX_LL | V_LDAC | V_OPUS | V_LC3PLUS | V_LHDCV5

definition vendor_codec :: "u32 \<Rightarrow> u16 \<Rightarrow> vendor_codec_t option" where
  "vendor_codec vendor_id codec_id =
     (if vendor_id = A2DP_APTX_VENDOR_ID \<and> codec_id = A2DP_APTX_CODEC_ID_BLUETOOTH then Some V_APTX
      else if vendor_id = A2DP_APTX_HD_VENDOR_ID \<and> codec_id = A2DP_APTX_HD_CODEC_ID_BLUETOOTH
      then Some V_APTX_HD
      else if vendor_id = A2DP_APTX_LL_VENDOR_ID \<and> codec_id = A2DP_APTX_LL_CODEC_ID_BLUETOOTH
      then Some V_APTX_LL
      else if vendor_id = A2DP_LDAC_VENDOR_ID \<and> codec_id = A2DP_LDAC_CODEC_ID then Some V_LDAC
      else if A2DP_VendorCodecIsOpus vendor_id codec_id then Some V_OPUS
      else if vendor_id = A2DP_LC3PLUS_VENDOR_ID \<and> codec_id = A2DP_LC3PLUS_CODEC_ID
      then Some V_LC3PLUS
      else if vendor_id = A2DP_LHDCV5_VENDOR_ID \<and> codec_id = A2DP_LHDCV5_CODEC_ID
      then Some V_LHDCV5
      else None)"

definition A2DP_VendorCodecGetVendorId :: "buf \<Rightarrow> u32" where
  "A2DP_VendorCodecGetVendorId p_codec_info = rd32le p_codec_info 3"

definition A2DP_VendorCodecGetCodecId :: "buf \<Rightarrow> u16" where
  "A2DP_VendorCodecGetCodecId p_codec_info = rd16le p_codec_info 7"

text \<open>
  An element of any vendor codec: the memory behind the untyped \<open>p_ie\<close>, as the type it is cast to.
  Its contents before the call are the ones of an uninitialised local variable.
\<close>

datatype vendor_cie =
    CIE_APTX tA2DP_APTX_CIE | CIE_APTX_HD tA2DP_APTX_HD_CIE | CIE_APTX_LL tA2DP_APTX_LL_CIE
  | CIE_LDAC tA2DP_LDAC_CIE | CIE_OPUS tA2DP_OPUS_CIE | CIE_LC3PLUS tA2DP_LC3PLUS_CIE
  | CIE_LHDCV5 tA2DP_LHDCV5_CIE

definition A2DP_VendorParseInfo :: "buf \<Rightarrow> bool \<Rightarrow> u8 \<times> vendor_cie option" where
  "A2DP_VendorParseInfo p_codec_info is_capability =
     (case vendor_codec (A2DP_VendorCodecGetVendorId p_codec_info) (A2DP_VendorCodecGetCodecId p_codec_info) of
        Some V_APTX \<Rightarrow> map_prod id (map_option CIE_APTX)
          (A2DP_ParseInfoAptx (Some aptx_cie_local) (Some p_codec_info) is_capability)
      | Some V_APTX_HD \<Rightarrow> map_prod id (map_option CIE_APTX_HD)
          (A2DP_ParseInfoAptxHd (Some aptx_hd_cie_local) (Some p_codec_info) is_capability)
      | Some V_APTX_LL \<Rightarrow> map_prod id (map_option CIE_APTX_LL)
          (A2DP_ParseInfoAptxLl (Some aptx_ll_cie_local) (Some p_codec_info) is_capability)
      | Some V_LDAC \<Rightarrow> map_prod id (map_option CIE_LDAC)
          (A2DP_ParseInfoLdac (Some ldac_cie_local) (Some p_codec_info) is_capability)
      | Some V_OPUS \<Rightarrow> map_prod id (map_option CIE_OPUS)
          (A2DP_ParseInfoOpus (Some opus_cie_zero) (Some p_codec_info) is_capability)
      | Some V_LC3PLUS \<Rightarrow> map_prod id (map_option CIE_LC3PLUS)
          (A2DP_ParseInfoLc3Plus (Some lc3plus_cie_local) (Some p_codec_info) is_capability)
      | Some V_LHDCV5 \<Rightarrow> map_prod id (map_option CIE_LHDCV5)
          (A2DP_ParseInfoLhdcV5 (Some lhdcv5_cie_zero) (Some p_codec_info) is_capability)
      | None \<Rightarrow> (A2D_FAIL, None))"

definition A2DP_IsVendorPeerSinkCodecValid :: "buf \<Rightarrow> bool" where
  "A2DP_IsVendorPeerSinkCodecValid p_codec_info =
     (case vendor_codec (A2DP_VendorCodecGetVendorId p_codec_info) (A2DP_VendorCodecGetCodecId p_codec_info) of
        Some V_APTX \<Rightarrow> A2DP_IsVendorPeerSinkCodecValidAptx p_codec_info
      | Some V_APTX_HD \<Rightarrow> A2DP_IsVendorPeerSinkCodecValidAptxHd p_codec_info
      | Some V_APTX_LL \<Rightarrow> A2DP_IsVendorPeerSinkCodecValidAptxLl p_codec_info
      | Some V_LDAC \<Rightarrow> A2DP_IsVendorPeerSinkCodecValidLdac p_codec_info
      | Some V_OPUS \<Rightarrow> A2DP_IsVendorPeerSinkCodecValidOpus p_codec_info
      | Some V_LC3PLUS \<Rightarrow> A2DP_IsVendorPeerSinkCodecValidLc3Plus p_codec_info
      | Some V_LHDCV5 \<Rightarrow> A2DP_IsVendorPeerSinkCodecValidLhdcV5 p_codec_info
      | None \<Rightarrow> False)"

definition A2DP_IsVendorSinkCodecSupported :: "buf \<Rightarrow> u8" where
  "A2DP_IsVendorSinkCodecSupported p_codec_info = A2D_FAIL"

definition A2DP_IsVendorPeerSourceCodecSupported :: "buf \<Rightarrow> u8" where
  "A2DP_IsVendorPeerSourceCodecSupported p_codec_info =
     (case vendor_codec (A2DP_VendorCodecGetVendorId p_codec_info) (A2DP_VendorCodecGetCodecId p_codec_info) of
        Some V_APTX \<Rightarrow> A2DP_IsVendorPeerSourceCodecValidAptx p_codec_info
      | Some V_APTX_HD \<Rightarrow> A2DP_IsVendorPeerSourceCodecValidAptxHd p_codec_info
      | Some V_APTX_LL \<Rightarrow> A2DP_IsVendorPeerSourceCodecValidAptxLl p_codec_info
      | Some V_LDAC \<Rightarrow> A2DP_IsVendorPeerSourceCodecValidLdac p_codec_info
      | Some V_OPUS \<Rightarrow> A2DP_IsVendorPeerSourceCodecValidOpus p_codec_info
      | Some V_LC3PLUS \<Rightarrow> A2DP_IsVendorPeerSourceCodecValidLc3Plus p_codec_info
      | Some V_LHDCV5 \<Rightarrow> A2DP_IsVendorPeerSourceCodecValidLhdcV5 p_codec_info
      | None \<Rightarrow> A2D_FAIL)"

definition A2DP_VendorSinkCodecIndex :: "buf \<Rightarrow> btav_a2dp_codec_index_t" where
  "A2DP_VendorSinkCodecIndex p_codec_info =
     (case vendor_codec (A2DP_VendorCodecGetVendorId p_codec_info) (A2DP_VendorCodecGetCodecId p_codec_info) of
        Some V_APTX \<Rightarrow> A2DP_VendorSinkCodecIndexAptx p_codec_info
      | Some V_APTX_HD \<Rightarrow> A2DP_VendorSinkCodecIndexAptxHd p_codec_info
      | Some V_APTX_LL \<Rightarrow> A2DP_VendorSinkCodecIndexAptxLl p_codec_info
      | Some V_LDAC \<Rightarrow> A2DP_VendorSinkCodecIndexLdac p_codec_info
      | Some V_OPUS \<Rightarrow> A2DP_VendorSinkCodecIndexOpus p_codec_info
      | Some V_LC3PLUS \<Rightarrow> A2DP_VendorSinkCodecIndexLc3Plus p_codec_info
      | Some V_LHDCV5 \<Rightarrow> A2DP_VendorSinkCodecIndexLhdcV5 p_codec_info
      | None \<Rightarrow> BTAV_A2DP_CODEC_INDEX_MAX)"

definition A2DP_VendorSourceCodecIndex :: "buf \<Rightarrow> btav_a2dp_codec_index_t" where
  "A2DP_VendorSourceCodecIndex p_codec_info =
     (case vendor_codec (A2DP_VendorCodecGetVendorId p_codec_info) (A2DP_VendorCodecGetCodecId p_codec_info) of
        Some V_APTX \<Rightarrow> A2DP_VendorSourceCodecIndexAptx p_codec_info
      | Some V_APTX_HD \<Rightarrow> A2DP_VendorSourceCodecIndexAptxHd p_codec_info
      | Some V_APTX_LL \<Rightarrow> A2DP_VendorSourceCodecIndexAptxLl p_codec_info
      | Some V_LDAC \<Rightarrow> A2DP_VendorSourceCodecIndexLdac p_codec_info
      | Some V_OPUS \<Rightarrow> A2DP_VendorSourceCodecIndexOpus p_codec_info
      | Some V_LC3PLUS \<Rightarrow> A2DP_VendorSourceCodecIndexLc3Plus p_codec_info
      | Some V_LHDCV5 \<Rightarrow> A2DP_VendorSourceCodecIndexLhdcV5 p_codec_info
      | None \<Rightarrow> BTAV_A2DP_CODEC_INDEX_MAX)"

text \<open>One initialiser after the other, on the buffer the ones before have left.\<close>

definition try_init :: "(buf \<Rightarrow> bool \<times> buf) \<Rightarrow> (buf \<Rightarrow> bool \<times> buf) \<Rightarrow> buf \<Rightarrow> bool \<times> buf" where
  "try_init f g p = (case f p of (ok, p') \<Rightarrow> if ok then (True, p') else g p')"

definition A2DP_VendorInitCodecConfig ::
  "btav_a2dp_codec_index_t \<Rightarrow> buf \<Rightarrow> bool \<times> buf" where
  "A2DP_VendorInitCodecConfig codec_index =
     try_init (A2DP_VendorInitCodecConfigAptx codec_index) (
     try_init (A2DP_VendorInitCodecConfigAptxHd codec_index) (
     try_init (A2DP_VendorInitCodecConfigAptxLl codec_index) (
     try_init (A2DP_VendorInitCodecConfigLdac codec_index) (
     try_init (A2DP_VendorInitCodecConfigOpus codec_index) (
     try_init (A2DP_VendorInitCodecConfigLc3Plus codec_index) (
     try_init (A2DP_VendorInitCodecConfigLhdcV5 codec_index) (
     (\<lambda>p. (False, p)))))))))"

definition A2DP_VendorBuildCodecConfig :: "buf \<Rightarrow> buf \<Rightarrow> bool \<times> buf" where
  "A2DP_VendorBuildCodecConfig p_src_cap p_result =
     (case vendor_codec (A2DP_VendorCodecGetVendorId p_src_cap) (A2DP_VendorCodecGetCodecId p_src_cap) of
        Some V_APTX \<Rightarrow> A2DP_VendorBuildCodecConfigAptx p_src_cap p_result
      | Some V_APTX_HD \<Rightarrow> A2DP_VendorBuildCodecConfigAptxHd p_src_cap p_result
      | Some V_APTX_LL \<Rightarrow> A2DP_VendorBuildCodecConfigAptxLl p_src_cap p_result
      | Some V_LDAC \<Rightarrow> A2DP_VendorBuildCodecConfigLdac p_src_cap p_result
      | Some V_OPUS \<Rightarrow> A2DP_VendorBuildCodecConfigOpus p_src_cap p_result
      | Some V_LC3PLUS \<Rightarrow> A2DP_VendorBuildCodecConfigLc3Plus p_src_cap p_result
      | Some V_LHDCV5 \<Rightarrow> A2DP_VendorBuildCodecConfigLhdcV5 p_src_cap p_result
      | None \<Rightarrow> (False, p_result))"

definition A2DP_VendorCodecName :: "buf \<Rightarrow> string" where
  "A2DP_VendorCodecName p_codec_info =
     (case vendor_codec (A2DP_VendorCodecGetVendorId p_codec_info) (A2DP_VendorCodecGetCodecId p_codec_info) of
        Some V_APTX \<Rightarrow> A2DP_VendorCodecNameAptx p_codec_info
      | Some V_APTX_HD \<Rightarrow> A2DP_VendorCodecNameAptxHd p_codec_info
      | Some V_APTX_LL \<Rightarrow> A2DP_VendorCodecNameAptxLl p_codec_info
      | Some V_LDAC \<Rightarrow> A2DP_VendorCodecNameLdac p_codec_info
      | Some V_OPUS \<Rightarrow> A2DP_VendorCodecNameOpus p_codec_info
      | Some V_LC3PLUS \<Rightarrow> A2DP_VendorCodecNameLc3Plus p_codec_info
      | Some V_LHDCV5 \<Rightarrow> A2DP_VendorCodecNameLhdcV5 p_codec_info
      | None \<Rightarrow> ''UNKNOWN VENDOR CODEC'')"

definition A2DP_VendorCodecTypeEquals :: "buf \<Rightarrow> buf \<Rightarrow> bool" where
  "A2DP_VendorCodecTypeEquals a b =
     (if A2DP_GetCodecType a \<noteq> A2DP_GetCodecType b \<or> A2DP_GetCodecType a \<noteq> A2D_MEDIA_CT_NON_A2DP
      then False
      else if A2DP_VendorCodecGetVendorId a \<noteq> A2DP_VendorCodecGetVendorId b \<or>
              A2DP_VendorCodecGetCodecId a \<noteq> A2DP_VendorCodecGetCodecId b
      then False
      else
     (case vendor_codec (A2DP_VendorCodecGetVendorId a) (A2DP_VendorCodecGetCodecId a) of
        Some V_APTX \<Rightarrow> A2DP_VendorCodecTypeEqualsAptx a b
      | Some V_APTX_HD \<Rightarrow> A2DP_VendorCodecTypeEqualsAptxHd a b
      | Some V_APTX_LL \<Rightarrow> A2DP_VendorCodecTypeEqualsAptxLl a b
      | Some V_LDAC \<Rightarrow> A2DP_VendorCodecTypeEqualsLdac a b
      | Some V_OPUS \<Rightarrow> A2DP_VendorCodecTypeEqualsOpus a b
      | Some V_LC3PLUS \<Rightarrow> A2DP_VendorCodecTypeEqualsLc3Plus a b
      | Some V_LHDCV5 \<Rightarrow> A2DP_VendorCodecTypeEqualsLhdcV5 a b
      | None \<Rightarrow> True))"

definition A2DP_GetVendorDecoderInterface :: "buf \<Rightarrow> tA2DP_DECODER_INTERFACE option" where
  "A2DP_GetVendorDecoderInterface p_codec_info =
     (case vendor_codec (A2DP_VendorCodecGetVendorId p_codec_info) (A2DP_VendorCodecGetCodecId p_codec_info) of
        Some V_APTX \<Rightarrow> A2DP_GetVendorDecoderInterfaceAptx p_codec_info
      | Some V_APTX_HD \<Rightarrow> A2DP_GetVendorDecoderInterfaceAptxHd p_codec_info
      | Some V_APTX_LL \<Rightarrow> A2DP_GetVendorDecoderInterfaceAptxLl p_codec_info
      | Some V_LDAC \<Rightarrow> A2DP_GetVendorDecoderInterfaceLdac p_codec_info
      | Some V_OPUS \<Rightarrow> A2DP_GetVendorDecoderInterfaceOpus p_codec_info
      | Some V_LC3PLUS \<Rightarrow> A2DP_GetVendorDecoderInterfaceLc3Plus p_codec_info
      | Some V_LHDCV5 \<Rightarrow> A2DP_GetVendorDecoderInterfaceLhdcV5 p_codec_info
      | None \<Rightarrow> None)"

subsection \<open>Which codec parsed\<close>

lemmas vendor_ids = A2DP_GetCodecType_def A2DP_VendorCodecGetVendorId_def A2DP_VendorCodecGetCodecId_def

text \<open>What a codec's parser accepts, the dispatcher hands to this codec.\<close>

definition is_vendor :: "vendor_codec_t \<Rightarrow> buf \<Rightarrow> bool" where
  "is_vendor v p \<longleftrightarrow> A2DP_GetCodecType p = A2D_MEDIA_CT_NON_A2DP \<and>
     vendor_codec (A2DP_VendorCodecGetVendorId p) (A2DP_VendorCodecGetCodecId p) = Some v"

lemma vendor_parse_ids:
  "fst (A2DP_ParseInfoAptx (Some a) (Some p) cap) = A2D_SUCCESS \<Longrightarrow> is_vendor V_APTX p"
  "fst (A2DP_ParseInfoAptxHd (Some b) (Some p) cap) = A2D_SUCCESS \<Longrightarrow> is_vendor V_APTX_HD p"
  "fst (A2DP_ParseInfoAptxLl (Some c) (Some p) cap) = A2D_SUCCESS \<Longrightarrow> is_vendor V_APTX_LL p"
  "fst (A2DP_ParseInfoLdac (Some d) (Some p) cap) = A2D_SUCCESS \<Longrightarrow> is_vendor V_LDAC p"
  "fst (A2DP_ParseInfoOpus (Some e) (Some p) cap) = A2D_SUCCESS \<Longrightarrow> is_vendor V_OPUS p"
  "fst (A2DP_ParseInfoLc3Plus (Some f) (Some p) cap) = A2D_SUCCESS \<Longrightarrow> is_vendor V_LC3PLUS p"
  "fst (A2DP_ParseInfoLhdcV5 (Some g) (Some p) cap) = A2D_SUCCESS \<Longrightarrow> is_vendor V_LHDCV5 p"
  using aptx_parse_ids [of a p cap] aptx_hd_parse_ids [of b p cap] aptx_ll_parse_ids [of c p cap]
    ldac_parse_ids [of d p cap] opus_parse_ids [of e p cap] lc3plus_parse_ids [of f p cap]
    lhdcv5_parse_ids [of g p cap]
  by (auto simp: is_vendor_def vendor_codec_def vendor_ids A2DP_VendorCodecIsOpus_def
      a2dp_opus_is_android_def a2dp_opus_is_pipewire_def)

end
