(* ===== verification/A2DP_Codec_Config.thy ===== *)
theory A2DP_Codec_Config
  imports A2D_Sbc A2DP_Aac A2DP_Vendor
begin

text \<open>
  stack/a2dp/a2dp\_codec\_config.c: the dispatch of a codec element to SBC, AAC or the vendor
  codecs by the media codec type (\<open>A2DP_GetCodecType\<close>, octet 2). These are the operations that
  the A2DP profile (bta\_av\_co.c, btc\_av.c, btc\_a2dp\_sink.c) calls.
\<close>

text \<open>The memory behind \<open>p_ie\<close>, as the type of the codec it is handed to.\<close>

datatype a2dp_cie = CIE_SBC tA2D_SBC_CIE | CIE_AAC tA2DP_AAC_CIE | CIE_VENDOR vendor_cie

definition A2DP_ParseInfo :: "buf \<Rightarrow> bool \<Rightarrow> u8 \<times> a2dp_cie option" where
  "A2DP_ParseInfo p_codec_info is_capability =
     (let codec_type = A2DP_GetCodecType p_codec_info
      in if codec_type = A2D_MEDIA_CT_SBC then
           map_prod id (map_option CIE_SBC)
             (A2D_ParsSbcInfo (Some sbc_cie_local) (Some p_codec_info) is_capability)
         else if codec_type = A2D_MEDIA_CT_M24 then
           map_prod id (map_option CIE_AAC)
             (A2DP_ParseInfoAac (Some aac_cie_local) (Some p_codec_info) is_capability)
         else if codec_type = A2D_MEDIA_CT_NON_A2DP then
           map_prod id (map_option CIE_VENDOR) (A2DP_VendorParseInfo p_codec_info is_capability)
         else (A2D_FAIL, None))"

definition A2DP_IsPeerSinkCodecValid :: "buf \<Rightarrow> bool" where
  "A2DP_IsPeerSinkCodecValid p_codec_info =
     (let codec_type = A2DP_GetCodecType p_codec_info
      in if codec_type = A2D_MEDIA_CT_SBC then A2DP_IsPeerSinkCodecValidSbc p_codec_info
         else if codec_type = A2D_MEDIA_CT_M24 then A2DP_IsPeerSinkCodecValidAac p_codec_info
         else if codec_type = A2D_MEDIA_CT_NON_A2DP then A2DP_IsVendorPeerSinkCodecValid p_codec_info
         else False)"

definition A2DP_IsSinkCodecSupported :: "buf \<Rightarrow> u8" where
  "A2DP_IsSinkCodecSupported p_codec_info =
     (let codec_type = A2DP_GetCodecType p_codec_info
      in if codec_type = A2D_MEDIA_CT_SBC then A2DP_IsSinkCodecSupportedSbc p_codec_info
         else if codec_type = A2D_MEDIA_CT_M24 then A2DP_IsSinkCodecSupportedAac p_codec_info
         else if codec_type = A2D_MEDIA_CT_NON_A2DP then A2DP_IsVendorSinkCodecSupported p_codec_info
         else A2D_FAIL)"

definition A2DP_IsPeerSourceCodecSupported :: "buf \<Rightarrow> u8" where
  "A2DP_IsPeerSourceCodecSupported p_codec_info =
     (let codec_type = A2DP_GetCodecType p_codec_info
      in if codec_type = A2D_MEDIA_CT_SBC then A2DP_IsPeerSourceCodecSupportedSbc p_codec_info
         else if codec_type = A2D_MEDIA_CT_M24 then A2DP_IsPeerSourceCodecSupportedAac p_codec_info
         else if codec_type = A2D_MEDIA_CT_NON_A2DP then A2DP_IsVendorPeerSourceCodecSupported p_codec_info
         else A2D_FAIL)"

definition A2DP_GetDecoderInterface :: "buf \<Rightarrow> tA2DP_DECODER_INTERFACE option" where
  "A2DP_GetDecoderInterface p_codec_info =
     (let codec_type = A2DP_GetCodecType p_codec_info
      in if codec_type = A2D_MEDIA_CT_SBC then A2DP_GetDecoderInterfaceSbc p_codec_info
         else if codec_type = A2D_MEDIA_CT_M24 then A2DP_GetDecoderInterfaceAac p_codec_info
         else if codec_type = A2D_MEDIA_CT_NON_A2DP then A2DP_GetVendorDecoderInterface p_codec_info
         else None)"

definition A2DP_SinkCodecIndex :: "buf \<Rightarrow> btav_a2dp_codec_index_t" where
  "A2DP_SinkCodecIndex p_codec_info =
     (let codec_type = A2DP_GetCodecType p_codec_info
      in if codec_type = A2D_MEDIA_CT_SBC then A2DP_SinkCodecIndexSbc p_codec_info
         else if codec_type = A2D_MEDIA_CT_M24 then A2DP_SinkCodecIndexAac p_codec_info
         else if codec_type = A2D_MEDIA_CT_NON_A2DP then A2DP_VendorSinkCodecIndex p_codec_info
         else BTAV_A2DP_CODEC_INDEX_MAX)"

definition A2DP_SourceCodecIndex :: "buf \<Rightarrow> btav_a2dp_codec_index_t" where
  "A2DP_SourceCodecIndex p_codec_info =
     (let codec_type = A2DP_GetCodecType p_codec_info
      in if codec_type = A2D_MEDIA_CT_SBC then A2DP_SourceCodecIndexSbc p_codec_info
         else if codec_type = A2D_MEDIA_CT_M24 then A2DP_SourceCodecIndexAac p_codec_info
         else if codec_type = A2D_MEDIA_CT_NON_A2DP then A2DP_VendorSourceCodecIndex p_codec_info
         else BTAV_A2DP_CODEC_INDEX_MAX)"

definition A2DP_InitCodecConfig :: "btav_a2dp_codec_index_t \<Rightarrow> buf \<Rightarrow> bool \<times> buf" where
  "A2DP_InitCodecConfig codec_index =
     try_init (A2DP_InitCodecConfigSbc codec_index) (
     try_init (A2DP_InitCodecConfigAac codec_index) (
     try_init (A2DP_VendorInitCodecConfig codec_index) (\<lambda>p. (False, p))))"

definition A2DP_BuildCodecConfig :: "buf \<Rightarrow> buf \<Rightarrow> bool \<times> buf" where
  "A2DP_BuildCodecConfig p_src_cap p_result =
     (let codec_type = A2DP_GetCodecType p_src_cap
      in if codec_type = A2D_MEDIA_CT_SBC then A2DP_BuildCodecConfigSbc p_src_cap p_result
         else if codec_type = A2D_MEDIA_CT_M24 then A2DP_BuildCodecConfigAac p_src_cap p_result
         else if codec_type = A2D_MEDIA_CT_NON_A2DP then A2DP_VendorBuildCodecConfig p_src_cap p_result
         else (False, p_result))"

definition A2DP_CodecName :: "buf \<Rightarrow> string" where
  "A2DP_CodecName p_codec_info =
     (let codec_type = A2DP_GetCodecType p_codec_info
      in if codec_type = A2D_MEDIA_CT_SBC then A2DP_CodecNameSbc p_codec_info
         else if codec_type = A2D_MEDIA_CT_M24 then A2DP_CodecNameAac p_codec_info
         else if codec_type = A2D_MEDIA_CT_NON_A2DP then A2DP_VendorCodecName p_codec_info
         else ''UNKNOWN CODEC'')"

definition A2DP_CodecTypeEquals :: "buf \<Rightarrow> buf \<Rightarrow> bool" where
  "A2DP_CodecTypeEquals a b =
     (let codec_type_a = A2DP_GetCodecType a; codec_type_b = A2DP_GetCodecType b
      in if codec_type_a \<noteq> codec_type_b then False
         else if codec_type_a = A2D_MEDIA_CT_SBC then A2DP_CodecTypeEqualsSbc a b
         else if codec_type_a = A2D_MEDIA_CT_M24 then A2DP_CodecTypeEqualsAac a b
         else if codec_type_a = A2D_MEDIA_CT_NON_A2DP then A2DP_VendorCodecTypeEquals a b
         else False)"

subsection \<open>Automation\<close>

text \<open>
  Every operation splits into the codecs: the media codec type first, then the vendor codec. The
  bundles unfold the three layers.
\<close>

lemmas vendor_dispatch =
  A2DP_VendorParseInfo_def A2DP_IsVendorPeerSinkCodecValid_def
  A2DP_IsVendorPeerSourceCodecSupported_def A2DP_VendorSinkCodecIndex_def
  A2DP_VendorSourceCodecIndex_def A2DP_VendorBuildCodecConfig_def A2DP_VendorCodecName_def
  A2DP_VendorCodecTypeEquals_def A2DP_GetVendorDecoderInterface_def

lemmas codec_dispatch =
  A2DP_ParseInfo_def A2DP_IsPeerSinkCodecValid_def A2DP_IsPeerSourceCodecSupported_def
  A2DP_GetDecoderInterface_def A2DP_SinkCodecIndex_def A2DP_SourceCodecIndex_def
  A2DP_BuildCodecConfig_def A2DP_CodecName_def A2DP_CodecTypeEquals_def Let_def

lemmas peer_sink_valid =
  A2DP_IsPeerSinkCodecValidSbc_def A2DP_IsPeerSinkCodecValidAac_def
  A2DP_IsVendorPeerSinkCodecValidAptx_def A2DP_IsVendorPeerSinkCodecValidAptxHd_def
  A2DP_IsVendorPeerSinkCodecValidAptxLl_def A2DP_IsVendorPeerSinkCodecValidLdac_def
  A2DP_IsVendorPeerSinkCodecValidOpus_def A2DP_IsVendorPeerSinkCodecValidLc3Plus_def
  A2DP_IsVendorPeerSinkCodecValidLhdcV5_def

lemmas decoder_interfaces =
  A2DP_GetDecoderInterfaceSbc_def A2DP_GetDecoderInterfaceAac_def
  A2DP_GetVendorDecoderInterfaceAptx_def A2DP_GetVendorDecoderInterfaceAptxHd_def
  A2DP_GetVendorDecoderInterfaceAptxLl_def A2DP_GetVendorDecoderInterfaceLdac_def
  A2DP_GetVendorDecoderInterfaceOpus_def A2DP_GetVendorDecoderInterfaceLc3Plus_def
  A2DP_GetVendorDecoderInterfaceLhdcV5_def

lemmas sink_indexes =
  A2DP_SinkCodecIndexSbc_def A2DP_SinkCodecIndexAac_def
  A2DP_VendorSinkCodecIndexAptx_def A2DP_VendorSinkCodecIndexAptxHd_def
  A2DP_VendorSinkCodecIndexAptxLl_def A2DP_VendorSinkCodecIndexLdac_def
  A2DP_VendorSinkCodecIndexLc3Plus_def A2DP_VendorSinkCodecIndexLhdcV5_def

lemma codec_cases:
  obtains
    (sbc) "A2DP_GetCodecType p = A2D_MEDIA_CT_SBC"
  | (aac) "A2DP_GetCodecType p = A2D_MEDIA_CT_M24"
  | (vendor) v where "A2DP_GetCodecType p = A2D_MEDIA_CT_NON_A2DP"
      "vendor_codec (A2DP_VendorCodecGetVendorId p) (A2DP_VendorCodecGetCodecId p) = Some v"
  | (unknown_vendor) "A2DP_GetCodecType p = A2D_MEDIA_CT_NON_A2DP"
      "vendor_codec (A2DP_VendorCodecGetVendorId p) (A2DP_VendorCodecGetCodecId p) = None"
  | (unknown) "A2DP_GetCodecType p \<noteq> A2D_MEDIA_CT_SBC" "A2DP_GetCodecType p \<noteq> A2D_MEDIA_CT_M24"
      "A2DP_GetCodecType p \<noteq> A2D_MEDIA_CT_NON_A2DP"
  by (cases "vendor_codec (A2DP_VendorCodecGetVendorId p) (A2DP_VendorCodecGetCodecId p)") auto

lemma A2DP_GetDecoderInterface_iff:
  "A2DP_GetDecoderInterface p \<noteq> None \<longleftrightarrow> A2DP_IsPeerSinkCodecValid p"
proof (cases p rule: codec_cases)
  case (vendor v)
  then show ?thesis by (cases v) (simp_all add: codec_dispatch vendor_dispatch decoder_interfaces)
qed (simp_all add: codec_dispatch vendor_dispatch decoder_interfaces peer_sink_valid
      A2DP_IsSinkCodecValidSbc_def A2DP_IsSinkCodecValidAac_def)

text \<open>What the decoder of an index is.\<close>

fun index_decoder :: "btav_a2dp_codec_index_t \<Rightarrow> tA2DP_DECODER_INTERFACE option" where
  "index_decoder BTAV_A2DP_CODEC_INDEX_SINK_SBC = Some a2dp_decoder_interface_sbc"
| "index_decoder BTAV_A2DP_CODEC_INDEX_SINK_AAC = Some a2dp_decoder_interface_aac"
| "index_decoder BTAV_A2DP_CODEC_INDEX_SINK_APTX = Some a2dp_decoder_interface_aptx"
| "index_decoder BTAV_A2DP_CODEC_INDEX_SINK_APTX_HD = Some a2dp_decoder_interface_aptx_hd"
| "index_decoder BTAV_A2DP_CODEC_INDEX_SINK_APTX_LL = Some a2dp_decoder_interface_aptx_ll"
| "index_decoder BTAV_A2DP_CODEC_INDEX_SINK_LDAC = Some a2dp_decoder_interface_ldac"
| "index_decoder BTAV_A2DP_CODEC_INDEX_SINK_OPUS = Some a2dp_decoder_interface_opus"
| "index_decoder BTAV_A2DP_CODEC_INDEX_SINK_OPUS_ANDROID = Some a2dp_decoder_interface_opus"
| "index_decoder BTAV_A2DP_CODEC_INDEX_SINK_LC3PLUS = Some a2dp_decoder_interface_lc3plus"
| "index_decoder BTAV_A2DP_CODEC_INDEX_SINK_LHDCV5 = Some a2dp_decoder_interface_lhdcv5"
| "index_decoder _ = None"

lemma opus_index_valid:
  assumes "A2DP_IsVendorPeerSinkCodecValidOpus p"
  shows "A2DP_VendorSinkCodecIndexOpus p \<in> {BTAV_A2DP_CODEC_INDEX_SINK_OPUS, BTAV_A2DP_CODEC_INDEX_SINK_OPUS_ANDROID}"
proof -
  obtain st c1 where p1: "A2DP_ParseInfoOpus (Some opus_cie_zero) (Some p) True = (st, Some c1)"
    using opus.parse_some [of opus_cie_zero p True]
    by (cases "A2DP_ParseInfoOpus (Some opus_cie_zero) (Some p) True") auto
  obtain st' c2 where p2: "A2DP_ParseInfoOpus (Some c1) (Some p) False = (st', c2)"
    by (cases "A2DP_ParseInfoOpus (Some c1) (Some p) False")
  have "st' = fst (A2DP_ParseInfoOpus (Some opus_cie_zero) (Some p) False)"
    using opus.parse_status [of c1 p False opus_cie_zero] p2 by simp
  with assms p1 have "st = A2D_SUCCESS \<or> st' = A2D_SUCCESS"
    by (auto simp: A2DP_IsVendorPeerSinkCodecValidOpus_def)
  then show ?thesis
    unfolding A2DP_VendorSinkCodecIndexOpus_def p1 by (cases "st = A2D_SUCCESS") (simp_all add: p2)
qed

lemma A2DP_GetDecoderInterface_index:
  "A2DP_GetDecoderInterface p = (if A2DP_IsPeerSinkCodecValid p then index_decoder (A2DP_SinkCodecIndex p) else None)"
proof (cases p rule: codec_cases)
  case (vendor v)
  then show ?thesis
    using opus_index_valid [of p]
    by (cases v) (auto simp: codec_dispatch vendor_dispatch decoder_interfaces sink_indexes)
qed (simp_all add: codec_dispatch vendor_dispatch decoder_interfaces peer_sink_valid sink_indexes
      A2DP_IsSinkCodecValidSbc_def A2DP_IsSinkCodecValidAac_def)

text \<open>A parse of the dispatcher reads no byte beyond the array of a codec element.\<close>

lemma vendor_ids_local:
  "buf_agree AVDT_CODEC_SIZE b b' \<Longrightarrow> A2DP_VendorCodecGetVendorId b = A2DP_VendorCodecGetVendorId b'"
  "buf_agree AVDT_CODEC_SIZE b b' \<Longrightarrow> A2DP_VendorCodecGetCodecId b = A2DP_VendorCodecGetCodecId b'"
  "buf_agree AVDT_CODEC_SIZE b b' \<Longrightarrow> A2DP_GetCodecType b = A2DP_GetCodecType b'"
  by (simp_all add: A2DP_VendorCodecGetVendorId_def A2DP_VendorCodecGetCodecId_def
      A2DP_GetCodecType_def agree_simps [of 30])

lemmas parse_prefixes =
  sbc.parse_prefix aac.parse_prefix aptx.parse_prefix aptx_hd.parse_prefix aptx_ll.parse_prefix
  ldac.parse_prefix opus.parse_prefix lc3plus.parse_prefix lhdcv5.parse_prefix

lemma A2DP_ParseInfo_local:
  assumes "buf_agree AVDT_CODEC_SIZE b b'"
  shows "A2DP_ParseInfo b cap = A2DP_ParseInfo b' cap"
proof (cases b' rule: codec_cases)
  case (vendor v)
  then show ?thesis
    by (cases v) (simp_all add: A2DP_ParseInfo_def A2DP_VendorParseInfo_def
        vendor_ids_local [OF assms] parse_prefixes [OF assms] Let_def)
qed (simp_all add: A2DP_ParseInfo_def A2DP_VendorParseInfo_def vendor_ids_local [OF assms]
    parse_prefixes [OF assms] Let_def)

subsection \<open>From the codecs to the dispatcher\<close>

lemma sbc_parse_type:
  "fst (A2D_ParsSbcInfo (Some ie) (Some p) cap) = A2D_SUCCESS \<Longrightarrow> A2DP_GetCodecType p = A2D_MEDIA_CT_SBC"
  by (simp add: A2D_ParsSbcInfo_def A2DP_GetCodecType_def Let_def split: if_split_asm)

lemma aac_parse_type:
  "fst (A2DP_ParseInfoAac (Some ie) (Some p) cap) = A2D_SUCCESS \<Longrightarrow> A2DP_GetCodecType p = A2D_MEDIA_CT_M24"
  by (simp add: A2DP_ParseInfoAac_def A2DP_GetCodecType_def Let_def split: if_split_asm)

text \<open>The Opus kind that the index reports, by the ids.\<close>

lemma opus_parse_variant:
  "A2DP_ParseInfoOpus (Some ie0) (Some p) cap = (A2D_SUCCESS, Some ie) \<Longrightarrow>
    opus_variant ie = (if a2dp_opus_is_android (A2DP_VendorCodecGetVendorId p) (A2DP_VendorCodecGetCodecId p)
      then A2DP_OPUS_VARIANT_ANDROID else A2DP_OPUS_VARIANT_PIPEWIRE)"
  by (auto simp: A2DP_ParseInfoOpus_eq a2dp_opus_is_android_def vendor_ids opus_rd_android_def
      opus_rd_pipewire_def opus_cie_zero_def)

lemma opus_sink_index:
  assumes "fst (A2DP_ParseInfoOpus (Some ie) (Some p) cap) = A2D_SUCCESS"
  shows "A2DP_VendorSinkCodecIndexOpus p =
    (if a2dp_opus_is_android (A2DP_VendorCodecGetVendorId p) (A2DP_VendorCodecGetCodecId p)
     then BTAV_A2DP_CODEC_INDEX_SINK_OPUS_ANDROID else BTAV_A2DP_CODEC_INDEX_SINK_OPUS)"
proof -
  obtain st c1 where p1: "A2DP_ParseInfoOpus (Some opus_cie_zero) (Some p) True = (st, Some c1)"
    using opus.parse_some [of opus_cie_zero p True]
    by (cases "A2DP_ParseInfoOpus (Some opus_cie_zero) (Some p) True") auto
  obtain st' c2 where p2: "A2DP_ParseInfoOpus (Some c1) (Some p) False = (st', Some c2)"
    using opus.parse_some [of c1 p False]
    by (cases "A2DP_ParseInfoOpus (Some c1) (Some p) False") auto
  have "st = A2D_SUCCESS \<or> st' = A2D_SUCCESS"
    using assms p1 p2 opus.parse_status [of ie p] by (cases cap) (metis fst_conv)+
  then show ?thesis
    unfolding A2DP_VendorSinkCodecIndexOpus_def p1
    using opus_parse_variant [of opus_cie_zero p True c1] opus_parse_variant [of c1 p False c2] p1 p2
    by (cases "st = A2D_SUCCESS") simp_all
qed

lemma A2DP_BuildCodecConfig_beyond:
  assumes "AVDT_CODEC_SIZE \<le> k"
  shows "snd (A2DP_BuildCodecConfig src r) k = r k"
proof (cases src rule: codec_cases)
  case aac
  show ?thesis using assms
    by (simp add: aac codec_dispatch A2DP_BuildCodecConfigAac_def case_prod_unfold aac.build_beyond)
next
  case (vendor v)
  then show ?thesis using assms
    by (cases v) (simp_all add: codec_dispatch vendor_dispatch aptx.negotiate_beyond
        aptx_hd.negotiate_beyond aptx_ll.negotiate_beyond ldac.negotiate_beyond opus.negotiate_beyond
        lc3plus.negotiate_beyond lhdcv5.negotiate_beyond)
qed (use assms in \<open>simp_all add: codec_dispatch vendor_dispatch sbc.negotiate_beyond\<close>)

lemmas negotiate_prefixes =
  sbc.negotiate_prefix aptx.negotiate_prefix aptx_hd.negotiate_prefix aptx_ll.negotiate_prefix
  ldac.negotiate_prefix opus.negotiate_prefix lc3plus.negotiate_prefix lhdcv5.negotiate_prefix

lemma A2DP_BuildCodecConfig_local:
  assumes "buf_agree AVDT_CODEC_SIZE src src'"
  shows "A2DP_BuildCodecConfig src r = A2DP_BuildCodecConfig src' r"
proof (cases src' rule: codec_cases)
  case (vendor v)
  then show ?thesis
    by (cases v) (simp_all add: codec_dispatch vendor_dispatch vendor_ids_local [OF assms]
        negotiate_prefixes [OF assms])
qed (simp_all add: codec_dispatch vendor_dispatch vendor_ids_local [OF assms]
    negotiate_prefixes [OF assms] A2DP_BuildCodecConfigAac_def)

lemmas negotiated_caps =
  sbc.negotiated_needs_capability aptx.negotiated_needs_capability aptx_hd.negotiated_needs_capability
  aptx_ll.negotiated_needs_capability ldac.negotiated_needs_capability opus.negotiated_needs_capability
  lc3plus.negotiated_needs_capability lhdcv5.negotiated_needs_capability

lemmas negotiated_configs =
  sbc.negotiated_is_config aptx.negotiated_is_config aptx_hd.negotiated_is_config
  aptx_ll.negotiated_is_config ldac.negotiated_is_config opus.negotiated_is_config
  lc3plus.negotiated_is_config lhdcv5.negotiated_is_config

text \<open>The octets written are those of a configuration of the same codec.\<close>

lemmas negotiated_vendor =
  vendor_parse_ids(1) [OF aptx.negotiated_is_config] vendor_parse_ids(2) [OF aptx_hd.negotiated_is_config]
  vendor_parse_ids(3) [OF aptx_ll.negotiated_is_config] vendor_parse_ids(4) [OF ldac.negotiated_is_config]
  vendor_parse_ids(5) [OF opus.negotiated_is_config] vendor_parse_ids(6) [OF lc3plus.negotiated_is_config]
  vendor_parse_ids(7) [OF lhdcv5.negotiated_is_config]

lemma A2DP_BuildCodecConfig_vendor:
  assumes "A2DP_BuildCodecConfig src r = (True, r')" and "is_vendor v src"
  shows "is_vendor v r'" and "fst (A2DP_ParseInfo src True) = A2D_SUCCESS"
    and "fst (A2DP_ParseInfo r' False) = A2D_SUCCESS"
proof -
  have b: "A2DP_VendorBuildCodecConfig src r = (True, r')"
    using assms by (simp add: codec_dispatch is_vendor_def)
  have "is_vendor v r' \<and> fst (A2DP_VendorParseInfo src True) = A2D_SUCCESS \<and>
      fst (A2DP_VendorParseInfo r' False) = A2D_SUCCESS"
  proof (cases v)
    case V_APTX
    with assms b have n: "A2DP_VendorBuildCodecConfigAptx src r = (True, r')"
      by (simp add: vendor_dispatch is_vendor_def)
    show ?thesis using negotiated_vendor(1) [OF n] negotiated_configs(2) [OF n] negotiated_caps(2) [OF n]
        assms(2) V_APTX by (simp add: vendor_dispatch is_vendor_def)
  next
    case V_APTX_HD
    with assms b have n: "A2DP_VendorBuildCodecConfigAptxHd src r = (True, r')"
      by (simp add: vendor_dispatch is_vendor_def)
    show ?thesis using negotiated_vendor(2) [OF n] negotiated_configs(3) [OF n] negotiated_caps(3) [OF n]
        assms(2) V_APTX_HD by (simp add: vendor_dispatch is_vendor_def)
  next
    case V_APTX_LL
    with assms b have n: "A2DP_VendorBuildCodecConfigAptxLl src r = (True, r')"
      by (simp add: vendor_dispatch is_vendor_def)
    show ?thesis using negotiated_vendor(3) [OF n] negotiated_configs(4) [OF n] negotiated_caps(4) [OF n]
        assms(2) V_APTX_LL by (simp add: vendor_dispatch is_vendor_def)
  next
    case V_LDAC
    with assms b have n: "A2DP_VendorBuildCodecConfigLdac src r = (True, r')"
      by (simp add: vendor_dispatch is_vendor_def)
    show ?thesis using negotiated_vendor(4) [OF n] negotiated_configs(5) [OF n] negotiated_caps(5) [OF n]
        assms(2) V_LDAC by (simp add: vendor_dispatch is_vendor_def)
  next
    case V_OPUS
    with assms b have n: "A2DP_VendorBuildCodecConfigOpus src r = (True, r')"
      by (simp add: vendor_dispatch is_vendor_def)
    show ?thesis using negotiated_vendor(5) [OF n] negotiated_configs(6) [OF n] negotiated_caps(6) [OF n]
        assms(2) V_OPUS by (simp add: vendor_dispatch is_vendor_def)
  next
    case V_LC3PLUS
    with assms b have n: "A2DP_VendorBuildCodecConfigLc3Plus src r = (True, r')"
      by (simp add: vendor_dispatch is_vendor_def)
    show ?thesis using negotiated_vendor(6) [OF n] negotiated_configs(7) [OF n] negotiated_caps(7) [OF n]
        assms(2) V_LC3PLUS by (simp add: vendor_dispatch is_vendor_def)
  next
    case V_LHDCV5
    with assms b have n: "A2DP_VendorBuildCodecConfigLhdcV5 src r = (True, r')"
      by (simp add: vendor_dispatch is_vendor_def)
    show ?thesis using negotiated_vendor(7) [OF n] negotiated_configs(8) [OF n] negotiated_caps(8) [OF n]
        assms(2) V_LHDCV5 by (simp add: vendor_dispatch is_vendor_def)
  qed
  then show "is_vendor v r'" and "fst (A2DP_ParseInfo src True) = A2D_SUCCESS"
    and "fst (A2DP_ParseInfo r' False) = A2D_SUCCESS"
    using assms(2) by (simp_all add: A2DP_ParseInfo_def is_vendor_def)
qed

lemma A2DP_BuildCodecConfig_config:
  assumes "A2DP_BuildCodecConfig src r = (True, r')" and "A2DP_GetCodecType src \<noteq> A2D_MEDIA_CT_M24"
  shows "A2DP_GetCodecType r' = A2DP_GetCodecType src" and "fst (A2DP_ParseInfo src True) = A2D_SUCCESS"
    and "fst (A2DP_ParseInfo r' False) = A2D_SUCCESS"
proof -
  have "A2DP_GetCodecType r' = A2DP_GetCodecType src \<and> fst (A2DP_ParseInfo src True) = A2D_SUCCESS \<and>
    fst (A2DP_ParseInfo r' False) = A2D_SUCCESS"
  proof (cases src rule: codec_cases)
    case sbc
    then have b: "A2DP_BuildCodecConfigSbc src r = (True, r')"
      using assms by (simp add: codec_dispatch)
    then show ?thesis
      using sbc sbc_parse_type [OF negotiated_configs(1) [OF b]]
        negotiated_configs(1) [OF b] negotiated_caps(1) [OF b] by (simp add: A2DP_ParseInfo_def)
  next
    case aac
    then show ?thesis using assms by simp
  next
    case (vendor v)
    then have "is_vendor v src" by (simp add: is_vendor_def)
    from A2DP_BuildCodecConfig_vendor [OF assms(1) this] vendor show ?thesis
      by (simp add: is_vendor_def)
  next
    case unknown_vendor
    then show ?thesis using assms by (simp add: codec_dispatch vendor_dispatch)
  next
    case unknown
    then show ?thesis using assms by (simp add: codec_dispatch)
  qed
  then show "A2DP_GetCodecType r' = A2DP_GetCodecType src" and "fst (A2DP_ParseInfo src True) = A2D_SUCCESS"
    and "fst (A2DP_ParseInfo r' False) = A2D_SUCCESS" by blast+
qed

subsection \<open>Own capabilities\<close>

text \<open>The capability elements of the device are well-formed, so the initialisers succeed.\<close>

lemma sink_caps_wf:
  "sbc_wf a2dp_sbc_sink_caps" "sbc_wf a2dp_sbc_src_caps" "aac_wf a2dp_aac_sink_caps"
  "aptx_wf a2dp_aptx_sink_caps" "aptx_hd_wf a2dp_aptx_hd_sink_caps" "aptx_ll_wf a2dp_aptx_ll_sink_caps"
  "ldac_wf a2dp_ldac_sink_caps" "opus_wf a2dp_opus_pipewire_sink_caps" "opus_wf a2dp_opus_android_sink_caps"
  "lc3plus_wf a2dp_lc3plus_sink_caps" "lhdcv5_wf a2dp_lhdcv5_sink_caps"
  by (simp_all add: sbc_wf_def a2dp_sbc_sink_caps_def a2dp_sbc_src_caps_def aac_wf_def
      a2dp_aac_sink_caps_def aptx_wf_def a2dp_aptx_sink_caps_def aptx_hd_wf_def
      a2dp_aptx_hd_sink_caps_def aptx_ll_wf_def a2dp_aptx_ll_sink_caps_def ldac_wf_def
      a2dp_ldac_sink_caps_def opus_wf_def opus_wf_pipewire_def opus_wf_android_def opus_cie_zero_def
      a2dp_opus_pipewire_sink_caps_def a2dp_opus_android_sink_caps_def lc3plus_wf_def
      a2dp_lc3plus_sink_caps_def lhdcv5_wf_def a2dp_lhdcv5_sink_caps_def)

lemmas init_configs =
  A2DP_InitCodecConfig_def A2DP_VendorInitCodecConfig_def try_init_def
  A2DP_InitCodecConfigSbc_def A2DP_InitCodecConfigAac_def A2DP_VendorInitCodecConfigAptx_def
  A2DP_VendorInitCodecConfigAptxHd_def A2DP_VendorInitCodecConfigAptxLl_def
  A2DP_VendorInitCodecConfigLdac_def A2DP_VendorInitCodecConfigOpus_def
  A2DP_VendorInitCodecConfigLc3Plus_def A2DP_VendorInitCodecConfigLhdcV5_def

lemmas init_sinks =
  A2DP_InitCodecConfigSbcSink_def A2DP_InitCodecConfigSbcSrc_def A2DP_InitCodecConfigAacSink_def
  A2DP_VendorInitCodecConfigAptxSink_def A2DP_VendorInitCodecConfigAptxHdSink_def
  A2DP_VendorInitCodecConfigAptxLlSink_def A2DP_VendorInitCodecConfigLdacSink_def
  A2DP_VendorInitCodecConfigLc3PlusSink_def A2DP_VendorInitCodecConfigLhdcV5Sink_def

text \<open>The index of an element, from what its parser accepts.\<close>

lemma vendor_index:
  "is_vendor v p \<Longrightarrow> A2DP_SinkCodecIndex p = A2DP_VendorSinkCodecIndex p"
  "is_vendor v p \<Longrightarrow> A2DP_ParseInfo p cap = map_prod id (map_option CIE_VENDOR) (A2DP_VendorParseInfo p cap)"
  by (simp_all add: codec_dispatch is_vendor_def)

definition inits :: "btav_a2dp_codec_index_t \<Rightarrow> buf \<Rightarrow> btav_a2dp_codec_index_t \<Rightarrow> bool" where
  "inits idx p idx' \<longleftrightarrow> (\<exists>p'. A2DP_InitCodecConfig idx p = (True, p') \<and>
     fst (A2DP_ParseInfo p' True) = A2D_SUCCESS \<and> A2DP_SinkCodecIndex p' = idx')"

lemma inits_rules:
  assumes "A2DP_InitCodecConfig idx p = (True, p')"
  shows "fst (A2D_ParsSbcInfo (Some sbc_cie_local) (Some p') True) = A2D_SUCCESS \<Longrightarrow>
      inits idx p BTAV_A2DP_CODEC_INDEX_SINK_SBC"
    and "fst (A2DP_ParseInfoAac (Some aac_cie_local) (Some p') True) = A2D_SUCCESS \<Longrightarrow>
      inits idx p BTAV_A2DP_CODEC_INDEX_SINK_AAC"
    and "fst (A2DP_ParseInfoAptx (Some aptx_cie_local) (Some p') True) = A2D_SUCCESS \<Longrightarrow>
      inits idx p BTAV_A2DP_CODEC_INDEX_SINK_APTX"
    and "fst (A2DP_ParseInfoAptxHd (Some aptx_hd_cie_local) (Some p') True) = A2D_SUCCESS \<Longrightarrow>
      inits idx p BTAV_A2DP_CODEC_INDEX_SINK_APTX_HD"
    and "fst (A2DP_ParseInfoAptxLl (Some aptx_ll_cie_local) (Some p') True) = A2D_SUCCESS \<Longrightarrow>
      inits idx p BTAV_A2DP_CODEC_INDEX_SINK_APTX_LL"
    and "fst (A2DP_ParseInfoLdac (Some ldac_cie_local) (Some p') True) = A2D_SUCCESS \<Longrightarrow>
      inits idx p BTAV_A2DP_CODEC_INDEX_SINK_LDAC"
    and "fst (A2DP_ParseInfoLc3Plus (Some lc3plus_cie_local) (Some p') True) = A2D_SUCCESS \<Longrightarrow>
      inits idx p BTAV_A2DP_CODEC_INDEX_SINK_LC3PLUS"
    and "fst (A2DP_ParseInfoLhdcV5 (Some lhdcv5_cie_zero) (Some p') True) = A2D_SUCCESS \<Longrightarrow>
      inits idx p BTAV_A2DP_CODEC_INDEX_SINK_LHDCV5"
    and "fst (A2DP_ParseInfoOpus (Some opus_cie_zero) (Some p') True) = A2D_SUCCESS \<Longrightarrow>
      inits idx p (if a2dp_opus_is_android (A2DP_VendorCodecGetVendorId p') (A2DP_VendorCodecGetCodecId p')
        then BTAV_A2DP_CODEC_INDEX_SINK_OPUS_ANDROID else BTAV_A2DP_CODEC_INDEX_SINK_OPUS)"
  using assms sbc_parse_type [of sbc_cie_local p' True] aac_parse_type [of aac_cie_local p' True]
    vendor_parse_ids(1) [of aptx_cie_local p' True] vendor_parse_ids(2) [of aptx_hd_cie_local p' True]
    vendor_parse_ids(3) [of aptx_ll_cie_local p' True] vendor_parse_ids(4) [of ldac_cie_local p' True]
    vendor_parse_ids(5) [of opus_cie_zero p' True] vendor_parse_ids(6) [of lc3plus_cie_local p' True]
    vendor_parse_ids(7) [of lhdcv5_cie_zero p' True] opus_sink_index [of opus_cie_zero p' True]
  by (simp_all add: inits_def codec_dispatch vendor_dispatch sink_indexes is_vendor_def)

text \<open>Every initialiser of a sink, and the one of the SBC source, one by one.\<close>

lemma inits_SINK_SBC: "inits BTAV_A2DP_CODEC_INDEX_SINK_SBC p BTAV_A2DP_CODEC_INDEX_SINK_SBC"
proof (rule sbc.built [OF sink_caps_wf(1), of p])
  fix p'
  assume b: "A2D_BldSbcInfo A2D_MEDIA_TYPE_AUDIO (Some a2dp_sbc_sink_caps) (Some p) = (A2D_SUCCESS, Some p')"
    and parse: "\<And>ie0. A2D_ParsSbcInfo (Some ie0) (Some p') True = (A2D_SUCCESS, Some (sbc_norm ie0 a2dp_sbc_sink_caps))"
  have "A2DP_InitCodecConfig BTAV_A2DP_CODEC_INDEX_SINK_SBC p = (True, p')"
    by (simp add: init_configs init_sinks b)
  then show ?thesis
    by (rule inits_rules(1)) (simp add: parse)
qed

lemma inits_SOURCE_SBC: "inits BTAV_A2DP_CODEC_INDEX_SOURCE_SBC p BTAV_A2DP_CODEC_INDEX_SINK_SBC"
proof (rule sbc.built [OF sink_caps_wf(2), of p])
  fix p'
  assume b: "A2D_BldSbcInfo A2D_MEDIA_TYPE_AUDIO (Some a2dp_sbc_src_caps) (Some p) = (A2D_SUCCESS, Some p')"
    and parse: "\<And>ie0. A2D_ParsSbcInfo (Some ie0) (Some p') True = (A2D_SUCCESS, Some (sbc_norm ie0 a2dp_sbc_src_caps))"
  have "A2DP_InitCodecConfig BTAV_A2DP_CODEC_INDEX_SOURCE_SBC p = (True, p')"
    by (simp add: init_configs init_sinks b)
  then show ?thesis
    by (rule inits_rules(1)) (simp add: parse)
qed

lemma inits_SINK_AAC: "inits BTAV_A2DP_CODEC_INDEX_SINK_AAC p BTAV_A2DP_CODEC_INDEX_SINK_AAC"
proof (rule aac.built [OF sink_caps_wf(3), of p])
  fix p'
  assume b: "A2DP_BuildInfoAac A2D_MEDIA_TYPE_AUDIO (Some a2dp_aac_sink_caps) (Some p) = (A2D_SUCCESS, Some p')"
    and parse: "\<And>ie0. A2DP_ParseInfoAac (Some ie0) (Some p') True = (A2D_SUCCESS, Some (aac_norm ie0 a2dp_aac_sink_caps))"
  have "A2DP_InitCodecConfig BTAV_A2DP_CODEC_INDEX_SINK_AAC p = (True, p')"
    by (simp add: init_configs init_sinks b)
  then show ?thesis
    by (rule inits_rules(2)) (simp add: parse)
qed

lemma inits_SINK_APTX: "inits BTAV_A2DP_CODEC_INDEX_SINK_APTX p BTAV_A2DP_CODEC_INDEX_SINK_APTX"
proof (rule aptx.built [OF sink_caps_wf(4), of p])
  fix p'
  assume b: "A2DP_BuildInfoAptx A2D_MEDIA_TYPE_AUDIO (Some a2dp_aptx_sink_caps) (Some p) = (A2D_SUCCESS, Some p')"
    and parse: "\<And>ie0. A2DP_ParseInfoAptx (Some ie0) (Some p') True = (A2D_SUCCESS, Some (aptx_norm ie0 a2dp_aptx_sink_caps))"
  have "A2DP_InitCodecConfig BTAV_A2DP_CODEC_INDEX_SINK_APTX p = (True, p')"
    by (simp add: init_configs init_sinks b)
  then show ?thesis
    by (rule inits_rules(3)) (simp add: parse)
qed

lemma inits_SINK_APTX_HD: "inits BTAV_A2DP_CODEC_INDEX_SINK_APTX_HD p BTAV_A2DP_CODEC_INDEX_SINK_APTX_HD"
proof (rule aptx_hd.built [OF sink_caps_wf(5), of p])
  fix p'
  assume b: "A2DP_BuildInfoAptxHd A2D_MEDIA_TYPE_AUDIO (Some a2dp_aptx_hd_sink_caps) (Some p) = (A2D_SUCCESS, Some p')"
    and parse: "\<And>ie0. A2DP_ParseInfoAptxHd (Some ie0) (Some p') True = (A2D_SUCCESS, Some (aptx_hd_norm ie0 a2dp_aptx_hd_sink_caps))"
  have "A2DP_InitCodecConfig BTAV_A2DP_CODEC_INDEX_SINK_APTX_HD p = (True, p')"
    by (simp add: init_configs init_sinks b)
  then show ?thesis
    by (rule inits_rules(4)) (simp add: parse)
qed

lemma inits_SINK_APTX_LL: "inits BTAV_A2DP_CODEC_INDEX_SINK_APTX_LL p BTAV_A2DP_CODEC_INDEX_SINK_APTX_LL"
proof (rule aptx_ll.built [OF sink_caps_wf(6), of p])
  fix p'
  assume b: "A2DP_BuildInfoAptxLl A2D_MEDIA_TYPE_AUDIO (Some a2dp_aptx_ll_sink_caps) (Some p) = (A2D_SUCCESS, Some p')"
    and parse: "\<And>ie0. A2DP_ParseInfoAptxLl (Some ie0) (Some p') True = (A2D_SUCCESS, Some (aptx_ll_norm ie0 a2dp_aptx_ll_sink_caps))"
  have "A2DP_InitCodecConfig BTAV_A2DP_CODEC_INDEX_SINK_APTX_LL p = (True, p')"
    by (simp add: init_configs init_sinks b)
  then show ?thesis
    by (rule inits_rules(5)) (simp add: parse)
qed

lemma inits_SINK_LDAC: "inits BTAV_A2DP_CODEC_INDEX_SINK_LDAC p BTAV_A2DP_CODEC_INDEX_SINK_LDAC"
proof (rule ldac.built [OF sink_caps_wf(7), of p])
  fix p'
  assume b: "A2DP_BuildInfoLdac A2D_MEDIA_TYPE_AUDIO (Some a2dp_ldac_sink_caps) (Some p) = (A2D_SUCCESS, Some p')"
    and parse: "\<And>ie0. A2DP_ParseInfoLdac (Some ie0) (Some p') True = (A2D_SUCCESS, Some (ldac_norm ie0 a2dp_ldac_sink_caps))"
  have "A2DP_InitCodecConfig BTAV_A2DP_CODEC_INDEX_SINK_LDAC p = (True, p')"
    by (simp add: init_configs init_sinks b)
  then show ?thesis
    by (rule inits_rules(6)) (simp add: parse)
qed

lemma inits_SINK_LC3PLUS: "inits BTAV_A2DP_CODEC_INDEX_SINK_LC3PLUS p BTAV_A2DP_CODEC_INDEX_SINK_LC3PLUS"
proof (rule lc3plus.built [OF sink_caps_wf(10), of p])
  fix p'
  assume b: "A2DP_BuildInfoLc3Plus A2D_MEDIA_TYPE_AUDIO (Some a2dp_lc3plus_sink_caps) (Some p) = (A2D_SUCCESS, Some p')"
    and parse: "\<And>ie0. A2DP_ParseInfoLc3Plus (Some ie0) (Some p') True = (A2D_SUCCESS, Some (lc3plus_norm ie0 a2dp_lc3plus_sink_caps))"
  have "A2DP_InitCodecConfig BTAV_A2DP_CODEC_INDEX_SINK_LC3PLUS p = (True, p')"
    by (simp add: init_configs init_sinks b)
  then show ?thesis
    by (rule inits_rules(7)) (simp add: parse)
qed

lemma inits_SINK_LHDCV5: "inits BTAV_A2DP_CODEC_INDEX_SINK_LHDCV5 p BTAV_A2DP_CODEC_INDEX_SINK_LHDCV5"
proof (rule lhdcv5.built [OF sink_caps_wf(11), of p])
  fix p'
  assume b: "A2DP_BuildInfoLhdcV5 A2D_MEDIA_TYPE_AUDIO (Some a2dp_lhdcv5_sink_caps) (Some p) = (A2D_SUCCESS, Some p')"
    and parse: "\<And>ie0. A2DP_ParseInfoLhdcV5 (Some ie0) (Some p') True = (A2D_SUCCESS, Some (lhdcv5_norm ie0 a2dp_lhdcv5_sink_caps))"
  have "A2DP_InitCodecConfig BTAV_A2DP_CODEC_INDEX_SINK_LHDCV5 p = (True, p')"
    by (simp add: init_configs init_sinks b)
  then show ?thesis
    by (rule inits_rules(8)) (simp add: parse)
qed

lemma inits_SINK_OPUS: "inits BTAV_A2DP_CODEC_INDEX_SINK_OPUS p BTAV_A2DP_CODEC_INDEX_SINK_OPUS"
proof (rule opus.built [OF sink_caps_wf(8), of p])
  fix p'
  assume b: "A2DP_BuildInfoOpus A2D_MEDIA_TYPE_AUDIO (Some a2dp_opus_pipewire_sink_caps) (Some p) = (A2D_SUCCESS, Some p')"
    and parse: "\<And>ie0. A2DP_ParseInfoOpus (Some ie0) (Some p') True = (A2D_SUCCESS, Some (opus_norm ie0 a2dp_opus_pipewire_sink_caps))"
  have i: "A2DP_InitCodecConfig BTAV_A2DP_CODEC_INDEX_SINK_OPUS p = (True, p')"
    by (simp add: init_configs init_sinks b)
  have "\<not> a2dp_opus_is_android (A2DP_VendorCodecGetVendorId p') (A2DP_VendorCodecGetCodecId p')"
    using opus_parse_variant [OF parse] by (auto simp: opus_norm_def a2dp_opus_pipewire_sink_caps_def split: if_splits)
  with inits_rules(9) [OF i] show ?thesis by (simp add: parse)
qed

lemma inits_SINK_OPUS_ANDROID: "inits BTAV_A2DP_CODEC_INDEX_SINK_OPUS_ANDROID p BTAV_A2DP_CODEC_INDEX_SINK_OPUS_ANDROID"
proof (rule opus.built [OF sink_caps_wf(9), of p])
  fix p'
  assume b: "A2DP_BuildInfoOpus A2D_MEDIA_TYPE_AUDIO (Some a2dp_opus_android_sink_caps) (Some p) = (A2D_SUCCESS, Some p')"
    and parse: "\<And>ie0. A2DP_ParseInfoOpus (Some ie0) (Some p') True = (A2D_SUCCESS, Some (opus_norm ie0 a2dp_opus_android_sink_caps))"
  have i: "A2DP_InitCodecConfig BTAV_A2DP_CODEC_INDEX_SINK_OPUS_ANDROID p = (True, p')"
    by (simp add: init_configs init_sinks b)
  have "a2dp_opus_is_android (A2DP_VendorCodecGetVendorId p') (A2DP_VendorCodecGetCodecId p')"
    using opus_parse_variant [OF parse] by (auto simp: opus_norm_def a2dp_opus_android_sink_caps_def split: if_splits)
  with inits_rules(9) [OF i] show ?thesis by (simp add: parse)
qed

lemma A2DP_BuildCodecConfig_aac:
  assumes "A2DP_GetCodecType src = A2D_MEDIA_CT_M24" and "A2DP_BuildCodecConfig src r = (True, r')"
  shows "fst (A2DP_ParseInfo r' False) = A2D_BAD_SAMP_FREQ"
proof -
  have r': "r' = the (snd (A2DP_BuildInfoAac A2D_MEDIA_TYPE_AUDIO (Some a2dp_aac_sink_caps) (Some r)))"
    using assms by (auto simp: codec_dispatch A2DP_BuildCodecConfigAac_def split: prod.splits)
  have parse: "A2DP_ParseInfoAac (Some ie) (Some r') True = (A2D_SUCCESS, Some (aac_norm ie a2dp_aac_sink_caps))" for ie
    by (rule aac.built [OF sink_caps_wf(3), of r]) (simp add: r')
  then have "A2DP_GetCodecType r' = A2D_MEDIA_CT_M24"
    by (intro aac_parse_type [of aac_cie_local _ True]) simp
  moreover have "b 3 = aac_objectType ie \<and> aac_rd_rate b = aac_sampleRate ie \<and>
      fst (A2DP_ParseInfoAac (Some ie0) (Some b) False) =
        (if A2D_BitsSet (ucast (aac_objectType ie)) \<noteq> A2D_SET_ONE_BIT then A2D_BAD_OBJ_TYPE
         else if A2D_BitsSet (ucast (aac_sampleRate ie)) \<noteq> A2D_SET_ONE_BIT then A2D_BAD_SAMP_FREQ
         else if A2D_BitsSet (ucast (aac_channelMode ie)) \<noteq> A2D_SET_ONE_BIT then A2D_BAD_CH_MODE
         else A2D_SUCCESS)"
    if "A2DP_ParseInfoAac (Some ie0) (Some b) True = (A2D_SUCCESS, Some ie)" for ie0 b ie
    using that unfolding A2DP_ParseInfoAac_True
    by (simp add: A2DP_ParseInfoAac_def aac_rd_rate_def Let_def)
  from this [OF parse] have "fst (A2DP_ParseInfoAac (Some aac_cie_local) (Some r') False) = A2D_BAD_SAMP_FREQ"
    by (simp add: aac_norm_def a2dp_aac_sink_caps_def A2D_BitsSet_def)
  ultimately show ?thesis by (simp add: A2DP_ParseInfo_def)
qed

lemmas type_equals =
  A2DP_CodecTypeEqualsSbc_def A2DP_CodecTypeEqualsAac_def A2DP_VendorCodecTypeEqualsAptx_def
  A2DP_VendorCodecTypeEqualsAptxHd_def A2DP_VendorCodecTypeEqualsAptxLl_def
  A2DP_VendorCodecTypeEqualsLdac_def A2DP_VendorCodecTypeEqualsLc3Plus_def
  A2DP_VendorCodecTypeEqualsLhdcV5_def

lemma opus_type_equals:
  assumes "A2DP_VendorCodecTypeEqualsOpus a b"
    and "A2DP_VendorCodecGetVendorId a = A2DP_VendorCodecGetVendorId b"
    and "A2DP_VendorCodecGetCodecId a = A2DP_VendorCodecGetCodecId b"
  shows "A2DP_VendorCodecTypeEqualsOpus b a \<and> A2DP_VendorSinkCodecIndexOpus a = A2DP_VendorSinkCodecIndexOpus b"
proof -
  have "fst (A2DP_ParseInfoOpus (Some opus_cie_zero) (Some a) True) = A2D_SUCCESS"
    "fst (A2DP_ParseInfoOpus (Some opus_cie_zero) (Some b) True) = A2D_SUCCESS"
    using assms(1) by (simp_all add: A2DP_VendorCodecTypeEqualsOpus_def case_prod_unfold split: if_split_asm)
  then have "A2DP_VendorSinkCodecIndexOpus a = A2DP_VendorSinkCodecIndexOpus b"
    by (simp add: opus_sink_index assms(2,3))
  moreover have "A2DP_VendorCodecTypeEqualsOpus b a"
    using assms(1) by (simp add: A2DP_VendorCodecTypeEqualsOpus_def case_prod_unfold split: if_split_asm)
  ultimately show ?thesis by blast
qed

lemma A2DP_CodecTypeEquals_index:
  assumes "A2DP_CodecTypeEquals a b"
  shows "A2DP_CodecTypeEquals b a \<and> A2DP_SinkCodecIndex a = A2DP_SinkCodecIndex b"
proof (cases b rule: codec_cases)
  case sbc
  with assms show ?thesis by (auto simp: codec_dispatch sink_indexes type_equals split: if_splits)
next
  case aac
  with assms show ?thesis by (auto simp: codec_dispatch sink_indexes type_equals split: if_splits)
next
  case (vendor v)
  with assms have eq: "A2DP_GetCodecType a = A2DP_GetCodecType b"
    "A2DP_VendorCodecGetVendorId a = A2DP_VendorCodecGetVendorId b"
    "A2DP_VendorCodecGetCodecId a = A2DP_VendorCodecGetCodecId b"
    by (simp_all add: codec_dispatch A2DP_VendorCodecTypeEquals_def split: if_split_asm)
  show ?thesis
    using assms vendor opus_type_equals [of a b]
    by (cases v) (simp_all add: codec_dispatch vendor_dispatch eq sink_indexes type_equals split: if_split_asm)
next
  case unknown_vendor
  with assms show ?thesis
    by (simp add: codec_dispatch vendor_dispatch split: if_split_asm)
next
  case unknown
  with assms show ?thesis by (simp add: codec_dispatch split: if_split_asm)
qed

subsection \<open>Properties\<close>

text \<open>
  Building a configuration for a peer's codec element reads only the 30 octets of the
  element's array and writes only the 30 octets of the result's, for every codec and for all
  contents of the arrays.
\<close>
theorem build_config_in_bounds:
  assumes "buf_agree AVDT_CODEC_SIZE src src'" and "AVDT_CODEC_SIZE \<le> k"
  shows "A2DP_BuildCodecConfig src r = A2DP_BuildCodecConfig src' r \<and>
    snd (A2DP_BuildCodecConfig src r) k = r k"
  using A2DP_BuildCodecConfig_local [OF assms(1)] A2DP_BuildCodecConfig_beyond [OF assms(2)] by blast

theorem build_config_in_bounds_witness:
  "A2DP_BuildCodecConfig (bytes [6, 0, 0, 0xFF, 0xFF, 2, 53]) (bytes []) =
     A2DP_BuildCodecConfig ((bytes [6, 0, 0, 0xFF, 0xFF, 2, 53])(40 := 7)) (bytes []) \<and>
   snd (A2DP_BuildCodecConfig (bytes [6, 0, 0, 0xFF, 0xFF, 2, 53]) (bytes [])) 30 = bytes [] 30"
  by (rule build_config_in_bounds) (simp_all add: buf_agree_iff)

text \<open>
  C16 (safety). When building a configuration for an element other than AAC reports success, the
  element is a valid capability of a supported codec, and the octets written are a valid
  configuration of the same media codec type; for AAC the octets written are never a valid
  configuration.
\<close>
theorem build_config_valid:
  assumes "A2DP_BuildCodecConfig src r = (True, r')"
  shows "if A2DP_GetCodecType src = A2D_MEDIA_CT_M24
    then fst (A2DP_ParseInfo r' False) = A2D_BAD_SAMP_FREQ
    else A2DP_GetCodecType r' = A2DP_GetCodecType src \<and> fst (A2DP_ParseInfo src True) = A2D_SUCCESS \<and>
      fst (A2DP_ParseInfo r' False) = A2D_SUCCESS"
  using A2DP_BuildCodecConfig_aac [OF _ assms] A2DP_BuildCodecConfig_config [OF assms] by simp

theorem build_config_valid_witness:
  "fst (A2DP_ParseInfo (snd (A2DP_BuildCodecConfig (bytes [6, 0, 0, 0xFF, 0xFF, 2, 53]) (bytes []))) False) =
     A2D_SUCCESS"
proof -
  let ?src = "bytes [6, 0, 0, 0xFF, 0xFF, 2, 53]"
  have "A2DP_BuildCodecConfig ?src (bytes []) = (True, snd (A2DP_BuildCodecConfig ?src (bytes [])))"
    by (simp add: prod_eq_iff)
      (simp add: codec_dispatch A2DP_GetCodecType_def A2DP_BuildCodecConfigSbc_def A2D_ParsSbcInfo_def
        A2D_BldSbcInfo_def sbc_pref_cap_def a2dp_sbc_default_config_def first_set_or_def bytes_def)
  from build_config_valid [OF this] show ?thesis
    by (simp add: A2DP_GetCodecType_def bytes_def)
qed

text \<open>
  The decoder that is selected for an element is the one of its sink codec index,
  if the element is valid as a capability or a configuration of its codec, and none otherwise.
\<close>
theorem decoder_of_index:
  "A2DP_GetDecoderInterface p =
     (if A2DP_IsPeerSinkCodecValid p then index_decoder (A2DP_SinkCodecIndex p) else None)"
  by (rule A2DP_GetDecoderInterface_index)

text \<open>
  Two elements that are reported to be of the same codec type have the same sink
  codec index, hence the same decoder, and the comparison is symmetric.
\<close>
theorem codec_type_equals_index:
  assumes "A2DP_CodecTypeEquals a b"
  shows "A2DP_CodecTypeEquals b a \<and> A2DP_SinkCodecIndex a = A2DP_SinkCodecIndex b"
  using assms by (rule A2DP_CodecTypeEquals_index)

theorem codec_type_equals_index_witness:
  "A2DP_SinkCodecIndex (bytes [6, 0, 0, 0xFF, 0xFF, 2, 53]) = A2DP_SinkCodecIndex (bytes [6, 0, 0, 0x21, 0x15, 2, 40])"
  using codec_type_equals_index [of "bytes [6, 0, 0, 0xFF, 0xFF, 2, 53]" "bytes [6, 0, 0, 0x21, 0x15, 2, 40]"]
  by (simp add: A2DP_CodecTypeEquals_def A2DP_CodecTypeEqualsSbc_def A2D_ParsSbcInfo_def Let_def
      A2DP_GetCodecType_def bytes_def)

text \<open>
  Initialising the capability element for a codec index succeeds for the SBC source
  and for every sink index, with a valid capability element that has the sink index back (SBC
  for the source); for every other index it fails and writes nothing.
\<close>
theorem init_config_index:
  "if idx = BTAV_A2DP_CODEC_INDEX_SOURCE_SBC \<or> index_decoder idx \<noteq> None
   then \<exists>p'. A2DP_InitCodecConfig idx p = (True, p') \<and> fst (A2DP_ParseInfo p' True) = A2D_SUCCESS \<and>
     A2DP_SinkCodecIndex p' =
       (if idx = BTAV_A2DP_CODEC_INDEX_SOURCE_SBC then BTAV_A2DP_CODEC_INDEX_SINK_SBC else idx)
   else A2DP_InitCodecConfig idx p = (False, p)"
  using inits_SINK_SBC [of p] inits_SOURCE_SBC [of p] inits_SINK_AAC [of p] inits_SINK_APTX [of p]
    inits_SINK_APTX_HD [of p] inits_SINK_APTX_LL [of p] inits_SINK_LDAC [of p] inits_SINK_OPUS [of p]
    inits_SINK_OPUS_ANDROID [of p] inits_SINK_LC3PLUS [of p] inits_SINK_LHDCV5 [of p]
  by (cases idx) (simp_all add: inits_def init_configs)

theorem init_config_index_witness:
  "A2DP_InitCodecConfig BTAV_A2DP_CODEC_INDEX_MAX (\<lambda>_. 0) = (False, \<lambda>_. 0) \<and>
   (\<exists>p'. A2DP_InitCodecConfig BTAV_A2DP_CODEC_INDEX_SINK_LDAC (\<lambda>_. 0) = (True, p') \<and>
     A2DP_SinkCodecIndex p' = BTAV_A2DP_CODEC_INDEX_SINK_LDAC)"
  using init_config_index [of BTAV_A2DP_CODEC_INDEX_SINK_LDAC "\<lambda>_. 0"]
    init_config_index [of BTAV_A2DP_CODEC_INDEX_MAX "\<lambda>_. 0"]
  by auto

end
