(* ===== verification/Bta_Av_Co.thy ===== *)
theory Bta_Av_Co
  imports A2DP_Codec_Config
begin

text \<open>
  btc/profile/std/a2dp/bta\_av\_co.c: the call-out functions of the audio stream. They keep, for
  each of the two streams, what the peer has offered (the stream end points whose codec the device
  supports), choose the configuration that is requested from the peer, and answer the
  configurations that the peer requests. The control block \<open>bta_av_co_cb\<close> is passed through;
  calls into the stack (\<open>bta_av_ci_setconfig\<close>, \<open>BTA_AvReconfig\<close>) are returned in order. A pointer
  to an entry of the tables of a peer is the index of the entry, and the content protection
  octets are a list of their three bytes, so that a read past them shows as \<open>None\<close>. The mutex
  around the configuration does not show, the functions run one at a time. Built without
  BTA\_AV\_CO\_CP\_SCMS\_T, as bta\_av\_co.h has it by default.
\<close>

subsection \<open>Constants and control block (btc\_av\_co.h, bta\_av\_co.h)\<close>

abbreviation (input) BTA_AV_NUM_STRS :: nat where "BTA_AV_NUM_STRS \<equiv> 2"
abbreviation (input) BTC_SV_AV_AA_SINK_COUNT :: nat where "BTC_SV_AV_AA_SINK_COUNT \<equiv> 10"
abbreviation (input) BTC_SV_AV_AA_SOURCE_COUNT :: nat where "BTC_SV_AV_AA_SOURCE_COUNT \<equiv> 10"
abbreviation (input) BTA_AV_CHNL_MSK :: u8 where "BTA_AV_CHNL_MSK \<equiv> 0xC0"
abbreviation (input) BTA_AV_CHNL_AUDIO :: u8 where "BTA_AV_CHNL_AUDIO \<equiv> 0x40"
abbreviation (input) BTA_AV_CP_SCMS_T_ID :: u16 where "BTA_AV_CP_SCMS_T_ID \<equiv> 2"
abbreviation (input) BTA_AV_CP_LOSC :: u8 where "BTA_AV_CP_LOSC \<equiv> 2"
abbreviation (input) BTA_AV_CP_INFO_LEN :: nat where "BTA_AV_CP_INFO_LEN \<equiv> 3"
abbreviation (input) BTA_AV_CP_SCMS_COPY_FREE :: u8 where "BTA_AV_CP_SCMS_COPY_FREE \<equiv> 2"
abbreviation (input) AVDT_TSEP_SRC :: u8 where "AVDT_TSEP_SRC \<equiv> 0"
abbreviation (input) AVDT_TSEP_SNK :: u8 where "AVDT_TSEP_SNK \<equiv> 1"
abbreviation (input) AVDT_ASC_PROTECT :: u8 where "AVDT_ASC_PROTECT \<equiv> 4"
abbreviation (input) AVDT_ASC_CODEC :: u8 where "AVDT_ASC_CODEC \<equiv> 7"
abbreviation (input) BTC_AV_CODEC_PCM :: u8 where "BTC_AV_CODEC_PCM \<equiv> 5"
abbreviation (input) BTC_AV_SUCCESS :: int where "BTC_AV_SUCCESS \<equiv> 0"
abbreviation (input) BTC_ERROR_SRV_AV_FEEDING_NOT_SUPPORTED :: int where
  "BTC_ERROR_SRV_AV_FEEDING_NOT_SUPPORTED \<equiv> 701"
abbreviation (input) BTC_ERROR_SRV_AV_CP_NOT_SUPPORTED :: int where
  "BTC_ERROR_SRV_AV_CP_NOT_SUPPORTED \<equiv> 705"
abbreviation (input) BTA_AV_CO_SBC_MIN_BITPOOL_OFF :: nat where "BTA_AV_CO_SBC_MIN_BITPOOL_OFF \<equiv> 5"
abbreviation (input) BTA_AV_CO_SBC_MAX_BITPOOL_OFF :: nat where "BTA_AV_CO_SBC_MAX_BITPOOL_OFF \<equiv> 6"

record tBTA_AV_CO_SINK =
  sep_info_idx :: u8
  seid :: u8
  codec_caps :: buf
  num_protect :: u8
  protect_info :: "u8 list"

record tBTA_AV_CO_PEER =
  addr :: "u8 list"
  snks :: "tBTA_AV_CO_SINK list"
  srcs :: "tBTA_AV_CO_SINK list"
  num_snks :: u8
  num_srcs :: u8
  num_seps :: u8
  num_rx_snks :: u8
  num_rx_srcs :: u8
  num_sup_snks :: u8
  num_sup_srcs :: u8
  p_snk :: "nat option"
  p_src :: "nat option"
  codec_cfg :: buf
  cp_active :: bool
  acp :: bool
  recfg_needed :: bool
  opened :: bool
  mtu :: u16
  uuid_to_connect :: u16
  got_disc_res :: bool

record tBTA_AV_CO_CP =
  cp_is_on :: bool
  cp_flag :: u8

record tBTA_AV_CO_CB =
  peers :: "tBTA_AV_CO_PEER list"
  cb_codec_cfg :: buf
  codec_cfg_setconfig :: buf
  cb_cp :: tBTA_AV_CO_CP

datatype co_call =
    ci_setconfig (ci_hndl: u8) (ci_err_code: u8) (ci_category: u8) (ci_recfg_needed: bool)
      (ci_avdt_handle: u8)
  | AvReconfig u8 bool u8 buf u8 "u8 list"

text \<open>What \<open>memset\<close> to zero makes of an entry, of a peer and of the control block.\<close>

definition co_sink_zero :: tBTA_AV_CO_SINK where
  "co_sink_zero = \<lparr>sep_info_idx = 0, seid = 0, codec_caps = (\<lambda>_. 0), num_protect = 0,
     protect_info = replicate BTA_AV_CP_INFO_LEN 0\<rparr>"

definition co_peer_zero :: tBTA_AV_CO_PEER where
  "co_peer_zero = \<lparr>addr = replicate 6 0,
     snks = replicate BTC_SV_AV_AA_SINK_COUNT co_sink_zero,
     srcs = replicate BTC_SV_AV_AA_SOURCE_COUNT co_sink_zero,
     num_snks = 0, num_srcs = 0, num_seps = 0, num_rx_snks = 0, num_rx_srcs = 0,
     num_sup_snks = 0, num_sup_srcs = 0, p_snk = None, p_src = None, codec_cfg = (\<lambda>_. 0),
     cp_active = False, acp = False, recfg_needed = False, opened = False, mtu = 0,
     uuid_to_connect = 0, got_disc_res = False\<rparr>"

definition co_cb_zero :: tBTA_AV_CO_CB where
  "co_cb_zero = \<lparr>peers = replicate BTA_AV_NUM_STRS co_peer_zero, cb_codec_cfg = (\<lambda>_. 0),
     codec_cfg_setconfig = (\<lambda>_. 0), cb_cp = \<lparr>cp_is_on = False, cp_flag = 0\<rparr>\<rparr>"

definition bta_av_co_cp_scmst :: "u8 list" where
  "bta_av_co_cp_scmst = [2, 2, 0]"

definition btc_av_sbc_default_config :: tA2D_SBC_CIE where
  "btc_av_sbc_default_config = \<lparr>sbc_samp_freq = A2D_SBC_IE_SAMP_FREQ_44,
     sbc_ch_mode = A2D_SBC_IE_CH_MD_JOINT, sbc_block_len = A2D_SBC_IE_BLOCKS_16,
     sbc_num_subbands = A2D_SBC_IE_SUBBAND_8, sbc_alloc_mthd = A2D_SBC_IE_ALLOC_MD_L,
     sbc_max_bitpool = BTA_AV_CO_SBC_MAX_BITPOOL, sbc_min_bitpool = A2D_SBC_IE_MIN_BITPOOL\<rparr>"

subsection \<open>Content protection\<close>

definition bta_av_co_cp_is_active :: "tBTA_AV_CO_CB \<Rightarrow> bool" where
  "bta_av_co_cp_is_active cb = cp_is_on (cb_cp cb)"

definition bta_av_co_cp_get_flag :: "tBTA_AV_CO_CB \<Rightarrow> u8" where
  "bta_av_co_cp_get_flag cb = cp_flag (cb_cp cb)"

definition bta_av_co_cp_set_flag :: "u8 \<Rightarrow> tBTA_AV_CO_CB \<Rightarrow> bool \<times> tBTA_AV_CO_CB" where
  "bta_av_co_cp_set_flag flag cb =
     (if flag \<noteq> BTA_AV_CP_SCMS_COPY_FREE then (False, cb)
      else (True, cb\<lparr>cb_cp := (cb_cp cb)\<lparr>cp_flag := flag\<rparr>\<rparr>))"

text \<open>
  One content protection element at the head of the octets up to the end of the array: \<open>None\<close>
  when the code would read past that end.
\<close>

definition bta_av_co_cp_is_scmst :: "u8 list \<Rightarrow> bool option" where
  "bta_av_co_cp_is_scmst p =
     (case p of
        [] \<Rightarrow> None
      | losc # rest \<Rightarrow>
          if BTA_AV_CP_LOSC \<le> losc
          then (case rest of
                  lo # hi # _ \<Rightarrow> Some (ucast lo OR push_bit 8 (ucast hi) = BTA_AV_CP_SCMS_T_ID)
                | _ \<Rightarrow> None)
          else Some False)"

fun has_scmst_loop :: "nat \<Rightarrow> u8 list \<Rightarrow> bool option" where
  "has_scmst_loop 0 p = Some False"
| "has_scmst_loop (Suc index) p =
     (case bta_av_co_cp_is_scmst p of
        None \<Rightarrow> None
      | Some True \<Rightarrow> Some True
      | Some False \<Rightarrow> has_scmst_loop index (drop (Suc (unat (hd p))) p))"

definition bta_av_co_audio_sink_has_scmst :: "tBTA_AV_CO_SINK \<Rightarrow> bool option" where
  "bta_av_co_audio_sink_has_scmst s = has_scmst_loop (unat (num_protect s)) (protect_info s)"

definition bta_av_co_audio_sink_supports_cp :: "tBTA_AV_CO_CB \<Rightarrow> tBTA_AV_CO_SINK \<Rightarrow> bool option" where
  "bta_av_co_audio_sink_supports_cp cb s =
     (if bta_av_co_cp_get_flag cb \<noteq> BTA_AV_CP_SCMS_COPY_FREE
      then bta_av_co_audio_sink_has_scmst s else Some True)"

subsection \<open>Peers\<close>

text \<open>\<open>BTA_AV_CO_AUDIO_HNDL_TO_INDX\<close>, cut to the 8 bits of the index variable, and its inverse.\<close>

definition hndl_to_indx :: "u8 \<Rightarrow> u8" where
  "hndl_to_indx hndl = (hndl AND NOT BTA_AV_CHNL_MSK) - 1"

definition indx_to_hndl :: "u8 \<Rightarrow> u8" where
  "indx_to_hndl i = (i + 1) OR BTA_AV_CHNL_AUDIO"

definition bta_av_co_get_peer :: "tBTA_AV_CO_CB \<Rightarrow> u8 \<Rightarrow> nat option" where
  "bta_av_co_get_peer cb hndl =
     (let i = hndl_to_indx hndl
      in if BTA_AV_NUM_STRS \<le> unat i then None else Some (unat i))"

definition set_peer :: "tBTA_AV_CO_CB \<Rightarrow> nat \<Rightarrow> tBTA_AV_CO_PEER \<Rightarrow> tBTA_AV_CO_CB" where
  "set_peer cb i p = cb\<lparr>peers := (peers cb)[i := p]\<rparr>"

definition bta_av_co_audio_init ::
  "btav_a2dp_codec_index_t \<Rightarrow> buf \<Rightarrow> buf \<Rightarrow> u8 \<Rightarrow> tBTA_AV_CO_CB \<Rightarrow>
   bool \<times> buf \<times> u8 \<times> buf \<times> tBTA_AV_CO_CB" where
  "bta_av_co_audio_init codec_index p_codec_info p_protect_info tsep cb =
     (let prot = p_protect_info(0 := 0);
          cb' = cb\<lparr>codec_cfg_setconfig := memset (codec_cfg_setconfig cb) 0 AVDT_CODEC_SIZE\<rparr>
      in if tsep = AVDT_TSEP_SRC \<or> tsep = AVDT_TSEP_SNK
         then (let (ok, info) = A2DP_InitCodecConfig codec_index p_codec_info
               in (ok, info, 0, prot, cb'))
         else (False, p_codec_info, 0, prot, cb'))"

definition uuid_of_peer :: "u16 \<Rightarrow> tBTA_AV_CO_PEER \<Rightarrow> tBTA_AV_CO_PEER" where
  "uuid_of_peer uuid_local p =
     (if uuid_local = UUID_SERVCLASS_AUDIO_SINK
      then p\<lparr>uuid_to_connect := UUID_SERVCLASS_AUDIO_SOURCE\<rparr>
      else if uuid_local = UUID_SERVCLASS_AUDIO_SOURCE
      then p\<lparr>uuid_to_connect := UUID_SERVCLASS_AUDIO_SINK\<rparr>
      else p)"

definition copy_results :: "u8 \<Rightarrow> u8 \<Rightarrow> u8 \<Rightarrow> tBTA_AV_CO_PEER \<Rightarrow> tBTA_AV_CO_PEER" where
  "copy_results nseps nsnk nsrc p =
     p\<lparr>num_snks := nsnk, num_srcs := nsrc, num_seps := nseps, num_rx_snks := 0, num_rx_srcs := 0,
       num_sup_snks := 0\<rparr>"

definition bta_av_co_audio_disc_res ::
  "u8 \<Rightarrow> u8 \<Rightarrow> u8 \<Rightarrow> u8 \<Rightarrow> u8 list \<Rightarrow> u16 \<Rightarrow> tBTA_AV_CO_CB \<Rightarrow> tBTA_AV_CO_CB" where
  "bta_av_co_audio_disc_res hndl nseps nsnk nsrc bda uuid_local cb =
     (case bta_av_co_get_peer cb hndl of
        None \<Rightarrow> cb
      | Some i \<Rightarrow>
          let p = copy_results nseps nsnk nsrc ((peers cb ! i)\<lparr>addr := bda\<rparr>)
          in set_peer cb i ((uuid_of_peer uuid_local p)\<lparr>got_disc_res := True\<rparr>))"

definition bta_av_co_audio_cfg_res ::
  "u8 \<Rightarrow> u8 \<Rightarrow> u8 \<Rightarrow> u8 \<Rightarrow> u8 list \<Rightarrow> u16 \<Rightarrow> tBTA_AV_CO_CB \<Rightarrow> tBTA_AV_CO_CB" where
  "bta_av_co_audio_cfg_res hndl nseps nsnk nsrc bda uuid_local cb =
     (case bta_av_co_get_peer cb hndl of
        None \<Rightarrow> cb
      | Some i \<Rightarrow>
          let p = (peers cb ! i)\<lparr>addr := bda\<rparr>;
              p' = (if \<not> got_disc_res p then copy_results nseps nsnk nsrc p else p)
          in set_peer cb i (uuid_of_peer uuid_local p'))"

subsection \<open>The end points of a peer\<close>

text \<open>
  The loop that looks for an entry of a codec of the device, from the last saved entry down.
\<close>

fun find_sep :: "(buf \<Rightarrow> btav_a2dp_codec_index_t) \<Rightarrow> tBTA_AV_CO_SINK list \<Rightarrow> nat \<Rightarrow> nat option" where
  "find_sep f tab 0 = None"
| "find_sep f tab (Suc i) =
     (if f (codec_caps (tab ! i)) \<noteq> BTAV_A2DP_CODEC_INDEX_MAX then Some i else find_sep f tab i)"

definition bta_av_co_audio_find_peer_sink :: "tBTA_AV_CO_PEER \<Rightarrow> nat option" where
  "bta_av_co_audio_find_peer_sink p =
     find_sep A2DP_SinkCodecIndex (snks p) (unat (num_sup_snks p))"

definition bta_av_co_audio_find_peer_src :: "tBTA_AV_CO_PEER \<Rightarrow> nat option" where
  "bta_av_co_audio_find_peer_src p =
     find_sep A2DP_SourceCodecIndex (srcs p) (unat (num_sup_srcs p))"

text \<open>Filling an entry of a table with what the peer has answered for an end point.\<close>

definition save_sep ::
  "buf \<Rightarrow> u8 \<Rightarrow> u8 \<Rightarrow> u8 \<Rightarrow> buf \<Rightarrow> tBTA_AV_CO_SINK \<Rightarrow> tBTA_AV_CO_SINK" where
  "save_sep info idx sid nprot prot s =
     s\<lparr>codec_caps := memcpy (codec_caps s) info AVDT_CODEC_SIZE, sep_info_idx := idx, seid := sid,
       num_protect := nprot, protect_info := map prot [0 ..< BTA_AV_CP_INFO_LEN]\<rparr>"

definition bta_av_co_audio_codec_build_config :: "buf \<Rightarrow> buf \<Rightarrow> bool \<times> buf" where
  "bta_av_co_audio_codec_build_config p_codec_caps p_codec_cfg =
     A2DP_BuildCodecConfig p_codec_caps (memset p_codec_cfg 0 AVDT_CODEC_SIZE)"

definition bta_av_co_audio_peer_reset_config :: "tBTA_AV_CO_PEER \<Rightarrow> tBTA_AV_CO_PEER" where
  "bta_av_co_audio_peer_reset_config p = p\<lparr>p_snk := None\<rparr>"

text \<open>\<open>bta_av_build_src_cfg\<close> reports a failure of the builder to the log only.\<close>

definition bta_av_build_src_cfg :: "buf \<Rightarrow> buf \<Rightarrow> buf" where
  "bta_av_build_src_cfg p_pref_cfg p_src_cap = snd (A2DP_BuildCodecConfig p_src_cap p_pref_cfg)"

text \<open>
  \<open>bta_av_audio_sink_getconfig\<close>: the peer's capabilities of one of its sources have arrived.
  In and out are the codec element, the index of the end point, and the number of content
  protection elements; \<open>pref\<close> is the uninitialised local array.
\<close>

definition recv_src :: "buf \<Rightarrow> u8 \<Rightarrow> u8 \<Rightarrow> u8 \<Rightarrow> buf \<Rightarrow> tBTA_AV_CO_PEER \<Rightarrow> tBTA_AV_CO_PEER" where
  "recv_src info idx sid nprot prot p =
     (let p1 = p\<lparr>num_rx_srcs := num_rx_srcs p + 1\<rparr>
      in if A2DP_IsPeerSourceCodecSupported info = A2D_SUCCESS \<and>
            unat (num_sup_srcs p1) < BTC_SV_AV_AA_SOURCE_COUNT
         then (let k = unat (num_sup_srcs p1)
               in p1\<lparr>num_sup_srcs := num_sup_srcs p1 + 1,
                    srcs := (srcs p1)[k := save_sep info idx sid nprot prot (srcs p1 ! k)]\<rparr>)
         else p1)"

definition bta_av_audio_sink_getconfig ::
  "buf \<Rightarrow> u8 \<Rightarrow> buf \<Rightarrow> u8 \<Rightarrow> u8 \<Rightarrow> u8 \<Rightarrow> buf \<Rightarrow> tBTA_AV_CO_CB \<Rightarrow>
   u8 \<times> buf \<times> u8 \<times> u8 \<times> tBTA_AV_CO_CB" where
  "bta_av_audio_sink_getconfig pref hndl info idx sid nprot prot cb =
     (case bta_av_co_get_peer cb hndl of
        None \<Rightarrow> (A2D_FAIL, info, idx, nprot, cb)
      | Some i \<Rightarrow>
          let p1 = recv_src info idx sid nprot prot (peers cb ! i)
          in if num_rx_srcs p1 = num_srcs p1 \<or> unat (num_sup_srcs p1) = BTC_SV_AV_AA_SOURCE_COUNT
             then (case bta_av_co_audio_find_peer_src p1 of
                     None \<Rightarrow> (A2D_FAIL, info, idx, nprot, set_peer cb i p1)
                   | Some k \<Rightarrow>
                       let src = srcs p1 ! k;
                           cfg = memcpy (codec_cfg p1) (bta_av_build_src_cfg pref (codec_caps src))
                                   AVDT_CODEC_SIZE;
                           p2 = p1\<lparr>p_src := Some k, codec_cfg := cfg\<rparr>
                       in (A2D_SUCCESS, memcpy info cfg AVDT_CODEC_SIZE, sep_info_idx src, 0,
                           set_peer cb i p2))
             else (A2D_FAIL, info, idx, nprot, set_peer cb i p1))"

definition recv_snk :: "buf \<Rightarrow> u8 \<Rightarrow> u8 \<Rightarrow> u8 \<Rightarrow> buf \<Rightarrow> tBTA_AV_CO_PEER \<Rightarrow> tBTA_AV_CO_PEER" where
  "recv_snk info idx sid nprot prot p =
     (let p1 = p\<lparr>num_rx_snks := num_rx_snks p + 1\<rparr>
      in if A2DP_IsPeerSinkCodecValid info \<and> unat (num_sup_snks p1) < BTC_SV_AV_AA_SINK_COUNT
         then (let k = unat (num_sup_snks p1)
               in p1\<lparr>num_sup_snks := num_sup_snks p1 + 1,
                    snks := (snks p1)[k := save_sep info idx sid nprot prot (snks p1 ! k)]\<rparr>)
         else p1)"

definition bta_av_co_audio_getconfig ::
  "buf \<Rightarrow> u8 \<Rightarrow> buf \<Rightarrow> u8 \<Rightarrow> u8 \<Rightarrow> u8 \<Rightarrow> buf \<Rightarrow> tBTA_AV_CO_CB \<Rightarrow>
   u8 \<times> buf \<times> u8 \<times> u8 \<times> tBTA_AV_CO_CB \<times> co_call list" where
  "bta_av_co_audio_getconfig loc hndl info idx sid nprot prot cb =
     (case bta_av_co_get_peer cb hndl of
        None \<Rightarrow> (A2D_FAIL, info, idx, nprot, cb, [])
      | Some i \<Rightarrow>
          if uuid_to_connect (peers cb ! i) = UUID_SERVCLASS_AUDIO_SOURCE
          then (let (st, info', idx', nprot', cb') =
                  bta_av_audio_sink_getconfig loc hndl info idx sid nprot prot cb
                in (st, info', idx', nprot', cb', []))
          else
            let p1 = recv_snk info idx sid nprot prot (peers cb ! i)
            in if num_rx_snks p1 = num_snks p1 \<or> unat (num_sup_snks p1) = BTC_SV_AV_AA_SINK_COUNT
               then (case bta_av_co_audio_find_peer_sink p1 of
                       None \<Rightarrow> (A2D_FAIL, info, idx, nprot, set_peer cb i p1, [])
                     | Some k \<Rightarrow>
                         let snk = snks p1 ! k;
                             idx1 = (if acp p1 then num_seps p1 else idx);
                             (ok, cfg) = bta_av_co_audio_codec_build_config (codec_caps snk) loc
                         in if ok
                            then (let p2 = p1\<lparr>p_snk := Some k,
                                              codec_cfg := memcpy (codec_cfg p1) cfg AVDT_CODEC_SIZE\<rparr>;
                                      cb' = set_peer cb i p2
                                  in if acp p2
                                     then (A2D_SUCCESS, info, idx1, 0, cb',
                                           if recfg_needed p2
                                           then [AvReconfig hndl True (sep_info_idx snk) (codec_cfg p2) 0
                                                   bta_av_co_cp_scmst]
                                           else [])
                                     else (A2D_SUCCESS, memcpy info (codec_cfg p2) AVDT_CODEC_SIZE,
                                           sep_info_idx snk, 0, cb', []))
                            else (A2D_FAIL, info, idx1, nprot, set_peer cb i p1, []))
               else (A2D_FAIL, info, idx, nprot, set_peer cb i p1, []))"

subsection \<open>The configuration requested by a peer, opening and closing\<close>

text \<open>
  \<open>codec_cfg_status\<close> of \<open>bta_av_co_audio_setconfig\<close>: what the codec says to the octets, for the
  role of the local end point.
\<close>

definition setconfig_status :: "u8 \<Rightarrow> buf \<Rightarrow> u8" where
  "setconfig_status t_local_sep info =
     (let s0 = A2D_SUCCESS;
          s1 = (if t_local_sep = AVDT_TSEP_SNK then A2DP_IsPeerSourceCodecSupported info else s0)
      in if t_local_sep = AVDT_TSEP_SRC then A2DP_IsSinkCodecSupported info else s1)"

definition bta_av_co_audio_setconfig ::
  "u8 \<Rightarrow> buf \<Rightarrow> u8 \<Rightarrow> u8 \<Rightarrow> u8 \<Rightarrow> tBTA_AV_CO_CB \<Rightarrow> tBTA_AV_CO_CB \<times> co_call list" where
  "bta_av_co_audio_setconfig hndl info nprot t_local_sep avdt_handle cb =
     (case bta_av_co_get_peer cb hndl of
        None \<Rightarrow> (cb, [ci_setconfig hndl A2D_BUSY AVDT_ASC_CODEC False avdt_handle])
      | Some i \<Rightarrow>
          if nprot \<noteq> 0
          then (cb, [ci_setconfig hndl A2D_SUCCESS AVDT_ASC_PROTECT False avdt_handle])
          else
            let st = setconfig_status t_local_sep info
            in if st = A2D_SUCCESS
               then (let recfg = (if \<not> A2DP_CodecTypeEquals (codec_cfg_setconfig cb) info then True
                                  else nprot = 1 \<and> \<not> bta_av_co_cp_is_active cb);
                         cb1 = cb\<lparr>codec_cfg_setconfig :=
                                    memcpy (codec_cfg_setconfig cb) info AVDT_CODEC_SIZE\<rparr>;
                         (cb2, recfg') =
                           (if t_local_sep = AVDT_TSEP_SNK
                            then (cb1\<lparr>cb_codec_cfg := memcpy (cb_codec_cfg cb1) info AVDT_CODEC_SIZE\<rparr>,
                                  False)
                            else (cb1, recfg));
                         p = (peers cb2 ! i)\<lparr>acp := True, recfg_needed := recfg'\<rparr>
                     in (set_peer cb2 i p,
                         [ci_setconfig hndl A2D_SUCCESS A2D_SUCCESS recfg' avdt_handle]))
               else (cb, [ci_setconfig hndl st AVDT_ASC_CODEC False avdt_handle]))"

definition bta_av_co_audio_open :: "u8 \<Rightarrow> u16 \<Rightarrow> tBTA_AV_CO_CB \<Rightarrow> tBTA_AV_CO_CB" where
  "bta_av_co_audio_open hndl m cb =
     (case bta_av_co_get_peer cb hndl of
        None \<Rightarrow> cb
      | Some i \<Rightarrow> set_peer cb i ((peers cb ! i)\<lparr>opened := True, mtu := m\<rparr>))"

definition bta_av_co_audio_close :: "u8 \<Rightarrow> tBTA_AV_CO_CB \<Rightarrow> tBTA_AV_CO_CB" where
  "bta_av_co_audio_close hndl cb =
     (let cb1 = (case bta_av_co_get_peer cb hndl of
                   None \<Rightarrow> cb
                 | Some i \<Rightarrow> set_peer cb i co_peer_zero)
      in cb1\<lparr>codec_cfg_setconfig := memset (codec_cfg_setconfig cb1) 0 AVDT_CODEC_SIZE\<rparr>)"

definition bta_av_co_audio_start :: "u8 \<Rightarrow> tBTA_AV_CO_CB \<Rightarrow> tBTA_AV_CO_CB" where
  "bta_av_co_audio_start hndl cb = cb"

definition bta_av_co_audio_stop :: "u8 \<Rightarrow> tBTA_AV_CO_CB \<Rightarrow> tBTA_AV_CO_CB" where
  "bta_av_co_audio_stop hndl cb = cb"

definition bta_av_co_audio_discard_config :: "u8 \<Rightarrow> tBTA_AV_CO_CB \<Rightarrow> tBTA_AV_CO_CB" where
  "bta_av_co_audio_discard_config hndl cb =
     (case bta_av_co_get_peer cb hndl of
        None \<Rightarrow> cb
      | Some i \<Rightarrow> set_peer cb i (bta_av_co_audio_peer_reset_config (peers cb ! i)))"

subsection \<open>The device as a source\<close>

text \<open>
  The loop of \<open>bta_av_co_audio_codec_supported\<close> over the peers, from index \<open>i\<close>: the status it
  leaves, the result, the control block and the calls made; \<open>None\<close> when it reads past the
  content protection octets of an entry.
\<close>

function codec_supported_loop ::
  "buf \<Rightarrow> nat \<Rightarrow> tBTA_AV_CO_CB \<Rightarrow> (bool \<times> int \<times> tBTA_AV_CO_CB \<times> co_call list) option" where
  "codec_supported_loop loc i cb =
     (if BTA_AV_NUM_STRS \<le> i then Some (True, BTC_AV_SUCCESS, cb, [])
      else if \<not> opened (peers cb ! i) then codec_supported_loop loc (Suc i) cb
      else
        (case bta_av_co_audio_find_peer_sink (peers cb ! i) of
           None \<Rightarrow> Some (False, BTC_ERROR_SRV_AV_FEEDING_NOT_SUPPORTED, cb, [])
         | Some k \<Rightarrow>
             let p = peers cb ! i; snk = snks p ! k
             in (case bta_av_co_audio_sink_supports_cp cb snk of
                   None \<Rightarrow> None
                 | Some False \<Rightarrow> Some (False, BTC_ERROR_SRV_AV_CP_NOT_SUPPORTED, cb, [])
                 | Some True \<Rightarrow>
                     let (ok, cfg) = bta_av_co_audio_codec_build_config (codec_caps snk) loc
                     in if ok \<and> (Some k \<noteq> p_snk p \<or> \<not> buf_agree AVDT_CODEC_SIZE cfg (codec_cfg p))
                        then (let p' = p\<lparr>p_snk := Some k,
                                         codec_cfg := memcpy (codec_cfg p) cfg AVDT_CODEC_SIZE\<rparr>;
                                  call = AvReconfig (indx_to_hndl (of_nat i)) True (sep_info_idx snk)
                                           (codec_cfg p') 0 bta_av_co_cp_scmst
                              in map_option (\<lambda>(b, st, cb', calls). (b, st, cb', call # calls))
                                   (codec_supported_loop cfg (Suc i) (set_peer cb i p')))
                        else codec_supported_loop cfg (Suc i) cb)))"
  by pat_completeness auto
termination
  by (relation "measure (\<lambda>(loc, i, cb). BTA_AV_NUM_STRS - i)") auto

declare codec_supported_loop.simps [simp del]

definition bta_av_co_audio_codec_supported ::
  "buf \<Rightarrow> tBTA_AV_CO_CB \<Rightarrow> (bool \<times> int \<times> tBTA_AV_CO_CB \<times> co_call list) option" where
  "bta_av_co_audio_codec_supported loc cb = codec_supported_loop loc 0 cb"

definition bta_av_co_audio_codec_reset :: "tBTA_AV_CO_CB \<Rightarrow> tBTA_AV_CO_CB" where
  "bta_av_co_audio_codec_reset cb =
     cb\<lparr>cb_codec_cfg := the (snd (A2D_BldSbcInfo A2D_MEDIA_TYPE_AUDIO
          (Some btc_av_sbc_default_config) (Some (cb_codec_cfg cb))))\<rparr>"

record tBTC_AV_MEDIA_FEEDINGS =
  feed_format :: u8
  feed_sampling_freq :: u16
  feed_num_channel :: u16
  feed_bit_per_sample :: u8

text \<open>The SBC rate for a PCM rate, as the switch of \<open>bta_av_co_audio_set_codec\<close> has it.\<close>

definition feed_samp_freq :: "u16 \<Rightarrow> u8 option" where
  "feed_samp_freq f =
     (if f \<in> set [8000, 12000, 16000, 24000, 32000, 48000] then Some A2D_SBC_IE_SAMP_FREQ_48
      else if f \<in> set [11025, 22050, 44100] then Some A2D_SBC_IE_SAMP_FREQ_44
      else None)"

definition bta_av_co_audio_set_codec ::
  "buf \<Rightarrow> buf \<Rightarrow> tBTC_AV_MEDIA_FEEDINGS \<Rightarrow> tBTA_AV_CO_CB \<Rightarrow>
   (bool \<times> int \<times> tBTA_AV_CO_CB \<times> co_call list) option" where
  "bta_av_co_audio_set_codec new_cfg loc feed cb =
     (let no = Some (False, BTC_ERROR_SRV_AV_FEEDING_NOT_SUPPORTED, cb, [])
      in if feed_format feed = BTC_AV_CODEC_PCM
         then (if feed_num_channel feed \<noteq> 1 \<and> feed_num_channel feed \<noteq> 2 then no
               else if feed_bit_per_sample feed \<noteq> 8 \<and> feed_bit_per_sample feed \<noteq> 16 then no
               else
                 (case feed_samp_freq (feed_sampling_freq feed) of
                    None \<Rightarrow> no
                  | Some f \<Rightarrow>
                      (case A2D_BldSbcInfo A2D_MEDIA_TYPE_AUDIO
                              (Some (btc_av_sbc_default_config\<lparr>sbc_samp_freq := f\<rparr>)) (Some new_cfg) of
                         (st, Some cfg) \<Rightarrow>
                           if st \<noteq> A2D_SUCCESS then no
                           else bta_av_co_audio_codec_supported loc (cb\<lparr>cb_codec_cfg := cfg\<rparr>)
                       | (st, None) \<Rightarrow> no)))
         else no)"

text \<open>
  \<open>bta_av_co_audio_get_sbc_config\<close>: the bitpool bounds of the first SBC entry of a peer narrow
  the current configuration, for every open peer; the smallest MTU of these is returned too.
\<close>

fun first_sbc :: "tBTA_AV_CO_SINK list \<Rightarrow> tBTA_AV_CO_SINK option" where
  "first_sbc [] = None"
| "first_sbc (s # ss) = (if A2DP_GetCodecType (codec_caps s) = A2D_MEDIA_CT_SBC then Some s else first_sbc ss)"

definition narrow_bitpool :: "tBTA_AV_CO_SINK \<Rightarrow> tA2D_SBC_CIE \<Rightarrow> tA2D_SBC_CIE" where
  "narrow_bitpool s c =
     c\<lparr>sbc_min_bitpool := max (codec_caps s BTA_AV_CO_SBC_MIN_BITPOOL_OFF) (sbc_min_bitpool c),
       sbc_max_bitpool := min (codec_caps s BTA_AV_CO_SBC_MAX_BITPOOL_OFF) (sbc_max_bitpool c)\<rparr>"

definition narrow_by_peer :: "tBTA_AV_CO_PEER \<Rightarrow> tA2D_SBC_CIE \<times> u16 \<Rightarrow> tA2D_SBC_CIE \<times> u16" where
  "narrow_by_peer p cm =
     (if opened p
      then (let c = fst cm; m = (if mtu p < snd cm then mtu p else snd cm)
            in case first_sbc (take (unat (num_sup_snks p)) (snks p)) of
                 None \<Rightarrow> (c, m)
               | Some s \<Rightarrow> (narrow_bitpool s c, m))
      else cm)"

definition bta_av_co_audio_get_sbc_config ::
  "tA2D_SBC_CIE \<Rightarrow> tBTA_AV_CO_CB \<Rightarrow> bool \<times> tA2D_SBC_CIE \<times> u16" where
  "bta_av_co_audio_get_sbc_config sbc_config cb =
     (if A2DP_GetCodecType (cb_codec_cfg cb) = A2D_MEDIA_CT_SBC
      then (case A2D_ParsSbcInfo (Some sbc_config) (Some (cb_codec_cfg cb)) False of
              (st, Some c) \<Rightarrow>
                if st = A2D_SUCCESS
                then (True, fold narrow_by_peer (peers cb) (c, 0xFFFF))
                else (False, btc_av_sbc_default_config, 0xFFFF)
            | (st, None) \<Rightarrow> (False, btc_av_sbc_default_config, 0xFFFF))
      else (False, btc_av_sbc_default_config, 0xFFFF))"

definition bta_av_co_init :: "tBTA_AV_CO_CB" where
  "bta_av_co_init =
     bta_av_co_audio_codec_reset (snd (bta_av_co_cp_set_flag BTA_AV_CP_SCMS_COPY_FREE
       (co_cb_zero\<lparr>codec_cfg_setconfig :=
          memset (codec_cfg_setconfig co_cb_zero) 0 AVDT_CODEC_SIZE\<rparr>)))"

definition bta_av_co_peer_cp_supported :: "u8 \<Rightarrow> tBTA_AV_CO_CB \<Rightarrow> bool option" where
  "bta_av_co_peer_cp_supported hndl cb =
     (case bta_av_co_get_peer cb hndl of
        None \<Rightarrow> Some False
      | Some i \<Rightarrow>
          (case first_sbc (take (unat (num_sup_snks (peers cb ! i))) (snks (peers cb ! i))) of
             None \<Rightarrow> Some False
           | Some s \<Rightarrow> bta_av_co_audio_sink_has_scmst s))"

definition bta_av_co_get_remote_bitpool_pref :: "tBTA_AV_CO_CB \<Rightarrow> (u8 \<times> u8) option" where
  "bta_av_co_get_remote_bitpool_pref cb =
     (if A2DP_GetCodecType (codec_cfg_setconfig cb) \<noteq> A2D_MEDIA_CT_SBC then None
      else Some (codec_cfg_setconfig cb BTA_AV_CO_SBC_MIN_BITPOOL_OFF,
                 codec_cfg_setconfig cb BTA_AV_CO_SBC_MAX_BITPOOL_OFF))"

subsection \<open>The codec dispatch as the tables use it\<close>

lemmas peer_source_supported =
  A2DP_IsPeerSourceCodecSupportedSbc_def A2DP_IsPeerSourceCodecSupportedAac_def
  A2DP_IsVendorPeerSourceCodecValidAptx_def A2DP_IsVendorPeerSourceCodecValidAptxHd_def
  A2DP_IsVendorPeerSourceCodecValidAptxLl_def A2DP_IsVendorPeerSourceCodecValidLdac_def
  A2DP_IsVendorPeerSourceCodecValidOpus_def A2DP_IsVendorPeerSourceCodecValidLc3Plus_def
  A2DP_IsVendorPeerSourceCodecValidLhdcV5_def

lemmas source_indexes =
  A2DP_SourceCodecIndexSbc_def A2DP_SourceCodecIndexAac_def
  A2DP_VendorSourceCodecIndexAptx_def A2DP_VendorSourceCodecIndexAptxHd_def
  A2DP_VendorSourceCodecIndexAptxLl_def A2DP_VendorSourceCodecIndexLdac_def
  A2DP_VendorSourceCodecIndexOpus_def A2DP_VendorSourceCodecIndexLc3Plus_def
  A2DP_VendorSourceCodecIndexLhdcV5_def

lemma A2DP_IsPeerSourceCodecSupported_index:
  "A2DP_IsPeerSourceCodecSupported p = A2D_SUCCESS \<Longrightarrow>
    A2DP_SourceCodecIndex p \<noteq> BTAV_A2DP_CODEC_INDEX_MAX"
proof (cases p rule: codec_cases)
  case (vendor v)
  then show "A2DP_IsPeerSourceCodecSupported p = A2D_SUCCESS \<Longrightarrow> ?thesis"
    by (cases v) (simp_all add: codec_dispatch vendor_dispatch source_indexes)
qed (simp_all add: codec_dispatch vendor_dispatch source_indexes)

lemma A2DP_IsPeerSinkCodecValid_index:
  "A2DP_IsPeerSinkCodecValid p \<Longrightarrow> A2DP_SinkCodecIndex p \<noteq> BTAV_A2DP_CODEC_INDEX_MAX"
  using A2DP_GetDecoderInterface_index [of p] A2DP_GetDecoderInterface_iff [of p]
  by (cases "A2DP_SinkCodecIndex p") auto

lemma A2DP_IsPeerSourceCodecSupported_local:
  assumes "buf_agree AVDT_CODEC_SIZE b b'"
  shows "A2DP_IsPeerSourceCodecSupported b = A2DP_IsPeerSourceCodecSupported b'"
proof (cases b' rule: codec_cases)
  case (vendor v)
  then show ?thesis
    by (cases v) (simp_all add: codec_dispatch vendor_dispatch peer_source_supported
        vendor_ids_local [OF assms] parse_prefixes [OF assms])
qed (simp_all add: codec_dispatch vendor_dispatch peer_source_supported
    A2DP_CodecInfoMatchesCapabilitySbc_def A2DP_CodecInfoMatchesCapabilityAac_def
    vendor_ids_local [OF assms] parse_prefixes [OF assms])

lemma A2DP_IsPeerSinkCodecValid_local:
  assumes "buf_agree AVDT_CODEC_SIZE b b'"
  shows "A2DP_IsPeerSinkCodecValid b = A2DP_IsPeerSinkCodecValid b'"
proof (cases b' rule: codec_cases)
  case (vendor v)
  then show ?thesis
    by (cases v) (simp_all add: codec_dispatch vendor_dispatch peer_sink_valid
        vendor_ids_local [OF assms] parse_prefixes [OF assms])
qed (simp_all add: codec_dispatch vendor_dispatch peer_sink_valid
    vendor_ids_local [OF assms] parse_prefixes [OF assms])

subsection \<open>The tables of end points\<close>

text \<open>
  Both tables of a peer obey one discipline: an element is saved when it is accepted, after the
  ones before it, and the search looks for an element with a codec index. The locale fixes the
  two questions the code asks the codecs.
\<close>

definition table_ok :: "(buf \<Rightarrow> bool) \<Rightarrow> tBTA_AV_CO_SINK list \<Rightarrow> nat \<Rightarrow> bool" where
  "table_ok acc tab n \<longleftrightarrow> n \<le> length tab \<and> (\<forall>i < n. acc (codec_caps (tab ! i))) \<and>
     (\<forall>s \<in> set tab. length (protect_info s) = BTA_AV_CP_INFO_LEN)"

lemma save_sep_simps [simp]:
  "codec_caps (save_sep info idx sid np pr s) = memcpy (codec_caps s) info AVDT_CODEC_SIZE"
  "sep_info_idx (save_sep info idx sid np pr s) = idx"
  "length (protect_info (save_sep info idx sid np pr s)) = BTA_AV_CP_INFO_LEN"
  by (simp_all add: save_sep_def)

lemma find_sep_less: "find_sep f tab n = Some k \<Longrightarrow> k < n"
  by (induction n) (auto split: if_splits simp: less_Suc_eq)

locale sep_table =
  fixes accepts :: "buf \<Rightarrow> bool" and index_of :: "buf \<Rightarrow> btav_a2dp_codec_index_t"
  assumes accepts_local: "buf_agree AVDT_CODEC_SIZE b b' \<Longrightarrow> accepts b = accepts b'"
    and accepts_index: "accepts b \<Longrightarrow> index_of b \<noteq> BTAV_A2DP_CODEC_INDEX_MAX"
begin

lemma save_ok:
  assumes "table_ok accepts tab n" and "n < length tab" and "accepts info"
  shows "table_ok accepts (tab[n := save_sep info idx sid np pr s]) (Suc n)"
proof -
  have "accepts (memcpy c info AVDT_CODEC_SIZE)" for c
    using assms(3) accepts_local [of "memcpy c info AVDT_CODEC_SIZE" info] by simp
  then show ?thesis using assms
    by (auto simp: table_ok_def nth_list_update less_Suc_eq dest!: set_update_subset_insert [THEN subsetD])
qed

lemma find_newest:
  assumes "table_ok accepts tab n"
  shows "find_sep index_of tab n = (case n of 0 \<Rightarrow> None | Suc k \<Rightarrow> Some k)"
  using assms accepts_index by (cases n) (auto simp: table_ok_def)

lemma found_accepted:
  assumes "table_ok accepts tab n" and "find_sep index_of tab n = Some k"
  shows "k < n \<and> n \<le> length tab \<and> accepts (codec_caps (tab ! k))"
  using assms find_newest [OF assms(1)] by (auto simp: table_ok_def split: nat.splits)

end

abbreviation src_accepted :: "buf \<Rightarrow> bool" where
  "src_accepted b \<equiv> A2DP_IsPeerSourceCodecSupported b = A2D_SUCCESS"

interpretation snk_table: sep_table A2DP_IsPeerSinkCodecValid A2DP_SinkCodecIndex
  by unfold_locales (fact A2DP_IsPeerSinkCodecValid_local A2DP_IsPeerSinkCodecValid_index)+

interpretation src_table: sep_table src_accepted A2DP_SourceCodecIndex
  by unfold_locales (use A2DP_IsPeerSourceCodecSupported_local in simp,
      fact A2DP_IsPeerSourceCodecSupported_index)

subsection \<open>Histories of calls\<close>

text \<open>
  A step is one call of a function of the component with arbitrary arguments; its label are the
  calls the function makes. The peers' tables, the selected entries and the content protection
  state obey the invariant.
\<close>

inductive co_step :: "tBTA_AV_CO_CB \<Rightarrow> co_call list \<Rightarrow> tBTA_AV_CO_CB \<Rightarrow> bool" where
  co_init: "co_step cb [] bta_av_co_init"
| audio_init: "bta_av_co_audio_init ix info prot tsep cb = (ok, info', np, prot', cb') \<Longrightarrow>
    co_step cb [] cb'"
| disc_res: "co_step cb [] (bta_av_co_audio_disc_res h n ns nr bda uuid cb)"
| cfg_res: "co_step cb [] (bta_av_co_audio_cfg_res h n ns nr bda uuid cb)"
| getconfig: "bta_av_co_audio_getconfig loc h info ix sid np prot cb = (st, info', ix', np', cb', calls) \<Longrightarrow>
    co_step cb calls cb'"
| setconfig: "bta_av_co_audio_setconfig h info np tsep avh cb = (cb', calls) \<Longrightarrow> co_step cb calls cb'"
| open_step: "co_step cb [] (bta_av_co_audio_open h m cb)"
| close_step: "co_step cb [] (bta_av_co_audio_close h cb)"
| start_step: "co_step cb [] (bta_av_co_audio_start h cb)"
| stop_step: "co_step cb [] (bta_av_co_audio_stop h cb)"
| discard: "co_step cb [] (bta_av_co_audio_discard_config h cb)"
| set_flag: "co_step cb [] (snd (bta_av_co_cp_set_flag fl cb))"
| codec_reset: "co_step cb [] (bta_av_co_audio_codec_reset cb)"
| set_codec: "bta_av_co_audio_set_codec new loc feed cb = Some (b, st, cb', calls) \<Longrightarrow>
    co_step cb calls cb'"
| codec_supported: "bta_av_co_audio_codec_supported loc cb = Some (b, st, cb', calls) \<Longrightarrow>
    co_step cb calls cb'"

definition co_peer_ok :: "tBTA_AV_CO_PEER \<Rightarrow> bool" where
  "co_peer_ok p \<longleftrightarrow>
     table_ok A2DP_IsPeerSinkCodecValid (snks p) (unat (num_sup_snks p)) \<and>
     table_ok src_accepted (srcs p) (unat (num_sup_srcs p)) \<and>
     length (snks p) = BTC_SV_AV_AA_SINK_COUNT \<and> length (srcs p) = BTC_SV_AV_AA_SOURCE_COUNT \<and>
     (\<forall>k. p_snk p = Some k \<longrightarrow> k < BTC_SV_AV_AA_SINK_COUNT) \<and>
     (\<forall>k. p_src p = Some k \<longrightarrow> k < BTC_SV_AV_AA_SOURCE_COUNT)"

definition co_ok :: "tBTA_AV_CO_CB \<Rightarrow> bool" where
  "co_ok cb \<longleftrightarrow> length (peers cb) = BTA_AV_NUM_STRS \<and> (\<forall>p \<in> set (peers cb). co_peer_ok p) \<and>
     cb_cp cb = \<lparr>cp_is_on = False, cp_flag = BTA_AV_CP_SCMS_COPY_FREE\<rparr>"

lemma co_ok_fields [simp]:
  "co_ok (cb\<lparr>codec_cfg_setconfig := x\<rparr>) = co_ok cb"
  "co_ok (cb\<lparr>cb_codec_cfg := y\<rparr>) = co_ok cb"
  by (simp_all add: co_ok_def)

lemma co_peer_ok_fields [simp]:
  "co_peer_ok (p\<lparr>addr := a\<rparr>) = co_peer_ok p"
  "co_peer_ok (p\<lparr>num_rx_snks := b\<rparr>) = co_peer_ok p"
  "co_peer_ok (p\<lparr>num_rx_srcs := b\<rparr>) = co_peer_ok p"
  "co_peer_ok (p\<lparr>uuid_to_connect := u\<rparr>) = co_peer_ok p"
  "co_peer_ok (p\<lparr>got_disc_res := g\<rparr>) = co_peer_ok p"
  "co_peer_ok (p\<lparr>opened := g, mtu := m\<rparr>) = co_peer_ok p"
  "co_peer_ok (p\<lparr>acp := g, recfg_needed := r\<rparr>) = co_peer_ok p"
  by (simp_all add: co_peer_ok_def)

lemma set_peer_simps [simp]:
  "cb_codec_cfg (set_peer cb i p) = cb_codec_cfg cb"
  "codec_cfg_setconfig (set_peer cb i p) = codec_cfg_setconfig cb"
  "cb_cp (set_peer cb i p) = cb_cp cb"
  "peers (set_peer cb i p) = (peers cb)[i := p]"
  by (simp_all add: set_peer_def)

lemma co_ok_set_peer [intro]: "co_ok cb \<Longrightarrow> co_peer_ok p \<Longrightarrow> co_ok (set_peer cb i p)"
  by (auto simp: co_ok_def dest!: set_update_subset_insert [THEN subsetD])

lemma get_peer_less: "bta_av_co_get_peer cb h = Some i \<Longrightarrow> i < BTA_AV_NUM_STRS"
  by (auto simp: bta_av_co_get_peer_def Let_def split: if_splits)

lemma co_ok_peer: "co_ok cb \<Longrightarrow> i < BTA_AV_NUM_STRS \<Longrightarrow> co_peer_ok (peers cb ! i)"
  by (auto simp: co_ok_def)

lemma co_ok_got_peer: "co_ok cb \<Longrightarrow> bta_av_co_get_peer cb h = Some i \<Longrightarrow> co_peer_ok (peers cb ! i)"
  by (rule co_ok_peer [OF _ get_peer_less])

lemma co_peer_zero_ok: "co_peer_ok co_peer_zero"
  by (auto simp: co_peer_ok_def co_peer_zero_def table_ok_def co_sink_zero_def)

lemma table_ok_take:
  assumes "table_ok acc tab n"
  shows "list_all (\<lambda>s. acc (codec_caps s)) (take n tab)" and "n \<le> length tab"
  using assms by (auto simp: table_ok_def list_all_length)

lemma table_ok_0: "table_ok acc tab n \<Longrightarrow> table_ok acc tab 0"
  by (simp add: table_ok_def)

lemma copy_results_ok: "co_peer_ok p \<Longrightarrow> co_peer_ok (copy_results n ns nr p)"
  by (auto simp: copy_results_def co_peer_ok_def intro: table_ok_0)

lemma uuid_of_peer_ok [simp]: "co_peer_ok (uuid_of_peer u p) = co_peer_ok p"
  by (simp add: uuid_of_peer_def)

lemma unat_u8_Suc: "unat (w :: u8) < 10 \<Longrightarrow> unat (w + 1) = Suc (unat w)"
  by (simp add: unat_word_ariths)

lemma recv_src_ok:
  assumes "co_peer_ok p"
  shows "co_peer_ok (recv_src info ix sid np prot p)"
proof (cases "src_accepted info \<and> unat (num_sup_srcs p) < BTC_SV_AV_AA_SOURCE_COUNT")
  case True
  then show ?thesis
    using assms src_table.save_ok [of "srcs p" "unat (num_sup_srcs p)" info]
    by (simp add: recv_src_def Let_def co_peer_ok_def unat_u8_Suc)
next
  case False
  then show ?thesis using assms by (auto simp: recv_src_def Let_def)
qed

lemma recv_snk_ok:
  assumes "co_peer_ok p"
  shows "co_peer_ok (recv_snk info ix sid np prot p)"
proof (cases "A2DP_IsPeerSinkCodecValid info \<and> unat (num_sup_snks p) < BTC_SV_AV_AA_SINK_COUNT")
  case True
  then show ?thesis
    using assms snk_table.save_ok [of "snks p" "unat (num_sup_snks p)" info]
    by (simp add: recv_snk_def Let_def co_peer_ok_def unat_u8_Suc)
next
  case False
  then show ?thesis using assms by (auto simp: recv_snk_def Let_def)
qed

lemma find_src_ok:
  assumes "co_peer_ok p" and "bta_av_co_audio_find_peer_src p = Some k"
  shows "k < BTC_SV_AV_AA_SOURCE_COUNT" and "src_accepted (codec_caps (srcs p ! k))"
    and "k < unat (num_sup_srcs p)"
  using assms src_table.found_accepted [of "srcs p" "unat (num_sup_srcs p)" k]
  by (auto simp: co_peer_ok_def bta_av_co_audio_find_peer_src_def)

lemma find_snk_ok:
  assumes "co_peer_ok p" and "bta_av_co_audio_find_peer_sink p = Some k"
  shows "k < BTC_SV_AV_AA_SINK_COUNT" and "A2DP_IsPeerSinkCodecValid (codec_caps (snks p ! k))"
    and "k < unat (num_sup_snks p)"
  using assms snk_table.found_accepted [of "snks p" "unat (num_sup_snks p)" k]
  by (auto simp: co_peer_ok_def bta_av_co_audio_find_peer_sink_def)

lemma select_src_ok:
  "co_peer_ok p \<Longrightarrow> k < BTC_SV_AV_AA_SOURCE_COUNT \<Longrightarrow> co_peer_ok (p\<lparr>p_src := Some k, codec_cfg := c\<rparr>)"
  by (simp add: co_peer_ok_def)

lemma select_snk_ok:
  "co_peer_ok p \<Longrightarrow> k < BTC_SV_AV_AA_SINK_COUNT \<Longrightarrow> co_peer_ok (p\<lparr>p_snk := Some k, codec_cfg := c\<rparr>)"
  by (simp add: co_peer_ok_def)

subsection \<open>Every function keeps the invariant\<close>

lemma audio_init_ok:
  "co_ok cb \<Longrightarrow> bta_av_co_audio_init ix info prot tsep cb = (ok, info', np, prot', cb') \<Longrightarrow> co_ok cb'"
  by (auto simp: bta_av_co_audio_init_def Let_def split: if_splits prod.splits)

lemma disc_res_ok: "co_ok cb \<Longrightarrow> co_ok (bta_av_co_audio_disc_res h n ns nr bda uuid cb)"
  using co_ok_got_peer [of cb h]
  by (auto simp: bta_av_co_audio_disc_res_def Let_def split: option.splits intro!: co_ok_set_peer simp: copy_results_ok)

lemma cfg_res_ok: "co_ok cb \<Longrightarrow> co_ok (bta_av_co_audio_cfg_res h n ns nr bda uuid cb)"
  using co_ok_got_peer [of cb h]
  by (auto simp: bta_av_co_audio_cfg_res_def Let_def split: option.splits intro!: co_ok_set_peer simp: copy_results_ok)

lemma sink_getconfig_ok:
  assumes "co_ok cb"
    and "bta_av_audio_sink_getconfig pref h info ix sid np prot cb = (st, info', ix', np', cb')"
  shows "co_ok cb'"
proof (cases "bta_av_co_get_peer cb h")
  case (Some i)
  let ?p = "recv_src info ix sid np prot (peers cb ! i)"
  have p: "co_peer_ok ?p" using co_ok_got_peer [OF assms(1) Some] by (rule recv_src_ok)
  show ?thesis
    using assms Some p find_src_ok(1) [OF p] select_src_ok [OF p]
    by (auto simp: bta_av_audio_sink_getconfig_def Let_def split: if_splits option.splits)
qed (use assms in \<open>simp add: bta_av_audio_sink_getconfig_def\<close>)

lemma getconfig_ok:
  assumes "co_ok cb"
    and "bta_av_co_audio_getconfig loc h info ix sid np prot cb = (st, info', ix', np', cb', calls)"
  shows "co_ok cb'"
proof (cases "bta_av_co_get_peer cb h")
  case (Some i)
  let ?p = "recv_snk info ix sid np prot (peers cb ! i)"
  have p: "co_peer_ok ?p" using co_ok_got_peer [OF assms(1) Some] by (rule recv_snk_ok)
  show ?thesis
  proof (cases "uuid_to_connect (peers cb ! i) = UUID_SERVCLASS_AUDIO_SOURCE")
    case True
    with assms Some show ?thesis
      by (auto simp: bta_av_co_audio_getconfig_def Let_def split: prod.splits
          intro: sink_getconfig_ok [OF assms(1)])
  next
    case False
    with assms Some p find_snk_ok(1) [OF p] select_snk_ok [OF p] show ?thesis
      by (auto simp: bta_av_co_audio_getconfig_def Let_def split: if_splits option.splits prod.splits)
  qed
qed (use assms in \<open>simp add: bta_av_co_audio_getconfig_def\<close>)

lemma setconfig_ok:
  assumes "co_ok cb" and "bta_av_co_audio_setconfig h info np tsep avh cb = (cb', calls)"
  shows "co_ok cb'"
  using assms co_ok_got_peer [of cb h]
  by (auto simp: bta_av_co_audio_setconfig_def Let_def split: option.splits if_splits prod.splits)

lemma open_ok: "co_ok cb \<Longrightarrow> co_ok (bta_av_co_audio_open h m cb)"
  using co_ok_got_peer [of cb h]
  by (auto simp: bta_av_co_audio_open_def split: option.splits)

lemma close_ok: "co_ok cb \<Longrightarrow> co_ok (bta_av_co_audio_close h cb)"
  using co_peer_zero_ok by (auto simp: bta_av_co_audio_close_def Let_def split: option.splits)

lemma discard_ok: "co_ok cb \<Longrightarrow> co_ok (bta_av_co_audio_discard_config h cb)"
  using co_ok_got_peer [of cb h]
  by (auto simp: bta_av_co_audio_discard_config_def bta_av_co_audio_peer_reset_config_def
      co_peer_ok_def split: option.splits intro!: co_ok_set_peer)

lemma set_flag_ok: "co_ok cb \<Longrightarrow> co_ok (snd (bta_av_co_cp_set_flag fl cb))"
  by (simp add: bta_av_co_cp_set_flag_def co_ok_def)

lemma codec_reset_ok [simp]: "co_ok (bta_av_co_audio_codec_reset cb) = co_ok cb"
  by (simp add: bta_av_co_audio_codec_reset_def)

lemma init_ok: "co_ok bta_av_co_init"
  by (auto simp: bta_av_co_init_def co_ok_def co_cb_zero_def co_peer_zero_ok
      bta_av_co_cp_set_flag_def bta_av_co_audio_codec_reset_def)

text \<open>With the flag of the invariant no entry is asked for content protection.\<close>

lemma supports_cp_ok: "co_ok cb \<Longrightarrow> bta_av_co_audio_sink_supports_cp cb s = Some True"
  by (simp add: co_ok_def bta_av_co_audio_sink_supports_cp_def bta_av_co_cp_get_flag_def)

lemma codec_supported_loop_ok:
  "co_ok cb \<Longrightarrow> \<exists>b st cb' calls. codec_supported_loop loc i cb = Some (b, st, cb', calls) \<and>
    co_ok cb' \<and> cb_codec_cfg cb' = cb_codec_cfg cb"
proof (induction loc i cb rule: codec_supported_loop.induct)
  case (1 loc i cb)
  show ?case
  proof (cases "BTA_AV_NUM_STRS \<le> i \<or> \<not> opened (peers cb ! i)")
    case True
    then show ?thesis using 1 by (subst codec_supported_loop.simps) (auto simp: not_le)
  next
    case False
    then have p: "co_peer_ok (peers cb ! i)" using co_ok_peer [OF "1.prems"] by simp
    show ?thesis
    proof (cases "bta_av_co_audio_find_peer_sink (peers cb ! i)")
      case None
      then show ?thesis using False "1.prems"
        by (subst codec_supported_loop.simps) (simp add: ex_bool_eq)
    next
      case (Some k)
      let ?snk = "snks (peers cb ! i) ! k"
      obtain ok cfg where b: "bta_av_co_audio_codec_build_config (codec_caps ?snk) loc = (ok, cfg)"
        by fastforce
      let ?p' = "(peers cb ! i)\<lparr>p_snk := Some k,
          codec_cfg := memcpy (codec_cfg (peers cb ! i)) cfg AVDT_CODEC_SIZE\<rparr>"
      have p': "co_ok (set_peer cb i ?p')"
        using "1.prems" select_snk_ok [OF p find_snk_ok(1) [OF p Some]] by blast
      let ?new = "ok \<and> (Some k \<noteq> p_snk (peers cb ! i) \<or>
          \<not> buf_agree AVDT_CODEC_SIZE cfg (codec_cfg (peers cb ! i)))"
      have go: "codec_supported_loop loc i cb =
          (if ?new
           then map_option (\<lambda>(b, st, cb', calls).
                  (b, st, cb', AvReconfig (indx_to_hndl (of_nat i)) True (sep_info_idx ?snk)
                     (codec_cfg ?p') 0 bta_av_co_cp_scmst # calls))
                (codec_supported_loop cfg (Suc i) (set_peer cb i ?p'))
           else codec_supported_loop cfg (Suc i) cb)"
        using False Some b
        by (subst codec_supported_loop.simps) (auto simp: Let_def supports_cp_ok [OF "1.prems"])
      note ih = "1.IH"(2,3) [OF _ _ Some refl refl supports_cp_ok [OF "1.prems"] _ b [symmetric] refl]
      show ?thesis
      proof (cases ?new)
        case True
        then show ?thesis using ih(1) False p' unfolding go by fastforce
      next
        case f: False
        then show ?thesis using ih(2) [OF _ _ _ f] False "1.prems" unfolding go if_not_P [OF f] by simp
      qed
    qed
  qed
qed

lemma codec_supported_keeps:
  assumes "co_ok cb"
  shows "\<exists>b st cb' calls. bta_av_co_audio_codec_supported loc cb = Some (b, st, cb', calls) \<and>
    co_ok cb' \<and> cb_codec_cfg cb' = cb_codec_cfg cb"
  using codec_supported_loop_ok [OF assms] by (simp add: bta_av_co_audio_codec_supported_def)

lemma codec_supported_ok:
  assumes "co_ok cb"
  shows "\<exists>b st cb' calls. bta_av_co_audio_codec_supported loc cb = Some (b, st, cb', calls) \<and> co_ok cb'"
  using codec_supported_keeps [OF assms] by blast

lemma set_codec_ok:
  assumes "co_ok cb"
  shows "\<exists>b st cb' calls. bta_av_co_audio_set_codec new loc feed cb = Some (b, st, cb', calls) \<and> co_ok cb'"
  using assms codec_supported_ok [of "cb\<lparr>cb_codec_cfg := c\<rparr>" loc for c]
  by (auto simp: bta_av_co_audio_set_codec_def Let_def split: option.splits prod.splits)

lemma co_step_ok: "co_step cb calls cb' \<Longrightarrow> co_ok cb \<Longrightarrow> co_ok cb'"
proof (induction rule: co_step.induct)
  case (set_codec new loc feed cb b st cb' calls)
  then show ?case using set_codec_ok [of cb new loc feed] by auto
next
  case (codec_supported loc cb b st cb' calls)
  then show ?case using codec_supported_ok [of cb loc] by auto
next
  case audio_init
  then show ?case using audio_init_ok by blast
next
  case getconfig
  then show ?case using getconfig_ok by blast
next
  case setconfig
  then show ?case using setconfig_ok by blast
qed (simp_all add: init_ok disc_res_ok cfg_res_ok open_ok close_ok discard_ok set_flag_ok
    bta_av_co_audio_start_def bta_av_co_audio_stop_def)

text \<open>A history from the initialisation, with the calls made.\<close>

inductive co_reach :: "co_call list \<Rightarrow> tBTA_AV_CO_CB \<Rightarrow> bool" where
  start: "co_reach [] bta_av_co_init"
| step: "co_reach calls cb \<Longrightarrow> co_step cb new cb' \<Longrightarrow> co_reach (calls @ new) cb'"

lemma co_reach_ok: "co_reach calls cb \<Longrightarrow> co_ok cb"
  by (induction rule: co_reach.induct) (use init_ok co_step_ok in blast)+

subsection \<open>A round of discovery\<close>

text \<open>
  What a peer answers for one of its end points, and the calls of \<open>getconfig\<close> with the answers
  one after the other: the status, the codec element and the end point index of each call.
\<close>

record sep_answer =
  ans_info :: buf
  ans_idx :: u8
  ans_seid :: u8
  ans_num_protect :: u8
  ans_protect :: buf

fun fetch_caps ::
  "buf \<Rightarrow> u8 \<Rightarrow> sep_answer list \<Rightarrow> tBTA_AV_CO_CB \<Rightarrow> (u8 \<times> buf \<times> u8) list \<times> tBTA_AV_CO_CB" where
  "fetch_caps loc h [] cb = ([], cb)"
| "fetch_caps loc h (a # as) cb =
     (case bta_av_co_audio_getconfig loc h (ans_info a) (ans_idx a) (ans_seid a) (ans_num_protect a)
             (ans_protect a) cb of
        (st, info, ix, np, cb', calls) \<Rightarrow>
          let (rs, cb'') = fetch_caps loc h as cb' in ((st, info, ix) # rs, cb''))"

abbreviation ans_accepted :: "sep_answer \<Rightarrow> bool" where
  "ans_accepted a \<equiv> src_accepted (ans_info a)"

abbreviation recv_ans :: "sep_answer \<Rightarrow> tBTA_AV_CO_PEER \<Rightarrow> tBTA_AV_CO_PEER" where
  "recv_ans a \<equiv> recv_src (ans_info a) (ans_idx a) (ans_seid a) (ans_num_protect a) (ans_protect a)"

text \<open>The peer after the answers \<open>xs\<close> of a round: the accepted ones are in the table, in order.\<close>

definition src_round :: "sep_answer list \<Rightarrow> tBTA_AV_CO_PEER \<Rightarrow> bool" where
  "src_round xs p \<longleftrightarrow>
     unat (num_rx_srcs p) = length xs \<and> unat (num_sup_srcs p) = length (filter ans_accepted xs) \<and>
     length (srcs p) = BTC_SV_AV_AA_SOURCE_COUNT \<and> uuid_to_connect p = UUID_SERVCLASS_AUDIO_SOURCE \<and>
     (\<forall>j < length (filter ans_accepted xs).
        buf_agree AVDT_CODEC_SIZE (codec_caps (srcs p ! j)) (ans_info (filter ans_accepted xs ! j)) \<and>
        sep_info_idx (srcs p ! j) = ans_idx (filter ans_accepted xs ! j))"

lemma src_roundD:
  assumes "src_round xs p" and "j < length (filter ans_accepted xs)"
  shows "buf_agree AVDT_CODEC_SIZE (codec_caps (srcs p ! j)) (ans_info (filter ans_accepted xs ! j))"
    and "sep_info_idx (srcs p ! j) = ans_idx (filter ans_accepted xs ! j)"
  using assms by (simp_all add: src_round_def)

lemma recv_src_simps [simp]:
  "num_srcs (recv_src info ix sid np prot p) = num_srcs p"
  "num_rx_srcs (recv_src info ix sid np prot p) = num_rx_srcs p + 1"
  "uuid_to_connect (recv_src info ix sid np prot p) = uuid_to_connect p"
  by (simp_all add: recv_src_def Let_def)

lemma src_round_recv:
  assumes "src_round xs p" and "length xs < 10"
  shows "src_round (xs @ [a]) (recv_ans a p)"
proof -
  have n: "length (filter ans_accepted xs) < 10"
    using assms(2) length_filter_le [of ans_accepted xs] by linarith
  have rx: "unat (num_rx_srcs p + 1) = Suc (length xs)"
    using assms unat_u8_Suc [of "num_rx_srcs p"] by (simp add: src_round_def)
  show ?thesis
  proof (cases "ans_accepted a")
    case True
    with assms n rx show ?thesis
      by (auto simp: src_round_def recv_src_def Let_def unat_u8_Suc nth_append less_Suc_eq)
  next
    case False
    with assms rx show ?thesis
      by (simp add: src_round_def recv_src_def Let_def)
  qed
qed

lemma src_round_find:
  assumes "src_round xs p"
  shows "bta_av_co_audio_find_peer_src p =
    (case length (filter ans_accepted xs) of 0 \<Rightarrow> None | Suc k \<Rightarrow> Some k)"
proof (cases "length (filter ans_accepted xs)")
  case 0
  with assms show ?thesis by (simp add: src_round_def bta_av_co_audio_find_peer_src_def)
next
  case (Suc k)
  let ?a = "filter ans_accepted xs ! k"
  have "?a \<in> set (filter ans_accepted xs)" using Suc by (intro nth_mem) simp
  then have "src_accepted (ans_info ?a)" by simp
  moreover have "buf_agree AVDT_CODEC_SIZE (codec_caps (srcs p ! k)) (ans_info ?a)"
    using assms Suc by (simp add: src_round_def)
  ultimately have "src_accepted (codec_caps (srcs p ! k))"
    using A2DP_IsPeerSourceCodecSupported_local by simp
  then have "A2DP_SourceCodecIndex (codec_caps (srcs p ! k)) \<noteq> BTAV_A2DP_CODEC_INDEX_MAX"
    by (rule A2DP_IsPeerSourceCodecSupported_index)
  with assms Suc show ?thesis by (simp add: src_round_def bta_av_co_audio_find_peer_src_def)
qed

text \<open>One call of the round, before the last answer and for the last answer.\<close>

lemma getconfig_src:
  assumes "bta_av_co_get_peer cb h = Some i"
    and "uuid_to_connect (peers cb ! i) = UUID_SERVCLASS_AUDIO_SOURCE"
  shows "bta_av_co_audio_getconfig loc h info ix sid np prot cb =
    (let (st, info', ix', np', cb') = bta_av_audio_sink_getconfig loc h info ix sid np prot cb
     in (st, info', ix', np', cb', []))"
  using assms by (simp add: bta_av_co_audio_getconfig_def)

lemma fetch_more:
  assumes "bta_av_co_get_peer cb h = Some i" and "src_round xs (peers cb ! i)"
    and "Suc (length xs) < unat (num_srcs (peers cb ! i))" and "unat (num_srcs (peers cb ! i)) \<le> 10"
  shows "fetch_caps loc h (a # as) cb =
    (let (rs, cb') = fetch_caps loc h as (set_peer cb i (recv_ans a (peers cb ! i)))
     in ((A2D_FAIL, ans_info a, ans_idx a) # rs, cb'))"
proof -
  let ?p = "recv_ans a (peers cb ! i)"
  have r: "src_round (xs @ [a]) ?p" using src_round_recv [OF assms(2)] assms(3,4) by simp
  then have "unat (num_sup_srcs ?p) \<le> Suc (length xs)" and "unat (num_rx_srcs ?p) = Suc (length xs)"
    using length_filter_le [of ans_accepted "xs @ [a]"] unfolding src_round_def
    by (simp_all del: filter_append length_filter_le)
  then have "num_rx_srcs ?p \<noteq> num_srcs ?p" and "unat (num_sup_srcs ?p) \<noteq> 10"
    using assms(3,4) by auto
  moreover have "uuid_to_connect (peers cb ! i) = UUID_SERVCLASS_AUDIO_SOURCE"
    using assms(2) by (simp add: src_round_def)
  ultimately show ?thesis using assms(1)
    by (simp add: getconfig_src bta_av_audio_sink_getconfig_def Let_def case_prod_unfold)
qed

lemma buf_agree_sym: "buf_agree n a b \<Longrightarrow> buf_agree n b a"
  by (simp add: buf_agree_iff)

lemma buf_agree_trans: "buf_agree n a b \<Longrightarrow> buf_agree n b c \<Longrightarrow> buf_agree n a c"
  by (simp add: buf_agree_iff)

lemma build_src_cfg_local:
  "buf_agree AVDT_CODEC_SIZE a b \<Longrightarrow> bta_av_build_src_cfg r a = bta_av_build_src_cfg r b"
  using A2DP_BuildCodecConfig_local by (simp add: bta_av_build_src_cfg_def)

lemma fetch_last:
  fixes a :: sep_answer
  assumes "bta_av_co_get_peer cb h = Some i" and "src_round xs (peers cb ! i)"
    and "Suc (length xs) = unat (num_srcs (peers cb ! i))" and "unat (num_srcs (peers cb ! i)) \<le> 10"
  defines "ys \<equiv> filter ans_accepted (xs @ [a])"
  shows "if ys = [] then fst (fetch_caps loc h [a] cb) = [(A2D_FAIL, ans_info a, ans_idx a)]
    else \<exists>info. fst (fetch_caps loc h [a] cb) = [(A2D_SUCCESS, info, ans_idx (last ys))] \<and>
      buf_agree AVDT_CODEC_SIZE info (bta_av_build_src_cfg loc (ans_info (last ys)))"
proof -
  let ?p = "recv_ans a (peers cb ! i)"
  have r: "src_round (xs @ [a]) ?p" using src_round_recv [OF assms(2)] assms(3,4) by simp
  then have "unat (num_rx_srcs ?p) = Suc (length xs)" by (simp only: src_round_def) simp
  then have rx: "num_rx_srcs (peers cb ! i) + 1 = num_srcs (peers cb ! i)" using assms(3) by (simp add: word_unat_eq_iff)
  have uuid: "uuid_to_connect (peers cb ! i) = UUID_SERVCLASS_AUDIO_SOURCE"
    using assms(2) by (simp add: src_round_def)
  note go = getconfig_src [OF assms(1) uuid] bta_av_audio_sink_getconfig_def assms(1) rx
  show ?thesis
  proof (cases "ys = []")
    case True
    then have "bta_av_co_audio_find_peer_src ?p = None"
      using src_round_find [OF r] unfolding ys_def by (metis list.size(3) old.nat.simps(4))
    with True show ?thesis by (simp add: go Let_def case_prod_unfold)
  next
    case False
    then obtain k where k: "length ys = Suc k" by (cases ys) auto
    then have f: "bta_av_co_audio_find_peer_src ?p = Some k"
      using src_round_find [OF r] unfolding ys_def by simp
    have l: "last ys = ys ! k" using False k by (simp add: last_conv_nth)
    have e: "buf_agree AVDT_CODEC_SIZE (codec_caps (srcs ?p ! k)) (ans_info (ys ! k))"
        "sep_info_idx (srcs ?p ! k) = ans_idx (ys ! k)"
      using src_roundD [OF r, of k] k unfolding ys_def by (simp_all only: lessI)
    have "buf_agree AVDT_CODEC_SIZE
        (memcpy (ans_info a) (memcpy (codec_cfg ?p) (bta_av_build_src_cfg loc (ans_info (ys ! k)))
           AVDT_CODEC_SIZE) AVDT_CODEC_SIZE) (bta_av_build_src_cfg loc (ans_info (ys ! k)))"
      by (simp add: buf_agree_iff memcpy_def)
    with False f e show ?thesis
      by (simp add: go l Let_def case_prod_unfold build_src_cfg_local [OF e(1)])
  qed
qed

lemma fetch_round:
  assumes "bta_av_co_get_peer cb h = Some i" and "i < length (peers cb)" and "as \<noteq> []"
    and "src_round xs (peers cb ! i)"
    and "length xs + length as = unat (num_srcs (peers cb ! i))"
    and "unat (num_srcs (peers cb ! i)) \<le> 10"
  shows "\<exists>rs r. fst (fetch_caps loc h as cb) = rs @ [r] \<and> length rs = length as - 1 \<and>
    (\<forall>x \<in> set rs. fst x = A2D_FAIL) \<and>
    (let ys = filter ans_accepted (xs @ as)
     in if ys = [] then fst r = A2D_FAIL
        else \<exists>info. r = (A2D_SUCCESS, info, ans_idx (last ys)) \<and>
          buf_agree AVDT_CODEC_SIZE info (bta_av_build_src_cfg loc (ans_info (last ys))))"
  using assms
proof (induction as arbitrary: xs cb)
  case (Cons a as)
  show ?case
  proof (cases "as = []")
    case True
    have "Suc (length xs) = unat (num_srcs (peers cb ! i))" using True Cons.prems(5) by simp
    from fetch_last [OF Cons.prems(1,4) this Cons.prems(6), of a loc]
    show ?thesis using True
      by (auto simp: Let_def simp del: filter_append fetch_caps.simps split: if_splits)
  next
    case False
    let ?p = "recv_ans a (peers cb ! i)" and ?cb = "set_peer cb i (recv_ans a (peers cb ! i))"
    have lt: "Suc (length xs) < unat (num_srcs (peers cb ! i))"
      using False Cons.prems(5) by (cases as) auto
    have get: "bta_av_co_get_peer ?cb h = Some i"
      using Cons.prems(1) by (simp add: bta_av_co_get_peer_def)
    have "src_round (xs @ [a]) (peers ?cb ! i)"
      using src_round_recv [OF Cons.prems(4)] lt Cons.prems(2,6) by simp
    from Cons.IH [OF get _ False this] Cons.prems(2,5,6)
    obtain rs r where "fst (fetch_caps loc h as ?cb) = rs @ [r]" "length rs = length as - 1"
      "\<forall>x \<in> set rs. fst x = A2D_FAIL"
      "let ys = filter ans_accepted (xs @ a # as)
       in if ys = [] then fst r = A2D_FAIL
          else \<exists>info. r = (A2D_SUCCESS, info, ans_idx (last ys)) \<and>
            buf_agree AVDT_CODEC_SIZE info (bta_av_build_src_cfg loc (ans_info (last ys)))"
      by auto
    with False show ?thesis
      unfolding fetch_more [OF Cons.prems(1,4) lt Cons.prems(6)]
      by (intro exI [of _ "(A2D_FAIL, ans_info a, ans_idx a) # rs"] exI [of _ r])
        (simp add: case_prod_unfold Let_def Suc_diff_1 del: filter.simps filter_append)
  qed
qed simp

lemma co_reach_peers: "co_reach calls cb \<Longrightarrow> length (peers cb) = BTA_AV_NUM_STRS"
  using co_reach_ok by (simp add: co_ok_def)

lemma get_peer_same:
  "bta_av_co_get_peer (bta_av_co_audio_close h' cb) h = bta_av_co_get_peer cb h"
  "bta_av_co_get_peer (bta_av_co_audio_disc_res h' n ns nr bda u cb) h = bta_av_co_get_peer cb h"
  by (simp_all add: bta_av_co_get_peer_def)

lemma disc_after_close:
  fixes n ns nr :: u8 and bda :: "u8 list"
  assumes "co_reach calls cb0" and "bta_av_co_get_peer cb0 h = Some i"
  defines "cb \<equiv> bta_av_co_audio_disc_res h n ns nr bda UUID_SERVCLASS_AUDIO_SINK (bta_av_co_audio_close h cb0)"
  shows "i < length (peers cb)" and "src_round [] (peers cb ! i)" and "num_srcs (peers cb ! i) = nr"
    and "bta_av_co_get_peer cb h = Some i"
proof -
  have l: "length (peers cb0) = 2" and i: "i < 2"
    using assms co_reach_peers get_peer_less by auto
  have c: "peers (bta_av_co_audio_close h cb0) = (peers cb0)[i := co_peer_zero]"
    using assms(2) by (simp add: bta_av_co_audio_close_def Let_def)
  have d: "peers cb ! i = (uuid_of_peer UUID_SERVCLASS_AUDIO_SINK
      (copy_results n ns nr (co_peer_zero\<lparr>addr := bda\<rparr>)))\<lparr>got_disc_res := True\<rparr>"
    "length (peers cb) = 2"
    using assms(2) l i c get_peer_same(1) [of h cb0 h]
    by (simp_all add: cb_def bta_av_co_audio_disc_res_def Let_def)
  show "i < length (peers cb)" using d i by simp
  show "bta_av_co_get_peer cb h = Some i"
    unfolding cb_def get_peer_same by (rule assms(2))
  show "src_round [] (peers cb ! i)" and "num_srcs (peers cb ! i) = nr"
    by (simp_all add: d src_round_def uuid_of_peer_def copy_results_def co_peer_zero_def)
qed

subsection \<open>Properties\<close>

text \<open>
  C15 (invariant). Whatever history of calls: the counters of saved end points stay within the
  tables of ten, every saved source is one the codecs support and every saved sink is valid, and
  no content protection is ever switched on.
\<close>
theorem co_tables_hold:
  assumes "co_reach calls cb" and "p \<in> set (peers cb)"
  shows "unat (num_sup_snks p) \<le> length (snks p) \<and> length (snks p) = BTC_SV_AV_AA_SINK_COUNT \<and>
    unat (num_sup_srcs p) \<le> length (srcs p) \<and> length (srcs p) = BTC_SV_AV_AA_SOURCE_COUNT \<and>
    list_all (\<lambda>s. A2DP_IsPeerSinkCodecValid (codec_caps s)) (take (unat (num_sup_snks p)) (snks p)) \<and>
    list_all (\<lambda>s. A2DP_IsPeerSourceCodecSupported (codec_caps s) = A2D_SUCCESS)
      (take (unat (num_sup_srcs p)) (srcs p)) \<and>
    \<not> bta_av_co_cp_is_active cb \<and> bta_av_co_cp_get_flag cb = BTA_AV_CP_SCMS_COPY_FREE"
proof -
  have "co_peer_ok p" and "cb_cp cb = \<lparr>cp_is_on = False, cp_flag = BTA_AV_CP_SCMS_COPY_FREE\<rparr>"
    using co_reach_ok [OF assms(1)] assms(2) by (auto simp: co_ok_def)
  then show ?thesis
    using table_ok_take [of A2DP_IsPeerSinkCodecValid "snks p" "unat (num_sup_snks p)"]
      table_ok_take [of src_accepted "srcs p" "unat (num_sup_srcs p)"]
    by (simp add: co_peer_ok_def bta_av_co_cp_is_active_def bta_av_co_cp_get_flag_def)
qed

theorem co_tables_hold_witness:
  "\<exists>cb. co_reach [] cb \<and> bta_av_co_cp_get_flag cb = BTA_AV_CP_SCMS_COPY_FREE"
proof -
  have r: "co_reach [] bta_av_co_init" by (rule co_reach.start)
  have "co_peer_zero \<in> set (peers bta_av_co_init)"
    by (simp add: bta_av_co_init_def co_cb_zero_def bta_av_co_cp_set_flag_def
        bta_av_co_audio_codec_reset_def)
  from co_tables_hold [OF r this] r show ?thesis by blast
qed

text \<open>
  In every reachable state the check of the peers' codecs and the selection of a
  feeding read no octet past the content protection octets of an entry, and return a result.
\<close>
theorem codec_supported_defined:
  assumes "co_reach calls cb"
  shows "bta_av_co_audio_codec_supported loc cb \<noteq> None \<and> bta_av_co_audio_set_codec new loc feed cb \<noteq> None"
  using codec_supported_ok [OF co_reach_ok [OF assms], of loc]
    set_codec_ok [OF co_reach_ok [OF assms], of new loc feed] by auto

theorem codec_supported_defined_witness:
  "bta_av_co_audio_codec_supported (\<lambda>_. 0) bta_av_co_init \<noteq> None"
  using codec_supported_defined [OF co_reach.start, of "\<lambda>_. 0"] by blast

text \<open>
  A round of discovery of a peer's sources, after the stream was closed: of the
  calls for the announced end points, up to ten, all but the last answer "fail" (go on), and the
  last one succeeds exactly when some end point is supported. It then names the newest supported
  end point, and the configuration is the one built for the capabilities of that end point.
\<close>
theorem source_discovery_round:
  assumes "co_reach calls cb0" and "bta_av_co_get_peer cb0 h = Some i" and "answers \<noteq> []"
    and "length answers \<le> BTC_SV_AV_AA_SOURCE_COUNT"
  shows "let cb = bta_av_co_audio_disc_res h nseps nsnk (of_nat (length answers)) bda
        UUID_SERVCLASS_AUDIO_SINK (bta_av_co_audio_close h cb0);
      supported = filter (\<lambda>a. A2DP_IsPeerSourceCodecSupported (ans_info a) = A2D_SUCCESS) answers
    in \<exists>rs r. fst (fetch_caps loc h answers cb) = rs @ [r] \<and> length rs = length answers - 1 \<and>
      (\<forall>x \<in> set rs. fst x = A2D_FAIL) \<and>
      (if supported = [] then fst r = A2D_FAIL
       else \<exists>info. r = (A2D_SUCCESS, info, ans_idx (last supported)) \<and>
         buf_agree AVDT_CODEC_SIZE info (bta_av_build_src_cfg loc (ans_info (last supported))))"
proof -
  note d = disc_after_close [OF assms(1,2), of nseps nsnk "of_nat (length answers)" bda]
  have n: "unat (of_nat (length answers) :: u8) = length answers"
    using assms(4) by (simp add: unat_of_nat)
  show ?thesis
    using fetch_round [OF d(4) d(1) assms(3) d(2)] assms(4) n d(3) by (simp add: Let_def)
qed

theorem source_discovery_round_witness:
  "\<exists>rs r. fst (fetch_caps (\<lambda>_. 0) 0x41
      [\<lparr>ans_info = bytes [6, 0, 0, 0xFF, 0xFF, 2, 53], ans_idx = 3, ans_seid = 1, ans_num_protect = 0,
        ans_protect = \<lambda>_. 0\<rparr>]
      (bta_av_co_audio_disc_res 0x41 1 0 1 [] UUID_SERVCLASS_AUDIO_SINK
        (bta_av_co_audio_close 0x41 bta_av_co_init))) = rs @ [r] \<and> rs = [] \<and> fst r = A2D_SUCCESS"
proof -
  have a: "A2DP_IsPeerSourceCodecSupported (bytes [6, 0, 0, 0xFF, 0xFF, 2, 53]) = A2D_SUCCESS"
    by (simp add: A2DP_IsPeerSourceCodecSupported_def A2DP_GetCodecType_def
        A2DP_IsPeerSourceCodecSupportedSbc_def A2DP_CodecInfoMatchesCapabilitySbc_def
        A2D_ParsSbcInfo_def Let_def bytes_def a2dp_sbc_sink_caps_def)
  have i: "bta_av_co_get_peer bta_av_co_init 0x41 = Some 0"
    by (simp add: bta_av_co_get_peer_def hndl_to_indx_def)
  let ?a = "\<lparr>ans_info = bytes [6, 0, 0, 0xFF, 0xFF, 2, 53], ans_idx = 3, ans_seid = 1,
      ans_num_protect = 0, ans_protect = \<lambda>_. 0\<rparr>"
  show ?thesis
    using source_discovery_round [OF co_reach.start i, where answers = "[?a]" and loc = "\<lambda>_. 0"
        and nseps = 1 and nsnk = 0 and bda = "[]"] a
    by (simp add: Let_def del: fetch_caps.simps) auto
qed

text \<open>
  The table of sources is not emptied by the result of a discovery: if the stream was
  not closed in between, one announced end point that no codec supports makes the call succeed
  with an end point of the discovery before.
\<close>
theorem source_discovery_stale:
  assumes "co_reach calls cb0" and "bta_av_co_get_peer cb0 h = Some i"
    and "num_sup_srcs (peers cb0 ! i) \<noteq> 0" and "A2DP_IsPeerSourceCodecSupported info \<noteq> A2D_SUCCESS"
  shows "\<exists>info' np' cb' calls'.
    bta_av_co_audio_getconfig loc h info ix sid np prot
      (bta_av_co_audio_disc_res h nseps nsnk 1 bda UUID_SERVCLASS_AUDIO_SINK cb0) =
    (A2D_SUCCESS, info',
     sep_info_idx (srcs (peers cb0 ! i) ! (unat (num_sup_srcs (peers cb0 ! i)) - 1)), np', cb', calls')"
proof -
  let ?p = "peers cb0 ! i" and ?cb = "bta_av_co_audio_disc_res h nseps nsnk 1 bda UUID_SERVCLASS_AUDIO_SINK cb0"
  have p: "co_peer_ok ?p" and i: "i < length (peers cb0)"
    using co_ok_got_peer [OF co_reach_ok [OF assms(1)] assms(2)] get_peer_less [OF assms(2)]
      co_reach_peers [OF assms(1)] by simp_all
  obtain k where k: "unat (num_sup_srcs ?p) = Suc k"
    using assms(3) by (metis not0_implies_Suc unat_eq_zero)
  have c: "peers ?cb ! i = (uuid_of_peer UUID_SERVCLASS_AUDIO_SINK
      (copy_results nseps nsnk 1 (?p\<lparr>addr := bda\<rparr>)))\<lparr>got_disc_res := True\<rparr>"
    using assms(2) i by (simp add: bta_av_co_audio_disc_res_def Let_def)
  have g: "bta_av_co_get_peer ?cb h = Some i" unfolding get_peer_same by (rule assms(2))
  have f: "find_sep A2DP_SourceCodecIndex (srcs ?p) (Suc k) = Some k"
    using p src_table.find_newest [of "srcs ?p" "unat (num_sup_srcs ?p)"] k
    by (simp add: co_peer_ok_def)
  show ?thesis
    using assms(4) f k
    by (simp add: bta_av_co_audio_getconfig_def bta_av_audio_sink_getconfig_def g c Let_def
        recv_src_def copy_results_def uuid_of_peer_def bta_av_co_audio_find_peer_src_def
        del: find_sep.simps)
qed

theorem source_discovery_stale_witness:
  "\<exists>calls cb0 info' np' cb' calls'. co_reach calls cb0 \<and>
    bta_av_co_audio_getconfig (\<lambda>_. 0) 0x41 (\<lambda>_. 0xEE) 9 1 0 (\<lambda>_. 0)
      (bta_av_co_audio_disc_res 0x41 1 0 1 [] UUID_SERVCLASS_AUDIO_SINK cb0) =
    (A2D_SUCCESS, info', 3, np', cb', calls')"
proof -
  let ?info = "bytes [6, 0, 0, 0xFF, 0xFF, 2, 53]"
  let ?cb1 = "bta_av_co_audio_disc_res 0x41 1 0 1 [] UUID_SERVCLASS_AUDIO_SINK bta_av_co_init"
  have i: "bta_av_co_get_peer bta_av_co_init 0x41 = Some 0"
    by (simp add: bta_av_co_get_peer_def hndl_to_indx_def)
  have i1: "bta_av_co_get_peer ?cb1 0x41 = Some 0" unfolding get_peer_same by (rule i)
  have a: "src_accepted ?info"
    by (simp add: A2DP_IsPeerSourceCodecSupported_def A2DP_GetCodecType_def
        A2DP_IsPeerSourceCodecSupportedSbc_def A2DP_CodecInfoMatchesCapabilitySbc_def
        A2D_ParsSbcInfo_def Let_def bytes_def a2dp_sbc_sink_caps_def)
  have "co_step bta_av_co_init [] ?cb1" by (rule co_step.disc_res)
  from co_reach.step [OF co_reach.start this] have r1: "co_reach [] ?cb1" by simp
  have p0: "peers bta_av_co_init = [co_peer_zero, co_peer_zero]"
    by (simp add: bta_av_co_init_def bta_av_co_audio_codec_reset_def bta_av_co_cp_set_flag_def
        co_cb_zero_def numeral_2_eq_2)
  have p1: "peers ?cb1 ! 0 = (uuid_of_peer UUID_SERVCLASS_AUDIO_SINK
      (copy_results 1 0 1 (co_peer_zero\<lparr>addr := []\<rparr>)))\<lparr>got_disc_res := True\<rparr>"
    "length (peers ?cb1) = 2"
    by (simp_all add: bta_av_co_audio_disc_res_def i p0 Let_def)
  obtain st info' ix np cb0 calls where
    g: "bta_av_co_audio_getconfig (\<lambda>_. 0) 0x41 ?info 3 1 0 (\<lambda>_. 0) ?cb1 = (st, info', ix, np, cb0, calls)"
    by (metis prod_cases6)
  let ?p = "recv_src ?info 3 1 0 (\<lambda>_. 0) (peers ?cb1 ! 0)"
  have s: "num_sup_srcs ?p = 1" "sep_info_idx (srcs ?p ! 0) = 3" "num_rx_srcs ?p = num_srcs ?p"
    by (simp_all add: p1 recv_src_def a uuid_of_peer_def copy_results_def co_peer_zero_def)
  have "num_sup_srcs (peers cb0 ! 0) = 1 \<and> sep_info_idx (srcs (peers cb0 ! 0) ! 0) = 3"
    using g s p1 by (auto simp: bta_av_co_audio_getconfig_def bta_av_audio_sink_getconfig_def i1
        uuid_of_peer_def copy_results_def Let_def case_prod_unfold split: option.splits)
  moreover have "co_reach calls cb0"
    using co_reach.step [OF r1 co_step.getconfig [OF g]] by simp
  moreover have "bta_av_co_get_peer cb0 0x41 = Some 0"
    by (simp add: bta_av_co_get_peer_def hndl_to_indx_def)
  moreover have "\<not> src_accepted (\<lambda>_. 0xEE)"
    by (simp add: codec_dispatch A2DP_GetCodecType_def)
  ultimately show ?thesis
    using source_discovery_stale [where calls = calls and ?cb0.0 = cb0 and h = "0x41" and i = 0
        and info = "\<lambda>_. 0xEE" and loc = "\<lambda>_. 0" and ix = 9 and sid = 1 and np = 0 and prot = "\<lambda>_. 0"
        and nseps = 1 and nsnk = 0 and bda = "[]"]
    by fastforce
qed

text \<open>
  A source that offers LDAC at 192 kHz only is counted as supported, but no
  configuration can be built for it. The failure is not noticed: the call succeeds, and the 30
  octets of the configuration are those the local array happened to hold.
\<close>
theorem getconfig_uninitialised:
  assumes "co_reach calls cb0" and "bta_av_co_get_peer cb0 h = Some i"
  shows "\<exists>info'. fst (fetch_caps loc h
      [\<lparr>ans_info = bytes [10, 0, 0xFF, 0x2D, 0x01, 0, 0, 0xAA, 0, A2DP_LDAC_SAMPLING_FREQ_192000,
          A2DP_LDAC_CHANNEL_MODE_STEREO],
        ans_idx = ix, ans_seid = sid, ans_num_protect = np, ans_protect = prot\<rparr>]
      (bta_av_co_audio_disc_res h nseps nsnk 1 bda UUID_SERVCLASS_AUDIO_SINK
        (bta_av_co_audio_close h cb0))) = [(A2D_SUCCESS, info', ix)] \<and>
    buf_agree AVDT_CODEC_SIZE info' loc"
proof -
  let ?info = "bytes [10, 0, 0xFF, 0x2D, 0x01, 0, 0, 0xAA, 0, A2DP_LDAC_SAMPLING_FREQ_192000,
          A2DP_LDAC_CHANNEL_MODE_STEREO]"
  let ?a = "\<lparr>ans_info = ?info, ans_idx = ix, ans_seid = sid, ans_num_protect = np, ans_protect = prot\<rparr>"
  note d = disc_after_close [OF assms, of nseps nsnk 1 bda]
  have v: "is_vendor V_LDAC ?info"
    by (simp add: is_vendor_def vendor_codec_def vendor_ids bytes_def rd32le_def rd16le_def)
  have s: "src_accepted ?info"
    using v by (simp add: is_vendor_def codec_dispatch vendor_dispatch peer_source_supported
        A2DP_ParseInfoLdac_def bytes_def rd32le_def rd16le_def)
  have b: "bta_av_build_src_cfg loc ?info = loc"
    using v by (simp add: is_vendor_def bta_av_build_src_cfg_def codec_dispatch vendor_dispatch
        A2DP_VendorBuildCodecConfigLdac_def A2DP_ParseInfoLdac_def bytes_def rd32le_def rd16le_def)
  show ?thesis
    using fetch_round [OF d(4) d(1) _ d(2), of "[?a]" loc] d(3) s b by (simp add: Let_def)
qed

theorem getconfig_uninitialised_witness:
  "\<exists>info'. fst (fetch_caps (\<lambda>_. 0xA5) 0x41
      [\<lparr>ans_info = bytes [10, 0, 0xFF, 0x2D, 0x01, 0, 0, 0xAA, 0, A2DP_LDAC_SAMPLING_FREQ_192000,
          A2DP_LDAC_CHANNEL_MODE_STEREO],
        ans_idx = 0, ans_seid = 1, ans_num_protect = 0, ans_protect = \<lambda>_. 0\<rparr>]
      (bta_av_co_audio_disc_res 0x41 1 0 1 [] UUID_SERVCLASS_AUDIO_SINK
        (bta_av_co_audio_close 0x41 bta_av_co_init))) = [(A2D_SUCCESS, info', 0)] \<and> info' 3 = 0xA5"
proof -
  have i: "bta_av_co_get_peer bta_av_co_init 0x41 = Some 0"
    by (simp add: bta_av_co_get_peer_def hndl_to_indx_def)
  from getconfig_uninitialised [OF co_reach.start i, where loc = "\<lambda>_. 0xA5"]
  show ?thesis by (fastforce dest: buf_agreeD [where i = 3])
qed

text \<open>
  A request of the peer to set a configuration is answered exactly once. The answer
  carries the error code of success not only when the codec accepts the octets: a request with
  content protection is meant to be rejected, but the answer has the code of success too (with
  the category of content protection), and nothing is recorded.
\<close>
theorem setconfig_answer:
  "\<exists>err cat recfg. snd (bta_av_co_audio_setconfig h info np tsep avh cb) = [ci_setconfig h err cat recfg avh] \<and>
     (err = A2D_SUCCESS \<longleftrightarrow> (case bta_av_co_get_peer cb h of None \<Rightarrow> False
        | Some i \<Rightarrow> if np = 0 then setconfig_status tsep info = A2D_SUCCESS else True)) \<and>
     (if np = 0 then True
      else fst (bta_av_co_audio_setconfig h info np tsep avh cb) = cb \<and> cat \<noteq> 0)"
  by (auto simp: bta_av_co_audio_setconfig_def Let_def split: option.splits prod.splits)

text \<open>
  An accepted request of a source becomes the current configuration and the
  remembered preference: its 30 octets are copied, the peer is marked as the acceptor of its
  configuration, no reconfiguration follows, and for SBC the preference that is reported
  afterwards is the bitpool range of the request.
\<close>
theorem setconfig_stores:
  assumes "bta_av_co_get_peer cb h = Some i" and "A2DP_IsPeerSourceCodecSupported info = A2D_SUCCESS"
    and "i < length (peers cb)"
  shows "let cb' = fst (bta_av_co_audio_setconfig h info 0 AVDT_TSEP_SNK avh cb)
    in buf_agree AVDT_CODEC_SIZE (cb_codec_cfg cb') info \<and>
       buf_agree AVDT_CODEC_SIZE (codec_cfg_setconfig cb') info \<and>
       acp (peers cb' ! i) \<and> \<not> recfg_needed (peers cb' ! i) \<and>
       bta_av_co_get_remote_bitpool_pref cb' =
         (if A2DP_GetCodecType info = A2D_MEDIA_CT_SBC then Some (info 5, info 6) else None)"
proof -
  let ?cb1 = "cb\<lparr>codec_cfg_setconfig := memcpy (codec_cfg_setconfig cb) info AVDT_CODEC_SIZE,
      cb_codec_cfg := memcpy (cb_codec_cfg cb) info AVDT_CODEC_SIZE\<rparr>"
  have r: "fst (bta_av_co_audio_setconfig h info 0 AVDT_TSEP_SNK avh cb) =
      set_peer ?cb1 i ((peers cb ! i)\<lparr>acp := True, recfg_needed := False\<rparr>)"
    using assms(1,2) by (simp add: bta_av_co_audio_setconfig_def setconfig_status_def Let_def)
  have t: "A2DP_GetCodecType (memcpy (codec_cfg_setconfig cb) info AVDT_CODEC_SIZE) = A2DP_GetCodecType info"
    by (rule vendor_ids_local(3)) simp
  have b: "memcpy (codec_cfg_setconfig cb) info AVDT_CODEC_SIZE 5 = info 5"
    "memcpy (codec_cfg_setconfig cb) info AVDT_CODEC_SIZE 6 = info 6"
    by (simp_all add: memcpy_def)
  show ?thesis
    unfolding r Let_def using assms(3) by (simp add: bta_av_co_get_remote_bitpool_pref_def t b)
qed

theorem setconfig_stores_witness:
  "bta_av_co_get_remote_bitpool_pref (fst (bta_av_co_audio_setconfig 0x41
     (bytes [6, 0, 0, 0x21, 0x15, 2, 40]) 0 AVDT_TSEP_SNK 1 bta_av_co_init)) = Some (2, 40)"
proof -
  have i: "bta_av_co_get_peer bta_av_co_init 0x41 = Some 0"
    by (simp add: bta_av_co_get_peer_def hndl_to_indx_def)
  have a: "A2DP_IsPeerSourceCodecSupported (bytes [6, 0, 0, 0x21, 0x15, 2, 40]) = A2D_SUCCESS"
    by (simp add: A2DP_IsPeerSourceCodecSupported_def A2DP_GetCodecType_def
        A2DP_IsPeerSourceCodecSupportedSbc_def A2DP_CodecInfoMatchesCapabilitySbc_def
        A2D_ParsSbcInfo_def Let_def bytes_def a2dp_sbc_sink_caps_def)
  have l: "0 < length (peers bta_av_co_init)" using co_reach_peers [OF co_reach.start] by simp
  from setconfig_stores [OF i a l] show ?thesis
    by (simp add: Let_def A2DP_GetCodecType_def bytes_def)
qed

text \<open>
  The octets of a request need not be a configuration: a request with the device's
  whole SBC capability (all rates, modes, block lengths) is accepted and becomes the current
  configuration, although the parser refuses it as one.
\<close>
theorem setconfig_accepts_capability:
  assumes "bta_av_co_get_peer cb h = Some i"
  shows "let info = bytes [6, 0, 0, 0x3F, 0xFF, 2, 53];
      (cb', calls) = bta_av_co_audio_setconfig h info 0 AVDT_TSEP_SNK avh cb
    in calls = [ci_setconfig h A2D_SUCCESS A2D_SUCCESS False avh] \<and>
      fst (A2D_ParsSbcInfo (Some ie) (Some (cb_codec_cfg cb')) False) \<noteq> A2D_SUCCESS"
proof -
  have a: "A2DP_IsPeerSourceCodecSupported (bytes [6, 0, 0, 0x3F, 0xFF, 2, 53]) = A2D_SUCCESS"
    by (simp add: A2DP_IsPeerSourceCodecSupported_def A2DP_GetCodecType_def
        A2DP_IsPeerSourceCodecSupportedSbc_def A2DP_CodecInfoMatchesCapabilitySbc_def
        A2D_ParsSbcInfo_def Let_def bytes_def a2dp_sbc_sink_caps_def)
  show ?thesis using assms a
    by (simp add: bta_av_co_audio_setconfig_def setconfig_status_def Let_def case_prod_unfold
        A2D_ParsSbcInfo_def memcpy_def bytes_def A2D_BitsSet_def)
qed

text \<open>
  The remote bitpool preference is reported as set although no peer has requested a
  configuration: after the initialisation and after closing a stream the remembered element is
  zero, which is the codec type of SBC, and the preference reported is the range from 0 to 0.
\<close>
theorem remote_pref_without_setconfig:
  "bta_av_co_get_remote_bitpool_pref bta_av_co_init = Some (0, 0) \<and>
   bta_av_co_get_remote_bitpool_pref (bta_av_co_audio_close h cb) = Some (0, 0)"
  by (simp add: bta_av_co_get_remote_bitpool_pref_def bta_av_co_init_def bta_av_co_audio_close_def
      A2DP_GetCodecType_def memset_def co_cb_zero_def bta_av_co_cp_set_flag_def
      bta_av_co_audio_codec_reset_def Let_def split: option.splits)

theorem setconfig_accepts_capability_witness:
  "snd (bta_av_co_audio_setconfig 0x41 (bytes [6, 0, 0, 0x3F, 0xFF, 2, 53]) 0 AVDT_TSEP_SNK 1
     bta_av_co_init) = [ci_setconfig 0x41 A2D_SUCCESS A2D_SUCCESS False 1]"
proof -
  have "bta_av_co_get_peer bta_av_co_init 0x41 = Some 0"
    by (simp add: bta_av_co_get_peer_def hndl_to_indx_def)
  from setconfig_accepts_capability [OF this] show ?thesis
    by (simp add: Let_def case_prod_unfold)
qed

lemma init_codec_cfg: "cb_codec_cfg bta_av_co_init = store (\<lambda>_. 0) 0 [6, 0, 0, 0x21, 0x15, 2, 53]"
  by (simp add: bta_av_co_init_def bta_av_co_audio_codec_reset_def bta_av_co_cp_set_flag_def
      co_cb_zero_def btc_av_sbc_default_config_def A2D_BldSbcInfo_def)

lemma narrow_fold_le:
  "sbc_min_bitpool (fst cm) \<le> sbc_min_bitpool (fst (fold narrow_by_peer ps cm)) \<and>
   sbc_max_bitpool (fst (fold narrow_by_peer ps cm)) \<le> sbc_max_bitpool (fst cm) \<and>
   snd (fold narrow_by_peer ps cm) \<le> snd cm"
proof (induction ps arbitrary: cm)
  case (Cons p ps)
  have "sbc_min_bitpool (fst cm) \<le> sbc_min_bitpool (fst (narrow_by_peer p cm)) \<and>
      sbc_max_bitpool (fst (narrow_by_peer p cm)) \<le> sbc_max_bitpool (fst cm) \<and>
      snd (narrow_by_peer p cm) \<le> snd cm"
    by (auto simp: narrow_by_peer_def narrow_bitpool_def Let_def split: option.splits)
  with Cons.IH [of "narrow_by_peer p cm"] show ?case by (auto intro: order_trans)
qed simp

lemma narrow_fold_fields:
  "sbc_samp_freq (fst (fold narrow_by_peer ps cm)) = sbc_samp_freq (fst cm)"
  "sbc_ch_mode (fst (fold narrow_by_peer ps cm)) = sbc_ch_mode (fst cm)"
  "sbc_block_len (fst (fold narrow_by_peer ps cm)) = sbc_block_len (fst cm)"
  "sbc_num_subbands (fst (fold narrow_by_peer ps cm)) = sbc_num_subbands (fst cm)"
  "sbc_alloc_mthd (fst (fold narrow_by_peer ps cm)) = sbc_alloc_mthd (fst cm)"
  by (induction ps arbitrary: cm)
    (simp_all add: narrow_by_peer_def narrow_bitpool_def Let_def split: option.splits)

lemma narrow_fold_peer:
  assumes "p \<in> set ps" and "opened p"
  shows "snd (fold narrow_by_peer ps cm) \<le> mtu p"
    and "first_sbc (take (unat (num_sup_snks p)) (snks p)) = Some s \<Longrightarrow>
      codec_caps s 5 \<le> sbc_min_bitpool (fst (fold narrow_by_peer ps cm)) \<and>
      sbc_max_bitpool (fst (fold narrow_by_peer ps cm)) \<le> codec_caps s 6"
proof -
  obtain as bs where ps: "ps = as @ p # bs" using assms(1) by (auto simp: in_set_conv_decomp)
  let ?cm = "fold narrow_by_peer as cm"
  have "snd (narrow_by_peer p ?cm) \<le> mtu p"
    using assms(2) by (auto simp: narrow_by_peer_def Let_def split: option.splits)
  then show "snd (fold narrow_by_peer ps cm) \<le> mtu p"
    using narrow_fold_le [of "narrow_by_peer p ?cm" bs] ps by (auto intro: order_trans)
  assume "first_sbc (take (unat (num_sup_snks p)) (snks p)) = Some s"
  then have "codec_caps s 5 \<le> sbc_min_bitpool (fst (narrow_by_peer p ?cm)) \<and>
      sbc_max_bitpool (fst (narrow_by_peer p ?cm)) \<le> codec_caps s 6"
    using assms(2) by (simp add: narrow_by_peer_def narrow_bitpool_def Let_def)
  then show "codec_caps s 5 \<le> sbc_min_bitpool (fst (fold narrow_by_peer ps cm)) \<and>
      sbc_max_bitpool (fst (fold narrow_by_peer ps cm)) \<le> codec_caps s 6"
    using narrow_fold_le [of "narrow_by_peer p ?cm" bs] ps by (auto intro: order_trans)
qed

text \<open>
  The SBC configuration for the encoder: it is the current configuration with a
  bitpool range inside the one configured and inside the range of the first SBC end point of
  every open peer, and the MTU returned is at most that of every open peer.
\<close>
theorem sbc_config_bounds:
  assumes "bta_av_co_audio_get_sbc_config c0 cb = (True, c, m)" and "p \<in> set (peers cb)" and "opened p"
  shows "m \<le> mtu p \<and>
    (case first_sbc (take (unat (num_sup_snks p)) (snks p)) of None \<Rightarrow> True
     | Some s \<Rightarrow> codec_caps s BTA_AV_CO_SBC_MIN_BITPOOL_OFF \<le> sbc_min_bitpool c \<and>
                sbc_max_bitpool c \<le> codec_caps s BTA_AV_CO_SBC_MAX_BITPOOL_OFF) \<and>
    (\<exists>c1. A2D_ParsSbcInfo (Some c0) (Some (cb_codec_cfg cb)) False = (A2D_SUCCESS, Some c1) \<and>
       sbc_min_bitpool c1 \<le> sbc_min_bitpool c \<and> sbc_max_bitpool c \<le> sbc_max_bitpool c1 \<and>
       c = c1\<lparr>sbc_min_bitpool := sbc_min_bitpool c, sbc_max_bitpool := sbc_max_bitpool c\<rparr>)"
proof -
  obtain c1 where c1: "A2D_ParsSbcInfo (Some c0) (Some (cb_codec_cfg cb)) False = (A2D_SUCCESS, Some c1)"
    and f: "fold narrow_by_peer (peers cb) (c1, 0xFFFF) = (c, m)"
    using assms(1)
    by (auto simp: bta_av_co_audio_get_sbc_config_def split: if_split_asm prod.splits option.splits)
  have "c = c1\<lparr>sbc_min_bitpool := sbc_min_bitpool c, sbc_max_bitpool := sbc_max_bitpool c\<rparr>"
    using narrow_fold_fields [of "peers cb" "(c1, 0xFFFF)"] f by simp
  then show ?thesis
    using c1 f narrow_fold_le [of "(c1, 0xFFFF)" "peers cb"]
      narrow_fold_peer [OF assms(2,3), where cm = "(c1, 0xFFFF)"]
    by (auto split: option.splits)
qed

theorem sbc_config_bounds_witness:
  "\<exists>c m. bta_av_co_audio_get_sbc_config sbc_cie_local (bta_av_co_audio_open 0x41 672 bta_av_co_init) =
     (True, c, m) \<and> m \<le> 672"
proof -
  let ?cb = "bta_av_co_audio_open 0x41 672 bta_av_co_init"
  have i: "bta_av_co_get_peer bta_av_co_init 0x41 = Some 0"
    by (simp add: bta_av_co_get_peer_def hndl_to_indx_def)
  have l: "length (peers bta_av_co_init) = 2" by (rule co_reach_peers [OF co_reach.start])
  let ?p = "(peers bta_av_co_init ! 0)\<lparr>opened := True, mtu := 672\<rparr>"
  have p: "?p \<in> set (peers ?cb)"
    using l by (auto simp: bta_av_co_audio_open_def i in_set_conv_nth intro!: exI [of _ 0])
  have cfg: "cb_codec_cfg ?cb = store (\<lambda>_. 0) 0 [6, 0, 0, 0x21, 0x15, 2, 53]"
    by (simp add: bta_av_co_audio_open_def i init_codec_cfg)
  have g: "\<exists>c m. bta_av_co_audio_get_sbc_config sbc_cie_local ?cb = (True, c, m)"
    unfolding bta_av_co_audio_get_sbc_config_def cfg
    by (simp add: A2DP_GetCodecType_def A2D_ParsSbcInfo_def Let_def A2D_BitsSet_def)
  then obtain c m where "bta_av_co_audio_get_sbc_config sbc_cie_local ?cb = (True, c, m)" by blast
  with sbc_config_bounds [OF this p] show ?thesis by simp
qed

text \<open>
  Selecting a feeding that is not refused leaves an SBC configuration that the
  parser accepts, in joint stereo with 16 blocks, 8 subbands and loudness allocation, at 48 or
  44.1 kHz after the rate of the feeding; a refused feeding changes nothing and calls nothing.
\<close>
theorem set_codec_configures:
  assumes "co_reach calls cb"
  shows "case (if feed_format feed = BTC_AV_CODEC_PCM \<and> feed_num_channel feed \<in> {1, 2} \<and>
                feed_bit_per_sample feed \<in> {8, 16} then feed_samp_freq (feed_sampling_freq feed) else None) of
      None \<Rightarrow> bta_av_co_audio_set_codec new loc feed cb =
        Some (False, BTC_ERROR_SRV_AV_FEEDING_NOT_SUPPORTED, cb, [])
    | Some f \<Rightarrow> \<exists>b st cb' calls'. bta_av_co_audio_set_codec new loc feed cb = Some (b, st, cb', calls') \<and>
        A2D_ParsSbcInfo (Some c0) (Some (cb_codec_cfg cb')) False =
          (A2D_SUCCESS, Some (btc_av_sbc_default_config\<lparr>sbc_samp_freq := f\<rparr>))"
proof -
  let ?mk = "\<lambda>f. btc_av_sbc_default_config\<lparr>sbc_samp_freq := f\<rparr>"
  have b: "\<exists>cfg. A2D_BldSbcInfo A2D_MEDIA_TYPE_AUDIO (Some (?mk f)) (Some new) = (A2D_SUCCESS, Some cfg) \<and>
      A2D_ParsSbcInfo (Some c0) (Some cfg) False = (A2D_SUCCESS, Some (?mk f))"
    if "feed_samp_freq (feed_sampling_freq feed) = Some f" for f
  proof -
    have "f = A2D_SBC_IE_SAMP_FREQ_48 \<or> f = A2D_SBC_IE_SAMP_FREQ_44"
      using that by (auto simp: feed_samp_freq_def split: if_splits)
    then show ?thesis
      by (auto simp: btc_av_sbc_default_config_def A2D_BldSbcInfo_def A2D_ParsSbcInfo_def Let_def
          A2D_BitsSet_def)
  qed
  show ?thesis
  proof (cases "feed_format feed = BTC_AV_CODEC_PCM \<and> feed_num_channel feed \<in> {1, 2} \<and>
      feed_bit_per_sample feed \<in> {8, 16}")
    case True
    show ?thesis
    proof (cases "feed_samp_freq (feed_sampling_freq feed)")
      case None
      with True show ?thesis by (auto simp: bta_av_co_audio_set_codec_def Let_def)
    next
      case (Some f)
      from b [OF Some] obtain cfg where
        c: "A2D_BldSbcInfo A2D_MEDIA_TYPE_AUDIO (Some (?mk f)) (Some new) = (A2D_SUCCESS, Some cfg)"
          "A2D_ParsSbcInfo (Some c0) (Some cfg) False = (A2D_SUCCESS, Some (?mk f))" by blast
      have "co_ok (cb\<lparr>cb_codec_cfg := cfg\<rparr>)" using co_reach_ok [OF assms] by simp
      from codec_supported_keeps [OF this, of loc] True Some c show ?thesis
        by (auto simp: bta_av_co_audio_set_codec_def Let_def)
    qed
  next
    case False
    then show ?thesis by (auto simp: bta_av_co_audio_set_codec_def Let_def)
  qed
qed

theorem set_codec_configures_witness:
  "\<exists>b st cb' calls'. bta_av_co_audio_set_codec (\<lambda>_. 0) (\<lambda>_. 0)
      \<lparr>feed_format = BTC_AV_CODEC_PCM, feed_sampling_freq = 22050, feed_num_channel = 2,
       feed_bit_per_sample = 16\<rparr> bta_av_co_init = Some (b, st, cb', calls') \<and>
    A2D_ParsSbcInfo (Some sbc_cie_local) (Some (cb_codec_cfg cb')) False =
      (A2D_SUCCESS, Some btc_av_sbc_default_config)"
  using set_codec_configures [OF co_reach.start, where new = "\<lambda>_. 0" and loc = "\<lambda>_. 0"
      and ?c0.0 = sbc_cie_local and feed = "\<lparr>feed_format = BTC_AV_CODEC_PCM,
      feed_sampling_freq = 22050, feed_num_channel = 2, feed_bit_per_sample = 16\<rparr>"]
  by (simp add: feed_samp_freq_def btc_av_sbc_default_config_def)

lemma build_config_kind:
  assumes "A2DP_BuildCodecConfig src r = (True, r')"
  shows "A2DP_GetCodecType r' = A2D_MEDIA_CT_M24 \<or> fst (A2DP_ParseInfo r' False) = A2D_SUCCESS"
proof (cases "A2DP_GetCodecType src = A2D_MEDIA_CT_M24")
  case True
  then have "A2DP_BuildCodecConfigAac src r = (True, r')"
    using assms by (simp add: A2DP_BuildCodecConfig_def)
  then have "r' = store r 0 [8, 0, 2, 0x80, 0x01, 0x8C, 0x84, 0xE2, 0x00]"
    by (simp add: A2DP_BuildCodecConfigAac_def A2DP_BuildInfoAac_def a2dp_aac_sink_caps_def Let_def)
  then show ?thesis by (simp add: A2DP_GetCodecType_def)
next
  case False
  then show ?thesis using A2DP_BuildCodecConfig_config(3) [OF assms] by simp
qed

text \<open>
  When the device is the source and the initiator, a call for a sink of the peer that
  succeeds has selected a saved sink, names its end point, and returns a valid configuration
  (or an AAC element, see the AAC builder), the one recorded for the peer.
\<close>
theorem sink_selection_valid:
  assumes "co_reach calls cb" and "bta_av_co_get_peer cb h = Some i"
    and "uuid_to_connect (peers cb ! i) \<noteq> UUID_SERVCLASS_AUDIO_SOURCE" and "\<not> acp (peers cb ! i)"
    and "bta_av_co_audio_getconfig loc h info ix sid np prot cb = (A2D_SUCCESS, info', ix', np', cb', calls')"
  shows "\<exists>k. p_snk (peers cb' ! i) = Some k \<and> k < unat (num_sup_snks (peers cb' ! i)) \<and>
    ix' = sep_info_idx (snks (peers cb' ! i) ! k) \<and>
    buf_agree AVDT_CODEC_SIZE info' (codec_cfg (peers cb' ! i)) \<and>
    (A2DP_GetCodecType info' = A2D_MEDIA_CT_M24 \<or> fst (A2DP_ParseInfo info' False) = A2D_SUCCESS)"
proof -
  let ?p = "recv_snk info ix sid np prot (peers cb ! i)"
  have i: "i < length (peers cb)" using get_peer_less [OF assms(2)] co_reach_peers [OF assms(1)] by simp
  have p: "co_peer_ok ?p"
    using co_ok_got_peer [OF co_reach_ok [OF assms(1)] assms(2)] by (rule recv_snk_ok)
  have a: "\<not> acp ?p" using assms(4) by (simp add: recv_snk_def Let_def)
  obtain k cfg where k: "bta_av_co_audio_find_peer_sink ?p = Some k"
    and b: "bta_av_co_audio_codec_build_config (codec_caps (snks ?p ! k)) loc = (True, cfg)"
    and r: "cb' = set_peer cb i (?p\<lparr>p_snk := Some k, codec_cfg := memcpy (codec_cfg ?p) cfg AVDT_CODEC_SIZE\<rparr>)"
      "info' = memcpy info (memcpy (codec_cfg ?p) cfg AVDT_CODEC_SIZE) AVDT_CODEC_SIZE"
      "ix' = sep_info_idx (snks ?p ! k)"
    using assms(2-5) a
    by (auto simp: bta_av_co_audio_getconfig_def Let_def split: if_split_asm option.splits prod.splits)
  have "buf_agree AVDT_CODEC_SIZE info' cfg" by (simp add: r buf_agree_iff memcpy_def)
  then have "A2DP_GetCodecType info' = A2DP_GetCodecType cfg"
    and "A2DP_ParseInfo info' False = A2DP_ParseInfo cfg False"
    by (rule vendor_ids_local(3), rule A2DP_ParseInfo_local)
  moreover have "A2DP_GetCodecType cfg = A2D_MEDIA_CT_M24 \<or> fst (A2DP_ParseInfo cfg False) = A2D_SUCCESS"
    using b build_config_kind by (simp add: bta_av_co_audio_codec_build_config_def)
  moreover have "buf_agree AVDT_CODEC_SIZE info' (memcpy (codec_cfg ?p) cfg AVDT_CODEC_SIZE)"
    by (simp add: r)
  ultimately show ?thesis using find_snk_ok(3) [OF p k] i r by simp
qed

theorem sink_selection_valid_witness:
  "\<exists>info' ix' np' cb' calls'. bta_av_co_audio_getconfig (\<lambda>_. 0) 0x41 (bytes [6, 0, 0, 0xFF, 0xFF, 2, 53])
      4 1 0 (\<lambda>_. 0) (bta_av_co_audio_disc_res 0x41 1 1 0 [] UUID_SERVCLASS_AUDIO_SOURCE bta_av_co_init) =
    (A2D_SUCCESS, info', ix', np', cb', calls') \<and> p_snk (peers cb' ! 0) \<noteq> None"
proof -
  let ?info = "bytes [6, 0, 0, 0xFF, 0xFF, 2, 53]"
  let ?cb = "bta_av_co_audio_disc_res 0x41 1 1 0 [] UUID_SERVCLASS_AUDIO_SOURCE bta_av_co_init"
  let ?r = "bta_av_co_audio_getconfig (\<lambda>_. 0) 0x41 ?info 4 1 0 (\<lambda>_. 0) ?cb"
  have i: "bta_av_co_get_peer bta_av_co_init 0x41 = Some 0"
    by (simp add: bta_av_co_get_peer_def hndl_to_indx_def)
  have i1: "bta_av_co_get_peer ?cb 0x41 = Some 0" unfolding get_peer_same by (rule i)
  have v: "A2DP_IsPeerSinkCodecValid ?info"
    by (simp add: codec_dispatch A2DP_GetCodecType_def peer_sink_valid A2D_ParsSbcInfo_def bytes_def)
  have p0: "peers bta_av_co_init = [co_peer_zero, co_peer_zero]"
    by (simp add: bta_av_co_init_def bta_av_co_audio_codec_reset_def bta_av_co_cp_set_flag_def
        co_cb_zero_def numeral_2_eq_2)
  have p1: "peers ?cb ! 0 = (uuid_of_peer UUID_SERVCLASS_AUDIO_SOURCE
      (copy_results 1 1 0 (co_peer_zero\<lparr>addr := []\<rparr>)))\<lparr>got_disc_res := True\<rparr>"
    by (simp add: bta_av_co_audio_disc_res_def i p0 Let_def)
  let ?p = "recv_snk ?info 4 1 0 (\<lambda>_. 0) (peers ?cb ! 0)"
  have p: "co_peer_ok ?p"
    by (rule recv_snk_ok) (simp add: p1 copy_results_ok [OF co_peer_zero_ok, simplified] copy_results_ok
        co_peer_zero_ok)
  have s: "num_sup_snks ?p = 1" "num_rx_snks ?p = num_snks ?p" "\<not> acp ?p"
    "codec_caps (snks ?p ! 0) = memcpy (\<lambda>_. 0) ?info AVDT_CODEC_SIZE"
    by (simp_all add: p1 recv_snk_def v uuid_of_peer_def copy_results_def co_peer_zero_def
        co_sink_zero_def)
  have f: "bta_av_co_audio_find_peer_sink ?p = Some 0"
    using p snk_table.find_newest [of "snks ?p" 1] s
    by (simp add: co_peer_ok_def bta_av_co_audio_find_peer_sink_def)
  have "fst (A2DP_BuildCodecConfig ?info (memset (\<lambda>_. 0) 0 AVDT_CODEC_SIZE))"
    by (simp add: A2DP_BuildCodecConfig_def A2DP_GetCodecType_def A2DP_BuildCodecConfigSbc_def
        A2D_ParsSbcInfo_def A2D_BldSbcInfo_def sbc_pref_cap_def a2dp_sbc_default_config_def
        first_set_or_def bytes_def Let_def)
  then have b: "fst (bta_av_co_audio_codec_build_config (codec_caps (snks ?p ! 0)) (\<lambda>_. 0))"
    using A2DP_BuildCodecConfig_local [of "memcpy (\<lambda>_. 0) ?info AVDT_CODEC_SIZE" ?info]
    by (simp add: bta_av_co_audio_codec_build_config_def s(4))
  have u: "uuid_to_connect (peers ?cb ! 0) \<noteq> UUID_SERVCLASS_AUDIO_SOURCE" "\<not> acp (peers ?cb ! 0)"
    by (simp_all add: p1 uuid_of_peer_def copy_results_def co_peer_zero_def)
  have "fst ?r = A2D_SUCCESS"
    using b u s(1-3) f by (simp add: bta_av_co_audio_getconfig_def i1 Let_def case_prod_unfold)
  then obtain info' ix' np' cb' calls' where r: "?r = (A2D_SUCCESS, info', ix', np', cb', calls')"
    by (metis fst_conv prod_cases6)
  have "co_reach [] ?cb" using co_reach.step [OF co_reach.start co_step.disc_res] by simp
  from sink_selection_valid [OF this i1 u r] r show ?thesis by blast
qed

end
