(* ===== verification/Bit_Stream.thy ===== *)
theory Bit_Stream
  imports C_Prelude
begin

text \<open>
  The specification that the two bit readers of the program share (latm\_parser.c and
  lhdc\_bit\_reader.c): the data as a sequence of bits, the highest bit of an octet first, a
  field as the number its bits denote, and a source of bits as a queue from whose front fields
  are taken. The locale states what a client of a reader relies on.
\<close>

subsection \<open>Fields of a stream\<close>

text \<open>
  The reference: the stream is a sequence of bits, the highest bit of each octet first, and a
  field is the number its bits denote.
\<close>

definition bit_at :: "buf \<Rightarrow> nat \<Rightarrow> bool" where
  "bit_at data p = bit (data (p div 8)) (7 - p mod 8)"

fun bits_value :: "buf \<Rightarrow> nat \<Rightarrow> nat \<Rightarrow> nat" where
  "bits_value data p 0 = 0"
| "bits_value data p (Suc n) = 2 * bits_value data p n + of_bool (bit_at data (p + n))"

lemma bits_value_add:
  "bits_value data p (a + b) = bits_value data p a * 2 ^ b + bits_value data (p + a) b"
  by (induction b) (simp_all add: add.assoc)

lemma bits_value_less: "bits_value data p n < 2 ^ n"
  by (induction n) (auto simp: of_bool_def)

lemma bits_value_cong:
  "(\<And>i. i < n \<Longrightarrow> bit_at data (p + i) = bit_at data' (p' + i)) \<Longrightarrow>
    bits_value data p n = bits_value data' p' n"
  by (induction n) simp_all

lemma bits_value_byte:
  "p mod 8 + b \<le> 8 \<Longrightarrow>
    bits_value data p b = unat (data (p div 8)) div 2 ^ (8 - p mod 8 - b) mod 2 ^ b"
proof (induction b)
  case (Suc b)
  let ?w = "unat (data (p div 8))"
  have lt: "p mod 8 + b < 8" using Suc.prems by simp
  have "p + b = 8 * (p div 8) + (p mod 8 + b)" by simp
  then have q: "(p + b) div 8 = p div 8" "(p + b) mod 8 = p mod 8 + b"
    using lt by (metis div_less div_mult_self4 add.right_neutral zero_neq_numeral,
        metis mod_less mod_mult_self4)
  define k where "k = 7 - (p mod 8 + b)"
  have e: "8 - p mod 8 - b = Suc k" "8 - p mod 8 - Suc b = k" using Suc.prems by (simp_all add: k_def)
  have "bit_at data (p + b) = bit ?w k"
    by (simp add: bit_at_def q k_def bit_unsigned_iff)
  also have "of_bool \<dots> = ?w div 2 ^ k mod 2" by (simp add: bit_iff_odd mod_2_eq_odd)
  finally have "of_bool (bit_at data (p + b)) = ?w div 2 ^ k mod 2" by simp
  moreover have "?w div 2 ^ k mod 2 ^ Suc b = 2 * (?w div 2 ^ Suc k mod 2 ^ b) + ?w div 2 ^ k mod 2"
    by (simp add: mod_mult2_eq div_mult2_eq [symmetric] mult.commute)
  ultimately show ?case using Suc e by simp
qed simp

lemma bit_at_agree:
  "buf_agree k d d' \<Longrightarrow> p < 8 * k \<Longrightarrow> bit_at d p = bit_at d' p"
  by (simp add: bit_at_def buf_agree_iff less_mult_imp_div_less mult.commute)

lemma bits_value_agree:
  "buf_agree k d d' \<Longrightarrow> p + n \<le> 8 * k \<Longrightarrow> bits_value d p n = bits_value d' p n"
  by (rule bits_value_cong) (simp add: bit_at_agree)

lemma bit_at_8: "j < 8 \<Longrightarrow> bit_at d (8 * q + j) = bit (d q) (7 - j)"
  by (simp add: bit_at_def)

lemma bit_bits_value: "bit (bits_value d p n) k \<longleftrightarrow> k < n \<and> bit_at d (p + (n - 1 - k))"
proof (induction n arbitrary: k)
  case (Suc n)
  show ?case
    by (cases k) (auto simp: bit_0 bit_Suc Suc.IH)
qed simp

lemma bits_value_8:
  assumes "r < 8"
  shows "of_nat (bits_value d (8 * q + r) 8) = (push_bit r (d q) OR drop_bit (8 - r) (d (q + 1)) :: u8)"
proof (rule bit_word_eqI)
  fix k assume k: "k < LENGTH(8)"
  show "bit (of_nat (bits_value d (8 * q + r) 8) :: u8) k =
      bit (push_bit r (d q) OR drop_bit (8 - r) (d (q + 1))) k"
  proof (cases "r \<le> k")
    case True
    then have e: "8 * q + r + (8 - 1 - k) = 8 * q + (r + 7 - k)" and "r + 7 - k < 8"
      using k by simp_all
    then have "bit_at d (8 * q + r + (8 - 1 - k)) = bit (d q) (k - r)"
      using k True by (simp only: e bit_at_8) simp
    with True k show ?thesis by (simp add: bit_of_nat_iff bit_bits_value bit_simps)
  next
    case False
    then have e: "8 * q + r + (8 - 1 - k) = 8 * (q + 1) + (r - 1 - k)" and "r - 1 - k < 8"
      using assms by simp_all
    then have "bit_at d (8 * q + r + (8 - 1 - k)) = bit (d (q + 1)) (8 - r + k)"
      using assms False by (simp only: e bit_at_8) (simp add: numeral_eq_Suc)
    with False k show ?thesis by (simp add: bit_of_nat_iff bit_bits_value bit_simps)
  qed
qed

definition bits_number :: "bool list \<Rightarrow> nat" where
  "bits_number xs = foldl (\<lambda>v b. 2 * v + of_bool b) 0 xs"

lemma bits_number_snoc: "bits_number (xs @ [b]) = 2 * bits_number xs + of_bool b"
  by (simp add: bits_number_def)

lemma bits_value_number: "bits_value d p n = bits_number (map (bit_at d) [p..<p + n])"
  by (induction n) (simp_all add: bits_number_snoc, simp add: bits_number_def)

lemma bits_number_unat:
  assumes "n \<le> 32"
  shows "unat (of_nat (bits_number (map (bit_at d) [p..<p + n])) :: u32) =
    bits_number (map (bit_at d) [p..<p + n])"
proof -
  have "bits_value d p n < 2 ^ n" by (rule bits_value_less)
  also have "\<dots> \<le> 2 ^ 32" using assms by (rule power_increasing) simp
  finally show ?thesis by (simp add: unat_of_nat flip: bits_value_number)
qed

lemma bits_number_append: "bits_number (xs @ ys) = bits_number xs * 2 ^ length ys + bits_number ys"
proof (induction ys rule: rev_induct)
  case (snoc y ys)
  have "bits_number (xs @ ys @ [y]) = 2 * bits_number (xs @ ys) + of_bool y"
    using bits_number_snoc [of "xs @ ys" y] by simp
  with snoc show ?case by (simp add: bits_number_snoc algebra_simps)
qed (simp add: bits_number_def)

lemma unat_or_push:
  assumes "unat low < 2 ^ s" and "unat low + d * 2 ^ s < 2 ^ 32"
  shows "unat (low OR push_bit s (of_nat d) :: u32) = unat low + d * 2 ^ s"
proof -
  have s: "d * 2 ^ s < 2 ^ 32" using assms(2) by simp
  have bits: "\<not> bit low i" if "s \<le> i" for i
  proof -
    have "unat low < 2 ^ i" using assms(1) power_increasing [OF that, of "2 :: nat"] by linarith
    then have "\<not> bit (unat low) i" by (simp add: bit_iff_odd)
    then show ?thesis by (simp add: bit_unsigned_iff)
  qed
  have "low OR push_bit s (of_nat d) = low + push_bit s (of_nat d)"
    by (rule disjunctive_add [symmetric]) (use bits in \<open>auto simp: bit_simps\<close>)
  moreover have "push_bit s (of_nat d) = (of_nat (d * 2 ^ s) :: u32)" by (simp add: push_bit_eq_mult)
  moreover have "unat (low + of_nat (d * 2 ^ s)) = unat low + d * 2 ^ s"
    using s assms(2) by (simp add: unat_word_ariths unat_of_nat del: of_nat_mult of_nat_power)
  ultimately show ?thesis by simp
qed

text \<open>The bits of a number, written as a field.\<close>

primrec to_bits :: "nat \<Rightarrow> nat \<Rightarrow> bool list" where
  "to_bits 0 v = []"
| "to_bits (Suc n) v = to_bits n (v div 2) @ [odd v]"

lemma length_to_bits [simp]: "length (to_bits n v) = n"
  by (induction n arbitrary: v) simp_all

lemma bits_number_to_bits: "bits_number (to_bits n v) = v mod 2 ^ n"
proof (induction n arbitrary: v)
  case (Suc n)
  have "v mod 2 ^ Suc n = 2 * (v div 2 mod 2 ^ n) + v mod 2"
    by (simp add: mod_mult2_eq)
  with Suc show ?case by (simp add: bits_number_snoc mod_2_eq_odd)
qed (simp add: bits_number_def)

lemma bits_number_less: "bits_number xs < 2 ^ length xs"
  by (induction xs rule: rev_induct) (auto simp: bits_number_snoc, simp add: bits_number_def)

text \<open>Octets that lie in the stream one after the other, at any bit.\<close>

primrec octets_at :: "buf \<Rightarrow> nat \<Rightarrow> u8 list \<Rightarrow> bool" where
  "octets_at d p [] \<longleftrightarrow> True"
| "octets_at d p (x # xs) \<longleftrightarrow> bits_value d p 8 = unat x \<and> octets_at d (p + 8) xs"

lemma octets_at_nth: "octets_at d p xs \<Longrightarrow> i < length xs \<Longrightarrow> bits_value d (p + 8 * i) 8 = unat (xs ! i)"
proof (induction xs arbitrary: p i)
  case (Cons x xs)
  then show ?case using Cons.IH [of "p + 8" "i - 1"] by (cases i) (simp_all add: add.assoc)
qed simp

lemma octets_at_append:
  "octets_at d p (xs @ ys) \<longleftrightarrow> octets_at d p xs \<and> octets_at d (p + 8 * length xs) ys"
  by (induction xs arbitrary: p) (simp_all add: algebra_simps)

subsection \<open>A source of bits\<close>

text \<open>
  What the clients of a reader rely on: the bits that are left are a queue, and a field of up to
  32 bits that are there is taken from its front. What happens when there are too few bits is
  not part of the contract, the two readers differ there.
\<close>

primrec read_many :: "('r \<Rightarrow> nat \<times> 'r) \<Rightarrow> nat \<Rightarrow> 'r \<Rightarrow> nat list \<times> 'r" where
  "read_many rd 0 r = ([], r)"
| "read_many rd (Suc k) r =
     (case rd r of (v, r') \<Rightarrow> case read_many rd k r' of (vs, r'') \<Rightarrow> (v # vs, r''))"

fun bit_fields :: "nat \<Rightarrow> nat \<Rightarrow> bool list \<Rightarrow> nat list" where
  "bit_fields n 0 xs = []"
| "bit_fields n (Suc k) xs = bits_number (take n xs) # bit_fields n k (drop n xs)"

lemma length_bit_fields [simp]: "length (bit_fields n k xs) = k"
  by (induction k arbitrary: xs) simp_all

locale bit_source =
  fixes ok :: "'r \<Rightarrow> bool" and left :: "'r \<Rightarrow> bool list" and rd :: "'r \<Rightarrow> nat \<Rightarrow> nat \<times> 'r"
  assumes rd_field: "ok r \<Longrightarrow> n \<le> 32 \<Longrightarrow> n \<le> length (left r) \<Longrightarrow>
      ok (snd (rd r n)) \<and> rd r n = (bits_number (take n (left r)), snd (rd r n)) \<and>
      left (snd (rd r n)) = drop n (left r)"
begin

lemma rd_ok: "ok r \<Longrightarrow> n \<le> 32 \<Longrightarrow> n \<le> length (left r) \<Longrightarrow> ok (snd (rd r n))"
  and rd_value: "ok r \<Longrightarrow> n \<le> 32 \<Longrightarrow> n \<le> length (left r) \<Longrightarrow> fst (rd r n) = bits_number (take n (left r))"
  and rd_left: "ok r \<Longrightarrow> n \<le> 32 \<Longrightarrow> n \<le> length (left r) \<Longrightarrow> left (snd (rd r n)) = drop n (left r)"
  using rd_field [of r n] by (simp_all, metis fst_conv)

text \<open>Reading equal fields one after the other cuts the queue into pieces.\<close>

lemma read_many_fields:
  assumes "ok r" and "n \<le> 32" and "k * n \<le> length (left r)"
  shows "fst (read_many (\<lambda>r. rd r n) k r) = bit_fields n k (left r) \<and>
    ok (snd (read_many (\<lambda>r. rd r n) k r)) \<and>
    left (snd (read_many (\<lambda>r. rd r n) k r)) = drop (k * n) (left r)"
  using assms
proof (induction k arbitrary: r)
  case (Suc k)
  then have n: "n \<le> length (left r)" "k * n \<le> length (left r) - n" by simp_all
  note r = rd_ok [OF Suc.prems(1,2) n(1)] rd_value [OF Suc.prems(1,2) n(1)]
    rd_left [OF Suc.prems(1,2) n(1)]
  obtain v r' where e: "rd r n = (v, r')" by fastforce
  with r have r': "ok r'" "v = bits_number (take n (left r))" "left r' = drop n (left r)" by simp_all
  then show ?case using Suc.IH [OF r'(1) Suc.prems(2)] n(2)
    by (simp add: e case_prod_unfold add.commute)
qed simp

end

end
