(* ===== verification/A2d_M24.thy ===== *)
theory A2d_M24
  imports Codec_Interface
begin

text \<open>
  stack/a2dp/a2d\_m24.c: the MPEG-2,4 AAC element of the stack, as the source of the data path and the
  application use it, with its parser and builder.
\<close>

abbreviation (input) A2D_NS_CHANNEL :: u8 where "A2D_NS_CHANNEL \<equiv> 0xD9"
abbreviation (input) A2D_BAD_CHANNEL :: u8 where "A2D_BAD_CHANNEL \<equiv> 0xD8"
abbreviation (input) A2D_M24_CIE_OFF :: nat where "A2D_M24_CIE_OFF \<equiv> 3"
abbreviation (input) A2D_M24_INFO_LEN :: u8 where "A2D_M24_INFO_LEN \<equiv> 8"
abbreviation (input) A2D_M24_IE_OBJ_TYPE_MSK :: u8 where "A2D_M24_IE_OBJ_TYPE_MSK \<equiv> 0xFE"
abbreviation (input) A2D_M24_IE_DRC_MSK :: u8 where "A2D_M24_IE_DRC_MSK \<equiv> 0x01"
abbreviation (input) A2D_M24_IE_SAMP_FREQ1_MSK :: u8 where "A2D_M24_IE_SAMP_FREQ1_MSK \<equiv> 0xFF"
abbreviation (input) A2D_M24_IE_SAMP_FREQ2_MSK :: u8 where "A2D_M24_IE_SAMP_FREQ2_MSK \<equiv> 0xF0"
abbreviation (input) A2D_M24_IE_CH_MSK :: u8 where "A2D_M24_IE_CH_MSK \<equiv> 0x0F"
abbreviation (input) A2D_M24_IE_VBR_MSK :: u8 where "A2D_M24_IE_VBR_MSK \<equiv> 0x80"
abbreviation (input) A2D_M24_IE_BR1_MSK :: u8 where "A2D_M24_IE_BR1_MSK \<equiv> 0x7F"
abbreviation (input) A2D_M24_IE_BR2_MSK :: u8 where "A2D_M24_IE_BR2_MSK \<equiv> 0xFF"
abbreviation (input) A2D_M24_IE_BR3_MSK :: u8 where "A2D_M24_IE_BR3_MSK \<equiv> 0xFF"

record tA2D_M24_CIE =
  m24_drc :: u8
  m24_obj_type :: u8
  m24_samp_freq1 :: u8
  m24_ch :: u8
  m24_samp_freq2 :: u8
  m24_br1 :: u8
  m24_vbr :: u8
  m24_br2 :: u8
  m24_br3 :: u8

definition m24_zero :: tA2D_M24_CIE where
  "m24_zero = \<lparr>m24_drc = 0, m24_obj_type = 0, m24_samp_freq1 = 0, m24_ch = 0, m24_samp_freq2 = 0,
     m24_br1 = 0, m24_vbr = 0, m24_br2 = 0, m24_br3 = 0\<rparr>"

definition m24_count_bits_4 :: "u8 \<Rightarrow> nat" where
  "m24_count_bits_4 v = (let v = v AND 0x0F in length (filter (\<lambda>i. v AND push_bit i 1 \<noteq> 0) [0..<4]))"

definition m24_popcount8 :: "u8 \<Rightarrow> nat" where
  "m24_popcount8 v = length (filter (\<lambda>i. v AND push_bit i 1 \<noteq> 0) [0..<8])"

definition m24_validate_ie_for_build :: "tA2D_M24_CIE option \<Rightarrow> u8" where
  "m24_validate_ie_for_build p_ie =
     (case p_ie of
        None \<Rightarrow> A2D_INVALID_PARAMS
      | Some ie \<Rightarrow>
          if m24_obj_type ie AND NOT A2D_M24_IE_OBJ_TYPE_MSK \<noteq> 0 then A2D_INVALID_PARAMS
          else if m24_drc ie AND NOT A2D_M24_IE_DRC_MSK \<noteq> 0 then A2D_INVALID_PARAMS
          else if m24_samp_freq1 ie AND NOT A2D_M24_IE_SAMP_FREQ1_MSK \<noteq> 0 then A2D_INVALID_PARAMS
          else if m24_samp_freq2 ie AND NOT A2D_M24_IE_SAMP_FREQ2_MSK \<noteq> 0 then A2D_INVALID_PARAMS
          else if m24_ch ie AND NOT A2D_M24_IE_CH_MSK \<noteq> 0 then A2D_INVALID_PARAMS
          else if m24_vbr ie AND NOT A2D_M24_IE_VBR_MSK \<noteq> 0 then A2D_INVALID_PARAMS
          else if m24_br1 ie AND NOT A2D_M24_IE_BR1_MSK \<noteq> 0 then A2D_INVALID_PARAMS
          else if m24_br2 ie AND NOT A2D_M24_IE_BR2_MSK \<noteq> 0 then A2D_INVALID_PARAMS
          else if m24_br3 ie AND NOT A2D_M24_IE_BR3_MSK \<noteq> 0 then A2D_INVALID_PARAMS
          else if m24_obj_type ie AND A2D_M24_IE_OBJ_TYPE_MSK = 0 then A2D_INVALID_PARAMS
          else if m24_popcount8 (m24_samp_freq1 ie) +
              m24_count_bits_4 (drop_bit 4 (m24_samp_freq2 ie AND A2D_M24_IE_SAMP_FREQ2_MSK)) < 1
          then A2D_INVALID_PARAMS
          else if m24_count_bits_4 (m24_ch ie AND A2D_M24_IE_CH_MSK) < 1 then A2D_INVALID_PARAMS
          else A2D_SUCCESS)"

definition A2D_BldM24Info :: "tA2D_M24_CIE builder" where
  "A2D_BldM24Info media_type p_ie p_result =
     (case (p_ie, p_result) of
        (Some ie, Some r) \<Rightarrow>
          if m24_validate_ie_for_build p_ie \<noteq> A2D_SUCCESS then (m24_validate_ie_for_build p_ie, Some r)
          else
            (A2D_SUCCESS, Some (store r 0
               [A2D_M24_INFO_LEN, media_type, A2D_MEDIA_CT_M24,
                (m24_obj_type ie AND A2D_M24_IE_OBJ_TYPE_MSK) OR (m24_drc ie AND A2D_M24_IE_DRC_MSK),
                m24_samp_freq1 ie AND A2D_M24_IE_SAMP_FREQ1_MSK,
                (m24_samp_freq2 ie AND A2D_M24_IE_SAMP_FREQ2_MSK) OR (m24_ch ie AND A2D_M24_IE_CH_MSK),
                (m24_vbr ie AND A2D_M24_IE_VBR_MSK) OR (m24_br1 ie AND A2D_M24_IE_BR1_MSK),
                m24_br2 ie AND A2D_M24_IE_BR2_MSK, m24_br3 ie AND A2D_M24_IE_BR3_MSK]))
      | _ \<Rightarrow> (A2D_INVALID_PARAMS, p_result))"

text \<open>The element is cleared as soon as both pointers are there.\<close>

definition m24_unpack :: "buf \<Rightarrow> tA2D_M24_CIE" where
  "m24_unpack b =
     \<lparr>m24_drc = b 3 AND A2D_M24_IE_DRC_MSK, m24_obj_type = b 3 AND A2D_M24_IE_OBJ_TYPE_MSK,
      m24_samp_freq1 = b 4 AND A2D_M24_IE_SAMP_FREQ1_MSK, m24_ch = b 5 AND A2D_M24_IE_CH_MSK,
      m24_samp_freq2 = b 5 AND A2D_M24_IE_SAMP_FREQ2_MSK, m24_br1 = b 6 AND A2D_M24_IE_BR1_MSK,
      m24_vbr = b 6 AND A2D_M24_IE_VBR_MSK, m24_br2 = b 7 AND A2D_M24_IE_BR2_MSK,
      m24_br3 = b 8 AND A2D_M24_IE_BR3_MSK\<rparr>"

definition A2D_ParsM24Info :: "tA2D_M24_CIE parser" where
  "A2D_ParsM24Info p_ie p_info for_caps =
     (case (p_ie, p_info) of
        (Some _, Some b) \<Rightarrow>
          if b 0 \<noteq> A2D_M24_INFO_LEN \<or> b 1 \<noteq> A2D_MEDIA_TYPE_AUDIO \<or> b 2 \<noteq> A2D_MEDIA_CT_M24
          then (A2D_WRONG_CODEC, Some m24_zero)
          else
            let ie = m24_unpack b;
                freq_bits_total = m24_popcount8 (m24_samp_freq1 ie) + m24_count_bits_4 (drop_bit 4 (m24_samp_freq2 ie))
            in (if for_caps
                then if m24_obj_type ie AND A2D_M24_IE_OBJ_TYPE_MSK = 0 then A2D_BAD_OBJ_TYPE
                     else if freq_bits_total < 1 then A2D_NS_SAMP_FREQ
                     else if m24_count_bits_4 (m24_ch ie) < 1 then A2D_NS_CHANNEL
                     else A2D_SUCCESS
                else if A2D_BitsSet (ucast (m24_obj_type ie)) \<noteq> A2D_SET_ONE_BIT then A2D_BAD_OBJ_TYPE
                     else if freq_bits_total \<noteq> 1 then A2D_BAD_SAMP_FREQ
                     else if A2D_BitsSet (ucast (m24_ch ie)) \<noteq> A2D_SET_ONE_BIT then A2D_BAD_CHANNEL
                     else A2D_SUCCESS, Some ie)
      | _ \<Rightarrow> (A2D_INVALID_PARAMS, p_ie))"

subsection \<open>Counting bits\<close>

lemma bit_test: "(v :: u8) AND push_bit i 1 \<noteq> 0 \<longleftrightarrow> bit v i"
proof
  assume "bit v i"
  then have "i < 8" using u8_bit_beyond not_le by blast
  with \<open>bit v i\<close> have "bit (v AND push_bit i 1) i" by (simp add: bit_simps)
  then show "v AND push_bit i 1 \<noteq> 0" by auto
next
  assume "v AND push_bit i 1 \<noteq> 0"
  then obtain j where "bit (v AND push_bit i 1) j" by (metis bit_0_eq bot_apply bot_bool_def bit_eqI)
  then show "bit v i" by (auto simp: bit_simps)
qed

lemma m24_popcount8_card: "m24_popcount8 v = card {i. bit v i}"
proof -
  have "m24_popcount8 v = card (set (filter (bit v) [0..<8]))"
    unfolding m24_popcount8_def bit_test by (intro distinct_card [symmetric]) simp
  also have "set (filter (bit v) [0..<8]) = {i. bit v i}" using u8_bit_beyond [where x = v] by (auto simp: not_le [symmetric])
  finally show ?thesis .
qed

lemma m24_count_bits_4_card: "m24_count_bits_4 v = card {i. bit (v AND 0x0F) i}"
proof -
  have m: "v AND 0x0F = take_bit 4 v" by (simp add: take_bit_eq_mask mask_eq_exp_minus_1)
  have "m24_count_bits_4 v = card (set (filter (bit (v AND 0x0F)) [0..<4]))"
    unfolding m24_count_bits_4_def Let_def bit_test by (intro distinct_card [symmetric]) simp
  also have "set (filter (bit (v AND 0x0F)) [0..<4]) = {i. bit (v AND 0x0F) i}" by (auto simp: m bit_simps)
  finally show ?thesis .
qed

lemma bits_card_0: "card {i. bit (v :: u8) i} = 0 \<longleftrightarrow> v = 0"
proof -
  have "card {i. bit v i} = 0 \<longleftrightarrow> {i. bit v i} = {}" by simp
  also have "\<dots> \<longleftrightarrow> v = 0" using bit_eqI [of v 0] by auto
  finally show ?thesis .
qed

lemma bits_card_1: "card {i. bit (v :: u8) i} = 1 \<longleftrightarrow> one_bit v"
proof -
  have "{n. bit (ucast v :: u64) n} = {n. bit v n}" by (auto simp: bit_simps dest: bit_imp_le_length)
  then show ?thesis by (simp add: A2D_BitsSet_u8_one [symmetric] A2D_BitsSet_card_one)
qed

lemma sum_eq_1: "a + b = (1 :: nat) \<longleftrightarrow> a = 1 \<and> b = 0 \<or> a = 0 \<and> b = 1"
  by auto

lemma and_FF [simp]: "(v :: u8) AND 0xFF = v"
  by (simp add: u8_eq_iff bit_simps)

lemma high_nibble: "drop_bit 4 (v :: u8) AND 0x0F = drop_bit 4 v" "drop_bit 4 (v AND 0xF0) = drop_bit 4 v"
proof -
  have "drop_bit 4 v AND 0x0F = take_bit 4 (drop_bit 4 v)" by (simp add: take_bit_eq_mask mask_eq_exp_minus_1)
  also have "\<dots> = drop_bit 4 v" by (rule bit_word_eqI) (auto simp: bit_simps dest: bit_imp_le_length)
  finally show "drop_bit 4 v AND 0x0F = drop_bit 4 v" .
  show "drop_bit 4 (v AND 0xF0) = drop_bit 4 v" by (simp add: u8_eq_iff bit_simps)
qed

lemma high_nibble_bits: "card {i. bit (drop_bit 4 v) i} = card {i. bit (v AND 0xF0 :: u8) i}"
proof -
  have b: "bit (v AND 0xF0) i \<longleftrightarrow> 4 \<le> i \<and> bit v i" for i
  proof (cases "i < 8")
    case True
    then show ?thesis using less_8_cases [OF True] by (auto simp: bit_simps)
  next
    case False
    then show ?thesis by (auto simp: not_less)
  qed
  have "i \<in> (\<lambda>i. i + 4) ` {i. bit v (4 + i)} \<longleftrightarrow> 4 \<le> i \<and> bit v i" for i
  proof
    assume "4 \<le> i \<and> bit v i"
    then show "i \<in> (\<lambda>i. i + 4) ` {i. bit v (4 + i)}" by (intro image_eqI [of _ _ "i - 4"]) simp_all
  qed (auto simp: add.commute)
  then have "{i. bit (v AND 0xF0) i} = (\<lambda>i. i + 4) ` {i. bit (drop_bit 4 v) i}"
    unfolding b bit_drop_bit_eq comp_def by blast
  then show ?thesis by (simp add: card_image)
qed

lemma m24_count_4: "m24_count_bits_4 (drop_bit 4 v) = card {i. bit (v AND 0xF0) i}"
  by (simp add: m24_count_bits_4_card high_nibble high_nibble_bits)

lemma m24_freq_total:
  "m24_popcount8 a + m24_count_bits_4 (drop_bit 4 b) < 1 \<longleftrightarrow> a = 0 \<and> b AND 0xF0 = 0"
  "m24_popcount8 a + m24_count_bits_4 (drop_bit 4 b) = 1 \<longleftrightarrow>
    one_bit a \<and> b AND 0xF0 = 0 \<or> a = 0 \<and> one_bit (b AND 0xF0)"
  unfolding m24_popcount8_card m24_count_4 sum_eq_1 bits_card_0 bits_card_1 less_one add_is_0 by simp_all

lemma m24_ch_count: "m24_count_bits_4 v < 1 \<longleftrightarrow> v AND 0x0F = 0"
  unfolding m24_count_bits_4_card less_one bits_card_0 ..

subsection \<open>The contract\<close>

definition m24_wf :: "tA2D_M24_CIE \<Rightarrow> bool" where
  "m24_wf ie = (m24_validate_ie_for_build (Some ie) = A2D_SUCCESS)"

lemma m24_wf_iff:
  "m24_wf ie \<longleftrightarrow>
    m24_obj_type ie AND 0xFE = m24_obj_type ie \<and> m24_drc ie AND 1 = m24_drc ie \<and> m24_samp_freq2 ie AND 0xF0 = m24_samp_freq2 ie \<and>
    m24_ch ie AND 0x0F = m24_ch ie \<and> m24_vbr ie AND 0x80 = m24_vbr ie \<and> m24_br1 ie AND 0x7F = m24_br1 ie \<and>
    m24_obj_type ie \<noteq> 0 \<and> (m24_samp_freq1 ie \<noteq> 0 \<or> m24_samp_freq2 ie \<noteq> 0) \<and> m24_ch ie \<noteq> 0"
  unfolding m24_wf_def m24_validate_ie_for_build_def and_not_mask_iff high_nibble(2) m24_freq_total(1) m24_ch_count
  by auto

lemma m24_unpack_agree: "buf_agree 9 b b' \<Longrightarrow> m24_unpack b = m24_unpack b'"
  by (simp add: m24_unpack_def buf_agreeD [of 9])

lemma m24_unpack_masks:
  "m24_obj_type (m24_unpack b) AND 0xFE = m24_obj_type (m24_unpack b)" "m24_drc (m24_unpack b) AND 1 = m24_drc (m24_unpack b)"
  "m24_samp_freq2 (m24_unpack b) AND 0xF0 = m24_samp_freq2 (m24_unpack b)" "m24_ch (m24_unpack b) AND 0x0F = m24_ch (m24_unpack b)"
  "m24_vbr (m24_unpack b) AND 0x80 = m24_vbr (m24_unpack b)" "m24_br1 (m24_unpack b) AND 0x7F = m24_br1 (m24_unpack b)"
  by (simp_all add: m24_unpack_def)

lemma A2D_ParsM24Info_True:
  "A2D_ParsM24Info (Some ie0) (Some b) True = (A2D_SUCCESS, Some ie) \<longleftrightarrow>
    b 0 = 8 \<and> b 1 = 0 \<and> b 2 = 2 \<and> ie = m24_unpack b \<and> m24_wf ie"
  unfolding A2D_ParsM24Info_def Let_def m24_freq_total(1) m24_ch_count m24_wf_iff
  using m24_unpack_masks [of b] by auto

lemma A2D_ParsM24Info_False:
  "fst (A2D_ParsM24Info (Some ie0) (Some b) False) = A2D_SUCCESS \<longleftrightarrow>
    b 0 = 8 \<and> b 1 = 0 \<and> b 2 = 2 \<and> one_bit (b 3 AND 0xFE) \<and>
    (one_bit (b 4) \<and> b 5 AND 0xF0 = 0 \<or> b 4 = 0 \<and> one_bit (b 5 AND 0xF0)) \<and> one_bit (b 5 AND 0x0F)"
  unfolding A2D_ParsM24Info_def Let_def m24_freq_total(2) A2D_BitsSet_u8_one
  by (auto simp: m24_unpack_def)

lemma m24_unpack_built:
  assumes "m24_wf ie"
  shows "m24_unpack (store r 0 [8, mt, 2, (m24_obj_type ie AND 0xFE) OR (m24_drc ie AND 1), m24_samp_freq1 ie AND 0xFF,
     (m24_samp_freq2 ie AND 0xF0) OR (m24_ch ie AND 0x0F), (m24_vbr ie AND 0x80) OR (m24_br1 ie AND 0x7F),
     m24_br2 ie AND 0xFF, m24_br3 ie AND 0xFF]) = ie"
proof -
  have a: "(x AND 0xFE OR y AND 1) AND 1 = y AND 1" "(x AND 0xFE OR y AND 1) AND 0xFE = x AND 0xFE"
    "(x AND 0xF0 OR y AND 0x0F) AND 0x0F = y AND 0x0F" "(x AND 0xF0 OR y AND 0x0F) AND 0xF0 = x AND 0xF0"
    "(x AND 0x80 OR y AND 0x7F) AND 0x7F = y AND 0x7F" "(x AND 0x80 OR y AND 0x7F) AND 0x80 = x AND 0x80"
    "x AND 0xFF = x" for x y :: u8
    by (simp_all add: u8_eq_iff bit_simps)
  show ?thesis (is "m24_unpack ?b = ie")
  proof -
    have "m24_unpack ?b = \<lparr>m24_drc = m24_drc ie AND 1, m24_obj_type = m24_obj_type ie AND 0xFE, m24_samp_freq1 = m24_samp_freq1 ie,
      m24_ch = m24_ch ie AND 0x0F, m24_samp_freq2 = m24_samp_freq2 ie AND 0xF0, m24_br1 = m24_br1 ie AND 0x7F,
      m24_vbr = m24_vbr ie AND 0x80, m24_br2 = m24_br2 ie, m24_br3 = m24_br3 ie\<rparr>"
      by (simp add: m24_unpack_def a)
    then show ?thesis using assms unfolding m24_wf_iff by simp
  qed
qed

interpretation m24: strict_codec A2D_ParsM24Info A2D_BldM24Info 9 m24_wf "\<lambda>ie0 ie. ie"
proof
  show "(9::nat) \<le> AVDT_CODEC_SIZE" by simp
next
  fix b b' :: buf and p cap
  assume "buf_agree 9 b b'"
  then show "A2D_ParsM24Info p (Some b) cap = A2D_ParsM24Info p (Some b') cap"
    by (simp add: A2D_ParsM24Info_def m24_unpack_agree buf_agreeD [of 9] split: option.split)
next
  fix ie ie' :: tA2D_M24_CIE and b cap
  show "fst (A2D_ParsM24Info (Some ie) (Some b) cap) = fst (A2D_ParsM24Info (Some ie') (Some b) cap)"
    by (simp add: A2D_ParsM24Info_def Let_def)
next
  fix ie0 ie :: tA2D_M24_CIE and b
  assume "A2D_ParsM24Info (Some ie0) (Some b) True = (A2D_SUCCESS, Some ie)"
  then show "m24_wf ie" unfolding A2D_ParsM24Info_True by blast
next
  fix mt r and k :: nat and p :: "tA2D_M24_CIE option"
  assume "9 \<le> k"
  then show "\<exists>r'. snd (A2D_BldM24Info mt p (Some r)) = Some r' \<and> r' k = r k"
    by (auto simp: A2D_BldM24Info_def store_0_beyond split: option.split)
next
  fix ie0 :: tA2D_M24_CIE and b cap
  show "snd (A2D_ParsM24Info (Some ie0) (Some b) cap) \<noteq> None"
    by (simp add: A2D_ParsM24Info_def Let_def)
next
  fix ie ie0 :: tA2D_M24_CIE and r
  assume wf: "m24_wf ie"
  then show "\<exists>r'. A2D_BldM24Info A2D_MEDIA_TYPE_AUDIO (Some ie) (Some r) = (A2D_SUCCESS, Some r') \<and>
      A2D_ParsM24Info (Some ie0) (Some r') True = (A2D_SUCCESS, Some ie)"
    using m24_unpack_built [OF wf, of r 0] unfolding A2D_ParsM24Info_True
    by (simp add: A2D_BldM24Info_def m24_wf_def)
next
  fix ie :: tA2D_M24_CIE and b
  assume "fst (A2D_ParsM24Info (Some ie) (Some b) False) = A2D_SUCCESS"
  then have "A2D_ParsM24Info (Some ie) (Some b) True = (A2D_SUCCESS, Some (m24_unpack b))"
    unfolding A2D_ParsM24Info_False A2D_ParsM24Info_True m24_wf_iff
    using m24_unpack_masks [of b] by (auto simp: m24_unpack_def dest: one_bit_nonzero)
  then show "fst (A2D_ParsM24Info (Some ie) (Some b) True) = A2D_SUCCESS" by simp
qed

end
