(* ===== verification/Latm_Raw.thy ===== *)
theory Latm_Raw
  imports Bit_Stream A2d_M24 "HOL-Library.Monad_Syntax"
begin

text \<open>
  btc/profile/std/a2dp/btc\_a2dp\_latm\_raw.c: LATM for the data path of the application. The sink half takes
  one AAC frame out of an AudioMuxElement, the source half builds one from a frame and the codec
  configuration. A function that returns \<open>-1\<close> or \<open>0\<close> for an error gives \<open>None\<close>; what a failed call
  left in the output is not kept. Positions and values are numbers; the number of bits of the input
  is computed in 32 bits.
\<close>

subsection \<open>The reader\<close>

record btc_a2dp_latm_br_t =
  br_buf :: buf
  br_byte_len :: nat
  br_bit_pos :: nat

definition btc_a2dp_latm_bits_total :: "btc_a2dp_latm_br_t \<Rightarrow> nat" where
  "btc_a2dp_latm_bits_total r = br_byte_len r * 8 mod 2 ^ 32"

definition btc_a2dp_latm_get1 :: "btc_a2dp_latm_br_t \<Rightarrow> (nat \<times> btc_a2dp_latm_br_t) option" where
  "btc_a2dp_latm_get1 r =
     (if br_bit_pos r \<ge> btc_a2dp_latm_bits_total r then None
      else
        let byte = br_bit_pos r div 8;
            bit_in_byte = 7 - br_bit_pos r mod 8;
            v = drop_bit bit_in_byte (br_buf r byte) AND 1
        in Some (unat v, r\<lparr>br_bit_pos := br_bit_pos r + 1\<rparr>))"

fun latm_bits_loop :: "nat \<Rightarrow> nat \<Rightarrow> btc_a2dp_latm_br_t \<Rightarrow> (nat \<times> btc_a2dp_latm_br_t) option" where
  "latm_bits_loop 0 v r = Some (v, r)"
| "latm_bits_loop (Suc n) v r =
     (case btc_a2dp_latm_get1 r of
        None \<Rightarrow> None
      | Some (b, r) \<Rightarrow> latm_bits_loop n ((2 * v + b) mod 2 ^ 32) r)"

definition btc_a2dp_latm_get_bits :: "btc_a2dp_latm_br_t \<Rightarrow> nat \<Rightarrow> (nat \<times> btc_a2dp_latm_br_t) option" where
  "btc_a2dp_latm_get_bits r n = latm_bits_loop n 0 r"

definition btc_a2dp_latm_get_value :: "btc_a2dp_latm_br_t \<Rightarrow> (nat \<times> btc_a2dp_latm_br_t) option" where
  "btc_a2dp_latm_get_value r = do {
     (l, r) \<leftarrow> btc_a2dp_latm_get_bits r 2;
     let nbytes = l + 1;
     latm_bits_loop (nbytes * 8) 0 r
   }"

fun latm_skip_loop :: "nat \<Rightarrow> btc_a2dp_latm_br_t \<Rightarrow> btc_a2dp_latm_br_t option" where
  "latm_skip_loop 0 r = Some r"
| "latm_skip_loop (Suc n) r =
     (case btc_a2dp_latm_get1 r of None \<Rightarrow> None | Some (b, r) \<Rightarrow> latm_skip_loop n r)"

definition btc_a2dp_latm_skip_bits :: "btc_a2dp_latm_br_t \<Rightarrow> nat \<Rightarrow> btc_a2dp_latm_br_t option" where
  "btc_a2dp_latm_skip_bits r n = latm_skip_loop n r"

definition latm_bits_left :: "btc_a2dp_latm_br_t \<Rightarrow> nat" where
  "latm_bits_left r = btc_a2dp_latm_bits_total r - br_bit_pos r"

subsection \<open>The configuration\<close>

text \<open>The object type and the sampling frequency, which the code reads twice.\<close>

definition latm_object_type :: "btc_a2dp_latm_br_t \<Rightarrow> (nat \<times> btc_a2dp_latm_br_t) option" where
  "latm_object_type r = do {
     (object_type, r) \<leftarrow> btc_a2dp_latm_get_bits r 5;
     if object_type = 31 then do {
       (ext, r) \<leftarrow> btc_a2dp_latm_get_bits r 6;
       Some (32 + ext, r)
     } else Some (object_type, r)
   }"

definition latm_sf_index :: "btc_a2dp_latm_br_t \<Rightarrow> btc_a2dp_latm_br_t option" where
  "latm_sf_index r = do {
     (sf_index, r) \<leftarrow> btc_a2dp_latm_get_bits r 4;
     if sf_index = 15 then btc_a2dp_latm_skip_bits r 24 else Some r
   }"

definition latm_ga_object_types :: "nat list" where
  "latm_ga_object_types = [1, 2, 3, 4, 6, 7, 17, 19, 20, 21, 22, 23]"

definition latm_skip_ga_specific :: "btc_a2dp_latm_br_t \<Rightarrow> btc_a2dp_latm_br_t option" where
  "latm_skip_ga_specific r = do {
     r \<leftarrow> btc_a2dp_latm_skip_bits r 1;
     (dep, r) \<leftarrow> btc_a2dp_latm_get_bits r 1;
     r \<leftarrow> (if dep \<noteq> 0 then btc_a2dp_latm_skip_bits r 14 else Some r);
     (ext_flag, r) \<leftarrow> btc_a2dp_latm_get_bits r 1;
     if ext_flag \<noteq> 0 then None else Some r
   }"

text \<open>
  A round of the scan for sync extensions; the flag says whether the loop goes on. A position that the
  code saves and restores is the reader from before.
\<close>

definition latm_sync_next :: "btc_a2dp_latm_br_t \<Rightarrow> (bool \<times> btc_a2dp_latm_br_t) option" where
  "latm_sync_next r =
     (case btc_a2dp_latm_get1 r of None \<Rightarrow> Some (False, r) | Some (_, r) \<Rightarrow> Some (True, r))"

definition latm_sync_sbr :: "btc_a2dp_latm_br_t \<Rightarrow> (bool \<times> btc_a2dp_latm_br_t) option" where
  "latm_sync_sbr r = do {
     r \<leftarrow> btc_a2dp_latm_skip_bits r 1;
     r \<leftarrow> latm_sf_index r;
     if latm_bits_left r > 11
     then (case btc_a2dp_latm_get_bits r 11 of
             None \<Rightarrow> Some (False, r)
           | Some (show2, r2) \<Rightarrow>
               if show2 = 0x548 then do { r \<leftarrow> btc_a2dp_latm_skip_bits r2 1; Some (True, r) }
               else Some (True, r))
     else Some (True, r)
   }"

definition latm_sync_step :: "btc_a2dp_latm_br_t \<Rightarrow> (bool \<times> btc_a2dp_latm_br_t) option" where
  "latm_sync_step r0 =
     (case btc_a2dp_latm_get_bits r0 11 of
        None \<Rightarrow> Some (False, r0)
      | Some (show, r) \<Rightarrow>
          if show = 0x2b7 then do {
            (ext_type, r) \<leftarrow> btc_a2dp_latm_get_bits r 5;
            if ext_type = 5 then latm_sync_sbr r else latm_sync_next r0
          } else latm_sync_next r0)"

subsection \<open>What the reader reads\<close>

lemma get1_eq:
  "btc_a2dp_latm_get1 r =
    (if br_bit_pos r < btc_a2dp_latm_bits_total r
     then Some (of_bool (bit_at (br_buf r) (br_bit_pos r)), r\<lparr>br_bit_pos := br_bit_pos r + 1\<rparr>) else None)"
proof -
  have "unat (drop_bit k w AND 1) = of_bool (bit w k)" for k and w :: u8
    by (simp add: and_one_eq mod_2_eq_odd bit_iff_odd_drop_bit)
  then show ?thesis by (simp add: btc_a2dp_latm_get1_def Let_def bit_at_def)
qed

lemma bits_total_pos [simp]: "btc_a2dp_latm_bits_total (r\<lparr>br_bit_pos := p\<rparr>) = btc_a2dp_latm_bits_total r"
  by (simp add: btc_a2dp_latm_bits_total_def)

lemma bits_value_snoc: "bits_value d p (Suc n) = of_bool (bit_at d p) * 2 ^ n + bits_value d (Suc p) n"
  using bits_value_add [of d p 1 n] by simp

lemma bits_loop_eq:
  assumes "v < 2 ^ k" "k + n \<le> 32"
  shows "latm_bits_loop n v r =
    (if n = 0 \<or> br_bit_pos r + n \<le> btc_a2dp_latm_bits_total r
     then Some (v * 2 ^ n + bits_value (br_buf r) (br_bit_pos r) n, r\<lparr>br_bit_pos := br_bit_pos r + n\<rparr>) else None)"
  using assms
proof (induction n arbitrary: v k r)
  case 0
  then show ?case by simp
next
  case (Suc n)
  let ?b = "of_bool (bit_at (br_buf r) (br_bit_pos r)) :: nat"
  have v: "2 * v + ?b < 2 ^ Suc k" using Suc.prems(1) by (cases "bit_at (br_buf r) (br_bit_pos r)") simp_all
  also have "\<dots> \<le> (2 :: nat) ^ 32" using Suc.prems(2) by (intro power_increasing) simp_all
  finally have m: "(2 * v + ?b) mod 2 ^ 32 = 2 * v + ?b" by simp
  have k: "Suc k + n \<le> 32" using Suc.prems(2) by simp
  show ?case
    using Suc.IH [OF v k, of "r\<lparr>br_bit_pos := br_bit_pos r + 1\<rparr>"] m
    by (auto simp: get1_eq bits_value_snoc algebra_simps simp del: bits_value.simps(2))
qed

lemma get_bits_eq:
  "n \<le> 32 \<Longrightarrow> btc_a2dp_latm_get_bits r n =
    (if n = 0 \<or> br_bit_pos r + n \<le> btc_a2dp_latm_bits_total r
     then Some (bits_value (br_buf r) (br_bit_pos r) n, r\<lparr>br_bit_pos := br_bit_pos r + n\<rparr>) else None)"
  using bits_loop_eq [of 0 0 n r] by (simp add: btc_a2dp_latm_get_bits_def)

lemma skip_loop_eq:
  "latm_skip_loop n r =
    (if n = 0 \<or> br_bit_pos r + n \<le> btc_a2dp_latm_bits_total r then Some (r\<lparr>br_bit_pos := br_bit_pos r + n\<rparr>) else None)"
  by (induction n arbitrary: r) (auto simp: get1_eq)

lemmas skip_bits_eq = skip_loop_eq [folded btc_a2dp_latm_skip_bits_def]

text \<open>Every operation moves the reader forward, and not beyond the end.\<close>

definition onward :: "btc_a2dp_latm_br_t \<Rightarrow> btc_a2dp_latm_br_t \<Rightarrow> bool" where
  "onward r r' =
     (br_buf r' = br_buf r \<and> br_byte_len r' = br_byte_len r \<and>
      (br_bit_pos r' = br_bit_pos r \<or> br_bit_pos r < br_bit_pos r' \<and> br_bit_pos r' \<le> btc_a2dp_latm_bits_total r))"

lemma onward_refl: "onward r r"
  by (simp add: onward_def)

lemma onward_total: "onward r r' \<Longrightarrow> btc_a2dp_latm_bits_total r' = btc_a2dp_latm_bits_total r"
  by (simp add: onward_def btc_a2dp_latm_bits_total_def)

lemma onward_trans: "\<lbrakk>onward a b; onward b c\<rbrakk> \<Longrightarrow> onward a c"
  using onward_total [of a b] by (auto simp: onward_def)

lemma bits_loop_onward: "latm_bits_loop n v r = Some (x, r') \<Longrightarrow> onward r r' \<and> br_bit_pos r' = br_bit_pos r + n"
proof (induction n arbitrary: v r)
  case (Suc n)
  from Suc.prems obtain b where p: "br_bit_pos r < btc_a2dp_latm_bits_total r"
    and s: "latm_bits_loop n b (r\<lparr>br_bit_pos := br_bit_pos r + 1\<rparr>) = Some (x, r')"
    by (auto simp: get1_eq split: if_splits)
  from Suc.IH [OF s] p show ?case by (auto simp: onward_def)
qed (simp add: onward_refl)

lemma get_bits_onward: "btc_a2dp_latm_get_bits r n = Some (x, r') \<Longrightarrow> onward r r' \<and> br_bit_pos r' = br_bit_pos r + n"
  by (simp add: btc_a2dp_latm_get_bits_def bits_loop_onward)

lemma get_value_onward: "btc_a2dp_latm_get_value r = Some (x, r') \<Longrightarrow> onward r r'"
  by (auto simp: btc_a2dp_latm_get_value_def Let_def Option.bind_eq_Some_conv
      dest!: bits_loop_onward get_bits_onward intro: onward_trans)

lemma skip_bits_onward: "btc_a2dp_latm_skip_bits r n = Some r' \<Longrightarrow> onward r r' \<and> br_bit_pos r' = br_bit_pos r + n"
  by (auto simp: skip_bits_eq onward_def split: if_splits)

lemma object_type_onward: "latm_object_type r = Some (x, r') \<Longrightarrow> onward r r'"
  by (auto simp: latm_object_type_def Option.bind_eq_Some_conv split: if_splits dest!: get_bits_onward intro: onward_trans)

lemma sf_index_onward: "latm_sf_index r = Some r' \<Longrightarrow> onward r r'"
  by (auto simp: latm_sf_index_def Option.bind_eq_Some_conv split: if_splits
      dest!: get_bits_onward skip_bits_onward intro: onward_trans)

lemma sync_next_onward: "latm_sync_next r = Some (True, r') \<Longrightarrow> onward r r' \<and> br_bit_pos r < br_bit_pos r'"
  by (auto simp: latm_sync_next_def get1_eq onward_def split: if_splits)

lemma sync_sbr_onward: "latm_sync_sbr r = Some (go, r') \<Longrightarrow> onward r r'"
  by (auto simp: latm_sync_sbr_def Option.bind_eq_Some_conv split: if_splits option.splits
      dest!: skip_bits_onward sf_index_onward get_bits_onward) (blast intro: onward_trans)+

lemma sync_step_onward:
  assumes "latm_sync_step r = Some (True, r')"
  shows "onward r r' \<and> br_bit_pos r < br_bit_pos r'"
proof -
  from assms consider "latm_sync_next r = Some (True, r')"
    | s r1 e r2 where "btc_a2dp_latm_get_bits r 11 = Some (s, r1)" "btc_a2dp_latm_get_bits r1 5 = Some (e, r2)"
      "latm_sync_sbr r2 = Some (True, r')"
    by (auto simp: latm_sync_step_def Option.bind_eq_Some_conv split: if_splits option.splits)
  then show ?thesis
  proof cases
    case 1
    then show ?thesis by (rule sync_next_onward)
  next
    case 2
    have "onward r r'"
      using get_bits_onward [OF 2(1)] get_bits_onward [OF 2(2)] sync_sbr_onward [OF 2(3)] onward_trans by blast
    moreover have "br_bit_pos r < br_bit_pos r2" using get_bits_onward [OF 2(1)] get_bits_onward [OF 2(2)] by simp
    moreover have "br_bit_pos r2 \<le> br_bit_pos r'" using sync_sbr_onward [OF 2(3)] by (auto simp: onward_def)
    ultimately show ?thesis by simp
  qed
qed

function latm_sync_scan :: "btc_a2dp_latm_br_t \<Rightarrow> btc_a2dp_latm_br_t option" where
  "latm_sync_scan r =
     (if latm_bits_left r > 15
      then (case latm_sync_step r of
              None \<Rightarrow> None
            | Some (go, r') \<Rightarrow> if go then latm_sync_scan r' else Some r')
      else Some r)"
  by pat_completeness auto
termination
proof (relation "measure latm_bits_left", simp)
  fix r x go r'
  assume "15 < latm_bits_left r" "latm_sync_step r = Some x" "(go, r') = x" "go"
  then show "(r', r) \<in> measure latm_bits_left"
    using sync_step_onward [of r r'] onward_total [of r r'] by (auto simp: latm_bits_left_def)
qed

declare latm_sync_scan.simps [simp del]

text \<open>\<open>btc_a2dp_latm_skip_audio_specific_config\<close> behind the channel configuration, and all of it.\<close>

definition latm_skip_core :: "nat \<Rightarrow> btc_a2dp_latm_br_t \<Rightarrow> (nat \<times> btc_a2dp_latm_br_t) option" where
  "latm_skip_core object_type r =
     (if object_type = 5 \<or> object_type = 29 then do {
        r \<leftarrow> latm_sf_index r;
        (object_type, r) \<leftarrow> latm_object_type r;
        r \<leftarrow> (if object_type = 22 then btc_a2dp_latm_skip_bits r 4 else Some r);
        Some (object_type, r)
      } else Some (object_type, r))"

definition btc_a2dp_latm_skip_audio_specific_config :: "btc_a2dp_latm_br_t \<Rightarrow> btc_a2dp_latm_br_t option" where
  "btc_a2dp_latm_skip_audio_specific_config r = do {
     (object_type, r) \<leftarrow> latm_object_type r;
     r \<leftarrow> latm_sf_index r;
     r \<leftarrow> btc_a2dp_latm_skip_bits r 4;
     if object_type = 39 then do {
       r \<leftarrow> btc_a2dp_latm_skip_bits r 5;
       btc_a2dp_latm_skip_bits r 2
     } else do {
       (object_type, r) \<leftarrow> latm_skip_core object_type r;
       r \<leftarrow> (if object_type \<in> set latm_ga_object_types then latm_skip_ga_specific r else Some r);
       latm_sync_scan r
     }
   }"

text \<open>The loop over the escape flags of the other data.\<close>

function latm_other_data :: "btc_a2dp_latm_br_t \<Rightarrow> btc_a2dp_latm_br_t option" where
  "latm_other_data r =
     (if latm_bits_left r < 9 then None
      else case btc_a2dp_latm_get_bits r 1 of
        None \<Rightarrow> None
      | Some (esc_u, r1) \<Rightarrow>
          (case btc_a2dp_latm_skip_bits r1 8 of
             None \<Rightarrow> None
           | Some r2 \<Rightarrow> if esc_u \<noteq> 0 then latm_other_data r2 else Some r2))"
  by pat_completeness auto
termination
proof (relation "measure latm_bits_left", simp)
  fix r x esc_u r1 r2
  assume "\<not> latm_bits_left r < 9" "btc_a2dp_latm_get_bits r 1 = Some x" "(esc_u, r1) = x" "btc_a2dp_latm_skip_bits r1 8 = Some r2"
  then show "(r2, r) \<in> measure latm_bits_left"
    using get_bits_onward [of r 1 esc_u r1] skip_bits_onward [of r1 8 r2] onward_total [of r r1] onward_total [of r1 r2]
    by (auto simp: latm_bits_left_def)
qed

declare latm_other_data.simps [simp del]

text \<open>
  \<open>btc_a2dp_latm_skip_stream_mux_config\<close> behind the configuration: the length type, the other data and
  the checksum.
\<close>

definition latm_skip_frame_length :: "nat \<Rightarrow> btc_a2dp_latm_br_t \<Rightarrow> btc_a2dp_latm_br_t option" where
  "latm_skip_frame_length frame_length_type r =
     (if frame_length_type = 0 then btc_a2dp_latm_skip_bits r 8
      else if frame_length_type = 1 then btc_a2dp_latm_skip_bits r 9
      else if frame_length_type = 3 \<or> frame_length_type = 4 \<or> frame_length_type = 5 then btc_a2dp_latm_skip_bits r 6
      else if frame_length_type = 6 \<or> frame_length_type = 7 then btc_a2dp_latm_skip_bits r 1
      else Some r)"

definition latm_skip_other_data :: "nat \<Rightarrow> nat \<Rightarrow> btc_a2dp_latm_br_t \<Rightarrow> btc_a2dp_latm_br_t option" where
  "latm_skip_other_data audio_mux_version other_data r =
     (if other_data = 0 then Some r
      else if audio_mux_version \<noteq> 0 then do {
        (bits, r) \<leftarrow> btc_a2dp_latm_get_value r;
        if bits > 8192 then None else btc_a2dp_latm_skip_bits r bits
      } else latm_other_data r)"

definition latm_skip_mux_tail :: "nat \<Rightarrow> btc_a2dp_latm_br_t \<Rightarrow> (nat \<times> btc_a2dp_latm_br_t) option" where
  "latm_skip_mux_tail audio_mux_version r = do {
     (frame_length_type, r) \<leftarrow> btc_a2dp_latm_get_bits r 3;
     r \<leftarrow> latm_skip_frame_length frame_length_type r;
     (other_data, r) \<leftarrow> btc_a2dp_latm_get_bits r 1;
     r \<leftarrow> latm_skip_other_data audio_mux_version other_data r;
     (crc, r) \<leftarrow> btc_a2dp_latm_get_bits r 1;
     r \<leftarrow> (if crc \<noteq> 0 then btc_a2dp_latm_skip_bits r 8 else Some r);
     Some (frame_length_type, r)
   }"

definition latm_skip_mux_asc :: "nat \<Rightarrow> btc_a2dp_latm_br_t \<Rightarrow> btc_a2dp_latm_br_t option" where
  "latm_skip_mux_asc audio_mux_version r =
     (if audio_mux_version = 0 then btc_a2dp_latm_skip_audio_specific_config r
      else do {
        (asc_bits, r) \<leftarrow> btc_a2dp_latm_get_value r;
        if asc_bits > 8192 then None else btc_a2dp_latm_skip_bits r asc_bits
      })"

definition btc_a2dp_latm_skip_stream_mux_config :: "btc_a2dp_latm_br_t \<Rightarrow> (nat \<times> btc_a2dp_latm_br_t) option" where
  "btc_a2dp_latm_skip_stream_mux_config r = do {
     (audio_mux_version, r) \<leftarrow> btc_a2dp_latm_get_bits r 1;
     (audio_mux_version_a, r) \<leftarrow> (if audio_mux_version \<noteq> 0 then btc_a2dp_latm_get_bits r 1 else Some (0, r));
     if audio_mux_version_a \<noteq> 0 then None
     else do {
       (dummy, r) \<leftarrow> (if audio_mux_version \<noteq> 0 then btc_a2dp_latm_get_value r else Some (0, r));
       r \<leftarrow> btc_a2dp_latm_skip_bits r 7;
       (num_programs, r) \<leftarrow> btc_a2dp_latm_get_bits r 4;
       if num_programs \<noteq> 0 then None
       else do {
         (num_layer, r) \<leftarrow> btc_a2dp_latm_get_bits r 3;
         if num_layer \<noteq> 0 then None
         else do {
           r \<leftarrow> latm_skip_mux_asc audio_mux_version r;
           latm_skip_mux_tail audio_mux_version r
         }
       }
     }
   }"

function latm_payload_length :: "btc_a2dp_latm_br_t \<Rightarrow> nat \<Rightarrow> nat \<Rightarrow> (nat \<times> btc_a2dp_latm_br_t) option" where
  "latm_payload_length r len loops =
     (case btc_a2dp_latm_get_bits r 8 of
        None \<Rightarrow> None
      | Some (tmp, r) \<Rightarrow>
          if tmp \<noteq> 255 then Some (len + tmp, r)
          else if loops + 1 > 32 then None
          else latm_payload_length r (len + tmp) (loops + 1))"
  by pat_completeness auto
termination by (relation "measure (\<lambda>(r, len, loops). 33 - loops)") auto

declare latm_payload_length.simps [simp del]

definition btc_a2dp_latm_get_payload_length_type0 :: "btc_a2dp_latm_br_t \<Rightarrow> (nat \<times> btc_a2dp_latm_br_t) option" where
  "btc_a2dp_latm_get_payload_length_type0 r = latm_payload_length r 0 0"

subsection \<open>Taking a frame out\<close>

text \<open>What \<open>btc_a2dp_latm_check_hdr_len\<close> and \<open>btc_a2dp_latm_extract_raw_data_block\<close> begin with.\<close>

definition latm_header :: "buf \<Rightarrow> nat \<Rightarrow> (nat \<times> btc_a2dp_latm_br_t) option" where
  "latm_header inp in_len =
     (let r = \<lparr>br_buf = inp, br_byte_len = in_len, br_bit_pos = 0\<rparr>
      in do {
        (use_same, r) \<leftarrow> btc_a2dp_latm_get_bits r 1;
        (frame_length_type, r) \<leftarrow>
          (if use_same = 0 then btc_a2dp_latm_skip_stream_mux_config (r\<lparr>br_bit_pos := 1\<rparr>) else Some (0, r));
        if frame_length_type \<noteq> 0 then None else btc_a2dp_latm_get_payload_length_type0 r
      })"

definition btc_a2dp_latm_check_hdr_len :: "buf option \<Rightarrow> nat \<Rightarrow> nat option" where
  "btc_a2dp_latm_check_hdr_len inp in_len =
     (case inp of
        None \<Rightarrow> None
      | Some b \<Rightarrow> if in_len = 0 then None else map_option (\<lambda>(len, r). br_bit_pos r) (latm_header b in_len))"

fun latm_copy_octets :: "nat \<Rightarrow> btc_a2dp_latm_br_t \<Rightarrow> u8 list option" where
  "latm_copy_octets 0 r = Some []"
| "latm_copy_octets (Suc n) r =
     (case btc_a2dp_latm_get_bits r 8 of
        None \<Rightarrow> None
      | Some (v, r) \<Rightarrow> map_option ((#) (of_nat v)) (latm_copy_octets n r))"

text \<open>\<open>same\<close> is \<open>in == out\<close>; the result is \<open>*out_len\<close> with the output.\<close>

definition btc_a2dp_latm_extract_raw_data_block :: "buf option \<Rightarrow> nat \<Rightarrow> buf option \<Rightarrow> nat \<Rightarrow> bool \<Rightarrow> (nat \<times> buf) option" where
  "btc_a2dp_latm_extract_raw_data_block inp in_len out out_cap same =
     (case (inp, out) of
        (Some b, Some out) \<Rightarrow>
          if in_len = 0 \<or> same then None
          else do {
            (payload_len_bytes, r) \<leftarrow> latm_header b in_len;
            if payload_len_bytes > out_cap then None
            else if latm_bits_left r < payload_len_bytes * 8 then None
            else if br_bit_pos r mod 8 = 0
            then
              let off = br_bit_pos r div 8
              in if off + payload_len_bytes > in_len then None
                 else Some (payload_len_bytes, memcpy out (\<lambda>i. b (off + i)) payload_len_bytes)
            else do {
              xs \<leftarrow> latm_copy_octets payload_len_bytes r;
              Some (payload_len_bytes, store out 0 xs)
            }
          }
      | _ \<Rightarrow> None)"

subsection \<open>Only the input is read\<close>

text \<open>Two readers at the same place of inputs that agree.\<close>

definition br_twin :: "nat \<Rightarrow> btc_a2dp_latm_br_t \<Rightarrow> btc_a2dp_latm_br_t \<Rightarrow> bool" where
  "br_twin n r r' =
     (br_byte_len r = n \<and> br_byte_len r' = n \<and> br_bit_pos r' = br_bit_pos r \<and> buf_agree n (br_buf r) (br_buf r'))"

lemma bits_total_twin [transfer_rule]: "rel_fun (br_twin n) (=) btc_a2dp_latm_bits_total btc_a2dp_latm_bits_total"
  by (simp add: rel_fun_def br_twin_def btc_a2dp_latm_bits_total_def)

lemma bit_pos_twin [transfer_rule]: "rel_fun (br_twin n) (=) br_bit_pos br_bit_pos"
  by (simp add: rel_fun_def br_twin_def)

lemma bits_left_twin [transfer_rule]: "rel_fun (br_twin n) (=) latm_bits_left latm_bits_left"
  unfolding latm_bits_left_def by transfer_prover

lemma get1_twin [transfer_rule]: "rel_fun (br_twin n) (rel_option (rel_prod (=) (br_twin n))) btc_a2dp_latm_get1 btc_a2dp_latm_get1"
proof (rule rel_funI)
  fix r r' assume t: "br_twin n r r'"
  have "bit_at (br_buf r) (br_bit_pos r) = bit_at (br_buf r') (br_bit_pos r)" if "br_bit_pos r < btc_a2dp_latm_bits_total r"
  proof -
    have "btc_a2dp_latm_bits_total r \<le> 8 * n"
      using t mod_less_eq_dividend [of "n * 8" "2 ^ 32"] by (simp add: btc_a2dp_latm_bits_total_def br_twin_def)
    with that t show ?thesis by (intro bit_at_agree [of n]) (auto simp: br_twin_def)
  qed
  with t show "rel_option (rel_prod (=) (br_twin n)) (btc_a2dp_latm_get1 r) (btc_a2dp_latm_get1 r')"
    by (simp add: get1_eq br_twin_def btc_a2dp_latm_bits_total_def)
qed

lemma bits_loop_twin [transfer_rule]:
  "rel_fun (=) (rel_fun (=) (rel_fun (br_twin n) (rel_option (rel_prod (=) (br_twin n))))) latm_bits_loop latm_bits_loop"
proof -
  have "br_twin n r r' \<Longrightarrow> rel_option (rel_prod (=) (br_twin n)) (latm_bits_loop k v r) (latm_bits_loop k v r')" for k v r r'
  proof (induction k arbitrary: v r r')
    case (Suc k)
    have "rel_option (rel_prod (=) (br_twin n)) (btc_a2dp_latm_get1 r) (btc_a2dp_latm_get1 r')"
      using get1_twin Suc.prems by (auto simp: rel_fun_def)
    then show ?case using Suc.IH by (auto split: option.splits elim!: option.rel_cases)
  qed simp
  then show ?thesis by (auto simp: rel_fun_def)
qed

lemma get_bits_twin [transfer_rule]:
  "rel_fun (br_twin n) (rel_fun (=) (rel_option (rel_prod (=) (br_twin n)))) btc_a2dp_latm_get_bits btc_a2dp_latm_get_bits"
  unfolding btc_a2dp_latm_get_bits_def by transfer_prover

lemma get_value_twin [transfer_rule]:
  "rel_fun (br_twin n) (rel_option (rel_prod (=) (br_twin n))) btc_a2dp_latm_get_value btc_a2dp_latm_get_value"
  unfolding btc_a2dp_latm_get_value_def Let_def by transfer_prover

lemma skip_bits_twin [transfer_rule]:
  "rel_fun (br_twin n) (rel_fun (=) (rel_option (br_twin n))) btc_a2dp_latm_skip_bits btc_a2dp_latm_skip_bits"
  by (auto simp: rel_fun_def skip_bits_eq br_twin_def btc_a2dp_latm_bits_total_def)

lemma object_type_twin [transfer_rule]: "rel_fun (br_twin n) (rel_option (rel_prod (=) (br_twin n))) latm_object_type latm_object_type"
  unfolding latm_object_type_def by transfer_prover

lemma sf_index_twin [transfer_rule]: "rel_fun (br_twin n) (rel_option (br_twin n)) latm_sf_index latm_sf_index"
  unfolding latm_sf_index_def by transfer_prover

lemma skip_ga_twin [transfer_rule]: "rel_fun (br_twin n) (rel_option (br_twin n)) latm_skip_ga_specific latm_skip_ga_specific"
  unfolding latm_skip_ga_specific_def by transfer_prover

lemma sync_next_twin [transfer_rule]: "rel_fun (br_twin n) (rel_option (rel_prod (=) (br_twin n))) latm_sync_next latm_sync_next"
  unfolding latm_sync_next_def by transfer_prover

lemma sync_sbr_twin [transfer_rule]: "rel_fun (br_twin n) (rel_option (rel_prod (=) (br_twin n))) latm_sync_sbr latm_sync_sbr"
  unfolding latm_sync_sbr_def by transfer_prover

lemma sync_step_twin [transfer_rule]: "rel_fun (br_twin n) (rel_option (rel_prod (=) (br_twin n))) latm_sync_step latm_sync_step"
  unfolding latm_sync_step_def by transfer_prover

lemma sync_scan_twin [transfer_rule]: "rel_fun (br_twin n) (rel_option (br_twin n)) latm_sync_scan latm_sync_scan"
proof -
  have "br_twin n r r' \<Longrightarrow> rel_option (br_twin n) (latm_sync_scan r) (latm_sync_scan r')" for r r'
  proof (induction r arbitrary: r' rule: latm_sync_scan.induct)
    case (1 r)
    have l: "latm_bits_left r' = latm_bits_left r" using bits_left_twin [of n] "1.prems" by (auto simp: rel_fun_def)
    have "rel_option (rel_prod (=) (br_twin n)) (latm_sync_step r) (latm_sync_step r')"
      using sync_step_twin [of n] "1.prems" by (auto simp: rel_fun_def)
    then show ?case
      using 1 l by (subst (1 2) latm_sync_scan.simps) (auto split: option.splits elim!: option.rel_cases)
  qed
  then show ?thesis by (auto simp: rel_fun_def)
qed

lemma skip_core_twin [transfer_rule]:
  "rel_fun (=) (rel_fun (br_twin n) (rel_option (rel_prod (=) (br_twin n)))) latm_skip_core latm_skip_core"
  unfolding latm_skip_core_def by transfer_prover

lemma skip_asc_twin [transfer_rule]:
  "rel_fun (br_twin n) (rel_option (br_twin n)) btc_a2dp_latm_skip_audio_specific_config btc_a2dp_latm_skip_audio_specific_config"
  unfolding btc_a2dp_latm_skip_audio_specific_config_def by transfer_prover

lemma other_data_twin [transfer_rule]: "rel_fun (br_twin n) (rel_option (br_twin n)) latm_other_data latm_other_data"
proof -
  have "br_twin n r r' \<Longrightarrow> rel_option (br_twin n) (latm_other_data r) (latm_other_data r')" for r r'
  proof (induction r arbitrary: r' rule: latm_other_data.induct)
    case (1 r)
    have l: "latm_bits_left r' = latm_bits_left r" using bits_left_twin [of n] "1.prems" by (auto simp: rel_fun_def)
    have g: "rel_option (rel_prod (=) (br_twin n)) (btc_a2dp_latm_get_bits r 1) (btc_a2dp_latm_get_bits r' 1)"
      using get_bits_twin [of n] "1.prems" by (auto simp: rel_fun_def)
    have s: "br_twin n a b \<Longrightarrow> rel_option (br_twin n) (btc_a2dp_latm_skip_bits a 8) (btc_a2dp_latm_skip_bits b 8)" for a b
      using skip_bits_twin [of n] by (auto simp: rel_fun_def)
    show ?case
    proof (cases "latm_bits_left r < 9 \<or> btc_a2dp_latm_get_bits r 1 = None")
      case True
      then show ?thesis using g l by (subst (1 2) latm_other_data.simps) (auto elim!: option.rel_cases)
    next
      case False
      then obtain e a b where ab: "btc_a2dp_latm_get_bits r 1 = Some (e, a)" "btc_a2dp_latm_get_bits r' 1 = Some (e, b)"
        "br_twin n a b" using g by (auto elim!: option.rel_cases)
      show ?thesis
        using False ab l s [OF ab(3)] 1
        by (subst (1 2) latm_other_data.simps) (auto split: option.splits elim!: option.rel_cases)
    qed
  qed
  then show ?thesis by (auto simp: rel_fun_def)
qed

lemma skip_frame_length_twin [transfer_rule]:
  "rel_fun (=) (rel_fun (br_twin n) (rel_option (br_twin n))) latm_skip_frame_length latm_skip_frame_length"
  unfolding latm_skip_frame_length_def by transfer_prover

lemma skip_other_data_twin [transfer_rule]:
  "rel_fun (=) (rel_fun (=) (rel_fun (br_twin n) (rel_option (br_twin n)))) latm_skip_other_data latm_skip_other_data"
  unfolding latm_skip_other_data_def by transfer_prover

lemma skip_mux_tail_twin [transfer_rule]:
  "rel_fun (=) (rel_fun (br_twin n) (rel_option (rel_prod (=) (br_twin n)))) latm_skip_mux_tail latm_skip_mux_tail"
  unfolding latm_skip_mux_tail_def by transfer_prover

lemma skip_mux_asc_twin [transfer_rule]:
  "rel_fun (=) (rel_fun (br_twin n) (rel_option (br_twin n))) latm_skip_mux_asc latm_skip_mux_asc"
  unfolding latm_skip_mux_asc_def by transfer_prover

lemma skip_smc_twin [transfer_rule]:
  "rel_fun (br_twin n) (rel_option (rel_prod (=) (br_twin n))) btc_a2dp_latm_skip_stream_mux_config btc_a2dp_latm_skip_stream_mux_config"
  unfolding btc_a2dp_latm_skip_stream_mux_config_def by transfer_prover

lemma payload_length_twin [transfer_rule]:
  "rel_fun (br_twin n) (rel_fun (=) (rel_fun (=) (rel_option (rel_prod (=) (br_twin n))))) latm_payload_length latm_payload_length"
proof -
  have "br_twin n r r' \<Longrightarrow> rel_option (rel_prod (=) (br_twin n)) (latm_payload_length r len k) (latm_payload_length r' len k)"
    for r r' len k
  proof (induction r len k arbitrary: r' rule: latm_payload_length.induct)
    case (1 r len k)
    have g: "rel_option (rel_prod (=) (br_twin n)) (btc_a2dp_latm_get_bits r 8) (btc_a2dp_latm_get_bits r' 8)"
      using get_bits_twin [of n] "1.prems" by (auto simp: rel_fun_def)
    show ?case
    proof (cases "btc_a2dp_latm_get_bits r 8")
      case None
      then show ?thesis using g by (subst (1 2) latm_payload_length.simps) (auto elim!: option.rel_cases)
    next
      case (Some x)
      then obtain v a b where ab: "btc_a2dp_latm_get_bits r 8 = Some (v, a)" "btc_a2dp_latm_get_bits r' 8 = Some (v, b)"
        "br_twin n a b" using g by (cases x) (auto elim!: option.rel_cases)
      show ?thesis using ab 1 by (subst (1 2) latm_payload_length.simps) auto
    qed
  qed
  then show ?thesis by (auto simp: rel_fun_def)
qed

lemma latm_header_twin:
  assumes "buf_agree n b b'"
  shows "rel_option (rel_prod (=) (br_twin n)) (latm_header b n) (latm_header b' n)"
proof -
  let ?r = "\<lparr>br_buf = b, br_byte_len = n, br_bit_pos = 0\<rparr>" and ?r' = "\<lparr>br_buf = b', br_byte_len = n, br_bit_pos = 0\<rparr>"
  have [transfer_rule]: "br_twin n ?r ?r'" using assms by (simp add: br_twin_def)
  have [transfer_rule]: "rel_fun (br_twin n) (br_twin n) (\<lambda>r. r\<lparr>br_bit_pos := 1\<rparr>) (\<lambda>r. r\<lparr>br_bit_pos := 1\<rparr>)"
    by (simp add: rel_fun_def br_twin_def)
  define set1 where "set1 = (\<lambda>r :: btc_a2dp_latm_br_t. r\<lparr>br_bit_pos := 1\<rparr>)"
  have [transfer_rule]: "rel_fun (br_twin n) (br_twin n) set1 set1" by (simp add: rel_fun_def br_twin_def set1_def)
  have s: "r\<lparr>br_bit_pos := 1\<rparr> = set1 r" for r by (simp add: set1_def)
  show ?thesis unfolding latm_header_def Let_def btc_a2dp_latm_get_payload_length_type0_def s by transfer_prover
qed

lemma copy_octets_twin [transfer_rule]: "rel_fun (=) (rel_fun (br_twin n) (=)) latm_copy_octets latm_copy_octets"
proof -
  have "br_twin n r r' \<Longrightarrow> latm_copy_octets k r = latm_copy_octets k r'" for k r r'
  proof (induction k arbitrary: r r')
    case (Suc k)
    have "rel_option (rel_prod (=) (br_twin n)) (btc_a2dp_latm_get_bits r 8) (btc_a2dp_latm_get_bits r' 8)"
      using get_bits_twin [of n] Suc.prems by (auto simp: rel_fun_def)
    then show ?case using Suc.IH by (auto split: option.splits elim!: option.rel_cases)
  qed simp
  then show ?thesis by (auto simp: rel_fun_def)
qed

lemma copy_octets_length: "latm_copy_octets n r = Some xs \<Longrightarrow> length xs = n"
  by (induction n arbitrary: r xs) (auto split: option.splits)

text \<open>
  C29 (bounds). What the sink takes out of a packet depends on the octets of the packet only, whatever lies
  behind them; the frame is no longer than the packet and the room it was given, and nothing behind the frame
  is written in the output.
\<close>

theorem latm_extract_local:
  assumes "buf_agree in_len b b'"
  shows "btc_a2dp_latm_check_hdr_len (Some b) in_len = btc_a2dp_latm_check_hdr_len (Some b') in_len \<and>
    btc_a2dp_latm_extract_raw_data_block (Some b) in_len out cap same =
      btc_a2dp_latm_extract_raw_data_block (Some b') in_len out cap same \<and>
    (\<forall>len dst. btc_a2dp_latm_extract_raw_data_block (Some b) in_len out cap same = Some (len, dst) \<longrightarrow>
      len \<le> in_len \<and> len \<le> cap \<and> (\<forall>out0. out = Some out0 \<longrightarrow> (\<forall>i\<ge>len. dst i = out0 i)))"
proof (intro conjI allI impI)
  note h = latm_header_twin [OF assms]
  show "btc_a2dp_latm_check_hdr_len (Some b) in_len = btc_a2dp_latm_check_hdr_len (Some b') in_len"
    using h by (auto simp: btc_a2dp_latm_check_hdr_len_def br_twin_def elim!: option.rel_cases)
  have m: "memcpy out0 (\<lambda>i. b (off + i)) k = memcpy out0 (\<lambda>i. b' (off + i)) k" if "off + k \<le> in_len" for out0 off k
    using assms that by (auto simp: memcpy_def buf_agree_iff)
  show "btc_a2dp_latm_extract_raw_data_block (Some b) in_len out cap same =
      btc_a2dp_latm_extract_raw_data_block (Some b') in_len out cap same"
  proof (cases out)
    case (Some out0)
    from h show ?thesis
    proof (cases rule: option.rel_cases)
      case (Some x y)
      obtain k r r' where xy: "x = (k, r)" "y = (k, r')" and t: "br_twin in_len r r'"
        using Some(3) by (cases x, cases y) auto
      have e: "latm_bits_left r' = latm_bits_left r" "br_bit_pos r' = br_bit_pos r"
        using t bits_left_twin [of in_len] by (auto simp: rel_fun_def br_twin_def)
      have c: "latm_copy_octets n r' = latm_copy_octets n r" for n
        using copy_octets_twin [of in_len] t by (auto simp: rel_fun_def)
      show ?thesis
        using Some xy by (simp add: btc_a2dp_latm_extract_raw_data_block_def e c m Let_def split: option.split)
    qed (simp add: btc_a2dp_latm_extract_raw_data_block_def split: option.split)
  qed (simp add: btc_a2dp_latm_extract_raw_data_block_def)
next
  fix len dst
  assume "btc_a2dp_latm_extract_raw_data_block (Some b) in_len out cap same = Some (len, dst)"
  then obtain out0 r where o: "out = Some out0" and h: "latm_header b in_len = Some (len, r)" and "len \<le> cap"
    and l: "len * 8 \<le> latm_bits_left r"
    and w: "dst = memcpy out0 (\<lambda>i. b (br_bit_pos r div 8 + i)) len \<or>
      (\<exists>xs. latm_copy_octets len r = Some xs \<and> dst = store out0 0 xs)"
    by (auto simp: btc_a2dp_latm_extract_raw_data_block_def Let_def Option.bind_eq_Some_conv split: option.splits if_splits)
  show "len \<le> cap" by fact
  have "br_byte_len r = in_len" using latm_header_twin [of in_len b b] h by (auto simp: br_twin_def)
  then have "latm_bits_left r \<le> in_len * 8"
    using mod_less_eq_dividend [of "in_len * 8" "2 ^ 32"] by (simp add: latm_bits_left_def btc_a2dp_latm_bits_total_def)
  with l show "len \<le> in_len" by simp
  show "dst i = out1 i" if "out = Some out1" "len \<le> i" for out1 i
    using w that o by (auto simp: memcpy_def store_0_beyond dest: copy_octets_length)
qed

subsection \<open>A configuration in the packet\<close>

text \<open>The scan for sync extensions does not stop before the end of the packet: its loop is left early only
  when a read of bits that are there fails.\<close>

lemma sync_step_goes_on:
  assumes "latm_sync_step r = Some (False, r')" shows "latm_bits_left r \<le> 15"
proof (rule ccontr)
  assume "\<not> latm_bits_left r \<le> 15"
  then have l: "br_bit_pos r + 15 < btc_a2dp_latm_bits_total r" by (simp add: latm_bits_left_def)
  have n: "latm_sync_next r \<noteq> Some (False, r')" using l by (auto simp: latm_sync_next_def get1_eq)
  have s: "latm_sync_sbr q \<noteq> Some (False, r')" for q
    by (auto simp: latm_sync_sbr_def Option.bind_eq_Some_conv get_bits_eq latm_bits_left_def split: if_splits option.splits)
  show False
    using assms l n s by (auto simp: latm_sync_step_def Option.bind_eq_Some_conv get_bits_eq split: if_splits option.splits)
qed

lemma sync_scan_to_end: "latm_sync_scan r = Some r' \<Longrightarrow> latm_bits_left r' \<le> 15"
proof (induction r rule: latm_sync_scan.induct)
  case (1 r)
  show ?case
  proof (cases "latm_bits_left r > 15")
    case True
    with "1.prems" obtain go q where s: "latm_sync_step r = Some (go, q)"
      and q: "if go then latm_sync_scan q = Some r' else q = r'"
      by (subst (asm) latm_sync_scan.simps) (auto split: option.splits if_splits)
    have go: "go" using s sync_step_goes_on [of r q] True by (cases go) auto
    with q have "latm_sync_scan q = Some r'" by simp
    from "1.IH" [OF True s refl go this] show ?thesis .
  next
    case False
    with "1.prems" show ?thesis by (subst (asm) latm_sync_scan.simps) simp
  qed
qed

lemma skip_asc_to_end:
  assumes "btc_a2dp_latm_skip_audio_specific_config r = Some r'"
    and "\<And>q. latm_object_type r \<noteq> Some (39, q)"
  shows "latm_bits_left r' \<le> 15"
  using assms unfolding btc_a2dp_latm_skip_audio_specific_config_def
  by (auto simp: Option.bind_eq_Some_conv split: if_splits dest!: sync_scan_to_end)

lemma get_bits_left: "btc_a2dp_latm_get_bits r n = Some (x, r') \<Longrightarrow> latm_bits_left r' + n = latm_bits_left r"
  using get_bits_onward [of r n x r'] onward_total [of r r'] by (auto simp: latm_bits_left_def onward_def)

lemma skip_bits_left: "btc_a2dp_latm_skip_bits r n = Some r' \<Longrightarrow> latm_bits_left r' + n = latm_bits_left r"
  using skip_bits_onward [of r n r'] onward_total [of r r'] by (auto simp: latm_bits_left_def onward_def)

lemma onward_left: "onward r r' \<Longrightarrow> latm_bits_left r' \<le> latm_bits_left r"
  using onward_total [of r r'] by (auto simp: latm_bits_left_def onward_def)

lemma other_data_left: "latm_other_data r = Some r' \<Longrightarrow> latm_bits_left r' \<le> latm_bits_left r"
proof (induction r rule: latm_other_data.induct)
  case (1 r)
  show ?case
  proof (cases "latm_bits_left r < 9")
    case False
    from "1.prems" False obtain e a q where g: "btc_a2dp_latm_get_bits r 1 = Some (e, a)" "btc_a2dp_latm_skip_bits a 8 = Some q"
      and q: "if e \<noteq> 0 then latm_other_data q = Some r' else q = r'"
      by (subst (asm) latm_other_data.simps) (auto split: option.splits if_splits)
    have l: "latm_bits_left q \<le> latm_bits_left r" using get_bits_left [OF g(1)] skip_bits_left [OF g(2)] by simp
    show ?thesis
    proof (cases "e = 0")
      case True
      with q l show ?thesis by simp
    next
      case False
      with q have "latm_other_data q = Some r'" by simp
      from "1.IH" [OF \<open>\<not> latm_bits_left r < 9\<close> g(1) refl g(2) False this] l show ?thesis by simp
    qed
  qed (use "1.prems" in \<open>simp add: latm_other_data.simps\<close>)
qed

lemma skip_other_data_left: "latm_skip_other_data v x c = Some d \<Longrightarrow> latm_bits_left d \<le> latm_bits_left c"
  unfolding latm_skip_other_data_def
  by (auto simp: Option.bind_eq_Some_conv split: if_splits
      dest!: get_value_onward skip_bits_left other_data_left dest: onward_left)

lemma mux_tail_short:
  assumes "latm_skip_mux_tail v r = Some (0, r')" shows "latm_bits_left r' + 13 \<le> latm_bits_left r"
proof -
  obtain a c d e q x y where g: "btc_a2dp_latm_get_bits r 3 = Some (0, a)" "latm_skip_frame_length 0 a = Some c"
      "btc_a2dp_latm_get_bits c 1 = Some (x, d)" "latm_skip_other_data v x d = Some e" "btc_a2dp_latm_get_bits e 1 = Some (y, q)"
    and y: "(if y \<noteq> 0 then btc_a2dp_latm_skip_bits q 8 else Some q) = Some r'"
    using assms unfolding latm_skip_mux_tail_def
    by (auto simp: Option.bind_eq_Some_conv simp del: not_gr_zero neq0_conv)
  show ?thesis
    using get_bits_left [OF g(1)] g(2) get_bits_left [OF g(3)] skip_other_data_left [OF g(4)] get_bits_left [OF g(5)] y
    by (auto simp: latm_skip_frame_length_def split: if_splits dest!: skip_bits_left)
qed

lemma payload_length_left: "latm_payload_length r len k = Some (n, r') \<Longrightarrow> latm_bits_left r' + 8 \<le> latm_bits_left r"
proof (induction r len k rule: latm_payload_length.induct)
  case (1 r len k)
  from "1.prems" obtain t q where g: "btc_a2dp_latm_get_bits r 8 = Some (t, q)"
    by (subst (asm) latm_payload_length.simps) (auto split: option.splits)
  have l: "latm_bits_left q + 8 = latm_bits_left r" by (rule get_bits_left [OF g])
  show ?case
  proof (cases "t = 255")
    case True
    with "1.prems" g have k: "\<not> k + 1 > 32" "latm_payload_length q (len + t) (k + 1) = Some (n, r')"
      by (subst (asm) latm_payload_length.simps; simp split: if_splits)+
    show ?thesis using "1.IH" [OF g refl _ k] True l by simp
  next
    case False
    with "1.prems" g have "r' = q" by (subst (asm) latm_payload_length.simps) simp
    with l show ?thesis by simp
  qed
qed

text \<open>
  C28 (error). An audio mux element whose stream mux configuration has \<open>audioMuxVersion\<close> 0, so that its
  AudioSpecificConfig stands in the element without a length, is refused by the sink, however long it is and
  whatever configuration and frame it carries, unless the audio object type is 39 (AAC-ELD): the scan for sync
  extensions runs on through the rest of the element and leaves too few bits for what follows.
\<close>

theorem latm_inline_config_rejected:
  assumes "\<not> bit_at b 0" "\<not> bit_at b 1" "\<not> (bits_value b 16 5 = 31 \<and> bits_value b 21 6 = 7)"
  shows "btc_a2dp_latm_check_hdr_len (Some b) in_len = None \<and>
    btc_a2dp_latm_extract_raw_data_block (Some b) in_len out cap same = None"
proof -
  have "latm_header b in_len = None"
  proof (rule ccontr)
    assume "latm_header b in_len \<noteq> None"
    then obtain n r' where "latm_header b in_len = Some (n, r')" by auto
    then obtain r1 r2 where r1: "r1 = \<lparr>br_buf = b, br_byte_len = in_len, br_bit_pos = 1\<rparr>"
      and m: "btc_a2dp_latm_skip_stream_mux_config r1 = Some (0, r2)"
      and p: "btc_a2dp_latm_get_payload_length_type0 r2 = Some (n, r')"
      using assms(1) by (auto simp: latm_header_def Let_def Option.bind_eq_Some_conv get_bits_eq split: if_splits)
    obtain c where c: "latm_skip_mux_asc 0 (r1\<lparr>br_bit_pos := 16\<rparr>) = Some c" and t: "latm_skip_mux_tail 0 c = Some (0, r2)"
      using m assms(2) unfolding r1
      by (auto simp: btc_a2dp_latm_skip_stream_mux_config_def Option.bind_eq_Some_conv get_bits_eq skip_bits_eq split: if_splits)
    have "latm_object_type (r1\<lparr>br_bit_pos := 16\<rparr>) \<noteq> Some (39, q)" for q
      using assms(3) bits_value_less [of b 16 5] unfolding r1 latm_object_type_def by (auto simp: Option.bind_eq_Some_conv get_bits_eq split: if_splits)
    with c have "latm_bits_left c \<le> 15" by (intro skip_asc_to_end) (simp_all add: latm_skip_mux_asc_def)
    with mux_tail_short [OF t] have "latm_bits_left r2 \<le> 2" by simp
    with payload_length_left [of r2 0 0 n r'] p show False by (simp add: btc_a2dp_latm_get_payload_length_type0_def)
  qed
  then show ?thesis
    by (simp add: btc_a2dp_latm_check_hdr_len_def btc_a2dp_latm_extract_raw_data_block_def split: option.split)
qed

lemma latm_extract_local_witness:
  "btc_a2dp_latm_extract_raw_data_block (Some (bytes [0x80, 0xD5, 0x80])) 3 (Some (bytes [])) 4 False =
     btc_a2dp_latm_extract_raw_data_block (Some (bytes [0x80, 0xD5, 0x80, 9])) 3 (Some (bytes [])) 4 False \<and>
   map_option (\<lambda>(n, d). (n, d 0)) (btc_a2dp_latm_extract_raw_data_block (Some (bytes [0x80, 0xD5, 0x80])) 3 (Some (bytes [])) 4 False) =
     Some (1, 0xAB)"
proof
  have "buf_agree 3 (bytes [0x80, 0xD5, 0x80]) (bytes [0x80, 0xD5, 0x80, 9])" by code_simp
  then show "btc_a2dp_latm_extract_raw_data_block (Some (bytes [0x80, 0xD5, 0x80])) 3 (Some (bytes [])) 4 False =
     btc_a2dp_latm_extract_raw_data_block (Some (bytes [0x80, 0xD5, 0x80, 9])) 3 (Some (bytes [])) 4 False"
    using latm_extract_local by blast
  let ?b = "bytes [0x80, 0xD5, 0x80]"
  have v: "bits_value ?b 0 1 = 1" "bits_value ?b 1 8 = 1" "bits_value ?b 9 8 = 0xAB" by code_simp+
  have "latm_header ?b 3 = Some (1, \<lparr>br_buf = ?b, br_byte_len = 3, br_bit_pos = 9\<rparr>)"
    using v by (simp add: latm_header_def btc_a2dp_latm_get_payload_length_type0_def latm_payload_length.simps get_bits_eq
        btc_a2dp_latm_bits_total_def del: bits_value.simps)
  then show "map_option (\<lambda>(n, d). (n, d 0)) (btc_a2dp_latm_extract_raw_data_block (Some ?b) 3 (Some (bytes [])) 4 False) =
      Some (1, 0xAB)"
    using v by (simp add: btc_a2dp_latm_extract_raw_data_block_def latm_bits_left_def btc_a2dp_latm_bits_total_def get_bits_eq
        del: bits_value.simps)
qed

lemma latm_inline_config_rejected_witness:
  "btc_a2dp_latm_check_hdr_len (Some (bytes [0x20, 0, 0x12, 0x10, 0x18, 0, 0x10, 0x89, 0x10])) 9 = None \<and>
   btc_a2dp_latm_extract_raw_data_block (Some (bytes [0x20, 0, 0x12, 0x10, 0x18, 0, 0x10, 0x89, 0x10])) 9 (Some (bytes [])) 4 False = None"
proof (rule latm_inline_config_rejected)
  show "\<not> bit_at (bytes [0x20, 0, 0x12, 0x10, 0x18, 0, 0x10, 0x89, 0x10]) 0" by code_simp
  show "\<not> bit_at (bytes [0x20, 0, 0x12, 0x10, 0x18, 0, 0x10, 0x89, 0x10]) 1" by code_simp
  show "\<not> (bits_value (bytes [0x20, 0, 0x12, 0x10, 0x18, 0, 0x10, 0x89, 0x10]) 16 5 = 31 \<and>
      bits_value (bytes [0x20, 0, 0x12, 0x10, 0x18, 0, 0x10, 0x89, 0x10]) 21 6 = 7)" by code_simp
qed

end
