(* ===== verification/Latm_Build.thy ===== *)
theory Latm_Build
  imports Latm_Raw
begin

text \<open>
  btc/profile/std/a2dp/btc\_a2dp\_latm\_raw.c, the half of the source: an AudioMuxElement with a stream mux
  configuration, the length of the payload and one AAC frame is built from the M24 element that was agreed on.
  The writer puts bits into a cleared buffer; what is written is described by lists of bits, and the reader of
  the sink takes the frame out again.
\<close>

subsection \<open>The writer\<close>

record btc_a2dp_latm_bw_t =
  bw_buf :: "buf option"
  bw_cap :: nat
  bw_bit_pos :: nat

definition btc_a2dp_latm_bw_bits_written :: "btc_a2dp_latm_bw_t \<Rightarrow> nat" where
  "btc_a2dp_latm_bw_bits_written w = bw_bit_pos w"

definition btc_a2dp_latm_bw_init :: "buf option \<Rightarrow> nat \<Rightarrow> btc_a2dp_latm_bw_t" where
  "btc_a2dp_latm_bw_init p cap =
     \<lparr>bw_buf = (if cap > 0 then map_option (\<lambda>m. memcpy m (\<lambda>i. 0) cap) p else p), bw_cap = cap, bw_bit_pos = 0\<rparr>"

definition btc_a2dp_latm_put1 :: "btc_a2dp_latm_bw_t \<Rightarrow> nat \<Rightarrow> btc_a2dp_latm_bw_t option" where
  "btc_a2dp_latm_put1 w v =
     (let need = (bw_bit_pos w + 8) div 8
      in case bw_buf w of
           None \<Rightarrow> None
         | Some m \<Rightarrow>
             if need > bw_cap w then None
             else
               let byte = bw_bit_pos w div 8;
                   bit_in_byte = 7 - bw_bit_pos w mod 8
               in Some (w\<lparr>bw_buf := Some (if v \<noteq> 0 then m(byte := m byte OR push_bit bit_in_byte 1) else m),
                          bw_bit_pos := bw_bit_pos w + 1\<rparr>))"

text \<open>The loop of \<open>btc_a2dp_latm_put_bits\<close>; the number is that of the rounds left, one more than the shift.\<close>

fun latm_put_loop :: "nat \<Rightarrow> nat \<Rightarrow> btc_a2dp_latm_bw_t \<Rightarrow> btc_a2dp_latm_bw_t option" where
  "latm_put_loop 0 v w = Some w"
| "latm_put_loop (Suc sh) v w =
     (case btc_a2dp_latm_put1 w (drop_bit sh v AND 1) of None \<Rightarrow> None | Some w \<Rightarrow> latm_put_loop sh v w)"

definition btc_a2dp_latm_put_bits :: "btc_a2dp_latm_bw_t \<Rightarrow> nat \<Rightarrow> nat \<Rightarrow> btc_a2dp_latm_bw_t option" where
  "btc_a2dp_latm_put_bits w n v = (if n = 0 \<or> n > 32 then None else latm_put_loop n v w)"

fun latm_put_octets :: "nat \<Rightarrow> nat \<Rightarrow> btc_a2dp_latm_bw_t \<Rightarrow> btc_a2dp_latm_bw_t option" where
  "latm_put_octets 0 v w = Some w"
| "latm_put_octets (Suc k) v w =
     (case btc_a2dp_latm_put_bits w 8 (drop_bit (k * 8) v AND 0xFF) of
        None \<Rightarrow> None
      | Some w \<Rightarrow> latm_put_octets k v w)"

definition btc_a2dp_latm_put_value :: "btc_a2dp_latm_bw_t \<Rightarrow> nat \<Rightarrow> btc_a2dp_latm_bw_t option" where
  "btc_a2dp_latm_put_value w v =
     (case find (\<lambda>l. v \<le> (if l + 1 \<ge> 4 then 0xffffffff else push_bit ((l + 1) * 8) 1 - 1)) [0..<4] of
        None \<Rightarrow> None
      | Some l \<Rightarrow> Option.bind (btc_a2dp_latm_put_bits w 2 l) (latm_put_octets (l + 1) v))"

subsection \<open>The M24 element\<close>

function btc_a2dp_latm_popcount_u :: "u32 \<Rightarrow> nat" where
  "btc_a2dp_latm_popcount_u v = (if v \<noteq> 0 then Suc (btc_a2dp_latm_popcount_u (v AND (v - 1))) else 0)"
  by pat_completeness auto
termination
proof (relation "measure unat", simp)
  fix v :: u32 assume "v \<noteq> 0"
  moreover have "v AND (v - 1) \<le> v - 1" by (rule word_and_le1)
  ultimately show "(v AND (v - 1), v) \<in> measure unat"
    by (simp add: word_le_nat_alt) (metis One_nat_def diff_Suc_less le_less_trans unat_gt_0 unat_minus_one)
qed

declare btc_a2dp_latm_popcount_u.simps [simp del]

record btc_a2dp_latm_m24_asc_t =
  asc_obj :: nat
  he_wrapper :: nat

definition btc_a2dp_latm_m24_cie0_to_asc_profile :: "u8 \<Rightarrow> btc_a2dp_latm_m24_asc_t option" where
  "btc_a2dp_latm_m24_cie0_to_asc_profile cie0 =
     (let m_bits = ucast (drop_bit 1 cie0) AND 0x7F
      in if m_bits = 0 \<or> btc_a2dp_latm_popcount_u m_bits \<noteq> 1 then None
         else if cie0 AND 0x80 \<noteq> 0 then Some \<lparr>asc_obj = 2, he_wrapper = 0\<rparr>
         else if cie0 AND 0x40 \<noteq> 0 then Some \<lparr>asc_obj = 2, he_wrapper = 0\<rparr>
         else if cie0 AND 0x20 \<noteq> 0 then Some \<lparr>asc_obj = 4, he_wrapper = 0\<rparr>
         else if cie0 AND 0x10 \<noteq> 0 then Some \<lparr>asc_obj = 6, he_wrapper = 0\<rparr>
         else if cie0 AND 0x08 \<noteq> 0 then Some \<lparr>asc_obj = 2, he_wrapper = 5\<rparr>
         else if cie0 AND 0x04 \<noteq> 0 then Some \<lparr>asc_obj = 2, he_wrapper = 29\<rparr>
         else if cie0 AND 0x02 \<noteq> 0 then Some \<lparr>asc_obj = 39, he_wrapper = 0\<rparr>
         else None)"

definition btc_a2dp_latm_m24_sample_rate_hz :: "buf \<Rightarrow> nat option" where
  "btc_a2dp_latm_m24_sample_rate_hz cie =
     (let sf1 = cie 1;
          sf2_hi = drop_bit 4 (cie 2 AND A2D_M24_IE_SAMP_FREQ2_MSK);
          c1 = btc_a2dp_latm_popcount_u (ucast sf1);
          c2 = btc_a2dp_latm_popcount_u (ucast sf2_hi)
      in if c1 + c2 \<noteq> 1 then None
         else if c2 \<noteq> 0 then
           (if sf2_hi = 8 then Some 48000
            else if sf2_hi = 4 then Some 64000
            else if sf2_hi = 2 then Some 88200
            else if sf2_hi = 1 then Some 96000
            else None)
         else if sf1 AND 0x80 \<noteq> 0 then Some 8000
         else if sf1 AND 0x40 \<noteq> 0 then Some 11025
         else if sf1 AND 0x20 \<noteq> 0 then Some 12000
         else if sf1 AND 0x10 \<noteq> 0 then Some 16000
         else if sf1 AND 0x08 \<noteq> 0 then Some 22050
         else if sf1 AND 0x04 \<noteq> 0 then Some 24000
         else if sf1 AND 0x02 \<noteq> 0 then Some 32000
         else if sf1 AND 0x01 \<noteq> 0 then Some 44100
         else None)"

definition btc_a2dp_latm_sf_index_to_hz :: "nat \<Rightarrow> nat option" where
  "btc_a2dp_latm_sf_index_to_hz sf_index =
     map_of [(0, 96000), (1, 88200), (2, 64000), (3, 48000), (4, 44100), (5, 32000), (6, 24000), (7, 22050),
       (8, 16000), (9, 12000), (10, 11025), (11, 8000)] sf_index"

definition btc_a2dp_latm_hz_to_sf_index :: "nat \<Rightarrow> nat option" where
  "btc_a2dp_latm_hz_to_sf_index hz =
     map_of [(96000, 0), (88200, 1), (64000, 2), (48000, 3), (44100, 4), (32000, 5), (24000, 6), (22050, 7),
       (16000, 8), (12000, 9), (11025, 10), (8000, 11)] hz"

definition btc_a2dp_latm_m24_channel_config :: "buf \<Rightarrow> nat option" where
  "btc_a2dp_latm_m24_channel_config cie =
     (let ch = cie 2 AND A2D_M24_IE_CH_MSK
      in if ch = 0 \<or> btc_a2dp_latm_popcount_u (ucast ch) \<noteq> 1 then None
         else if ch = 8 then Some 1
         else if ch = 4 then Some 2
         else if ch = 2 then Some 6
         else if ch = 1 then Some 7
         else None)"

subsection \<open>The configuration\<close>

definition btc_a2dp_latm_asc_object_type_bits :: "nat \<Rightarrow> nat" where
  "btc_a2dp_latm_asc_object_type_bits obj = (if obj \<le> 30 then 5 else 11)"

definition btc_a2dp_latm_put_asc_object_type :: "btc_a2dp_latm_bw_t \<Rightarrow> nat \<Rightarrow> btc_a2dp_latm_bw_t option" where
  "btc_a2dp_latm_put_asc_object_type w obj =
     (if obj \<le> 30 then btc_a2dp_latm_put_bits w 5 obj
      else if obj > 63 then None
      else do {
        w \<leftarrow> btc_a2dp_latm_put_bits w 5 31;
        btc_a2dp_latm_put_bits w 6 (obj - 32)
      })"

definition btc_a2dp_latm_sf_index_core_from_output :: "nat \<Rightarrow> nat option" where
  "btc_a2dp_latm_sf_index_core_from_output output_sf_index =
     (case btc_a2dp_latm_sf_index_to_hz output_sf_index of
        None \<Rightarrow> None
      | Some hz \<Rightarrow> if hz < 2 then None else btc_a2dp_latm_hz_to_sf_index (hz div 2))"

definition btc_a2dp_latm_put_ga_specific_config :: "btc_a2dp_latm_bw_t \<Rightarrow> nat \<Rightarrow> btc_a2dp_latm_bw_t option" where
  "btc_a2dp_latm_put_ga_specific_config w depends_on_core_coder = do {
     w \<leftarrow> btc_a2dp_latm_put_bits w 1 0;
     w \<leftarrow> btc_a2dp_latm_put_bits w 1 depends_on_core_coder;
     btc_a2dp_latm_put_bits w 1 0
   }"

definition btc_a2dp_latm_bits_pad_to_byte :: "nat \<Rightarrow> nat" where
  "btc_a2dp_latm_bits_pad_to_byte bits = (let rem = bits mod 8 in if rem = 0 then 0 else 8 - rem)"

definition btc_a2dp_latm_asc_bits_for_profile :: "btc_a2dp_latm_m24_asc_t \<Rightarrow> nat" where
  "btc_a2dp_latm_asc_bits_for_profile prof =
     (if he_wrapper prof \<noteq> 0
      then btc_a2dp_latm_asc_object_type_bits (he_wrapper prof) + 4 + 4 + 4 +
           btc_a2dp_latm_asc_object_type_bits (asc_obj prof) + 3
      else if asc_obj prof = 39 then btc_a2dp_latm_asc_object_type_bits 39 + 4 + 4 + 5 + 2
      else btc_a2dp_latm_asc_object_type_bits (asc_obj prof) + 4 + 4 + 3)"

definition btc_a2dp_latm_write_audio_specific_config ::
  "btc_a2dp_latm_bw_t \<Rightarrow> btc_a2dp_latm_m24_asc_t \<Rightarrow> nat \<Rightarrow> nat \<Rightarrow> btc_a2dp_latm_bw_t option" where
  "btc_a2dp_latm_write_audio_specific_config w prof sf_index ch_cfg =
     (if sf_index = 15 then None
      else if he_wrapper prof \<noteq> 0 then do {
        core_sf \<leftarrow> btc_a2dp_latm_sf_index_core_from_output sf_index;
        w \<leftarrow> btc_a2dp_latm_put_asc_object_type w (he_wrapper prof);
        w \<leftarrow> btc_a2dp_latm_put_bits w 4 core_sf;
        w \<leftarrow> btc_a2dp_latm_put_bits w 4 ch_cfg;
        w \<leftarrow> btc_a2dp_latm_put_bits w 4 sf_index;
        w \<leftarrow> btc_a2dp_latm_put_asc_object_type w (asc_obj prof);
        btc_a2dp_latm_put_ga_specific_config w 0
      }
      else if asc_obj prof = 39 then do {
        w \<leftarrow> btc_a2dp_latm_put_asc_object_type w 39;
        w \<leftarrow> btc_a2dp_latm_put_bits w 4 sf_index;
        w \<leftarrow> btc_a2dp_latm_put_bits w 4 ch_cfg;
        w \<leftarrow> btc_a2dp_latm_put_bits w 5 0;
        btc_a2dp_latm_put_bits w 2 0
      }
      else do {
        w \<leftarrow> btc_a2dp_latm_put_asc_object_type w (asc_obj prof);
        w \<leftarrow> btc_a2dp_latm_put_bits w 4 sf_index;
        w \<leftarrow> btc_a2dp_latm_put_bits w 4 ch_cfg;
        btc_a2dp_latm_put_ga_specific_config w 0
      })"

text \<open>
  \<open>btc_a2dp_latm_write_stream_mux_config\<close>: what is read from the element, the version, the configuration and
  what follows it.
\<close>

definition latm_m24_choice :: "buf \<Rightarrow> (btc_a2dp_latm_m24_asc_t \<times> nat \<times> nat) option" where
  "latm_m24_choice cie = do {
     prof \<leftarrow> btc_a2dp_latm_m24_cie0_to_asc_profile (cie 0);
     hz \<leftarrow> btc_a2dp_latm_m24_sample_rate_hz cie;
     sf_index \<leftarrow> btc_a2dp_latm_hz_to_sf_index hz;
     ch_cfg \<leftarrow> btc_a2dp_latm_m24_channel_config cie;
     Some (prof, sf_index, ch_cfg)
   }"

definition latm_put_version :: "btc_a2dp_latm_bw_t \<Rightarrow> nat \<Rightarrow> nat \<Rightarrow> nat \<Rightarrow> btc_a2dp_latm_bw_t option" where
  "latm_put_version w audio_mux_version audio_mux_version_a tara_buffer_fullness = do {
     w \<leftarrow> btc_a2dp_latm_put_bits w 1 audio_mux_version;
     if audio_mux_version \<noteq> 0 then do {
       w \<leftarrow> btc_a2dp_latm_put_bits w 1 audio_mux_version_a;
       btc_a2dp_latm_put_value w tara_buffer_fullness
     } else Some w
   }"

definition latm_put_asc ::
  "btc_a2dp_latm_bw_t \<Rightarrow> btc_a2dp_latm_m24_asc_t \<Rightarrow> nat \<Rightarrow> nat \<Rightarrow> nat \<Rightarrow> btc_a2dp_latm_bw_t option" where
  "latm_put_asc w prof sf_index ch_cfg audio_mux_version =
     (let asc_bits = btc_a2dp_latm_asc_bits_for_profile prof
      in if audio_mux_version = 0 then btc_a2dp_latm_write_audio_specific_config w prof sf_index ch_cfg
         else
           let asc_pad = btc_a2dp_latm_bits_pad_to_byte (asc_bits + 2);
               asc_bits_ba = asc_bits + asc_pad
           in do {
                w \<leftarrow> btc_a2dp_latm_put_value w asc_bits_ba;
                w \<leftarrow> btc_a2dp_latm_write_audio_specific_config w prof sf_index ch_cfg;
                if asc_pad \<noteq> 0 then btc_a2dp_latm_put_bits w asc_pad 0 else Some w
              })"

definition btc_a2dp_latm_write_stream_mux_config ::
  "btc_a2dp_latm_bw_t \<Rightarrow> buf \<Rightarrow> nat \<Rightarrow> nat \<Rightarrow> nat \<Rightarrow> nat \<Rightarrow> btc_a2dp_latm_bw_t option" where
  "btc_a2dp_latm_write_stream_mux_config w cie latm_buffer_fullness audio_mux_version audio_mux_version_a
      tara_buffer_fullness = do {
     (prof, sf_index, ch_cfg) \<leftarrow> latm_m24_choice cie;
     if audio_mux_version > 1 then None
     else if audio_mux_version \<noteq> 0 \<and> audio_mux_version_a \<noteq> 0 then None
     else do {
       w \<leftarrow> latm_put_version w audio_mux_version audio_mux_version_a tara_buffer_fullness;
       w \<leftarrow> btc_a2dp_latm_put_bits w 1 1;
       w \<leftarrow> btc_a2dp_latm_put_bits w 6 0;
       w \<leftarrow> btc_a2dp_latm_put_bits w 4 0;
       w \<leftarrow> btc_a2dp_latm_put_bits w 3 0;
       w \<leftarrow> latm_put_asc w prof sf_index ch_cfg audio_mux_version;
       w \<leftarrow> btc_a2dp_latm_put_bits w 3 0;
       w \<leftarrow> btc_a2dp_latm_put_bits w 8 latm_buffer_fullness;
       w \<leftarrow> btc_a2dp_latm_put_bits w 1 0;
       btc_a2dp_latm_put_bits w 1 0
     }
   }"

subsection \<open>The length and the frame\<close>

function latm_length_loop :: "btc_a2dp_latm_bw_t \<Rightarrow> nat \<Rightarrow> nat \<Rightarrow> (nat \<times> btc_a2dp_latm_bw_t) option" where
  "latm_length_loop w rem loops =
     (if rem \<ge> 255
      then (case btc_a2dp_latm_put_bits w 8 255 of
              None \<Rightarrow> None
            | Some w \<Rightarrow> if loops + 1 > 32 then None else latm_length_loop w (rem - 255) (loops + 1))
      else Some (rem, w))"
  by pat_completeness auto
termination by (relation "measure (\<lambda>(w, rem, loops). rem)") auto

declare latm_length_loop.simps [simp del]

definition btc_a2dp_latm_write_payload_length_type0 :: "btc_a2dp_latm_bw_t \<Rightarrow> nat \<Rightarrow> btc_a2dp_latm_bw_t option" where
  "btc_a2dp_latm_write_payload_length_type0 w payload_len = do {
     (rem, w) \<leftarrow> latm_length_loop w payload_len 0;
     btc_a2dp_latm_put_bits w 8 rem
   }"

fun latm_payload_write_loop :: "u8 list \<Rightarrow> btc_a2dp_latm_bw_t \<Rightarrow> btc_a2dp_latm_bw_t option" where
  "latm_payload_write_loop [] w = Some w"
| "latm_payload_write_loop (x # xs) w =
     (case btc_a2dp_latm_put_bits w 8 (unat x) of None \<Rightarrow> None | Some w \<Rightarrow> latm_payload_write_loop xs w)"

definition btc_a2dp_latm_write_raw_payload :: "btc_a2dp_latm_bw_t \<Rightarrow> buf \<Rightarrow> nat \<Rightarrow> btc_a2dp_latm_bw_t option" where
  "btc_a2dp_latm_write_raw_payload w raw_frame raw_len = latm_payload_write_loop (map raw_frame [0..<raw_len]) w"

text \<open>
  The bit and the configuration that the sizes, the frame and the header begin with. In the code the octets of
  the element are those at \<open>codec_cfg + A2D_M24_CIE_OFF\<close>.
\<close>

definition latm_put_config :: "btc_a2dp_latm_bw_t \<Rightarrow> buf \<Rightarrow> btc_a2dp_latm_bw_t option" where
  "latm_put_config w codec_cfg = do {
     w \<leftarrow> btc_a2dp_latm_put_bits w 1 0;
     btc_a2dp_latm_write_stream_mux_config w (\<lambda>i. codec_cfg (A2D_M24_CIE_OFF + i)) 0xC0 1 0 0xFF
   }"

text \<open>The scratch array is not initialised before \<open>bw_init\<close> clears it.\<close>

definition btc_a2dp_latm_stream_mux_config_bits :: "buf option \<Rightarrow> nat" where
  "btc_a2dp_latm_stream_mux_config_bits codec_cfg =
     (case codec_cfg of
        None \<Rightarrow> 0
      | Some cfg \<Rightarrow>
          (case latm_put_config (btc_a2dp_latm_bw_init (Some (\<lambda>i. 0)) 10) cfg of
             None \<Rightarrow> 0
           | Some w \<Rightarrow> btc_a2dp_latm_bw_bits_written w))"

function latm_length_bits_loop :: "nat \<Rightarrow> nat \<Rightarrow> nat" where
  "latm_length_bits_loop bits rem = (if rem \<ge> 255 then latm_length_bits_loop (bits + 8) (rem - 255) else bits)"
  by pat_completeness auto
termination by (relation "measure snd") auto

declare latm_length_bits_loop.simps [simp del]

definition btc_a2dp_latm_payload_length_bits :: "nat \<Rightarrow> nat" where
  "btc_a2dp_latm_payload_length_bits payload_len = latm_length_bits_loop 0 payload_len + 8"

definition btc_a2dp_latm_au_prefix_bytes :: "buf option \<Rightarrow> nat \<Rightarrow> nat" where
  "btc_a2dp_latm_au_prefix_bytes codec_cfg raw_len =
     (case codec_cfg of
        None \<Rightarrow> 0
      | Some _ \<Rightarrow>
          let bits = btc_a2dp_latm_stream_mux_config_bits codec_cfg
          in if bits = 0 then 0
             else
               let bits = bits + btc_a2dp_latm_payload_length_bits raw_len
               in if bits mod 8 \<noteq> 0 then 0 else bits div 8 mod 2 ^ 8)"

definition btc_a2dp_latm_frame_byte_len :: "buf option \<Rightarrow> nat \<Rightarrow> nat" where
  "btc_a2dp_latm_frame_byte_len codec_cfg raw_len =
     (let frame_bits = btc_a2dp_latm_stream_mux_config_bits codec_cfg
      in if frame_bits = 0 then 0
         else
           let frame_bits = frame_bits + (btc_a2dp_latm_payload_length_bits raw_len + raw_len * 8)
           in (frame_bits + 7) div 8 mod 2 ^ 16)"

text \<open>\<open>same\<close> is \<open>out_buf == raw_frame\<close>; the result is the length with the output.\<close>

definition btc_a2dp_latm_build_frame ::
  "buf option \<Rightarrow> buf option \<Rightarrow> nat \<Rightarrow> buf option \<Rightarrow> nat \<Rightarrow> bool \<Rightarrow> (nat \<times> buf) option" where
  "btc_a2dp_latm_build_frame codec_cfg raw_frame raw_len out_buf out_cap same =
     (case (codec_cfg, out_buf, raw_frame) of
        (Some cfg, Some _, Some raw) \<Rightarrow>
          if raw_len = 0 \<or> same then None
          else do {
            w \<leftarrow> latm_put_config (btc_a2dp_latm_bw_init out_buf out_cap) cfg;
            w \<leftarrow> btc_a2dp_latm_write_payload_length_type0 w raw_len;
            w \<leftarrow> btc_a2dp_latm_write_raw_payload w raw raw_len;
            let frame_bits = btc_a2dp_latm_bw_bits_written w;
            let frame_len = (frame_bits + 7) div 8 mod 2 ^ 16;
            if frame_bits = 0 then None
            else if frame_len > out_cap then None
            else map_option (\<lambda>m. (frame_len, m)) (bw_buf w)
          }
      | _ \<Rightarrow> None)"

definition btc_a2dp_latm_build_hdr :: "buf option \<Rightarrow> nat \<Rightarrow> buf option \<Rightarrow> nat \<Rightarrow> buf option" where
  "btc_a2dp_latm_build_hdr codec_cfg raw_len out_buf out_cap =
     (case (codec_cfg, out_buf) of
        (Some cfg, Some _) \<Rightarrow>
          if raw_len = 0 then None
          else do {
            w \<leftarrow> latm_put_config (btc_a2dp_latm_bw_init out_buf out_cap) cfg;
            w \<leftarrow> btc_a2dp_latm_write_payload_length_type0 w raw_len;
            let frame_bits = btc_a2dp_latm_bw_bits_written w;
            if frame_bits = 0 \<or> frame_bits mod 8 \<noteq> 0 then None else bw_buf w
          }
      | _ \<Rightarrow> None)"

subsection \<open>What the writer writes\<close>

text \<open>The reference: bits put one after the other.\<close>

primrec bw_put :: "btc_a2dp_latm_bw_t \<Rightarrow> bool list \<Rightarrow> btc_a2dp_latm_bw_t option" where
  "bw_put w [] = Some w"
| "bw_put w (x # xs) = Option.bind (btc_a2dp_latm_put1 w (of_bool x)) (\<lambda>w. bw_put w xs)"

lemma bw_put_append: "bw_put w (xs @ ys) = Option.bind (bw_put w xs) (\<lambda>w. bw_put w ys)"
proof (induction xs arbitrary: w)
  case (Cons x xs)
  then show ?case by (cases "btc_a2dp_latm_put1 w (of_bool x)") simp_all
qed simp

lemma bind_bw_put:
  "Option.bind (bw_put w xs) (\<lambda>w. Option.bind p (bw_put w)) = Option.bind p (\<lambda>ys. bw_put w (xs @ ys))"
  by (cases p) (simp_all add: bw_put_append)

lemma to_bits_Cons: "to_bits (Suc n) v = odd (v div 2 ^ n) # to_bits n v"
proof (induction n arbitrary: v)
  case (Suc n)
  have "to_bits (Suc (Suc n)) v = to_bits (Suc n) (v div 2) @ [odd v]" by simp
  also have "\<dots> = odd (v div 2 div 2 ^ n) # to_bits n (v div 2) @ [odd v]" by (simp only: Suc.IH append_Cons)
  also have "\<dots> = odd (v div 2 ^ Suc n) # to_bits (Suc n) v" by (simp add: div_mult2_eq)
  finally show ?case .
qed simp

lemma put_loop_bits: "latm_put_loop n v w = bw_put w (to_bits n v)"
proof (induction n arbitrary: w)
  case (Suc n)
  have "drop_bit n v AND 1 = (of_bool (odd (v div 2 ^ n)) :: nat)" by (simp add: drop_bit_eq_div and_one_eq mod_2_eq_odd)
  then show ?case by (simp add: Suc.IH to_bits_Cons del: to_bits.simps(2) split: option.split)
qed simp

lemma put_bits_bits: "0 < n \<Longrightarrow> n \<le> 32 \<Longrightarrow> btc_a2dp_latm_put_bits w n v = bw_put w (to_bits n v)"
  by (simp add: btc_a2dp_latm_put_bits_def put_loop_bits)

lemma to_bits_add: "to_bits (a + b) v = to_bits a (v div 2 ^ b) @ to_bits b v"
  by (induction b arbitrary: v) (simp_all add: div_mult2_eq)

lemma to_bits_mod: "n \<le> k \<Longrightarrow> to_bits n (v mod 2 ^ k) = to_bits n v"
proof (induction n arbitrary: v k)
  case (Suc n)
  then obtain j where k: "k = Suc j" by (cases k) auto
  have "v mod 2 ^ k div 2 = v div 2 mod 2 ^ j" by (simp add: k mod_mult2_eq)
  moreover have "v mod 2 ^ k mod 2 = v mod 2" by (rule mod_mod_cancel) (simp add: k)
  then have "odd (v mod 2 ^ k) = odd v" by (simp add: even_iff_mod_2_eq_zero)
  ultimately show ?case using Suc by (simp add: k)
qed simp

lemma put_octets_bits: "latm_put_octets k v w = bw_put w (to_bits (8 * k) v)"
proof (induction k arbitrary: w)
  case (Suc k)
  have "drop_bit (k * 8) v AND 0xFF = v div 2 ^ (8 * k) mod 2 ^ 8"
    using take_bit_eq_mask [of 8 "drop_bit (k * 8) v"] by (simp add: drop_bit_eq_div mult.commute mask_eq_exp_minus_1 take_bit_eq_mod)
  then have "to_bits 8 (drop_bit (k * 8) v AND 0xFF) = to_bits 8 (v div 2 ^ (8 * k))" by (simp only: to_bits_mod [of 8 8])
  then show ?case
    using to_bits_add [of 8 "8 * k" v] by (simp add: put_bits_bits Suc.IH bw_put_append split: option.split)
qed simp

definition value_bits :: "nat \<Rightarrow> bool list" where
  "value_bits v = to_bits 2 0 @ to_bits 8 v"

lemma put_value_octet:
  assumes "v < 256" shows "btc_a2dp_latm_put_value w v = bw_put w (value_bits v)"
proof -
  have "latm_put_octets 1 v = (\<lambda>w. bw_put w (to_bits 8 v))" using put_octets_bits [of 1 v] by (simp add: fun_eq_iff)
  moreover have "find (\<lambda>l. v \<le> (if l + 1 \<ge> 4 then 0xffffffff else push_bit ((l + 1) * 8) 1 - 1)) [0..<4] = Some 0"
    using assms by (simp add: upt_conv_Cons)
  ultimately show ?thesis
    by (simp add: btc_a2dp_latm_put_value_def value_bits_def put_bits_bits bw_put_append del: One_nat_def)
qed

definition otype_bits :: "nat \<Rightarrow> bool list" where
  "otype_bits obj = (if obj \<le> 30 then to_bits 5 obj else to_bits 5 31 @ to_bits 6 (obj - 32))"

lemma put_otype: "obj \<le> 63 \<Longrightarrow> btc_a2dp_latm_put_asc_object_type w obj = bw_put w (otype_bits obj)"
  by (simp add: btc_a2dp_latm_put_asc_object_type_def otype_bits_def put_bits_bits bw_put_append)

text \<open>The AudioSpecificConfig of a profile, when there is one.\<close>

definition asc_bits_of :: "btc_a2dp_latm_m24_asc_t \<Rightarrow> nat \<Rightarrow> nat \<Rightarrow> bool list option" where
  "asc_bits_of prof sf ch =
     (if sf = 15 then None
      else if he_wrapper prof \<noteq> 0
      then map_option (\<lambda>core. otype_bits (he_wrapper prof) @ to_bits 4 core @ to_bits 4 ch @ to_bits 4 sf @
             otype_bits (asc_obj prof) @ to_bits 3 0) (btc_a2dp_latm_sf_index_core_from_output sf)
      else if asc_obj prof = 39 then Some (otype_bits 39 @ to_bits 4 sf @ to_bits 4 ch @ to_bits 5 0 @ to_bits 2 0)
      else Some (otype_bits (asc_obj prof) @ to_bits 4 sf @ to_bits 4 ch @ to_bits 3 0))"

lemma bind_None [simp]: "Option.bind x (\<lambda>_. None) = None"
  by (cases x) simp_all

lemma put_ga: "btc_a2dp_latm_put_ga_specific_config w 0 = bw_put w (to_bits 3 0)"
proof -
  have "to_bits 3 0 = to_bits 1 0 @ to_bits 1 0 @ to_bits 1 0" by (simp add: numeral_3_eq_3)
  then show ?thesis by (simp add: btc_a2dp_latm_put_ga_specific_config_def put_bits_bits bw_put_append del: to_bits.simps One_nat_def)
qed

lemma put_asc_bits:
  assumes "asc_obj prof \<le> 63" "he_wrapper prof \<le> 63"
  shows "btc_a2dp_latm_write_audio_specific_config w prof sf ch = Option.bind (asc_bits_of prof sf ch) (bw_put w)"
  using assms unfolding btc_a2dp_latm_write_audio_specific_config_def asc_bits_of_def
  by (auto simp: put_otype put_bits_bits put_ga bw_put_append Option.bind_assoc simp del: to_bits.simps
      split: option.split Option.bind_splits)

lemma length_asc_bits:
  "asc_bits_of prof sf ch = Some asc \<Longrightarrow> length asc = btc_a2dp_latm_asc_bits_for_profile prof"
  by (auto simp: asc_bits_of_def btc_a2dp_latm_asc_bits_for_profile_def otype_bits_def
      btc_a2dp_latm_asc_object_type_bits_def split: if_splits)

text \<open>The bits up to the length of the payload, and those of the length.\<close>

definition latm_head :: "bool list \<Rightarrow> bool list" where
  "latm_head asc =
     (let pad = btc_a2dp_latm_bits_pad_to_byte (length asc + 2)
      in to_bits 1 0 @ to_bits 1 1 @ to_bits 1 0 @ value_bits 255 @ to_bits 1 1 @ to_bits 6 0 @ to_bits 4 0 @ to_bits 3 0 @
         value_bits (length asc + pad) @ asc @ to_bits pad 0 @ to_bits 3 0 @ to_bits 8 0xC0 @ to_bits 1 0 @ to_bits 1 0)"

definition latm_asc :: "buf \<Rightarrow> bool list option" where
  "latm_asc cfg = Option.bind (latm_m24_choice (\<lambda>i. cfg (3 + i))) (\<lambda>(prof, sf, ch). asc_bits_of prof sf ch)"

definition length_bits :: "nat \<Rightarrow> bool list" where
  "length_bits n = concat (replicate (n div 255) (to_bits 8 255)) @ to_bits 8 (n mod 255)"

lemma choice_profile:
  assumes "latm_m24_choice cie = Some (prof, sf, ch)"
  shows "asc_obj prof \<in> {2, 4, 6, 39} \<and> he_wrapper prof \<in> {0, 5, 29} \<and> (he_wrapper prof \<noteq> 0 \<longrightarrow> asc_obj prof = 2)"
  using assms unfolding latm_m24_choice_def btc_a2dp_latm_m24_cie0_to_asc_profile_def Let_def
  by (auto simp: Option.bind_eq_Some_conv split: if_splits)

lemma profile_bits:
  assumes "asc_obj prof \<in> {2, 4, 6, 39} \<and> he_wrapper prof \<in> {0, 5, 29} \<and> (he_wrapper prof \<noteq> 0 \<longrightarrow> asc_obj prof = 2)"
  shows "btc_a2dp_latm_asc_bits_for_profile prof \<in> {16, 25, 26}"
  using assms by (auto simp: btc_a2dp_latm_asc_bits_for_profile_def btc_a2dp_latm_asc_object_type_bits_def)

lemma asc_length: "latm_asc cfg = Some asc \<Longrightarrow> length asc \<in> {16, 25, 26}"
  using choice_profile profile_bits length_asc_bits
  by (auto simp: latm_asc_def Option.bind_eq_Some_conv) metis

lemma put_config_bits: "latm_put_config w cfg = Option.bind (latm_asc cfg) (\<lambda>asc. bw_put w (latm_head asc))"
proof (cases "latm_m24_choice (\<lambda>i. cfg (3 + i))")
  case (Some x)
  then obtain prof sf ch where x: "latm_m24_choice (\<lambda>i. cfg (3 + i)) = Some (prof, sf, ch)" by (cases x) auto
  note p = choice_profile [OF x]
  note n = profile_bits [OF p]
  have w: "btc_a2dp_latm_write_audio_specific_config w prof sf ch = Option.bind (asc_bits_of prof sf ch) (bw_put w)" for w
    using p by (intro put_asc_bits) auto
  have v: "btc_a2dp_latm_put_value w (btc_a2dp_latm_asc_bits_for_profile prof +
      btc_a2dp_latm_bits_pad_to_byte (btc_a2dp_latm_asc_bits_for_profile prof + 2)) =
    bw_put w (value_bits (btc_a2dp_latm_asc_bits_for_profile prof +
      btc_a2dp_latm_bits_pad_to_byte (btc_a2dp_latm_asc_bits_for_profile prof + 2)))" for w
    using n by (intro put_value_octet) (auto simp: btc_a2dp_latm_bits_pad_to_byte_def)
  have pad: "0 < btc_a2dp_latm_bits_pad_to_byte (btc_a2dp_latm_asc_bits_for_profile prof + 2)"
    "btc_a2dp_latm_bits_pad_to_byte (btc_a2dp_latm_asc_bits_for_profile prof + 2) \<le> 32"
    using n by (auto simp: btc_a2dp_latm_bits_pad_to_byte_def)
  show ?thesis
  proof (cases "asc_bits_of prof sf ch")
    case None
    then show ?thesis
      using x by (simp add: latm_put_config_def btc_a2dp_latm_write_stream_mux_config_def latm_put_asc_def Let_def w
          latm_asc_def)
  next
    case (Some asc)
    then show ?thesis
      using x length_asc_bits [OF Some] pad
      by (simp add: latm_put_config_def btc_a2dp_latm_write_stream_mux_config_def latm_put_asc_def Let_def w v latm_asc_def
          latm_head_def latm_put_version_def put_bits_bits put_value_octet bw_put_append Option.bind_assoc
          del: to_bits.simps One_nat_def add_2_eq_Suc add_2_eq_Suc')
  qed
qed (simp add: latm_put_config_def btc_a2dp_latm_write_stream_mux_config_def latm_asc_def)

lemma latm_head_length: "length asc \<in> {16, 25, 26} \<Longrightarrow> length (latm_head asc) = (if length asc = 16 then 72 else 80)"
  by (auto simp: latm_head_def Let_def value_bits_def btc_a2dp_latm_bits_pad_to_byte_def)

lemma length_length_bits: "length (length_bits n) = 8 * (n div 255 + 1)"
  by (simp add: length_bits_def length_concat sum_list_replicate)

definition payload_bits :: "u8 list \<Rightarrow> bool list" where
  "payload_bits xs = concat (map (\<lambda>x. to_bits 8 (unat x)) xs)"

lemma length_payload_bits: "length (payload_bits xs) = 8 * length xs"
  by (induction xs) (simp_all add: payload_bits_def)

lemma payload_write_bits: "latm_payload_write_loop xs w = bw_put w (payload_bits xs)"
proof (induction xs arbitrary: w)
  case (Cons x xs)
  then show ?case by (simp add: put_bits_bits payload_bits_def bw_put_append del: to_bits.simps split: option.split)
qed (simp add: payload_bits_def)

lemma length_loop_bits:
  "loops \<le> 32 \<Longrightarrow> latm_length_loop w rem loops =
    (if rem div 255 + loops > 32 then None
     else map_option (\<lambda>w. (rem mod 255, w)) (bw_put w (concat (replicate (rem div 255) (to_bits 8 255)))))"
proof (induction w rem loops rule: latm_length_loop.induct)
  case (1 w rem loops)
  show ?case
  proof (cases "rem \<ge> 255")
    case True
    have d: "rem div 255 = Suc ((rem - 255) div 255)" "rem mod 255 = (rem - 255) mod 255"
      using True by (simp_all add: le_div_geq le_mod_geq)
    show ?thesis
    proof (cases "bw_put w (to_bits 8 255)")
      case None
      then show ?thesis using True d
        by (subst latm_length_loop.simps) (simp add: put_bits_bits bw_put_append del: to_bits.simps)
    next
      case (Some w')
      then have p: "btc_a2dp_latm_put_bits w 8 255 = Some w'" by (simp add: put_bits_bits)
      show ?thesis
      proof (cases "loops + 1 > 32")
        case True
        then show ?thesis using \<open>rem \<ge> 255\<close> p d by (subst latm_length_loop.simps) simp
      next
        case False
        then show ?thesis
          using "1.IH" [OF True p False] True p Some d
          by (subst latm_length_loop.simps) (simp add: bw_put_append del: to_bits.simps)
      qed
    qed
  next
    case False
    then show ?thesis using "1.prems" by (subst latm_length_loop.simps) simp
  qed
qed

lemma write_length_bits:
  "btc_a2dp_latm_write_payload_length_type0 w n = (if n div 255 > 32 then None else bw_put w (length_bits n))"
  using length_loop_bits [of 0 w n]
  by (auto simp: btc_a2dp_latm_write_payload_length_type0_def length_bits_def put_bits_bits bw_put_append
      simp del: to_bits.simps split: Option.bind_splits option.splits)

text \<open>Bits that are set in an array, and what bits an array holds.\<close>

definition set_at :: "buf \<Rightarrow> nat \<Rightarrow> bool \<Rightarrow> buf" where
  "set_at m p x = (if x then m(p div 8 := m (p div 8) OR push_bit (7 - p mod 8) 1) else m)"

primrec put_at :: "buf \<Rightarrow> nat \<Rightarrow> bool list \<Rightarrow> buf" where
  "put_at m p [] = m"
| "put_at m p (x # xs) = put_at (set_at m p x) (p + 1) xs"

lemma bit_at_set_at: "bit_at (set_at m p x) q \<longleftrightarrow> bit_at m q \<or> q = p \<and> x"
proof (cases "x \<and> q div 8 = p div 8")
  case True
  have k: "7 - q mod 8 = 7 - p mod 8 \<longleftrightarrow> q mod 8 = p mod 8"
    using mod_less_divisor [of 8 p] mod_less_divisor [of 8 q] by linarith
  have "q mod 8 = p mod 8 \<longleftrightarrow> q = p" using True by (metis div_mult_mod_eq)
  moreover have "bit (push_bit (7 - p mod 8) 1 :: u8) (7 - q mod 8) \<longleftrightarrow> 7 - q mod 8 = 7 - p mod 8"
    using diff_le_self [of 7 "q mod 8"] by (auto simp: push_bit_of_1 bit_exp_iff)
  ultimately show ?thesis using True k by (simp add: set_at_def bit_at_def bit_or_iff)
next
  case False
  then have "q = p \<and> x \<longleftrightarrow> False" by auto
  with False show ?thesis by (auto simp: set_at_def bit_at_def)
qed

lemma bit_at_put_at: "bit_at (put_at m p xs) q \<longleftrightarrow> bit_at m q \<or> p \<le> q \<and> q < p + length xs \<and> xs ! (q - p)"
proof (induction xs arbitrary: m p q)
  case (Cons x xs)
  consider "q = p" | "q < p" | "p < q" by linarith
  then show ?case
  proof cases
    case 1
    then show ?thesis by (simp add: Cons.IH bit_at_set_at)
  next
    case 2
    then show ?thesis by (simp add: Cons.IH bit_at_set_at)
  next
    case 3
    then have "q - p = Suc (q - Suc p)" by simp
    with 3 show ?thesis by (simp add: Cons.IH bit_at_set_at)
  qed
qed auto

lemma buf_eq_bits:
  assumes "\<And>j. j < 8 \<Longrightarrow> bit_at a (8 * i + j) = bit_at c (8 * i + j)" shows "a i = c i"
proof (rule bit_word_eqI)
  fix k assume k: "k < LENGTH(8)"
  then have "7 - k < 8" "7 - (7 - k) = k" by simp_all
  with assms [of "7 - k"] show "bit (a i) k = bit (c i) k" by (metis bit_at_8)
qed

lemma put_at_append: "put_at m p (xs @ ys) = put_at (put_at m p xs) (p + length xs) ys"
  by (induction xs arbitrary: m p) simp_all

lemma bw_put_eq:
  assumes "bw_buf w = Some m"
  shows "bw_put w xs =
    (if xs = [] \<or> bw_bit_pos w + length xs \<le> 8 * bw_cap w
     then Some (w\<lparr>bw_buf := Some (put_at m (bw_bit_pos w) xs), bw_bit_pos := bw_bit_pos w + length xs\<rparr>) else None)"
  using assms
proof (induction xs arbitrary: w m)
  case (Cons x xs)
  have c: "(bw_bit_pos w + 8) div 8 > bw_cap w \<longleftrightarrow> \<not> bw_bit_pos w < 8 * bw_cap w" by linarith
  have p: "btc_a2dp_latm_put1 w (of_bool x) =
    (if bw_bit_pos w < 8 * bw_cap w
     then Some (w\<lparr>bw_buf := Some (set_at m (bw_bit_pos w) x), bw_bit_pos := bw_bit_pos w + 1\<rparr>) else None)"
    using Cons.prems by (simp only: btc_a2dp_latm_put1_def Let_def option.case c) (simp add: set_at_def)
  show ?case
    using Cons.IH [of "w\<lparr>bw_buf := Some (set_at m (bw_bit_pos w) x), bw_bit_pos := bw_bit_pos w + 1\<rparr>"]
    by (auto simp: p)
qed simp

definition holds_bits :: "buf \<Rightarrow> nat \<Rightarrow> bool list \<Rightarrow> bool" where
  "holds_bits m p xs = (\<forall>i < length xs. bit_at m (p + i) = xs ! i)"

lemma holds_append: "holds_bits m p (xs @ ys) \<longleftrightarrow> holds_bits m p xs \<and> holds_bits m (p + length xs) ys"
  (is "?l = ?r")
proof
  assume l: ?l
  have "bit_at m (p + length xs + i) = ys ! i" if "i < length ys" for i
    using l that by (auto simp: holds_bits_def nth_append add.assoc dest: spec [of _ "length xs + i"])
  with l show ?r by (auto simp: holds_bits_def nth_append)
next
  assume r: ?r
  have "bit_at m (p + i) = (xs @ ys) ! i" if "i < length xs + length ys" for i
    using r that by (cases "i < length xs") (auto simp: holds_bits_def nth_append dest: spec [of _ "i - length xs"])
  then show ?l by (simp add: holds_bits_def)
qed

lemma holds_value: "holds_bits m p xs \<Longrightarrow> bits_value m p (length xs) = bits_number xs"
proof -
  assume h: "holds_bits m p xs"
  have "map (bit_at m) [p..<p + length xs] = xs"
    using h by (auto intro!: nth_equalityI simp: holds_bits_def)
  then show ?thesis by (simp add: bits_value_number)
qed

lemma holds_mod: "holds_bits m p (to_bits n v) \<Longrightarrow> bits_value m p n = v mod 2 ^ n"
  using holds_value [of m p "to_bits n v"] by (simp add: bits_number_to_bits)

lemma holds_to_bits: "holds_bits m p (to_bits n v) \<Longrightarrow> v < 2 ^ n \<Longrightarrow> bits_value m p n = v"
  by (simp add: holds_mod)

subsection \<open>The frame and its header\<close>

abbreviation (input) latm_prefix :: "bool list \<Rightarrow> nat \<Rightarrow> bool list" where
  "latm_prefix asc n \<equiv> latm_head asc @ length_bits n"

lemma bw_put_init:
  "xs \<noteq> [] \<Longrightarrow> bw_put (btc_a2dp_latm_bw_init (Some out) cap) xs =
    (if length xs \<le> 8 * cap
     then Some \<lparr>bw_buf = Some (put_at (memcpy out (\<lambda>i. 0) cap) 0 xs), bw_cap = cap, bw_bit_pos = length xs\<rparr> else None)"
proof -
  have "memcpy out (\<lambda>i. 0) 0 = out" by (simp add: memcpy_def)
  then show "xs \<noteq> [] \<Longrightarrow> ?thesis"
    by (subst bw_put_eq [of _ "memcpy out (\<lambda>i. 0) cap"]) (auto simp: btc_a2dp_latm_bw_init_def)
qed

lemma latm_head_nonempty [simp]: "latm_head asc \<noteq> []"
  by (simp add: latm_head_def Let_def)

lemma prefix_length:
  assumes "latm_asc cfg = Some asc"
  shows "length (latm_prefix asc n) = 8 * ((if length asc = 16 then 9 else 10) + n div 255 + 1)"
  using latm_head_length [OF asc_length [OF assms]] by (simp add: length_length_bits)

lemma build_frame_eq:
  "btc_a2dp_latm_build_frame (Some cfg) (Some raw) n (Some out) cap same =
    (case latm_asc cfg of
       None \<Rightarrow> None
     | Some asc \<Rightarrow>
         let bs = latm_prefix asc n @ payload_bits (map raw [0..<n])
         in if n = 0 \<or> same \<or> n div 255 > 32 \<or> length bs > 8 * cap then None
            else Some (length bs div 8, put_at (memcpy out (\<lambda>i. 0) cap) 0 bs))"
proof (cases "latm_asc cfg")
  case None
  then show ?thesis by (simp add: btc_a2dp_latm_build_frame_def put_config_bits)
next
  case (Some asc)
  let ?bs = "latm_prefix asc n @ payload_bits (map raw [0..<n])" and ?w = "btc_a2dp_latm_bw_init (Some out) cap"
  have l: "length ?bs = 8 * ((if length asc = 16 then 9 else 10) + n div 255 + 1 + n)"
    using prefix_length [OF Some, of n] by (simp add: length_payload_bits)
  show ?thesis
  proof (cases "n = 0 \<or> same \<or> n div 255 > 32")
    case True
    then show ?thesis
      using Some by (auto simp: btc_a2dp_latm_build_frame_def put_config_bits write_length_bits split: Option.bind_splits)
  next
    case False
    have p: "Option.bind (bw_put ?w (latm_head asc)) (\<lambda>w. Option.bind (bw_put w (length_bits n))
        (\<lambda>w. Option.bind (bw_put w (payload_bits (map raw [0..<n]))) f)) = Option.bind (bw_put ?w ?bs) f" for f
      by (simp add: bw_put_append Option.bind_assoc)
    have "length ?bs div 8 < 2 ^ 16" using False l by auto
    then have m: "(length ?bs + 7) div 8 mod 2 ^ 16 = length ?bs div 8" using l by auto
    have c: "length ?bs div 8 \<le> cap" if "length ?bs \<le> 8 * cap" using that by linarith
    have "btc_a2dp_latm_build_frame (Some cfg) (Some raw) n (Some out) cap same =
      Option.bind (bw_put ?w ?bs)
        (\<lambda>w. let frame_len = (bw_bit_pos w + 7) div 8 mod 2 ^ 16
             in if bw_bit_pos w = 0 then None else if frame_len > cap then None
                else map_option (\<lambda>m. (frame_len, m)) (bw_buf w))"
      unfolding p [symmetric] using False Some
      by (simp add: btc_a2dp_latm_build_frame_def put_config_bits write_length_bits btc_a2dp_latm_write_raw_payload_def
          payload_write_bits btc_a2dp_latm_bw_bits_written_def Let_def)
    then show ?thesis
      using False Some m l c by (simp add: bw_put_init Let_def del: length_append append_assoc)
  qed
qed

lemma build_hdr_eq:
  "btc_a2dp_latm_build_hdr (Some cfg) n (Some out) cap =
    (case latm_asc cfg of
       None \<Rightarrow> None
     | Some asc \<Rightarrow>
         if n = 0 \<or> n div 255 > 32 \<or> length (latm_prefix asc n) > 8 * cap then None
         else Some (put_at (memcpy out (\<lambda>i. 0) cap) 0 (latm_prefix asc n)))"
proof (cases "latm_asc cfg")
  case (Some asc)
  have p: "Option.bind (bw_put w (latm_head asc)) (\<lambda>w. Option.bind (bw_put w (length_bits n)) f) =
      Option.bind (bw_put w (latm_prefix asc n)) f" for w f
    by (simp add: bw_put_append Option.bind_assoc)
  show ?thesis
  proof (cases "n = 0 \<or> n div 255 > 32")
    case True
    then show ?thesis
      using Some by (auto simp: btc_a2dp_latm_build_hdr_def put_config_bits write_length_bits split: Option.bind_splits)
  next
    case False
    have "btc_a2dp_latm_build_hdr (Some cfg) n (Some out) cap =
      Option.bind (bw_put (btc_a2dp_latm_bw_init (Some out) cap) (latm_prefix asc n))
        (\<lambda>w. if bw_bit_pos w = 0 \<or> bw_bit_pos w mod 8 \<noteq> 0 then None else bw_buf w)"
      using False Some
      by (simp add: btc_a2dp_latm_build_hdr_def put_config_bits write_length_bits p btc_a2dp_latm_bw_bits_written_def
          Let_def del: length_append)
    then show ?thesis
      using False Some prefix_length [OF Some, of n] by (simp add: bw_put_init del: length_append)
  qed
qed (simp add: btc_a2dp_latm_build_hdr_def put_config_bits)

lemma config_bits_eq:
  "btc_a2dp_latm_stream_mux_config_bits (Some cfg) = (case latm_asc cfg of None \<Rightarrow> 0 | Some asc \<Rightarrow> length (latm_head asc))"
proof (cases "latm_asc cfg")
  case (Some asc)
  then show ?thesis
    using latm_head_length [OF asc_length [OF Some]]
    by (simp add: btc_a2dp_latm_stream_mux_config_bits_def put_config_bits bw_put_init btc_a2dp_latm_bw_bits_written_def)
qed (simp add: btc_a2dp_latm_stream_mux_config_bits_def put_config_bits)

lemma payload_length_bits_eq: "btc_a2dp_latm_payload_length_bits n = length (length_bits n)"
proof -
  have "latm_length_bits_loop k n = k + 8 * (n div 255)" for k
  proof (induction k n rule: latm_length_bits_loop.induct)
    case (1 k n)
    then show ?case by (subst latm_length_bits_loop.simps) (auto simp: le_div_geq)
  qed
  then show ?thesis by (simp add: btc_a2dp_latm_payload_length_bits_def length_length_bits)
qed

lemma prefix_bytes_eq:
  assumes "latm_asc cfg = Some asc" "n div 255 \<le> 32"
  shows "8 * btc_a2dp_latm_au_prefix_bytes (Some cfg) n = length (latm_prefix asc n)"
proof -
  note l = prefix_length [OF assms(1), of n]
  have "(if length asc = 16 then 9 else 10) + n div 255 + 1 < (256 :: nat)" using assms(2) by simp
  with l show ?thesis
    using assms(1) by (auto simp: btc_a2dp_latm_au_prefix_bytes_def config_bits_eq payload_length_bits_eq Let_def)
qed

subsection \<open>Reading the frame\<close>

lemma get_value_octet:
  assumes "bits_value (br_buf r) (br_bit_pos r) 2 = 0" "br_bit_pos r + 10 \<le> btc_a2dp_latm_bits_total r"
  shows "btc_a2dp_latm_get_value r =
    Some (bits_value (br_buf r) (br_bit_pos r + 2) 8, r\<lparr>br_bit_pos := br_bit_pos r + 10\<rparr>)"
  using assms bits_loop_eq [of 0 0 8 "r\<lparr>br_bit_pos := br_bit_pos r + 2\<rparr>"]
  by (simp add: btc_a2dp_latm_get_value_def get_bits_eq)

lemma payload_length_reads:
  assumes "holds_bits (br_buf r) (br_bit_pos r) (length_bits n)"
    "br_bit_pos r + length (length_bits n) \<le> btc_a2dp_latm_bits_total r" "n div 255 + k \<le> 32"
  shows "latm_payload_length r len k = Some (len + n, r\<lparr>br_bit_pos := br_bit_pos r + length (length_bits n)\<rparr>)"
  using assms
proof (induction "n div 255" arbitrary: n r len k)
  case 0
  then have "n < 255" by (simp add: div_eq_0_iff)
  with "0.prems"(1) have "bits_value (br_buf r) (br_bit_pos r) 8 = n"
    by (intro holds_to_bits) (simp_all add: length_bits_def)
  with 0 \<open>n < 255\<close> show ?case by (subst latm_payload_length.simps) (simp add: get_bits_eq length_length_bits)
next
  case (Suc q)
  then have "n \<ge> 255" by (metis div_less not_less Zero_not_Suc)
  then have d: "n div 255 = Suc ((n - 255) div 255)" "n mod 255 = (n - 255) mod 255" by (simp_all add: le_div_geq le_mod_geq)
  then have b: "length_bits n = to_bits 8 255 @ length_bits (n - 255)" by (simp add: length_bits_def del: to_bits.simps)
  let ?r = "r\<lparr>br_bit_pos := br_bit_pos r + 8\<rparr>"
  have "bits_value (br_buf r) (br_bit_pos r) 8 = 255"
    using Suc.prems(1) unfolding b holds_append by (intro holds_to_bits) (simp_all del: to_bits.simps)
  moreover have "latm_payload_length ?r (len + 255) (k + 1) =
      Some (len + 255 + (n - 255), ?r\<lparr>br_bit_pos := br_bit_pos ?r + length (length_bits (n - 255))\<rparr>)"
    using Suc.hyps(2) Suc.prems d unfolding b holds_append
    by (intro Suc.hyps(1)) (simp_all del: to_bits.simps)
  ultimately show ?case
    using Suc.prems d \<open>n \<ge> 255\<close> b
    by (subst latm_payload_length.simps) (simp add: get_bits_eq length_length_bits del: to_bits.simps)
qed

lemma holds_head:
  assumes "holds_bits b 0 (latm_head asc)" "length asc \<in> {16, 25, 26}"
  shows "bits_value b 0 1 = 0 \<and> bits_value b 1 1 = 1 \<and> bits_value b 2 1 = 0 \<and> bits_value b 3 2 = 0 \<and>
    bits_value b 13 1 = 1 \<and> bits_value b 14 6 = 0 \<and> bits_value b 20 4 = 0 \<and> bits_value b 24 3 = 0 \<and>
    bits_value b 27 2 = 0 \<and> holds_bits b 37 asc \<and>
    bits_value b 29 8 = length (latm_head asc) - 50 \<and>
    bits_value b (length (latm_head asc) - 13) 3 = 0 \<and> bits_value b (length (latm_head asc) - 2) 1 = 0 \<and>
    bits_value b (length (latm_head asc) - 1) 1 = 0"
proof -
  define pad where "pad = btc_a2dp_latm_bits_pad_to_byte (length asc + 2)"
  have p: "pad = (if length asc = 16 then 6 else if length asc = 25 then 5 else 4)"
    using assms(2) by (auto simp: pad_def btc_a2dp_latm_bits_pad_to_byte_def)
  have l: "length (latm_head asc) = 50 + (length asc + pad)"
    using latm_head_length [OF assms(2)] assms(2) p by auto
  note h = assms(1) [unfolded latm_head_def Let_def value_bits_def holds_append length_to_bits length_append, folded pad_def]
  show ?thesis
    using h assms(2) p unfolding l
    by (auto simp del: to_bits.simps bits_value.simps One_nat_def dest!: holds_mod)
qed

lemma header_reads:
  assumes "holds_bits b 0 (latm_prefix asc n)" "length asc \<in> {16, 25, 26}" "n div 255 \<le> 32"
    "length (latm_prefix asc n) \<le> 8 * in_len" "8 * in_len < 2 ^ 32"
  shows "latm_header b in_len =
    Some (n, \<lparr>br_buf = b, br_byte_len = in_len, br_bit_pos = length (latm_prefix asc n)\<rparr>)"
proof -
  let ?h = "length (latm_head asc)"
  define r where "r p = \<lparr>br_buf = b, br_byte_len = in_len, br_bit_pos = p\<rparr>" for p
  have r [simp]: "br_buf (r p) = b" "br_bit_pos (r p) = p" "(r p)\<lparr>br_bit_pos := q\<rparr> = r q"
    "btc_a2dp_latm_bits_total (r p) = 8 * in_len" for p q
    using assms(5) by (simp_all add: r_def btc_a2dp_latm_bits_total_def)
  have hd: "holds_bits b 0 (latm_head asc)" and lb: "holds_bits b ?h (length_bits n)"
    using assms(1) by (simp_all add: holds_append)
  note v = holds_head [OF hd assms(2)]
  have hl: "?h = 72 \<or> ?h = 80" using latm_head_length [OF assms(2)] by auto
  have t: "?h \<le> 8 * in_len" using assms(4) by simp
  have g1: "btc_a2dp_latm_get_value (r 3) = Some (bits_value b 5 8, r 13)"
    using v t hl by (subst get_value_octet) (auto simp del: bits_value.simps)
  have "btc_a2dp_latm_get_value (r 27) = Some (?h - 50, r 37)"
    using v t hl by (subst get_value_octet) (auto simp del: bits_value.simps)
  then have a: "latm_skip_mux_asc 1 (r 27) = Some (r (?h - 13))"
    using t hl by (auto simp: latm_skip_mux_asc_def skip_bits_eq)
  have tl: "latm_skip_mux_tail 1 (r (?h - 13)) = Some (0, r ?h)"
    using v t hl
    by (auto simp: latm_skip_mux_tail_def latm_skip_frame_length_def latm_skip_other_data_def get_bits_eq skip_bits_eq
        simp del: bits_value.simps One_nat_def)
  have s: "btc_a2dp_latm_skip_stream_mux_config (r 1) = Some (0, r ?h)"
    using v t hl g1 a tl
    by (auto simp: btc_a2dp_latm_skip_stream_mux_config_def get_bits_eq skip_bits_eq
        simp del: bits_value.simps One_nat_def)
  have l: "latm_payload_length (r ?h) 0 0 = Some (0 + n, (r ?h)\<lparr>br_bit_pos := br_bit_pos (r ?h) + length (length_bits n)\<rparr>)"
    using lb assms(3,4) by (intro payload_length_reads) simp_all
  have "btc_a2dp_latm_get_bits (r 0) 1 = Some (0, r 1)"
    using v t hl by (auto simp: get_bits_eq simp del: bits_value.simps One_nat_def)
  with s l show ?thesis
    by (simp add: latm_header_def btc_a2dp_latm_get_payload_length_type0_def flip: r_def)
qed

lemma holds_octet: "holds_bits b (8 * q) (to_bits 8 (unat x)) \<Longrightarrow> b q = x"
proof -
  assume "holds_bits b (8 * q) (to_bits 8 (unat x))"
  moreover have "unat x < 2 ^ 8" using unsigned_less [of x, where 'a = nat] by simp
  ultimately have "bits_value b (8 * q) 8 = unat x" by (rule holds_to_bits)
  moreover have "of_nat (bits_value b (8 * q + 0) 8) = push_bit 0 (b q) OR drop_bit (8 - 0) (b (q + 1))"
    by (rule bits_value_8) simp
  moreover have "drop_bit 8 (b (q + 1)) = 0" by (rule bit_word_eqI) (auto simp: bit_simps dest: bit_imp_le_length)
  ultimately show ?thesis by simp
qed

lemma holds_payload: "holds_bits b (8 * q) (payload_bits xs) \<Longrightarrow> i < length xs \<Longrightarrow> b (q + i) = xs ! i"
proof (induction xs arbitrary: q i)
  case (Cons x xs)
  have h: "holds_bits b (8 * q) (to_bits 8 (unat x))" "holds_bits b (8 * (q + 1)) (payload_bits xs)"
    using Cons.prems(1) by (simp_all add: payload_bits_def holds_append algebra_simps del: to_bits.simps)
  show ?case
    using holds_octet [OF h(1)] Cons.IH [OF h(2), of "i - 1"] Cons.prems(2) by (cases i) simp_all
qed simp

lemma holds_put_at:
  assumes "length xs \<le> 8 * cap" shows "holds_bits (put_at (memcpy out (\<lambda>i. 0) cap) 0 xs) 0 xs"
proof -
  have "\<not> bit_at (memcpy out (\<lambda>i. 0) cap) p" if "p < 8 * cap" for p
    using that by (simp add: bit_at_def memcpy_def less_mult_imp_div_less mult.commute)
  with assms show ?thesis by (auto simp: holds_bits_def bit_at_put_at)
qed

lemma put_at_octets:
  assumes "length xs = 8 * k" "k \<le> i"
  shows "put_at m 0 xs i = m i"
  using assms by (intro buf_eq_bits) (simp add: bit_at_put_at)

text \<open>What a frame that was built is.\<close>

lemma build_frameE:
  assumes "btc_a2dp_latm_build_frame cfg raw n out cap same = Some (len, frame)"
  obtains c r o' asc k where "cfg = Some c" "raw = Some r" "out = Some o'" "\<not> same" "latm_asc c = Some asc"
    "0 < n" "n div 255 \<le> 32" "8 * k = length (latm_prefix asc n)" "k = btc_a2dp_latm_au_prefix_bytes cfg n" "len = k + n"
    "len \<le> cap" "frame = put_at (memcpy o' (\<lambda>i. 0) cap) 0 (latm_prefix asc n @ payload_bits (map r [0..<n]))"
proof -
  from assms obtain c r o' where p: "cfg = Some c" "raw = Some r" "out = Some o'"
    by (auto simp: btc_a2dp_latm_build_frame_def split: option.splits)
  from assms [unfolded p build_frame_eq] obtain asc where a: "latm_asc c = Some asc" by (auto split: option.splits)
  let ?bs = "latm_prefix asc n @ payload_bits (map r [0..<n])" and ?k = "btc_a2dp_latm_au_prefix_bytes (Some c) n"
  from assms [unfolded p build_frame_eq] a have b: "\<not> same" "0 < n" "n div 255 \<le> 32" "length ?bs \<le> 8 * cap"
    "len = length ?bs div 8" "frame = put_at (memcpy o' (\<lambda>i. 0) cap) 0 ?bs"
    by (auto simp: Let_def not_less split: if_splits)
  have k: "8 * ?k = length (latm_prefix asc n)" by (rule prefix_bytes_eq [OF a b(3)])
  then have l: "length ?bs = 8 * (?k + n)" by (simp add: length_payload_bits)
  then have "len = ?k + n" "len \<le> cap" using b(4,5) by simp_all
  with that p a b k show ?thesis by blast
qed

text \<open>
  C4 (roundtrip). From every frame that the source builds, the sink takes out the AAC frame that went in: the
  header ends where the source says it does, the frame is as long as the source says, and the octets behind the
  header are those of the AAC frame.
\<close>

theorem latm_build_extract:
  assumes "btc_a2dp_latm_build_frame cfg (Some raw) n out cap same = Some (len, frame)" "n \<le> cap'"
  shows "len = btc_a2dp_latm_au_prefix_bytes cfg n + n \<and> len = btc_a2dp_latm_frame_byte_len cfg n \<and>
    btc_a2dp_latm_check_hdr_len (Some frame) len = Some (8 * btc_a2dp_latm_au_prefix_bytes cfg n) \<and>
    btc_a2dp_latm_extract_raw_data_block (Some frame) len (Some dst) cap' False = Some (n, memcpy dst raw n)"
proof -
  from assms(1) obtain c o' asc k where c: "cfg = Some c" and a: "latm_asc c = Some asc" and n: "0 < n" "n div 255 \<le> 32"
    and k: "8 * k = length (latm_prefix asc n)" "k = btc_a2dp_latm_au_prefix_bytes cfg n" "len = k + n" and cap: "len \<le> cap"
    and f: "frame = put_at (memcpy o' (\<lambda>i. 0) cap) 0 (latm_prefix asc n @ payload_bits (map raw [0..<n]))"
    by (rule build_frameE) auto
  have "holds_bits frame 0 (latm_prefix asc n @ payload_bits (map raw [0..<n]))"
    using cap k unfolding f by (intro holds_put_at) (simp add: length_payload_bits)
  then have h: "holds_bits frame 0 (latm_prefix asc n)" "holds_bits frame (8 * k) (payload_bits (map raw [0..<n]))"
    by (simp_all add: holds_append [of _ _ "latm_prefix asc n"] k(1) del: append_assoc length_append)
  have s: "len < 2 ^ 16" using prefix_length [OF a, of n] n(2) k by (auto split: if_splits)
  have hd: "latm_header frame len = Some (n, \<lparr>br_buf = frame, br_byte_len = len, br_bit_pos = 8 * k\<rparr>)"
    using header_reads [OF h(1) asc_length [OF a] n(2), of len] k s by simp
  have "frame (k + i) = raw i" if "i < n" for i using holds_payload [OF h(2), of i] that by simp
  then have m: "memcpy dst (\<lambda>i. frame (k + i)) n = memcpy dst raw n" by (auto simp: memcpy_def)
  have "0 < len" "latm_bits_left \<lparr>br_buf = frame, br_byte_len = len, br_bit_pos = 8 * k\<rparr> = 8 * n"
    using n s k(3) by (simp_all add: latm_bits_left_def btc_a2dp_latm_bits_total_def)
  with hd m assms(2) k(3) have "btc_a2dp_latm_check_hdr_len (Some frame) len = Some (8 * k)"
    "btc_a2dp_latm_extract_raw_data_block (Some frame) len (Some dst) cap' False = Some (n, memcpy dst raw n)"
    by (simp_all add: btc_a2dp_latm_check_hdr_len_def btc_a2dp_latm_extract_raw_data_block_def Let_def mult.commute)
  moreover have "length (latm_head asc) + (length (length_bits n) + n * 8) = 8 * len" using k by simp
  then have "len = btc_a2dp_latm_frame_byte_len cfg n"
    using s a by (simp add: btc_a2dp_latm_frame_byte_len_def c config_bits_eq payload_length_bits_eq Let_def)
  ultimately show ?thesis using k by simp
qed

text \<open>
  C32 (equivalence). The frame is the header that is built by itself, into room for as many octets as the source
  asks for, with the AAC frame copied behind it: the octets before the frame are those of the header, the octets of the
  room behind it are cleared, and nothing is written beyond the room in either case.
\<close>

theorem latm_header_then_copy:
  assumes "btc_a2dp_latm_build_frame cfg (Some raw) n (Some out) cap same = Some (len, frame)"
  shows "\<exists>hdr. btc_a2dp_latm_build_hdr cfg n (Some out) (btc_a2dp_latm_au_prefix_bytes cfg n) = Some hdr \<and>
    (\<forall>i\<ge>btc_a2dp_latm_au_prefix_bytes cfg n. hdr i = out i) \<and> len \<le> cap \<and>
    frame = (\<lambda>i. if i < btc_a2dp_latm_au_prefix_bytes cfg n then hdr i
                 else if i < len then raw (i - btc_a2dp_latm_au_prefix_bytes cfg n)
                 else if i < cap then 0 else out i)"
proof -
  from assms obtain c o' asc k where c: "cfg = Some c" "Some out = Some o'" and a: "latm_asc c = Some asc"
    and n: "0 < n" "n div 255 \<le> 32"
    and k: "8 * k = length (latm_prefix asc n)" "k = btc_a2dp_latm_au_prefix_bytes cfg n" "len = k + n" and cap: "len \<le> cap"
    and f: "frame = put_at (memcpy o' (\<lambda>i. 0) cap) 0 (latm_prefix asc n @ payload_bits (map raw [0..<n]))"
    by (rule build_frameE) auto
  let ?bs = "latm_prefix asc n @ payload_bits (map raw [0..<n])"
  let ?h = "put_at (memcpy out (\<lambda>i. 0) k) 0 (latm_prefix asc n)"
  have o: "o' = out" using c(2) by simp
  have l: "length ?bs = 8 * len" using k by (simp add: length_payload_bits)
  have h: "holds_bits frame 0 ?bs" using cap k unfolding f by (intro holds_put_at) (simp add: length_payload_bits)
  then have hp: "holds_bits frame 0 (latm_prefix asc n)" "holds_bits frame (8 * k) (payload_bits (map raw [0..<n]))"
    by (simp_all add: holds_append [of _ _ "latm_prefix asc n"] k(1) del: append_assoc length_append)
  have hh: "holds_bits ?h 0 (latm_prefix asc n)" using k(1) by (intro holds_put_at) simp
  have "frame i = ?h i" if "i < k" for i
    using hp(1) hh that k(1) by (intro buf_eq_bits) (simp add: holds_bits_def)
  moreover have "frame i = raw (i - k)" if "\<not> i < k" "i < len" for i
    using holds_payload [OF hp(2), of "i - k"] that k(3) by simp
  moreover have "frame i = memcpy out (\<lambda>i. 0) cap i" if "\<not> i < len" for i
    unfolding f o using that by (intro put_at_octets [OF l]) simp
  moreover have "?h i = out i" if "k \<le> i" for i
    using put_at_octets [OF k(1) [symmetric] that, of "memcpy out (\<lambda>i. 0) k"] that by (simp add: memcpy_def)
  moreover have "btc_a2dp_latm_build_hdr cfg n (Some out) k = Some ?h"
    using a n k(1) by (simp add: c(1) build_hdr_eq)
  ultimately show ?thesis
    using cap unfolding k(2) [symmetric] by (intro exI [of _ ?h]) (auto simp: fun_eq_iff memcpy_def)
qed

subsection \<open>Which elements are accepted\<close>

lemma popcount_0: "btc_a2dp_latm_popcount_u v = 0 \<longleftrightarrow> v = 0"
  by (subst btc_a2dp_latm_popcount_u.simps) simp

lemma popcount_1: "btc_a2dp_latm_popcount_u (ucast x) = 1 \<longleftrightarrow> one_bit x"
proof -
  let ?v = "ucast x :: u32"
  have "btc_a2dp_latm_popcount_u ?v = 1 \<longleftrightarrow> ?v \<noteq> 0 \<and> ?v AND (?v - 1) = 0"
    by (subst btc_a2dp_latm_popcount_u.simps) (simp add: popcount_0)
  also have "\<dots> \<longleftrightarrow> (\<exists>k < 32. ?v = 2 ^ k)"
    using and_pred_eq_0_iff [of ?v] by (cases "?v = 0") auto
  also have "\<dots> \<longleftrightarrow> (\<exists>k. {n. bit ?v n} = {k})"
    using one_bit_two_power [of ?v] bits_of_two_power [where 'a = 32] by auto
  also have "{n. bit ?v n} = {n. bit x n}" by (auto simp: bit_simps dest: bit_imp_le_length)
  also have "(\<exists>k. {n. bit x n} = {k}) \<longleftrightarrow> card {n. bit x n} = 1" by (simp add: card_1_singleton_iff)
  also have "\<dots> \<longleftrightarrow> one_bit x" by (rule bits_card_1)
  finally show ?thesis .
qed

lemma popcount_zero: "btc_a2dp_latm_popcount_u (ucast (x :: u8)) = 0 \<longleftrightarrow> x = 0"
proof -
  have "unat x < 2 ^ 32" using unsigned_less [of x, where 'a = nat] by simp
  then have "unat (ucast x :: u32) = unat x" by (simp only: unsigned_ucast_eq) (simp add: take_bit_nat_eq_self)
  then have "(ucast x :: u32) = 0 \<longleftrightarrow> x = 0" by (metis unat_eq_zero)
  then show ?thesis by (simp add: popcount_0)
qed

lemma high_7: "one_bit (x AND 0xFE) \<longleftrightarrow> one_bit (drop_bit 1 x)"
proof -
  have b: "bit (x AND 0xFE) i \<longleftrightarrow> 1 \<le> i \<and> bit x i" for i
  proof (cases "i < 8")
    case True
    then show ?thesis using less_8_cases [OF True] by (auto simp: bit_simps)
  qed auto
  have "i \<in> (\<lambda>i. i + 1) ` {i. bit x (1 + i)} \<longleftrightarrow> 1 \<le> i \<and> bit x i" for i
  proof
    assume "1 \<le> i \<and> bit x i"
    then show "i \<in> (\<lambda>i. i + 1) ` {i. bit x (1 + i)}" by (intro image_eqI [of _ _ "i - 1"]) simp_all
  qed auto
  then have "{i. bit (x AND 0xFE) i} = (\<lambda>i. i + 1) ` {i. bit (drop_bit 1 x) i}"
    unfolding b bit_drop_bit_eq comp_def by blast
  then have "card {i. bit (x AND 0xFE) i} = card {i. bit (drop_bit 1 x) i}" by (simp add: card_image)
  then show ?thesis by (simp only: bits_card_1 [symmetric])
qed

lemma profile_cases:
  "btc_a2dp_latm_m24_cie0_to_asc_profile x =
    (if one_bit (x AND 0xFE)
     then Some \<lparr>asc_obj = (if x AND 0xFE = 0x20 then 4 else if x AND 0xFE = 0x10 then 6 else if x AND 0xFE = 2 then 39 else 2),
                he_wrapper = (if x AND 0xFE = 8 then 5 else if x AND 0xFE = 4 then 29 else 0)\<rparr>
     else None)"
proof -
  have "(ucast (drop_bit 1 x) :: u32) AND 0x7F = ucast (drop_bit 1 x)"
  proof -
    have "(ucast (drop_bit 1 x) :: u32) AND 0x7F = take_bit 7 (ucast (drop_bit 1 x))"
      by (simp add: take_bit_eq_mask mask_eq_exp_minus_1)
    also have "\<dots> = ucast (drop_bit 1 x)" by (rule bit_word_eqI) (auto simp: bit_simps dest: bit_imp_le_length)
    finally show ?thesis .
  qed
  then have m: "\<not> (ucast (drop_bit 1 x) AND 0x7F = (0 :: u32) \<or> btc_a2dp_latm_popcount_u (ucast (drop_bit 1 x) AND 0x7F) \<noteq> 1)
      \<longleftrightarrow> one_bit (x AND 0xFE)"
    using popcount_1 [of "drop_bit 1 x"] popcount_0 [of "ucast (drop_bit 1 x)"] by (auto simp: high_7)
  show ?thesis
  proof (cases "one_bit (x AND 0xFE)")
    case False
    with m show ?thesis by (simp add: btc_a2dp_latm_m24_cie0_to_asc_profile_def Let_def)
  next
    case True
    obtain y where y: "x AND 0xFE = y" by simp
    have a: "x AND 0x80 = y AND 0x80" "x AND 0x40 = y AND 0x40" "x AND 0x20 = y AND 0x20" "x AND 0x10 = y AND 0x10"
      "x AND 0x08 = y AND 0x08" "x AND 0x04 = y AND 0x04" "x AND 0x02 = y AND 0x02"
      unfolding y [symmetric] by (simp_all add: and.assoc)
    have "x AND 0xFE \<noteq> 1"
    proof
      assume "x AND 0xFE = 1"
      then have "bit (x AND 0xFE) 0" by simp
      then show False by (simp add: bit_simps)
    qed
    with True consider "y = 2" | "y = 4" | "y = 8" | "y = 16" | "y = 32" | "y = 64" | "y = 128"
      unfolding one_bit_def y by blast
    moreover have "\<not> (ucast (drop_bit 1 x) AND 0x7F = (0 :: u32) \<or> btc_a2dp_latm_popcount_u (ucast (drop_bit 1 x) AND 0x7F) \<noteq> 1)"
      using m True by blast
    note if_not_P [OF this]
    ultimately show ?thesis
      unfolding btc_a2dp_latm_m24_cie0_to_asc_profile_def Let_def \<open>(if _ \<or> _ then _ else _) = _\<close> if_P [OF True]
      by cases (simp_all only: a y, simp_all)
  qed
qed

lemma high_nibble_one: "one_bit (drop_bit 4 (v AND 0xF0)) \<longleftrightarrow> one_bit (v AND 0xF0 :: u8)"
  using high_nibble_bits [of v] by (simp only: bits_card_1 [symmetric] high_nibble(2))

lemma high_nibble_zero: "drop_bit 4 (v AND 0xF0) = 0 \<longleftrightarrow> v AND 0xF0 = (0 :: u8)"
  using high_nibble_bits [of v] by (simp only: bits_card_0 [symmetric] high_nibble(2))

text \<open>The rate, as an index, and whether half of it is a rate.\<close>

definition m24_freq_ok :: "u8 \<Rightarrow> u8 \<Rightarrow> bool" where
  "m24_freq_ok f1 f2 = (one_bit f1 \<and> f2 AND 0xF0 = 0 \<or> f1 = 0 \<and> one_bit (f2 AND 0xF0))"

lemma sample_rate_cases:
  "case btc_a2dp_latm_m24_sample_rate_hz cie of
     None \<Rightarrow> \<not> m24_freq_ok (cie 1) (cie 2)
   | Some hz \<Rightarrow> m24_freq_ok (cie 1) (cie 2) \<and>
       (\<exists>sf<12. btc_a2dp_latm_hz_to_sf_index hz = Some sf \<and>
          (btc_a2dp_latm_sf_index_core_from_output sf \<noteq> None \<longleftrightarrow> cie 1 AND 0xE0 = 0))"
proof -
  let ?h = "drop_bit 4 (cie 2 AND 0xF0)" and ?f = "cie 1"
  have e: "(btc_a2dp_latm_popcount_u (ucast ?f) + btc_a2dp_latm_popcount_u (ucast ?h) = 1) =
      (one_bit ?f \<and> ?h = 0 \<or> ?f = 0 \<and> one_bit ?h)"
    unfolding sum_eq_1 popcount_1 popcount_zero ..
  have ok: "m24_freq_ok ?f (cie 2) \<longleftrightarrow> one_bit ?f \<and> ?h = 0 \<or> ?f = 0 \<and> one_bit ?h"
    by (simp only: m24_freq_ok_def high_nibble_one high_nibble_zero)
  have lt: "unat ?h < 16"
  proof -
    have "?h = take_bit 4 ?h" by (rule bit_word_eqI) (auto simp: bit_simps dest: bit_imp_le_length)
    then have "unat ?h = take_bit 4 (unat ?h)" by (metis unsigned_take_bit_eq)
    then show ?thesis using take_bit_nat_less_exp [of 4 "unat ?h"] by simp
  qed
  note t = btc_a2dp_latm_hz_to_sf_index_def btc_a2dp_latm_sf_index_core_from_output_def btc_a2dp_latm_sf_index_to_hz_def
  show ?thesis
  proof (cases "m24_freq_ok ?f (cie 2)")
    case False
    then have "btc_a2dp_latm_m24_sample_rate_hz cie = None"
      unfolding ok e [symmetric] by (simp only: btc_a2dp_latm_m24_sample_rate_hz_def Let_def simp_thms if_True)
    with False show ?thesis by simp
  next
    case True
    then have "\<not> (btc_a2dp_latm_popcount_u (ucast ?f) + btc_a2dp_latm_popcount_u (ucast ?h) \<noteq> 1)"
      unfolding ok e [symmetric] by blast
    note d = btc_a2dp_latm_m24_sample_rate_hz_def [of cie, unfolded Let_def, unfolded if_not_P [OF this]]
    from True consider "one_bit ?f" "?h = 0" | "?f = 0" "one_bit ?h" using ok by blast
    then show ?thesis
    proof cases
      case 1
      then have c: "btc_a2dp_latm_popcount_u (ucast ?h) = 0" by (simp only: popcount_zero)
      show ?thesis
        using 1(1) True d [unfolded c] unfolding one_bit_def by (elim disjE) (simp_all add: t)
    next
      case 2
      then have c: "btc_a2dp_latm_popcount_u (ucast ?h) \<noteq> 0" by (simp only: popcount_zero) (simp add: one_bit_nonzero)
      consider "?h = 1" | "?h = 2" | "?h = 4" | "?h = 8" using 2(2) lt unfolding one_bit_def by auto
      then show ?thesis
        using True d [unfolded if_P [OF c]] 2(1) by cases (simp_all add: t)
    qed
  qed
qed

lemma channel_cases: "btc_a2dp_latm_m24_channel_config cie \<noteq> None \<longleftrightarrow> one_bit (cie 2 AND 0x0F)"
proof -
  let ?c = "cie 2 AND 0x0F"
  have lt: "unat ?c < 16"
  proof -
    have "?c = take_bit 4 (cie 2)" by (simp add: take_bit_eq_mask mask_eq_exp_minus_1)
    then have "unat ?c = take_bit 4 (unat (cie 2))" by (simp only: unsigned_take_bit_eq)
    then show ?thesis using take_bit_nat_less_exp [of 4 "unat (cie 2)"] by simp
  qed
  have "one_bit ?c \<longleftrightarrow> ?c = 1 \<or> ?c = 2 \<or> ?c = 4 \<or> ?c = 8" using lt unfolding one_bit_def by auto
  then show ?thesis
    using popcount_1 [of ?c] by (auto simp: btc_a2dp_latm_m24_channel_config_def Let_def one_bit_nonzero)
qed

lemma latm_asc_iff:
  "latm_asc cfg \<noteq> None \<longleftrightarrow>
    one_bit (cfg 3 AND 0xFE) \<and> m24_freq_ok (cfg 4) (cfg 5) \<and> one_bit (cfg 5 AND 0x0F) \<and>
    \<not> ((cfg 3 AND 0xFE = 8 \<or> cfg 3 AND 0xFE = 4) \<and> cfg 4 AND 0xE0 \<noteq> 0)"
proof -
  let ?cie = "\<lambda>i. cfg (3 + i)"
  note f = sample_rate_cases [of ?cie] and c = channel_cases [of ?cie]
  show ?thesis
  proof (cases "one_bit (cfg 3 AND 0xFE) \<and> m24_freq_ok (cfg 4) (cfg 5) \<and> one_bit (cfg 5 AND 0x0F)")
    case True
    with f obtain hz sf where s: "btc_a2dp_latm_m24_sample_rate_hz ?cie = Some hz" "sf < 12"
      "btc_a2dp_latm_hz_to_sf_index hz = Some sf"
      "btc_a2dp_latm_sf_index_core_from_output sf \<noteq> None \<longleftrightarrow> cfg 4 AND 0xE0 = 0"
      by (auto split: option.splits)
    from True c obtain ch where ch: "btc_a2dp_latm_m24_channel_config ?cie = Some ch" by auto
    have "sf \<noteq> 15" using s(2) by simp
    with True s(1,3) s(4) [symmetric] ch show ?thesis
      by (auto simp: latm_asc_def latm_m24_choice_def profile_cases asc_bits_of_def)
  next
    case False
    then have "latm_m24_choice ?cie = None"
      using f c by (auto simp: latm_m24_choice_def profile_cases split: option.splits Option.bind_splits)
    with False show ?thesis by (auto simp: latm_asc_def)
  qed
qed

text \<open>
  C17 (functional). With an element that the stack accepts as a configuration, the source builds a frame exactly
  for an AAC frame of 1 to 8414 octets that fits the room, unless the element says HE-AAC, of either version, at
  an output rate of 8, 11.025 or 12 kHz: half of such a rate has no index, and no frame is built at all.
\<close>

theorem latm_build_accepts:
  assumes "fst (A2D_ParsM24Info (Some ie) (Some cfg) False) = A2D_SUCCESS"
  shows "btc_a2dp_latm_build_frame (Some cfg) (Some raw) n (Some out) cap False \<noteq> None \<longleftrightarrow>
    \<not> ((cfg 3 AND 0xFE = 0x08 \<or> cfg 3 AND 0xFE = 0x04) \<and> cfg 4 AND 0xE0 \<noteq> 0) \<and>
    1 \<le> n \<and> n \<le> 8414 \<and> btc_a2dp_latm_au_prefix_bytes (Some cfg) n + n \<le> cap"
proof -
  have a: "latm_asc cfg \<noteq> None \<longleftrightarrow> \<not> ((cfg 3 AND 0xFE = 0x08 \<or> cfg 3 AND 0xFE = 0x04) \<and> cfg 4 AND 0xE0 \<noteq> 0)"
    using assms unfolding A2D_ParsM24Info_False latm_asc_iff m24_freq_ok_def by blast
  have n: "n div 255 > 32 \<longleftrightarrow> n > 8414" by auto
  show ?thesis
  proof (cases "latm_asc cfg")
    case None
    with a show ?thesis by (simp add: build_frame_eq)
  next
    case (Some asc)
    show ?thesis
    proof (cases "n div 255 > 32")
      case False
      with prefix_bytes_eq [OF Some, of n]
      have "length (latm_prefix asc n @ payload_bits (map raw [0..<n])) = 8 * (btc_a2dp_latm_au_prefix_bytes (Some cfg) n + n)"
        by (simp add: length_payload_bits)
      with a Some n False show ?thesis by (simp add: build_frame_eq Let_def Suc_le_eq del: length_append)
    next
      case True
      with a Some n show ?thesis by (simp add: build_frame_eq Let_def)
    qed
  qed
qed

subsection \<open>An example\<close>

text \<open>AAC-LC at 44.1 kHz in stereo, two octets, and the 12 octets they become.\<close>

definition m24_example :: buf where
  "m24_example = bytes [8, 0, 2, 0x40, 0x01, 0x04, 0, 0, 0]"

lemma m24_example_choice:
  "btc_a2dp_latm_m24_cie0_to_asc_profile (m24_example 3) = Some \<lparr>asc_obj = 2, he_wrapper = 0\<rparr>"
  "btc_a2dp_latm_m24_sample_rate_hz (\<lambda>i. m24_example (3 + i)) = Some 44100"
  "btc_a2dp_latm_m24_channel_config (\<lambda>i. m24_example (3 + i)) = Some 2"
proof -
  have b: "m24_example 3 = 0x40" "m24_example 4 = 1" "m24_example 5 = 4" by (simp_all add: m24_example_def bytes_def)
  have p: "btc_a2dp_latm_popcount_u 0 = 0" "btc_a2dp_latm_popcount_u 1 = 1" "btc_a2dp_latm_popcount_u 4 = 1"
    using popcount_1 [of 1] popcount_1 [of 4] by (simp_all add: popcount_0 one_bit_def)
  show "btc_a2dp_latm_m24_cie0_to_asc_profile (m24_example 3) = Some \<lparr>asc_obj = 2, he_wrapper = 0\<rparr>"
    by (simp add: profile_cases one_bit_def b)
  show "btc_a2dp_latm_m24_sample_rate_hz (\<lambda>i. m24_example (3 + i)) = Some 44100"
    by (simp add: btc_a2dp_latm_m24_sample_rate_hz_def b p Let_def)
  show "btc_a2dp_latm_m24_channel_config (\<lambda>i. m24_example (3 + i)) = Some 2"
    by (simp add: btc_a2dp_latm_m24_channel_config_def b p Let_def)
qed

lemma m24_example_asc: "latm_asc m24_example = Some (to_bits 5 2 @ to_bits 4 4 @ to_bits 4 2 @ to_bits 3 0)"
proof -
  have "btc_a2dp_latm_hz_to_sf_index 44100 = Some 4" by (simp add: btc_a2dp_latm_hz_to_sf_index_def)
  then have "latm_m24_choice (\<lambda>i. m24_example (3 + i)) = Some (\<lparr>asc_obj = 2, he_wrapper = 0\<rparr>, 4, 2)"
    by (simp add: latm_m24_choice_def m24_example_choice)
  then show ?thesis by (simp add: latm_asc_def asc_bits_of_def otype_bits_def del: to_bits.simps)
qed

lemma m24_example_prefix: "btc_a2dp_latm_au_prefix_bytes (Some m24_example) 2 = 10"
  using prefix_bytes_eq [OF m24_example_asc, of 2] prefix_length [OF m24_example_asc, of 2] by (simp del: to_bits.simps)

lemma m24_example_built:
  "\<exists>frame. btc_a2dp_latm_build_frame (Some m24_example) (Some (bytes [0x11, 0x22])) 2 (Some (bytes [])) 16 False = Some (12, frame)"
  using prefix_length [OF m24_example_asc, of 2]
  by (simp add: build_frame_eq m24_example_asc Let_def length_payload_bits del: to_bits.simps length_append)
    (simp add: length_payload_bits del: to_bits.simps)

lemma latm_build_extract_witness:
  "\<exists>frame. btc_a2dp_latm_build_frame (Some m24_example) (Some (bytes [0x11, 0x22])) 2 (Some (bytes [])) 16 False = Some (12, frame) \<and>
     btc_a2dp_latm_check_hdr_len (Some frame) 12 = Some 80 \<and>
     btc_a2dp_latm_extract_raw_data_block (Some frame) 12 (Some (bytes [])) 4 False =
       Some (2, memcpy (bytes []) (bytes [0x11, 0x22]) 2)"
proof -
  obtain frame where f: "btc_a2dp_latm_build_frame (Some m24_example) (Some (bytes [0x11, 0x22])) 2 (Some (bytes [])) 16 False =
    Some (12, frame)"
    using m24_example_built by blast
  from latm_build_extract [OF f, of 4 "bytes []"] f show ?thesis by (simp add: m24_example_prefix)
qed

lemma latm_header_then_copy_witness:
  "\<exists>frame hdr. btc_a2dp_latm_build_frame (Some m24_example) (Some (bytes [0x11, 0x22])) 2 (Some (bytes [])) 16 False = Some (12, frame) \<and>
     btc_a2dp_latm_build_hdr (Some m24_example) 2 (Some (bytes [])) 10 = Some hdr \<and> frame 9 = hdr 9 \<and> frame 10 = 0x11 \<and> frame 11 = 0x22"
proof -
  obtain frame where f: "btc_a2dp_latm_build_frame (Some m24_example) (Some (bytes [0x11, 0x22])) 2 (Some (bytes [])) 16 False =
    Some (12, frame)"
    using m24_example_built by blast
  from latm_header_then_copy [OF f] f show ?thesis by (auto simp: m24_example_prefix bytes_def)
qed

lemma latm_build_accepts_witness:
  "btc_a2dp_latm_build_frame (Some m24_example) (Some (bytes [0x11, 0x22])) 2 (Some (bytes [])) 16 False \<noteq> None"
proof -
  have b: "m24_example 0 = 8" "m24_example (Suc 0) = 0" "m24_example 2 = 2" "m24_example 3 = 0x40" "m24_example 4 = 1" "m24_example 5 = 4"
    by (simp_all add: m24_example_def bytes_def)
  then have "fst (A2D_ParsM24Info (Some m24_zero) (Some m24_example) False) = A2D_SUCCESS"
    unfolding A2D_ParsM24Info_False by (simp add: one_bit_def)
  from latm_build_accepts [OF this, of "bytes [0x11, 0x22]" 2 "bytes []" 16] b show ?thesis by (simp add: m24_example_prefix)
qed

end
