(* ===== verification/Latm_Parser.thy ===== *)
theory Latm_Parser
  imports Bit_Stream
begin

text \<open>
  stack/a2dp/latm\_parser.c: the parser that takes AAC frames out of the LATM stream of A2DP. The
  bit reader has its position in a \<open>size_t\<close>, 32 bits wide on the device, so positions and lengths
  are 32-bit words and wrap as they do there. The two loops that the code ends only on the
  contents of the stream are partial functions (\<open>None\<close> is a loop that does not end), and so is
  everything that uses them; that they end is a theorem. A pointer that is compared with NULL is
  an option, and what is behind it is returned. The octets parsed and those written are two buffers; parsing
  in place, which latm\_parser.h allows, is not covered.
\<close>

subsection \<open>Data (latm\_parser.h)\<close>

datatype latm_error_t =
    LATM_OK
  | LATM_ERR_NULL_POINTER
  | LATM_ERR_NOT_ENOUGH_DATA
  | LATM_ERR_INVALID_SYNC
  | LATM_ERR_UNSUPPORTED_CONFIG
  | LATM_ERR_INVALID_FRAME
  | LATM_ERR_BUFFER_TOO_SMALL

record latm_audio_config_t =
  object_type :: u8
  sample_rate :: u32
  channel_config :: u8
  frame_length_flag :: u8
  config_valid :: bool

record latm_frame_info_t =
  frame_length_bits :: u32
  frame_length_bytes :: u32
  bit_offset :: u32
  is_byte_aligned :: bool

record latm_parser_t =
  audio_mux_version :: u8
  all_streams_same_time :: u8
  num_sub_frames :: u8
  num_program :: u8
  num_layer :: u8
  frame_length_type :: u8
  frame_length :: u32
  audio_config :: latm_audio_config_t
  config_parsed :: bool
  use_same_stream_mux :: bool
  stream_mux_config :: "u8 list"
  stream_mux_config_len :: u8

definition latm_parser_zero :: latm_parser_t where
  "latm_parser_zero = \<lparr>audio_mux_version = 0, all_streams_same_time = 0, num_sub_frames = 0,
     num_program = 0, num_layer = 0, frame_length_type = 0, frame_length = 0,
     audio_config = \<lparr>object_type = 0, sample_rate = 0, channel_config = 0, frame_length_flag = 0,
       config_valid = False\<rparr>,
     config_parsed = False, use_same_stream_mux = False, stream_mux_config = replicate 64 0,
     stream_mux_config_len = 0\<rparr>"

definition sample_rate_table :: "u32 list" where
  "sample_rate_table = [96000, 88200, 64000, 48000, 44100, 32000,
     24000, 22050, 16000, 12000, 11025, 8000, 7350]"

subsection \<open>The bit reader\<close>

record bitstream_t =
  bs_data :: buf
  bs_data_len :: u32
  bs_bit_pos :: u32

definition bs_init :: "buf \<Rightarrow> u32 \<Rightarrow> bitstream_t" where
  "bs_init data len = \<lparr>bs_data = data, bs_data_len = len, bs_bit_pos = 0\<rparr>"

definition bs_bits_left :: "bitstream_t \<Rightarrow> u32" where
  "bs_bits_left bs = bs_data_len bs * 8 - bs_bit_pos bs"

text \<open>
  The loop of \<open>bs_read_bits\<close>: at most eight bits of one byte in every round. The number of bits
  taken is a \<open>size_t\<close>, and \<open>n\<close> is an octet.
\<close>

definition bits_in_this_byte :: "u32 \<Rightarrow> u8 \<Rightarrow> u32" where
  "bits_in_this_byte pos n = (let b = 8 - (pos AND 7) in if ucast n < b then ucast n else b)"

function read_loop :: "buf \<Rightarrow> u32 \<Rightarrow> u8 \<Rightarrow> u32 \<Rightarrow> u32 \<times> u32" where
  "read_loop data pos n result =
     (if n = 0 then (result, pos)
      else
        let byte_pos = drop_bit 3 pos;
            bit_in_byte = pos AND 7;
            b = bits_in_this_byte pos n;
            m = push_bit (unat b) 1 - 1;
            shift = 8 - bit_in_byte - b;
            val = drop_bit (unat shift) (data (unat byte_pos)) AND (m :: u8)
        in read_loop data (pos + b) (n - ucast b) (push_bit (unat b) result OR ucast val))"
  by pat_completeness auto

lemma pos_and_7: "unat ((pos :: u32) AND 7) = unat pos mod 8"
proof -
  have "pos AND 7 = take_bit 3 pos" by (simp add: take_bit_eq_mask mask_eq_exp_minus_1)
  then have "unat (pos AND 7) = take_bit 3 (unat pos)" by (simp only: unsigned_take_bit_eq)
  then show ?thesis by (simp add: take_bit_eq_mod)
qed

lemma pos_div_8: "unat (drop_bit 3 (pos :: u32)) = unat pos div 8"
proof -
  have "drop_bit 3 pos = pos div 8" by (simp add: drop_bit_eq_div)
  then show ?thesis by (simp only: unat_div_distrib) simp
qed

lemma unat_ucast_u8: "unat (ucast (n :: u8) :: u32) = unat n"
proof -
  have "unat n < 2 ^ 32" using unsigned_less [of n, where 'a = nat] by simp
  then show ?thesis by (simp only: unsigned_ucast_eq) (simp add: take_bit_nat_eq_self)
qed

lemma unat_bits_in_this_byte:
  "unat (bits_in_this_byte pos n) = min (unat n) (8 - unat pos mod 8)"
proof -
  have "unat (8 - (pos AND 7)) = 8 - unat pos mod 8"
    by (simp add: unat_sub word_le_nat_alt pos_and_7)
  then show ?thesis
    by (simp add: bits_in_this_byte_def Let_def word_less_nat_alt unat_ucast_u8 min_def)
qed

lemma bits_in_this_byte_bounds:
  assumes "n \<noteq> 0"
  shows "0 < unat (bits_in_this_byte pos n)" and "unat (bits_in_this_byte pos n) \<le> unat n"
    and "unat pos mod 8 + unat (bits_in_this_byte pos n) \<le> 8"
  using assms by (auto simp: unat_bits_in_this_byte unat_gt_0)

lemma unat_sub_bits:
  assumes "n \<noteq> 0"
  shows "unat (n - ucast (bits_in_this_byte pos n)) = unat n - unat (bits_in_this_byte pos n)"
proof -
  have "unat (bits_in_this_byte pos n) < 256"
    using bits_in_this_byte_bounds(3) [OF assms, of pos] by linarith
  then have "unat (ucast (bits_in_this_byte pos n) :: u8) = unat (bits_in_this_byte pos n)"
    by (simp add: unsigned_ucast_eq take_bit_nat_eq_self)
  then show ?thesis
    using bits_in_this_byte_bounds(2) [OF assms, of pos] by (simp add: unat_sub word_le_nat_alt)
qed

termination read_loop
  by (relation "measure (\<lambda>(data, pos, n, result). unat n)")
    (use bits_in_this_byte_bounds(1) in \<open>auto simp: unat_sub_bits unat_gt_0 intro!: diff_less\<close>)

declare read_loop.simps [simp del]

definition bs_read_bits :: "bitstream_t \<Rightarrow> u8 \<Rightarrow> u32 \<times> bitstream_t" where
  "bs_read_bits bs n =
     (if n = 0 \<or> n > 32 then (0, bs)
      else if bs_bits_left bs < ucast n then (0, bs)
      else let (result, pos) = read_loop (bs_data bs) (bs_bit_pos bs) n 0
           in (result, bs\<lparr>bs_bit_pos := pos\<rparr>))"

definition bs_read_bit :: "bitstream_t \<Rightarrow> u8 \<times> bitstream_t" where
  "bs_read_bit bs = (case bs_read_bits bs 1 of (v, bs') \<Rightarrow> (ucast v, bs'))"

definition bs_get_bit_pos :: "bitstream_t \<Rightarrow> u32" where
  "bs_get_bit_pos bs = bs_bit_pos bs"

definition bs_skip_bits :: "bitstream_t \<Rightarrow> u32 \<Rightarrow> bitstream_t" where
  "bs_skip_bits bs n =
     (let pos = bs_bit_pos bs + n
      in bs\<lparr>bs_bit_pos := (if pos > bs_data_len bs * 8 then bs_data_len bs * 8 else pos)\<rparr>)"

subsection \<open>The configuration of the stream\<close>

fun value_loop :: "nat \<Rightarrow> u32 \<Rightarrow> bitstream_t \<Rightarrow> u32 \<times> bitstream_t" where
  "value_loop 0 v bs = (v, bs)"
| "value_loop (Suc k) v bs =
     (case bs_read_bits bs 8 of (x, bs') \<Rightarrow> value_loop k (push_bit 8 v OR x) bs')"

definition latm_get_value :: "bitstream_t \<Rightarrow> u32 \<times> bitstream_t" where
  "latm_get_value bs =
     (case bs_read_bits bs 2 of (n, bs') \<Rightarrow> value_loop (Suc (unat (ucast n :: u8))) 0 bs')"

definition parse_audio_specific_config ::
  "bitstream_t \<Rightarrow> latm_audio_config_t \<Rightarrow> latm_error_t \<times> bitstream_t \<times> latm_audio_config_t" where
  "parse_audio_specific_config bs config =
     (let (aot, bs) = bs_read_bits bs 5;
          aot = (ucast aot :: u8);
          (aot, bs) = (if aot = 31
                       then (case bs_read_bits bs 6 of (ext, bs) \<Rightarrow> (32 + (ucast ext :: u8), bs))
                       else (aot, bs));
          config = config\<lparr>object_type := aot\<rparr>;
          (sf, bs) = bs_read_bits bs 4;
          sf = (ucast sf :: u8)
      in if sf \<noteq> 0x0F \<and> \<not> sf < 13 then (LATM_ERR_UNSUPPORTED_CONFIG, bs, config)
         else
           let (rate, bs) = (if sf = 0x0F then bs_read_bits bs 24
                             else (sample_rate_table ! unat sf, bs));
               config = config\<lparr>sample_rate := rate\<rparr>;
               (ch, bs) = bs_read_bits bs 4;
               config = config\<lparr>channel_config := ucast ch\<rparr>;
               (config, bs) =
                 (if aot = 2
                  then let (fl, bs) = bs_read_bit bs;
                           (core, bs) = bs_read_bit bs;
                           bs = (if core \<noteq> 0 then bs_skip_bits bs 14 else bs);
                           (ext, bs) = bs_read_bit bs
                       in (config\<lparr>frame_length_flag := fl\<rparr>, bs)
                  else (config, bs))
           in (LATM_OK, bs, config\<lparr>config_valid := True\<rparr>))"

text \<open>The loop over the escape flags of otherDataLen.\<close>

partial_function (option) other_data_esc :: "bitstream_t \<Rightarrow> bitstream_t option" where
  "other_data_esc bs =
     (case bs_read_bit bs of (esc, bs') \<Rightarrow>
        if esc \<noteq> 0 then other_data_esc (bs_skip_bits bs' 8) else Some (bs_skip_bits bs' 8))"

text \<open>
  The tail of \<open>parse_stream_mux_config\<close> after the audio configuration: frame length, other data
  and checksum.
\<close>

definition mux_config_tail ::
  "bitstream_t \<Rightarrow> latm_parser_t \<Rightarrow> (latm_error_t \<times> bitstream_t \<times> latm_parser_t) option" where
  "mux_config_tail bs parser =
     (let (flt, bs) = bs_read_bits bs 3;
          parser = parser\<lparr>frame_length_type := ucast flt\<rparr>
      in if frame_length_type parser \<noteq> 0 \<and> frame_length_type parser \<noteq> 1
         then Some (LATM_ERR_UNSUPPORTED_CONFIG, bs, parser)
         else
           let (parser, bs) =
                 (if frame_length_type parser = 0
                  then (parser, snd (bs_read_bits bs 8))
                  else let (fl, bs) = bs_read_bits bs 9 in (parser\<lparr>frame_length := fl\<rparr>, bs));
               (other, bs) = bs_read_bit bs;
               after = (if other \<noteq> 0
                        then (if audio_mux_version parser = 1 then Some (snd (latm_get_value bs))
                              else other_data_esc bs)
                        else Some bs)
           in case after of
                None \<Rightarrow> None
              | Some bs \<Rightarrow>
                  let (crc, bs) = bs_read_bit bs;
                      bs = (if crc \<noteq> 0 then bs_skip_bits bs 8 else bs)
                  in Some (LATM_OK, bs, parser\<lparr>config_parsed := True\<rparr>))"

definition mux_audio_config ::
  "bitstream_t \<Rightarrow> latm_parser_t \<Rightarrow> latm_error_t \<times> bitstream_t \<times> latm_parser_t" where
  "mux_audio_config bs parser =
     (if audio_mux_version parser = 0
      then (case parse_audio_specific_config bs (audio_config parser) of
              (err, bs, config) \<Rightarrow> (err, bs, parser\<lparr>audio_config := config\<rparr>))
      else
        let (asc_len, bs) = latm_get_value bs;
            asc_start = bs_get_bit_pos bs;
            (err, bs, config) = parse_audio_specific_config bs (audio_config parser);
            parser = parser\<lparr>audio_config := config\<rparr>
        in if err \<noteq> LATM_OK then (err, bs, parser)
           else
             let asc_read = bs_get_bit_pos bs - asc_start;
                 bs = (if asc_read < asc_len then bs_skip_bits bs (asc_len - asc_read) else bs)
             in (LATM_OK, bs, parser))"

definition parse_stream_mux_config ::
  "bitstream_t \<Rightarrow> latm_parser_t \<Rightarrow> (latm_error_t \<times> bitstream_t \<times> latm_parser_t) option" where
  "parse_stream_mux_config bs parser =
     (let (ver, bs) = bs_read_bit bs;
          parser = parser\<lparr>audio_mux_version := ver\<rparr>;
          (ver_a, bs) = (if audio_mux_version parser = 1 then bs_read_bit bs else (0, bs))
      in if ver_a \<noteq> 0 then Some (LATM_ERR_UNSUPPORTED_CONFIG, bs, parser)
         else
           let bs = (if audio_mux_version parser = 1 then snd (latm_get_value bs) else bs);
               (same, bs) = bs_read_bit bs;
               (nsf, bs) = bs_read_bits bs 6;
               (npr, bs) = bs_read_bits bs 4;
               parser = parser\<lparr>all_streams_same_time := same, num_sub_frames := ucast nsf + 1,
                               num_program := ucast npr + 1\<rparr>
           in if num_program parser \<noteq> 1 then Some (LATM_ERR_UNSUPPORTED_CONFIG, bs, parser)
              else
                let (nly, bs) = bs_read_bits bs 3;
                    parser = parser\<lparr>num_layer := ucast nly + 1\<rparr>
                in if num_layer parser \<noteq> 1 then Some (LATM_ERR_UNSUPPORTED_CONFIG, bs, parser)
                   else
                     let (err, bs, parser) = mux_audio_config bs parser
                     in if err \<noteq> LATM_OK then Some (err, bs, parser) else mux_config_tail bs parser)"

partial_function (option) payload_loop :: "u32 \<Rightarrow> bitstream_t \<Rightarrow> (u32 \<times> bitstream_t) option" where
  "payload_loop len bs =
     (case bs_read_bits bs 8 of (v, bs') \<Rightarrow>
        if (ucast v :: u8) = 255 then payload_loop (len + ucast (ucast v :: u8)) bs'
        else Some (len + ucast (ucast v :: u8), bs'))"

definition parse_payload_length_info :: "bitstream_t \<Rightarrow> (u32 \<times> bitstream_t) option" where
  "parse_payload_length_info bs = payload_loop 0 bs"

subsection \<open>The parser\<close>

definition latm_parser_init :: "latm_parser_t option \<Rightarrow> latm_error_t \<times> latm_parser_t option" where
  "latm_parser_init parser =
     (case parser of None \<Rightarrow> (LATM_ERR_NULL_POINTER, None) | Some p \<Rightarrow> (LATM_OK, Some latm_parser_zero))"

definition latm_parser_reset :: "latm_parser_t option \<Rightarrow> latm_parser_t option" where
  "latm_parser_reset parser = map_option (\<lambda>_. latm_parser_zero) parser"

text \<open>The loop over the subframes; \<open>n\<close> are those left.\<close>

fun sub_frames_loop :: "nat \<Rightarrow> latm_parser_t \<Rightarrow> u32 \<Rightarrow> bitstream_t \<Rightarrow> (u32 \<times> bitstream_t) option" where
  "sub_frames_loop 0 parser len bs = Some (len, bs)"
| "sub_frames_loop (Suc n) parser len bs =
     (if frame_length_type parser = 0
      then (case parse_payload_length_info bs of
              None \<Rightarrow> None
            | Some (len', bs') \<Rightarrow> sub_frames_loop n parser len' bs')
      else if frame_length_type parser = 1 then sub_frames_loop n parser (frame_length parser) bs
      else sub_frames_loop n parser len bs)"

text \<open>
  Taking the frame out of the stream: a copy when it starts at an octet, otherwise a shift over
  two octets, the second of which counts as zero behind the end of the data.
\<close>

definition shifted_byte :: "buf \<Rightarrow> u32 \<Rightarrow> u32 \<Rightarrow> u32 \<Rightarrow> u8" where
  "shifted_byte data data_len bit_remainder src_byte =
     (let v = push_bit (unat bit_remainder) (data (unat src_byte))
      in if src_byte + 1 < data_len
         then v OR drop_bit (unat (8 - bit_remainder)) (data (unat (src_byte + 1)))
         else v)"

definition extract_frame :: "buf \<Rightarrow> u32 \<Rightarrow> u32 \<Rightarrow> u32 \<Rightarrow> u32 \<Rightarrow> buf \<Rightarrow> buf" where
  "extract_frame data data_len byte_offset bit_remainder len out =
     (if bit_remainder = 0
      then memcpy out (\<lambda>i. data (unat byte_offset + i)) (unat len)
      else memcpy out (\<lambda>i. shifted_byte data data_len bit_remainder (byte_offset + of_nat i)) (unat len))"

text \<open>
  \<open>latm_parse_frame\<close> up to the frame: the configuration, new or kept, and the lengths of the
  subframes, of which the last one counts.
\<close>

definition latm_frame_config ::
  "bitstream_t \<Rightarrow> latm_parser_t \<Rightarrow> (latm_error_t \<times> bitstream_t \<times> latm_parser_t) option" where
  "latm_frame_config bs p =
     (let (same, bs) = bs_read_bit bs;
          p = p\<lparr>use_same_stream_mux := (same \<noteq> 0)\<rparr>
      in if \<not> use_same_stream_mux p then parse_stream_mux_config bs p
         else if \<not> config_parsed p then Some (LATM_ERR_UNSUPPORTED_CONFIG, bs, p)
         else Some (LATM_OK, bs, p))"

definition latm_frame_header ::
  "bitstream_t \<Rightarrow> latm_parser_t \<Rightarrow> (latm_error_t \<times> latm_parser_t \<times> u32 \<times> bitstream_t) option" where
  "latm_frame_header bs p =
     (case latm_frame_config bs p of
        None \<Rightarrow> None
      | Some (err, bs, p) \<Rightarrow>
          if err \<noteq> LATM_OK then Some (err, p, 0, bs)
          else (case sub_frames_loop (unat (num_sub_frames p)) p 0 bs of
                  None \<Rightarrow> None
                | Some (len, bs) \<Rightarrow> Some (LATM_OK, p, len, bs)))"

definition latm_parse_frame ::
  "latm_parser_t option \<Rightarrow> buf option \<Rightarrow> u32 \<Rightarrow> buf option \<Rightarrow> u32 \<Rightarrow> u32 option \<Rightarrow>
   latm_frame_info_t option \<Rightarrow>
   (latm_error_t \<times> latm_parser_t option \<times> buf option \<times> u32 option \<times> latm_frame_info_t option) option" where
  "latm_parse_frame parser data data_len aac_out aac_out_size aac_len frame_info =
     (case (parser, data, aac_out, aac_len) of
        (Some p, Some d, Some out, Some al) \<Rightarrow>
          if data_len < 2
          then Some (LATM_ERR_NOT_ENOUGH_DATA, parser, aac_out, aac_len, frame_info)
          else
            (case latm_frame_header (bs_init d data_len) p of
               None \<Rightarrow> None
             | Some (err, p, len, bs) \<Rightarrow>
                 if err \<noteq> LATM_OK then Some (err, Some p, aac_out, aac_len, frame_info)
                 else
                   let bit_off = bs_get_bit_pos bs;
                       byte_off = drop_bit 3 bit_off;
                       rem = bit_off AND 7;
                       info = map_option (\<lambda>f. f\<lparr>frame_length_bits := len * 8,
                          frame_length_bytes := len, bit_offset := bit_off,
                          is_byte_aligned := (rem = 0)\<rparr>) frame_info
                   in if len > aac_out_size
                      then Some (LATM_ERR_BUFFER_TOO_SMALL, Some p, aac_out, aac_len, info)
                      else if byte_off + len > data_len
                      then Some (LATM_ERR_NOT_ENOUGH_DATA, Some p, aac_out, aac_len, info)
                      else Some (LATM_OK, Some p, Some (extract_frame d data_len byte_off rem len out),
                             Some len, info))
      | _ \<Rightarrow> Some (LATM_ERR_NULL_POINTER, parser, aac_out, aac_len, frame_info))"

definition latm_get_audio_config :: "latm_parser_t option \<Rightarrow> latm_audio_config_t option" where
  "latm_get_audio_config parser =
     (case parser of None \<Rightarrow> None
      | Some p \<Rightarrow> if config_valid (audio_config p) then Some (audio_config p) else None)"

definition latm_config_valid :: "latm_parser_t option \<Rightarrow> bool" where
  "latm_config_valid parser =
     (case parser of None \<Rightarrow> False | Some p \<Rightarrow> config_parsed p \<and> config_valid (audio_config p))"

subsection \<open>What the bit reader reads\<close>

lemma byte_field:
  fixes w :: u8
  assumes "b \<le> 8"
  shows "drop_bit s w AND (push_bit b 1 - 1) = take_bit b (drop_bit s w)"
proof -
  have "push_bit b (1 :: u8) - 1 = mask b" by (simp add: push_bit_eq_mult mask_eq_exp_minus_1)
  then show ?thesis by (simp add: take_bit_eq_mask)
qed

lemma unat_take_drop:
  fixes w :: u8
  shows "unat (take_bit b (drop_bit s w)) = unat w div 2 ^ s mod 2 ^ b"
proof -
  have "unat (take_bit b (drop_bit s w)) = take_bit b (unat (drop_bit s w))"
    by (rule unsigned_take_bit_eq)
  also have "unat (drop_bit s w) = drop_bit s (take_bit 8 (unat w))"
    using unsigned_drop_bit_eq [of s w, where 'a = nat] by simp
  also have "take_bit 8 (unat w) = unat w"
    using unsigned_less [of w, where 'a = nat] by (simp add: take_bit_nat_eq_self)
  finally show ?thesis by (simp add: take_bit_eq_mod drop_bit_eq_div)
qed

lemma push_or_take:
  fixes x :: u32 and y :: u8
  shows "push_bit b x OR ucast (take_bit b y) = push_bit b x + of_nat (unat (take_bit b y))"
proof -
  have "push_bit b x + ucast (take_bit b y) = push_bit b x OR ucast (take_bit b y)"
    by (rule disjunctive_add) (auto simp: bit_simps)
  then show ?thesis by simp
qed

lemma read_loop_spec:
  assumes "unat pos + unat n < 2 ^ 32"
  shows "read_loop data pos n result =
    (push_bit (unat n) result + of_nat (bits_value data (unat pos) (unat n)), pos + ucast n)"
  using assms
proof (induction data pos n result rule: read_loop.induct)
  case (1 data pos n result)
  show ?case
  proof (cases "n = 0")
    case True
    then show ?thesis by (subst read_loop.simps) simp
  next
    case False
    define b where "b = bits_in_this_byte pos n"
    define B where "B = unat b"
    let ?r = "unat pos mod 8" and ?w = "data (unat pos div 8)"
    let ?val = "take_bit B (drop_bit (8 - ?r - B) ?w)"
    have B: "0 < B" "B \<le> unat n" "?r + B \<le> 8"
      using bits_in_this_byte_bounds [OF False, of pos] by (simp_all add: B_def b_def)
    have n': "unat (n - ucast b) = unat n - B" using unat_sub_bits [OF False] by (simp add: B_def b_def)
    have pos': "unat (pos + b) = unat pos + B"
      using "1.prems" B by (simp add: unat_word_ariths B_def)
    have sh: "unat (8 - (pos AND 7) - b) = 8 - ?r - B"
      using B by (simp add: unat_sub word_le_nat_alt pos_and_7 B_def)
    have v: "unat ?val = bits_value data (unat pos) B"
      using B bits_value_byte [of "unat pos" B data] by (simp add: unat_take_drop)
    have ucast_b: "ucast (n - ucast b) = (ucast n - b :: u32)"
      using B n' by (simp add: word_unat_eq_iff unat_ucast_u8 unat_sub word_le_nat_alt B_def)
    have step: "read_loop data pos n result =
        read_loop data (pos + b) (n - ucast b) (push_bit B result OR ucast ?val)"
      using False B sh byte_field [of B "8 - ?r - B" ?w]
      by (subst read_loop.simps) (simp add: Let_def b_def [symmetric] B_def [symmetric] pos_div_8)
    have split: "bits_value data (unat pos) (unat n) =
        bits_value data (unat pos) B * 2 ^ (unat n - B) + bits_value data (unat pos + B) (unat n - B)"
      using bits_value_add [of data "unat pos" B "unat n - B"] B by simp
    have "push_bit (unat n - B) (push_bit B result OR ucast ?val) +
          of_nat (bits_value data (unat pos + B) (unat n - B)) =
        push_bit (unat n) result + of_nat (bits_value data (unat pos) (unat n))"
      unfolding split push_or_take v
      using B by (simp add: push_bit_eq_mult algebra_simps flip: power_add)
    moreover have "read_loop data (pos + b) (n - ucast b) (push_bit B result OR ucast ?val) =
        (push_bit (unat n - B) (push_bit B result OR ucast ?val) +
          of_nat (bits_value data (unat pos + B) (unat n - B)), pos + b + ucast (n - ucast b))"
      using "1.IH" [OF False refl refl refl refl refl refl] "1.prems" B sh n' pos'
        byte_field [of B "8 - ?r - B" ?w]
      by (simp add: b_def [symmetric] B_def [symmetric] pos_div_8)
    ultimately show ?thesis using step by (simp add: ucast_b)
  qed
qed

subsection \<open>Two runs on the same data\<close>

text \<open>
  Two readers at the same position whose data agree up to the length of the data. Every operation
  takes such readers to such readers and gives the same values; with the two readers equal this
  says that the position stays within the data. The length bound keeps the bit positions of the
  device from wrapping: a packet is far shorter than 256 MB.
\<close>

definition bs_ok :: "bitstream_t \<Rightarrow> bool" where
  "bs_ok bs \<longleftrightarrow> unat (bs_data_len bs) < 2 ^ 28 \<and> unat (bs_bit_pos bs) \<le> 8 * unat (bs_data_len bs)"

definition twin :: "u32 \<Rightarrow> bitstream_t \<Rightarrow> bitstream_t \<Rightarrow> bool" where
  "twin dl a b \<longleftrightarrow> bs_ok a \<and> bs_data_len a = dl \<and> bs_data_len b = dl \<and> bs_bit_pos b = bs_bit_pos a \<and>
     buf_agree (unat (bs_data_len a)) (bs_data a) (bs_data b)"

lemma twin_refl: "twin dl a a \<longleftrightarrow> bs_ok a \<and> bs_data_len a = dl"
  by (simp add: twin_def)

lemma bs_len_bits: "bs_ok bs \<Longrightarrow> unat (bs_data_len bs * 8) = 8 * unat (bs_data_len bs)"
  by (simp add: bs_ok_def unat_word_ariths)

lemma bs_left: "bs_ok bs \<Longrightarrow> unat (bs_bits_left bs) = 8 * unat (bs_data_len bs) - unat (bs_bit_pos bs)"
  using bs_len_bits [of bs] by (simp add: bs_bits_left_def bs_ok_def unat_sub word_le_nat_alt)

text \<open>The specification of \<open>bs_read_bits\<close> on a good position.\<close>

lemma bs_read_bits_eq:
  assumes "bs_ok bs"
  shows "bs_read_bits bs n =
    (if n = 0 \<or> 32 < n \<or> 8 * unat (bs_data_len bs) < unat (bs_bit_pos bs) + unat n then (0, bs)
     else (of_nat (bits_value (bs_data bs) (unat (bs_bit_pos bs)) (unat n)),
           bs\<lparr>bs_bit_pos := bs_bit_pos bs + ucast n\<rparr>))"
proof -
  have l: "bs_bits_left bs < ucast n \<longleftrightarrow> 8 * unat (bs_data_len bs) < unat (bs_bit_pos bs) + unat n"
    using assms bs_left [OF assms] by (auto simp: word_less_nat_alt unat_ucast_u8 bs_ok_def)
  show ?thesis
  proof (cases "8 * unat (bs_data_len bs) < unat (bs_bit_pos bs) + unat n")
    case False
    then have "unat (bs_bit_pos bs) + unat n < 2 ^ 32" using assms by (simp add: bs_ok_def)
    from read_loop_spec [OF this] show ?thesis by (simp add: bs_read_bits_def l)
  qed (simp add: bs_read_bits_def l)
qed

lemma bs_read_pos:
  assumes "bs_ok bs" and "unat (bs_bit_pos bs) + unat n \<le> 8 * unat (bs_data_len bs)"
  shows "unat (bs_bit_pos bs + ucast n) = unat (bs_bit_pos bs) + unat (n :: u8)"
  using assms by (simp add: unat_word_ariths unat_ucast_u8 bs_ok_def)

lemma bs_read_bits_twin [transfer_rule]:
  "rel_fun (twin dl) (rel_fun (=) (rel_prod (=) (twin dl))) bs_read_bits bs_read_bits"
proof (intro rel_funI)
  fix a b and n n' :: u8
  assume t: "twin dl a b" and [simp]: "n = n'"
  then have a: "bs_ok a" and b: "bs_ok b" by (auto simp: twin_def bs_ok_def)
  from t have e: "bs_data_len b = bs_data_len a" "bs_bit_pos b = bs_bit_pos a"
    and d: "buf_agree (unat dl) (bs_data a) (bs_data b)" and dl: "bs_data_len a = dl"
    by (auto simp: twin_def)
  show "rel_prod (=) (twin dl) (bs_read_bits a n) (bs_read_bits b n')"
  proof (cases "n' = 0 \<or> 32 < n' \<or> 8 * unat (bs_data_len a) < unat (bs_bit_pos a) + unat n'")
    case True
    then show ?thesis using t by (auto simp: bs_read_bits_eq a b e)
  next
    case False
    then have "unat (bs_bit_pos a) + unat n' \<le> 8 * unat (bs_data_len a)" by simp
    with False t a show ?thesis
      by (simp add: bs_read_bits_eq a b e dl d twin_def bits_value_agree [OF d] bs_ok_def bs_read_pos [OF a])
  qed
qed

lemma bs_skip_bits_twin [transfer_rule]:
  "rel_fun (twin dl) (rel_fun (=) (twin dl)) bs_skip_bits bs_skip_bits"
  by (auto simp: rel_fun_def twin_def bs_skip_bits_def Let_def bs_ok_def bs_len_bits
      word_less_nat_alt not_less)

lemma bs_get_bit_pos_twin [transfer_rule]: "rel_fun (twin dl) (=) bs_get_bit_pos bs_get_bit_pos"
  by (simp add: rel_fun_def twin_def bs_get_bit_pos_def)

lemma bs_read_bit_twin [transfer_rule]: "rel_fun (twin dl) (rel_prod (=) (twin dl)) bs_read_bit bs_read_bit"
  unfolding bs_read_bit_def by transfer_prover

lemma value_loop_twin [transfer_rule]:
  "rel_fun (=) (rel_fun (=) (rel_fun (twin dl) (rel_prod (=) (twin dl)))) value_loop value_loop"
proof -
  have "twin dl a b \<Longrightarrow> rel_prod (=) (twin dl) (value_loop k v a) (value_loop k v b)" for k v a b
  proof (induction k arbitrary: v a b)
    case (Suc k)
    obtain x a1 where a1: "bs_read_bits a 8 = (x, a1)" by fastforce
    have "rel_prod (=) (twin dl) (bs_read_bits a 8) (bs_read_bits b 8)"
      using bs_read_bits_twin Suc.prems by (auto simp: rel_fun_def)
    with a1 show ?case using Suc.IH by (cases "bs_read_bits b 8") auto
  qed simp
  then show ?thesis by (auto simp: rel_fun_def)
qed

lemma latm_get_value_twin [transfer_rule]: "rel_fun (twin dl) (rel_prod (=) (twin dl)) latm_get_value latm_get_value"
  unfolding latm_get_value_def by transfer_prover

lemma parse_audio_specific_config_twin [transfer_rule]:
  "rel_fun (twin dl) (rel_fun (=) (rel_prod (=) (rel_prod (twin dl) (=)))) parse_audio_specific_config
    parse_audio_specific_config"
  unfolding parse_audio_specific_config_def by transfer_prover

lemma mux_audio_config_twin [transfer_rule]:
  "rel_fun (twin dl) (rel_fun (=) (rel_prod (=) (rel_prod (twin dl) (=)))) mux_audio_config mux_audio_config"
  unfolding mux_audio_config_def by transfer_prover

text \<open>
  A round of either loop that goes on has read its bits, so it moves the position on, and the
  number of bits left bounds the number of rounds.
\<close>

definition bits_after :: "bitstream_t \<Rightarrow> nat" where
  "bits_after bs = 8 * unat (bs_data_len bs) - unat (bs_bit_pos bs)"

lemma bs_skip_bits_after:
  assumes "bs_ok bs" and "unat n < 2 ^ 31"
  shows "bits_after (bs_skip_bits bs n) \<le> bits_after bs"
  using assms by (simp add: bits_after_def bs_skip_bits_def Let_def bs_len_bits word_less_nat_alt
      bs_ok_def unat_word_ariths) arith

lemma bs_read_bits_after:
  assumes "bs_ok bs" and "bs_read_bits bs n = (v, bs')" and "v \<noteq> 0"
  shows "bits_after bs' < bits_after bs"
proof -
  have r: "\<not> (n = 0 \<or> 32 < n \<or> 8 * unat (bs_data_len bs) < unat (bs_bit_pos bs) + unat n)"
    using assms by (auto simp: bs_read_bits_eq split: if_splits)
  then have "bs' = bs\<lparr>bs_bit_pos := bs_bit_pos bs + ucast n\<rparr>"
    using assms(2) by (simp add: bs_read_bits_eq [OF assms(1)])
  moreover have "0 < unat n" using r by (simp add: unat_gt_0)
  ultimately show ?thesis using r bs_read_pos [OF assms(1), of n] by (simp add: bits_after_def) arith
qed

lemma bs_read_bits_same_len: "bs_data_len (snd (bs_read_bits bs n)) = bs_data_len bs"
  by (simp add: bs_read_bits_def Let_def case_prod_unfold)

lemma twin_readD:
  assumes "twin dl a b" and "bs_read_bits a n = (v, a')"
  obtains b' where "bs_read_bits b n = (v, b')" and "twin dl a' b'"
proof -
  have "rel_prod (=) (twin dl) (bs_read_bits a n) (bs_read_bits b n)"
    using bs_read_bits_twin assms(1) by (auto simp: rel_fun_def)
  with assms(2) show ?thesis using that by (cases "bs_read_bits b n") auto
qed

lemma twin_okD: "twin dl a b \<Longrightarrow> bs_ok a"
  by (simp add: twin_def)

lemma other_data_esc_total:
  "twin dl a b \<Longrightarrow> \<exists>a' b'. other_data_esc a = Some a' \<and> other_data_esc b = Some b' \<and> twin dl a' b'"
proof (induction "bits_after a" arbitrary: a b rule: less_induct)
  case less
  obtain v a1 where a1: "bs_read_bits a 1 = (v, a1)" by fastforce
  from twin_readD [OF less.prems a1] obtain b1 where b1: "bs_read_bits b 1 = (v, b1)"
    and t1: "twin dl a1 b1" .
  have t2: "twin dl (bs_skip_bits a1 8) (bs_skip_bits b1 8)"
    using bs_skip_bits_twin t1 by (auto simp: rel_fun_def)
  show ?case
  proof (cases "(ucast v :: u8) = 0")
    case True
    with a1 b1 t2 show ?thesis
      by (subst (1 2) other_data_esc.simps) (auto simp: bs_read_bit_def)
  next
    case False
    then have "v \<noteq> 0" by auto
    then have "bits_after a1 < bits_after a"
      using bs_read_bits_after [OF twin_okD [OF less.prems] a1] by simp
    moreover have "bits_after (bs_skip_bits a1 8) \<le> bits_after a1"
      by (rule bs_skip_bits_after) (use twin_okD [OF t1] in simp_all)
    ultimately show ?thesis
      using False a1 b1 less.hyps [OF _ t2]
      by (subst (1 2) other_data_esc.simps) (simp add: bs_read_bit_def)
  qed
qed

lemma payload_loop_total:
  "twin dl a b \<Longrightarrow> \<exists>n a' b'. payload_loop len a = Some (n, a') \<and> payload_loop len b = Some (n, b') \<and> twin dl a' b'"
proof (induction "bits_after a" arbitrary: a b len rule: less_induct)
  case less
  obtain v a1 where a1: "bs_read_bits a 8 = (v, a1)" by fastforce
  from twin_readD [OF less.prems a1] obtain b1 where b1: "bs_read_bits b 8 = (v, b1)"
    and t1: "twin dl a1 b1" .
  show ?case
  proof (cases "(ucast v :: u8) = 255")
    case False
    with a1 b1 t1 show ?thesis by (subst (1 2) payload_loop.simps) auto
  next
    case True
    then have "v \<noteq> 0" by auto
    then have "bits_after a1 < bits_after a"
      using bs_read_bits_after [OF twin_okD [OF less.prems] a1] by simp
    then show ?thesis
      using True a1 b1 less.hyps [OF _ t1, of "len + 255"]
      by (subst (1 2) payload_loop.simps) simp
  qed
qed

lemma other_data_esc_twin [transfer_rule]: "rel_fun (twin dl) (rel_option (twin dl)) other_data_esc other_data_esc"
  using other_data_esc_total by (fastforce simp: rel_fun_def)

lemma parse_payload_length_info_twin [transfer_rule]:
  "rel_fun (twin dl) (rel_option (rel_prod (=) (twin dl))) parse_payload_length_info parse_payload_length_info"
  using payload_loop_total [where len = 0] by (fastforce simp: rel_fun_def parse_payload_length_info_def)

lemma mux_config_tail_twin [transfer_rule]:
  "rel_fun (twin dl) (rel_fun (=) (rel_option (rel_prod (=) (rel_prod (twin dl) (=))))) mux_config_tail mux_config_tail"
  unfolding mux_config_tail_def by transfer_prover

lemma parse_stream_mux_config_twin [transfer_rule]:
  "rel_fun (twin dl) (rel_fun (=) (rel_option (rel_prod (=) (rel_prod (twin dl) (=))))) parse_stream_mux_config
    parse_stream_mux_config"
  unfolding parse_stream_mux_config_def by transfer_prover

lemma sub_frames_loop_twin [transfer_rule]:
  "rel_fun (=) (rel_fun (=) (rel_fun (=) (rel_fun (twin dl) (rel_option (rel_prod (=) (twin dl))))))
    sub_frames_loop sub_frames_loop"
proof -
  have "twin dl a b \<Longrightarrow> rel_option (rel_prod (=) (twin dl)) (sub_frames_loop n p len a) (sub_frames_loop n p len b)"
    for n p len a b
  proof (induction n arbitrary: len a b)
    case (Suc n)
    have "rel_option (rel_prod (=) (twin dl)) (parse_payload_length_info a) (parse_payload_length_info b)"
      using parse_payload_length_info_twin Suc.prems by (auto simp: rel_fun_def)
    then show ?case using Suc by (auto split: option.splits elim!: option.rel_cases)
  qed simp
  then show ?thesis by (auto simp: rel_fun_def)
qed

subsection \<open>The frame that is taken out\<close>

text \<open>The data with zeros behind their end, and the octet of the stream that starts at a bit.\<close>

definition padded :: "buf \<Rightarrow> nat \<Rightarrow> buf" where
  "padded data n = (\<lambda>k. if k < n then data k else 0)"

lemma extract_frame_bits:
  assumes "unat dl < 2 ^ 28" and "unat (drop_bit 3 pos) + unat len \<le> unat dl" and "i < unat len"
  shows "extract_frame d dl (drop_bit 3 pos) (pos AND 7) len out i =
    of_nat (bits_value (padded d (unat dl)) (unat pos + 8 * i) 8)"
proof -
  let ?q = "unat pos div 8" and ?r = "unat pos mod 8"
  have b: "?q + i < unat dl" using assms by (simp add: pos_div_8)
  have e: "unat pos + 8 * i = 8 * (?q + i) + ?r" by (simp add: algebra_simps)
  have v: "of_nat (bits_value (padded d (unat dl)) (unat pos + 8 * i) 8) =
      (push_bit ?r (padded d (unat dl) (?q + i)) OR
       drop_bit (8 - ?r) (padded d (unat dl) (?q + i + 1)) :: u8)"
    unfolding e by (rule bits_value_8) simp
  show ?thesis
  proof (cases "?r = 0")
    case True
    then have "pos AND 7 = 0" by (simp add: word_unat_eq_iff pos_and_7)
    then have "extract_frame d dl (drop_bit 3 pos) (pos AND 7) len out i = d (?q + i)"
      using assms(3) by (simp add: extract_frame_def memcpy_def pos_div_8)
    moreover have "drop_bit 8 w = 0" for w :: u8 by (rule bit_word_eqI) (simp add: bit_simps)
    ultimately show ?thesis unfolding v using True b by (simp add: padded_def)
  next
    case False
    then have z: "pos AND 7 \<noteq> 0" by (simp add: word_unat_eq_iff pos_and_7)
    have s: "unat (drop_bit 3 pos + of_nat i) = ?q + i" "unat (drop_bit 3 pos + of_nat i + 1) = ?q + i + 1"
      using b assms(1) by (simp_all add: unat_word_ariths pos_div_8 unat_of_nat)
    have r: "unat (8 - (pos AND 7)) = 8 - ?r"
      by (simp add: unat_sub word_le_nat_alt pos_and_7)
    show ?thesis unfolding v using assms(3) b z
      by (simp add: extract_frame_def memcpy_def shifted_byte_def Let_def s r pos_and_7
          word_less_nat_alt padded_def)
  qed
qed

lemma padded_agree: "buf_agree n d d' \<Longrightarrow> padded d n = padded d' n"
  by (auto simp: padded_def buf_agree_iff)

lemma extract_frame_local:
  assumes "unat dl < 2 ^ 28" and "unat (drop_bit 3 pos) + unat len \<le> unat dl" and "buf_agree (unat dl) d d'"
  shows "extract_frame d dl (drop_bit 3 pos) (pos AND 7) len out =
    extract_frame d' dl (drop_bit 3 pos) (pos AND 7) len out"
proof
  fix i
  show "extract_frame d dl (drop_bit 3 pos) (pos AND 7) len out i =
      extract_frame d' dl (drop_bit 3 pos) (pos AND 7) len out i"
  proof (cases "i < unat len")
    case True
    then show ?thesis using assms by (simp add: extract_frame_bits padded_agree [OF assms(3)])
  next
    case False
    then show ?thesis by (simp add: extract_frame_def memcpy_def)
  qed
qed

subsection \<open>The parser returns\<close>

lemma bs_ok_next:
  "bs_ok bs \<Longrightarrow> bs_read_bits bs n = (v, b) \<Longrightarrow> bs_ok b"
  "bs_ok bs \<Longrightarrow> bs_read_bit bs = (w, b) \<Longrightarrow> bs_ok b"
  "bs_ok bs \<Longrightarrow> latm_get_value bs = (x, b) \<Longrightarrow> bs_ok b"
  "bs_ok bs \<Longrightarrow> mux_audio_config bs p = (err, b, p') \<Longrightarrow> bs_ok b"
  "bs_ok bs \<Longrightarrow> bs_ok (bs_skip_bits bs k)"
  using bs_read_bits_twin [THEN rel_funD, THEN rel_funD, of "bs_data_len bs" bs bs n n]
    bs_read_bit_twin [THEN rel_funD, of "bs_data_len bs" bs bs]
    latm_get_value_twin [THEN rel_funD, of "bs_data_len bs" bs bs]
    mux_audio_config_twin [THEN rel_funD, THEN rel_funD, of "bs_data_len bs" bs bs p p]
    bs_skip_bits_twin [THEN rel_funD, THEN rel_funD, of "bs_data_len bs" bs bs k k]
  by (auto simp: twin_refl)

lemma bs_ok_snd:
  "bs_ok bs \<Longrightarrow> bs_ok (snd (bs_read_bits bs n))"
  "bs_ok bs \<Longrightarrow> bs_ok (snd (bs_read_bit bs))"
  "bs_ok bs \<Longrightarrow> bs_ok (snd (latm_get_value bs))"
  using bs_ok_next(1-3) [OF _ surjective_pairing] by blast+

lemma other_data_esc_defined: "bs_ok bs \<Longrightarrow> (other_data_esc bs = None) = False"
  using other_data_esc_total [of "bs_data_len bs" bs bs] by (auto simp: twin_refl)

lemma mux_config_tail_total: "bs_ok bs \<Longrightarrow> mux_config_tail bs p \<noteq> None"
  by (simp add: mux_config_tail_def Let_def case_prod_unfold bs_ok_snd other_data_esc_defined
      split: option.split)

lemma parse_stream_mux_config_total:
  assumes "bs_ok bs"
  shows "parse_stream_mux_config bs p \<noteq> None"
proof -
  obtain ver b1 where b1: "bs_read_bit bs = (ver, b1)" by fastforce
  obtain va b2 where b2: "(if ver = 1 then bs_read_bit b1 else (0, b1)) = (va, b2)" by fastforce
  define b3 where "b3 = (if ver = 1 then snd (latm_get_value b2) else b2)"
  obtain same b4 where b4: "bs_read_bit b3 = (same, b4)" by fastforce
  obtain nsf b5 where b5: "bs_read_bits b4 6 = (nsf, b5)" by fastforce
  obtain npr b6 where b6: "bs_read_bits b5 4 = (npr, b6)" by fastforce
  obtain nly b7 where b7: "bs_read_bits b6 3 = (nly, b7)" by fastforce
  have o1: "bs_ok b1" using bs_ok_next(2) [OF assms b1] .
  have o2: "bs_ok b2" using o1 b2 bs_ok_next(2) [OF o1] by (auto split: if_splits)
  have o3: "bs_ok b3" using o2 by (simp add: b3_def bs_ok_snd)
  have o7: "bs_ok b7"
    using bs_ok_next(1) [OF bs_ok_next(1) [OF bs_ok_next(1) [OF bs_ok_next(2) [OF o3 b4] b5] b6] b7] .
  have t: "mux_config_tail b8 q \<noteq> None" if "mux_audio_config b7 p' = (err, b8, q)" for err b8 q p'
    using mux_config_tail_total [OF bs_ok_next(4) [OF o7 that]] .
  show ?thesis
    using t by (simp add: parse_stream_mux_config_def Let_def b1 b2 b3_def [symmetric] b4 b5 b6 b7
        split: prod.split)
qed

lemma sub_frames_loop_total: "bs_ok bs \<Longrightarrow> (sub_frames_loop n p len bs = None) = False"
proof (induction n arbitrary: len bs)
  case (Suc n)
  from payload_loop_total [of "bs_data_len bs" bs bs 0] Suc.prems obtain k b where
    "parse_payload_length_info bs = Some (k, b)" "bs_ok b"
    by (auto simp: twin_refl parse_payload_length_info_def)
  then show ?case using Suc by simp
qed simp

lemma latm_frame_config_twin [transfer_rule]:
  "rel_fun (twin dl) (rel_fun (=) (rel_option (rel_prod (=) (rel_prod (twin dl) (=))))) latm_frame_config latm_frame_config"
  unfolding latm_frame_config_def by transfer_prover

lemma latm_frame_header_twin:
  "rel_fun (twin dl) (rel_fun (=) (rel_option (rel_prod (=) (rel_prod (=) (rel_prod (=) (twin dl))))))
    latm_frame_header latm_frame_header"
  unfolding latm_frame_header_def by transfer_prover

lemma latm_frame_config_total: "bs_ok bs \<Longrightarrow> latm_frame_config bs p \<noteq> None"
  using parse_stream_mux_config_total
  by (auto simp: latm_frame_config_def Let_def dest: bs_ok_next(2) split: prod.split)

lemma latm_frame_header_total:
  assumes "bs_ok bs"
  shows "latm_frame_header bs p \<noteq> None"
proof -
  have "rel_option (rel_prod (=) (rel_prod (twin (bs_data_len bs)) (=))) (latm_frame_config bs p)
      (latm_frame_config bs p)"
    using latm_frame_config_twin [of "bs_data_len bs"] assms by (auto simp: rel_fun_def twin_refl)
  then show ?thesis
    using latm_frame_config_total [OF assms, of p]
    by (auto simp: latm_frame_header_def twin_def sub_frames_loop_total split: option.splits)
qed

lemma bs_init_twin:
  "unat dl < 2 ^ 28 \<Longrightarrow> buf_agree (unat dl) d d' \<Longrightarrow> twin dl (bs_init d dl) (bs_init d' dl)"
  by (simp add: twin_def bs_ok_def bs_init_def)

text \<open>The header of a frame, for data that agree: the position reached lies within the data.\<close>

lemma latm_frame_header_init:
  assumes "unat dl < 2 ^ 28" and "buf_agree (unat dl) d d'"
  obtains err q len bs bs' where "latm_frame_header (bs_init d dl) p = Some (err, q, len, bs)"
    and "latm_frame_header (bs_init d' dl) p = Some (err, q, len, bs')"
    and "bs_get_bit_pos bs' = bs_get_bit_pos bs" and "unat (bs_get_bit_pos bs) \<le> 8 * unat dl"
proof -
  let ?a = "bs_init d dl" and ?b = "bs_init d' dl"
  have "rel_option (rel_prod (=) (rel_prod (=) (rel_prod (=) (twin dl)))) (latm_frame_header ?a p) (latm_frame_header ?b p)"
    using latm_frame_header_twin bs_init_twin [OF assms] by (auto simp: rel_fun_def)
  moreover have "latm_frame_header ?a p \<noteq> None"
    using bs_init_twin [OF assms] by (intro latm_frame_header_total) (simp add: twin_def)
  ultimately obtain err q len bs bs' where h: "latm_frame_header ?a p = Some (err, q, len, bs)"
    "latm_frame_header ?b p = Some (err, q, len, bs')" and t: "twin dl bs bs'"
    by (auto elim!: option.rel_cases)
  from h t that show ?thesis by (auto simp: twin_def bs_ok_def bs_get_bit_pos_def)
qed

subsection \<open>The reader as a queue of bits\<close>

text \<open>
  The contract of the reader: the bits that are left form a queue, and reading \<open>n\<close> bits takes
  \<open>n\<close> of them from its front as a number, or nothing when there are too few.
\<close>

definition bits_left :: "bitstream_t \<Rightarrow> bool list" where
  "bits_left bs = map (bit_at (bs_data bs)) [unat (bs_bit_pos bs)..<8 * unat (bs_data_len bs)]"

definition queue_read :: "bool list \<Rightarrow> nat \<Rightarrow> nat \<times> bool list" where
  "queue_read xs n =
     (if n = 0 \<or> 32 < n \<or> length xs < n then (0, xs) else (bits_number (take n xs), drop n xs))"

lemma bs_read_queue:
  assumes "bs_ok bs"
  shows "map_prod unat bits_left (bs_read_bits bs n) = queue_read (bits_left bs) (unat n) \<and>
    bs_ok (snd (bs_read_bits bs n))"
proof (cases "n = 0 \<or> 32 < n \<or> 8 * unat (bs_data_len bs) < unat (bs_bit_pos bs) + unat n")
  case True
  then show ?thesis using assms
    by (auto simp: bs_read_bits_eq queue_read_def bits_left_def word_less_nat_alt)
next
  case False
  then have n: "unat n \<le> 32" "unat (bs_bit_pos bs) + unat n \<le> 8 * unat (bs_data_len bs)" "0 < unat n"
    "\<not> 8 * unat (bs_data_len bs) - unat (bs_bit_pos bs) < unat n"
    by (auto simp: word_less_nat_alt unat_gt_0)
  then show ?thesis using False bs_read_pos [OF assms n(2)] bs_ok_snd(1) [OF assms, of n]
    by (simp add: bs_read_bits_eq assms queue_read_def bits_left_def bits_number_unat
        bits_value_number take_map drop_map)
qed

interpretation latm_bits: bit_source bs_ok bits_left "\<lambda>bs n. map_prod unat id (bs_read_bits bs (of_nat n))"
proof
  fix bs n
  assume "bs_ok bs" and n: "n \<le> 32" "n \<le> length (bits_left bs)"
  moreover have "unat (of_nat n :: u8) = n" using n(1) by (simp add: unat_of_nat)
  ultimately show "bs_ok (snd (map_prod unat id (bs_read_bits bs (of_nat n)))) \<and>
      map_prod unat id (bs_read_bits bs (of_nat n)) =
        (bits_number (take n (bits_left bs)), snd (map_prod unat id (bs_read_bits bs (of_nat n)))) \<and>
      bits_left (snd (map_prod unat id (bs_read_bits bs (of_nat n)))) = drop n (bits_left bs)"
    using bs_read_queue [of bs "of_nat n"]
    by (cases "bs_read_bits bs (of_nat n)") (auto simp: queue_read_def bits_number_def split: if_splits)
qed

text \<open>
  The bit reader implements the queue: for a stream whose position lies in its
  data, \<open>bs_read_bits\<close> gives the number the next bits denote and leaves the rest, and when fewer
  bits are left, or the width is not 1 to 32, it gives zero and leaves the stream as it is; the
  position it leaves lies in the data again.
\<close>

theorem bit_reader_refines:
  assumes "bs_ok bs"
  shows "map_prod unat bits_left (bs_read_bits bs n) = queue_read (bits_left bs) (unat n) \<and>
    bs_ok (snd (bs_read_bits bs n))"
  using assms by (rule bs_read_queue)

lemma bit_reader_refines_witness:
  "let bs = bs_init (bytes [0xA5, 0xC3]) 2
   in map_prod unat bits_left (bs_read_bits bs 12) = queue_read (bits_left bs) 12"
  using bit_reader_refines [of "bs_init (bytes [0xA5, 0xC3]) 2" 12]
  by (simp add: bs_ok_def bs_init_def)

text \<open>
  The length a skip is given is added with 32-bit wrap-around before it is compared
  with the end of the data, so a large length moves the reader backwards: from any position, to
  every position \<open>t\<close> of the data there is a length that moves it there. \<open>ascLen\<close> and the
  buffer fullness of the stream are such lengths.
\<close>

theorem skip_moves_anywhere:
  assumes "bs_ok bs" and "t \<le> 8 * unat (bs_data_len bs)"
  shows "unat (bs_bit_pos (bs_skip_bits bs (of_nat t - bs_bit_pos bs))) = t"
proof -
  have "t < 2 ^ 32" using assms by (simp add: bs_ok_def)
  then show ?thesis using assms
    by (simp add: bs_skip_bits_def Let_def bs_len_bits word_less_nat_alt unat_of_nat)
qed

lemma skip_moves_anywhere_witness:
  "let bs = (bs_init (bytes []) 4)\<lparr>bs_bit_pos := 20\<rparr>
   in unat (bs_bit_pos (bs_skip_bits bs (3 - 20))) = 3"
  using skip_moves_anywhere [of "(bs_init (bytes []) 4)\<lparr>bs_bit_pos := 20\<rparr>" 3]
  by (simp add: bs_ok_def bs_init_def)

subsection \<open>Frames\<close>

lemma latm_parse_frame_some:
  "latm_parse_frame (Some p) (Some d) dl (Some out) sz (Some al) fi =
    (if dl < 2 then Some (LATM_ERR_NOT_ENOUGH_DATA, Some p, Some out, Some al, fi)
     else case latm_frame_header (bs_init d dl) p of
       None \<Rightarrow> None
     | Some (err, q, len, bs) \<Rightarrow>
        if err \<noteq> LATM_OK then Some (err, Some q, Some out, Some al, fi)
        else let pos = bs_get_bit_pos bs;
                 info = map_option (\<lambda>f. f\<lparr>frame_length_bits := len * 8, frame_length_bytes := len,
                   bit_offset := pos, is_byte_aligned := (pos AND 7 = 0)\<rparr>) fi
             in if len > sz then Some (LATM_ERR_BUFFER_TOO_SMALL, Some q, Some out, Some al, info)
                else if drop_bit 3 pos + len > dl
                then Some (LATM_ERR_NOT_ENOUGH_DATA, Some q, Some out, Some al, info)
                else Some (LATM_OK, Some q,
                  Some (extract_frame d dl (drop_bit 3 pos) (pos AND 7) len out), Some len, info))"
  by (simp add: latm_parse_frame_def Let_def split: option.split prod.split)

text \<open>
  C37 (termination). Parsing a frame returns for every content of fewer than 2^28 octets, whatever
  the pointers: the two loops that the stream itself ends, over the escape flags of otherDataLen
  and over the octets of the payload length, do not run for ever.
\<close>

theorem latm_parse_frame_returns:
  assumes "unat data_len < 2 ^ 28"
  shows "\<exists>r. latm_parse_frame parser data data_len aac_out aac_out_size aac_len frame_info = Some r"
proof (cases "parser = None \<or> data = None \<or> aac_out = None \<or> aac_len = None")
  case True
  then show ?thesis by (auto simp: latm_parse_frame_def split: option.split)
next
  case False
  then obtain p d out al where s: "parser = Some p" "data = Some d" "aac_out = Some out" "aac_len = Some al"
    by auto
  obtain err q len bs where "latm_frame_header (bs_init d data_len) p = Some (err, q, len, bs)"
    using latm_frame_header_init [OF assms buf_agree_refl] by metis
  then show ?thesis by (auto simp: s latm_parse_frame_some Let_def)
qed

lemma latm_parse_frame_returns_witness:
  "\<exists>r. latm_parse_frame (Some latm_parser_zero) (Some (bytes [])) 100 (Some (bytes [])) 100 (Some 0) None
    = Some r"
  by (rule latm_parse_frame_returns) simp

lemma frame_inside:
  assumes "unat dl < 2 ^ 28" and "unat (sz :: u32) < 2 ^ 31" and "unat pos \<le> 8 * unat dl"
    and "\<not> len > sz" and "\<not> drop_bit 3 pos + len > dl"
  shows "unat (drop_bit 3 pos) + unat len \<le> unat dl"
proof -
  have "unat len \<le> unat sz" using assms(4) by (simp add: word_less_nat_alt)
  moreover have "unat (drop_bit 3 pos) \<le> unat dl" using assms(3) by (simp add: pos_div_8)
  ultimately show ?thesis using assms by (simp add: word_less_nat_alt unat_word_ariths)
qed

text \<open>
  C30 (bounds). Parsing a frame of fewer than \<open>2 ^ 28\<close> octets, into an output of fewer than
  \<open>2 ^ 31\<close>, stays inside its buffers, which are not the same: the outcome, all that is written
  included, depends only on the first \<open>data_len\<close> octets of the data, and of the output only its
  first \<open>aac_out_size\<close> octets change.
\<close>

theorem latm_parse_frame_in_bounds:
  assumes "unat data_len < 2 ^ 28" and "unat aac_out_size < 2 ^ 31"
    and "buf_agree (unat data_len) d d'"
  shows "\<exists>err p' out' al' fi'.
    latm_parse_frame (Some p) (Some d) data_len (Some out) aac_out_size (Some al) fi =
      Some (err, Some p', Some out', Some al', fi') \<and>
    latm_parse_frame (Some p) (Some d') data_len (Some out) aac_out_size (Some al) fi =
      Some (err, Some p', Some out', Some al', fi') \<and>
    (\<forall>i. unat aac_out_size \<le> i \<longrightarrow> out' i = out i)"
proof -
  obtain err q len bs bs' where h: "latm_frame_header (bs_init d data_len) p = Some (err, q, len, bs)"
      "latm_frame_header (bs_init d' data_len) p = Some (err, q, len, bs')"
      "bs_get_bit_pos bs' = bs_get_bit_pos bs"
    and pos: "unat (bs_get_bit_pos bs) \<le> 8 * unat data_len"
    using latm_frame_header_init [OF assms(1,3)] by metis
  let ?p = "bs_get_bit_pos bs"
  show ?thesis
  proof (cases "len > aac_out_size \<or> drop_bit 3 ?p + len > data_len")
    case True
    with h show ?thesis by (auto simp: latm_parse_frame_some Let_def)
  next
    case False
    then have "unat (drop_bit 3 ?p) + unat len \<le> unat data_len"
      using frame_inside [OF assms(1,2) pos] by blast
    note e = extract_frame_local [OF assms(1) this assms(3), of out]
    have "extract_frame d' data_len (drop_bit 3 ?p) (?p AND 7) len out i = out i"
      if "unat aac_out_size \<le> i" for i
      using that False by (simp add: extract_frame_def memcpy_def word_less_nat_alt)
    with h e False show ?thesis by (simp add: latm_parse_frame_some Let_def)
  qed
qed

lemma latm_parse_frame_in_bounds_witness:
  "\<exists>err p' out' al' fi'.
    latm_parse_frame (Some latm_parser_zero) (Some (bytes [0, 1, 2, 3])) 3 (Some (bytes [])) 2 (Some 0) None =
      Some (err, Some p', Some out', Some al', fi') \<and>
    latm_parse_frame (Some latm_parser_zero) (Some (bytes [0, 1, 2])) 3 (Some (bytes [])) 2 (Some 0) None =
      Some (err, Some p', Some out', Some al', fi') \<and>
    (\<forall>i. 2 \<le> i \<longrightarrow> out' i = bytes [] i)"
proof -
  have "buf_agree 3 (bytes [0, 1, 2, 3]) (bytes [0, 1, 2])"
    by (simp add: buf_agree_def bytes_def upt_rec)
  then show ?thesis
    using latm_parse_frame_in_bounds [of 3 2 "bytes [0, 1, 2, 3]" "bytes [0, 1, 2]" latm_parser_zero
        "bytes []" 0 None] by simp
qed

text \<open>
  When parsing a frame succeeds, the octets written are the octets of the
  stream that start at the bit the parser has reached, each read as the number of its eight bits
  (zeros behind the end of the data), however the copy is aligned; the rest of the output is
  unchanged.
\<close>

theorem latm_frame_octets:
  assumes "unat data_len < 2 ^ 28" and "unat aac_out_size < 2 ^ 31"
    and "latm_parse_frame (Some p) (Some d) data_len (Some out) aac_out_size (Some al) (Some fi) =
      Some (LATM_OK, Some p', Some out', Some len, Some fi')"
  shows "out' i =
    (if i < unat len then of_nat (bits_value (padded d (unat data_len)) (unat (bit_offset fi') + 8 * i) 8)
     else out i)"
proof -
  obtain err q n bs where h: "latm_frame_header (bs_init d data_len) p = Some (err, q, n, bs)"
    and pos: "unat (bs_get_bit_pos bs) \<le> 8 * unat data_len"
    using latm_frame_header_init [OF assms(1) buf_agree_refl] by metis
  let ?p = "bs_get_bit_pos bs"
  have r: "\<not> len > aac_out_size" "\<not> drop_bit 3 ?p + len > data_len" "bit_offset fi' = ?p"
    "out' = extract_frame d data_len (drop_bit 3 ?p) (?p AND 7) len out"
    using assms(3) by (auto simp: latm_parse_frame_some h Let_def split: if_splits)
  show ?thesis
  proof (cases "i < unat len")
    case True
    with extract_frame_bits [OF assms(1) frame_inside [OF assms(1,2) pos r(1,2)] True]
    show ?thesis by (simp add: r(3,4))
  next
    case False
    then show ?thesis by (simp add: r(4) extract_frame_def memcpy_def)
  qed
qed

text \<open>
  The sender's side of the payload of a frame whose configuration is kept (ISO/IEC 14496-3,
  PayloadLengthInfo and PayloadMux): a set bit, the length as octets of 255 and a last one below
  255, and the octets of the payload, all of them behind that first bit.
\<close>

definition length_octets :: "nat \<Rightarrow> u8 list" where
  "length_octets n = replicate (n div 255) 255 @ [of_nat (n mod 255)]"

definition carries_payload :: "buf \<Rightarrow> u8 list \<Rightarrow> bool" where
  "carries_payload d payload \<longleftrightarrow>
     bit_at d 0 \<and> octets_at d 1 (length_octets (length payload) @ payload)"

definition frame_octets :: "u8 list \<Rightarrow> nat" where
  "frame_octets payload = length payload div 255 + length payload + 2"

lemma read_octet:
  assumes "bs_ok bs" and "unat (bs_bit_pos bs) + 8 \<le> 8 * unat (bs_data_len bs)"
  shows "bs_read_bits bs 8 =
    (of_nat (bits_value (bs_data bs) (unat (bs_bit_pos bs)) 8), bs\<lparr>bs_bit_pos := bs_bit_pos bs + 8\<rparr>)"
    and "unat (bs_bit_pos bs + 8) = unat (bs_bit_pos bs) + 8"
  using assms bs_read_pos [OF assms(1), of 8] by (simp_all add: bs_read_bits_eq)

lemma ucast_of_octet: "(ucast (ucast (x :: u8) :: u32) :: u8) = x"
  by (rule bit_word_eqI) (simp add: bit_simps)

lemma payload_loop_octets:
  assumes "bs_ok bs" and "octets_at (bs_data bs) (unat (bs_bit_pos bs)) (replicate k 255 @ [r])"
    and "r \<noteq> 255" and "unat (bs_bit_pos bs) + 8 * Suc k \<le> 8 * unat (bs_data_len bs)"
  shows "payload_loop len bs =
    Some (len + of_nat (255 * k) + ucast r, bs\<lparr>bs_bit_pos := bs_bit_pos bs + of_nat (8 * Suc k)\<rparr>)"
  using assms
proof (induction k arbitrary: len bs)
  case 0
  then show ?case
    by (subst payload_loop.simps) (simp add: read_octet ucast_of_octet del: bits_value.simps)
next
  case (Suc k)
  let ?b = "bs\<lparr>bs_bit_pos := bs_bit_pos bs + 8\<rparr>"
  have n: "unat (bs_bit_pos bs + 8) = unat (bs_bit_pos bs) + 8"
    using Suc.prems by (simp add: read_octet(2))
  from Suc.prems(2) have o: "bits_value (bs_data bs) (unat (bs_bit_pos bs)) 8 = 255"
      "octets_at (bs_data bs) (unat (bs_bit_pos bs) + 8) (replicate k 255 @ [r])"
    by simp_all
  have "payload_loop (len + 255) ?b =
      Some (len + 255 + of_nat (255 * k) + ucast r, ?b\<lparr>bs_bit_pos := bs_bit_pos ?b + of_nat (8 * Suc k)\<rparr>)"
    by (rule Suc.IH) (use Suc.prems o n in \<open>simp_all add: bs_ok_def\<close>)
  moreover have "bs_read_bits bs 8 = (255, ?b)"
    using read_octet(1) [of bs] Suc.prems(1,4) by (simp add: o(1))
  then have "payload_loop len bs = payload_loop (len + 255) ?b"
    by (subst payload_loop.simps) simp
  ultimately show ?case by (simp add: algebra_simps)
qed

lemma latm_same_config:
  assumes "unat dl < 2 ^ 28" and "0 < dl" and "bit_at d 0" and "config_parsed p"
  shows "latm_frame_config (bs_init d dl) p =
    Some (LATM_OK, (bs_init d dl)\<lparr>bs_bit_pos := 1\<rparr>, p\<lparr>use_same_stream_mux := True\<rparr>)"
proof -
  have "bs_ok (bs_init d dl)" "0 < unat dl"
    using assms by (simp_all add: bs_ok_def bs_init_def unat_gt_0 word_gt_0)
  then have "bs_read_bits (bs_init d dl) 1 = (1, (bs_init d dl)\<lparr>bs_bit_pos := 1\<rparr>)"
    using assms(3) by (simp add: bs_read_bits_eq) (simp add: bs_init_def)
  then show ?thesis using assms(4) by (simp add: latm_frame_config_def bs_read_bit_def)
qed

lemma payload_length_sum:
  "of_nat (255 * (n div 255)) + ucast (of_nat (n mod 255) :: u8) = (of_nat n :: u32)"
proof -
  have "n mod 255 < 256" by (rule less_trans [of _ 255]) simp_all
  then have "ucast (of_nat (n mod 255) :: u8) = (of_nat (n mod 255) :: u32)"
    by (simp add: word_unat_eq_iff unsigned_ucast_eq unat_of_nat take_bit_nat_eq_self)
  then show ?thesis by (simp only: of_nat_add [symmetric] mult_div_mod_eq)
qed

text \<open>
  C14 (roundtrip). A payload that is packed behind the bit for a kept configuration, with its
  length in octets of 255 and a remainder, is what parsing the frame gives back, for every
  payload and although none of its octets is aligned in the stream; the state of the parser is
  the one before but for that bit.
\<close>

theorem latm_frame_roundtrip:
  assumes "unat data_len < 2 ^ 28" and "unat aac_out_size < 2 ^ 31"
    and "config_parsed p" and "num_sub_frames p = 1" and "frame_length_type p = 0"
    and "carries_payload d payload" and "frame_octets payload \<le> unat data_len"
    and "length payload \<le> unat aac_out_size"
  shows "latm_parse_frame (Some p) (Some d) data_len (Some out) aac_out_size (Some al) None =
    Some (LATM_OK, Some (p\<lparr>use_same_stream_mux := True\<rparr>), Some (store out 0 payload),
      Some (of_nat (length payload)), None)"
proof -
  define L where "L = length payload"
  define k where "k = L div 255"
  define pos :: u32 where "pos = of_nat (9 + 8 * k)"
  let ?b = "(bs_init d data_len)\<lparr>bs_bit_pos := 1\<rparr>" and ?q = "p\<lparr>use_same_stream_mux := True\<rparr>"
  have sz: "k + L + 2 \<le> unat data_len" using assms(7) by (simp add: frame_octets_def k_def L_def)
  then have dl: "0 < data_len" "\<not> data_len < 2" by (simp_all add: word_less_nat_alt)
  have oct: "octets_at d 1 (replicate k 255 @ [of_nat (L mod 255)])" "octets_at d (9 + 8 * k) payload"
    using assms(6) by (simp_all add: carries_payload_def length_octets_def octets_at_append k_def L_def
        algebra_simps)
  have "payload_loop 0 ?b = Some (0 + of_nat (255 * k) + ucast (of_nat (L mod 255) :: u8),
      ?b\<lparr>bs_bit_pos := bs_bit_pos ?b + of_nat (8 * Suc k)\<rparr>)"
  proof (rule payload_loop_octets)
    have "L mod 255 < 255" by simp
    then show "(of_nat (L mod 255) :: u8) \<noteq> 255"
      by (simp add: word_unat_eq_iff unat_of_nat)
  qed (use oct sz assms(1) in \<open>simp_all add: bs_ok_def bs_init_def\<close>)
  then have len: "payload_loop 0 ?b = Some (of_nat L, ?b\<lparr>bs_bit_pos := pos\<rparr>)"
    using payload_length_sum [of L] by (simp add: pos_def k_def algebra_simps)
  have h: "latm_frame_header (bs_init d data_len) p = Some (LATM_OK, ?q, of_nat L, ?b\<lparr>bs_bit_pos := pos\<rparr>)"
    using latm_same_config [OF assms(1) dl(1) _ assms(3), of d] assms(4-6) len
    by (simp add: latm_frame_header_def carries_payload_def parse_payload_length_info_def)
  have p: "unat pos = 9 + 8 * k" unfolding pos_def unat_of_nat using sz assms(1) by simp
  have l: "unat (of_nat L :: u32) = L" using sz assms(1) by (simp add: unat_of_nat)
  have "(9 + 8 * k) div 8 = k + 1" "L \<le> unat aac_out_size" using assms(8) by (simp_all add: L_def)
  then have in_range: "unat (drop_bit 3 pos) + unat (of_nat L :: u32) \<le> unat data_len"
    "\<not> drop_bit 3 pos + of_nat L > data_len" "\<not> of_nat L > aac_out_size"
    using sz assms(1) by (simp_all add: pos_div_8 p l word_less_nat_alt unat_word_ariths)
  have "extract_frame d data_len (drop_bit 3 pos) (pos AND 7) (of_nat L) out = store out 0 payload"
  proof
    fix i
    show "extract_frame d data_len (drop_bit 3 pos) (pos AND 7) (of_nat L) out i = store out 0 payload i"
    proof (cases "i < L")
      case True
      have "bits_value (padded d (unat data_len)) (9 + 8 * k + 8 * i) 8 = bits_value d (9 + 8 * k + 8 * i) 8"
        using sz True by (intro bits_value_agree [where k = "unat data_len"])
          (simp_all add: buf_agree_iff padded_def)
      also have "\<dots> = unat (payload ! i)" using octets_at_nth [OF oct(2)] True by (simp add: L_def)
      finally have "extract_frame d data_len (drop_bit 3 pos) (pos AND 7) (of_nat L) out i = payload ! i"
        using extract_frame_bits [OF assms(1) in_range(1), of i d out] True l p by simp
      with True show ?thesis by (simp add: store_0 L_def)
    next
      case False
      then have "extract_frame d data_len (drop_bit 3 pos) (pos AND 7) (of_nat L) out i = out i"
        by (simp add: extract_frame_def memcpy_def l)
      with False show ?thesis by (simp add: store_apply L_def)
    qed
  qed
  with h dl in_range(2,3) show ?thesis
    by (simp add: latm_parse_frame_some Let_def bs_get_bit_pos_def L_def)
qed

lemma latm_frame_roundtrip_witness:
  "\<exists>q. latm_parse_frame (Some (latm_parser_zero\<lparr>config_parsed := True, num_sub_frames := 1\<rparr>))
     (Some (bytes [0x81, 0x55, 0xFF, 0x80])) 4 (Some (bytes [])) 2 (Some 0) None =
   Some (LATM_OK, Some q, Some (store (bytes []) 0 [0xAB, 0xFF]), Some 2, None)"
proof -
  have "carries_payload (bytes [0x81, 0x55, 0xFF, 0x80]) [0xAB, 0xFF]"
    by code_simp
  then show ?thesis
    using latm_frame_roundtrip [of 4 2 "latm_parser_zero\<lparr>config_parsed := True, num_sub_frames := 1\<rparr>"
        "bytes [0x81, 0x55, 0xFF, 0x80]" "[0xAB, 0xFF]" "bytes []" 0]
    by (simp add: latm_parser_zero_def frame_octets_def)
qed

lemma parse_asc_mux_unchanged: "mux_audio_config bs p = (err, bs', q) \<Longrightarrow> config_parsed q = config_parsed p"
  by (auto simp: mux_audio_config_def Let_def split: prod.splits if_splits)

lemma mux_tail_type:
  "mux_config_tail bs p = Some (err, bs', q) \<Longrightarrow>
    config_parsed q = (config_parsed p \<or> err = LATM_OK) \<and>
    (err \<noteq> LATM_OK \<longrightarrow> frame_length_type q \<notin> {0, 1})"
  by (auto simp: mux_config_tail_def Let_def split: prod.splits if_splits option.splits)

lemma sub_frames_other:
  "frame_length_type p \<notin> {0, 1} \<Longrightarrow> sub_frames_loop n p len bs = Some (len, bs)"
  by (induction n) auto

text \<open>
  A stream configuration that is rejected for its frame length type has already
  overwritten the fields of the one before, and does not take back that a configuration was
  parsed; the next frame that keeps the configuration, of whatever content, is then answered
  with success, a length of zero and an output left as it was.
\<close>

theorem latm_rejected_config_used:
  assumes "config_parsed p" and "mux_config_tail bs p = Some (err, bs', q)" and "err \<noteq> LATM_OK"
    and "unat data_len < 2 ^ 28" and "2 \<le> unat data_len" and "bit_at d 0"
  shows "latm_parse_frame (Some q) (Some d) data_len (Some out) aac_out_size (Some al) None =
    Some (LATM_OK, Some (q\<lparr>use_same_stream_mux := True\<rparr>), Some out, Some 0, None)"
proof -
  have q: "config_parsed q" "frame_length_type q \<notin> {0, 1}"
    using mux_tail_type [OF assms(2)] assms(1,3) by simp_all
  have dl: "0 < data_len" "\<not> data_len < 2" using assms(5) by (auto simp: word_less_nat_alt)
  have h: "latm_frame_header (bs_init d data_len) q =
      Some (LATM_OK, q\<lparr>use_same_stream_mux := True\<rparr>, 0, (bs_init d data_len)\<lparr>bs_bit_pos := 1\<rparr>)"
    using latm_same_config [OF assms(4) dl(1) assms(6) q(1)] q(2)
    by (simp add: latm_frame_header_def sub_frames_other)
  have "memcpy out f 0 = out" for f by (simp add: memcpy_def)
  then show ?thesis using dl(2) h
    by (simp add: latm_parse_frame_some Let_def extract_frame_def word_less_nat_alt
        bs_get_bit_pos_def pos_div_8)
qed

text \<open>The tail of a configuration: frame length type 2, which is rejected.\<close>

lemma latm_rejected_config_used_witness:
  "\<exists>q bs. mux_config_tail (bs_init (bytes [0x40, 0]) 2) (latm_parser_zero\<lparr>config_parsed := True\<rparr>) =
      Some (LATM_ERR_UNSUPPORTED_CONFIG, bs, q) \<and>
    latm_parse_frame (Some q) (Some (bytes [0x81, 0x55])) 2 (Some (bytes [])) 2 (Some 7) None =
      Some (LATM_OK, Some (q\<lparr>use_same_stream_mux := True\<rparr>), Some (bytes []), Some 0, None)"
proof -
  let ?p = "latm_parser_zero\<lparr>config_parsed := True\<rparr>" and ?bs = "bs_init (bytes [0x40, 0]) 2"
  have "bits_value (bytes [0x40, 0]) 0 3 = 2" by code_simp
  moreover have "bs_ok ?bs" by (simp add: bs_ok_def bs_init_def)
  ultimately have "bs_read_bits ?bs 3 = (2, ?bs\<lparr>bs_bit_pos := 3\<rparr>)"
    by (simp add: bs_read_bits_eq) (simp add: bs_init_def)
  then have t: "mux_config_tail ?bs ?p =
      Some (LATM_ERR_UNSUPPORTED_CONFIG, ?bs\<lparr>bs_bit_pos := 3\<rparr>, ?p\<lparr>frame_length_type := 2\<rparr>)"
    by (simp add: mux_config_tail_def)
  have "bit_at (bytes [0x81, 0x55]) 0" by code_simp
  then show ?thesis
    using t latm_rejected_config_used [OF _ t, of 2 "bytes [0x81, 0x55]" "bytes []" 2 7]
    by (simp add: latm_parser_zero_def)
qed

lemma latm_frame_octets_witness:
  "\<exists>q out fi. latm_parse_frame (Some (latm_parser_zero\<lparr>config_parsed := True, frame_length_type := 1,
      num_sub_frames := 1, frame_length := 1\<rparr>)) (Some (bytes [0x81, 0x55])) 2 (Some (bytes [])) 2 (Some 0)
      (Some \<lparr>frame_length_bits = 0, frame_length_bytes = 0, bit_offset = 0, is_byte_aligned = True\<rparr>) =
    Some (LATM_OK, Some q, Some out, Some 1, Some fi) \<and> bit_offset fi = 1 \<and>
    out 0 = of_nat (bits_value (padded (bytes [0x81, 0x55]) 2) 1 8)"
proof -
  let ?p = "latm_parser_zero\<lparr>config_parsed := True, frame_length_type := 1, num_sub_frames := 1,
    frame_length := 1\<rparr>" and ?d = "bytes [0x81, 0x55]"
  let ?q = "?p\<lparr>use_same_stream_mux := True\<rparr>"
  have "bit_at ?d 0" by code_simp
  then have "latm_frame_config (bs_init ?d 2) ?p = Some (LATM_OK, (bs_init ?d 2)\<lparr>bs_bit_pos := 1\<rparr>, ?q)"
    by (intro latm_same_config) (simp_all add: latm_parser_zero_def)
  then have "latm_frame_header (bs_init ?d 2) ?p = Some (LATM_OK, ?q, 1, (bs_init ?d 2)\<lparr>bs_bit_pos := 1\<rparr>)"
    by (simp add: latm_frame_header_def latm_parser_zero_def)
  then obtain out fi where r: "latm_parse_frame (Some ?p) (Some ?d) 2 (Some (bytes [])) 2 (Some 0)
      (Some \<lparr>frame_length_bits = 0, frame_length_bytes = 0, bit_offset = 0, is_byte_aligned = True\<rparr>) =
    Some (LATM_OK, Some ?q, Some out, Some 1, Some fi)" and fi: "bit_offset fi = 1"
    by (simp add: latm_parse_frame_some bs_get_bit_pos_def)
  from latm_frame_octets [OF _ _ r, of 0] fi
  have "out 0 = of_nat (bits_value (padded ?d 2) 1 8)" by simp
  with r fi show ?thesis by blast
qed

end
