(* ===== verification/Latm_Interop.thy ===== *)
theory Latm_Interop
  imports Latm_Build Latm_Parser
begin

text \<open>
  The two LATM implementations of the program together: what the source builds
  (btc\_a2dp\_latm\_raw.c) is read by the parser of the decoder (latm\_parser.c), which learns the
  configuration from it.
\<close>

subsection \<open>The parser on bits that are known\<close>

definition bs_at :: "buf \<Rightarrow> nat \<Rightarrow> nat \<Rightarrow> bitstream_t" where
  "bs_at d len p = \<lparr>bs_data = d, bs_data_len = of_nat len, bs_bit_pos = of_nat p\<rparr>"

lemma bs_at_ok: "len < 2 ^ 28 \<Longrightarrow> p \<le> 8 * len \<Longrightarrow> bs_ok (bs_at d len p)"
  by (simp add: bs_ok_def bs_at_def unat_of_nat)

lemma bs_at_read:
  assumes "len < 2 ^ 28" "0 < unat n" "unat n \<le> 32" "p + unat n \<le> 8 * len"
  shows "bs_read_bits (bs_at d len p) n = (of_nat (bits_value d p (unat n)), bs_at d len (p + unat n))"
proof -
  have ok: "bs_ok (bs_at d len p)" using assms by (intro bs_at_ok) simp_all
  have u: "unat (of_nat len :: u32) = len" "unat (of_nat p :: u32) = p" using assms by (simp_all add: unat_of_nat)
  have "n \<noteq> 0" using assms(2) by auto
  moreover have "\<not> 32 < n" using assms(3) by (simp add: word_less_nat_alt)
  moreover have "of_nat p + ucast n = (of_nat (p + unat n) :: u32)" by simp
  ultimately show ?thesis
    using bs_read_bits_eq [OF ok, of n] assms(4) u by (simp add: bs_at_def)
qed

lemma bs_at_skip:
  assumes "len < 2 ^ 28" "p + unat n \<le> 8 * len"
  shows "bs_skip_bits (bs_at d len p) n = bs_at d len (p + unat n)"
proof -
  have "unat (of_nat p + n :: u32) = p + unat n" "unat (of_nat len * 8 :: u32) = len * 8"
    using assms by (simp_all add: unat_word_ariths unat_of_nat)
  with assms show ?thesis by (simp add: bs_skip_bits_def bs_at_def Let_def word_less_nat_alt)
qed

lemma bs_at_value:
  assumes "len < 2 ^ 28" "bits_value d p 2 = 0" "p + 10 \<le> 8 * len"
  shows "latm_get_value (bs_at d len p) = (of_nat (bits_value d (p + 2) 8), bs_at d len (p + 10))"
  using assms bs_at_read [of len 2 p d] bs_at_read [of len 8 "p + 2" d]
  by (simp add: latm_get_value_def add.commute [of 10] del: bits_value.simps)

lemma bs_at_pos: "bs_get_bit_pos (bs_at d len p) = of_nat p"
  by (simp add: bs_get_bit_pos_def bs_at_def)

lemma bs_at_bit:
  "len < 2 ^ 28 \<Longrightarrow> p + 1 \<le> 8 * len \<Longrightarrow> bs_read_bit (bs_at d len p) = (of_nat (bits_value d p 1), bs_at d len (p + 1))"
  using bs_at_read [of len 1 p d] bits_value_less [of d p 1]
  by (simp add: bs_read_bit_def del: bits_value.simps) (cases "bits_value d p 1"; simp)

subsection \<open>What the parser learns\<close>

text \<open>The object type, the rate and the channels that the configuration says; with HE-AAC the rate is that of the core.\<close>

definition said_object_type :: "btc_a2dp_latm_m24_asc_t \<Rightarrow> nat" where
  "said_object_type prof = (if he_wrapper prof \<noteq> 0 then he_wrapper prof else asc_obj prof)"

definition said_rate :: "btc_a2dp_latm_m24_asc_t \<Rightarrow> nat \<Rightarrow> nat" where
  "said_rate prof hz = (if he_wrapper prof \<noteq> 0 then hz div 2 else hz)"

lemma rate_table: "btc_a2dp_latm_hz_to_sf_index hz = Some sf \<Longrightarrow>
    sf < 12 \<and> sample_rate_table ! sf = of_nat hz \<and> btc_a2dp_latm_sf_index_to_hz sf = Some hz"
  by (auto simp: btc_a2dp_latm_hz_to_sf_index_def btc_a2dp_latm_sf_index_to_hz_def sample_rate_table_def split: if_splits)

lemma channel_less: "btc_a2dp_latm_m24_channel_config cie = Some ch \<Longrightarrow> ch < 8"
  by (auto simp: btc_a2dp_latm_m24_channel_config_def Let_def split: if_splits)

lemma asc_front:
  assumes "asc_bits_of prof sf ch = Some asc" "btc_a2dp_latm_hz_to_sf_index hz = Some sf"
    "asc_obj prof \<in> {2, 4, 6, 39} \<and> he_wrapper prof \<in> {0, 5, 29} \<and> (he_wrapper prof \<noteq> 0 \<longrightarrow> asc_obj prof = 2)"
  shows "\<exists>si rest. asc = otype_bits (said_object_type prof) @ to_bits 4 si @ to_bits 4 ch @ rest \<and>
    si < 12 \<and> sample_rate_table ! si = of_nat (said_rate prof hz) \<and>
    (said_object_type prof = 2 \<longrightarrow> rest = to_bits 3 0)"
proof (cases "he_wrapper prof = 0")
  case True
  then show ?thesis
    using assms(1,3) rate_table [OF assms(2)]
    by (auto simp: asc_bits_of_def said_object_type_def said_rate_def simp del: to_bits.simps split: if_splits)
next
  case False
  then obtain core where c: "btc_a2dp_latm_sf_index_core_from_output sf = Some core"
    and a: "asc = otype_bits (he_wrapper prof) @ to_bits 4 core @ to_bits 4 ch @ to_bits 4 sf @
      otype_bits (asc_obj prof) @ to_bits 3 0"
    using assms(1) by (auto simp: asc_bits_of_def split: if_splits)
  have "btc_a2dp_latm_hz_to_sf_index (hz div 2) = Some core"
    using c rate_table [OF assms(2)] by (auto simp: btc_a2dp_latm_sf_index_core_from_output_def split: if_splits)
  from rate_table [OF this] a False assms(3) show ?thesis
    by (auto simp: said_object_type_def said_rate_def simp del: to_bits.simps)
qed

definition config_said :: "latm_audio_config_t \<Rightarrow> nat \<Rightarrow> nat \<Rightarrow> nat \<Rightarrow> bool" where
  "config_said c obj rate ch =
     (object_type c = of_nat obj \<and> sample_rate c = of_nat rate \<and> channel_config c = of_nat ch \<and> config_valid c)"

lemma parse_asc_said:
  assumes l: "len < 2 ^ 28" "p + 25 \<le> 8 * len"
    and h: "holds_bits d p (otype_bits obj @ to_bits 4 si @ to_bits 4 ch @ rest)" "obj = 2 \<longrightarrow> rest = to_bits 3 0"
    and r: "si < 12" "sample_rate_table ! si = of_nat rate" and o: "obj \<in> {2, 4, 5, 6, 29, 39}" and ch: "ch < 8"
  shows "\<exists>e c'. parse_audio_specific_config (bs_at d len p) c = (LATM_OK, bs_at d len e, c') \<and> config_said c' obj rate ch \<and>
    e = p + (if obj = 39 then 19 else if obj = 2 then 16 else 13)"
proof -
  have n: "ucast (of_nat v :: u32) = (of_nat v :: u8)" if "v < 16" for v
    using that by (simp add: word_unat_eq_iff unsigned_ucast_eq unat_of_nat take_bit_nat_eq_self)
  have s: "(of_nat si :: u8) \<noteq> 15" "(of_nat si :: u8) < 13" "unat (of_nat si :: u8) = si"
    using r(1) by (simp_all add: word_unat_eq_iff word_less_nat_alt unat_of_nat)
  have nn: "ucast (of_nat si :: u32) = (of_nat si :: u8)" "ucast (of_nat ch :: u32) = (of_nat ch :: u8)"
    using r(1) ch by (simp_all add: n)
  note rd = bs_at_read [OF l(1)] bs_at_bit [OF l(1)]
  show ?thesis
  proof (cases "obj = 39")
    case True
    have v: "bits_value d p 5 = 31" "bits_value d (p + 5) 6 = 7" "bits_value d (p + 11) 4 = si" "bits_value d (p + 15) 4 = ch"
      using h(1) r(1) ch
      by (auto simp: True otype_bits_def holds_append add.assoc simp del: to_bits.simps bits_value.simps dest!: holds_mod)
    show ?thesis
      using l(2) True nn s r(2) v
      by (simp add: parse_audio_specific_config_def Let_def rd config_said_def add.assoc del: bits_value.simps)
  next
    case False
    then have o30: "obj \<le> 30" "obj < 32" using o by auto
    have v: "bits_value d p 5 = obj" "bits_value d (p + 5) 4 = si" "bits_value d (p + 9) 4 = ch"
      using h(1) r(1) ch o30
      by (auto simp: otype_bits_def holds_append add.assoc simp del: to_bits.simps bits_value.simps dest!: holds_mod)
    show ?thesis
    proof (cases "obj = 2")
      case True
      have "to_bits 3 0 = to_bits 1 0 @ to_bits 1 0 @ to_bits 1 0" by (simp add: numeral_3_eq_3)
      then have "bits_value d (p + 13) 1 = 0" "bits_value d (p + 14) 1 = 0" "bits_value d (p + 15) 1 = 0"
        using h True
        by (auto simp: otype_bits_def holds_append add.assoc simp del: to_bits.simps bits_value.simps One_nat_def dest!: holds_mod)
      then show ?thesis
        using l(2) True nn s r(2) v
        by (simp add: parse_audio_specific_config_def Let_def rd config_said_def add.assoc add.commute [of _ p]
            del: bits_value.simps One_nat_def)
    next
      case False
      then show ?thesis
        using l(2) o \<open>obj \<noteq> 39\<close> nn s r(2) v
        by (auto simp: parse_audio_specific_config_def Let_def rd config_said_def add.assoc simp del: bits_value.simps)
    qed
  qed
qed

lemma payload_length_said:
  assumes "len < 2 ^ 28" "holds_bits d p (length_bits n)" "p + length (length_bits n) \<le> 8 * len" "n < 2 ^ 16"
  shows "parse_payload_length_info (bs_at d len p) = Some (of_nat n, bs_at d len (p + length (length_bits n)))"
proof -
  let ?k = "n div 255" and ?r = "of_nat (n mod 255) :: u8"
  have oct: "holds_bits d p (concat (replicate k (to_bits 8 255)) @ to_bits 8 (unat x)) \<Longrightarrow>
      octets_at d p (replicate k 255 @ [x])" for k x p
  proof (induction k arbitrary: p)
    case 0
    have "unat x < 2 ^ 8" using unsigned_less [of x, where 'a = nat] by simp
    with 0 show ?case by (simp add: holds_to_bits del: bits_value.simps to_bits.simps)
  next
    case (Suc k)
    then show ?case by (auto simp: holds_append simp del: bits_value.simps to_bits.simps dest!: holds_mod)
  qed
  have m: "n mod 255 < 255" by simp
  then have u: "unat ?r = n mod 255" "?r \<noteq> 255" by (simp_all add: unat_of_nat word_unat_eq_iff)
  have b: "bs_ok (bs_at d len p)" using assms by (intro bs_at_ok) simp_all
  have q: "unat (of_nat len :: u32) = len" "unat (of_nat p :: u32) = p" using assms by (simp_all add: unat_of_nat)
  have "payload_loop 0 (bs_at d len p) =
      Some (0 + of_nat (255 * ?k) + ucast ?r, (bs_at d len p)\<lparr>bs_bit_pos := bs_bit_pos (bs_at d len p) + of_nat (8 * Suc ?k)\<rparr>)"
  proof (intro payload_loop_octets b)
    show "octets_at (bs_data (bs_at d len p)) (unat (bs_bit_pos (bs_at d len p))) (replicate ?k 255 @ [?r])"
      using oct [of p ?k ?r] assms(2) u(1) q(2) by (simp add: bs_at_def length_bits_def)
    show "unat (bs_bit_pos (bs_at d len p)) + 8 * Suc ?k \<le> 8 * unat (bs_data_len (bs_at d len p))"
      using assms(3) q by (simp add: bs_at_def length_length_bits)
  qed (rule u)
  then show ?thesis
    using payload_length_sum [of n]
    by (simp add: parse_payload_length_info_def bs_at_def length_length_bits algebra_simps)
qed

definition interop_parser :: "latm_parser_t \<Rightarrow> latm_audio_config_t \<Rightarrow> latm_parser_t" where
  "interop_parser p c = p\<lparr>use_same_stream_mux := False, audio_mux_version := 1, all_streams_same_time := 1,
     num_sub_frames := 1, num_program := 1, num_layer := 1, audio_config := c, frame_length_type := 0,
     config_parsed := True\<rparr>"

lemma audio_config_said:
  assumes len: "len < 2 ^ 28" "length (latm_head asc) \<le> 8 * len"
    and h: "holds_bits d 0 (latm_head asc)" "length asc \<in> {16, 25, 26}"
    and a: "asc = otype_bits obj @ to_bits 4 si @ to_bits 4 ch @ rest" "obj = 2 \<longrightarrow> rest = to_bits 3 0"
    and r: "si < 12" "sample_rate_table ! si = of_nat rate" and o: "obj \<in> {2, 4, 5, 6, 29, 39}" and ch: "ch < 8"
    and ver: "audio_mux_version p = 1"
  shows "\<exists>c. mux_audio_config (bs_at d len 27) p =
      (LATM_OK, bs_at d len (length (latm_head asc) - 13), p\<lparr>audio_config := c\<rparr>) \<and> config_said c obj rate ch"
proof -
  let ?h = "length (latm_head asc)"
  have hl: "?h = 72 \<or> ?h = 80" using latm_head_length [OF h(2)] by auto
  note v = holds_head [OF h]
  have hp: "holds_bits d 37 (otype_bits obj @ to_bits 4 si @ to_bits 4 ch @ rest)" using v a(1) by simp
  have l37: "37 + 25 \<le> 8 * len" using len(2) hl by auto
  obtain e c where e: "parse_audio_specific_config (bs_at d len 37) (audio_config p) = (LATM_OK, bs_at d len e, c)"
    "config_said c obj rate ch" "e = 37 + (if obj = 39 then 19 else if obj = 2 then 16 else 13)"
    using parse_asc_said [OF len(1) l37 hp a(2) r o ch, of "audio_config p"] by blast
  have g: "latm_get_value (bs_at d len 27) = (of_nat (?h - 50), bs_at d len 37)"
    using bs_at_value [OF len(1), of d 27] v len(2) hl by (auto simp del: bits_value.simps)
  have lt: "(of_nat (e - 37) :: u32) < of_nat (?h - 50)" "unat (of_nat (?h - 50) - of_nat (e - 37) :: u32) = ?h - 50 - (e - 37)"
    using e(3) hl by (auto simp: word_less_nat_alt unat_sub)
  have "of_nat e - of_nat 37 = (of_nat (e - 37) :: u32)" using e(3) by (simp add: of_nat_diff)
  then have "bs_get_bit_pos (bs_at d len e) - bs_get_bit_pos (bs_at d len 37) = (of_nat (e - 37) :: u32)"
    by (simp add: bs_at_pos)
  moreover have "bs_skip_bits (bs_at d len e) (of_nat (?h - 50) - of_nat (e - 37)) = bs_at d len (?h - 13)"
    using e(3) hl len lt(2) by (subst bs_at_skip) auto
  ultimately have "mux_audio_config (bs_at d len 27) p = (LATM_OK, bs_at d len (?h - 13), p\<lparr>audio_config := c\<rparr>)"
    using ver lt(1) by (simp only: mux_audio_config_def g e(1) Let_def split_beta fst_conv snd_conv) simp
  with e(2) show ?thesis by blast
qed

lemma frame_config_said:
  assumes len: "len < 2 ^ 28" "length (latm_head asc) \<le> 8 * len"
    and h: "holds_bits d 0 (latm_head asc)" "length asc \<in> {16, 25, 26}"
    and a: "asc = otype_bits obj @ to_bits 4 si @ to_bits 4 ch @ rest" "obj = 2 \<longrightarrow> rest = to_bits 3 0"
    and r: "si < 12" "sample_rate_table ! si = of_nat rate" and o: "obj \<in> {2, 4, 5, 6, 29, 39}" and ch: "ch < 8"
  shows "\<exists>c. latm_frame_config (bs_at d len 0) p = Some (LATM_OK, bs_at d len (length (latm_head asc)), interop_parser p c) \<and>
    config_said c obj rate ch"
proof -
  let ?h = "length (latm_head asc)"
  have hl: "?h = 72 \<or> ?h = 80" using latm_head_length [OF h(2)] by auto
  note v = holds_head [OF h]
  note rd = bs_at_read [OF len(1)] bs_at_bit [OF len(1)]
  have lp: "80 \<le> 8 * len \<or> ?h = 72 \<and> 72 \<le> 8 * len" using len(2) hl by auto
  have g: "latm_get_value (bs_at d len 3) = (of_nat (bits_value d 5 8), bs_at d len 13)"
    using bs_at_value [OF len(1), of d 3] v lp by (auto simp del: bits_value.simps)
  define q where "q = p\<lparr>use_same_stream_mux := False, audio_mux_version := 1, all_streams_same_time := 1,
     num_sub_frames := 1, num_program := 1, num_layer := 1\<rparr>"
  obtain c where c: "mux_audio_config (bs_at d len 27) q = (LATM_OK, bs_at d len (?h - 13), q\<lparr>audio_config := c\<rparr>)"
    "config_said c obj rate ch"
    using audio_config_said [OF len h a r o ch, of q] by (auto simp: q_def)
  have t: "mux_config_tail (bs_at d len (?h - 13)) (q\<lparr>audio_config := c\<rparr>) = Some (LATM_OK, bs_at d len ?h, interop_parser p c)"
    using v lp hl by (auto simp: mux_config_tail_def Let_def rd q_def interop_parser_def simp del: bits_value.simps One_nat_def)
  have m: "parse_stream_mux_config (bs_at d len 1) (p\<lparr>use_same_stream_mux := False\<rparr>) =
      Some (LATM_OK, bs_at d len ?h, interop_parser p c)"
  proof -
    have "q = p\<lparr>use_same_stream_mux := False, audio_mux_version := 1, all_streams_same_time := 1,
       num_sub_frames := 0 + 1, num_program := 0 + 1, num_layer := 0 + 1\<rparr>" by (simp add: q_def)
    have x: "bs_read_bit (bs_at d len 1) = (1, bs_at d len 2)" "bs_read_bit (bs_at d len 2) = (0, bs_at d len 3)"
      "bs_read_bit (bs_at d len 13) = (1, bs_at d len 14)" "bs_read_bits (bs_at d len 14) 6 = (0, bs_at d len 20)"
      "bs_read_bits (bs_at d len 20) 4 = (0, bs_at d len 24)" "bs_read_bits (bs_at d len 24) 3 = (0, bs_at d len 27)"
      using v lp by (auto simp: rd simp del: bits_value.simps One_nat_def)
    show ?thesis
      using c(1) t unfolding q_def
      by (simp add: parse_stream_mux_config_def Let_def x g del: One_nat_def)
  qed
  have "bs_read_bit (bs_at d len 0) = (0, bs_at d len 1)" using v lp by (auto simp: rd simp del: bits_value.simps One_nat_def)
  with m c(2) show ?thesis by (auto simp: latm_frame_config_def Let_def)
qed

lemma asc_saidE:
  assumes "latm_asc cfg = Some asc"
  obtains prof hz ch si rest where "btc_a2dp_latm_m24_cie0_to_asc_profile (cfg 3) = Some prof"
    "btc_a2dp_latm_m24_sample_rate_hz (\<lambda>i. cfg (3 + i)) = Some hz"
    "btc_a2dp_latm_m24_channel_config (\<lambda>i. cfg (3 + i)) = Some ch" "ch < 8"
    "asc = otype_bits (said_object_type prof) @ to_bits 4 si @ to_bits 4 ch @ rest"
    "said_object_type prof = 2 \<longrightarrow> rest = to_bits 3 0" "si < 12" "sample_rate_table ! si = of_nat (said_rate prof hz)"
    "said_object_type prof \<in> {2, 4, 5, 6, 29, 39}"
proof -
  from assms obtain prof sf ch where m: "latm_m24_choice (\<lambda>i. cfg (3 + i)) = Some (prof, sf, ch)"
    and a: "asc_bits_of prof sf ch = Some asc"
    by (auto simp: latm_asc_def Option.bind_eq_Some_conv)
  from m obtain hz where h: "btc_a2dp_latm_m24_cie0_to_asc_profile (cfg 3) = Some prof"
    "btc_a2dp_latm_m24_sample_rate_hz (\<lambda>i. cfg (3 + i)) = Some hz" "btc_a2dp_latm_hz_to_sf_index hz = Some sf"
    "btc_a2dp_latm_m24_channel_config (\<lambda>i. cfg (3 + i)) = Some ch"
    by (auto simp: latm_m24_choice_def Option.bind_eq_Some_conv)
  note p = choice_profile [OF m]
  have "said_object_type prof \<in> {2, 4, 5, 6, 29, 39}" using p by (auto simp: said_object_type_def)
  with asc_front [OF a h(3) p] h channel_less [OF h(4)] that show ?thesis by blast
qed

text \<open>
  C8 (refinement). Every frame that the source builds is one that the parser of the decoder takes, in whatever
  state it is: it gives back the AAC frame, and it then holds the configuration of the M24 element, with the
  object type, the sampling rate and the channels that the element says. With HE-AAC the object type is that of the
  extension and the rate is half the one that was agreed on.
\<close>

theorem latm_source_to_decoder:
  assumes "btc_a2dp_latm_build_frame (Some cfg) (Some raw) n room cap same = Some (len, frame)" "n \<le> unat out_size"
  shows "\<exists>prof hz ch q c. btc_a2dp_latm_m24_cie0_to_asc_profile (cfg 3) = Some prof \<and>
    btc_a2dp_latm_m24_sample_rate_hz (\<lambda>i. cfg (3 + i)) = Some hz \<and>
    btc_a2dp_latm_m24_channel_config (\<lambda>i. cfg (3 + i)) = Some ch \<and>
    latm_parse_frame (Some p) (Some frame) (of_nat len) (Some out) out_size (Some al) None =
      Some (LATM_OK, Some q, Some (memcpy out raw n), Some (of_nat n), None) \<and>
    latm_get_audio_config (Some q) = Some c \<and> object_type c = of_nat (said_object_type prof) \<and>
    sample_rate c = of_nat (said_rate prof hz) \<and> channel_config c = of_nat ch"
proof -
  from assms(1) obtain o' asc k where a: "latm_asc cfg = Some asc" and n: "0 < n" "n div 255 \<le> 32"
    and k: "8 * k = length (latm_prefix asc n)" "len = k + n" and cap: "len \<le> cap"
    and f: "frame = put_at (memcpy o' (\<lambda>i. 0) cap) 0 (latm_prefix asc n @ payload_bits (map raw [0..<n]))"
    by (rule build_frameE) auto
  have "holds_bits frame 0 (latm_prefix asc n @ payload_bits (map raw [0..<n]))"
    using cap k unfolding f by (intro holds_put_at) (simp add: length_payload_bits)
  then have h: "holds_bits frame 0 (latm_head asc)" "holds_bits frame (length (latm_head asc)) (length_bits n)"
    "holds_bits frame (8 * k) (payload_bits (map raw [0..<n]))"
    using k(1) by (simp_all add: holds_append)
  have s: "len < 2 ^ 16" "10 \<le> k" using prefix_length [OF a, of n] n(2) k by (auto split: if_splits)
  obtain prof hz ch si rest where m: "btc_a2dp_latm_m24_cie0_to_asc_profile (cfg 3) = Some prof"
    "btc_a2dp_latm_m24_sample_rate_hz (\<lambda>i. cfg (3 + i)) = Some hz"
    "btc_a2dp_latm_m24_channel_config (\<lambda>i. cfg (3 + i)) = Some ch" "ch < 8"
    "asc = otype_bits (said_object_type prof) @ to_bits 4 si @ to_bits 4 ch @ rest"
    "said_object_type prof = 2 \<longrightarrow> rest = to_bits 3 0" "si < 12" "sample_rate_table ! si = of_nat (said_rate prof hz)"
    "said_object_type prof \<in> {2, 4, 5, 6, 29, 39}"
    by (rule asc_saidE [OF a])
  have l: "len < 2 ^ 28" "length (latm_head asc) \<le> 8 * len" using s(1) k by auto
  obtain c where c: "latm_frame_config (bs_at frame len 0) p =
      Some (LATM_OK, bs_at frame len (length (latm_head asc)), interop_parser p c)"
    "config_said c (said_object_type prof) (said_rate prof hz) ch"
    using frame_config_said [OF l h(1) asc_length [OF a] m(5-9,4), of p] by blast
  have "parse_payload_length_info (bs_at frame len (length (latm_head asc))) = Some (of_nat n, bs_at frame len (8 * k))"
    using payload_length_said [OF l(1) h(2)] k s(1) by simp
  with c(1) have hd: "latm_frame_header (bs_init frame (of_nat len)) p =
      Some (LATM_OK, interop_parser p c, of_nat n, bs_at frame len (8 * k))"
    by (simp add: latm_frame_header_def interop_parser_def bs_init_def bs_at_def)
  have pos: "unat (of_nat (8 * k) :: u32) = 8 * k" using s(1) k(2) by (simp add: unat_of_nat del: of_nat_mult)
  have q: "drop_bit 3 (of_nat (8 * k)) = (of_nat k :: u32)" "of_nat (8 * k) AND 7 = (0 :: u32)"
    using s(1) k(2) pos pos_div_8 [of "of_nat (8 * k)"] pos_and_7 [of "of_nat (8 * k)"]
    by (simp_all add: word_unat_eq_iff unat_of_nat del: of_nat_mult)
  have "unat (of_nat len :: u32) = len" using s(1) by (simp add: unat_of_nat)
  then have ln: "\<not> (of_nat len :: u32) < 2" using s(2) k(2) by (simp only: word_less_nat_alt) simp
  have nl: "\<not> of_nat n > out_size" "of_nat k + of_nat n = (of_nat len :: u32)"
    "unat (of_nat n :: u32) = n" "unat (of_nat k :: u32) = k"
    using assms(2) s k(2) by (simp_all add: word_less_nat_alt unat_of_nat)
  have "frame (k + i) = raw i" if "i < n" for i using holds_payload [OF h(3), of i] that by simp
  then have "extract_frame frame (of_nat len) (of_nat k) 0 (of_nat n) out = memcpy out raw n"
    using nl by (auto simp: extract_frame_def memcpy_def)
  then have "latm_parse_frame (Some p) (Some frame) (of_nat len) (Some out) out_size (Some al) None =
      Some (LATM_OK, Some (interop_parser p c), Some (memcpy out raw n), Some (of_nat n), None)"
    using hd q nl ln by (simp add: latm_parse_frame_some bs_at_pos del: of_nat_mult)
  moreover have "latm_get_audio_config (Some (interop_parser p c)) = Some c"
    using c(2) by (simp add: latm_get_audio_config_def interop_parser_def config_said_def)
  ultimately show ?thesis using m(1-3) c(2) unfolding config_said_def by blast
qed

lemma latm_source_to_decoder_witness:
  "\<exists>frame q c. btc_a2dp_latm_build_frame (Some m24_example) (Some (bytes [0x11, 0x22])) 2 (Some (bytes [])) 16 False = Some (12, frame) \<and>
     latm_parse_frame (Some latm_parser_zero) (Some frame) 12 (Some (bytes [])) 4 (Some 0) None =
       Some (LATM_OK, Some q, Some (memcpy (bytes []) (bytes [0x11, 0x22]) 2), Some 2, None) \<and>
     latm_get_audio_config (Some q) = Some c \<and> object_type c = 2 \<and> sample_rate c = 44100 \<and> channel_config c = 2"
proof -
  obtain frame where f: "btc_a2dp_latm_build_frame (Some m24_example) (Some (bytes [0x11, 0x22])) 2 (Some (bytes [])) 16 False =
    Some (12, frame)"
    using m24_example_built by blast
  have "2 \<le> unat (4 :: u32)" by simp
  from latm_source_to_decoder [OF f this, of latm_parser_zero "bytes []" 0] f m24_example_choice show ?thesis
    by (auto simp: said_object_type_def said_rate_def)
qed

end
