(* ===== verification/Lhdc_Bit_Reader.thy ===== *)
theory Lhdc_Bit_Reader
  imports Bit_Stream
begin

text \<open>
  external/lhdc-v5/lhdc\_bit\_reader.c: the bit reader of the LHDC V5 decoder. It keeps up to 64
  bits in a cache that is refilled octet by octet; \<open>cache_bits\<close> and the widths asked for are
  \<open>int\<close>, positions are \<open>size_t\<close>, 32 bits wide on the device. The invariant says which bits of the
  data the cache holds, and with it the reader is a queue of bits.
\<close>

subsection \<open>The reader (lhdc\_dec\_internal.h, lhdc\_bit\_reader.c)\<close>

record lhdc_dec_bit_reader_t =
  br_data :: buf
  br_data_bytes :: u32
  br_byte_pos :: u32
  br_cache :: u64
  br_cache_bits :: int

definition lhdc_bit_reader_init :: "buf \<Rightarrow> u32 \<Rightarrow> lhdc_dec_bit_reader_t" where
  "lhdc_bit_reader_init data data_bytes =
     \<lparr>br_data = data, br_data_bytes = data_bytes, br_byte_pos = 0, br_cache = 0, br_cache_bits = 0\<rparr>"

function lhdc_bit_reader_refill :: "int \<Rightarrow> lhdc_dec_bit_reader_t \<Rightarrow> lhdc_dec_bit_reader_t" where
  "lhdc_bit_reader_refill need_bits br =
     (if br_cache_bits br < need_bits \<and> br_byte_pos br < br_data_bytes br
      then lhdc_bit_reader_refill need_bits
             (br\<lparr>br_cache := push_bit 8 (br_cache br) OR ucast (br_data br (unat (br_byte_pos br))),
                 br_byte_pos := br_byte_pos br + 1,
                 br_cache_bits := br_cache_bits br + 8\<rparr>)
      else br)"
  by pat_completeness auto
termination
  by (relation "measure (\<lambda>(n, br). nat (n - br_cache_bits br))") auto

declare lhdc_bit_reader_refill.simps [simp del]

text \<open>The low bits of the cache: \<open>cache & ((1ULL << n) - 1)\<close>.\<close>

definition cache_low :: "int \<Rightarrow> u64 \<Rightarrow> u64" where
  "cache_low n c = c AND (push_bit (nat n) 1 - 1)"

definition lhdc_bit_reader_read :: "lhdc_dec_bit_reader_t \<Rightarrow> int \<Rightarrow> u32 \<times> lhdc_dec_bit_reader_t" where
  "lhdc_bit_reader_read br num_bits =
     (if num_bits \<le> 0 then (0, br)
      else
        let n = (if num_bits > 32 then 32 else num_bits);
            br = lhdc_bit_reader_refill n br
        in if br_cache_bits br < n
           then (ucast (cache_low (br_cache_bits br) (br_cache br)),
                 br\<lparr>br_cache := 0, br_cache_bits := 0\<rparr>)
           else let shift = br_cache_bits br - n
                in (ucast (cache_low n (drop_bit (nat shift) (br_cache br))),
                    br\<lparr>br_cache_bits := shift, br_cache := cache_low shift (br_cache br)\<rparr>))"

definition lhdc_bit_reader_peek :: "lhdc_dec_bit_reader_t \<Rightarrow> int \<Rightarrow> u32 \<times> lhdc_dec_bit_reader_t" where
  "lhdc_bit_reader_peek br num_bits =
     (if num_bits \<le> 0 then (0, br)
      else
        let n = (if num_bits > 32 then 32 else num_bits);
            br = lhdc_bit_reader_refill n br
        in if br_cache_bits br < n
           then (ucast (cache_low (br_cache_bits br) (br_cache br)), br)
           else (ucast (cache_low n (drop_bit (nat (br_cache_bits br - n)) (br_cache br))), br))"

definition lhdc_bit_reader_skip :: "lhdc_dec_bit_reader_t \<Rightarrow> int \<Rightarrow> lhdc_dec_bit_reader_t" where
  "lhdc_bit_reader_skip br num_bits =
     (if num_bits \<le> 0 then br
      else
        let br = lhdc_bit_reader_refill num_bits br
        in if br_cache_bits br \<ge> num_bits
           then let shift = br_cache_bits br - num_bits
                in br\<lparr>br_cache_bits := shift, br_cache := cache_low shift (br_cache br)\<rparr>
           else br\<lparr>br_cache := 0, br_cache_bits := 0\<rparr>)"

definition lhdc_bit_reader_tell :: "lhdc_dec_bit_reader_t \<Rightarrow> u32" where
  "lhdc_bit_reader_tell br = br_byte_pos br * 8 - of_int (br_cache_bits br)"

definition lhdc_bit_reader_remaining :: "lhdc_dec_bit_reader_t \<Rightarrow> u32" where
  "lhdc_bit_reader_remaining br =
     (br_data_bytes br - br_byte_pos br) * 8 + of_int (br_cache_bits br)"

definition lhdc_bit_reader_align_byte :: "lhdc_dec_bit_reader_t \<Rightarrow> lhdc_dec_bit_reader_t" where
  "lhdc_bit_reader_align_byte br =
     (let r = br_cache_bits br mod 8 in if r \<noteq> 0 then lhdc_bit_reader_skip br r else br)"

definition lhdc_bit_reader_read_flag :: "lhdc_dec_bit_reader_t \<Rightarrow> u32 \<times> lhdc_dec_bit_reader_t" where
  "lhdc_bit_reader_read_flag br = lhdc_bit_reader_read br 1"

subsection \<open>What the cache holds\<close>

text \<open>
  The position of the reader is behind the octets taken in less the bits in the cache; the cache
  holds the bits from there to the octets not yet taken in (their low 64, when a long skip takes
  in more).
\<close>

definition br_pos :: "lhdc_dec_bit_reader_t \<Rightarrow> nat" where
  "br_pos br = 8 * unat (br_byte_pos br) - nat (br_cache_bits br)"

definition br_holds :: "lhdc_dec_bit_reader_t \<Rightarrow> bool" where
  "br_holds br \<longleftrightarrow> unat (br_data_bytes br) < 2 ^ 28 \<and> br_byte_pos br \<le> br_data_bytes br \<and>
     0 \<le> br_cache_bits br \<and> nat (br_cache_bits br) \<le> 8 * unat (br_byte_pos br) \<and>
     br_cache br = of_nat (bits_value (br_data br) (br_pos br) (nat (br_cache_bits br)))"

definition br_ok :: "lhdc_dec_bit_reader_t \<Rightarrow> bool" where
  "br_ok br \<longleftrightarrow> br_holds br \<and> br_cache_bits br < 40"

definition br_left :: "lhdc_dec_bit_reader_t \<Rightarrow> bool list" where
  "br_left br = map (bit_at (br_data br)) [br_pos br..<8 * unat (br_data_bytes br)]"

lemma br_init_ok: "unat n < 2 ^ 28 \<Longrightarrow> br_ok (lhdc_bit_reader_init d n)"
  by (simp add: br_ok_def br_holds_def lhdc_bit_reader_init_def br_pos_def)

lemma bits_value_octet: "bits_value d (8 * q) 8 = unat (d q)"
  using bits_value_byte [of "8 * q" 8 d] unsigned_less [of "d q", where 'a = nat] by simp

lemma refill_step:
  assumes "br_holds br" and "br_byte_pos br < br_data_bytes br"
  shows "br_holds (br\<lparr>br_cache := push_bit 8 (br_cache br) OR ucast (br_data br (unat (br_byte_pos br))),
      br_byte_pos := br_byte_pos br + 1, br_cache_bits := br_cache_bits br + 8\<rparr>)" (is "br_holds ?b")
    and "br_pos (br\<lparr>br_cache := push_bit 8 (br_cache br) OR ucast (br_data br (unat (br_byte_pos br))),
      br_byte_pos := br_byte_pos br + 1, br_cache_bits := br_cache_bits br + 8\<rparr>) = br_pos br"
proof -
  let ?p = "unat (br_byte_pos br)" and ?c = "nat (br_cache_bits br)"
  have s: "unat (br_byte_pos br + 1) = ?p + 1"
    using assms by (simp add: br_holds_def word_less_nat_alt unat_word_ariths)
  have c: "nat (br_cache_bits br + 8) = ?c + 8" "?c \<le> 8 * ?p" using assms(1) by (auto simp: br_holds_def)
  show pos: "br_pos ?b = br_pos br" using c s by (simp add: br_pos_def)
  have "push_bit 8 (br_cache br) OR ucast (br_data br ?p) = push_bit 8 (br_cache br) + ucast (br_data br ?p)"
    by (rule disjunctive_add [symmetric]) (auto simp: bit_simps)
  also have "\<dots> = of_nat (bits_value (br_data br) (br_pos br) ?c * 2 ^ 8 + unat (br_data br ?p))"
    using assms(1) by (simp add: br_holds_def push_bit_eq_mult)
  also have "unat (br_data br ?p) = bits_value (br_data br) (br_pos br + ?c) 8"
    using c(2) by (simp add: br_pos_def bits_value_octet del: bits_value.simps)
  also have "bits_value (br_data br) (br_pos br) ?c * 2 ^ 8 + \<dots> = bits_value (br_data br) (br_pos br) (?c + 8)"
    by (simp only: bits_value_add)
  finally show "br_holds ?b"
    using assms c s pos by (simp add: br_holds_def word_le_nat_alt word_less_nat_alt del: bits_value.simps)
qed


lemma br_pos_end:
  "br_holds br \<Longrightarrow> br_pos br + nat (br_cache_bits br) = 8 * unat (br_byte_pos br)"
  "br_holds br \<Longrightarrow> unat (br_byte_pos br) \<le> unat (br_data_bytes br)"
  by (simp_all add: br_holds_def br_pos_def word_le_nat_alt)

lemma refill_holds:
  assumes "br_holds br"
  shows "br_holds (lhdc_bit_reader_refill n br) \<and> br_pos (lhdc_bit_reader_refill n br) = br_pos br \<and>
    br_data (lhdc_bit_reader_refill n br) = br_data br \<and>
    br_data_bytes (lhdc_bit_reader_refill n br) = br_data_bytes br \<and>
    br_cache_bits br \<le> br_cache_bits (lhdc_bit_reader_refill n br) \<and>
    br_cache_bits (lhdc_bit_reader_refill n br) \<le> max (br_cache_bits br) (n + 7) \<and>
    (n \<le> br_cache_bits (lhdc_bit_reader_refill n br) \<or>
     br_byte_pos (lhdc_bit_reader_refill n br) = br_data_bytes br)"
  using assms
proof (induction n br rule: lhdc_bit_reader_refill.induct)
  case (1 n br)
  show ?case
  proof (cases "br_cache_bits br < n \<and> br_byte_pos br < br_data_bytes br")
    case True
    let ?b = "br\<lparr>br_cache := push_bit 8 (br_cache br) OR ucast (br_data br (unat (br_byte_pos br))),
      br_byte_pos := br_byte_pos br + 1, br_cache_bits := br_cache_bits br + 8\<rparr>"
    have "lhdc_bit_reader_refill n br = lhdc_bit_reader_refill n ?b"
      using True by (subst lhdc_bit_reader_refill.simps) simp
    with "1.IH" [OF True refill_step(1)] "1.prems" True show ?thesis
      by (simp add: refill_step(2))
  next
    case False
    then have "lhdc_bit_reader_refill n br = br" by (subst lhdc_bit_reader_refill.simps) auto
    with False "1.prems" show ?thesis by (auto simp: br_holds_def)
  qed
qed

text \<open>Parts of a field: its low bits are its last ones, its high bits the first ones.\<close>

lemma cache_low_eq: "cache_low n c = take_bit (nat n) c"
  by (simp add: cache_low_def take_bit_eq_mask mask_eq_exp_minus_1 push_bit_eq_mult)

lemma field_parts:
  assumes "s \<le> c"
  shows "bits_value d p c mod 2 ^ s = bits_value d (p + (c - s)) s"
    and "bits_value d p c div 2 ^ s = bits_value d p (c - s)"
  using bits_value_add [of d p "c - s" s] bits_value_less [of d "p + (c - s)" s] assms
  by (simp_all add: div_eq_0_iff)

lemma low_field:
  "s \<le> c \<Longrightarrow> take_bit s (of_nat (bits_value d p c) :: 'a :: len word) = of_nat (bits_value d (p + (c - s)) s)"
  by (simp add: take_bit_of_nat) (simp add: take_bit_eq_mod field_parts)

lemma high_field:
  assumes "s \<le> c" and "c \<le> 64"
  shows "drop_bit s (of_nat (bits_value d p c) :: u64) = of_nat (bits_value d p (c - s))"
proof -
  have "bits_value d p c < 2 ^ 64" and "bits_value d p (c - s) < 2 ^ 64"
    using assms bits_value_less [of d p c] bits_value_less [of d p "c - s"]
    by (meson less_le_trans power_increasing one_le_numeral, meson diff_le_self le_trans less_le_trans power_increasing one_le_numeral)
  then have u: "unat (of_nat (bits_value d p c) :: u64) = bits_value d p c"
      "unat (of_nat (bits_value d p (c - s)) :: u64) = bits_value d p (c - s)"
    by (simp_all add: unat_of_nat)
  have "unat (drop_bit s (of_nat (bits_value d p c) :: u64)) = bits_value d p c div 2 ^ s"
    using unsigned_drop_bit_eq [of s "of_nat (bits_value d p c) :: u64", where 'a = nat] u(1)
      \<open>bits_value d p c < 2 ^ 64\<close>
    by (simp add: take_bit_nat_eq_self drop_bit_eq_div)
  then show ?thesis by (simp add: word_unat_eq_iff u field_parts(2) [OF assms(1)])
qed

text \<open>The queue: \<open>br_left\<close> from the position on.\<close>

lemma br_left_drop:
  assumes "br_pos b = br_pos br + m" and "br_data b = br_data br" and "br_data_bytes b = br_data_bytes br"
  shows "br_left b = drop m (br_left br)"
  using assms by (simp add: br_left_def drop_map)

lemma br_left_take:
  assumes "br_pos br + m \<le> 8 * unat (br_data_bytes br)"
  shows "bits_number (take m (br_left br)) = bits_value (br_data br) (br_pos br) m"
  using assms by (simp add: br_left_def take_map bits_value_number)

lemma length_br_left: "length (br_left br) = 8 * unat (br_data_bytes br) - br_pos br"
  by (simp add: br_left_def)

text \<open>Dropping bits of the cache moves the position on.\<close>

lemma drop_holds:
  assumes "br_holds br" and "0 \<le> s" and "s \<le> br_cache_bits br" and "s \<le> 64"
  shows "br_holds (br\<lparr>br_cache_bits := s, br_cache := cache_low s (br_cache br)\<rparr>)"
    and "br_pos (br\<lparr>br_cache_bits := s, br_cache := cache_low s (br_cache br)\<rparr>) =
      br_pos br + nat (br_cache_bits br - s)"
proof -
  have c: "nat s \<le> nat (br_cache_bits br)" "nat (br_cache_bits br) \<le> 8 * unat (br_byte_pos br)"
      "nat (br_cache_bits br - s) = nat (br_cache_bits br) - nat s"
    using assms by (auto simp: br_holds_def)
  show pos: "br_pos (br\<lparr>br_cache_bits := s, br_cache := cache_low s (br_cache br)\<rparr>) =
      br_pos br + nat (br_cache_bits br - s)"
    using c by (simp add: br_pos_def)
  show "br_holds (br\<lparr>br_cache_bits := s, br_cache := cache_low s (br_cache br)\<rparr>)"
    using assms(1,2) c pos by (simp add: br_holds_def cache_low_eq low_field)
qed

lemma empty_holds:
  assumes "br_holds br"
  shows "br_holds (br\<lparr>br_cache := 0, br_cache_bits := 0\<rparr>)"
    and "br_pos (br\<lparr>br_cache := 0, br_cache_bits := 0\<rparr>) = br_pos br + nat (br_cache_bits br)"
  using assms by (simp_all add: br_holds_def br_pos_def)

lemma unat_ucast_value:
  assumes "n \<le> 32"
  shows "unat (ucast (of_nat (bits_value d p n) :: u64) :: u32) = bits_value d p n"
proof -
  have "bits_value d p n < 2 ^ n" by (rule bits_value_less)
  also have "\<dots> \<le> 2 ^ 32" using assms by (rule power_increasing) simp
  finally have "bits_value d p n < 2 ^ 32" .
  moreover from this have "unat (of_nat (bits_value d p n) :: u64) = bits_value d p n"
    by (simp add: unat_of_nat)
  ultimately show ?thesis by (simp add: unsigned_ucast_eq take_bit_nat_eq_self)
qed

text \<open>
  Reading takes at most the bits that are left, and all of them when there are too few; the cache
  stays below 40 bits.
\<close>

lemma lhdc_read_queue:
  assumes "br_ok br" and "0 \<le> n" and "n \<le> 32"
  shows "br_ok (snd (lhdc_bit_reader_read br n))"
    and "unat (fst (lhdc_bit_reader_read br n)) = bits_number (take (nat n) (br_left br))"
    and "br_left (snd (lhdc_bit_reader_read br n)) = drop (nat n) (br_left br)"
proof -
  let ?r = "lhdc_bit_reader_refill n br" and ?R = "lhdc_bit_reader_read br n"
  have "br_ok (snd ?R) \<and> unat (fst ?R) = bits_number (take (nat n) (br_left br)) \<and>
    br_left (snd ?R) = drop (nat n) (br_left br)"
  proof (cases "n = 0")
    case True
    then show ?thesis using assms by (simp add: lhdc_bit_reader_read_def bits_number_def)
  next
    case pos: False
    have h: "br_holds br" "br_cache_bits br < 40" using assms by (simp_all add: br_ok_def)
    note r = refill_holds [OF h(1), of n]
    then have r0: "br_holds ?r" "br_pos ?r = br_pos br" "br_data ?r = br_data br"
        "br_data_bytes ?r = br_data_bytes br" "br_cache_bits ?r < 40" "0 \<le> br_cache_bits ?r"
      using assms(3) h by (auto simp: br_holds_def)
    from r0(1) have c: "br_cache ?r = of_nat (bits_value (br_data br) (br_pos br) (nat (br_cache_bits ?r)))"
        "br_pos br + nat (br_cache_bits ?r) \<le> 8 * unat (br_data_bytes br)"
      using r0(2-4) br_pos_end [OF r0(1)] by (simp_all add: br_holds_def)
    show ?thesis
    proof (cases "br_cache_bits ?r < n")
      case True
      with r have e: "br_byte_pos ?r = br_data_bytes br" by auto
      then have all: "br_pos br + nat (br_cache_bits ?r) = 8 * unat (br_data_bytes br)"
        using br_pos_end(1) [OF r0(1)] r0(2) by simp
      have l: "take (nat n) (br_left br) = take (nat (br_cache_bits ?r)) (br_left br)"
          "drop (nat n) (br_left br) = drop (nat (br_cache_bits ?r)) (br_left br)"
        using all True length_br_left [of br] by simp_all
      have R: "?R = (ucast (cache_low (br_cache_bits ?r) (br_cache ?r)), ?r\<lparr>br_cache := 0, br_cache_bits := 0\<rparr>)"
        using True pos assms by (simp add: lhdc_bit_reader_read_def Let_def)
      have "br_left (?r\<lparr>br_cache := 0, br_cache_bits := 0\<rparr>) = drop (nat (br_cache_bits ?r)) (br_left br)"
        using r0 by (intro br_left_drop) (simp_all add: empty_holds)
      moreover have "br_ok (?r\<lparr>br_cache := 0, br_cache_bits := 0\<rparr>)"
        using empty_holds(1) [OF r0(1)] by (simp add: br_ok_def)
      ultimately show ?thesis using True assms(3) c all r0(6)
        by (simp add: R l br_left_take cache_low_eq low_field unat_ucast_value)
    next
      case False
      let ?s = "br_cache_bits ?r - n"
      have R: "?R = (ucast (cache_low n (drop_bit (nat ?s) (br_cache ?r))),
          ?r\<lparr>br_cache_bits := ?s, br_cache := cache_low ?s (br_cache ?r)\<rparr>)"
        using False pos assms by (simp add: lhdc_bit_reader_read_def Let_def)
      have n: "nat (br_cache_bits ?r) - nat ?s = nat n" "nat ?s \<le> nat (br_cache_bits ?r)"
          "nat (br_cache_bits ?r) \<le> 64" "br_pos br + nat n \<le> 8 * unat (br_data_bytes br)"
        using False assms r0 c(2) by auto
      have "cache_low n (drop_bit (nat ?s) (br_cache ?r)) = of_nat (bits_value (br_data br) (br_pos br) (nat n))"
        by (simp add: cache_low_eq c(1) high_field n low_field)
      moreover have "br_left (?r\<lparr>br_cache_bits := ?s, br_cache := cache_low ?s (br_cache ?r)\<rparr>) = drop (nat n) (br_left br)"
        using False assms r0 by (intro br_left_drop) (simp_all add: drop_holds(2))
      moreover have "br_ok (?r\<lparr>br_cache_bits := ?s, br_cache := cache_low ?s (br_cache ?r)\<rparr>)"
        using False assms r0 by (simp add: br_ok_def drop_holds(1))
      ultimately show ?thesis using assms(2,3) n(4) by (simp add: R br_left_take unat_ucast_value)
    qed
  qed
  then show "br_ok (snd ?R)" "unat (fst ?R) = bits_number (take (nat n) (br_left br))"
      "br_left (snd ?R) = drop (nat n) (br_left br)" by blast+
qed

lemma lhdc_peek_queue:
  assumes "br_ok br" and "0 \<le> n" and "n \<le> 32"
  shows "fst (lhdc_bit_reader_peek br n) = fst (lhdc_bit_reader_read br n)"
    and "br_ok (snd (lhdc_bit_reader_peek br n))"
    and "br_left (snd (lhdc_bit_reader_peek br n)) = br_left br"
proof -
  show "fst (lhdc_bit_reader_peek br n) = fst (lhdc_bit_reader_read br n)"
    by (simp add: lhdc_bit_reader_peek_def lhdc_bit_reader_read_def Let_def)
  have r: "snd (lhdc_bit_reader_peek br n) = (if n = 0 then br else lhdc_bit_reader_refill n br)"
    using assms by (simp add: lhdc_bit_reader_peek_def Let_def)
  from assms(1) have "br_holds br" and c: "br_cache_bits br < 40" by (simp_all add: br_ok_def)
  note h = refill_holds [OF this(1), of n]
  show "br_ok (snd (lhdc_bit_reader_peek br n))" using h c assms by (auto simp: r br_ok_def)
  show "br_left (snd (lhdc_bit_reader_peek br n)) = br_left br" using h by (simp add: r br_left_def)
qed

lemma lhdc_skip_queue:
  assumes "br_ok br"
  shows "br_ok (lhdc_bit_reader_skip br n)" and "br_left (lhdc_bit_reader_skip br n) = drop (nat n) (br_left br)"
proof -
  let ?r = "lhdc_bit_reader_refill n br"
  have h: "br_holds br" "br_cache_bits br < 40" using assms by (simp_all add: br_ok_def)
  note r = refill_holds [OF h(1), of n]
  then have r0: "br_holds ?r" "br_pos ?r = br_pos br" "br_data ?r = br_data br"
      "br_data_bytes ?r = br_data_bytes br" by blast+
  then have "0 \<le> br_cache_bits ?r" by (simp add: br_holds_def)
  note e = br_pos_end [OF r0(1)]
  have "br_ok (lhdc_bit_reader_skip br n) \<and> br_left (lhdc_bit_reader_skip br n) = drop (nat n) (br_left br)"
  proof (cases "n \<le> 0")
    case True
    then show ?thesis using assms by (simp add: lhdc_bit_reader_skip_def)
  next
    case pos: False
    show ?thesis
    proof (cases "n \<le> br_cache_bits ?r")
      case True
      let ?b = "?r\<lparr>br_cache_bits := br_cache_bits ?r - n, br_cache := cache_low (br_cache_bits ?r - n) (br_cache ?r)\<rparr>"
      have s: "lhdc_bit_reader_skip br n = ?b" using True pos by (simp add: lhdc_bit_reader_skip_def Let_def)
      have b: "br_cache_bits ?r - n < 40" using r h(2) pos by linarith
      have "br_ok ?b" using drop_holds(1) [OF r0(1), of "br_cache_bits ?r - n"] True pos b by (simp add: br_ok_def)
      moreover have "br_left ?b = drop (nat n) (br_left br)"
        using drop_holds(2) [OF r0(1), of "br_cache_bits ?r - n"] True pos b r0
        by (intro br_left_drop) simp_all
      ultimately show ?thesis by (simp add: s)
    next
      case False
      let ?b = "?r\<lparr>br_cache := 0, br_cache_bits := 0\<rparr>"
      have s: "lhdc_bit_reader_skip br n = ?b" using False pos by (simp add: lhdc_bit_reader_skip_def Let_def)
      have "br_left ?b = drop (nat (br_cache_bits ?r)) (br_left br)"
        using r0 by (intro br_left_drop) (simp_all add: empty_holds)
      moreover have "length (br_left br) \<le> nat (br_cache_bits ?r)"
        using False r e r0(2) by (simp add: length_br_left)
      ultimately show ?thesis
        using empty_holds(1) [OF r0(1)] False by (simp add: s br_ok_def)
    qed
  qed
  then show "br_ok (lhdc_bit_reader_skip br n)" "br_left (lhdc_bit_reader_skip br n) = drop (nat n) (br_left br)"
    by blast+
qed

lemma lhdc_tell_queue:
  assumes "br_ok br"
  shows "unat (lhdc_bit_reader_remaining br) = length (br_left br)"
    and "unat (lhdc_bit_reader_tell br) = br_pos br"
proof -
  have h: "br_holds br" using assms by (simp add: br_ok_def)
  then have b: "unat (br_byte_pos br) \<le> unat (br_data_bytes br)" "unat (br_data_bytes br) < 2 ^ 28"
      "nat (br_cache_bits br) \<le> 8 * unat (br_byte_pos br)" "0 \<le> br_cache_bits br"
    by (simp_all add: br_holds_def word_le_nat_alt)
  have "unat (of_nat (nat (br_cache_bits br)) :: u32) = nat (br_cache_bits br)"
    unfolding unat_of_nat using b by simp
  then have c: "unat (of_int (br_cache_bits br) :: u32) = nat (br_cache_bits br)" using b(4) by simp
  have p: "unat (br_byte_pos br * 8) = 8 * unat (br_byte_pos br)"
      "unat ((br_data_bytes br - br_byte_pos br) * 8) = 8 * (unat (br_data_bytes br) - unat (br_byte_pos br))"
    using b by (simp_all add: unat_word_ariths unat_sub word_le_nat_alt)
  then have d: "unat (br_data_bytes br * 8 - br_byte_pos br * 8) = 8 * (unat (br_data_bytes br) - unat (br_byte_pos br))"
    by (simp only: left_diff_distrib)
  show "unat (lhdc_bit_reader_tell br) = br_pos br"
    using b by (simp add: lhdc_bit_reader_tell_def c br_pos_def unat_sub word_le_nat_alt p)
  show "unat (lhdc_bit_reader_remaining br) = length (br_left br)"
    using b by (simp add: lhdc_bit_reader_remaining_def c unat_word_ariths(1) p d length_br_left br_pos_def)
qed

interpretation lhdc_bits: bit_source br_ok br_left "\<lambda>br n. map_prod unat id (lhdc_bit_reader_read br (int n))"
proof
  fix br n
  assume "br_ok br" and n: "n \<le> 32" "n \<le> length (br_left br)"
  with lhdc_read_queue [of br "int n"]
  show "br_ok (snd (map_prod unat id (lhdc_bit_reader_read br (int n)))) \<and>
      map_prod unat id (lhdc_bit_reader_read br (int n)) =
        (bits_number (take n (br_left br)), snd (map_prod unat id (lhdc_bit_reader_read br (int n)))) \<and>
      br_left (snd (map_prod unat id (lhdc_bit_reader_read br (int n)))) = drop n (br_left br)"
    by (cases "lhdc_bit_reader_read br (int n)") simp
qed

text \<open>
  C35 (refinement). The cached reader implements a queue of bits, whatever was peeked, read and
  skipped before: reading 0 to 32 bits gives the number the next bits denote (of those left, when
  there are fewer) and takes them; peeking gives the same number and takes nothing; skipping takes
  any number of bits; and what is left is what the reader reports.
\<close>

theorem lhdc_reader_refines:
  assumes "br_ok br" and "0 \<le> n" and "n \<le> 32"
  shows "map_prod unat br_left (lhdc_bit_reader_read br n) =
      (bits_number (take (nat n) (br_left br)), drop (nat n) (br_left br)) \<and>
    map_prod unat br_left (lhdc_bit_reader_peek br n) = (bits_number (take (nat n) (br_left br)), br_left br) \<and>
    br_left (lhdc_bit_reader_skip br m) = drop (nat m) (br_left br) \<and>
    unat (lhdc_bit_reader_remaining br) = length (br_left br) \<and>
    br_ok (snd (lhdc_bit_reader_read br n)) \<and> br_ok (snd (lhdc_bit_reader_peek br n)) \<and>
    br_ok (lhdc_bit_reader_skip br m)"
  using lhdc_read_queue [OF assms] lhdc_peek_queue [OF assms] lhdc_skip_queue [OF assms(1)]
    lhdc_tell_queue [OF assms(1)]
  by (cases "lhdc_bit_reader_read br n"; cases "lhdc_bit_reader_peek br n") simp

lemma lhdc_reader_refines_witness:
  "let br = snd (lhdc_bit_reader_peek (lhdc_bit_reader_init (bytes [0xA5, 0xC3, 0x7E]) 3) 9)
   in map_prod unat br_left (lhdc_bit_reader_read br 12) =
     (bits_number (take 12 (br_left br)), drop 12 (br_left br))"
proof -
  have "br_ok (snd (lhdc_bit_reader_peek (lhdc_bit_reader_init (bytes [0xA5, 0xC3, 0x7E]) 3) 9))"
    by (rule lhdc_peek_queue) (simp_all add: br_init_ok)
  from lhdc_reader_refines [OF this, of 12] show ?thesis by (simp add: Let_def)
qed

end

