(* ===== verification/Lhdc_Sns.thy ===== *)
theory Lhdc_Sns
  imports Lhdc_Bit_Reader "HOL-Library.Signed_Division"
begin

text \<open>
  external/lhdc-v5/lhdc\_sns\_synth.c: the envelope of the spectrum of a channel. The side bits are
  decoded by an adaptive delta code, the result is freed of its mean, smoothed and clamped, and
  each value selects an entry of a table of gains. Arithmetic on \<open>int32_t\<close> is that of the
  integers; that no value leaves 32 bits is part of the theorems. The multiplication of the spectrum
  by the gains is on floats and not modelled. The array \<open>out\<close> of \<open>sns_post_smooth\<close> is a list
  of zeros where the code leaves it unset; every entry that is read was written.
\<close>

subsection \<open>The tables\<close>

definition LHDC_SNS_STEP_POS :: "int list" where
  "LHDC_SNS_STEP_POS =
    [6, 13, 19, 26, 32, 38, 45, 51, 58, 64, 77, 90,
     102, 115, 128, 141, 154, 166, 186, 205, 224, 243, 262, 282,
     301, 326, 352, 378, 403, 429, 461, 493, 525, 557, 595, 634,
     672, 717, 762, 813, 870, 934, 1005, 1082, 1165, 1254, 1350, 1453,
     1562, 1677, 1798, 1926, 2061, 2202, 2349, 2502, 2662, 2829, 3002, 3187,
     3386, 3603, 3840, 4096]"

definition LHDC_POW2_MANT :: "int list" where
  "LHDC_POW2_MANT =
    [1048576, 1095000, 1143480, 1194106, 1246974, 1302182, 1359834, 1420039,
     1482910, 1548564, 1617125, 1688721, 1763487, 1841563, 1923096, 2008239,
     2097152, 2190000, 2286960, 2388212, 2493948, 2604364, 2719669, 2840079,
     2965820, 3097128, 3234250, 3377443, 3526975, 3683127, 3846193, 4016479,
     4194304, 4380001, 4573920, 4776425, 4987896, 5208729, 5439339, 5680159,
     5931641, 6194257, 6468501, 6754886, 7053950, 7366255, 7692387, 8032958,
     8388608, 8760003, 9147841, 9552851, 9975792, 10417458, 10878678, 11360318,
     11863283, 12388515, 12937002, 13509772, 14107900, 14732510, 15384774, 16065917,
     16777216, 17520006, 18295683, 19105702, 19951584, 20834916, 21757357, 22720637,
     23726566, 24777031, 25874004, 27019544, 28215801, 29465021, 30769549, 32131834,
     33554432, 35040013, 36591367, 38211405, 39903169, 41669833, 43514714, 45441275,
     47453132, 49554062, 51748008, 54039088, 56431603, 58930043, 61539099, 64263668,
     67108864, 70080027, 73182735, 76422811, 79806338, 83339667, 87029429, 90882551,
     94906265, 99108124, 103496016, 108078176, 112863206, 117860087, 123078199, 128527336,
     134217728, 140160054, 146365470, 152845623, 159612677, 166679334, 174058858, 181765102,
     189812531, 198216249, 206992033, 216156353, 225726412, 235720174, 246156398, 257054673,
     268435456, 280320108, 292730940, 305691246, 319225354, 333358668, 348117717, 363530205,
     379625062, 396432499, 413984066, 432312706, 451452825, 471440349, 492312796, 514109346,
     536870912, 560640217, 585461880, 611382492, 638450708, 666717336, 696235434, 727060410,
     759250124, 792864999, 827968132, 864625413, 902905650, 942880699, 984625593, 1028218693,
     1073741824]"

abbreviation (input) LHDC_DEC_MAX_SFB :: nat where "LHDC_DEC_MAX_SFB \<equiv> 32"

subsection \<open>The routines\<close>

definition sns_step :: "int \<Rightarrow> int \<Rightarrow> int" where
  "sns_step b state =
     (let state = (if state < 0 then 0 else state);
          state = (if state > 63 then 63 else state);
          s = LHDC_SNS_STEP_POS ! nat state
      in if b \<noteq> 0 then - s else s)"

text \<open>The index of the gain, which \<open>sns_band_gain\<close> and its reciprocal compute alike.\<close>

definition sns_gain_index :: "int \<Rightarrow> int" where
  "sns_gain_index sf =
     (let idx = (if sf \<ge> 0 then drop_bit 4 sf else drop_bit 4 (sf + 0xa0f));
          idx = (if idx < 0 then 0 else idx)
      in if idx \<ge> int (length LHDC_POW2_MANT) then int (length LHDC_POW2_MANT) - 1 else idx)"

definition sns_floordiv :: "int \<Rightarrow> int \<Rightarrow> int" where
  "sns_floordiv a b =
     (let q = a sdiv b; r = a smod b
      in if r \<noteq> 0 \<and> ((a < 0) \<noteq> (b < 0)) then q - 1 else q)"

definition sns_div_euclid_pos :: "int \<Rightarrow> int \<Rightarrow> int" where
  "sns_div_euclid_pos a b = (let q = a sdiv b; r = a smod b in if r < 0 then q - 1 else q)"

definition sns_div_round4 :: "int \<Rightarrow> int" where
  "sns_div_round4 x = drop_bit 2 (x + 2)"

definition sns_div3 :: "int \<Rightarrow> int" where
  "sns_div3 x = drop_bit 31 (x * 715827882)"

text \<open>The running sum of the moving average: the loop over the inner bands.\<close>

function sns_smooth :: "nat \<Rightarrow> int list \<Rightarrow> nat \<Rightarrow> int \<Rightarrow> int list \<Rightarrow> nat \<times> int \<times> int list" where
  "sns_smooth n sf i tot out =
     (if i < n - 2
      then let tot = tot + (sf ! (i + 2) - sf ! (i - 2))
           in sns_smooth n sf (i + 1) tot (out[i := sns_div_round4 tot])
      else (i, tot, out))"
  by pat_completeness auto
termination
  by (relation "measure (\<lambda>(n, sf, i, tot, out). n - 2 - i)") auto

declare sns_smooth.simps [simp del]

definition sns_clamp :: "int \<Rightarrow> int" where
  "sns_clamp v =
     (let v = (if v < -2560 then -2560 else v); v = (if v > 1024 then 1024 else v) in - v)"

definition sns_post_smooth :: "int list \<Rightarrow> nat \<Rightarrow> int list" where
  "sns_post_smooth sf n =
     (if n < 4 then sf
      else
        let num_inv = (if n = 24 then 89478485 else 67108864);
            sum = fold (\<lambda>i sum. sum + sf ! i) [1..<n] 0;
            s0 = drop_bit 31 (- sum * num_inv);
            sf = fold (\<lambda>i sf. sf[i := sf ! i + s0]) [1..<n] (sf[0 := s0]);
            out = replicate LHDC_DEC_MAX_SFB 0;
            out = out[0 := sf ! 0];
            tot = sf ! 0 + sf ! 1 + sf ! 2 + sf ! 3;
            out = out[1 := sns_div_round4 tot];
            (i, tot, out) = sns_smooth n sf 2 tot out;
            tot = tot - sf ! (i - 2);
            out = out[i := sns_div3 tot];
            i = i + 1;
            out = out[i := sf ! (i - 1)]
        in fold (\<lambda>k sf. sf[k := sns_clamp (out ! k)]) [0..<n] sf)"

text \<open>The adaption of the step: \<open>c\<close> is the side bit of the band \<open>i\<close>.\<close>

definition sns_adapt :: "nat \<Rightarrow> int \<Rightarrow> int \<Rightarrow> int \<Rightarrow> int \<Rightarrow> int \<times> int" where
  "sns_adapt i c prev state run =
     (if i \<ge> 2
      then if c = prev
           then let run = run + 1; state = state + run
                in (if state > 63 then 63 else state, run)
           else let state = drop_bit 2 (3 * state + 2)
                in (if state < 0 then 0 else state, 1)
      else (state, run))"

text \<open>
  The loop of \<open>sns_adsq_inverse\<close> from the band \<open>i\<close> on, over the side bits from \<open>i - 1\<close> on:
  the value of the band before is the last argument.
\<close>

fun sns_adsq :: "nat \<Rightarrow> nat list \<Rightarrow> int \<Rightarrow> int \<Rightarrow> int \<Rightarrow> int \<Rightarrow> int list" where
  "sns_adsq i [] state run prev sf = []"
| "sns_adsq i (b # bs) state run prev sf =
     (let c = int b mod 2;
          (state, run) = sns_adapt i c prev state run;
          sf = sf + sns_step c state
      in sf # sns_adsq (i + 1) bs state run c sf)"

definition sns_adsq_inverse :: "nat list \<Rightarrow> int list \<Rightarrow> nat \<Rightarrow> int \<Rightarrow> int list" where
  "sns_adsq_inverse side_bits sf num_sfb sns_mode =
     (0 # sns_adsq 1 (take (num_sfb - 1) side_bits) sns_mode 1 (-1) 0) @ drop num_sfb sf"

record lhdc_dec_sns_params_t =
  sp_scale_factors :: "int list"
  sp_num_sfb :: u8
  sp_sns_mode :: int
  sp_global_gain :: int
  sp_nzc :: int
  sp_noise_level :: "int list"

datatype lhdc_dec_ret_t = LHDC_DEC_OK | LHDC_DEC_ERROR | LHDC_DEC_INVALID_PARAM
  | LHDC_DEC_INVALID_HANDLE | LHDC_DEC_NOT_INITIALIZED | LHDC_DEC_BUF_NOT_ENOUGH
  | LHDC_DEC_BITSTREAM_ERROR | LHDC_DEC_UNSUPPORTED_VERSION | LHDC_DEC_UNSUPPORTED_SR
  | LHDC_DEC_UNSUPPORTED_FORMAT | LHDC_DEC_NEED_MORE_DATA

definition lhdc_sns_decode_params ::
    "lhdc_dec_bit_reader_t \<Rightarrow> lhdc_dec_sns_params_t \<Rightarrow> int \<Rightarrow>
      lhdc_dec_ret_t \<times> lhdc_dec_bit_reader_t \<times> lhdc_dec_sns_params_t" where
  "lhdc_sns_decode_params br params num_sfb =
     (if num_sfb < 1 \<or> num_sfb > int LHDC_DEC_MAX_SFB then (LHDC_DEC_BITSTREAM_ERROR, br, params)
      else
        let (mode, br) = lhdc_bit_reader_read br 4;
            sns_mode = int (unat mode) + 8;
            (side_bits, br) =
              read_many (\<lambda>br. map_prod unat id (lhdc_bit_reader_read br (int 1))) (nat num_sfb - 1) br;
            params' = params\<lparr>sp_noise_level := replicate LHDC_DEC_MAX_SFB 0,
              sp_num_sfb := of_int num_sfb, sp_sns_mode := sns_mode\<rparr>
        in if sns_mode = 23
           then (LHDC_DEC_OK, br, params'\<lparr>sp_scale_factors := replicate LHDC_DEC_MAX_SFB 0\<rparr>)
           else
             let sf = sns_adsq_inverse side_bits (sp_scale_factors params) (nat num_sfb) sns_mode;
                 sf = sns_post_smooth sf (nat num_sfb)
             in (LHDC_DEC_OK, br, params'\<lparr>sp_scale_factors := sf\<rparr>))"

subsection \<open>Division by shifts and multiplications\<close>

lemma drop_bit_int: "drop_bit n (x :: int) = x div 2 ^ n"
  by (simp add: drop_bit_eq_div)

lemma sns_div_round4_div: "sns_div_round4 x = (x + 2) div 4"
  by (simp add: sns_div_round4_def drop_bit_int)

text \<open>Within \<open>2 ^ 29\<close> the multiplication is a division that rounds down, and down from exact thirds.\<close>

lemma sns_div3_div:
  assumes "\<bar>x\<bar> < 2 ^ 29"
  shows "sns_div3 x = (if x > 0 then (x - 1) div 3 else x div 3)"
proof -
  define q where "q = (if x > 0 then (x - 1) div 3 else x div 3)"
  have "x = 3 * q + 1 \<or> x = 3 * q + 2 \<or> x = 3 * q + 3 \<or> x = 3 * q" "x > 0 \<longrightarrow> x \<noteq> 3 * q" "x \<le> 0 \<longrightarrow> x \<noteq> 3 * q + 3"
    by (simp_all add: q_def) presburger+
  then have "x * 715827882 - q * 2147483648 \<in> {0..<2147483648}"
    using assms by auto
  then have "x * 715827882 div 2147483648 = q" by auto
  then show ?thesis by (simp add: sns_div3_def drop_bit_int q_def)
qed

text \<open>The two divisions kept in the code for reference are the floor division.\<close>

lemma sdiv_pos: "b > 0 \<Longrightarrow> a sdiv b = (if a < 0 then - (- a div b) else a div b)"
  and smod_pos: "b > 0 \<Longrightarrow> a smod b = (if a < 0 then - (- a mod b) else a mod (b :: int))"
  by (auto simp: signed_divide_int_def signed_modulo_int_def sgn_if)

lemma sns_floordiv_div: "b > 0 \<Longrightarrow> sns_floordiv a b = a div b"
  using zdiv_zminus1_eq_if [of b "- a"] by (auto simp: sns_floordiv_def Let_def sdiv_pos smod_pos)

lemma sns_div_euclid_div:
  assumes "b > 0"
  shows "sns_div_euclid_pos a b = a div b"
proof -
  have "- (- a mod b) < 0 \<longleftrightarrow> - a mod b \<noteq> 0" "\<not> a mod b < 0"
    using pos_mod_sign [OF assms, of "- a"] pos_mod_sign [OF assms, of a] by linarith+
  then show ?thesis
    using zdiv_zminus1_eq_if [of b "- a"] assms
    by (auto simp: sns_div_euclid_pos_def Let_def sdiv_pos smod_pos)
qed

subsection \<open>The delta code\<close>

lemma step_table: "0 \<le> s \<Longrightarrow> s \<le> 63 \<Longrightarrow> 6 \<le> LHDC_SNS_STEP_POS ! nat s \<and> LHDC_SNS_STEP_POS ! nat s \<le> 4096"
proof -
  assume "0 \<le> s" "s \<le> 63"
  moreover have "length LHDC_SNS_STEP_POS = 64" by (simp add: LHDC_SNS_STEP_POS_def)
  ultimately have "LHDC_SNS_STEP_POS ! nat s \<in> set LHDC_SNS_STEP_POS" by (intro nth_mem) simp
  moreover have "\<forall>x \<in> set LHDC_SNS_STEP_POS. 6 \<le> x \<and> x \<le> 4096" by (simp add: LHDC_SNS_STEP_POS_def)
  ultimately show ?thesis by blast
qed

lemma sns_step_bounds: "\<bar>sns_step b s\<bar> \<le> 4096" "sns_step b s < 0 \<longleftrightarrow> b \<noteq> 0"
proof -
  define s' where "s' = (if (if s < 0 then 0 else s) > 63 then 63 else if s < 0 then 0 else s)"
  have "0 \<le> s'" "s' \<le> 63" by (simp_all add: s'_def)
  from step_table [OF this] have "6 \<le> LHDC_SNS_STEP_POS ! nat s'" "LHDC_SNS_STEP_POS ! nat s' \<le> 4096" by blast+
  moreover have "sns_step b s = (if b \<noteq> 0 then - LHDC_SNS_STEP_POS ! nat s' else LHDC_SNS_STEP_POS ! nat s')"
    by (simp add: sns_step_def s'_def Let_def)
  ultimately show "\<bar>sns_step b s\<bar> \<le> 4096" "sns_step b s < 0 \<longleftrightarrow> b \<noteq> 0" by auto
qed

lemma length_sns_adsq [simp]: "length (sns_adsq i bs state run prev sf) = length bs"
  by (induction bs arbitrary: i state run prev sf) (simp_all add: Let_def split: prod.splits)

lemma sns_adsq_bound:
  "\<bar>sf\<bar> \<le> B \<Longrightarrow> x \<in> set (sns_adsq i bs state run prev sf) \<Longrightarrow> \<bar>x\<bar> \<le> B + 4096 * int (length bs)"
proof (induction bs arbitrary: i state run prev sf B)
  case (Cons b bs)
  let ?c = "int b mod 2"
  obtain state' run' where s: "sns_adapt i ?c prev state run = (state', run')" by fastforce
  let ?sf = "sf + sns_step ?c state'"
  have b: "\<bar>?sf\<bar> \<le> B + 4096" using Cons.prems(1) sns_step_bounds(1) [of ?c state'] by linarith
  have "x = ?sf \<or> x \<in> set (sns_adsq (i + 1) bs state' run' ?c ?sf)"
    using Cons.prems(2) by (simp add: s Let_def)
  then show ?case using b Cons.IH [OF b] by (auto simp: add.assoc)
qed simp

text \<open>Each value tells its side bit: it is below the value before exactly when the bit is set.\<close>

lemma sns_adsq_direction:
  "k < length bs \<Longrightarrow>
    (sf # sns_adsq i bs state run prev sf) ! Suc k < (sf # sns_adsq i bs state run prev sf) ! k \<longleftrightarrow> odd (bs ! k)"
proof (induction bs arbitrary: i state run prev sf k)
  case (Cons b bs)
  let ?c = "int b mod 2"
  obtain state' run' where s: "sns_adapt i ?c prev state run = (state', run')" by fastforce
  let ?sf = "sf + sns_step ?c state'"
  have e: "sns_adsq i (b # bs) state run prev sf = ?sf # sns_adsq (i + 1) bs state' run' ?c ?sf"
    by (simp add: s Let_def)
  show ?case
  proof (cases k)
    case 0
    have "?c \<noteq> 0 \<longleftrightarrow> odd b" by presburger
    then show ?thesis using sns_step_bounds(2) [of ?c state'] unfolding e 0 by simp
  next
    case (Suc j)
    then show ?thesis using Cons.prems Cons.IH [of j ?sf "i + 1" state' run' ?c] unfolding e by simp
  qed
qed simp


subsection \<open>The envelope\<close>

text \<open>
  The reference: the mean is removed (for 24 bands the reciprocal makes it a division that rounds
  an exact negative mean down by one more), the values are averaged over a window of one band below and
  two above, at the edges over fewer, clamped and negated.
\<close>

definition sns_mean :: "int list \<Rightarrow> nat \<Rightarrow> int" where
  "sns_mean sf n =
     (let sum = (\<Sum>i = 1..<n. sf ! i)
      in if n = 24 then (if sum < 0 then (- sum - 1) div 24 else - sum div 24) else - sum div 32)"

definition sns_centred :: "int list \<Rightarrow> nat \<Rightarrow> nat \<Rightarrow> int" where
  "sns_centred sf n i = sns_mean sf n + (if i = 0 then 0 else sf ! i)"

definition sns_average :: "(nat \<Rightarrow> int) \<Rightarrow> nat \<Rightarrow> nat \<Rightarrow> int" where
  "sns_average v n k =
     (if k = 0 then v 0
      else if k = n - 1 then v (n - 2)
      else if k = n - 2 then let w = v (n - 3) + v (n - 2) + v (n - 1) in if w > 0 then (w - 1) div 3 else w div 3
      else (v (k - 1) + v k + v (k + 1) + v (k + 2) + 2) div 4)"

definition sns_envelope :: "int list \<Rightarrow> nat \<Rightarrow> nat \<Rightarrow> int" where
  "sns_envelope sf n k = - min 1024 (max (-2560) (sns_average (sns_centred sf n) n k))"

lemma sns_clamp_eq: "sns_clamp v = - min 1024 (max (-2560) v)"
  by (simp add: sns_clamp_def Let_def min_def max_def)

lemma sum_loop: "n \<ge> 1 \<Longrightarrow> fold (\<lambda>i sum. sum + sf ! i) [1..<n] 0 = (\<Sum>i = 1..<n. sf ! i :: int)"
proof (induction n)
  case (Suc n)
  then show ?case by (cases n) simp_all
qed simp

lemma map_loop:
  "n \<le> length sf \<Longrightarrow> fold (\<lambda>i sf. sf[i := f (sf ! i) i]) [m..<n] sf =
    map (\<lambda>i. if m \<le> i \<and> i < n then f (sf ! i) i else sf ! i) [0..<length sf]"
proof (induction n)
  case (Suc n)
  show ?case
  proof (cases "m \<le> n")
    case True
    then show ?thesis using Suc
      by (simp, intro nth_equalityI) (auto simp: nth_list_update)
  next
    case False
    then show ?thesis by (intro nth_equalityI) auto
  qed
qed (intro nth_equalityI; auto)

lemma sns_mean_shift:
  fixes s :: int
  assumes "\<bar>s\<bar> < 2 ^ 27"
  shows "drop_bit 31 (- s * 89478485) = (if s < 0 then (- s - 1) div 24 else - s div 24)"
    and "drop_bit 31 (- s * 67108864) = - s div 32"
proof -
  define q where "q = (if s < 0 then (- s - 1) div 24 else - s div 24)"
  have "s < 0 \<longrightarrow> 24 * q + 1 \<le> - s \<and> - s \<le> 24 * q + 24" "\<not> s < 0 \<longrightarrow> 24 * q \<le> - s \<and> - s \<le> 24 * q + 23"
    by (simp_all add: q_def) presburger+
  then have "- s * 89478485 - q * 2147483648 \<in> {0..<2147483648}"
    using assms by (cases "s < 0") auto
  then have "- s * 89478485 div 2147483648 = q" by auto
  then show "drop_bit 31 (- s * 89478485) = (if s < 0 then (- s - 1) div 24 else - s div 24)"
    by (simp add: drop_bit_int q_def)
  have "- s * 67108864 div (32 * 67108864) = - s div 32" by (rule div_mult_mult2) simp
  then show "drop_bit 31 (- s * 67108864) = - s div 32" by (simp add: drop_bit_int)
qed

text \<open>The running sum is the sum of the window.\<close>

lemma sns_smooth_window:
  assumes "n \<le> length out" and "2 \<le> i" and "i \<le> n - 2"
    and "tot = sf ! (i - 2) + sf ! (i - 1) + sf ! i + sf ! (i + 1)"
  shows "sns_smooth n sf i tot out =
    (n - 2, sf ! (n - 4) + sf ! (n - 3) + sf ! (n - 2) + sf ! (n - 1),
     map (\<lambda>k. if i \<le> k \<and> k < n - 2 then (sf ! (k - 1) + sf ! k + sf ! (k + 1) + sf ! (k + 2) + 2) div 4
              else out ! k) [0..<length out])"
  using assms
proof (induction n sf i tot out rule: sns_smooth.induct)
  case (1 n sf i tot out)
  show ?case
  proof (cases "i < n - 2")
    case False
    with 1(3-5) have i: "i = n - 2" "n - 2 - 2 = n - 4" "n - 2 - 1 = n - 3" "n - 2 + 1 = n - 1" by auto
    then have "map (\<lambda>k. if i \<le> k \<and> k < n - 2 then (sf ! (k - 1) + sf ! k + sf ! (k + 1) + sf ! (k + 2) + 2) div 4
              else out ! k) [0..<length out] = out" by (auto intro: nth_equalityI)
    moreover have "sns_smooth n sf i tot out = (i, tot, out)" using False by (simp add: sns_smooth.simps [of n sf i])
    ultimately show ?thesis using 1(5) by (simp only: i)
  next
    case True
    let ?tot = "tot + (sf ! (i + 2) - sf ! (i - 2))"
    have t: "?tot = sf ! (i + 1 - 2) + sf ! (i + 1 - 1) + sf ! (i + 1) + sf ! (i + 1 + 1)"
      using 1(5) 1(3) by (simp add: numeral_2_eq_2)
    have "sns_smooth n sf i tot out = sns_smooth n sf (i + 1) ?tot (out[i := sns_div_round4 ?tot])"
      using True by (simp add: sns_smooth.simps [of n sf i] Let_def)
    also have "\<dots> = (n - 2, sf ! (n - 4) + sf ! (n - 3) + sf ! (n - 2) + sf ! (n - 1),
      map (\<lambda>k. if i + 1 \<le> k \<and> k < n - 2 then (sf ! (k - 1) + sf ! k + sf ! (k + 1) + sf ! (k + 2) + 2) div 4
              else out[i := sns_div_round4 ?tot] ! k) [0..<length (out[i := sns_div_round4 ?tot])])"
      by (rule 1(1) [OF True refl _ _ _ t]) (use 1(2,3) True in simp_all)
    also have "\<dots> = (n - 2, sf ! (n - 4) + sf ! (n - 3) + sf ! (n - 2) + sf ! (n - 1),
      map (\<lambda>k. if i \<le> k \<and> k < n - 2 then (sf ! (k - 1) + sf ! k + sf ! (k + 1) + sf ! (k + 2) + 2) div 4
              else out ! k) [0..<length out])"
      using 1(2,3) True t by (auto simp: nth_list_update sns_div_round4_div numeral_2_eq_2)
    finally show ?thesis .
  qed
qed


lemma sns_sum_bound:
  fixes sf :: "int list"
  assumes "\<forall>i < n. \<bar>sf ! i\<bar> \<le> 126976" and "n \<le> 32"
  shows "\<bar>\<Sum>i = 1..<n. sf ! i\<bar> \<le> 31 * 126976"
proof -
  have "\<bar>\<Sum>i = 1..<n. sf ! i\<bar> \<le> (\<Sum>i = 1..<n. \<bar>sf ! i\<bar>)" by (rule sum_abs)
  also have "\<dots> \<le> (\<Sum>i = 1..<n. 126976)" using assms(1) by (intro sum_mono) simp
  also have "\<dots> = int (n - 1) * 126976" by simp
  also have "\<dots> \<le> 31 * 126976" using assms(2) by (intro mult_right_mono) simp_all
  finally show ?thesis .
qed

lemma sns_mean_bound: "\<bar>\<Sum>i = 1..<n. sf ! i\<bar> \<le> B \<Longrightarrow> \<bar>sns_mean sf n\<bar> \<le> B + 1"
  unfolding sns_mean_def Let_def by (auto split: if_splits)

lemma sns_post_smooth_eq:
  assumes n: "4 \<le> n" "n \<le> LHDC_DEC_MAX_SFB" "n \<le> length sf" and b: "\<forall>i < n. \<bar>sf ! i\<bar> \<le> 126976"
  shows "sns_post_smooth sf n = map (sns_envelope sf n) [0..<n] @ drop n sf"
proof -
  let ?s = "\<Sum>i = 1..<n. sf ! i" and ?c = "sns_centred sf n"
  define num :: int where "num = (if n = 24 then 89478485 else 67108864)"
  have s: "\<bar>?s\<bar> \<le> 31 * 126976" by (rule sns_sum_bound [OF b n(2)])
  then have "\<bar>?s\<bar> < 2 ^ 27" by simp
  then have mean: "drop_bit 31 (- ?s * num) = sns_mean sf n"
    by (simp only: num_def sns_mean_def sns_mean_shift Let_def if_distrib [of "\<lambda>x. drop_bit 31 (- ?s * x)"] split: if_split)
  define sm where "sm = fold (\<lambda>i xs. xs[i := xs ! i + sns_mean sf n]) [1..<n] (sf[0 := sns_mean sf n])"
  have sm: "sm = map (\<lambda>i. if 1 \<le> i \<and> i < n then sf[0 := sns_mean sf n] ! i + sns_mean sf n
      else sf[0 := sns_mean sf n] ! i) [0..<length sf]"
    unfolding sm_def using map_loop [of n "sf[0 := sns_mean sf n]" "\<lambda>x i. x + sns_mean sf n" 1] n(3) by simp
  then have lsm: "length sm = length sf" by simp
  have v: "sm ! i = ?c i" if "i < n" for i
  proof -
    have i: "i < length sf" "0 < length sf" using that n by linarith+
    then show ?thesis using that unfolding sm by (cases i) (simp_all add: sns_centred_def)
  qed
  have v': "sm ! i = sf ! i" if "n \<le> i" "i < length sf" for i
    using that n(1) by (simp add: sm)
  define o1 where "o1 = ((replicate LHDC_DEC_MAX_SFB (0 :: int))[0 := sm ! 0])[1 := sns_div_round4 (sm ! 0 + sm ! 1 + sm ! 2 + sm ! 3)]"
  have w: "sns_smooth n sm 2 (sm ! 0 + sm ! 1 + sm ! 2 + sm ! 3) o1 =
    (n - 2, sm ! (n - 4) + sm ! (n - 3) + sm ! (n - 2) + sm ! (n - 1),
     map (\<lambda>k. if 2 \<le> k \<and> k < n - 2 then (sm ! (k - 1) + sm ! k + sm ! (k + 1) + sm ! (k + 2) + 2) div 4
              else o1 ! k) [0..<length o1])"
    using n by (intro sns_smooth_window) (simp_all add: o1_def numeral_eq_Suc)
  define o2 where "o2 = (map (\<lambda>k. if 2 \<le> k \<and> k < n - 2 then (sm ! (k - 1) + sm ! k + sm ! (k + 1) + sm ! (k + 2) + 2) div 4
              else o1 ! k) [0..<length o1])[n - 2 := sns_div3 (sm ! (n - 3) + sm ! (n - 2) + sm ! (n - 1))]"
  define o3 where "o3 = o2[n - 1 := sm ! (n - 2)]"
  have "\<bar>?c i\<bar> \<le> 126976 + (31 * 126976 + 1)" if "i < n" for i
    using b that sns_mean_bound [OF s] by (simp add: sns_centred_def) force
  from this have "- 4063233 \<le> ?c i \<and> ?c i \<le> 4063233" if "i < n" for i using that by fastforce
  from this [of "n - 3"] this [of "n - 2"] this [of "n - 1"] n
  have "\<bar>?c (n - 3) + ?c (n - 2) + ?c (n - 1)\<bar> < 2 ^ 29" by (simp add: abs_less_iff)
  note d3 = sns_div3_div [OF this]
  have o1: "length o1 = 32" "o1 ! 0 = sm ! 0" "o1 ! 1 = sns_div_round4 (sm ! 0 + sm ! 1 + sm ! 2 + sm ! 3)"
    by (simp_all add: o1_def)
  have o2: "length o2 = 32" by (simp add: o2_def o1(1))
  have o3: "o3 ! k = sns_average ?c n k" if k: "k < n" for k
  proof -
    consider "k = 0" | "k = 1" | "2 \<le> k" "k < n - 2" | "k = n - 2" | "k = n - 1" using k by linarith
    then show ?thesis
    proof cases
      case 1
      then show ?thesis using n o1 v [of 0] by (simp add: o3_def o2_def sns_average_def)
    next
      case 2
      have "1 \<noteq> n - 1" "1 \<noteq> n - 2" "0 < n" "1 < n" "2 < n" "3 < n" using n(1) by linarith+
      then show ?thesis using 2 o1 v [of 0] v [of 1] v [of 2] v [of 3]
        by (simp add: o3_def o2_def sns_average_def sns_div_round4_div del: One_nat_def)
    next
      case 3
      then have "k \<noteq> 0" "k \<noteq> n - 1" "k \<noteq> n - 2" "k < 32" "k - 1 < n" "k < n" "k + 1 < n" "k + 2 < n"
        using n by linarith+
      then show ?thesis using 3 o1(1) v [of "k - 1"] v [of k] v [of "k + 1"] v [of "k + 2"]
        by (simp add: o3_def o2_def sns_average_def del: One_nat_def)
    next
      case 4
      then have "k \<noteq> 0" "n - 2 \<noteq> n - 1" "n - 2 < 32" "n - 3 < n" "n - 2 < n" "n - 1 < n" using n by linarith+
      then show ?thesis using 4 o1(1) v [of "n - 3"] v [of "n - 2"] v [of "n - 1"] d3
        by (simp add: o3_def o2_def sns_average_def Let_def del: One_nat_def)
    next
      case 5
      then show ?thesis using n o2 v [of "n - 2"] by (simp add: o3_def sns_average_def)
    qed
  qed
  have e: "sns_post_smooth sf n = fold (\<lambda>k sf. sf[k := sns_clamp (o3 ! k)]) [0..<n] sm"
  proof -
    have i: "(n < 4) = False" "n - 2 + 1 = n - 1" "n - 1 - 1 = n - 2"
      "sm ! (n - 4) + sm ! (n - 3) + sm ! (n - 2) + sm ! (n - 1) - sm ! (n - 2 - 2) =
        sm ! (n - 3) + sm ! (n - 2) + sm ! (n - 1)"
      using n(1) by simp_all
    have "1 \<le> n" using n(1) by simp
    note f = sum_loop [OF this, of sf]
    show ?thesis
      unfolding sns_post_smooth_def Let_def i(1) if_False f num_def [symmetric] mean sm_def [symmetric]
        o1_def [symmetric] w prod.case i(2,3) i(4) o2_def [symmetric] o3_def [symmetric] ..
  qed
  show ?thesis
    unfolding e map_loop [of n sm "\<lambda>x k. sns_clamp (o3 ! k)" 0, unfolded lsm, OF n(3)]
    using n o3 lsm v' by (intro nth_equalityI) (auto simp: sns_clamp_eq sns_envelope_def nth_append)
qed


lemma sns_adsq_inverse_bound:
  assumes "1 \<le> n" and "n \<le> LHDC_DEC_MAX_SFB" and "n - 1 \<le> length bits" and "i < n"
  shows "\<bar>sns_adsq_inverse bits sf n mode ! i\<bar> \<le> 126976"
proof (cases i)
  case 0
  then show ?thesis by (simp add: sns_adsq_inverse_def)
next
  case (Suc j)
  let ?xs = "sns_adsq 1 (take (n - 1) bits) mode 1 (-1) 0"
  have j: "j < length ?xs" using assms Suc by simp
  then have "\<bar>?xs ! j\<bar> \<le> 0 + 4096 * int (length (take (n - 1) bits))"
    by (intro sns_adsq_bound [OF _ nth_mem]) simp_all
  also have "\<dots> \<le> 0 + 4096 * 31" using assms by (intro add_left_mono mult_left_mono) auto
  finally show ?thesis using j Suc by (simp add: sns_adsq_inverse_def nth_append)
qed

lemma length_sns_adsq_inverse: "1 \<le> n \<Longrightarrow> n - 1 \<le> length bits \<Longrightarrow> length (sns_adsq_inverse bits sf n mode) = n + (length sf - n)"
  by (simp add: sns_adsq_inverse_def)

lemma sns_envelope_local:
  assumes "\<forall>i < n. sf ! i = sf' ! i" and "4 \<le> n" and "k < n"
  shows "sns_envelope sf n k = sns_envelope sf' n k"
proof -
  have "sns_mean sf n = sns_mean sf' n" unfolding sns_mean_def using assms(1) by simp
  then have c: "sns_centred sf n i = sns_centred sf' n i" if "i < n" for i
    using assms(1) that by (simp add: sns_centred_def)
  then have "sns_average (sns_centred sf n) n k = sns_average (sns_centred sf' n) n k"
    using assms(2,3) by (simp add: sns_average_def)
  then show ?thesis by (simp add: sns_envelope_def)
qed

lemma sns_params_decoded:
  assumes "br_ok br" and n: "4 \<le> n" "n \<le> LHDC_DEC_MAX_SFB" and "n + 3 \<le> length (br_left br)"
    and "length (sp_scale_factors params) = LHDC_DEC_MAX_SFB"
    and "mode = int (bits_number (take 4 (br_left br))) + 8"
    and "side = bit_fields 1 (n - 1) (drop 4 (br_left br))"
  shows "\<exists>br'. lhdc_sns_decode_params br params (int n) =
      (LHDC_DEC_OK, br', params\<lparr>sp_noise_level := replicate LHDC_DEC_MAX_SFB 0, sp_num_sfb := of_nat n,
         sp_sns_mode := mode,
         sp_scale_factors :=
           (if mode = 23 then replicate LHDC_DEC_MAX_SFB 0
            else map (sns_envelope (0 # sns_adsq 1 side mode 1 (-1) 0) n) [0..<n] @
                 drop n (sp_scale_factors params))\<rparr>) \<and>
    br_ok br' \<and> br_left br' = drop (n + 3) (br_left br)"
proof -
  obtain m br1 where r: "lhdc_bit_reader_read br 4 = (m, br1)" by fastforce
  have "4 \<le> length (br_left br)" using assms(4) n(1) by linarith
  with lhdc_bits.rd_field [OF assms(1), of 4]
  have br1: "br_ok br1" "int (unat m) + 8 = mode" "br_left br1 = drop 4 (br_left br)"
    by (simp_all add: r assms(6))
  obtain vs br2 where r2: "read_many (\<lambda>br. map_prod unat id (lhdc_bit_reader_read br (int 1))) (n - 1) br1 = (vs, br2)"
    by fastforce
  from lhdc_bits.read_many_fields [OF br1(1), of 1 "n - 1"] assms(4) n
  have br2: "br_ok br2" "vs = side" "br_left br2 = drop (n + 3) (br_left br)"
    using n(1) by (simp_all add: r2 [simplified] br1(3) assms(7)) (simp add: add.commute)
  let ?sf = "sns_adsq_inverse side (sp_scale_factors params) n mode"
  have l: "length side = n - 1" by (simp add: assms(7))
  have ls: "length ?sf = 32" using n l assms(5) by (subst length_sns_adsq_inverse) simp_all
  have sf: "?sf ! i = (0 # sns_adsq 1 side mode 1 (-1) 0) ! i" if "i < n" for i
    using that n l by (cases i) (auto simp: sns_adsq_inverse_def nth_append)
  have "sns_post_smooth ?sf n = map (sns_envelope ?sf n) [0..<n] @ drop n ?sf"
    using n ls l by (intro sns_post_smooth_eq) (auto intro!: sns_adsq_inverse_bound)
  also have "drop n ?sf = drop n (sp_scale_factors params)"
    using n l by (cases n) (simp_all add: sns_adsq_inverse_def)
  also have "map (sns_envelope ?sf n) [0..<n] = map (sns_envelope (0 # sns_adsq 1 side mode 1 (-1) 0) n) [0..<n]"
    by (rule map_cong [OF refl], rule sns_envelope_local [OF _ n(1)]) (auto simp: sf)
  finally show ?thesis
    using n r r2 br1(2) br2 by (auto simp: lhdc_sns_decode_params_def Let_def)
qed

text \<open>
  C33 (equivalence). The side information of a channel gives the envelope of the reference: 4 bits
  of mode, one bit a band, read from any position; the delta code decoded from the mode; the mean
  removed, the moving average with its edges, the clamp and the sign computed with divisions, where the
  code multiplies by reciprocals, shifts and keeps a running sum. The divisions round down; two of them, by 24
  for a negated mean that is positive and by 3 at the upper edge for a positive sum, also take a quotient without
  remainder down by one. The
  mode 23 is the flat envelope. The reader has taken the bits of the side information.
\<close>

theorem sns_decode_envelope:
  assumes "br_ok br" and n: "4 \<le> n" "n \<le> LHDC_DEC_MAX_SFB" and "n + 3 \<le> length (br_left br)"
    and "length (sp_scale_factors params) = LHDC_DEC_MAX_SFB"
    and "mode = int (bits_number (take 4 (br_left br))) + 8"
    and "side = bit_fields 1 (n - 1) (drop 4 (br_left br))"
  shows "\<exists>br'. lhdc_sns_decode_params br params (int n) =
      (LHDC_DEC_OK, br', params\<lparr>sp_noise_level := replicate LHDC_DEC_MAX_SFB 0, sp_num_sfb := of_nat n,
         sp_sns_mode := mode,
         sp_scale_factors :=
           (if mode = 23 then replicate LHDC_DEC_MAX_SFB 0
            else map (sns_envelope (0 # sns_adsq 1 side mode 1 (-1) 0) n) [0..<n] @
                 drop n (sp_scale_factors params))\<rparr>) \<and>
    br_ok br' \<and> br_left br' = drop (n + 3) (br_left br)"
  using assms by (rule sns_params_decoded)


definition sns_params_zero :: lhdc_dec_sns_params_t where
  "sns_params_zero = \<lparr>sp_scale_factors = replicate LHDC_DEC_MAX_SFB 0, sp_num_sfb = 0, sp_sns_mode = 0,
     sp_global_gain = 0, sp_nzc = 0, sp_noise_level = replicate LHDC_DEC_MAX_SFB 0\<rparr>"

lemma sns_decode_envelope_witness:
  "\<exists>br' ps. lhdc_sns_decode_params (lhdc_bit_reader_init (bytes [0x35, 0xA7, 0x1C, 0x99]) 4) sns_params_zero 24 =
      (LHDC_DEC_OK, br', ps) \<and> sp_num_sfb ps = 24 \<and> br_left br' = drop 27 (br_left (lhdc_bit_reader_init (bytes [0x35, 0xA7, 0x1C, 0x99]) 4))"
proof -
  let ?br = "lhdc_bit_reader_init (bytes [0x35, 0xA7, 0x1C, 0x99]) 4"
  have br: "br_ok ?br" by (simp add: br_init_ok)
  have l: "24 + 3 \<le> length (br_left ?br)" by (simp add: length_br_left br_pos_def lhdc_bit_reader_init_def)
  have p: "length (sp_scale_factors sns_params_zero) = LHDC_DEC_MAX_SFB" by (simp add: sns_params_zero_def)
  from sns_decode_envelope [OF br _ _ l p refl refl] show ?thesis by fastforce
qed

text \<open>
  Whatever the side bits are, no scale factor of a decoded channel leaves the range
  from -1024 to 2560, and the gain it selects is an entry of the table without the guards of the index; the
  delta code, the sum of the values and the values freed of the mean stay within 32 bits.
\<close>

theorem sns_gain_in_table:
  assumes "4 \<le> n" and "n \<le> LHDC_DEC_MAX_SFB" and "n - 1 \<le> length bits" and "n \<le> length sf"
    and "raw = sns_adsq_inverse bits sf n mode" and "k < n"
  shows "\<bar>raw ! k\<bar> < 2 ^ 31 \<and> \<bar>\<Sum>i = 1..<n. raw ! i\<bar> < 2 ^ 31 \<and> \<bar>sns_centred raw n k\<bar> < 2 ^ 31 div 4 \<and>
    - 1024 \<le> sns_post_smooth raw n ! k \<and> sns_post_smooth raw n ! k \<le> 2560 \<and>
    sns_gain_index (sns_post_smooth raw n ! k) =
      (if 0 \<le> sns_post_smooth raw n ! k then sns_post_smooth raw n ! k div 16
       else (sns_post_smooth raw n ! k + 2575) div 16)"
proof -
  have b: "\<forall>i < n. \<bar>raw ! i\<bar> \<le> 126976" using assms by (auto intro!: sns_adsq_inverse_bound)
  then have rk: "\<bar>raw ! k\<bar> \<le> 126976" using assms(6) by blast
  note s = sns_sum_bound [OF b assms(2)]
  from sns_mean_bound [OF s] have m: "\<bar>sns_mean raw n\<bar> \<le> 31 * 126976 + 1" .
  have c: "\<bar>sns_centred raw n k\<bar> < 2 ^ 31 div 4" using m rk by (auto simp: sns_centred_def)
  have "n \<le> length raw" using assms by (simp add: length_sns_adsq_inverse)
  from sns_post_smooth_eq [OF assms(1,2) this b] assms(6)
  have e: "sns_post_smooth raw n ! k = sns_envelope raw n k" by (simp add: nth_append)
  have r: "- 1024 \<le> sns_envelope raw n k" "sns_envelope raw n k \<le> 2560"
    by (auto simp: sns_envelope_def min_def max_def)
  have "length LHDC_POW2_MANT = 161" by (simp add: LHDC_POW2_MANT_def)
  then have "sns_gain_index x = (if 0 \<le> x then x div 16 else (x + 2575) div 16)" if "- 1024 \<le> x" "x \<le> 2560" for x
    using that by (auto simp: sns_gain_index_def Let_def drop_bit_int)
  with rk s c r show ?thesis unfolding e by simp
qed

lemma sns_gain_in_table_witness:
  "- 1024 \<le> sns_post_smooth (sns_adsq_inverse (replicate 31 1) (replicate 32 0) 32 22) 32 ! 5"
  using sns_gain_in_table [of 32 "replicate 31 1" "replicate 32 0" _ 22 5] by simp

text \<open>
  The delta code loses nothing: the side bits are the signs of the steps between
  the values of neighbouring bands, so two different sequences of side bits have different envelopes
  before the smoothing.
\<close>

theorem sns_side_bits_recovered:
  assumes "n - 1 \<le> length bits" and "\<forall>b \<in> set bits. b < 2"
  shows "map (\<lambda>i. of_bool (sns_adsq_inverse bits sf n mode ! Suc i < sns_adsq_inverse bits sf n mode ! i)) [0..<n - 1] =
    take (n - 1) bits"
proof (intro nth_equalityI)
  fix i
  assume "i < length (map (\<lambda>i. of_bool (sns_adsq_inverse bits sf n mode ! Suc i < sns_adsq_inverse bits sf n mode ! i)) [0..<n - 1] :: nat list)"
  then have i: "i < n - 1" by simp
  let ?xs = "0 # sns_adsq 1 (take (n - 1) bits) mode 1 (-1) 0"
  have l: "i < length (take (n - 1) bits)" "Suc i < length ?xs" using i assms(1) by simp_all
  then have "sns_adsq_inverse bits sf n mode ! Suc i = ?xs ! Suc i" "sns_adsq_inverse bits sf n mode ! i = ?xs ! i"
    unfolding sns_adsq_inverse_def by (simp_all only: nth_append if_True length_Cons less_SucI)
  moreover have "bits ! i < 2" using assms(2) l(1) by simp
  then have "of_bool (odd (bits ! i)) = bits ! i" by (cases "bits ! i"; auto)
  ultimately show "map (\<lambda>i. of_bool (sns_adsq_inverse bits sf n mode ! Suc i < sns_adsq_inverse bits sf n mode ! i)) [0..<n - 1] ! i =
      take (n - 1) bits ! i"
    using sns_adsq_direction [OF l(1), of 0 1 mode 1 "-1"] i by (simp del: nth_Cons_Suc)
qed (use assms in simp)

lemma sns_side_bits_recovered_witness:
  "map (\<lambda>i. of_bool (sns_adsq_inverse [1, 0, 0, 1] [] 5 11 ! Suc i < sns_adsq_inverse [1, 0, 0, 1] [] 5 11 ! i)) [0..<4] =
    [1, 0, 0, 1 :: nat]"
  using sns_side_bits_recovered [of 5 "[1, 0, 0, 1]" "[]" 11] by simp

end
