(* ===== verification/Lhdc_Frame.thy ===== *)
theory Lhdc_Frame
  imports Lhdc_Sns
begin

text \<open>
  external/lhdc-v5/lhdc\_dec.c and lhdc\_tables.c: the head of a frame. The configurations of the
  bands, the sizes of the transform, the permutation and mask over the head of each channel, the
  two octets in front of the payload, and the state of the decoder as far as it is not floats. The
  work buffers that are sized to the rate are their size \<open>alloc_mdct_size\<close>.
\<close>

subsection \<open>The configurations of the bands (lhdc\_tables.c)\<close>

datatype lhdc_band_cfg_idx_t = LHDC_BAND_CFG_480 | LHDC_BAND_CFG_480_HR | LHDC_BAND_CFG_480_LB
  | LHDC_BAND_CFG_960 | LHDC_BAND_CFG_1920

record lhdc_band_cfg_desc_t =
  bc_cfg_idx :: lhdc_band_cfg_idx_t
  bc_num_sfb :: nat
  bc_mdct_size :: nat
  bc_ma_win1 :: int
  bc_ma_win2 :: int

fun lhdc_band_cfgs :: "lhdc_band_cfg_idx_t \<Rightarrow> lhdc_band_cfg_desc_t" where
  "lhdc_band_cfgs LHDC_BAND_CFG_480 =
     \<lparr>bc_cfg_idx = LHDC_BAND_CFG_480, bc_num_sfb = 32, bc_mdct_size = 480, bc_ma_win1 = 57, bc_ma_win2 = 63\<rparr>"
| "lhdc_band_cfgs LHDC_BAND_CFG_480_HR =
     \<lparr>bc_cfg_idx = LHDC_BAND_CFG_480_HR, bc_num_sfb = 32, bc_mdct_size = 480, bc_ma_win1 = 57, bc_ma_win2 = 63\<rparr>"
| "lhdc_band_cfgs LHDC_BAND_CFG_480_LB =
     \<lparr>bc_cfg_idx = LHDC_BAND_CFG_480_LB, bc_num_sfb = 24, bc_mdct_size = 480, bc_ma_win1 = 57, bc_ma_win2 = 63\<rparr>"
| "lhdc_band_cfgs LHDC_BAND_CFG_960 =
     \<lparr>bc_cfg_idx = LHDC_BAND_CFG_960, bc_num_sfb = 32, bc_mdct_size = 960, bc_ma_win1 = 96, bc_ma_win2 = 64\<rparr>"
| "lhdc_band_cfgs LHDC_BAND_CFG_1920 =
     \<lparr>bc_cfg_idx = LHDC_BAND_CFG_1920, bc_num_sfb = 32, bc_mdct_size = 1920, bc_ma_win1 = 96, bc_ma_win2 = 64\<rparr>"

definition lhdc_get_samples_per_frame :: "u32 \<Rightarrow> u8 \<Rightarrow> u16" where
  "lhdc_get_samples_per_frame sample_rate frame_duration_ms =
     ucast (ucast sample_rate * ucast frame_duration_ms div (1000 :: u64))"

definition lhdc_get_band_cfg :: "u32 \<Rightarrow> u8 \<Rightarrow> lhdc_band_cfg_desc_t" where
  "lhdc_get_band_cfg sample_rate frame_duration_ms =
     (let spf = lhdc_get_samples_per_frame sample_rate frame_duration_ms
      in if spf \<le> 240 then lhdc_band_cfgs LHDC_BAND_CFG_480_HR
         else if spf \<le> 480 then lhdc_band_cfgs LHDC_BAND_CFG_960
         else lhdc_band_cfgs LHDC_BAND_CFG_1920)"

definition lhdc_get_band_cfg_frame :: "u32 \<Rightarrow> u8 \<Rightarrow> nat \<Rightarrow> lhdc_band_cfg_desc_t" where
  "lhdc_get_band_cfg_frame sample_rate frame_duration_ms per_ch_bytes =
     (let spf = lhdc_get_samples_per_frame sample_rate frame_duration_ms
      in if spf \<le> 240
         then let ms = (if frame_duration_ms \<noteq> 0 then unat frame_duration_ms else 5) * 10;
                  bit_rate = per_ch_bytes * 8 * 10000 div ms
              in if bit_rate > 119999 then lhdc_band_cfgs LHDC_BAND_CFG_480_HR
                 else if bit_rate > 95999 then lhdc_band_cfgs LHDC_BAND_CFG_480
                 else lhdc_band_cfgs LHDC_BAND_CFG_480_LB
         else if spf \<le> 480 then lhdc_band_cfgs LHDC_BAND_CFG_960
         else lhdc_band_cfgs LHDC_BAND_CFG_1920)"

definition lhdc_get_mdct_size :: "u32 \<Rightarrow> u8 \<Rightarrow> nat" where
  "lhdc_get_mdct_size sample_rate frame_duration_ms = bc_mdct_size (lhdc_get_band_cfg sample_rate frame_duration_ms)"

abbreviation (input) LHDC_DEC_MAX_MDCT_SIZE :: nat where "LHDC_DEC_MAX_MDCT_SIZE \<equiv> 1920"
abbreviation (input) LHDC_DEC_MAX_FRAME_BYTES :: nat where "LHDC_DEC_MAX_FRAME_BYTES \<equiv> 1536"

definition lhdc_dec_mdct_size :: "u32 \<Rightarrow> u8 \<Rightarrow> nat" where
  "lhdc_dec_mdct_size sr dur =
     (let m = bc_mdct_size (lhdc_get_band_cfg sr (if dur \<noteq> 0 then dur else 5))
      in if m \<le> 0 \<or> m > LHDC_DEC_MAX_MDCT_SIZE then LHDC_DEC_MAX_MDCT_SIZE else m)"

definition lhdc_dec_ma_window :: "int \<Rightarrow> int" where
  "lhdc_dec_ma_window enc_frame_len =
     (let win1 = (if enc_frame_len \<ge> 160 then enc_frame_len div 2 else enc_frame_len div 4)
      in if win1 < 1 then 1 else win1)"

subsection \<open>The head of a channel\<close>

definition LHDC_XOR_MASK :: "u8 list" where
  "LHDC_XOR_MASK = [0xFF, 0xE7, 0x7A, 0xB3, 0xDA, 0xE5, 0xCD, 0x73]"

definition LHDC_PERM :: "nat list list" where
  "LHDC_PERM = [[4, 0, 1, 5, 7, 3, 2, 6], [6, 3, 7, 0, 2, 1, 4, 5]]"

text \<open>The array \<open>tmp\<close> of the code is not set before the loop writes all of it.\<close>

definition lhdc_descramble_inplace_sel :: "buf \<Rightarrow> nat \<Rightarrow> nat \<Rightarrow> buf" where
  "lhdc_descramble_inplace_sel buf avail sel =
     (if avail < 9 then buf
      else
        let perm = LHDC_PERM ! (sel mod 2);
            tmp = fold (\<lambda>i tmp. tmp(perm ! i := buf i)) [0..<8] (\<lambda>_. 0)
        in fold (\<lambda>k buf. buf(k := tmp k XOR LHDC_XOR_MASK ! k)) [0..<8] buf)"

definition lhdc_descramble_inplace :: "buf \<Rightarrow> nat \<Rightarrow> buf" where
  "lhdc_descramble_inplace buf avail =
     (if avail < 9 then buf
      else lhdc_descramble_inplace_sel buf avail (unat (buf 8 AND 1)))"

text \<open>The copying variant, which nothing calls.\<close>

definition lhdc_descramble :: "buf \<Rightarrow> buf \<Rightarrow> nat \<Rightarrow> buf" where
  "lhdc_descramble inp out len =
     (if len < 9 then memcpy out inp len
      else
        let sel = unat (inp 8 AND 1);
            perm = LHDC_PERM ! sel;
            out = fold (\<lambda>i out. out(perm ! i := inp i)) [0..<8] out;
            out = fold (\<lambda>k out. out(k := out k XOR LHDC_XOR_MASK ! k)) [0..<8] out
        in (\<lambda>i. if 8 \<le> i \<and> i < len then inp i else out i))"

subsection \<open>The state of the decoder\<close>

record lhdc_dec_config_t =
  cf_sample_rate :: u32
  cf_bit_depth :: u8
  cf_frame_duration :: u8
  cf_channels :: u8
  cf_max_frame_bytes :: u32
  cf_lossless_enable :: u8

record lhdc_dec_frame_header_t =
  fh_version :: u8
  fh_frame_duration_ms :: u8
  fh_sample_rate :: u32
  fh_channels :: u8
  fh_bit_depth :: u8
  fh_frame_bytes :: u16
  fh_frame_flags :: u16
  fh_samples_per_channel :: u16
  fh_band_cfg_idx :: lhdc_band_cfg_idx_t
  fh_lossless :: u8

definition frame_header_zero :: lhdc_dec_frame_header_t where
  "frame_header_zero =
     \<lparr>fh_version = 0, fh_frame_duration_ms = 0, fh_sample_rate = 0, fh_channels = 0, fh_bit_depth = 0,
      fh_frame_bytes = 0, fh_frame_flags = 0, fh_samples_per_channel = 0,
      fh_band_cfg_idx = LHDC_BAND_CFG_480, fh_lossless = 0\<rparr>"

record lhdc_decoder =
  dc_config :: lhdc_dec_config_t
  dc_header :: lhdc_dec_frame_header_t
  dc_band_cfg :: lhdc_band_cfg_desc_t
  dc_bit_reader :: lhdc_dec_bit_reader_t
  dc_sns_params :: lhdc_dec_sns_params_t
  dc_hdr_save :: buf
  dc_hdr_saved_start :: int
  dc_chan_maxM :: int
  dc_alloc_mdct_size :: nat
  dc_payload_buf :: buf
  dc_frame_index :: u32
  dc_initialized :: bool
  dc_header_parsed :: bool

text \<open>The octets of the payload from an offset on, as the reader of a channel sees them.\<close>

definition buf_from :: "buf \<Rightarrow> nat \<Rightarrow> buf" where
  "buf_from b start = (\<lambda>i. b (start + i))"

text \<open>The little-endian word in front of a frame, and the length it gives.\<close>

definition frame_word :: "buf \<Rightarrow> u16" where
  "frame_word b = ucast (b 0) OR push_bit 8 (ucast (b 1))"

definition frame_payload_len :: "buf \<Rightarrow> nat" where
  "frame_payload_len b = unat (frame_word b AND 0x3FF) * 2"

definition lhdc_dec_parse_header :: "lhdc_decoder \<Rightarrow> buf \<Rightarrow> nat \<Rightarrow> lhdc_dec_ret_t \<times> lhdc_decoder \<times> nat" where
  "lhdc_dec_parse_header dec in_data in_bytes =
     (let dec = dec\<lparr>dc_header := frame_header_zero\<rparr>
      in if in_bytes < 2 then (LHDC_DEC_NEED_MORE_DATA, dec, 0)
         else
           let payload_len = frame_payload_len in_data;
               flags = drop_bit 10 (frame_word in_data)
           in if payload_len = 0 \<or> payload_len > LHDC_DEC_MAX_FRAME_BYTES then (LHDC_DEC_BITSTREAM_ERROR, dec, 0)
              else if in_bytes < 2 + payload_len then (LHDC_DEC_NEED_MORE_DATA, dec, 0)
              else
                let cfg = dc_config dec;
                    bcfg = lhdc_get_band_cfg (cf_sample_rate cfg) (cf_frame_duration cfg);
                    hdr = (dc_header dec)
                      \<lparr>fh_sample_rate := cf_sample_rate cfg,
                       fh_channels := (if cf_channels cfg \<noteq> 0 then cf_channels cfg else 2),
                       fh_bit_depth := cf_bit_depth cfg,
                       fh_frame_duration_ms := cf_frame_duration cfg,
                       fh_version := 1,
                       fh_frame_flags := flags,
                       fh_frame_bytes := of_nat payload_len,
                       fh_band_cfg_idx := bc_cfg_idx bcfg,
                       fh_samples_per_channel := of_nat (bc_mdct_size bcfg div 2)\<rparr>;
                    payload = memcpy (dc_payload_buf dec) (\<lambda>i. in_data (2 + i)) payload_len
                in (LHDC_DEC_OK,
                    dec\<lparr>dc_header := hdr, dc_payload_buf := payload,
                        dc_bit_reader := lhdc_bit_reader_init payload (of_nat payload_len)\<rparr>,
                    2 + payload_len))"

text \<open>
  The part of \<open>lhdc_dec_decode_frame\<close> in front of the channels; the last component is
  \<open>frame_consumed\<close> for a frame whose channels are decoded, and the zero left in \<open>*consumed\<close> else.
\<close>

definition lhdc_dec_begin_frame ::
    "lhdc_decoder option \<Rightarrow> buf option \<Rightarrow> nat \<Rightarrow> bool \<Rightarrow> nat \<Rightarrow> (nat \<Rightarrow> int) \<Rightarrow>
      lhdc_dec_ret_t \<times> lhdc_decoder option \<times> nat" where
  "lhdc_dec_begin_frame dec in_data in_bytes have_out out_samples lhdc_imdct_init =
     (case dec of
        None \<Rightarrow> (LHDC_DEC_NOT_INITIALIZED, dec, 0)
      | Some d \<Rightarrow>
          if \<not> dc_initialized d then (LHDC_DEC_NOT_INITIALIZED, dec, 0)
          else case in_data of
            None \<Rightarrow> (LHDC_DEC_INVALID_PARAM, dec, 0)
          | Some data \<Rightarrow>
              if in_bytes < 4 \<or> \<not> have_out then (LHDC_DEC_INVALID_PARAM, dec, 0)
              else
                let (ret, d, consumed) = lhdc_dec_parse_header d data in_bytes
                in if ret \<noteq> LHDC_DEC_OK then (ret, Some d, consumed)
                   else
                     let bc_ch = (if unat (fh_channels (dc_header d)) < 1 then 1 else unat (fh_channels (dc_header d)));
                         cfg = lhdc_get_band_cfg_frame (fh_sample_rate (dc_header d))
                           (fh_frame_duration_ms (dc_header d)) (unat (fh_frame_bytes (dc_header d)) div bc_ch);
                         d = d\<lparr>dc_header_parsed := True, dc_band_cfg := cfg,
                               dc_header := (dc_header d)\<lparr>fh_band_cfg_idx := bc_cfg_idx cfg\<rparr>\<rparr>
                     in if unat (fh_samples_per_channel (dc_header d)) > out_samples
                        then (LHDC_DEC_BUF_NOT_ENOUGH, Some d, 0)
                        else if lhdc_imdct_init (bc_mdct_size cfg) \<noteq> 0
                        then (LHDC_DEC_ERROR, Some d, 0)
                        else (LHDC_DEC_OK, Some d, consumed))"

definition lhdc_dec_get_config :: "lhdc_decoder \<Rightarrow> lhdc_dec_config_t \<Rightarrow> lhdc_dec_config_t" where
  "lhdc_dec_get_config dec config =
     (if dc_header_parsed dec
      then config\<lparr>cf_sample_rate := fh_sample_rate (dc_header dec), cf_bit_depth := fh_bit_depth (dc_header dec),
             cf_frame_duration := fh_frame_duration_ms (dc_header dec), cf_channels := fh_channels (dc_header dec),
             cf_max_frame_bytes := ucast (fh_frame_bytes (dc_header dec)),
             cf_lossless_enable := fh_lossless (dc_header dec)\<rparr>
      else dc_config dec)"

definition sns_params_cleared :: lhdc_dec_sns_params_t where
  "sns_params_cleared = \<lparr>sp_scale_factors = replicate LHDC_DEC_MAX_SFB 0, sp_num_sfb = 0, sp_sns_mode = 0,
     sp_global_gain = 0, sp_nzc = 0, sp_noise_level = replicate LHDC_DEC_MAX_SFB 0\<rparr>"

definition lhdc_dec_reset :: "lhdc_decoder \<Rightarrow> lhdc_decoder" where
  "lhdc_dec_reset dec =
     dec\<lparr>dc_header_parsed := False, dc_frame_index := 0, dc_header := frame_header_zero,
         dc_sns_params := sns_params_cleared\<rparr>"

text \<open>
  \<open>lhdc_dec_init\<close> on storage, with the result of the allocation of the work buffers a parameter; the
  whole structure is cleared before.
\<close>

definition decoder_zero :: lhdc_decoder where
  "decoder_zero =
     \<lparr>dc_config = \<lparr>cf_sample_rate = 0, cf_bit_depth = 0, cf_frame_duration = 0, cf_channels = 0,
        cf_max_frame_bytes = 0, cf_lossless_enable = 0\<rparr>,
      dc_header = frame_header_zero, dc_band_cfg = lhdc_band_cfgs LHDC_BAND_CFG_480,
      dc_bit_reader = lhdc_bit_reader_init (\<lambda>_. 0) 0, dc_sns_params = sns_params_cleared,
      dc_hdr_save = (\<lambda>_. 0), dc_hdr_saved_start = 0, dc_chan_maxM = 0, dc_alloc_mdct_size = 0,
      dc_payload_buf = (\<lambda>_. 0), dc_frame_index = 0, dc_initialized = False, dc_header_parsed = False\<rparr>"

definition lhdc_dec_init :: "bool \<Rightarrow> lhdc_dec_config_t option \<Rightarrow> lhdc_decoder option" where
  "lhdc_dec_init alloc_ok config =
     (let dec = decoder_zero;
          dec = dec\<lparr>dc_config :=
            (case config of
               Some c \<Rightarrow> c
             | None \<Rightarrow> \<lparr>cf_sample_rate = 48000, cf_bit_depth = 24, cf_frame_duration = 5, cf_channels = 2,
                 cf_max_frame_bytes = of_nat LHDC_DEC_MAX_FRAME_BYTES, cf_lossless_enable = 0\<rparr>)\<rparr>;
          m = lhdc_dec_mdct_size (cf_sample_rate (dc_config dec)) (cf_frame_duration (dc_config dec))
      in if \<not> alloc_ok then None
         else Some (dec\<lparr>dc_alloc_mdct_size := m, dc_hdr_saved_start := -1, dc_initialized := True,
                dc_header_parsed := False, dc_frame_index := 0\<rparr>))"

subsection \<open>The scrambling\<close>

text \<open>The encoder's side: each octet of the head is masked and goes where the permutation takes it from.\<close>

definition lhdc_scramble :: "nat \<Rightarrow> buf \<Rightarrow> buf" where
  "lhdc_scramble sel b =
     (\<lambda>i. if i < 8 then let k = LHDC_PERM ! (sel mod 2) ! i in b k XOR LHDC_XOR_MASK ! k else b i)"

lemma sel_cases: "sel mod 2 = 0 \<or> sel mod 2 = (1 :: nat)"
  by auto

lemma upt_0_8: "[0..<8] = [0, 1, 2, 3, 4, 5, 6, 7]"
  by (simp add: upt_rec)

definition inv_perm :: "nat \<Rightarrow> nat list" where
  "inv_perm sel = (if sel mod 2 = 0 then [1, 2, 6, 5, 0, 3, 7, 4] else [3, 5, 4, 1, 6, 7, 0, 2])"

lemma perm_inverse:
  assumes "k < 8"
  shows "LHDC_PERM ! (sel mod 2) ! (inv_perm sel ! k) = k" and "inv_perm sel ! k < 8"
    and "inv_perm sel ! (LHDC_PERM ! (sel mod 2) ! k) = k" and "LHDC_PERM ! (sel mod 2) ! k < 8"
  using less_8_cases [OF assms] sel_cases [of sel] by (auto simp: LHDC_PERM_def inv_perm_def)

lemma fold_store: "fold (\<lambda>k b. b(k := g k)) [0..<n] b = (\<lambda>i. if i < n then g i else b i)"
  by (induction n) auto

lemma fold_mask: "fold (\<lambda>k b. b(k := b k XOR g k)) [0..<n] b = (\<lambda>i. if i < n then b i XOR g i else b i)"
  by (induction n) auto

lemma fold_scatter:
  assumes "\<And>i. i < n \<Longrightarrow> p i < m \<and> q (p i) = i"
  shows "fold (\<lambda>i t. t(p i := b i)) [0..<n] t k = (if \<exists>i < n. p i = k then b (q k) else t k)"
  using assms
proof (induction n)
  case (Suc n)
  then show ?case by (cases "p n = k") (auto simp: less_Suc_eq)
qed simp

lemma descramble_sel_apply:
  assumes "9 \<le> avail"
  shows "lhdc_descramble_inplace_sel b avail sel i =
    (if i < 8 then b (inv_perm sel ! i) XOR LHDC_XOR_MASK ! i else b i)"
proof -
  let ?p = "\<lambda>i. LHDC_PERM ! (sel mod 2) ! i"
  have t: "fold (\<lambda>i t. t(?p i := b i)) [0..<8] (\<lambda>_. 0) k = b (inv_perm sel ! k)" if "k < 8" for k
  proof -
    have "\<exists>i < 8. ?p i = k" using perm_inverse [OF that, of sel] by blast
    moreover have "fold (\<lambda>i t. t(?p i := b i)) [0..<8] (\<lambda>_. 0) k =
        (if \<exists>i < 8. ?p i = k then b (inv_perm sel ! k) else 0)"
      by (rule fold_scatter [where m = 8]) (simp add: perm_inverse(3,4))
    ultimately show ?thesis by (simp only: if_True)
  qed
  show ?thesis
    using assms t [of i] by (simp add: lhdc_descramble_inplace_sel_def Let_def fold_store)
qed

lemma descramble_scramble:
  assumes "9 \<le> avail"
  shows "lhdc_descramble_inplace_sel (lhdc_scramble sel b) avail sel = b"
    and "lhdc_scramble sel (lhdc_descramble_inplace_sel b avail sel) = b"
proof -
  have "lhdc_descramble_inplace_sel (lhdc_scramble sel b) avail sel i = b i \<and>
    lhdc_scramble sel (lhdc_descramble_inplace_sel b avail sel) i = b i" for i
    using perm_inverse [of i sel]
    by (simp add: descramble_sel_apply [OF assms] lhdc_scramble_def xor.assoc)
  then show "lhdc_descramble_inplace_sel (lhdc_scramble sel b) avail sel = b"
    "lhdc_scramble sel (lhdc_descramble_inplace_sel b avail sel) = b" by auto
qed

lemma descramble_auto:
  "lhdc_descramble_inplace b avail = lhdc_descramble_inplace_sel b avail (unat (b 8 AND 1))"
  by (simp add: lhdc_descramble_inplace_def lhdc_descramble_inplace_sel_def)

lemma unat_and_one: "unat (w AND 1 :: u8) mod 2 = unat (w AND 1)"
proof -
  have "w AND 1 = 0 \<or> w AND 1 = 1" by (simp add: and_one_eq mod_2_eq_odd)
  then show ?thesis by auto
qed

text \<open>
  The head of a channel is descrambled exactly: for both selectors the decoder
  undoes the permutation and the mask of the encoder and the other way round, the octets from
  the ninth on are left alone, a slice too short for a head stays as it is, and the selector that the
  decoder takes from the ninth octet is the one that the encoder put there; the copying variant
  gives the same octets.
\<close>

theorem lhdc_scramble_roundtrip:
  assumes "9 \<le> avail"
  shows "lhdc_descramble_inplace_sel (lhdc_scramble sel b) avail sel = b \<and>
    lhdc_scramble sel (lhdc_descramble_inplace_sel b avail sel) = b \<and>
    (unat (b 8 AND 1) = sel mod 2 \<longrightarrow> lhdc_descramble_inplace (lhdc_scramble sel b) avail = b) \<and>
    buf_agree avail (lhdc_descramble b out avail) (lhdc_descramble_inplace b avail) \<and>
    lhdc_descramble_inplace b 8 = b"
proof (intro conjI impI)
  assume s: "unat (b 8 AND 1) = sel mod 2"
  have "lhdc_descramble_inplace_sel c avail (sel mod 2) = lhdc_descramble_inplace_sel c avail sel" for c
    by (simp add: lhdc_descramble_inplace_sel_def)
  then show "lhdc_descramble_inplace (lhdc_scramble sel b) avail = b"
    using s by (simp add: descramble_auto lhdc_scramble_def [of sel b, THEN fun_cong, of 8]
      descramble_scramble [OF assms])
next
  let ?sel = "unat (b 8 AND 1)"
  let ?p = "\<lambda>i. LHDC_PERM ! ?sel ! i"
  have p: "i < 8 \<Longrightarrow> ?p i < 8 \<and> inv_perm ?sel ! ?p i = i" for i
    using perm_inverse [of i ?sel] by (simp add: unat_and_one)
  have "fold (\<lambda>i t. t(?p i := b i)) [0..<8] out k = b (inv_perm ?sel ! k)" if "k < 8" for k
  proof -
    have "\<exists>i < 8. ?p i = k" using perm_inverse [OF that, of ?sel] by (auto simp: unat_and_one)
    moreover have "fold (\<lambda>i t. t(?p i := b i)) [0..<8] out k =
        (if \<exists>i < 8. ?p i = k then b (inv_perm ?sel ! k) else out k)"
      by (rule fold_scatter [where m = 8]) (rule p)
    ultimately show ?thesis by (simp only: if_True)
  qed
  then have "lhdc_descramble b out avail i = lhdc_descramble_inplace b avail i" if "i < avail" for i
    using assms that
    by (cases "i < 8") (simp_all add: lhdc_descramble_def Let_def descramble_auto descramble_sel_apply fold_mask)
  then show "buf_agree avail (lhdc_descramble b out avail) (lhdc_descramble_inplace b avail)"
    by (simp add: buf_agree_iff)
qed (simp_all add: descramble_scramble [OF assms] lhdc_descramble_inplace_def)


lemma lhdc_scramble_roundtrip_witness:
  "lhdc_descramble_inplace (lhdc_scramble 1 (bytes [0, 1, 2, 3, 4, 5, 6, 7, 0x81])) 125 = bytes [0, 1, 2, 3, 4, 5, 6, 7, 0x81]"
proof -
  have "unat (bytes [0, 1, 2, 3, 4, 5, 6, 7, 0x81] 8 AND 1) = 1 mod 2" by (simp add: bytes_def)
  then show ?thesis using lhdc_scramble_roundtrip [of 125 1 "bytes [0, 1, 2, 3, 4, 5, 6, 7, 0x81]"] by simp
qed

subsection \<open>The sizes\<close>

text \<open>The configuration chosen for a frame has the transform size of the one chosen for the rate.\<close>

lemma band_cfg_frame_mdct: "bc_mdct_size (lhdc_get_band_cfg_frame sr dur n) = bc_mdct_size (lhdc_get_band_cfg sr dur)"
  by (simp add: lhdc_get_band_cfg_frame_def lhdc_get_band_cfg_def Let_def)

lemma band_cfg_sizes:
  "bc_mdct_size (lhdc_get_band_cfg sr dur) \<in> {480, 960, 1920}"
  "bc_num_sfb (lhdc_get_band_cfg_frame sr dur n) \<in> {24, 32}"
  by (simp_all add: lhdc_get_band_cfg_frame_def lhdc_get_band_cfg_def Let_def)

lemma mdct_size_covers: "bc_mdct_size (lhdc_get_band_cfg sr dur) \<le> lhdc_dec_mdct_size sr dur"
proof (cases "dur = 0")
  case True
  then have "lhdc_get_samples_per_frame sr dur = 0" by (simp add: lhdc_get_samples_per_frame_def)
  then have "bc_mdct_size (lhdc_get_band_cfg sr dur) = 480" by (simp add: lhdc_get_band_cfg_def)
  then show ?thesis using band_cfg_sizes(1) [of sr 5] True by (auto simp: lhdc_dec_mdct_size_def Let_def)
next
  case False
  then show ?thesis using band_cfg_sizes(1) [of sr dur] by (auto simp: lhdc_dec_mdct_size_def Let_def)
qed

text \<open>What an accepted frame leaves in the decoder.\<close>

lemma parse_header_ok:
  assumes "lhdc_dec_parse_header d data n = (LHDC_DEC_OK, d', c)"
  shows "0 < unat (fh_frame_bytes (dc_header d'))" and "unat (fh_frame_bytes (dc_header d')) \<le> LHDC_DEC_MAX_FRAME_BYTES"
    and "c = 2 + unat (fh_frame_bytes (dc_header d'))" and "c \<le> n"
    and "2 * unat (fh_samples_per_channel (dc_header d')) =
      bc_mdct_size (lhdc_get_band_cfg (cf_sample_rate (dc_config d)) (cf_frame_duration (dc_config d)))"
    and "fh_sample_rate (dc_header d') = cf_sample_rate (dc_config d)"
    and "fh_frame_duration_ms (dc_header d') = cf_frame_duration (dc_config d)"
    and "dc_config d' = dc_config d" and "dc_alloc_mdct_size d' = dc_alloc_mdct_size d"
proof -
  define len where "len = frame_payload_len data"
  let ?m = "bc_mdct_size (lhdc_get_band_cfg (cf_sample_rate (dc_config d)) (cf_frame_duration (dc_config d)))"
  have len: "0 < len" "len \<le> 1536" "2 + len \<le> n"
    using assms by (auto simp: lhdc_dec_parse_header_def Let_def len_def split: if_splits)
  have u: "unat (of_nat len :: u16) = len" "unat (of_nat (?m div 2) :: u16) = ?m div 2" "even ?m"
    using len(2) band_cfg_sizes(1) [of "cf_sample_rate (dc_config d)" "cf_frame_duration (dc_config d)"]
    by (auto simp: unat_of_nat)
  have h: "c = 2 + len" "fh_frame_bytes (dc_header d') = of_nat len"
    "fh_samples_per_channel (dc_header d') = of_nat (?m div 2)"
    "fh_sample_rate (dc_header d') = cf_sample_rate (dc_config d)"
    "fh_frame_duration_ms (dc_header d') = cf_frame_duration (dc_config d)"
    "dc_config d' = dc_config d" "dc_alloc_mdct_size d' = dc_alloc_mdct_size d"
    using assms by (auto simp: lhdc_dec_parse_header_def Let_def len_def split: if_splits)
  show "0 < unat (fh_frame_bytes (dc_header d'))" "unat (fh_frame_bytes (dc_header d')) \<le> LHDC_DEC_MAX_FRAME_BYTES"
    "c = 2 + unat (fh_frame_bytes (dc_header d'))" "c \<le> n"
    "2 * unat (fh_samples_per_channel (dc_header d')) = ?m"
    "fh_sample_rate (dc_header d') = cf_sample_rate (dc_config d)"
    "fh_frame_duration_ms (dc_header d') = cf_frame_duration (dc_config d)"
    "dc_config d' = dc_config d" "dc_alloc_mdct_size d' = dc_alloc_mdct_size d"
    using h len by (simp_all add: u)
qed

text \<open>
  A frame that is accepted fits the buffers that were allocated for the rate, whatever
  the configuration was, also a rate or duration that is not one of the codec: the transform size
  chosen for the frame is not above the allocated one, the samples put out are its half and not
  more than the caller's, the bands are 24 or 32, and the payload fits the array it is copied to
  and the input.
\<close>

theorem frame_fits_buffers:
  assumes "lhdc_dec_init True cfg = Some d0" and "dc_config d = dc_config d0"
    and "dc_alloc_mdct_size d = dc_alloc_mdct_size d0"
    and "lhdc_dec_begin_frame (Some d) data n out out_samples imdct = (LHDC_DEC_OK, Some d', c)"
  shows "bc_mdct_size (dc_band_cfg d') \<le> dc_alloc_mdct_size d' \<and>
    2 * unat (fh_samples_per_channel (dc_header d')) = bc_mdct_size (dc_band_cfg d') \<and>
    unat (fh_samples_per_channel (dc_header d')) \<le> out_samples \<and>
    bc_num_sfb (dc_band_cfg d') \<in> {24, 32} \<and>
    0 < unat (fh_frame_bytes (dc_header d')) \<and> unat (fh_frame_bytes (dc_header d')) \<le> LHDC_DEC_MAX_FRAME_BYTES \<and>
    c = 2 + unat (fh_frame_bytes (dc_header d')) \<and> c \<le> n"
proof -
  obtain xs where data: "data = Some xs" using assms(4) by (auto simp: lhdc_dec_begin_frame_def split: option.splits if_splits)
  obtain ret d1 c1 where p: "lhdc_dec_parse_header d xs n = (ret, d1, c1)" by (metis prod_cases3)
  have ret: "ret = LHDC_DEC_OK" "c1 = c"
    using assms(4) by (auto simp: lhdc_dec_begin_frame_def data p Let_def split: if_splits)
  note h = parse_header_ok [OF p [unfolded ret]]
  have d': "dc_alloc_mdct_size d' = dc_alloc_mdct_size d1"
    "fh_samples_per_channel (dc_header d') = fh_samples_per_channel (dc_header d1)"
    "fh_frame_bytes (dc_header d') = fh_frame_bytes (dc_header d1)"
    "unat (fh_samples_per_channel (dc_header d1)) \<le> out_samples"
    "\<exists>k. dc_band_cfg d' = lhdc_get_band_cfg_frame (fh_sample_rate (dc_header d1)) (fh_frame_duration_ms (dc_header d1)) k"
    using assms(4) ret by (auto simp: lhdc_dec_begin_frame_def data p Let_def split: if_splits)
  from d'(5) obtain k where k: "dc_band_cfg d' =
    lhdc_get_band_cfg_frame (cf_sample_rate (dc_config d)) (cf_frame_duration (dc_config d)) k" by (auto simp: h(6,7))
  have "dc_alloc_mdct_size d = lhdc_dec_mdct_size (cf_sample_rate (dc_config d)) (cf_frame_duration (dc_config d))"
    using assms(1-3) by (auto simp: lhdc_dec_init_def Let_def)
  with mdct_size_covers d' h k band_cfg_sizes(2) show ?thesis by (simp add: band_cfg_frame_mdct)
qed


text \<open>A decoder with the default configuration and a frame of four octets of payload.\<close>

definition frame_four :: buf where
  "frame_four = bytes [0x02, 0x04, 0x11, 0x22, 0x33, 0x44]"

lemma default_decoder:
  "\<exists>d. lhdc_dec_init True None = Some d \<and> dc_initialized d \<and> cf_sample_rate (dc_config d) = 48000 \<and>
    cf_frame_duration (dc_config d) = 5 \<and> cf_channels (dc_config d) = 2"
  by (simp add: lhdc_dec_init_def Let_def)

lemma spf_48k: "lhdc_get_samples_per_frame 48000 5 = 240"
  by (simp add: lhdc_get_samples_per_frame_def)

lemma parse_four:
  assumes "cf_sample_rate (dc_config d) = 48000" and "cf_frame_duration (dc_config d) = 5" and "6 \<le> n"
  shows "\<exists>d'. lhdc_dec_parse_header d frame_four n = (LHDC_DEC_OK, d', 6) \<and>
    fh_samples_per_channel (dc_header d') = 240 \<and> fh_frame_bytes (dc_header d') = 4"
proof -
  have h: "frame_payload_len frame_four = 4"
    by (simp add: frame_payload_len_def frame_word_def frame_four_def bytes_def)
  show ?thesis
    using assms by (simp add: lhdc_dec_parse_header_def Let_def h lhdc_get_band_cfg_def spf_48k)
qed

lemma frame_fits_buffers_witness:
  "\<exists>d d' c. lhdc_dec_init True None = Some d \<and>
    lhdc_dec_begin_frame (Some d) (Some frame_four) 6 True 240 (\<lambda>_. 0) = (LHDC_DEC_OK, Some d', c) \<and>
    bc_mdct_size (dc_band_cfg d') \<le> dc_alloc_mdct_size d' \<and> c = 6"
proof -
  obtain d where d: "lhdc_dec_init True None = Some d" "dc_initialized d" "cf_sample_rate (dc_config d) = 48000"
    "cf_frame_duration (dc_config d) = 5" using default_decoder by blast
  from parse_four [OF d(3,4), of 6] obtain d1 where p:
    "lhdc_dec_parse_header d frame_four 6 = (LHDC_DEC_OK, d1, 6)" "fh_samples_per_channel (dc_header d1) = 240"
    "fh_frame_bytes (dc_header d1) = 4"
    by auto
  have "\<exists>d'. lhdc_dec_begin_frame (Some d) (Some frame_four) 6 True 240 (\<lambda>_. 0) = (LHDC_DEC_OK, Some d', 6)"
    by (simp add: lhdc_dec_begin_frame_def d(2) p Let_def)
  then obtain d' where "lhdc_dec_begin_frame (Some d) (Some frame_four) 6 True 240 (\<lambda>_. 0) = (LHDC_DEC_OK, Some d', 6)"
    by blast
  with frame_fits_buffers [OF d(1) refl refl this] d(1) show ?thesis by blast
qed

subsection \<open>Framing\<close>

lemma parse_header_four:
  assumes "lhdc_dec_parse_header d data n = (LHDC_DEC_OK, d', c)"
  shows "4 \<le> c"
proof -
  have c: "c = 2 + frame_payload_len data" "0 < frame_payload_len data"
    using assms by (auto simp: lhdc_dec_parse_header_def Let_def split: if_splits)
  have "even (frame_payload_len data)" by (simp add: frame_payload_len_def)
  with c(2) have "2 \<le> frame_payload_len data" by (auto elim!: evenE)
  with c(1) show ?thesis by simp
qed

lemma parse_header_prefix:
  assumes "lhdc_dec_parse_header d data n = (LHDC_DEC_OK, d', c)" and "buf_agree c data data'" and "c \<le> n'"
  shows "lhdc_dec_parse_header d data' n' = (LHDC_DEC_OK, d', c)"
proof -
  have c: "2 < c" using parse_header_ok(1,3) [OF assms(1)] by simp
  then have "data' 0 = data 0" "data' 1 = data 1" using assms(2) by (auto simp: buf_agree_iff)
  then have e: "frame_word data' = frame_word data" "frame_payload_len data' = frame_payload_len data"
    by (simp_all add: frame_payload_len_def frame_word_def)
  define len where "len = frame_payload_len data"
  have len: "c = 2 + len" using assms(1) by (auto simp: lhdc_dec_parse_header_def Let_def len_def split: if_splits)
  have "memcpy p (\<lambda>i. data' (2 + i)) len = memcpy p (\<lambda>i. data (2 + i)) len" for p
    using assms(2) by (auto simp: memcpy_def fun_eq_iff buf_agree_iff len)
  then show ?thesis
    using assms(1,3) len by (auto simp: lhdc_dec_parse_header_def Let_def e len_def split: if_splits)
qed

lemma parse_header_short:
  assumes "lhdc_dec_parse_header d data n = (LHDC_DEC_OK, d', c)" and "n' < c" and "buf_agree n' data data'"
  shows "\<exists>d''. lhdc_dec_parse_header d data' n' = (LHDC_DEC_NEED_MORE_DATA, d'', 0)"
proof (cases "n' < 2")
  case True
  then show ?thesis by (simp add: lhdc_dec_parse_header_def Let_def)
next
  case False
  then have "data' 0 = data 0" "data' 1 = data 1" using assms(3) by (auto simp: buf_agree_iff)
  then have "frame_payload_len data' = frame_payload_len data" by (simp add: frame_payload_len_def frame_word_def)
  with False assms(1,2) show ?thesis by (auto simp: lhdc_dec_parse_header_def Let_def split: if_splits)
qed

text \<open>
  C34 (functional). A frame is found by its own octets: when a frame was accepted and took \<open>c\<close>
  octets, any input that begins with these octets is accepted with the same result, whatever
  follows, and every shorter prefix of at least four octets asks for more data and takes nothing.
\<close>

theorem frame_is_prefix_code:
  assumes "lhdc_dec_begin_frame (Some d) (Some data) n True out_samples imdct = (LHDC_DEC_OK, Some d', c)"
    and "buf_agree n' data data'"
  shows "(c \<le> n' \<longrightarrow> lhdc_dec_begin_frame (Some d) (Some data') n' True out_samples imdct = (LHDC_DEC_OK, Some d', c)) \<and>
    (4 \<le> n' \<and> n' < c \<longrightarrow>
      (\<exists>d''. lhdc_dec_begin_frame (Some d) (Some data') n' True out_samples imdct = (LHDC_DEC_NEED_MORE_DATA, Some d'', 0)))"
proof -
  obtain ret d1 c1 where p: "lhdc_dec_parse_header d data n = (ret, d1, c1)" by (metis prod_cases3)
  have ret: "ret = LHDC_DEC_OK" "c1 = c" "dc_initialized d" "4 \<le> n"
    using assms(1) by (auto simp: lhdc_dec_begin_frame_def p Let_def split: if_splits)
  note p = p [unfolded ret]
  have c: "4 \<le> c" by (rule parse_header_four [OF p])
  have long: "lhdc_dec_begin_frame (Some d) (Some data') n' True out_samples imdct = (LHDC_DEC_OK, Some d', c)" if "c \<le> n'"
    using parse_header_prefix [OF p buf_agree_mono [OF assms(2) that] that] that c assms(1) ret(3,4)
    by (simp add: lhdc_dec_begin_frame_def p)
  have short: "\<exists>d''. lhdc_dec_begin_frame (Some d) (Some data') n' True out_samples imdct = (LHDC_DEC_NEED_MORE_DATA, Some d'', 0)"
    if "4 \<le> n'" "n' < c"
    using parse_header_short [OF p that(2) assms(2)] that(1) ret(3) by (auto simp: lhdc_dec_begin_frame_def)
  from long short show ?thesis by blast
qed

lemma frame_is_prefix_code_witness:
  "\<exists>d d''. lhdc_dec_init True None = Some d \<and>
    lhdc_dec_begin_frame (Some d) (Some frame_four) 5 True 240 (\<lambda>_. 0) = (LHDC_DEC_NEED_MORE_DATA, Some d'', 0)"
proof -
  obtain d where d: "lhdc_dec_init True None = Some d" "dc_initialized d" "cf_sample_rate (dc_config d) = 48000"
    "cf_frame_duration (dc_config d) = 5" using default_decoder by blast
  from parse_four [OF d(3,4), of 6] obtain d1 where p:
    "lhdc_dec_parse_header d frame_four 6 = (LHDC_DEC_OK, d1, 6)" "fh_samples_per_channel (dc_header d1) = 240"
    "fh_frame_bytes (dc_header d1) = 4"
    by auto
  have "\<exists>d'. lhdc_dec_begin_frame (Some d) (Some frame_four) 6 True 240 (\<lambda>_. 0) = (LHDC_DEC_OK, Some d', 6)"
    by (simp add: lhdc_dec_begin_frame_def d(2) p Let_def)
  then obtain d' where "lhdc_dec_begin_frame (Some d) (Some frame_four) 6 True 240 (\<lambda>_. 0) = (LHDC_DEC_OK, Some d', 6)"
    by blast
  from frame_is_prefix_code [OF this, of 5 frame_four] d(1) show ?thesis by auto
qed

text \<open>
  A rejected frame loses the description of the stream: once a frame was accepted, a
  frame that is too short or has a bad length clears the head and leaves it marked as parsed, so
  asking for the configuration then reports a rate, a depth and a number of channels of zero, and
  not the ones the decoder runs with.
\<close>

theorem rejected_frame_zeroes_config:
  assumes "dc_initialized d" and "dc_header_parsed d" and "4 \<le> n"
    and "lhdc_dec_begin_frame (Some d) (Some data) n True out_samples imdct = (ret, Some d', c)"
    and "ret = LHDC_DEC_NEED_MORE_DATA \<or> ret = LHDC_DEC_BITSTREAM_ERROR"
  shows "cf_sample_rate (lhdc_dec_get_config d' cfg) = 0 \<and> cf_bit_depth (lhdc_dec_get_config d' cfg) = 0 \<and>
    cf_channels (lhdc_dec_get_config d' cfg) = 0 \<and> dc_config d' = dc_config d"
proof -
  have "d' = d\<lparr>dc_header := frame_header_zero\<rparr>"
    using assms by (auto simp: lhdc_dec_begin_frame_def lhdc_dec_parse_header_def Let_def split: if_splits)
  with assms(2) show ?thesis by (simp add: lhdc_dec_get_config_def frame_header_zero_def)
qed

lemma rejected_frame_zeroes_config_witness:
  "\<exists>d d' c. dc_header_parsed d \<and> cf_sample_rate (dc_config d) = 48000 \<and>
    lhdc_dec_begin_frame (Some d) (Some frame_four) 5 True 240 (\<lambda>_. 0) = (LHDC_DEC_NEED_MORE_DATA, Some d', c) \<and>
    cf_sample_rate (lhdc_dec_get_config d' (dc_config d)) = 0"
proof -
  obtain d0 where d0: "lhdc_dec_init True None = Some d0" "dc_initialized d0" "cf_sample_rate (dc_config d0) = 48000"
    "cf_frame_duration (dc_config d0) = 5" using default_decoder by blast
  let ?d = "d0\<lparr>dc_header_parsed := True\<rparr>"
  have d: "dc_initialized ?d" "dc_header_parsed ?d" "cf_sample_rate (dc_config ?d) = 48000" "cf_frame_duration (dc_config ?d) = 5"
    using d0 by simp_all
  from parse_four [OF d(3,4), of 6] obtain d1 where "lhdc_dec_parse_header ?d frame_four 6 = (LHDC_DEC_OK, d1, 6)" by auto
  from parse_header_short [OF this, of 5 frame_four] obtain d'
    where "lhdc_dec_begin_frame (Some ?d) (Some frame_four) 5 True 240 (\<lambda>_. 0) = (LHDC_DEC_NEED_MORE_DATA, Some d', 0)"
    using d(1) by (auto simp: lhdc_dec_begin_frame_def)
  note r = this
  have "cf_sample_rate (lhdc_dec_get_config d' (dc_config ?d)) = 0"
    using rejected_frame_zeroes_config [OF d(1,2) _ r] by simp
  with d r show ?thesis by blast
qed

end
