(* ===== verification/Lhdc_Fac.thy ===== *)
theory Lhdc_Fac
  imports Bit_Stream
begin

text \<open>
  external/lhdc-v5/lhdc\_entropy\_dec.c, first part: the adaptive model of the three symbols of the
  quantised spectrum (frequencies over a sliding window of the last symbols) and the range decoder.
  The loop that renormalises the range ends only when the range is not zero, so it is a partial
  function and decoding a symbol an option; that it returns is a theorem. Symbols are natural
  numbers; the arrays \<open>freq\<close>, \<open>thresh\<close> and \<open>cum\<close> are lists of three, three and four words.
\<close>

subsection \<open>The adaptive model\<close>

abbreviation (input) FAC_TOTAL_BITS :: nat where "FAC_TOTAL_BITS \<equiv> 15"
abbreviation (input) FAC_NSYM :: nat where "FAC_NSYM \<equiv> 3"

definition FAC_FQ1 :: "u32 list" where "FAC_FQ1 = [54, 12, 1]"
definition FAC_FQ2 :: "u32 list" where "FAC_FQ2 = [90, 16, 1]"

record fac_model_t =
  fm_n :: nat
  fm_window :: int
  fm_pos :: int
  fm_count :: int
  fm_hist :: buf
  fm_hist_cap :: int
  fm_freq :: "u32 list"
  fm_thresh :: "u32 list"
  fm_cum :: "u32 list"

definition fac_model_rescale :: "fac_model_t \<Rightarrow> fac_model_t" where
  "fac_model_rescale m =
     (let f0 = fm_freq m ! 0; f1 = fm_freq m ! 1; f2 = fm_freq m ! 2;
          c1 = f0; c2 = f0 + f1; c3 = c2 + f2;
          scale = 0x80000000 div c3
      in m\<lparr>fm_thresh := [f0 + drop_bit 5 f0, f1 + drop_bit 5 f1, f2 + drop_bit 5 f2],
           fm_cum := [0, drop_bit 16 (c1 * scale), drop_bit 16 (c2 * scale),
                      drop_bit 16 (c3 * scale)]\<rparr>)"

definition fac_model_init :: "fac_model_t \<Rightarrow> u32 list \<Rightarrow> int \<Rightarrow> fac_model_t" where
  "fac_model_init m init_freq window =
     (let w = (if window > fm_hist_cap m then fm_hist_cap m else window);
          w = (if w < 1 then 1 else w)
      in fac_model_rescale
           (m\<lparr>fm_n := FAC_NSYM, fm_window := w, fm_pos := 0, fm_count := 0,
              fm_hist := memset (fm_hist m) 0 (nat w),
              fm_freq := map (\<lambda>i. init_freq ! i) [0..<FAC_NSYM]\<rparr>))"

text \<open>\<open>++freq[sym] >= thresh[sym]\<close>, and the rescaling it triggers.\<close>

definition freq_increment :: "nat \<Rightarrow> fac_model_t \<Rightarrow> fac_model_t" where
  "freq_increment s m =
     (let m = m\<lparr>fm_freq := (fm_freq m)[s := fm_freq m ! s + 1]\<rparr>
      in if fm_thresh m ! s \<le> fm_freq m ! s then fac_model_rescale m else m)"

definition fac_model_update :: "fac_model_t \<Rightarrow> nat \<Rightarrow> fac_model_t" where
  "fac_model_update m s =
     (if fm_count m < fm_window m
      then freq_increment s
             (m\<lparr>fm_hist := (fm_hist m)(nat (fm_count m) := of_nat s), fm_count := fm_count m + 1\<rparr>)
      else
        let pos = fm_pos m;
            old = unat (fm_hist m (nat pos));
            freq = (if fm_freq m ! old \<ge> 2 then (fm_freq m)[old := fm_freq m ! old - 1] else fm_freq m);
            pos' = (if pos + 1 \<ge> fm_window m then 0 else pos + 1)
        in freq_increment s
             (m\<lparr>fm_freq := freq, fm_hist := (fm_hist m)(nat pos := of_nat s), fm_pos := pos'\<rparr>))"

subsection \<open>The range decoder\<close>

record fac_dec_t =
  fd_data :: buf
  fd_len :: int
  fd_p :: int
  fd_range :: u32
  fd_code :: u32

definition next_octet :: "buf \<Rightarrow> int \<Rightarrow> int \<Rightarrow> u8" where
  "next_octet data len p = (if p < len then data (nat p) else 0)"

definition fac_byte :: "fac_dec_t \<Rightarrow> u8 \<times> fac_dec_t" where
  "fac_byte d = (next_octet (fd_data d) (fd_len d) (fd_p d), d\<lparr>fd_p := fd_p d + 1\<rparr>)"

primrec fac_fill :: "nat \<Rightarrow> fac_dec_t \<Rightarrow> fac_dec_t" where
  "fac_fill 0 d = d"
| "fac_fill (Suc k) d =
     (case fac_byte d of (b, d') \<Rightarrow> fac_fill k (d'\<lparr>fd_code := push_bit 8 (fd_code d') OR ucast b\<rparr>))"

definition fac_dec_init :: "buf \<Rightarrow> int \<Rightarrow> fac_dec_t" where
  "fac_dec_init data len =
     fac_fill 4 \<lparr>fd_data = data, fd_len = len, fd_p = 0, fd_range = 0xFFFFFFFF, fd_code = 0\<rparr>"

partial_function (option) fac_renorm :: "fac_dec_t \<Rightarrow> fac_dec_t option" where
  "fac_renorm d =
     (let d' = d\<lparr>fd_code := push_bit 8 (fd_code d) OR ucast (next_octet (fd_data d) (fd_len d) (fd_p d)),
                 fd_p := fd_p d + 1, fd_range := push_bit 8 (fd_range d)\<rparr>
      in if fd_range d' < push_bit 24 1 then fac_renorm d' else Some d')"

text \<open>The symbol and its interval of the cumulative frequencies, found without a division.\<close>

definition fac_search :: "fac_model_t \<Rightarrow> u32 \<Rightarrow> u32 \<Rightarrow> nat \<times> u32 \<times> u32" where
  "fac_search m r code =
     (let c1 = fm_cum m ! 1; c2 = fm_cum m ! 2
      in if r * c1 > code then (0, 0, c1)
         else if r * c2 > code then (1, c1, c2)
         else (2, c2, fm_cum m ! 3))"

definition fac_decode :: "fac_dec_t \<Rightarrow> fac_model_t \<Rightarrow> (nat \<times> fac_dec_t \<times> fac_model_t) option" where
  "fac_decode d m =
     (let r = drop_bit FAC_TOTAL_BITS (fd_range d);
          (s, lo, hi) = fac_search m r (fd_code d);
          d1 = d\<lparr>fd_code := fd_code d - r * lo, fd_range := r * (hi - lo)\<rparr>
      in case (if fd_range d1 < push_bit 24 1 then fac_renorm d1 else Some d1) of
           None \<Rightarrow> None
         | Some d2 \<Rightarrow> Some (s, d2, fac_model_update m s))"

text \<open>The loop of the first stream: \<open>count\<close> symbols one after the other.\<close>

fun fac_decode_many :: "nat \<Rightarrow> fac_dec_t \<Rightarrow> fac_model_t \<Rightarrow> (nat list \<times> fac_dec_t \<times> fac_model_t) option" where
  "fac_decode_many 0 d m = Some ([], d, m)"
| "fac_decode_many (Suc k) d m =
     (case fac_decode d m of
        None \<Rightarrow> None
      | Some (s, d', m') \<Rightarrow>
          (case fac_decode_many k d' m' of
             None \<Rightarrow> None
           | Some (ss, d'', m'') \<Rightarrow> Some (s # ss, d'', m'')))"

subsection \<open>The cumulative frequencies\<close>

text \<open>
  A table of cumulative frequencies as the decoder needs it: every symbol has a part of the
  range, and the parts together do not exceed \<open>2 ^ 15\<close>.
\<close>

definition cum_ok :: "u32 list \<Rightarrow> bool" where
  "cum_ok c \<longleftrightarrow> length c = 4 \<and> c ! 0 = 0 \<and> 0 < unat (c ! 1) \<and> unat (c ! 1) < unat (c ! 2) \<and>
     unat (c ! 2) < unat (c ! 3) \<and> unat (c ! 3) \<le> 2 ^ FAC_TOTAL_BITS"

definition freq_ok :: "u32 list \<Rightarrow> bool" where
  "freq_ok f \<longleftrightarrow> length f = 3 \<and> 0 < unat (f ! 0) \<and> 0 < unat (f ! 1) \<and> 0 < unat (f ! 2) \<and>
     unat (f ! 0) + unat (f ! 1) + unat (f ! 2) \<le> 4000"

lemma scaled_bound: "c \<le> t \<Longrightarrow> c * (n div t) \<le> (n :: nat)"
  by (metis div_times_less_eq_dividend le_trans mult.commute mult_le_mono2)

lemma scaled_step:
  fixes s :: nat
  assumes "c < c'" and "65536 \<le> s"
  shows "c * s div 65536 < c' * s div 65536"
proof -
  have "Suc c * s \<le> c' * s" using assms(1) by (intro mult_le_mono1) simp
  then have "c * s + 65536 \<le> c' * s" using assms(2) by simp
  then have "(c * s + 65536) div 65536 \<le> c' * s div 65536" by (rule div_le_mono)
  then show ?thesis by simp
qed

lemma unat_mult_small: "unat x * unat y < 2 ^ 32 \<Longrightarrow> unat (x * y :: u32) = unat x * unat y"
  by (simp add: unat_word_ariths)

lemma unat_shift16: "unat (drop_bit 16 (x :: u32)) = unat x div 65536"
proof -
  have "drop_bit 16 x = x div 65536" by (simp add: drop_bit_eq_div)
  then show ?thesis by (simp only: unat_div_distrib) simp
qed

text \<open>The entries of the new table, without a wrap-around in the 32-bit products.\<close>

lemma rescale_cum:
  assumes "freq_ok (fm_freq m)"
  defines "f \<equiv> \<lambda>i. unat (fm_freq m ! i)"
  defines "sc \<equiv> 2 ^ 31 div (f 0 + f 1 + f 2)"
  shows "map unat (fm_cum (fac_model_rescale m)) =
      [0, f 0 * sc div 65536, (f 0 + f 1) * sc div 65536, (f 0 + f 1 + f 2) * sc div 65536]"
    and "65536 \<le> sc" and "(f 0 + f 1 + f 2) * sc \<le> 2 ^ 31"
proof -
  let ?t = "f 0 + f 1 + f 2"
  have t: "0 < ?t" "?t \<le> 4000" using assms(1) by (simp_all add: freq_ok_def f_def)
  show sc: "65536 \<le> sc"
  proof -
    have "2 ^ 31 div 4000 \<le> sc" unfolding sc_def using t by (intro div_le_mono2) simp_all
    then show ?thesis by simp
  qed
  show p: "?t * sc \<le> 2 ^ 31" unfolding sc_def by (rule scaled_bound) simp
  have m: "c * sc \<le> 2 ^ 31" if "c \<le> ?t" for c
    using mult_le_mono1 [OF that] p by (rule le_trans)
  have u: "unat (fm_freq m ! 0 + fm_freq m ! 1) = f 0 + f 1"
      "unat (fm_freq m ! 0 + fm_freq m ! 1 + fm_freq m ! 2) = ?t"
    using t by (simp_all add: f_def unat_word_ariths)
  have f0: "unat (fm_freq m ! 0) = f 0" by (simp add: f_def)
  from u have s: "unat (0x80000000 div (fm_freq m ! 0 + fm_freq m ! 1 + fm_freq m ! 2)) = sc"
    by (simp add: unat_div_distrib sc_def)
  show "map unat (fm_cum (fac_model_rescale m)) =
      [0, f 0 * sc div 65536, (f 0 + f 1) * sc div 65536, (f 0 + f 1 + f 2) * sc div 65536]"
    using m [of "f 0"] m [of "f 0 + f 1"] m [of ?t]
    by (simp add: fac_model_rescale_def Let_def unat_shift16 unat_mult_small u s f0
        del: One_nat_def)
qed

lemma rescale_cum_ok:
  assumes "freq_ok (fm_freq m)"
  shows "cum_ok (fm_cum (fac_model_rescale m))"
proof -
  let ?f = "\<lambda>i. unat (fm_freq m ! i)"
  define sc :: nat where "sc = 2 ^ 31 div (?f 0 + ?f 1 + ?f 2)"
  note r = rescale_cum [OF assms, folded sc_def]
  let ?c = "fm_cum (fac_model_rescale m)"
  have l: "length ?c = 4" by (simp add: fac_model_rescale_def Let_def)
  have n: "unat (?c ! i) = map unat ?c ! i" if "i < 4" for i using that l by simp
  have c: "unat (?c ! 0) = 0" "unat (?c ! 1) = ?f 0 * sc div 65536"
      "unat (?c ! 2) = (?f 0 + ?f 1) * sc div 65536" "unat (?c ! 3) = (?f 0 + ?f 1 + ?f 2) * sc div 65536"
    by (simp_all add: n r(1))
  have f: "0 < ?f 0" "?f 0 < ?f 0 + ?f 1" "?f 0 + ?f 1 < ?f 0 + ?f 1 + ?f 2"
    using assms by (simp_all add: freq_ok_def)
  have "0 * sc div 65536 < ?f 0 * sc div 65536" "?f 0 * sc div 65536 < (?f 0 + ?f 1) * sc div 65536"
      "(?f 0 + ?f 1) * sc div 65536 < (?f 0 + ?f 1 + ?f 2) * sc div 65536"
    by (rule scaled_step [OF f(1) r(2)] scaled_step [OF f(2) r(2)] scaled_step [OF f(3) r(2)])+
  moreover have "(?f 0 + ?f 1 + ?f 2) * sc div 65536 \<le> 2 ^ 31 div 65536"
    using r(3) by (rule div_le_mono)
  ultimately show ?thesis using l c by (simp add: cum_ok_def word_unat_eq_iff)
qed

subsection \<open>The sliding window\<close>

text \<open>
  The frequency of a symbol is the initial one and the number of times it occurs in the window.
  The code guards the decrement of the symbol that leaves the window; with this invariant the
  guard always holds.
\<close>

definition window_list :: "fac_model_t \<Rightarrow> nat list" where
  "window_list m = map (\<lambda>i. unat (fm_hist m i)) [0..<nat (fm_count m)]"

definition fac_model_ok :: "u32 list \<Rightarrow> fac_model_t \<Rightarrow> bool" where
  "fac_model_ok init m \<longleftrightarrow>
     freq_ok init \<and> length (fm_freq m) = FAC_NSYM \<and> length (fm_thresh m) = FAC_NSYM \<and>
     0 < fm_window m \<and> fm_window m \<le> fm_hist_cap m \<and> fm_hist_cap m \<le> 3072 \<and>
     0 \<le> fm_pos m \<and> fm_pos m < fm_window m \<and> 0 \<le> fm_count m \<and> fm_count m \<le> fm_window m \<and>
     unat (init ! 0) + unat (init ! 1) + unat (init ! 2) \<le> 928 \<and>
     set (window_list m) \<subseteq> {0, 1, 2} \<and>
     (\<forall>s < FAC_NSYM. unat (fm_freq m ! s) = unat (init ! s) + count_list (window_list m) s) \<and>
     cum_ok (fm_cum m)"


lemma count_list_update:
  "i < length xs \<Longrightarrow> count_list (xs[i := x]) y + (if xs ! i = y then 1 else 0) =
    count_list xs y + (if x = y then 1 else 0)"
proof (induction xs arbitrary: i)
  case (Cons a xs)
  show ?case
  proof (cases i)
    case (Suc j)
    with Cons.IH [of j] Cons.prems show ?thesis by (auto split: if_splits)
  qed auto
qed simp

lemma count_list_three:
  "set xs \<subseteq> {0, 1, 2 :: nat} \<Longrightarrow> count_list xs 0 + count_list xs 1 + count_list xs 2 = length xs"
  by (induction xs) auto

lemma count_list_pos: "x \<in> set xs \<Longrightarrow> 0 < count_list xs x"
  by (induction xs) auto

lemma less_3: "(s :: nat) < 3 \<longleftrightarrow> s = 0 \<or> s = 1 \<or> s = 2"
  by auto

text \<open>What the two cases of an update leave to the increment.\<close>

definition counts_ok :: "u32 list \<Rightarrow> fac_model_t \<Rightarrow> bool" where
  "counts_ok init m \<longleftrightarrow> freq_ok init \<and> length (fm_freq m) = FAC_NSYM \<and>
     0 < fm_window m \<and> fm_window m \<le> fm_hist_cap m \<and> fm_hist_cap m \<le> 3072 \<and>
     0 \<le> fm_pos m \<and> fm_pos m < fm_window m \<and> 0 \<le> fm_count m \<and> fm_count m \<le> fm_window m \<and>
     unat (init ! 0) + unat (init ! 1) + unat (init ! 2) \<le> 928 \<and>
     set (window_list m) \<subseteq> {0, 1, 2}"

definition exact_freq :: "u32 list \<Rightarrow> fac_model_t \<Rightarrow> bool" where
  "exact_freq init m \<longleftrightarrow> (\<forall>s < FAC_NSYM. unat (fm_freq m ! s) = unat (init ! s) + count_list (window_list m) s)"

lemma fac_model_ok_iff:
  "fac_model_ok init m \<longleftrightarrow> counts_ok init m \<and> exact_freq init m \<and> cum_ok (fm_cum m) \<and>
    length (fm_thresh m) = FAC_NSYM"
  by (auto simp: fac_model_ok_def counts_ok_def exact_freq_def)

lemma length_window_list: "length (window_list m) = nat (fm_count m)"
  by (simp add: window_list_def)

lemma exact_freq_ok:
  assumes "counts_ok init m" and "exact_freq init m"
  shows "freq_ok (fm_freq m)"
proof -
  have "nat (fm_count m) \<le> 3072" using assms(1) by (auto simp: counts_ok_def)
  then show ?thesis
    using assms count_list_three [of "window_list m"]
    by (simp add: counts_ok_def exact_freq_def freq_ok_def less_3 length_window_list)
qed

lemma rescale_fields [simp]:
  "fm_freq (fac_model_rescale m) = fm_freq m" "fm_window (fac_model_rescale m) = fm_window m"
  "fm_pos (fac_model_rescale m) = fm_pos m" "fm_count (fac_model_rescale m) = fm_count m"
  "fm_hist (fac_model_rescale m) = fm_hist m" "fm_hist_cap (fac_model_rescale m) = fm_hist_cap m"
  "length (fm_thresh (fac_model_rescale m)) = 3" "window_list (fac_model_rescale m) = window_list m"
  by (simp_all add: fac_model_rescale_def Let_def window_list_def)

lemma rescale_ok:
  assumes "counts_ok init m" and "exact_freq init m"
  shows "fac_model_ok init (fac_model_rescale m)"
  using assms rescale_cum_ok [OF exact_freq_ok [OF assms]]
  by (simp add: fac_model_ok_iff counts_ok_def exact_freq_def)

lemma freq_increment_ok:
  assumes "counts_ok init m" and "cum_ok (fm_cum m)" and "length (fm_thresh m) = FAC_NSYM"
    and "exact_freq init (m\<lparr>fm_freq := (fm_freq m)[s := fm_freq m ! s + 1]\<rparr>)"
  shows "fac_model_ok init (freq_increment s m)"
proof -
  let ?m = "m\<lparr>fm_freq := (fm_freq m)[s := fm_freq m ! s + 1]\<rparr>"
  have "window_list ?m = window_list m" by (simp add: window_list_def)
  then have c: "counts_ok init ?m" using assms(1) by (simp add: counts_ok_def)
  then show ?thesis using assms(2-4) rescale_ok [OF c assms(4)]
    by (simp add: freq_increment_def Let_def fac_model_ok_iff)
qed

lemma unat_inc: "unat x < 2 ^ 32 - 1 \<Longrightarrow> unat (x + 1 :: u32) = unat x + 1"
  by (simp add: unat_word_ariths)

lemma fac_model_update_ok:
  assumes ok: "fac_model_ok init m" and s: "s < FAC_NSYM"
  shows "fac_model_ok init (fac_model_update m s)"
proof -
  from ok have c: "counts_ok init m" and e: "exact_freq init m" and cum: "cum_ok (fm_cum m)"
    and th: "length (fm_thresh m) = FAC_NSYM" by (simp_all add: fac_model_ok_iff)
  note f = exact_freq_ok [OF c e]
  have u: "unat (of_nat s :: u8) = s" using s by (auto simp: less_3)
  have small: "unat (fm_freq m ! t) \<le> 4000" if "t < 3" for t
    using f that by (auto simp: freq_ok_def less_3)
  show ?thesis
  proof (cases "fm_count m < fm_window m")
    case True
    let ?m = "m\<lparr>fm_hist := (fm_hist m)(nat (fm_count m) := of_nat s), fm_count := fm_count m + 1\<rparr>"
    have n: "nat (fm_count m + 1) = Suc (nat (fm_count m))" using c by (auto simp: counts_ok_def)
    have w: "window_list ?m = window_list m @ [s]" by (simp add: window_list_def n u)
    have "fac_model_ok init (freq_increment s ?m)"
    proof (rule freq_increment_ok)
      show "counts_ok init ?m"
        using c True s by (auto simp: counts_ok_def w less_3)
      show "exact_freq init (?m\<lparr>fm_freq := (fm_freq ?m)[s := fm_freq ?m ! s + 1]\<rparr>)"
        using e c s small [OF s] w
        by (auto simp: exact_freq_def counts_ok_def nth_list_update unat_inc window_list_def)
    qed (use cum th in simp_all)
    then show ?thesis using True by (simp add: fac_model_update_def)
  next
    case False
    let ?p = "nat (fm_pos m)" and ?old = "unat (fm_hist m (nat (fm_pos m)))"
    let ?pos = "if fm_pos m + 1 \<ge> fm_window m then 0 else fm_pos m + 1"
    have p: "?p < length (window_list m)" "window_list m ! ?p = ?old"
      using c False by (simp_all add: counts_ok_def length_window_list window_list_def)
    then have "?old \<in> set (window_list m)" by (metis nth_mem)
    then have old: "?old < 3" "0 < count_list (window_list m) ?old"
      using c by (auto simp: counts_ok_def count_list_pos)
    then have ge2: "2 \<le> unat (fm_freq m ! ?old)"
      using e c by (auto simp: exact_freq_def counts_ok_def freq_ok_def less_3)
    then have g: "fm_freq m ! ?old \<ge> 2" by (simp add: word_le_nat_alt)
    let ?f = "(fm_freq m)[?old := fm_freq m ! ?old - 1]"
    let ?m = "m\<lparr>fm_freq := ?f, fm_hist := (fm_hist m)(?p := of_nat s), fm_pos := ?pos\<rparr>"
    have w: "window_list ?m = (window_list m)[?p := s]"
      using p(1) by (auto simp: window_list_def u list_eq_iff_nth_eq nth_list_update)
    have dec: "unat (fm_freq m ! ?old - 1) = unat (fm_freq m ! ?old) - 1"
      using ge2 by (simp add: unat_sub word_le_nat_alt)
    have "fac_model_ok init (freq_increment s ?m)"
    proof (rule freq_increment_ok)
      show "counts_ok init ?m"
        using c s set_update_subset_insert [of "window_list m" ?p s] by (auto simp: counts_ok_def w less_3)
      show "exact_freq init (?m\<lparr>fm_freq := (fm_freq ?m)[s := fm_freq ?m ! s + 1]\<rparr>)"
        unfolding exact_freq_def
      proof (intro allI impI)
        fix t :: nat assume t: "t < 3"
        have cl: "count_list (window_list ?m) t + (if ?old = t then 1 else 0) =
            count_list (window_list m) t + (if s = t then 1 else 0)"
          using count_list_update [OF p(1), of s t] by (simp add: w p(2))
        have l: "length (fm_freq m) = 3" using c by (simp add: counts_ok_def)
        have f0: "unat (?f ! t) + (if ?old = t then 1 else 0) = unat (fm_freq m ! t)"
          using t l ge2 by (auto simp: dec nth_list_update)
        have "unat (?f[s := ?f ! s + 1] ! t) = unat (?f ! t) + (if s = t then 1 else 0)"
          using t l small [OF t] f0 by (auto simp: nth_list_update unat_inc)
        moreover have "window_list (?m\<lparr>fm_freq := (fm_freq ?m)[s := fm_freq ?m ! s + 1]\<rparr>) = window_list ?m"
          by (simp add: window_list_def)
        ultimately show "unat (fm_freq (?m\<lparr>fm_freq := (fm_freq ?m)[s := fm_freq ?m ! s + 1]\<rparr>) ! t) =
            unat (init ! t) + count_list (window_list (?m\<lparr>fm_freq := (fm_freq ?m)[s := fm_freq ?m ! s + 1]\<rparr>)) t"
          using f0 cl e t by (simp add: exact_freq_def)
      qed
    qed (use cum th in simp_all)
    then show ?thesis using False g by (simp add: fac_model_update_def Let_def)
  qed
qed


lemma fac_model_init_ok:
  assumes "freq_ok init" and "unat (init ! 0) + unat (init ! 1) + unat (init ! 2) \<le> 928"
    and "1 \<le> fm_hist_cap m" and "fm_hist_cap m \<le> 3072"
  shows "fac_model_ok init (fac_model_init m init w)"
proof -
  define w' where "w' = (let v = (if w > fm_hist_cap m then fm_hist_cap m else w) in if v < 1 then 1 else v)"
  let ?m = "m\<lparr>fm_n := FAC_NSYM, fm_window := w', fm_pos := 0, fm_count := 0,
    fm_hist := memset (fm_hist m) 0 (nat w'), fm_freq := map (\<lambda>i. init ! i) [0..<FAC_NSYM]\<rparr>"
  have "0 < w'" "w' \<le> fm_hist_cap m" using assms(3) by (auto simp: w'_def Let_def)
  then have "counts_ok init ?m" "exact_freq init ?m"
    using assms by (auto simp: counts_ok_def exact_freq_def window_list_def)
  then have "fac_model_ok init (fac_model_rescale ?m)" by (rule rescale_ok)
  then show ?thesis by (simp add: fac_model_init_def Let_def w'_def)
qed

lemma FAC_FQ_ok: "freq_ok FAC_FQ1" "freq_ok FAC_FQ2"
  by (simp_all add: freq_ok_def FAC_FQ1_def FAC_FQ2_def nth_Cons')

subsection \<open>The search\<close>

lemma unit_times:
  assumes "cum_ok (fm_cum m)" and "unat r * 2 ^ 15 < 2 ^ 32" and "i < 3"
  shows "unat (r * fm_cum m ! i) = unat r * unat (fm_cum m ! i)"
proof (rule unat_mult_small)
  have "unat (fm_cum m ! i) \<le> 2 ^ 15" using assms(1,3) by (auto simp: cum_ok_def less_3)
  then have "unat r * unat (fm_cum m ! i) \<le> unat r * 2 ^ 15" by simp
  then show "unat r * unat (fm_cum m ! i) < 2 ^ 32" using assms(2) by (rule le_less_trans)
qed

lemma fac_search_unat:
  assumes "cum_ok (fm_cum m)" and "unat r * 2 ^ 15 < 2 ^ 32"
  shows "fac_search m r code =
    (if unat code < unat r * unat (fm_cum m ! 1) then (0, fm_cum m ! 0, fm_cum m ! 1)
     else if unat code < unat r * unat (fm_cum m ! 2) then (1, fm_cum m ! 1, fm_cum m ! 2)
     else (2, fm_cum m ! 2, fm_cum m ! 3))"
  using unit_times [OF assms, of 1] unit_times [OF assms, of 2] assms(1)
  by (simp add: fac_search_def Let_def word_less_nat_alt cum_ok_def)

lemma fac_search_spec:
  assumes "cum_ok (fm_cum m)" and "unat r * 2 ^ 15 < 2 ^ 32" and "fac_search m r code = (s, lo, hi)"
  shows "s < FAC_NSYM \<and> lo = fm_cum m ! s \<and> hi = fm_cum m ! Suc s \<and>
    unat r * unat lo \<le> unat code \<and> (s < 2 \<longrightarrow> unat code < unat r * unat hi)"
  using assms(1,3) unfolding fac_search_unat [OF assms(1,2)]
  by (auto simp: cum_ok_def not_less numeral_3_eq_3 numeral_2_eq_2 split: if_splits)

text \<open>
  The search is the division it replaces: the target is the code divided by the unit, cut to the
  last value, and the symbol is the one in whose interval the target lies.
\<close>

lemma fac_search_division:
  assumes "cum_ok (fm_cum m)" and "unat r * 2 ^ 15 < 2 ^ 32" and "0 < unat r"
    and target: "target = min (unat code div unat r) (2 ^ 15 - 1)"
  shows "fst (fac_search m r code) =
    (if target < unat (fm_cum m ! 1) then 0 else if target < unat (fm_cum m ! 2) then 1 else 2)"
proof -
  have d: "unat code div unat r < c \<longleftrightarrow> unat code < unat r * c" for c
    using assms(3) by (simp add: div_less_iff_less_mult mult.commute)
  have t: "target < c \<longleftrightarrow> unat code < unat r * c" if "c < 2 ^ 15" for c
    using that d [of c] by (auto simp: target)
  have c: "unat (fm_cum m ! 1) < 2 ^ 15" "unat (fm_cum m ! 2) < 2 ^ 15"
    using assms(1) by (auto simp: cum_ok_def)
  show ?thesis by (simp add: fac_search_unat [OF assms(1,2)] t [OF c(1)] t [OF c(2)] del: One_nat_def)
qed

subsection \<open>The encoder that is undone\<close>

text \<open>
  The specification of the decoder: a range coder over natural numbers. Its state is the lower
  end of an interval, the width and the number of octets settled; coding a symbol narrows the
  interval to the part of the symbol, and renormalising appends zero octets. Any number in the
  final interval, written in base 256, is a code of the symbols.
\<close>

function enc_norm :: "nat \<times> nat \<times> nat \<Rightarrow> nat \<times> nat \<times> nat" where
  "enc_norm (low, rng, k) =
     (if 0 < rng \<and> rng < 2 ^ 24 then enc_norm (low * 256, rng * 256, Suc k) else (low, rng, k))"
  by pat_completeness auto
termination by (relation "measure (\<lambda>(low, rng, k). 2 ^ 24 - rng)") auto

declare enc_norm.simps [simp del]

definition enc_step :: "fac_model_t \<Rightarrow> nat \<Rightarrow> nat \<times> nat \<times> nat \<Rightarrow> nat \<times> nat \<times> nat" where
  "enc_step m s st =
     (case st of (low, rng, k) \<Rightarrow>
        let r = rng div 2 ^ 15; lo = unat (fm_cum m ! s); hi = unat (fm_cum m ! Suc s)
        in enc_norm (low + r * lo, r * (hi - lo), k))"

fun enc_syms :: "fac_model_t \<Rightarrow> nat list \<Rightarrow> nat \<times> nat \<times> nat \<Rightarrow> nat \<times> nat \<times> nat" where
  "enc_syms m [] st = st"
| "enc_syms m (s # ss) st = enc_syms (fac_model_update m s) ss (enc_step m s st)"

text \<open>The number that the first octets denote, zeros behind the end.\<close>

fun code_value :: "buf \<Rightarrow> int \<Rightarrow> nat \<Rightarrow> nat" where
  "code_value data len 0 = 0"
| "code_value data len (Suc n) = 256 * code_value data len n + unat (next_octet data len (int n))"

definition codes :: "buf \<Rightarrow> int \<Rightarrow> nat \<times> nat \<times> nat \<Rightarrow> bool" where
  "codes data len st \<longleftrightarrow>
     (case st of (low, rng, k) \<Rightarrow>
        low \<le> code_value data len (4 + k) \<and> code_value data len (4 + k) < low + rng)"

text \<open>A decoder that has reached an interval of the encoder.\<close>

definition tracks :: "fac_dec_t \<Rightarrow> nat \<times> nat \<times> nat \<Rightarrow> bool" where
  "tracks d st \<longleftrightarrow>
     (case st of (low, rng, k) \<Rightarrow>
        fd_p d = int (4 + k) \<and> unat (fd_range d) = rng \<and> codes (fd_data d) (fd_len d) st \<and>
        unat (fd_code d) = code_value (fd_data d) (fd_len d) (4 + k) - low)"

lemma enc_norm_scaled: "\<exists>j. enc_norm (low, rng, k) = (low * 256 ^ j, rng * 256 ^ j, k + j)"
proof (induction "(low, rng, k)" arbitrary: low rng k rule: enc_norm.induct)
  case (1 low rng k)
  show ?case
  proof (cases "0 < rng \<and> rng < 2 ^ 24")
    case True
    with 1 obtain j where "enc_norm (low * 256, rng * 256, Suc k) =
        (low * 256 * 256 ^ j, rng * 256 * 256 ^ j, Suc k + j)" by blast
    then have "enc_norm (low, rng, k) = (low * 256 ^ Suc j, rng * 256 ^ Suc j, k + Suc j)"
      using True by (subst enc_norm.simps) (simp add: mult.assoc)
    then show ?thesis by blast
  next
    case False
    then have "enc_norm (low, rng, k) = (low * 256 ^ 0, rng * 256 ^ 0, k + 0)"
      by (subst enc_norm.simps) auto
    then show ?thesis by blast
  qed
qed

lemma code_value_suffix:
  "code_value data len (n + j) div 256 ^ j = code_value data len n"
proof (induction j)
  case (Suc j)
  have "unat (next_octet data len (int (n + j))) < 256"
    using unsigned_less [of "next_octet data len (int (n + j))", where 'a = nat] by simp
  then have "code_value data len (n + Suc j) div 256 = code_value data len (n + j)"
    by simp
  then show ?case using Suc by (simp only: power_Suc div_mult2_eq)
qed simp

text \<open>A code of an interval is a code of the interval before scaling, and of a wider one.\<close>

lemma codes_unscale:
  assumes "codes data len (low * 256 ^ j, rng * 256 ^ j, k + j)"
  shows "codes data len (low, rng, k)"
proof -
  let ?v = "code_value data len (4 + k + j)"
  have v: "low * 256 ^ j \<le> ?v" "?v < (low + rng) * 256 ^ j"
    using assms by (simp_all add: codes_def add.assoc distrib_right)
  have "low \<le> ?v div 256 ^ j" using v(1) by (simp add: less_eq_div_iff_mult_less_eq)
  moreover have "?v div 256 ^ j < low + rng" using v(2) by (simp add: div_less_iff_less_mult)
  ultimately show ?thesis by (simp add: codes_def code_value_suffix)
qed

lemma codes_widen:
  "codes data len (low', rng', k) \<Longrightarrow> low \<le> low' \<Longrightarrow> low' + rng' \<le> low + rng \<Longrightarrow> codes data len (low, rng, k)"
  by (simp add: codes_def)

lemma codes_enc_norm: "codes data len (enc_norm (low, rng, k)) \<Longrightarrow> codes data len (low, rng, k)"
  using enc_norm_scaled [of low rng k] codes_unscale by metis


subsection \<open>Decoding returns and follows the encoder\<close>

lemma shift_in_octet:
  fixes x :: u32 and b :: u8
  assumes "unat x < 2 ^ 24"
  shows "unat (push_bit 8 x OR ucast b) = 256 * unat x + unat b"
proof -
  have "push_bit 8 x OR ucast b = push_bit 8 x + ucast b"
    by (rule disjunctive_add [symmetric]) (auto simp: bit_simps)
  moreover have "unat b < 256" using unsigned_less [of b, where 'a = nat] by simp
  ultimately show ?thesis using assms
    by (simp add: unat_word_ariths push_bit_eq_mult unsigned_ucast_eq take_bit_nat_eq_self)
qed

lemma unat_push_8: "unat (x :: u32) < 2 ^ 24 \<Longrightarrow> unat (push_bit 8 x) = 256 * unat x"
  using shift_in_octet [of x 0] by simp

lemma tracks_shift:
  assumes "tracks d (low, rng, k)" and "rng < 2 ^ 24"
  shows "tracks (d\<lparr>fd_code := push_bit 8 (fd_code d) OR ucast (next_octet (fd_data d) (fd_len d) (fd_p d)),
      fd_p := fd_p d + 1, fd_range := push_bit 8 (fd_range d)\<rparr>) (low * 256, rng * 256, Suc k)"
proof -
  let ?V = "code_value (fd_data d) (fd_len d)" and ?b = "next_octet (fd_data d) (fd_len d) (fd_p d)"
  from assms(1) have t: "fd_p d = int (4 + k)" "unat (fd_range d) = rng" "low \<le> ?V (4 + k)"
      "?V (4 + k) < low + rng" "unat (fd_code d) = ?V (4 + k) - low"
    by (simp_all add: tracks_def codes_def)
  have v: "?V (4 + Suc k) = 256 * ?V (4 + k) + unat ?b" by (simp only: add_Suc_right code_value.simps t(1))
  have b: "unat ?b < 256" using unsigned_less [of ?b, where 'a = nat] by simp
  have "unat (push_bit 8 (fd_code d) OR ucast ?b) = 256 * (?V (4 + k) - low) + unat ?b"
    using t assms(2) by (subst shift_in_octet) simp_all
  moreover have "unat (push_bit 8 (fd_range d)) = 256 * rng" using t(2) assms(2) by (simp add: unat_push_8)
  ultimately show ?thesis using t b v by (simp add: tracks_def codes_def del: code_value.simps)
qed

lemma renorm_total:
  assumes "0 < unat (fd_range d)" and "unat (fd_range d) < 2 ^ 24"
  shows "\<exists>d'. fac_renorm d = Some d' \<and> 2 ^ 24 \<le> unat (fd_range d') \<and>
    fd_data d' = fd_data d \<and> fd_len d' = fd_len d \<and>
    (\<forall>low k. tracks d (low, unat (fd_range d), k) \<longrightarrow> tracks d' (enc_norm (low, unat (fd_range d), k)))"
  using assms
proof (induction "2 ^ 24 - unat (fd_range d)" arbitrary: d rule: less_induct)
  case less
  let ?d = "d\<lparr>fd_code := push_bit 8 (fd_code d) OR ucast (next_octet (fd_data d) (fd_len d) (fd_p d)),
    fd_p := fd_p d + 1, fd_range := push_bit 8 (fd_range d)\<rparr>"
  have r: "unat (fd_range ?d) = unat (fd_range d) * 256" using less.prems by (simp add: unat_push_8)
  have t: "tracks d (low, unat (fd_range d), k) \<Longrightarrow> tracks ?d (low * 256, unat (fd_range ?d), Suc k)" for low k
    using tracks_shift [of d low "unat (fd_range d)" k] less.prems by (simp only: r)
  have n: "enc_norm (low, unat (fd_range d), k) = enc_norm (low * 256, unat (fd_range ?d), Suc k)" for low k
    using less.prems r by (subst enc_norm.simps) simp
  have "push_bit 24 1 = (2 ^ 24 :: u32)" by (simp add: push_bit_eq_mult)
  then have lt: "fd_range ?d < push_bit 24 1 \<longleftrightarrow> unat (fd_range ?d) < 2 ^ 24" by (simp add: word_less_nat_alt)
  show ?case
  proof (cases "unat (fd_range ?d) < 2 ^ 24")
    case True
    then have s: "fac_renorm d = fac_renorm ?d"
      using lt by (subst fac_renorm.simps) (simp add: Let_def)
    have "2 ^ 24 - unat (fd_range ?d) < 2 ^ 24 - unat (fd_range d)"
      using less.prems r True by linarith
    from less.hyps [OF this _ True] less.prems(1) r obtain d' where d': "fac_renorm ?d = Some d'"
        "2 ^ 24 \<le> unat (fd_range d')" "fd_data d' = fd_data ?d" "fd_len d' = fd_len ?d"
        "\<forall>low k. tracks ?d (low, unat (fd_range ?d), k) \<longrightarrow> tracks d' (enc_norm (low, unat (fd_range ?d), k))"
      by auto
    then show ?thesis using t by (auto simp: s n)
  next
    case False
    then have s: "fac_renorm d = Some ?d" using lt by (subst fac_renorm.simps) (simp add: Let_def)
    have "enc_norm (low * 256, unat (fd_range ?d), Suc k) = (low * 256, unat (fd_range ?d), Suc k)" for low k
      using False by (subst enc_norm.simps) simp
    with s False t show ?thesis by (auto simp: n)
  qed
qed


lemma cum_step:
  assumes "cum_ok c" and "t < 3"
  shows "unat (c ! t) < unat (c ! Suc t)" and "unat (c ! Suc t) \<le> 2 ^ 15"
  using assms by (auto simp: cum_ok_def less_3 simp flip: numeral_2_eq_2)

lemma cum_mono:
  assumes "cum_ok c" and "i \<le> j" and "j \<le> 3"
  shows "unat (c ! i) \<le> unat (c ! j)"
  using assms(2,3)
proof (induction rule: dec_induct)
  case (step n)
  then show ?case using cum_step(1) [OF assms(1), of n] by simp
qed simp

lemma fac_decode_step:
  assumes "2 ^ 24 \<le> unat (fd_range d)" and "cum_ok (fm_cum m)"
  obtains s d' where "fac_decode d m = Some (s, d', fac_model_update m s)" and "s < FAC_NSYM"
    and "2 ^ 24 \<le> unat (fd_range d')" and "fd_data d' = fd_data d" and "fd_len d' = fd_len d"
    and "\<And>low k t. tracks d (low, unat (fd_range d), k) \<Longrightarrow> t < FAC_NSYM \<Longrightarrow>
      codes (fd_data d) (fd_len d) (enc_step m t (low, unat (fd_range d), k)) \<Longrightarrow>
      s = t \<and> tracks d' (enc_step m t (low, unat (fd_range d), k))"
proof -
  define r where "r = drop_bit FAC_TOTAL_BITS (fd_range d)"
  have ur: "unat r = unat (fd_range d) div 2 ^ 15"
  proof -
    have "r = fd_range d div 2 ^ 15" by (simp add: r_def drop_bit_eq_div)
    then show ?thesis by (simp only: unat_div_distrib) simp
  qed
  have "unat (fd_range d) < 2 ^ 32" using unsigned_less [of "fd_range d", where 'a = nat] by simp
  then have rt: "unat r * 2 ^ 15 < 2 ^ 32"
    unfolding ur by (meson div_times_less_eq_dividend le_less_trans)
  have r512: "2 ^ 9 \<le> unat r" unfolding ur using div_le_mono [OF assms(1), of "2 ^ 15"] by simp
  obtain s lo hi where srch: "fac_search m r (fd_code d) = (s, lo, hi)" by (metis prod_cases3)
  note sp = fac_search_spec [OF assms(2) rt srch]
  have mono: "unat (fm_cum m ! t) < unat (fm_cum m ! Suc t)" "unat (fm_cum m ! Suc t) \<le> 2 ^ 15" if "t < 3" for t
    using cum_step [OF assms(2) that] by simp_all
  have hilo: "unat (hi - lo) = unat hi - unat lo" "0 < unat hi - unat lo" "unat hi \<le> 2 ^ 15"
    using sp mono [of s] by (simp_all add: unat_sub word_le_nat_alt)
  have "unat r * (unat hi - unat lo) \<le> unat r * 2 ^ 15" using hilo by (intro mult_le_mono2) simp
  then have "unat r * unat (hi - lo) < 2 ^ 32" unfolding hilo(1) using rt by (rule le_less_trans)
  then have rng: "unat (r * (hi - lo)) = unat r * (unat hi - unat lo)"
    using hilo(1) by (simp add: unat_mult_small)
  have rng_pos: "0 < unat r * (unat hi - unat lo)" using r512 hilo(2) by simp
  have lo_le: "unat r * unat lo \<le> unat (fd_code d)" using sp by blast
  have "unat r * unat lo < 2 ^ 32"
  proof -
    have "unat r * unat lo \<le> unat r * 2 ^ 15" using hilo by (intro mult_le_mono2) simp
    then show ?thesis using rt by (rule le_less_trans)
  qed
  then have rlo: "unat (r * lo) = unat r * unat lo" by (rule unat_mult_small)
  then have code: "unat (fd_code d - r * lo) = unat (fd_code d) - unat r * unat lo"
    using lo_le by (simp add: unat_sub word_le_nat_alt)
  let ?d1 = "d\<lparr>fd_code := fd_code d - r * lo, fd_range := r * (hi - lo)\<rparr>"
  have p24: "push_bit 24 1 = (2 ^ 24 :: u32)" by (simp add: push_bit_eq_mult)
  have "\<exists>d'. (if fd_range ?d1 < push_bit 24 1 then fac_renorm ?d1 else Some ?d1) = Some d' \<and>
    2 ^ 24 \<le> unat (fd_range d') \<and> fd_data d' = fd_data d \<and> fd_len d' = fd_len d \<and>
    (\<forall>low k. tracks ?d1 (low, unat (fd_range ?d1), k) \<longrightarrow> tracks d' (enc_norm (low, unat (fd_range ?d1), k)))"
  proof (cases "unat (fd_range ?d1) < 2 ^ 24")
    case True
    then show ?thesis using renorm_total [of ?d1] rng rng_pos by (simp add: word_less_nat_alt p24)
  next
    case False
    then have "enc_norm (low, unat (fd_range ?d1), k) = (low, unat (fd_range ?d1), k)" for low k
      by (subst enc_norm.simps) simp
    with False show ?thesis by (simp add: word_less_nat_alt p24)
  qed
  then obtain d' where d': "(if fd_range ?d1 < push_bit 24 1 then fac_renorm ?d1 else Some ?d1) = Some d'"
      "2 ^ 24 \<le> unat (fd_range d')" "fd_data d' = fd_data d" "fd_len d' = fd_len d"
    and tr: "\<And>low k. tracks ?d1 (low, unat (fd_range ?d1), k) \<Longrightarrow> tracks d' (enc_norm (low, unat (fd_range ?d1), k))"
    by blast
  have dec: "fac_decode d m = Some (s, d', fac_model_update m s)"
    using d'(1) by (simp add: fac_decode_def srch flip: r_def)
  show thesis
  proof (rule that [OF dec _ d'(2-4)])
    show "s < FAC_NSYM" using sp by blast
  next
    fix low k t
    assume t: "tracks d (low, unat (fd_range d), k)" "t < FAC_NSYM"
      "codes (fd_data d) (fd_len d) (enc_step m t (low, unat (fd_range d), k))"
    let ?V = "code_value (fd_data d) (fd_len d) (4 + k)"
    let ?lo = "unat (fm_cum m ! t)" and ?hi = "unat (fm_cum m ! Suc t)"
    have es: "enc_step m t (low, unat (fd_range d), k) = enc_norm (low + unat r * ?lo, unat r * (?hi - ?lo), k)"
      by (simp add: enc_step_def ur Let_def)
    have "codes (fd_data d) (fd_len d) (low + unat r * ?lo, unat r * (?hi - ?lo), k)"
      using t(3) codes_enc_norm by (simp only: es)
    then have V: "low + unat r * ?lo \<le> ?V" "?V < low + unat r * ?hi"
      using mono(1) [OF t(2)] by (simp_all add: codes_def diff_mult_distrib2 del: code_value.simps)
    have c: "unat (fd_code d) = ?V - low" "low \<le> ?V"
      using t(1) by (simp_all add: tracks_def codes_def del: code_value.simps)
    then have ct: "unat r * ?lo \<le> unat (fd_code d)" "unat (fd_code d) < unat r * ?hi"
      using V by linarith+
    have st: "s = t"
    proof (rule linorder_cases [of s t])
      assume "s < t"
      then have "unat r * unat (fm_cum m ! Suc s) \<le> unat r * ?lo"
        using cum_mono [OF assms(2), of "Suc s" t] t(2) by (intro mult_le_mono2) simp
      moreover have "unat (fd_code d) < unat r * unat (fm_cum m ! Suc s)" using sp \<open>s < t\<close> t(2) by auto
      ultimately show ?thesis using ct(1) by linarith
    next
      assume "t < s"
      then have "unat r * ?hi \<le> unat r * unat (fm_cum m ! s)"
        using cum_mono [OF assms(2), of "Suc t" s] sp by (intro mult_le_mono2) simp
      moreover have "unat r * unat (fm_cum m ! s) \<le> unat (fd_code d)" using sp by auto
      ultimately show ?thesis using ct(2) by linarith
    qed
    moreover have "tracks ?d1 (low + unat r * unat lo, unat (fd_range ?d1), k)"
      using t(1) sp st V c rng code mono(1) [OF t(2)]
      by (simp add: tracks_def codes_def diff_mult_distrib2 del: code_value.simps)
    ultimately show "s = t \<and> tracks d' (enc_step m t (low, unat (fd_range d), k))"
      using tr sp rng by (simp add: es)
  qed
qed


text \<open>Decoding a number of symbols returns, and keeps the model.\<close>

lemma fac_decode_many_total:
  assumes "2 ^ 24 \<le> unat (fd_range d)" and "fac_model_ok init m"
  obtains ss d' m' where "fac_decode_many k d m = Some (ss, d', m')" and "length ss = k"
    and "set ss \<subseteq> {0, 1, 2}" and "2 ^ 24 \<le> unat (fd_range d')" and "fac_model_ok init m'"
    and "fd_data d' = fd_data d" and "fd_len d' = fd_len d" and "m' = foldl fac_model_update m ss"
proof -
  have "\<exists>ss d' m'. fac_decode_many k d m = Some (ss, d', m') \<and> length ss = k \<and> set ss \<subseteq> {0, 1, 2} \<and>
    2 ^ 24 \<le> unat (fd_range d') \<and> fac_model_ok init m' \<and> fd_data d' = fd_data d \<and> fd_len d' = fd_len d \<and>
    m' = foldl fac_model_update m ss"
    using assms
  proof (induction k arbitrary: d m)
    case (Suc k)
    from Suc.prems(2) have "cum_ok (fm_cum m)" by (simp add: fac_model_ok_def)
    from fac_decode_step [OF Suc.prems(1) this] obtain s d1 where s: "fac_decode d m = Some (s, d1, fac_model_update m s)"
        "s < FAC_NSYM" "2 ^ 24 \<le> unat (fd_range d1)" "fd_data d1 = fd_data d" "fd_len d1 = fd_len d"
      by metis
    from Suc.IH [OF s(3) fac_model_update_ok [OF Suc.prems(2) s(2)]] s show ?case by (auto simp: less_3)
  qed simp
  with that show thesis by blast
qed

lemma part_inside:
  assumes "cum_ok c" and "s < 3"
  shows "rng div 2 ^ 15 * unat (c ! s) + rng div 2 ^ 15 * (unat (c ! Suc s) - unat (c ! s)) \<le> rng"
proof -
  have "rng div 2 ^ 15 * unat (c ! s) + rng div 2 ^ 15 * (unat (c ! Suc s) - unat (c ! s)) =
      rng div 2 ^ 15 * unat (c ! Suc s)"
    using cum_step(1) [OF assms] by (simp flip: add_mult_distrib2)
  also have "\<dots> \<le> rng div 2 ^ 15 * 2 ^ 15" using cum_step(2) [OF assms] by (rule mult_le_mono2)
  also have "\<dots> \<le> rng" by (rule div_times_less_eq_dividend)
  finally show ?thesis .
qed

lemma enc_syms_codes:
  assumes "codes data len (enc_syms m ss (low, rng, k))" and "fac_model_ok init m" and "set ss \<subseteq> {0, 1, 2}"
  shows "codes data len (low, rng, k)"
  using assms
proof (induction ss arbitrary: m low rng k)
  case (Cons s ss)
  let ?r = "rng div 2 ^ 15" and ?lo = "unat (fm_cum m ! s)" and ?hi = "unat (fm_cum m ! Suc s)"
  have s: "s < 3" using Cons.prems(3) by auto
  have cum: "cum_ok (fm_cum m)" using Cons.prems(2) by (simp add: fac_model_ok_def)
  obtain l' r' k' where e: "enc_step m s (low, rng, k) = (l', r', k')" by (metis prod_cases3)
  have "codes data len (l', r', k')"
    using Cons.IH [of "fac_model_update m s" l' r' k'] Cons.prems fac_model_update_ok [OF Cons.prems(2) s]
    by (simp add: e)
  then have "codes data len (enc_norm (low + ?r * ?lo, ?r * (?hi - ?lo), k))"
    by (simp add: enc_step_def Let_def flip: e)
  then have c: "codes data len (low + ?r * ?lo, ?r * (?hi - ?lo), k)" by (rule codes_enc_norm)
  then show ?case using part_inside [OF cum s, of rng] by (intro codes_widen [OF c]) simp_all
qed simp

lemma fac_decode_many_encoded:
  assumes "tracks d (low, unat (fd_range d), k)" and "2 ^ 24 \<le> unat (fd_range d)" and "fac_model_ok init m"
    and "set ss \<subseteq> {0, 1, 2}" and "codes (fd_data d) (fd_len d) (enc_syms m ss (low, unat (fd_range d), k))"
  shows "\<exists>d'. fac_decode_many (length ss) d m = Some (ss, d', foldl fac_model_update m ss) \<and>
    tracks d' (enc_syms m ss (low, unat (fd_range d), k))"
  using assms
proof (induction ss arbitrary: d m low k)
  case (Cons s ss)
  from Cons.prems(3) have cum: "cum_ok (fm_cum m)" by (simp add: fac_model_ok_def)
  have s: "s < FAC_NSYM" using Cons.prems(4) by auto
  obtain s' d1 where
      s': "fac_decode d m = Some (s', d1, fac_model_update m s')" "s' < FAC_NSYM" "2 ^ 24 \<le> unat (fd_range d1)"
        "fd_data d1 = fd_data d" "fd_len d1 = fd_len d"
    and tr: "\<And>low k t. tracks d (low, unat (fd_range d), k) \<Longrightarrow> t < FAC_NSYM \<Longrightarrow>
      codes (fd_data d) (fd_len d) (enc_step m t (low, unat (fd_range d), k)) \<Longrightarrow>
      s' = t \<and> tracks d1 (enc_step m t (low, unat (fd_range d), k))"
    using fac_decode_step [OF Cons.prems(2) cum] by blast
  obtain l1 r1 k1 where e: "enc_step m s (low, unat (fd_range d), k) = (l1, r1, k1)" by (metis prod_cases3)
  note m1 = fac_model_update_ok [OF Cons.prems(3) s]
  have "codes (fd_data d) (fd_len d) (l1, r1, k1)"
    using enc_syms_codes [OF _ m1, of _ _ ss l1 r1 k1] Cons.prems(4,5) by (simp add: e)
  then have t1: "s' = s" "tracks d1 (l1, r1, k1)" using tr [OF Cons.prems(1) s] by (simp_all add: e)
  then have "r1 = unat (fd_range d1)" by (simp add: tracks_def)
  with t1 Cons.IH [of d1 l1 k1 "fac_model_update m s"] s' m1 Cons.prems(4,5) show ?case
    by (auto simp: e)
qed simp


subsection \<open>What the model counts\<close>

text \<open>The symbols in the window, the oldest first: the array is a ring once it is full.\<close>

definition recent :: "fac_model_t \<Rightarrow> nat list" where
  "recent m = (if fm_count m < fm_window m then window_list m
     else drop (nat (fm_pos m)) (window_list m) @ take (nat (fm_pos m)) (window_list m))"

lemma freq_increment_fields [simp]:
  "fm_window (freq_increment s m) = fm_window m" "fm_pos (freq_increment s m) = fm_pos m"
  "fm_count (freq_increment s m) = fm_count m" "fm_hist (freq_increment s m) = fm_hist m"
  by (simp_all add: freq_increment_def Let_def)

lemma recent_init: "recent (fac_model_init m init w) = []"
  by (simp add: recent_def fac_model_init_def Let_def window_list_def fac_model_rescale_def)

lemma ring_step:
  assumes "p < length xs"
  shows "drop (if Suc p \<ge> length xs then 0 else Suc p) (xs[p := x]) @
      take (if Suc p \<ge> length xs then 0 else Suc p) (xs[p := x]) =
    tl (drop p xs @ take p xs) @ [x]"
proof (cases "Suc p < length xs")
  case True
  then show ?thesis using assms by (simp add: drop_Suc take_Suc_conv_app_nth tl_drop flip: drop_Suc)
next
  case False
  then have "length xs = Suc p" using assms by simp
  then obtain ys y where "xs = ys @ [y]" "length ys = p" by (metis length_Suc_conv_rev)
  then show ?thesis by (auto simp: list_update_append)
qed

lemma recent_update:
  assumes "fac_model_ok init m" and "s < FAC_NSYM" and fill: "fm_count m < fm_window m \<Longrightarrow> fm_pos m = 0"
  shows "recent (fac_model_update m s) =
    (if fm_count m < fm_window m then recent m @ [s] else tl (recent m) @ [s])"
proof -
  from assms(1) have c: "0 < fm_window m" "0 \<le> fm_pos m" "fm_pos m < fm_window m" "0 \<le> fm_count m"
      "fm_count m \<le> fm_window m" by (simp_all add: fac_model_ok_def)
  have u: "unat (of_nat s :: u8) = s" using assms(2) by (auto simp: less_3)
  show ?thesis
  proof (cases "fm_count m < fm_window m")
    case True
    have "nat (fm_count m + 1) = Suc (nat (fm_count m))" using c by simp
    then have w: "window_list (fac_model_update m s) = window_list m @ [s]"
      using True by (simp add: window_list_def fac_model_update_def u)
    then show ?thesis using True fill by (simp add: recent_def fac_model_update_def)
  next
    case False
    define p where "p = nat (fm_pos m)"
    have l: "length (window_list m) = nat (fm_window m)" using c False by (simp add: length_window_list)
    then have p: "p < length (window_list m)" "Suc p \<ge> length (window_list m) \<longleftrightarrow> fm_pos m + 1 \<ge> fm_window m"
        "nat (fm_pos m + 1) = Suc p"
      using c by (auto simp: p_def)
    have w: "window_list (fac_model_update m s) = (window_list m)[p := s]"
      using p(1) False by (auto simp: window_list_def fac_model_update_def Let_def u p_def list_eq_iff_nth_eq nth_list_update)
    have "nat (fm_pos (fac_model_update m s)) = (if Suc p \<ge> length (window_list m) then 0 else Suc p)"
      using False p by (simp add: fac_model_update_def Let_def)
    then have "recent (fac_model_update m s) = tl (drop p (window_list m) @ take p (window_list m)) @ [s]"
      using False ring_step [OF p(1), of s] w
      by (simp add: recent_def fac_model_update_def Let_def)
    then show ?thesis using False by (simp add: recent_def p_def)
  qed
qed

lemma count_list_rotate: "count_list (drop p xs @ take p xs) s = count_list xs s"
  by (metis add.commute append_take_drop_id count_list_append)

text \<open>All symbols seen so far, through the window.\<close>

lemma fac_model_run:
  assumes "fac_model_ok init (fac_model_init m init w)" and "set ss \<subseteq> {0, 1, 2}"
  defines "m' \<equiv> foldl fac_model_update (fac_model_init m init w) ss"
  defines "W \<equiv> fm_window (fac_model_init m init w)"
  shows "fac_model_ok init m' \<and> fm_window m' = W \<and> recent m' = drop (length ss - nat W) ss \<and>
    nat (fm_count m') = min (length ss) (nat W) \<and> (fm_count m' < W \<longrightarrow> fm_pos m' = 0)"
  using assms(2) unfolding m'_def
proof (induction ss rule: rev_induct)
  case Nil
  have "fm_count (fac_model_init m init w) = 0" "fm_pos (fac_model_init m init w) = 0"
    by (simp_all add: fac_model_init_def Let_def)
  then show ?case using assms(1) by (simp add: recent_init W_def)
next
  case (snoc s ss)
  let ?m = "foldl fac_model_update (fac_model_init m init w) ss"
  have s: "s < FAC_NSYM" using snoc.prems by auto
  from snoc have IH: "fac_model_ok init ?m" "fm_window ?m = W" "recent ?m = drop (length ss - nat W) ss"
      "nat (fm_count ?m) = min (length ss) (nat W)" "fm_count ?m < W \<longrightarrow> fm_pos ?m = 0" by simp_all
  from IH(1,2) have c: "0 < W" "0 \<le> fm_count ?m" "fm_count ?m \<le> W" by (simp_all add: fac_model_ok_def)
  have win: "fm_window (fac_model_update ?m s) = W"
    using IH(2) by (simp add: fac_model_update_def Let_def)
  have cnt: "fm_count (fac_model_update ?m s) = (if fm_count ?m < W then fm_count ?m + 1 else fm_count ?m)"
    using IH(2) by (simp add: fac_model_update_def Let_def)
  have pos: "fm_count ?m < W \<Longrightarrow> fm_pos (fac_model_update ?m s) = 0"
    using IH(2,5) by (simp add: fac_model_update_def Let_def)
  have rec: "recent (fac_model_update ?m s) = drop (Suc (length ss) - nat W) (ss @ [s])"
  proof (cases "fm_count ?m < W")
    case True
    then have "length ss < nat W" using IH(4) c by linarith
    then show ?thesis using recent_update [OF IH(1) s] IH True by simp
  next
    case False
    then have "nat W \<le> length ss" using IH(4) c by linarith
    then have "tl (drop (length ss - nat W) ss) = drop (Suc (length ss) - nat W) ss"
      by (simp add: tl_drop drop_Suc Suc_diff_le)
    then show ?thesis using recent_update [OF IH(1) s] IH False c \<open>nat W \<le> length ss\<close> by simp
  qed
  show ?case
    using fac_model_update_ok [OF IH(1) s] win cnt pos rec IH(4) c by auto
qed

text \<open>
  C27 (invariant). After any sequence of symbols the frequency of a symbol in the model is its
  initial frequency and the number of times it occurs among the last symbols, as many as the
  window holds; so the guard of the decrement always holds, every symbol keeps a part of the range,
  and the parts do not exceed it.
\<close>

theorem fac_model_window:
  assumes "freq_ok init" and "unat (init ! 0) + unat (init ! 1) + unat (init ! 2) \<le> 928"
    and "1 \<le> fm_hist_cap m" and "fm_hist_cap m \<le> 3072" and "set ss \<subseteq> {0, 1, 2}"
    and "m' = foldl fac_model_update (fac_model_init m init w) ss" and "s < FAC_NSYM"
  shows "unat (fm_freq m' ! s) = unat (init ! s) + count_list (drop (length ss - nat (fm_window m')) ss) s \<and>
    cum_ok (fm_cum m') \<and> 1 \<le> fm_window m' \<and> fm_window m' \<le> fm_hist_cap m'"
proof -
  note r = fac_model_run [OF fac_model_init_ok [OF assms(1-4)] assms(5), of w, folded assms(6)]
  have "count_list (recent m') s = count_list (window_list m') s"
    by (simp add: recent_def count_list_rotate del: count_list_append)
  with r assms(7) show ?thesis by (auto simp: fac_model_ok_def)
qed


lemma fac_model_window_witness:
  "let m = \<lparr>fm_n = 0, fm_window = 0, fm_pos = 0, fm_count = 0, fm_hist = bytes [], fm_hist_cap = 512,
      fm_freq = [], fm_thresh = [], fm_cum = []\<rparr>;
    m' = foldl fac_model_update (fac_model_init m FAC_FQ1 2) [2, 0, 1]
   in unat (fm_freq m' ! 0) = 55 \<and> unat (fm_freq m' ! 2) = 1"
proof -
  define m where "m = \<lparr>fm_n = 0, fm_window = 0, fm_pos = 0, fm_count = 0, fm_hist = bytes [], fm_hist_cap = 512,
    fm_freq = [], fm_thresh = [], fm_cum = []\<rparr>"
  let ?m = "foldl fac_model_update (fac_model_init m FAC_FQ1 2) [2, 0, 1]"
  have w: "fm_window ?m = 2"
    by (simp add: m_def fac_model_update_def fac_model_init_def Let_def)
  have c: "unat (FAC_FQ1 ! 0) + unat (FAC_FQ1 ! 1) + unat (FAC_FQ1 ! 2) \<le> 928"
    by (simp add: FAC_FQ1_def)
  have h: "1 \<le> fm_hist_cap m" "fm_hist_cap m \<le> 3072" by (simp_all add: m_def)
  have s: "set [2, 0, 1 :: nat] \<subseteq> {0, 1, 2}" by simp
  note r = fac_model_window [OF FAC_FQ_ok(1) c h s refl, of _ 2, unfolded w]
  have "unat (fm_freq ?m ! 0) = 55" "unat (fm_freq ?m ! 2) = 1"
    using r [of 0] r [of 2] by (simp_all only: conj_imp_eq_imp_imp) (simp_all add: FAC_FQ1_def)
  then show ?thesis by (simp only: Let_def m_def)
qed

subsection \<open>The properties of the decoder\<close>

definition model_zero :: "int \<Rightarrow> fac_model_t" where
  "model_zero cap = \<lparr>fm_n = 0, fm_window = 0, fm_pos = 0, fm_count = 0, fm_hist = (\<lambda>_. 0),
     fm_hist_cap = cap, fm_freq = [0, 0, 0], fm_thresh = [0, 0, 0], fm_cum = [0, 0, 0, 0]\<rparr>"

lemma fac_dec_init_state:
  "fd_data (fac_dec_init data len) = data \<and> fd_len (fac_dec_init data len) = len \<and>
    fd_p (fac_dec_init data len) = 4 \<and> fd_range (fac_dec_init data len) = 0xFFFFFFFF \<and>
    unat (fd_code (fac_dec_init data len)) = code_value data len 4"
proof -
  have b: "unat (next_octet data len i) < 256" for i
    using unsigned_less [of "next_octet data len i", where 'a = nat] by simp
  have "unat (fd_code (fac_fill k \<lparr>fd_data = data, fd_len = len, fd_p = int j, fd_range = r, fd_code = c\<rparr>)) =
      code_value data len (j + k) \<and>
      fac_fill k \<lparr>fd_data = data, fd_len = len, fd_p = int j, fd_range = r, fd_code = c\<rparr> =
        \<lparr>fd_data = data, fd_len = len, fd_p = int (j + k), fd_range = r,
          fd_code = fd_code (fac_fill k \<lparr>fd_data = data, fd_len = len, fd_p = int j, fd_range = r, fd_code = c\<rparr>)\<rparr>"
    if "unat c = code_value data len j" "code_value data len j < 256 ^ j" "j + k \<le> 4" for j k r c
    using that
  proof (induction k arbitrary: j c)
    case (Suc k)
    have "(256 :: nat) ^ j \<le> 256 ^ 3" using Suc.prems(3) by (intro power_increasing) simp_all
    then have c: "unat c < 2 ^ 24" using Suc.prems(1,2) by simp
    then have u: "unat (push_bit 8 c OR ucast (next_octet data len (int j))) = code_value data len (Suc j)"
      by (simp add: shift_in_octet Suc.prems(1))
    have "code_value data len (Suc j) < 256 ^ Suc j" using Suc.prems(2) b [of "int j"] by simp
    from Suc.IH [OF u this] Suc.prems(3) show ?case
      by (simp add: fac_byte_def add.commute [of 1])
  qed simp
  from this [of 0 0 4 "0xFFFFFFFF"] show ?thesis
    by (simp add: fac_dec_init_def) (metis fac_dec_t.select_convs)
qed

text \<open>A number as octets, the highest first.\<close>

definition be_octets :: "nat \<Rightarrow> nat \<Rightarrow> buf" where
  "be_octets n v = (\<lambda>i. of_nat (v div 256 ^ (n - 1 - i)))"

lemma code_value_be_octets:
  assumes "v < 256 ^ n" and "j \<le> n"
  shows "code_value (be_octets n v) (int n) j = v div 256 ^ (n - j)"
  using assms(2)
proof (induction j)
  case 0
  then show ?case using assms(1) by simp
next
  case (Suc j)
  then have e: "n - j = Suc (n - Suc j)" by simp
  have "unat (next_octet (be_octets n v) (int n) (int j)) = v div 256 ^ (n - Suc j) mod 256"
    using Suc.prems by (simp add: next_octet_def be_octets_def unat_of_nat)
  moreover have "v div 256 ^ (n - j) = v div 256 ^ (n - Suc j) div 256"
    unfolding e by (simp only: power_Suc2 div_mult2_eq)
  ultimately show ?case using Suc by simp
qed

lemma enc_step_bound:
  assumes "cum_ok (fm_cum m)" and "s < FAC_NSYM" and "low + rng \<le> 256 ^ (4 + k)"
    and "enc_step m s (low, rng, k) = (low', rng', k')"
  shows "low' + rng' \<le> 256 ^ (4 + k')"
proof -
  let ?r = "rng div 2 ^ 15" and ?lo = "unat (fm_cum m ! s)" and ?hi = "unat (fm_cum m ! Suc s)"
  have le: "low + ?r * ?lo + ?r * (?hi - ?lo) \<le> 256 ^ (4 + k)"
    using part_inside [OF assms(1,2), of rng] assms(3) by linarith
  obtain j where "enc_norm (low + ?r * ?lo, ?r * (?hi - ?lo), k) =
      ((low + ?r * ?lo) * 256 ^ j, ?r * (?hi - ?lo) * 256 ^ j, k + j)"
    using enc_norm_scaled by blast
  then have "low' + rng' = (low + ?r * ?lo + ?r * (?hi - ?lo)) * 256 ^ j" "k' = k + j"
    using assms(4) by (auto simp: enc_step_def Let_def distrib_right)
  moreover have "(low + ?r * ?lo + ?r * (?hi - ?lo)) * 256 ^ j \<le> 256 ^ (4 + k) * 256 ^ j"
    using le by (rule mult_le_mono1)
  ultimately show ?thesis by (simp add: power_add)
qed

lemma enc_syms_bound:
  assumes "fac_model_ok init m" and "set ss \<subseteq> {0, 1, 2}" and "low + rng \<le> 256 ^ (4 + k)"
    and "enc_syms m ss (low, rng, k) = (low', rng', k')"
  shows "low' + rng' \<le> 256 ^ (4 + k')"
  using assms
proof (induction ss arbitrary: m low rng k)
  case (Cons s ss)
  have s: "s < FAC_NSYM" using Cons.prems(2) by auto
  have cum: "cum_ok (fm_cum m)" using Cons.prems(1) by (simp add: fac_model_ok_def)
  obtain l1 r1 k1 where e: "enc_step m s (low, rng, k) = (l1, r1, k1)" by (metis prod_cases3)
  from Cons.IH [OF fac_model_update_ok [OF Cons.prems(1) s] _ enc_step_bound [OF cum s Cons.prems(3) e]]
    Cons.prems(2,4) show ?case by (simp add: e)
qed simp

text \<open>
  C22 (roundtrip). The range decoder undoes the adaptive range coder: for every sequence of the
  three symbols, every window and any number of the final interval written in octets, decoding as
  many symbols gives the sequence back and has taken in the octets up to the last, with the 32-bit
  code and range of the decoder wrapping nowhere.
\<close>

theorem fac_roundtrip:
  assumes "freq_ok init" and "unat (init ! 0) + unat (init ! 1) + unat (init ! 2) \<le> 928"
    and "1 \<le> fm_hist_cap m" and "fm_hist_cap m \<le> 3072" and "set ss \<subseteq> {0, 1, 2}"
    and "enc_syms (fac_model_init m init w) ss (0, 2 ^ 32 - 1, 0) = (low, rng, k)"
    and "low \<le> v" and "v < low + rng"
  shows "\<exists>d m'. fac_decode_many (length ss) (fac_dec_init (be_octets (4 + k) v) (int (4 + k)))
      (fac_model_init m init w) = Some (ss, d, m') \<and> fd_p d = int (4 + k)"
proof -
  let ?m = "fac_model_init m init w" and ?d = "fac_dec_init (be_octets (4 + k) v) (int (4 + k))"
  note ok = fac_model_init_ok [OF assms(1-4), of w]
  have "v < 256 ^ (4 + k)"
    using enc_syms_bound [OF ok assms(5) _ assms(6)] assms(8) by simp
  then have "code_value (be_octets (4 + k) v) (int (4 + k)) (4 + k) = v"
    by (subst code_value_be_octets) simp_all
  then have c: "codes (be_octets (4 + k) v) (int (4 + k)) (low, rng, k)"
    using assms(7,8) by (simp add: codes_def del: code_value.simps)
  note st = fac_dec_init_state [of "be_octets (4 + k) v" "int (4 + k)"]
  have r: "unat (fd_range ?d) = 2 ^ 32 - 1" using st by simp
  have "codes (be_octets (4 + k) v) (int (4 + k)) (0, 2 ^ 32 - 1, 0)"
    using enc_syms_codes [OF _ ok assms(5)] c by (simp only: assms(6))
  then have "tracks ?d (0, unat (fd_range ?d), 0)"
    using st r by (simp add: tracks_def del: code_value.simps)
  moreover have "codes (fd_data ?d) (fd_len ?d) (enc_syms ?m ss (0, unat (fd_range ?d), 0))"
    using c by (simp only: r st [THEN conjunct1] st [THEN conjunct2, THEN conjunct1] assms(6))
  ultimately obtain d' where "fac_decode_many (length ss) ?d ?m = Some (ss, d', foldl fac_model_update ?m ss)"
      "tracks d' (low, rng, k)"
    using fac_decode_many_encoded [of ?d 0 0 init ?m ss] ok assms(5,6) r by auto
  then show ?thesis by (auto simp: tracks_def)
qed

text \<open>
  Decoding symbols returns whatever the octets are and however few: the range
  never becomes zero, so the loop that renormalises it ends, and each symbol is one of the three.
\<close>

theorem fac_decode_returns:
  assumes "freq_ok init" and "unat (init ! 0) + unat (init ! 1) + unat (init ! 2) \<le> 928"
    and "1 \<le> fm_hist_cap m" and "fm_hist_cap m \<le> 3072"
  shows "\<exists>ss d m'. fac_decode_many n (fac_dec_init data len) (fac_model_init m init w) = Some (ss, d, m') \<and>
    length ss = n \<and> set ss \<subseteq> {0, 1, 2} \<and> 2 ^ 24 \<le> unat (fd_range d)"
  using fac_decode_many_total [OF _ fac_model_init_ok [OF assms], of "fac_dec_init data len" n w]
    fac_dec_init_state [of data len] by (simp, metis)

lemma fac_decode_returns_witness:
  "\<exists>ss d m'. fac_decode_many 240 (fac_dec_init (bytes []) 0) (fac_model_init (model_zero 512) FAC_FQ1 57) =
    Some (ss, d, m') \<and> length ss = 240 \<and> set ss \<subseteq> {0, 1, 2} \<and> 2 ^ 24 \<le> unat (fd_range d)"
  by (rule fac_decode_returns) (simp_all add: FAC_FQ_ok, simp_all add: FAC_FQ1_def model_zero_def)

text \<open>
  The search for the symbol without a division finds what the division finds:
  the target is the code divided by the unit of the range, cut to the last value of the total, and
  the symbol is the one whose part of the cumulative frequencies the target lies in; this holds for
  any code, also one beyond the range. The products with the unit do not wrap.
\<close>

theorem fac_search_is_division:
  assumes "2 ^ 24 \<le> unat rng" and "cum_ok (fm_cum m)"
    and "r = drop_bit FAC_TOTAL_BITS rng" and "target = min (unat code div unat r) (2 ^ 15 - 1)"
  shows "fst (fac_search m r code) =
      (if target < unat (fm_cum m ! 1) then 0 else if target < unat (fm_cum m ! 2) then 1 else 2) \<and>
    (\<forall>i < 3. unat (r * fm_cum m ! i) = unat r * unat (fm_cum m ! i))"
proof -
  have "r = rng div 2 ^ 15" by (simp add: assms(3) drop_bit_eq_div)
  then have ur: "unat r = unat rng div 2 ^ 15" by (simp only: unat_div_distrib) simp
  have "unat rng < 2 ^ 32" using unsigned_less [of rng, where 'a = nat] by simp
  then have rt: "unat r * 2 ^ 15 < 2 ^ 32" unfolding ur by (meson div_times_less_eq_dividend le_less_trans)
  have "0 < unat r" unfolding ur using div_le_mono [OF assms(1), of "2 ^ 15"] by simp
  then show ?thesis
    using fac_search_division [OF assms(2) rt _ assms(4)] unit_times [OF assms(2) rt] by blast
qed

lemma fac_search_is_division_witness:
  "fst (fac_search (fac_model_init (model_zero 512) FAC_FQ1 57) (drop_bit 15 0x80000000) 0xFFFFFFFF) = 2"
proof -
  have ok: "cum_ok (fm_cum (fac_model_init (model_zero 512) FAC_FQ1 57))"
    using fac_model_init_ok [of FAC_FQ1 "model_zero 512" 57]
    by (simp add: FAC_FQ_ok fac_model_ok_def) (simp add: FAC_FQ1_def model_zero_def)
  then have "unat (fm_cum (fac_model_init (model_zero 512) FAC_FQ1 57) ! 2) \<le> 2 ^ 15 - 1"
      "unat (fm_cum (fac_model_init (model_zero 512) FAC_FQ1 57) ! 1) \<le> 2 ^ 15 - 1"
    by (auto simp: cum_ok_def)
  moreover have "unat (drop_bit 15 (0x80000000 :: u32)) = 65536" by (simp add: drop_bit_eq_div)
  ultimately show ?thesis
    using fac_search_is_division [OF _ ok refl refl, of "0x80000000" "0xFFFFFFFF"] by simp
qed

text \<open>The final interval is never empty, so every sequence has a code.\<close>

lemma enc_norm_width: "0 < rng \<Longrightarrow> 2 ^ 24 \<le> fst (snd (enc_norm (low, rng, k)))"
proof (induction "(low, rng, k)" arbitrary: low rng k rule: enc_norm.induct)
  case (1 low rng k)
  then show ?case by (subst enc_norm.simps) (simp add: not_less)
qed

lemma enc_syms_width:
  assumes "fac_model_ok init m" and "set ss \<subseteq> {0, 1, 2}" and "2 ^ 24 \<le> rng"
  shows "2 ^ 24 \<le> fst (snd (enc_syms m ss (low, rng, k)))"
  using assms
proof (induction ss arbitrary: m low rng k)
  case (Cons s ss)
  have s: "s < FAC_NSYM" using Cons.prems(2) by auto
  have cum: "cum_ok (fm_cum m)" using Cons.prems(1) by (simp add: fac_model_ok_def)
  obtain l1 r1 k1 where e: "enc_step m s (low, rng, k) = (l1, r1, k1)" by (metis prod_cases3)
  have "0 < rng div 2 ^ 15" using div_le_mono [OF Cons.prems(3), of "2 ^ 15"] by simp
  then have "0 < rng div 2 ^ 15 * (unat (fm_cum m ! Suc s) - unat (fm_cum m ! s))"
    using cum_step(1) [OF cum s] by simp
  from enc_norm_width [OF this, of "low + rng div 2 ^ 15 * unat (fm_cum m ! s)" k]
  have "2 ^ 24 \<le> r1" using e by (simp add: enc_step_def Let_def)
  with Cons.IH [OF fac_model_update_ok [OF Cons.prems(1) s]] Cons.prems(2) show ?case by (simp add: e)
qed simp

lemma fac_roundtrip_witness:
  "\<exists>low rng k. enc_syms (fac_model_init (model_zero 512) FAC_FQ1 57) [0, 2, 1] (0, 2 ^ 32 - 1, 0) = (low, rng, k) \<and>
    (\<exists>d m'. fac_decode_many 3 (fac_dec_init (be_octets (4 + k) low) (int (4 + k)))
      (fac_model_init (model_zero 512) FAC_FQ1 57) = Some ([0, 2, 1], d, m') \<and> fd_p d = int (4 + k))"
proof -
  have init: "unat (FAC_FQ1 ! 0) + unat (FAC_FQ1 ! 1) + unat (FAC_FQ1 ! 2) \<le> 928"
      "1 \<le> fm_hist_cap (model_zero 512)" "fm_hist_cap (model_zero 512) \<le> 3072"
    by (simp_all add: FAC_FQ1_def model_zero_def)
  have ss: "set [0, 2, 1 :: nat] \<subseteq> {0, 1, 2}" by simp
  obtain low rng k where e:
    "enc_syms (fac_model_init (model_zero 512) FAC_FQ1 57) [0, 2, 1] (0, 2 ^ 32 - 1, 0) = (low, rng, k)"
    by (metis prod_cases3)
  have "2 ^ 24 \<le> rng"
    using enc_syms_width [OF fac_model_init_ok [OF FAC_FQ_ok(1) init] ss, of "2 ^ 32 - 1" 57 0 0]
    unfolding e by simp
  then have "low < low + rng" by simp
  from fac_roundtrip [OF FAC_FQ_ok(1) init ss e le_refl this] have
    "\<exists>d m'. fac_decode_many 3 (fac_dec_init (be_octets (4 + k) low) (int (4 + k)))
      (fac_model_init (model_zero 512) FAC_FQ1 57) = Some ([0, 2, 1], d, m') \<and> fd_p d = int (4 + k)"
    by (simp only: list.size add_0 numeral_3_eq_3 add_Suc One_nat_def add_Suc_right add_0_right)
  with e show ?thesis by blast
qed

end
