(* ===== verification/Lhdc_Rice.thy ===== *)
theory Lhdc_Rice
  imports Lhdc_Fac Lhdc_Bit_Reader "HOL-Library.Monad_Syntax"
begin

text \<open>
  external/lhdc-v5/lhdc\_entropy\_dec.c, second part: the coefficients of a channel from the two
  streams of symbols. The second stream is decoded on demand (\<open>s2_lazy_t\<close>); the theorems show that
  this is the same as decoding it into an array first, and that a spectrum that was split into
  two streams, coded and written into the frame is decoded again. A function that decodes symbols
  returns an option, as in \<open>Lhdc_Fac\<close>. A 32-bit word is the value of an \<open>int32_t\<close> coefficient;
  a shift by 32 and more, undefined in C and reached by no stream that the round trip is about, is
  the shift of an unbounded word.
\<close>

subsection \<open>The second stream (s2\_lazy\_t)\<close>

record s2_lazy_t =
  z_d :: fac_dec_t
  z_m :: fac_model_t
  z_cur_idx :: int
  z_cur_val :: int
  z_produced :: int
  z_hard_cap :: int
  z_eos :: bool
  z_save_p :: int
  z_save_range :: u32

function s2_at :: "s2_lazy_t \<Rightarrow> nat \<Rightarrow> (int \<times> s2_lazy_t) option" where
  "s2_at z i =
     (if int i > z_cur_idx z
      then if z_eos z then Some (-1, z)
           else if fd_p (z_d z) > fd_len (z_d z) \<or> z_produced z \<ge> z_hard_cap z
           then Some (-1, z\<lparr>z_eos := True\<rparr>)
           else (case fac_decode (z_d z) (z_m z) of
                   None \<Rightarrow> None
                 | Some (s, d, m) \<Rightarrow>
                     s2_at (z\<lparr>z_save_p := fd_p (z_d z), z_save_range := fd_range (z_d z),
                              z_d := d, z_m := m, z_cur_val := int s,
                              z_cur_idx := z_cur_idx z + 1, z_produced := z_produced z + 1\<rparr>) i)
      else Some (if int i = z_cur_idx z then z_cur_val z else -1, z))"
  by pat_completeness auto
termination
  by (relation "measure (\<lambda>(z, i). nat (int i - z_cur_idx z))") auto

declare s2_at.simps [simp del]

definition s2_state_after :: "s2_lazy_t \<Rightarrow> nat \<Rightarrow> (int \<times> u32 \<times> s2_lazy_t) option" where
  "s2_state_after z used =
     (if int used = z_produced z - 1 then Some (z_save_p z, z_save_range z, z)
      else if int used \<ge> z_produced z
      then do {
        (ss, d, m) \<leftarrow> fac_decode_many (used - nat (z_produced z)) (z_d z) (z_m z);
        Some (fd_p d, fd_range d, z\<lparr>z_d := d, z_m := m\<rparr>)
      }
      else Some (fd_p (z_d z), fd_range (z_d z), z))"

subsection \<open>The Rice quotients\<close>

text \<open>The three loops of \<open>rice_read_quotient\<close>: the pairs of bits behind a two, and the ones.\<close>

partial_function (option) rice_digits ::
    "s2_lazy_t \<Rightarrow> nat \<Rightarrow> u32 \<Rightarrow> nat \<Rightarrow> (nat \<times> u32 \<times> nat \<times> s2_lazy_t) option" where
  "rice_digits z j low shift =
     do {
       (v, z) \<leftarrow> s2_at z j;
       if v = 2 then do {
         (v1, z) \<leftarrow> s2_at z (j + 1);
         let b1 = (if v1 < 0 then 0 else v1);
         (v0, z) \<leftarrow> s2_at z (j + 2);
         let b0 = (if v0 < 0 then 0 else v0);
         rice_digits z (j + 3) (low OR push_bit shift (push_bit 1 (word_of_int b1) OR word_of_int b0))
           (shift + 2)
       }
       else Some (j, low, shift, z)
     }"

partial_function (option) rice_ones :: "s2_lazy_t \<Rightarrow> nat \<Rightarrow> nat \<Rightarrow> (nat \<times> nat \<times> s2_lazy_t) option" where
  "rice_ones z j ones =
     do {
       (v, z) \<leftarrow> s2_at z j;
       if v = 1 then rice_ones z (j + 1) (ones + 1) else Some (j, ones, z)
     }"

function rice_ones3 :: "s2_lazy_t \<Rightarrow> nat \<Rightarrow> nat \<Rightarrow> (nat \<times> nat \<times> s2_lazy_t) option" where
  "rice_ones3 z j ones =
     (if ones < 3
      then (case s2_at z j of
              None \<Rightarrow> None
            | Some (v, z) \<Rightarrow> if v = 1 then rice_ones3 z (j + 1) (ones + 1) else Some (j, ones, z))
      else Some (j, ones, z))"
  by pat_completeness auto
termination
  by (relation "measure (\<lambda>(z, j, ones). 3 - ones)") auto

declare rice_ones3.simps [simp del]

definition rice_read_quotient :: "s2_lazy_t \<Rightarrow> nat \<Rightarrow> (u32 \<times> nat \<times> s2_lazy_t) option" where
  "rice_read_quotient z j =
     do {
       (v, z) \<leftarrow> s2_at z j;
       if v = 2 then do {
         (j, low, shift, z) \<leftarrow> rice_digits z j 0 0;
         (j, ones, z) \<leftarrow> rice_ones z j 0;
         (v, z) \<leftarrow> s2_at z j;
         Some (low OR push_bit shift (of_nat (ones + 1)), if v = 0 then j + 1 else j, z)
       }
       else do {
         (j, ones, z) \<leftarrow> rice_ones3 z j 0;
         if ones = 3 then Some (3, j, z)
         else do {
           (v, z) \<leftarrow> s2_at z j;
           Some (of_nat ones, if v = 0 then j + 1 else j, z)
         }
       }
     }"

subsection \<open>The coefficients\<close>

text \<open>
  The loop of \<open>rice_decode_coeffs_used\<close> from the coefficient \<open>i\<close> on; its first argument is
  \<open>pivot2\<close>, and \<open>s1\<close> are the symbols of the first stream from \<open>i\<close> on.
\<close>

fun rice_coeffs :: "int \<Rightarrow> nat \<Rightarrow> nat list \<Rightarrow> s2_lazy_t \<Rightarrow> nat \<Rightarrow> (u32 list \<times> nat \<times> s2_lazy_t) option" where
  "rice_coeffs pivot2 i [] z j = Some ([], j, z)"
| "rice_coeffs pivot2 i (s # s1) z j =
     do {
       (c, j, z) \<leftarrow>
         (if int i \<le> pivot2
          then if s = 2 then do { (q, j, z) \<leftarrow> rice_read_quotient z j; Some (q + 2, j, z) }
               else Some (of_nat s, j, z)
          else do { (q, j, z) \<leftarrow> rice_read_quotient z j; Some (push_bit 1 q OR of_nat s, j, z) });
       (cs, j, z) \<leftarrow> rice_coeffs pivot2 (Suc i) s1 z j;
       Some (c # cs, j, z)
     }"

definition rice_pivot2 :: "nat list \<Rightarrow> int \<Rightarrow> int \<Rightarrow> int" where
  "rice_pivot2 s1 count split =
     (let pivot = count - split;
          pivot = (if pivot < 0 then 0 else pivot);
          run = fold (\<lambda>i run. if s1 ! i = 2 then int i else run) [0..<length s1] 0
      in if run < pivot then count else run)"

definition rice_decode_coeffs_used ::
    "nat list \<Rightarrow> s2_lazy_t \<Rightarrow> int \<Rightarrow> int \<Rightarrow> (u32 list \<times> nat \<times> s2_lazy_t) option" where
  "rice_decode_coeffs_used s1 z count split = rice_coeffs (rice_pivot2 s1 count split) 0 s1 z 0"

subsection \<open>Decoding a channel\<close>

text \<open>
  The static data of the file for the one slot: the two models and \<open>g_fac_final_range\<close>.
  \<open>lhdc_entropy_alloc_internal\<close> attaches the arrays of the windows.
\<close>

record lhdc_entropy =
  s_fac_m0 :: fac_model_t
  s_fac_m1 :: fac_model_t
  g_fac_final_range :: u32

definition lhdc_entropy_alloc_internal :: "lhdc_entropy \<Rightarrow> lhdc_entropy" where
  "lhdc_entropy_alloc_internal e =
     e\<lparr>s_fac_m0 := (s_fac_m0 e)\<lparr>fm_hist_cap := 512\<rparr>, s_fac_m1 := (s_fac_m1 e)\<lparr>fm_hist_cap := 3072\<rparr>\<rparr>"

text \<open>The loop that collects the octets of the range coder behind the head of the channel.\<close>

function fac_load :: "int \<Rightarrow> lhdc_dec_bit_reader_t \<Rightarrow> buf \<Rightarrow> int \<Rightarrow> lhdc_dec_bit_reader_t \<times> buf \<times> int" where
  "fac_load cap br facbuf nb =
     (if lhdc_bit_reader_remaining br \<ge> 8 \<and> nb < cap
      then case lhdc_bit_reader_read br 8 of
             (v, br) \<Rightarrow> fac_load cap br (facbuf(nat nb := ucast v)) (nb + 1)
      else (br, facbuf, nb))"
  by pat_completeness auto
termination
  by (relation "measure (\<lambda>(cap, br, facbuf, nb). nat (cap - nb))") auto

declare fac_load.simps [simp del]

text \<open>
  The result: the spectrum, the number of octets the range coder took in when the caller asks for
  it, the static data and the reader. The scratch array for the second stream is not used any more.
\<close>

definition lhdc_entropy_decode_spectrum_ex2 ::
    "lhdc_entropy \<Rightarrow> int \<Rightarrow> lhdc_dec_bit_reader_t \<Rightarrow> int \<Rightarrow> int \<Rightarrow> int \<Rightarrow> int \<Rightarrow> bool \<Rightarrow> buf \<Rightarrow> int \<Rightarrow>
      (u32 list \<times> int option \<times> lhdc_entropy \<times> lhdc_dec_bit_reader_t) option" where
  "lhdc_entropy_decode_spectrum_ex2 e num_coeffs br count split ma_win1 ma_win2 want_bytes
      scratch_fac scratch_fac_cap =
     (let (br, facbuf, nb) = fac_load scratch_fac_cap br scratch_fac 0;
          count = (if count < 1 \<or> count > num_coeffs then num_coeffs else count);
          d = fac_dec_init facbuf nb;
          e = lhdc_entropy_alloc_internal e;
          pm1 = fac_model_init (s_fac_m0 e) FAC_FQ1 (if ma_win1 > 0 then ma_win1 else 256)
      in do {
        (s1, d, pm1) \<leftarrow> fac_decode_many (nat count) d pm1;
        let pm2 = fac_model_init (s_fac_m1 e) FAC_FQ2 (if ma_win2 > 0 then ma_win2 else 256);
        let z = \<lparr>z_d = d, z_m = pm2, z_cur_idx = -1, z_cur_val = 0, z_produced = 0,
                 z_hard_cap = count * 16, z_eos = False, z_save_p = fd_p d, z_save_range = fd_range d\<rparr>;
        (coeff, s2_used, z) \<leftarrow> rice_decode_coeffs_used s1 z count split;
        let quant = coeff @ replicate (nat num_coeffs - length coeff) 0;
        if want_bytes then do {
          (consumed, final_range, z) \<leftarrow> s2_state_after z s2_used;
          let consumed = (if consumed < 0 then 0 else consumed);
          Some (quant, Some consumed,
            e\<lparr>s_fac_m0 := pm1, s_fac_m1 := z_m z, g_fac_final_range := final_range\<rparr>, br)
        }
        else Some (quant, None, e\<lparr>s_fac_m0 := pm1, s_fac_m1 := z_m z\<rparr>, br)
      })"

subsection \<open>The lazy stream is the array of its symbols\<close>

text \<open>
  The reference: all symbols up to the bound or the end of the octets, decoded one after the other,
  and the routines that read them from the array.
\<close>

fun s2_eager :: "nat \<Rightarrow> fac_dec_t \<Rightarrow> fac_model_t \<Rightarrow> nat list" where
  "s2_eager 0 d m = []"
| "s2_eager (Suc k) d m =
     (if fd_p d > fd_len d then []
      else case fac_decode d m of None \<Rightarrow> [] | Some (s, d', m') \<Rightarrow> s # s2_eager k d' m')"

definition sym_at :: "nat list \<Rightarrow> nat \<Rightarrow> int" where
  "sym_at ss j = (if j < length ss then int (ss ! j) else -1)"

definition s2_rest :: "s2_lazy_t \<Rightarrow> nat list" where
  "s2_rest z = (if z_eos z then [] else s2_eager (nat (z_hard_cap z - z_produced z)) (z_d z) (z_m z))"

text \<open>
  A lazy stream that was started in \<open>(d0, m0)\<close>, whose symbols are \<open>ss\<close>: it has decoded a
  prefix, holds the last symbol of it and the state in front of that symbol.
\<close>

definition s2_holds :: "u32 list \<Rightarrow> fac_dec_t \<Rightarrow> fac_model_t \<Rightarrow> nat list \<Rightarrow> s2_lazy_t \<Rightarrow> bool" where
  "s2_holds init d0 m0 ss z \<longleftrightarrow>
     2 ^ 24 \<le> unat (fd_range (z_d z)) \<and> fac_model_ok init (z_m z) \<and>
     z_cur_idx z = z_produced z - 1 \<and> 0 \<le> z_produced z \<and> nat (z_produced z) \<le> length ss \<and>
     drop (nat (z_produced z)) ss = s2_rest z \<and>
     fac_decode_many (nat (z_produced z)) d0 m0 = Some (take (nat (z_produced z)) ss, z_d z, z_m z) \<and>
     (0 < z_produced z \<longrightarrow> z_cur_val z = sym_at ss (nat (z_produced z - 1)) \<and>
       (\<exists>us d m. fac_decode_many (nat (z_produced z - 1)) d0 m0 = Some (us, d, m) \<and>
          fd_p d = z_save_p z \<and> fd_range d = z_save_range z))"

lemma fac_decode_many_snoc:
  "fac_decode_many k d0 m0 = Some (us, d, m) \<Longrightarrow> fac_decode d m = Some (s, d', m') \<Longrightarrow>
    fac_decode_many (Suc k) d0 m0 = Some (us @ [s], d', m')"
proof (induction k arbitrary: d0 m0 us)
  case (Suc k)
  from Suc.prems(1) obtain t d1 m1 ts where "fac_decode d0 m0 = Some (t, d1, m1)"
      "fac_decode_many k d1 m1 = Some (ts, d, m)" "us = t # ts"
    by (auto split: option.splits)
  with Suc.IH [of d1 m1 ts] Suc.prems(2) show ?case by simp
qed simp

lemma s2_holds_step:
  assumes z: "s2_holds init d0 m0 ss z" and "\<not> z_eos z" and "fd_p (z_d z) \<le> fd_len (z_d z)"
    and "z_produced z < z_hard_cap z"
  obtains s d m where "fac_decode (z_d z) (z_m z) = Some (s, d, m)"
    and "s2_holds init d0 m0 ss
      (z\<lparr>z_save_p := fd_p (z_d z), z_save_range := fd_range (z_d z), z_d := d, z_m := m,
         z_cur_val := int s, z_cur_idx := z_cur_idx z + 1, z_produced := z_produced z + 1\<rparr>)"
proof -
  have r: "2 ^ 24 \<le> unat (fd_range (z_d z))" and m: "fac_model_ok init (z_m z)"
    and p: "z_cur_idx z = z_produced z - 1" "0 \<le> z_produced z" "nat (z_produced z) \<le> length ss"
    and rest: "drop (nat (z_produced z)) ss = s2_rest z"
    and many: "fac_decode_many (nat (z_produced z)) d0 m0 = Some (take (nat (z_produced z)) ss, z_d z, z_m z)"
    using z unfolding s2_holds_def by blast+
  have "cum_ok (fm_cum (z_m z))" using m by (simp add: fac_model_ok_def)
  then obtain s d where
    s: "fac_decode (z_d z) (z_m z) = Some (s, d, fac_model_update (z_m z) s)" "s < FAC_NSYM"
      "2 ^ 24 \<le> unat (fd_range d)" by (rule fac_decode_step [OF r]) (rule that)
  let ?m = "fac_model_update (z_m z) s" and ?k = "nat (z_produced z)"
  define n where "n = nat (z_hard_cap z - (z_produced z + 1))"
  have k: "nat (z_produced z + 1) = Suc ?k" and n: "nat (z_hard_cap z - z_produced z) = Suc n"
    using p assms(4) by (simp_all add: n_def)
  have e: "drop ?k ss = s # s2_eager n d ?m"
    using assms(2,3) s(1) unfolding rest s2_rest_def n by simp
  then have "drop ?k ss \<noteq> []" by simp
  then have k': "?k < length ss" by simp
  then have l: "ss ! ?k = s" "drop (Suc ?k) ss = s2_eager n d ?m"
    using e Cons_nth_drop_Suc [OF k'] by simp_all
  have many': "fac_decode_many (Suc ?k) d0 m0 = Some (take (Suc ?k) ss, d, ?m)"
    using fac_decode_many_snoc [OF many s(1)] k' l by (simp add: take_Suc_conv_app_nth)
  have "s2_holds init d0 m0 ss
      (z\<lparr>z_save_p := fd_p (z_d z), z_save_range := fd_range (z_d z), z_d := d, z_m := ?m,
         z_cur_val := int s, z_cur_idx := z_cur_idx z + 1, z_produced := z_produced z + 1\<rparr>)"
    using s(3) fac_model_update_ok [OF m s(2)] p many' many assms(2) l k' k n_def
    by (simp add: s2_holds_def s2_rest_def sym_at_def)
  with s(1) show thesis by (rule that)
qed

lemma s2_at_symbol:
  assumes "s2_holds init d0 m0 ss z" and "z_cur_idx z \<le> int i"
  shows "\<exists>z'. s2_at z i = Some (sym_at ss i, z') \<and> s2_holds init d0 m0 ss z' \<and> z_cur_idx z' \<le> int i"
  using assms
proof (induction z i rule: s2_at.induct)
  case (1 z i)
  have p: "z_cur_idx z = z_produced z - 1" "0 \<le> z_produced z" "nat (z_produced z) \<le> length ss"
    and rest: "drop (nat (z_produced z)) ss = s2_rest z"
    using 1(2) unfolding s2_holds_def by blast+
  show ?case
  proof (cases "int i > z_cur_idx z")
    case False
    then have i: "z_cur_idx z = int i" using 1(3) by simp
    then have i': "nat (z_produced z - 1) = i" "0 < z_produced z" using p(1) by simp_all
    have "z_cur_val z = sym_at ss i" using 1(2) i' unfolding s2_holds_def by blast
    with i 1(2) show ?thesis by (simp add: s2_at.simps)
  next
    case i: True
    show ?thesis
    proof (cases "z_eos z \<or> fd_p (z_d z) > fd_len (z_d z) \<or> z_produced z \<ge> z_hard_cap z")
      case True
      then have r: "s2_rest z = []"
        by (cases "nat (z_hard_cap z - z_produced z)") (auto simp: s2_rest_def)
      with rest have "length ss \<le> nat (z_produced z)" by simp
      with i p have "sym_at ss i = -1" by (simp add: sym_at_def)
      moreover have "s2_holds init d0 m0 ss (z\<lparr>z_eos := True\<rparr>)"
        using 1(2) r by (simp add: s2_holds_def s2_rest_def)
      ultimately show ?thesis using True i 1(2,3) by (auto simp: s2_at.simps [of z])
    next
      case False
      then have f: "\<not> z_eos z" "\<not> (fd_p (z_d z) > fd_len (z_d z) \<or> z_produced z \<ge> z_hard_cap z)"
          "fd_p (z_d z) \<le> fd_len (z_d z)" "z_produced z < z_hard_cap z" by simp_all
      obtain s d m where s: "fac_decode (z_d z) (z_m z) = Some (s, d, m)"
        "s2_holds init d0 m0 ss
          (z\<lparr>z_save_p := fd_p (z_d z), z_save_range := fd_range (z_d z), z_d := d, z_m := m,
             z_cur_val := int s, z_cur_idx := z_cur_idx z + 1, z_produced := z_produced z + 1\<rparr>)"
        by (rule s2_holds_step [OF 1(2) f(1,3,4)])
      from 1(1) [OF i f(1,2) s(1) refl refl s(2)] i f s(1) show ?thesis
        by (simp add: s2_at.simps [of z])
    qed
  qed
qed


text \<open>The routines on the array.\<close>

definition s2_bit :: "int \<Rightarrow> u32" where
  "s2_bit v = word_of_int (if v < 0 then 0 else v)"

lemma sym_at_less: "sym_at ss j = int v \<Longrightarrow> j < length ss"
  by (simp add: sym_at_def split: if_splits)

function arr_digits :: "nat list \<Rightarrow> nat \<Rightarrow> u32 \<Rightarrow> nat \<Rightarrow> nat \<times> u32 \<times> nat" where
  "arr_digits ss j low shift =
     (if sym_at ss j = 2
      then arr_digits ss (j + 3)
             (low OR push_bit shift (push_bit 1 (s2_bit (sym_at ss (j + 1))) OR s2_bit (sym_at ss (j + 2))))
             (shift + 2)
      else (j, low, shift))"
  by pat_completeness auto
termination
  by (relation "measure (\<lambda>(ss, j, low, shift). length ss - j)") (auto dest: sym_at_less [where v = 2, simplified])

function arr_ones :: "nat list \<Rightarrow> nat \<Rightarrow> nat \<Rightarrow> nat \<times> nat" where
  "arr_ones ss j ones = (if sym_at ss j = 1 then arr_ones ss (j + 1) (ones + 1) else (j, ones))"
  by pat_completeness auto
termination
  by (relation "measure (\<lambda>(ss, j, ones). length ss - j)")
    (simp_all add: diff_less_mono2 sym_at_less [where v = 1, simplified])

function arr_ones3 :: "nat list \<Rightarrow> nat \<Rightarrow> nat \<Rightarrow> nat \<times> nat" where
  "arr_ones3 ss j ones =
     (if ones < 3 \<and> sym_at ss j = 1 then arr_ones3 ss (j + 1) (ones + 1) else (j, ones))"
  by pat_completeness auto
termination
  by (relation "measure (\<lambda>(ss, j, ones). 3 - ones)") auto

declare arr_digits.simps [simp del] arr_ones.simps [simp del] arr_ones3.simps [simp del]

definition arr_quotient :: "nat list \<Rightarrow> nat \<Rightarrow> u32 \<times> nat" where
  "arr_quotient ss j =
     (if sym_at ss j = 2
      then let (j, low, shift) = arr_digits ss j 0 0; (j, ones) = arr_ones ss j 0
           in (low OR push_bit shift (of_nat (ones + 1)), if sym_at ss j = 0 then j + 1 else j)
      else let (j, ones) = arr_ones3 ss j 0
           in if ones = 3 then (3, j) else (of_nat ones, if sym_at ss j = 0 then j + 1 else j))"

fun arr_coeffs :: "int \<Rightarrow> nat \<Rightarrow> nat list \<Rightarrow> nat list \<Rightarrow> nat \<Rightarrow> u32 list \<times> nat" where
  "arr_coeffs pivot2 i [] ss j = ([], j)"
| "arr_coeffs pivot2 i (s # s1) ss j =
     (let (c, j) =
        (if int i \<le> pivot2
         then if s = 2 then (case arr_quotient ss j of (q, j) \<Rightarrow> (q + 2, j)) else (of_nat s, j)
         else (case arr_quotient ss j of (q, j) \<Rightarrow> (push_bit 1 q OR of_nat s, j)));
        (cs, j) = arr_coeffs pivot2 (Suc i) s1 ss j
      in (c # cs, j))"

text \<open>What a routine on the lazy stream may do: the stream stays the same and is not read ahead.\<close>

definition s2_upto :: "u32 list \<Rightarrow> fac_dec_t \<Rightarrow> fac_model_t \<Rightarrow> nat list \<Rightarrow> nat \<Rightarrow> s2_lazy_t \<Rightarrow> bool" where
  "s2_upto init d0 m0 ss j z \<longleftrightarrow> s2_holds init d0 m0 ss z \<and> z_cur_idx z \<le> int j"

lemma s2_upto_mono: "s2_upto init d0 m0 ss j z \<Longrightarrow> j \<le> k \<Longrightarrow> s2_upto init d0 m0 ss k z"
  by (auto simp: s2_upto_def)

lemma s2_at_upto:
  assumes "s2_upto init d0 m0 ss j z" and "j \<le> k"
  obtains z' where "s2_at z k = Some (sym_at ss k, z')" and "s2_upto init d0 m0 ss k z'"
proof -
  from assms have "s2_holds init d0 m0 ss z" "z_cur_idx z \<le> int k" by (auto simp: s2_upto_def)
  from s2_at_symbol [OF this] that show thesis by (auto simp: s2_upto_def)
qed

lemma rice_digits_array:
  assumes "s2_upto init d0 m0 ss j z"
  shows "\<exists>z'. rice_digits z j low shift =
      Some (fst (arr_digits ss j low shift), fst (snd (arr_digits ss j low shift)), snd (snd (arr_digits ss j low shift)), z') \<and>
    s2_upto init d0 m0 ss (fst (arr_digits ss j low shift)) z'"
  using assms
proof (induction ss j low shift arbitrary: z rule: arr_digits.induct)
  case (1 ss j low shift)
  obtain z1 where z1: "s2_at z j = Some (sym_at ss j, z1)" "s2_upto init d0 m0 ss j z1"
    by (rule s2_at_upto [OF 1(2) order.refl])
  show ?case
  proof (cases "sym_at ss j = 2")
    case True
    obtain z2 where z2: "s2_at z1 (j + 1) = Some (sym_at ss (j + 1), z2)" "s2_upto init d0 m0 ss (j + 1) z2"
      by (rule s2_at_upto [OF z1(2), of "j + 1"]) simp
    obtain z3 where z3: "s2_at z2 (j + 2) = Some (sym_at ss (j + 2), z3)" "s2_upto init d0 m0 ss (j + 2) z3"
      by (rule s2_at_upto [OF z2(2), of "j + 2"]) simp
    from 1(1) [OF True s2_upto_mono [OF z3(2), of "j + 3"]] True z1(1) z2(1) z3(1) show ?thesis
      by (simp add: rice_digits.simps [of z] arr_digits.simps [of ss j] s2_bit_def Let_def)
  qed (use z1 in \<open>simp add: rice_digits.simps [of z] arr_digits.simps [of ss j]\<close>)
qed

lemma rice_ones_array:
  assumes "s2_upto init d0 m0 ss j z"
  shows "\<exists>z'. rice_ones z j ones = Some (fst (arr_ones ss j ones), snd (arr_ones ss j ones), z') \<and>
    s2_upto init d0 m0 ss (fst (arr_ones ss j ones)) z'"
  using assms
proof (induction ss j ones arbitrary: z rule: arr_ones.induct)
  case (1 ss j ones)
  obtain z1 where z1: "s2_at z j = Some (sym_at ss j, z1)" "s2_upto init d0 m0 ss j z1"
    by (rule s2_at_upto [OF 1(2) order.refl])
  from 1(1) [OF _ s2_upto_mono [OF z1(2), of "j + 1"]] z1 show ?case
    by (cases "sym_at ss j = 1") (simp_all add: rice_ones.simps [of z] arr_ones.simps [of ss j])
qed

lemma rice_ones3_array:
  assumes "s2_upto init d0 m0 ss j z"
  shows "\<exists>z'. rice_ones3 z j ones = Some (fst (arr_ones3 ss j ones), snd (arr_ones3 ss j ones), z') \<and>
    s2_upto init d0 m0 ss (fst (arr_ones3 ss j ones)) z'"
  using assms
proof (induction ss j ones arbitrary: z rule: arr_ones3.induct)
  case (1 ss j ones)
  obtain z1 where z1: "s2_at z j = Some (sym_at ss j, z1)" "s2_upto init d0 m0 ss j z1"
    by (rule s2_at_upto [OF 1(2) order.refl])
  from 1(1) [OF _ s2_upto_mono [OF z1(2), of "j + 1"]] z1 1(2) show ?case
    by (cases "ones < 3 \<and> sym_at ss j = 1") (auto simp: rice_ones3.simps [of z] arr_ones3.simps [of ss j])
qed


lemma rice_read_quotient_array:
  assumes "s2_upto init d0 m0 ss j z"
  shows "\<exists>z'. rice_read_quotient z j = Some (fst (arr_quotient ss j), snd (arr_quotient ss j), z') \<and>
    s2_upto init d0 m0 ss (snd (arr_quotient ss j)) z'"
proof -
  obtain z1 where z1: "s2_at z j = Some (sym_at ss j, z1)" "s2_upto init d0 m0 ss j z1"
    by (rule s2_at_upto [OF assms order.refl])
  show ?thesis
  proof (cases "sym_at ss j = 2")
    case True
    obtain j2 low shift where a: "arr_digits ss j 0 0 = (j2, low, shift)" by (metis prod_cases3)
    obtain j3 ones where b: "arr_ones ss j2 0 = (j3, ones)" by fastforce
    from rice_digits_array [OF z1(2), of 0 0] obtain z2 where
      z2: "rice_digits z1 j 0 0 = Some (j2, low, shift, z2)" "s2_upto init d0 m0 ss j2 z2" by (auto simp: a)
    from rice_ones_array [OF z2(2), of 0] obtain z3 where
      z3: "rice_ones z2 j2 0 = Some (j3, ones, z3)" "s2_upto init d0 m0 ss j3 z3" by (auto simp: b)
    obtain z4 where z4: "s2_at z3 j3 = Some (sym_at ss j3, z4)" "s2_upto init d0 m0 ss j3 z4"
      by (rule s2_at_upto [OF z3(2) order.refl])
    with True z1(1) z2(1) z3(1) s2_upto_mono [OF z4(2), of "j3 + 1"] show ?thesis
      by (simp add: rice_read_quotient_def arr_quotient_def a b)
  next
    case False
    obtain j2 ones where a: "arr_ones3 ss j 0 = (j2, ones)" by fastforce
    from rice_ones3_array [OF z1(2), of 0] obtain z2 where
      z2: "rice_ones3 z1 j 0 = Some (j2, ones, z2)" "s2_upto init d0 m0 ss j2 z2" by (auto simp: a)
    obtain z3 where z3: "s2_at z2 j2 = Some (sym_at ss j2, z3)" "s2_upto init d0 m0 ss j2 z3"
      by (rule s2_at_upto [OF z2(2) order.refl])
    with False z1(1) z2 s2_upto_mono [OF z3(2), of "j2 + 1"] show ?thesis
      by (simp add: rice_read_quotient_def arr_quotient_def a)
  qed
qed

lemma rice_coeffs_array:
  assumes "s2_upto init d0 m0 ss j z"
  shows "\<exists>z'. rice_coeffs pivot2 i s1 z j =
      Some (fst (arr_coeffs pivot2 i s1 ss j), snd (arr_coeffs pivot2 i s1 ss j), z') \<and>
    s2_upto init d0 m0 ss (snd (arr_coeffs pivot2 i s1 ss j)) z'"
  using assms
proof (induction s1 arbitrary: i z j)
  case (Cons s s1)
  obtain q j2 where a: "arr_quotient ss j = (q, j2)" by fastforce
  from rice_read_quotient_array [OF Cons.prems] obtain z2 where
    z2: "rice_read_quotient z j = Some (q, j2, z2)" "s2_upto init d0 m0 ss j2 z2" by (auto simp: a)
  obtain cs j3 where b: "arr_coeffs pivot2 (Suc i) s1 ss j2 = (cs, j3)" by fastforce
  obtain cs' j3' where b': "arr_coeffs pivot2 (Suc i) s1 ss j = (cs', j3')" by fastforce
  from Cons.IH [OF z2(2), of "Suc i"] Cons.IH [OF Cons.prems, of "Suc i"] z2(1) show ?case
    by (cases "int i \<le> pivot2"; cases "s = 2") (auto simp: a b b')
qed auto

lemma fac_decode_many_add:
  "fac_decode_many k d m = Some (us, d', m') \<Longrightarrow> fac_decode_many n d' m' = Some (vs, d'', m'') \<Longrightarrow>
    fac_decode_many (k + n) d m = Some (us @ vs, d'', m'')"
proof (induction k arbitrary: d m us)
  case (Suc k)
  from Suc.prems(1) obtain t d1 m1 ts where "fac_decode d m = Some (t, d1, m1)"
      "fac_decode_many k d1 m1 = Some (ts, d', m')" "us = t # ts"
    by (auto split: option.splits)
  with Suc.IH [of d1 m1 ts] Suc.prems(2) show ?case by simp
qed simp

text \<open>The state after \<open>used\<close> symbols is the one that decoding them anew from the start gives.\<close>

lemma s2_state_after_redecodes:
  assumes "s2_upto init d0 m0 ss used z"
  shows "\<exists>us d m z'. fac_decode_many used d0 m0 = Some (us, d, m) \<and>
    s2_state_after z used = Some (fd_p d, fd_range d, z')"
proof -
  let ?n = "nat (z_produced z)"
  have h: "s2_holds init d0 m0 ss z" and used: "z_cur_idx z \<le> int used"
    using assms by (simp_all add: s2_upto_def)
  have p: "z_cur_idx z = z_produced z - 1" "0 \<le> z_produced z"
    and r: "2 ^ 24 \<le> unat (fd_range (z_d z))" "fac_model_ok init (z_m z)"
    and many: "fac_decode_many ?n d0 m0 = Some (take ?n ss, z_d z, z_m z)"
    using h unfolding s2_holds_def by blast+
  show ?thesis
  proof (cases "int used = z_produced z - 1")
    case True
    then have u: "nat (z_produced z - 1) = used" "0 < z_produced z" using p by simp_all
    from h u obtain us d m where "fac_decode_many used d0 m0 = Some (us, d, m)"
        "fd_p d = z_save_p z" "fd_range d = z_save_range z"
      unfolding s2_holds_def by blast
    with True show ?thesis by (simp add: s2_state_after_def)
  next
    case False
    with used p have u: "int used \<ge> z_produced z" "used = ?n + (used - ?n)" by simp_all
    obtain vs d m where v: "fac_decode_many (used - ?n) (z_d z) (z_m z) = Some (vs, d, m)"
      by (rule fac_decode_many_total [OF r])
    have "fac_decode_many (?n + (used - ?n)) d0 m0 = Some (take ?n ss @ vs, d, m)"
      by (rule fac_decode_many_add [OF many v])
    with False u v show ?thesis by (simp add: s2_state_after_def)
  qed
qed

definition s2_start :: "fac_dec_t \<Rightarrow> fac_model_t \<Rightarrow> int \<Rightarrow> s2_lazy_t" where
  "s2_start d m cap = \<lparr>z_d = d, z_m = m, z_cur_idx = -1, z_cur_val = 0, z_produced = 0,
     z_hard_cap = cap, z_eos = False, z_save_p = fd_p d, z_save_range = fd_range d\<rparr>"

lemma s2_start_upto:
  "2 ^ 24 \<le> unat (fd_range d) \<Longrightarrow> fac_model_ok init m \<Longrightarrow>
    s2_upto init d m (s2_eager (nat cap) d m) 0 (s2_start d m cap)"
  by (simp add: s2_upto_def s2_holds_def s2_start_def s2_rest_def)

text \<open>
  C23 (equivalence). Decoding the second stream on demand gives the coefficients, and the number of
  symbols used, that decoding it into an array up to the bound first gives, whatever the octets
  are: it returns, and the position and the range it reports are those of a decoder that decodes
  exactly the symbols used from the start of the stream.
\<close>

theorem rice_lazy_is_array:
  assumes "2 ^ 24 \<le> unat (fd_range d)" and "fac_model_ok init m"
    and "arr_coeffs (rice_pivot2 s1 count split) 0 s1 (s2_eager (nat cap) d m) 0 = (coeffs, used)"
  shows "\<exists>z us d' m' z'. rice_decode_coeffs_used s1 (s2_start d m cap) count split = Some (coeffs, used, z) \<and>
    fac_decode_many used d m = Some (us, d', m') \<and> s2_state_after z used = Some (fd_p d', fd_range d', z')"
proof -
  from rice_coeffs_array [OF s2_start_upto [OF assms(1,2), of cap], of "rice_pivot2 s1 count split" 0 s1]
  obtain z where z: "rice_decode_coeffs_used s1 (s2_start d m cap) count split = Some (coeffs, used, z)"
      "s2_upto init d m (s2_eager (nat cap) d m) used z"
    by (auto simp: assms(3) rice_decode_coeffs_used_def)
  from s2_state_after_redecodes [OF z(2)] z(1) show ?thesis by blast
qed

lemma fac_dec_init_range: "unat (fd_range (fac_dec_init data len)) = 2 ^ 32 - 1"
  using fac_dec_init_state [of data len] by simp

lemma FAC_FQ2_model: "fac_model_ok FAC_FQ2 (fac_model_init (model_zero 3072) FAC_FQ2 w)"
  by (rule fac_model_init_ok) (simp_all add: FAC_FQ_ok, simp_all add: FAC_FQ2_def model_zero_def)

lemma rice_lazy_is_array_witness:
  "\<exists>coeffs used z us d' m' z'.
    rice_decode_coeffs_used [2, 0, 2] (s2_start (fac_dec_init (bytes [7]) 1)
      (fac_model_init (model_zero 3072) FAC_FQ2 456) 48) 3 1 = Some (coeffs, used, z) \<and>
    fac_decode_many used (fac_dec_init (bytes [7]) 1) (fac_model_init (model_zero 3072) FAC_FQ2 456) =
      Some (us, d', m') \<and> s2_state_after z used = Some (fd_p d', fd_range d', z')"
proof -
  obtain coeffs used where e: "arr_coeffs (rice_pivot2 [2, 0, 2] 3 1) 0 [2, 0, 2]
      (s2_eager (nat 48) (fac_dec_init (bytes [7]) 1) (fac_model_init (model_zero 3072) FAC_FQ2 456)) 0 = (coeffs, used)"
    by fastforce
  have "2 ^ 24 \<le> unat (fd_range (fac_dec_init (bytes [7]) 1))" by (simp add: fac_dec_init_range)
  from rice_lazy_is_array [OF this FAC_FQ2_model e] show ?thesis by blast
qed


subsection \<open>The coder of the two streams\<close>

text \<open>
  What the encoder has to write. A quotient below three is as many ones and a zero, three is three
  ones, and a larger one is written in digits of two bits, the lowest first, each behind a two; the
  last digit is coded in ones.
\<close>

fun rice_syms_high :: "nat \<Rightarrow> nat list" where
  "rice_syms_high q =
     (if q < 4 then replicate (q - 1) 1 @ [0]
      else 2 # (q mod 4) div 2 # q mod 2 # rice_syms_high (q div 4))"

declare rice_syms_high.simps [simp del]

definition rice_syms :: "nat \<Rightarrow> nat list" where
  "rice_syms q = (if q < 3 then replicate q 1 @ [0] else if q = 3 then [1, 1, 1] else rice_syms_high q)"

text \<open>
  The coefficients up to \<open>K\<close> have their values 0 and 1 in the first stream and 2 for all others,
  those behind have the lowest bit there.
\<close>

fun rice_plane1 :: "int \<Rightarrow> nat \<Rightarrow> nat list \<Rightarrow> nat list" where
  "rice_plane1 K i [] = []"
| "rice_plane1 K i (c # cs) = (if int i \<le> K then min c 2 else c mod 2) # rice_plane1 K (Suc i) cs"

fun rice_plane2 :: "int \<Rightarrow> nat \<Rightarrow> nat list \<Rightarrow> nat list" where
  "rice_plane2 K i [] = []"
| "rice_plane2 K i (c # cs) =
     (if int i \<le> K then if 2 \<le> c then rice_syms (c - 2) else [] else rice_syms (c div 2)) @
     rice_plane2 K (Suc i) cs"

primrec syms_at :: "nat list \<Rightarrow> nat \<Rightarrow> nat list \<Rightarrow> bool" where
  "syms_at ss j [] \<longleftrightarrow> True"
| "syms_at ss j (x # xs) \<longleftrightarrow> sym_at ss j = int x \<and> syms_at ss (Suc j) xs"

lemma syms_at_append: "syms_at ss j (xs @ ys) \<longleftrightarrow> syms_at ss j xs \<and> syms_at ss (j + length xs) ys"
  by (induction xs arbitrary: j) auto

lemma syms_at_prefix: "syms_at (pre @ xs @ ys) (length pre) xs"
proof (induction xs arbitrary: pre)
  case (Cons x xs)
  show ?case using Cons.IH [of "pre @ [x]"] by (simp add: sym_at_def)
qed simp

lemma arr_ones_run: "syms_at ss j (replicate n 1 @ [0]) \<Longrightarrow> arr_ones ss j ones = (j + n, ones + n)"
  by (induction n arbitrary: j ones) (simp_all add: arr_ones.simps [of ss])

lemma arr_ones3_run:
  "syms_at ss j (replicate n 1) \<Longrightarrow> ones + n \<le> 3 \<Longrightarrow> ones + n = 3 \<or> sym_at ss (j + n) = 0 \<Longrightarrow>
    arr_ones3 ss j ones = (j + n, ones + n)"
proof (induction n arbitrary: j ones)
  case 0
  then show ?case by (auto simp: arr_ones3.simps [of ss j ones])
next
  case (Suc n)
  then show ?case using Suc.IH [of "Suc j" "Suc ones"] by (simp add: arr_ones3.simps [of ss j ones])
qed

text \<open>A digit as the decoder puts it together.\<close>

lemma digit_word:
  assumes "d < 4"
  shows "push_bit 1 (s2_bit (int (d div 2))) OR s2_bit (int (d mod 2)) = (of_nat d :: u32)"
proof -
  have "d = 0 \<or> d = 1 \<or> d = 2 \<or> d = 3" using assms by auto
  then show ?thesis by (auto simp: s2_bit_def push_bit_eq_mult)
qed

lemma syms_at_3:
  "syms_at ss j (a # b # c # xs) \<longleftrightarrow> sym_at ss j = int a \<and> sym_at ss (j + 1) = int b \<and>
    sym_at ss (j + 2) = int c \<and> syms_at ss (j + 3) xs"
  by (simp add: numeral_eq_Suc)

lemma arr_digits_high:
  assumes "syms_at ss j (rice_syms_high q)" and "1 \<le> q" and "unat low < 2 ^ shift"
    and "unat low + q * 2 ^ shift < 2 ^ 32"
  shows "\<exists>j2 low2 shift2 j3 ones. arr_digits ss j low shift = (j2, low2, shift2) \<and>
    arr_ones ss j2 0 = (j3, ones) \<and> sym_at ss j3 = 0 \<and> j3 + 1 = j + length (rice_syms_high q) \<and>
    unat (low2 OR push_bit shift2 (of_nat (ones + 1))) = unat low + q * 2 ^ shift"
  using assms
proof (induction q arbitrary: j low shift rule: rice_syms_high.induct)
  case (1 q)
  show ?case
  proof (cases "q < 4")
    case True
    then have s: "syms_at ss j (replicate (q - 1) 1 @ [0])" "length (rice_syms_high q) = q - 1 + 1"
      using 1(2) by (simp_all add: rice_syms_high.simps [of q])
    then have "sym_at ss j \<noteq> 2" by (cases "q - 1") auto
    moreover have "sym_at ss (j + (q - 1)) = 0" using s(1) by (simp add: syms_at_append)
    ultimately show ?thesis using arr_ones_run [OF s(1), of 0] s(2) 1(3) unat_or_push [OF 1(4), of q] 1(5)
      by (simp add: arr_digits.simps [of ss j])
  next
    case False
    let ?d = "q mod 4" and ?q = "q div 4"
    define low' where "low' = low OR push_bit shift (of_nat ?d)"
    have s: "sym_at ss j = 2" "sym_at ss (j + 1) = int (?d div 2)" "sym_at ss (j + 2) = int (q mod 2)"
        "syms_at ss (j + 3) (rice_syms_high ?q)" "length (rice_syms_high q) = 3 + length (rice_syms_high ?q)"
      using 1(2) False unfolding rice_syms_high.simps [of q] by (simp_all add: syms_at_3 del: syms_at.simps)
    have q: "?d + 4 * ?q = q" "?d \<le> 3" "1 \<le> ?q" using False by auto
    have "d * 2 ^ shift + k * 2 ^ (shift + 2) = (d + 4 * k) * 2 ^ shift" for d k :: nat
      by (simp add: algebra_simps)
    from this [of ?d ?q] have e: "unat low + ?d * 2 ^ shift + ?q * 2 ^ (shift + 2) = unat low + q * 2 ^ shift"
      by (simp only: q(1) add.assoc)
    have l: "unat low' = unat low + ?d * 2 ^ shift"
      unfolding low'_def using e 1(5) by (intro unat_or_push [OF 1(4)]) simp
    have "?d * 2 ^ shift \<le> 3 * 2 ^ shift" using q(2) by (rule mult_le_mono1)
    with 1(4) have "unat low + ?d * 2 ^ shift < 2 ^ shift + 3 * 2 ^ shift" by (rule add_less_le_mono)
    then have l': "unat low' < 2 ^ (shift + 2)" using l by simp
    have "arr_digits ss j low shift = arr_digits ss (j + 3) low' (shift + 2)"
      using digit_word [of ?d] s by (simp add: arr_digits.simps [of ss j] low'_def mod_mod_cancel)
    with 1(1) [OF False s(4) q(3) l'] l e 1(5) s(5) show ?thesis by (simp add: add.assoc)
  qed
qed

lemma arr_quotient_syms:
  assumes "syms_at ss j (rice_syms q)" and "q < 2 ^ 32"
  shows "arr_quotient ss j = (of_nat q, j + length (rice_syms q))"
proof (cases "q \<le> 3")
  case True
  have n: "sym_at ss j \<noteq> 2" "syms_at ss j (replicate q 1)" "q = 3 \<or> sym_at ss (j + q) = 0"
    using assms(1) True by (cases q; auto simp: rice_syms_def syms_at_append numeral_eq_Suc split: if_splits)+
  then have "arr_ones3 ss j 0 = (j + q, 0 + q)" using True by (intro arr_ones3_run) auto
  with n True show ?thesis by (auto simp: arr_quotient_def rice_syms_def)
next
  case False
  then have s: "syms_at ss j (rice_syms_high q)" "rice_syms q = rice_syms_high q"
    using assms(1) by (simp_all add: rice_syms_def)
  moreover have "sym_at ss j = 2" using s(1) False by (simp add: rice_syms_high.simps [of q])
  moreover obtain j2 low2 shift2 j3 ones where "arr_digits ss j 0 0 = (j2, low2, shift2)"
      "arr_ones ss j2 0 = (j3, ones)" "sym_at ss j3 = 0" "j3 + 1 = j + length (rice_syms_high q)"
      "unat (low2 OR push_bit shift2 (of_nat (ones + 1))) = q"
    using arr_digits_high [OF s(1), of 0 0] False assms(2) by auto
  ultimately show ?thesis
    by (simp add: arr_quotient_def word_unat_eq_iff unat_of_nat del: of_nat_add) (use assms(2) in simp)
qed

lemma rice_plane_cons:
  assumes "c < 2 ^ 31" and "syms_at ss j (if int i \<le> K then if 2 \<le> c then rice_syms (c - 2) else [] else rice_syms (c div 2))"
  shows "arr_coeffs K i (rice_plane1 K i (c # cs)) ss j =
    (let (cs', j') = arr_coeffs K (Suc i) (rice_plane1 K (Suc i) cs) ss
       (j + length (if int i \<le> K then if 2 \<le> c then rice_syms (c - 2) else [] else rice_syms (c div 2)))
     in (of_nat c # cs', j'))"
proof -
  have q: "arr_quotient ss j = (of_nat q, j + length (rice_syms q))" if "syms_at ss j (rice_syms q)" "q \<le> c" for q
    using arr_quotient_syms [OF that(1)] that(2) assms(1) by simp
  have bit0: "push_bit 1 (of_nat (c div 2)) OR of_nat (c mod 2) = (of_nat c :: u32)"
  proof -
    have "unat (of_nat (c mod 2) OR push_bit 1 (of_nat (c div 2)) :: u32) = c"
      using unat_or_push [of "of_nat (c mod 2)" 1 "c div 2"] assms(1) by (simp add: unat_of_nat)
    then show ?thesis using assms(1) by (simp add: word_unat_eq_iff unat_of_nat or.commute)
  qed
  consider "int i \<le> K" "2 \<le> c" | "int i \<le> K" "c < 2" | "\<not> int i \<le> K" by linarith
  then show ?thesis
  proof cases
    case 1
    then have "of_nat (c - 2) + 2 = (of_nat c :: u32)" by (simp add: of_nat_diff)
    with 1 q [of "c - 2"] assms(2) show ?thesis by (simp add: min_def)
  next
    case 2
    then show ?thesis by (simp add: min_def)
  next
    case 3
    with q [of "c div 2"] assms(2) bit0 show ?thesis by simp
  qed
qed

lemma arr_coeffs_planes:
  assumes "syms_at ss j (rice_plane2 K i cs)" and "\<forall>c \<in> set cs. c < 2 ^ 31"
  shows "arr_coeffs K i (rice_plane1 K i cs) ss j = (map of_nat cs, j + length (rice_plane2 K i cs))"
  using assms
proof (induction cs arbitrary: i j)
  case (Cons c cs)
  let ?xs = "if int i \<le> K then if 2 \<le> c then rice_syms (c - 2) else [] else rice_syms (c div 2)"
  have s: "syms_at ss j ?xs" "syms_at ss (j + length ?xs) (rice_plane2 K (Suc i) cs)"
    using Cons.prems(1) unfolding rice_plane2.simps syms_at_append by blast+
  have c: "c < 2 ^ 31" "\<forall>c \<in> set cs. c < 2 ^ 31" using Cons.prems(2) by simp_all
  show ?case unfolding rice_plane_cons [OF c(1) s(1)] Cons.IH [OF s(2) c(2)] by simp
qed simp


text \<open>Every spectrum can be split: the encoder finds a \<open>K\<close> that the decoder finds again.\<close>

lemma rice_plane1_nth:
  "k < length cs \<Longrightarrow> rice_plane1 K i cs ! k = (if int (i + k) \<le> K then min (cs ! k) 2 else cs ! k mod 2)"
proof (induction cs arbitrary: i k)
  case (Cons c cs)
  then show ?case using Cons.IH [of "k - 1" "Suc i"] by (cases k) auto
qed simp

lemma length_rice_plane1 [simp]: "length (rice_plane1 K i cs) = length cs"
  by (induction cs arbitrary: i) auto

lemma rice_run_none: "\<forall>i < n. s1 ! i \<noteq> 2 \<Longrightarrow> fold (\<lambda>i run. if s1 ! i = 2 then int i else run) [0..<n] r = r"
  by (induction n) auto

lemma rice_run_last:
  "k < n \<Longrightarrow> s1 ! k = (2 :: nat) \<Longrightarrow> \<forall>i. k < i \<and> i < n \<longrightarrow> s1 ! i \<noteq> 2 \<Longrightarrow>
    fold (\<lambda>i run. if s1 ! i = 2 then int i else run) [0..<n] r = int k"
proof (induction n)
  case (Suc n)
  then show ?case by (cases "k = n") auto
qed simp

lemma rice_split_exists: "\<exists>K. rice_pivot2 (rice_plane1 K 0 cs) (int (length cs)) split = K"
proof -
  let ?n = "length cs"
  define pivot where "pivot = (let p = int ?n - split in if p < 0 then 0 else p)"
  have p2: "rice_pivot2 (rice_plane1 K 0 cs) (int ?n) split =
      (let run = fold (\<lambda>i run. if rice_plane1 K 0 cs ! i = 2 then int i else run) [0..<?n] 0
       in if run < pivot then int ?n else run)" for K
    by (simp add: rice_pivot2_def pivot_def Let_def)
  show ?thesis
  proof (cases "\<exists>i < ?n. pivot \<le> int i \<and> 2 \<le> cs ! i")
    case True
    then obtain i where i: "i < ?n" "pivot \<le> int i" "2 \<le> cs ! i" by blast
    then have "fold (\<lambda>k run. if rice_plane1 (int i) 0 cs ! k = 2 then int k else run) [0..<?n] 0 = int i"
      by (intro rice_run_last) (auto simp: rice_plane1_nth min_def)
    with i show ?thesis by (intro exI [of _ "int i"]) (simp add: p2)
  next
    case none: False
    show ?thesis
    proof (cases "\<exists>i < ?n. 2 \<le> cs ! i")
      case False
      then have "fold (\<lambda>k run. if rice_plane1 K 0 cs ! k = 2 then int k else run) [0..<?n] 0 = 0" for K
        by (intro rice_run_none) (auto simp: rice_plane1_nth min_def not_le)
      then show ?thesis by (cases "0 < pivot") (auto simp: p2)
    next
      case True
      define k where "k = (GREATEST i. i < ?n \<and> 2 \<le> cs ! i)"
      from True have k: "k < ?n" "2 \<le> cs ! k"
        unfolding k_def using GreatestI_ex_nat [of "\<lambda>i. i < ?n \<and> 2 \<le> cs ! i" ?n] by auto
      have last: "cs ! i < 2" if "k < i" "i < ?n" for i
        using Greatest_le_nat [of "\<lambda>i. i < ?n \<and> 2 \<le> cs ! i" i ?n] that by (force simp flip: k_def)
      have "fold (\<lambda>i run. if rice_plane1 (int ?n) 0 cs ! i = 2 then int i else run) [0..<?n] 0 = int k"
        using k by (intro rice_run_last) (auto simp: rice_plane1_nth min_def dest: last)
      moreover have "int k < pivot" using none k by (auto simp: not_le)
      ultimately show ?thesis by (intro exI [of _ "int ?n"]) (simp add: p2)
    qed
  qed
qed

subsection \<open>The whole channel\<close>

text \<open>The octets the loop collects are the fields of eight bits that are left.\<close>

lemma remaining_left: "br_ok br \<Longrightarrow> unat (lhdc_bit_reader_remaining br) = length (br_left br)"
  by (rule lhdc_tell_queue)

lemma fac_load_queue:
  assumes "br_ok br" and "0 \<le> nb"
  shows "\<exists>br' buf' nb'. fac_load cap br facbuf nb = (br', buf', nb') \<and> br_ok br' \<and>
    nb' = nb + int (min (nat (cap - nb)) (length (br_left br) div 8)) \<and>
    (\<forall>i < nat nb. buf' i = facbuf i) \<and>
    (\<forall>i < nat (nb' - nb). unat (buf' (nat nb + i)) = bits_number (take 8 (drop (8 * i) (br_left br))))"
  using assms
proof (induction cap br facbuf nb rule: fac_load.induct)
  case (1 cap br facbuf nb)
  show ?case
  proof (cases "lhdc_bit_reader_remaining br \<ge> 8 \<and> nb < cap")
    case False
    then have "min (nat (cap - nb)) (length (br_left br) div 8) = 0"
      using remaining_left [OF 1(2)] by (auto simp: word_le_nat_alt)
    moreover have "fac_load cap br facbuf nb = (br, facbuf, nb)"
      using False by (simp only: fac_load.simps [of cap br] if_False)
    ultimately show ?thesis using 1(2) by simp
  next
    case True
    obtain v br1 where r: "lhdc_bit_reader_read br 8 = (v, br1)" by fastforce
    have l: "8 \<le> length (br_left br)" using True remaining_left [OF 1(2)] by (simp add: word_le_nat_alt)
    from lhdc_bits.rd_field [OF 1(2), of 8] l
    have b1: "br_ok br1" "unat v = bits_number (take 8 (br_left br))" "br_left br1 = drop 8 (br_left br)"
      by (simp_all add: r)
    have "bits_number xs < 2 ^ length xs" for xs
      by (induction xs rule: rev_induct) (auto simp: bits_number_snoc, simp add: bits_number_def)
    from this [of "take 8 (br_left br)"] l b1(2) have v: "unat (ucast v :: u8) = unat v"
      by (simp add: unsigned_ucast_eq unsigned_take_bit_eq take_bit_nat_eq_self)
    have "0 \<le> nb + 1" using 1(3) by simp
    from 1(1) [OF True r [symmetric] b1(1) this] obtain br' buf' nb' where
      ih: "fac_load cap br1 (facbuf(nat nb := ucast v)) (nb + 1) = (br', buf', nb')" "br_ok br'"
        "nb' = nb + 1 + int (min (nat (cap - (nb + 1))) (length (br_left br1) div 8))"
        "\<forall>i < nat (nb + 1). buf' i = (facbuf(nat nb := ucast v)) i"
        "\<forall>i < nat (nb' - (nb + 1)). unat (buf' (nat (nb + 1) + i)) =
          bits_number (take 8 (drop (8 * i) (br_left br1)))" by blast
    have n: "nb' = nb + int (min (nat (cap - nb)) (length (br_left br) div 8))"
    proof -
      have "length (br_left br) div 8 = Suc ((length (br_left br) - 8) div 8)" "nat (cap - nb) = Suc (nat (cap - (nb + 1)))"
        using l True by (auto simp: le_div_geq)
      with ih(3) b1(3) show ?thesis by simp
    qed
    have "unat (buf' (nat nb + i)) = bits_number (take 8 (drop (8 * i) (br_left br)))" if i: "i < nat (nb' - nb)" for i
    proof (cases i)
      case 0
      have "buf' (nat nb) = ucast v" using ih(4) 1(3) by auto
      with 0 v b1(2) show ?thesis by simp
    next
      case (Suc k)
      then have "k < nat (nb' - (nb + 1))" using i by simp
      with ih(5) have "unat (buf' (nat (nb + 1) + k)) = bits_number (take 8 (drop (8 * k) (br_left br1)))" by blast
      moreover have "nat nb + i = nat (nb + 1) + k" using Suc 1(3) by simp
      ultimately show ?thesis using b1(3) Suc by (simp only: drop_drop) (simp add: add.commute)
    qed
    with ih(1,2,4) n True r 1(3) show ?thesis by (simp add: fac_load.simps [of cap br])
  qed
qed


lemma code_value_left:
  assumes "\<forall>i < n. unat (next_octet data len (int i)) = bits_number (take 8 (drop (8 * i) xs))"
    and "8 * n \<le> length xs"
  shows "code_value data len n = bits_number (take (8 * n) xs)"
  using assms
proof (induction n)
  case (Suc n)
  have "take (8 * Suc n) xs = take (8 * n) xs @ take 8 (drop (8 * n) xs)"
    by (simp add: take_add [symmetric] add.commute)
  with Suc show ?case by (simp add: bits_number_append)
qed (simp add: bits_number_def)

text \<open>The symbols of an encoded stream are a prefix of what the eager decoder decodes.\<close>

lemma enc_norm_count: "k \<le> snd (snd (enc_norm (low, rng, k)))"
  using enc_norm_scaled [of low rng k] by auto

lemma enc_syms_count: "k \<le> snd (snd (enc_syms m ss (low, rng, k)))"
proof (induction ss arbitrary: m low rng k)
  case (Cons s ss)
  obtain l1 r1 k1 where e: "enc_step m s (low, rng, k) = (l1, r1, k1)" by (metis prod_cases3)
  have "k \<le> k1"
    using enc_norm_count [of k "low + rng div 2 ^ 15 * unat (fm_cum m ! s)"
      "rng div 2 ^ 15 * (unat (fm_cum m ! Suc s) - unat (fm_cum m ! s))"] e
    by (simp add: enc_step_def Let_def)
  with Cons.IH [of k1 "fac_model_update m s" l1 r1] show ?case by (simp add: e)
qed simp

lemma s2_eager_encoded:
  assumes "tracks d (low, unat (fd_range d), k)" and "2 ^ 24 \<le> unat (fd_range d)" and "fac_model_ok init m"
    and "set ss \<subseteq> {0, 1, 2}" and "codes (fd_data d) (fd_len d) (enc_syms m ss (low, unat (fd_range d), k))"
    and "int (4 + snd (snd (enc_syms m ss (low, unat (fd_range d), k)))) \<le> fd_len d" and "length ss \<le> n"
  shows "take (length ss) (s2_eager n d m) = ss"
  using assms
proof (induction ss arbitrary: d m low k n)
  case (Cons s ss)
  have cum: "cum_ok (fm_cum m)" using Cons.prems(3) by (simp add: fac_model_ok_def)
  have s: "s < FAC_NSYM" using Cons.prems(4) by auto
  obtain l1 r1 k1 where e: "enc_step m s (low, unat (fd_range d), k) = (l1, r1, k1)" by (metis prod_cases3)
  note m1 = fac_model_update_ok [OF Cons.prems(3) s]
  have "fac_decode_many (length [s]) d m = Some ([s], d', foldl fac_model_update m [s]) \<Longrightarrow>
      fac_decode d m = Some (s, d', fac_model_update m s)" for d'
    by (auto split: option.splits)
  moreover have c: "codes (fd_data d) (fd_len d) (l1, r1, k1)"
    using enc_syms_codes [OF _ m1, of _ _ ss l1 r1 k1] Cons.prems(4,5) by (simp add: e)
  ultimately obtain d' where d: "fac_decode d m = Some (s, d', fac_model_update m s)" "tracks d' (l1, r1, k1)"
    using fac_decode_many_encoded [OF Cons.prems(1-3), of "[s]"] s e by (auto simp: less_3)
  obtain s0 d0 where "fac_decode d m = Some (s0, d0, fac_model_update m s0)" "2 ^ 24 \<le> unat (fd_range d0)"
      "fd_data d0 = fd_data d" "fd_len d0 = fd_len d"
    by (rule fac_decode_step [OF Cons.prems(2) cum]) (rule that)
  then have r: "2 ^ 24 \<le> unat (fd_range d')" "fd_data d' = fd_data d" "fd_len d' = fd_len d"
    using d(1) by simp_all
  have "fd_p d = int (4 + k)" using Cons.prems(1) by (simp add: tracks_def)
  moreover have "k \<le> snd (snd (enc_syms m (s # ss) (low, unat (fd_range d), k)))" by (rule enc_syms_count)
  ultimately have p: "fd_p d \<le> fd_len d" using Cons.prems(6) by simp
  obtain n' where n: "n = Suc n'" "length ss \<le> n'" using Cons.prems(7) by (cases n) auto
  have r1: "r1 = unat (fd_range d')" using d(2) by (simp add: tracks_def)
  have "take (length ss) (s2_eager n' d' (fac_model_update m s)) = ss"
    using Cons.IH [of d' l1 k1 "fac_model_update m s" n'] d(2) r m1 Cons.prems(4-6) n(2) by (simp add: e r1)
  with d(1) p n(1) show ?case by simp
qed simp


lemma rice_syms_high_set: "set (rice_syms_high q) \<subseteq> {0, 1, 2}"
proof (induction q rule: rice_syms_high.induct)
  case (1 q)
  then show ?case by (subst rice_syms_high.simps) auto
qed

lemma rice_planes_set: "set (rice_plane1 K i cs) \<subseteq> {0, 1, 2}" "set (rice_plane2 K i cs) \<subseteq> {0, 1, 2}"
proof -
  have "set (rice_syms q) \<subseteq> {0, 1, 2}" for q
    using rice_syms_high_set [of q] by (auto simp: rice_syms_def)
  then show "set (rice_plane2 K i cs) \<subseteq> {0, 1, 2}"
    by (induction cs arbitrary: i) (simp_all, blast)
  show "set (rice_plane1 K i cs) \<subseteq> {0, 1, 2}"
    by (induction cs arbitrary: i) (auto simp: min_def)
qed

lemma fac_models_ok:
  "fac_model_ok FAC_FQ1 (fac_model_init (s_fac_m0 (lhdc_entropy_alloc_internal e)) FAC_FQ1 w)"
  "fac_model_ok FAC_FQ2 (fac_model_init (s_fac_m1 (lhdc_entropy_alloc_internal e)) FAC_FQ2 w)"
proof -
  have "unat (FAC_FQ1 ! 0) + unat (FAC_FQ1 ! 1) + unat (FAC_FQ1 ! 2) \<le> 928"
    "unat (FAC_FQ2 ! 0) + unat (FAC_FQ2 ! 1) + unat (FAC_FQ2 ! 2) \<le> 928"
    by (simp_all add: FAC_FQ1_def FAC_FQ2_def)
  then show "fac_model_ok FAC_FQ1 (fac_model_init (s_fac_m0 (lhdc_entropy_alloc_internal e)) FAC_FQ1 w)"
    "fac_model_ok FAC_FQ2 (fac_model_init (s_fac_m1 (lhdc_entropy_alloc_internal e)) FAC_FQ2 w)"
    by (auto intro!: fac_model_init_ok simp: FAC_FQ_ok lhdc_entropy_alloc_internal_def)
qed

text \<open>The decoder of the octets that were coded: both streams, and the state behind them.\<close>

lemma two_streams:
  assumes m1: "fac_model_ok FAC_FQ1 m1" and m2: "fac_model_ok FAC_FQ2 m2"
    and s: "set s1 \<subseteq> {0, 1, 2}" "set s2 \<subseteq> {0, 1, 2}"
    and enc: "enc_syms m2 s2 (enc_syms m1 s1 (0, 2 ^ 32 - 1, 0)) = (low, rng, k)"
    and v: "codes data len (low, rng, k)" and k: "int (4 + k) \<le> len" and n: "length s2 \<le> n"
  obtains d1 m' d2 where "fac_decode_many (length s1) (fac_dec_init data len) m1 = Some (s1, d1, m')"
    and "2 ^ 24 \<le> unat (fd_range d1)" and "take (length s2) (s2_eager n d1 m2) = s2"
    and "fac_decode_many (length s2) d1 m2 = Some (s2, d2, foldl fac_model_update m2 s2)"
    and "fd_p d2 = int (4 + k)" and "unat (fd_range d2) = rng"
proof -
  let ?d = "fac_dec_init data len"
  obtain l1 r1 k1 where st1: "enc_syms m1 s1 (0, 2 ^ 32 - 1, 0) = (l1, r1, k1)" by (metis prod_cases3)
  note st = fac_dec_init_state [of data len]
  have r: "unat (fd_range ?d) = 2 ^ 32 - 1" by (rule fac_dec_init_range)
  have c1: "codes data len (l1, r1, k1)"
    by (rule enc_syms_codes [OF _ m2 s(2)]) (use enc v in \<open>simp only: st1\<close>)
  have "codes data len (0, 2 ^ 32 - 1, 0)" using enc_syms_codes [OF _ m1 s(1)] c1 by (simp only: st1)
  then have t0: "tracks ?d (0, unat (fd_range ?d), 0)"
    using st r by (simp add: tracks_def del: code_value.simps)
  have r24: "2 ^ 24 \<le> unat (fd_range ?d)" by (simp add: r)
  have "codes (fd_data ?d) (fd_len ?d) (enc_syms m1 s1 (0, unat (fd_range ?d), 0))"
    unfolding r st1 using c1 st by simp
  from fac_decode_many_encoded [OF t0 r24 m1 s(1) this] obtain d1
    where d1: "fac_decode_many (length s1) ?d m1 = Some (s1, d1, foldl fac_model_update m1 s1)"
      "tracks d1 (l1, r1, k1)"
    unfolding r st1 by blast
  obtain ss d' m' where "fac_decode_many (length s1) ?d m1 = Some (ss, d', m')" "2 ^ 24 \<le> unat (fd_range d')"
      "fd_data d' = fd_data ?d" "fd_len d' = fd_len ?d"
    by (rule fac_decode_many_total [OF r24 m1, of "length s1"]) (rule that)
  with d1(1) st have f: "2 ^ 24 \<le> unat (fd_range d1)" "fd_data d1 = data" "fd_len d1 = len" by simp_all
  have r1: "r1 = unat (fd_range d1)" using d1(2) by (simp add: tracks_def)
  note t1 = d1(2) [unfolded r1]
  have e: "enc_syms m2 s2 (l1, unat (fd_range d1), k1) = (low, rng, k)"
    using enc unfolding st1 r1 .
  have c: "codes (fd_data d1) (fd_len d1) (enc_syms m2 s2 (l1, unat (fd_range d1), k1))"
    using v by (simp add: e f)
  obtain d2 where d2: "fac_decode_many (length s2) d1 m2 = Some (s2, d2, foldl fac_model_update m2 s2)"
      "tracks d2 (low, rng, k)"
    using fac_decode_many_encoded [OF t1 f(1) m2 s(2) c] by (auto simp: e)
  have "take (length s2) (s2_eager n d1 m2) = s2"
    by (rule s2_eager_encoded [OF t1 f(1) m2 s(2) c _ n]) (simp add: e f k del: of_nat_add)
  with d1(1) f(1) d2 show thesis by (intro that) (auto simp: tracks_def)
qed


lemma spectrum_decoded:
  assumes cs: "\<forall>c \<in> set cs. c < 2 ^ 31" "cs \<noteq> []" "int (length cs) \<le> num"
    and K: "rice_pivot2 (rice_plane1 K 0 cs) (int (length cs)) split = K"
    and n: "length (rice_plane2 K 0 cs) \<le> 16 * length cs"
    and m: "m1 = fac_model_init (s_fac_m0 (lhdc_entropy_alloc_internal e)) FAC_FQ1 (if w1 > 0 then w1 else 256)"
      "m2 = fac_model_init (s_fac_m1 (lhdc_entropy_alloc_internal e)) FAC_FQ2 (if w2 > 0 then w2 else 256)"
    and enc: "enc_syms m2 (rice_plane2 K 0 cs) (enc_syms m1 (rice_plane1 K 0 cs) (0, 2 ^ 32 - 1, 0)) = (low, rng, k)"
    and br: "br_ok br" "8 * (4 + k) \<le> length (br_left br)" "int (4 + k) \<le> cap"
    and v: "low \<le> bits_number (take (8 * (4 + k)) (br_left br))"
      "bits_number (take (8 * (4 + k)) (br_left br)) < low + rng"
  shows "\<exists>e' br'. lhdc_entropy_decode_spectrum_ex2 e num br (int (length cs)) split w1 w2 True buf cap =
      Some (map of_nat cs @ replicate (nat num - length cs) 0, Some (int (4 + k)), e', br') \<and>
    unat (g_fac_final_range e') = rng"
proof -
  let ?s1 = "rice_plane1 K 0 cs" and ?s2 = "rice_plane2 K 0 cs" and ?n = "16 * length cs"
  obtain br' buf' nb where load: "fac_load cap br buf 0 = (br', buf', nb)"
      "nb = int (min (nat cap) (length (br_left br) div 8))"
      "\<forall>i < nat nb. unat (buf' i) = bits_number (take 8 (drop (8 * i) (br_left br)))"
    using fac_load_queue [OF br(1), of 0 cap buf] by auto
  have nb: "int (4 + k) \<le> nb" using br(2,3) load(2) by auto
  have "code_value buf' nb (4 + k) = bits_number (take (8 * (4 + k)) (br_left br))"
    using load(3) nb br(2) by (intro code_value_left) (auto simp: next_octet_def)
  then have "codes buf' nb (low, rng, k)" using v by (simp add: codes_def del: code_value.simps)
  note codes = this
  have ok: "fac_model_ok FAC_FQ1 m1" "fac_model_ok FAC_FQ2 m2" unfolding m by (rule fac_models_ok)+
  obtain d1 m' d2 where
      d1: "fac_decode_many (length ?s1) (fac_dec_init buf' nb) m1 = Some (?s1, d1, m')"
        "2 ^ 24 \<le> unat (fd_range d1)"
    and eager: "take (length ?s2) (s2_eager ?n d1 m2) = ?s2"
    and d2: "fac_decode_many (length ?s2) d1 m2 = Some (?s2, d2, foldl fac_model_update m2 ?s2)"
      "fd_p d2 = int (4 + k)" "unat (fd_range d2) = rng"
    by (rule two_streams [OF ok rice_planes_set enc codes nb n])
  have "s2_eager ?n d1 m2 = [] @ ?s2 @ drop (length ?s2) (s2_eager ?n d1 m2)"
    using append_take_drop_id [of "length ?s2" "s2_eager ?n d1 m2"] by (simp only: eager append_Nil)
  then have "syms_at (s2_eager ?n d1 m2) 0 ?s2" using syms_at_prefix [of "[]" ?s2] by (metis list.size(3))
  from arr_coeffs_planes [OF this cs(1)]
  have arr: "arr_coeffs (rice_pivot2 ?s1 (int (length cs)) split) 0 ?s1 (s2_eager (nat (int (length cs) * 16)) d1 m2) 0 =
      (map of_nat cs, length ?s2)"
    by (simp add: K nat_mult_distrib mult.commute)
  from rice_coeffs_array [OF s2_start_upto [OF d1(2) ok(2), of "int (length cs) * 16"]] arr
  obtain z where z: "rice_decode_coeffs_used ?s1 (s2_start d1 m2 (int (length cs) * 16)) (int (length cs)) split =
      Some (map of_nat cs, length ?s2, z)" "s2_upto FAC_FQ2 d1 m2 (s2_eager (nat (int (length cs) * 16)) d1 m2) (length ?s2) z"
    unfolding rice_decode_coeffs_used_def by (metis fst_conv snd_conv)
  from s2_state_after_redecodes [OF z(2)] d2 obtain z' where
    z': "s2_state_after z (length ?s2) = Some (int (4 + k), fd_range d2, z')" by auto
  show ?thesis
    using load(1) d1(1) z(1) z' cs(2,3) d2(3)
    by (simp add: lhdc_entropy_decode_spectrum_ex2_def Let_def s2_start_def flip: m)
qed

text \<open>
  C12 (roundtrip). The entropy decoder undoes the coder of a channel: a spectrum that was split at
  any \<open>K\<close> the decoder finds again (there is one for every spectrum, \<open>rice_split_exists\<close>), whose
  two streams were coded by the two adaptive models one after the other, and whose octets
  follow in the frame at any bit, is decoded to the same coefficients, zeros behind them; the
  number of octets reported is that of the octets coded, and the range kept is that of the coder.
  The bound on the symbols of the second stream is the guard of the code against corrupt frames.
\<close>

theorem lhdc_spectrum_roundtrip:
  assumes cs: "\<forall>c \<in> set cs. c < 2 ^ 31" "cs \<noteq> []" "int (length cs) \<le> num"
    and K: "rice_pivot2 (rice_plane1 K 0 cs) (int (length cs)) split = K"
    and n: "length (rice_plane2 K 0 cs) \<le> 16 * length cs"
    and m: "m1 = fac_model_init (s_fac_m0 (lhdc_entropy_alloc_internal e)) FAC_FQ1 (if w1 > 0 then w1 else 256)"
      "m2 = fac_model_init (s_fac_m1 (lhdc_entropy_alloc_internal e)) FAC_FQ2 (if w2 > 0 then w2 else 256)"
    and enc: "enc_syms m2 (rice_plane2 K 0 cs) (enc_syms m1 (rice_plane1 K 0 cs) (0, 2 ^ 32 - 1, 0)) = (low, rng, k)"
    and br: "br_ok br" "8 * (4 + k) \<le> length (br_left br)" "int (4 + k) \<le> cap"
    and v: "low \<le> bits_number (take (8 * (4 + k)) (br_left br))"
      "bits_number (take (8 * (4 + k)) (br_left br)) < low + rng"
  shows "\<exists>e' br'. lhdc_entropy_decode_spectrum_ex2 e num br (int (length cs)) split w1 w2 True buf cap =
      Some (map of_nat cs @ replicate (nat num - length cs) 0, Some (int (4 + k)), e', br') \<and>
    unat (g_fac_final_range e') = rng"
  using assms by (rule spectrum_decoded)


text \<open>A symbol takes at most three octets, so a short spectrum has a short code.\<close>

lemma enc_norm_few: "2 ^ 24 \<le> rng * 256 ^ n \<Longrightarrow> snd (snd (enc_norm (low, rng, k))) \<le> k + n"
proof (induction n arbitrary: low rng k)
  case (Suc n)
  then show ?case
    using Suc.IH [of "rng * 256" "low * 256" "Suc k"] by (simp add: enc_norm.simps [of low rng k] mult.assoc)
qed (simp add: enc_norm.simps)

lemma enc_syms_few:
  assumes "fac_model_ok init m" and "set ss \<subseteq> {0, 1, 2}" and "2 ^ 24 \<le> rng"
  shows "snd (snd (enc_syms m ss (low, rng, k))) \<le> k + 3 * length ss"
  using assms
proof (induction ss arbitrary: m low rng k)
  case (Cons s ss)
  have s: "s < FAC_NSYM" using Cons.prems(2) by auto
  have cum: "cum_ok (fm_cum m)" using Cons.prems(1) by (simp add: fac_model_ok_def)
  obtain l1 r1 k1 where e: "enc_step m s (low, rng, k) = (l1, r1, k1)" by (metis prod_cases3)
  let ?r = "rng div 2 ^ 15 * (unat (fm_cum m ! Suc s) - unat (fm_cum m ! s))"
  have "0 < unat (fm_cum m ! Suc s) - unat (fm_cum m ! s)" using cum_step(1) [OF cum s] by simp
  moreover have "0 < rng div 2 ^ 15" using Cons.prems(3) by (simp add: div_greater_zero_iff)
  ultimately have "1 \<le> ?r" by (simp add: Suc_le_eq)
  then have "2 ^ 24 \<le> ?r * 256 ^ 3" by simp
  from enc_norm_few [OF this, of "low + rng div 2 ^ 15 * unat (fm_cum m ! s)" k] e
  have k1: "k1 \<le> k + 3" by (simp add: enc_step_def Let_def)
  from enc_syms_width [OF Cons.prems(1) _ Cons.prems(3), of "[s]" low k] s e
  have "2 ^ 24 \<le> r1" by (auto simp: less_3)
  from Cons.IH [OF fac_model_update_ok [OF Cons.prems(1) s] _ this, of l1 k1] k1 Cons.prems(2) e
  show ?case by simp
qed simp

lemma br_left_init: "br_left (lhdc_bit_reader_init d n) = map (bit_at d) [0..<8 * unat n]"
  by (simp add: br_left_def br_pos_def lhdc_bit_reader_init_def)

lemma bits_number_octets:
  assumes "v < 256 ^ n"
  shows "bits_number (map (bit_at (be_octets n v)) [0..<8 * n]) = v"
proof -
  have "code_value (be_octets n v) (int n) n = bits_number (take (8 * n) (map (bit_at (be_octets n v)) [0..<8 * n]))"
  proof (rule code_value_left)
    have "take 8 (drop (8 * i) [0..<8 * n]) = [8 * i..<8 * i + 8]" if "i < n" for i
      using that by (simp add: drop_upt take_upt)
    then show "\<forall>i < n. unat (next_octet (be_octets n v) (int n) (int i)) =
        bits_number (take 8 (drop (8 * i) (map (bit_at (be_octets n v)) [0..<8 * n])))"
      by (simp add: next_octet_def take_map drop_map bits_value_octet flip: bits_value_number)
  qed simp
  then show ?thesis using code_value_be_octets [OF assms, of n] by simp
qed

lemma lhdc_spectrum_roundtrip_witness:
  "\<exists>low rng k e' br'. lhdc_entropy_decode_spectrum_ex2
      \<lparr>s_fac_m0 = model_zero 0, s_fac_m1 = model_zero 0, g_fac_final_range = 0\<rparr>
      4 (lhdc_bit_reader_init (be_octets (4 + k) low) (of_nat (4 + k))) 2 0 57 456 True (bytes []) 768 =
      Some ([9, 1, 0, 0], Some (int (4 + k)), e', br') \<and> unat (g_fac_final_range e') = rng"
proof -
  let ?e = "\<lparr>s_fac_m0 = model_zero 0, s_fac_m1 = model_zero 0, g_fac_final_range = 0\<rparr>"
  let ?m1 = "fac_model_init (s_fac_m0 (lhdc_entropy_alloc_internal ?e)) FAC_FQ1 57"
  let ?m2 = "fac_model_init (s_fac_m1 (lhdc_entropy_alloc_internal ?e)) FAC_FQ2 456"
  let ?s1 = "rice_plane1 2 0 [9, 1]" and ?s2 = "rice_plane2 2 0 [9, 1]"
  obtain l1 r1 k1 where e1: "enc_syms ?m1 ?s1 (0, 2 ^ 32 - 1, 0) = (l1, r1, k1)" by (metis prod_cases3)
  obtain low rng k where e: "enc_syms ?m2 ?s2 (l1, r1, k1) = (low, rng, k)" by (metis prod_cases3)
  note ok = fac_models_ok [of ?e]
  have s2: "length ?s2 = 4" by (simp add: rice_syms_def rice_syms_high.simps)
  have w1: "2 ^ 24 \<le> r1" using enc_syms_width [OF ok(1) rice_planes_set(1), of "2 ^ 32 - 1" 57 2 0 "[9, 1]" 0 0]
    unfolding e1 by simp
  have w: "2 ^ 24 \<le> rng" using enc_syms_width [OF ok(2) rice_planes_set(2) w1, of 456 2 0 "[9, 1]" l1 k1]
    unfolding e by simp
  have "k1 \<le> 6" using enc_syms_few [OF ok(1) rice_planes_set(1), of "2 ^ 32 - 1" 57 2 0 "[9, 1]" 0 0]
    unfolding e1 by simp
  then have k: "k \<le> 18" using enc_syms_few [OF ok(2) rice_planes_set(2) w1, of 456 2 0 "[9, 1]" l1 k1]
    unfolding e s2 snd_conv by simp
  have b1: "l1 + r1 \<le> 256 ^ (4 + k1)"
    using enc_syms_bound [OF ok(1) rice_planes_set(1) _ e1] by simp
  have b: "low + rng \<le> 256 ^ (4 + k)"
    using enc_syms_bound [OF ok(2) rice_planes_set(2) b1 e] .
  let ?br = "lhdc_bit_reader_init (be_octets (4 + k) low) (of_nat (4 + k))"
  have u: "unat (of_nat (4 + k) :: u32) = 4 + k" unfolding unat_of_nat using k by simp
  have br: "br_ok ?br" by (intro br_init_ok) (unfold u, use k in simp)
  have left: "br_left ?br = map (bit_at (be_octets (4 + k) low)) [0..<8 * (4 + k)]"
    by (simp only: br_left_init u)
  have v: "bits_number (take (8 * (4 + k)) (br_left ?br)) = low"
  proof -
    have "low < low + rng" using w by (cases rng) simp_all
    also note b
    finally have "low < 256 ^ (4 + k)" .
    from bits_number_octets [OF this] show ?thesis unfolding left by (simp only: take_map take_all length_upt diff_zero order_refl)
  qed
  have cs: "\<forall>c \<in> set [9, 1]. (c :: nat) < 2 ^ 31" "[9, 1 :: nat] \<noteq> []" "int (length [9, 1 :: nat]) \<le> 4"
    by simp_all
  have K: "rice_pivot2 ?s1 (int (length [9, 1 :: nat])) 0 = 2" by (simp add: rice_pivot2_def)
  have n: "length ?s2 \<le> 16 * length [9, 1 :: nat]" unfolding s2 by simp
  have m: "?m1 = fac_model_init (s_fac_m0 (lhdc_entropy_alloc_internal ?e)) FAC_FQ1 (if (57 :: int) > 0 then 57 else 256)"
    "?m2 = fac_model_init (s_fac_m1 (lhdc_entropy_alloc_internal ?e)) FAC_FQ2 (if (456 :: int) > 0 then 456 else 256)"
    by simp_all
  have enc: "enc_syms ?m2 ?s2 (enc_syms ?m1 ?s1 (0, 2 ^ 32 - 1, 0)) = (low, rng, k)" unfolding e1 by (rule e)
  have len: "8 * (4 + k) \<le> length (br_left ?br)" "int (4 + k) \<le> 768"
    unfolding left using k by simp_all
  have iv: "low \<le> bits_number (take (8 * (4 + k)) (br_left ?br))"
    "bits_number (take (8 * (4 + k)) (br_left ?br)) < low + rng" unfolding v using w by simp_all
  from lhdc_spectrum_roundtrip [OF cs K n m enc br len iv, of "bytes []"]
  show ?thesis by (simp add: numeral_2_eq_2 del: of_nat_add) blast
qed

end
