(* ===== verification/Lhdc_Mant.thy ===== *)
theory Lhdc_Mant
  imports Bit_Stream
begin

text \<open>
  external/lhdc-v5/lhdc\_dec.c: the plane of mantissa bits and signs behind the range coder, from
  which the quotients of the entropy decoder become the quantised coefficients. The number of bits
  of a mantissa is predicted from the coefficients before. A 32-bit word is the value of an
  \<open>int32_t\<close>; positions in the plane and widths are natural numbers, the predictor is an integer.
\<close>

subsection \<open>The code\<close>

text \<open>\<open>__builtin_clz\<close>: the leading zeros of a word that is not zero.\<close>

fun bit_length :: "nat \<Rightarrow> nat" where
  "bit_length n = (if n = 0 then 0 else Suc (bit_length (n div 2)))"

declare bit_length.simps [simp del]

definition builtin_clz :: "u32 \<Rightarrow> nat" where
  "builtin_clz u = 32 - bit_length (unat u)"

definition lhdc_dec_calc_bits :: "u32 \<Rightarrow> nat" where
  "lhdc_dec_calc_bits n =
     (let u = (if sint n < 0 then - n else n)
      in if u = 0 then 0
         else let b = 32 - builtin_clz u in if b > 31 then 31 else b)"

text \<open>One bit of the plane, zero behind its end; the position moves on in any case.\<close>

definition mant_bit :: "buf \<Rightarrow> nat \<Rightarrow> nat \<Rightarrow> u32" where
  "mant_bit pl total_bits p =
     (if p < total_bits then ucast (drop_bit (7 - p mod 8) (pl (p div 8)) AND 1) else 0)"

primrec mant_bits :: "buf \<Rightarrow> nat \<Rightarrow> nat \<Rightarrow> u32 \<Rightarrow> nat \<Rightarrow> u32 \<times> nat" where
  "mant_bits pl total_bits 0 mant p = (mant, p)"
| "mant_bits pl total_bits (Suc b) mant p =
     mant_bits pl total_bits b (push_bit 1 mant OR mant_bit pl total_bits p) (p + 1)"

definition mant_word :: "buf \<Rightarrow> nat \<Rightarrow> u32" where
  "mant_word pl byte =
     push_bit 24 (ucast (pl byte)) OR push_bit 16 (ucast (pl (byte + 1))) OR
     push_bit 8 (ucast (pl (byte + 2))) OR ucast (pl (byte + 3))"

definition mant_read :: "buf \<Rightarrow> nat \<Rightarrow> nat \<Rightarrow> nat \<Rightarrow> u32 \<times> nat" where
  "mant_read pl total_bits s p =
     (let byte = p div 8; off = p mod 8
      in if s = 0 then (0, p)
         else if s \<le> 24 \<and> (byte + 4) * 8 \<le> total_bits
         then (drop_bit (32 - s) (push_bit off (mant_word pl byte)), p + s)
         else mant_bits pl total_bits s 0 p)"

text \<open>The loop over the coefficients: the output, the peak and the position behind it.\<close>

fun mant_loop :: "bool \<Rightarrow> buf \<Rightarrow> nat \<Rightarrow> u32 list \<Rightarrow> nat \<Rightarrow> int \<Rightarrow> int \<Rightarrow> u32 list \<times> int \<times> nat" where
  "mant_loop pred_mode pl total_bits [] p pred peak = ([], peak, p)"
| "mant_loop pred_mode pl total_bits (c # coeff) p pred peak =
     (let s = nat (drop_bit 7 (pred + 0x40));
          (mant, p) = mant_read pl total_bits s p;
          mag = push_bit s c OR mant;
          (val, p) =
            (if mag \<noteq> 0
             then (if mant_bit pl total_bits p \<noteq> 0 then - mag else mag, p + 1)
             else (mag, p));
          a = (if sint mag < 0 then - sint mag else sint mag);
          peak = (if a > peak then a else peak);
          x = int (lhdc_dec_calc_bits mag) * 128;
          pred = (if pred_mode then drop_bit 3 (7 * pred + x) else drop_bit 3 (5 * x + 3 * pred));
          (out, peak, p) = mant_loop pred_mode pl total_bits coeff p pred peak
      in (val # out, peak, p))"

definition lhdc_dec_mant_plane ::
    "u32 list \<Rightarrow> buf \<Rightarrow> nat \<Rightarrow> nat \<Rightarrow> bool \<Rightarrow> int \<Rightarrow> u32 list \<times> int" where
  "lhdc_dec_mant_plane coeff pl total_bits start_bit pred_mode init_shift =
     (case mant_loop pred_mode pl total_bits coeff start_bit (init_shift * 128) 0 of
        (out, peak, p) \<Rightarrow> (out, peak))"

subsection \<open>The width of a number\<close>

lemma bit_length_0 [simp]: "bit_length 0 = 0"
  by (simp add: bit_length.simps)

lemma bit_length_bounds: "0 < n \<Longrightarrow> 2 ^ (bit_length n - 1) \<le> n \<and> n < 2 ^ bit_length n \<and> 0 < bit_length n"
proof (induction n rule: bit_length.induct)
  case (1 n)
  show ?case
  proof (cases "n div 2 = 0")
    case True
    with 1(2) have "n = 1" by auto
    then have "bit_length n = 1" by (subst bit_length.simps) simp
    with \<open>n = 1\<close> show ?thesis by simp
  next
    case False
    with 1 have ih: "2 ^ (bit_length (n div 2) - 1) \<le> n div 2" "n div 2 < 2 ^ bit_length (n div 2)"
      "0 < bit_length (n div 2)" by auto
    have b: "bit_length n = Suc (bit_length (n div 2))" using 1(2) by (simp add: bit_length.simps [of n])
    obtain k where k: "bit_length (n div 2) = Suc k" using ih(3) by (cases "bit_length (n div 2)") auto
    from ih(1,2) k have "2 * 2 ^ k \<le> n" "n < 2 * (2 * 2 ^ k)" by simp_all
    with b k show ?thesis by simp
  qed
qed

lemma bit_length_le: "n < 2 ^ k \<Longrightarrow> bit_length n \<le> k"
proof (cases "n = 0")
  case False
  assume n: "n < 2 ^ k"
  from False bit_length_bounds [of n] have "2 ^ (bit_length n - 1) \<le> n" "0 < bit_length n" by auto
  with n have "2 ^ (bit_length n - 1) < (2 :: nat) ^ k" by linarith
  then have "bit_length n - 1 < k" by (rule power_less_imp_less_exp [rotated]) simp
  then show ?thesis by simp
qed simp

text \<open>
  The width computed from the leading zeros is the number of binary digits of the magnitude,
  at most 31: zero for 0, and otherwise the \<open>b\<close> with \<open>2 ^ (b - 1) \<le> |n| < 2 ^ b\<close>, for every
  32-bit integer; only the smallest integer, whose magnitude needs 32, is capped.
\<close>

theorem calc_bits_width:
  "lhdc_dec_calc_bits n = min 31 (bit_length (nat \<bar>sint n\<bar>))"
proof -
  define u where "u = (if sint n < 0 then - n else n)"
  have u: "unat u = nat \<bar>sint n\<bar>"
  proof (cases "sint n < 0")
    case True
    have r: "- 2147483648 \<le> sint n" using sint_greater_eq [of n] by simp
    have "uint (- n) = take_bit 32 (sint (- n))" by (simp add: uint_sint)
    also have "\<dots> = take_bit 32 (- sint n)" by (simp add: sint_word_minus take_bit_signed_take_bit)
    also have "\<dots> = - sint n" using True r by (simp add: take_bit_int_eq_self)
    finally show ?thesis using True by (simp add: u_def unat_eq_nat_uint)
  next
    case False
    have "uint n = take_bit 32 (sint n)" by (simp add: uint_sint)
    also have "\<dots> = sint n" using False sint_less [of n] by (simp add: take_bit_int_eq_self)
    finally show ?thesis using False by (simp add: u_def unat_eq_nat_uint)
  qed
  show ?thesis
  proof (cases "u = 0")
    case True
    with u have "nat \<bar>sint n\<bar> = 0" by simp
    then have "bit_length (nat \<bar>sint n\<bar>) = 0" by (simp only: bit_length_0)
    with True show ?thesis by (simp add: lhdc_dec_calc_bits_def Let_def flip: u_def)
  next
    case False
    have "unat u < 2 ^ 32" using unsigned_less [of u, where 'a = nat] by simp
    then have "bit_length (unat u) \<le> 32" by (rule bit_length_le)
    with False show ?thesis
      by (simp add: lhdc_dec_calc_bits_def Let_def builtin_clz_def min_def u flip: u_def)
  qed
qed


subsection \<open>Reading the plane\<close>

text \<open>The reference: the number that the bits denote, zeros behind the end of the plane.\<close>

definition mant_field :: "buf \<Rightarrow> nat \<Rightarrow> nat \<Rightarrow> nat \<Rightarrow> nat" where
  "mant_field pl total_bits p s = bits_number (map (\<lambda>i. i < total_bits \<and> bit_at pl i) [p..<p + s])"

lemma bits_number_Cons: "bits_number (b # xs) = 2 ^ length xs * of_bool b + bits_number xs"
  using bits_number_append [of "[b]" xs] by (simp add: bits_number_def)

lemma mant_field_Suc:
  "mant_field pl t p (Suc s) = 2 ^ s * of_bool (p < t \<and> bit_at pl p) + mant_field pl t (p + 1) s"
proof -
  have u: "[p..<p + Suc s] = p # [p + 1..<p + 1 + s]" by (simp add: upt_conv_Cons del: upt_Suc)
  show ?thesis unfolding mant_field_def u list.map bits_number_Cons by (simp del: upt_Suc)
qed

lemma mant_bit_eq: "mant_bit pl t p = of_bool (p < t \<and> bit_at pl p)"
proof -
  have "drop_bit k w AND 1 = (of_bool (bit w k) :: u8)" for k and w :: u8
    by (rule bit_word_eqI) (auto simp: bit_simps)
  then show ?thesis by (simp add: mant_bit_def bit_at_def)
qed

lemma push_or_bit: "push_bit 1 (m :: u32) OR of_bool b = 2 * m + of_bool b"
proof -
  have "push_bit 1 m OR of_bool b = push_bit 1 m + of_bool b"
    by (rule disjunctive_add [symmetric]) (auto simp: bit_simps bit_0)
  then show ?thesis by (simp add: push_bit_eq_mult mult.commute)
qed

lemma mant_bits_eq: "mant_bits pl t s (of_nat v) p = (of_nat (v * 2 ^ s + mant_field pl t p s), p + s)"
proof (induction s arbitrary: v p)
  case (Suc s)
  let ?b = "p < t \<and> bit_at pl p"
  have "push_bit 1 (of_nat v) OR mant_bit pl t p = (of_nat (2 * v + of_bool ?b) :: u32)"
    unfolding mant_bit_eq push_or_bit by simp
  then show ?case
    using Suc [of "2 * v + of_bool ?b" "p + 1"] by (simp add: mant_field_Suc algebra_simps del: of_nat_add)
qed (simp add: mant_field_def bits_number_def)

lemma octet_high: "8 \<le> j \<Longrightarrow> \<not> bit (w :: u8) j"
  by (auto dest: bit_imp_le_length)

lemma bit_mant_word: "j < 32 \<Longrightarrow> bit (mant_word pl byte) j \<longleftrightarrow> bit_at pl (8 * byte + (31 - j))"
proof -
  assume j: "j < 32"
  consider "j < 8" | "8 \<le> j" "j < 16" | "16 \<le> j" "j < 24" | "24 \<le> j" using j by linarith
  then show ?thesis
  proof cases
    case 1
    then have e: "31 - j = 24 + (7 - j)" "7 - j < 8" by simp_all
    have "bit_at pl (8 * byte + (24 + (7 - j))) = bit (pl (byte + 3)) j"
      using bit_at_8 [OF e(2), of pl "byte + 3"] 1 by (simp add: algebra_simps)
    with 1 show ?thesis by (simp only: e(1)) (simp add: mant_word_def bit_simps)
  next
    case 2
    then have e: "31 - j = 16 + (15 - j)" "15 - j < 8" by simp_all
    have "bit_at pl (8 * byte + (16 + (15 - j))) = bit (pl (byte + 2)) (j - 8)"
      using bit_at_8 [OF e(2), of pl "byte + 2"] 2 by (simp add: algebra_simps)
    with 2 show ?thesis by (simp only: e(1)) (auto simp: mant_word_def bit_simps octet_high)
  next
    case 3
    then have e: "31 - j = 8 + (23 - j)" "23 - j < 8" by simp_all
    have "bit_at pl (8 * byte + (8 + (23 - j))) = bit (pl (byte + 1)) (j - 16)"
      using bit_at_8 [OF e(2), of pl "byte + 1"] 3 by (simp add: algebra_simps)
    with 3 show ?thesis by (simp only: e(1)) (auto simp: mant_word_def bit_simps octet_high)
  next
    case 4
    then have e: "31 - j < 8" using j by simp
    with bit_at_8 [OF e, of pl byte] 4 j show ?thesis by (auto simp: mant_word_def bit_simps octet_high)
  qed
qed

lemma mant_field_inside: "p + s \<le> t \<Longrightarrow> mant_field pl t p s = bits_value pl p s"
  by (simp add: mant_field_def bits_value_number, rule arg_cong [where f = bits_number]) auto

lemma mant_read_batched:
  assumes "0 < s" and "s \<le> 24"
  shows "drop_bit (32 - s) (push_bit (p mod 8) (mant_word pl (p div 8))) = of_nat (bits_value pl p s)"
proof (rule bit_word_eqI)
  fix k
  assume "k < LENGTH(32)"
  then have k: "k < 32" by simp
  let ?o = "p mod 8"
  have o: "?o < 8" by simp
  have p: "p = 8 * (p div 8) + ?o" by simp
  have "bit (drop_bit (32 - s) (push_bit ?o (mant_word pl (p div 8)))) k \<longleftrightarrow>
      k < s \<and> bit (mant_word pl (p div 8)) (32 - s + k - ?o)"
    using assms k o by (auto simp: bit_simps)
  also have "\<dots> \<longleftrightarrow> k < s \<and> bit_at pl (p + (s - 1 - k))"
  proof (cases "k < s")
    case True
    then have "32 - s + k - ?o < 32" "8 * (p div 8) + (31 - (32 - s + k - ?o)) = p + (s - 1 - k)"
      using assms o p by simp_all
    then show ?thesis by (simp add: bit_mant_word)
  qed simp
  also have "\<dots> \<longleftrightarrow> bit (of_nat (bits_value pl p s) :: u32) k"
    using k by (simp add: bit_of_nat_iff bit_bits_value)
  finally show "bit (drop_bit (32 - s) (push_bit ?o (mant_word pl (p div 8)))) k \<longleftrightarrow>
      bit (of_nat (bits_value pl p s) :: u32) k" .
qed

lemma mant_read_eq: "mant_read pl t s p = (of_nat (mant_field pl t p s), p + s)"
proof (cases "s = 0")
  case True
  then show ?thesis by (simp add: mant_read_def mant_field_def bits_number_def)
next
  case s: False
  show ?thesis
  proof (cases "s \<le> 24 \<and> (p div 8 + 4) * 8 \<le> t")
    case True
    define q r where "q = p div 8" and "r = p mod 8"
    then have "p = 8 * q + r" "r < 8" "p div 8 = q" by simp_all
    with True have "p + s \<le> t" by auto
    with True s show ?thesis
      by (simp add: mant_read_def Let_def mant_read_batched mant_field_inside del: bits_value.simps)
  next
    case False
    with s mant_bits_eq [of pl t s 0 p] show ?thesis by (auto simp: mant_read_def Let_def)
  qed
qed

text \<open>
  Reading a mantissa by one load of four octets and two shifts is reading it bit
  by bit with zeros behind the end of the plane, for every width, position and end: where the code
  takes the fast path all four octets lie in the plane, and both give the number the bits denote.
\<close>

theorem mant_read_is_bit_loop:
  "mant_read pl total_bits s p = mant_bits pl total_bits s 0 p \<and>
    mant_read pl total_bits s p = (of_nat (mant_field pl total_bits p s), p + s)"
  using mant_bits_eq [of pl total_bits s 0 p] by (simp add: mant_read_eq)

subsection \<open>The predictor\<close>

text \<open>The predictor is a weighted mean, so the width never exceeds 31 bits.\<close>

definition pred_ok :: "int \<Rightarrow> bool" where
  "pred_ok pred \<longleftrightarrow> 0 \<le> pred \<and> pred \<le> 31 * 128"

definition pred_next :: "bool \<Rightarrow> int \<Rightarrow> nat \<Rightarrow> int" where
  "pred_next pred_mode pred w =
     (let x = int w * 128 in if pred_mode then (7 * pred + x) div 8 else (5 * x + 3 * pred) div 8)"

lemma pred_next_ok: "pred_ok pred \<Longrightarrow> w \<le> 31 \<Longrightarrow> pred_ok (pred_next m pred w)"
  by (auto simp: pred_ok_def pred_next_def Let_def)

lemma pred_shift: "pred_ok pred \<Longrightarrow> nat ((pred + 64) div 128) \<le> 31"
  by (auto simp: pred_ok_def)

lemma calc_bits_le: "lhdc_dec_calc_bits n \<le> 31"
  by (simp add: lhdc_dec_calc_bits_def Let_def)

lemma drop_bit_ints: "drop_bit 7 (x :: int) = x div 128" "drop_bit 3 (x :: int) = x div 8"
  by (simp_all add: drop_bit_eq_div)

lemma mant_loop_Cons:
  "mant_loop m pl t (c # cs) p pred peak =
     (let s = nat ((pred + 64) div 128);
          mag = push_bit s c OR of_nat (mant_field pl t p s);
          neg = (p + s < t \<and> bit_at pl (p + s));
          val = (if mag \<noteq> 0 \<and> neg then - mag else mag);
          p' = (if mag \<noteq> 0 then p + s + 1 else p + s);
          (out, peak', q) = mant_loop m pl t cs p' (pred_next m pred (lhdc_dec_calc_bits mag))
            (max peak \<bar>sint mag\<bar>)
      in (val # out, peak', q))"
proof -
  have a: "(if (if sint x < 0 then - sint x else sint x) > y then if sint x < 0 then - sint x else sint x else y) =
      max y \<bar>sint x\<bar>" for x :: u32 and y
    by (auto simp: max_def)
  show ?thesis
    unfolding mant_loop.simps mant_read_eq mant_bit_eq pred_next_def Let_def prod.case drop_bit_ints a
    by (simp split: prod.split if_splits)
qed

declare mant_loop.simps(2) [simp del]

text \<open>
  The plane of one channel is never read outside its slice: for every content,
  position, seed of the predictor and mode, the coefficients and the peak depend only on the octets
  of the slice, also when the bits of the plane run out.
\<close>

theorem mant_plane_in_slice:
  assumes "buf_agree n pl pl'"
  shows "lhdc_dec_mant_plane coeff pl (8 * n) start m init = lhdc_dec_mant_plane coeff pl' (8 * n) start m init"
proof -
  have f: "mant_field pl (8 * n) p s = mant_field pl' (8 * n) p s" for p s
    unfolding mant_field_def using bit_at_agree [OF assms(1)]
    by (intro arg_cong [where f = bits_number] map_cong) auto
  have b: "(q < 8 * n \<and> bit_at pl q) = (q < 8 * n \<and> bit_at pl' q)" for q
    using bit_at_agree [OF assms(1)] by blast
  have "mant_loop m pl (8 * n) coeff p pred peak = mant_loop m pl' (8 * n) coeff p pred peak" for p pred peak
    by (induction coeff arbitrary: p pred peak) (simp_all add: mant_loop_Cons f b Let_def)
  then show ?thesis by (simp add: lhdc_dec_mant_plane_def)
qed

lemma mant_plane_in_slice_witness:
  "lhdc_dec_mant_plane [1, 0, 2] (bytes [0x5A, 0x13]) (8 * 2) 3 True 4 =
    lhdc_dec_mant_plane [1, 0, 2] (bytes [0x5A, 0x13, 0xFF]) (8 * 2) 3 True 4"
  by (rule mant_plane_in_slice) (simp_all add: buf_agree_iff bytes_def less_Suc_eq numeral_2_eq_2)

subsection \<open>The coder of the plane\<close>

text \<open>
  What the encoder has to write: for each coefficient the high part of its magnitude for the
  range coder and the low bits, and a sign unless it is zero, for the plane.
\<close>

fun mant_encode :: "bool \<Rightarrow> int list \<Rightarrow> int \<Rightarrow> nat list \<times> bool list" where
  "mant_encode m [] pred = ([], [])"
| "mant_encode m (v # vs) pred =
     (let s = nat ((pred + 64) div 128);
          a = nat \<bar>v\<bar>;
          (cs, bs) = mant_encode m vs (pred_next m pred (min 31 (bit_length a)))
      in (a div 2 ^ s # cs, to_bits s (a mod 2 ^ s) @ (if v = 0 then [] else [v < 0]) @ bs))"

text \<open>Bits that lie in the plane from a position on.\<close>

definition bits_in :: "buf \<Rightarrow> nat \<Rightarrow> nat \<Rightarrow> bool list \<Rightarrow> bool" where
  "bits_in pl t p bs \<longleftrightarrow> p + length bs \<le> t \<and> map (bit_at pl) [p..<p + length bs] = bs"

lemma bits_in_append: "bits_in pl t p (xs @ ys) \<longleftrightarrow> bits_in pl t p xs \<and> bits_in pl t (p + length xs) ys"
proof -
  have "[p..<p + (length xs + length ys)] = [p..<p + length xs] @ [p + length xs..<p + length xs + length ys]"
    using upt_add_eq_append [of p "p + length xs" "length ys"] by (simp add: add.assoc)
  then show ?thesis by (auto simp: bits_in_def append_eq_append_conv)
qed

lemma bits_in_field: "bits_in pl t p bs \<Longrightarrow> mant_field pl t p (length bs) = bits_number bs"
  by (simp add: bits_in_def mant_field_inside bits_value_number)

lemma bits_in_one: "bits_in pl t p [b] \<longleftrightarrow> p < t \<and> bit_at pl p = b"
  by (auto simp: bits_in_def)

lemma sint_of_nat_small: "a < 2 ^ 31 \<Longrightarrow> sint (of_nat a :: u32) = int a"
proof -
  assume "a < 2 ^ 31"
  then have "signed_take_bit 31 (int a) = int a" by (intro signed_take_bit_int_eq_self) simp_all
  then show ?thesis using sint_sbintrunc' [of "int a", where 'a = 32] by simp
qed

lemma mant_loop_encoded:
  assumes "\<forall>v \<in> set vs. \<bar>v\<bar> < 2 ^ 31" and "pred_ok pred" and "mant_encode m vs pred = (cs, bs)"
    and "bits_in pl t p bs"
  shows "mant_loop m pl t (map of_nat cs) p pred peak =
    (map of_int vs, fold (\<lambda>v k. max k \<bar>v\<bar>) vs peak, p + length bs)"
  using assms
proof (induction vs arbitrary: pred cs bs p peak)
  case (Cons v vs)
  define s where "s = nat ((pred + 64) div 128)"
  define a where "a = nat \<bar>v\<bar>"
  define w where "w = min 31 (bit_length a)"
  obtain cs' bs' where e: "mant_encode m vs (pred_next m pred w) = (cs', bs')" by fastforce
  let ?lo = "to_bits s (a mod 2 ^ s)" and ?sg = "if v = 0 then [] else [v < 0]"
  from Cons.prems(3) have cs: "cs = a div 2 ^ s # cs'" and bs: "bs = ?lo @ ?sg @ bs'"
    by (simp_all add: Let_def e flip: s_def a_def w_def)
  have "\<bar>v\<bar> < 2 ^ 31" using Cons.prems(1) by simp
  then have a31: "a < 2 ^ 31" by (simp add: a_def)
  have mag: "push_bit s (of_nat (a div 2 ^ s)) OR of_nat (a mod 2 ^ s) = (of_nat a :: u32)"
  proof -
    have "a mod 2 ^ s < 2 ^ 31" "a mod 2 ^ s < 2 ^ s" using a31 by (auto intro: le_less_trans [OF mod_less_eq_dividend])
    then have u: "unat (of_nat (a mod 2 ^ s) :: u32) = a mod 2 ^ s" by (simp add: unat_of_nat)
    have "a mod 2 ^ s + a div 2 ^ s * 2 ^ s < 2 ^ 32" using a31 unfolding mod_div_mult_eq by simp
    then have "unat (of_nat (a mod 2 ^ s) OR push_bit s (of_nat (a div 2 ^ s)) :: u32) = a mod 2 ^ s + a div 2 ^ s * 2 ^ s"
      by (subst unat_or_push) (simp_all only: u, simp_all)
    also have "\<dots> = a" by (rule mod_div_mult_eq)
    finally show ?thesis using a31 by (simp add: word_unat_eq_iff unat_of_nat or.commute)
  qed
  have b: "bits_in pl t p ?lo" "bits_in pl t (p + s) ?sg" "bits_in pl t (p + s + length ?sg) bs'"
    using Cons.prems(4) unfolding bs bits_in_append by simp_all
  have f: "mant_field pl t p s = a mod 2 ^ s"
    using bits_in_field [OF b(1)] by (simp add: bits_number_to_bits)
  have si: "sint (of_nat a :: u32) = \<bar>v\<bar>" using sint_of_nat_small [OF a31] by (simp add: a_def)
  have z: "(of_nat a :: u32) = 0 \<longleftrightarrow> v = 0"
  proof -
    have "sint (of_nat a :: u32) = 0" if "(of_nat a :: u32) = 0" unfolding that by simp
    then show ?thesis unfolding si by (auto simp: a_def)
  qed
  have cb: "lhdc_dec_calc_bits (of_nat a) = w" unfolding calc_bits_width si by (simp add: w_def a_def)
  have sign: "v \<noteq> 0 \<Longrightarrow> (p + s < t \<and> bit_at pl (p + s)) \<longleftrightarrow> v < 0" using b(2) by (simp add: bits_in_one)
  have val: "(if (of_nat a :: u32) \<noteq> 0 \<and> p + s < t \<and> bit_at pl (p + s) then - of_nat a else of_nat a) = (of_int v :: u32)"
  proof (cases "v = 0")
    case True
    then show ?thesis by (simp add: a_def)
  next
    case False
    then show ?thesis using sign [OF False] z by (auto simp: a_def)
  qed
  have len: "p + length bs = p + s + length ?sg + length bs'" by (simp add: bs)
  have w: "w \<le> 31" by (simp add: w_def)
  from Cons.IH [OF _ pred_next_ok [OF Cons.prems(2) w] e b(3), of "max peak \<bar>v\<bar>"] Cons.prems(1)
  have ih: "mant_loop m pl t (map of_nat cs') (p + s + length ?sg) (pred_next m pred w) (max peak \<bar>v\<bar>) =
      (map of_int vs, fold (\<lambda>v k. max k \<bar>v\<bar>) vs (max peak \<bar>v\<bar>), p + length bs)"
    unfolding len by simp
  have p': "(if (of_nat a :: u32) \<noteq> 0 then p + s + 1 else p + s) = p + s + length ?sg" using z by simp
  show ?case
    unfolding cs list.map mant_loop_Cons Let_def s_def [symmetric] f mag cb val p' si abs_abs ih prod.case by simp
qed (simp add: bits_in_def)

lemma mant_plane_decoded:
  assumes "\<forall>v \<in> set vs. \<bar>v\<bar> < 2 ^ 31" and "0 \<le> init" and "init \<le> 31"
    and "mant_encode m vs (init * 128) = (cs, bs)" and "bits_in pl total_bits start bs"
  shows "lhdc_dec_mant_plane (map of_nat cs) pl total_bits start m init =
    (map of_int vs, fold (\<lambda>v k. max k \<bar>v\<bar>) vs 0)"
proof -
  have "pred_ok (init * 128)" using assms(2,3) by (simp add: pred_ok_def)
  from mant_loop_encoded [OF assms(1) this assms(4,5)] show ?thesis by (simp add: lhdc_dec_mant_plane_def)
qed

text \<open>
  C21 (roundtrip). The plane gives back the quantised coefficients: for every sequence of 32-bit
  coefficients, both predictors and every seed up to 31 bits, the coefficients whose high parts came
  through the range coder and whose low bits and signs lie in the slice at the given position
  are decoded exactly, and the peak reported is the largest magnitude.
\<close>

theorem mant_plane_roundtrip:
  assumes "\<forall>v \<in> set vs. \<bar>v\<bar> < 2 ^ 31" and "0 \<le> init" and "init \<le> 31"
    and "mant_encode m vs (init * 128) = (cs, bs)" and "bits_in pl total_bits start bs"
  shows "lhdc_dec_mant_plane (map of_nat cs) pl total_bits start m init =
    (map of_int vs, fold (\<lambda>v k. max k \<bar>v\<bar>) vs 0)"
  using assms by (rule mant_plane_decoded)

lemma mant_plane_roundtrip_witness:
  "lhdc_dec_mant_plane (map of_nat [1, 0, 0]) (bytes [0xB4, 0x00]) 16 0 False 2 =
    (map of_int [-6, 5, 0], fold (\<lambda>v k. max k \<bar>v\<bar>) [-6, 5, 0] 0)"
proof -
  have b: "bit_length 6 = 3" "bit_length 5 = 3" by (simp_all add: bit_length.simps)
  have to_bits: "to_bits 2 v = [odd (v div 2), odd v]" "to_bits 3 v = [odd (v div 2 div 2), odd (v div 2), odd v]" for v
    by (simp_all add: numeral_eq_Suc)
  have e: "mant_encode False [-6, 5, 0] (2 * 128) =
      ([1, 0, 0], [True, False, True, True, False, True, False, False, False, False])"
    by (simp add: pred_next_def b to_bits)
  have "bits_in (bytes [0xB4, 0x00]) 16 0 [True, False, True, True, False, True, False, False, False, False]"
    by (simp add: bits_in_def bit_at_def bytes_def upt_rec)
  from mant_plane_roundtrip [OF _ _ _ e this] show ?thesis by simp
qed

end
