(* ===== verification/Lhdc_Channel.thy ===== *)
theory Lhdc_Channel
  imports Lhdc_Frame Lhdc_Rice Lhdc_Mant
begin

text \<open>
  external/lhdc-v5/lhdc\_dec.c: \<open>lhdc_dec_decode_channel\<close> from the slice of a channel in the payload to
  the quantised spectrum in the order of the bins. It composes the head of the channel, the reader
  of its bits, the side information, the entropy decoder and the plane of the mantissas; the
  inverse quantisation and the synthesis behind it are floats and not modelled. The code behind
  \<open>LHDC_HOST_BUILD\<close> is not compiled for the device, and the traces are left out.
\<close>

subsection \<open>The slice and its head\<close>

definition channel_slice :: "lhdc_decoder \<Rightarrow> nat \<Rightarrow> nat \<times> int" where
  "channel_slice dec channel =
     (let hdr = dc_header dec;
          enc_frame_len = unat (fh_frame_bytes hdr);
          n_ch = (if unat (fh_channels hdr) < 1 then 1 else unat (fh_channels hdr));
          ch0_bytes = enc_frame_len div n_ch;
          ch_start = channel * ch0_bytes
      in (ch_start, if channel + 1 < n_ch then int ch0_bytes else int enc_frame_len - int ch_start))"

text \<open>Storing from an offset on, the other way round than \<open>buf_from\<close>.\<close>

definition buf_put :: "buf \<Rightarrow> nat \<Rightarrow> buf \<Rightarrow> buf" where
  "buf_put b start c = (\<lambda>i. if i < start then b i else c (i - start))"

definition channel_head :: "lhdc_decoder \<Rightarrow> nat \<Rightarrow> int \<Rightarrow> int \<Rightarrow> lhdc_decoder" where
  "channel_head dec ch_start ch_bytes force_sel =
     (let cb = buf_from (dc_payload_buf dec) ch_start;
          avail = unat (of_int ch_bytes :: u32)
      in if force_sel < 0
         then let dec = (if ch_bytes \<ge> 9
                         then dec\<lparr>dc_hdr_save := memcpy (dc_hdr_save dec) cb 8, dc_hdr_saved_start := int ch_start\<rparr>
                         else dec)
              in dec\<lparr>dc_payload_buf := buf_put (dc_payload_buf dec) ch_start (lhdc_descramble_inplace cb avail)\<rparr>
         else let cb = (if dc_hdr_saved_start dec = int ch_start then memcpy cb (dc_hdr_save dec) 8 else cb)
              in dec\<lparr>dc_payload_buf := buf_put (dc_payload_buf dec) ch_start
                       (lhdc_descramble_inplace_sel cb avail (nat force_sel))\<rparr>)"

subsection \<open>The leading section\<close>

text \<open>
  The bits in front of the range coder. The result is the status, the decoder with the reader
  moved on and the side information stored, the mode of the predictor and its seed.
\<close>

definition channel_leading :: "lhdc_decoder \<Rightarrow> lhdc_dec_ret_t \<times> lhdc_decoder \<times> bool \<times> int" where
  "channel_leading dec =
     (let num_sfb = int (bc_num_sfb (dc_band_cfg dec));
          num_coeffs = int (bc_mdct_size (dc_band_cfg dec) div 2);
          enc_frame_len = unat (fh_frame_bytes (dc_header dec));
          (flag, br) = lhdc_bit_reader_read (dc_bit_reader dec) 1
      in if flag \<noteq> 0 then (LHDC_DEC_BITSTREAM_ERROR, dec\<lparr>dc_bit_reader := br\<rparr>, False, 0)
         else
           let (gain, br) = lhdc_bit_reader_read br 9;
               sns = (dc_sns_params dec)\<lparr>sp_global_gain := int (unat gain)\<rparr>;
               (ret, br, sns) = lhdc_sns_decode_params br sns num_sfb
           in if ret \<noteq> LHDC_DEC_OK then (ret, dec\<lparr>dc_bit_reader := br, dc_sns_params := sns\<rparr>, False, 0)
              else
                let nzc_bits = int (lhdc_dec_calc_bits (ucast (fh_samples_per_channel (dc_header dec)))) - 1;
                    nzc_bits = (if nzc_bits < 1 then 7 else nzc_bits);
                    (nzc_raw, br) = lhdc_bit_reader_read br nzc_bits;
                    nzc = (int (unat nzc_raw) + 1) * 2;
                    nzc = (if nzc > num_coeffs then num_coeffs else nzc);
                    sns = sns\<lparr>sp_nzc := nzc\<rparr>;
                    (flag2, br) = lhdc_bit_reader_read br 1;
                    resid_bits = (if enc_frame_len \<ge> 320 then 4 else 0);
                    (resid, br) = (if resid_bits \<noteq> 0 then lhdc_bit_reader_read br resid_bits else (0, br))
                in (LHDC_DEC_OK, dec\<lparr>dc_bit_reader := br, dc_sns_params := sns\<rparr>, flag2 \<noteq> 0, int (unat resid)))"

subsection \<open>Where the plane of the mantissas begins\<close>

definition mant_best_delta :: "u32 \<Rightarrow> int" where
  "mant_best_delta final_range = (if final_range \<le> 0x2000000 then 2 else 3)"

text \<open>The decoding of the plane, with the second attempt at the other distance for a desynchronised plane.\<close>

definition channel_mant ::
    "u32 list \<Rightarrow> buf \<Rightarrow> nat \<Rightarrow> int \<Rightarrow> int \<Rightarrow> u32 \<Rightarrow> bool \<Rightarrow> int \<Rightarrow> u32 list" where
  "channel_mant coeff pl total_bits fac_start_bit fac_bytes final_range pred_mode resid_val =
     (let plane = (\<lambda>delta.
            let fr = fac_bytes - delta; fr = (if fr < 0 then 0 else fr)
            in lhdc_dec_mant_plane coeff pl total_bits (nat (fac_start_bit + fr * 8)) pred_mode resid_val);
          best_delta = mant_best_delta final_range;
          (qs, pk) = plane best_delta
      in if pk > 2 ^ 26
         then let other = (if best_delta = 2 then 3 else 2);
                  (qs2, pk2) = plane other
              in if pk2 \<ge> pk then fst (plane best_delta) else qs2
         else qs)"

text \<open>The bins are sent in reversed order: two indices exchange the values until they meet.\<close>

function channel_reverse :: "'a list \<Rightarrow> int \<Rightarrow> int \<Rightarrow> 'a list" where
  "channel_reverse qs a b =
     (if a < b then channel_reverse (qs[nat a := qs ! nat b, nat b := qs ! nat a]) (a + 1) (b - 1) else qs)"
  by pat_completeness auto
termination
  by (relation "measure (\<lambda>(qs, a, b). nat (b - a))") auto

declare channel_reverse.simps [simp del]

text \<open>The largest magnitude, negated at the width of an \<open>int32_t\<close>.\<close>

definition channel_maxM :: "u32 list \<Rightarrow> int" where
  "channel_maxM qs =
     fold (\<lambda>q mx. let a = sint (if sint q < 0 then - q else q) in if a > mx then a else mx) qs 0"

subsection \<open>Decoding a channel\<close>

text \<open>
  The last component is the array of the quantised spectrum. \<open>fac_buf\<close> is what the scratch array
  for the octets of the range coder holds before; an option is returned because the decoding of
  a symbol is one in \<open>Lhdc_Fac\<close>.
\<close>

definition lhdc_dec_decode_channel ::
    "lhdc_entropy \<Rightarrow> lhdc_decoder \<Rightarrow> buf \<Rightarrow> nat \<Rightarrow> int \<Rightarrow>
      (lhdc_dec_ret_t \<times> lhdc_decoder \<times> lhdc_entropy \<times> u32 list) option" where
  "lhdc_dec_decode_channel e dec fac_buf channel force_sel =
     (let band_cfg = dc_band_cfg dec;
          num_coeffs = bc_mdct_size band_cfg div 2;
          (ch_start, ch_bytes) = channel_slice dec channel;
          dec = channel_head dec ch_start ch_bytes force_sel;
          pl = buf_from (dc_payload_buf dec) ch_start;
          dec = dec\<lparr>dc_bit_reader := lhdc_bit_reader_init pl (of_int ch_bytes)\<rparr>;
          (ret, dec, pred_mode, resid_val) = channel_leading dec
      in if ret \<noteq> LHDC_DEC_OK then Some (ret, dec, e, [])
         else
           let nzc = sp_nzc (dc_sns_params dec);
               fac_start_bit = int (unat (lhdc_bit_reader_tell (dc_bit_reader dec)));
               split = num_coeffs div 3
           in do {
             (qs, fac_bytes, e, br) \<leftarrow>
               lhdc_entropy_decode_spectrum_ex2 e (int num_coeffs) (dc_bit_reader dec) nzc (int split)
                 (bc_ma_win1 band_cfg) (bc_ma_win2 band_cfg) True fac_buf 768;
             let fac_bytes = (case fac_bytes of None \<Rightarrow> 0 | Some n \<Rightarrow> n);
             let cnt = nat (if nzc > int num_coeffs then int num_coeffs else nzc);
             let qs = channel_mant (take cnt qs) pl (nat (ch_bytes * 8)) fac_start_bit fac_bytes
               (g_fac_final_range e) pred_mode resid_val @ replicate (num_coeffs - cnt) 0;
             let dec = dec\<lparr>dc_bit_reader := br, dc_chan_maxM := channel_maxM (take cnt qs)\<rparr>;
             Some (LHDC_DEC_OK, dec, e, channel_reverse qs 0 (int cnt - 1))
           })"

subsection \<open>The distance of the plane\<close>

text \<open>
  The number whose octets the coder writes: the upper ends of the smallest block of \<open>d\<close> free octets
  at or behind \<open>low\<close>.
\<close>

definition block_above :: "nat \<Rightarrow> nat \<Rightarrow> nat" where
  "block_above d low = (low + 256 ^ d - 1) div 256 ^ d"

lemma block_above_bounds: "low \<le> block_above d low * 256 ^ d" "block_above d low * 256 ^ d < low + 256 ^ d"
proof -
  let ?B = "256 ^ d :: nat" and ?v = "block_above d low"
  have B: "0 < ?B" by simp
  have "(low + ?B - 1) mod ?B + ?v * ?B = low + ?B - 1" unfolding block_above_def by (rule mod_div_mult_eq)
  moreover have "(low + ?B - 1) mod ?B < ?B" using B by (rule mod_less_divisor)
  ultimately show "low \<le> ?v * ?B" "?v * ?B < low + ?B" using B by linarith+
qed

lemma range_rule_block:
  assumes "2 ^ 24 \<le> unat r" and "d = nat (mant_best_delta r)" and "t < 256 ^ d"
  shows "low \<le> block_above d low * 256 ^ d + t" and "block_above d low * 256 ^ d + t < low + unat r"
proof -
  have "2 * 256 ^ d \<le> unat r + 1"
  proof (cases "r \<le> 0x2000000")
    case True
    then have "d = 2" using assms(2) by (simp add: mant_best_delta_def)
    then show ?thesis using assms(1) by simp
  next
    case False
    then have "d = 3" "33554432 < unat r" using assms(2) by (simp_all add: mant_best_delta_def word_le_nat_alt)
    then show ?thesis by simp
  qed
  moreover define B where "B = (256 :: nat) ^ d"
  moreover define V where "V = block_above d low * B"
  ultimately have "2 * B \<le> unat r + 1" "low \<le> V" "V < low + B" "t < B"
    using block_above_bounds(1) [of low d] block_above_bounds(2) [of d low] assms(3) by simp_all
  then have "low \<le> V + t" "V + t < low + unat r" by linarith+
  then show "low \<le> block_above d low * 256 ^ d + t" "block_above d low * 256 ^ d + t < low + unat r"
    by (simp_all add: V_def B_def)
qed

text \<open>
  The rule that finds the plane of the mantissas behind the range coder is sound: for every
  interval a coder can end with, the octets that are dropped, two when the final range is at most
  2 to the 25 and three else, are free. There is a number such that, whatever bits of the
  plane stand in their place, the number read from the frame lies in the interval.
\<close>

theorem arith_stop_rule:
  assumes "2 ^ 24 \<le> unat r" and "d = nat (mant_best_delta r)"
  shows "\<exists>v. \<forall>t < 256 ^ d. low \<le> v * 256 ^ d + t \<and> v * 256 ^ d + t < low + unat r"
  using range_rule_block [OF assms] by blast

lemma arith_stop_rule_witness:
  "mant_best_delta 0x2000001 = 3 \<and>
    (\<exists>v. \<forall>t < 256 ^ 3. 1000 \<le> v * 256 ^ 3 + t \<and> v * 256 ^ 3 + t < 1000 + unat (0x2000001 :: u32))"
  using arith_stop_rule [where r = "0x2000001" and d = 3 and low = 1000] by (simp add: mant_best_delta_def)

subsection \<open>Slices\<close>

lemma buf_from_put: "buf_from (buf_put b start c) start = c"
  by (simp add: buf_from_def buf_put_def)

lemma channel_head_auto:
  assumes "buf_from (dc_payload_buf dec) start = lhdc_scramble (unat (b 8 AND 1)) b" and "9 \<le> n" and "n < 2 ^ 31"
  shows "buf_from (dc_payload_buf (channel_head dec start (int n) (- 1))) start = b"
    and "dc_band_cfg (channel_head dec start (int n) (- 1)) = dc_band_cfg dec"
    and "dc_header (channel_head dec start (int n) (- 1)) = dc_header dec"
    and "dc_sns_params (channel_head dec start (int n) (- 1)) = dc_sns_params dec"
proof -
  have u: "unat (of_nat n :: u32) = n" unfolding unat_of_nat using assms(3) by simp
  have "lhdc_scramble (unat (b 8 AND 1)) b 8 = b 8" by (simp add: lhdc_scramble_def)
  then have "lhdc_descramble_inplace (lhdc_scramble (unat (b 8 AND 1)) b) n = b"
    using assms(2) by (simp add: lhdc_descramble_inplace_def descramble_scramble)
  then show "buf_from (dc_payload_buf (channel_head dec start (int n) (- 1))) start = b"
    using assms(2) by (simp add: channel_head_def Let_def u assms(1) buf_from_put)
qed (simp_all add: channel_head_def Let_def)

text \<open>The slices of the channels follow one another and fill the payload.\<close>

lemma channel_slice_Suc:
  assumes "channel_slice dec channel = (start, n)" and "channel + 1 < unat (fh_channels (dc_header dec))"
  shows "fst (channel_slice dec (channel + 1)) = start + nat n" and "0 \<le> n"
  using assms by (auto simp: channel_slice_def Let_def)

subsection \<open>The reader at a field\<close>

lemma refill_bytes [simp]: "br_data_bytes (lhdc_bit_reader_refill n br) = br_data_bytes br"
proof (induction n br rule: lhdc_bit_reader_refill.induct)
  case (1 n br)
  show ?case
    by (subst lhdc_bit_reader_refill.simps) (simp add: 1)
qed

lemma read_bytes [simp]: "br_data_bytes (snd (lhdc_bit_reader_read br n)) = br_data_bytes br"
  by (simp add: lhdc_bit_reader_read_def Let_def)

lemma read_many_bytes:
  "br_data_bytes (snd (read_many (\<lambda>br. map_prod f id (lhdc_bit_reader_read br n)) k br)) = br_data_bytes br"
  by (induction k arbitrary: br) (simp_all add: case_prod_unfold map_prod_def)

lemma sns_bytes: "lhdc_sns_decode_params br ps n = (ret, br', ps') \<Longrightarrow> br_data_bytes br' = br_data_bytes br"
  using read_many_bytes [of unat "int 1" "nat n - 1" "snd (lhdc_bit_reader_read br 4)"]
  by (auto simp: lhdc_sns_decode_params_def Let_def case_prod_unfold split: if_splits)

lemma br_pos_left:
  assumes "br_ok br"
  shows "br_pos br = 8 * unat (br_data_bytes br) - length (br_left br)"
proof -
  have "br_holds br" using assms by (simp add: br_ok_def)
  from br_pos_end [OF this] show ?thesis by (simp add: length_br_left)
qed

text \<open>A field that stands in front is read, and the rest is left.\<close>

lemma read_front:
  assumes "br_ok br" and "br_left br = xs @ ys" and "length xs = n" and "n \<le> 32"
  obtains w br' where "lhdc_bit_reader_read br (int n) = (w, br')" and "unat w = bits_number xs"
    and "br_ok br'" and "br_left br' = ys" and "br_data_bytes br' = br_data_bytes br"
proof -
  obtain w br' where r: "lhdc_bit_reader_read br (int n) = (w, br')" by fastforce
  from lhdc_read_queue [OF assms(1), of "int n"] assms(2-4) read_bytes [of br "int n"]
  show thesis by (intro that [OF r]) (simp_all add: r)
qed

lemma bit_fields_one: "bit_fields 1 (length bs) (bs @ ys) = map of_bool bs"
  by (induction bs) (simp_all add: bits_number_def)

subsection \<open>The leading section\<close>

text \<open>What stands in front of the range coder; \<open>slow\<close> is the mode of the predictor.\<close>

definition channel_head_bits :: "nat \<Rightarrow> nat \<Rightarrow> nat \<Rightarrow> nat \<Rightarrow> bool list \<Rightarrow> nat \<Rightarrow> bool \<Rightarrow> nat \<Rightarrow> bool list" where
  "channel_head_bits len w gain mode side raw slow resid =
     [False] @ to_bits 9 gain @ to_bits 4 mode @ side @ to_bits w raw @ [slow] @
     (if 320 \<le> len then to_bits 4 resid else [])"

lemma bits_number_one: "bits_number [b] = of_bool b"
  by (simp add: bits_number_def)

lemma unat_of_bool: "unat w = of_bool b \<Longrightarrow> (w \<noteq> 0) = b"
  by (cases b) (auto simp: unat_eq_0)

text \<open>The envelope that the side bits of a mode give.\<close>

definition channel_envelope :: "nat \<Rightarrow> nat \<Rightarrow> bool list \<Rightarrow> int list" where
  "channel_envelope n mode side =
     (if mode = 15 then replicate LHDC_DEC_MAX_SFB 0
      else map (sns_envelope (0 # sns_adsq 1 (map of_bool side) (int mode + 8) 1 (-1) 0) n) [0..<n])"

lemma channel_leading_bits:
  assumes br: "br_ok (dc_bit_reader dec)"
      "br_left (dc_bit_reader dec) = channel_head_bits len w gain mode side raw slow resid @ rest"
    and cfg: "cfg = dc_band_cfg dec" "4 \<le> bc_num_sfb cfg" "bc_num_sfb cfg \<le> LHDC_DEC_MAX_SFB"
    and head: "len = unat (fh_frame_bytes (dc_header dec))"
      "w = lhdc_dec_calc_bits (ucast (fh_samples_per_channel (dc_header dec))) - 1" "1 \<le> w"
    and flds: "gain < 512" "mode < 16" "Suc (length side) = bc_num_sfb cfg" "raw < 2 ^ w" "resid < 16"
      "len < 320 \<longrightarrow> resid = 0" "2 * (raw + 1) \<le> bc_mdct_size cfg div 2"
    and ps: "length (sp_scale_factors (dc_sns_params dec)) = LHDC_DEC_MAX_SFB"
  shows "\<exists>br' ps'. channel_leading dec = (LHDC_DEC_OK, dec\<lparr>dc_bit_reader := br', dc_sns_params := ps'\<rparr>, slow, int resid) \<and>
    br_ok br' \<and> br_left br' = rest \<and> br_data_bytes br' = br_data_bytes (dc_bit_reader dec) \<and>
    sp_global_gain ps' = int gain \<and> sp_nzc ps' = 2 * (int raw + 1) \<and>
    take (bc_num_sfb cfg) (sp_scale_factors ps') = take (bc_num_sfb cfg) (channel_envelope (bc_num_sfb cfg) mode side)"
proof -
  let ?n = "bc_num_sfb cfg" and ?fl = "if 320 \<le> len then to_bits 4 resid else []"
  have left: "br_left (dc_bit_reader dec) =
      [False] @ to_bits 9 gain @ to_bits 4 mode @ side @ to_bits w raw @ [slow] @ ?fl @ rest"
    by (simp add: br(2) channel_head_bits_def)
  obtain f br1 where r1: "lhdc_bit_reader_read (dc_bit_reader dec) 1 = (f, br1)" "f = 0" "br_ok br1"
      "br_left br1 = to_bits 9 gain @ to_bits 4 mode @ side @ to_bits w raw @ [slow] @ ?fl @ rest"
      "br_data_bytes br1 = br_data_bytes (dc_bit_reader dec)"
    by (rule read_front [OF br(1) left, of 1]) (simp_all add: bits_number_one unat_eq_0)
  obtain g br2 where r2: "lhdc_bit_reader_read br1 9 = (g, br2)" "unat g = gain" "br_ok br2"
      "br_left br2 = to_bits 4 mode @ side @ to_bits w raw @ [slow] @ ?fl @ rest"
      "br_data_bytes br2 = br_data_bytes br1"
    by (rule read_front [OF r1(3,4), of 9]) (use flds(1) in \<open>simp_all add: bits_number_to_bits\<close>)
  let ?ps = "dc_sns_params dec\<lparr>sp_global_gain := int (unat g)\<rparr>"
  have side: "bit_fields 1 (?n - 1) (drop 4 (br_left br2)) = map of_bool side"
  proof -
    have "?n - 1 = length side" using flds(3) by simp
    then show ?thesis using bit_fields_one [of side] by (simp add: r2(4))
  qed
  have mode: "int (bits_number (take 4 (br_left br2))) + 8 = int mode + 8"
    using flds(2) by (simp add: r2(4) bits_number_to_bits)
  have l: "?n + 3 \<le> length (br_left br2)" using flds(3) by (simp add: r2(4))
  have p: "length (sp_scale_factors ?ps) = LHDC_DEC_MAX_SFB" using ps by simp
  obtain br3 where r3: "lhdc_sns_decode_params br2 ?ps (int ?n) =
        (LHDC_DEC_OK, br3, ?ps\<lparr>sp_noise_level := replicate LHDC_DEC_MAX_SFB 0, sp_num_sfb := of_nat ?n,
           sp_sns_mode := int mode + 8,
           sp_scale_factors :=
             (if int mode + 8 = 23 then replicate LHDC_DEC_MAX_SFB 0
              else map (sns_envelope (0 # sns_adsq 1 (map of_bool side) (int mode + 8) 1 (-1) 0) ?n) [0..<?n] @
                   drop ?n (sp_scale_factors ?ps))\<rparr>)"
      "br_ok br3" "br_left br3 = drop (?n + 3) (br_left br2)"
    using sns_params_decoded [OF r2(3) cfg(2,3) l p refl refl] unfolding mode side by blast
  note b3 = sns_bytes [OF r3(1)]
  have l3: "br_left br3 = to_bits w raw @ [slow] @ ?fl @ rest"
  proof -
    have "?n + 3 = length (to_bits 4 mode @ side)" using flds(3) by simp
    then show ?thesis unfolding r3(3) r2(4) by (metis append_assoc append_eq_conv_conj)
  qed
  have w: "w \<le> 32" "int (lhdc_dec_calc_bits (ucast (fh_samples_per_channel (dc_header dec)))) - 1 = int w" "\<not> int w < 1"
    using head(2,3) calc_bits_le [of "ucast (fh_samples_per_channel (dc_header dec))"] by linarith+
  obtain z br4 where r4: "lhdc_bit_reader_read br3 (int w) = (z, br4)" "unat z = raw" "br_ok br4"
      "br_left br4 = [slow] @ ?fl @ rest" "br_data_bytes br4 = br_data_bytes br3"
    by (rule read_front [OF r3(2) l3, of w]) (use flds(4) w(1) in \<open>simp_all add: bits_number_to_bits\<close>)
  obtain s br5 where r5: "lhdc_bit_reader_read br4 1 = (s, br5)" "(s \<noteq> 0) = slow" "br_ok br5"
      "br_left br5 = ?fl @ rest" "br_data_bytes br5 = br_data_bytes br4"
    by (rule read_front [OF r4(3,4), of 1]) (simp_all add: bits_number_one unat_of_bool)
  obtain v br6 where r6: "(if (if 320 \<le> len then 4 else 0 :: int) \<noteq> 0
        then lhdc_bit_reader_read br5 (if 320 \<le> len then 4 else 0) else (0, br5)) = (v, br6)"
      "unat v = resid" "br_ok br6" "br_left br6 = rest" "br_data_bytes br6 = br_data_bytes br5"
  proof (cases "320 \<le> len")
    case True
    then have "br_left br5 = to_bits 4 resid @ rest" using r5(4) by simp
    from read_front [OF r5(3) this, of 4] obtain v br6 where "lhdc_bit_reader_read br5 4 = (v, br6)"
        "unat v = resid" "br_ok br6" "br_left br6 = rest" "br_data_bytes br6 = br_data_bytes br5"
      using flds(5) by (auto simp: bits_number_to_bits)
    then show ?thesis using True by (intro that [of v br6]) simp_all
  next
    case False
    then show ?thesis using r5 flds(6) by (intro that [of 0 br5]) simp_all
  qed
  have "(int raw + 1) * 2 = int (2 * (raw + 1))" by simp
  then have nz: "\<not> (int raw + 1) * 2 > int (bc_mdct_size cfg div 2)"
    using flds(7) by (simp only: not_less of_nat_le_iff)
  have lead: "channel_leading dec = (LHDC_DEC_OK,
      dec\<lparr>dc_bit_reader := br6, dc_sns_params := ?ps\<lparr>sp_noise_level := replicate LHDC_DEC_MAX_SFB 0, sp_num_sfb := of_nat ?n,
           sp_sns_mode := int mode + 8,
           sp_scale_factors :=
             (if int mode + 8 = 23 then replicate LHDC_DEC_MAX_SFB 0
              else map (sns_envelope (0 # sns_adsq 1 (map of_bool side) (int mode + 8) 1 (-1) 0) ?n) [0..<?n] @
                   drop ?n (sp_scale_factors ?ps)),
           sp_nzc := (int raw + 1) * 2\<rparr>\<rparr>, slow, int resid)"
    by (simp only: channel_leading_def Let_def cfg(1) [symmetric] r1(1,2) r2(1) prod.case r3(1) w(2,3) r4(1,2)
        nz r5(1,2) head(1) [symmetric] r6(1,2) if_False simp_thms)
  show ?thesis
    by (intro exI conjI, rule lead [unfolded r2(2)])
      (use r1(5) r2(5) b3 r4(5) r6 flds(3) in \<open>simp_all add: r5(5) channel_envelope_def\<close>)
qed

subsection \<open>The plane and the order of the bins\<close>

lemma mant_encode_high:
  assumes "mant_encode m vs pred = (cs, bs)" and "\<forall>v \<in> set vs. \<bar>v\<bar> \<le> int B"
  shows "length cs = length vs \<and> (\<forall>c \<in> set cs. c \<le> B)"
  using assms
proof (induction vs arbitrary: pred cs bs)
  case (Cons v vs)
  define s where "s = nat ((pred + 64) div 128)"
  obtain cs' bs' where e: "mant_encode m vs (pred_next m pred (min 31 (bit_length (nat \<bar>v\<bar>)))) = (cs', bs')" by fastforce
  have cs: "cs = nat \<bar>v\<bar> div 2 ^ s # cs'" using Cons.prems(1) by (simp add: Let_def e s_def)
  have "nat \<bar>v\<bar> div 2 ^ s \<le> nat \<bar>v\<bar>" by simp
  also have "\<dots> \<le> B" using Cons.prems(2) by (simp add: nat_le_iff)
  finally show ?case using Cons.IH [OF e] Cons.prems(2) by (simp add: cs)
qed simp

lemma fold_max_abs: "fold (\<lambda>v k. max k \<bar>v\<bar>) vs p = Max (insert p (abs ` set (vs :: int list)))"
proof (induction vs arbitrary: p)
  case (Cons v vs)
  have "Max (insert (max p \<bar>v\<bar>) (abs ` set vs)) = Max (insert p (insert \<bar>v\<bar> (abs ` set vs)))"
    by (cases "vs = []") (simp_all add: max.assoc)
  with Cons show ?case by simp
qed simp

lemma channel_maxM_of_int:
  assumes "\<forall>v \<in> set vs. \<bar>v\<bar> < 2 ^ 31"
  shows "channel_maxM (map of_int vs) = Max (insert 0 (abs ` set vs))"
proof -
  have s: "sint (if sint (of_int v :: u32) < 0 then - of_int v else of_int v :: u32) = \<bar>v\<bar>" if "\<bar>v\<bar> < 2 ^ 31" for v
  proof -
    have "sint (of_int u :: u32) = u" if "\<bar>u\<bar> < 2 ^ 31" for u
      using that by (simp add: sint_sbintrunc' signed_take_bit_int_eq_self)
    from this [of v] this [of "- v"] that show ?thesis by simp
  qed
  have "fold (\<lambda>q mx. let a = sint (if sint q < 0 then - q else q :: u32) in if a > mx then a else mx) (map of_int vs) p =
      fold (\<lambda>v k. max k \<bar>v\<bar>) vs p" for p
    using assms
  proof (induction vs arbitrary: p)
    case (Cons v vs)
    then show ?case by (simp add: s Let_def max_def del: of_int_minus)
  qed simp
  then show ?thesis by (simp add: channel_maxM_def fold_max_abs)
qed

lemma length_channel_reverse [simp]: "length (channel_reverse qs a b) = length qs"
proof (induction qs a b rule: channel_reverse.induct)
  case (1 qs a b)
  then show ?case by (subst channel_reverse.simps) simp
qed

lemma channel_reverse_nth:
  assumes "0 \<le> a" and "b < int (length qs)" and "i < length qs"
  shows "channel_reverse qs a b ! i = (if a \<le> int i \<and> int i \<le> b then qs ! nat (a + b - int i) else qs ! i)"
  using assms
proof (induction qs a b arbitrary: i rule: channel_reverse.induct)
  case (1 qs a b)
  show ?case
  proof (cases "a < b")
    case True
    let ?q = "qs[nat a := qs ! nat b, nat b := qs ! nat a]"
    have ab: "nat a < length qs" "nat b < length qs" "nat a \<noteq> nat b" using True 1 by auto
    have ih: "channel_reverse ?q (a + 1) (b - 1) ! i =
        (if a + 1 \<le> int i \<and> int i \<le> b - 1 then ?q ! nat (a + 1 + (b - 1) - int i) else ?q ! i)"
      using "1.IH" [OF True, of i] 1(2-4) by simp
    consider "int i = a" | "int i = b" | "a < int i" "int i < b" | "int i < a \<or> b < int i" by linarith
    then show ?thesis
    proof cases
      case 3
      then have "nat (a + b - int i) \<noteq> nat a" "nat (a + b - int i) \<noteq> nat b"
        using 1(2) by (simp_all add: eq_nat_nat_iff)
      with 3 True ih show ?thesis by (subst channel_reverse.simps) simp
    qed (use True ih ab in \<open>(subst channel_reverse.simps, auto)+\<close>)
  next
    case False
    then have "nat (a + b - int i) = i" if "a \<le> int i" "int i \<le> b" using that by linarith
    with False show ?thesis by (subst channel_reverse.simps) auto
  qed
qed

lemma channel_reverse_rev: "channel_reverse (xs @ ys) 0 (int (length xs) - 1) = rev xs @ ys"
proof (rule nth_equalityI)
  fix i assume "i < length (channel_reverse (xs @ ys) 0 (int (length xs) - 1))"
  then have i: "i < length (xs @ ys)" by simp
  have n: "nat (int (length xs) - 1 - int i) = length xs - Suc i" by linarith
  show "channel_reverse (xs @ ys) 0 (int (length xs) - 1) ! i = (rev xs @ ys) ! i"
    using i by (subst channel_reverse_nth) (auto simp: n nth_append rev_nth)
qed simp

lemma stream_bits_in:
  assumes "map (bit_at b) [0..<t] = xs @ bs @ ys"
  shows "bits_in b t (length xs) bs"
proof -
  let ?n = "length xs" and ?m = "length bs"
  have "t = length (xs @ bs @ ys)" using arg_cong [OF assms, of length] by simp
  then have t: "?n + ?m \<le> t" by simp
  have "map (bit_at b) [?n..<?n + ?m] = take ?m (drop ?n (map (bit_at b) [0..<t]))"
    using t by (simp add: take_map drop_map)
  also have "\<dots> = bs" by (simp add: assms)
  finally show ?thesis using t by (simp add: bits_in_def)
qed

lemma channel_mant_decoded:
  assumes v: "\<forall>v \<in> set vs. \<bar>v\<bar> \<le> 2 ^ 26" and "resid < 16"
    and "mant_encode slow vs (int resid * 128) = (cs, bs)"
    and d: "d = nat (mant_best_delta r)" "d \<le> m" and p: "bits_in pl t (h + 8 * (m - d)) bs"
  shows "channel_mant (map of_nat cs) pl t (int h) (int m) r slow (int resid) = map of_int vs"
proof -
  have mb: "mant_best_delta r = int d" using d(1) by (simp add: mant_best_delta_def)
  have "nat (int h + (int m - int d) * 8) = h + 8 * (m - d)" using d(2) by (simp add: nat_add_distrib nat_mult_distrib)
  moreover have "\<not> int m - int d < 0" using d(2) by simp
  moreover have "\<forall>v \<in> set vs. \<bar>v\<bar> < 2 ^ 31" using v by fastforce
  from mant_plane_decoded [OF this _ _ assms(3) p] assms(2)
  have "lhdc_dec_mant_plane (map of_nat cs) pl t (h + 8 * (m - d)) slow (int resid) =
      (map of_int vs, fold (\<lambda>v k. max k \<bar>v\<bar>) vs 0)" by simp
  moreover have "\<not> fold (\<lambda>v k. max k \<bar>v\<bar>) vs 0 > 2 ^ 26" using v by (simp add: fold_max_abs not_less)
  ultimately show ?thesis by (simp add: channel_mant_def Let_def mb)
qed

subsection \<open>A channel is decoded\<close>

text \<open>
  What an encoder writes behind the leading section: the quotients through the range coder, whose
  last octets are dropped by the rule, and the plane of mantissas in their place.
\<close>

definition channel_code :: "lhdc_entropy \<Rightarrow> lhdc_band_cfg_desc_t \<Rightarrow> int \<Rightarrow> nat list \<Rightarrow> nat \<times> nat \<times> nat" where
  "channel_code e cfg K cs =
     (let e = lhdc_entropy_alloc_internal e;
          w1 = bc_ma_win1 cfg; w2 = bc_ma_win2 cfg;
          m1 = fac_model_init (s_fac_m0 e) FAC_FQ1 (if w1 > 0 then w1 else 256);
          m2 = fac_model_init (s_fac_m1 e) FAC_FQ2 (if w2 > 0 then w2 else 256)
      in enc_syms m2 (rice_plane2 K 0 cs) (enc_syms m1 (rice_plane1 K 0 cs) (0, 2 ^ 32 - 1, 0)))"

definition channel_body :: "nat \<times> nat \<times> nat \<Rightarrow> bool list \<Rightarrow> bool list" where
  "channel_body code bs =
     (case code of (low, rng, k) \<Rightarrow>
        let d = nat (mant_best_delta (of_nat rng))
        in to_bits (8 * (4 + k - d)) (block_above d low) @ bs)"

lemma channel_code_bounds:
  assumes "channel_code e cfg K cs = (low, rng, k)"
  shows "2 ^ 24 \<le> rng" and "low + rng \<le> 256 ^ (4 + k)"
proof -
  let ?e = "lhdc_entropy_alloc_internal e"
  let ?m1 = "fac_model_init (s_fac_m0 ?e) FAC_FQ1 (if bc_ma_win1 cfg > 0 then bc_ma_win1 cfg else 256)"
  let ?m2 = "fac_model_init (s_fac_m1 ?e) FAC_FQ2 (if bc_ma_win2 cfg > 0 then bc_ma_win2 cfg else 256)"
  obtain l1 r1 k1 where e1: "enc_syms ?m1 (rice_plane1 K 0 cs) (0, 2 ^ 32 - 1, 0) = (l1, r1, k1)" by (metis prod_cases3)
  have e2: "enc_syms ?m2 (rice_plane2 K 0 cs) (l1, r1, k1) = (low, rng, k)"
    using assms unfolding channel_code_def Let_def e1 .
  have "2 ^ 24 \<le> fst (snd (enc_syms ?m1 (rice_plane1 K 0 cs) (0, 2 ^ 32 - 1, 0)))"
    by (rule enc_syms_width [OF fac_models_ok(1) rice_planes_set(1)]) simp
  then have "2 ^ 24 \<le> r1" unfolding e1 by simp
  then have "2 ^ 24 \<le> fst (snd (enc_syms ?m2 (rice_plane2 K 0 cs) (l1, r1, k1)))"
    by (rule enc_syms_width [OF fac_models_ok(2) rice_planes_set(2)])
  then show "2 ^ 24 \<le> rng" unfolding e2 by simp
  have "l1 + r1 \<le> 256 ^ (4 + k1)" by (rule enc_syms_bound [OF fac_models_ok(1) rice_planes_set(1) _ e1]) simp
  from enc_syms_bound [OF fac_models_ok(2) rice_planes_set(2) this e2] show "low + rng \<le> 256 ^ (4 + k)" .
qed

text \<open>The range of the coder stays within 32 bits.\<close>

lemma enc_norm_upper: "rng < 2 ^ 32 \<Longrightarrow> fst (snd (enc_norm (low, rng, k))) < 2 ^ 32"
proof (induction "(low, rng, k)" arbitrary: low rng k rule: enc_norm.induct)
  case (1 low rng k)
  then show ?case by (subst enc_norm.simps) simp
qed

lemma enc_syms_upper:
  assumes "fac_model_ok init m" and "set ss \<subseteq> {0, 1, 2}" and "rng < 2 ^ 32"
  shows "fst (snd (enc_syms m ss (low, rng, k))) < 2 ^ 32"
  using assms
proof (induction ss arbitrary: m low rng k)
  case (Cons s ss)
  have s: "s < FAC_NSYM" using Cons.prems(2) by auto
  have cum: "cum_ok (fm_cum m)" using Cons.prems(1) by (simp add: fac_model_ok_def)
  obtain l1 r1 k1 where e: "enc_step m s (low, rng, k) = (l1, r1, k1)" by (metis prod_cases3)
  let ?w = "unat (fm_cum m ! Suc s) - unat (fm_cum m ! s)"
  have "?w \<le> 2 ^ 15" using cum_step(2) [OF cum s] by linarith
  then have "rng div 2 ^ 15 * ?w \<le> rng div 2 ^ 15 * 2 ^ 15" by (rule mult_le_mono2)
  also have "\<dots> \<le> rng" by simp
  finally have "rng div 2 ^ 15 * ?w < 2 ^ 32" using Cons.prems(3) by linarith
  from enc_norm_upper [OF this, of "low + rng div 2 ^ 15 * unat (fm_cum m ! s)" k]
  have "r1 < 2 ^ 32" using e by (simp add: enc_step_def Let_def)
  with Cons.IH [OF fac_model_update_ok [OF Cons.prems(1) s]] Cons.prems(2) show ?case by (simp add: e)
qed simp

lemma channel_code_word:
  assumes "channel_code e cfg K cs = (low, rng, k)"
  shows "unat (of_nat rng :: u32) = rng"
proof -
  let ?e = "lhdc_entropy_alloc_internal e"
  let ?m1 = "fac_model_init (s_fac_m0 ?e) FAC_FQ1 (if bc_ma_win1 cfg > 0 then bc_ma_win1 cfg else 256)"
  let ?m2 = "fac_model_init (s_fac_m1 ?e) FAC_FQ2 (if bc_ma_win2 cfg > 0 then bc_ma_win2 cfg else 256)"
  obtain l1 r1 k1 where e1: "enc_syms ?m1 (rice_plane1 K 0 cs) (0, 2 ^ 32 - 1, 0) = (l1, r1, k1)" by (metis prod_cases3)
  have "fst (snd (enc_syms ?m1 (rice_plane1 K 0 cs) (0, 2 ^ 32 - 1, 0))) < 2 ^ 32"
    by (rule enc_syms_upper [OF fac_models_ok(1) rice_planes_set(1)]) simp
  then have "r1 < 2 ^ 32" unfolding e1 by simp
  then have "fst (snd (enc_syms ?m2 (rice_plane2 K 0 cs) (l1, r1, k1))) < 2 ^ 32"
    by (rule enc_syms_upper [OF fac_models_ok(2) rice_planes_set(2)])
  then have "rng < 2 ^ 32" using assms unfolding channel_code_def Let_def e1 by simp
  then show ?thesis by (simp add: unat_of_nat)
qed

text \<open>Whatever follows in the place of the octets dropped, the number read is in the interval.\<close>

lemma channel_body_number:
  assumes "channel_code e cfg K cs = (low, rng, k)" and "left = channel_body (low, rng, k) bs @ pad"
    and "8 * (4 + k) \<le> length left" and "d = nat (mant_best_delta (of_nat rng))"
  shows "low \<le> bits_number (take (8 * (4 + k)) left)" and "bits_number (take (8 * (4 + k)) left) < low + rng"
proof -
  let ?v = "block_above d low" and ?t = "take (8 * d) (bs @ pad)"
  have d: "d \<le> 4 + k" using assms(4) by (simp add: mant_best_delta_def)
  then have n: "8 * (4 + k) = 8 * (4 + k - d) + 8 * d" by simp
  have u: "unat (of_nat rng :: u32) = rng" by (rule channel_code_word [OF assms(1)])
  note b = channel_code_bounds [OF assms(1)]
  have take: "take (8 * (4 + k)) left = to_bits (8 * (4 + k - d)) ?v @ ?t"
    unfolding assms(2) channel_body_def prod.case Let_def assms(4) [symmetric] n append_assoc
    by (simp only: take_append length_to_bits diff_add_inverse) simp
  have t: "length ?t = 8 * d" using assms(3) d by (simp add: assms(2) channel_body_def flip: assms(4))
  have pow: "(2 :: nat) ^ (8 * m) = 256 ^ m" for m by (simp add: power_mult)
  note blk = range_rule_block [OF _ assms(4), unfolded u, OF b(1)]
  have "?v * 256 ^ d < 256 ^ (4 + k - d) * 256 ^ d"
    using blk(2) [of 0 low] b(2) d by (simp flip: power_add)
  then have "?v < 256 ^ (4 + k - d)" by simp
  then have "bits_number (take (8 * (4 + k)) left) = ?v * 256 ^ d + bits_number ?t"
    unfolding take bits_number_append t bits_number_to_bits pow by simp
  moreover have "bits_number ?t < 256 ^ d" using bits_number_less [of ?t] by (simp only: t pow)
  ultimately show "low \<le> bits_number (take (8 * (4 + k)) left)" "bits_number (take (8 * (4 + k)) left) < low + rng"
    using blk [of "bits_number ?t" low] by simp_all
qed


text \<open>Octets that hold given bits.\<close>

definition bits_buf :: "bool list \<Rightarrow> buf" where
  "bits_buf xs = (\<lambda>i. of_nat (bits_number (take 8 (drop (8 * i) xs))))"

lemma bit_bits_number: "bit (bits_number xs) k \<longleftrightarrow> k < length xs \<and> xs ! (length xs - 1 - k)"
proof (induction xs arbitrary: k rule: rev_induct)
  case (snoc x xs)
  show ?case
    by (cases k) (auto simp: bits_number_snoc bit_0 bit_Suc snoc nth_append)
qed (simp add: bits_number_def)

lemma bits_buf_bits:
  assumes "length xs = 8 * n"
  shows "map (bit_at (bits_buf xs)) [0..<8 * n] = xs"
proof (rule nth_equalityI)
  fix p assume "p < length (map (bit_at (bits_buf xs)) [0..<8 * n])"
  then have p: "p < 8 * n" by simp
  let ?ys = "take 8 (drop (8 * (p div 8)) xs)"
  have "p div 8 < n" using p by (simp add: less_mult_imp_div_less mult.commute)
  then have l: "length ?ys = 8" using assms by simp
  have m: "p mod 8 < 8" by simp
  have j: "7 - p mod 8 < 8" by (rule le_less_trans [OF diff_le_self]) simp
  have e: "8 - 1 - (7 - p mod 8) = p mod 8" using m by simp
  have octet: "bit (of_nat m :: u8) q \<longleftrightarrow> bit m q" if "q < 8" for m q using that by (simp add: bit_of_nat_iff)
  have "bit_at (bits_buf xs) p \<longleftrightarrow> bit (bits_number ?ys) (7 - p mod 8)"
    by (simp only: bit_at_def bits_buf_def octet [OF j])
  also have "\<dots> \<longleftrightarrow> ?ys ! (p mod 8)" unfolding bit_bits_number l e using j by blast
  also have "\<dots> = xs ! p" using m p assms by simp
  finally show "map (bit_at (bits_buf xs)) [0..<8 * n] ! p = xs ! p" using p by simp
qed (simp add: assms)

lemma channel_code_few:
  assumes "channel_code e cfg K cs = (low, rng, k)"
  shows "k \<le> 3 * (length (rice_plane1 K 0 cs) + length (rice_plane2 K 0 cs))"
proof -
  let ?e = "lhdc_entropy_alloc_internal e"
  let ?m1 = "fac_model_init (s_fac_m0 ?e) FAC_FQ1 (if bc_ma_win1 cfg > 0 then bc_ma_win1 cfg else 256)"
  let ?m2 = "fac_model_init (s_fac_m1 ?e) FAC_FQ2 (if bc_ma_win2 cfg > 0 then bc_ma_win2 cfg else 256)"
  obtain l1 r1 k1 where e1: "enc_syms ?m1 (rice_plane1 K 0 cs) (0, 2 ^ 32 - 1, 0) = (l1, r1, k1)" by (metis prod_cases3)
  have "snd (snd (enc_syms ?m1 (rice_plane1 K 0 cs) (0, 2 ^ 32 - 1, 0))) \<le> 0 + 3 * length (rice_plane1 K 0 cs)"
    by (rule enc_syms_few [OF fac_models_ok(1) rice_planes_set(1)]) simp
  then have k1: "k1 \<le> 3 * length (rice_plane1 K 0 cs)" unfolding e1 by simp
  have "2 ^ 24 \<le> fst (snd (enc_syms ?m1 (rice_plane1 K 0 cs) (0, 2 ^ 32 - 1, 0)))"
    by (rule enc_syms_width [OF fac_models_ok(1) rice_planes_set(1)]) simp
  then have "2 ^ 24 \<le> r1" unfolding e1 by simp
  then have "snd (snd (enc_syms ?m2 (rice_plane2 K 0 cs) (l1, r1, k1))) \<le> k1 + 3 * length (rice_plane2 K 0 cs)"
    by (rule enc_syms_few [OF fac_models_ok(2) rice_planes_set(2)])
  then show ?thesis using k1 assms unfolding channel_code_def Let_def e1 by simp
qed

text \<open>A frame of one channel of 60 octets, with the coefficients 3 and -5.\<close>

definition channel_frame :: "bool list \<Rightarrow> lhdc_decoder" where
  "channel_frame bits = decoder_zero
     \<lparr>dc_header := frame_header_zero\<lparr>fh_channels := 1, fh_frame_bytes := 60, fh_samples_per_channel := 240\<rparr>,
      dc_band_cfg := lhdc_band_cfgs LHDC_BAND_CFG_480_LB,
      dc_payload_buf := lhdc_scramble (unat (bits_buf bits 8 AND 1)) (bits_buf bits)\<rparr>"


subsection \<open>The retry with the other selector\<close>

lemma descramble_sel_outside: "i \<ge> 8 \<Longrightarrow> lhdc_descramble_inplace_sel b avail sel i = b i"
  by (cases "9 \<le> avail") (simp_all add: descramble_sel_apply, simp add: lhdc_descramble_inplace_sel_def)

lemma descramble_outside: "i \<ge> 8 \<Longrightarrow> lhdc_descramble_inplace b avail i = b i"
  by (simp add: lhdc_descramble_inplace_def descramble_sel_outside)

lemma memcpy_apply: "memcpy d s n i = (if i < n then s i else d i)"
  by (simp add: memcpy_def)

text \<open>
  The retry of a channel starts from the octets received: after the head was
  descrambled with the selector found in the slice, and again with any other selector, descrambling it
  with the first selector gives the payload of the first attempt again, octet for octet, also outside
  the slice.
\<close>

theorem channel_retry_restores:
  assumes "9 \<le> n" and "n \<le> LHDC_DEC_MAX_FRAME_BYTES" and "d1 = channel_head d start (int n) (- 1)"
    and "d2 = channel_head d1 start (int n) (int f)" and "sel = unat (dc_payload_buf d (start + 8) AND 1)"
  shows "dc_payload_buf (channel_head d2 start (int n) (int sel)) = dc_payload_buf d1"
proof -
  let ?cb = "buf_from (dc_payload_buf d) start"
  have u: "unat (of_nat n :: u32) = n" unfolding unat_of_nat using assms(2) by simp
  have b8: "?cb 8 = dc_payload_buf d (start + 8)" by (simp add: buf_from_def)
  have d1: "dc_payload_buf d1 = buf_put (dc_payload_buf d) start (lhdc_descramble_inplace ?cb n)"
    "dc_hdr_saved_start d1 = int start" "dc_hdr_save d1 = memcpy (dc_hdr_save d) ?cb 8"
    using assms(1) by (simp_all add: assms(3) channel_head_def Let_def u)
  have restored: "memcpy c (memcpy h ?cb 8) 8 = ?cb" if "\<forall>i \<ge> 8. c i = ?cb i" for c h
    using that by (auto simp: fun_eq_iff memcpy_apply)
  have put: "buf_put (buf_put b start c) start c' = buf_put b start c'" for b c c'
    by (simp add: buf_put_def fun_eq_iff)
  have d2: "dc_payload_buf d2 = buf_put (dc_payload_buf d) start (lhdc_descramble_inplace_sel ?cb n f)"
    "dc_hdr_saved_start d2 = int start" "dc_hdr_save d2 = memcpy (dc_hdr_save d) ?cb 8"
    using restored [of "lhdc_descramble_inplace ?cb n" "dc_hdr_save d"]
    by (simp_all add: assms(4) channel_head_def Let_def u d1 buf_from_put put descramble_outside)
  show ?thesis
    using assms(1) restored [of "lhdc_descramble_inplace_sel ?cb n f" "dc_hdr_save d"]
    by (simp add: channel_head_def [of d2] Let_def u d1(1) d2 buf_from_put put descramble_sel_outside
        lhdc_descramble_inplace_def b8 assms(5))
qed

lemma channel_retry_restores_witness:
  "let d = decoder_zero\<lparr>dc_payload_buf := bytes [1, 2, 3, 4, 5, 6, 7, 8, 9, 10]\<rparr>;
       d1 = channel_head d 0 (int 10) (- 1)
   in dc_payload_buf (channel_head (channel_head d1 0 (int 10) (int 0)) 0 (int 10)
        (int (unat (dc_payload_buf d (0 + 8) AND 1)))) = dc_payload_buf d1"
  unfolding Let_def by (rule channel_retry_restores [OF _ _ refl refl refl]) simp_all

text \<open>
  In a slice of less than eight octets the retry writes over the next channel. Such a
  slice has no scrambled head and saves none, but the start of the slice agrees with the start kept from
  an earlier frame, so the eight octets of that frame are put back; the first octet of the next
  channel is then an octet of the old frame.
\<close>

theorem short_slice_retry_overwrites:
  assumes "channel_slice d channel = (start, int n)" and "n < 8"
    and "channel + 1 < unat (fh_channels (dc_header d))"
    and "dc_hdr_saved_start d = int start" and "d' = channel_head (channel_head d start (int n) (- 1)) start (int n) (int f)"
  shows "fst (channel_slice d (channel + 1)) = start + n \<and>
    dc_payload_buf d' (start + n) = dc_hdr_save d n \<and> (\<forall>i < 8. dc_payload_buf d' (start + i) = dc_hdr_save d i)"
proof -
  have u: "unat (of_nat n :: u32) = n" unfolding unat_of_nat using assms(2) by simp
  have p: "dc_payload_buf d' (start + i) = dc_hdr_save d i" if "i < 8" for i
    using assms(2,4) that
    by (simp add: assms(5) channel_head_def Let_def u lhdc_descramble_inplace_sel_def buf_put_def memcpy_apply)
  with channel_slice_Suc(1) [OF assms(1,3)] assms(2) show ?thesis by simp
qed

lemma short_slice_retry_overwrites_witness:
  "let d = decoder_zero\<lparr>dc_header := frame_header_zero\<lparr>fh_channels := 2, fh_frame_bytes := 8\<rparr>,
         dc_payload_buf := bytes [1, 2, 3, 4, 5, 6, 7, 8], dc_hdr_save := bytes [11, 12, 13, 14, 15, 16, 17, 18]\<rparr>
   in fst (channel_slice d 1) = 4 \<and>
     dc_payload_buf (channel_head (channel_head d 0 (int 4) (- 1)) 0 (int 4) (int 0)) (0 + 4) = 15"
proof -
  let ?d = "decoder_zero\<lparr>dc_header := frame_header_zero\<lparr>fh_channels := 2, fh_frame_bytes := 8\<rparr>,
         dc_payload_buf := bytes [1, 2, 3, 4, 5, 6, 7, 8], dc_hdr_save := bytes [11, 12, 13, 14, 15, 16, 17, 18]\<rparr>"
  have "channel_slice ?d 0 = (0, int 4)" "0 + 1 < unat (fh_channels (dc_header ?d))" "dc_hdr_saved_start ?d = int 0"
    by (simp_all add: channel_slice_def Let_def decoder_zero_def)
  moreover have "dc_hdr_save ?d 4 = 15" by (simp add: bytes_def)
  ultimately show ?thesis
    using short_slice_retry_overwrites [of ?d 0 0 4 _ 0, OF _ _ _ _ refl] by (simp add: Let_def)
qed

end
