(* ===== verification/Media_Packet.thy ===== *)
theory Media_Packet
  imports C_Prelude "HOL-Library.Sublist" "HOL-Library.Monad_Syntax"
begin

text \<open>
  Media packets as the decoders of the A2DP sink see them (stack/include/stack/a2dp_decoder.h): the
  buffer header, the RTP header and the payload header of the fragmenting codecs, and the contract of
  their reassembly as a locale. Its clients are the wrappers of LHDC V5, Opus and LC3plus.
\<close>

subsection \<open>Packets\<close>

text \<open>
  \<open>BT_HDR\<close> without \<open>event\<close>, with the octets behind it. The length and the offset are 16 bit fields, and
  the decoders move both with unsigned arithmetic.
\<close>

record bt_hdr =
  bh_len :: u16
  bh_offset :: u16
  bh_layer_specific :: u16
  bh_data :: buf

text \<open>\<open>((uint8_t *)(p_buf + 1) + p_buf->offset)[i]\<close>, and all octets of the packet.\<close>

definition pkt_at :: "bt_hdr \<Rightarrow> buf" where
  "pkt_at p = (\<lambda>i. bh_data p (unat (bh_offset p) + i))"

definition pkt_octets :: "bt_hdr \<Rightarrow> u8 list" where
  "pkt_octets p = map (pkt_at p) [0..<unat (bh_len p)]"

definition skip_octets :: "nat \<Rightarrow> bt_hdr \<Rightarrow> bt_hdr" where
  "skip_octets n p = p\<lparr>bh_offset := bh_offset p + of_nat n, bh_len := bh_len p - of_nat n\<rparr>"

abbreviation (input) EINVAL :: int where "EINVAL \<equiv> 22"

text \<open>
  \<open>media_packet_header\<close> has 12 octets, the first of which holds \<open>cc\<close>, \<open>x\<close>, \<open>p\<close> and \<open>v\<close> from the lowest bit
  up; \<open>media_payload_header\<close> is one octet.
\<close>

abbreviation (input) MEDIA_PACKET_HEADER :: nat where "MEDIA_PACKET_HEADER \<equiv> 12"
abbreviation (input) MEDIA_PAYLOAD_HEADER :: nat where "MEDIA_PAYLOAD_HEADER \<equiv> 1"

record media_packet_header =
  mh_cc :: nat
  mh_x :: bool
  mh_p :: bool
  mh_v :: nat

definition packet_header :: "u8 \<Rightarrow> media_packet_header" where
  "packet_header b =
     \<lparr>mh_cc = unat (b AND 0xF), mh_x = (b AND 0x10 \<noteq> 0), mh_p = (b AND 0x20 \<noteq> 0), mh_v = unat (drop_bit 6 b)\<rparr>"

record media_payload_header =
  frame_count :: nat
  is_last_fragment :: bool
  is_first_fragment :: bool
  is_fragmented :: bool

definition payload_header :: "u8 \<Rightarrow> media_payload_header" where
  "payload_header b =
     \<lparr>frame_count = unat (b AND 0xF), is_last_fragment = (b AND 0x20 \<noteq> 0),
      is_first_fragment = (b AND 0x40 \<noteq> 0), is_fragmented = (b AND 0x80 \<noteq> 0)\<rparr>"

text \<open>The payload header of a packet, and what is behind it.\<close>

definition frag :: "bt_hdr \<Rightarrow> media_payload_header" where
  "frag p = payload_header (pkt_at p MEDIA_PACKET_HEADER)"

definition body :: "bt_hdr \<Rightarrow> u8 list" where
  "body p = drop (MEDIA_PACKET_HEADER + MEDIA_PAYLOAD_HEADER) (pkt_octets p)"

text \<open>The packet has both headers, and behind them the offset is still in range.\<close>

definition full_header :: "bt_hdr \<Rightarrow> bool" where
  "full_header p = (13 \<le> unat (bh_len p) \<and> unat (bh_offset p) + 13 < 2 ^ 16)"

lemma length_pkt_octets [simp]: "length (pkt_octets p) = unat (bh_len p)"
  by (simp add: pkt_octets_def)

lemma frame_count_less: "frame_count (frag p) < 16"
proof -
  have "pkt_at p 12 AND 0xF = take_bit 4 (pkt_at p 12)" by (simp add: take_bit_eq_mask mask_eq_exp_minus_1)
  then have "unat (pkt_at p 12 AND 0xF) < 2 ^ 4" by (simp only: unsigned_take_bit_eq take_bit_nat_less_exp)
  then show ?thesis by (simp add: frag_def payload_header_def)
qed

lemma skip_octets_unat:
  assumes "n \<le> unat (bh_len p)" "unat (bh_offset p) + n < 2 ^ 16"
  shows "unat (bh_len (skip_octets n p)) = unat (bh_len p) - n"
    "unat (bh_offset (skip_octets n p)) = unat (bh_offset p) + n"
proof -
  have n: "n < 2 ^ 16" using assms(2) by simp
  then have u: "unat (of_nat n :: u16) = n" by (simp add: unat_of_nat)
  have "of_nat n \<le> bh_len p" using assms(1) by (simp add: word_le_nat_alt u)
  then show "unat (bh_len (skip_octets n p)) = unat (bh_len p) - n"
    by (simp add: skip_octets_def unat_sub u)
  show "unat (bh_offset (skip_octets n p)) = unat (bh_offset p) + n"
    using assms(2) by (simp add: skip_octets_def unat_word_ariths u)
qed

lemma pkt_octets_skip:
  assumes "n \<le> unat (bh_len p)" "unat (bh_offset p) + n < 2 ^ 16"
  shows "pkt_octets (skip_octets n p) = drop n (pkt_octets p)"
proof (rule nth_equalityI)
  show "length (pkt_octets (skip_octets n p)) = length (drop n (pkt_octets p))"
    using skip_octets_unat(1) [OF assms] by simp
next
  fix i assume "i < length (pkt_octets (skip_octets n p))"
  then have i: "i < unat (bh_len p) - n" using skip_octets_unat(1) [OF assms] by simp
  have "bh_data (skip_octets n p) = bh_data p" by (simp add: skip_octets_def)
  then show "pkt_octets (skip_octets n p) ! i = drop n (pkt_octets p) ! i"
    using i skip_octets_unat [OF assms] nth_upt [of 0 "n + i" "unat (bh_len p)"]
    by (simp add: pkt_octets_def pkt_at_def add.assoc)
qed

lemma pkt_octets_body: "full_header p \<Longrightarrow> pkt_octets (skip_octets 13 p) = body p"
  by (simp add: full_header_def body_def pkt_octets_skip)

text \<open>A packet of given octets; for examples.\<close>

definition packet_of :: "u8 list \<Rightarrow> bt_hdr" where
  "packet_of xs = \<lparr>bh_len = of_nat (length xs), bh_offset = 0, bh_layer_specific = 0, bh_data = bytes xs\<rparr>"

lemma pkt_octets_packet_of: "length xs < 2 ^ 16 \<Longrightarrow> pkt_octets (packet_of xs) = xs"
  by (rule nth_equalityI) (simp_all add: pkt_octets_def pkt_at_def packet_of_def bytes_def unat_of_nat)

text \<open>\<open>xs\<close> behind an RTP header.\<close>

definition media_example :: "u8 list \<Rightarrow> bt_hdr" where
  "media_example xs = packet_of ([0x80, 96, 0, 1, 0, 0, 0, 0, 0, 0, 0, 1] @ xs)"

lemma example_packet:
  assumes "length xs < 1000"
  shows "full_header (media_example (b # xs))" "body (media_example (b # xs)) = xs"
    "frag (media_example (b # xs)) = payload_header b"
proof -
  have o: "pkt_octets (media_example (b # xs)) = [0x80, 96, 0, 1, 0, 0, 0, 0, 0, 0, 0, 1] @ b # xs"
    unfolding media_example_def using assms by (intro pkt_octets_packet_of) simp
  have "unat (bh_len (media_example (b # xs))) = 13 + length xs"
    unfolding length_pkt_octets [symmetric] o by simp
  moreover have "unat (bh_offset (media_example (b # xs))) = 0" by (simp add: media_example_def packet_of_def)
  ultimately show "full_header (media_example (b # xs))" by (simp add: full_header_def)
  show "body (media_example (b # xs)) = xs" by (simp add: body_def o)
  show "frag (media_example (b # xs)) = payload_header b"
    by (simp add: frag_def media_example_def packet_of_def pkt_at_def bytes_def)
qed

lemma example_headers:
  "payload_header 0xC2 = \<lparr>frame_count = 2, is_last_fragment = False, is_first_fragment = True, is_fragmented = True\<rparr>"
  "payload_header 0xA1 = \<lparr>frame_count = 1, is_last_fragment = True, is_first_fragment = False, is_fragmented = True\<rparr>"
  "payload_header 0x01 = \<lparr>frame_count = 1, is_last_fragment = False, is_first_fragment = False, is_fragmented = False\<rparr>"
  by (simp_all add: payload_header_def)

subsection \<open>Reassembly\<close>

text \<open>
  What a packet leads to: nothing, because it was refused or because more fragments have to come, or
  octets for the decoder.
\<close>

datatype gathered = Refused | More | Source "u8 list"

fun receives :: "(bt_hdr \<Rightarrow> 's \<Rightarrow> gathered \<times> 's) \<Rightarrow> bt_hdr list \<Rightarrow> 's \<Rightarrow> gathered list \<times> 's" where
  "receives receive [] s = ([], s)"
| "receives receive (p # ps) s =
     (let (r, s) = receive p s; (rs, s) = receives receive ps s in (r # rs, s))"

lemma receives_append:
  "receives receive (ps @ qs) s =
     (let (rs, s) = receives receive ps s; (rs', s) = receives receive qs s in (rs @ rs', s))"
  by (induction ps arbitrary: s) (simp_all add: case_prod_unfold Let_def)

text \<open>
  With \<open>c\<close> fragments to come, one in order is accepted, and so is the first one of a frame always. It
  joins the octets held, which a first one throws away.
\<close>

definition accepts :: "nat \<Rightarrow> bt_hdr \<Rightarrow> bool" where
  "accepts c p =
     (is_fragmented (frag p) \<and>
      (is_first_fragment (frag p) \<or>
       frame_count (frag p) + 1 = c \<and> (frame_count (frag p) = 1 \<longrightarrow> is_last_fragment (frag p))))"

definition joined :: "u8 list \<Rightarrow> bt_hdr \<Rightarrow> u8 list" where
  "joined h p = (if is_first_fragment (frag p) then [] else h) @ body p"

text \<open>The packets \<open>ps\<close> carry the pieces \<open>xs\<close> of a frame; \<open>f\<close> says whether they begin with its first one.\<close>

fun fragments :: "bool \<Rightarrow> u8 list list \<Rightarrow> bt_hdr list \<Rightarrow> bool" where
  "fragments f [] ps = (ps = [])"
| "fragments f (x # xs) [] = False"
| "fragments f (x # xs) (p # ps) =
     (full_header p \<and> body p = x \<and>
      frag p = \<lparr>frame_count = Suc (length xs), is_last_fragment = (xs = []), is_first_fragment = f, is_fragmented = True\<rparr> \<and>
      fragments False xs ps)"

text \<open>Fragments that follow one another from a first one on, the last of which leaves \<open>c\<close> to come.\<close>

inductive fragment_chain :: "bt_hdr list \<Rightarrow> nat \<Rightarrow> bool" where
  first: "\<lbrakk>is_fragmented (frag p); is_first_fragment (frag p)\<rbrakk> \<Longrightarrow> fragment_chain [p] (frame_count (frag p))"
| more: "\<lbrakk>fragment_chain ps c; is_fragmented (frag p); \<not> is_first_fragment (frag p); frame_count (frag p) + 1 = c\<rbrakk> \<Longrightarrow>
    fragment_chain (ps @ [p]) (frame_count (frag p))"

lemma fragment_chain_not_Nil: "fragment_chain ps c \<Longrightarrow> ps \<noteq> []"
  by (induction rule: fragment_chain.induct) simp_all

lemma fragment_chain_counts:
  "fragment_chain ps c \<Longrightarrow>
    map (\<lambda>p. frame_count (frag p)) ps = rev [c..<c + length ps] \<and>
    is_first_fragment (frag (hd ps)) \<and> (\<forall>p\<in>set (tl ps). \<not> is_first_fragment (frag p)) \<and>
    (\<forall>p\<in>set ps. is_fragmented (frag p))"
proof (induction rule: fragment_chain.induct)
  case (first p)
  then show ?case by (simp add: upt_rec)
next
  case (more ps c p)
  have ne: "ps \<noteq> []" by (rule fragment_chain_not_Nil [OF more.hyps(1)])
  have "frame_count (frag p) + length (ps @ [p]) = c + length ps" using more.hyps(4) by simp
  moreover have "[frame_count (frag p)..<c + length ps] = frame_count (frag p) # [Suc (frame_count (frag p))..<c + length ps]"
    using more.hyps(4) by (intro upt_conv_Cons) simp
  ultimately have "[frame_count (frag p)..<frame_count (frag p) + length (ps @ [p])] = frame_count (frag p) # [c..<c + length ps]"
    using more.hyps(4) by (simp del: upt_Suc length_append)
  then show ?case using more ne by simp
qed

lemma take_take_append [simp]: "take n (take n xs @ ys) = take n (xs @ ys)"
  by (cases "length xs \<le> n") (simp_all add: min_def)

locale fragment_decoder =
  fixes receive :: "bt_hdr \<Rightarrow> 's \<Rightarrow> gathered \<times> 's"
    and ready :: "'s \<Rightarrow> bool" and to_come :: "'s \<Rightarrow> nat" and held :: "'s \<Rightarrow> u8 list" and room :: nat
  assumes ready: "ready s \<Longrightarrow> ready (snd (receive p s))"
    and fragment: "\<lbrakk>ready s; full_header p; accepts (to_come s) p; frame_count (frag p) \<noteq> 0;
        length (joined (held s) p) \<le> room\<rbrakk> \<Longrightarrow>
      fst (receive p s) = (if frame_count (frag p) = 1 then Source (joined (held s) p) else More) \<and>
      to_come (snd (receive p s)) = (if frame_count (frag p) = 1 then 0 else frame_count (frag p)) \<and>
      (frame_count (frag p) \<noteq> 1 \<longrightarrow> held (snd (receive p s)) = joined (held s) p)"
    and single: "\<lbrakk>ready s; full_header p; \<not> is_fragmented (frag p); frame_count (frag p) = 1\<rbrakk> \<Longrightarrow>
      fst (receive p s) = Source (body p) \<and> to_come (snd (receive p s)) = 0"
    and source: "\<lbrakk>ready s; full_header p; is_fragmented (frag p); frame_count (frag p) \<noteq> 0;
        fst (receive p s) = Source x\<rbrakk> \<Longrightarrow>
      accepts (to_come s) p \<and> frame_count (frag p) = 1 \<and> x = take room (joined (held s) p)"
    and kept: "\<lbrakk>ready s; full_header p; to_come (snd (receive p s)) \<noteq> 0\<rbrakk> \<Longrightarrow>
      accepts (to_come s) p \<and> to_come (snd (receive p s)) = frame_count (frag p) \<and>
        held (snd (receive p s)) = take room (joined (held s) p) \<or>
      to_come (snd (receive p s)) = to_come s \<and> held (snd (receive p s)) = held s"
begin

lemma receives_fragments:
  assumes "fragments f xs ps" "xs \<noteq> []" "ready s" "f \<or> to_come s = Suc (length xs)"
    "length ((if f then [] else held s) @ concat xs) \<le> room"
  shows "fst (receives receive ps s) =
      replicate (length xs - 1) More @ [Source ((if f then [] else held s) @ concat xs)] \<and>
    to_come (snd (receives receive ps s)) = 0 \<and> ready (snd (receives receive ps s))"
  using assms
proof (induction xs arbitrary: f ps s)
  case Nil
  then show ?case by simp
next
  case (Cons x xs)
  then obtain p qs where ps: "ps = p # qs" by (cases ps) auto
  from Cons.prems(1) ps have p: "full_header p" "body p = x" "fragments False xs qs"
    "frag p = \<lparr>frame_count = Suc (length xs), is_last_fragment = (xs = []), is_first_fragment = f, is_fragmented = True\<rparr>"
    by simp_all
  let ?j = "joined (held s) p"
  have j: "?j = (if f then [] else held s) @ x" using p by (simp add: joined_def)
  have a: "accepts (to_come s) p" using p(4) Cons.prems(4) by (auto simp: accepts_def)
  have l: "length ?j \<le> room" using Cons.prems(5) by (simp add: j)
  obtain r t where r: "receive p s = (r, t)" by force
  have rt: "ready t" "r = (if xs = [] then Source ?j else More)"
    "to_come t = (if xs = [] then 0 else Suc (length xs))" "xs \<noteq> [] \<longrightarrow> held t = ?j"
    using fragment [OF Cons.prems(3) p(1) a _ l] ready [OF Cons.prems(3), of p] p(4) r by auto
  show ?case
  proof (cases "xs = []")
    case True
    then show ?thesis using p(3) ps r rt j by simp
  next
    case False
    have "length ((if False then [] else held t) @ concat xs) \<le> room"
      using Cons.prems(5) rt(4) False by (simp add: j)
    from Cons.IH [OF p(3) False rt(1) _ this] rt(3) False have
      "fst (receives receive qs t) = replicate (length xs - 1) More @ [Source (held t @ concat xs)]"
      "to_come (snd (receives receive qs t)) = 0" "ready (snd (receives receive qs t))" by simp_all
    moreover have "replicate (length (x # xs) - 1) More = More # replicate (length xs - 1) More"
      using False by (cases xs) simp_all
    ultimately show ?thesis using ps r rt(2,4) False j by (simp add: case_prod_unfold Let_def del: replicate_Suc)
  qed
qed

text \<open>A frame sent in fragments comes out whole, as if it had come in one packet.\<close>

theorem reassembles:
  assumes "fragments True xs ps" "xs \<noteq> []" "ready s" "length (concat xs) \<le> room"
    "full_header p" "\<not> is_fragmented (frag p)" "frame_count (frag p) = 1" "body p = concat xs"
  shows "fst (receives receive ps s) = replicate (length xs - 1) More @ [fst (receive p s)] \<and>
    fst (receive p s) = Source (concat xs)"
  using receives_fragments [OF assms(1-3)] single [OF assms(3,5-7)] assms(4,8) by simp

text \<open>
  The sequence number of the packets is not looked at: when as many packets are lost as a frame has
  fragments, beginning behind the first, the rest of the next frame joins the start of this one.
\<close>

theorem loss_mixes:
  assumes "fragments True xs ps" "fragments True ys qs" "length xs = length ys" "2 \<le> length xs" "ready s"
    "length (hd xs) + length (concat (tl ys)) \<le> room"
  shows "fst (receives receive (hd ps # tl qs) s) = replicate (length xs - 1) More @ [Source (hd xs @ concat (tl ys))]"
proof -
  obtain x xs' where xs: "xs = x # xs'" "xs' \<noteq> []" using assms(4) by (cases xs; cases "tl xs") auto
  obtain y ys' where ys: "ys = y # ys'" "ys' \<noteq> []" using assms(3,4) by (cases ys; cases "tl ys") auto
  obtain p ps' where ps: "ps = p # ps'" using assms(1) xs(1) by (cases ps) auto
  obtain q qs' where qs: "qs = q # qs'" using assms(2) ys(1) by (cases qs) auto
  from assms(1) have p: "full_header p" "body p = x"
    "frag p = \<lparr>frame_count = Suc (length xs'), is_last_fragment = (xs' = []), is_first_fragment = True, is_fragmented = True\<rparr>"
    by (simp_all add: xs(1) ps)
  have q: "fragments False ys' qs'" using assms(2) by (simp add: ys(1) qs)
  have l: "length xs' = length ys'" using assms(3) xs ys by simp
  have j: "joined (held s) p = x" using p by (simp add: joined_def)
  have a: "accepts (to_come s) p" using p(3) by (simp add: accepts_def)
  have r: "length x + length (concat ys') \<le> room" using assms(6) by (simp add: xs(1) ys(1))
  obtain g t where t: "receive p s = (g, t)" by force
  have st: "ready t" "to_come t = Suc (length ys')" "held t = x"
    using fragment [OF assms(5) p(1) a] ready [OF assms(5), of p] p(3) j r t l xs(2) by auto
  have "fst (receives receive qs' t) = replicate (length ys' - 1) More @ [Source (x @ concat ys')]"
    using receives_fragments [OF q ys(2) st(1)] st(2,3) r by simp
  moreover have "g = More" using fragment [OF assms(5) p(1) a] p(3) j r t l xs(2) by auto
  moreover have "replicate (length xs - 1) More = More # replicate (length ys' - 1) More"
    using ys(2) by (cases ys') (simp_all add: xs(1) l)
  ultimately show ?thesis using ps qs t by (simp add: xs(1) ys(1) case_prod_unfold Let_def del: replicate_Suc)
qed

lemma receives_ready: "ready s \<Longrightarrow> ready (snd (receives receive ps s))"
proof (induction ps arbitrary: s)
  case (Cons p ps)
  then show ?case using ready [OF Cons.prems, of p] by (simp add: case_prod_unfold Let_def)
qed simp

lemma receives_chain:
  assumes "ready s" "to_come s = 0" "\<forall>p\<in>set ps. full_header p" "to_come (snd (receives receive ps s)) \<noteq> 0"
  shows "\<exists>qs. subseq qs ps \<and> fragment_chain qs (to_come (snd (receives receive ps s))) \<and>
    held (snd (receives receive ps s)) = take room (concat (map body qs))"
  using assms
proof (induction ps rule: rev_induct)
  case Nil
  then show ?case by simp
next
  case (snoc p ps)
  let ?t = "snd (receives receive ps s)" and ?u = "snd (receives receive (ps @ [p]) s)"
  have u: "?u = snd (receive p ?t)" by (simp add: receives_append case_prod_unfold Let_def)
  have rt: "ready ?t" by (rule receives_ready [OF snoc.prems(1)])
  have fp: "full_header p" "\<forall>p\<in>set ps. full_header p" using snoc.prems(3) by auto
  have IH: "\<exists>qs. subseq qs ps \<and> fragment_chain qs (to_come ?t) \<and> held ?t = take room (concat (map body qs))"
    if "to_come ?t \<noteq> 0" using snoc.IH snoc.prems(1,2) fp(2) that by blast
  from kept [OF rt fp(1)] snoc.prems(4) consider
    (join) "accepts (to_come ?t) p" "to_come ?u = frame_count (frag p)" "held ?u = take room (joined (held ?t) p)"
  | (keep) "to_come ?u = to_come ?t" "held ?u = held ?t" unfolding u by blast
  then show ?case
  proof cases
    case keep
    with IH snoc.prems(4) obtain qs where "subseq qs ps" "fragment_chain qs (to_come ?t)"
      "held ?t = take room (concat (map body qs))" by auto
    then show ?thesis using keep by (intro exI [of _ qs]) (simp add: list_emb_prefix)
  next
    case join
    show ?thesis
    proof (cases "is_first_fragment (frag p)")
      case True
      have "fragment_chain [p] (frame_count (frag p))"
        using join(1) True by (intro fragment_chain.first) (simp_all add: accepts_def)
      then show ?thesis using join True
        by (intro exI [of _ "[p]"]) (simp add: joined_def list_emb_append2)
    next
      case False
      with join(1) have c: "frame_count (frag p) + 1 = to_come ?t" "is_fragmented (frag p)" by (simp_all add: accepts_def)
      with IH obtain qs where qs: "subseq qs ps" "fragment_chain qs (to_come ?t)"
        "held ?t = take room (concat (map body qs))" by auto
      have "held ?u = take room (concat (map body (qs @ [p])))"
        using join(3) False qs(3) by (simp add: joined_def del: take_append)
      moreover have "fragment_chain (qs @ [p]) (to_come ?u)"
        unfolding join(2) by (rule fragment_chain.more [OF qs(2) c(2) False c(1)])
      moreover have "subseq (qs @ [p]) (ps @ [p])" using qs(1) by simp
      ultimately show ?thesis by blast
    qed
  qed
qed

text \<open>
  What the decoder is given for the fragments of a frame is the octets of fragments that were received
  in this order, from a first one down to the one with count 1, with no other in between but those that
  were refused.
\<close>

theorem no_mix:
  assumes "ready s" "to_come s = 0" "\<forall>q\<in>set (ps @ [p]). full_header q"
    "is_fragmented (frag p)" "frame_count (frag p) \<noteq> 0"
    "fst (receive p (snd (receives receive ps s))) = Source x"
  shows "\<exists>qs. subseq (qs @ [p]) (ps @ [p]) \<and> fragment_chain (qs @ [p]) 1 \<and>
    x = take room (concat (map body (qs @ [p])))"
proof -
  let ?t = "snd (receives receive ps s)"
  have rt: "ready ?t" by (rule receives_ready [OF assms(1)])
  have fp: "full_header p" "\<forall>p\<in>set ps. full_header p" using assms(3) by auto
  from source [OF rt fp(1) assms(4,5,6)] have a: "accepts (to_come ?t) p" "frame_count (frag p) = 1"
    "x = take room (joined (held ?t) p)" by simp_all
  show ?thesis
  proof (cases "is_first_fragment (frag p)")
    case True
    have "fragment_chain ([] @ [p]) 1" using fragment_chain.first [OF assms(4) True] a(2) by simp
    then show ?thesis using a(3) True by (intro exI [of _ "[]"]) (simp add: joined_def list_emb_append2)
  next
    case False
    with a have c: "frame_count (frag p) + 1 = to_come ?t" by (simp add: accepts_def)
    with receives_chain [OF assms(1,2) fp(2)] obtain qs where qs: "subseq qs ps" "fragment_chain qs (to_come ?t)"
      "held ?t = take room (concat (map body qs))" by auto
    have "fragment_chain (qs @ [p]) 1"
      using fragment_chain.more [OF qs(2) assms(4) False c] a(2) by simp
    moreover have "x = take room (concat (map body (qs @ [p])))"
      using a(3) False qs(3) by (simp add: joined_def del: take_append)
    moreover have "subseq (qs @ [p]) (ps @ [p])" using qs(1) by simp
    ultimately show ?thesis by blast
  qed
qed

end

text \<open>
  A decoder that gives up a frame whenever it refuses a packet: then the fragments were received with
  nothing in between.
\<close>

locale strict_fragment_decoder = fragment_decoder +
  assumes strict: "\<lbrakk>ready s; full_header p; to_come (snd (receive p s)) \<noteq> 0\<rbrakk> \<Longrightarrow>
      accepts (to_come s) p \<and> to_come (snd (receive p s)) = frame_count (frag p) \<and>
        held (snd (receive p s)) = take room (joined (held s) p)"
begin

lemma receives_strict:
  assumes "ready s" "to_come s = 0" "\<forall>p\<in>set ps. full_header p" "to_come (snd (receives receive ps s)) \<noteq> 0"
  shows "\<exists>qs. suffix qs ps \<and> fragment_chain qs (to_come (snd (receives receive ps s))) \<and>
    held (snd (receives receive ps s)) = take room (concat (map body qs))"
  using assms
proof (induction ps rule: rev_induct)
  case Nil
  then show ?case by simp
next
  case (snoc p ps)
  let ?t = "snd (receives receive ps s)" and ?u = "snd (receives receive (ps @ [p]) s)"
  have u: "?u = snd (receive p ?t)" by (simp add: receives_append case_prod_unfold Let_def)
  have rt: "ready ?t" by (rule receives_ready [OF snoc.prems(1)])
  have fp: "full_header p" "\<forall>p\<in>set ps. full_header p" using snoc.prems(3) by auto
  from strict [OF rt fp(1)] snoc.prems(4) have a: "accepts (to_come ?t) p" "to_come ?u = frame_count (frag p)"
    "held ?u = take room (joined (held ?t) p)" unfolding u by blast+
  show ?case
  proof (cases "is_first_fragment (frag p)")
    case True
    have "fragment_chain [p] (to_come ?u)"
      unfolding a(2) using a(1) True by (intro fragment_chain.first) (simp_all add: accepts_def)
    moreover have "held ?u = take room (concat (map body [p]))" using a(3) True by (simp add: joined_def)
    moreover have "suffix [p] (ps @ [p])" by (simp add: suffix_def)
    ultimately show ?thesis by blast
  next
    case False
    with a(1) have c: "frame_count (frag p) + 1 = to_come ?t" "is_fragmented (frag p)" by (simp_all add: accepts_def)
    with snoc.IH snoc.prems(1,2) fp(2) obtain qs where qs: "suffix qs ps" "fragment_chain qs (to_come ?t)"
      "held ?t = take room (concat (map body qs))" by auto
    have "held ?u = take room (concat (map body (qs @ [p])))"
      using a(3) False qs(3) by (simp add: joined_def del: take_append)
    moreover have "fragment_chain (qs @ [p]) (to_come ?u)"
      unfolding a(2) by (rule fragment_chain.more [OF qs(2) c(2) False c(1)])
    moreover have "suffix (qs @ [p]) (ps @ [p])" using qs(1) by simp
    ultimately show ?thesis by blast
  qed
qed

theorem no_gap:
  assumes "ready s" "to_come s = 0" "\<forall>q\<in>set (ps @ [p]). full_header q"
    "is_fragmented (frag p)" "frame_count (frag p) \<noteq> 0"
    "fst (receive p (snd (receives receive ps s))) = Source x"
  shows "\<exists>qs. suffix (qs @ [p]) (ps @ [p]) \<and> fragment_chain (qs @ [p]) 1 \<and>
    x = take room (concat (map body (qs @ [p])))"
proof -
  let ?t = "snd (receives receive ps s)"
  have rt: "ready ?t" by (rule receives_ready [OF assms(1)])
  have fp: "full_header p" "\<forall>p\<in>set ps. full_header p" using assms(3) by auto
  from source [OF rt fp(1) assms(4,5,6)] have a: "accepts (to_come ?t) p" "frame_count (frag p) = 1"
    "x = take room (joined (held ?t) p)" by simp_all
  show ?thesis
  proof (cases "is_first_fragment (frag p)")
    case True
    have "fragment_chain ([] @ [p]) 1" using fragment_chain.first [OF assms(4) True] a(2) by simp
    moreover have "suffix ([] @ [p]) (ps @ [p])" by (simp add: suffix_def)
    ultimately show ?thesis using a(3) True by (intro exI [of _ "[]"]) (simp add: joined_def)
  next
    case False
    with a have c: "frame_count (frag p) + 1 = to_come ?t" by (simp add: accepts_def)
    with receives_strict [OF assms(1,2) fp(2)] obtain qs where qs: "suffix qs ps" "fragment_chain qs (to_come ?t)"
      "held ?t = take room (concat (map body qs))" by auto
    have "fragment_chain (qs @ [p]) 1"
      using fragment_chain.more [OF qs(2) assms(4) False c] a(2) by simp
    moreover have "x = take room (concat (map body (qs @ [p])))"
      using a(3) False qs(3) by (simp add: joined_def del: take_append)
    moreover have "suffix (qs @ [p]) (ps @ [p])" using qs(1) by simp
    ultimately show ?thesis by blast
  qed
qed

end

text \<open>
  A decoder with what it does to the octets: \<open>packet\<close> is the way of a packet through the functions of the
  wrapper and gives what is handed over; \<open>decoded\<close> is the part behind the reassembly, and \<open>embed\<close> makes
  the state of both from that of the reassembly and the rest. \<open>shown\<close> is the part of the state that does
  not belong to the reassembly.
\<close>

fun packets_of :: "(bt_hdr \<Rightarrow> 'x \<Rightarrow> ('o list \<times> 'x) option) \<Rightarrow> bt_hdr list \<Rightarrow> 'x \<Rightarrow> ('o list \<times> 'x) option" where
  "packets_of f [] x = Some ([], x)"
| "packets_of f (p # ps) x =
     do {
       (pcm, x) \<leftarrow> f p x;
       (pcms, x) \<leftarrow> packets_of f ps x;
       Some (pcm @ pcms, x)
     }"

definition view_of :: "('x \<Rightarrow> 'v) \<Rightarrow> ('o list \<times> 'x) option \<Rightarrow> ('o list \<times> 'v) option" where
  "view_of shown = map_option (apsnd shown)"

lemma length_receives: "length (fst (receives f ps s)) = length ps"
  by (induction ps arbitrary: s) (simp_all add: case_prod_unfold Let_def)

locale packet_decoder = fragment_decoder receive ready to_come held room
  for receive :: "bt_hdr \<Rightarrow> 's \<Rightarrow> gathered \<times> 's" and ready :: "'s \<Rightarrow> bool" and to_come :: "'s \<Rightarrow> nat"
    and held :: "'s \<Rightarrow> u8 list" and room :: nat +
  fixes embed :: "'s \<Rightarrow> 'm \<Rightarrow> 'x" and packet :: "bt_hdr \<Rightarrow> 'x \<Rightarrow> ('o list \<times> 'x) option"
    and decoded :: "u8 list \<Rightarrow> 's \<Rightarrow> 'm \<Rightarrow> ('o list \<times> 'x) option" and shown :: "'x \<Rightarrow> 'v"
  assumes packet: "ready s \<Longrightarrow> packet p (embed s m) =
      (case receive p s of (Source src, s) \<Rightarrow> decoded src s m | (_, s) \<Rightarrow> Some ([], embed s m))"
    and view: "ready s \<Longrightarrow> view_of shown (decoded src (snd (receive p s)) m) = view_of shown (decoded src s m)"
begin

lemma view_receives:
  "ready s \<Longrightarrow> view_of shown (decoded src (snd (receives receive ps s)) m) = view_of shown (decoded src s m)"
proof (induction ps arbitrary: s)
  case (Cons p ps)
  from Cons.IH [OF ready [OF Cons.prems, of p]] view [OF Cons.prems] show ?case by (simp add: case_prod_unfold Let_def)
qed simp

lemma gathered:
  assumes "ready s" "fst (receives receive ps s) = replicate k More @ [Source src]"
  shows "packets_of packet ps (embed s m) = decoded src (snd (receives receive ps s)) m"
  using assms
proof (induction ps arbitrary: k s)
  case Nil
  then show ?case by simp
next
  case (Cons p ps)
  obtain g t where g: "receive p s = (g, t)" by force
  have r: "ready t" using ready [OF Cons.prems(1), of p] g by simp
  show ?case
  proof (cases k)
    case 0
    then have src: "g = Source src" "fst (receives receive ps t) = []"
      using Cons.prems(2) g by (simp_all add: case_prod_unfold Let_def)
    then have "ps = []" using length_receives [of receive ps t] by simp
    then show ?thesis using g src(1)
      by (cases "decoded src t m") (simp_all add: packet [OF Cons.prems(1)] case_prod_unfold)
  next
    case (Suc j)
    then have "g = More" "fst (receives receive ps t) = replicate j More @ [Source src]"
      using Cons.prems(2) g by (simp_all add: case_prod_unfold Let_def)
    with Cons.IH [OF r this(2)] g show ?thesis
      by (cases "decoded src (snd (receives receive ps t)) m")
        (simp_all add: packet [OF Cons.prems(1)] case_prod_unfold Let_def)
  qed
qed

lemma gathered_view:
  assumes "ready s" "fst (receives receive ps s) = replicate k More @ [Source src]"
  shows "view_of shown (packets_of packet ps (embed s m)) = view_of shown (decoded src s m)"
  unfolding gathered [OF assms] by (rule view_receives [OF assms(1)])

lemma single_view:
  assumes "ready s" "full_header p" "\<not> is_fragmented (frag p)" "frame_count (frag p) = 1"
  shows "view_of shown (packets_of packet [p] (embed s m)) = view_of shown (decoded (body p) s m)"
  by (rule gathered_view [OF assms(1), where k = 0]) (use single [OF assms] in \<open>simp add: case_prod_unfold Let_def\<close>)

text \<open>Fragmentation is transparent: a frame in fragments is handled as in one packet.\<close>

theorem transparent:
  assumes "fragments True xs ps" "xs \<noteq> []" "ready s" "length (concat xs) \<le> room"
    "full_header p" "\<not> is_fragmented (frag p)" "frame_count (frag p) = 1" "body p = concat xs"
  shows "view_of shown (packets_of packet ps (embed s m)) = view_of shown (decoded (concat xs) s m) \<and>
    view_of shown (packets_of packet [p] (embed s m)) = view_of shown (decoded (concat xs) s m)"
proof -
  have "fst (receives receive ps s) = replicate (length xs - 1) More @ [Source (concat xs)]"
    using reassembles [OF assms] by simp
  from gathered_view [OF assms(3) this] single_view [OF assms(3,5-7)] assms(8) show ?thesis by simp
qed

theorem loss_mixes_view:
  assumes "fragments True xs ps" "fragments True ys qs" "length xs = length ys" "2 \<le> length xs" "ready s"
    "length (hd xs) + length (concat (tl ys)) \<le> room"
    "full_header p" "\<not> is_fragmented (frag p)" "frame_count (frag p) = 1" "body p = hd xs @ concat (tl ys)"
  shows "view_of shown (packets_of packet (hd ps # tl qs) (embed s m)) = view_of shown (packets_of packet [p] (embed s m))"
  using gathered_view [OF assms(5) loss_mixes [OF assms(1-6)]] single_view [OF assms(5,7-9)] assms(10) by simp

end

end
