(* ===== verification/Lhdcv5_Decoder.thy ===== *)
theory Lhdcv5_Decoder
  imports A2DP_Lhdcv5 Lhdc_Channel Media_Packet
begin

text \<open>
  stack/a2dp/a2dp_vendor_lhdcv5_decoder.c, the wrapper of the LHDC V5 decoder for the sink, and
  \<open>lhdc_dec_decode_frame\<close> of external/lhdc-v5/lhdc_dec.c that it calls. The integer part of a channel is
  \<open>lhdc_dec_decode_channel\<close> of the theory \<open>Lhdc_Channel\<close>; the synthesis behind it, which computes with
  floats, is a parameter.
\<close>

subsection \<open>A frame\<close>

text \<open>
  The synthesis: the samples of a channel from its spectrum and the overlap buffers (gain, inverse
  transform, overlap-add); silence; and the integer samples \<open>lv\<close> and \<open>rv\<close> of the interleaving loop after
  scaling, concealment and clipping, for the given width of the output.
\<close>

record ('o, 'f) lhdc_synth =
  sy_channel :: "lhdc_decoder \<Rightarrow> nat \<Rightarrow> u32 list \<Rightarrow> 'o \<Rightarrow> 'f \<times> 'o"
  sy_silence :: 'f
  sy_pcm :: "lhdc_decoder \<Rightarrow> nat \<Rightarrow> 'f \<Rightarrow> 'f \<Rightarrow> 'o \<Rightarrow> (nat \<Rightarrow> u32 \<times> u32) \<times> 'o"

text \<open>The decoder with the models of the entropy decoder and the overlap buffers.\<close>

type_synonym 'o lhdc_state = "lhdc_decoder \<times> lhdc_entropy \<times> 'o"

record lhdc_dec_frame_info_t =
  fi_frame_index :: u32
  fi_encoded_frame_bytes :: u32
  fi_samples_per_channel :: u32
  fi_channels :: u8
  fi_sample_rate :: u32
  fi_bit_depth :: u8
  fi_frame_duration_ms :: u8
  fi_version :: u8

text \<open>\<open>lhdc_dec_decode_channel_autosel\<close> as it is compiled for the ESP32: one decoding, without a retry.\<close>

definition lhdc_dec_decode_channel_autosel ::
    "('o, 'f) lhdc_synth \<Rightarrow> buf \<Rightarrow> 'o lhdc_state \<Rightarrow> nat \<Rightarrow> (lhdc_dec_ret_t \<times> 'o lhdc_state \<times> 'f) option" where
  "lhdc_dec_decode_channel_autosel S fac_buf st channel =
     (case st of (dec, e, ov) \<Rightarrow> do {
        (ret, dec, e, qs) \<leftarrow> lhdc_dec_decode_channel e dec fac_buf channel (- 1);
        let (f, ov) = (if ret = LHDC_DEC_OK then sy_channel S dec channel qs ov else (sy_silence S, ov));
        Some (ret, (dec, e, ov), f)
      })"

text \<open>An integer of \<open>w\<close> octets at the index \<open>i\<close> of the output, and the samples of one instant.\<close>

definition put_sample :: "nat \<Rightarrow> buf \<Rightarrow> nat \<Rightarrow> u32 \<Rightarrow> buf" where
  "put_sample w out i v = store out (w * i) (map (\<lambda>k. ucast (drop_bit (8 * k) v)) [0..<w])"

definition put_instant :: "nat \<Rightarrow> nat \<Rightarrow> (nat \<Rightarrow> u32 \<times> u32) \<Rightarrow> nat \<Rightarrow> buf \<Rightarrow> buf" where
  "put_instant bytes_per_sample channels pcm n out =
     (let (lv, rv) = pcm n;
          put = (\<lambda>w l r. let out = put_sample w out (n * channels) l
                          in if channels \<ge> 2 then put_sample w out (n * channels + 1) r else out)
      in if bytes_per_sample = 2 then put 2 lv rv
         else if bytes_per_sample = 3 then put 4 (push_bit 8 lv) (push_bit 8 rv)
         else if bytes_per_sample = 4 then put 4 lv rv
         else out)"

text \<open>
  \<open>lhdc_dec_decode_frame\<close> from the channels on, and from the interleaving on, with \<open>frame_consumed\<close>. The
  result is the status, the state, the output, and \<open>*consumed\<close>, \<open>*generated\<close> and \<open>*info\<close>, which is \<open>None\<close>
  when it is not written. The fields of \<open>info\<close> that are never set in a frame header are left out.
\<close>

type_synonym 'o frame_result = "lhdc_dec_ret_t \<times> 'o lhdc_state \<times> buf \<times> nat \<times> nat \<times> lhdc_dec_frame_info_t option"

definition frame_output ::
    "('o, 'f) lhdc_synth \<Rightarrow> 'o lhdc_state \<Rightarrow> 'f \<Rightarrow> 'f \<Rightarrow> buf \<Rightarrow> nat \<Rightarrow> 'o frame_result" where
  "frame_output S st l r out_pcm frame_consumed =
     (let (dec, e, ov) = st;
          samples_per_ch = unat (fh_samples_per_channel (dc_header dec));
          channels = unat (fh_channels (dc_header dec));
          out_bit_depth = (if fh_bit_depth (dc_header dec) = 24 then 32 else unat (fh_bit_depth (dc_header dec)));
          (pcm, ov) = sy_pcm S dec out_bit_depth l r ov;
          out_pcm = fold (put_instant (out_bit_depth div 8) channels pcm) [0..<samples_per_ch] out_pcm;
          dec = dec\<lparr>dc_frame_index := dc_frame_index dec + 1\<rparr>;
          info = \<lparr>fi_frame_index = dc_frame_index dec - 1,
            fi_encoded_frame_bytes = ucast (fh_frame_bytes (dc_header dec)),
            fi_samples_per_channel = ucast (fh_samples_per_channel (dc_header dec)),
            fi_channels = fh_channels (dc_header dec), fi_sample_rate = fh_sample_rate (dc_header dec),
            fi_bit_depth = of_nat out_bit_depth, fi_frame_duration_ms = fh_frame_duration_ms (dc_header dec),
            fi_version = fh_version (dc_header dec)\<rparr>
      in (LHDC_DEC_OK, (dec, e, ov), out_pcm, frame_consumed, samples_per_ch, Some info))"

definition frame_channels ::
    "('o, 'f) lhdc_synth \<Rightarrow> buf \<Rightarrow> 'o lhdc_state \<Rightarrow> buf \<Rightarrow> nat \<Rightarrow> 'o frame_result option" where
  "frame_channels S fac_buf st out_pcm frame_consumed =
     do {
       (ret, st, l) \<leftarrow> lhdc_dec_decode_channel_autosel S fac_buf st 0;
       if ret \<noteq> LHDC_DEC_OK then Some (ret, st, out_pcm, 0, 0, None)
       else if unat (fh_channels (dc_header (fst st))) \<ge> 2
       then do {
         (ret, st, r) \<leftarrow> lhdc_dec_decode_channel_autosel S fac_buf st 1;
         Some (frame_output S st l (if ret \<noteq> LHDC_DEC_OK then sy_silence S else r) out_pcm frame_consumed)
       }
       else Some (frame_output S st l l out_pcm frame_consumed)
     }"

definition lhdc_dec_decode_frame ::
    "('o, 'f) lhdc_synth \<Rightarrow> buf \<Rightarrow> (nat \<Rightarrow> int) \<Rightarrow> 'o lhdc_state \<Rightarrow> buf \<Rightarrow> nat \<Rightarrow> buf \<Rightarrow> nat \<Rightarrow> 'o frame_result option" where
  "lhdc_dec_decode_frame S fac_buf imdct st in_data in_bytes out_pcm out_samples =
     (case st of (dec, e, ov) \<Rightarrow>
        (case lhdc_dec_begin_frame (Some dec) (Some in_data) in_bytes True out_samples imdct of
           (ret, None, c) \<Rightarrow> None
         | (ret, Some dec, frame_consumed) \<Rightarrow>
             if ret \<noteq> LHDC_DEC_OK then Some (ret, (dec, e, ov), out_pcm, 0, 0, None)
             else frame_channels S fac_buf (dec, e, ov) out_pcm frame_consumed))"

subsection \<open>The control block\<close>

text \<open>
  \<open>tA2DP_LHDCV5_DECODER_CB\<close>; the decoder, in the storage of the workspace, comes with the state of the
  entropy decoder and the overlap buffers. The workspace is its size, zero when it is NULL.
\<close>

abbreviation (input) LHDCV5_FRAGMENT_BUF_SIZE :: nat where "LHDCV5_FRAGMENT_BUF_SIZE \<equiv> 3 * 1024"
abbreviation (input) LHDCV5_MAX_PCM_BYTES :: nat where "LHDCV5_MAX_PCM_BYTES \<equiv> 4 * 2000"

record 'o tA2DP_LHDCV5_DECODER_CB =
  lh_workspace_size :: nat
  lh_decoder :: "'o lhdc_state option"
  lh_fragment_size :: nat
  lh_fragment_count :: nat
  lh_fragment :: buf
  lh_callback :: bool

definition lhdcv5_cb_zero :: "'o tA2DP_LHDCV5_DECODER_CB" where
  "lhdcv5_cb_zero = \<lparr>lh_workspace_size = 0, lh_decoder = None, lh_fragment_size = 0, lh_fragment_count = 0,
     lh_fragment = (\<lambda>_. 0), lh_callback = False\<rparr>"

definition a2dp_lhdcv5_decoder_init ::
    "bool \<Rightarrow> bool \<Rightarrow> 'o tA2DP_LHDCV5_DECODER_CB option \<Rightarrow> bool \<times> 'o tA2DP_LHDCV5_DECODER_CB option" where
  "a2dp_lhdcv5_decoder_init mem decode_callback s_lhdc_cb =
     (case (if s_lhdc_cb = None \<and> mem then Some lhdcv5_cb_zero else s_lhdc_cb) of
        None \<Rightarrow> (False, None)
      | Some cb \<Rightarrow>
          (True, Some (lhdcv5_cb_zero\<lparr>lh_callback := decode_callback, lh_workspace_size := lh_workspace_size cb\<rparr>)))"

definition a2dp_lhdcv5_decoder_cleanup :: "'o tA2DP_LHDCV5_DECODER_CB option \<Rightarrow> 'o tA2DP_LHDCV5_DECODER_CB option" where
  "a2dp_lhdcv5_decoder_cleanup s_lhdc_cb = None"

definition lhdcv5_config :: "tA2DP_LHDCV5_CIE \<Rightarrow> lhdc_dec_config_t" where
  "lhdcv5_config cie =
     \<lparr>cf_sample_rate =
        (if lhdcv5_sampleRate cie AND A2DP_LHDCV5_SAMPLING_FREQ_192000 \<noteq> 0 then 192000
         else if lhdcv5_sampleRate cie AND A2DP_LHDCV5_SAMPLING_FREQ_96000 \<noteq> 0 then 96000
         else if lhdcv5_sampleRate cie AND A2DP_LHDCV5_SAMPLING_FREQ_48000 \<noteq> 0 then 48000
         else if lhdcv5_sampleRate cie AND A2DP_LHDCV5_SAMPLING_FREQ_44100 \<noteq> 0 then 44100
         else 48000),
      cf_bit_depth = (if lhdcv5_bitsPerSample cie AND A2DP_LHDCV5_BITS_PER_SAMPLE_24 \<noteq> 0 then 24 else 16),
      cf_frame_duration = 5, cf_channels = 2, cf_max_frame_bytes = of_nat LHDCV5_FRAGMENT_BUF_SIZE,
      cf_lossless_enable = 0\<rparr>"

text \<open>
  \<open>need\<close> is the size of the workspace, \<open>mem_ws\<close> and \<open>mem_tails\<close> are its allocation and that of the work
  buffers; \<open>fresh\<close> are the entropy models and overlap buffers after the initialisation.
\<close>

definition a2dp_lhdcv5_decoder_configure ::
    "nat \<Rightarrow> bool \<Rightarrow> bool \<Rightarrow> lhdc_entropy \<times> 'o \<Rightarrow> buf \<Rightarrow> 'o tA2DP_LHDCV5_DECODER_CB option \<Rightarrow>
      'o tA2DP_LHDCV5_DECODER_CB option" where
  "a2dp_lhdcv5_decoder_configure need mem_ws mem_tails fresh p_codec_info s_lhdc_cb =
     (case s_lhdc_cb of
        None \<Rightarrow> None
      | Some cb \<Rightarrow>
          (case A2DP_ParseInfoLhdcV5 (Some lhdcv5_cie_zero) (Some p_codec_info) False of
             (status, None) \<Rightarrow> Some cb
           | (status, Some cie) \<Rightarrow>
               if status \<noteq> A2D_SUCCESS then Some cb
               else
                 let cb = cb\<lparr>lh_decoder := None\<rparr>;
                     grow = (lh_workspace_size cb = 0 \<or> lh_workspace_size cb < need)
                 in if grow \<and> \<not> mem_ws then Some (cb\<lparr>lh_workspace_size := 0\<rparr>)
                    else
                      let cb = (if grow then cb\<lparr>lh_workspace_size := need\<rparr> else cb)
                      in Some (cb\<lparr>lh_decoder := map_option (\<lambda>dec. (dec, fresh)) (lhdc_dec_init mem_tails (Some (lhdcv5_config cie))),
                                 lh_fragment_size := 0, lh_fragment_count := 0\<rparr>)))"

subsection \<open>A packet\<close>

definition a2dp_lhdcv5_decoder_decode_packet_header ::
    "bt_hdr \<Rightarrow> 'o tA2DP_LHDCV5_DECODER_CB option \<Rightarrow> int \<times> bt_hdr \<times> 'o tA2DP_LHDCV5_DECODER_CB option" where
  "a2dp_lhdcv5_decoder_decode_packet_header p_buf s_lhdc_cb =
     (let header_len = MEDIA_PACKET_HEADER + MEDIA_PAYLOAD_HEADER
      in if unat (bh_len p_buf) < header_len then (- EINVAL, p_buf, s_lhdc_cb)
         else case s_lhdc_cb of
           None \<Rightarrow> (- EINVAL, p_buf, None)
         | Some cb \<Rightarrow>
             let payload = frag p_buf
             in if is_fragmented payload
                then if \<not> is_first_fragment payload \<and>
                        (frame_count payload + 1 \<noteq> lh_fragment_count cb \<or>
                         frame_count payload = 1 \<and> \<not> is_last_fragment payload)
                     then (- EINVAL, p_buf, Some (cb\<lparr>lh_fragment_count := 0, lh_fragment_size := 0\<rparr>))
                     else
                       let cb = (if is_first_fragment payload then cb\<lparr>lh_fragment_size := 0\<rparr> else cb)
                       in (0, skip_octets header_len p_buf, Some (cb\<lparr>lh_fragment_count := frame_count payload\<rparr>))
                else (0, skip_octets header_len p_buf, Some (cb\<lparr>lh_fragment_count := 0, lh_fragment_size := 0\<rparr>)))"

text \<open>The part of \<open>a2dp_lhdcv5_decoder_decode_packet\<close> that joins fragments.\<close>

definition lhdcv5_gather ::
    "bt_hdr \<Rightarrow> 'o tA2DP_LHDCV5_DECODER_CB \<Rightarrow> gathered \<times> 'o tA2DP_LHDCV5_DECODER_CB" where
  "lhdcv5_gather p_buf cb =
     (if lh_fragment_count cb > 0
      then if unat (bh_len p_buf) > LHDCV5_FRAGMENT_BUF_SIZE - lh_fragment_size cb
           then (Refused, cb\<lparr>lh_fragment_count := 0, lh_fragment_size := 0\<rparr>)
           else
             let cb = cb\<lparr>lh_fragment := store (lh_fragment cb) (lh_fragment_size cb) (pkt_octets p_buf),
                         lh_fragment_size := lh_fragment_size cb + unat (bh_len p_buf)\<rparr>
             in if lh_fragment_count cb > 1 then (More, cb)
                else (Source (map (lh_fragment cb) [0..<lh_fragment_size cb]),
                      cb\<lparr>lh_fragment_count := 0, lh_fragment_size := 0\<rparr>)
      else (Source (pkt_octets p_buf), cb))"

text \<open>
  Its loop over the frames behind the leading octet. \<open>buf\<close> is the output, \<open>pcm\<close> what was handed to the
  callback; the result counts the frames.
\<close>

function lhdcv5_frames ::
    "('o, 'f) lhdc_synth \<Rightarrow> buf \<Rightarrow> (nat \<Rightarrow> int) \<Rightarrow> u8 list \<Rightarrow> nat \<Rightarrow> nat \<Rightarrow> 'o lhdc_state \<Rightarrow> buf \<Rightarrow> u8 list list \<Rightarrow>
      (nat \<times> 'o lhdc_state \<times> buf \<times> u8 list list) option" where
  "lhdcv5_frames S fac_buf imdct src off frames st buf pcm =
     (if off + 2 \<le> length src
      then case lhdc_dec_decode_frame S fac_buf imdct st (bytes (drop off src)) (length src - off) buf 1920 of
             None \<Rightarrow> None
           | Some (ret, st, buf, consumed, generated, info) \<Rightarrow>
               (case info of
                  None \<Rightarrow> Some (frames, st, buf, pcm)
                | Some info \<Rightarrow>
                    if ret \<noteq> LHDC_DEC_OK \<or> consumed = 0 then Some (frames, st, buf, pcm)
                    else
                      let pcm_bytes = generated * unat (fi_channels info) * (unat (fi_bit_depth info) div 8)
                      in lhdcv5_frames S fac_buf imdct src (off + consumed) (Suc frames) st buf
                           (pcm @ [map buf [0..<pcm_bytes]]))
      else Some (frames, st, buf, pcm))"
  by pat_completeness auto
termination
  by (relation "measure (\<lambda>(S, fac_buf, imdct, src, off, frames, st, buf, pcm). length src - off)") auto

declare lhdcv5_frames.simps [simp del]

text \<open>
  \<open>buf_len\<close> is \<open>None\<close> when \<open>buf\<close> is NULL. The result has the answer, the control block, the buffer and what
  was handed to the callback.
\<close>

definition a2dp_lhdcv5_decoder_decode_packet ::
    "('o, 'f) lhdc_synth \<Rightarrow> buf \<Rightarrow> (nat \<Rightarrow> int) \<Rightarrow> bt_hdr \<Rightarrow> buf \<Rightarrow> nat option \<Rightarrow> 'o tA2DP_LHDCV5_DECODER_CB option \<Rightarrow>
      (bool \<times> 'o tA2DP_LHDCV5_DECODER_CB option \<times> buf \<times> u8 list list) option" where
  "a2dp_lhdcv5_decoder_decode_packet S fac_buf imdct p_buf buf buf_len s_lhdc_cb =
     (case s_lhdc_cb of
        None \<Rightarrow> Some (False, None, buf, [])
      | Some cb \<Rightarrow>
          (case (buf_len, lh_decoder cb) of
             (Some n, Some st) \<Rightarrow>
               if \<not> lh_callback cb \<or> n < LHDCV5_MAX_PCM_BYTES then Some (False, Some cb, buf, [])
               else
                 (case lhdcv5_gather p_buf cb of
                    (Refused, cb) \<Rightarrow> Some (False, Some cb, buf, [])
                  | (More, cb) \<Rightarrow> Some (True, Some cb, buf, [])
                  | (Source src, cb) \<Rightarrow> do {
                      (frames, st, buf, pcm) \<leftarrow>
                        lhdcv5_frames S fac_buf imdct src (if length src \<ge> 1 then 1 else 0) 0 st buf [];
                      Some (frames \<noteq> 0, Some (cb\<lparr>lh_decoder := Some st\<rparr>), buf, pcm)
                    })
           | _ \<Rightarrow> Some (False, Some cb, buf, [])))"

text \<open>A packet as \<open>btc_a2dp_sink_handle_inc_media\<close> hands it to the decoder.\<close>

definition lhdcv5_packet ::
    "('o, 'f) lhdc_synth \<Rightarrow> buf \<Rightarrow> (nat \<Rightarrow> int) \<Rightarrow> nat option \<Rightarrow> bt_hdr \<Rightarrow> 'o tA2DP_LHDCV5_DECODER_CB option \<times> buf \<Rightarrow>
      (u8 list list \<times> 'o tA2DP_LHDCV5_DECODER_CB option \<times> buf) option" where
  "lhdcv5_packet S fac_buf imdct buf_len p_msg x =
     (case x of (cb, buf) \<Rightarrow>
        (case a2dp_lhdcv5_decoder_decode_packet_header p_msg cb of (res, p_msg, cb) \<Rightarrow>
           if res < 0 then Some ([], cb, buf)
           else do {
             (ok, cb, buf, pcm) \<leftarrow> a2dp_lhdcv5_decoder_decode_packet S fac_buf imdct p_msg buf buf_len cb;
             Some (pcm, cb, buf)
           }))"

subsection \<open>Fragments\<close>

text \<open>What becomes of a packet when the decoder is configured, up to the frames.\<close>

definition lhdcv5_receive :: "bt_hdr \<Rightarrow> 'o tA2DP_LHDCV5_DECODER_CB \<Rightarrow> gathered \<times> 'o tA2DP_LHDCV5_DECODER_CB" where
  "lhdcv5_receive p cb =
     (case a2dp_lhdcv5_decoder_decode_packet_header p (Some cb) of
        (res, p, None) \<Rightarrow> (Refused, cb)
      | (res, p, Some cb) \<Rightarrow> if res < 0 then (Refused, cb) else lhdcv5_gather p cb)"

definition lhdcv5_held :: "'o tA2DP_LHDCV5_DECODER_CB \<Rightarrow> u8 list" where
  "lhdcv5_held cb = map (lh_fragment cb) [0..<lh_fragment_size cb]"

definition lhdcv5_fits :: "'o tA2DP_LHDCV5_DECODER_CB \<Rightarrow> bool" where
  "lhdcv5_fits cb = (lh_fragment_size cb \<le> LHDCV5_FRAGMENT_BUF_SIZE)"

lemma lhdcv5_receive_eq:
  assumes "full_header p" "lhdcv5_fits cb"
  shows "lhdcv5_receive p cb =
    (let size = (if is_first_fragment (frag p) then 0 else lh_fragment_size cb); j = joined (lhdcv5_held cb) p
     in if \<not> is_fragmented (frag p) then (Source (body p), cb\<lparr>lh_fragment_count := 0, lh_fragment_size := 0\<rparr>)
        else if \<not> accepts (lh_fragment_count cb) p then (Refused, cb\<lparr>lh_fragment_count := 0, lh_fragment_size := 0\<rparr>)
        else if frame_count (frag p) = 0 then (Source (body p), cb\<lparr>lh_fragment_count := 0, lh_fragment_size := size\<rparr>)
        else if length j > LHDCV5_FRAGMENT_BUF_SIZE then (Refused, cb\<lparr>lh_fragment_count := 0, lh_fragment_size := 0\<rparr>)
        else if frame_count (frag p) > 1
        then (More, cb\<lparr>lh_fragment := store (lh_fragment cb) size (body p), lh_fragment_size := length j,
                      lh_fragment_count := frame_count (frag p)\<rparr>)
        else (Source j, cb\<lparr>lh_fragment := store (lh_fragment cb) size (body p), lh_fragment_size := 0,
                           lh_fragment_count := 0\<rparr>))"
proof -
  have len: "13 \<le> unat (bh_len p)" using assms(1) by (simp add: full_header_def)
  have b: "pkt_octets (skip_octets 13 p) = body p" by (rule pkt_octets_body [OF assms(1)])
  then have l: "unat (bh_len (skip_octets 13 p)) = length (body p)" by (metis length_pkt_octets)
  have h: "a2dp_lhdcv5_decoder_decode_packet_header p (Some cb) =
    (if is_fragmented (frag p)
     then if \<not> accepts (lh_fragment_count cb) p
          then (- EINVAL, p, Some (cb\<lparr>lh_fragment_count := 0, lh_fragment_size := 0\<rparr>))
          else (0, skip_octets 13 p,
            Some (cb\<lparr>lh_fragment_size := (if is_first_fragment (frag p) then 0 else lh_fragment_size cb),
                     lh_fragment_count := frame_count (frag p)\<rparr>))
     else (0, skip_octets 13 p, Some (cb\<lparr>lh_fragment_count := 0, lh_fragment_size := 0\<rparr>)))"
    using len by (auto simp: a2dp_lhdcv5_decoder_decode_packet_header_def accepts_def Let_def)
  have j: "length (joined (lhdcv5_held cb) p) =
      (if is_first_fragment (frag p) then 0 else lh_fragment_size cb) + length (body p)"
    by (simp add: joined_def lhdcv5_held_def)
  have m: "map (store (lh_fragment cb) (if is_first_fragment (frag p) then 0 else lh_fragment_size cb) (body p))
      [0..<length (joined (lhdcv5_held cb) p)] = joined (lhdcv5_held cb) p"
    unfolding j map_store by (simp add: joined_def lhdcv5_held_def)
  consider (single) "\<not> is_fragmented (frag p)"
    | (refuse) "is_fragmented (frag p)" "\<not> accepts (lh_fragment_count cb) p"
    | (zero) "is_fragmented (frag p)" "accepts (lh_fragment_count cb) p" "frame_count (frag p) = 0"
    | (long) "is_fragmented (frag p)" "accepts (lh_fragment_count cb) p" "frame_count (frag p) \<noteq> 0"
        "3072 < length (joined (lhdcv5_held cb) p)"
    | (join) "is_fragmented (frag p)" "accepts (lh_fragment_count cb) p" "frame_count (frag p) \<noteq> 0"
        "\<not> 3072 < length (joined (lhdcv5_held cb) p)" by blast
  then show ?thesis
  proof cases
    case single
    then show ?thesis by (simp add: lhdcv5_receive_def h lhdcv5_gather_def b)
  next
    case refuse
    then show ?thesis by (simp add: lhdcv5_receive_def h)
  next
    case zero
    then show ?thesis by (simp add: lhdcv5_receive_def h lhdcv5_gather_def b)
  next
    case long
    then show ?thesis using assms(2) j
      by (auto simp: lhdcv5_receive_def h lhdcv5_gather_def b l lhdcv5_fits_def Let_def split: if_splits)
  next
    case join
    then show ?thesis using assms(2) j m
      by (auto simp: lhdcv5_receive_def h lhdcv5_gather_def b l lhdcv5_fits_def Let_def split: if_splits)
  qed
qed

lemma lhdcv5_receive_fits: "lhdcv5_fits cb \<Longrightarrow> lhdcv5_fits (snd (lhdcv5_receive p cb))"
  by (auto simp: lhdcv5_receive_def a2dp_lhdcv5_decoder_decode_packet_header_def lhdcv5_gather_def lhdcv5_fits_def Let_def
      split: if_splits)

lemma lhdcv5_held_simps [simp]:
  "lhdcv5_held (cb\<lparr>lh_fragment_count := n\<rparr>) = lhdcv5_held cb"
  "lhdcv5_held (cb\<lparr>lh_fragment_size := 0\<rparr>) = []"
  by (simp_all add: lhdcv5_held_def)

lemma lhdcv5_held_store:
  "lhdcv5_held (cb\<lparr>lh_fragment := store (lh_fragment cb) (if is_first_fragment (frag p) then 0 else lh_fragment_size cb) (body p),
     lh_fragment_size := length (joined (lhdcv5_held cb) p), lh_fragment_count := n\<rparr>) = joined (lhdcv5_held cb) p"
  using map_store [of "lh_fragment cb" "if is_first_fragment (frag p) then 0 else lh_fragment_size cb" "body p"]
  by (auto simp: lhdcv5_held_def joined_def split: if_splits)

interpretation lhdcv5: strict_fragment_decoder lhdcv5_receive lhdcv5_fits lh_fragment_count lhdcv5_held
  LHDCV5_FRAGMENT_BUF_SIZE
proof (unfold_locales, goal_cases)
  case (1 s p)
  then show ?case by (rule lhdcv5_receive_fits)
next
  case (2 s p)
  then show ?case using lhdcv5_held_store [where p = p and cb = s]
    by (auto simp: lhdcv5_receive_eq Let_def accepts_def)
next
  case (3 s p)
  then show ?case by (simp add: lhdcv5_receive_eq)
next
  case (4 s p x)
  then show ?case by (auto simp: lhdcv5_receive_eq Let_def split: if_splits)
next
  case (5 s p)
  then show ?case using lhdcv5_held_store [where p = p and cb = s] by (auto simp: lhdcv5_receive_eq Let_def split: if_splits)
next
  case (6 s p)
  then show ?case using lhdcv5_held_store [where p = p and cb = s] by (auto simp: lhdcv5_receive_eq Let_def split: if_splits)
qed

subsection \<open>Frames in a payload\<close>

text \<open>The octets of a frame: a word that gives the length of the payload behind it.\<close>

definition wire_frame :: "u8 list \<Rightarrow> bool" where
  "wire_frame w =
     (2 < length w \<and> frame_payload_len (bytes w) = length w - 2 \<and> length w - 2 \<le> LHDC_DEC_MAX_FRAME_BYTES)"

lemma bytes_append: "i < length w \<Longrightarrow> bytes (w @ r) i = bytes w i"
  by (simp add: bytes_def nth_append)

lemma wire_frame_length: "wire_frame w \<Longrightarrow> 4 \<le> length w"
proof -
  assume w: "wire_frame w"
  have "even (frame_payload_len (bytes w))" by (simp add: frame_payload_len_def)
  with w have "even (length w - 2)" by (simp add: wire_frame_def)
  with w show ?thesis by (auto simp: wire_frame_def elim!: evenE)
qed

lemma parse_wire_frame:
  assumes "wire_frame w"
  shows "lhdc_dec_parse_header d (bytes (w @ r)) (length w + length r) = lhdc_dec_parse_header d (bytes w) (length w)"
    "\<exists>d'. lhdc_dec_parse_header d (bytes w) (length w) = (LHDC_DEC_OK, d', length w)"
proof -
  have w: "2 < length w" "frame_payload_len (bytes w) = length w - 2" "length w - 2 \<le> 1536"
    using assms by (simp_all add: wire_frame_def)
  have "bytes (w @ r) 0 = bytes w 0" "bytes (w @ r) 1 = bytes w 1" using w(1) by (intro bytes_append; linarith)+
  then have f: "frame_word (bytes (w @ r)) = frame_word (bytes w)" by (simp add: frame_word_def)
  then have l: "frame_payload_len (bytes (w @ r)) = length w - 2" using w(2) by (simp add: frame_payload_len_def)
  have m: "memcpy p (\<lambda>i. bytes (w @ r) (2 + i)) (length w - 2) = memcpy p (\<lambda>i. bytes w (2 + i)) (length w - 2)" for p
    using w(1) by (auto simp: memcpy_def fun_eq_iff bytes_append)
  show "lhdc_dec_parse_header d (bytes (w @ r)) (length w + length r) = lhdc_dec_parse_header d (bytes w) (length w)"
    using w l f m by (simp add: lhdc_dec_parse_header_def Let_def)
  show "\<exists>d'. lhdc_dec_parse_header d (bytes w) (length w) = (LHDC_DEC_OK, d', length w)"
    using w by (simp add: lhdc_dec_parse_header_def Let_def) linarith
qed

lemma begin_wire_frame:
  assumes "wire_frame w"
  shows "lhdc_dec_begin_frame (Some d) (Some (bytes (w @ r))) (length w + length r) True n imdct =
      lhdc_dec_begin_frame (Some d) (Some (bytes w)) (length w) True n imdct"
    "\<exists>ret d' c. lhdc_dec_begin_frame (Some d) (Some (bytes w)) (length w) True n imdct = (ret, Some d', c) \<and>
      (ret = LHDC_DEC_OK \<longrightarrow> c = length w)"
proof -
  obtain d' where p: "lhdc_dec_parse_header d (bytes w) (length w) = (LHDC_DEC_OK, d', length w)"
    using parse_wire_frame(2) [OF assms] by blast
  have l: "4 \<le> length w" by (rule wire_frame_length [OF assms])
  show "lhdc_dec_begin_frame (Some d) (Some (bytes (w @ r))) (length w + length r) True n imdct =
      lhdc_dec_begin_frame (Some d) (Some (bytes w)) (length w) True n imdct"
    using l by (simp add: lhdc_dec_begin_frame_def parse_wire_frame(1) [OF assms] p)
  show "\<exists>ret d' c. lhdc_dec_begin_frame (Some d) (Some (bytes w)) (length w) True n imdct = (ret, Some d', c) \<and>
      (ret = LHDC_DEC_OK \<longrightarrow> c = length w)"
    using l by (auto simp: lhdc_dec_begin_frame_def p Let_def)
qed

lemma decode_wire_frame:
  assumes "wire_frame w"
  shows "lhdc_dec_decode_frame S fac_buf imdct st (bytes (w @ r)) (length w + length r) buf n =
    lhdc_dec_decode_frame S fac_buf imdct st (bytes w) (length w) buf n"
  by (cases st) (simp add: lhdc_dec_decode_frame_def begin_wire_frame(1) [OF assms])

text \<open>A frame is either decoded whole or not at all.\<close>

text \<open>The channels change neither the configuration nor the header of the frame.\<close>

definition same_frame :: "lhdc_decoder \<Rightarrow> lhdc_decoder \<Rightarrow> bool" where
  "same_frame d d' =
     (dc_config d' = dc_config d \<and> dc_header d' = dc_header d \<and> dc_band_cfg d' = dc_band_cfg d \<and>
      dc_initialized d' = dc_initialized d)"

lemma same_frame_trans: "\<lbrakk>same_frame a b; same_frame b c\<rbrakk> \<Longrightarrow> same_frame a c"
  by (simp add: same_frame_def)

lemma channel_head_same: "same_frame d (channel_head d s b f)"
  by (simp add: same_frame_def channel_head_def Let_def)

lemma channel_leading_same: "channel_leading d = (ret, d', x) \<Longrightarrow> same_frame d d'"
  by (auto simp: same_frame_def channel_leading_def Let_def split: prod.splits if_splits)

lemma decode_channel_same:
  assumes "lhdc_dec_decode_channel e d fac_buf ch sel = Some (ret, d', e', qs)"
  shows "same_frame d d'"
proof -
  obtain cs cb where c: "channel_slice d ch = (cs, cb)" by force
  let ?d = "channel_head d cs cb sel"
  let ?r = "?d\<lparr>dc_bit_reader := lhdc_bit_reader_init (buf_from (dc_payload_buf ?d) cs) (of_int cb)\<rparr>"
  obtain ret1 d1 x where l: "channel_leading ?r = (ret1, d1, x)" by (metis prod_cases3)
  obtain y z where x: "x = (y, z)" by force
  have "same_frame d ?r" using channel_head_same [of d cs cb sel] by (simp add: same_frame_def)
  then have d1: "same_frame d d1" using channel_leading_same [OF l] by (rule same_frame_trans)
  have "\<exists>br m. d' = d1 \<or> d' = d1\<lparr>dc_bit_reader := br, dc_chan_maxM := m\<rparr>"
    using assms by (auto simp: lhdc_dec_decode_channel_def c l x Let_def Option.bind_eq_Some_conv split: if_splits)
  with d1 show ?thesis by (auto simp: same_frame_def)
qed

lemma decode_channel_autosel_same:
  assumes "lhdc_dec_decode_channel_autosel S fac_buf st ch = Some (ret, st', f)"
  shows "same_frame (fst st) (fst st')"
  using assms by (cases st)
    (auto simp: lhdc_dec_decode_channel_autosel_def Option.bind_eq_Some_conv Let_def split: if_splits prod.splits dest: decode_channel_same)

lemma frame_channels_form:
  assumes "frame_channels S fac_buf st buf c = Some x"
  shows "\<exists>st1. same_frame (fst st) (fst st1) \<and>
    ((\<exists>ret. ret \<noteq> LHDC_DEC_OK \<and> x = (ret, st1, buf, 0, 0, None)) \<or> (\<exists>l r. x = frame_output S st1 l r buf c))"
proof -
  from assms obtain ret st0 l where a: "lhdc_dec_decode_channel_autosel S fac_buf st 0 = Some (ret, st0, l)"
    by (auto simp: frame_channels_def Option.bind_eq_Some_conv)
  have s0: "same_frame (fst st) (fst st0)" by (rule decode_channel_autosel_same [OF a])
  show ?thesis
  proof (cases "ret = LHDC_DEC_OK \<and> 2 \<le> unat (fh_channels (dc_header (fst st0)))")
    case True
    with assms a obtain ret1 st1 r where b: "lhdc_dec_decode_channel_autosel S fac_buf st0 1 = Some (ret1, st1, r)"
      "x = frame_output S st1 l (if ret1 \<noteq> LHDC_DEC_OK then sy_silence S else r) buf c"
      by (auto simp: frame_channels_def Option.bind_eq_Some_conv)
    with same_frame_trans [OF s0 decode_channel_autosel_same [OF b(1)]] show ?thesis by blast
  next
    case False
    with assms a have "ret \<noteq> LHDC_DEC_OK \<and> x = (ret, st0, buf, 0, 0, None) \<or> x = frame_output S st0 l l buf c"
      by (auto simp: frame_channels_def split: if_splits)
    with s0 show ?thesis by blast
  qed
qed

lemma frame_output_form: "\<exists>st' buf' g i. frame_output S st l r out c = (LHDC_DEC_OK, st', buf', c, g, Some i)"
  by (simp add: frame_output_def case_prod_unfold Let_def)

lemma frame_channels_cases:
  assumes "frame_channels S fac_buf st buf c = Some (ret, st', buf', c', g, info)"
  shows "ret \<noteq> LHDC_DEC_OK \<and> c' = 0 \<and> info = None \<and> buf' = buf \<or> ret = LHDC_DEC_OK \<and> c' = c \<and> info \<noteq> None"
proof -
  from frame_channels_form [OF assms] consider "ret \<noteq> LHDC_DEC_OK \<and> c' = 0 \<and> info = None \<and> buf' = buf"
    | st1 l r where "(ret, st', buf', c', g, info) = frame_output S st1 l r buf c" by auto
  then show ?thesis
  proof cases
    case (2 st1 l r)
    then show ?thesis using frame_output_form [of S st1 l r buf c] by auto
  qed simp
qed

lemma decode_frame_cases:
  assumes "lhdc_dec_decode_frame S fac_buf imdct st data n buf m = Some (ret, st', buf', c, g, info)"
  shows "(ret \<noteq> LHDC_DEC_OK \<and> c = 0 \<and> info = None \<and> buf' = buf) \<or>
    (\<exists>dec e ov dec1 i. st = (dec, e, ov) \<and> ret = LHDC_DEC_OK \<and> info = Some i \<and>
      lhdc_dec_begin_frame (Some dec) (Some data) n True m imdct = (LHDC_DEC_OK, Some dec1, c))"
  using assms
  by (cases st) (auto simp: lhdc_dec_decode_frame_def split: prod.splits option.splits if_splits dest: frame_channels_cases)

text \<open>
  The frames one after another, each decoded from its own octets, up to the first that is not accepted.
\<close>

fun frames_in_turn ::
    "('o, 'f) lhdc_synth \<Rightarrow> buf \<Rightarrow> (nat \<Rightarrow> int) \<Rightarrow> u8 list list \<Rightarrow> nat \<Rightarrow> 'o lhdc_state \<Rightarrow> buf \<Rightarrow> u8 list list \<Rightarrow>
      (nat \<times> 'o lhdc_state \<times> buf \<times> u8 list list) option" where
  "frames_in_turn S fac_buf imdct [] frames st buf pcm = Some (frames, st, buf, pcm)"
| "frames_in_turn S fac_buf imdct (w # ws) frames st buf pcm =
     (case lhdc_dec_decode_frame S fac_buf imdct st (bytes w) (length w) buf 1920 of
        Some (ret, st, buf, consumed, generated, Some i) \<Rightarrow>
          frames_in_turn S fac_buf imdct ws (Suc frames) st buf
            (pcm @ [map buf [0..<generated * unat (fi_channels i) * (unat (fi_bit_depth i) div 8)]])
      | Some (ret, st, buf, consumed, generated, None) \<Rightarrow> Some (frames, st, buf, pcm)
      | None \<Rightarrow> None)"

lemma frames_of_payload:
  assumes "list_all wire_frame ws"
  shows "lhdcv5_frames S fac_buf imdct (pre @ concat ws) (length pre) frames st buf pcm =
    frames_in_turn S fac_buf imdct ws frames st buf pcm"
  using assms
proof (induction ws arbitrary: pre frames st buf pcm)
  case Nil
  then show ?case by (simp add: lhdcv5_frames.simps [where off = "length pre"])
next
  case (Cons w ws)
  then have w: "wire_frame w" "list_all wire_frame ws" by simp_all
  have l: "4 \<le> length w" by (rule wire_frame_length [OF w(1)])
  let ?src = "pre @ w @ concat ws"
  have d: "lhdc_dec_decode_frame S fac_buf imdct st (bytes (drop (length pre) ?src)) (length ?src - length pre) buf 1920 =
      lhdc_dec_decode_frame S fac_buf imdct st (bytes w) (length w) buf 1920"
    using decode_wire_frame [OF w(1)] by simp
  have c: "length pre + 2 \<le> length ?src" using l by simp
  show ?case
  proof (cases "lhdc_dec_decode_frame S fac_buf imdct st (bytes w) (length w) buf 1920")
    case None
    then show ?thesis using c d by (simp add: lhdcv5_frames.simps [where off = "length pre"])
  next
    case (Some x)
    obtain ret st' buf' cs g info where x: "x = (ret, st', buf', cs, g, info)" by (metis prod_cases6)
    note D = Some [unfolded x]
    from decode_frame_cases [OF D] consider
      (bad) "ret \<noteq> LHDC_DEC_OK" "info = None"
    | (ok) i dec dec1 where "ret = LHDC_DEC_OK" "info = Some i"
        "lhdc_dec_begin_frame (Some dec) (Some (bytes w)) (length w) True 1920 imdct = (LHDC_DEC_OK, Some dec1, cs)"
      by blast
    then show ?thesis
    proof cases
      case bad
      then show ?thesis using c d D by (simp add: lhdcv5_frames.simps [where off = "length pre"])
    next
      case ok
      have "cs = length w" using begin_wire_frame(2) [OF w(1)] ok(3) by (metis Pair_inject option.inject)
      then show ?thesis
        using c d D ok l Cons.IH [OF w(2), of "pre @ w"]
        by (auto simp: lhdcv5_frames.simps [where off = "length pre"])
    qed
  qed
qed

subsection \<open>Packets in order\<close>

definition lhdcv5_packets ::
    "('o, 'f) lhdc_synth \<Rightarrow> buf \<Rightarrow> (nat \<Rightarrow> int) \<Rightarrow> nat option \<Rightarrow> bt_hdr list \<Rightarrow> 'o tA2DP_LHDCV5_DECODER_CB option \<times> buf \<Rightarrow>
      (u8 list list \<times> 'o tA2DP_LHDCV5_DECODER_CB option \<times> buf) option" where
  "lhdcv5_packets S fac_buf imdct buf_len = packets_of (lhdcv5_packet S fac_buf imdct buf_len)"

text \<open>A control block that is ready to decode, with a buffer that is large enough.\<close>

definition lhdcv5_ready :: "'o lhdc_state \<Rightarrow> nat option \<Rightarrow> 'o tA2DP_LHDCV5_DECODER_CB \<Rightarrow> bool" where
  "lhdcv5_ready st buf_len cb =
     (lh_decoder cb = Some st \<and> lh_callback cb \<and> lhdcv5_fits cb \<and>
      (case buf_len of None \<Rightarrow> False | Some n \<Rightarrow> LHDCV5_MAX_PCM_BYTES \<le> n))"

lemma lhdcv5_receive_keeps:
  "lh_decoder (snd (lhdcv5_receive p cb)) = lh_decoder cb" "lh_callback (snd (lhdcv5_receive p cb)) = lh_callback cb"
  by (auto simp: lhdcv5_receive_def a2dp_lhdcv5_decoder_decode_packet_header_def lhdcv5_gather_def Let_def split: if_splits)

lemma lhdcv5_receive_ready: "lhdcv5_ready st n cb \<Longrightarrow> lhdcv5_ready st n (snd (lhdcv5_receive p cb))"
  by (simp add: lhdcv5_ready_def lhdcv5_receive_keeps lhdcv5_receive_fits)

definition lhdcv5_decoded ::
    "('o, 'f) lhdc_synth \<Rightarrow> buf \<Rightarrow> (nat \<Rightarrow> int) \<Rightarrow> u8 list \<Rightarrow> 'o lhdc_state \<Rightarrow> 'o tA2DP_LHDCV5_DECODER_CB \<Rightarrow> buf \<Rightarrow>
      (u8 list list \<times> 'o tA2DP_LHDCV5_DECODER_CB option \<times> buf) option" where
  "lhdcv5_decoded S fac_buf imdct src st cb buf =
     map_option (\<lambda>(frames, st, buf, pcm). (pcm, Some (cb\<lparr>lh_decoder := Some st\<rparr>), buf))
       (lhdcv5_frames S fac_buf imdct src (if length src \<ge> 1 then 1 else 0) 0 st buf [])"

lemma lhdcv5_packet_eq:
  assumes "lhdcv5_ready st n cb"
  shows "lhdcv5_packet S fac_buf imdct n p (Some cb, buf) =
    (case lhdcv5_receive p cb of
       (Source src, cb) \<Rightarrow> lhdcv5_decoded S fac_buf imdct src st cb buf
     | (_, cb) \<Rightarrow> Some ([], Some cb, buf))"
proof -
  obtain res q y where h: "a2dp_lhdcv5_decoder_decode_packet_header p (Some cb) = (res, q, y)" by (metis prod_cases3)
  then have "\<exists>cb1. y = Some cb1 \<and> lh_decoder cb1 = Some st \<and> lh_callback cb1" using assms
    by (auto simp: a2dp_lhdcv5_decoder_decode_packet_header_def lhdcv5_ready_def Let_def split: if_splits)
  then obtain cb1 where y: "y = Some cb1" "lh_decoder cb1 = Some st" "lh_callback cb1" by blast
  obtain m where n: "n = Some m" "\<not> m < 8000" using assms by (auto simp: lhdcv5_ready_def split: option.splits)
  obtain g cb2 where g: "lhdcv5_gather q cb1 = (g, cb2)" by force
  show ?thesis
  proof (cases "res < 0")
    case True
    then show ?thesis by (simp add: lhdcv5_packet_def lhdcv5_receive_def h y)
  next
    case False
    show ?thesis
    proof (cases g)
      case (Source src)
      show ?thesis
        by (cases "lhdcv5_frames S fac_buf imdct src (if length src \<ge> 1 then 1 else 0) 0 st buf []")
          (simp_all add: lhdcv5_packet_def lhdcv5_receive_def h y n False a2dp_lhdcv5_decoder_decode_packet_def g Source
            lhdcv5_decoded_def case_prod_unfold del: One_nat_def)
    qed (use False n in \<open>simp_all add: lhdcv5_packet_def lhdcv5_receive_def h y a2dp_lhdcv5_decoder_decode_packet_def g\<close>)
  qed
qed

text \<open>What a run shows outside: the samples, the decoder and the buffer.\<close>

definition lhdcv5_shown ::
    "(u8 list list \<times> 'o tA2DP_LHDCV5_DECODER_CB option \<times> buf) option \<Rightarrow> (u8 list list \<times> 'o lhdc_state option \<times> buf) option" where
  "lhdcv5_shown = view_of (apfst (\<lambda>cb. Option.bind cb lh_decoder))"

lemma lhdcv5_shown_eq: "lhdcv5_shown = map_option (\<lambda>(pcm, cb, buf). (pcm, Option.bind cb lh_decoder, buf))"
  by (simp add: lhdcv5_shown_def view_of_def apsnd_def apfst_def map_prod_def case_prod_unfold)

interpretation lhdcv5_run: packet_decoder lhdcv5_receive "lhdcv5_ready st n" lh_fragment_count lhdcv5_held
  LHDCV5_FRAGMENT_BUF_SIZE "\<lambda>cb buf. (Some cb, buf)" "lhdcv5_packet S fac_buf imdct n"
  "\<lambda>src cb buf. lhdcv5_decoded S fac_buf imdct src st cb buf" "apfst (\<lambda>cb. Option.bind cb lh_decoder)"
  for st n S fac_buf imdct
proof (unfold_locales, goal_cases)
  case (1 s p)
  then show ?case by (rule lhdcv5_receive_ready)
next
  case (2 s p)
  then show ?case by (intro lhdcv5.fragment) (simp_all add: lhdcv5_ready_def)
next
  case (3 s p)
  then show ?case by (intro lhdcv5.single) (simp_all add: lhdcv5_ready_def)
next
  case (4 s p x)
  then show ?case by (intro lhdcv5.source) (simp_all add: lhdcv5_ready_def)
next
  case (5 s p)
  then show ?case by (intro lhdcv5.kept) (simp_all add: lhdcv5_ready_def)
next
  case (6 s p m)
  then show ?case by (rule lhdcv5_packet_eq)
next
  case (7 s src p m)
  then show ?case
    by (simp add: lhdcv5_shown_def [symmetric] lhdcv5_shown_eq lhdcv5_decoded_def option.map_comp comp_def case_prod_unfold)
qed

lemma shown_decoded:
  assumes "list_all wire_frame ws"
  shows "lhdcv5_shown (lhdcv5_decoded S fac_buf imdct (m # concat ws) st cb buf) =
    map_option (\<lambda>(frames, st, buf, pcm). (pcm, Some st, buf)) (frames_in_turn S fac_buf imdct ws 0 st buf [])"
  using frames_of_payload [OF assms, of S fac_buf imdct "[m]" 0 st buf "[]"]
  by (simp add: lhdcv5_shown_eq lhdcv5_decoded_def option.map_comp comp_def case_prod_unfold)

subsection \<open>What is handed to the callback\<close>

text \<open>The samples of a frame as octets, the low octet first and the channels in turn.\<close>

definition sample_octets :: "nat \<Rightarrow> u32 \<Rightarrow> u8 list" where
  "sample_octets w v = map (\<lambda>k. ucast (drop_bit (8 * k) v)) [0..<w]"

definition interleaved :: "nat \<Rightarrow> (nat \<Rightarrow> u32 \<times> u32) \<Rightarrow> nat \<Rightarrow> u8 list" where
  "interleaved w pcm n = concat (map (\<lambda>i. sample_octets w (fst (pcm i)) @ sample_octets w (snd (pcm i))) [0..<n])"

lemma length_sample_octets [simp]: "length (sample_octets w v) = w"
  by (simp add: sample_octets_def)

lemma length_interleaved [simp]: "length (interleaved w pcm n) = n * 2 * w"
  by (induction n) (simp_all add: interleaved_def algebra_simps)

lemma put_instants:
  assumes "w = 2 \<or> w = 4"
  shows "fold (put_instant w 2 pcm) [0..<n] out = store out 0 (interleaved w pcm n)"
proof (induction n)
  case 0
  then show ?case by (simp add: interleaved_def)
next
  case (Suc n)
  have "put_instant w 2 pcm n m =
      store (store m (w * (n * 2)) (sample_octets w (fst (pcm n)))) (w * (n * 2 + 1)) (sample_octets w (snd (pcm n)))" for m
    using assms by (auto simp: put_instant_def put_sample_def sample_octets_def case_prod_unfold Let_def)
  moreover have "interleaved w pcm (Suc n) =
      interleaved w pcm n @ sample_octets w (fst (pcm n)) @ sample_octets w (snd (pcm n))"
    by (simp add: interleaved_def)
  ultimately show ?case using Suc by (simp add: store_append algebra_simps)
qed

text \<open>
  The decoder runs for two channels and 16 or 24 bits, as the wrapper configures it. A block that fits
  is a whole number of instants and has at most 960 of them, of eight octets.
\<close>

definition stereo :: "'o lhdc_state \<Rightarrow> bool" where
  "stereo st = (cf_channels (dc_config (fst st)) = 2 \<and> cf_bit_depth (dc_config (fst st)) \<in> {16, 24})"

definition block_fits :: "u8 list \<Rightarrow> bool" where
  "block_fits b = (length b \<le> 7680 \<and> 4 dvd length b)"

lemma begin_frame_ok:
  assumes "lhdc_dec_begin_frame (Some d) (Some data) n True m imdct = (LHDC_DEC_OK, Some d', c)"
  shows "unat (fh_samples_per_channel (dc_header d')) \<le> 960" "0 < c" "dc_config d' = dc_config d"
    "cf_channels (dc_config d) \<noteq> 0 \<Longrightarrow> fh_channels (dc_header d') = cf_channels (dc_config d)"
    "fh_bit_depth (dc_header d') = cf_bit_depth (dc_config d)"
proof -
  obtain ret d1 c1 where p: "lhdc_dec_parse_header d data n = (ret, d1, c1)" by (metis prod_cases3)
  have ret: "ret = LHDC_DEC_OK" "c1 = c" using assms by (auto simp: lhdc_dec_begin_frame_def p Let_def split: if_splits)
  note h = parse_header_ok [OF p [unfolded ret]]
  have d': "fh_samples_per_channel (dc_header d') = fh_samples_per_channel (dc_header d1)" "dc_config d' = dc_config d1"
    "fh_channels (dc_header d') = fh_channels (dc_header d1)" "fh_bit_depth (dc_header d') = fh_bit_depth (dc_header d1)"
    using assms ret by (auto simp: lhdc_dec_begin_frame_def p Let_def split: if_splits)
  have d1: "cf_channels (dc_config d) \<noteq> 0 \<Longrightarrow> fh_channels (dc_header d1) = cf_channels (dc_config d)"
    "fh_bit_depth (dc_header d1) = cf_bit_depth (dc_config d)"
    using p ret by (auto simp: lhdc_dec_parse_header_def Let_def split: if_splits)
  show "unat (fh_samples_per_channel (dc_header d')) \<le> 960"
    using h(5) band_cfg_sizes(1) [of "cf_sample_rate (dc_config d)" "cf_frame_duration (dc_config d)"] by (auto simp: d')
  show "0 < c" using h(1,3) by simp
  show "dc_config d' = dc_config d" using h(8) d' by simp
  show "cf_channels (dc_config d) \<noteq> 0 \<Longrightarrow> fh_channels (dc_header d') = cf_channels (dc_config d)"
    "fh_bit_depth (dc_header d') = cf_bit_depth (dc_config d)" using d' d1 by simp_all
qed

lemma begin_frame_config:
  assumes "lhdc_dec_begin_frame (Some d) (Some data) n True m imdct = (ret, Some d', c)"
  shows "dc_config d' = dc_config d"
  using assms by (auto simp: lhdc_dec_begin_frame_def lhdc_dec_parse_header_def Let_def split: if_splits)

text \<open>
  What a step does to the buffer does not depend on what the buffer holds: it stores octets that are one
  block, or none when there is no \<open>info\<close>.
\<close>

definition writes :: "(buf \<Rightarrow> 'o frame_result option) \<Rightarrow> bool" where
  "writes f =
     (\<exists>r. f = (\<lambda>buf. map_option (\<lambda>(ret, st, xs, c, g, info). (ret, st, store buf 0 xs, c, g, info)) r) \<and>
       pred_option (\<lambda>(ret, st, xs, c, g, info). stereo st \<and>
         (case info of None \<Rightarrow> xs = []
          | Some i \<Rightarrow> length xs = g * unat (fi_channels i) * (unat (fi_bit_depth i) div 8) \<and> block_fits xs)) r)"

lemma writes_result:
  "writes f \<Longrightarrow>
    \<exists>r. (\<forall>buf. f buf = map_option (\<lambda>(ret, st, xs, c, g, info). (ret, st, store buf 0 xs, c, g, info)) r) \<and>
      pred_option (\<lambda>(ret, st, xs, c, g, info). stereo st \<and>
        (case info of None \<Rightarrow> xs = []
         | Some i \<Rightarrow> length xs = g * unat (fi_channels i) * (unat (fi_bit_depth i) div 8) \<and> block_fits xs)) r"
  unfolding writes_def fun_eq_iff .

lemma writes_None: "writes (\<lambda>buf. None)"
  by (simp add: writes_def exI [of _ None])

lemma writes_nothing: "stereo st \<Longrightarrow> writes (\<lambda>buf. Some (ret, st, buf, c, g, None))"
  unfolding writes_def by (rule exI [of _ "Some (ret, st, [], c, g, None)"]) simp

definition frame_ok :: "lhdc_decoder \<Rightarrow> bool" where
  "frame_ok d =
     (fh_channels (dc_header d) = 2 \<and> fh_bit_depth (dc_header d) \<in> {16, 24} \<and>
      unat (fh_samples_per_channel (dc_header d)) \<le> 960 \<and> cf_channels (dc_config d) = 2 \<and>
      cf_bit_depth (dc_config d) \<in> {16, 24})"

lemma frame_ok_same: "\<lbrakk>frame_ok d; same_frame d d'\<rbrakk> \<Longrightarrow> frame_ok d'"
  by (simp add: frame_ok_def same_frame_def)

lemma frame_output_writes:
  assumes "frame_ok (fst st)"
  shows "writes (\<lambda>buf. Some (frame_output S st l r buf c))"
proof -
  obtain dec e ov where st: "st = (dec, e, ov)" by (metis prod_cases3)
  let ?n = "unat (fh_samples_per_channel (dc_header dec))"
  let ?b = "if fh_bit_depth (dc_header dec) = 24 then 32 else unat (fh_bit_depth (dc_header dec))"
  obtain pcm ov' where pcm: "sy_pcm S dec ?b l r ov = (pcm, ov')" by force
  define w where "w = ?b div 8"
  have ok: "fh_channels (dc_header dec) = 2" "?n \<le> 960" "fh_bit_depth (dc_header dec) = 16 \<or> fh_bit_depth (dc_header dec) = 24"
    "cf_channels (dc_config dec) = 2" "cf_bit_depth (dc_config dec) = 16 \<or> cf_bit_depth (dc_config dec) = 24"
    using assms by (auto simp: frame_ok_def st)
  have w: "w = 2 \<or> w = 4" "unat (of_nat ?b :: u8) div 8 = w" using ok(3) by (auto simp: w_def)
  let ?dec = "dec\<lparr>dc_frame_index := dc_frame_index dec + 1\<rparr>"
  let ?i = "\<lparr>fi_frame_index = dc_frame_index ?dec - 1,
            fi_encoded_frame_bytes = ucast (fh_frame_bytes (dc_header ?dec)),
            fi_samples_per_channel = ucast (fh_samples_per_channel (dc_header ?dec)),
            fi_channels = fh_channels (dc_header ?dec), fi_sample_rate = fh_sample_rate (dc_header ?dec),
            fi_bit_depth = of_nat ?b, fi_frame_duration_ms = fh_frame_duration_ms (dc_header ?dec),
            fi_version = fh_version (dc_header ?dec)\<rparr>"
  let ?xs = "interleaved w pcm ?n"
  have "frame_output S st l r buf c = (LHDC_DEC_OK, (?dec, e, ov'), store buf 0 ?xs, c, ?n, Some ?i)" for buf
    using pcm put_instants [OF w(1), of pcm ?n buf] ok(1)
    by (simp add: frame_output_def st Let_def w_def [symmetric] del: of_nat_add)
  moreover have "length ?xs = ?n * unat (fi_channels ?i) * (unat (fi_bit_depth ?i) div 8)"
    using w(2) ok(1) by (simp del: of_nat_numeral)
  moreover have "block_fits ?xs" using w(1) ok(2) by (auto simp: block_fits_def)
  moreover have "stereo (?dec, e, ov')" using ok(4,5) by (simp add: stereo_def)
  ultimately show ?thesis
    unfolding writes_def by (intro exI [of _ "Some (LHDC_DEC_OK, (?dec, e, ov'), ?xs, c, ?n, Some ?i)"]) simp
qed

lemma frame_channels_writes:
  assumes "frame_ok (fst st)"
  shows "writes (\<lambda>buf. frame_channels S fac_buf st buf c)"
proof (cases "lhdc_dec_decode_channel_autosel S fac_buf st 0")
  case None
  then show ?thesis by (simp add: frame_channels_def writes_None)
next
  case (Some x)
  obtain ret st0 l where x: "x = (ret, st0, l)" by (metis prod_cases3)
  have a: "frame_ok (fst st0)"
    using frame_ok_same [OF assms decode_channel_autosel_same] Some by (simp add: x)
  then have "stereo st0" by (simp add: frame_ok_def stereo_def)
  show ?thesis
  proof (cases "ret = LHDC_DEC_OK")
    case False
    with Some \<open>stereo st0\<close> show ?thesis by (simp add: frame_channels_def x writes_nothing)
  next
    case True
    have two: "2 \<le> unat (fh_channels (dc_header (fst st0)))" using a by (simp add: frame_ok_def)
    show ?thesis
    proof (cases "lhdc_dec_decode_channel_autosel S fac_buf st0 1")
      case None
      with Some True two show ?thesis by (simp add: frame_channels_def x writes_None)
    next
      case (Some y)
      obtain ret1 st1 r where y: "y = (ret1, st1, r)" by (metis prod_cases3)
      have "frame_ok (fst st1)"
        using frame_ok_same [OF a decode_channel_autosel_same] Some by (simp add: y)
      with \<open>lhdc_dec_decode_channel_autosel S fac_buf st 0 = Some x\<close> Some True two show ?thesis
        by (simp add: frame_channels_def x y frame_output_writes del: One_nat_def)
    qed
  qed
qed

lemma decode_frame_writes:
  assumes "stereo st"
  shows "writes (\<lambda>buf. lhdc_dec_decode_frame S fac_buf imdct st data n buf m)"
proof -
  obtain dec e ov where st: "st = (dec, e, ov)" by (metis prod_cases3)
  obtain ret x c where b: "lhdc_dec_begin_frame (Some dec) (Some data) n True m imdct = (ret, x, c)" by (metis prod_cases3)
  show ?thesis
  proof (cases x)
    case None
    then show ?thesis by (simp add: lhdc_dec_decode_frame_def st b writes_None)
  next
    case (Some d)
    note b = b [unfolded Some]
    have cf: "dc_config d = dc_config dec" by (rule begin_frame_config [OF b])
    show ?thesis
    proof (cases "ret = LHDC_DEC_OK")
      case False
      have "stereo (d, e, ov)" using assms cf by (simp add: stereo_def st)
      with False show ?thesis by (simp add: lhdc_dec_decode_frame_def st b writes_nothing)
    next
      case True
      have "frame_ok d" using begin_frame_ok [OF b [unfolded True]] assms cf by (auto simp: frame_ok_def stereo_def st)
      then show ?thesis using frame_channels_writes [of "(d, e, ov)"] True by (simp add: lhdc_dec_decode_frame_def st b)
    qed
  qed
qed

lemma frames_written:
  assumes "stereo st"
  shows "\<exists>R. (\<forall>buf pcm. lhdcv5_frames S fac_buf imdct src off n st buf pcm =
      map_option (\<lambda>(n, st, bs). (n, st, fold (\<lambda>b buf. store buf 0 b) bs buf, pcm @ bs)) R) \<and>
    pred_option (\<lambda>(n, st, bs). stereo st \<and> list_all block_fits bs) R"
  using assms
proof (induction "length src - off" arbitrary: off n st rule: less_induct)
  case less
  let ?f = "\<lambda>buf. lhdc_dec_decode_frame S fac_buf imdct st (bytes (drop off src)) (length src - off) buf 1920"
  note eq = lhdcv5_frames.simps [of S fac_buf imdct src off n st]
  show ?case
  proof (cases "off + 2 \<le> length src")
    case False
    then show ?thesis using less.prems by (intro exI [of _ "Some (n, st, [])"]) (simp add: eq)
  next
    case True
    from writes_result [OF decode_frame_writes [OF less.prems, of S fac_buf imdct "bytes (drop off src)" "length src - off" 1920]]
    obtain r where r: "\<And>buf. ?f buf = map_option (\<lambda>(ret, st, xs, c, g, info). (ret, st, store buf 0 xs, c, g, info)) r"
      "pred_option (\<lambda>(ret, st, xs, c, g, info). stereo st \<and>
         (case info of None \<Rightarrow> xs = []
          | Some i \<Rightarrow> length xs = g * unat (fi_channels i) * (unat (fi_bit_depth i) div 8) \<and> block_fits xs)) r" by blast
    show ?thesis
    proof (cases r)
      case None
      then show ?thesis using True by (intro exI [of _ None]) (simp add: eq r(1))
    next
      case (Some y)
      obtain ret st1 xs c g info where y: "y = (ret, st1, xs, c, g, info)" by (metis prod_cases6)
      have st1: "stereo st1" using r(2) by (simp add: Some y)
      show ?thesis
      proof (cases info)
        case None
        then have "xs = []" using r(2) by (simp add: Some y)
        then show ?thesis using True st1 None
          by (intro exI [of _ "Some (n, st1, [])"]) (simp add: eq r(1) Some y)
      next
        case (Some i)
        have xs: "length xs = g * unat (fi_channels i) * (unat (fi_bit_depth i) div 8)" "block_fits xs"
          using r(2) by (simp_all add: \<open>r = Some y\<close> y Some)
        have st: "ret = LHDC_DEC_OK" "0 < c"
        proof -
          have D: "?f (\<lambda>_. 0) = Some (ret, st1, store (\<lambda>_. 0) 0 xs, c, g, Some i)"
            by (simp add: r(1) \<open>r = Some y\<close> y Some)
          from decode_frame_cases [OF D] begin_frame_ok(2) show "ret = LHDC_DEC_OK" "0 < c" by auto
        qed
        have "length src - (off + c) < length src - off" using True st(2) by simp
        from less.hyps [OF this st1, of "Suc n"] obtain R where
          R: "\<And>buf pcm. lhdcv5_frames S fac_buf imdct src (off + c) (Suc n) st1 buf pcm =
            map_option (\<lambda>(n, st, bs). (n, st, fold (\<lambda>b buf. store buf 0 b) bs buf, pcm @ bs)) R"
          "pred_option (\<lambda>(n, st, bs). stereo st \<and> list_all block_fits bs) R" by blast
        have m: "map (store buf 0 xs) [0..<length xs] = xs" for buf using map_store [of buf 0 xs] by simp
        show ?thesis
          using True st xs R(2) m
          by (intro exI [of _ "map_option (\<lambda>(n, st, bs). (n, st, xs # bs)) R"])
            (cases R; simp add: eq r(1) \<open>r = Some y\<close> y Some R(1) case_prod_unfold)
      qed
    qed
  qed
qed

text \<open>The calls of the interface, in any order; \<open>None\<close> is the static pointer before the first.\<close>

datatype 'o lhdcv5_api =
  Init bool bool
  | Configure nat bool bool "lhdc_entropy \<times> 'o" buf
  | Packet bt_hdr "nat option"
  | Cleanup

fun lhdcv5_call ::
    "('o, 'f) lhdc_synth \<Rightarrow> buf \<Rightarrow> (nat \<Rightarrow> int) \<Rightarrow> 'o lhdcv5_api \<Rightarrow> 'o tA2DP_LHDCV5_DECODER_CB option \<times> buf \<Rightarrow>
      (u8 list list \<times> 'o tA2DP_LHDCV5_DECODER_CB option \<times> buf) option" where
  "lhdcv5_call S fac_buf imdct (Init mem callback) x = Some ([], snd (a2dp_lhdcv5_decoder_init mem callback (fst x)), snd x)"
| "lhdcv5_call S fac_buf imdct (Configure need mem_ws mem_tails fresh info) x =
     Some ([], a2dp_lhdcv5_decoder_configure need mem_ws mem_tails fresh info (fst x), snd x)"
| "lhdcv5_call S fac_buf imdct (Packet p buf_len) x = lhdcv5_packet S fac_buf imdct buf_len p x"
| "lhdcv5_call S fac_buf imdct Cleanup x = Some ([], a2dp_lhdcv5_decoder_cleanup (fst x), snd x)"

fun lhdcv5_calls ::
    "('o, 'f) lhdc_synth \<Rightarrow> buf \<Rightarrow> (nat \<Rightarrow> int) \<Rightarrow> 'o lhdcv5_api list \<Rightarrow> 'o tA2DP_LHDCV5_DECODER_CB option \<times> buf \<Rightarrow>
      (u8 list list \<times> 'o tA2DP_LHDCV5_DECODER_CB option \<times> buf) option" where
  "lhdcv5_calls S fac_buf imdct [] x = Some ([], x)"
| "lhdcv5_calls S fac_buf imdct (a # as) x =
     do {
       (pcm, x) \<leftarrow> lhdcv5_call S fac_buf imdct a x;
       (pcms, x) \<leftarrow> lhdcv5_calls S fac_buf imdct as x;
       Some (pcm @ pcms, x)
     }"

definition stereo_cb :: "'o tA2DP_LHDCV5_DECODER_CB option \<Rightarrow> bool" where
  "stereo_cb x = pred_option (\<lambda>cb. pred_option stereo (lh_decoder cb)) x"

text \<open>A call that does to the buffer no more than store the blocks it hands over.\<close>

definition hands_over :: "(buf \<Rightarrow> (u8 list list \<times> 'o tA2DP_LHDCV5_DECODER_CB option \<times> buf) option) \<Rightarrow> bool" where
  "hands_over f =
     (\<exists>R. f = (\<lambda>buf. map_option (\<lambda>(pcm, x). (pcm, x, fold (\<lambda>b buf. store buf 0 b) pcm buf)) R) \<and>
       pred_option (\<lambda>(pcm, x). stereo_cb x \<and> list_all block_fits pcm) R)"

lemma hands_over_result:
  "hands_over f \<Longrightarrow>
    \<exists>R. (\<forall>buf. f buf = map_option (\<lambda>(pcm, x). (pcm, x, fold (\<lambda>b buf. store buf 0 b) pcm buf)) R) \<and>
      pred_option (\<lambda>(pcm, x). stereo_cb x \<and> list_all block_fits pcm) R"
  unfolding hands_over_def fun_eq_iff .

lemma stereo_cb_None [simp]: "stereo_cb None"
  by (simp add: stereo_cb_def)

lemma hands_over_nothing: "stereo_cb x \<Longrightarrow> hands_over (\<lambda>buf. Some ([], x, buf))"
  unfolding hands_over_def by (rule exI [of _ "Some ([], x)"]) simp

lemma packet_header_stereo:
  "a2dp_lhdcv5_decoder_decode_packet_header p x = (res, q, y) \<Longrightarrow> stereo_cb y = stereo_cb x"
  by (auto simp: a2dp_lhdcv5_decoder_decode_packet_header_def stereo_cb_def Let_def split: if_splits option.splits)

lemma gather_stereo: "lhdcv5_gather p cb = (g, cb') \<Longrightarrow> lh_decoder cb' = lh_decoder cb"
  by (auto simp: lhdcv5_gather_def Let_def split: if_splits)

lemma packet_hands_over:
  assumes "stereo_cb x"
  shows "hands_over (\<lambda>buf. lhdcv5_packet S fac_buf imdct n p (x, buf))"
proof -
  obtain res q y where h: "a2dp_lhdcv5_decoder_decode_packet_header p x = (res, q, y)" by (metis prod_cases3)
  have y: "stereo_cb y" using packet_header_stereo [OF h] assms by simp
  show ?thesis
  proof (cases "res < 0 \<or> y = None \<or> (\<exists>cb. y = Some cb \<and> (n = None \<or> lh_decoder cb = None \<or> \<not> lh_callback cb \<or> the n < 8000))")
    case True
    then have "(\<lambda>buf. lhdcv5_packet S fac_buf imdct n p (x, buf)) = (\<lambda>buf. Some ([], y, buf))"
      by (cases y; cases n) (auto simp: lhdcv5_packet_def h a2dp_lhdcv5_decoder_decode_packet_def fun_eq_iff split: option.splits)
    then show ?thesis using hands_over_nothing [OF y] by simp
  next
    case False
    then obtain cb m st where cb: "y = Some cb" "n = Some m" "lh_decoder cb = Some st" "lh_callback cb" "\<not> m < 8000" "\<not> res < 0"
      by auto
    obtain g cb1 where g: "lhdcv5_gather q cb = (g, cb1)" by force
    have cb1: "lh_decoder cb1 = Some st" using gather_stereo [OF g] cb(3) by simp
    have st: "stereo st" using y by (simp add: cb(1,3) stereo_cb_def)
    then have s1: "stereo_cb (Some cb1)" by (simp add: stereo_cb_def cb1)
    show ?thesis
    proof (cases g)
      case (Source src)
      from frames_written [OF st, of S fac_buf imdct src "if length src \<ge> 1 then 1 else 0" 0] obtain R where
        R: "\<And>buf pcm. lhdcv5_frames S fac_buf imdct src (if length src \<ge> 1 then 1 else 0) 0 st buf pcm =
            map_option (\<lambda>(n, st, bs). (n, st, fold (\<lambda>b buf. store buf 0 b) bs buf, pcm @ bs)) R"
          "pred_option (\<lambda>(n, st, bs). stereo st \<and> list_all block_fits bs) R" by blast
      have "lhdcv5_packet S fac_buf imdct n p (x, buf) =
          map_option (\<lambda>(pcm, x). (pcm, x, fold (\<lambda>b buf. store buf 0 b) pcm buf))
            (map_option (\<lambda>(n, st, bs). (bs, Some (cb1\<lparr>lh_decoder := Some st\<rparr>))) R)" for buf
        by (cases R) (simp_all add: lhdcv5_packet_def h cb a2dp_lhdcv5_decoder_decode_packet_def g Source R(1)
            case_prod_unfold del: One_nat_def)
      moreover have "pred_option (\<lambda>(pcm, x). stereo_cb x \<and> list_all block_fits pcm)
          (map_option (\<lambda>(n, st, bs). (bs, Some (cb1\<lparr>lh_decoder := Some st\<rparr>))) R)"
        using R(2) by (cases R) (auto simp: stereo_cb_def)
      ultimately show ?thesis unfolding hands_over_def by blast
    qed (use hands_over_nothing [OF s1] in \<open>simp_all add: lhdcv5_packet_def h cb a2dp_lhdcv5_decoder_decode_packet_def g\<close>)
  qed
qed

lemma init_stereo: "stereo_cb (snd (a2dp_lhdcv5_decoder_init mem callback x))"
  by (auto simp: a2dp_lhdcv5_decoder_init_def stereo_cb_def lhdcv5_cb_zero_def split: option.splits)

lemma configure_stereo:
  "stereo_cb x \<Longrightarrow> stereo_cb (a2dp_lhdcv5_decoder_configure need mem_ws mem_tails fresh info x)"
  by (auto simp: a2dp_lhdcv5_decoder_configure_def stereo_cb_def lhdc_dec_init_def lhdcv5_config_def stereo_def Let_def
      split: option.splits prod.splits)

lemma call_hands_over:
  assumes "stereo_cb x"
  shows "hands_over (\<lambda>buf. lhdcv5_call S fac_buf imdct a (x, buf))"
  by (cases a)
    (simp_all add: packet_hands_over hands_over_nothing assms init_stereo configure_stereo a2dp_lhdcv5_decoder_cleanup_def)

lemma calls_hand_over:
  assumes "stereo_cb x"
  shows "hands_over (\<lambda>buf. lhdcv5_calls S fac_buf imdct as (x, buf))"
  using assms
proof (induction as arbitrary: x)
  case Nil
  then show ?case by (simp add: hands_over_nothing)
next
  case (Cons a as)
  from hands_over_result [OF call_hands_over [OF Cons.prems, of S fac_buf imdct a]] obtain R where
    R: "\<And>buf. lhdcv5_call S fac_buf imdct a (x, buf) = map_option (\<lambda>(pcm, x). (pcm, x, fold (\<lambda>b buf. store buf 0 b) pcm buf)) R"
    "pred_option (\<lambda>(pcm, x). stereo_cb x \<and> list_all block_fits pcm) R" by blast
  show ?case
  proof (cases R)
    case None
    then show ?thesis unfolding hands_over_def by (intro exI [of _ None]) (simp add: R(1))
  next
    case (Some r)
    obtain pcm y where r: "r = (pcm, y)" by force
    have y: "stereo_cb y" "list_all block_fits pcm" using R(2) by (simp_all add: Some r)
    from hands_over_result [OF Cons.IH [OF y(1)]] obtain Q where
      Q: "\<And>buf. lhdcv5_calls S fac_buf imdct as (y, buf) = map_option (\<lambda>(pcm, x). (pcm, x, fold (\<lambda>b buf. store buf 0 b) pcm buf)) Q"
      "pred_option (\<lambda>(pcm, x). stereo_cb x \<and> list_all block_fits pcm) Q" by blast
    have "lhdcv5_calls S fac_buf imdct (a # as) (x, buf) =
        map_option (\<lambda>(pcm, x). (pcm, x, fold (\<lambda>b buf. store buf 0 b) pcm buf)) (map_option (\<lambda>(bs, x). (pcm @ bs, x)) Q)" for buf
      by (cases Q) (simp_all add: R(1) Some r Q(1) case_prod_unfold)
    moreover have "pred_option (\<lambda>(pcm, x). stereo_cb x \<and> list_all block_fits pcm) (map_option (\<lambda>(bs, x). (pcm @ bs, x)) Q)"
      using Q(2) y(2) by (cases Q) auto
    ultimately show ?thesis unfolding hands_over_def by blast
  qed
qed

lemma fold_store_beyond: "list_all block_fits bs \<Longrightarrow> fold (\<lambda>b buf. store buf 0 b) bs buf (7680 + i) = buf (7680 + i)"
  by (induction bs arbitrary: buf) (simp_all add: block_fits_def store_0_beyond)

subsection \<open>Properties\<close>

text \<open>A decoder with the default configuration that is ready, and a frame in two fragments; for examples.\<close>

definition example_synth :: "(unit, unit) lhdc_synth" where
  "example_synth = \<lparr>sy_channel = (\<lambda>dec ch qs ov. ((), ov)), sy_silence = (), sy_pcm = (\<lambda>dec b l r ov. (\<lambda>_. (0, 0), ov))\<rparr>"

definition example_state :: "unit lhdc_state" where
  "example_state =
     (decoder_zero\<lparr>dc_config := lhdcv5_config a2dp_lhdcv5_sink_caps, dc_initialized := True\<rparr>,
      \<lparr>s_fac_m0 = model_zero 0, s_fac_m1 = model_zero 0, g_fac_final_range = 0\<rparr>, ())"

definition example_cb :: "unit tA2DP_LHDCV5_DECODER_CB" where
  "example_cb = lhdcv5_cb_zero\<lparr>lh_decoder := Some example_state, lh_callback := True\<rparr>"

lemma example_ready: "lhdcv5_ready example_state (Some 8000) example_cb"
  by (simp add: lhdcv5_ready_def example_cb_def lhdcv5_fits_def lhdcv5_cb_zero_def)

lemma example_wire_frame: "wire_frame [0x02, 0x04, 0x11, 0x22, 0x33, 0x44]"
  by (simp add: wire_frame_def frame_payload_len_def frame_word_def bytes_def)

definition example_config :: buf where
  "example_config = bytes [13, 0, 0xFF, 0x3A, 0x05, 0, 0, 0x35, 0x4C, 0x10, 0x84, 0x11, 0x40, 0]"

lemma example_configured:
  "\<exists>cb st. lhdcv5_ready st (Some 8000) cb \<and>
    a2dp_lhdcv5_decoder_configure 100 True True (snd example_state) example_config
      (snd (a2dp_lhdcv5_decoder_init True True (None :: unit tA2DP_LHDCV5_DECODER_CB option))) = Some cb"
proof -
  obtain cie where p: "A2DP_ParseInfoLhdcV5 (Some lhdcv5_cie_zero) (Some example_config) False = (A2D_SUCCESS, Some cie)"
    by (simp add: A2DP_ParseInfoLhdcV5_def Let_def example_config_def bytes_def)
  show ?thesis
    by (simp add: a2dp_lhdcv5_decoder_configure_def a2dp_lhdcv5_decoder_init_def p lhdcv5_cb_zero_def lhdcv5_ready_def
        lhdcv5_fits_def lhdc_dec_init_def example_state_def Let_def)
qed

lemma zero_frame:
  "\<exists>ret st'. \<forall>buf. lhdc_dec_decode_frame S fac_buf imdct st (bytes [0, 0, 0, 0]) 4 buf m = Some (ret, st', buf, 0, 0, None)"
proof -
  have "frame_payload_len (bytes [0, 0, 0, 0]) = 0" by (simp add: frame_payload_len_def frame_word_def bytes_def)
  then show ?thesis
    by (cases st) (simp add: lhdc_dec_decode_frame_def lhdc_dec_begin_frame_def lhdc_dec_parse_header_def)
qed



text \<open>
  C13 (bounds). Whatever calls are made, with whatever packets, from the start of the system on: a block
  that is handed to the callback is a whole number of stereo instants and has at most 7680 octets, which
  is less than the buffer must have; nothing is written behind them; and no octet that was in the buffer
  before gets into what is handed over, which is the same for every buffer.
\<close>

theorem lhdcv5_pcm_fits:
  assumes "lhdcv5_calls S fac_buf imdct as (None, buf) = Some (pcm, x, buf')"
  shows "list_all (\<lambda>b. length b \<le> 7680 \<and> 4 dvd length b) pcm \<and> buf' (7680 + i) = buf (7680 + i) \<and>
    (\<exists>other'. lhdcv5_calls S fac_buf imdct as (None, other) = Some (pcm, x, other'))"
proof -
  from hands_over_result [OF calls_hand_over [OF stereo_cb_None, of S fac_buf imdct as]] obtain R where
    R: "\<And>buf. lhdcv5_calls S fac_buf imdct as (None, buf) =
      map_option (\<lambda>(pcm, x). (pcm, x, fold (\<lambda>b buf. store buf 0 b) pcm buf)) R"
    "pred_option (\<lambda>(pcm, x). stereo_cb x \<and> list_all block_fits pcm) R" by blast
  from assms have r: "R = Some (pcm, x)" "buf' = fold (\<lambda>b buf. store buf 0 b) pcm buf" by (auto simp: R(1))
  have b: "list_all block_fits pcm" using R(2) by (simp add: r)
  moreover have "block_fits = (\<lambda>b. length b \<le> 7680 \<and> 4 dvd length b)" by (simp add: block_fits_def fun_eq_iff)
  ultimately have "list_all (\<lambda>b. length b \<le> 7680 \<and> 4 dvd length b) pcm" by simp
  then show ?thesis using fold_store_beyond [OF b] by (simp add: R(1) r)
qed

lemma lhdcv5_pcm_fits_witness:
  "\<exists>cb other'. lh_decoder cb \<noteq> None \<and> lhdcv5_calls example_synth (\<lambda>_. 0) (\<lambda>_. 0)
      [Init True True, Configure 100 True True (snd example_state) example_config, Packet (media_example [0x01, 0, 0, 0, 0, 0]) (Some 8000)]
      (None, \<lambda>_. 9) = Some ([], Some cb, other')"
proof -
  from example_configured obtain cb0 st where cb0: "lhdcv5_ready st (Some 8000) cb0" "a2dp_lhdcv5_decoder_configure 100 True True
      (snd example_state) example_config (snd (a2dp_lhdcv5_decoder_init True True None)) = Some cb0" by blast
  let ?p = "media_example [0x01, 0, 0, 0, 0, 0]"
  have "fst (lhdcv5_receive ?p cb0) = Source [0, 0, 0, 0, 0]"
    using lhdcv5.single [of cb0 ?p] cb0(1) by (simp add: example_packet example_headers lhdcv5_ready_def)
  then obtain cb1 where r: "lhdcv5_receive ?p cb0 = (Source [0, 0, 0, 0, 0], cb1)" by (metis prod.collapse)
  obtain ret st' where z: "\<And>buf. lhdc_dec_decode_frame example_synth (\<lambda>_. 0) (\<lambda>_. 0) st (bytes [0, 0, 0, 0]) 4 buf 1920 =
      Some (ret, st', buf, 0, 0, None)" using zero_frame by blast
  have four: "4 = Suc (Suc (Suc (Suc 0)))" by simp
  have "lhdcv5_packet example_synth (\<lambda>_. 0) (\<lambda>_. 0) (Some 8000) ?p (Some cb0, buf) =
      Some ([], Some (cb1\<lparr>lh_decoder := Some st'\<rparr>), buf)" for buf
    by (simp add: lhdcv5_packet_eq [OF cb0(1)] r lhdcv5_decoded_def lhdcv5_frames.simps z [unfolded four])
  then have c: "lhdcv5_calls example_synth (\<lambda>_. 0) (\<lambda>_. 0)
      [Init True True, Configure 100 True True (snd example_state) example_config, Packet ?p (Some 8000)] (None, \<lambda>_. 7) =
      Some ([], Some (cb1\<lparr>lh_decoder := Some st'\<rparr>), \<lambda>_. 7)"
    using cb0(2) by simp
  from lhdcv5_pcm_fits [OF c, where other = "\<lambda>_. 9"] show ?thesis
    by (intro exI [of _ "cb1\<lparr>lh_decoder := Some st'\<rparr>"]) simp
qed



text \<open>
  C39 (error). The sequence numbers of the packets are not looked at. When as many packets are lost as a
  frame has fragments, from the second one of a frame to the first one of the next, the rest of the next
  frame is taken for the rest of this one, and the samples are those of a packet that holds the start of
  one frame and the end of the other.
\<close>

theorem lhdcv5_loss_mixes:
  assumes "lhdcv5_ready st n cb" "fragments True xs ps" "fragments True ys qs" "length xs = length ys" "2 \<le> length xs"
    "length (hd xs) + length (concat (tl ys)) \<le> LHDCV5_FRAGMENT_BUF_SIZE"
    "full_header p" "\<not> is_fragmented (frag p)" "frame_count (frag p) = 1" "body p = hd xs @ concat (tl ys)"
  shows "lhdcv5_shown (lhdcv5_packets S fac_buf imdct n (hd ps # tl qs) (Some cb, buf)) =
    lhdcv5_shown (lhdcv5_packets S fac_buf imdct n [p] (Some cb, buf))"
  unfolding lhdcv5_packets_def lhdcv5_shown_def by (rule lhdcv5_run.loss_mixes_view [OF assms(2-5,1,6-10)])

lemma lhdcv5_loss_mixes_witness:
  "lhdcv5_shown (lhdcv5_packets example_synth (\<lambda>_. 0) (\<lambda>_. 0) (Some 8000)
      [media_example [0xC2, 0, 1, 2], media_example [0xA1, 7, 8]] (Some example_cb, \<lambda>_. 0)) =
    lhdcv5_shown (lhdcv5_packets example_synth (\<lambda>_. 0) (\<lambda>_. 0) (Some 8000)
      [media_example [0x01, 0, 1, 2, 7, 8]] (Some example_cb, \<lambda>_. 0))"
  using lhdcv5_loss_mixes [OF example_ready, of "[[0, 1, 2], [3, 4]]" "[media_example [0xC2, 0, 1, 2], media_example [0xA1, 3, 4]]"
      "[[0, 5, 6], [7, 8]]" "[media_example [0xC2, 0, 5, 6], media_example [0xA1, 7, 8]]" "media_example [0x01, 0, 1, 2, 7, 8]"]
  by (simp add: example_packet example_headers)

end
