(* ===== verification/Osi_List.thy ===== *)
theory Osi_List
  imports C_Prelude "HOL-Library.Monad_Syntax"
begin

text \<open>
  common/osi/list.c: the singly linked list of the operating system layer. The nodes lie in a heap, a
  map from addresses to nodes; following a pointer that is not the address of a node, and a
  failed assertion, is \<open>None\<close>, so a result \<open>Some\<close> also says that no freed or foreign memory was
  touched. The theorems show that the operations are those of a list of the data, and that the heap
  holds the nodes of the list and no others.
\<close>

subsection \<open>The code\<close>

type_synonym addr = u32

record 'd list_node_t =
  ln_next :: addr
  ln_data :: 'd

record list_t =
  li_head :: addr
  li_tail :: addr
  li_length :: u32
  li_free_cb :: bool

text \<open>The heap, and the data that \<open>free_cb\<close> was called with, the latest last.\<close>

record 'd osi_heap =
  hp_nodes :: "addr \<Rightarrow> 'd list_node_t option"
  hp_freed :: "'d list"

definition list_new_internal :: "bool \<Rightarrow> list_t" where
  "list_new_internal callback = \<lparr>li_head = 0, li_tail = 0, li_length = 0, li_free_cb = callback\<rparr>"

definition list_is_empty :: "list_t \<Rightarrow> bool" where
  "list_is_empty l = (li_length l = 0)"

definition list_length :: "list_t \<Rightarrow> u32" where
  "list_length l = li_length l"

partial_function (option) contains_loop :: "'d osi_heap \<Rightarrow> addr \<Rightarrow> 'd \<Rightarrow> bool option" where
  "contains_loop h node d =
     (if node = 0 then Some False
      else do {
        n \<leftarrow> hp_nodes h node;
        if ln_data n = d then Some True else contains_loop h (ln_next n) d
      })"

definition list_contains :: "list_t \<Rightarrow> 'd osi_heap \<Rightarrow> 'd \<Rightarrow> bool option" where
  "list_contains l h d = contains_loop h (li_head l) d"

definition list_front :: "list_t \<Rightarrow> 'd osi_heap \<Rightarrow> 'd option" where
  "list_front l h = (if list_is_empty l then None else map_option ln_data (hp_nodes h (li_head l)))"

definition list_back :: "list_t \<Rightarrow> 'd osi_heap \<Rightarrow> 'd option" where
  "list_back l h = (if list_is_empty l then None else map_option ln_data (hp_nodes h (li_tail l)))"

text \<open>\<open>new\<close> is what \<open>osi_calloc\<close> returns, 0 when there is no memory.\<close>

definition set_next :: "addr \<Rightarrow> addr \<Rightarrow> 'd osi_heap \<Rightarrow> 'd osi_heap option" where
  "set_next a q h =
     (case hp_nodes h a of
        None \<Rightarrow> None
      | Some n \<Rightarrow> Some (h\<lparr>hp_nodes := (hp_nodes h)(a \<mapsto> n\<lparr>ln_next := q\<rparr>)\<rparr>))"

definition list_insert_after ::
    "addr \<Rightarrow> list_t \<Rightarrow> 'd osi_heap \<Rightarrow> addr \<Rightarrow> 'd \<Rightarrow> (bool \<times> list_t \<times> 'd osi_heap) option" where
  "list_insert_after new l h prev_node d =
     (if new = 0 then Some (False, l, h)
      else do {
        p \<leftarrow> hp_nodes h prev_node;
        let h = h\<lparr>hp_nodes := (hp_nodes h)(new \<mapsto> \<lparr>ln_next = ln_next p, ln_data = d\<rparr>)\<rparr>;
        h \<leftarrow> set_next prev_node new h;
        let l = (if li_tail l = prev_node then l\<lparr>li_tail := new\<rparr> else l);
        Some (True, l\<lparr>li_length := li_length l + 1\<rparr>, h)
      })"

definition list_prepend :: "addr \<Rightarrow> list_t \<Rightarrow> 'd osi_heap \<Rightarrow> 'd \<Rightarrow> bool \<times> list_t \<times> 'd osi_heap" where
  "list_prepend new l h d =
     (if new = 0 then (False, l, h)
      else
        let h = h\<lparr>hp_nodes := (hp_nodes h)(new \<mapsto> \<lparr>ln_next = li_head l, ln_data = d\<rparr>)\<rparr>;
            l = l\<lparr>li_head := new\<rparr>;
            l = (if li_tail l = 0 then l\<lparr>li_tail := li_head l\<rparr> else l)
        in (True, l\<lparr>li_length := li_length l + 1\<rparr>, h))"

definition list_append :: "addr \<Rightarrow> list_t \<Rightarrow> 'd osi_heap \<Rightarrow> 'd \<Rightarrow> (bool \<times> list_t \<times> 'd osi_heap) option" where
  "list_append new l h d =
     (if new = 0 then Some (False, l, h)
      else
        let h = h\<lparr>hp_nodes := (hp_nodes h)(new \<mapsto> \<lparr>ln_next = 0, ln_data = d\<rparr>)\<rparr>
        in if li_tail l = 0
           then Some (True, l\<lparr>li_head := new, li_tail := new, li_length := li_length l + 1\<rparr>, h)
           else do {
             h \<leftarrow> set_next (li_tail l) new h;
             Some (True, l\<lparr>li_tail := new, li_length := li_length l + 1\<rparr>, h)
           })"

text \<open>Freeing a node, with the data handed to \<open>free_cb\<close> and without.\<close>

definition list_free_node :: "list_t \<Rightarrow> 'd osi_heap \<Rightarrow> addr \<Rightarrow> (addr \<times> list_t \<times> 'd osi_heap) option" where
  "list_free_node l h node =
     do {
       n \<leftarrow> hp_nodes h node;
       let h = (if li_free_cb l then h\<lparr>hp_freed := hp_freed h @ [ln_data n]\<rparr> else h);
       Some (ln_next n, l\<lparr>li_length := li_length l - 1\<rparr>, h\<lparr>hp_nodes := (hp_nodes h)(node := None)\<rparr>)
     }"

definition list_delete_node :: "list_t \<Rightarrow> 'd osi_heap \<Rightarrow> addr \<Rightarrow> (addr \<times> list_t \<times> 'd osi_heap) option" where
  "list_delete_node l h node =
     do {
       n \<leftarrow> hp_nodes h node;
       Some (ln_next n, l\<lparr>li_length := li_length l - 1\<rparr>, h\<lparr>hp_nodes := (hp_nodes h)(node := None)\<rparr>)
     }"

text \<open>
  The loop of \<open>list_remove\<close> and \<open>list_delete\<close> behind the first node; they differ in the function that
  frees the node.
\<close>

partial_function (option) unlink_loop ::
    "(list_t \<Rightarrow> 'd osi_heap \<Rightarrow> addr \<Rightarrow> (addr \<times> list_t \<times> 'd osi_heap) option) \<Rightarrow>
      list_t \<Rightarrow> 'd osi_heap \<Rightarrow> addr \<Rightarrow> addr \<Rightarrow> 'd \<Rightarrow> (bool \<times> list_t \<times> 'd osi_heap) option" where
  "unlink_loop free_node l h prev node d =
     (if node = 0 then Some (False, l, h)
      else do {
        n \<leftarrow> hp_nodes h node;
        if ln_data n = d
        then do {
          let was_tail = (li_tail l = node);
          (next, l, h) \<leftarrow> free_node l h node;
          h \<leftarrow> set_next prev next h;
          Some (True, if was_tail then l\<lparr>li_tail := prev\<rparr> else l, h)
        }
        else unlink_loop free_node l h node (ln_next n) d
      })"

definition unlink ::
    "(list_t \<Rightarrow> 'd osi_heap \<Rightarrow> addr \<Rightarrow> (addr \<times> list_t \<times> 'd osi_heap) option) \<Rightarrow>
      list_t \<Rightarrow> 'd osi_heap \<Rightarrow> 'd \<Rightarrow> (bool \<times> list_t \<times> 'd osi_heap) option" where
  "unlink free_node l h d =
     (if list_is_empty l then Some (False, l, h)
      else do {
        n \<leftarrow> hp_nodes h (li_head l);
        if ln_data n = d
        then do {
          let was_tail = (li_tail l = li_head l);
          (next, l, h) \<leftarrow> free_node l h (li_head l);
          let l = (if was_tail then l\<lparr>li_tail := next\<rparr> else l);
          Some (True, l\<lparr>li_head := next\<rparr>, h)
        }
        else unlink_loop free_node l h (li_head l) (ln_next n) d
      })"

definition list_remove :: "list_t \<Rightarrow> 'd osi_heap \<Rightarrow> 'd \<Rightarrow> (bool \<times> list_t \<times> 'd osi_heap) option" where
  "list_remove = unlink list_free_node"

definition list_delete :: "list_t \<Rightarrow> 'd osi_heap \<Rightarrow> 'd \<Rightarrow> (bool \<times> list_t \<times> 'd osi_heap) option" where
  "list_delete = unlink list_delete_node"

partial_function (option) clear_loop :: "list_t \<Rightarrow> 'd osi_heap \<Rightarrow> addr \<Rightarrow> (list_t \<times> 'd osi_heap) option" where
  "clear_loop l h node =
     (if node = 0 then Some (l, h)
      else do {
        (node, l, h) \<leftarrow> list_free_node l h node;
        clear_loop l h node
      })"

definition list_clear :: "list_t \<Rightarrow> 'd osi_heap \<Rightarrow> (list_t \<times> 'd osi_heap) option" where
  "list_clear l h =
     do {
       (l, h) \<leftarrow> clear_loop l h (li_head l);
       Some (l\<lparr>li_head := 0, li_tail := 0, li_length := 0\<rparr>, h)
     }"

definition list_free :: "list_t option \<Rightarrow> 'd osi_heap \<Rightarrow> 'd osi_heap option" where
  "list_free list h = (case list of None \<Rightarrow> Some h | Some l \<Rightarrow> map_option snd (list_clear l h))"

text \<open>\<open>list_foreach\<close> with a callback that answers by the data alone: the node it stopped at, or 0.\<close>

partial_function (option) list_foreach_loop :: "'d osi_heap \<Rightarrow> ('d \<Rightarrow> bool) \<Rightarrow> addr \<Rightarrow> addr option" where
  "list_foreach_loop h callback node =
     (if node = 0 then Some 0
      else do {
        n \<leftarrow> hp_nodes h node;
        if callback (ln_data n) then list_foreach_loop h callback (ln_next n) else Some node
      })"

definition list_foreach :: "list_t \<Rightarrow> 'd osi_heap \<Rightarrow> ('d \<Rightarrow> bool) \<Rightarrow> addr option" where
  "list_foreach l h callback = list_foreach_loop h callback (li_head l)"

text \<open>\<open>list_get_node\<close> is the same search by the address of the data.\<close>

definition list_get_node :: "list_t \<Rightarrow> 'd osi_heap \<Rightarrow> 'd \<Rightarrow> addr option" where
  "list_get_node l h d = list_foreach_loop h (\<lambda>x. x \<noteq> d) (li_head l)"

subsection \<open>The list in the heap\<close>

text \<open>
  \<open>chain N p ns q\<close>: following the links from \<open>p\<close> to \<open>q\<close> one meets the nodes \<open>ns\<close>, given with their data.
\<close>

fun chain :: "(addr \<Rightarrow> 'd list_node_t option) \<Rightarrow> addr \<Rightarrow> (addr \<times> 'd) list \<Rightarrow> addr \<Rightarrow> bool" where
  "chain N p [] q = (p = q)"
| "chain N p (n # ns) q =
     (p = fst n \<and> p \<noteq> 0 \<and> (\<exists>r. N p = Some \<lparr>ln_next = r, ln_data = snd n\<rparr> \<and> chain N r ns q))"

text \<open>
  \<open>list_at l h F ns\<close>: the list is made of the nodes \<open>ns\<close>, and the heap holds those and the nodes \<open>F\<close> of
  other lists.
\<close>

definition list_at :: "list_t \<Rightarrow> 'd osi_heap \<Rightarrow> (addr \<Rightarrow> 'd list_node_t option) \<Rightarrow> (addr \<times> 'd) list \<Rightarrow> bool" where
  "list_at l h F ns =
     (chain (hp_nodes h) (li_head l) ns 0 \<and> distinct (map fst ns) \<and>
      li_tail l = (if ns = [] then 0 else fst (last ns)) \<and> li_length l = of_nat (length ns) \<and>
      (\<forall>a. hp_nodes h a = (if a \<in> fst ` set ns then hp_nodes h a else F a)) \<and>
      (\<forall>a\<in>fst ` set ns. F a = None))"

definition list_holds :: "list_t \<Rightarrow> 'd osi_heap \<Rightarrow> (addr \<Rightarrow> 'd list_node_t option) \<Rightarrow> 'd list \<Rightarrow> bool" where
  "list_holds l h F ds = (\<exists>ns. list_at l h F ns \<and> map snd ns = ds)"

lemma chain_append [simp]:
  "chain N p (xs @ ys) q = (\<exists>r. chain N p xs r \<and> chain N r ys q)"
  by (induction xs arbitrary: p) auto

lemma chain_frame:
  assumes "a \<notin> fst ` set ns"
  shows "chain (N(a := x)) p ns q = chain N p ns q"
  using assms by (induction ns arbitrary: p) (auto simp: image_iff)

lemma chain_nonzero:
  assumes "chain N p ns q"
  shows "0 \<notin> fst ` set ns"
  using assms by (induction ns arbitrary: p) auto

lemma chain_mem:
  assumes "chain N p ns q" "n \<in> set ns"
  shows "\<exists>r. N (fst n) = Some \<lparr>ln_next = r, ln_data = snd n\<rparr>"
  using assms by (induction ns arbitrary: p) auto

lemma chain_head_zero [simp]:
  "chain N 0 ns q = (ns = [] \<and> q = 0)"
  by (cases ns) auto

text \<open>Nodes have different addresses, none of them 0, so the 32 bits of \<open>length\<close> cannot overflow.\<close>

lemma list_at_short:
  assumes "list_at l h F ns"
  shows "length ns < 2 ^ 32"
proof -
  have "length ns = card (set (map fst ns))"
    using distinct_card [of "map fst ns"] assms unfolding list_at_def by simp
  also have "\<dots> < card (UNIV :: addr set)"
  proof (rule psubset_card_mono)
    have "0 \<notin> set (map fst ns)"
      using assms chain_nonzero by (fastforce simp: list_at_def)
    then show "set (map fst ns) \<subset> UNIV" by blast
  qed simp
  also have "card (UNIV :: addr set) = 2 ^ 32" by (simp add: card_word)
  finally show ?thesis .
qed

lemma list_at_length:
  assumes "list_at l h F ns"
  shows "unat (list_length l) = length ns" "list_is_empty l = (ns = [])"
proof -
  have s: "length ns < 2 ^ LENGTH(32)" using list_at_short [OF assms] by simp
  have l: "li_length l = of_nat (length ns)" using assms by (simp add: list_at_def)
  show u: "unat (list_length l) = length ns"
    using s by (simp add: list_length_def l unsigned_of_nat take_bit_nat_eq_self)
  show "list_is_empty l = (ns = [])"
    using u by (auto simp: list_is_empty_def list_length_def unat_eq_zero)
qed

lemma list_at_head:
  assumes "list_at l h F ns"
  shows "li_head l = (if ns = [] then 0 else fst (hd ns))"
  using assms by (cases ns) (auto simp: list_at_def)

lemma list_at_mem:
  assumes "list_at l h F ns" "n \<in> set ns"
  shows "\<exists>r. hp_nodes h (fst n) = Some \<lparr>ln_next = r, ln_data = snd n\<rparr>"
  using assms by (auto simp: list_at_def dest: chain_mem)

lemma list_at_fresh:
  assumes "list_at l h F ns" "hp_nodes h a = None"
  shows "a \<notin> fst ` set ns" "F a = None"
proof -
  show n: "a \<notin> fst ` set ns" using assms list_at_mem by fastforce
  show "F a = None" using assms n by (auto simp: list_at_def) metis
qed

lemma list_at_new:
  "list_at (list_new_internal callback) h (hp_nodes h) []"
  by (simp add: list_at_def list_new_internal_def)

subsection \<open>The operations on the nodes\<close>

lemma contains_loop_chain:
  assumes "chain (hp_nodes h) p ns 0"
  shows "contains_loop h p d = Some (d \<in> snd ` set ns)"
  using assms by (induction ns arbitrary: p) (auto simp: contains_loop.simps)

lemma foreach_chain:
  assumes "chain (hp_nodes h) p ns 0"
  shows "list_foreach_loop h callback p =
     Some (case find (\<lambda>n. \<not> callback (snd n)) ns of None \<Rightarrow> 0 | Some n \<Rightarrow> fst n)"
  using assms by (induction ns arbitrary: p) (auto simp: list_foreach_loop.simps)

lemma list_at_peek:
  assumes "list_at l h F ns" "ns \<noteq> []"
  shows "list_front l h = Some (snd (hd ns))" "list_back l h = Some (snd (last ns))"
proof -
  obtain r1 where "hp_nodes h (fst (hd ns)) = Some \<lparr>ln_next = r1, ln_data = snd (hd ns)\<rparr>"
    using list_at_mem [OF assms(1), of "hd ns"] assms(2) by auto
  then show "list_front l h = Some (snd (hd ns))"
    using assms by (simp add: list_front_def list_at_length(2) list_at_head)
  obtain r2 where "hp_nodes h (fst (last ns)) = Some \<lparr>ln_next = r2, ln_data = snd (last ns)\<rparr>"
    using list_at_mem [OF assms(1), of "last ns"] assms(2) by auto
  moreover have "li_tail l = fst (last ns)" using assms by (simp add: list_at_def)
  ultimately show "list_back l h = Some (snd (last ns))"
    using assms by (simp add: list_back_def list_at_length(2))
qed

text \<open>A node linked in between, which is every insertion.\<close>

lemma chain_link:
  assumes "chain N p (xs @ [(a, e)]) r" "distinct (map fst (xs @ [(a, e)] @ ys))" "chain N r ys 0"
    and "b \<notin> fst ` set (xs @ [(a, e)] @ ys)" "b \<noteq> 0"
  shows "chain (N(b \<mapsto> \<lparr>ln_next = r, ln_data = d\<rparr>, a \<mapsto> \<lparr>ln_next = b, ln_data = e\<rparr>)) p
           (xs @ [(a, e)] @ [(b, d)] @ ys) 0"
  using assms by (auto simp: chain_frame image_Un)

text \<open>A node linked past, which is every removal but that of the first.\<close>

lemma chain_unlink:
  assumes "chain N p (xs @ [(a, e)] @ [(b, d)]) r" "chain N r ys 0"
    and "distinct (map fst (xs @ [(a, e)] @ [(b, d)] @ ys))"
  shows "chain (N(b := None, a \<mapsto> \<lparr>ln_next = r, ln_data = e\<rparr>)) p (xs @ [(a, e)] @ ys) 0"
  using assms by (auto simp: chain_frame)

text \<open>The rest of \<open>list_at\<close> after one write.\<close>

definition heap_frame :: "(addr \<Rightarrow> 'd list_node_t option) \<Rightarrow> (addr \<Rightarrow> 'd list_node_t option) \<Rightarrow> addr set \<Rightarrow> bool" where
  "heap_frame N F A = ((\<forall>a. a \<notin> A \<longrightarrow> N a = F a) \<and> (\<forall>a\<in>A. F a = None))"

lemma list_at_iff:
  "list_at l h F ns =
     (chain (hp_nodes h) (li_head l) ns 0 \<and> distinct (map fst ns) \<and>
      li_tail l = (if ns = [] then 0 else fst (last ns)) \<and> li_length l = of_nat (length ns) \<and>
      heap_frame (hp_nodes h) F (fst ` set ns))"
  unfolding list_at_def heap_frame_def by (metis (mono_tags, lifting))

lemma heap_frame_upd:
  assumes "heap_frame N F A"
  shows "b \<in> A \<Longrightarrow> heap_frame (N(b \<mapsto> x)) F A"
    and "F b = None \<Longrightarrow> heap_frame (N(b \<mapsto> x)) F (insert b A)"
    and "b \<in> A \<Longrightarrow> heap_frame (N(b := None)) F (A - {b})"
  using assms by (auto simp: heap_frame_def)

lemma list_append_at:
  assumes "list_at l h F ns" "new \<noteq> 0" "hp_nodes h new = None"
  obtains l' h' where "list_append new l h d = Some (True, l', h')" "list_at l' h' F (ns @ [(new, d)])"
    "li_free_cb l' = li_free_cb l" "hp_freed h' = hp_freed h"
proof (cases ns rule: rev_cases)
  case Nil
  let ?l = "l\<lparr>li_head := new, li_tail := new, li_length := li_length l + 1\<rparr>"
  let ?h = "h\<lparr>hp_nodes := (hp_nodes h)(new \<mapsto> \<lparr>ln_next = 0, ln_data = d\<rparr>)\<rparr>"
  have "heap_frame (hp_nodes h) F {}" using assms Nil by (simp add: list_at_iff)
  from heap_frame_upd(2) [OF this] have "heap_frame (hp_nodes ?h) F {new}"
    using list_at_fresh(2) [OF assms(1,3)] by simp
  then show ?thesis
    using assms Nil by (intro that [of ?l ?h]) (simp_all add: list_append_def list_at_iff)
next
  case (snoc xs n)
  obtain a e where n: "n = (a, e)" by (cases n)
  from assms snoc n have c: "chain (hp_nodes h) (li_head l) (xs @ [(a, e)]) 0"
    and di: "distinct (map fst (xs @ [(a, e)] @ []))" and t: "li_tail l = a" and a: "a \<noteq> 0"
    and len: "li_length l = of_nat (length ns)" and fr: "heap_frame (hp_nodes h) F (fst ` set ns)"
    and na: "hp_nodes h a = Some \<lparr>ln_next = 0, ln_data = e\<rparr>"
    by (auto simp: list_at_iff)
  have new: "new \<notin> fst ` set (xs @ [(a, e)] @ [])" "F new = None"
    using list_at_fresh [OF assms(1,3)] snoc n by simp_all
  let ?N = "(hp_nodes h)(new \<mapsto> \<lparr>ln_next = 0, ln_data = d\<rparr>, a \<mapsto> \<lparr>ln_next = new, ln_data = e\<rparr>)"
  let ?l = "l\<lparr>li_tail := new, li_length := li_length l + 1\<rparr>"
  have "chain ?N (li_head l) (ns @ [(new, d)]) 0"
    using chain_link [OF c di _ new(1) assms(2)] snoc n by simp
  moreover have "heap_frame ?N F (fst ` set (ns @ [(new, d)]))"
    using heap_frame_upd(1) [OF heap_frame_upd(2) [OF fr new(2)], of a] snoc n
    by (simp add: insert_commute)
  ultimately show ?thesis
    using t a na new di len snoc n
    by (intro that [of ?l "h\<lparr>hp_nodes := ?N\<rparr>"])
      (auto simp: list_append_def set_next_def list_at_iff)
qed

lemma list_prepend_at:
  assumes "list_at l h F ns" "new \<noteq> 0" "hp_nodes h new = None"
  obtains l' h' where "list_prepend new l h d = (True, l', h')" "list_at l' h' F ((new, d) # ns)"
    "li_free_cb l' = li_free_cb l" "hp_freed h' = hp_freed h"
proof -
  let ?N = "(hp_nodes h)(new \<mapsto> \<lparr>ln_next = li_head l, ln_data = d\<rparr>)"
  have fr: "heap_frame (hp_nodes h) F (fst ` set ns)" and z: "0 \<notin> fst ` set ns"
    using assms(1) by (simp_all add: list_at_iff) (erule conjE, rule chain_nonzero)
  have new: "new \<notin> fst ` set ns" "F new = None"
    using list_at_fresh [OF assms(1,3)] by simp_all
  have t: "(li_tail l = 0) = (ns = [])"
    using assms(1) z by (auto simp: list_at_iff image_iff)
  have "heap_frame ?N F (fst ` set ((new, d) # ns))"
    using heap_frame_upd(2) [OF fr new(2)] by simp
  then show ?thesis
    using assms new t
    by (intro that [of "l\<lparr>li_head := new, li_tail := if ns = [] then new else li_tail l, li_length := li_length l + 1\<rparr>"
          "h\<lparr>hp_nodes := ?N\<rparr>"])
      (auto simp: list_prepend_def Let_def list_at_iff chain_frame)
qed

lemma list_insert_after_at:
  assumes "list_at l h F (xs @ [(a, e)] @ ys)" "new \<noteq> 0" "hp_nodes h new = None"
  obtains l' h' where "list_insert_after new l h a d = Some (True, l', h')"
    "list_at l' h' F (xs @ [(a, e)] @ [(new, d)] @ ys)"
    "li_free_cb l' = li_free_cb l" "hp_freed h' = hp_freed h"
proof -
  from assms(1) obtain r where c: "chain (hp_nodes h) (li_head l) (xs @ [(a, e)]) r"
    and cy: "chain (hp_nodes h) r ys 0" and na: "hp_nodes h a = Some \<lparr>ln_next = r, ln_data = e\<rparr>"
    by (auto simp: list_at_iff)
  from assms(1) have di: "distinct (map fst (xs @ [(a, e)] @ ys))"
    and fr: "heap_frame (hp_nodes h) F (fst ` set (xs @ [(a, e)] @ ys))"
    by (auto simp: list_at_iff)
  have new: "new \<notin> fst ` set (xs @ [(a, e)] @ ys)" "F new = None"
    using list_at_fresh [OF assms(1,3)] by simp_all
  have t: "(li_tail l = a) = (ys = [])"
    using assms(1) di by (auto simp: list_at_iff image_iff)
  let ?N = "(hp_nodes h)(new \<mapsto> \<lparr>ln_next = r, ln_data = d\<rparr>, a \<mapsto> \<lparr>ln_next = new, ln_data = e\<rparr>)"
  let ?l = "l\<lparr>li_tail := if ys = [] then new else li_tail l, li_length := li_length l + 1\<rparr>"
  have "chain ?N (li_head l) (xs @ [(a, e)] @ [(new, d)] @ ys) 0"
    by (rule chain_link [OF c di cy new(1) assms(2)])
  moreover have "heap_frame ?N F (fst ` set (xs @ [(a, e)] @ [(new, d)] @ ys))"
    using heap_frame_upd(1) [OF heap_frame_upd(2) [OF fr new(2)], of a] by (simp add: insert_commute)
  moreover have "list_insert_after new l h a d = Some (True, ?l, h\<lparr>hp_nodes := ?N\<rparr>)"
    using t na new assms(2)
    by (auto simp: list_insert_after_def set_next_def Let_def)
  moreover have "distinct (map fst (xs @ [(a, e)] @ [(new, d)] @ ys))"
    using di new(1) by (auto simp: image_Un)
  ultimately show ?thesis
    using assms(1) by (intro that [of ?l "h\<lparr>hp_nodes := ?N\<rparr>"]) (auto simp: list_at_iff)
qed

text \<open>The two functions that free a node; \<open>g\<close> is what the callback gets.\<close>

definition frees ::
    "(list_t \<Rightarrow> 'd osi_heap \<Rightarrow> addr \<Rightarrow> (addr \<times> list_t \<times> 'd osi_heap) option) \<Rightarrow> (bool \<Rightarrow> 'd \<Rightarrow> 'd list) \<Rightarrow> bool" where
  "frees free_node g =
     (\<forall>l h a n. hp_nodes h a = Some n \<longrightarrow>
        free_node l h a =
          Some (ln_next n, l\<lparr>li_length := li_length l - 1\<rparr>,
                \<lparr>hp_nodes = (hp_nodes h)(a := None), hp_freed = hp_freed h @ g (li_free_cb l) (ln_data n)\<rparr>))"

lemma frees_list_free_node: "frees list_free_node (\<lambda>cb d. if cb then [d] else [])"
  by (auto simp: frees_def list_free_node_def Let_def)

lemma frees_list_delete_node: "frees list_delete_node (\<lambda>cb d. [])"
  by (auto simp: frees_def list_delete_node_def)

lemma freesD:
  assumes "frees free_node g" "hp_nodes h a = Some n"
  shows "free_node l h a =
          Some (ln_next n, l\<lparr>li_length := li_length l - 1\<rparr>,
                \<lparr>hp_nodes = (hp_nodes h)(a := None), hp_freed = hp_freed h @ g (li_free_cb l) (ln_data n)\<rparr>)"
  using assms by (simp add: frees_def)

text \<open>The loop finds the first node with the data behind the node \<open>a\<close>, or ends without one.\<close>

lemma unlink_loop_absent:
  assumes "chain (hp_nodes h) p ns 0" "d \<notin> snd ` set ns"
  shows "unlink_loop free_node l h a p d = Some (False, l, h)"
  using assms by (induction ns arbitrary: a p) (auto simp: unlink_loop.simps)

definition unlinked :: "list_t \<Rightarrow> 'd osi_heap \<Rightarrow> 'd list \<Rightarrow> addr \<Rightarrow> addr \<Rightarrow> addr \<times> 'd \<Rightarrow> bool \<times> list_t \<times> 'd osi_heap" where
  "unlinked l h g b r f =
     (True, l\<lparr>li_length := li_length l - 1, li_tail := if li_tail l = b then fst f else li_tail l\<rparr>,
      \<lparr>hp_nodes = (hp_nodes h)(b := None, fst f \<mapsto> \<lparr>ln_next = r, ln_data = snd f\<rparr>), hp_freed = hp_freed h @ g\<rparr>)"

lemma unlink_loop_found:
  assumes "frees free_node g"
    and "chain (hp_nodes h) a ((a, e) # xs @ [(b, d)] @ ys) 0"
    and "hp_nodes h a = Some \<lparr>ln_next = p, ln_data = e\<rparr>"
    and "d \<notin> snd ` set xs"
    and "distinct (map fst ((a, e) # xs @ [(b, d)] @ ys))"
  shows "\<exists>r. hp_nodes h b = Some \<lparr>ln_next = r, ln_data = d\<rparr> \<and>
    unlink_loop free_node l h a p d = Some (unlinked l h (g (li_free_cb l) d) b r (last ((a, e) # xs)))"
  using assms(2-)
proof (induction xs arbitrary: a e p)
  case Nil
  from Nil.prems obtain r where b: "hp_nodes h b = Some \<lparr>ln_next = r, ln_data = d\<rparr>" and p: "p = b" "b \<noteq> 0"
    and ab: "a \<noteq> b" by auto
  then show ?case
    using Nil.prems(2)
    by (intro exI [of _ r])
      (simp add: unlink_loop.simps [of _ _ _ _ b] freesD [OF assms(1) b] set_next_def Let_def unlinked_def fun_eq_iff)
next
  case (Cons x xs)
  obtain c k where x: "x = (c, k)" by (cases x)
  from Cons.prems x obtain q where c: "hp_nodes h c = Some \<lparr>ln_next = q, ln_data = k\<rparr>" and p: "p = c" "c \<noteq> 0"
    by auto
  have "unlink_loop free_node l h a p d = unlink_loop free_node l h c q d"
    using Cons.prems(3) x c p by (auto simp: unlink_loop.simps [of _ _ _ a])
  moreover have "chain (hp_nodes h) c ((c, k) # xs @ [(b, d)] @ ys) 0" using Cons.prems x by auto
  moreover have "d \<notin> snd ` set xs" "distinct (map fst ((c, k) # xs @ [(b, d)] @ ys))"
    using Cons.prems x by auto
  ultimately show ?case using Cons.IH [of c k q] c x by simp
qed

lemma unlink_at:
  assumes fs: "frees free_node g" and at: "list_at l h F (xs @ [(b, d)] @ ys)" and nd: "d \<notin> snd ` set xs"
  obtains l' h' where "unlink free_node l h d = Some (True, l', h')" "list_at l' h' F (xs @ ys)"
    "li_free_cb l' = li_free_cb l" "hp_freed h' = hp_freed h @ g (li_free_cb l) d"
proof -
  from at have ch: "chain (hp_nodes h) (li_head l) (xs @ [(b, d)] @ ys) 0"
    and di: "distinct (map fst (xs @ [(b, d)] @ ys))" and fr: "heap_frame (hp_nodes h) F (fst ` set (xs @ [(b, d)] @ ys))"
    and len: "li_length l = of_nat (length (xs @ [(b, d)] @ ys))"
    and tl: "li_tail l = fst (last (xs @ [(b, d)] @ ys))"
    by (simp_all add: list_at_iff)
  have ne: "\<not> list_is_empty l" using list_at_length(2) [OF at] by simp
  have len': "li_length l - 1 = of_nat (length (xs @ ys))" using len by simp
  have t: "(li_tail l = b) = (ys = [])"
    using di tl by (cases ys rule: rev_cases) auto
  have dif: "fst ` set (xs @ [(b, d)] @ ys) - {b} = fst ` set (xs @ ys)"
    using di by (auto simp: image_iff)
  have di': "distinct (map fst (xs @ ys))" using di by simp
  have fr': "heap_frame ((hp_nodes h)(b := None)) F (fst ` set (xs @ ys))"
    using heap_frame_upd(3) [OF fr, of b] unfolding dif by simp
  show ?thesis
  proof (cases xs)
    case Nil
    from ch Nil obtain r where b: "hp_nodes h b = Some \<lparr>ln_next = r, ln_data = d\<rparr>" "li_head l = b"
      and cy: "chain (hp_nodes h) r ys 0" by auto
    have cy': "chain ((hp_nodes h)(b := None)) r ys 0"
      using cy di Nil by (simp add: chain_frame)
    let ?l = "l\<lparr>li_head := r, li_tail := if ys = [] then r else li_tail l, li_length := li_length l - 1\<rparr>"
    have "unlink free_node l h d = Some (True, ?l, \<lparr>hp_nodes = (hp_nodes h)(b := None), hp_freed = hp_freed h @ g (li_free_cb l) d\<rparr>)"
      using b t ne by (simp add: unlink_def freesD [OF fs b(1)] Let_def)
    then show ?thesis
      using cy' fr' di' len' tl Nil by (elim that) (auto simp: list_at_iff)
  next
    case (Cons x zs)
    obtain a e where x: "x = (a, e)" by (cases x)
    from ch Cons x obtain p where a: "hp_nodes h a = Some \<lparr>ln_next = p, ln_data = e\<rparr>" "li_head l = a" by auto
    obtain r where rf: "hp_nodes h b = Some \<lparr>ln_next = r, ln_data = d\<rparr>"
      "unlink_loop free_node l h a p d = Some (unlinked l h (g (li_free_cb l) d) b r (last ((a, e) # zs)))"
      using unlink_loop_found [OF fs, of h a e zs b d ys p l] ch di nd Cons x a by auto
    obtain fa fe where f: "last xs = (fa, fe)" by (cases "last xs")
    then have l3: "last ((a, e) # zs) = (fa, fe)" using Cons x by simp
    from f obtain ws where xs: "xs = ws @ [(fa, fe)]"
      using Cons by (metis append_butlast_last_id list.distinct(1))
    from ch xs obtain r' where c1: "chain (hp_nodes h) (li_head l) (ws @ [(fa, fe)] @ [(b, d)]) r'"
      and c2: "chain (hp_nodes h) r' ys 0"
      by auto
    have r': "r' = r" using c1 rf(1) by simp
    let ?N = "(hp_nodes h)(b := None, fa \<mapsto> \<lparr>ln_next = r, ln_data = fe\<rparr>)"
    have "chain ?N (li_head l) (ws @ [(fa, fe)] @ ys) 0"
      using c1 c2 di xs unfolding r' by (intro chain_unlink) simp_all
    then have c3: "chain ?N (li_head l) (xs @ ys) 0" using xs by simp
    have "fa \<in> fst ` set (xs @ ys)" using xs by simp
    then have f3: "heap_frame ?N F (fst ` set (xs @ ys))" by (rule heap_frame_upd(1) [OF fr'])
    have "unlink free_node l h d = unlink_loop free_node l h a p d"
      using a ne nd Cons x by (auto simp: unlink_def)
    then have "unlink free_node l h d = Some (unlinked l h (g (li_free_cb l) d) b r (fa, fe))"
      using rf(2) l3 by simp
    then show ?thesis
      using f f3 c3 di' len' tl t Cons
      by (intro that [of "fst (snd (unlinked l h (g (li_free_cb l) d) b r (fa, fe)))"
            "snd (snd (unlinked l h (g (li_free_cb l) d) b r (fa, fe)))"])
        (auto simp: list_at_iff unlinked_def)
  qed
qed

lemma unlink_absent:
  assumes "list_at l h F ns" "d \<notin> snd ` set ns"
  shows "unlink free_node l h d = Some (False, l, h)"
proof (cases ns)
  case Nil
  then show ?thesis using list_at_length(2) [OF assms(1)] by (simp add: unlink_def)
next
  case (Cons n ms)
  from assms(1) Cons obtain p where n: "hp_nodes h (li_head l) = Some \<lparr>ln_next = p, ln_data = snd n\<rparr>"
    and c: "chain (hp_nodes h) p ms 0" by (auto simp: list_at_iff)
  then show ?thesis
    using assms(2) Cons list_at_length(2) [OF assms(1)] unlink_loop_absent [OF c, of d]
    by (auto simp: unlink_def)
qed

lemma clear_loop_chain:
  assumes "chain (hp_nodes h) p ns 0" "distinct (map fst ns)"
  shows "\<exists>l' h'. clear_loop l h p = Some (l', h') \<and> li_free_cb l' = li_free_cb l \<and>
    hp_freed h' = hp_freed h @ (if li_free_cb l then map snd ns else []) \<and>
    hp_nodes h' = (\<lambda>a. if a \<in> fst ` set ns then None else hp_nodes h a)"
  using assms
proof (induction ns arbitrary: p l h)
  case Nil
  then show ?case by (simp add: clear_loop.simps)
next
  case (Cons n ns)
  from Cons.prems obtain r where n: "hp_nodes h p = Some \<lparr>ln_next = r, ln_data = snd n\<rparr>" "p = fst n" "p \<noteq> 0"
    and c: "chain (hp_nodes h) r ns 0" by auto
  let ?l = "l\<lparr>li_length := li_length l - 1\<rparr>"
  let ?h = "\<lparr>hp_nodes = (hp_nodes h)(p := None), hp_freed = hp_freed h @ (if li_free_cb l then [snd n] else [])\<rparr>"
  have f: "list_free_node l h p = Some (r, ?l, ?h)"
    using freesD [OF frees_list_free_node n(1)] by simp
  have "chain (hp_nodes ?h) r ns 0" "distinct (map fst ns)"
    using c n Cons.prems(2) by (simp_all add: chain_frame)
  from Cons.IH [OF this, of ?l] obtain l' h' where c': "clear_loop ?l ?h r = Some (l', h')"
    "li_free_cb l' = li_free_cb l" "hp_freed h' = hp_freed h @ (if li_free_cb l then map snd (n # ns) else [])"
    "hp_nodes h' = (\<lambda>a. if a \<in> fst ` set ns then None else hp_nodes ?h a)"
    by auto
  have "clear_loop l h p = Some (l', h')"
    using n(3) f c'(1) by (simp add: clear_loop.simps [of l h p])
  moreover have "hp_nodes h' = (\<lambda>a. if a \<in> fst ` set (n # ns) then None else hp_nodes h a)"
    unfolding c'(4) using n(2) by (simp add: fun_eq_iff)
  ultimately show ?case using c'(2,3) by blast
qed

lemma list_clear_at:
  assumes "list_at l h F ns"
  obtains l' h' where "list_clear l h = Some (l', h')" "list_at l' h' F []" "li_free_cb l' = li_free_cb l"
    "hp_freed h' = hp_freed h @ (if li_free_cb l then map snd ns else [])"
proof -
  from assms have "chain (hp_nodes h) (li_head l) ns 0" "distinct (map fst ns)"
    and fr: "heap_frame (hp_nodes h) F (fst ` set ns)" by (simp_all add: list_at_iff)
  from clear_loop_chain [OF this(1,2), of l] obtain l1 h1 where
    c: "clear_loop l h (li_head l) = Some (l1, h1)" "li_free_cb l1 = li_free_cb l"
      "hp_freed h1 = hp_freed h @ (if li_free_cb l then map snd ns else [])"
      "hp_nodes h1 = (\<lambda>a. if a \<in> fst ` set ns then None else hp_nodes h a)" by blast
  have "hp_nodes h1 = F"
    using fr c(4) by (auto simp: heap_frame_def fun_eq_iff)
  then show ?thesis
    using c(1,2,3)
    by (intro that [of "l1\<lparr>li_head := 0, li_tail := 0, li_length := 0\<rparr>" h1]) (simp_all add: list_clear_def list_at_def)
qed

subsection \<open>The operations on the data\<close>

lemma list_holds_new: "list_holds (list_new_internal callback) h (hp_nodes h) []"
  unfolding list_holds_def by (rule exI [of _ "[]"]) (simp add: list_at_new)

lemma list_holds_read:
  assumes "list_holds l h F ds"
  shows "unat (list_length l) = length ds" "list_is_empty l = (ds = [])"
    and "list_contains l h d = Some (d \<in> set ds)"
    and "list_front l h = (if ds = [] then None else Some (hd ds))"
    and "list_back l h = (if ds = [] then None else Some (last ds))"
proof -
  from assms obtain ns where at: "list_at l h F ns" and ds: "ds = map snd ns"
    by (auto simp: list_holds_def)
  show "unat (list_length l) = length ds" "list_is_empty l = (ds = [])"
    using list_at_length [OF at] ds by simp_all
  show "list_contains l h d = Some (d \<in> set ds)"
    using at contains_loop_chain [of h "li_head l" ns d] ds by (simp add: list_contains_def list_at_iff)
  show "list_front l h = (if ds = [] then None else Some (hd ds))"
    "list_back l h = (if ds = [] then None else Some (last ds))"
    using list_at_peek [OF at] list_at_length(2) [OF at] ds
    by (auto simp: hd_map last_map list_front_def list_back_def)
qed

definition calloc_ok :: "addr \<Rightarrow> 'd osi_heap \<Rightarrow> bool" where
  "calloc_ok new h = (new = 0 \<or> hp_nodes h new = None)"

lemma list_holds_append:
  assumes "list_holds l h F ds" "calloc_ok new h"
  shows "\<exists>l' h'. list_append new l h d = Some (new \<noteq> 0, l', h') \<and>
    list_holds l' h' F (if new = 0 then ds else ds @ [d]) \<and>
    li_free_cb l' = li_free_cb l \<and> hp_freed h' = hp_freed h"
proof (cases "new = 0")
  case True
  then show ?thesis using assms(1) by (simp add: list_append_def)
next
  case False
  from assms(1) obtain ns where at: "list_at l h F ns" and ds: "ds = map snd ns"
    by (auto simp: list_holds_def)
  from False assms(2) have "hp_nodes h new = None" by (simp add: calloc_ok_def)
  from list_append_at [OF at False this, of d] obtain l' h' where
    "list_append new l h d = Some (True, l', h')" "list_at l' h' F (ns @ [(new, d)])"
    "li_free_cb l' = li_free_cb l" "hp_freed h' = hp_freed h" .
  moreover have "map snd (ns @ [(new, d)]) = ds @ [d]" using ds by simp
  ultimately show ?thesis using False unfolding list_holds_def by auto
qed

lemma list_holds_prepend:
  assumes "list_holds l h F ds" "calloc_ok new h"
  shows "\<exists>l' h'. list_prepend new l h d = (new \<noteq> 0, l', h') \<and>
    list_holds l' h' F (if new = 0 then ds else d # ds) \<and>
    li_free_cb l' = li_free_cb l \<and> hp_freed h' = hp_freed h"
proof (cases "new = 0")
  case True
  then show ?thesis using assms(1) by (simp add: list_prepend_def)
next
  case False
  from assms(1) obtain ns where at: "list_at l h F ns" and ds: "ds = map snd ns"
    by (auto simp: list_holds_def)
  from False assms(2) have "hp_nodes h new = None" by (simp add: calloc_ok_def)
  from list_prepend_at [OF at False this, of d] obtain l' h' where
    "list_prepend new l h d = (True, l', h')" "list_at l' h' F ((new, d) # ns)"
    "li_free_cb l' = li_free_cb l" "hp_freed h' = hp_freed h" .
  moreover have "map snd ((new, d) # ns) = d # ds" using ds by simp
  ultimately show ?thesis using False unfolding list_holds_def by auto
qed

lemma list_holds_unlink:
  assumes fs: "frees free_node g" and "list_holds l h F ds"
  shows "\<exists>l' h'. unlink free_node l h d = Some (d \<in> set ds, l', h') \<and> list_holds l' h' F (remove1 d ds) \<and>
    li_free_cb l' = li_free_cb l \<and>
    hp_freed h' = hp_freed h @ (if d \<in> set ds then g (li_free_cb l) d else [])"
proof -
  from assms(2) obtain ns where at: "list_at l h F ns" and ds: "ds = map snd ns"
    by (auto simp: list_holds_def)
  show ?thesis
  proof (cases "d \<in> set ds")
    case False
    then have "unlink free_node l h d = Some (False, l, h)"
      using ds by (intro unlink_absent [OF at]) simp
    with False assms(2) show ?thesis by (simp add: remove1_idem)
  next
    case True
    then obtain us vs where u: "ds = us @ d # vs" "d \<notin> set us" by (meson split_list_first)
    with ds obtain xs n ys where n: "ns = xs @ [n] @ ys" "us = map snd xs" "d = snd n" "vs = map snd ys"
      by (auto simp: append_eq_map_conv Cons_eq_map_conv)
    obtain b where b: "n = (b, d)" using n(3) by (cases n) simp
    from u(2) n(2) have "d \<notin> snd ` set xs" by simp
    from unlink_at [OF fs _ this] at n(1) b obtain l' h' where
      "unlink free_node l h d = Some (True, l', h')" "list_at l' h' F (xs @ ys)"
      "li_free_cb l' = li_free_cb l" "hp_freed h' = hp_freed h @ g (li_free_cb l) d" by metis
    moreover have "map snd (xs @ ys) = remove1 d ds" using u n by (simp add: remove1_append)
    ultimately show ?thesis using True unfolding list_holds_def by auto
  qed
qed

lemmas list_holds_remove = list_holds_unlink [OF frees_list_free_node, folded list_remove_def]
lemmas list_holds_delete = list_holds_unlink [OF frees_list_delete_node, folded list_delete_def]

lemma list_holds_clear:
  assumes "list_holds l h F ds"
  shows "\<exists>l' h'. list_clear l h = Some (l', h') \<and> list_holds l' h' F [] \<and> li_free_cb l' = li_free_cb l \<and>
    hp_freed h' = hp_freed h @ (if li_free_cb l then ds else [])"
proof -
  from assms obtain ns where at: "list_at l h F ns" and ds: "ds = map snd ns"
    by (auto simp: list_holds_def)
  from list_clear_at [OF at] obtain l' h' where "list_clear l h = Some (l', h')" "list_at l' h' F []"
    "li_free_cb l' = li_free_cb l" "hp_freed h' = hp_freed h @ (if li_free_cb l then map snd ns else [])" .
  then show ?thesis using ds unfolding list_holds_def by auto
qed

subsection \<open>Runs of calls\<close>

datatype 'd list_call =
    LAppend 'd | LPrepend 'd | LRemove 'd | LDelete 'd | LContains 'd | LFront | LBack | LLength | LClear

datatype 'd list_answer = ABool bool | AData 'd | ANum nat | ADone

definition list_call :: "addr \<Rightarrow> 'd list_call \<Rightarrow> list_t \<Rightarrow> 'd osi_heap \<Rightarrow> ('d list_answer \<times> list_t \<times> 'd osi_heap) option" where
  "list_call new c l h =
     (case c of
        LAppend d \<Rightarrow> map_option (apfst ABool) (list_append new l h d)
      | LPrepend d \<Rightarrow> Some (apfst ABool (list_prepend new l h d))
      | LRemove d \<Rightarrow> map_option (apfst ABool) (list_remove l h d)
      | LDelete d \<Rightarrow> map_option (apfst ABool) (list_delete l h d)
      | LContains d \<Rightarrow> map_option (\<lambda>b. (ABool b, l, h)) (list_contains l h d)
      | LFront \<Rightarrow> map_option (\<lambda>d. (AData d, l, h)) (list_front l h)
      | LBack \<Rightarrow> map_option (\<lambda>d. (AData d, l, h)) (list_back l h)
      | LLength \<Rightarrow> Some (ANum (unat (list_length l)), l, h)
      | LClear \<Rightarrow> map_option (\<lambda>x. (ADone, x)) (list_clear l h))"

text \<open>The calls one after another; \<open>alloc\<close> is \<open>osi_calloc\<close>, which may answer differently at every call.\<close>

fun list_calls ::
    "(nat \<Rightarrow> (addr \<Rightarrow> 'd list_node_t option) \<Rightarrow> addr) \<Rightarrow> nat \<Rightarrow> 'd list_call list \<Rightarrow> list_t \<Rightarrow> 'd osi_heap \<Rightarrow>
      ('d list_answer list \<times> list_t \<times> 'd osi_heap) option" where
  "list_calls alloc i [] l h = Some ([], l, h)"
| "list_calls alloc i (c # cs) l h =
     do {
       (a, l, h) \<leftarrow> list_call (alloc i (hp_nodes h)) c l h;
       (as, l, h) \<leftarrow> list_calls alloc (Suc i) cs l h;
       Some (a # as, l, h)
     }"

text \<open>
  What the calls mean on the data of the list and the data freed so far. \<open>ok\<close> says whether there was
  memory for a node, \<open>cb\<close> whether the list has a \<open>free_cb\<close>.
\<close>

fun list_spec :: "bool \<Rightarrow> bool \<Rightarrow> 'd list_call \<Rightarrow> 'd list \<times> 'd list \<Rightarrow> ('d list_answer \<times> 'd list \<times> 'd list) option" where
  "list_spec cb ok (LAppend d) (ds, fr) = Some (ABool ok, if ok then ds @ [d] else ds, fr)"
| "list_spec cb ok (LPrepend d) (ds, fr) = Some (ABool ok, if ok then d # ds else ds, fr)"
| "list_spec cb ok (LRemove d) (ds, fr) =
     Some (ABool (d \<in> set ds), remove1 d ds, if cb \<and> d \<in> set ds then fr @ [d] else fr)"
| "list_spec cb ok (LDelete d) (ds, fr) = Some (ABool (d \<in> set ds), remove1 d ds, fr)"
| "list_spec cb ok (LContains d) (ds, fr) = Some (ABool (d \<in> set ds), ds, fr)"
| "list_spec cb ok LFront (ds, fr) = (if ds = [] then None else Some (AData (hd ds), ds, fr))"
| "list_spec cb ok LBack (ds, fr) = (if ds = [] then None else Some (AData (last ds), ds, fr))"
| "list_spec cb ok LLength (ds, fr) = Some (ANum (length ds), ds, fr)"
| "list_spec cb ok LClear (ds, fr) = Some (ADone, [], if cb then fr @ ds else fr)"

fun list_specs ::
    "bool \<Rightarrow> bool list \<Rightarrow> 'd list_call list \<Rightarrow> 'd list \<times> 'd list \<Rightarrow> ('d list_answer list \<times> 'd list \<times> 'd list) option" where
  "list_specs cb (ok # oks) (c # cs) x =
     do {
       (a, x) \<leftarrow> list_spec cb ok c x;
       (as, x) \<leftarrow> list_specs cb oks cs x;
       Some (a # as, x)
     }"
| "list_specs cb oks cs x = Some ([], x)"

definition list_sim :: "bool \<Rightarrow> (addr \<Rightarrow> 'd list_node_t option) \<Rightarrow> list_t \<times> 'd osi_heap \<Rightarrow> 'd list \<times> 'd list \<Rightarrow> bool" where
  "list_sim cb F lh x = (case lh of (l, h) \<Rightarrow> list_holds l h F (fst x) \<and> hp_freed h = snd x \<and> li_free_cb l = cb)"

lemma list_call_sim:
  assumes "list_sim cb F (l, h) x" "calloc_ok new h"
  shows "rel_option (\<lambda>(a, lh) (b, y). a = b \<and> list_sim cb F lh y) (list_call new c l h) (list_spec cb (new \<noteq> 0) c x)"
proof -
  obtain ds fr where x: "x = (ds, fr)" by (cases x)
  from assms(1) x have at: "list_holds l h F ds" and f: "hp_freed h = fr" "li_free_cb l = cb"
    by (simp_all add: list_sim_def)
  note ops = list_holds_append [OF at assms(2)] list_holds_prepend [OF at assms(2)] list_holds_remove [OF at]
    list_holds_delete [OF at] list_holds_clear [OF at]
  show ?thesis
  proof (cases c)
    case (LAppend d)
    then show ?thesis using ops(1) [of d] x f at by (auto simp: list_call_def list_sim_def)
  next
    case (LPrepend d)
    then show ?thesis using ops(2) [of d] x f at by (auto simp: list_call_def list_sim_def)
  next
    case (LRemove d)
    then show ?thesis using ops(3) [of d] x f by (auto simp: list_call_def list_sim_def)
  next
    case (LDelete d)
    then show ?thesis using ops(4) [of d] x f by (auto simp: list_call_def list_sim_def)
  next
    case LClear
    then show ?thesis using ops(5) x f by (auto simp: list_call_def list_sim_def)
  qed (use at f x list_holds_read [OF at] in \<open>auto simp: list_call_def list_sim_def\<close>)
qed

lemma list_calls_sim:
  assumes al: "\<And>i h. calloc_ok (alloc i (hp_nodes h)) h" and "list_sim cb F (l, h) x"
  shows "\<exists>oks. length oks = length cs \<and>
    rel_option (\<lambda>(as, lh) (bs, y). as = bs \<and> list_sim cb F lh y) (list_calls alloc i cs l h) (list_specs cb oks cs x)"
  using assms(2)
proof (induction cs arbitrary: i l h x)
  case Nil
  then show ?case by simp
next
  case (Cons c cs)
  let ?new = "alloc i (hp_nodes h)"
  have r: "rel_option (\<lambda>(a, lh) (b, y). a = b \<and> list_sim cb F lh y) (list_call ?new c l h) (list_spec cb (?new \<noteq> 0) c x)"
    by (rule list_call_sim [OF Cons.prems al])
  show ?case
  proof (cases "list_call ?new c l h")
    case None
    with r have "list_spec cb (?new \<noteq> 0) c x = None" by (auto elim: option.rel_cases)
    with None show ?thesis
      by (intro exI [of _ "(?new \<noteq> 0) # replicate (length cs) True"]) simp
  next
    case (Some alh)
    then obtain a l1 h1 where c: "list_call ?new c l h = Some (a, l1, h1)" by (cases alh) auto
    with r obtain y where y: "list_spec cb (?new \<noteq> 0) c x = Some (a, y)" "list_sim cb F (l1, h1) y"
      by (auto elim: option.rel_cases)
    from Cons.IH [OF y(2), of "Suc i"] obtain oks where oks: "length oks = length cs"
      "rel_option (\<lambda>(as, lh) (bs, y). as = bs \<and> list_sim cb F lh y)
         (list_calls alloc (Suc i) cs l1 h1) (list_specs cb oks cs y)" by blast
    show ?thesis
      by (intro exI [of _ "(?new \<noteq> 0) # oks"] conjI)
        (use oks c y in \<open>auto split: option.splits elim!: option.rel_cases simp: Option.bind_eq_None_conv
           intro!: option.rel_intros\<close>)
  qed
qed

lemma list_calls_refine:
  assumes "\<And>i h. calloc_ok (alloc i (hp_nodes h)) h"
  shows "\<exists>oks. length oks = length cs \<and>
    (case list_calls alloc 0 cs (list_new_internal cb) \<lparr>hp_nodes = F, hp_freed = []\<rparr> of
       None \<Rightarrow> list_specs cb oks cs ([], []) = None
     | Some (as, l, h) \<Rightarrow> \<exists>ds. list_specs cb oks cs ([], []) = Some (as, ds, hp_freed h) \<and> list_holds l h F ds)"
proof -
  let ?h = "\<lparr>hp_nodes = F, hp_freed = []\<rparr>"
  have "list_sim cb F (list_new_internal cb, ?h) ([], [])"
    using list_holds_new [of cb ?h] by (simp add: list_sim_def) (simp add: list_new_internal_def)
  from list_calls_sim [of alloc, OF assms this, where i = 0 and cs = cs] show ?thesis
    by (auto simp: list_sim_def split: option.splits elim!: option.rel_cases) 
qed


text \<open>An allocator with two nodes.\<close>

definition two_nodes :: "nat \<Rightarrow> (addr \<Rightarrow> nat list_node_t option) \<Rightarrow> addr" where
  "two_nodes i N = (if N 4 = None then 4 else if N 8 = None then 8 else 0)"

definition few_calls :: "nat list_call list" where
  "few_calls = [LAppend 1, LPrepend 2, LAppend 3, LRemove 1, LLength, LFront]"


lemma list_run_example:
  "map_option fst (list_calls two_nodes 0 few_calls (list_new_internal True) \<lparr>hp_nodes = Map.empty, hp_freed = []\<rparr>) =
   Some [ABool True, ABool True, ABool False, ABool True, ANum 1, AData 2]"
  by (simp add: list_call_def list_append_def list_prepend_def list_remove_def unlink_def unlink_loop.simps
      list_new_internal_def list_is_empty_def list_free_node_def list_length_def list_front_def two_nodes_def
      set_next_def few_calls_def)

subsection \<open>The interface\<close>

text \<open>What a client of the list relies on, in one state of list and heap.\<close>

locale data_list =
  fixes holds :: "'s \<Rightarrow> 'd list \<Rightarrow> bool"
    and usable :: "'m \<Rightarrow> 's \<Rightarrow> bool"
    and found :: "'m \<Rightarrow> bool"
    and empty :: "'s \<Rightarrow> bool"
    and front :: "'s \<Rightarrow> 'd option"
    and member :: "'s \<Rightarrow> 'd \<Rightarrow> bool option"
    and append :: "'m \<Rightarrow> 's \<Rightarrow> 'd \<Rightarrow> (bool \<times> 's) option"
    and remove :: "'s \<Rightarrow> 'd \<Rightarrow> (bool \<times> 's) option"
  assumes empty_iff: "holds s ds \<Longrightarrow> empty s = (ds = [])"
    and front_hd: "holds s ds \<Longrightarrow> front s = (if ds = [] then None else Some (hd ds))"
    and member_iff: "holds s ds \<Longrightarrow> member s d = Some (d \<in> set ds)"
    and append_law: "\<lbrakk>holds s ds; usable m s\<rbrakk> \<Longrightarrow>
      \<exists>s'. append m s d = Some (found m, s') \<and> holds s' (if found m then ds @ [d] else ds)"
    and remove_law: "holds s ds \<Longrightarrow> \<exists>s'. remove s d = Some (d \<in> set ds, s') \<and> holds s' (remove1 d ds)"
begin

lemma pop:
  assumes "holds s ds" "ds \<noteq> []"
  shows "\<exists>s'. front s = Some (hd ds) \<and> remove s (hd ds) = Some (True, s') \<and> holds s' (tl ds)"
proof -
  have "remove1 (hd ds) ds = tl ds" using assms(2) by (cases ds) simp_all
  then show ?thesis
    using front_hd [OF assms(1)] remove_law [OF assms(1), of "hd ds"] assms(2) by auto
qed

lemma take_out:
  assumes "holds s ds" "member s d = Some True"
  shows "\<exists>s'. remove s d = Some (True, s') \<and> holds s' (remove1 d ds) \<and> d \<in> set ds"
  using remove_law [OF assms(1), of d] member_iff [OF assms(1), of d] assms(2) by auto

end

interpretation osi: data_list
  "\<lambda>s. list_holds (fst s) (snd s) F" "\<lambda>m s. calloc_ok m (snd s)" "\<lambda>m. m \<noteq> 0"
  "\<lambda>s. list_is_empty (fst s)" "\<lambda>s. list_front (fst s) (snd s)" "\<lambda>s. list_contains (fst s) (snd s)"
  "\<lambda>m s. list_append m (fst s) (snd s)" "\<lambda>s. list_remove (fst s) (snd s)"
  for F :: "addr \<Rightarrow> 'd list_node_t option"
proof
  fix s :: "list_t \<times> 'd osi_heap" and ds :: "'d list" and m d
  assume at: "list_holds (fst s) (snd s) F ds"
  show "list_is_empty (fst s) = (ds = [])" "list_front (fst s) (snd s) = (if ds = [] then None else Some (hd ds))"
    "list_contains (fst s) (snd s) d = Some (d \<in> set ds)"
    using list_holds_read [OF at] by blast+
  show "\<exists>s'. list_append m (fst s) (snd s) d = Some (m \<noteq> 0, s') \<and>
      list_holds (fst s') (snd s') F (if m \<noteq> 0 then ds @ [d] else ds)" if "calloc_ok m (snd s)"
    using list_holds_append [OF at that, of d] by auto
  show "\<exists>s'. list_remove (fst s) (snd s) d = Some (d \<in> set ds, s') \<and> list_holds (fst s') (snd s') F (remove1 d ds)"
    using list_holds_remove [OF at, of d] by auto
qed

end
