(* ===== verification/Osi_Queue.thy ===== *)
theory Osi_Queue
  imports Osi_List "HOL-Library.Multiset"
begin

text \<open>
  common/osi/fixed_queue.c with common/osi/semaphore.c: the bounded queue by which the tasks of the
  stack hand each other packets and messages. An operation is the code between two points where
  another task can come in: taking a semaphore, the section under the lock, giving a semaphore. The
  first half has the operations run to their end by one task, the second the steps of any number of
  tasks in any order.
\<close>

subsection \<open>Semaphores\<close>

text \<open>
  A counting semaphore. Giving one that is at its maximum has no effect, its failure is not looked at.
  \<open>None\<close>: the time was over before the semaphore could be taken.
\<close>

record osi_sem_t =
  sem_max :: nat
  sem_count :: nat

definition osi_sem_new :: "nat \<Rightarrow> nat \<Rightarrow> osi_sem_t" where
  "osi_sem_new max_count init_count = \<lparr>sem_max = max_count, sem_count = init_count\<rparr>"

definition osi_sem_give :: "osi_sem_t \<Rightarrow> osi_sem_t" where
  "osi_sem_give s = (if sem_count s < sem_max s then s\<lparr>sem_count := sem_count s + 1\<rparr> else s)"

definition osi_sem_take :: "osi_sem_t \<Rightarrow> osi_sem_t option" where
  "osi_sem_take s = (if sem_count s = 0 then None else Some (s\<lparr>sem_count := sem_count s - 1\<rparr>))"

subsection \<open>The queue\<close>

record 'd fixed_queue_t =
  fq_list :: list_t
  fq_heap :: "'d osi_heap"
  fq_enqueue_sem :: osi_sem_t
  fq_dequeue_sem :: osi_sem_t
  fq_capacity :: nat

text \<open>
  The arguments before \<open>capacity\<close> say which allocations succeed: the queue, its list and its two
  semaphores. The list has no \<open>free_cb\<close>.
\<close>

definition fixed_queue_new :: "bool \<Rightarrow> bool \<Rightarrow> bool \<Rightarrow> bool \<Rightarrow> nat \<Rightarrow> 'd osi_heap \<Rightarrow> 'd fixed_queue_t option" where
  "fixed_queue_new mem_queue mem_list mem_enq mem_deq capacity h =
     (if mem_queue \<and> mem_list \<and> mem_enq \<and> mem_deq
      then Some \<lparr>fq_list = list_new_internal False, fq_heap = h,
                 fq_enqueue_sem = osi_sem_new capacity capacity,
                 fq_dequeue_sem = osi_sem_new capacity 0, fq_capacity = capacity\<rparr>
      else None)"

text \<open>The data go to the \<open>free_cb\<close> of the caller, when there is one, and then the nodes are freed.\<close>

partial_function (option) free_data_loop :: "'d osi_heap \<Rightarrow> addr \<Rightarrow> 'd osi_heap option" where
  "free_data_loop h node =
     (if node = 0 then Some h
      else do {
        n \<leftarrow> hp_nodes h node;
        free_data_loop (h\<lparr>hp_freed := hp_freed h @ [ln_data n]\<rparr>) (ln_next n)
      })"

definition fixed_queue_free :: "'d fixed_queue_t \<Rightarrow> bool \<Rightarrow> 'd osi_heap option" where
  "fixed_queue_free q free_cb =
     do {
       h \<leftarrow> (if free_cb then free_data_loop (fq_heap q) (li_head (fq_list q)) else Some (fq_heap q));
       list_free (Some (fq_list q)) h
     }"

definition fixed_queue_is_empty :: "'d fixed_queue_t option \<Rightarrow> bool" where
  "fixed_queue_is_empty queue = (case queue of None \<Rightarrow> True | Some q \<Rightarrow> list_is_empty (fq_list q))"

definition fixed_queue_length :: "'d fixed_queue_t option \<Rightarrow> u32" where
  "fixed_queue_length queue = (case queue of None \<Rightarrow> 0 | Some q \<Rightarrow> list_length (fq_list q))"

text \<open>The sections under the lock.\<close>

definition enqueue_locked :: "addr \<Rightarrow> 'd fixed_queue_t \<Rightarrow> 'd \<Rightarrow> (bool \<times> 'd fixed_queue_t) option" where
  "enqueue_locked new q d =
     do {
       (status, l, h) \<leftarrow> list_append new (fq_list q) (fq_heap q) d;
       Some (status, q\<lparr>fq_list := l, fq_heap := h\<rparr>)
     }"

definition dequeue_locked :: "'d fixed_queue_t \<Rightarrow> ('d \<times> 'd fixed_queue_t) option" where
  "dequeue_locked q =
     do {
       d \<leftarrow> list_front (fq_list q) (fq_heap q);
       (removed, l, h) \<leftarrow> list_remove (fq_list q) (fq_heap q) d;
       Some (d, q\<lparr>fq_list := l, fq_heap := h\<rparr>)
     }"

text \<open>\<open>assert(removed)\<close> is the last \<open>None\<close>.\<close>

definition try_remove_locked :: "'d fixed_queue_t \<Rightarrow> 'd \<Rightarrow> (bool \<times> 'd fixed_queue_t) option" where
  "try_remove_locked q d =
     do {
       present \<leftarrow> list_contains (fq_list q) (fq_heap q) d;
       if present
       then (case osi_sem_take (fq_dequeue_sem q) of
               None \<Rightarrow> Some (False, q)
             | Some s \<Rightarrow> do {
                 (removed, l, h) \<leftarrow> list_remove (fq_list q) (fq_heap q) d;
                 if removed then Some (True, q\<lparr>fq_dequeue_sem := s, fq_list := l, fq_heap := h\<rparr>) else None
               })
       else Some (False, q)
     }"

subsection \<open>The operations run to their end\<close>

definition fixed_queue_enqueue :: "addr \<Rightarrow> 'd fixed_queue_t \<Rightarrow> 'd \<Rightarrow> (bool \<times> 'd fixed_queue_t) option" where
  "fixed_queue_enqueue new q d =
     (case osi_sem_take (fq_enqueue_sem q) of
        None \<Rightarrow> Some (False, q)
      | Some s \<Rightarrow> do {
          (status, q) \<leftarrow> enqueue_locked new (q\<lparr>fq_enqueue_sem := s\<rparr>) d;
          Some (status, if status then q\<lparr>fq_dequeue_sem := osi_sem_give (fq_dequeue_sem q)\<rparr> else q)
        })"

definition fixed_queue_dequeue :: "'d fixed_queue_t \<Rightarrow> ('d option \<times> 'd fixed_queue_t) option" where
  "fixed_queue_dequeue q =
     (case osi_sem_take (fq_dequeue_sem q) of
        None \<Rightarrow> Some (None, q)
      | Some s \<Rightarrow> do {
          (d, q) \<leftarrow> dequeue_locked (q\<lparr>fq_dequeue_sem := s\<rparr>);
          Some (Some d, q\<lparr>fq_enqueue_sem := osi_sem_give (fq_enqueue_sem q)\<rparr>)
        })"

definition fixed_queue_try_peek_first :: "'d fixed_queue_t \<Rightarrow> 'd option option" where
  "fixed_queue_try_peek_first q =
     (if list_is_empty (fq_list q) then Some None else map_option Some (list_front (fq_list q) (fq_heap q)))"

definition fixed_queue_try_peek_last :: "'d fixed_queue_t \<Rightarrow> 'd option option" where
  "fixed_queue_try_peek_last q =
     (if list_is_empty (fq_list q) then Some None else map_option Some (list_back (fq_list q) (fq_heap q)))"

definition fixed_queue_try_remove_from_queue :: "'d fixed_queue_t \<Rightarrow> 'd \<Rightarrow> ('d option \<times> 'd fixed_queue_t) option" where
  "fixed_queue_try_remove_from_queue q d =
     do {
       (removed, q) \<leftarrow> try_remove_locked q d;
       Some (if removed then (Some d, q\<lparr>fq_enqueue_sem := osi_sem_give (fq_enqueue_sem q)\<rparr>) else (None, q))
     }"

subsection \<open>Tasks\<close>

text \<open>
  Where a task stands inside \<open>fixed_queue_enqueue\<close>, \<open>fixed_queue_dequeue\<close> or
  \<open>fixed_queue_try_remove_from_queue\<close>.
\<close>

datatype 'd task =
    EnqStart 'd | EnqTaken 'd | EnqStored
  | DeqStart | DeqTaken | DeqGot 'd
  | RemStart 'd | RemGot 'd

datatype 'd event = Appended 'd | NoMemory 'd | Dequeued 'd | TakenOut 'd | Refused | Silent

text \<open>
  The next step of a task: what happens, where the task stands then (\<open>None\<close> when the operation is
  over), and the queue. A task that cannot take a semaphore goes on waiting, or gives up when its time
  has \<open>expired\<close>.
\<close>

definition task_step ::
    "addr \<Rightarrow> bool \<Rightarrow> 'd fixed_queue_t \<Rightarrow> 'd task \<Rightarrow> ('d event \<times> 'd task option \<times> 'd fixed_queue_t) option" where
  "task_step new expired q t =
     (case t of
        EnqStart d \<Rightarrow>
          (case osi_sem_take (fq_enqueue_sem q) of
             None \<Rightarrow> Some (if expired then (Refused, None, q) else (Silent, Some t, q))
           | Some s \<Rightarrow> Some (Silent, Some (EnqTaken d), q\<lparr>fq_enqueue_sem := s\<rparr>))
      | EnqTaken d \<Rightarrow>
          do {
            (status, q) \<leftarrow> enqueue_locked new q d;
            Some (if status then (Appended d, Some EnqStored, q) else (NoMemory d, None, q))
          }
      | EnqStored \<Rightarrow> Some (Silent, None, q\<lparr>fq_dequeue_sem := osi_sem_give (fq_dequeue_sem q)\<rparr>)
      | DeqStart \<Rightarrow>
          (case osi_sem_take (fq_dequeue_sem q) of
             None \<Rightarrow> Some (if expired then (Refused, None, q) else (Silent, Some t, q))
           | Some s \<Rightarrow> Some (Silent, Some DeqTaken, q\<lparr>fq_dequeue_sem := s\<rparr>))
      | DeqTaken \<Rightarrow>
          do {
            (d, q) \<leftarrow> dequeue_locked q;
            Some (Dequeued d, Some (DeqGot d), q)
          }
      | DeqGot d \<Rightarrow> Some (Silent, None, q\<lparr>fq_enqueue_sem := osi_sem_give (fq_enqueue_sem q)\<rparr>)
      | RemStart d \<Rightarrow>
          do {
            (removed, q) \<leftarrow> try_remove_locked q d;
            Some (if removed then (TakenOut d, Some (RemGot d), q) else (Refused, None, q))
          }
      | RemGot d \<Rightarrow> Some (Silent, None, q\<lparr>fq_enqueue_sem := osi_sem_give (fq_enqueue_sem q)\<rparr>))"

definition at_start :: "'d task \<Rightarrow> bool" where
  "at_start t = (case t of EnqStart d \<Rightarrow> True | DeqStart \<Rightarrow> True | RemStart d \<Rightarrow> True | _ \<Rightarrow> False)"

definition task_mset :: "'d task option \<Rightarrow> 'd task multiset" where
  "task_mset t' = (case t' of None \<Rightarrow> {#} | Some t \<Rightarrow> {#t#})"

text \<open>
  The queue with the tasks that are inside its operations: a task calls an operation, or one of them
  makes its next step.
\<close>

inductive queue_step ::
    "'d fixed_queue_t \<times> 'd task multiset \<Rightarrow> 'd event \<Rightarrow> 'd fixed_queue_t \<times> 'd task multiset \<Rightarrow> bool" where
  call: "at_start t \<Longrightarrow> queue_step (q, T) Silent (q, add_mset t T)"
| move: "\<lbrakk>calloc_ok new (fq_heap q); task_step new expired q t = Some (e, t', q')\<rbrakk> \<Longrightarrow>
    queue_step (q, add_mset t T) e (q', task_mset t' + T)"

text \<open>Runs from a new queue, with the events in their order.\<close>

inductive queue_run ::
    "nat \<Rightarrow> 'd osi_heap \<Rightarrow> 'd event list \<Rightarrow> 'd fixed_queue_t \<times> 'd task multiset \<Rightarrow> bool" for c h where
  start: "fixed_queue_new True True True True c h = Some q \<Longrightarrow> queue_run c h [] (q, {#})"
| step: "\<lbrakk>queue_run c h tr s; queue_step s e s'\<rbrakk> \<Longrightarrow> queue_run c h (tr @ [e]) s'"

subsection \<open>The plain queue\<close>

text \<open>What an event means for a plain list of data; \<open>None\<close> for an event a queue cannot show.\<close>

fun event_spec :: "'d event \<Rightarrow> 'd list \<Rightarrow> 'd list option" where
  "event_spec (Appended d) ds = Some (ds @ [d])"
| "event_spec (Dequeued d) ds = (if ds \<noteq> [] \<and> hd ds = d then Some (tl ds) else None)"
| "event_spec (TakenOut d) ds = (if d \<in> set ds then Some (remove1 d ds) else None)"
| "event_spec _ ds = Some ds"

fun queue_spec :: "'d event list \<Rightarrow> 'd list \<Rightarrow> 'd list option" where
  "queue_spec [] ds = Some ds"
| "queue_spec (e # tr) ds = do { ds \<leftarrow> event_spec e ds; queue_spec tr ds }"

lemma queue_spec_append:
  "queue_spec (tr @ es) ds = do { ds \<leftarrow> queue_spec tr ds; queue_spec es ds }"
  by (induction tr arbitrary: ds) (auto split: bind_split)

lemma queue_spec_snoc:
  "queue_spec (tr @ [e]) ds = do { ds \<leftarrow> queue_spec tr ds; event_spec e ds }"
  by (simp add: queue_spec_append) (auto split: bind_split)

text \<open>The enqueue slots a task has and the items it has, and the slots an event loses.\<close>

fun slot :: "'d task \<Rightarrow> nat" where
  "slot (EnqTaken d) = 1" | "slot (DeqGot d) = 1" | "slot (RemGot d) = 1" | "slot _ = 0"

fun item :: "'d task \<Rightarrow> nat" where
  "item EnqStored = 1" | "item DeqTaken = 1" | "item _ = 0"

fun lost :: "'d event \<Rightarrow> nat" where
  "lost (NoMemory d) = 1" | "lost _ = 0"

definition slots :: "'d task multiset \<Rightarrow> nat" where
  "slots T = (\<Sum>t\<in>#T. slot t)"

definition items :: "'d task multiset \<Rightarrow> nat" where
  "items T = (\<Sum>t\<in>#T. item t)"

definition lost_slots :: "'d event list \<Rightarrow> nat" where
  "lost_slots tr = sum_list (map lost tr)"

lemma tasks_simps [simp]:
  "slots {#} = 0" "items {#} = 0" "slots (add_mset t T) = slot t + slots T" "items (add_mset t T) = item t + items T"
  "slots (T + U) = slots T + slots U" "items (T + U) = items T + items U"
  "task_mset None = {#}" "task_mset (Some t) = {#t#}"
  by (simp_all add: slots_def items_def task_mset_def)

text \<open>
  The data of the queue, in a heap with the nodes \<open>hp_nodes h\<close> of others, nothing freed since \<open>h\<close>.
\<close>

definition queue_list :: "'d osi_heap \<Rightarrow> list_t \<times> 'd osi_heap \<Rightarrow> 'd list \<Rightarrow> bool" where
  "queue_list h s ds =
     (list_holds (fst s) (snd s) (hp_nodes h) ds \<and> \<not> li_free_cb (fst s) \<and> hp_freed (snd s) = hp_freed h)"

interpretation fq: data_list "queue_list h" "\<lambda>m s. calloc_ok m (snd s)" "\<lambda>m. m \<noteq> 0"
  "\<lambda>s. list_is_empty (fst s)" "\<lambda>s. list_front (fst s) (snd s)" "\<lambda>s. list_contains (fst s) (snd s)"
  "\<lambda>m s. list_append m (fst s) (snd s)" "\<lambda>s. list_remove (fst s) (snd s)"
  for h :: "'d osi_heap"
proof
  fix s :: "list_t \<times> 'd osi_heap" and ds :: "'d list" and m d
  assume "queue_list h s ds"
  then have at: "list_holds (fst s) (snd s) (hp_nodes h) ds"
    and q: "\<not> li_free_cb (fst s)" "hp_freed (snd s) = hp_freed h" by (simp_all add: queue_list_def)
  show "list_is_empty (fst s) = (ds = [])" "list_front (fst s) (snd s) = (if ds = [] then None else Some (hd ds))"
    "list_contains (fst s) (snd s) d = Some (d \<in> set ds)"
    using list_holds_read [OF at] by blast+
  show "\<exists>s'. list_append m (fst s) (snd s) d = Some (m \<noteq> 0, s') \<and>
      queue_list h s' (if m \<noteq> 0 then ds @ [d] else ds)" if "calloc_ok m (snd s)"
    using list_holds_append [OF at that, of d] q by (auto simp: queue_list_def)
  show "\<exists>s'. list_remove (fst s) (snd s) d = Some (d \<in> set ds, s') \<and> queue_list h s' (remove1 d ds)"
    using list_holds_remove [OF at, of d] q by (auto simp: queue_list_def)
qed

definition queue_at :: "nat \<Rightarrow> 'd osi_heap \<Rightarrow> nat \<Rightarrow> nat \<Rightarrow> nat \<Rightarrow> 'd list \<Rightarrow> 'd fixed_queue_t \<Rightarrow> bool" where
  "queue_at c h sl it lo ds q =
     (queue_list h (fq_list q, fq_heap q) ds \<and> fq_capacity q = c \<and>
      sem_max (fq_enqueue_sem q) = c \<and> sem_max (fq_dequeue_sem q) = c \<and>
      sem_count (fq_enqueue_sem q) + sl + length ds + lo = c \<and>
      sem_count (fq_dequeue_sem q) + it = length ds)"

text \<open>The sections under the lock.\<close>

lemma enqueue_locked_at:
  assumes "queue_at c h (Suc sl) it lo ds q" "calloc_ok new (fq_heap q)"
  shows "\<exists>q'. enqueue_locked new q d = Some (new \<noteq> 0, q') \<and>
    queue_at c h sl (if new = 0 then it else Suc it) (if new = 0 then Suc lo else lo) (if new = 0 then ds else ds @ [d]) q'"
  using assms fq.append_law [of h "(fq_list q, fq_heap q)" ds new d]
  by (auto simp: queue_at_def enqueue_locked_def)

lemma dequeue_locked_at:
  assumes "queue_at c h sl (Suc it) lo ds q"
  shows "\<exists>q'. dequeue_locked q = Some (hd ds, q') \<and> ds \<noteq> [] \<and> queue_at c h (Suc sl) it lo (tl ds) q'"
proof -
  have ne: "ds \<noteq> []" using assms by (auto simp: queue_at_def)
  then have "length ds = Suc (length (tl ds))" by simp
  then show ?thesis
    using assms ne fq.pop [of h "(fq_list q, fq_heap q)" ds]
    by (auto simp: queue_at_def dequeue_locked_def)
qed

lemma try_remove_locked_at:
  assumes "queue_at c h sl it lo ds q"
  shows "\<exists>q'. try_remove_locked q d = Some (d \<in> set ds \<and> sem_count (fq_dequeue_sem q) \<noteq> 0, q') \<and>
    (if d \<in> set ds \<and> sem_count (fq_dequeue_sem q) \<noteq> 0 then queue_at c h (Suc sl) it lo (remove1 d ds) q' else q' = q)"
proof (cases "d \<in> set ds \<and> sem_count (fq_dequeue_sem q) \<noteq> 0")
  case True
  have m: "list_contains (fq_list q) (fq_heap q) d = Some True"
    using fq.member_iff [of h "(fq_list q, fq_heap q)" ds d] assms True by (simp add: queue_at_def)
  then obtain s' where r: "list_remove (fq_list q) (fq_heap q) d = Some (True, s')" "queue_list h s' (remove1 d ds)"
    using fq.take_out [of h "(fq_list q, fq_heap q)" ds d] assms by (auto simp: queue_at_def)
  have l: "length (remove1 d ds) = length ds - 1" "length ds \<noteq> 0"
    using True by (simp_all add: length_remove1) auto
  obtain l' h' where s': "s' = (l', h')" by (cases s')
  show ?thesis
    using assms True m r l s'
    by (auto simp: queue_at_def try_remove_locked_def osi_sem_take_def simp del: length_remove1)
next
  case False
  then show ?thesis
    using fq.member_iff [of h "(fq_list q, fq_heap q)" ds d] assms
    by (auto simp: queue_at_def try_remove_locked_def osi_sem_take_def)
qed

subsection \<open>Every step\<close>

lemma osi_sem_take_Some:
  "osi_sem_take s = Some s' \<Longrightarrow> sem_max s' = sem_max s \<and> sem_count s = Suc (sem_count s')"
  by (auto simp: osi_sem_take_def split: if_splits)

lemma osi_sem_take_None: "osi_sem_take s = None \<Longrightarrow> sem_count s = 0"
  by (auto simp: osi_sem_take_def split: if_splits)

lemma queue_at_take:
  assumes "queue_at c h sl it lo ds q"
  shows "osi_sem_take (fq_enqueue_sem q) = Some s \<Longrightarrow> queue_at c h (Suc sl) it lo ds (q\<lparr>fq_enqueue_sem := s\<rparr>)"
    and "osi_sem_take (fq_dequeue_sem q) = Some s \<Longrightarrow> queue_at c h sl (Suc it) lo ds (q\<lparr>fq_dequeue_sem := s\<rparr>)"
  using assms by (auto simp: queue_at_def dest: osi_sem_take_Some)

lemma queue_at_give:
  "queue_at c h (Suc sl) it lo ds q \<Longrightarrow>
     queue_at c h sl it lo ds (q\<lparr>fq_enqueue_sem := osi_sem_give (fq_enqueue_sem q)\<rparr>)"
  "queue_at c h sl (Suc it) lo ds q \<Longrightarrow>
     queue_at c h sl it lo ds (q\<lparr>fq_dequeue_sem := osi_sem_give (fq_dequeue_sem q)\<rparr>)"
  by (auto simp: queue_at_def osi_sem_give_def)

lemma task_step_at:
  assumes "queue_at c h (slot t + sl) (item t + it) lo ds q" "calloc_ok new (fq_heap q)"
  shows "\<exists>e t' q' ds'. task_step new expired q t = Some (e, t', q') \<and> event_spec e ds = Some ds' \<and>
    queue_at c h (slots (task_mset t') + sl) (items (task_mset t') + it) (lost e + lo) ds' q'"
proof (cases t)
  case (EnqStart d)
  then show ?thesis
    using assms queue_at_take(1) [OF assms(1)]
    by (cases "osi_sem_take (fq_enqueue_sem q)") (auto simp: task_step_def)
next
  case (EnqTaken d)
  with assms(1) have "queue_at c h (Suc sl) it lo ds q" by simp
  from enqueue_locked_at [OF this assms(2), of d] show ?thesis
    using EnqTaken by (auto simp: task_step_def)
next
  case EnqStored
  then show ?thesis using assms(1) queue_at_give(2) [of c h sl it lo ds q] by (simp add: task_step_def)
next
  case DeqStart
  then show ?thesis
    using assms queue_at_take(2) [OF assms(1)]
    by (cases "osi_sem_take (fq_dequeue_sem q)") (auto simp: task_step_def)
next
  case DeqTaken
  with assms(1) have "queue_at c h sl (Suc it) lo ds q" by simp
  from dequeue_locked_at [OF this] show ?thesis
    using DeqTaken by (auto simp: task_step_def)
next
  case (DeqGot d)
  then show ?thesis using assms(1) queue_at_give(1) [of c h sl it lo ds q] by (simp add: task_step_def)
next
  case (RemStart d)
  with assms(1) have at: "queue_at c h sl it lo ds q" by simp
  from try_remove_locked_at [OF this, of d] show ?thesis
    using RemStart at by (auto simp: task_step_def)
next
  case (RemGot d)
  then show ?thesis using assms(1) queue_at_give(1) [of c h sl it lo ds q] by (simp add: task_step_def)
qed

definition queue_inv :: "nat \<Rightarrow> 'd osi_heap \<Rightarrow> 'd event list \<Rightarrow> 'd fixed_queue_t \<times> 'd task multiset \<Rightarrow> bool" where
  "queue_inv c h tr s =
     (\<exists>ds. queue_spec tr [] = Some ds \<and> queue_at c h (slots (snd s)) (items (snd s)) (lost_slots tr) ds (fst s))"

lemma queue_inv_start:
  assumes "fixed_queue_new True True True True c h = Some q"
  shows "queue_inv c h [] (q, {#})"
  using assms list_holds_new [of False h]
  by (auto simp: queue_inv_def queue_at_def queue_list_def fixed_queue_new_def osi_sem_new_def lost_slots_def
      list_new_internal_def)

lemma lost_slots_snoc [simp]: "lost_slots (tr @ [e]) = lost e + lost_slots tr"
  by (simp add: lost_slots_def)

lemma queue_inv_step:
  assumes "queue_inv c h tr s" "queue_step s e s'"
  shows "queue_inv c h (tr @ [e]) s'"
  using assms(2,1)
proof cases
  case (call t q T)
  then have "slot t = 0" "item t = 0" by (auto simp: at_start_def split: task.splits)
  with call assms(1) show ?thesis by (simp add: queue_inv_def queue_spec_snoc)
next
  case (move new q expired t t' q' T)
  from assms(1) move(1) obtain ds where sp: "queue_spec tr [] = Some ds"
    and at: "queue_at c h (slot t + slots T) (item t + items T) (lost_slots tr) ds q"
    by (auto simp: queue_inv_def)
  from task_step_at [OF at move(3), of expired] move(4) obtain ds' where
    "event_spec e ds = Some ds'"
    "queue_at c h (slots (task_mset t') + slots T) (items (task_mset t') + items T) (lost e + lost_slots tr) ds' q'"
    by auto
  then show ?thesis using move(2) sp by (auto simp: queue_inv_def queue_spec_snoc)
qed

lemma queue_run_inv:
  assumes "queue_run c h tr s"
  shows "queue_inv c h tr s"
  using assms by induction (auto intro: queue_inv_start queue_inv_step)

lemma queue_run_at:
  assumes "queue_run c h tr (q, T)"
  shows "\<exists>ds. queue_spec tr [] = Some ds \<and> queue_at c h (slots T) (items T) (lost_slots tr) ds q"
  using queue_run_inv [OF assms] by (simp add: queue_inv_def)

subsection \<open>The queue in any run\<close>

lemma queue_run_contents:
  assumes "queue_run c h tr (q, T)"
  shows "\<exists>ds. queue_spec tr [] = Some ds \<and> list_holds (fq_list q) (fq_heap q) (hp_nodes h) ds \<and>
    length ds \<le> c \<and> unat (fixed_queue_length (Some q)) = length ds \<and>
    fixed_queue_try_peek_first q = Some (if ds = [] then None else Some (hd ds)) \<and>
    fixed_queue_try_peek_last q = Some (if ds = [] then None else Some (last ds))"
proof -
  from queue_run_at [OF assms] obtain ds where ds: "queue_spec tr [] = Some ds"
    "queue_at c h (slots T) (items T) (lost_slots tr) ds q" by blast
  then have at: "list_holds (fq_list q) (fq_heap q) (hp_nodes h) ds" by (simp add: queue_at_def queue_list_def)
  from list_holds_read [OF at] ds at show ?thesis
    by (intro exI [of _ ds])
      (simp add: fixed_queue_length_def fixed_queue_try_peek_first_def fixed_queue_try_peek_last_def queue_at_def)
qed

text \<open>
  C7 (invariant). After any interleaving of any number of tasks the queue holds what the events so far make of a plain
  list: data come out in the order they went in, but for those taken out by name, there are never more
  than the capacity, and the length and the two peeks tell the truth.
\<close>

theorem queue_is_fifo:
  assumes "queue_run c h tr (q, T)"
  shows "\<exists>ds. queue_spec tr [] = Some ds \<and> list_holds (fq_list q) (fq_heap q) (hp_nodes h) ds \<and>
    length ds \<le> c \<and> unat (fixed_queue_length (Some q)) = length ds \<and>
    fixed_queue_try_peek_first q = Some (if ds = [] then None else Some (hd ds)) \<and>
    fixed_queue_try_peek_last q = Some (if ds = [] then None else Some (last ds))"
  using assms by (rule queue_run_contents)

lemma queue_run_step_defined:
  assumes "queue_run c h tr (q, T)" "t \<in># T" "calloc_ok new (fq_heap q)"
  shows "task_step new expired q t \<noteq> None"
proof -
  from assms(2) obtain U where T: "T = add_mset t U" by (meson multi_member_split)
  from queue_run_at [OF assms(1)] obtain ds where
    "queue_at c h (slot t + slots U) (item t + items U) (lost_slots tr) ds q" by (auto simp: T)
  from task_step_at [OF this assms(3), of expired] show ?thesis by auto
qed

text \<open>
  C20 (safety). No task ever fails an assertion, takes the front of an empty list, or touches a freed node: a task
  that got the semaphore always finds its datum, whatever the others do.
\<close>

theorem queue_never_asserts:
  assumes "queue_run c h tr (q, T)" "t \<in># T" "calloc_ok new (fq_heap q)"
  shows "task_step new expired q t \<noteq> None"
  using assms by (rule queue_run_step_defined)

text \<open>A task that can only wait.\<close>

definition waits :: "'d fixed_queue_t \<Rightarrow> 'd task \<Rightarrow> bool" where
  "waits q t =
     ((\<exists>d. t = EnqStart d \<and> osi_sem_take (fq_enqueue_sem q) = None) \<or>
      t = DeqStart \<and> osi_sem_take (fq_dequeue_sem q) = None)"

lemma all_wait_zero:
  assumes "\<forall>t\<in>#T. waits q t"
  shows "slots T = 0" "items T = 0"
  using assms by (induction T) (auto simp: waits_def)

lemma all_wait_contents:
  assumes "queue_run c h tr (q, T)" "\<forall>t\<in>#T. waits q t"
  shows "\<exists>ds. queue_spec tr [] = Some ds \<and> sem_count (fq_dequeue_sem q) = length ds \<and>
    sem_count (fq_enqueue_sem q) + length ds + lost_slots tr = c \<and>
    (DeqStart \<in># T \<longrightarrow> ds = []) \<and> (\<forall>d. EnqStart d \<in># T \<longrightarrow> length ds + lost_slots tr = c)"
proof -
  from queue_run_at [OF assms(1)] all_wait_zero [OF assms(2)] obtain ds where
    ds: "queue_spec tr [] = Some ds" "queue_at c h 0 0 (lost_slots tr) ds q" by auto
  have "DeqStart \<in># T \<Longrightarrow> sem_count (fq_dequeue_sem q) = 0"
    using assms(2) by (auto simp: waits_def dest: osi_sem_take_None)
  moreover have "EnqStart d \<in># T \<Longrightarrow> sem_count (fq_enqueue_sem q) = 0" for d
    using assms(2) by (auto simp: waits_def dest: osi_sem_take_None)
  ultimately show ?thesis using ds by (intro exI [of _ ds]) (auto simp: queue_at_def)
qed

text \<open>The steps a task has before it, at most.\<close>

fun steps_left :: "'d task \<Rightarrow> nat" where
  "steps_left (EnqStart d) = 3" | "steps_left (EnqTaken d) = 2" | "steps_left EnqStored = 1"
| "steps_left DeqStart = 3" | "steps_left DeqTaken = 2" | "steps_left (DeqGot d) = 1"
| "steps_left (RemStart d) = 2" | "steps_left (RemGot d) = 1"

definition work :: "'d task multiset \<Rightarrow> nat" where
  "work T = (\<Sum>t\<in>#T. steps_left t)"

lemma work_simps [simp]:
  "work {#} = 0" "work (add_mset t T) = steps_left t + work T" "work (T + U) = work T + work U"
  by (simp_all add: work_def)

lemma task_step_work:
  assumes "task_step new False q t = Some (e, t', q')" "\<not> waits q t"
  shows "work (task_mset t') < steps_left t"
  using assms
  by (cases t) (auto simp: task_step_def waits_def Option.bind_eq_Some_conv split: option.splits if_splits)

text \<open>Moves of the tasks that are inside the queue, none of them a waiting one, with no new call.\<close>

inductive queue_moves ::
    "nat \<Rightarrow> 'd event list \<Rightarrow> 'd fixed_queue_t \<times> 'd task multiset \<Rightarrow> 'd fixed_queue_t \<times> 'd task multiset \<Rightarrow> bool" where
  none: "queue_moves 0 [] s s"
| more: "\<lbrakk>calloc_ok new (fq_heap q); \<not> waits q t; task_step new False q t = Some (e, t', q');
     queue_moves n tr (q', task_mset t' + T) s\<rbrakk> \<Longrightarrow> queue_moves (Suc n) (e # tr) (q, add_mset t T) s"

lemma queue_moves_work:
  assumes "queue_moves n tr s s'"
  shows "n + work (snd s') \<le> work (snd s)"
  using assms by induction (auto dest: task_step_work)

lemma queue_moves_run:
  assumes "queue_moves n tr' s s'" "queue_run c h tr s"
  shows "queue_run c h (tr @ tr') s'"
  using assms
proof (induction arbitrary: tr)
  case (more new q t e t' q' n tr' T s)
  have "queue_run c h (tr @ [e]) (q', task_mset t' + T)"
    by (rule queue_run.step [OF more.prems queue_step.move [OF more.hyps(1,3)]])
  from more.IH [OF this] show ?case by simp
qed simp

text \<open>
  C18 (liveness). Left to themselves, the tasks inside the queue make at most \<open>work\<close> moves in whatever order; as long
  as one of them does not wait, one can move; and when all wait, those that dequeue wait for an empty
  queue and those that enqueue for a full one, counting the slots lost.
\<close>

theorem queue_settles:
  assumes "queue_run c h tr (q, T)" "queue_moves n tr' (q, T) (q', T')"
  shows "n \<le> work T \<and>
    (if \<forall>t\<in>#T'. waits q' t
     then \<exists>ds. queue_spec (tr @ tr') [] = Some ds \<and> (DeqStart \<in># T' \<longrightarrow> ds = []) \<and>
       (\<forall>d. EnqStart d \<in># T' \<longrightarrow> length ds + lost_slots (tr @ tr') = c)
     else \<exists>t\<in>#T'. \<forall>new. calloc_ok new (fq_heap q') \<longrightarrow>
       (\<exists>e t' q''. task_step new False q' t = Some (e, t', q'') \<and> work (task_mset t') < steps_left t))"
proof -
  have r: "queue_run c h (tr @ tr') (q', T')" by (rule queue_moves_run [OF assms(2,1)])
  have "n \<le> work T" using queue_moves_work [OF assms(2)] by simp
  moreover have "\<exists>t\<in>#T'. \<forall>new. calloc_ok new (fq_heap q') \<longrightarrow>
       (\<exists>e t' q''. task_step new False q' t = Some (e, t', q'') \<and> work (task_mset t') < steps_left t)"
    if "\<not> (\<forall>t\<in>#T'. waits q' t)"
  proof -
    from that obtain t where t: "t \<in># T'" "\<not> waits q' t" by blast
    show ?thesis
    proof (intro bexI [OF _ t(1)] allI impI)
      fix new
      assume "calloc_ok new (fq_heap q')"
      from queue_run_step_defined [OF r t(1) this, of False] obtain e t' q'' where
        s: "task_step new False q' t = Some (e, t', q'')" by auto
      then show "\<exists>e t' q''. task_step new False q' t = Some (e, t', q'') \<and> work (task_mset t') < steps_left t"
        using task_step_work [OF s t(2)] by auto
    qed
  qed
  ultimately show ?thesis using all_wait_contents [OF r] by auto
qed

subsection \<open>Lost slots\<close>

lemma enqueue_run:
  assumes "queue_run c h tr (q, {#})" "queue_spec tr [] = Some ds" "length ds + lost_slots tr < c"
    and new: "\<And>s. calloc_ok new (fq_heap (q\<lparr>fq_enqueue_sem := s\<rparr>))"
  shows "\<exists>q'. queue_run c h (tr @ [Silent, Silent, if new = 0 then NoMemory d else Appended d])
    (q', if new = 0 then {#} else {#EnqStored#})"
proof -
  from queue_run_at [OF assms(1)] assms(2) have at: "queue_at c h 0 0 (lost_slots tr) ds q" by simp
  then obtain s where s: "osi_sem_take (fq_enqueue_sem q) = Some s"
    using assms(3) by (auto simp: queue_at_def osi_sem_take_def)
  let ?q1 = "q\<lparr>fq_enqueue_sem := s\<rparr>"
  have at1: "queue_at c h (Suc 0) 0 (lost_slots tr) ds ?q1" by (rule queue_at_take(1) [OF at s])
  from enqueue_locked_at [OF at1 new, of d] obtain q2 where q2: "enqueue_locked new ?q1 d = Some (new \<noteq> 0, q2)"
    by auto
  have r1: "queue_run c h (tr @ [Silent]) (q, add_mset (EnqStart d) {#})"
    by (rule queue_run.step [OF assms(1) queue_step.call]) (simp add: at_start_def)
  have ok: "calloc_ok 0 (fq_heap q)" by (simp add: calloc_ok_def)
  have "task_step 0 False q (EnqStart d) = Some (Silent, Some (EnqTaken d), ?q1)"
    using s by (simp add: task_step_def)
  from queue_run.step [OF r1 queue_step.move [OF ok this]]
  have r2: "queue_run c h (tr @ [Silent, Silent]) (?q1, add_mset (EnqTaken d) {#})" by simp
  have "task_step new False ?q1 (EnqTaken d) =
      Some (if new = 0 then NoMemory d else Appended d, if new = 0 then None else Some EnqStored, q2)"
    using q2 by (simp add: task_step_def)
  from queue_run.step [OF r2 queue_step.move [OF new this]] show ?thesis by (auto split: if_splits)
qed

text \<open>A failed \<open>list_append\<close> leaves the queue without the slot taken for it.\<close>

lemma slots_run_out:
  "k \<le> c \<Longrightarrow> \<exists>tr q. queue_run c h tr (q, {#}) \<and> lost_slots tr = k \<and> queue_spec tr [] = Some []"
proof (induction k)
  case 0
  then show ?case
    by (intro exI [of _ "[]"])
      (auto simp: lost_slots_def fixed_queue_new_def intro!: exI queue_run.start)
next
  case (Suc k)
  then obtain tr q where r: "queue_run c h tr (q, {#})" "lost_slots tr = k" "queue_spec tr [] = Some []" by auto
  let ?tr = "tr @ [Silent, Silent, NoMemory undefined]"
  from enqueue_run [OF r(1,3), of 0 undefined] Suc.prems r(2) obtain q' where "queue_run c h ?tr (q', {#})"
    by (auto simp: calloc_ok_def)
  moreover have "lost_slots ?tr = Suc k" using r(2) by (simp add: lost_slots_def)
  moreover have "queue_spec ?tr [] = Some []" using r(3) by (simp add: queue_spec_append)
  ultimately show ?case by blast
qed

lemma queue_dead_at:
  assumes "queue_at c h sl it c ds q"
  shows "fixed_queue_is_empty (Some q)" "fixed_queue_enqueue new q d = Some (False, q)"
    "fixed_queue_dequeue q = Some (None, q)"
proof -
  from assms have "ds = []" "sem_count (fq_enqueue_sem q) = 0" "sem_count (fq_dequeue_sem q) = 0"
    and "queue_list h (fq_list q, fq_heap q) ds" by (auto simp: queue_at_def)
  then show "fixed_queue_is_empty (Some q)" "fixed_queue_enqueue new q d = Some (False, q)"
    "fixed_queue_dequeue q = Some (None, q)"
    using fq.empty_iff [of h "(fq_list q, fq_heap q)" ds]
    by (simp_all add: fixed_queue_is_empty_def fixed_queue_enqueue_def fixed_queue_dequeue_def osi_sem_take_def)
qed

text \<open>
  For every capacity there is a run, of enqueues for which there was no memory, after which the queue is
  empty and no task is inside it, and yet it refuses every enqueue for good.
\<close>

theorem queue_slots_leak:
  "\<exists>tr q. queue_run c h tr (q, {#}) \<and> fixed_queue_is_empty (Some q) \<and>
     (\<forall>new d. fixed_queue_enqueue new q d = Some (False, q)) \<and> fixed_queue_dequeue q = Some (None, q)"
proof -
  from slots_run_out [of c c h] obtain tr q where r: "queue_run c h tr (q, {#})" "lost_slots tr = c" by auto
  from queue_run_at [OF r(1)] r(2) obtain ds where "queue_at c h 0 0 c ds q" by auto
  from queue_dead_at [OF this] r(1) show ?thesis by blast
qed

subsection \<open>The operations of one task\<close>

text \<open>A task run to the end of its operation, with the events it shows; its time is over at once.\<close>

fun run_task :: "nat \<Rightarrow> addr \<Rightarrow> 'd fixed_queue_t \<Rightarrow> 'd task \<Rightarrow> ('d event list \<times> 'd fixed_queue_t) option" where
  "run_task 0 new q t = None"
| "run_task (Suc n) new q t =
     do {
       (e, t', q) \<leftarrow> task_step new True q t;
       case t' of
         None \<Rightarrow> Some ([e], q)
       | Some t' \<Rightarrow> do {
           (es, q) \<leftarrow> run_task n new q t';
           Some (e # es, q)
         }
     }"

definition event_data :: "'d event list \<Rightarrow> 'd option" where
  "event_data es = (case filter (\<lambda>e. case e of Silent \<Rightarrow> False | _ \<Rightarrow> True) es of
     [Dequeued d] \<Rightarrow> Some d | [TakenOut d] \<Rightarrow> Some d | [Appended d] \<Rightarrow> Some d | _ \<Rightarrow> None)"

lemma operations_are_steps:
  "fixed_queue_enqueue new q d = map_option (apfst (\<lambda>es. event_data es = Some d)) (run_task 3 new q (EnqStart d))"
  "fixed_queue_dequeue q = map_option (apfst event_data) (run_task 3 new q DeqStart)"
  "fixed_queue_try_remove_from_queue q d = map_option (apfst event_data) (run_task 3 new q (RemStart d))"
  by (auto simp: fixed_queue_enqueue_def fixed_queue_dequeue_def fixed_queue_try_remove_from_queue_def
      eval_nat_numeral task_step_def event_data_def Option.bind_eq_None_conv apfst_def map_prod_def
      split: option.splits bind_splits)

text \<open>
  An operation that is not interrupted is the sequence of its steps: the composition of the code gives
  the same answer and the same queue as the steps that the runs interleave.
\<close>

theorem queue_operations_are_steps:
  "fixed_queue_enqueue new q d = map_option (apfst (\<lambda>es. event_data es = Some d)) (run_task 3 new q (EnqStart d)) \<and>
   fixed_queue_dequeue q = map_option (apfst event_data) (run_task 3 new q DeqStart) \<and>
   fixed_queue_try_remove_from_queue q d = map_option (apfst event_data) (run_task 3 new q (RemStart d))"
  by (intro conjI) (rule operations_are_steps)+

lemma enqueue_at:
  assumes "queue_at c h 0 0 lo ds q" "calloc_ok new (fq_heap q)"
  shows "\<exists>q'. fixed_queue_enqueue new q d = Some (length ds + lo < c \<and> new \<noteq> 0, q') \<and>
    queue_at c h 0 0 (if length ds + lo < c \<and> new = 0 then Suc lo else lo)
      (if length ds + lo < c \<and> new \<noteq> 0 then ds @ [d] else ds) q'"
proof (cases "osi_sem_take (fq_enqueue_sem q)")
  case None
  with assms(1) have "\<not> length ds + lo < c" by (auto simp: queue_at_def dest: osi_sem_take_None)
  with None assms(1) show ?thesis by (simp add: fixed_queue_enqueue_def)
next
  case (Some s)
  with assms(1) have l: "length ds + lo < c" by (auto simp: queue_at_def dest: osi_sem_take_Some)
  have "queue_at c h (Suc 0) 0 lo ds (q\<lparr>fq_enqueue_sem := s\<rparr>)" by (rule queue_at_take(1) [OF assms(1) Some])
  from enqueue_locked_at [OF this, of new d] assms(2) obtain q' where
    q': "enqueue_locked new (q\<lparr>fq_enqueue_sem := s\<rparr>) d = Some (new \<noteq> 0, q')"
    "queue_at c h 0 (if new = 0 then 0 else Suc 0) (if new = 0 then Suc lo else lo) (if new = 0 then ds else ds @ [d]) q'"
    by auto
  show ?thesis
    using Some l q' queue_at_give(2) [of c h 0 0 lo "ds @ [d]" q']
    by (cases "new = 0") (simp_all add: fixed_queue_enqueue_def)
qed

lemma dequeue_at:
  assumes "queue_at c h 0 0 lo ds q"
  shows "\<exists>q'. fixed_queue_dequeue q = Some (if ds = [] then None else Some (hd ds), q') \<and> queue_at c h 0 0 lo (tl ds) q'"
proof (cases "osi_sem_take (fq_dequeue_sem q)")
  case None
  with assms have "ds = []" by (auto simp: queue_at_def dest: osi_sem_take_None)
  with None assms show ?thesis by (simp add: fixed_queue_dequeue_def)
next
  case (Some s)
  have "queue_at c h 0 (Suc 0) lo ds (q\<lparr>fq_dequeue_sem := s\<rparr>)" by (rule queue_at_take(2) [OF assms Some])
  from dequeue_locked_at [OF this] obtain q' where
    q': "dequeue_locked (q\<lparr>fq_dequeue_sem := s\<rparr>) = Some (hd ds, q')" "ds \<noteq> []" "queue_at c h (Suc 0) 0 lo (tl ds) q'"
    by auto
  then show ?thesis using Some queue_at_give(1) [OF q'(3)] by (simp add: fixed_queue_dequeue_def)
qed

lemma try_remove_at:
  assumes "queue_at c h 0 0 lo ds q"
  shows "\<exists>q'. fixed_queue_try_remove_from_queue q d = Some (if d \<in> set ds then Some d else None, q') \<and>
    queue_at c h 0 0 lo (remove1 d ds) q'"
proof (cases "d \<in> set ds")
  case True
  with assms have "sem_count (fq_dequeue_sem q) \<noteq> 0" by (auto simp: queue_at_def)
  with try_remove_locked_at [OF assms, of d] True obtain q' where
    q': "try_remove_locked q d = Some (True, q')" "queue_at c h (Suc 0) 0 lo (remove1 d ds) q'" by auto
  then show ?thesis using True queue_at_give(1) [OF q'(2)] by (simp add: fixed_queue_try_remove_from_queue_def)
next
  case False
  with try_remove_locked_at [OF assms, of d] assms show ?thesis
    by (auto simp: fixed_queue_try_remove_from_queue_def remove1_idem)
qed

subsection \<open>Freeing the queue\<close>

lemma free_data_chain:
  assumes "chain (hp_nodes h) p ns 0"
  shows "free_data_loop h p = Some (h\<lparr>hp_freed := hp_freed h @ map snd ns\<rparr>)"
  using assms
proof (induction ns arbitrary: p h)
  case Nil
  then show ?case by (simp add: free_data_loop.simps)
next
  case (Cons n ns)
  then obtain r where n: "hp_nodes h p = Some \<lparr>ln_next = r, ln_data = snd n\<rparr>" "p \<noteq> 0" "chain (hp_nodes h) r ns 0"
    by auto
  then show ?case
    using Cons.IH [of "h\<lparr>hp_freed := hp_freed h @ [snd n]\<rparr>" r]
    by (simp add: free_data_loop.simps [of h p])
qed

lemma list_holds_nil_heap:
  assumes "list_holds l h F []"
  shows "hp_nodes h = F"
  using assms by (auto simp: list_holds_def list_at_iff heap_frame_def)

lemma list_holds_same_nodes:
  assumes "list_holds l h F ds" "hp_nodes g = hp_nodes h"
  shows "list_holds l g F ds"
  using assms(1) unfolding list_holds_def list_at_def assms(2) .

lemma queue_free_at:
  assumes "queue_at c h sl it lo ds q"
  shows "fixed_queue_free q free_cb =
    Some \<lparr>hp_nodes = hp_nodes h, hp_freed = hp_freed h @ (if free_cb then ds else [])\<rparr>"
proof -
  let ?l = "fq_list q" and ?h = "fq_heap q"
  let ?g = "?h\<lparr>hp_freed := hp_freed h @ (if free_cb then ds else [])\<rparr>"
  from assms have at: "list_holds ?l ?h (hp_nodes h) ds" and cb: "\<not> li_free_cb ?l" and fr: "hp_freed ?h = hp_freed h"
    by (simp_all add: queue_at_def queue_list_def)
  from at obtain ns where "list_at ?l ?h (hp_nodes h) ns" "ds = map snd ns" by (auto simp: list_holds_def)
  then have f: "free_data_loop ?h (li_head ?l) = Some (?h\<lparr>hp_freed := hp_freed h @ ds\<rparr>)"
    using free_data_chain [of ?h "li_head ?l" ns] fr by (simp add: list_at_iff)
  have "list_holds ?l ?g (hp_nodes h) ds" by (rule list_holds_same_nodes [OF at]) simp
  from list_holds_clear [OF this] obtain l' h' where c: "list_clear ?l ?g = Some (l', h')"
    "list_holds l' h' (hp_nodes h) []" "hp_freed h' = hp_freed ?g" using cb by auto
  have "(if free_cb then free_data_loop ?h (li_head ?l) else Some ?h) = Some ?g"
    using f fr by auto
  moreover have "h' = \<lparr>hp_nodes = hp_nodes h, hp_freed = hp_freed h @ (if free_cb then ds else [])\<rparr>"
    using c(3) list_holds_nil_heap [OF c(2)] by (cases h') simp
  ultimately show ?thesis using c(1) by (simp add: fixed_queue_free_def list_free_def)
qed

text \<open>
  Freeing the queue hands each datum in it to the callback once, in order, and frees every node; the
  nodes of others are untouched.
\<close>

theorem queue_free_returns_all:
  assumes "queue_run c h tr (q, {#})"
  shows "\<exists>ds. queue_spec tr [] = Some ds \<and>
    fixed_queue_free q free_cb = Some \<lparr>hp_nodes = hp_nodes h, hp_freed = hp_freed h @ (if free_cb then ds else [])\<rparr>"
proof -
  from queue_run_at [OF assms] obtain ds where "queue_spec tr [] = Some ds" "queue_at c h 0 0 (lost_slots tr) ds q" by auto
  with queue_free_at show ?thesis by blast
qed

subsection \<open>Examples\<close>

definition no_nodes :: "nat osi_heap" where
  "no_nodes = \<lparr>hp_nodes = Map.empty, hp_freed = []\<rparr>"

text \<open>A queue for one datum, which a task has just stored.\<close>

lemma example_run: "\<exists>q. queue_run 1 no_nodes [Silent, Silent, Appended 7] (q, {#EnqStored#})"
proof -
  obtain q where q: "fixed_queue_new True True True True 1 no_nodes = Some q" "fq_heap q = no_nodes"
    by (auto simp: fixed_queue_new_def)
  from enqueue_run [OF queue_run.start [OF q(1)], of "[]" 4 7] q(2) show ?thesis
    by (auto simp: lost_slots_def calloc_ok_def no_nodes_def)
qed

theorem queue_is_fifo_witness:
  "\<exists>q ds. queue_spec [Silent, Silent, Appended (7 :: nat)] [] = Some ds \<and>
    list_holds (fq_list q) (fq_heap q) (hp_nodes no_nodes) ds \<and> length ds \<le> 1 \<and>
    unat (fixed_queue_length (Some q)) = length ds \<and>
    fixed_queue_try_peek_first q = Some (if ds = [] then None else Some (hd ds)) \<and>
    fixed_queue_try_peek_last q = Some (if ds = [] then None else Some (last ds))"
proof -
  obtain q where "queue_run 1 no_nodes [Silent, Silent, Appended 7] (q, {#EnqStored#})" using example_run by blast
  from queue_is_fifo [OF this] show ?thesis by blast
qed

theorem queue_never_asserts_witness:
  "\<exists>q. fq_capacity q = 1 \<and> task_step 8 True (q :: nat fixed_queue_t) (EnqStored) \<noteq> None"
proof -
  obtain q where r: "queue_run 1 no_nodes [Silent, Silent, Appended 7] (q, {#EnqStored#})" using example_run by blast
  from queue_run_at [OF r] have at: "\<exists>ds. queue_at 1 no_nodes 0 1 0 ds q \<and> queue_spec [Silent, Silent, Appended 7] [] = Some ds"
    by (auto simp: lost_slots_def)
  have "calloc_ok 0 (fq_heap q)" by (simp add: calloc_ok_def)
  from queue_never_asserts [OF r _ this, of EnqStored True] at show ?thesis
    by (intro exI [of _ q]) (auto simp: queue_at_def task_step_def)
qed

theorem queue_settles_witness:
  "\<exists>q T tr. (T = {#EnqStored :: nat task#} \<and> tr = [Silent, Silent, Appended (7 :: nat)]) \<and> 0 \<le> work T \<and>
    (if \<forall>t\<in>#T. waits q t
     then \<exists>ds. queue_spec (tr @ []) [] = Some ds \<and> (DeqStart \<in># T \<longrightarrow> ds = []) \<and>
       (\<forall>d. EnqStart d \<in># T \<longrightarrow> length ds + lost_slots (tr @ []) = 1)
     else \<exists>t\<in>#T. \<forall>new. calloc_ok new (fq_heap q) \<longrightarrow>
       (\<exists>e t' q''. task_step new False q t = Some (e, t', q'') \<and> work (task_mset t') < steps_left t))"
proof -
  obtain q where r: "queue_run 1 no_nodes [Silent, Silent, Appended 7] (q, {#EnqStored#})" using example_run by blast
  show ?thesis
    by (rule exI [where x = q], rule exI [where x = "{#EnqStored#}"],
        rule exI [where x = "[Silent, Silent, Appended 7]"], rule conjI [OF conjI [OF refl refl]],
        rule queue_settles [OF r queue_moves.none])
qed

theorem queue_free_returns_all_witness:
  "\<exists>q ds. queue_spec [] [] = Some (ds :: nat list) \<and>
    fixed_queue_free q True = Some \<lparr>hp_nodes = hp_nodes no_nodes, hp_freed = hp_freed no_nodes @ (if True then ds else [])\<rparr>"
proof -
  obtain q where q: "fixed_queue_new True True True True 1 no_nodes = Some q"
    by (auto simp: fixed_queue_new_def)
  from queue_free_returns_all [OF queue_run.start [OF q], of True] show ?thesis by blast
qed

end
