(* ===== verification/A2dp_Sink.thy ===== *)
theory A2dp_Sink
  imports A2DP_Codec_Config Osi_Queue "HOL-Library.Sublist"
begin

text \<open>
  btc/profile/std/a2dp/btc_a2dp_sink.c: the receiving side of the audio data path. The host task hands
  media packets to \<open>btc_a2dp_sink_enque_buf\<close>; they wait in a fixed queue for the decoder task, which
  also runs the control messages that the other tasks post to it. The second half has the tasks
  interleave and shows what holds in all runs.
\<close>

subsection \<open>The code\<close>

datatype btc_a2dp_sink_state_t =
  BTC_A2DP_SINK_STATE_OFF | BTC_A2DP_SINK_STATE_ON | BTC_A2DP_SINK_STATE_SHUTTING_DOWN

text \<open>
  What the module does to the outside, in order: a packet is freed, or a function of a decoder is
  called. The answer of \<open>decoder_init\<close> is part of the entry.
\<close>

datatype 'p sink_act =
    Freed 'p
  | DecInit tA2DP_DECODER_INTERFACE bool
  | DecCleanup tA2DP_DECODER_INTERFACE
  | DecReset tA2DP_DECODER_INTERFACE
  | DecConfigure tA2DP_DECODER_INTERFACE buf
  | DecHeader tA2DP_DECODER_INTERFACE 'p
  | DecPacket tA2DP_DECODER_INTERFACE 'p nat

text \<open>The messages for \<open>btc_a2dp_sink_ctrl\<close>.\<close>

datatype sink_msg =
  BTC_MEDIA_TASK_SINK_INIT | BTC_MEDIA_TASK_SINK_CLEAN_UP | BTC_MEDIA_FLUSH_AA_RX
| BTC_MEDIA_AUDIO_SINK_CFG_UPDATE buf | BTC_MEDIA_AUDIO_SINK_CLEAR_TRACK

text \<open>
  \<open>a2dp_sink_local_param_t\<close> with the statics of the module, \<open>data_channel_open\<close> of
  btc_a2dp_control.c and the decoder task: its handle, the messages in its work queue 0 and of the
  tasks that wait to post there, whether an event is in its work queue 1, whether it is being shut
  down, and \<open>stop\<close>. The event is \<open>None\<close> when
  it is NULL, otherwise its \<open>is_queued\<close>.
\<close>

record 'p a2dp_sink_local_param_t =
  sink_state :: btc_a2dp_sink_state_t
  rx_flush :: bool
  data_ready_event :: "bool option"
  RxSbcQ :: "'p fixed_queue_t option"
  decoder :: "tA2DP_DECODER_INTERFACE option"
  decode_buf :: bool
  decode_buf_len :: nat
  codec_index :: btav_a2dp_codec_index_t
  decoder_ready :: bool
  enq_counter :: u8
  data_channel_open :: bool
  task_hdl :: bool
  work_queue0 :: "sink_msg list"
  work_queue1 :: bool
  task_closing :: bool
  task_stop :: bool
  acts :: "'p sink_act list"

text \<open>
  The decoders: what \<open>decoder_init\<close> and \<open>decode_packet_header\<close> answer, after all that was called
  before. \<open>has_decoder_reset\<close>: the tables of the other codecs have NULL there; no table has NULL for the
  other functions the sink calls.
\<close>

record 'p decoders =
  init_answer :: "'p sink_act list \<Rightarrow> bool"
  header_answer :: "'p sink_act list \<Rightarrow> int"

definition has_decoder_reset :: "tA2DP_DECODER_INTERFACE \<Rightarrow> bool" where
  "has_decoder_reset d =
     (case d of a2dp_decoder_interface_sbc \<Rightarrow> True | a2dp_decoder_interface_aptx \<Rightarrow> True
      | a2dp_decoder_interface_aptx_hd \<Rightarrow> True | a2dp_decoder_interface_aptx_ll \<Rightarrow> True | _ \<Rightarrow> False)"

definition act :: "'p sink_act \<Rightarrow> 'p a2dp_sink_local_param_t \<Rightarrow> 'p a2dp_sink_local_param_t" where
  "act a s = s\<lparr>acts := acts s @ [a]\<rparr>"

definition btc_a2dp_sink_decode_buf_size :: "btav_a2dp_codec_index_t \<Rightarrow> nat" where
  "btc_a2dp_sink_decode_buf_size idx =
     (case idx of
        BTAV_A2DP_CODEC_INDEX_SINK_SBC \<Rightarrow> 1024
      | BTAV_A2DP_CODEC_INDEX_SINK_AAC \<Rightarrow> 4 * 1024
      | BTAV_A2DP_CODEC_INDEX_SINK_APTX \<Rightarrow> 4 * 1024
      | BTAV_A2DP_CODEC_INDEX_SINK_APTX_HD \<Rightarrow> 4 * 1024
      | BTAV_A2DP_CODEC_INDEX_SINK_APTX_LL \<Rightarrow> 4 * 1024
      | BTAV_A2DP_CODEC_INDEX_SINK_LDAC \<Rightarrow> 2048
      | BTAV_A2DP_CODEC_INDEX_SINK_OPUS \<Rightarrow> 4 * 2000
      | BTAV_A2DP_CODEC_INDEX_SINK_OPUS_ANDROID \<Rightarrow> 4 * 2000
      | BTAV_A2DP_CODEC_INDEX_SINK_LC3PLUS \<Rightarrow> 4 * 1024
      | BTAV_A2DP_CODEC_INDEX_SINK_LHDCV5 \<Rightarrow> 6 * 2600
      | _ \<Rightarrow> 4 * 1024)"

definition btc_a2dp_sink_queue_limit :: "btav_a2dp_codec_index_t \<Rightarrow> nat" where
  "btc_a2dp_sink_queue_limit idx =
     (case idx of
        BTAV_A2DP_CODEC_INDEX_SINK_AAC \<Rightarrow> 18
      | BTAV_A2DP_CODEC_INDEX_SINK_LDAC \<Rightarrow> 20
      | BTAV_A2DP_CODEC_INDEX_SINK_LHDCV5 \<Rightarrow> 32
      | BTAV_A2DP_CODEC_INDEX_SINK_SBC \<Rightarrow> 18
      | _ \<Rightarrow> 18)"

definition btc_a2dp_sink_queue_floor :: "btav_a2dp_codec_index_t \<Rightarrow> nat" where
  "btc_a2dp_sink_queue_floor idx = 8"

definition btc_a2dp_sink_pressure_target :: "btav_a2dp_codec_index_t \<Rightarrow> nat" where
  "btc_a2dp_sink_pressure_target idx =
     (case idx of
        BTAV_A2DP_CODEC_INDEX_SINK_AAC \<Rightarrow> 10 * 1024
      | BTAV_A2DP_CODEC_INDEX_SINK_LDAC \<Rightarrow> 6 * 1024
      | BTAV_A2DP_CODEC_INDEX_SINK_LHDCV5 \<Rightarrow> 8 * 1024
      | _ \<Rightarrow> 6 * 1024)"

text \<open>\<open>mem\<close> says whether the allocation succeeds.\<close>

definition btc_a2dp_sink_configure_decode_buf ::
    "bool \<Rightarrow> nat \<Rightarrow> 'p a2dp_sink_local_param_t \<Rightarrow> bool \<times> 'p a2dp_sink_local_param_t" where
  "btc_a2dp_sink_configure_decode_buf mem required_len s =
     (if decode_buf_len s = required_len \<and> (required_len = 0 \<or> decode_buf s) then (True, s)
      else
        let s = (if decode_buf s then s\<lparr>decode_buf := False, decode_buf_len := 0\<rparr> else s)
        in if required_len = 0 then (True, s)
           else if mem then (True, s\<lparr>decode_buf := True, decode_buf_len := required_len\<rparr>)
           else (False, s\<lparr>decode_buf := False\<rparr>))"

text \<open>The loop takes packets until the queue is empty; dequeuing never waits here.\<close>

partial_function (option) flush_loop :: "'p fixed_queue_t \<Rightarrow> 'p sink_act list \<Rightarrow> ('p fixed_queue_t \<times> 'p sink_act list) option" where
  "flush_loop q as =
     (if fixed_queue_is_empty (Some q) then Some (q, as)
      else do {
        (p, q) \<leftarrow> fixed_queue_dequeue q;
        flush_loop q (case p of None \<Rightarrow> as | Some p \<Rightarrow> as @ [Freed p])
      })"

definition btc_a2dp_sink_flush_q :: "'p a2dp_sink_local_param_t \<Rightarrow> 'p a2dp_sink_local_param_t option" where
  "btc_a2dp_sink_flush_q s =
     (case RxSbcQ s of
        None \<Rightarrow> Some s
      | Some q \<Rightarrow> do {
          (q, as) \<leftarrow> flush_loop q (acts s);
          Some (s\<lparr>RxSbcQ := Some q, acts := as\<rparr>)
        })"

text \<open>
  \<open>osi_thread_post\<close> fails an assertion when there is no task; the poster waits as long as the queue is
  full.
\<close>

definition post :: "sink_msg \<Rightarrow> 'p a2dp_sink_local_param_t \<Rightarrow> 'p a2dp_sink_local_param_t option" where
  "post m s = (if task_hdl s then Some (s\<lparr>work_queue0 := work_queue0 s @ [m]\<rparr>) else None)"

definition post_event :: "'p a2dp_sink_local_param_t \<Rightarrow> 'p a2dp_sink_local_param_t option" where
  "post_event s =
     (case data_ready_event s of
        None \<Rightarrow> None
      | Some is_queued \<Rightarrow>
          Some (if is_queued then s else s\<lparr>data_ready_event := Some True, work_queue1 := True\<rparr>))"

subsection \<open>The decoder task\<close>

definition btc_a2dp_sink_handle_inc_media ::
    "'p decoders \<Rightarrow> bool \<Rightarrow> 'p \<Rightarrow> 'p a2dp_sink_local_param_t \<Rightarrow> 'p a2dp_sink_local_param_t" where
  "btc_a2dp_sink_handle_inc_media D peer_is_sink p_msg s =
     (if peer_is_sink \<or> rx_flush s then s
      else case decoder s of
        None \<Rightarrow> s
      | Some d \<Rightarrow>
          if \<not> decoder_ready s then s
          else if decode_buf_len s \<noteq> 0 \<and> \<not> decode_buf s then s
          else if \<not> data_channel_open s then s
          else
            let res = header_answer D (acts s);
                s = act (DecHeader d p_msg) s
            in if res < 0 then s else act (DecPacket d p_msg (decode_buf_len s)) s)"

text \<open>The change to the decoder \<open>d\<close>, or its reset when it is in use already.\<close>

definition switch_decoder ::
    "'p decoders \<Rightarrow> tA2DP_DECODER_INTERFACE \<Rightarrow> 'p a2dp_sink_local_param_t \<Rightarrow> bool \<times> 'p a2dp_sink_local_param_t" where
  "switch_decoder D d s =
     (if decoder s \<noteq> Some d
      then
        let s = (case decoder s of None \<Rightarrow> s | Some d' \<Rightarrow> act (DecCleanup d') s);
            s = snd (btc_a2dp_sink_configure_decode_buf True 0 s);
            ok = init_answer D (acts s);
            s = act (DecInit d ok) (s\<lparr>decoder := Some d\<rparr>)
        in if ok then (True, s) else (False, s\<lparr>decoder := None\<rparr>)
      else (True, if has_decoder_reset d then act (DecReset d) s else s))"

definition btc_a2dp_sink_handle_decoder_reset ::
    "'p decoders \<Rightarrow> bool \<Rightarrow> buf \<Rightarrow> 'p a2dp_sink_local_param_t \<Rightarrow> 'p a2dp_sink_local_param_t option" where
  "btc_a2dp_sink_handle_decoder_reset D mem p_info s =
     (case A2DP_GetDecoderInterface p_info of
        None \<Rightarrow> Some (s\<lparr>decoder_ready := False, rx_flush := True\<rparr>)
      | Some d \<Rightarrow> do {
          s \<leftarrow> btc_a2dp_sink_flush_q (s\<lparr>decoder_ready := False, rx_flush := True\<rparr>);
          let (initialised, s) = switch_decoder D d s;
          if \<not> initialised then Some s
          else
            let s = act (DecConfigure d p_info) s;
                idx = A2DP_SinkCodecIndex p_info;
                (ok, s) = btc_a2dp_sink_configure_decode_buf mem (btc_a2dp_sink_decode_buf_size idx) s
            in Some (if \<not> ok then s\<lparr>decoder_ready := False, rx_flush := True\<rparr>
                     else s\<lparr>codec_index := idx, decoder_ready := True, rx_flush := False\<rparr>)
        })"

definition btc_a2dp_sink_handle_clear_track :: "'p a2dp_sink_local_param_t \<Rightarrow> 'p a2dp_sink_local_param_t option" where
  "btc_a2dp_sink_handle_clear_track s = btc_a2dp_sink_flush_q s"

definition btc_a2dp_sink_rx_flush :: "'p a2dp_sink_local_param_t \<Rightarrow> 'p a2dp_sink_local_param_t option" where
  "btc_a2dp_sink_rx_flush s = btc_a2dp_sink_flush_q s"

text \<open>
  The queue has the capacity \<open>QUEUE_SIZE_MAX\<close>; its nodes are the first of their heap. The arguments are
  the allocations of the event and of the queue.
\<close>

abbreviation (input) QUEUE_SIZE_MAX :: nat where "QUEUE_SIZE_MAX \<equiv> 254"

definition empty_heap :: "'d osi_heap" where
  "empty_heap = \<lparr>hp_nodes = \<lambda>a. None, hp_freed = []\<rparr>"

definition btc_a2dp_sink_thread_init ::
    "bool \<Rightarrow> bool \<Rightarrow> 'p a2dp_sink_local_param_t \<Rightarrow> 'p a2dp_sink_local_param_t option" where
  "btc_a2dp_sink_thread_init mem_event mem_queue s =
     (if \<not> mem_event then None
      else Some (s\<lparr>rx_flush := False, data_ready_event := Some False,
                   RxSbcQ := fixed_queue_new mem_queue mem_queue mem_queue mem_queue QUEUE_SIZE_MAX empty_heap,
                   decoder_ready := False, decode_buf := False, decode_buf_len := 0,
                   codec_index := BTAV_A2DP_CODEC_INDEX_MAX, sink_state := BTC_A2DP_SINK_STATE_ON,
                   data_channel_open := False\<rparr>))"

definition btc_a2dp_sink_thread_cleanup :: "'p a2dp_sink_local_param_t \<Rightarrow> 'p a2dp_sink_local_param_t option" where
  "btc_a2dp_sink_thread_cleanup s =
     do {
       let s = (case decoder s of None \<Rightarrow> s | Some d \<Rightarrow> act (DecCleanup d) s\<lparr>decoder := None\<rparr>);
       let s = s\<lparr>decoder_ready := False, data_channel_open := False, sink_state := BTC_A2DP_SINK_STATE_OFF\<rparr>;
       s \<leftarrow> (case RxSbcQ s of
               None \<Rightarrow> Some s
             | Some q \<Rightarrow> do {
                 h \<leftarrow> fixed_queue_free q True;
                 Some (s\<lparr>acts := acts s @ map Freed (hp_freed h)\<rparr>)
               });
       Some (s\<lparr>RxSbcQ := None, data_ready_event := None, decode_buf := False, decode_buf_len := 0,
               codec_index := BTAV_A2DP_CODEC_INDEX_MAX\<rparr>)
     }"

text \<open>\<open>m1\<close> and \<open>m2\<close> are the allocations of the handler.\<close>

definition btc_a2dp_sink_ctrl ::
    "'p decoders \<Rightarrow> bool \<Rightarrow> bool \<Rightarrow> sink_msg \<Rightarrow> 'p a2dp_sink_local_param_t \<Rightarrow> 'p a2dp_sink_local_param_t option" where
  "btc_a2dp_sink_ctrl D m1 m2 m s =
     (case m of
        BTC_MEDIA_TASK_SINK_INIT \<Rightarrow> btc_a2dp_sink_thread_init m1 m2 s
      | BTC_MEDIA_TASK_SINK_CLEAN_UP \<Rightarrow> btc_a2dp_sink_thread_cleanup s
      | BTC_MEDIA_AUDIO_SINK_CFG_UPDATE p_info \<Rightarrow> btc_a2dp_sink_handle_decoder_reset D m1 p_info s
      | BTC_MEDIA_AUDIO_SINK_CLEAR_TRACK \<Rightarrow> btc_a2dp_sink_handle_clear_track s
      | BTC_MEDIA_FLUSH_AA_RX \<Rightarrow> btc_a2dp_sink_rx_flush s)"

text \<open>
  \<open>btc_a2dp_sink_data_ready\<close> up to its loop, with the number of packets to process; and one round of the loop
  with \<open>n\<close> packets to go, the last of which ends the function. \<open>None\<close> as a number: the function returned.
\<close>

definition data_ready_begin :: "'p a2dp_sink_local_param_t \<Rightarrow> (nat option \<times> 'p a2dp_sink_local_param_t) option" where
  "data_ready_begin s =
     (if rx_flush s
      then do { s \<leftarrow> btc_a2dp_sink_flush_q s; Some (None, s) }
      else Some (Some (unat (fixed_queue_length (RxSbcQ s))), s))"

definition data_ready_round ::
    "'p decoders \<Rightarrow> bool \<Rightarrow> nat \<Rightarrow> 'p a2dp_sink_local_param_t \<Rightarrow> (nat option \<times> 'p a2dp_sink_local_param_t) option" where
  "data_ready_round D peer_is_sink n s =
     (if n = 0
      then (if fixed_queue_is_empty (RxSbcQ s) then Some (None, s)
            else do { s \<leftarrow> post_event s; Some (None, s) })
      else if sink_state s \<noteq> BTC_A2DP_SINK_STATE_ON then Some (None, s)
      else do {
        q \<leftarrow> RxSbcQ s;
        (p, q) \<leftarrow> fixed_queue_dequeue q;
        let s = s\<lparr>RxSbcQ := Some q\<rparr>;
        case p of
          None \<Rightarrow> Some (Some 0, s)
        | Some p_msg \<Rightarrow>
            if rx_flush s
            then do { s \<leftarrow> btc_a2dp_sink_flush_q (act (Freed p_msg) s); Some (None, s) }
            else
              let s = btc_a2dp_sink_handle_inc_media D peer_is_sink p_msg s;
                  s = act (Freed p_msg) s
              in Some (Some (n - 1), s)
      })"

subsection \<open>The other tasks\<close>

definition btc_a2dp_sink_rx_flush_req :: "bool \<Rightarrow> 'p a2dp_sink_local_param_t \<Rightarrow> 'p a2dp_sink_local_param_t option" where
  "btc_a2dp_sink_rx_flush_req mem s =
     (if fixed_queue_is_empty (RxSbcQ s) then Some s
      else if \<not> mem then Some s
      else post BTC_MEDIA_FLUSH_AA_RX s)"

definition btc_a2dp_sink_clear_track :: "bool \<Rightarrow> 'p a2dp_sink_local_param_t \<Rightarrow> 'p a2dp_sink_local_param_t option" where
  "btc_a2dp_sink_clear_track mem s = (if \<not> mem then Some s else post BTC_MEDIA_AUDIO_SINK_CLEAR_TRACK s)"

definition btc_a2dp_sink_on_idle :: "bool \<Rightarrow> bool \<Rightarrow> 'p a2dp_sink_local_param_t \<Rightarrow> 'p a2dp_sink_local_param_t option" where
  "btc_a2dp_sink_on_idle m1 m2 s =
     do {
       s \<leftarrow> btc_a2dp_sink_rx_flush_req m1 (s\<lparr>rx_flush := True\<rparr>);
       btc_a2dp_sink_clear_track m2 s
     }"

definition btc_a2dp_sink_on_stopped :: "bool \<Rightarrow> 'p a2dp_sink_local_param_t \<Rightarrow> 'p a2dp_sink_local_param_t option" where
  "btc_a2dp_sink_on_stopped mem s =
     do {
       s \<leftarrow> btc_a2dp_sink_rx_flush_req mem (s\<lparr>rx_flush := True\<rparr>);
       Some (s\<lparr>data_channel_open := False\<rparr>)
     }"

definition btc_a2dp_sink_on_suspended :: "bool \<Rightarrow> 'p a2dp_sink_local_param_t \<Rightarrow> 'p a2dp_sink_local_param_t option" where
  "btc_a2dp_sink_on_suspended mem s = btc_a2dp_sink_rx_flush_req mem (s\<lparr>rx_flush := True\<rparr>)"

definition btc_a2dp_sink_set_rx_flush :: "bool \<Rightarrow> 'p a2dp_sink_local_param_t \<Rightarrow> 'p a2dp_sink_local_param_t" where
  "btc_a2dp_sink_set_rx_flush enable s = s\<lparr>rx_flush := enable\<rparr>"

definition btc_a2dp_sink_reset_decoder :: "bool \<Rightarrow> buf \<Rightarrow> 'p a2dp_sink_local_param_t \<Rightarrow> 'p a2dp_sink_local_param_t option" where
  "btc_a2dp_sink_reset_decoder mem p_info s =
     (if \<not> mem then Some s else post (BTC_MEDIA_AUDIO_SINK_CFG_UPDATE p_info) s)"

text \<open>\<open>mem_task\<close> and \<open>mem_msg\<close>: the creation of the task and the allocation of the message.\<close>

definition btc_a2dp_sink_startup ::
    "bool \<Rightarrow> bool \<Rightarrow> 'p a2dp_sink_local_param_t \<Rightarrow> (bool \<times> 'p a2dp_sink_local_param_t) option" where
  "btc_a2dp_sink_startup mem_task mem_msg s =
     (if sink_state s \<noteq> BTC_A2DP_SINK_STATE_OFF then Some (False, s)
      else if \<not> mem_task \<or> \<not> mem_msg then Some (False, s\<lparr>task_hdl := False\<rparr>)
      else do {
        s \<leftarrow> post BTC_MEDIA_TASK_SINK_INIT
               (s\<lparr>task_hdl := True, task_closing := False, task_stop := False, work_queue0 := [], work_queue1 := False\<rparr>);
        Some (True, s)
      })"

text \<open>
  Shutting down: the message is posted; \<open>osi_thread_free\<close> then tells the task to stop and waits for it;
  and the task, or what is left of it, and its work queues are deleted.
\<close>

definition shutdown_post :: "bool \<Rightarrow> 'p a2dp_sink_local_param_t \<Rightarrow> 'p a2dp_sink_local_param_t option" where
  "shutdown_post mem s =
     (let s = s\<lparr>sink_state := BTC_A2DP_SINK_STATE_SHUTTING_DOWN, task_closing := True\<rparr>
      in if mem then post BTC_MEDIA_TASK_SINK_CLEAN_UP s else Some s)"

definition shutdown_stop :: "'p a2dp_sink_local_param_t \<Rightarrow> 'p a2dp_sink_local_param_t" where
  "shutdown_stop s = s\<lparr>task_stop := True\<rparr>"

definition shutdown_end :: "'p a2dp_sink_local_param_t \<Rightarrow> 'p a2dp_sink_local_param_t" where
  "shutdown_end s = s\<lparr>task_hdl := False, work_queue0 := [], work_queue1 := False\<rparr>"

text \<open>
  \<open>btc_a2dp_sink_enque_buf\<close> up to the packets it drops, and the rest. \<open>free_internal\<close> is the free memory, read
  for every 32nd packet only. The first part answers the length of the queue, or \<open>None\<close> to go on.
\<close>

fun drop_oldest :: "nat \<Rightarrow> 'p fixed_queue_t \<Rightarrow> 'p sink_act list \<Rightarrow> ('p fixed_queue_t \<times> 'p sink_act list) option" where
  "drop_oldest 0 q as = Some (q, as)"
| "drop_oldest (Suc n) q as =
     do {
       (p, q) \<leftarrow> fixed_queue_dequeue q;
       drop_oldest n q (case p of None \<Rightarrow> as | Some p \<Rightarrow> as @ [Freed p])
     }"

definition relieve_pressure :: "nat \<Rightarrow> 'p a2dp_sink_local_param_t \<Rightarrow> 'p a2dp_sink_local_param_t option" where
  "relieve_pressure free_internal s =
     (let s = s\<lparr>enq_counter := enq_counter s + 1\<rparr>
      in if enq_counter s AND 0x1F \<noteq> 0 then Some s
         else if \<not> free_internal < btc_a2dp_sink_pressure_target (codec_index s) then Some s
         else
           let queue_len = unat (fixed_queue_length (RxSbcQ s));
               queue_floor = btc_a2dp_sink_queue_floor (codec_index s)
           in if queue_len > queue_floor
              then do {
                q \<leftarrow> RxSbcQ s;
                (q, as) \<leftarrow> drop_oldest (queue_len - queue_floor) q (acts s);
                Some (s\<lparr>RxSbcQ := Some q, acts := as\<rparr>)
              }
              else Some s)"

definition enque_guard :: "nat \<Rightarrow> 'p \<Rightarrow> 'p a2dp_sink_local_param_t \<Rightarrow> (u8 option \<times> 'p a2dp_sink_local_param_t) option" where
  "enque_guard free_internal p_pkt s =
     (if sink_state s \<noteq> BTC_A2DP_SINK_STATE_ON then Some (Some 0, act (Freed p_pkt) s)
      else if RxSbcQ s = None \<or> data_ready_event s = None then Some (Some 0, act (Freed p_pkt) s)
      else if rx_flush s \<or> \<not> decoder_ready s
      then Some (Some (ucast (fixed_queue_length (RxSbcQ s))), act (Freed p_pkt) s)
      else if btc_a2dp_sink_queue_limit (codec_index s) \<le> unat (fixed_queue_length (RxSbcQ s))
      then Some (Some (ucast (fixed_queue_length (RxSbcQ s))), act (Freed p_pkt) s)
      else do { s \<leftarrow> relieve_pressure free_internal s; Some (None, s) })"

definition enque_store :: "((addr \<Rightarrow> 'p list_node_t option) \<Rightarrow> addr) \<Rightarrow> 'p \<Rightarrow> 'p a2dp_sink_local_param_t \<Rightarrow> (u8 \<times> 'p a2dp_sink_local_param_t) option" where
  "enque_store alloc p_pkt s =
     do {
       q \<leftarrow> RxSbcQ s;
       (ok, q) \<leftarrow> fixed_queue_enqueue (alloc (hp_nodes (fq_heap q))) q p_pkt;
       let s = s\<lparr>RxSbcQ := Some q\<rparr>;
       if \<not> ok then Some (ucast (fixed_queue_length (RxSbcQ s)), act (Freed p_pkt) s)
       else do {
         s \<leftarrow> post_event s;
         Some (ucast (fixed_queue_length (RxSbcQ s)), s)
       }
     }"

definition btc_a2dp_sink_enque_buf ::
    "nat \<Rightarrow> ((addr \<Rightarrow> 'p list_node_t option) \<Rightarrow> addr) \<Rightarrow> 'p \<Rightarrow> 'p a2dp_sink_local_param_t \<Rightarrow> (u8 \<times> 'p a2dp_sink_local_param_t) option" where
  "btc_a2dp_sink_enque_buf free_internal alloc p_pkt s =
     do {
       (ret, s) \<leftarrow> enque_guard free_internal p_pkt s;
       (case ret of Some n \<Rightarrow> Some (n, s) | None \<Rightarrow> enque_store alloc p_pkt s)
     }"

definition btc_a2dp_sink_on_memory_pressure :: "'p a2dp_sink_local_param_t \<Rightarrow> 'p a2dp_sink_local_param_t option" where
  "btc_a2dp_sink_on_memory_pressure s =
     (if sink_state s \<noteq> BTC_A2DP_SINK_STATE_ON then Some s
      else do {
        s \<leftarrow> btc_a2dp_sink_flush_q (s\<lparr>rx_flush := True\<rparr>);
        Some (if decoder_ready s then s\<lparr>rx_flush := False\<rparr> else s)
      })"

definition btc_a2dp_sink_get_queue_depth :: "'p a2dp_sink_local_param_t \<Rightarrow> u8" where
  "btc_a2dp_sink_get_queue_depth s =
     (if sink_state s \<noteq> BTC_A2DP_SINK_STATE_ON \<or> RxSbcQ s = None then 0
      else ucast (fixed_queue_length (RxSbcQ s)))"

subsection \<open>All tasks\<close>

text \<open>
  The decoder task, with the number of packets \<open>btc_a2dp_sink_data_ready\<close> still has to process when it is
  inside: \<open>osi_thread_run\<close> takes a message from work queue 0 before one from work queue 1, and nothing once it is to stop.
  An event that was deleted while it was queued is \<open>None\<close>.
\<close>

definition decoder_task ::
    "'p decoders \<Rightarrow> bool \<Rightarrow> bool \<Rightarrow> bool \<Rightarrow> nat option \<Rightarrow> 'p a2dp_sink_local_param_t \<Rightarrow>
      (nat option \<times> 'p a2dp_sink_local_param_t) option" where
  "decoder_task D m1 m2 peer_is_sink run s =
     (case run of
        Some n \<Rightarrow> data_ready_round D peer_is_sink n s
      | None \<Rightarrow>
          if task_stop s \<or> \<not> task_hdl s then Some (None, s)
          else case work_queue0 s of
            m # ms \<Rightarrow> map_option (Pair None) (btc_a2dp_sink_ctrl D m1 m2 m (s\<lparr>work_queue0 := ms\<rparr>))
          | [] \<Rightarrow>
              if \<not> work_queue1 s then Some (None, s)
              else case data_ready_event s of
                None \<Rightarrow> None
              | Some is_queued \<Rightarrow> data_ready_begin (s\<lparr>work_queue1 := False, data_ready_event := Some False\<rparr>))"

datatype 'p sink_call =
    EnqueBuf 'p | SetRxFlush bool | OnIdle | OnStopped | OnSuspended | ResetDecoder buf
  | MemoryPressure | SetDataChannel bool

definition sink_call ::
    "bool \<Rightarrow> bool \<Rightarrow> nat \<Rightarrow> ((addr \<Rightarrow> 'p list_node_t option) \<Rightarrow> addr) \<Rightarrow> 'p sink_call \<Rightarrow> 'p a2dp_sink_local_param_t \<Rightarrow> 'p a2dp_sink_local_param_t option" where
  "sink_call m1 m2 free_internal alloc c s =
     (case c of
        EnqueBuf p \<Rightarrow> map_option snd (btc_a2dp_sink_enque_buf free_internal alloc p s)
      | SetRxFlush b \<Rightarrow> Some (btc_a2dp_sink_set_rx_flush b s)
      | OnIdle \<Rightarrow> btc_a2dp_sink_on_idle m1 m2 s
      | OnStopped \<Rightarrow> btc_a2dp_sink_on_stopped m1 s
      | OnSuspended \<Rightarrow> btc_a2dp_sink_on_suspended m1 s
      | ResetDecoder info \<Rightarrow> btc_a2dp_sink_reset_decoder m1 info s
      | MemoryPressure \<Rightarrow> btc_a2dp_sink_on_memory_pressure s
      | SetDataChannel b \<Rightarrow> Some (s\<lparr>data_channel_open := b\<rparr>))"

text \<open>
  The runs: a call of another task, a step of the decoder task, or start and end of the module. The
  state is the module, what the decoder task is doing, and the packets handed over so far. Start and end
  come from the task that also makes the calls that post a message: it starts when there is no decoder
  task, shuts down when there is one, and posts nothing in between.
\<close>

definition alloc_ok :: "((addr \<Rightarrow> 'p list_node_t option) \<Rightarrow> addr) \<Rightarrow> bool" where
  "alloc_ok alloc = (\<forall>N. alloc N = 0 \<or> N (alloc N) = None)"

fun offered :: "'p sink_call \<Rightarrow> 'p list" where
  "offered (EnqueBuf p) = [p]" | "offered _ = []"

fun posts :: "'p sink_call \<Rightarrow> bool" where
  "posts OnIdle = True" | "posts OnStopped = True" | "posts OnSuspended = True" | "posts (ResetDecoder info) = True"
| "posts _ = False"

type_synonym 'p sink_system = "'p a2dp_sink_local_param_t \<times> nat option \<times> 'p list"

inductive sink_step :: "'p decoders \<Rightarrow> 'p sink_system \<Rightarrow> 'p sink_system \<Rightarrow> bool" for D where
  caller: "\<lbrakk>alloc_ok alloc; posts c \<longrightarrow> \<not> task_closing s; sink_call m1 m2 free_internal alloc c s = Some s'\<rbrakk> \<Longrightarrow>
    sink_step D (s, run, ps) (s', run, ps @ offered c)"
| task: "decoder_task D m1 m2 peer_is_sink run s = Some (run', s') \<Longrightarrow> sink_step D (s, run, ps) (s', run', ps)"
| startup: "\<lbrakk>\<not> task_hdl s; btc_a2dp_sink_startup m1 m2 s = Some (ok, s')\<rbrakk> \<Longrightarrow> sink_step D (s, run, ps) (s', run, ps)"
| shutdown: "\<lbrakk>task_hdl s; \<not> task_closing s; shutdown_post m1 s = Some s'\<rbrakk> \<Longrightarrow> sink_step D (s, run, ps) (s', run, ps)"
| stop: "\<lbrakk>task_hdl s; task_closing s; length (work_queue0 s) \<le> 1\<rbrakk> \<Longrightarrow> sink_step D (s, run, ps) (shutdown_stop s, run, ps)"
| stopped: "\<lbrakk>task_hdl s; task_stop s\<rbrakk> \<Longrightarrow> sink_step D (s, run, ps) (shutdown_end s, None, ps)"

definition sink_zero :: "'p a2dp_sink_local_param_t" where
  "sink_zero =
     \<lparr>sink_state = BTC_A2DP_SINK_STATE_OFF, rx_flush = False, data_ready_event = None, RxSbcQ = None,
      decoder = None, decode_buf = False, decode_buf_len = 0, codec_index = BTAV_A2DP_CODEC_INDEX_SOURCE_SBC,
      decoder_ready = False, enq_counter = 0, data_channel_open = False, task_hdl = False,
      work_queue0 = [], work_queue1 = False, task_closing = False, task_stop = False, acts = []\<rparr>"

inductive sink_reach :: "'p decoders \<Rightarrow> 'p sink_system \<Rightarrow> bool" for D where
  start: "sink_reach D (sink_zero, None, [])"
| step: "\<lbrakk>sink_reach D x; sink_step D x y\<rbrakk> \<Longrightarrow> sink_reach D y"

subsection \<open>What the acts amount to\<close>

fun freed_of :: "'p sink_act \<Rightarrow> 'p list" where
  "freed_of (Freed p) = [p]" | "freed_of _ = []"

fun decoded_of :: "'p sink_act \<Rightarrow> 'p list" where
  "decoded_of (DecPacket d p n) = [p]" | "decoded_of _ = []"

definition freed :: "'p sink_act list \<Rightarrow> 'p list" where
  "freed as = concat (map freed_of as)"

definition decoded :: "'p sink_act list \<Rightarrow> 'p list" where
  "decoded as = concat (map decoded_of as)"

text \<open>
  The protocol of a decoder: no decoder, or one that was initialised, with the codec index it was
  configured for, by an element whose decoder it is. A packet goes to a configured decoder only, with the scratch buffer of its codec.
\<close>

type_synonym dec_state = "(tA2DP_DECODER_INTERFACE \<times> btav_a2dp_codec_index_t option) option"

fun dec_step :: "dec_state \<Rightarrow> 'p sink_act \<Rightarrow> dec_state option" where
  "dec_step st (Freed p) = Some st"
| "dec_step st (DecInit d ok) = (if st = None then Some (if ok then Some (d, None) else None) else None)"
| "dec_step (Some (d', c)) (DecCleanup d) = (if d' = d then Some None else None)"
| "dec_step (Some (d', c)) (DecReset d) = (if d' = d \<and> has_decoder_reset d then Some (Some (d, c)) else None)"
| "dec_step (Some (d', c)) (DecConfigure d info) =
     (if d' = d \<and> A2DP_GetDecoderInterface info = Some d then Some (Some (d, Some (A2DP_SinkCodecIndex info))) else None)"
| "dec_step (Some (d', Some i)) (DecHeader d p) = (if d' = d then Some (Some (d, Some i)) else None)"
| "dec_step (Some (d', Some i)) (DecPacket d p len) =
     (if d' = d \<and> index_decoder i = Some d \<and> len = btc_a2dp_sink_decode_buf_size i then Some (Some (d, Some i)) else None)"
| "dec_step _ _ = None"

fun dec_run :: "dec_state \<Rightarrow> 'p sink_act list \<Rightarrow> dec_state option" where
  "dec_run st [] = Some st"
| "dec_run st (a # as) = do { st \<leftarrow> dec_step st a; dec_run st as }"

lemma acts_append [simp]:
  "freed (as @ bs) = freed as @ freed bs" "decoded (as @ bs) = decoded as @ decoded bs"
  "freed [] = []" "decoded [] = []" "freed (a # as) = freed_of a @ freed as" "decoded (a # as) = decoded_of a @ decoded as"
  by (simp_all add: freed_def decoded_def)

lemma freed_map_Freed [simp]: "freed (map Freed ps) = ps" "decoded (map Freed ps) = []"
  by (induction ps) simp_all

lemma dec_run_append [simp]:
  "dec_run st (as @ bs) = do { st \<leftarrow> dec_run st as; dec_run st bs }"
  by (induction as arbitrary: st) (auto split: bind_split)

lemma dec_run_Freed [simp]: "dec_run st (map Freed ps) = Some st"
  by (induction ps) simp_all

subsection \<open>The queue of packets\<close>

definition rxq_holds :: "'p fixed_queue_t option \<Rightarrow> 'p list \<Rightarrow> bool" where
  "rxq_holds rxq ds = (case rxq of None \<Rightarrow> ds = [] | Some q \<Rightarrow> \<exists>lo. queue_at QUEUE_SIZE_MAX empty_heap 0 0 lo ds q)"

lemma queue_at_read:
  assumes "queue_at c h sl it lo ds q"
  shows "fixed_queue_is_empty (Some q) = (ds = [])" "unat (fixed_queue_length (Some q)) = length ds"
proof -
  from assms have at: "list_holds (fq_list q) (fq_heap q) (hp_nodes h) ds"
    by (simp add: queue_at_def queue_list_def)
  show "fixed_queue_is_empty (Some q) = (ds = [])" "unat (fixed_queue_length (Some q)) = length ds"
    using list_holds_read(1,2) [OF at] by (simp_all add: fixed_queue_is_empty_def fixed_queue_length_def)
qed

lemma rxq_read:
  assumes "rxq_holds rxq ds"
  shows "fixed_queue_is_empty rxq = (ds = [])" "unat (fixed_queue_length rxq) = length ds"
  using assms queue_at_read
  by (cases rxq; fastforce simp: rxq_holds_def fixed_queue_is_empty_def fixed_queue_length_def)+

lemma rxq_nonempty: "\<lbrakk>rxq_holds rxq ds; ds \<noteq> []\<rbrakk> \<Longrightarrow> rxq \<noteq> None"
  by (cases rxq) (simp_all add: rxq_holds_def)

lemma flush_loop_at:
  assumes "queue_at c h 0 0 lo ds q"
  shows "\<exists>q'. flush_loop q as = Some (q', as @ map Freed ds) \<and> queue_at c h 0 0 lo [] q'"
  using assms
proof (induction ds arbitrary: q as)
  case Nil
  then show ?case using queue_at_read(1) [OF Nil] by (simp add: flush_loop.simps)
next
  case (Cons d ds)
  from dequeue_at [OF Cons.prems] obtain q1 where
    q1: "fixed_queue_dequeue q = Some (Some d, q1)" "queue_at c h 0 0 lo ds q1" by auto
  from Cons.IH [OF q1(2), of "as @ [Freed d]"] show ?case
    using queue_at_read(1) [OF Cons.prems] q1(1) by (simp add: flush_loop.simps [of q])
qed

lemma flush_q_at:
  assumes "rxq_holds (RxSbcQ s) ds"
  shows "\<exists>rxq. btc_a2dp_sink_flush_q s = Some (s\<lparr>RxSbcQ := rxq, acts := acts s @ map Freed ds\<rparr>) \<and>
    rxq_holds rxq [] \<and> (rxq = None) = (RxSbcQ s = None)"
proof (cases "RxSbcQ s")
  case None
  then have "s\<lparr>RxSbcQ := None, acts := acts s\<rparr> = s" by (cases s) simp
  with None assms show ?thesis by (auto simp: rxq_holds_def btc_a2dp_sink_flush_q_def)
next
  case (Some q)
  with assms obtain lo where "queue_at QUEUE_SIZE_MAX empty_heap 0 0 lo ds q" by (auto simp: rxq_holds_def)
  from flush_loop_at [OF this, of "acts s"] obtain q' where
    "flush_loop q (acts s) = Some (q', acts s @ map Freed ds)" "queue_at QUEUE_SIZE_MAX empty_heap 0 0 lo [] q'" by blast
  with Some show ?thesis
    by (intro exI [of _ "Some q'"]) (auto simp: rxq_holds_def btc_a2dp_sink_flush_q_def)
qed

lemma drop_oldest_at:
  assumes "queue_at c h 0 0 lo ds q" "n \<le> length ds"
  shows "\<exists>q'. drop_oldest n q as = Some (q', as @ map Freed (take n ds)) \<and> queue_at c h 0 0 lo (drop n ds) q'"
  using assms
proof (induction n arbitrary: ds q as)
  case 0
  then show ?case by simp
next
  case (Suc n)
  then obtain d ds' where ds: "ds = d # ds'" by (cases ds) auto
  from dequeue_at [OF Suc.prems(1)] ds obtain q1 where
    q1: "fixed_queue_dequeue q = Some (Some d, q1)" "queue_at c h 0 0 lo ds' q1" by auto
  from Suc.IH [OF q1(2), of "as @ [Freed d]"] Suc.prems(2) ds q1(1) show ?case by simp
qed

lemma relieve_pressure_at:
  assumes "rxq_holds (RxSbcQ s) ds" "RxSbcQ s \<noteq> None"
  shows "\<exists>n k q. relieve_pressure free_internal s =
      Some (s\<lparr>enq_counter := n, RxSbcQ := Some q, acts := acts s @ map Freed (take k ds)\<rparr>) \<and>
    rxq_holds (Some q) (drop k ds)"
proof -
  from assms obtain q lo where q: "RxSbcQ s = Some q" "queue_at QUEUE_SIZE_MAX empty_heap 0 0 lo ds q"
    by (auto simp: rxq_holds_def)
  have same: "s\<lparr>enq_counter := enq_counter s + 1\<rparr> =
      s\<lparr>enq_counter := enq_counter s + 1, RxSbcQ := Some q, acts := acts s @ map Freed (take 0 ds)\<rparr>"
    using q(1) by (cases s) simp
  have h0: "rxq_holds (Some q) (drop 0 ds)" using assms q by simp
  let ?k = "length ds - btc_a2dp_sink_queue_floor (codec_index s)"
  from drop_oldest_at [OF q(2), of ?k "acts s"] obtain q' where
    d: "drop_oldest ?k q (acts s) = Some (q', acts s @ map Freed (take ?k ds))"
    "queue_at QUEUE_SIZE_MAX empty_heap 0 0 lo (drop ?k ds) q'" by auto
  have h1: "rxq_holds (Some q') (drop ?k ds)" using d(2) by (auto simp: rxq_holds_def)
  have l: "unat (fixed_queue_length (Some q)) = length ds" using queue_at_read(2) [OF q(2)] .
  show ?thesis
  proof (cases "(enq_counter s + 1) AND 0x1F \<noteq> 0 \<or> \<not> free_internal < btc_a2dp_sink_pressure_target (codec_index s) \<or>
      \<not> btc_a2dp_sink_queue_floor (codec_index s) < length ds")
    case True
    then have "relieve_pressure free_internal s = Some (s\<lparr>enq_counter := enq_counter s + 1\<rparr>)"
      using q(1) l by (auto simp: relieve_pressure_def Let_def)
    with h0 same show ?thesis by metis
  next
    case False
    then have "relieve_pressure free_internal s =
        Some (s\<lparr>enq_counter := enq_counter s + 1, RxSbcQ := Some q', acts := acts s @ map Freed (take ?k ds)\<rparr>)"
      using q(1) l d(1) by (simp add: relieve_pressure_def Let_def)
    with h1 show ?thesis by metis
  qed
qed

subsection \<open>The invariant\<close>

text \<open>
  \<open>sink_ok s ds ps\<close>: the queue holds the packets \<open>ds\<close> of the packets \<open>ps\<close> handed over, every other one was
  freed once, the packets decoded and those queued are in the order they came, the queue is within the
  limit of the codec, and the decoder is in the state the module takes it to be in.
\<close>

definition dec_ok :: "'p a2dp_sink_local_param_t \<Rightarrow> bool" where
  "dec_ok s =
     ((decode_buf s \<longleftrightarrow> decode_buf_len s \<noteq> 0) \<and>
      (\<exists>st. dec_run None (acts s) = Some st \<and> map_option fst st = decoder s \<and>
        (decoder_ready s \<longrightarrow>
           (\<exists>d. st = Some (d, Some (codec_index s)) \<and> index_decoder (codec_index s) = Some d \<and>
             decode_buf_len s = btc_a2dp_sink_decode_buf_size (codec_index s)))))"

definition sink_ok :: "'p a2dp_sink_local_param_t \<Rightarrow> 'p list \<Rightarrow> 'p list \<Rightarrow> bool" where
  "sink_ok s ds ps =
     (rxq_holds (RxSbcQ s) ds \<and> length ds \<le> btc_a2dp_sink_queue_limit (codec_index s) \<and>
      mset ps = mset (freed (acts s)) + mset ds \<and> subseq (decoded (acts s) @ ds) ps \<and> dec_ok s)"

lemma decode_buf_size_pos: "0 < btc_a2dp_sink_decode_buf_size idx"
  by (simp add: btc_a2dp_sink_decode_buf_size_def split: btav_a2dp_codec_index_t.split)

lemma dec_ok_cong:
  assumes "dec_ok s" "decode_buf s' = decode_buf s" "decode_buf_len s' = decode_buf_len s"
    "acts s' = acts s @ map Freed ps" "decoder s' = decoder s" "codec_index s' = codec_index s"
    "decoder_ready s' \<longrightarrow> decoder_ready s"
  shows "dec_ok s'"
  using assms unfolding dec_ok_def by fastforce

text \<open>Flushing and dropping.\<close>

lemma subseq_drop_middle: "subseq (xs @ ys @ zs) ps \<Longrightarrow> subseq (xs @ zs) ps"
  by (rule subseq_order.order_trans [of _ "xs @ ys @ zs"]) (simp add: list_emb_append_mono list_emb_append2)

lemma sink_ok_flush:
  assumes "sink_ok s ds ps"
  shows "\<exists>s'. btc_a2dp_sink_flush_q s = Some s' \<and> sink_ok s' [] ps \<and>
    (\<exists>rxq. s' = s\<lparr>RxSbcQ := rxq, acts := acts s @ map Freed ds\<rparr> \<and> (rxq = None) = (RxSbcQ s = None))"
proof -
  from assms have q: "rxq_holds (RxSbcQ s) ds" and m: "mset ps = mset (freed (acts s)) + mset ds"
    and sq: "subseq (decoded (acts s) @ ds) ps" and d: "dec_ok s" by (simp_all add: sink_ok_def)
  from flush_q_at [OF q] obtain rxq where r: "btc_a2dp_sink_flush_q s = Some (s\<lparr>RxSbcQ := rxq, acts := acts s @ map Freed ds\<rparr>)"
    "rxq_holds rxq []" "(rxq = None) = (RxSbcQ s = None)" by (elim exE conjE)
  have "dec_ok (s\<lparr>RxSbcQ := rxq, acts := acts s @ map Freed ds\<rparr>)" by (rule dec_ok_cong [OF d]) simp_all
  moreover have "subseq (decoded (acts s)) ps" using subseq_drop_middle [of "decoded (acts s)" ds "[]"] sq by simp
  ultimately have "sink_ok (s\<lparr>RxSbcQ := rxq, acts := acts s @ map Freed ds\<rparr>) [] ps"
    using r(2) m by (simp add: sink_ok_def)
  then show ?thesis by (intro exI conjI) (rule r(1), assumption, rule refl, rule r(3))
qed

text \<open>A packet handed over.\<close>

lemma sink_ok_refuse:
  assumes "sink_ok s ds ps"
  shows "sink_ok (act (Freed p) s) ds (ps @ [p])"
proof -
  have "dec_ok (act (Freed p) s)"
    by (rule dec_ok_cong [of s _ "[p]"]) (use assms in \<open>simp_all add: sink_ok_def act_def\<close>)
  moreover have "subseq (decoded (acts s) @ ds) (ps @ [p])"
    using assms list_emb_append_mono [of "(=)" "decoded (acts s) @ ds" ps "[]" "[p]"] by (simp add: sink_ok_def)
  ultimately show ?thesis using assms by (simp add: sink_ok_def act_def)
qed

lemma sink_ok_queue:
  assumes "sink_ok s ds ps" "rxq_holds rxq ds'" "ds' = drop k ds" "as = acts s @ map Freed (take k ds)"
  shows "sink_ok (s\<lparr>enq_counter := n, RxSbcQ := rxq, acts := as\<rparr>) ds' ps"
proof -
  have "dec_ok (s\<lparr>enq_counter := n, RxSbcQ := rxq, acts := as\<rparr>)"
    by (rule dec_ok_cong [of s _ "take k ds"]) (use assms(1) in \<open>simp_all add: sink_ok_def assms(4)\<close>)
  moreover have "subseq (decoded (acts s) @ ds') ps"
    using assms(1) subseq_drop_middle [of "decoded (acts s)" "take k ds" "drop k ds"] by (simp add: sink_ok_def assms(3))
  moreover have "mset ds = mset (take k ds) + mset (drop k ds)" by (simp flip: mset_append)
  ultimately show ?thesis
    using assms by (auto simp: sink_ok_def)
qed

lemma enque_store_at:
  assumes ok: "sink_ok s ds ps" and al: "alloc_ok alloc" and ev: "data_ready_event s = Some e" and q: "RxSbcQ s \<noteq> None"
    and lim: "length ds < btc_a2dp_sink_queue_limit (codec_index s)"
  shows "\<exists>r q b as. enque_store alloc p s =
      Some (r, s\<lparr>RxSbcQ := Some q, acts := as, data_ready_event := Some (e \<or> b), work_queue1 := work_queue1 s \<or> b \<and> \<not> e\<rparr>) \<and>
    sink_ok (s\<lparr>RxSbcQ := Some q, acts := as, data_ready_event := Some (e \<or> b), work_queue1 := work_queue1 s \<or> b \<and> \<not> e\<rparr>)
      (if b then ds @ [p] else ds) (ps @ [p])"
proof -
  from ok q obtain q0 lo where q0: "RxSbcQ s = Some q0" "queue_at QUEUE_SIZE_MAX empty_heap 0 0 lo ds q0"
    by (auto simp: sink_ok_def rxq_holds_def)
  let ?new = "alloc (hp_nodes (fq_heap q0))"
  have "calloc_ok ?new (fq_heap q0)" using al by (simp add: alloc_ok_def calloc_ok_def)
  from enqueue_at [OF q0(2) this, of p] obtain q1 b lo' where
    q1: "fixed_queue_enqueue ?new q0 p = Some (b, q1)" "queue_at QUEUE_SIZE_MAX empty_heap 0 0 lo' (if b then ds @ [p] else ds) q1"
    by auto
  let ?as = "if b then acts s else acts s @ [Freed p]"
  let ?s = "s\<lparr>RxSbcQ := Some q1, acts := ?as, data_ready_event := Some (e \<or> b), work_queue1 := work_queue1 s \<or> b \<and> \<not> e\<rparr>"
  have d: "dec_ok ?s"
    by (rule dec_ok_cong [of s _ "if b then [] else [p]"]) (use ok in \<open>simp_all add: sink_ok_def\<close>)
  have sq: "subseq (decoded (acts s) @ ds) ps" using ok by (simp add: sink_ok_def)
  have "subseq ((decoded (acts s) @ ds) @ (if b then [p] else [])) (ps @ [p])"
    using sq by (intro list_emb_append_mono) simp_all
  then have o1: "sink_ok ?s (if b then ds @ [p] else ds) (ps @ [p])"
    using ok lim q1(2) d by (auto simp: sink_ok_def rxq_holds_def)
  have "enque_store alloc p s = Some (ucast (fixed_queue_length (Some q1)), ?s)"
    using q0(1) q1(1) ev by (cases b; cases e) (simp_all add: enque_store_def act_def post_event_def)
  with o1 show ?thesis by (intro exI conjI)
qed

lemma enque_buf_at:
  assumes ok: "sink_ok s ds ps" and al: "alloc_ok alloc"
  shows "\<exists>r n rxq as ev w ds'. btc_a2dp_sink_enque_buf free_internal alloc p s =
      Some (r, s\<lparr>enq_counter := n, RxSbcQ := rxq, acts := as, data_ready_event := ev, work_queue1 := w\<rparr>) \<and>
    sink_ok (s\<lparr>enq_counter := n, RxSbcQ := rxq, acts := as, data_ready_event := ev, work_queue1 := w\<rparr>) ds' (ps @ [p]) \<and>
    (rxq = None) = (RxSbcQ s = None) \<and>
    (ev = data_ready_event s \<and> w = work_queue1 s \<and> (ds' \<noteq> [] \<longrightarrow> ds \<noteq> []) \<or>
     ev = Some True \<and> data_ready_event s \<noteq> None \<and> w = (work_queue1 s \<or> data_ready_event s = Some False))"
proof (cases "sink_state s = BTC_A2DP_SINK_STATE_ON \<and> RxSbcQ s \<noteq> None \<and> data_ready_event s \<noteq> None \<and>
    \<not> rx_flush s \<and> decoder_ready s \<and> length ds < btc_a2dp_sink_queue_limit (codec_index s)")
  case False
  have l: "unat (fixed_queue_length (RxSbcQ s)) = length ds"
    using ok rxq_read(2) by (auto simp: sink_ok_def)
  have "\<exists>r. btc_a2dp_sink_enque_buf free_internal alloc p s = Some (r, act (Freed p) s)"
    using False l by (auto simp: btc_a2dp_sink_enque_buf_def enque_guard_def)
  then obtain r where "btc_a2dp_sink_enque_buf free_internal alloc p s = Some (r, act (Freed p) s)" by blast
  moreover have a: "act (Freed p) s =
      s\<lparr>enq_counter := enq_counter s, RxSbcQ := RxSbcQ s, acts := acts s @ [Freed p],
        data_ready_event := data_ready_event s, work_queue1 := work_queue1 s\<rparr>"
    by (cases s) (simp add: act_def)
  ultimately show ?thesis
    using sink_ok_refuse [OF ok, of p] unfolding a
    by (intro exI [of _ r] exI [of _ "enq_counter s"] exI [of _ "RxSbcQ s"] exI [of _ "acts s @ [Freed p]"]
        exI [of _ "data_ready_event s"] exI [of _ "work_queue1 s"] exI [of _ ds]) (intro conjI; simp)
next
  case True
  then obtain e where e: "data_ready_event s = Some e" by auto
  have h: "rxq_holds (RxSbcQ s) ds" using ok by (simp add: sink_ok_def)
  have l: "unat (fixed_queue_length (RxSbcQ s)) = length ds" using rxq_read(2) [OF h] .
  from relieve_pressure_at [OF h, of free_internal] True obtain n k q where
    r: "relieve_pressure free_internal s = Some (s\<lparr>enq_counter := n, RxSbcQ := Some q, acts := acts s @ map Freed (take k ds)\<rparr>)"
    and q: "rxq_holds (Some q) (drop k ds)" by (elim exE conjE impE) (simp, metis)
  let ?s = "s\<lparr>enq_counter := n, RxSbcQ := Some q, acts := acts s @ map Freed (take k ds)\<rparr>"
  have ok1: "sink_ok ?s (drop k ds) ps" by (rule sink_ok_queue [OF ok q refl refl])
  have "\<exists>r q b as. enque_store alloc p ?s =
      Some (r, ?s\<lparr>RxSbcQ := Some q, acts := as, data_ready_event := Some (e \<or> b), work_queue1 := work_queue1 ?s \<or> b \<and> \<not> e\<rparr>) \<and>
    sink_ok (?s\<lparr>RxSbcQ := Some q, acts := as, data_ready_event := Some (e \<or> b), work_queue1 := work_queue1 ?s \<or> b \<and> \<not> e\<rparr>)
      (if b then drop k ds @ [p] else drop k ds) (ps @ [p])"
    by (rule enque_store_at [OF ok1 al]) (use True e in auto)
  then obtain rr q' b as where st: "enque_store alloc p ?s =
      Some (rr, ?s\<lparr>RxSbcQ := Some q', acts := as, data_ready_event := Some (e \<or> b), work_queue1 := work_queue1 ?s \<or> b \<and> \<not> e\<rparr>)"
    and ok2: "sink_ok (?s\<lparr>RxSbcQ := Some q', acts := as, data_ready_event := Some (e \<or> b), work_queue1 := work_queue1 ?s \<or> b \<and> \<not> e\<rparr>)
      (if b then drop k ds @ [p] else drop k ds) (ps @ [p])" by (elim exE conjE)
  let ?t = "s\<lparr>enq_counter := n, RxSbcQ := Some q', acts := as, data_ready_event := Some (e \<or> b), work_queue1 := work_queue1 s \<or> b \<and> \<not> e\<rparr>"
  have t: "?s\<lparr>RxSbcQ := Some q', acts := as, data_ready_event := Some (e \<or> b), work_queue1 := work_queue1 ?s \<or> b \<and> \<not> e\<rparr> = ?t"
    by simp
  have "btc_a2dp_sink_enque_buf free_internal alloc p s = Some (rr, ?t)"
    using True l r st unfolding t by (auto simp: btc_a2dp_sink_enque_buf_def enque_guard_def)
  then show ?thesis
    using ok2 True e unfolding t
    by (intro exI [of _ rr] exI [of _ n] exI [of _ "Some q'"] exI [of _ as]
        exI [of _ "Some (e \<or> b)"] exI [of _ "work_queue1 s \<or> b \<and> \<not> e"] exI [of _ "if b then drop k ds @ [p] else drop k ds"])
      (intro conjI; cases b; cases e; auto)
qed

text \<open>A packet taken from the queue.\<close>

lemma inc_media_acts:
  assumes "dec_ok s"
  shows "\<exists>as b. btc_a2dp_sink_handle_inc_media D peer p s = s\<lparr>acts := as\<rparr> \<and>
    freed as = freed (acts s) \<and> decoded as = decoded (acts s) @ (if b then [p] else []) \<and>
    dec_run None as = dec_run None (acts s) \<and> (rx_flush s \<or> \<not> decoder_ready s \<longrightarrow> as = acts s)"
proof (cases "\<not> peer \<and> \<not> rx_flush s \<and> decoder_ready s \<and> data_channel_open s")
  case False
  then have "btc_a2dp_sink_handle_inc_media D peer p s = s"
    by (auto simp: btc_a2dp_sink_handle_inc_media_def split: option.splits)
  then show ?thesis by (intro exI [of _ "acts s"] exI [of _ False]) simp
next
  case True
  with assms obtain d where d: "dec_run None (acts s) = Some (Some (d, Some (codec_index s)))" "decoder s = Some d"
    "index_decoder (codec_index s) = Some d" "decode_buf_len s = btc_a2dp_sink_decode_buf_size (codec_index s)"
    by (auto simp: dec_ok_def)
  have b: "decode_buf s" using assms d(4) decode_buf_size_pos [of "codec_index s"] by (simp add: dec_ok_def)
  let ?b = "\<not> header_answer D (acts s) < 0"
  let ?as = "acts s @ [DecHeader d p] @ (if ?b then [DecPacket d p (decode_buf_len s)] else [])"
  have "btc_a2dp_sink_handle_inc_media D peer p s = s\<lparr>acts := ?as\<rparr>"
    using True d(2) b by (simp add: btc_a2dp_sink_handle_inc_media_def act_def Let_def)
  moreover have "dec_run None ?as = dec_run None (acts s)" using d by simp
  ultimately show ?thesis using True by (intro exI [of _ ?as] exI [of _ ?b]) simp
qed

lemma sink_ok_take:
  assumes ok: "sink_ok s (p # ds) ps" and q: "rxq_holds rxq ds" and fr: "freed as = freed (acts s)"
    and dc: "decoded as = decoded (acts s) @ (if b then [p] else [])" and dr: "dec_run None as = dec_run None (acts s)"
  shows "sink_ok (s\<lparr>RxSbcQ := rxq, acts := as @ [Freed p]\<rparr>) ds ps"
proof -
  have "subseq (decoded as @ ds) ps"
    using ok dc subseq_drop_middle [of "decoded (acts s)" "[p]" ds ps] by (auto simp: sink_ok_def)
  moreover have "dec_ok (s\<lparr>RxSbcQ := rxq, acts := as @ [Freed p]\<rparr>)"
    using ok dr by (auto simp: sink_ok_def dec_ok_def)
  ultimately show ?thesis using ok q fr by (auto simp: sink_ok_def)
qed

text \<open>What the steps leave as it is, and that a queued event is in the work queue of its task.\<close>

definition sink_frame :: "'p a2dp_sink_local_param_t \<Rightarrow> 'p a2dp_sink_local_param_t \<Rightarrow> bool" where
  "sink_frame s s' =
     (sink_state s' = sink_state s \<and> (RxSbcQ s' = None) = (RxSbcQ s = None) \<and> decoder s' = decoder s \<and>
      decode_buf s' = decode_buf s \<and> task_hdl s' = task_hdl s \<and> task_closing s' = task_closing s \<and>
      task_stop s' = task_stop s \<and> work_queue0 s' = work_queue0 s)"

definition event_ok :: "'p a2dp_sink_local_param_t \<Rightarrow> bool" where
  "event_ok s = (data_ready_event s = Some True \<longrightarrow> task_hdl s \<longrightarrow> work_queue1 s)"

lemma enque_buf_ok:
  assumes "sink_ok s ds ps" "alloc_ok alloc" "event_ok s"
  shows "\<exists>r s' ds'. btc_a2dp_sink_enque_buf free_internal alloc p s = Some (r, s') \<and> sink_ok s' ds' (ps @ [p]) \<and>
    sink_frame s s' \<and> event_ok s' \<and> (data_ready_event s' = None) = (data_ready_event s = None) \<and>
    (data_ready_event s = Some True \<longrightarrow> data_ready_event s' = Some True) \<and>
    (ds' \<noteq> [] \<longrightarrow> ds \<noteq> [] \<or> data_ready_event s' = Some True)"
proof -
  from enque_buf_at [OF assms(1,2), of free_internal p] obtain r n rxq as ev w ds' where
    e: "btc_a2dp_sink_enque_buf free_internal alloc p s =
      Some (r, s\<lparr>enq_counter := n, RxSbcQ := rxq, acts := as, data_ready_event := ev, work_queue1 := w\<rparr>)"
    and ok: "sink_ok (s\<lparr>enq_counter := n, RxSbcQ := rxq, acts := as, data_ready_event := ev, work_queue1 := w\<rparr>) ds' (ps @ [p])"
    and q: "(rxq = None) = (RxSbcQ s = None)"
    and v: "ev = data_ready_event s \<and> w = work_queue1 s \<and> (ds' \<noteq> [] \<longrightarrow> ds \<noteq> []) \<or>
     ev = Some True \<and> data_ready_event s \<noteq> None \<and> w = (work_queue1 s \<or> data_ready_event s = Some False)"
    by (elim exE conjE)
  define t where "t = s\<lparr>enq_counter := n, RxSbcQ := rxq, acts := as, data_ready_event := ev, work_queue1 := w\<rparr>"
  have "sink_frame s t" using q by (simp add: sink_frame_def t_def)
  moreover have "event_ok t"
    using v assms(3) by (cases "data_ready_event s = Some False") (auto simp: event_ok_def t_def)
  moreover have "(data_ready_event t = None) = (data_ready_event s = None)"
    "data_ready_event s = Some True \<longrightarrow> data_ready_event t = Some True"
    "ds' \<noteq> [] \<longrightarrow> ds \<noteq> [] \<or> data_ready_event t = Some True" using v by (auto simp: t_def)
  ultimately show ?thesis using e [folded t_def] ok [folded t_def]
    by (intro exI [of _ r] exI [of _ t] exI [of _ ds'] conjI)
qed

lemma post_event_ok:
  assumes "sink_ok s ds ps" "data_ready_event s \<noteq> None" "event_ok s"
  shows "\<exists>s'. post_event s = Some s' \<and> sink_ok s' ds ps \<and> sink_frame s s' \<and> event_ok s' \<and> data_ready_event s' = Some True"
proof -
  from assms(2) obtain e where e: "data_ready_event s = Some e" by blast
  have "sink_ok (s\<lparr>data_ready_event := Some True, work_queue1 := True\<rparr>) ds ps"
    using assms(1) by (simp add: sink_ok_def dec_ok_def)
  then show ?thesis using assms e by (cases e) (simp_all add: post_event_def sink_frame_def event_ok_def)
qed

lemma flush_ok:
  assumes "sink_ok s ds ps" "event_ok s"
  shows "\<exists>s'. btc_a2dp_sink_flush_q s = Some s' \<and> sink_ok s' [] ps \<and> sink_frame s s' \<and> event_ok s' \<and>
    data_ready_event s' = data_ready_event s \<and> rx_flush s' = rx_flush s \<and> decoder_ready s' = decoder_ready s \<and>
    codec_index s' = codec_index s"
proof -
  from sink_ok_flush [OF assms(1)] obtain s' rxq where f: "btc_a2dp_sink_flush_q s = Some s'" "sink_ok s' [] ps"
    "s' = s\<lparr>RxSbcQ := rxq, acts := acts s @ map Freed ds\<rparr>" "(rxq = None) = (RxSbcQ s = None)" by (elim exE conjE)
  have "sink_frame s s'" "event_ok s'" "data_ready_event s' = data_ready_event s" "rx_flush s' = rx_flush s"
    "decoder_ready s' = decoder_ready s" "codec_index s' = codec_index s"
    using f(3,4) assms(2) by (simp_all add: sink_frame_def event_ok_def)
  with f(1,2) show ?thesis by blast
qed

lemma sink_frame_trans: "\<lbrakk>sink_frame s t; sink_frame t u\<rbrakk> \<Longrightarrow> sink_frame s u"
  by (simp add: sink_frame_def)

lemma data_ready_round_ok:
  assumes ok: "sink_ok s ds ps" and q: "n \<noteq> 0 \<longrightarrow> RxSbcQ s \<noteq> None" and ev: "data_ready_event s \<noteq> None"
    and eok: "event_ok s"
  shows "\<exists>run s' ds'. data_ready_round D peer n s = Some (run, s') \<and> sink_ok s' ds' ps \<and> sink_frame s s' \<and>
    event_ok s' \<and> data_ready_event s' \<noteq> None \<and>
    (run = None \<longrightarrow> sink_state s' = BTC_A2DP_SINK_STATE_ON \<longrightarrow> ds' \<noteq> [] \<longrightarrow> data_ready_event s' = Some True) \<and>
    (if n = 0 then run = None \<and> ds' = ds
     else sink_state s = BTC_A2DP_SINK_STATE_ON \<longrightarrow> ds' = [] \<or> ds' = tl ds \<and> run = Some (n - 1))"
proof -
  have h: "rxq_holds (RxSbcQ s) ds" using ok by (simp add: sink_ok_def)
  have fr: "sink_frame s s" by (simp add: sink_frame_def)
  consider (stop) "n = 0" | (off) "n \<noteq> 0" "sink_state s \<noteq> BTC_A2DP_SINK_STATE_ON"
    | (on) "n \<noteq> 0" "sink_state s = BTC_A2DP_SINK_STATE_ON" by blast
  then show ?thesis
  proof cases
    case stop
    from post_event_ok [OF ok ev eok] obtain s' where
      p: "post_event s = Some s'" "sink_ok s' ds ps" "sink_frame s s'" "event_ok s'" "data_ready_event s' = Some True" by blast
    show ?thesis
    proof (cases "ds = []")
      case True
      then have "data_ready_round D peer n s = Some (None, s)"
        using stop rxq_read(1) [OF h] by (simp add: data_ready_round_def)
      with True ok fr eok ev stop show ?thesis by (intro exI [of _ None] exI [of _ s] exI [of _ "[]"]) simp
    next
      case False
      then have "data_ready_round D peer n s = Some (None, s')"
        using stop rxq_read(1) [OF h] p(1) by (simp add: data_ready_round_def)
      with p stop show ?thesis by (intro exI [of _ None] exI [of _ s'] exI [of _ ds]) simp
    qed
  next
    case off
    then have "data_ready_round D peer n s = Some (None, s)" by (simp add: data_ready_round_def)
    with off ok fr eok ev show ?thesis by (intro exI [of _ None] exI [of _ s] exI [of _ ds]) simp
  next
    case on
    then obtain q0 lo where q0: "RxSbcQ s = Some q0" "queue_at QUEUE_SIZE_MAX empty_heap 0 0 lo ds q0"
      using q h by (auto simp: rxq_holds_def)
    from dequeue_at [OF q0(2)] obtain q1 where
      q1: "fixed_queue_dequeue q0 = Some (if ds = [] then None else Some (hd ds), q1)"
      "queue_at QUEUE_SIZE_MAX empty_heap 0 0 lo (tl ds) q1" by blast
    have h1: "rxq_holds (Some q1) (tl ds)" using q1(2) by (auto simp: rxq_holds_def)
    let ?s = "s\<lparr>RxSbcQ := Some q1\<rparr>"
    show ?thesis
    proof (cases ds)
      case Nil
      then have "data_ready_round D peer n s = Some (Some 0, ?s)"
        using on q0 q1 by (simp add: data_ready_round_def)
      moreover have "sink_ok ?s [] ps" "sink_frame s ?s" "event_ok ?s" "data_ready_event ?s \<noteq> None"
        using ok Nil h1 q0 ev eok by (simp_all add: sink_ok_def dec_ok_def sink_frame_def event_ok_def)
      ultimately show ?thesis using on by (intro exI [of _ "Some 0"] exI [of _ ?s] exI [of _ "[]"]) simp
    next
      case (Cons p ds')
      have ok': "sink_ok s (p # ds') ps" using ok Cons by simp
      have h2: "rxq_holds (Some q1) ds'" using h1 Cons by simp
      show ?thesis
      proof (cases "rx_flush s")
        case True
        let ?t = "act (Freed p) ?s"
        have "sink_ok (s\<lparr>RxSbcQ := Some q1, acts := acts s @ [Freed p]\<rparr>) ds' ps"
          by (rule sink_ok_take [OF ok' h2, where b = False]) simp_all
        then have t: "sink_ok ?t ds' ps" by (simp add: act_def)
        have te: "event_ok ?t" using eok by (simp add: event_ok_def act_def)
        from flush_ok [OF t te] obtain s' where f: "btc_a2dp_sink_flush_q ?t = Some s'" "sink_ok s' [] ps"
          "sink_frame ?t s'" "event_ok s'" "data_ready_event s' = data_ready_event ?t" by blast
        have "data_ready_round D peer n s = Some (None, s')"
          using on q0 q1 Cons True f(1) by (simp add: data_ready_round_def)
        moreover have "sink_frame s s'"
          using f(3) q0(1) by (simp add: sink_frame_def act_def)
        moreover have "data_ready_event s' \<noteq> None" using f(5) ev by (simp add: act_def)
        ultimately show ?thesis using f(2,4) on by (intro exI [of _ None] exI [of _ s'] exI [of _ "[]"]) simp
      next
        case False
        have "dec_ok ?s" using ok by (simp add: sink_ok_def dec_ok_def)
        from inc_media_acts [OF this, of D peer p] obtain as b where
          m: "btc_a2dp_sink_handle_inc_media D peer p ?s = ?s\<lparr>acts := as\<rparr>"
          "freed as = freed (acts ?s)" "decoded as = decoded (acts ?s) @ (if b then [p] else [])"
          "dec_run None as = dec_run None (acts ?s)" by blast
        let ?t = "s\<lparr>RxSbcQ := Some q1, acts := as @ [Freed p]\<rparr>"
        have "sink_ok ?t ds' ps"
          by (rule sink_ok_take [OF ok' h2]) (use m in simp_all)
        moreover have "data_ready_round D peer n s = Some (Some (n - 1), ?t)"
          using on q0 q1 Cons False m(1) by (simp add: data_ready_round_def act_def)
        moreover have "sink_frame s ?t" "event_ok ?t" "data_ready_event ?t \<noteq> None"
          using q0 ev eok by (simp_all add: sink_frame_def event_ok_def)
        ultimately show ?thesis
          using on Cons by (intro exI [of _ "Some (n - 1)"] exI [of _ ?t] exI [of _ ds']) simp
      qed
    qed
  qed
qed

text \<open>The decoder is changed.\<close>

lemma configure_decode_buf_eq:
  assumes "decode_buf s \<longleftrightarrow> decode_buf_len s \<noteq> 0"
  shows "btc_a2dp_sink_configure_decode_buf mem req s =
    (if req = 0 then (True, s\<lparr>decode_buf := False, decode_buf_len := 0\<rparr>)
     else if decode_buf_len s = req \<or> mem then (True, s\<lparr>decode_buf := True, decode_buf_len := req\<rparr>)
     else (False, s\<lparr>decode_buf := False, decode_buf_len := 0\<rparr>))"
  using assms by (cases s) (auto simp: btc_a2dp_sink_configure_decode_buf_def Let_def)

definition idle_ok :: "'p a2dp_sink_local_param_t \<Rightarrow> dec_state \<Rightarrow> bool" where
  "idle_ok s st =
     ((decode_buf s \<longleftrightarrow> decode_buf_len s \<noteq> 0) \<and> dec_run None (acts s) = Some st \<and> map_option fst st = decoder s)"

lemma switch_decoder_ok:
  assumes "idle_ok s st"
  shows "\<exists>ok st' e f n as. switch_decoder D d s = (ok, s\<lparr>decoder := e, decode_buf := f, decode_buf_len := n, acts := as\<rparr>) \<and>
    idle_ok (s\<lparr>decoder := e, decode_buf := f, decode_buf_len := n, acts := as\<rparr>) st' \<and> (ok \<longrightarrow> e = Some d) \<and>
    freed as = freed (acts s) \<and> decoded as = decoded (acts s)"
proof (cases "decoder s = Some d")
  case True
  with assms obtain c where st: "st = Some (d, c)" by (auto simp: idle_ok_def)
  let ?as = "if has_decoder_reset d then acts s @ [DecReset d] else acts s"
  have "switch_decoder D d s =
      (True, s\<lparr>decoder := Some d, decode_buf := decode_buf s, decode_buf_len := decode_buf_len s, acts := ?as\<rparr>)"
    using True by (cases s) (auto simp: switch_decoder_def act_def)
  moreover have "idle_ok (s\<lparr>decoder := Some d, decode_buf := decode_buf s, decode_buf_len := decode_buf_len s, acts := ?as\<rparr>) st"
    using assms st True by (auto simp: idle_ok_def)
  ultimately show ?thesis
    by (intro exI [of _ True] exI [of _ st] exI [of _ "Some d"] exI [of _ "decode_buf s"] exI [of _ "decode_buf_len s"]
        exI [of _ ?as]) simp
next
  case False
  define as1 where "as1 = acts s @ (case decoder s of None \<Rightarrow> [] | Some d' \<Rightarrow> [DecCleanup d'])"
  let ?ok = "init_answer D as1"
  let ?as = "as1 @ [DecInit d ?ok]"
  let ?t = "s\<lparr>decoder := if ?ok then Some d else None, decode_buf := False, decode_buf_len := 0, acts := ?as\<rparr>"
  have c: "(case decoder s of None \<Rightarrow> s | Some d' \<Rightarrow> act (DecCleanup d') s) = s\<lparr>acts := as1\<rparr>"
    by (cases s; cases "decoder s") (simp_all add: act_def as1_def)
  have b: "snd (btc_a2dp_sink_configure_decode_buf True 0 (s\<lparr>acts := as1\<rparr>)) =
      s\<lparr>decode_buf := False, decode_buf_len := 0, acts := as1\<rparr>"
    using assms by (subst configure_decode_buf_eq) (simp_all add: idle_ok_def)
  have "switch_decoder D d s = (?ok, ?t)"
    using False unfolding switch_decoder_def c Let_def b by (simp add: act_def)
  moreover have "dec_run None as1 = Some None"
    using assms by (cases "decoder s"; cases st) (auto simp: idle_ok_def as1_def)
  then have "idle_ok ?t (if ?ok then Some (d, None) else None)" by (simp add: idle_ok_def)
  ultimately show ?thesis
    by (intro exI [of _ ?ok] exI [of _ "if ?ok then Some (d, None) else None"] exI [of _ "if ?ok then Some d else None"]
        exI [of _ False] exI [of _ 0] exI [of _ ?as]) (simp add: as1_def split: option.split)
qed

lemma decoder_reset_ok:
  assumes ok: "sink_ok s ds ps" and eok: "event_ok s"
  shows "\<exists>s' ds'. btc_a2dp_sink_handle_decoder_reset D mem info s = Some s' \<and> sink_ok s' ds' ps \<and> event_ok s' \<and>
    sink_state s' = sink_state s \<and> (RxSbcQ s' = None) = (RxSbcQ s = None) \<and> task_hdl s' = task_hdl s \<and>
    task_closing s' = task_closing s \<and> task_stop s' = task_stop s \<and> work_queue0 s' = work_queue0 s \<and>
    data_ready_event s' = data_ready_event s \<and> (ds' = [] \<or> ds' = ds)"
proof -
  let ?s = "s\<lparr>decoder_ready := False, rx_flush := True\<rparr>"
  have ok0: "sink_ok ?s ds ps" using ok by (auto simp: sink_ok_def dec_ok_def)
  have eok0: "event_ok ?s" using eok by (simp add: event_ok_def)
  show ?thesis
  proof (cases "A2DP_GetDecoderInterface info")
    case None
    then have "btc_a2dp_sink_handle_decoder_reset D mem info s = Some ?s"
      by (simp add: btc_a2dp_sink_handle_decoder_reset_def)
    with ok0 eok0 show ?thesis by (intro exI [of _ ?s] exI [of _ ds]) simp
  next
    case (Some d)
    let ?idx = "A2DP_SinkCodecIndex info"
    have idx: "index_decoder ?idx = Some d"
      using Some A2DP_GetDecoderInterface_index [of info] by (simp split: if_splits)
    from flush_ok [OF ok0 eok0] obtain s1 where f: "btc_a2dp_sink_flush_q ?s = Some s1" "sink_ok s1 [] ps"
      "sink_frame ?s s1" "event_ok s1" "data_ready_event s1 = data_ready_event ?s" "\<not> decoder_ready s1" by auto
    from f(2,6) obtain st where "idle_ok s1 st" by (auto simp: sink_ok_def dec_ok_def idle_ok_def)
    from switch_decoder_ok [OF this, of D d] obtain b st' e fl n as where
      sw: "switch_decoder D d s1 = (b, s1\<lparr>decoder := e, decode_buf := fl, decode_buf_len := n, acts := as\<rparr>)"
      "idle_ok (s1\<lparr>decoder := e, decode_buf := fl, decode_buf_len := n, acts := as\<rparr>) st'" "b \<longrightarrow> e = Some d"
      "freed as = freed (acts s1)" "decoded as = decoded (acts s1)" by (elim exE conjE)
    define s2 where "s2 = s1\<lparr>decoder := e, decode_buf := fl, decode_buf_len := n, acts := as\<rparr>"
    note sw = sw [folded s2_def]
    have fr: "sink_state s2 = sink_state s" "(RxSbcQ s2 = None) = (RxSbcQ s = None)" "task_hdl s2 = task_hdl s"
      "task_closing s2 = task_closing s" "task_stop s2 = task_stop s" "work_queue0 s2 = work_queue0 s"
      "data_ready_event s2 = data_ready_event s" "\<not> decoder_ready s2"
      using f(3,5,6) by (simp_all add: s2_def sink_frame_def)
    have ok2: "sink_ok s2 [] ps"
      using f(2,6) sw(2,4,5) fr(8) by (auto simp: sink_ok_def s2_def dec_ok_def idle_ok_def)
    have eok2: "event_ok s2" using f(4) by (simp add: event_ok_def s2_def)
    show ?thesis
    proof (cases b)
      case False
      then have "btc_a2dp_sink_handle_decoder_reset D mem info s = Some s2"
        using Some f(1) sw(1) by (simp add: btc_a2dp_sink_handle_decoder_reset_def)
      with ok2 eok2 fr show ?thesis by (intro exI [of _ s2] exI [of _ "[]"]) simp
    next
      case True
      let ?s3 = "act (DecConfigure d info) s2"
      let ?size = "btc_a2dp_sink_decode_buf_size ?idx"
      have e: "decoder s2 = Some d" using True sw(3) by (simp add: s2_def)
      have r3: "dec_run None (acts ?s3) = Some (Some (d, Some ?idx))"
        using sw(2) e Some by (auto simp: idle_ok_def act_def)
      have c: "btc_a2dp_sink_configure_decode_buf mem ?size ?s3 =
          (if decode_buf_len s2 = ?size \<or> mem then (True, ?s3\<lparr>decode_buf := True, decode_buf_len := ?size\<rparr>)
           else (False, ?s3\<lparr>decode_buf := False, decode_buf_len := 0\<rparr>))"
        using sw(2) decode_buf_size_pos [of ?idx] by (subst configure_decode_buf_eq) (simp_all add: idle_ok_def act_def)
      define s4 where "s4 = (if decode_buf_len s2 = ?size \<or> mem
        then ?s3\<lparr>decode_buf := True, decode_buf_len := ?size, codec_index := ?idx, decoder_ready := True, rx_flush := False\<rparr>
        else ?s3\<lparr>decode_buf := False, decode_buf_len := 0, decoder_ready := False, rx_flush := True\<rparr>)"
      have "btc_a2dp_sink_handle_decoder_reset D mem info s = Some s4"
        using Some f(1) sw(1) True c by (simp add: btc_a2dp_sink_handle_decoder_reset_def Let_def s4_def)
      moreover have "sink_ok s4 [] ps"
        using ok2 r3 e idx decode_buf_size_pos [of ?idx] by (auto simp: s4_def sink_ok_def dec_ok_def act_def)
      moreover have "event_ok s4" using eok2 by (simp add: s4_def event_ok_def act_def)
      moreover have "sink_state s4 = sink_state s2" "RxSbcQ s4 = RxSbcQ s2" "task_hdl s4 = task_hdl s2"
        "task_closing s4 = task_closing s2" "task_stop s4 = task_stop s2" "work_queue0 s4 = work_queue0 s2"
        "data_ready_event s4 = data_ready_event s2" by (simp_all add: s4_def act_def)
      ultimately show ?thesis using fr by (intro exI [of _ s4] exI [of _ "[]"]) simp
    qed
  qed
qed

text \<open>The end of the module, and memory pressure.\<close>

definition blank :: "'p a2dp_sink_local_param_t \<Rightarrow> bool" where
  "blank s = (RxSbcQ s = None \<and> decoder s = None \<and> \<not> decode_buf s \<and> data_ready_event s = None)"

lemma thread_cleanup_ok:
  assumes "sink_ok s ds ps" "event_ok s"
  shows "\<exists>s'. btc_a2dp_sink_thread_cleanup s = Some s' \<and> sink_ok s' [] ps \<and> blank s' \<and> event_ok s' \<and>
    sink_state s' = BTC_A2DP_SINK_STATE_OFF \<and> task_hdl s' = task_hdl s \<and> task_closing s' = task_closing s \<and>
    task_stop s' = task_stop s \<and> work_queue0 s' = work_queue0 s"
proof -
  let ?as = "acts s @ (case decoder s of None \<Rightarrow> [] | Some d \<Rightarrow> [DecCleanup d]) @ map Freed ds"
  let ?t = "s\<lparr>decoder := None, decoder_ready := False, data_channel_open := False, sink_state := BTC_A2DP_SINK_STATE_OFF,
      acts := ?as, RxSbcQ := None, data_ready_event := None, decode_buf := False, decode_buf_len := 0,
      codec_index := BTAV_A2DP_CODEC_INDEX_MAX\<rparr>"
  have q: "rxq_holds (RxSbcQ s) ds" using assms(1) by (simp add: sink_ok_def)
  have fr: "fixed_queue_free r True = Some \<lparr>hp_nodes = hp_nodes empty_heap, hp_freed = ds\<rparr>" if "RxSbcQ s = Some r" for r
    using q that queue_free_at [of QUEUE_SIZE_MAX empty_heap 0 0 _ ds r True]
    by (auto simp: rxq_holds_def empty_heap_def)
  have "btc_a2dp_sink_thread_cleanup s = Some ?t"
    using q fr by (cases "RxSbcQ s"; cases "decoder s"; cases s)
      (auto simp: btc_a2dp_sink_thread_cleanup_def Let_def act_def rxq_holds_def)
  moreover have "dec_run None ?as = Some None"
    using assms(1) by (cases "decoder s") (auto simp: sink_ok_def dec_ok_def)
  then have "dec_ok ?t" by (simp add: dec_ok_def)
  moreover have "subseq (decoded (acts s)) ps"
    using assms(1) subseq_drop_middle [of "decoded (acts s)" ds "[]"] by (simp add: sink_ok_def)
  ultimately show ?thesis
    using assms by (intro exI [of _ ?t])
      (simp add: sink_ok_def rxq_holds_def blank_def event_ok_def split: option.split)
qed

lemma thread_init_ok:
  assumes "sink_ok s ds ps" "blank s"
  shows "btc_a2dp_sink_thread_init True m s \<noteq> None" "btc_a2dp_sink_thread_init False m s = None"
    and "btc_a2dp_sink_thread_init me m s = Some s' \<Longrightarrow> sink_ok s' [] ps \<and> event_ok s' \<and>
      sink_state s' = BTC_A2DP_SINK_STATE_ON \<and> task_hdl s' = task_hdl s \<and> task_closing s' = task_closing s \<and>
      task_stop s' = task_stop s \<and> work_queue0 s' = work_queue0 s"
proof -
  have ds: "ds = []" using assms by (auto simp: sink_ok_def rxq_holds_def blank_def)
  have q: "queue_inv 254 empty_heap [] (q, {#})" if "fixed_queue_new True True True True 254 empty_heap = Some q" for q :: "'a fixed_queue_t"
    using that by (rule queue_inv_start)
  have "rxq_holds (fixed_queue_new m m m m 254 (empty_heap :: 'a osi_heap)) []"
  proof (cases m)
    case True
    then obtain q where "fixed_queue_new m m m m 254 (empty_heap :: 'a osi_heap) = Some q"
      by (simp add: fixed_queue_new_def)
    with True q [of q] show ?thesis by (auto simp: rxq_holds_def queue_inv_def)
  next
    case False
    then show ?thesis by (simp add: rxq_holds_def fixed_queue_new_def)
  qed
  moreover assume "btc_a2dp_sink_thread_init me m s = Some s'"
  ultimately show "sink_ok s' [] ps \<and> event_ok s' \<and>
      sink_state s' = BTC_A2DP_SINK_STATE_ON \<and> task_hdl s' = task_hdl s \<and> task_closing s' = task_closing s \<and>
      task_stop s' = task_stop s \<and> work_queue0 s' = work_queue0 s"
    using assms ds
    by (auto simp: btc_a2dp_sink_thread_init_def sink_ok_def dec_ok_def blank_def event_ok_def split: if_splits)
qed (simp_all add: btc_a2dp_sink_thread_init_def)

lemma memory_pressure_ok:
  assumes "sink_ok s ds ps" "event_ok s"
  shows "\<exists>s' ds'. btc_a2dp_sink_on_memory_pressure s = Some s' \<and> sink_ok s' ds' ps \<and> sink_frame s s' \<and> event_ok s' \<and>
    data_ready_event s' = data_ready_event s \<and> (ds' \<noteq> [] \<longrightarrow> ds \<noteq> [])"
proof (cases "sink_state s = BTC_A2DP_SINK_STATE_ON")
  case False
  with assms show ?thesis
    by (intro exI [of _ s] exI [of _ ds]) (simp add: btc_a2dp_sink_on_memory_pressure_def sink_frame_def)
next
  case True
  have "sink_ok (s\<lparr>rx_flush := True\<rparr>) ds ps" "event_ok (s\<lparr>rx_flush := True\<rparr>)"
    using assms by (simp_all add: sink_ok_def dec_ok_def event_ok_def)
  from flush_ok [OF this] obtain s1 where f: "btc_a2dp_sink_flush_q (s\<lparr>rx_flush := True\<rparr>) = Some s1" "sink_ok s1 [] ps"
    "sink_frame (s\<lparr>rx_flush := True\<rparr>) s1" "event_ok s1" "data_ready_event s1 = data_ready_event (s\<lparr>rx_flush := True\<rparr>)"
    by blast
  let ?t = "if decoder_ready s1 then s1\<lparr>rx_flush := False\<rparr> else s1"
  have "btc_a2dp_sink_on_memory_pressure s = Some ?t"
    using True f(1) by (simp add: btc_a2dp_sink_on_memory_pressure_def)
  moreover have "sink_ok ?t [] ps" "sink_frame s ?t" "event_ok ?t" "data_ready_event ?t = data_ready_event s"
    using f by (cases "decoder_ready s1"; auto simp: sink_ok_def dec_ok_def event_ok_def sink_frame_def)+
  ultimately show ?thesis by (intro exI [of _ ?t] exI [of _ "[]"]) simp
qed

subsection \<open>All runs\<close>

definition msgs_ok :: "'p a2dp_sink_local_param_t \<Rightarrow> bool" where
  "msgs_ok s =
     ((BTC_MEDIA_TASK_SINK_INIT \<in> set (work_queue0 s) \<longrightarrow>
        hd (work_queue0 s) = BTC_MEDIA_TASK_SINK_INIT \<and> BTC_MEDIA_TASK_SINK_INIT \<notin> set (tl (work_queue0 s)) \<and> blank s) \<and>
      (BTC_MEDIA_TASK_SINK_CLEAN_UP \<in> set (work_queue0 s) \<longrightarrow>
        task_closing s \<and> last (work_queue0 s) = BTC_MEDIA_TASK_SINK_CLEAN_UP \<and>
        BTC_MEDIA_TASK_SINK_CLEAN_UP \<notin> set (butlast (work_queue0 s))) \<and>
      (sink_state s = BTC_A2DP_SINK_STATE_OFF \<longrightarrow>
        blank s \<and> (work_queue0 s = [] \<and> (task_closing s \<or> \<not> task_hdl s) \<or>
          work_queue0 s \<noteq> [] \<and> hd (work_queue0 s) = BTC_MEDIA_TASK_SINK_INIT)))"

definition run_ok :: "'p a2dp_sink_local_param_t \<Rightarrow> nat option \<Rightarrow> 'p list \<Rightarrow> bool" where
  "run_ok s run ds =
     ((\<forall>n. run = Some n \<longrightarrow> data_ready_event s \<noteq> None \<and> (n \<noteq> 0 \<longrightarrow> RxSbcQ s \<noteq> None)) \<and>
      (sink_state s = BTC_A2DP_SINK_STATE_ON \<longrightarrow> task_hdl s \<longrightarrow> ds \<noteq> [] \<longrightarrow> run \<noteq> None \<or> data_ready_event s = Some True))"

definition system_ok :: "'p sink_system \<Rightarrow> bool" where
  "system_ok x =
     (case x of (s, run, ps) \<Rightarrow> \<exists>ds. sink_ok s ds ps \<and> event_ok s \<and> msgs_ok s \<and> run_ok s run ds)"

lemma system_okI:
  "\<lbrakk>sink_ok s ds ps; event_ok s; msgs_ok s; run_ok s run ds\<rbrakk> \<Longrightarrow> system_ok (s, run, ps)"
  by (auto simp: system_ok_def)

lemma msgs_ok_frame:
  assumes "msgs_ok s" "sink_frame s s'" "(data_ready_event s' = None) = (data_ready_event s = None)"
  shows "msgs_ok s'"
  using assms by (simp add: msgs_ok_def sink_frame_def blank_def)

lemma msgs_ok_append:
  assumes "msgs_ok s" "ms \<noteq> [] \<longrightarrow> task_hdl s" "\<not> task_closing s"
    "BTC_MEDIA_TASK_SINK_INIT \<notin> set ms" "BTC_MEDIA_TASK_SINK_CLEAN_UP \<notin> set ms"
  shows "msgs_ok (s\<lparr>rx_flush := b, data_channel_open := c, work_queue0 := work_queue0 s @ ms\<rparr>)"
  using assms by (cases "work_queue0 s") (auto simp: msgs_ok_def blank_def)

lemma rx_flush_req_eq:
  assumes "btc_a2dp_sink_rx_flush_req m s = Some s'"
  shows "\<exists>ms. s' = s\<lparr>work_queue0 := work_queue0 s @ ms\<rparr> \<and> (ms \<noteq> [] \<longrightarrow> task_hdl s) \<and> set ms \<subseteq> {BTC_MEDIA_FLUSH_AA_RX}"
proof -
  from assms have "s' = s \<or> task_hdl s \<and> s' = s\<lparr>work_queue0 := work_queue0 s @ [BTC_MEDIA_FLUSH_AA_RX]\<rparr>"
    by (auto simp: btc_a2dp_sink_rx_flush_req_def post_def split: if_splits)
  then show ?thesis
    by (elim disjE) (rule exI [of _ "[]"], simp, rule exI [of _ "[BTC_MEDIA_FLUSH_AA_RX]"], simp)
qed

lemma posting_call_eq:
  assumes "posts c" "sink_call m1 m2 free_internal alloc c s = Some s'"
  shows "\<exists>ms b oc. s' = s\<lparr>rx_flush := b, data_channel_open := oc, work_queue0 := work_queue0 s @ ms\<rparr> \<and>
    (ms \<noteq> [] \<longrightarrow> task_hdl s) \<and> BTC_MEDIA_TASK_SINK_INIT \<notin> set ms \<and> BTC_MEDIA_TASK_SINK_CLEAN_UP \<notin> set ms"
proof (cases c)
  case OnIdle
  with assms obtain s1 where s1: "btc_a2dp_sink_rx_flush_req m1 (s\<lparr>rx_flush := True\<rparr>) = Some s1"
    "btc_a2dp_sink_clear_track m2 s1 = Some s'"
    by (auto simp: sink_call_def btc_a2dp_sink_on_idle_def Option.bind_eq_Some_conv)
  from rx_flush_req_eq [OF s1(1)] obtain ms where ms: "s1 = s\<lparr>rx_flush := True, work_queue0 := work_queue0 s @ ms\<rparr>"
    "ms \<noteq> [] \<longrightarrow> task_hdl s" "set ms \<subseteq> {BTC_MEDIA_FLUSH_AA_RX}" by (elim exE conjE) (rule that, simp_all)
  from s1(2) have "s' = s1 \<or> task_hdl s1 \<and> s' = s1\<lparr>work_queue0 := work_queue0 s1 @ [BTC_MEDIA_AUDIO_SINK_CLEAR_TRACK]\<rparr>"
    by (simp add: btc_a2dp_sink_clear_track_def post_def split: if_splits)
  then consider "s' = s1" | "task_hdl s1" "s' = s1\<lparr>work_queue0 := work_queue0 s1 @ [BTC_MEDIA_AUDIO_SINK_CLEAR_TRACK]\<rparr>"
    by blast
  then show ?thesis
  proof cases
    case 1
    with ms show ?thesis
      by (intro exI [of _ ms] exI [of _ True] exI [of _ "data_channel_open s"]) (cases s, simp, blast?)
  next
    case 2
    with ms show ?thesis
      by (intro exI [of _ "ms @ [BTC_MEDIA_AUDIO_SINK_CLEAR_TRACK]"] exI [of _ True] exI [of _ "data_channel_open s"])
        (cases s, simp, blast?)
  qed
next
  case OnStopped
  with assms obtain s1 where s1: "btc_a2dp_sink_rx_flush_req m1 (s\<lparr>rx_flush := True\<rparr>) = Some s1"
    "s' = s1\<lparr>data_channel_open := False\<rparr>"
    by (auto simp: sink_call_def btc_a2dp_sink_on_stopped_def Option.bind_eq_Some_conv)
  from rx_flush_req_eq [OF s1(1)] obtain ms where ms: "s1 = s\<lparr>rx_flush := True, work_queue0 := work_queue0 s @ ms\<rparr>"
    "ms \<noteq> [] \<longrightarrow> task_hdl s" "set ms \<subseteq> {BTC_MEDIA_FLUSH_AA_RX}" by (elim exE conjE) (rule that, simp_all)
  then show ?thesis using s1(2)
    by (intro exI [of _ ms] exI [of _ True] exI [of _ False]) (cases s, simp, blast?)
next
  case OnSuspended
  with assms have s1: "btc_a2dp_sink_rx_flush_req m1 (s\<lparr>rx_flush := True\<rparr>) = Some s'"
    by (simp add: sink_call_def btc_a2dp_sink_on_suspended_def)
  from rx_flush_req_eq [OF this] obtain ms where ms: "s' = s\<lparr>rx_flush := True, work_queue0 := work_queue0 s @ ms\<rparr>"
    "ms \<noteq> [] \<longrightarrow> task_hdl s" "set ms \<subseteq> {BTC_MEDIA_FLUSH_AA_RX}" by (elim exE conjE) (rule that, simp_all)
  then show ?thesis
    by (intro exI [of _ ms] exI [of _ True] exI [of _ "data_channel_open s"]) (cases s, simp, blast?)
next
  case (ResetDecoder info)
  with assms have "s' = s \<or> task_hdl s \<and> s' = s\<lparr>work_queue0 := work_queue0 s @ [BTC_MEDIA_AUDIO_SINK_CFG_UPDATE info]\<rparr>"
    by (simp add: sink_call_def btc_a2dp_sink_reset_decoder_def post_def split: if_splits)
  then consider "s' = s" | "task_hdl s" "s' = s\<lparr>work_queue0 := work_queue0 s @ [BTC_MEDIA_AUDIO_SINK_CFG_UPDATE info]\<rparr>"
    by blast
  then show ?thesis
  proof cases
    case 1
    then show ?thesis
      by (intro exI [of _ "[]"] exI [of _ "rx_flush s"] exI [of _ "data_channel_open s"]) (cases s, simp, blast?)
  next
    case 2
    then show ?thesis
      by (intro exI [of _ "[BTC_MEDIA_AUDIO_SINK_CFG_UPDATE info]"] exI [of _ "rx_flush s"] exI [of _ "data_channel_open s"])
        (cases s, simp, blast?)
  qed
qed (use assms in simp_all)

lemma run_ok_same:
  assumes "run_ok s run ds" "(RxSbcQ s' = None) = (RxSbcQ s = None)" "sink_state s' = sink_state s" "task_hdl s' = task_hdl s"
    "(data_ready_event s' = None) = (data_ready_event s = None)"
    "data_ready_event s = Some True \<longrightarrow> data_ready_event s' = Some True"
    "ds' \<noteq> [] \<longrightarrow> ds \<noteq> [] \<or> data_ready_event s' = Some True"
  shows "run_ok s' run ds'"
  using assms unfolding run_ok_def by (cases run) auto

lemma caller_ok:
  assumes "system_ok (s, run, ps)" "alloc_ok alloc" "posts c \<longrightarrow> \<not> task_closing s"
    "sink_call m1 m2 free_internal alloc c s = Some s'"
  shows "system_ok (s', run, ps @ offered c)"
proof -
  from assms(1) obtain ds where ok: "sink_ok s ds ps" and ev: "event_ok s" and ms: "msgs_ok s" and rn: "run_ok s run ds"
    by (auto simp: system_ok_def)
  show ?thesis
  proof (cases "posts c")
    case True
    from posting_call_eq [OF this assms(4)] obtain xs b oc where
      e: "s' = s\<lparr>rx_flush := b, data_channel_open := oc, work_queue0 := work_queue0 s @ xs\<rparr>"
      and x: "xs \<noteq> [] \<longrightarrow> task_hdl s" "BTC_MEDIA_TASK_SINK_INIT \<notin> set xs" "BTC_MEDIA_TASK_SINK_CLEAN_UP \<notin> set xs"
      by (elim exE conjE)
    have "offered c = []" using True by (cases c) simp_all
    moreover have "sink_ok s' ds ps" using ok by (simp add: e sink_ok_def dec_ok_def)
    moreover have "event_ok s'" using ev by (simp add: e event_ok_def)
    moreover have "msgs_ok s'" unfolding e using x assms(3) True by (intro msgs_ok_append [OF ms]) simp_all
    moreover have "run_ok s' run ds" by (rule run_ok_same [OF rn]) (simp_all add: e)
    ultimately show ?thesis by (auto intro: system_okI)
  next
    case False
    show ?thesis
    proof (cases c)
      case (EnqueBuf p)
      from enque_buf_ok [OF ok assms(2) ev, of free_internal p] obtain r t ds' where
        t: "btc_a2dp_sink_enque_buf free_internal alloc p s = Some (r, t)" "sink_ok t ds' (ps @ [p])" "sink_frame s t"
          "event_ok t" "(data_ready_event t = None) = (data_ready_event s = None)"
          "data_ready_event s = Some True \<longrightarrow> data_ready_event t = Some True"
          "ds' \<noteq> [] \<longrightarrow> ds \<noteq> [] \<or> data_ready_event t = Some True" by (elim exE conjE) (rule that)
      have e: "s' = t" using assms(4) EnqueBuf t(1) by (simp add: sink_call_def)
      have "run_ok t run ds'" using t(3,5,6,7) by (intro run_ok_same [OF rn]) (simp_all add: sink_frame_def)
      then show ?thesis unfolding e EnqueBuf
        by (intro system_okI [OF _ t(4) msgs_ok_frame [OF ms t(3,5)]]) (simp_all add: t(2))
    next
      case (SetRxFlush b)
      then have e: "s' = s\<lparr>rx_flush := b\<rparr>" using assms(4) by (simp add: sink_call_def btc_a2dp_sink_set_rx_flush_def)
      show ?thesis unfolding e SetRxFlush using ok ev ms rn
        by (intro system_okI [where ds = ds]) (simp_all add: sink_ok_def dec_ok_def event_ok_def msgs_ok_def blank_def run_ok_def)
    next
      case MemoryPressure
      from memory_pressure_ok [OF ok ev] obtain t ds' where
        t: "btc_a2dp_sink_on_memory_pressure s = Some t" "sink_ok t ds' ps" "sink_frame s t" "event_ok t"
          "data_ready_event t = data_ready_event s" "ds' \<noteq> [] \<longrightarrow> ds \<noteq> []" by blast
      have e: "s' = t" using assms(4) MemoryPressure t(1) by (simp add: sink_call_def)
      have "run_ok t run ds'" using t(3,5,6) by (intro run_ok_same [OF rn]) (simp_all add: sink_frame_def)
      then show ?thesis unfolding e MemoryPressure
        by (intro system_okI [OF _ t(4) msgs_ok_frame [OF ms t(3)]]) (simp_all add: t(2,5))
    next
      case (SetDataChannel b)
      then have e: "s' = s\<lparr>data_channel_open := b\<rparr>" using assms(4) by (simp add: sink_call_def)
      show ?thesis unfolding e SetDataChannel using ok ev ms rn
        by (intro system_okI [where ds = ds]) (simp_all add: sink_ok_def dec_ok_def event_ok_def msgs_ok_def blank_def run_ok_def)
    qed (use False in simp_all)
  qed
qed

text \<open>The message at the head of the queue is handled.\<close>

lemma msgs_ok_tl:
  assumes "msgs_ok s" "work_queue0 s = m # ms" "m \<noteq> BTC_MEDIA_TASK_SINK_INIT"
  shows "BTC_MEDIA_TASK_SINK_INIT \<notin> set ms" "sink_state s \<noteq> BTC_A2DP_SINK_STATE_OFF"
    "m = BTC_MEDIA_TASK_SINK_CLEAN_UP \<longrightarrow> ms = [] \<and> task_closing s"
    "BTC_MEDIA_TASK_SINK_CLEAN_UP \<in> set ms \<longrightarrow> task_closing s \<and> last ms = BTC_MEDIA_TASK_SINK_CLEAN_UP \<and>
        BTC_MEDIA_TASK_SINK_CLEAN_UP \<notin> set (butlast ms)"
  using assms by (auto simp: msgs_ok_def split: if_splits)

lemma ctrl_other_ok:
  assumes ok: "sink_ok s ds ps" and ev: "event_ok s" and m: "m \<noteq> BTC_MEDIA_TASK_SINK_INIT" "m \<noteq> BTC_MEDIA_TASK_SINK_CLEAN_UP"
  shows "\<exists>s' ds'. btc_a2dp_sink_ctrl D m1 m2 m s = Some s' \<and> sink_ok s' ds' ps \<and> event_ok s' \<and>
    sink_state s' = sink_state s \<and> (RxSbcQ s' = None) = (RxSbcQ s = None) \<and> task_hdl s' = task_hdl s \<and>
    task_closing s' = task_closing s \<and> task_stop s' = task_stop s \<and> work_queue0 s' = work_queue0 s \<and>
    data_ready_event s' = data_ready_event s \<and> (ds' = [] \<or> ds' = ds)"
proof -
  from flush_ok [OF ok ev] obtain t where t: "btc_a2dp_sink_flush_q s = Some t" "sink_ok t [] ps" "sink_frame s t" "event_ok t"
    "data_ready_event t = data_ready_event s" by blast
  have fl: ?thesis if "btc_a2dp_sink_ctrl D m1 m2 m s = btc_a2dp_sink_flush_q s"
    using that t by (intro exI [of _ t] exI [of _ "[]"]) (simp add: sink_frame_def)
  show ?thesis
  proof (cases m)
    case (BTC_MEDIA_AUDIO_SINK_CFG_UPDATE info)
    then show ?thesis using decoder_reset_ok [OF ok ev, of D m1 info] by (simp add: btc_a2dp_sink_ctrl_def)
  qed (use m fl in \<open>simp_all add: btc_a2dp_sink_ctrl_def btc_a2dp_sink_rx_flush_def btc_a2dp_sink_handle_clear_track_def\<close>)
qed

lemma task_message_ok:
  assumes ok: "sink_ok s ds ps" and ev: "event_ok s" and ms: "msgs_ok s" and rn: "run_ok s None ds"
    and w: "work_queue0 s = m # ms"
  shows "m = BTC_MEDIA_TASK_SINK_INIT \<and> \<not> m1 \<or>
    (\<exists>s'. btc_a2dp_sink_ctrl D m1 m2 m (s\<lparr>work_queue0 := ms\<rparr>) = Some s' \<and> system_ok (s', None, ps))"
proof -
  let ?s = "s\<lparr>work_queue0 := ms\<rparr>"
  have ok1: "sink_ok ?s ds ps" and ev1: "event_ok ?s" using ok ev by (simp_all add: sink_ok_def dec_ok_def event_ok_def)
  consider (init) "m = BTC_MEDIA_TASK_SINK_INIT" | (clean) "m = BTC_MEDIA_TASK_SINK_CLEAN_UP"
    | (other) "m \<noteq> BTC_MEDIA_TASK_SINK_INIT" "m \<noteq> BTC_MEDIA_TASK_SINK_CLEAN_UP" by blast
  then show ?thesis
  proof cases
    case init
    with ms w have b: "blank ?s" and nm: "BTC_MEDIA_TASK_SINK_INIT \<notin> set ms"
      and cl: "BTC_MEDIA_TASK_SINK_CLEAN_UP \<in> set ms \<longrightarrow> task_closing s \<and> last ms = BTC_MEDIA_TASK_SINK_CLEAN_UP \<and>
        BTC_MEDIA_TASK_SINK_CLEAN_UP \<notin> set (butlast ms)"
      by (auto simp: msgs_ok_def blank_def split: if_splits)
    show ?thesis
    proof (cases m1)
      case True
      with thread_init_ok(1) [OF ok1 b] obtain t where t: "btc_a2dp_sink_thread_init m1 m2 ?s = Some t" by auto
      note r = thread_init_ok(3) [OF ok1 b t]
      have "msgs_ok t" using r nm cl by (simp add: msgs_ok_def)
      moreover have "run_ok t None []" by (simp add: run_ok_def)
      ultimately have "system_ok (t, None, ps)" using r by (intro system_okI) simp_all
      then show ?thesis using init t by (simp add: btc_a2dp_sink_ctrl_def)
    qed (use init in simp)
  next
    case clean
    with msgs_ok_tl [OF ms w] have c: "ms = []" "task_closing s" by simp_all
    from thread_cleanup_ok [OF ok1 ev1] obtain t where t: "btc_a2dp_sink_thread_cleanup ?s = Some t" "sink_ok t [] ps"
      "blank t" "event_ok t" "sink_state t = BTC_A2DP_SINK_STATE_OFF" "task_closing t = task_closing ?s"
      "work_queue0 t = work_queue0 ?s" by blast
    have "msgs_ok t" using t c by (simp add: msgs_ok_def)
    moreover have "run_ok t None []" by (simp add: run_ok_def)
    ultimately have "system_ok (t, None, ps)" using t by (intro system_okI) simp_all
    then show ?thesis using clean t by (simp add: btc_a2dp_sink_ctrl_def)
  next
    case other
    from ctrl_other_ok [OF ok1 ev1 other, of D m1 m2] obtain t ds' where
      t: "btc_a2dp_sink_ctrl D m1 m2 m ?s = Some t" "sink_ok t ds' ps" "event_ok t" "sink_state t = sink_state ?s"
        "(RxSbcQ t = None) = (RxSbcQ ?s = None)" "task_hdl t = task_hdl ?s" "task_closing t = task_closing ?s"
        "work_queue0 t = work_queue0 ?s" "data_ready_event t = data_ready_event ?s" "ds' = [] \<or> ds' = ds"
      by (elim exE conjE) (rule that)
    have "msgs_ok t" using t msgs_ok_tl [OF ms w other(1)] by (simp add: msgs_ok_def)
    moreover have "run_ok t None ds'" by (rule run_ok_same [OF rn]) (use t in auto)
    ultimately have "system_ok (t, None, ps)" using t by (intro system_okI) simp_all
    with t(1) show ?thesis by blast
  qed
qed

lemma task_event_ok:
  assumes ok: "sink_ok s ds ps" and ms: "msgs_ok s"
    and e: "data_ready_event s = Some e"
  shows "\<exists>run' s'. data_ready_begin (s\<lparr>work_queue1 := False, data_ready_event := Some False\<rparr>) = Some (run', s') \<and>
    system_ok (s', run', ps)"
proof -
  let ?s = "s\<lparr>work_queue1 := False, data_ready_event := Some False\<rparr>"
  have ok1: "sink_ok ?s ds ps" and ev1: "event_ok ?s" using ok by (simp_all add: sink_ok_def dec_ok_def event_ok_def)
  have ms1: "msgs_ok ?s" using ms e by (simp add: msgs_ok_def blank_def)
  show ?thesis
  proof (cases "rx_flush s")
    case True
    from flush_ok [OF ok1 ev1] obtain t where t: "btc_a2dp_sink_flush_q ?s = Some t" "sink_ok t [] ps" "sink_frame ?s t"
      "event_ok t" "data_ready_event t = data_ready_event ?s" by blast
    have "msgs_ok t" using t(5) by (intro msgs_ok_frame [OF ms1 t(3)]) simp
    then have "system_ok (t, None, ps)" using t by (intro system_okI [where ds = "[]"]) (simp_all add: run_ok_def)
    then show ?thesis using t(1) True by (simp add: data_ready_begin_def)
  next
    case False
    have q: "rxq_holds (RxSbcQ s) ds" using ok by (simp add: sink_ok_def)
    have "ds \<noteq> [] \<Longrightarrow> RxSbcQ s \<noteq> None" using q by (cases "RxSbcQ s") (auto simp: rxq_holds_def)
    then have "run_ok ?s (Some (length ds)) ds" by (auto simp: run_ok_def)
    then have "system_ok (?s, Some (length ds), ps)" using ok1 ev1 ms1 by (intro system_okI)
    then show ?thesis using False rxq_read(2) [OF q] by (simp add: data_ready_begin_def)
  qed
qed

lemma task_step_ok:
  assumes "system_ok (s, run, ps)"
  shows "run = None \<and> \<not> m1 \<and> (\<exists>ms. work_queue0 s = BTC_MEDIA_TASK_SINK_INIT # ms) \<or>
    run = None \<and> work_queue0 s = [] \<and> work_queue1 s \<and> data_ready_event s = None \<or>
    (\<exists>run' s'. decoder_task D m1 m2 peer run s = Some (run', s') \<and> system_ok (s', run', ps))"
proof -
  from assms obtain ds where ok: "sink_ok s ds ps" and ev: "event_ok s" and ms: "msgs_ok s" and rn: "run_ok s run ds"
    by (auto simp: system_ok_def)
  show ?thesis
  proof (cases run)
    case (Some n)
    with rn have "n \<noteq> 0 \<longrightarrow> RxSbcQ s \<noteq> None" "data_ready_event s \<noteq> None" by (simp_all add: run_ok_def)
    from data_ready_round_ok [OF ok this ev, where D = D and peer = peer] obtain run' t ds' where
      t: "data_ready_round D peer n s = Some (run', t)" "sink_ok t ds' ps" "sink_frame s t" "event_ok t"
        "data_ready_event t \<noteq> None"
        "run' = None \<longrightarrow> sink_state t = BTC_A2DP_SINK_STATE_ON \<longrightarrow> ds' \<noteq> [] \<longrightarrow> data_ready_event t = Some True"
      by (elim exE conjE) (rule that)
    have "msgs_ok t" using rn Some t(5) by (intro msgs_ok_frame [OF ms t(3)]) (auto simp: run_ok_def)
    moreover have "run' = None" if "n = 0"
      using t(1) that by (auto simp: data_ready_round_def Option.bind_eq_Some_conv split: if_splits)
    then have "run_ok t run' ds'" using t(3,5,6) rn Some by (cases run') (auto simp: run_ok_def sink_frame_def)
    ultimately have "system_ok (t, run', ps)" using t(2,4) by (intro system_okI)
    then show ?thesis using t(1) Some by (simp add: decoder_task_def)
  next
    case None
    show ?thesis
    proof (cases "task_stop s \<or> \<not> task_hdl s")
      case True
      then show ?thesis using None assms by (auto simp: decoder_task_def)
    next
      case False
      show ?thesis
      proof (cases "work_queue0 s")
        case (Cons m xs)
        have "m = BTC_MEDIA_TASK_SINK_INIT \<and> \<not> m1 \<or>
          (\<exists>s'. btc_a2dp_sink_ctrl D m1 m2 m (s\<lparr>work_queue0 := xs\<rparr>) = Some s' \<and> system_ok (s', None, ps))"
          by (rule task_message_ok [OF ok ev ms rn [unfolded None] Cons])
        then show ?thesis using None False Cons by (auto simp: decoder_task_def)
      next
        case Nil
        show ?thesis
        proof (cases "work_queue1 s")
          case w: True
          show ?thesis
          proof (cases "data_ready_event s")
            case (Some e)
            from task_event_ok [OF ok ms Some] show ?thesis
              using None False Nil w Some by (auto simp: decoder_task_def)
          qed (use None Nil w in simp)
        next
          case w: False
          then show ?thesis using None False Nil assms by (auto simp: decoder_task_def)
        qed
      qed
    qed
  qed
qed

lemma task_step_defined:
  assumes "system_ok (s, run, ps)"
  shows "decoder_task D m1 m2 peer run s = None \<Longrightarrow>
      run = None \<and> (\<not> m1 \<and> (\<exists>ms. work_queue0 s = BTC_MEDIA_TASK_SINK_INIT # ms) \<or>
        work_queue0 s = [] \<and> work_queue1 s \<and> data_ready_event s = None)"
    and "decoder_task D m1 m2 peer run s = Some (run', s') \<Longrightarrow> system_ok (s', run', ps)"
proof -
  show "decoder_task D m1 m2 peer run s = None \<Longrightarrow>
      run = None \<and> (\<not> m1 \<and> (\<exists>ms. work_queue0 s = BTC_MEDIA_TASK_SINK_INIT # ms) \<or>
        work_queue0 s = [] \<and> work_queue1 s \<and> data_ready_event s = None)"
    using task_step_ok [OF assms, of m1 D m2 peer] by auto
  assume s: "decoder_task D m1 m2 peer run s = Some (run', s')"
  show "system_ok (s', run', ps)"
  proof (cases "run = None \<and> (task_stop s \<or> \<not> task_hdl s)")
    case True
    then show ?thesis using s assms by (simp add: decoder_task_def)
  next
    case False
    have "\<not> (run = None \<and> \<not> m1 \<and> (\<exists>ms. work_queue0 s = BTC_MEDIA_TASK_SINK_INIT # ms))"
      using False s by (cases run) (auto simp: decoder_task_def btc_a2dp_sink_ctrl_def btc_a2dp_sink_thread_init_def)
    moreover have "\<not> (run = None \<and> work_queue0 s = [] \<and> work_queue1 s \<and> data_ready_event s = None)"
      using False s by (cases run; cases "data_ready_event s") (auto simp: decoder_task_def)
    ultimately show ?thesis using task_step_ok [OF assms, of m1 D m2 peer] s by auto
  qed
qed

lemma sink_zero_ok: "system_ok (sink_zero, None, [])"
  by (rule system_okI [where ds = "[]"])
    (simp_all add: sink_ok_def sink_zero_def rxq_holds_def dec_ok_def event_ok_def msgs_ok_def blank_def run_ok_def)

lemma startup_ok:
  assumes "system_ok (s, run, ps)" "\<not> task_hdl s" "btc_a2dp_sink_startup m1 m2 s = Some (ok, s')"
  shows "system_ok (s', run, ps)"
proof -
  from assms(1) obtain ds where k: "sink_ok s ds ps" "event_ok s" "msgs_ok s" "run_ok s run ds"
    by (auto simp: system_ok_def)
  let ?s = "s\<lparr>task_hdl := True, task_closing := False, task_stop := False,
        work_queue1 := False, work_queue0 := [BTC_MEDIA_TASK_SINK_INIT]\<rparr>"
  have "s' = s \<or> sink_state s = BTC_A2DP_SINK_STATE_OFF \<and> (s' = s\<lparr>task_hdl := False\<rparr> \<or> s' = ?s)"
    using assms(3) by (simp add: btc_a2dp_sink_startup_def post_def split: if_splits) blast?
  then consider "s' = s" | "sink_state s = BTC_A2DP_SINK_STATE_OFF" "s' = s\<lparr>task_hdl := False\<rparr>"
    | "sink_state s = BTC_A2DP_SINK_STATE_OFF" "s' = ?s" by blast
  then show ?thesis
  proof cases
    case 1
    then show ?thesis using assms(1) by simp
  next
    case 2
    have "s' = s" using 2 assms(2) by (cases s) simp
    then show ?thesis using assms(1) by simp
  next
    case 3
    have b: "blank s" using k(3) 3(1) by (simp add: msgs_ok_def)
    have "sink_ok s' ds ps" "event_ok s'" "msgs_ok s'" "run_ok s' run ds"
      using k b 3(1) unfolding 3(2)
      by (simp_all add: sink_ok_def dec_ok_def event_ok_def msgs_ok_def blank_def run_ok_def)
    then show ?thesis by (rule system_okI)
  qed
qed

lemma sink_step_ok:
  assumes "system_ok x" "sink_step D x y"
  shows "system_ok y"
  using assms(2,1)
proof cases
  case (caller alloc c s m1 m2 free_internal s' run ps)
  then show ?thesis using caller_ok assms(1) by blast
next
  case (task m1 m2 peer run s run' s' ps)
  then show ?thesis using task_step_defined(2) assms(1) by blast
next
  case (startup s m1 m2 ok s' run ps)
  then show ?thesis using startup_ok assms(1) by blast
next
  case (shutdown s m1 s' run ps)
  from assms(1) shutdown(1) obtain ds where k: "sink_ok s ds ps" "event_ok s" "msgs_ok s" "run_ok s run ds"
    by (auto simp: system_ok_def)
  let ?s = "s\<lparr>sink_state := BTC_A2DP_SINK_STATE_SHUTTING_DOWN, task_closing := True\<rparr>"
  from shutdown(5) have "s' = ?s \<or> s' = ?s\<lparr>work_queue0 := work_queue0 s @ [BTC_MEDIA_TASK_SINK_CLEAN_UP]\<rparr>"
    by (auto simp: shutdown_post_def post_def Let_def split: if_splits)
  then consider "s' = ?s" | "s' = ?s\<lparr>work_queue0 := work_queue0 s @ [BTC_MEDIA_TASK_SINK_CLEAN_UP]\<rparr>" by blast
  then have "sink_ok s' ds ps \<and> event_ok s' \<and> run_ok s' run ds"
    by cases (use k in \<open>simp_all add: sink_ok_def dec_ok_def event_ok_def run_ok_def\<close>)
  moreover from shutdown(4,5) k(3) have "msgs_ok s'"
    by (cases "work_queue0 s") (auto simp: shutdown_post_def post_def Let_def msgs_ok_def blank_def split: if_splits)
  ultimately show ?thesis using shutdown(2) by (auto intro: system_okI)
next
  case (stop s run ps)
  then show ?thesis using assms(1)
    by (auto simp: system_ok_def shutdown_stop_def sink_ok_def dec_ok_def event_ok_def msgs_ok_def blank_def run_ok_def)
next
  case (stopped s run ps)
  from assms(1) stopped(1) obtain ds where k: "sink_ok s ds ps" "event_ok s" "msgs_ok s" "run_ok s run ds"
    by (auto simp: system_ok_def)
  have "sink_ok (shutdown_end s) ds ps" "event_ok (shutdown_end s)" "msgs_ok (shutdown_end s)" "run_ok (shutdown_end s) None ds"
    using k by (simp_all add: shutdown_end_def sink_ok_def dec_ok_def event_ok_def msgs_ok_def blank_def run_ok_def)
  then show ?thesis unfolding stopped(2) by (rule system_okI)
qed

lemma sink_reach_ok:
  assumes "sink_reach D x"
  shows "system_ok x"
  using assms by induction (auto intro: sink_zero_ok sink_step_ok)

subsection \<open>Every packet is processed\<close>

text \<open>The decoder task left to itself, and what it has to do at most.\<close>

fun task_runs :: "'p decoders \<Rightarrow> bool \<Rightarrow> bool \<Rightarrow> nat \<Rightarrow> nat option \<times> 'p a2dp_sink_local_param_t \<Rightarrow>
    (nat option \<times> 'p a2dp_sink_local_param_t) option" where
  "task_runs D m2 peer 0 x = Some x"
| "task_runs D m2 peer (Suc k) x = do { y \<leftarrow> decoder_task D True m2 peer (fst x) (snd x); task_runs D m2 peer k y }"

definition to_do :: "'p a2dp_sink_local_param_t \<Rightarrow> nat option \<Rightarrow> 'p list \<Rightarrow> nat" where
  "to_do s run ds =
     length (work_queue0 s) + 3 * length ds + (case run of None \<Rightarrow> 1 | Some n \<Rightarrow> if n = 0 then 2 else 0)"

definition draining :: "'p a2dp_sink_local_param_t \<Rightarrow> nat option \<Rightarrow> 'p list \<Rightarrow> 'p list \<Rightarrow> bool" where
  "draining s run ds ps =
     (sink_ok s ds ps \<and> event_ok s \<and> msgs_ok s \<and> run_ok s run ds \<and>
      sink_state s = BTC_A2DP_SINK_STATE_ON \<and> task_hdl s \<and> \<not> task_stop s)"

lemma draining_round:
  assumes "draining s (Some n) ds ps" "ds \<noteq> []"
  shows "\<exists>run' s' ds'. decoder_task D m1 m2 peer (Some n) s = Some (run', s') \<and> sink_ok s' ds' ps \<and>
    (ds' = [] \<or> draining s' run' ds' ps \<and> to_do s' run' ds' < to_do s (Some n) ds)"
proof -
  from assms(1) have ok: "sink_ok s ds ps" and ev: "event_ok s" and ms: "msgs_ok s" and rn: "run_ok s (Some n) ds"
    and st: "sink_state s = BTC_A2DP_SINK_STATE_ON" "task_hdl s" "\<not> task_stop s" by (simp_all add: draining_def)
  from rn have q: "n \<noteq> 0 \<longrightarrow> RxSbcQ s \<noteq> None" and e: "data_ready_event s \<noteq> None" by (simp_all add: run_ok_def)
  from data_ready_round_ok [OF ok q e ev, where D = D and peer = peer] obtain run' t ds' where
    t: "data_ready_round D peer n s = Some (run', t)" "sink_ok t ds' ps" "sink_frame s t" "event_ok t"
      "data_ready_event t \<noteq> None"
      "run' = None \<longrightarrow> sink_state t = BTC_A2DP_SINK_STATE_ON \<longrightarrow> ds' \<noteq> [] \<longrightarrow> data_ready_event t = Some True"
      "if n = 0 then run' = None \<and> ds' = ds
       else sink_state s = BTC_A2DP_SINK_STATE_ON \<longrightarrow> ds' = [] \<or> ds' = tl ds \<and> run' = Some (n - 1)"
    by (elim exE conjE) (rule that)
  have "draining t run' ds' ps \<and> to_do t run' ds' < to_do s (Some n) ds" if "ds' \<noteq> []"
  proof
    have "msgs_ok t" using e t(5) by (intro msgs_ok_frame [OF ms t(3)]) auto
    moreover have "run_ok t run' ds'"
    proof (cases n)
      case 0
      with t(7) have "run' = None" by simp
      with t(6) that show ?thesis by (simp add: run_ok_def)
    next
      case (Suc k)
      then have "RxSbcQ t \<noteq> None" using q t(3) by (simp add: sink_frame_def)
      then show ?thesis using t(5,6) that by (cases run') (simp_all add: run_ok_def)
    qed
    ultimately show "draining t run' ds' ps" using t(2,3,4) st by (simp add: draining_def sink_frame_def)
    have l: "length ds = Suc (length (tl ds))" and w: "work_queue0 t = work_queue0 s"
      using assms(2) t(3) by (simp_all add: sink_frame_def)
    show "to_do t run' ds' < to_do s (Some n) ds"
    proof (cases n)
      case 0
      with t(7) show ?thesis by (simp add: to_do_def w)
    next
      case (Suc k)
      with t(7) st(1) that have "ds' = tl ds" "run' = Some k" by simp_all
      with Suc l show ?thesis by (simp add: to_do_def w)
    qed
  qed
  with t(1,2) show ?thesis by (auto simp: decoder_task_def)
qed

lemma draining_message:
  assumes "draining s None ds ps" "ds \<noteq> []" "work_queue0 s = m # ms"
  shows "\<exists>s' ds'. decoder_task D m1 m2 peer None s = Some (None, s') \<and> sink_ok s' ds' ps \<and>
    (ds' = [] \<or> draining s' None ds' ps \<and> to_do s' None ds' < to_do s None ds)"
proof -
  from assms(1) have ok: "sink_ok s ds ps" and ev: "event_ok s" and mk: "msgs_ok s" and rn: "run_ok s None ds"
    and st: "sink_state s = BTC_A2DP_SINK_STATE_ON" "task_hdl s" "\<not> task_stop s" by (simp_all add: draining_def)
  let ?s = "s\<lparr>work_queue0 := ms\<rparr>"
  have ok1: "sink_ok ?s ds ps" and ev1: "event_ok ?s" using ok ev by (simp_all add: sink_ok_def dec_ok_def event_ok_def)
  have "RxSbcQ s \<noteq> None" using ok assms(2) by (intro rxq_nonempty [of _ ds]) (simp_all add: sink_ok_def)
  with mk assms(3) have ni: "m \<noteq> BTC_MEDIA_TASK_SINK_INIT" by (auto simp: msgs_ok_def blank_def)
  have d: "decoder_task D m1 m2 peer None s = map_option (Pair None) (btc_a2dp_sink_ctrl D m1 m2 m ?s)"
    using st assms(3) by (simp add: decoder_task_def)
  show ?thesis
  proof (cases "m = BTC_MEDIA_TASK_SINK_CLEAN_UP")
    case True
    from thread_cleanup_ok [OF ok1 ev1] obtain t where t: "btc_a2dp_sink_thread_cleanup ?s = Some t" "sink_ok t [] ps" by blast
    have "decoder_task D m1 m2 peer None s = Some (None, t)"
      using d True t(1) by (simp add: btc_a2dp_sink_ctrl_def)
    with t(2) show ?thesis by blast
  next
    case False
    from ctrl_other_ok [OF ok1 ev1 ni False, of D m1 m2] obtain t ds' where
      t: "btc_a2dp_sink_ctrl D m1 m2 m ?s = Some t" "sink_ok t ds' ps" "event_ok t" "sink_state t = sink_state ?s"
        "(RxSbcQ t = None) = (RxSbcQ ?s = None)" "task_hdl t = task_hdl ?s" "task_closing t = task_closing ?s"
        "task_stop t = task_stop ?s" "work_queue0 t = work_queue0 ?s" "data_ready_event t = data_ready_event ?s"
        "ds' = [] \<or> ds' = ds" by (elim exE conjE) (rule that)
    have "msgs_ok t" using t msgs_ok_tl [OF mk assms(3) ni] by (simp add: msgs_ok_def)
    moreover have "run_ok t None ds'" by (rule run_ok_same [OF rn]) (use t in auto)
    ultimately have "draining t None ds' ps" using t st by (simp add: draining_def)
    moreover have "ds' \<noteq> [] \<longrightarrow> to_do t None ds' < to_do s None ds" using t(9,11) assms(3) by (auto simp: to_do_def)
    ultimately show ?thesis using t(1,2) d by (intro exI [of _ t] exI [of _ ds']) auto
  qed
qed

lemma draining_event:
  assumes "draining s None ds ps" "ds \<noteq> []" "work_queue0 s = []"
  shows "\<exists>run' s' ds'. decoder_task D m1 m2 peer None s = Some (run', s') \<and> sink_ok s' ds' ps \<and>
    (ds' = [] \<or> draining s' run' ds' ps \<and> to_do s' run' ds' < to_do s None ds)"
proof -
  from assms(1) have ok: "sink_ok s ds ps" and ev: "event_ok s" and ms: "msgs_ok s" and rn: "run_ok s None ds"
    and st: "sink_state s = BTC_A2DP_SINK_STATE_ON" "task_hdl s" "\<not> task_stop s" by (simp_all add: draining_def)
  have e: "data_ready_event s = Some True" "work_queue1 s" using rn ev st assms(2) by (simp_all add: run_ok_def event_ok_def)
  let ?s = "s\<lparr>work_queue1 := False, data_ready_event := Some False\<rparr>"
  have d: "decoder_task D m1 m2 peer None s = data_ready_begin ?s"
    using st assms(3) e by (simp add: decoder_task_def)
  have ok1: "sink_ok ?s ds ps" and ev1: "event_ok ?s" using ok by (simp_all add: sink_ok_def dec_ok_def event_ok_def)
  show ?thesis
  proof (cases "rx_flush s")
    case True
    from flush_ok [OF ok1 ev1] obtain t where "btc_a2dp_sink_flush_q ?s = Some t" "sink_ok t [] ps" by blast
    then show ?thesis using d True by (intro exI [of _ None] exI [of _ t] exI [of _ "[]"]) (simp add: data_ready_begin_def)
  next
    case False
    have q: "rxq_holds (RxSbcQ s) ds" using ok by (simp add: sink_ok_def)
    have "RxSbcQ s \<noteq> None" by (rule rxq_nonempty [OF q assms(2)])
    moreover have "msgs_ok ?s" using ms e by (simp add: msgs_ok_def blank_def)
    ultimately have "draining ?s (Some (length ds)) ds ps" using ok1 ev1 st by (simp add: draining_def run_ok_def)
    moreover have "to_do ?s (Some (length ds)) ds < to_do s None ds" using assms(2) by (simp add: to_do_def)
    moreover have "data_ready_begin ?s = Some (Some (length ds), ?s)" using False rxq_read(2) [OF q] by (simp add: data_ready_begin_def)
    ultimately show ?thesis using d ok1 by (intro exI [of _ "Some (length ds)"] exI [of _ ?s] exI [of _ ds]) simp
  qed
qed

lemma draining_step:
  assumes "draining s run ds ps" "ds \<noteq> []"
  shows "\<exists>run' s' ds'. decoder_task D m1 m2 peer run s = Some (run', s') \<and> sink_ok s' ds' ps \<and>
    (ds' = [] \<or> draining s' run' ds' ps \<and> to_do s' run' ds' < to_do s run ds)"
proof (cases run)
  case None
  then show ?thesis
    using assms draining_message [of s ds ps] draining_event [of s ds ps] by (cases "work_queue0 s") blast+
next
  case (Some n)
  then show ?thesis using assms draining_round by blast
qed

lemma draining_ends:
  assumes "draining s run ds ps"
  shows "\<exists>k \<le> to_do s run ds. \<exists>run' s'. task_runs D m2 peer k (run, s) = Some (run', s') \<and> sink_ok s' [] ps"
  using assms
proof (induction "to_do s run ds" arbitrary: s run ds rule: less_induct)
  case less
  show ?case
  proof (cases "ds = []")
    case True
    then have "task_runs D m2 peer 0 (run, s) = Some (run, s) \<and> sink_ok s [] ps" using less.prems by (simp add: draining_def)
    then show ?thesis by blast
  next
    case False
    from draining_step [OF less.prems False, of D True m2 peer] obtain run1 s1 ds1 where
      s1: "decoder_task D True m2 peer run s = Some (run1, s1)" "sink_ok s1 ds1 ps"
      and c: "ds1 = [] \<or> draining s1 run1 ds1 ps \<and> to_do s1 run1 ds1 < to_do s run ds" by blast
    show ?thesis
    proof (cases "ds1 = []")
      case True
      have "1 \<le> to_do s run ds" using False by (cases ds) (simp_all add: to_do_def)
      moreover have "task_runs D m2 peer 1 (run, s) = Some (run1, s1)" using s1(1) by simp
      ultimately show ?thesis using s1(2) True by blast
    next
      case no: False
      with c have d: "to_do s1 run1 ds1 < to_do s run ds" "draining s1 run1 ds1 ps" by simp_all
      from less.hyps [OF d] obtain k run' s' where k: "k \<le> to_do s1 run1 ds1"
        "task_runs D m2 peer k (run1, s1) = Some (run', s')" "sink_ok s' [] ps" by blast
      have "task_runs D m2 peer (Suc k) (run, s) = Some (run', s')" using s1(1) k(2) by simp
      moreover have "Suc k \<le> to_do s run ds" using k(1) d(1) by simp
      ultimately show ?thesis using k(3) by blast
    qed
  qed
qed

subsection \<open>What holds in every run\<close>

lemma reach_conserves:
  assumes "sink_reach D (s, run, ps)"
  shows "\<exists>ds. rxq_holds (RxSbcQ s) ds \<and> mset ps = mset (freed (acts s)) + mset ds \<and>
    subseq (decoded (acts s) @ ds) ps \<and> length ds \<le> btc_a2dp_sink_queue_limit (codec_index s) \<and>
    btc_a2dp_sink_queue_limit (codec_index s) \<le> 32"
proof -
  have "btc_a2dp_sink_queue_limit (codec_index s) \<le> 32"
    by (simp add: btc_a2dp_sink_queue_limit_def split: btav_a2dp_codec_index_t.split)
  with sink_reach_ok [OF assms] show ?thesis by (auto simp: system_ok_def sink_ok_def)
qed


lemma dec_run_packet:
  assumes "dec_run st (as @ DecPacket d p len # bs) \<noteq> None"
  shows "\<exists>i. dec_run st as = Some (Some (d, Some i)) \<and> index_decoder i = Some d \<and> len = btc_a2dp_sink_decode_buf_size i"
proof -
  from assms obtain st' where st': "dec_run st as = Some st'" "dec_step st' (DecPacket d p len) \<noteq> None"
    by (cases "dec_run st as") (auto split: bind_splits)
  show ?thesis
  proof (cases st')
    case (Some c)
    then show ?thesis using st' by (cases c; cases "snd c") (auto split: if_splits)
  qed (use st' in simp)
qed

text \<open>
  C10 (type). The functions of a decoder are called by its protocol: initialised when no other decoder is, reset,
  configured with elements of its codec, used and cleaned up only while it is the one, and packets go only to a decoder that was
  configured, with the scratch buffer of the size of the codec it was configured for.
\<close>

theorem sink_decoder_protocol:
  assumes "sink_reach D (s, run, ps)"
  shows "dec_run None (acts s) \<noteq> None \<and>
    (\<forall>as d p len bs. acts s = as @ DecPacket d p len # bs \<longrightarrow>
      (\<exists>i. dec_run None as = Some (Some (d, Some i)) \<and> index_decoder i = Some d \<and>
        len = btc_a2dp_sink_decode_buf_size i))"
proof -
  have r: "dec_run None (acts s) \<noteq> None"
    using sink_reach_ok [OF assms] by (auto simp: system_ok_def sink_ok_def dec_ok_def)
  have "\<exists>i. dec_run None as = Some (Some (d, Some i)) \<and> index_decoder i = Some d \<and> len = btc_a2dp_sink_decode_buf_size i"
    if "acts s = as @ DecPacket d p len # bs" for as d p len bs
    using r unfolding that by (rule dec_run_packet)
  with r show ?thesis by blast
qed

text \<open>
  C9 (liveness). As long as the module runs, the decoder task alone empties the queue: from every reachable state it
  takes at most \<open>to_do\<close> steps, whatever messages are waiting, so no packet is left without a task that
  will come for it.
\<close>

theorem sink_queue_empties:
  assumes "sink_reach D (s, run, ps)" "sink_state s = BTC_A2DP_SINK_STATE_ON" "task_hdl s" "\<not> task_stop s"
    "rxq_holds (RxSbcQ s) ds"
  shows "\<exists>k \<le> to_do s run ds. \<exists>run' s'. task_runs D m2 peer k (run, s) = Some (run', s') \<and>
    fixed_queue_is_empty (RxSbcQ s')"
proof -
  from sink_reach_ok [OF assms(1)] obtain ds' where ok: "sink_ok s ds' ps" "event_ok s" "msgs_ok s" "run_ok s run ds'"
    by (auto simp: system_ok_def)
  have "unat (fixed_queue_length (RxSbcQ s)) = length ds'" "unat (fixed_queue_length (RxSbcQ s)) = length ds"
    using ok(1) assms(5) rxq_read(2) by (auto simp: sink_ok_def)
  then have l: "to_do s run ds' = to_do s run ds" by (simp add: to_do_def)
  have "draining s run ds' ps" using ok assms(2,3,4) by (simp add: draining_def)
  from draining_ends [OF this, of D m2 peer] obtain k run' s' where
    k: "k \<le> to_do s run ds'" "task_runs D m2 peer k (run, s) = Some (run', s')" "sink_ok s' [] ps" by blast
  have "fixed_queue_is_empty (RxSbcQ s')" using k(3) rxq_read(1) [of "RxSbcQ s'" "[]"] by (simp add: sink_ok_def)
  then show ?thesis using k(1,2) l by auto
qed


subsection \<open>What goes wrong\<close>

text \<open>
  A suspended stream discards packets until it is resumed; but when memory runs short meanwhile, the
  sink takes packets again, for \<open>rx_flush\<close> is cleared whenever a decoder is ready.
\<close>

theorem pressure_undoes_suspend:
  assumes "sink_state s = BTC_A2DP_SINK_STATE_ON" "decoder_ready s"
    "btc_a2dp_sink_on_suspended m s = Some s1" "btc_a2dp_sink_on_memory_pressure s1 = Some s2"
  shows "rx_flush s1 \<and> \<not> rx_flush s2"
proof -
  from assms(3) have s1: "rx_flush s1" "sink_state s1 = sink_state s" "decoder_ready s1 = decoder_ready s"
    by (auto simp: btc_a2dp_sink_on_suspended_def btc_a2dp_sink_rx_flush_req_def post_def split: if_splits)
  from assms(4) s1 assms(1) obtain t where t: "btc_a2dp_sink_flush_q (s1\<lparr>rx_flush := True\<rparr>) = Some t"
    "s2 = (if decoder_ready t then t\<lparr>rx_flush := False\<rparr> else t)"
    by (auto simp: btc_a2dp_sink_on_memory_pressure_def Option.bind_eq_Some_conv)
  have "decoder_ready t = decoder_ready s1"
    using t(1) by (auto simp: btc_a2dp_sink_flush_q_def Option.bind_eq_Some_conv split: option.splits)
  with t(2) s1 assms(2) show ?thesis by simp
qed

subsection \<open>Examples\<close>

text \<open>
  A run with an SBC stream: the module starts, its task initialises it, the stream is opened and
  configured, and a packet is queued. Decoding it is the next step.
\<close>

definition example_decoders :: "nat decoders" where
  "example_decoders = \<lparr>init_answer = \<lambda>_. True, header_answer = \<lambda>_. 0\<rparr>"

definition example_info :: buf where
  "example_info = bytes [6, 0, 0, 0xFF, 0xFF, 2, 53]"

lemma example_info_sbc:
  "A2DP_GetDecoderInterface example_info = Some a2dp_decoder_interface_sbc"
  "A2DP_SinkCodecIndex example_info = BTAV_A2DP_CODEC_INDEX_SINK_SBC"
  "has_decoder_reset a2dp_decoder_interface_sbc"
  by (simp_all add: example_info_def bytes_def codec_dispatch A2DP_GetCodecType_def decoder_interfaces sink_indexes
      A2DP_IsPeerSinkCodecValidSbc_def A2DP_IsSinkCodecValidSbc_def A2D_ParsSbcInfo_def has_decoder_reset_def)

definition example_queue :: "'p fixed_queue_t" where
  "example_queue =
     \<lparr>fq_list = \<lparr>li_head = 0, li_tail = 0, li_length = 0, li_free_cb = False\<rparr>, fq_heap = empty_heap,
      fq_enqueue_sem = osi_sem_new QUEUE_SIZE_MAX QUEUE_SIZE_MAX, fq_dequeue_sem = osi_sem_new QUEUE_SIZE_MAX 0,
      fq_capacity = QUEUE_SIZE_MAX\<rparr>"

definition example_on :: "'p a2dp_sink_local_param_t" where
  "example_on = sink_zero\<lparr>sink_state := BTC_A2DP_SINK_STATE_ON, data_ready_event := Some False, RxSbcQ := Some example_queue,
     codec_index := BTAV_A2DP_CODEC_INDEX_MAX, task_hdl := True\<rparr>"

lemma reach_caller:
  assumes "sink_reach D (s, run, ps)" "sink_call m1 m2 free_internal alloc c s = Some s'" "alloc_ok alloc"
    "posts c \<longrightarrow> \<not> task_closing s" "ps' = ps @ offered c"
  shows "sink_reach D (s', run, ps')"
  unfolding assms(5) by (rule sink_reach.step [OF assms(1) sink_step.caller [OF assms(3,4,2)]])

lemma reach_task:
  assumes "sink_reach D (s, run, ps)" "decoder_task D m1 m2 peer run s = Some (run', s')"
  shows "sink_reach D (s', run', ps)"
  by (rule sink_reach.step [OF assms(1) sink_step.task [OF assms(2)]])

definition example_start :: "'p a2dp_sink_local_param_t" where
  "example_start = sink_zero\<lparr>task_hdl := True, work_queue0 := [BTC_MEDIA_TASK_SINK_INIT]\<rparr>"

lemma example_start_reach: "sink_reach D (example_start, None, [])"
  by (rule sink_reach.step [OF sink_reach.start sink_step.startup [of _ True True True]])
     (simp_all add: example_start_def sink_zero_def btc_a2dp_sink_startup_def post_def)

lemma example_on_reach: "sink_reach D (example_on, None, [])"
  by (rule reach_task [OF example_start_reach, of _ True True True])
     (simp add: example_start_def sink_zero_def decoder_task_def btc_a2dp_sink_ctrl_def btc_a2dp_sink_thread_init_def example_on_def
        fixed_queue_new_def example_queue_def list_new_internal_def)

text \<open>The decoder \<open>d\<close> configured with an element, and the packet \<open>p\<close> queued for it.\<close>

definition configured_for :: "tA2DP_DECODER_INTERFACE \<Rightarrow> buf \<Rightarrow> 'p a2dp_sink_local_param_t" where
  "configured_for d info = example_on\<lparr>data_channel_open := True, decoder := Some d, decode_buf := True,
     decode_buf_len := btc_a2dp_sink_decode_buf_size (A2DP_SinkCodecIndex info),
     codec_index := A2DP_SinkCodecIndex info, decoder_ready := True, acts := [DecInit d True, DecConfigure d info]\<rparr>"

lemma configured_reach:
  assumes "A2DP_GetDecoderInterface info = Some d" "init_answer D []"
  shows "sink_reach D (configured_for d info, None, [])"
proof -
  let ?size = "btc_a2dp_sink_decode_buf_size (A2DP_SinkCodecIndex info)"
  have z: "?size \<noteq> 0" using decode_buf_size_pos [of "A2DP_SinkCodecIndex info"] by simp
  have "sink_reach D (example_on\<lparr>data_channel_open := True\<rparr>, None, [])"
    by (rule reach_caller [OF example_on_reach, of True True 0 "\<lambda>_. 0" "SetDataChannel True"])
       (simp_all add: sink_call_def alloc_ok_def)
  then have "sink_reach D
      (example_on\<lparr>data_channel_open := True, work_queue0 := [BTC_MEDIA_AUDIO_SINK_CFG_UPDATE info]\<rparr>, None, [])"
    by (rule reach_caller [of _ _ _ _ True True 0 "\<lambda>_. 0" "ResetDecoder info"])
       (simp_all add: sink_call_def alloc_ok_def btc_a2dp_sink_reset_decoder_def post_def example_on_def sink_zero_def)
  then show ?thesis
    by (rule reach_task [of _ _ _ _ True True True])
       (simp add: decoder_task_def btc_a2dp_sink_ctrl_def btc_a2dp_sink_handle_decoder_reset_def assms z
          example_on_def sink_zero_def configured_for_def btc_a2dp_sink_flush_q_def flush_loop.simps fixed_queue_is_empty_def
          list_is_empty_def example_queue_def switch_decoder_def btc_a2dp_sink_configure_decode_buf_def act_def Let_def)
qed

definition queued_for :: "tA2DP_DECODER_INTERFACE \<Rightarrow> buf \<Rightarrow> 'p \<Rightarrow> 'p a2dp_sink_local_param_t" where
  "queued_for d info p = (configured_for d info)\<lparr>enq_counter := 1, data_ready_event := Some True, work_queue1 := True,
     RxSbcQ := Some (example_queue
       \<lparr>fq_list := \<lparr>li_head = 4, li_tail = 4, li_length = 1, li_free_cb = False\<rparr>,
        fq_heap := \<lparr>hp_nodes = [4 \<mapsto> \<lparr>ln_next = 0, ln_data = p\<rparr>], hp_freed = []\<rparr>,
        fq_enqueue_sem := osi_sem_new QUEUE_SIZE_MAX 253, fq_dequeue_sem := osi_sem_new QUEUE_SIZE_MAX 1\<rparr>)\<rparr>"

lemma queue_limit_pos [simp]: "btc_a2dp_sink_queue_limit i \<noteq> 0" "0 < btc_a2dp_sink_queue_limit i"
  by (cases i; simp add: btc_a2dp_sink_queue_limit_def)+

lemma queued_reach:
  assumes "A2DP_GetDecoderInterface info = Some d" "init_answer D []"
  shows "sink_reach D (queued_for d info p, None, [p])"
  by (rule reach_caller [OF configured_reach [OF assms], of True True 0 "\<lambda>N. if N 4 = None then 4 else 0" "EnqueBuf p"])
     (simp_all add: sink_call_def btc_a2dp_sink_enque_buf_def enque_guard_def enque_store_def relieve_pressure_def post_event_def
        queued_for_def configured_for_def example_on_def sink_zero_def
        fixed_queue_length_def list_length_def fixed_queue_enqueue_def enqueue_locked_def list_append_def
        osi_sem_take_def osi_sem_give_def osi_sem_new_def empty_heap_def example_queue_def fun_eq_iff alloc_ok_def)

text \<open>The packet decoded, but for its end.\<close>

lemma packet_reach:
  assumes "A2DP_GetDecoderInterface info = Some d" "init_answer D []" "header_answer D [DecInit d True, DecConfigure d info] \<ge> 0"
  shows "\<exists>s. sink_reach D (s, Some 0, [p]) \<and> decoder s = Some d \<and>
    acts s = [DecInit d True, DecConfigure d info, DecHeader d p,
      DecPacket d p (btc_a2dp_sink_decode_buf_size (A2DP_SinkCodecIndex info)), Freed p]"
proof -
  let ?q = "example_queue\<lparr>fq_list := \<lparr>li_head = 4, li_tail = 4, li_length = 1, li_free_cb = False\<rparr>,
        fq_heap := \<lparr>hp_nodes = [4 \<mapsto> \<lparr>ln_next = 0, ln_data = p\<rparr>], hp_freed = []\<rparr>,
        fq_enqueue_sem := osi_sem_new QUEUE_SIZE_MAX 253, fq_dequeue_sem := osi_sem_new QUEUE_SIZE_MAX (Suc 0)\<rparr>"
  let ?s = "(queued_for d info p)\<lparr>work_queue1 := False, data_ready_event := Some False\<rparr>"
  have q: "fixed_queue_dequeue ?q = Some (Some p, example_queue)"
    by (simp add: fixed_queue_dequeue_def osi_sem_take_def osi_sem_new_def dequeue_locked_def list_front_def list_is_empty_def
        list_remove_def unlink_def list_free_node_def osi_sem_give_def example_queue_def empty_heap_def fun_eq_iff)
  have "sink_reach D (?s, Some 1, [p])"
    by (rule reach_task [OF queued_reach [OF assms(1,2)], of True True False])
       (simp add: decoder_task_def data_ready_begin_def queued_for_def configured_for_def example_on_def sink_zero_def
          fixed_queue_length_def list_length_def)
  then have "sink_reach D (?s\<lparr>RxSbcQ := Some example_queue, acts := [DecInit d True, DecConfigure d info, DecHeader d p,
        DecPacket d p (btc_a2dp_sink_decode_buf_size (A2DP_SinkCodecIndex info)), Freed p]\<rparr>, Some 0, [p])"
    by (rule reach_task [of _ _ _ _ True True False])
       (use assms(3) in \<open>simp add: decoder_task_def data_ready_round_def queued_for_def q configured_for_def example_on_def sink_zero_def
          btc_a2dp_sink_handle_inc_media_def act_def\<close>)
  moreover have "decoder ?s = Some d" by (simp add: queued_for_def configured_for_def)
  ultimately show ?thesis by fastforce
qed

definition example_ready :: "nat a2dp_sink_local_param_t" where
  "example_ready = configured_for a2dp_decoder_interface_sbc example_info"

definition example_queued :: "nat a2dp_sink_local_param_t" where
  "example_queued = queued_for a2dp_decoder_interface_sbc example_info 7"

lemma example_ready_reach: "sink_reach example_decoders (example_ready, None, [])"
  unfolding example_ready_def by (rule configured_reach [OF example_info_sbc(1)]) (simp add: example_decoders_def)

lemma example_queued_reach: "sink_reach example_decoders (example_queued, None, [7])"
  unfolding example_queued_def by (rule queued_reach [OF example_info_sbc(1)]) (simp add: example_decoders_def)

lemma example_decoded_reach:
  "\<exists>s as. sink_reach example_decoders (s, Some 0, [7 :: nat]) \<and>
    acts s = as @ DecPacket a2dp_decoder_interface_sbc 7 1024 # [Freed 7]"
proof -
  have "btc_a2dp_sink_decode_buf_size (A2DP_SinkCodecIndex example_info) = 1024"
    by (simp add: example_info_sbc btc_a2dp_sink_decode_buf_size_def)
  with packet_reach [OF example_info_sbc(1), of example_decoders "7 :: nat"] show ?thesis
    by (fastforce simp: example_decoders_def)
qed

lemma example_holds: "rxq_holds (RxSbcQ example_queued) [7]"
proof -
  have "unat (fixed_queue_length (RxSbcQ example_queued)) = 1"
    by (simp add: example_queued_def queued_for_def fixed_queue_length_def list_length_def)
  moreover obtain ds where ds: "rxq_holds (RxSbcQ example_queued) ds" "mset [7] = mset (freed (acts example_queued)) + mset ds"
    using sink_reach_ok [OF example_queued_reach] by (auto simp: system_ok_def sink_ok_def)
  moreover have "freed (acts example_queued) = []" by (simp add: example_queued_def queued_for_def configured_for_def)
  ultimately show ?thesis by (metis (no_types) add_0 mset.simps(1) mset_single_iff_right)
qed


theorem sink_decoder_protocol_witness:
  "\<exists>(as :: nat sink_act list) i. dec_run None as = Some (Some (a2dp_decoder_interface_sbc, Some i)) \<and>
    index_decoder i = Some a2dp_decoder_interface_sbc \<and> 1024 = btc_a2dp_sink_decode_buf_size i"
proof -
  obtain s as where "sink_reach example_decoders (s, Some 0, [7])"
    "acts s = as @ DecPacket a2dp_decoder_interface_sbc 7 1024 # [Freed 7]" using example_decoded_reach by blast
  with sink_decoder_protocol [of example_decoders s "Some 0" "[7]"] show ?thesis by blast
qed

theorem sink_queue_empties_witness:
  "\<exists>k \<le> to_do example_queued None [7]. \<exists>run' s'. task_runs example_decoders True False k (None, example_queued) = Some (run', s') \<and>
    fixed_queue_is_empty (RxSbcQ s')"
  by (rule sink_queue_empties [OF example_queued_reach _ _ _ example_holds])
     (simp_all add: example_queued_def queued_for_def example_ready_def configured_for_def example_on_def sink_zero_def)


theorem pressure_undoes_suspend_witness:
  "\<exists>s1 s2. btc_a2dp_sink_on_suspended True example_ready = Some s1 \<and> btc_a2dp_sink_on_memory_pressure s1 = Some s2 \<and>
    rx_flush s1 \<and> \<not> rx_flush s2"
proof -
  have on: "sink_state example_ready = BTC_A2DP_SINK_STATE_ON" "decoder_ready example_ready"
    by (simp_all add: example_ready_def configured_for_def example_on_def sink_zero_def)
  let ?s1 = "example_ready\<lparr>rx_flush := True\<rparr>" and ?s2 = "example_ready"
  have e: "btc_a2dp_sink_on_suspended True example_ready = Some ?s1" "btc_a2dp_sink_on_memory_pressure ?s1 = Some ?s2"
    by (simp_all add: btc_a2dp_sink_on_suspended_def btc_a2dp_sink_rx_flush_req_def btc_a2dp_sink_on_memory_pressure_def
        btc_a2dp_sink_flush_q_def flush_loop.simps fixed_queue_is_empty_def list_is_empty_def example_queue_def
        example_ready_def configured_for_def example_on_def sink_zero_def)
  from pressure_undoes_suspend [OF on e] e show ?thesis by blast
qed


end
