(* ===== verification/Sink_Decoder.thy ===== *)
theory Sink_Decoder
  imports A2dp_Sink Media_Packet
begin

text \<open>
  A decoder in the sink. The theory \<open>A2dp_Sink\<close> says in which order the decoder task calls the functions
  of a decoder; here is what follows from it for the wrapper of a decoder that keeps an invariant when
  its functions are called in that order. Its clients are the wrappers of Opus and LC3plus.
\<close>

subsection \<open>What the sink does to one decoder\<close>

fun concerns :: "tA2DP_DECODER_INTERFACE \<Rightarrow> 'p sink_act \<Rightarrow> bool" where
  "concerns d (Freed p) = False"
| "concerns d (DecInit d' ok) = (d' = d)"
| "concerns d (DecCleanup d') = (d' = d)"
| "concerns d (DecReset d') = (d' = d)"
| "concerns d (DecConfigure d' info) = (d' = d)"
| "concerns d (DecHeader d' p) = (d' = d)"
| "concerns d (DecPacket d' p len) = (d' = d)"

text \<open>\<open>None\<close> when a call is not defined, as that of a function through a NULL pointer.\<close>

primrec run_acts :: "('p sink_act \<Rightarrow> 'w \<Rightarrow> 'w option) \<Rightarrow> 'p sink_act list \<Rightarrow> 'w \<Rightarrow> 'w option" where
  "run_acts f [] w = Some w"
| "run_acts f (a # as) w = do { w \<leftarrow> f a w; run_acts f as w }"

lemma run_acts_append: "run_acts f (as @ bs) w = do { w \<leftarrow> run_acts f as w; run_acts f bs w }"
  by (induction as arbitrary: w) (auto split: bind_split)

definition runs_decoder ::
    "tA2DP_DECODER_INTERFACE \<Rightarrow> ('p sink_act \<Rightarrow> 'w \<Rightarrow> 'w option) \<Rightarrow> 'p a2dp_sink_local_param_t \<Rightarrow> 'w \<Rightarrow> 'w option" where
  "runs_decoder d f s w = run_acts f (filter (concerns d) (acts s)) w"

subsection \<open>The contract\<close>

text \<open>
  \<open>call\<close> is a call of a function of the wrapper; \<open>idle\<close> is its invariant when it is not the decoder of the
  sink, \<open>working\<close> when it is. The last argument of \<open>DecPacket\<close> is the size of the scratch buffer.
\<close>

locale sink_decoder =
  fixes iface :: tA2DP_DECODER_INTERFACE and call :: "'p sink_act \<Rightarrow> 'w \<Rightarrow> 'w option"
    and idle :: "'w \<Rightarrow> bool" and working :: "'w \<Rightarrow> bool"
  assumes init: "idle w \<Longrightarrow> \<exists>w'. call (DecInit iface ok) w = Some w' \<and> (if ok then working w' else idle w')"
    and cleanup: "working w \<Longrightarrow> \<exists>w'. call (DecCleanup iface) w = Some w' \<and> idle w'"
    and reset: "\<lbrakk>working w; has_decoder_reset iface\<rbrakk> \<Longrightarrow> \<exists>w'. call (DecReset iface) w = Some w' \<and> working w'"
    and configure: "\<lbrakk>working w; A2DP_GetDecoderInterface info = Some iface\<rbrakk> \<Longrightarrow>
      \<exists>w'. call (DecConfigure iface info) w = Some w' \<and> working w'"
    and header: "working w \<Longrightarrow> \<exists>w'. call (DecHeader iface p) w = Some w' \<and> working w'"
    and packet: "\<lbrakk>working w; index_decoder i = Some iface\<rbrakk> \<Longrightarrow>
      \<exists>w'. call (DecPacket iface p (btc_a2dp_sink_decode_buf_size i)) w = Some w' \<and> working w'"
begin

definition invariant :: "dec_state \<Rightarrow> 'w \<Rightarrow> bool" where
  "invariant st w = (if map_option fst st = Some iface then working w else idle w)"

lemma step_keeps:
  assumes "dec_step st a = Some st'" "invariant st w" "concerns iface a"
  shows "\<exists>w'. call a w = Some w' \<and> invariant st' w'"
proof (cases a)
  case (DecInit d ok)
  with assms have "d = iface" "st = None" "st' = (if ok then Some (d, None) else None)" "idle w"
    by (auto simp: invariant_def split: if_splits)
  then show ?thesis using init [of w ok] DecInit by (auto simp: invariant_def)
next
  case (DecCleanup d)
  with assms have "d = iface" "st' = None" "working w"
    by (auto simp: invariant_def split: if_splits elim!: dec_step.elims)
  then show ?thesis using cleanup [of w] DecCleanup by (auto simp: invariant_def)
next
  case (DecReset d)
  with assms have "d = iface" "map_option fst st' = Some iface" "working w" "has_decoder_reset iface"
    by (auto simp: invariant_def split: if_splits elim!: dec_step.elims)
  then show ?thesis using reset [of w] DecReset by (auto simp: invariant_def)
next
  case (DecConfigure d info)
  with assms have "d = iface" "map_option fst st' = Some iface" "working w" "A2DP_GetDecoderInterface info = Some iface"
    by (auto simp: invariant_def split: if_splits elim!: dec_step.elims)
  then show ?thesis using configure [of w info] DecConfigure by (auto simp: invariant_def)
next
  case (DecHeader d p)
  with assms have "d = iface" "map_option fst st' = Some iface" "working w"
    by (auto simp: invariant_def split: if_splits elim!: dec_step.elims)
  then show ?thesis using header [of w p] DecHeader by (auto simp: invariant_def)
next
  case (DecPacket d p len)
  with assms have "d = iface" "map_option fst st' = Some iface" "working w"
    "\<exists>i. index_decoder i = Some iface \<and> len = btc_a2dp_sink_decode_buf_size i"
    by (auto simp: invariant_def split: if_splits elim!: dec_step.elims)
  then show ?thesis using packet [of w _ p] DecPacket by (auto simp: invariant_def)
qed (use assms(3) in simp)

text \<open>What is done to another decoder leaves this one out: it is idle then, before and after.\<close>

lemma step_other:
  assumes "dec_step st a = Some st'" "\<not> concerns iface a"
  shows "invariant st' = invariant st"
proof -
  have "(map_option fst st' = Some iface) = (map_option fst st = Some iface)"
    using assms by (auto split: if_splits elim!: dec_step.elims)
  then show ?thesis by (simp add: invariant_def fun_eq_iff)
qed

lemma run_keeps:
  assumes "dec_run st as = Some st'" "invariant st w"
  shows "\<exists>w'. run_acts call (filter (concerns iface) as) w = Some w' \<and> invariant st' w'"
  using assms
proof (induction as arbitrary: st w)
  case (Cons a as)
  from Cons.prems(1) obtain st1 where a: "dec_step st a = Some st1" "dec_run st1 as = Some st'"
    by (auto split: bind_splits)
  show ?case
  proof (cases "concerns iface a")
    case True
    with step_keeps [OF a(1) Cons.prems(2)] obtain w1 where "call a w = Some w1" "invariant st1 w1" by blast
    with Cons.IH [OF a(2)] True show ?thesis by simp
  next
    case False
    with Cons.IH [OF a(2), of w] Cons.prems(2) step_other [OF a(1)] show ?thesis by simp
  qed
qed simp

text \<open>
  In every state of the system the calls that the sink has made are defined, and the invariant holds.
\<close>

theorem reach:
  assumes "sink_reach D (s, run, ps)" "idle w"
  shows "\<exists>w'. runs_decoder iface call s w = Some w' \<and> (if decoder s = Some iface then working w' else idle w')"
proof -
  obtain st where st: "dec_run None (acts s) = Some st" "map_option fst st = decoder s"
    using sink_reach_ok [OF assms(1)] by (auto simp: system_ok_def sink_ok_def dec_ok_def)
  have "invariant None w" using assms(2) by (simp add: invariant_def)
  from run_keeps [OF st(1) this] st(2) show ?thesis by (simp add: runs_decoder_def invariant_def)
qed

end

end
