(* ===== verification/Opus_Decoder.thy ===== *)
theory Opus_Decoder
  imports A2DP_Opus Sink_Decoder
begin

text \<open>
  stack/a2dp/a2dp_vendor_opus_decoder.c, the wrapper of the Opus decoder for the sink. The decoder of the
  library is a parameter; what the wrapper relies on is written as \<open>opus_contract\<close>.
\<close>

subsection \<open>The library\<close>

text \<open>
  \<open>op_create n c\<close>: \<open>opus_decoder_create\<close> for 48000 Hz and \<open>c\<close> channels, after \<open>n\<close> decoders were created,
  with \<open>*error\<close> and the decoder. \<open>op_decode\<close>: \<open>opus_decode\<close> with the octets or NULL and \<open>frame_size\<close>; the
  result, the octets that it writes to \<open>pcm\<close>, and the decoder behind it. \<open>op_channels\<close>: what the decoder
  was created for.
\<close>

record 'd opus_lib =
  op_create :: "nat \<Rightarrow> nat \<Rightarrow> int \<times> 'd option"
  op_decode :: "'d \<Rightarrow> u8 list option \<Rightarrow> nat \<Rightarrow> int \<times> u8 list \<times> 'd"
  op_channels :: "'d \<Rightarrow> nat"

abbreviation (input) OPUS_OK :: int where "OPUS_OK \<equiv> 0"

text \<open>How many decoders were created and destroyed so far.\<close>

record opus_ledger =
  created :: nat
  destroyed :: nat

definition opus_decoder_create ::
    "'d opus_lib \<Rightarrow> nat \<Rightarrow> opus_ledger \<Rightarrow> int \<times> 'd option \<times> opus_ledger" where
  "opus_decoder_create L channels l =
     (case op_create L (created l) channels of
        (error, dec) \<Rightarrow> (error, dec, if dec = None then l else l\<lparr>created := created l + 1\<rparr>))"

definition opus_decoder_destroy :: "opus_ledger \<Rightarrow> opus_ledger" where
  "opus_decoder_destroy l = l\<lparr>destroyed := destroyed l + 1\<rparr>"

text \<open>
  The documented behaviour (opus.h): creating fails with an error code, or gives a decoder for that many
  channels; decoding gives the number of samples in each channel, at most \<open>frame_size\<close>, and writes those, or an
  error code, and writes no more than \<open>frame_size\<close> samples in each channel.
\<close>

definition decode_answer :: "nat \<Rightarrow> nat \<Rightarrow> int \<Rightarrow> nat \<Rightarrow> bool" where
  "decode_answer channels frame_size res written =
     (res \<le> int frame_size \<and> written \<le> 2 * channels * frame_size \<and>
      (res < 0 \<or> written = 2 * channels * nat res))"

definition opus_contract :: "'d opus_lib \<Rightarrow> bool" where
  "opus_contract L =
     ((\<forall>n c. case op_create L n c of (error, dec) \<Rightarrow>
         (error = OPUS_OK) = (dec \<noteq> None) \<and> pred_option (\<lambda>d. op_channels L d = c) dec) \<and>
      (\<forall>d data n. case op_decode L d data n of (res, out, d') \<Rightarrow>
         op_channels L d' = op_channels L d \<and> decode_answer (op_channels L d) n res (length out)))"

subsection \<open>The control block\<close>

abbreviation (input) OPUS_A2DP_CHANNEL_MAX :: u8 where "OPUS_A2DP_CHANNEL_MAX \<equiv> 2"
abbreviation (input) OPUS_A2DP_FRAGMENT_BUF_SIZE :: nat where "OPUS_A2DP_FRAGMENT_BUF_SIZE \<equiv> 6 * 1024"
abbreviation (input) OPUS_A2DP_MAX_FRAME_SAMPLES :: nat where "OPUS_A2DP_MAX_FRAME_SAMPLES \<equiv> 1920"
abbreviation (input) OPUS_A2DP_MAX_PCM_BYTES :: nat where "OPUS_A2DP_MAX_PCM_BYTES \<equiv> 1920 * 2 * 2"

abbreviation (input) A2DP_OPUS_CHANNEL_MODE_MONO :: u8 where "A2DP_OPUS_CHANNEL_MODE_MONO \<equiv> 0x01"
abbreviation (input) A2DP_OPUS_10MS_FRAMESIZE :: u8 where "A2DP_OPUS_10MS_FRAMESIZE \<equiv> 0x08"
abbreviation (input) A2DP_OPUS_FRAME_DURATION_2_5 :: u8 where "A2DP_OPUS_FRAME_DURATION_2_5 \<equiv> 0x01"
abbreviation (input) A2DP_OPUS_FRAME_DURATION_5_0 :: u8 where "A2DP_OPUS_FRAME_DURATION_5_0 \<equiv> 0x02"

record 'd tA2DP_OPUS_DECODER_CB =
  op_decoder :: "'d option"
  op_fragment_size :: nat
  op_fragment_count :: nat
  op_fragment :: buf
  op_cb_channels :: u8
  op_callback :: bool

definition opus_cb_zero :: "'d tA2DP_OPUS_DECODER_CB" where
  "opus_cb_zero = \<lparr>op_decoder = None, op_fragment_size = 0, op_fragment_count = 0, op_fragment = (\<lambda>_. 0),
     op_cb_channels = 0, op_callback = False\<rparr>"

definition opus_cie_channel_count :: "tA2DP_OPUS_CIE \<Rightarrow> u8" where
  "opus_cie_channel_count ie =
     (if opus_variant ie = A2DP_OPUS_VARIANT_ANDROID
      then if opus_channelMode ie = A2DP_OPUS_CHANNEL_MODE_MONO then 1
           else if opus_channelMode ie = A2DP_OPUS_CHANNEL_MODE_STEREO then 2
           else 0
      else opus_channels ie)"

definition opus_cie_is_supported :: "tA2DP_OPUS_CIE \<Rightarrow> bool" where
  "opus_cie_is_supported ie =
     (let channels = opus_cie_channel_count ie
      in if channels < 1 \<or> channels > OPUS_A2DP_CHANNEL_MAX then False
         else if opus_variant ie = A2DP_OPUS_VARIANT_ANDROID \<and>
                 opus_samplingFreq ie \<noteq> A2DP_OPUS_SAMPLING_FREQ_48000 then False
         else if opus_variant ie = A2DP_OPUS_VARIANT_ANDROID
         then opus_frameSize ie = A2DP_OPUS_10MS_FRAMESIZE \<or> opus_frameSize ie = A2DP_OPUS_20MS_FRAMESIZE
         else if opus_channels ie = 1 \<and> opus_coupled_streams ie \<noteq> 0 then False
         else if opus_channels ie = 2 \<and> opus_coupled_streams ie \<noteq> 1 then False
         else opus_frame_duration ie = A2DP_OPUS_FRAME_DURATION_2_5 \<or>
              opus_frame_duration ie = A2DP_OPUS_FRAME_DURATION_5_0 \<or>
              opus_frame_duration ie = A2DP_OPUS_FRAME_DURATION_10 \<or>
              opus_frame_duration ie = A2DP_OPUS_FRAME_DURATION_20 \<or>
              opus_frame_duration ie = A2DP_OPUS_FRAME_DURATION_40)"

text \<open>\<open>mem\<close>: the allocation succeeds. A control block that is there is cleared.\<close>

definition a2dp_opus_decoder_init ::
    "bool \<Rightarrow> bool \<Rightarrow> 'd tA2DP_OPUS_DECODER_CB option \<Rightarrow> bool \<times> 'd tA2DP_OPUS_DECODER_CB option" where
  "a2dp_opus_decoder_init mem decode_callback s_opus_cb =
     (if s_opus_cb = None \<and> \<not> mem then (False, None)
      else (True, Some (opus_cb_zero\<lparr>op_callback := decode_callback\<rparr>)))"

definition a2dp_opus_decoder_cleanup ::
    "'d tA2DP_OPUS_DECODER_CB option \<times> opus_ledger \<Rightarrow> 'd tA2DP_OPUS_DECODER_CB option \<times> opus_ledger" where
  "a2dp_opus_decoder_cleanup x =
     (case x of
        (None, l) \<Rightarrow> (None, l)
      | (Some cb, l) \<Rightarrow> (None, if op_decoder cb \<noteq> None then opus_decoder_destroy l else l))"

definition opus_forget ::
    "'d tA2DP_OPUS_DECODER_CB \<times> opus_ledger \<Rightarrow> 'd tA2DP_OPUS_DECODER_CB \<times> opus_ledger" where
  "opus_forget x =
     (case x of (cb, l) \<Rightarrow>
        (cb\<lparr>op_decoder := None, op_cb_channels := 0, op_fragment_size := 0, op_fragment_count := 0\<rparr>,
         if op_decoder cb \<noteq> None then opus_decoder_destroy l else l))"

definition a2dp_opus_decoder_configure ::
    "'d opus_lib \<Rightarrow> buf \<Rightarrow> 'd tA2DP_OPUS_DECODER_CB option \<times> opus_ledger \<Rightarrow>
      'd tA2DP_OPUS_DECODER_CB option \<times> opus_ledger" where
  "a2dp_opus_decoder_configure L p_codec_info x =
     (case x of
        (None, l) \<Rightarrow> (None, l)
      | (Some cb, l) \<Rightarrow>
          let (cb, l) = opus_forget (cb, l)
          in (case A2DP_ParseInfoOpus (Some opus_cie_zero) (Some p_codec_info) False of
                (status, None) \<Rightarrow> (Some cb, l)
              | (status, Some ie) \<Rightarrow>
                  if status \<noteq> A2D_SUCCESS then (Some cb, l)
                  else if \<not> opus_cie_is_supported ie then (Some cb, l)
                  else
                    let channels = opus_cie_channel_count ie;
                        (error, dec, l) = opus_decoder_create L (unat channels) l
                    in if error \<noteq> OPUS_OK \<or> dec = None then (Some cb, l)
                       else (Some (cb\<lparr>op_decoder := dec, op_cb_channels := channels\<rparr>), l)))"

subsection \<open>A packet\<close>

definition a2dp_opus_decoder_decode_packet_header ::
    "bt_hdr \<Rightarrow> 'd tA2DP_OPUS_DECODER_CB option \<Rightarrow> int \<times> bt_hdr \<times> 'd tA2DP_OPUS_DECODER_CB option" where
  "a2dp_opus_decoder_decode_packet_header p_buf s_opus_cb =
     (let header_len = MEDIA_PACKET_HEADER + MEDIA_PAYLOAD_HEADER
      in if unat (bh_len p_buf) < header_len then (- EINVAL, p_buf, s_opus_cb)
         else case s_opus_cb of
           None \<Rightarrow> (- EINVAL, p_buf, None)
         | Some cb \<Rightarrow>
             let payload = frag p_buf
             in if is_fragmented payload
                then if \<not> is_first_fragment payload \<and>
                        (frame_count payload + 1 \<noteq> op_fragment_count cb \<or>
                         frame_count payload = 1 \<and> \<not> is_last_fragment payload)
                     then (- EINVAL, p_buf, Some (cb\<lparr>op_fragment_count := 0, op_fragment_size := 0\<rparr>))
                     else
                       let cb = (if is_first_fragment payload then cb\<lparr>op_fragment_size := 0\<rparr> else cb)
                       in (0, skip_octets header_len p_buf, Some (cb\<lparr>op_fragment_count := frame_count payload\<rparr>))
                else if frame_count payload \<noteq> 1 then (- EINVAL, p_buf, Some cb)
                else (0, skip_octets header_len p_buf, Some (cb\<lparr>op_fragment_count := 0, op_fragment_size := 0\<rparr>)))"

text \<open>The part of \<open>a2dp_opus_decoder_decode_packet\<close> that joins fragments.\<close>

definition opus_gather :: "bt_hdr \<Rightarrow> 'd tA2DP_OPUS_DECODER_CB \<Rightarrow> gathered \<times> 'd tA2DP_OPUS_DECODER_CB" where
  "opus_gather p_buf cb =
     (if op_fragment_count cb > 0
      then if unat (bh_len p_buf) > OPUS_A2DP_FRAGMENT_BUF_SIZE - op_fragment_size cb
           then (Refused, cb\<lparr>op_fragment_count := 0, op_fragment_size := 0\<rparr>)
           else
             let cb = cb\<lparr>op_fragment := store (op_fragment cb) (op_fragment_size cb) (pkt_octets p_buf),
                         op_fragment_size := op_fragment_size cb + unat (bh_len p_buf)\<rparr>
             in if op_fragment_count cb > 1 then (More, cb)
                else (Source (map (op_fragment cb) [0..<op_fragment_size cb]),
                      cb\<lparr>op_fragment_count := 0, op_fragment_size := 0\<rparr>)
      else (Source (pkt_octets p_buf), cb))"

text \<open>
  Its part behind that: the packet is decoded, or concealed when that fails. \<open>buf\<close> has \<open>buf_len\<close> octets.
  The result has the answer, the control block, the buffer and what was handed to the callback.
\<close>

definition opus_samples :: "nat \<Rightarrow> 'd tA2DP_OPUS_DECODER_CB \<Rightarrow> nat" where
  "opus_samples buf_len cb =
     (let dst_samples = buf_len div (2 * unat (op_cb_channels cb))
      in if dst_samples > OPUS_A2DP_MAX_FRAME_SAMPLES then OPUS_A2DP_MAX_FRAME_SAMPLES else dst_samples)"

definition opus_decode_or_conceal ::
    "'d opus_lib \<Rightarrow> 'd \<Rightarrow> u8 list \<Rightarrow> buf \<Rightarrow> nat \<Rightarrow> int \<times> buf \<times> 'd" where
  "opus_decode_or_conceal L dec src buf dst_samples =
     (let (res, out, dec) = op_decode L dec (Some src) dst_samples;
          buf = store buf 0 out
      in if res < OPUS_OK
         then let (res, out, dec) = op_decode L dec None dst_samples in (res, store buf 0 out, dec)
         else (res, buf, dec))"

definition opus_decoded ::
    "'d opus_lib \<Rightarrow> nat \<Rightarrow> u8 list \<Rightarrow> 'd tA2DP_OPUS_DECODER_CB \<Rightarrow> 'd \<Rightarrow> buf \<Rightarrow>
      bool \<times> 'd tA2DP_OPUS_DECODER_CB \<times> buf \<times> u8 list list" where
  "opus_decoded L buf_len src cb dec buf =
     (let (res, buf, dec) = opus_decode_or_conceal L dec src buf (opus_samples buf_len cb);
          cb = cb\<lparr>op_decoder := Some dec\<rparr>
      in if res < OPUS_OK then (False, cb, buf, [])
         else
           let out_bytes = nat res * unat (op_cb_channels cb) * 2
           in (True, cb, buf, if op_callback cb \<and> out_bytes \<le> buf_len then [map buf [0..<out_bytes]] else []))"

text \<open>\<open>buf_len\<close> is \<open>None\<close> when \<open>buf\<close> is NULL.\<close>

definition a2dp_opus_decoder_decode_packet ::
    "'d opus_lib \<Rightarrow> bt_hdr \<Rightarrow> buf \<Rightarrow> nat option \<Rightarrow> 'd tA2DP_OPUS_DECODER_CB option \<Rightarrow>
      bool \<times> 'd tA2DP_OPUS_DECODER_CB option \<times> buf \<times> u8 list list" where
  "a2dp_opus_decoder_decode_packet L p_buf buf buf_len s_opus_cb =
     (case (s_opus_cb, buf_len) of
        (Some cb, Some n) \<Rightarrow>
          if n = 0 then (False, Some cb, buf, [])
          else (case op_decoder cb of
            None \<Rightarrow> (False, Some cb, buf, [])
          | Some dec \<Rightarrow>
              if op_cb_channels cb < 1 \<or> op_cb_channels cb > OPUS_A2DP_CHANNEL_MAX then (False, Some cb, buf, [])
              else if n < OPUS_A2DP_MAX_PCM_BYTES then (False, Some cb, buf, [])
              else (case opus_gather p_buf cb of
                (Refused, cb) \<Rightarrow> (False, Some cb, buf, [])
              | (More, cb) \<Rightarrow> (True, Some cb, buf, [])
              | (Source src, cb) \<Rightarrow>
                  let (ok, cb, buf, pcm) = opus_decoded L n src cb dec buf in (ok, Some cb, buf, pcm)))
      | _ \<Rightarrow> (False, s_opus_cb, buf, []))"

subsection \<open>Fragments\<close>

text \<open>What becomes of a packet when the decoder is configured, up to the decoding.\<close>

definition opus_receive :: "bt_hdr \<Rightarrow> 'd tA2DP_OPUS_DECODER_CB \<Rightarrow> gathered \<times> 'd tA2DP_OPUS_DECODER_CB" where
  "opus_receive p cb =
     (case a2dp_opus_decoder_decode_packet_header p (Some cb) of
        (res, p, None) \<Rightarrow> (Refused, cb)
      | (res, p, Some cb) \<Rightarrow> if res < 0 then (Refused, cb) else opus_gather p cb)"

definition opus_held :: "'d tA2DP_OPUS_DECODER_CB \<Rightarrow> u8 list" where
  "opus_held cb = map (op_fragment cb) [0..<op_fragment_size cb]"

definition opus_fits :: "'d tA2DP_OPUS_DECODER_CB \<Rightarrow> bool" where
  "opus_fits cb = (op_fragment_size cb \<le> OPUS_A2DP_FRAGMENT_BUF_SIZE)"

lemma opus_receive_eq:
  assumes "full_header p" "opus_fits cb"
  shows "opus_receive p cb =
    (let size = (if is_first_fragment (frag p) then 0 else op_fragment_size cb); j = joined (opus_held cb) p
     in if \<not> is_fragmented (frag p)
        then if frame_count (frag p) \<noteq> 1 then (Refused, cb)
             else (Source (body p), cb\<lparr>op_fragment_count := 0, op_fragment_size := 0\<rparr>)
        else if \<not> accepts (op_fragment_count cb) p then (Refused, cb\<lparr>op_fragment_count := 0, op_fragment_size := 0\<rparr>)
        else if frame_count (frag p) = 0 then (Source (body p), cb\<lparr>op_fragment_count := 0, op_fragment_size := size\<rparr>)
        else if length j > OPUS_A2DP_FRAGMENT_BUF_SIZE then (Refused, cb\<lparr>op_fragment_count := 0, op_fragment_size := 0\<rparr>)
        else if frame_count (frag p) > 1
        then (More, cb\<lparr>op_fragment := store (op_fragment cb) size (body p), op_fragment_size := length j,
                      op_fragment_count := frame_count (frag p)\<rparr>)
        else (Source j, cb\<lparr>op_fragment := store (op_fragment cb) size (body p), op_fragment_size := 0,
                           op_fragment_count := 0\<rparr>))"
proof -
  have len: "13 \<le> unat (bh_len p)" using assms(1) by (simp add: full_header_def)
  have b: "pkt_octets (skip_octets 13 p) = body p" by (rule pkt_octets_body [OF assms(1)])
  then have l: "unat (bh_len (skip_octets 13 p)) = length (body p)" by (metis length_pkt_octets)
  have h: "a2dp_opus_decoder_decode_packet_header p (Some cb) =
    (if is_fragmented (frag p)
     then if \<not> accepts (op_fragment_count cb) p
          then (- EINVAL, p, Some (cb\<lparr>op_fragment_count := 0, op_fragment_size := 0\<rparr>))
          else (0, skip_octets 13 p,
            Some (cb\<lparr>op_fragment_size := (if is_first_fragment (frag p) then 0 else op_fragment_size cb),
                     op_fragment_count := frame_count (frag p)\<rparr>))
     else if frame_count (frag p) \<noteq> 1 then (- EINVAL, p, Some cb)
     else (0, skip_octets 13 p, Some (cb\<lparr>op_fragment_count := 0, op_fragment_size := 0\<rparr>)))"
    using len by (auto simp: a2dp_opus_decoder_decode_packet_header_def accepts_def Let_def)
  have j: "length (joined (opus_held cb) p) =
      (if is_first_fragment (frag p) then 0 else op_fragment_size cb) + length (body p)"
    by (simp add: joined_def opus_held_def)
  have m: "map (store (op_fragment cb) (if is_first_fragment (frag p) then 0 else op_fragment_size cb) (body p))
      [0..<length (joined (opus_held cb) p)] = joined (opus_held cb) p"
    unfolding j map_store by (simp add: joined_def opus_held_def)
  consider (single) "\<not> is_fragmented (frag p)"
    | (refuse) "is_fragmented (frag p)" "\<not> accepts (op_fragment_count cb) p"
    | (zero) "is_fragmented (frag p)" "accepts (op_fragment_count cb) p" "frame_count (frag p) = 0"
    | (long) "is_fragmented (frag p)" "accepts (op_fragment_count cb) p" "frame_count (frag p) \<noteq> 0"
        "6144 < length (joined (opus_held cb) p)"
    | (join) "is_fragmented (frag p)" "accepts (op_fragment_count cb) p" "frame_count (frag p) \<noteq> 0"
        "\<not> 6144 < length (joined (opus_held cb) p)" by blast
  then show ?thesis
  proof cases
    case single
    then show ?thesis by (simp add: opus_receive_def h opus_gather_def b)
  next
    case refuse
    then show ?thesis by (simp add: opus_receive_def h)
  next
    case zero
    then show ?thesis by (simp add: opus_receive_def h opus_gather_def b)
  next
    case long
    then show ?thesis using assms(2) j
      by (auto simp: opus_receive_def h opus_gather_def b l opus_fits_def Let_def split: if_splits)
  next
    case join
    then show ?thesis using assms(2) j m
      by (auto simp: opus_receive_def h opus_gather_def b l opus_fits_def Let_def split: if_splits)
  qed
qed

lemma opus_header_fits:
  assumes "a2dp_opus_decoder_decode_packet_header p x = (res, q, y)"
  shows "(x = None) = (y = None)"
    "\<lbrakk>x = Some cb; y = Some cb'\<rbrakk> \<Longrightarrow> (opus_fits cb \<longrightarrow> opus_fits cb') \<and> op_decoder cb' = op_decoder cb \<and>
      op_cb_channels cb' = op_cb_channels cb \<and> op_callback cb' = op_callback cb"
  using assms
  by (auto simp: a2dp_opus_decoder_decode_packet_header_def opus_fits_def Let_def split: if_splits option.splits)

lemma opus_gather_fits:
  assumes "opus_gather p cb = (g, cb')"
  shows "(opus_fits cb \<longrightarrow> opus_fits cb') \<and> op_decoder cb' = op_decoder cb \<and>
    op_cb_channels cb' = op_cb_channels cb \<and> op_callback cb' = op_callback cb"
  using assms by (auto simp: opus_gather_def opus_fits_def Let_def split: if_splits)

lemma opus_receive_fits:
  "opus_fits cb \<Longrightarrow> opus_fits (snd (opus_receive p cb))"
  "op_decoder (snd (opus_receive p cb)) = op_decoder cb"
  "op_cb_channels (snd (opus_receive p cb)) = op_cb_channels cb"
  "op_callback (snd (opus_receive p cb)) = op_callback cb"
proof -
  obtain res q y where h: "a2dp_opus_decoder_decode_packet_header p (Some cb) = (res, q, y)" by (metis prod_cases3)
  then obtain cb1 where y: "y = Some cb1" using opus_header_fits(1) [OF h] by auto
  obtain g cb2 where g: "opus_gather q cb1 = (g, cb2)" by force
  note f = opus_header_fits(2) [OF h refl y] opus_gather_fits [OF g]
  show "opus_fits cb \<Longrightarrow> opus_fits (snd (opus_receive p cb))"
    "op_decoder (snd (opus_receive p cb)) = op_decoder cb"
    "op_cb_channels (snd (opus_receive p cb)) = op_cb_channels cb"
    "op_callback (snd (opus_receive p cb)) = op_callback cb"
    using f by (auto simp: opus_receive_def h y g)
qed

lemma opus_held_simps [simp]:
  "opus_held (cb\<lparr>op_fragment_count := n\<rparr>) = opus_held cb"
  "opus_held (cb\<lparr>op_fragment_size := 0\<rparr>) = []"
  by (simp_all add: opus_held_def)

lemma opus_held_store:
  "opus_held (cb\<lparr>op_fragment := store (op_fragment cb) (if is_first_fragment (frag p) then 0 else op_fragment_size cb) (body p),
     op_fragment_size := length (joined (opus_held cb) p), op_fragment_count := n\<rparr>) = joined (opus_held cb) p"
  using map_store [of "op_fragment cb" "if is_first_fragment (frag p) then 0 else op_fragment_size cb" "body p"]
  by (auto simp: opus_held_def joined_def split: if_splits)

text \<open>
  A control block that is ready to decode, with a buffer that is large enough. An unfragmented packet that
  does not hold one frame is refused and leaves the fragments alone, so the decoder is not a strict one.
\<close>

definition opus_ready :: "'d \<Rightarrow> nat \<Rightarrow> 'd tA2DP_OPUS_DECODER_CB \<Rightarrow> bool" where
  "opus_ready dec n cb =
     (op_decoder cb = Some dec \<and> op_cb_channels cb \<in> {1, 2} \<and> opus_fits cb \<and> OPUS_A2DP_MAX_PCM_BYTES \<le> n)"

definition opus_packet ::
    "'d opus_lib \<Rightarrow> nat \<Rightarrow> bt_hdr \<Rightarrow> 'd tA2DP_OPUS_DECODER_CB option \<times> buf \<Rightarrow>
      (u8 list list \<times> 'd tA2DP_OPUS_DECODER_CB option \<times> buf) option" where
  "opus_packet L n p_msg x =
     (case x of (cb, buf) \<Rightarrow>
        (case a2dp_opus_decoder_decode_packet_header p_msg cb of (res, p_msg, cb) \<Rightarrow>
           if res < 0 then Some ([], cb, buf)
           else case a2dp_opus_decoder_decode_packet L p_msg buf (Some n) cb of
             (ok, cb, buf, pcm) \<Rightarrow> Some (pcm, cb, buf)))"

lemma opus_packet_eq:
  assumes "opus_ready dec n cb"
  shows "opus_packet L n p (Some cb, buf) =
    (case opus_receive p cb of
       (Source src, cb) \<Rightarrow> (case opus_decoded L n src cb dec buf of (ok, cb, buf, pcm) \<Rightarrow> Some (pcm, Some cb, buf))
     | (_, cb) \<Rightarrow> Some ([], Some cb, buf))"
proof -
  obtain res q y where h: "a2dp_opus_decoder_decode_packet_header p (Some cb) = (res, q, y)" by (metis prod_cases3)
  then obtain cb1 where y: "y = Some cb1" using opus_header_fits(1) [OF h] by auto
  have c: "op_decoder cb1 = Some dec" "\<not> op_cb_channels cb1 < 1" "\<not> 2 < op_cb_channels cb1" "\<not> n < 7680" "n \<noteq> 0"
    using opus_header_fits(2) [OF h refl y] assms by (auto simp: opus_ready_def)
  obtain g cb2 where g: "opus_gather q cb1 = (g, cb2)" by force
  show ?thesis
    using c by (cases g) (auto simp: opus_packet_def opus_receive_def h y g a2dp_opus_decoder_decode_packet_def
        case_prod_unfold Let_def)
qed

definition opus_shown :: "'d tA2DP_OPUS_DECODER_CB option \<times> buf \<Rightarrow> 'd option \<times> buf" where
  "opus_shown x = (Option.bind (fst x) op_decoder, snd x)"

interpretation opus_run: packet_decoder opus_receive "opus_ready dec n" op_fragment_count opus_held
  OPUS_A2DP_FRAGMENT_BUF_SIZE "\<lambda>cb buf. (Some cb, buf)" "opus_packet L n"
  "\<lambda>src cb buf. case opus_decoded L n src cb dec buf of (ok, cb, buf, pcm) \<Rightarrow> Some (pcm, Some cb, buf)" opus_shown
  for dec n L
proof (unfold_locales, goal_cases)
  case (1 s p)
  then show ?case by (simp add: opus_ready_def opus_receive_fits)
next
  case (2 s p)
  then show ?case using opus_held_store [where p = p and cb = s]
    by (auto simp: opus_receive_eq opus_ready_def Let_def accepts_def)
next
  case (3 s p)
  then show ?case by (simp add: opus_receive_eq opus_ready_def)
next
  case (4 s p x)
  then show ?case by (auto simp: opus_receive_eq opus_ready_def Let_def split: if_splits)
next
  case (5 s p)
  then show ?case using opus_held_store [where p = p and cb = s]
    by (auto simp: opus_receive_eq opus_ready_def Let_def split: if_splits)
next
  case (6 s p m)
  then show ?case by (rule opus_packet_eq)
next
  case (7 s src p m)
  have "opus_samples n (snd (opus_receive p s)) = opus_samples n s" by (simp add: opus_samples_def opus_receive_fits)
  then show ?case
    by (simp add: view_of_def opus_shown_def opus_decoded_def opus_receive_fits case_prod_unfold Let_def)
qed

subsection \<open>The wrapper in the sink\<close>

text \<open>
  The module with its control block and the library, the packet that is on its way through the two
  functions, the scratch buffer, and what was handed to the callback. The table of the wrapper has NULL
  for \<open>decoder_reset\<close>; the sink passes its callback to the initialisation.
\<close>

record 'd opus_world =
  ow_cb :: "'d tA2DP_OPUS_DECODER_CB option"
  ow_ledger :: opus_ledger
  ow_packet :: bt_hdr
  ow_buf :: buf
  ow_pcm :: "u8 list list"

definition opus_start :: "buf \<Rightarrow> 'd opus_world" where
  "opus_start buf = \<lparr>ow_cb = None, ow_ledger = \<lparr>created = 0, destroyed = 0\<rparr>, ow_packet = packet_of [],
     ow_buf = buf, ow_pcm = []\<rparr>"

fun opus_call :: "'d opus_lib \<Rightarrow> bt_hdr sink_act \<Rightarrow> 'd opus_world \<Rightarrow> 'd opus_world option" where
  "opus_call L (DecInit d ok) w = Some (w\<lparr>ow_cb := snd (a2dp_opus_decoder_init ok True (ow_cb w))\<rparr>)"
| "opus_call L (DecCleanup d) w =
     (let (cb, l) = a2dp_opus_decoder_cleanup (ow_cb w, ow_ledger w) in Some (w\<lparr>ow_cb := cb, ow_ledger := l\<rparr>))"
| "opus_call L (DecReset d) w = None"
| "opus_call L (DecConfigure d info) w =
     (let (cb, l) = a2dp_opus_decoder_configure L info (ow_cb w, ow_ledger w) in Some (w\<lparr>ow_cb := cb, ow_ledger := l\<rparr>))"
| "opus_call L (DecHeader d p) w =
     (let (res, q, cb) = a2dp_opus_decoder_decode_packet_header p (ow_cb w) in Some (w\<lparr>ow_cb := cb, ow_packet := q\<rparr>))"
| "opus_call L (DecPacket d p n) w =
     (let (ok, cb, buf, pcm) = a2dp_opus_decoder_decode_packet L (ow_packet w) (ow_buf w) (Some n) (ow_cb w)
      in Some (w\<lparr>ow_cb := cb, ow_buf := buf, ow_pcm := ow_pcm w @ pcm\<rparr>))"
| "opus_call L (Freed p) w = Some w"

text \<open>
  The invariant: a decoder for the one or two channels of the control block, the only one that there is;
  and blocks that fit, with nothing written behind them.
\<close>

definition pcm_kept :: "buf \<Rightarrow> buf \<Rightarrow> u8 list list \<Rightarrow> bool" where
  "pcm_kept buf0 buf pcm =
     (list_all (\<lambda>b. length b \<le> OPUS_A2DP_MAX_PCM_BYTES \<and> even (length b)) pcm \<and>
      (\<forall>i. buf (OPUS_A2DP_MAX_PCM_BYTES + i) = buf0 (OPUS_A2DP_MAX_PCM_BYTES + i)))"

definition opus_has :: "'d opus_lib \<Rightarrow> 'd tA2DP_OPUS_DECODER_CB \<Rightarrow> opus_ledger \<Rightarrow> bool" where
  "opus_has L cb l =
     (opus_fits cb \<and> op_callback cb \<and>
      (case op_decoder cb of
         None \<Rightarrow> created l = destroyed l
       | Some d \<Rightarrow> created l = destroyed l + 1 \<and> op_cb_channels cb \<in> {1, 2} \<and> op_channels L d = unat (op_cb_channels cb)))"

definition opus_working :: "'d opus_lib \<Rightarrow> buf \<Rightarrow> 'd opus_world \<Rightarrow> bool" where
  "opus_working L buf w =
     (pcm_kept buf (ow_buf w) (ow_pcm w) \<and> (\<exists>cb. ow_cb w = Some cb \<and> opus_has L cb (ow_ledger w)))"

definition opus_idle :: "buf \<Rightarrow> 'd opus_world \<Rightarrow> bool" where
  "opus_idle buf w =
     (pcm_kept buf (ow_buf w) (ow_pcm w) \<and> ow_cb w = None \<and> created (ow_ledger w) = destroyed (ow_ledger w))"

lemma supported_channels: "opus_cie_is_supported ie \<Longrightarrow> opus_cie_channel_count ie \<in> {1, 2}"
proof -
  assume "opus_cie_is_supported ie"
  then have "\<not> opus_cie_channel_count ie < 1" "\<not> 2 < opus_cie_channel_count ie"
    by (auto simp: opus_cie_is_supported_def Let_def split: if_splits)
  then have "unat (opus_cie_channel_count ie) \<noteq> 0" "unat (opus_cie_channel_count ie) \<le> 2"
    by (simp_all add: word_less_nat_alt)
  then have "unat (opus_cie_channel_count ie) = unat (1 :: u8) \<or> unat (opus_cie_channel_count ie) = unat (2 :: u8)" by auto
  then show ?thesis by (simp add: word_unat_eq_iff)
qed

lemma contract_create:
  "\<lbrakk>opus_contract L; op_create L n c = (error, dec)\<rbrakk> \<Longrightarrow> (error = OPUS_OK) = (dec \<noteq> None) \<and> pred_option (\<lambda>d. op_channels L d = c) dec"
  unfolding opus_contract_def by (metis (mono_tags, lifting) case_prodD)

lemma contract_decode:
  "\<lbrakk>opus_contract L; op_decode L d data n = (res, out, d')\<rbrakk> \<Longrightarrow>
    op_channels L d' = op_channels L d \<and> decode_answer (op_channels L d) n res (length out)"
  unfolding opus_contract_def by (metis (mono_tags, lifting) case_prodD)

lemma opus_has_same:
  "\<lbrakk>opus_has L cb l; opus_fits cb' \<and> op_decoder cb' = op_decoder cb \<and> op_cb_channels cb' = op_cb_channels cb \<and> op_callback cb' = op_callback cb\<rbrakk> \<Longrightarrow>
    opus_has L cb' l"
  by (cases "op_decoder cb") (simp_all add: opus_has_def)

lemma opus_forget_has:
  assumes "opus_has L cb l" "opus_forget (cb, l) = (cb', l')"
  shows "opus_fits cb'" "op_callback cb'" "op_decoder cb' = None" "created l' = destroyed l'"
  using assms by (auto simp: opus_has_def opus_forget_def opus_fits_def opus_decoder_destroy_def split: option.splits)

lemma opus_configure_has:
  assumes "opus_contract L" "opus_has L cb l"
  shows "\<exists>cb' l'. a2dp_opus_decoder_configure L info (Some cb, l) = (Some cb', l') \<and> opus_has L cb' l'"
proof -
  obtain cb1 l1 where f: "opus_forget (cb, l) = (cb1, l1)" by force
  note k = opus_forget_has [OF assms(2) f]
  have h1: "opus_has L cb1 l1" using k by (simp add: opus_has_def)
  obtain status y where p: "A2DP_ParseInfoOpus (Some opus_cie_zero) (Some info) False = (status, y)" by force
  show ?thesis
  proof (cases y)
    case (Some ie)
    obtain error dec where c: "op_create L (created l1) (unat (opus_cie_channel_count ie)) = (error, dec)" by force
    have e: "(error = OPUS_OK) = (dec \<noteq> None)" "dec = Some d \<Longrightarrow> op_channels L d = unat (opus_cie_channel_count ie)" for d
      using contract_create [OF assms(1) c] by auto
    show ?thesis
    proof (cases "status = A2D_SUCCESS \<and> opus_cie_is_supported ie \<and> dec \<noteq> None")
      case True
      then obtain d where d: "dec = Some d" by auto
      then show ?thesis using True k e supported_channels [of ie]
        by (simp add: a2dp_opus_decoder_configure_def f p Some opus_decoder_create_def c [unfolded k(4)] opus_has_def opus_fits_def
            Let_def)
    next
      case False
      then show ?thesis using h1 e
        by (auto simp: a2dp_opus_decoder_configure_def f p Some opus_decoder_create_def c Let_def)
    qed
  qed (simp add: a2dp_opus_decoder_configure_def f p h1)
qed

lemma decode_or_conceal_ok:
  assumes "opus_contract L" "opus_decode_or_conceal L d src buf n = (res, buf', d')"
  shows "op_channels L d' = op_channels L d" "res \<le> int n"
    "buf' (2 * op_channels L d * n + i) = buf (2 * op_channels L d * n + i)"
proof -
  have c: "op_channels L e' = op_channels L e" "r \<le> int n" "length out \<le> 2 * op_channels L e * n"
    if "op_decode L e x n = (r, out, e')" for e x r out e'
    using contract_decode [OF assms(1) that] by (auto simp: decode_answer_def)
  obtain r1 out1 d1 where a: "op_decode L d (Some src) n = (r1, out1, d1)" by (metis prod_cases3)
  obtain r2 out2 d2 where b: "op_decode L d1 None n = (r2, out2, d2)" by (metis prod_cases3)
  note k = c [OF a] c [OF b]
  show "op_channels L d' = op_channels L d" "res \<le> int n"
    "buf' (2 * op_channels L d * n + i) = buf (2 * op_channels L d * n + i)"
    using assms(2) k by (auto simp: opus_decode_or_conceal_def a b store_apply Let_def split: if_splits)
qed

lemma opus_decoded_has:
  assumes "opus_contract L" "opus_has L cb l" "op_decoder cb = Some d" "opus_decoded L n src cb d buf = (ok, cb', buf', pcm)"
  shows "opus_has L cb' l" "pcm_kept buf buf' pcm"
proof -
  obtain res b d' where c: "opus_decode_or_conceal L d src buf (opus_samples n cb) = (res, b, d')" by (metis prod_cases3)
  note k = decode_or_conceal_ok [OF assms(1) c]
  have ch: "op_cb_channels cb = 1 \<or> op_cb_channels cb = 2" "op_channels L d = unat (op_cb_channels cb)"
    using assms(2,3) by (auto simp: opus_has_def)
  have s: "opus_samples n cb \<le> 1920" by (simp add: opus_samples_def Let_def)
  show "opus_has L cb' l"
    using assms k(1) by (auto simp: opus_decoded_def c opus_has_def opus_fits_def Let_def split: if_splits)
  have bound: "2 * op_channels L d * opus_samples n cb \<le> 7680" using ch s by auto
  have tail: "b (7680 + i) = buf (7680 + i)" for i
    using k(3) [of "7680 - 2 * op_channels L d * opus_samples n cb + i"] bound by simp
  have r: "nat res \<le> 1920" using k(2) s by linarith
  have size: "nat res * unat (op_cb_channels cb) * 2 \<le> 7680" using r ch(1) by auto
  have "buf' = b" using assms(4) by (auto simp: opus_decoded_def c Let_def split: if_splits)
  moreover have "list_all (\<lambda>b. length b \<le> 7680 \<and> even (length b)) pcm"
    using assms(4) size by (auto simp: opus_decoded_def c Let_def split: if_splits)
  ultimately show "pcm_kept buf buf' pcm" using tail by (simp add: pcm_kept_def)
qed

lemma pcm_kept_trans: "\<lbrakk>pcm_kept buf0 buf1 pcm; pcm_kept buf1 buf2 pcm'\<rbrakk> \<Longrightarrow> pcm_kept buf0 buf2 (pcm @ pcm')"
  by (simp add: pcm_kept_def)

lemma opus_packet_has:
  assumes "opus_contract L" "opus_has L cb l" "a2dp_opus_decoder_decode_packet L q buf n (Some cb) = (ok, x, buf', pcm)"
  shows "\<exists>cb'. x = Some cb' \<and> opus_has L cb' l \<and> pcm_kept buf buf' pcm"
proof -
  obtain g cb1 where g: "opus_gather q cb = (g, cb1)" by force
  note f = opus_gather_fits [OF g]
  have h1: "opus_has L cb1 l" using opus_has_same [OF assms(2), of cb1] f assms(2) by (simp add: opus_has_def)
  show ?thesis
  proof (cases "\<exists>d src m. op_decoder cb = Some d \<and> g = Source src \<and> n = Some m \<and> m \<ge> 7680 \<and>
      \<not> op_cb_channels cb < 1 \<and> \<not> op_cb_channels cb > 2")
    case True
    then obtain d src m where d: "op_decoder cb = Some d" "g = Source src" "n = Some m" "m \<ge> 7680"
      "\<not> op_cb_channels cb < 1" "\<not> op_cb_channels cb > 2" by blast
    obtain ok' cb2 b2 p2 where r: "opus_decoded L m src cb1 d buf = (ok', cb2, b2, p2)" by (metis prod_cases4)
    have "op_decoder cb1 = Some d" using f d(1) by simp
    from opus_decoded_has [OF assms(1) h1 this r] have "opus_has L cb2 l" "pcm_kept buf b2 p2" .
    then show ?thesis using assms(3) d r by (auto simp: a2dp_opus_decoder_decode_packet_def g)
  next
    case False
    then have e: "(x = Some cb \<or> x = Some cb1) \<and> buf' = buf \<and> pcm = []"
      using assms(3) by (auto simp: a2dp_opus_decoder_decode_packet_def g split: option.splits if_splits gathered.splits)
    then have "pcm_kept buf buf' pcm" by (simp add: pcm_kept_def)
    then show ?thesis using e assms(2) h1 by blast
  qed
qed

text \<open>The contract of the library is part of the invariant: it is what the steps rely on.\<close>

interpretation opus_sink: sink_decoder a2dp_decoder_interface_opus "opus_call L"
  "\<lambda>w. opus_contract L \<and> opus_idle buf w" "\<lambda>w. opus_contract L \<and> opus_working L buf w" for L buf
proof (unfold_locales, goal_cases)
  case (1 w ok)
  then show ?case
    by (auto simp: opus_idle_def opus_working_def a2dp_opus_decoder_init_def opus_has_def opus_cb_zero_def opus_fits_def)
next
  case (2 w)
  then show ?case
    by (auto simp: opus_idle_def opus_working_def a2dp_opus_decoder_cleanup_def opus_has_def opus_decoder_destroy_def
        split: option.splits)
next
  case (3 w)
  then show ?case by (simp add: has_decoder_reset_def)
next
  case (4 w info)
  then obtain cb where cb: "ow_cb w = Some cb" "opus_has L cb (ow_ledger w)" by (auto simp: opus_working_def)
  from opus_configure_has [OF _ cb(2), of info] 4 show ?case by (auto simp: opus_working_def cb(1))
next
  case (5 w p)
  then obtain cb where cb: "ow_cb w = Some cb" "opus_has L cb (ow_ledger w)" by (auto simp: opus_working_def)
  obtain res q y where h: "a2dp_opus_decoder_decode_packet_header p (Some cb) = (res, q, y)" by (metis prod_cases3)
  then obtain cb1 where y: "y = Some cb1" using opus_header_fits(1) [OF h] by auto
  have "opus_has L cb1 (ow_ledger w)" using opus_has_same [OF cb(2), of cb1] opus_header_fits(2) [OF h refl y] cb(2) by (simp add: opus_has_def)
  then show ?case using 5 by (simp add: opus_working_def cb(1) h y)
next
  case (6 w i p)
  then obtain cb where cb: "ow_cb w = Some cb" "opus_has L cb (ow_ledger w)" by (auto simp: opus_working_def)
  obtain ok x b pcm where r: "a2dp_opus_decoder_decode_packet L (ow_packet w) (ow_buf w)
      (Some (btc_a2dp_sink_decode_buf_size i)) (Some cb) = (ok, x, b, pcm)" by (metis prod_cases4)
  from opus_packet_has [OF _ cb(2) r] 6 obtain cb1 where "x = Some cb1" "opus_has L cb1 (ow_ledger w)"
    "pcm_kept (ow_buf w) b pcm" by blast
  then show ?case using 6 pcm_kept_trans by (auto simp: opus_working_def cb(1) r)
qed

lemma size_opus: "btc_a2dp_sink_decode_buf_size BTAV_A2DP_CODEC_INDEX_SINK_OPUS = 8000"
  "btc_a2dp_sink_decode_buf_size BTAV_A2DP_CODEC_INDEX_SINK_OPUS_ANDROID = 8000"
  by (simp_all add: btc_a2dp_sink_decode_buf_size_def)

subsection \<open>Examples\<close>

text \<open>A library that gives one sample of silence, and a configuration of Android for stereo at 20 ms.\<close>

definition example_opus_lib :: "nat opus_lib" where
  "example_opus_lib = \<lparr>op_create = (\<lambda>n c. (0, Some c)), op_decode = (\<lambda>d data n. (min 1 (int n), replicate (2 * d * min 1 n) 0, d)),
     op_channels = id\<rparr>"

lemma example_opus_contract: "opus_contract example_opus_lib"
  by (auto simp: opus_contract_def example_opus_lib_def decode_answer_def min_def)

definition example_opus_info :: buf where
  "example_opus_info = bytes [9, 0, 0xFF, 0xE0, 0, 0, 0, 1, 0, 0x92]"

definition example_opus_cb :: "nat tA2DP_OPUS_DECODER_CB" where
  "example_opus_cb = opus_cb_zero\<lparr>op_decoder := Some 2, op_cb_channels := 2, op_callback := True\<rparr>"

lemma example_opus_ready: "opus_ready 2 8000 example_opus_cb"
  by (simp add: opus_ready_def example_opus_cb_def opus_cb_zero_def opus_fits_def)

lemma example_opus_valid: "A2DP_IsVendorPeerSinkCodecValidOpus example_opus_info"
  by (simp add: A2DP_IsVendorPeerSinkCodecValidOpus_def A2DP_ParseInfoOpus_def example_opus_info_def bytes_def Let_def
      rd32le_def rd16le_def a2dp_opus_is_android_def A2D_BitsSet_def)

lemma example_opus_vendor:
  "A2DP_GetCodecType example_opus_info = A2D_MEDIA_CT_NON_A2DP"
  "vendor_codec (A2DP_VendorCodecGetVendorId example_opus_info) (A2DP_VendorCodecGetCodecId example_opus_info) = Some V_OPUS"
  by (simp_all add: vendor_ids example_opus_info_def bytes_def vendor_codec_def rd32le_def rd16le_def
      A2DP_VendorCodecIsOpus_def a2dp_opus_is_android_def)

lemma example_opus_interface:
  "A2DP_GetDecoderInterface example_opus_info = Some a2dp_decoder_interface_opus"
  "A2DP_SinkCodecIndex example_opus_info \<in> {BTAV_A2DP_CODEC_INDEX_SINK_OPUS, BTAV_A2DP_CODEC_INDEX_SINK_OPUS_ANDROID}"
  using opus_index_valid [OF example_opus_valid]
  by (simp_all add: codec_dispatch vendor_dispatch example_opus_vendor decoder_interfaces example_opus_valid sink_indexes)

text \<open>
  C5 (safety). The Opus decoder in the sink. Whatever the tasks do, from the start of the system on, with
  a library that keeps to its documentation: no call goes through a NULL pointer; there is a decoder of
  the library for the configured control block and none besides, in particular no more when another
  codec is in use, so that none is lost; and every block that was handed over has at most 7680 octets,
  which is less than the scratch buffer has, and nothing was written behind them.
\<close>

theorem sink_opus_safe:
  assumes "sink_reach D (s, run, ps)" "opus_contract L"
  shows "\<exists>w. runs_decoder a2dp_decoder_interface_opus (opus_call L) s (opus_start buf) = Some w \<and>
    created (ow_ledger w) = destroyed (ow_ledger w) + (if Option.bind (ow_cb w) op_decoder = None then 0 else 1) \<and>
    (decoder s = Some a2dp_decoder_interface_opus \<or> ow_cb w = None) \<and>
    list_all (\<lambda>b. length b \<le> OPUS_A2DP_MAX_PCM_BYTES \<and> even (length b)) (ow_pcm w) \<and>
    OPUS_A2DP_MAX_PCM_BYTES \<le> btc_a2dp_sink_decode_buf_size BTAV_A2DP_CODEC_INDEX_SINK_OPUS \<and>
    ow_buf w (OPUS_A2DP_MAX_PCM_BYTES + i) = buf (OPUS_A2DP_MAX_PCM_BYTES + i)"
proof -
  have "opus_contract L \<and> opus_idle buf (opus_start buf)"
    using assms(2) by (simp add: opus_idle_def opus_start_def pcm_kept_def)
  from opus_sink.reach [OF assms(1) this] obtain w where
    w: "runs_decoder a2dp_decoder_interface_opus (opus_call L) s (opus_start buf) = Some w"
      "if decoder s = Some a2dp_decoder_interface_opus then opus_working L buf w else opus_idle buf w"
    by (auto split: if_splits)
  have k: "pcm_kept buf (ow_buf w) (ow_pcm w)" using w(2) by (auto simp: opus_working_def opus_idle_def split: if_splits)
  have "created (ow_ledger w) = destroyed (ow_ledger w) + (if Option.bind (ow_cb w) op_decoder = None then 0 else 1)"
    using w(2) by (auto simp: opus_working_def opus_idle_def opus_has_def split: if_splits option.splits)
  moreover have "decoder s = Some a2dp_decoder_interface_opus \<or> ow_cb w = None"
    using w(2) by (auto simp: opus_idle_def split: if_splits)
  ultimately show ?thesis using w(1) k by (simp add: pcm_kept_def size_opus)
qed

text \<open>
  C24 (roundtrip). Fragmentation is transparent for Opus: when the octets of a frame, at most the 6144 of the
  fragment buffer, are cut into pieces, each with the fragment header that belongs to it, then the samples
  that are handed over, the decoder and the buffer are those of the frame in one packet, which are what
  the library gives for the octets.
\<close>

theorem opus_fragments_transparent:
  assumes "opus_ready dec n cb" "fragments True xs ps" "xs \<noteq> []" "length (concat xs) \<le> OPUS_A2DP_FRAGMENT_BUF_SIZE"
    "full_header p" "\<not> is_fragmented (frag p)" "frame_count (frag p) = 1" "body p = concat xs"
  shows "view_of opus_shown (packets_of (opus_packet L n) ps (Some cb, buf)) =
      (case opus_decoded L n (concat xs) cb dec buf of (ok, cb', buf', pcm) \<Rightarrow> Some (pcm, op_decoder cb', buf')) \<and>
    view_of opus_shown (packets_of (opus_packet L n) [p] (Some cb, buf)) =
      view_of opus_shown (packets_of (opus_packet L n) ps (Some cb, buf))"
proof -
  note t = opus_run.transparent [OF assms(2,3,1,4-8), of L buf]
  show ?thesis
    unfolding t [THEN conjunct1] t [THEN conjunct2] by (simp add: view_of_def opus_shown_def case_prod_unfold)
qed

definition example_opus_decoders :: "bt_hdr decoders" where
  "example_opus_decoders = \<lparr>init_answer = \<lambda>_. True, header_answer = \<lambda>_. 0\<rparr>"

lemma sink_opus_safe_witness:
  "\<exists>s w. DecPacket a2dp_decoder_interface_opus (media_example [0x01, 7]) 8000 \<in> set (acts s) \<and>
    runs_decoder a2dp_decoder_interface_opus (opus_call example_opus_lib) s (opus_start (\<lambda>_. 0)) = Some w \<and>
    created (ow_ledger w) = destroyed (ow_ledger w) + (if Option.bind (ow_cb w) op_decoder = None then 0 else 1)"
proof -
  have size: "btc_a2dp_sink_decode_buf_size (A2DP_SinkCodecIndex example_opus_info) = 8000"
    using example_opus_interface(2) size_opus by auto
  obtain s where s: "sink_reach example_opus_decoders (s, Some 0, [media_example [0x01, 7]])"
    "DecPacket a2dp_decoder_interface_opus (media_example [0x01, 7]) 8000 \<in> set (acts s)"
    using packet_reach [OF example_opus_interface(1), of example_opus_decoders "media_example [0x01, 7]"]
    by (auto simp: example_opus_decoders_def size)
  from sink_opus_safe [OF s(1) example_opus_contract, of "\<lambda>_. 0" 0] s(2) show ?thesis by blast
qed

lemma opus_fragments_transparent_witness:
  "view_of opus_shown (packets_of (opus_packet example_opus_lib 8000)
      [media_example [0xC2, 1, 2], media_example [0xA1, 3]] (Some example_opus_cb, \<lambda>_. 9)) = Some ([[0, 0, 0, 0]], Some 2, (\<lambda>i. if i < 4 then 0 else 9))"
proof -
  have n: "opus_samples 8000 example_opus_cb = 1920" by (simp add: opus_samples_def example_opus_cb_def)
  have m: "store (\<lambda>_. 9) 0 (replicate 4 0) = (\<lambda>i. if i < 4 then 0 else 9)" by (simp add: store_apply fun_eq_iff)
  have c: "opus_decode_or_conceal example_opus_lib 2 [1, 2, 3] (\<lambda>_. 9) 1920 = (1, (\<lambda>i. if i < 4 then 0 else 9), 2)"
    by (simp add: opus_decode_or_conceal_def example_opus_lib_def m)
  have d: "opus_decoded example_opus_lib 8000 [1, 2, 3] example_opus_cb 2 (\<lambda>_. 9) =
      (True, example_opus_cb, (\<lambda>i. if i < 4 then 0 else 9), [[0, 0, 0, 0]])"
    unfolding opus_decoded_def n c by (simp add: example_opus_cb_def) code_simp
  show ?thesis
    using opus_fragments_transparent [OF example_opus_ready, of "[[1, 2], [3]]"
        "[media_example [0xC2, 1, 2], media_example [0xA1, 3]]" "media_example [0x01, 1, 2, 3]" example_opus_lib "\<lambda>_. 9"]
    by (simp add: example_packet example_headers d) (simp add: example_opus_cb_def)
qed

end
