(* ===== verification/Lc3_Decoder.thy ===== *)
theory Lc3_Decoder
  imports C_Prelude
begin

text \<open>
  The decoder of external/liblc3 as the wrapper of the A2DP sink uses it (lc3.c, lc3_private.h, tables.h):
  the parameters of a frame, the layout of the decoder in its memory, the checks of a frame, and the samples
  of 24 bits. What is computed with floats is a parameter. The build has LC3_PLUS and LC3_PLUS_HR.
\<close>

subsection \<open>Frames\<close>

datatype lc3_dt = LC3_DT_2M5 | LC3_DT_5M | LC3_DT_7M5 | LC3_DT_10M | LC3_NUM_DT

datatype lc3_srate =
  LC3_SRATE_8K | LC3_SRATE_16K | LC3_SRATE_24K | LC3_SRATE_32K | LC3_SRATE_48K | LC3_SRATE_48K_HR
| LC3_SRATE_96K_HR | LC3_NUM_SRATE

primrec dt_index :: "lc3_dt \<Rightarrow> nat" where
  "dt_index LC3_DT_2M5 = 0"
| "dt_index LC3_DT_5M = 1"
| "dt_index LC3_DT_7M5 = 2"
| "dt_index LC3_DT_10M = 3"
| "dt_index LC3_NUM_DT = 4"

primrec srate_index :: "lc3_srate \<Rightarrow> nat" where
  "srate_index LC3_SRATE_8K = 0"
| "srate_index LC3_SRATE_16K = 1"
| "srate_index LC3_SRATE_24K = 2"
| "srate_index LC3_SRATE_32K = 3"
| "srate_index LC3_SRATE_48K = 4"
| "srate_index LC3_SRATE_48K_HR = 5"
| "srate_index LC3_SRATE_96K_HR = 6"
| "srate_index LC3_NUM_SRATE = 7"

definition resolve_dt :: "nat \<Rightarrow> bool \<Rightarrow> lc3_dt" where
  "resolve_dt us hrmode =
     (if us = 2500 then LC3_DT_2M5
      else if us = 5000 then LC3_DT_5M
      else if \<not> hrmode \<and> us = 7500 then LC3_DT_7M5
      else if us = 10000 then LC3_DT_10M
      else LC3_NUM_DT)"

definition resolve_srate :: "nat \<Rightarrow> bool \<Rightarrow> lc3_srate" where
  "resolve_srate hz hrmode =
     (if \<not> hrmode \<and> hz = 8000 then LC3_SRATE_8K
      else if \<not> hrmode \<and> hz = 16000 then LC3_SRATE_16K
      else if \<not> hrmode \<and> hz = 24000 then LC3_SRATE_24K
      else if \<not> hrmode \<and> hz = 32000 then LC3_SRATE_32K
      else if \<not> hrmode \<and> hz = 48000 then LC3_SRATE_48K
      else if hrmode \<and> hz = 48000 then LC3_SRATE_48K_HR
      else if hrmode \<and> hz = 96000 then LC3_SRATE_96K_HR
      else LC3_NUM_SRATE)"

text \<open>The macros of lc3_private.h, with times in us and rates in Hz.\<close>

definition LC3_NS :: "nat \<Rightarrow> nat \<Rightarrow> nat" where
  "LC3_NS dt_us sr_hz = dt_us * sr_hz div 1000 div 1000"

definition LC3_ND :: "nat \<Rightarrow> nat \<Rightarrow> nat" where
  "LC3_ND dt_us sr_hz = LC3_NS dt_us sr_hz div 2 + LC3_NS (if dt_us = 7500 then 2000 else 1250) sr_hz"

definition LC3_NH :: "nat \<Rightarrow> nat \<Rightarrow> nat" where
  "LC3_NH dt_us sr_hz =
     (if sr_hz > 48000 then 0
      else LC3_NS 18000 sr_hz + LC3_NS dt_us sr_hz - LC3_NS 18000 sr_hz mod LC3_NS dt_us sr_hz)"

definition LC3_DECODER_BUFFER_COUNT :: "nat \<Rightarrow> nat \<Rightarrow> nat" where
  "LC3_DECODER_BUFFER_COUNT dt_us sr_hz =
     LC3_NH dt_us sr_hz + LC3_NS dt_us sr_hz + LC3_ND dt_us sr_hz + LC3_NS dt_us sr_hz"

text \<open>The tables and the functions of tables.h and tables.c.\<close>

definition lc3_ns_2m5 :: "nat list" where
  "lc3_ns_2m5 = map (LC3_NS 2500) [8000, 16000, 24000, 32000, 48000, 48000, 96000]"

definition lc3_ne_2m5 :: "nat list" where
  "lc3_ne_2m5 = map (LC3_NS 2500) [8000, 16000, 24000, 32000, 40000, 48000, 96000]"

definition lc3_ns_4m :: "nat list" where
  "lc3_ns_4m = map (LC3_NS 4000) [8000, 16000, 24000, 32000, 48000, 48000, 96000]"

definition lc3_ns :: "lc3_dt \<Rightarrow> lc3_srate \<Rightarrow> nat" where
  "lc3_ns dt sr = lc3_ns_2m5 ! srate_index sr * (1 + dt_index dt)"

definition lc3_ne :: "lc3_dt \<Rightarrow> lc3_srate \<Rightarrow> nat" where
  "lc3_ne dt sr = lc3_ne_2m5 ! srate_index sr * (1 + dt_index dt)"

definition lc3_nd :: "lc3_dt \<Rightarrow> lc3_srate \<Rightarrow> nat" where
  "lc3_nd dt sr =
     (lc3_ns dt sr + (if dt = LC3_DT_7M5 then lc3_ns_4m ! srate_index sr else lc3_ns_2m5 ! srate_index sr)) div 2"

definition lc3_nh :: "lc3_dt \<Rightarrow> lc3_srate \<Rightarrow> nat" where
  "lc3_nh dt sr =
     (if srate_index sr > srate_index LC3_SRATE_48K_HR then 0
      else (8 + (if dt = LC3_DT_7M5 then 1 else 0)) * lc3_ns_2m5 ! srate_index sr)"

definition lc3_hr :: "lc3_srate \<Rightarrow> bool" where
  "lc3_hr sr = (srate_index sr \<ge> srate_index LC3_SRATE_48K_HR)"

abbreviation (input) LC3_MIN_FRAME_BYTES :: nat where "LC3_MIN_FRAME_BYTES \<equiv> 20"
abbreviation (input) LC3_MAX_FRAME_BYTES :: nat where "LC3_MAX_FRAME_BYTES \<equiv> 400"

text \<open>The smallest and the largest frame in high resolution, for 48 and 96 kHz. The row of 7.5 ms is not set.\<close>

definition lc3_frame_bytes_hr_lim :: "(nat \<times> nat) list list" where
  "lc3_frame_bytes_hr_lim =
     [[(54 div 2, 210), (62 div 2, 210)], [(93 div 2, 375), (109 div 2, 375)], [(0, 0), (0, 0)],
      [(156 div 2, 625), (187 div 2, 625)]]"

definition lc3_max_frame_bytes :: "lc3_dt \<Rightarrow> lc3_srate \<Rightarrow> nat" where
  "lc3_max_frame_bytes dt sr =
     (if \<not> lc3_hr sr then LC3_MAX_FRAME_BYTES
      else snd (lc3_frame_bytes_hr_lim ! dt_index dt ! (srate_index sr - srate_index LC3_SRATE_48K_HR)))"

definition lc3_hr_frame_samples :: "bool \<Rightarrow> nat \<Rightarrow> nat \<Rightarrow> int" where
  "lc3_hr_frame_samples hrmode dt_us sr_hz =
     (let dt = resolve_dt dt_us hrmode; sr = resolve_srate sr_hz hrmode
      in if dt = LC3_NUM_DT \<or> sr = LC3_NUM_SRATE then - 1 else int (lc3_ns dt sr))"

subsection \<open>The decoder\<close>

text \<open>
  \<open>struct lc3_decoder\<close>: the buffer \<open>x\<close> and the states of the long term postfilter and of the concealment
  are in \<open>de_float\<close>; the offsets are into \<open>x\<close>.
\<close>

record 'f lc3_decoder =
  de_dt :: lc3_dt
  de_sr :: lc3_srate
  de_sr_pcm :: lc3_srate
  xh_off :: nat
  xs_off :: nat
  xd_off :: nat
  xg_off :: nat
  de_float :: 'f

text \<open>
  What is computed with floats: the state with all of \<open>x\<close> cleared; the side data of a frame and the
  spectrum, or an error; the synthesis, from side data or as concealment; and the element of \<open>x\<close> at an index, scaled and
  rounded to an integer of 24 bits and more.
\<close>

record ('f, 's) lc3_float =
  l3_reset :: 'f
  l3_decode :: "'f lc3_decoder \<Rightarrow> u8 list \<Rightarrow> 'f \<times> 's option"
  l3_synthesize :: "'f lc3_decoder \<Rightarrow> 's option \<Rightarrow> nat \<Rightarrow> 'f"
  l3_s24 :: "'f \<Rightarrow> nat \<Rightarrow> int"

text \<open>The size of the struct, which has one element of \<open>x\<close>, for the 32 bit target.\<close>

abbreviation (input) sizeof_lc3_decoder :: nat where "sizeof_lc3_decoder \<equiv> 196"

definition lc3_hr_decoder_size :: "bool \<Rightarrow> nat \<Rightarrow> nat \<Rightarrow> nat" where
  "lc3_hr_decoder_size hrmode dt_us sr_hz =
     (if resolve_dt dt_us hrmode = LC3_NUM_DT \<or> resolve_srate sr_hz hrmode = LC3_NUM_SRATE then 0
      else sizeof_lc3_decoder + (LC3_DECODER_BUFFER_COUNT dt_us sr_hz - 1) * 4)"

text \<open>\<open>mem\<close>: the memory is not NULL.\<close>

definition lc3_hr_setup_decoder ::
    "('f, 's) lc3_float \<Rightarrow> bool \<Rightarrow> nat \<Rightarrow> nat \<Rightarrow> nat \<Rightarrow> bool \<Rightarrow> 'f lc3_decoder option" where
  "lc3_hr_setup_decoder F hrmode dt_us sr_hz sr_pcm_hz mem =
     (let sr_pcm_hz = (if sr_pcm_hz = 0 then sr_hz else sr_pcm_hz);
          dt = resolve_dt dt_us hrmode;
          sr = resolve_srate sr_hz hrmode;
          sr_pcm = resolve_srate sr_pcm_hz hrmode
      in if dt = LC3_NUM_DT \<or> sr_pcm = LC3_NUM_SRATE \<or> srate_index sr > srate_index sr_pcm \<or> \<not> mem then None
         else
           let nh = lc3_nh dt sr_pcm; ns = lc3_ns dt sr_pcm; nd = lc3_nd dt sr_pcm
           in Some \<lparr>de_dt = dt, de_sr = sr, de_sr_pcm = sr_pcm, xh_off = 0, xs_off = nh, xd_off = nh + ns,
                    xg_off = nh + ns + nd, de_float = l3_reset F\<rparr>)"

definition LC3_SAT24 :: "int \<Rightarrow> int" where
  "LC3_SAT24 v = min (max v (- (2 ^ 23))) (2 ^ 23 - 1)"

text \<open>The words of the output; \<open>base\<close> is where \<open>pcm\<close> points to.\<close>

definition store_s24 ::
    "('f, 's) lc3_float \<Rightarrow> 'f lc3_decoder \<Rightarrow> nat \<Rightarrow> nat \<Rightarrow> (nat \<Rightarrow> u32) \<Rightarrow> (nat \<Rightarrow> u32)" where
  "store_s24 F decoder base stride pcm =
     fold (\<lambda>i pcm. pcm(base + i * stride := push_bit 8 (word_of_int (LC3_SAT24 (l3_s24 F (de_float decoder) (xs_off decoder + i))))))
       [0..<lc3_ns (de_dt decoder) (de_sr_pcm decoder)] pcm"

definition complete :: "'f lc3_decoder \<Rightarrow> 'f lc3_decoder" where
  "complete decoder =
     (let nh = lc3_nh (de_dt decoder) (de_sr_pcm decoder); ns = lc3_ns (de_dt decoder) (de_sr_pcm decoder)
      in decoder\<lparr>xs_off := (if xs_off decoder - xh_off decoder < nh then xs_off decoder + ns else xh_off decoder)\<rparr>)"

text \<open>\<open>lc3_decode\<close> for \<open>LC3_PCM_FORMAT_S24\<close>; \<open>data\<close> is \<open>None\<close> for NULL.\<close>

definition lc3_decode ::
    "('f, 's) lc3_float \<Rightarrow> 'f lc3_decoder option \<Rightarrow> u8 list option \<Rightarrow> nat \<Rightarrow> nat \<Rightarrow> (nat \<Rightarrow> u32) \<Rightarrow>
      int \<times> 'f lc3_decoder option \<times> (nat \<Rightarrow> u32)" where
  "lc3_decode F decoder data base stride pcm =
     (case decoder of
        None \<Rightarrow> (- 1, None, pcm)
      | Some dec \<Rightarrow>
          let nbytes = (case data of None \<Rightarrow> 0 | Some xs \<Rightarrow> length xs)
          in if data \<noteq> None \<and> (nbytes < LC3_MIN_FRAME_BYTES \<or> nbytes > lc3_max_frame_bytes (de_dt dec) (de_sr dec))
             then (- 1, Some dec, pcm)
             else
               let (f, side) = (case data of None \<Rightarrow> (de_float dec, None) | Some xs \<Rightarrow> l3_decode F dec xs);
                   dec = dec\<lparr>de_float := f\<rparr>;
                   dec = dec\<lparr>de_float := l3_synthesize F dec side nbytes\<rparr>
               in (if side = None then 1 else 0, Some (complete dec), store_s24 F dec base stride pcm))"

subsection \<open>The layout\<close>

text \<open>
  The parts of \<open>x\<close>: the window of the samples runs through the history up to the delayed samples, and the
  spectrum is last.
\<close>

definition lc3_layout :: "nat \<Rightarrow> 'f lc3_decoder \<Rightarrow> bool" where
  "lc3_layout n d =
     (de_dt d \<noteq> LC3_NUM_DT \<and> de_sr_pcm d \<noteq> LC3_NUM_SRATE \<and> srate_index (de_sr d) \<le> srate_index (de_sr_pcm d) \<and>
      xh_off d = 0 \<and> xs_off d \<le> lc3_nh (de_dt d) (de_sr_pcm d) \<and> lc3_ns (de_dt d) (de_sr_pcm d) dvd xs_off d \<and>
      xd_off d = lc3_nh (de_dt d) (de_sr_pcm d) + lc3_ns (de_dt d) (de_sr_pcm d) \<and>
      xg_off d = xd_off d + lc3_nd (de_dt d) (de_sr_pcm d) \<and> xg_off d + lc3_ns (de_dt d) (de_sr_pcm d) = n)"

lemma LC3_NS_values:
  "LC3_NS 2500 8000 = 20" "LC3_NS 2500 16000 = 40" "LC3_NS 2500 24000 = 60" "LC3_NS 2500 32000 = 80"
  "LC3_NS 2500 40000 = 100" "LC3_NS 2500 48000 = 120" "LC3_NS 2500 96000 = 240" "LC3_NS 5000 8000 = 40"
  "LC3_NS 5000 16000 = 80" "LC3_NS 5000 24000 = 120" "LC3_NS 5000 32000 = 160" "LC3_NS 5000 40000 = 200"
  "LC3_NS 5000 48000 = 240" "LC3_NS 5000 96000 = 480" "LC3_NS 7500 8000 = 60" "LC3_NS 7500 16000 = 120"
  "LC3_NS 7500 24000 = 180" "LC3_NS 7500 32000 = 240" "LC3_NS 7500 40000 = 300" "LC3_NS 7500 48000 = 360"
  "LC3_NS 7500 96000 = 720" "LC3_NS 10000 8000 = 80" "LC3_NS 10000 16000 = 160" "LC3_NS 10000 24000 = 240"
  "LC3_NS 10000 32000 = 320" "LC3_NS 10000 40000 = 400" "LC3_NS 10000 48000 = 480" "LC3_NS 10000 96000 = 960"
  "LC3_NS 18000 8000 = 144" "LC3_NS 18000 16000 = 288" "LC3_NS 18000 24000 = 432" "LC3_NS 18000 32000 = 576"
  "LC3_NS 18000 40000 = 720" "LC3_NS 18000 48000 = 864" "LC3_NS 18000 96000 = 1728" "LC3_NS 2000 8000 = 16"
  "LC3_NS 2000 16000 = 32" "LC3_NS 2000 24000 = 48" "LC3_NS 2000 32000 = 64" "LC3_NS 2000 40000 = 80"
  "LC3_NS 2000 48000 = 96" "LC3_NS 2000 96000 = 192" "LC3_NS 1250 8000 = 10" "LC3_NS 1250 16000 = 20"
  "LC3_NS 1250 24000 = 30" "LC3_NS 1250 32000 = 40" "LC3_NS 1250 40000 = 50" "LC3_NS 1250 48000 = 60"
  "LC3_NS 1250 96000 = 120" "LC3_NS 4000 8000 = 32" "LC3_NS 4000 16000 = 64" "LC3_NS 4000 24000 = 96"
  "LC3_NS 4000 32000 = 128" "LC3_NS 4000 40000 = 160" "LC3_NS 4000 48000 = 192" "LC3_NS 4000 96000 = 384"
  by (simp_all add: LC3_NS_def)

lemma ns_table: "lc3_ns_2m5 = [20, 40, 60, 80, 120, 120, 240]" "lc3_ne_2m5 = [20, 40, 60, 80, 100, 120, 240]"
  "lc3_ns_4m = [32, 64, 96, 128, 192, 192, 384]"
  by (simp_all add: lc3_ns_2m5_def lc3_ne_2m5_def lc3_ns_4m_def LC3_NS_values)

lemma lc3_ns_dvd_nh: "\<lbrakk>dt \<noteq> LC3_NUM_DT; sr \<noteq> LC3_NUM_SRATE\<rbrakk> \<Longrightarrow> lc3_ns dt sr dvd lc3_nh dt sr"
  by (cases dt; cases sr) (simp_all add: lc3_ns_def lc3_nh_def ns_table)

lemma lc3_ne_le_ns:
  assumes "sr_pcm \<noteq> LC3_NUM_SRATE" "srate_index sr \<le> srate_index sr_pcm"
  shows "lc3_ne dt sr \<le> lc3_ns dt sr" "lc3_ns dt sr \<le> lc3_ns dt sr_pcm"
proof -
  have "sr \<noteq> LC3_NUM_SRATE" using assms by (cases sr_pcm) auto
  then have "lc3_ne_2m5 ! srate_index sr \<le> lc3_ns_2m5 ! srate_index sr" by (cases sr) (simp_all add: ns_table)
  then show "lc3_ne dt sr \<le> lc3_ns dt sr" unfolding lc3_ne_def lc3_ns_def by (rule mult_le_mono1)
  have "sorted lc3_ns_2m5" "srate_index sr_pcm < length lc3_ns_2m5"
    using assms(1) by (simp_all add: ns_table) (cases sr_pcm; simp)
  from sorted_nth_mono [OF this(1) assms(2) this(2)] show "lc3_ns dt sr \<le> lc3_ns dt sr_pcm"
    unfolding lc3_ns_def by (rule mult_le_mono1)
qed

text \<open>The macros and the tables agree.\<close>

primrec srate_hz :: "lc3_srate \<Rightarrow> nat" where
  "srate_hz LC3_SRATE_8K = 8000"
| "srate_hz LC3_SRATE_16K = 16000"
| "srate_hz LC3_SRATE_24K = 24000"
| "srate_hz LC3_SRATE_32K = 32000"
| "srate_hz LC3_SRATE_48K = 48000"
| "srate_hz LC3_SRATE_48K_HR = 48000"
| "srate_hz LC3_SRATE_96K_HR = 96000"
| "srate_hz LC3_NUM_SRATE = 0"

primrec dt_us_of :: "lc3_dt \<Rightarrow> nat" where
  "dt_us_of LC3_DT_2M5 = 2500"
| "dt_us_of LC3_DT_5M = 5000"
| "dt_us_of LC3_DT_7M5 = 7500"
| "dt_us_of LC3_DT_10M = 10000"
| "dt_us_of LC3_NUM_DT = 0"

lemma resolved:
  "resolve_dt us h \<noteq> LC3_NUM_DT \<Longrightarrow> dt_us_of (resolve_dt us h) = us"
  "resolve_srate hz h \<noteq> LC3_NUM_SRATE \<Longrightarrow> srate_hz (resolve_srate hz h) = hz"
  by (auto simp: resolve_dt_def resolve_srate_def split: if_splits)

lemma buffer_count_table:
  assumes "dt \<noteq> LC3_NUM_DT" "sr \<noteq> LC3_NUM_SRATE"
  shows "LC3_DECODER_BUFFER_COUNT (dt_us_of dt) (srate_hz sr) = lc3_nh dt sr + lc3_ns dt sr + lc3_nd dt sr + lc3_ns dt sr"
  using assms
  by (cases dt; cases sr)
     (simp_all add: LC3_DECODER_BUFFER_COUNT_def LC3_NH_def LC3_ND_def LC3_NS_values lc3_nh_def lc3_ns_def lc3_nd_def ns_table)

lemma buffer_count:
  assumes "dt = resolve_dt dt_us hrmode" "sr = resolve_srate sr_hz hrmode" "dt \<noteq> LC3_NUM_DT" "sr \<noteq> LC3_NUM_SRATE"
  shows "LC3_DECODER_BUFFER_COUNT dt_us sr_hz = lc3_nh dt sr + lc3_ns dt sr + lc3_nd dt sr + lc3_ns dt sr"
  using buffer_count_table [OF assms(3,4)] resolved assms by metis

lemma setup_layout:
  assumes "lc3_hr_setup_decoder F hrmode dt_us sr_hz sr_pcm_hz mem = Some d"
  shows "lc3_layout (LC3_DECODER_BUFFER_COUNT dt_us (if sr_pcm_hz = 0 then sr_hz else sr_pcm_hz)) d"
    "mem" "de_dt d = resolve_dt dt_us hrmode" "de_sr d = resolve_srate sr_hz hrmode"
proof -
  let ?hz = "if sr_pcm_hz = 0 then sr_hz else sr_pcm_hz"
  have d: "de_dt d = resolve_dt dt_us hrmode" "de_sr_pcm d = resolve_srate ?hz hrmode" "de_dt d \<noteq> LC3_NUM_DT"
    "de_sr_pcm d \<noteq> LC3_NUM_SRATE" "srate_index (de_sr d) \<le> srate_index (de_sr_pcm d)" "xh_off d = 0"
    "xs_off d = lc3_nh (de_dt d) (de_sr_pcm d)"
    "xd_off d = lc3_nh (de_dt d) (de_sr_pcm d) + lc3_ns (de_dt d) (de_sr_pcm d)"
    "xg_off d = xd_off d + lc3_nd (de_dt d) (de_sr_pcm d)" "mem" "de_sr d = resolve_srate sr_hz hrmode"
    using assms by (auto simp: lc3_hr_setup_decoder_def Let_def split: if_splits)
  then show "mem" "de_dt d = resolve_dt dt_us hrmode" "de_sr d = resolve_srate sr_hz hrmode" by blast+
  show "lc3_layout (LC3_DECODER_BUFFER_COUNT dt_us ?hz) d"
    unfolding lc3_layout_def buffer_count [OF d(1-4)] using d lc3_ns_dvd_nh [OF d(3,4)] by simp
qed

lemma complete_layout: "lc3_layout n d \<Longrightarrow> lc3_layout n (complete d)"
proof -
  assume l: "lc3_layout n d"
  let ?ns = "lc3_ns (de_dt d) (de_sr_pcm d)" and ?nh = "lc3_nh (de_dt d) (de_sr_pcm d)"
  have k: "?ns dvd xs_off d" "?ns dvd ?nh" using l lc3_ns_dvd_nh by (auto simp: lc3_layout_def)
  then have "xs_off d + ?ns \<le> ?nh" if "xs_off d < ?nh"
    using that by (metis dvd_add_triv_right_iff dvd_diff_nat dvd_imp_le le_add_diff_inverse less_imp_le nat_add_left_cancel_le
        zero_less_diff)
  with l k show ?thesis by (auto simp: lc3_layout_def complete_def Let_def)
qed

lemma decode_layout:
  assumes "lc3_decode F (Some d) data base stride pcm = (ret, y, pcm')" "lc3_layout n d"
  shows "\<exists>d'. y = Some d' \<and> lc3_layout n d' \<and> de_dt d' = de_dt d \<and> de_sr d' = de_sr d \<and> de_sr_pcm d' = de_sr_pcm d"
proof -
  have l: "lc3_layout n (complete (d\<lparr>de_float := f\<rparr>))" for f
    by (rule complete_layout) (use assms(2) in \<open>simp add: lc3_layout_def\<close>)
  show ?thesis using assms(1) l assms(2)
    by (auto simp: lc3_decode_def complete_def Let_def case_prod_unfold split: if_splits)
qed

text \<open>A run of the decoder: frames and losses, with the places the samples go to.\<close>

fun lc3_run ::
    "('f, 's) lc3_float \<Rightarrow> (u8 list option \<times> nat \<times> nat \<times> (nat \<Rightarrow> u32)) list \<Rightarrow> 'f lc3_decoder option \<Rightarrow> 'f lc3_decoder option" where
  "lc3_run F [] decoder = decoder"
| "lc3_run F ((data, base, stride, pcm) # xs) decoder =
     (let (ret, decoder, pcm) = lc3_decode F decoder data base stride pcm in lc3_run F xs decoder)"

lemma run_layout:
  "lc3_layout n d \<Longrightarrow> \<exists>d'. lc3_run F xs (Some d) = Some d' \<and> lc3_layout n d' \<and> de_dt d' = de_dt d \<and> de_sr d' = de_sr d \<and>
    de_sr_pcm d' = de_sr_pcm d"
proof (induction xs arbitrary: d)
  case (Cons x xs)
  obtain data base stride pcm where x: "x = (data, base, stride, pcm)" by (metis prod_cases4)
  obtain ret y pcm' where r: "lc3_decode F (Some d) data base stride pcm = (ret, y, pcm')" by (metis prod_cases3)
  from decode_layout [OF r Cons.prems] obtain d1 where "y = Some d1" "lc3_layout n d1" "de_dt d1 = de_dt d" "de_sr d1 = de_sr d"
    "de_sr_pcm d1 = de_sr_pcm d" by blast
  with Cons.IH [of d1] show ?case by (auto simp: x r)
qed simp

text \<open>
  C26 (bounds). The decoder stays within its memory. When it is set up in as much memory as
  \<open>lc3_hr_decoder_size\<close> says, for any mode, duration and rate that are accepted, then after any run of
  frames and losses the coded part of a frame is within the frame; the window of the samples of the next
  frame is behind the start of the history and does not reach the delayed samples, these do not reach the
  spectrum, and the spectrum ends with the last element of the memory.
\<close>

theorem lc3_decoder_in_bounds:
  assumes "lc3_hr_setup_decoder F hrmode dt_us sr_hz sr_hz mem = Some d"
  shows "\<exists>d'. lc3_run F xs (Some d) = Some d' \<and>
    lc3_ne (de_dt d') (de_sr d') \<le> lc3_ns (de_dt d') (de_sr d') \<and>
    lc3_ns (de_dt d') (de_sr d') \<le> lc3_ns (de_dt d') (de_sr_pcm d') \<and>
    xh_off d' \<le> xs_off d' \<and> xs_off d' + lc3_ns (de_dt d') (de_sr_pcm d') \<le> xd_off d' \<and>
    xd_off d' + lc3_nd (de_dt d') (de_sr_pcm d') \<le> xg_off d' \<and>
    sizeof_lc3_decoder + 4 * (xg_off d' + lc3_ns (de_dt d') (de_sr_pcm d') - 1) = lc3_hr_decoder_size hrmode dt_us sr_hz"
proof -
  note l = setup_layout [OF assms]
  from l(1) have l1: "lc3_layout (LC3_DECODER_BUFFER_COUNT dt_us sr_hz) d" by simp
  from run_layout [OF this, of F xs] obtain d' where d': "lc3_run F xs (Some d) = Some d'"
    "lc3_layout (LC3_DECODER_BUFFER_COUNT dt_us sr_hz) d'" "de_dt d' = de_dt d" "de_sr d' = de_sr d" "de_sr_pcm d' = de_sr_pcm d" by blast
  have "lc3_hr_decoder_size hrmode dt_us sr_hz = sizeof_lc3_decoder + (LC3_DECODER_BUFFER_COUNT dt_us sr_hz - 1) * 4"
    using l1 assms by (auto simp: lc3_hr_decoder_size_def lc3_hr_setup_decoder_def Let_def split: if_splits)
  moreover note n = lc3_ne_le_ns [of "de_sr_pcm d'" "de_sr d'" "de_dt d'"]
  moreover have "LC3_DECODER_BUFFER_COUNT dt_us sr_hz = xg_off d' + lc3_ns (de_dt d') (de_sr_pcm d')"
    "xh_off d' \<le> xs_off d'" "xs_off d' + lc3_ns (de_dt d') (de_sr_pcm d') \<le> xd_off d'"
    "xd_off d' + lc3_nd (de_dt d') (de_sr_pcm d') \<le> xg_off d'" "de_sr_pcm d' \<noteq> LC3_NUM_SRATE"
    "srate_index (de_sr d') \<le> srate_index (de_sr_pcm d')" using d'(2) by (auto simp: lc3_layout_def)
  ultimately show ?thesis by (intro exI [of _ d']) (simp add: d'(1))
qed

definition example_lc3_float :: "(unit, unit) lc3_float" where
  "example_lc3_float = \<lparr>l3_reset = (), l3_decode = (\<lambda>d xs. ((), Some ())), l3_synthesize = (\<lambda>d s n. ()),
     l3_s24 = (\<lambda>f i. 2 ^ 16 + int i)\<rparr>"

definition example_lc3_decoder :: "unit lc3_decoder" where
  "example_lc3_decoder = \<lparr>de_dt = LC3_DT_10M, de_sr = LC3_SRATE_48K_HR, de_sr_pcm = LC3_SRATE_48K_HR, xh_off = 0, xs_off = 960,
     xd_off = 1440, xg_off = 1740, de_float = ()\<rparr>"

lemma example_lc3_setup:
  "lc3_hr_setup_decoder example_lc3_float True 10000 48000 48000 True = Some example_lc3_decoder"
  by (simp add: lc3_hr_setup_decoder_def resolve_dt_def resolve_srate_def lc3_nh_def lc3_ns_def lc3_nd_def ns_table
      example_lc3_float_def example_lc3_decoder_def)

lemma lc3_decoder_in_bounds_witness:
  "\<exists>d'. lc3_run example_lc3_float [(None, 0, 1, \<lambda>_. 0), (Some (replicate 100 0), 0, 1, \<lambda>_. 0)] (Some example_lc3_decoder) = Some d' \<and>
    xs_off d' + lc3_ns (de_dt d') (de_sr_pcm d') \<le> xd_off d'"
  using lc3_decoder_in_bounds [OF example_lc3_setup] by blast

end
