(* ===== verification/Lc3plus_Decoder.thy ===== *)
theory Lc3plus_Decoder
  imports A2DP_Lc3plus Lc3_Decoder Sink_Decoder
begin

text \<open>
  stack/a2dp/a2dp_vendor_lc3plus_decoder.c, the wrapper of the LC3plus decoder for the sink. It writes the
  scratch buffer as words of 32 bits, and that is how the buffer is modelled.
\<close>

subsection \<open>The control block\<close>

text \<open>
  The control block is static. A slot of \<open>decoder\<close> is \<open>None\<close> when it is NULL. The pointers are not compared, and
  a slot that is freed is always cleared, so the decoders stand in the slots.
\<close>

abbreviation (input) LC3PLUS_FRAGMENT_BUF_SIZE :: nat where "LC3PLUS_FRAGMENT_BUF_SIZE \<equiv> 1250"

record 'f tA2DP_LC3PLUS_DECODER_CB =
  l3_fragment_size :: nat
  l3_fragment_count :: nat
  l3_fragment :: buf
  l3_channels :: nat
  l3_sample_rate :: nat
  l3_frame_duration :: nat
  l3_hr_mode :: bool
  l3_decoder :: "'f lc3_decoder option list"
  l3_callback :: bool

definition lc3plus_cb_zero :: "'f tA2DP_LC3PLUS_DECODER_CB" where
  "lc3plus_cb_zero = \<lparr>l3_fragment_size = 0, l3_fragment_count = 0, l3_fragment = (\<lambda>_. 0), l3_channels = 0,
     l3_sample_rate = 0, l3_frame_duration = 0, l3_hr_mode = False, l3_decoder = [None, None], l3_callback = False\<rparr>"

definition a2dp_lc3plus_decoder_init ::
    "bool \<Rightarrow> 'f tA2DP_LC3PLUS_DECODER_CB \<Rightarrow> bool \<times> 'f tA2DP_LC3PLUS_DECODER_CB" where
  "a2dp_lc3plus_decoder_init decode_callback cb = (True, cb\<lparr>l3_callback := decode_callback\<rparr>)"

definition a2dp_lc3plus_decoder_cleanup :: "'f tA2DP_LC3PLUS_DECODER_CB \<Rightarrow> 'f tA2DP_LC3PLUS_DECODER_CB" where
  "a2dp_lc3plus_decoder_cleanup cb = fold (\<lambda>i cb. cb\<lparr>l3_decoder := (l3_decoder cb)[i := None]\<rparr>) [0..<l3_channels cb] cb"

text \<open>The choices of the configuration, \<open>None\<close> where the code returns with an error.\<close>

definition lc3plus_frame_duration_us :: "tA2DP_LC3PLUS_CIE \<Rightarrow> nat option" where
  "lc3plus_frame_duration_us ie =
     (if lc3plus_frame_duration ie AND A2DP_LC3PLUS_FRAME_DURATION_10MS \<noteq> 0 then Some 10000
      else if lc3plus_frame_duration ie AND A2DP_LC3PLUS_FRAME_DURATION_5MS \<noteq> 0 then Some 5000
      else if lc3plus_frame_duration ie AND A2DP_LC3PLUS_FRAME_DURATION_2_5MS \<noteq> 0 then Some 2500
      else None)"

definition lc3plus_channel_count :: "tA2DP_LC3PLUS_CIE \<Rightarrow> nat option" where
  "lc3plus_channel_count ie =
     (if lc3plus_channels ie AND A2DP_LC3PLUS_CHANNELS_2 \<noteq> 0 then Some 2
      else if lc3plus_channels ie AND A2DP_LC3PLUS_CHANNELS_1 \<noteq> 0 then Some 1
      else None)"

definition lc3plus_rate :: "tA2DP_LC3PLUS_CIE \<Rightarrow> nat option" where
  "lc3plus_rate ie =
     (if lc3plus_frequency ie AND A2DP_LC3PLUS_SAMPLING_FREQ_48000 \<noteq> 0 then Some 48000
      else if lc3plus_frequency ie AND A2DP_LC3PLUS_SAMPLING_FREQ_96000 \<noteq> 0 then Some 96000
      else None)"

text \<open>
  One decoder: its slot is freed before. \<open>mem i\<close>: the allocation for the channel succeeds. The result of the
  setup is not looked at: \<open>junk\<close> is the memory as it was allocated, which stays in the slot when the setup refuses.
\<close>

definition lc3plus_make_decoder ::
    "('f, 's) lc3_float \<Rightarrow> (nat \<Rightarrow> bool) \<Rightarrow> 'f lc3_decoder \<Rightarrow> nat \<Rightarrow> 'f tA2DP_LC3PLUS_DECODER_CB \<Rightarrow> 'f tA2DP_LC3PLUS_DECODER_CB" where
  "lc3plus_make_decoder F mem junk i cb =
     (let setup = lc3_hr_setup_decoder F (l3_hr_mode cb) (l3_frame_duration cb) (l3_sample_rate cb) (l3_sample_rate cb) (mem i);
          dec = (if \<not> mem i then None else case setup of None \<Rightarrow> Some junk | Some d \<Rightarrow> Some d)
      in cb\<lparr>l3_decoder := (l3_decoder cb)[i := dec]\<rparr>)"

text \<open>
  \<open>p_ie\<close> is what is in the local variable, which is not initialised; the status of the parser is ignored.
\<close>

definition a2dp_lc3plus_decoder_configure ::
    "('f, 's) lc3_float \<Rightarrow> (nat \<Rightarrow> bool) \<Rightarrow> 'f lc3_decoder \<Rightarrow> tA2DP_LC3PLUS_CIE \<Rightarrow> buf \<Rightarrow> 'f tA2DP_LC3PLUS_DECODER_CB \<Rightarrow>
      'f tA2DP_LC3PLUS_DECODER_CB" where
  "a2dp_lc3plus_decoder_configure F mem junk p_ie p_codec_info cb =
     (let ie = (case snd (A2DP_ParseInfoLc3Plus (Some p_ie) (Some p_codec_info) False) of None \<Rightarrow> p_ie | Some ie \<Rightarrow> ie)
      in case (lc3plus_frame_duration_us ie, lc3plus_channel_count ie, lc3plus_rate ie) of
           (Some frame_duration, Some channels, Some sample_rate) \<Rightarrow>
             let cb = cb\<lparr>l3_frame_duration := frame_duration, l3_channels := channels, l3_sample_rate := sample_rate,
                         l3_hr_mode := True\<rparr>;
                 cb = fold (\<lambda>i cb. cb\<lparr>l3_decoder := (l3_decoder cb)[i := None]\<rparr>) [0..<channels] cb
             in fold (lc3plus_make_decoder F mem junk) [0..<channels] cb
         | _ \<Rightarrow> cb)"

subsection \<open>A packet\<close>

text \<open>The length of the packet is not looked at: that of a short one wraps around.\<close>

definition a2dp_lc3plus_decoder_decode_packet_header ::
    "bt_hdr \<Rightarrow> 'f tA2DP_LC3PLUS_DECODER_CB \<Rightarrow> int \<times> bt_hdr \<times> 'f tA2DP_LC3PLUS_DECODER_CB" where
  "a2dp_lc3plus_decoder_decode_packet_header p_buf cb =
     (let header_len = MEDIA_PACKET_HEADER + MEDIA_PAYLOAD_HEADER;
          payload = frag p_buf
      in if is_fragmented payload
         then if \<not> is_first_fragment payload \<and>
                 (frame_count payload + 1 \<noteq> l3_fragment_count cb \<or>
                  frame_count payload = 1 \<and> \<not> is_last_fragment payload)
              then (- EINVAL, p_buf, cb)
              else
                let cb = (if is_first_fragment payload then cb\<lparr>l3_fragment_size := 0\<rparr> else cb)
                in (0, skip_octets header_len p_buf, cb\<lparr>l3_fragment_count := frame_count payload\<rparr>)
         else if frame_count payload \<noteq> 1 then (- EINVAL, p_buf, cb)
         else (0, skip_octets header_len p_buf, cb\<lparr>l3_fragment_count := 0\<rparr>))"

text \<open>The part of \<open>a2dp_lc3plus_decoder_decode_packet\<close> that joins fragments: what does not fit is cut off.\<close>

definition lc3plus_gather :: "bt_hdr \<Rightarrow> 'f tA2DP_LC3PLUS_DECODER_CB \<Rightarrow> gathered \<times> 'f tA2DP_LC3PLUS_DECODER_CB" where
  "lc3plus_gather p_buf cb =
     (if l3_fragment_count cb > 0
      then
        let avail = min (LC3PLUS_FRAGMENT_BUF_SIZE - l3_fragment_size cb) (unat (bh_len p_buf));
            cb = cb\<lparr>l3_fragment := store (l3_fragment cb) (l3_fragment_size cb) (take avail (pkt_octets p_buf)),
                    l3_fragment_size := l3_fragment_size cb + avail\<rparr>
        in if l3_fragment_count cb > 1 then (More, cb)
           else (Source (map (l3_fragment cb) [0..<l3_fragment_size cb]),
                 cb\<lparr>l3_fragment_count := 0, l3_fragment_size := 0\<rparr>)
      else (Source (pkt_octets p_buf), cb))"

text \<open>
  The part of a channel in the octets, and the loop over the channels: the decoders, the words, the
  position in the octets, and whether a call failed.
\<close>

definition lc3plus_frame_size :: "nat \<Rightarrow> nat \<Rightarrow> nat \<Rightarrow> nat" where
  "lc3plus_frame_size src_size channels ich = src_size div channels + (if ich < src_size mod channels then 1 else 0)"

definition lc3plus_channel ::
    "('f, 's) lc3_float \<Rightarrow> u8 list \<Rightarrow> nat \<Rightarrow> nat \<Rightarrow> 'f lc3_decoder option list \<times> (nat \<Rightarrow> u32) \<times> nat \<times> bool \<Rightarrow>
      'f lc3_decoder option list \<times> (nat \<Rightarrow> u32) \<times> nat \<times> bool" where
  "lc3plus_channel F src channels ich x =
     (case x of (decs, pcm, in_off, failed) \<Rightarrow>
        let frame_size = lc3plus_frame_size (length src) channels ich;
            (ret, dec, pcm) = lc3_decode F (decs ! ich) (Some (take frame_size (drop in_off src))) ich channels pcm
        in (decs[ich := dec], pcm, in_off + frame_size, failed \<or> ret \<noteq> 0))"

definition lc3plus_shift :: "nat \<Rightarrow> (nat \<Rightarrow> u32) \<Rightarrow> (nat \<Rightarrow> u32)" where
  "lc3plus_shift ntot pcm = fold (\<lambda>i pcm. pcm(i := push_bit 8 (pcm i))) [0..<ntot] pcm"

text \<open>
  Its part behind the fragments. \<open>None\<close>: the callback is NULL and called. The words that are handed over
  are those of a block of \<open>dst_out\<close> octets.
\<close>

definition lc3plus_decoded ::
    "('f, 's) lc3_float \<Rightarrow> u8 list \<Rightarrow> 'f tA2DP_LC3PLUS_DECODER_CB \<Rightarrow> (nat \<Rightarrow> u32) \<Rightarrow>
      (bool \<times> 'f tA2DP_LC3PLUS_DECODER_CB \<times> (nat \<Rightarrow> u32) \<times> u32 list list) option" where
  "lc3plus_decoded F src cb pcm =
     (let channels = l3_channels cb;
          (decs, pcm, in_off, failed) = fold (lc3plus_channel F src channels) [0..<channels] (l3_decoder cb, pcm, 0, False);
          cb = cb\<lparr>l3_decoder := decs\<rparr>
      in if failed then Some (False, cb, pcm, [])
         else
           let nsamples = lc3_hr_frame_samples (l3_hr_mode cb) (l3_frame_duration cb) (l3_sample_rate cb)
           in if nsamples > 0
              then
                let ntot = nat nsamples * channels;
                    pcm = lc3plus_shift ntot pcm
                in if l3_callback cb then Some (True, cb, pcm, [map pcm [0..<ntot]]) else None
              else Some (True, cb, pcm, []))"

definition a2dp_lc3plus_decoder_decode_packet ::
    "('f, 's) lc3_float \<Rightarrow> bt_hdr \<Rightarrow> (nat \<Rightarrow> u32) \<Rightarrow> 'f tA2DP_LC3PLUS_DECODER_CB \<Rightarrow>
      (bool \<times> 'f tA2DP_LC3PLUS_DECODER_CB \<times> (nat \<Rightarrow> u32) \<times> u32 list list) option" where
  "a2dp_lc3plus_decoder_decode_packet F p_buf pcm cb =
     (case lc3plus_gather p_buf cb of
        (Source src, cb) \<Rightarrow> lc3plus_decoded F src cb pcm
      | (_, cb) \<Rightarrow> Some (True, cb, pcm, []))"

subsection \<open>Fragments\<close>

text \<open>What becomes of a packet up to the decoding.\<close>

definition lc3plus_receive :: "bt_hdr \<Rightarrow> 'f tA2DP_LC3PLUS_DECODER_CB \<Rightarrow> gathered \<times> 'f tA2DP_LC3PLUS_DECODER_CB" where
  "lc3plus_receive p cb =
     (case a2dp_lc3plus_decoder_decode_packet_header p cb of (res, p, cb) \<Rightarrow>
        if res < 0 then (Refused, cb) else lc3plus_gather p cb)"

definition lc3plus_held :: "'f tA2DP_LC3PLUS_DECODER_CB \<Rightarrow> u8 list" where
  "lc3plus_held cb = map (l3_fragment cb) [0..<l3_fragment_size cb]"

definition lc3plus_fits :: "'f tA2DP_LC3PLUS_DECODER_CB \<Rightarrow> bool" where
  "lc3plus_fits cb = (l3_fragment_size cb \<le> LC3PLUS_FRAGMENT_BUF_SIZE)"

lemma lc3plus_joined:
  fixes cb :: "'f tA2DP_LC3PLUS_DECODER_CB" and p :: bt_hdr
  defines "at \<equiv> if is_first_fragment (frag p) then 0 else l3_fragment_size cb"
  defines "avail \<equiv> min (LC3PLUS_FRAGMENT_BUF_SIZE - at) (length (body p))"
  assumes "lc3plus_fits cb"
  shows "map (store (l3_fragment cb) at (take avail (body p))) [0..<at + avail] =
    take LC3PLUS_FRAGMENT_BUF_SIZE (joined (lc3plus_held cb) p)"
proof -
  have a: "length (take avail (body p)) = avail" by (simp add: avail_def)
  have "map (store (l3_fragment cb) at (take avail (body p))) [0..<at + avail] =
      map (l3_fragment cb) [0..<at] @ take avail (body p)"
    using map_store [of "l3_fragment cb" at "take avail (body p)"] by (simp only: a)
  then show ?thesis
    using assms(3) by (auto simp: joined_def avail_def at_def lc3plus_held_def lc3plus_fits_def min_def)
qed

lemma lc3plus_receive_eq:
  assumes "full_header p" "lc3plus_fits cb"
  shows "lc3plus_receive p cb =
    (let size = (if is_first_fragment (frag p) then 0 else l3_fragment_size cb);
         avail = min (LC3PLUS_FRAGMENT_BUF_SIZE - size) (length (body p)); j = take LC3PLUS_FRAGMENT_BUF_SIZE (joined (lc3plus_held cb) p)
     in if \<not> is_fragmented (frag p)
        then if frame_count (frag p) \<noteq> 1 then (Refused, cb) else (Source (body p), cb\<lparr>l3_fragment_count := 0\<rparr>)
        else if \<not> accepts (l3_fragment_count cb) p then (Refused, cb)
        else if frame_count (frag p) = 0 then (Source (body p), cb\<lparr>l3_fragment_count := 0, l3_fragment_size := size\<rparr>)
        else if frame_count (frag p) > 1
        then (More, cb\<lparr>l3_fragment := store (l3_fragment cb) size (take avail (body p)), l3_fragment_size := size + avail,
                      l3_fragment_count := frame_count (frag p)\<rparr>)
        else (Source j, cb\<lparr>l3_fragment := store (l3_fragment cb) size (take avail (body p)), l3_fragment_size := 0,
                           l3_fragment_count := 0\<rparr>))"
proof -
  have b: "pkt_octets (skip_octets 13 p) = body p" by (rule pkt_octets_body [OF assms(1)])
  then have l: "unat (bh_len (skip_octets 13 p)) = length (body p)" by (metis length_pkt_octets)
  have h: "a2dp_lc3plus_decoder_decode_packet_header p cb =
    (if is_fragmented (frag p)
     then if \<not> accepts (l3_fragment_count cb) p then (- EINVAL, p, cb)
          else (0, skip_octets 13 p,
            cb\<lparr>l3_fragment_size := (if is_first_fragment (frag p) then 0 else l3_fragment_size cb),
               l3_fragment_count := frame_count (frag p)\<rparr>)
     else if frame_count (frag p) \<noteq> 1 then (- EINVAL, p, cb)
     else (0, skip_octets 13 p, cb\<lparr>l3_fragment_count := 0\<rparr>))"
    by (auto simp: a2dp_lc3plus_decoder_decode_packet_header_def accepts_def Let_def)
  define size where "size = (if is_first_fragment (frag p) then 0 else l3_fragment_size cb)"
  define avail where "avail = min (LC3PLUS_FRAGMENT_BUF_SIZE - size) (length (body p))"
  have m: "map (store (l3_fragment cb) size (take avail (body p))) [0..<size + avail] =
      take LC3PLUS_FRAGMENT_BUF_SIZE (joined (lc3plus_held cb) p)"
    unfolding avail_def size_def by (rule lc3plus_joined [OF assms(2)])
  consider (single) "\<not> is_fragmented (frag p)"
    | (refuse) "is_fragmented (frag p)" "\<not> accepts (l3_fragment_count cb) p"
    | (zero) "is_fragmented (frag p)" "accepts (l3_fragment_count cb) p" "frame_count (frag p) = 0"
    | (join) "is_fragmented (frag p)" "accepts (l3_fragment_count cb) p" "frame_count (frag p) \<noteq> 0" by blast
  then show ?thesis
  proof cases
    case single
    then show ?thesis by (simp add: lc3plus_receive_def h lc3plus_gather_def b)
  next
    case refuse
    then show ?thesis by (simp add: lc3plus_receive_def h)
  next
    case zero
    then show ?thesis by (simp add: lc3plus_receive_def h lc3plus_gather_def b)
  next
    case join
    have g: "lc3plus_receive p cb =
      (let cb = cb\<lparr>l3_fragment := store (l3_fragment cb) size (take avail (body p)), l3_fragment_size := size + avail,
                  l3_fragment_count := frame_count (frag p)\<rparr>
       in if frame_count (frag p) > 1 then (More, cb)
          else (Source (map (l3_fragment cb) [0..<l3_fragment_size cb]), cb\<lparr>l3_fragment_count := 0, l3_fragment_size := 0\<rparr>))"
      using join by (simp add: lc3plus_receive_def h lc3plus_gather_def b l Let_def avail_def size_def)
    show ?thesis using join m unfolding g by (simp add: Let_def avail_def size_def del: upt_Suc)
  qed
qed

lemma lc3plus_header_keeps:
  assumes "a2dp_lc3plus_decoder_decode_packet_header p cb = (res, q, cb')"
  shows "lc3plus_fits cb \<longrightarrow> lc3plus_fits cb'" "l3_decoder cb' = l3_decoder cb" "l3_channels cb' = l3_channels cb"
    "l3_sample_rate cb' = l3_sample_rate cb" "l3_frame_duration cb' = l3_frame_duration cb" "l3_hr_mode cb' = l3_hr_mode cb"
    "l3_callback cb' = l3_callback cb"
  using assms by (auto simp: a2dp_lc3plus_decoder_decode_packet_header_def lc3plus_fits_def Let_def split: if_splits)

lemma lc3plus_gather_keeps:
  assumes "lc3plus_gather p cb = (g, cb')"
  shows "lc3plus_fits cb \<longrightarrow> lc3plus_fits cb'" "l3_decoder cb' = l3_decoder cb" "l3_channels cb' = l3_channels cb"
    "l3_sample_rate cb' = l3_sample_rate cb" "l3_frame_duration cb' = l3_frame_duration cb" "l3_hr_mode cb' = l3_hr_mode cb"
    "l3_callback cb' = l3_callback cb"
  using assms by (auto simp: lc3plus_gather_def lc3plus_fits_def Let_def split: if_splits)

lemma lc3plus_receive_keeps:
  "lc3plus_fits cb \<longrightarrow> lc3plus_fits (snd (lc3plus_receive p cb))" "l3_decoder (snd (lc3plus_receive p cb)) = l3_decoder cb"
  "l3_channels (snd (lc3plus_receive p cb)) = l3_channels cb" "l3_sample_rate (snd (lc3plus_receive p cb)) = l3_sample_rate cb"
  "l3_frame_duration (snd (lc3plus_receive p cb)) = l3_frame_duration cb" "l3_hr_mode (snd (lc3plus_receive p cb)) = l3_hr_mode cb"
  "l3_callback (snd (lc3plus_receive p cb)) = l3_callback cb"
proof -
  obtain res q cb1 where h: "a2dp_lc3plus_decoder_decode_packet_header p cb = (res, q, cb1)" by (metis prod_cases3)
  obtain g cb2 where g: "lc3plus_gather q cb1 = (g, cb2)" by force
  note k = lc3plus_header_keeps [OF h] lc3plus_gather_keeps [OF g]
  show "lc3plus_fits cb \<longrightarrow> lc3plus_fits (snd (lc3plus_receive p cb))" "l3_decoder (snd (lc3plus_receive p cb)) = l3_decoder cb"
    "l3_channels (snd (lc3plus_receive p cb)) = l3_channels cb" "l3_sample_rate (snd (lc3plus_receive p cb)) = l3_sample_rate cb"
    "l3_frame_duration (snd (lc3plus_receive p cb)) = l3_frame_duration cb" "l3_hr_mode (snd (lc3plus_receive p cb)) = l3_hr_mode cb"
    "l3_callback (snd (lc3plus_receive p cb)) = l3_callback cb"
    using k by (auto simp: lc3plus_receive_def h g)
qed

lemma lc3plus_held_simps [simp]:
  "lc3plus_held (cb\<lparr>l3_fragment_count := n\<rparr>) = lc3plus_held cb"
  "lc3plus_held (cb\<lparr>l3_fragment_size := 0\<rparr>) = []"
  by (simp_all add: lc3plus_held_def)

lemma lc3plus_held_store:
  assumes "lc3plus_fits cb"
  shows "lc3plus_held (cb\<lparr>l3_fragment := store (l3_fragment cb) (if is_first_fragment (frag p) then 0 else l3_fragment_size cb)
      (take (min (LC3PLUS_FRAGMENT_BUF_SIZE - (if is_first_fragment (frag p) then 0 else l3_fragment_size cb)) (length (body p))) (body p)),
     l3_fragment_size := (if is_first_fragment (frag p) then 0 else l3_fragment_size cb) +
       min (LC3PLUS_FRAGMENT_BUF_SIZE - (if is_first_fragment (frag p) then 0 else l3_fragment_size cb)) (length (body p)),
     l3_fragment_count := n\<rparr>) = take LC3PLUS_FRAGMENT_BUF_SIZE (joined (lc3plus_held cb) p)"
  using lc3plus_joined [OF assms, of p] by (simp add: lc3plus_held_def del: upt_Suc)

text \<open>The way of a packet.\<close>

definition lc3plus_packet ::
    "('f, 's) lc3_float \<Rightarrow> bt_hdr \<Rightarrow> 'f tA2DP_LC3PLUS_DECODER_CB \<times> (nat \<Rightarrow> u32) \<Rightarrow>
      (u32 list list \<times> 'f tA2DP_LC3PLUS_DECODER_CB \<times> (nat \<Rightarrow> u32)) option" where
  "lc3plus_packet F p_msg x =
     (case x of (cb, pcm) \<Rightarrow>
        (case a2dp_lc3plus_decoder_decode_packet_header p_msg cb of (res, p_msg, cb) \<Rightarrow>
           if res < 0 then Some ([], cb, pcm)
           else do {
             (ok, cb, pcm, out) \<leftarrow> a2dp_lc3plus_decoder_decode_packet F p_msg pcm cb;
             Some (out, cb, pcm)
           }))"

lemma lc3plus_packet_eq:
  "lc3plus_packet F p (cb, pcm) =
    (case lc3plus_receive p cb of
       (Source src, cb) \<Rightarrow> map_option (\<lambda>(ok, cb, pcm, out). (out, cb, pcm)) (lc3plus_decoded F src cb pcm)
     | (_, cb) \<Rightarrow> Some ([], cb, pcm))"
proof -
  obtain res q cb1 where h: "a2dp_lc3plus_decoder_decode_packet_header p cb = (res, q, cb1)" by (metis prod_cases3)
  obtain g cb2 where g: "lc3plus_gather q cb1 = (g, cb2)" by force
  show ?thesis
    by (cases g; cases "res < 0")
       (simp_all add: lc3plus_packet_def lc3plus_receive_def h g a2dp_lc3plus_decoder_decode_packet_def
          map_option_case case_prod_unfold split: option.splits bind_splits)
qed

definition lc3plus_shown :: "'f tA2DP_LC3PLUS_DECODER_CB \<times> (nat \<Rightarrow> u32) \<Rightarrow> 'f lc3_decoder option list \<times> (nat \<Rightarrow> u32)" where
  "lc3plus_shown = apfst l3_decoder"

interpretation lc3plus_run: packet_decoder lc3plus_receive lc3plus_fits l3_fragment_count lc3plus_held
  LC3PLUS_FRAGMENT_BUF_SIZE Pair "lc3plus_packet F"
  "\<lambda>src cb pcm. map_option (\<lambda>(ok, cb, pcm, out). (out, cb, pcm)) (lc3plus_decoded F src cb pcm)" lc3plus_shown
  for F
proof (unfold_locales, goal_cases)
  case (1 s p)
  then show ?case by (simp add: lc3plus_receive_keeps)
next
  case (2 s p)
  then show ?case using lc3plus_held_store [where p = p and cb = s]
    by (auto simp: lc3plus_receive_eq Let_def accepts_def)
next
  case (3 s p)
  then show ?case by (simp add: lc3plus_receive_eq)
next
  case (4 s p x)
  then show ?case by (auto simp: lc3plus_receive_eq Let_def split: if_splits)
next
  case (5 s p)
  then show ?case using lc3plus_held_store [where p = p and cb = s]
    by (auto simp: lc3plus_receive_eq Let_def split: if_splits)
next
  case (6 s p m)
  show ?case by (rule lc3plus_packet_eq)
next
  case (7 s src p m)
  then show ?case
    by (simp add: view_of_def lc3plus_shown_def lc3plus_decoded_def lc3plus_receive_keeps Let_def case_prod_unfold)
qed

subsection \<open>The samples\<close>

text \<open>A frame of one channel: it is of a length that is accepted and is decoded; the samples and the decoder behind it.\<close>

definition lc3_good :: "('f, 's) lc3_float \<Rightarrow> 'f lc3_decoder \<Rightarrow> u8 list \<Rightarrow> bool" where
  "lc3_good F d xs =
     (LC3_MIN_FRAME_BYTES \<le> length xs \<and> length xs \<le> lc3_max_frame_bytes (de_dt d) (de_sr d) \<and> snd (l3_decode F d xs) \<noteq> None)"

definition lc3_synthesized :: "('f, 's) lc3_float \<Rightarrow> 'f lc3_decoder \<Rightarrow> u8 list \<Rightarrow> 'f lc3_decoder" where
  "lc3_synthesized F d xs =
     (let (f, side) = l3_decode F d xs in d\<lparr>de_float := l3_synthesize F (d\<lparr>de_float := f\<rparr>) side (length xs)\<rparr>)"

definition lc3_sample :: "('f, 's) lc3_float \<Rightarrow> 'f lc3_decoder \<Rightarrow> u8 list \<Rightarrow> nat \<Rightarrow> int" where
  "lc3_sample F d xs i = LC3_SAT24 (l3_s24 F (de_float (lc3_synthesized F d xs)) (xs_off d + i))"

lemma fold_upd_stride:
  assumes "base < stride"
  shows "fold (\<lambda>i g. g(base + i * stride := f i)) [0..<n] g =
    (\<lambda>j. if j mod stride = base \<and> j div stride < n then f (j div stride) else g j)"
proof (induction n)
  case (Suc n)
  have "j = base + n * stride \<longleftrightarrow> j mod stride = base \<and> j div stride = n" for j
    using assms by (metis add.commute div_mult_mod_eq div_mult_self3 div_less add_0 mod_less mod_mult_self3 not_less_zero)
  then show ?case using Suc by (auto simp: fun_eq_iff less_Suc_eq)
qed simp

lemma lc3_decode_good:
  assumes "lc3_good F d xs" "base < stride"
  shows "lc3_decode F (Some d) (Some xs) base stride pcm =
    (0, Some (complete (lc3_synthesized F d xs)),
     \<lambda>j. if j mod stride = base \<and> j div stride < lc3_ns (de_dt d) (de_sr_pcm d)
         then push_bit 8 (word_of_int (lc3_sample F d xs (j div stride))) else pcm j)"
  using assms
  by (auto simp: lc3_decode_def lc3_good_def store_s24_def lc3_synthesized_def lc3_sample_def fold_upd_stride case_prod_unfold Let_def)

text \<open>Where the part of a channel begins, and the part.\<close>

definition lc3plus_at :: "nat \<Rightarrow> nat \<Rightarrow> nat \<Rightarrow> nat" where
  "lc3plus_at n channels ich = sum_list (map (lc3plus_frame_size n channels) [0..<ich])"

definition lc3plus_part :: "u8 list \<Rightarrow> nat \<Rightarrow> nat \<Rightarrow> u8 list" where
  "lc3plus_part src channels ich =
     take (lc3plus_frame_size (length src) channels ich) (drop (lc3plus_at (length src) channels ich) src)"

lemma lc3plus_at_eq: "k \<le> channels \<Longrightarrow> lc3plus_at n channels k = k * (n div channels) + min k (n mod channels)"
  by (induction k) (auto simp: lc3plus_at_def lc3plus_frame_size_def)

lemma lc3plus_parts:
  assumes "0 < channels"
  shows "concat (map (lc3plus_part src channels) [0..<channels]) = src"
proof -
  have "concat (map (lc3plus_part src channels) [0..<k]) = take (lc3plus_at (length src) channels k) src" for k
  proof (induction k)
    case 0
    then show ?case by (simp add: lc3plus_at_def)
  next
    case (Suc k)
    have "lc3plus_at (length src) channels (Suc k) =
        lc3plus_at (length src) channels k + lc3plus_frame_size (length src) channels k" by (simp add: lc3plus_at_def)
    then show ?case using Suc by (simp add: lc3plus_part_def take_add)
  qed
  moreover have "lc3plus_at (length src) channels channels = length src"
    using lc3plus_at_eq [of channels channels "length src"] assms
    by (simp add: min_absorb2 less_imp_le)
  ultimately show ?thesis by simp
qed

lemma channels_good:
  assumes "\<And>c. c < k \<Longrightarrow> decs ! c = Some (d c) \<and> lc3_good F (d c) (lc3plus_part src channels c) \<and>
      lc3_ns (de_dt (d c)) (de_sr_pcm (d c)) = ns"
    "k \<le> channels" "k \<le> length decs"
  shows "\<exists>decs'. fold (lc3plus_channel F src channels) [0..<k] (decs, pcm, 0, False) =
    (decs', (\<lambda>j. if j mod channels < k \<and> j div channels < ns
        then push_bit 8 (word_of_int (lc3_sample F (d (j mod channels)) (lc3plus_part src channels (j mod channels)) (j div channels)))
        else pcm j), lc3plus_at (length src) channels k, False) \<and>
    length decs' = length decs \<and> (\<forall>c\<ge>k. decs' ! c = decs ! c)"
  using assms
proof (induction k)
  case 0
  then show ?case by (simp add: lc3plus_at_def)
next
  case (Suc k)
  then obtain decs' where IH: "fold (lc3plus_channel F src channels) [0..<k] (decs, pcm, 0, False) =
    (decs', (\<lambda>j. if j mod channels < k \<and> j div channels < ns
        then push_bit 8 (word_of_int (lc3_sample F (d (j mod channels)) (lc3plus_part src channels (j mod channels)) (j div channels)))
        else pcm j), lc3plus_at (length src) channels k, False)"
    "length decs' = length decs" "\<forall>c\<ge>k. decs' ! c = decs ! c" by (auto simp: less_Suc_eq)
  have k: "decs' ! k = Some (d k)" "lc3_good F (d k) (lc3plus_part src channels k)" "lc3_ns (de_dt (d k)) (de_sr_pcm (d k)) = ns"
    using Suc.prems(1) [of k] IH(3) by auto
  have lt: "k < channels" using Suc.prems(2) by simp
  have at: "lc3plus_at (length src) channels (Suc k) =
      lc3plus_at (length src) channels k + lc3plus_frame_size (length src) channels k" by (simp add: lc3plus_at_def)
  have step: "lc3plus_channel F src channels k (decs', g, lc3plus_at (length src) channels k, False) =
    (decs'[k := Some (complete (lc3_synthesized F (d k) (lc3plus_part src channels k)))],
     (\<lambda>j. if j mod channels = k \<and> j div channels < ns
         then push_bit 8 (word_of_int (lc3_sample F (d k) (lc3plus_part src channels k) (j div channels))) else g j),
     lc3plus_at (length src) channels (Suc k), False)" for g
    unfolding lc3plus_channel_def lc3plus_part_def [symmetric] at
    by (simp add: k(1) lc3_decode_good [OF k(2) lt, unfolded k(3)] lc3plus_part_def [symmetric])
  have "[0..<Suc k] = [0..<k] @ [k]" by simp
  then show ?case
    using IH(2,3) lt by (simp only: fold_append comp_apply IH(1) fold_simps step) (auto simp: fun_eq_iff less_Suc_eq)
qed

lemma lc3plus_shift_eq: "lc3plus_shift n pcm = (\<lambda>j. if j < n then push_bit 8 (pcm j) else pcm j)"
  by (induction n) (auto simp: lc3plus_shift_def fun_eq_iff less_Suc_eq)

lemma low_octets: "push_bit 16 (word_of_int (take_bit 16 v) :: u32) = push_bit 16 (word_of_int v)"
  by (rule bit_word_eqI) (auto simp: bit_simps)

text \<open>A control block that is configured: the decoders are set up for its duration and rate.\<close>

definition lc3plus_ready :: "(nat \<Rightarrow> 'f lc3_decoder) \<Rightarrow> nat \<Rightarrow> 'f tA2DP_LC3PLUS_DECODER_CB \<Rightarrow> bool" where
  "lc3plus_ready d ns cb =
     (0 < l3_channels cb \<and> l3_channels cb \<le> length (l3_decoder cb) \<and> l3_callback cb \<and> lc3plus_fits cb \<and> 0 < ns \<and>
      lc3_hr_frame_samples (l3_hr_mode cb) (l3_frame_duration cb) (l3_sample_rate cb) = int ns \<and>
      list_all (\<lambda>c. l3_decoder cb ! c = Some (d c) \<and> lc3_ns (de_dt (d c)) (de_sr_pcm (d c)) = ns) [0..<l3_channels cb])"

lemma decoded_good:
  assumes "lc3plus_ready d ns cb" "list_all (\<lambda>c. lc3_good F (d c) (lc3plus_part src (l3_channels cb) c)) [0..<l3_channels cb]"
  shows "\<exists>cb' pcm'. lc3plus_decoded F src cb pcm = Some (True, cb', pcm',
    [map (\<lambda>j. push_bit 16 (word_of_int (take_bit 16
         (lc3_sample F (d (j mod l3_channels cb)) (lc3plus_part src (l3_channels cb) (j mod l3_channels cb)) (j div l3_channels cb)))))
      [0..<ns * l3_channels cb]])"
proof -
  let ?ch = "l3_channels cb"
  have r: "0 < ?ch" "?ch \<le> length (l3_decoder cb)" "l3_callback cb" "0 < ns"
    "lc3_hr_frame_samples (l3_hr_mode cb) (l3_frame_duration cb) (l3_sample_rate cb) = int ns"
    using assms(1) by (auto simp: lc3plus_ready_def)
  have g: "l3_decoder cb ! c = Some (d c) \<and> lc3_good F (d c) (lc3plus_part src ?ch c) \<and>
      lc3_ns (de_dt (d c)) (de_sr_pcm (d c)) = ns" if "c < ?ch" for c
    using assms that by (auto simp: lc3plus_ready_def list_all_iff)
  obtain decs' where c: "fold (lc3plus_channel F src ?ch) [0..<?ch] (l3_decoder cb, pcm, 0, False) =
    (decs', (\<lambda>j. if j mod ?ch < ?ch \<and> j div ?ch < ns
        then push_bit 8 (word_of_int (lc3_sample F (d (j mod ?ch)) (lc3plus_part src ?ch (j mod ?ch)) (j div ?ch)))
        else pcm j), lc3plus_at (length src) ?ch ?ch, False)"
    using channels_good [of ?ch "l3_decoder cb" d F src ?ch ns pcm, OF g order_refl r(2)] by blast
  have "j div ?ch < ns" if "j < ns * ?ch" for j using that r(1) by (simp add: less_mult_imp_div_less)
  then show ?thesis
    using r by (auto simp: lc3plus_decoded_def c lc3plus_shift_eq Let_def low_octets intro!: map_cong)
qed

subsection \<open>The wrapper in the sink\<close>

text \<open>
  The module, the packet that is on its way through the two functions, the scratch buffer as words, what was
  handed to the callback, and the number of configurations so far, by which the environment answers: with
  the allocations, the contents of fresh memory and what is in the local variable.
\<close>

record 'f lc3plus_env =
  en_mem :: "nat \<Rightarrow> nat \<Rightarrow> bool"
  en_junk :: "nat \<Rightarrow> 'f lc3_decoder"
  en_local :: "nat \<Rightarrow> tA2DP_LC3PLUS_CIE"

record 'f lc3plus_world =
  lw_cb :: "'f tA2DP_LC3PLUS_DECODER_CB"
  lw_packet :: bt_hdr
  lw_buf :: "nat \<Rightarrow> u32"
  lw_pcm :: "u32 list list"
  lw_count :: nat

definition lc3plus_start :: "(nat \<Rightarrow> u32) \<Rightarrow> 'f lc3plus_world" where
  "lc3plus_start buf = \<lparr>lw_cb = lc3plus_cb_zero, lw_packet = packet_of [], lw_buf = buf, lw_pcm = [], lw_count = 0\<rparr>"

fun lc3plus_call ::
    "('f, 's) lc3_float \<Rightarrow> 'f lc3plus_env \<Rightarrow> bt_hdr sink_act \<Rightarrow> 'f lc3plus_world \<Rightarrow> 'f lc3plus_world option" where
  "lc3plus_call F E (DecInit d ok) w = Some (w\<lparr>lw_cb := snd (a2dp_lc3plus_decoder_init True (lw_cb w))\<rparr>)"
| "lc3plus_call F E (DecCleanup d) w = Some (w\<lparr>lw_cb := a2dp_lc3plus_decoder_cleanup (lw_cb w)\<rparr>)"
| "lc3plus_call F E (DecReset d) w = None"
| "lc3plus_call F E (DecConfigure d info) w =
     (let n = lw_count w
      in Some (w\<lparr>lw_cb := a2dp_lc3plus_decoder_configure F (en_mem E n) (en_junk E n) (en_local E n) info (lw_cb w),
                lw_count := n + 1\<rparr>))"
| "lc3plus_call F E (DecHeader d p) w =
     (let (res, q, cb) = a2dp_lc3plus_decoder_decode_packet_header p (lw_cb w) in Some (w\<lparr>lw_cb := cb, lw_packet := q\<rparr>))"
| "lc3plus_call F E (DecPacket d p n) w =
     (case a2dp_lc3plus_decoder_decode_packet F (lw_packet w) (lw_buf w) (lw_cb w) of
        None \<Rightarrow> None
      | Some (ok, cb, buf, out) \<Rightarrow> Some (w\<lparr>lw_cb := cb, lw_buf := buf, lw_pcm := lw_pcm w @ out\<rparr>))"
| "lc3plus_call F E (Freed p) w = Some w"

text \<open>
  The invariant: the rate is 48 kHz, so a frame has at most 480 samples in each of two channels; a decoder
  is set up for the frames, in memory of the size it needs; and all words that are written or handed over
  are within the first 960.
\<close>

definition lc3plus_slot :: "nat \<Rightarrow> 'f lc3_decoder option \<Rightarrow> bool" where
  "lc3plus_slot dur x =
     pred_option (\<lambda>d. de_dt d = resolve_dt dur True \<and> de_sr_pcm d = LC3_SRATE_48K_HR \<and>
       lc3_layout (LC3_DECODER_BUFFER_COUNT dur 48000) d) x"

definition lc3plus_has :: "'f tA2DP_LC3PLUS_DECODER_CB \<Rightarrow> bool" where
  "lc3plus_has cb =
     (lc3plus_fits cb \<and> length (l3_decoder cb) = 2 \<and> l3_channels cb \<le> 2 \<and>
      (0 < l3_channels cb \<longrightarrow> l3_hr_mode cb \<and> l3_sample_rate cb = 48000 \<and> l3_frame_duration cb \<in> {2500, 5000, 10000}) \<and>
      (\<forall>c < l3_channels cb. lc3plus_slot (l3_frame_duration cb) (l3_decoder cb ! c)))"

definition words_kept :: "(nat \<Rightarrow> u32) \<Rightarrow> (nat \<Rightarrow> u32) \<Rightarrow> u32 list list \<Rightarrow> bool" where
  "words_kept buf0 buf pcm =
     (list_all (\<lambda>b. length b \<le> 960) pcm \<and> (\<forall>i. buf (960 + i) = buf0 (960 + i)))"

definition lc3plus_idle :: "(nat \<Rightarrow> u32) \<Rightarrow> 'f lc3plus_world \<Rightarrow> bool" where
  "lc3plus_idle buf w = (words_kept buf (lw_buf w) (lw_pcm w) \<and> lc3plus_has (lw_cb w))"

definition lc3plus_working :: "(nat \<Rightarrow> u32) \<Rightarrow> 'f lc3plus_world \<Rightarrow> bool" where
  "lc3plus_working buf w = (lc3plus_idle buf w \<and> l3_callback (lw_cb w))"

lemma words_kept_trans: "\<lbrakk>words_kept buf0 buf1 pcm; words_kept buf1 buf2 pcm'\<rbrakk> \<Longrightarrow> words_kept buf0 buf2 (pcm @ pcm')"
  by (simp add: words_kept_def)

text \<open>The parser reports no rate but 48 kHz, and the sink calls the wrapper only with elements that parse.\<close>

lemma lc3plus_interface:
  assumes "A2DP_GetDecoderInterface info = Some a2dp_decoder_interface_lc3plus"
  shows "\<exists>ie. A2DP_ParseInfoLc3Plus (Some ie0) (Some info) False = (A2D_SUCCESS, Some ie) \<and> lc3plus_rate ie \<in> {None, Some 48000}"
proof -
  have v: "A2DP_IsVendorPeerSinkCodecValidLc3Plus info"
    using assms
    by (cases info rule: codec_cases)
       (auto simp: codec_dispatch vendor_dispatch decoder_interfaces split: if_splits vendor_codec_t.splits)
  then obtain cap st where s: "fst (A2DP_ParseInfoLc3Plus (Some lc3plus_cie_local) (Some info) cap) = A2D_SUCCESS"
    by (auto simp: A2DP_IsVendorPeerSinkCodecValidLc3Plus_def)
  obtain st y where p: "A2DP_ParseInfoLc3Plus (Some lc3plus_cie_local) (Some info) cap = (st, y)" by force
  then obtain ie where "y = Some ie" by (auto simp: A2DP_ParseInfoLc3Plus_def Let_def split: if_splits)
  with p s have "A2DP_ParseInfoLc3Plus (Some lc3plus_cie_local) (Some info) cap = (A2D_SUCCESS, Some ie)" by simp
  then have i: "A2DP_ParseInfoLc3Plus (Some ie0) (Some info) False = (A2D_SUCCESS, Some ie)"
    unfolding A2DP_ParseInfoLc3Plus_eq by simp
  then have f: "lc3plus_frequency ie = push_bit 8 (ucast (info 11))" unfolding A2DP_ParseInfoLc3Plus_eq by simp
  have "push_bit 8 (ucast (info 11) :: u16) AND 0x80 = 0"
    by (rule u16_eqI) (simp add: upt_rec bit_simps)
  then have "lc3plus_rate ie \<in> {None, Some 48000}" by (simp add: lc3plus_rate_def f)
  with i show ?thesis by blast
qed

lemma fold_clear:
  "fold (\<lambda>i cb. cb\<lparr>l3_decoder := (l3_decoder cb)[i := None]\<rparr>) is cb =
    cb\<lparr>l3_decoder := fold (\<lambda>i decs. decs[i := None]) is (l3_decoder cb)\<rparr>"
  by (induction "is" arbitrary: cb) simp_all

lemma fold_clear_nth:
  "length (fold (\<lambda>i decs. decs[i := None]) [0..<k] decs) = length decs"
  "k \<le> length decs \<Longrightarrow> fold (\<lambda>i decs. decs[i := None]) [0..<k] decs ! c = (if c < k then None else decs ! c)"
  by (induction k) (auto simp: nth_list_update less_Suc_eq)

lemma cleanup_has: "lc3plus_has cb \<Longrightarrow> lc3plus_has (a2dp_lc3plus_decoder_cleanup cb)"
  by (auto simp: lc3plus_has_def a2dp_lc3plus_decoder_cleanup_def fold_clear fold_clear_nth lc3plus_fits_def lc3plus_slot_def)

lemma setup_slot:
  assumes "dur \<in> {2500, 5000, 10000}"
  shows "\<exists>d. lc3_hr_setup_decoder F True dur 48000 48000 True = Some d \<and> lc3plus_slot dur (Some d)"
proof -
  have "resolve_dt dur True \<noteq> LC3_NUM_DT" "resolve_srate 48000 True = LC3_SRATE_48K_HR"
    using assms by (auto simp: resolve_dt_def resolve_srate_def)
  then obtain d where d: "lc3_hr_setup_decoder F True dur 48000 48000 True = Some d" "de_sr_pcm d = LC3_SRATE_48K_HR"
    by (auto simp: lc3_hr_setup_decoder_def Let_def)
  with setup_layout [OF d(1)] show ?thesis by (auto simp: lc3plus_slot_def)
qed

lemma make_decoders:
  assumes "l3_hr_mode cb" "l3_sample_rate cb = 48000" "l3_frame_duration cb \<in> {2500, 5000, 10000}" "k \<le> length (l3_decoder cb)"
  shows "\<exists>decs. fold (lc3plus_make_decoder F mem junk) [0..<k] cb = cb\<lparr>l3_decoder := decs\<rparr> \<and> length decs = length (l3_decoder cb) \<and>
    (\<forall>c < k. lc3plus_slot (l3_frame_duration cb) (decs ! c))"
  using assms(4)
proof (induction k)
  case 0
  then show ?case by (intro exI [of _ "l3_decoder cb"]) simp
next
  case (Suc k)
  then obtain decs where d: "fold (lc3plus_make_decoder F mem junk) [0..<k] cb = cb\<lparr>l3_decoder := decs\<rparr>"
    "length decs = length (l3_decoder cb)" "\<forall>c < k. lc3plus_slot (l3_frame_duration cb) (decs ! c)" by auto
  obtain e where e: "lc3_hr_setup_decoder F True (l3_frame_duration cb) 48000 48000 True = Some e"
    "lc3plus_slot (l3_frame_duration cb) (Some e)" using setup_slot [OF assms(3)] by blast
  have "lc3plus_make_decoder F mem junk k (cb\<lparr>l3_decoder := decs\<rparr>) =
      cb\<lparr>l3_decoder := decs[k := if mem k then Some e else None]\<rparr>"
    using assms(1,2) e(1) by (simp add: lc3plus_make_decoder_def)
  moreover have "lc3plus_slot (l3_frame_duration cb) None" by (simp add: lc3plus_slot_def)
  ultimately show ?case
    using d e(2) Suc.prems
    by (intro exI [of _ "decs[k := if mem k then Some e else None]"]) (auto simp: nth_list_update less_Suc_eq)
qed

lemma configure_has:
  assumes "lc3plus_has cb" "A2DP_GetDecoderInterface info = Some a2dp_decoder_interface_lc3plus"
  shows "lc3plus_has (a2dp_lc3plus_decoder_configure F mem junk ie0 info cb)"
    "l3_callback (a2dp_lc3plus_decoder_configure F mem junk ie0 info cb) = l3_callback cb"
proof -
  obtain ie where ie: "A2DP_ParseInfoLc3Plus (Some ie0) (Some info) False = (A2D_SUCCESS, Some ie)"
    "lc3plus_rate ie \<in> {None, Some 48000}" using lc3plus_interface [OF assms(2)] by blast
  show "lc3plus_has (a2dp_lc3plus_decoder_configure F mem junk ie0 info cb)"
    "l3_callback (a2dp_lc3plus_decoder_configure F mem junk ie0 info cb) = l3_callback cb"
  proof (atomize (full), cases "lc3plus_frame_duration_us ie = None \<or> lc3plus_channel_count ie = None \<or> lc3plus_rate ie = None")
    case True
    then show "lc3plus_has (a2dp_lc3plus_decoder_configure F mem junk ie0 info cb) \<and>
      l3_callback (a2dp_lc3plus_decoder_configure F mem junk ie0 info cb) = l3_callback cb"
      using assms(1) by (auto simp: a2dp_lc3plus_decoder_configure_def ie(1) split: option.splits)
  next
    case False
    then obtain dur ch where c: "lc3plus_frame_duration_us ie = Some dur" "lc3plus_channel_count ie = Some ch"
      "lc3plus_rate ie = Some 48000" using ie(2) by auto
    have k: "dur \<in> {2500, 5000, 10000}" "0 < ch" "ch \<le> 2"
      using c by (auto simp: lc3plus_frame_duration_us_def lc3plus_channel_count_def split: if_splits)
    define cb1 where "cb1 = cb\<lparr>l3_frame_duration := dur, l3_channels := ch, l3_sample_rate := 48000, l3_hr_mode := True,
        l3_decoder := fold (\<lambda>i decs. decs[i := None]) [0..<ch] (l3_decoder cb)\<rparr>"
    have l: "length (l3_decoder cb1) = 2" using assms(1) by (simp add: cb1_def fold_clear_nth lc3plus_has_def)
    obtain decs where d: "fold (lc3plus_make_decoder F mem junk) [0..<ch] cb1 = cb1\<lparr>l3_decoder := decs\<rparr>" "length decs = 2"
      "\<forall>c < ch. lc3plus_slot dur (decs ! c)"
      using make_decoders [of cb1 ch F mem junk] k l by (auto simp: cb1_def)
    have "a2dp_lc3plus_decoder_configure F mem junk ie0 info cb = cb1\<lparr>l3_decoder := decs\<rparr>"
      using d(1) by (simp add: a2dp_lc3plus_decoder_configure_def ie(1) c fold_clear cb1_def Let_def)
    then show "lc3plus_has (a2dp_lc3plus_decoder_configure F mem junk ie0 info cb) \<and>
      l3_callback (a2dp_lc3plus_decoder_configure F mem junk ie0 info cb) = l3_callback cb"
      using d k assms(1) by (simp add: cb1_def lc3plus_has_def lc3plus_fits_def)
  qed
qed

text \<open>Decoding, whether it fails or not.\<close>

lemma decode_slot:
  assumes "lc3plus_slot dur x" "dur \<in> {2500, 5000, 10000}" "base < stride" "stride \<le> 2"
    "lc3_decode F x (Some xs) base stride pcm = (ret, x', pcm')"
  shows "lc3plus_slot dur x'" "pcm' (960 + i) = pcm (960 + i)"
proof -
  have "lc3plus_slot dur x' \<and> pcm' (960 + i) = pcm (960 + i)"
  proof (cases x)
    case None
    then show ?thesis using assms(1,5) by (auto simp: lc3_decode_def)
  next
    case (Some d)
    have d: "de_dt d = resolve_dt dur True" "de_sr_pcm d = LC3_SRATE_48K_HR" "lc3_layout (LC3_DECODER_BUFFER_COUNT dur 48000) d"
      using assms(1) by (simp_all add: Some lc3plus_slot_def)
    have ns: "lc3_ns (de_dt d) (de_sr_pcm d) \<le> 480"
      using assms(2) by (auto simp: d lc3_ns_def ns_table resolve_dt_def)
    have far: "\<not> ((960 + i) div stride < lc3_ns (de_dt d) (de_sr_pcm d))"
    proof -
      have "stride = 1 \<or> stride = 2" using assms(3,4) by auto
      then show ?thesis using ns by auto
    qed
    have s: "store_s24 F (d\<lparr>de_float := f\<rparr>) base stride pcm (960 + i) = pcm (960 + i)" for f
      using far assms(3) by (simp add: store_s24_def fold_upd_stride)
    from decode_layout [OF assms(5) [unfolded Some] d(3)] have "lc3plus_slot dur x'" using d by (auto simp: lc3plus_slot_def)
    moreover have "pcm' (960 + i) = pcm (960 + i)"
      using assms(5) s by (auto simp: Some lc3_decode_def Let_def case_prod_unfold split: if_splits)
    ultimately show ?thesis by blast
  qed
  then show "lc3plus_slot dur x'" "pcm' (960 + i) = pcm (960 + i)" by blast+
qed

lemma channels_slots:
  assumes "\<forall>c < ch. lc3plus_slot dur (decs ! c)" "dur \<in> {2500, 5000, 10000}" "k \<le> ch" "ch \<le> 2" "length decs = 2"
  shows "case fold (lc3plus_channel F src ch) [0..<k] (decs, pcm, 0, False) of (decs', pcm', off, failed) \<Rightarrow>
    (\<forall>c < ch. lc3plus_slot dur (decs' ! c)) \<and> length decs' = 2 \<and> (\<forall>i. pcm' (960 + i) = pcm (960 + i))"
  using assms(3)
proof (induction k)
  case 0
  then show ?case using assms(1,5) by simp
next
  case (Suc k)
  obtain decs1 pcm1 off1 failed1 where f: "fold (lc3plus_channel F src ch) [0..<k] (decs, pcm, 0, False) = (decs1, pcm1, off1, failed1)"
    by (metis prod_cases4)
  with Suc have h: "\<forall>c < ch. lc3plus_slot dur (decs1 ! c)" "length decs1 = 2" "\<forall>i. pcm1 (960 + i) = pcm (960 + i)" by auto
  obtain ret x pcm2 where d: "lc3_decode F (decs1 ! k) (Some (take (lc3plus_frame_size (length src) ch k) (drop off1 src))) k ch pcm1 =
      (ret, x, pcm2)" by (metis prod_cases3)
  have lt: "k < ch" using Suc.prems by simp
  have "lc3plus_slot dur (decs1 ! k)" using h(1) lt by blast
  note s = decode_slot [OF this assms(2) lt assms(4) d]
  have "lc3plus_channel F src ch k (decs1, pcm1, off1, failed1) =
      (decs1[k := x], pcm2, off1 + lc3plus_frame_size (length src) ch k, failed1 \<or> ret \<noteq> 0)"
    by (simp add: lc3plus_channel_def d)
  moreover have "[0..<Suc k] = [0..<k] @ [k]" by simp
  moreover have "k < length decs1" using lt assms(4) h(2) by simp
  ultimately show ?case using h s lt by (simp only: fold_append comp_apply f fold_simps) (auto simp: nth_list_update)
qed

lemma packet_has:
  assumes "lc3plus_has cb" "l3_callback cb"
  shows "\<exists>ok cb' buf' out. a2dp_lc3plus_decoder_decode_packet F q buf cb = Some (ok, cb', buf', out) \<and> lc3plus_has cb' \<and>
    l3_callback cb' \<and> words_kept buf buf' out"
proof -
  have quiet: "words_kept buf buf []" by (simp add: words_kept_def)
  obtain g cb1 where g: "lc3plus_gather q cb = (g, cb1)" by force
  note k = lc3plus_gather_keeps [OF g]
  have h: "lc3plus_has cb1" "l3_callback cb1" using assms k by (simp_all add: lc3plus_has_def)
  show ?thesis
  proof (cases "\<exists>src. g = Source src")
    case False
    then show ?thesis using h quiet by (cases g) (auto simp: a2dp_lc3plus_decoder_decode_packet_def g)
  next
    case True
    then obtain src where src: "g = Source src" by blast
    let ?ch = "l3_channels cb1" and ?dur = "l3_frame_duration cb1"
    obtain decs pcm off failed where f: "fold (lc3plus_channel F src ?ch) [0..<?ch] (l3_decoder cb1, buf, 0, False) =
        (decs, pcm, off, failed)" by (metis prod_cases4)
    have ch: "?ch = 0 \<or> ?dur \<in> {2500, 5000, 10000}" "?ch \<le> 2" "length (l3_decoder cb1) = 2"
      "\<forall>c < ?ch. lc3plus_slot ?dur (l3_decoder cb1 ! c)" using h(1) by (auto simp: lc3plus_has_def)
    have s: "(\<forall>c < ?ch. lc3plus_slot ?dur (decs ! c)) \<and> length decs = 2 \<and> (\<forall>i. pcm (960 + i) = buf (960 + i))"
    proof (cases "?ch = 0")
      case True
      then show ?thesis using f ch by simp
    next
      case False
      then show ?thesis using channels_slots [OF ch(4) _ order_refl ch(2,3), where F = F and src = src and pcm = buf] ch(1) f by auto
    qed
    let ?cb = "cb1\<lparr>l3_decoder := decs\<rparr>"
    let ?n = "lc3_hr_frame_samples (l3_hr_mode cb1) ?dur (l3_sample_rate cb1)"
    have hb: "lc3plus_has ?cb" "l3_callback ?cb" using h s by (auto simp: lc3plus_has_def lc3plus_fits_def)
    have n: "nat ?n * ?ch \<le> 960"
    proof (cases "?ch = 0")
      case False
      then have "?dur \<in> {2500, 5000, 10000}" "l3_hr_mode cb1" "l3_sample_rate cb1 = 48000"
        using h(1) by (auto simp: lc3plus_has_def)
      then have "nat ?n \<le> 480"
        by (auto simp: lc3_hr_frame_samples_def resolve_dt_def resolve_srate_def lc3_ns_def ns_table)
      then show ?thesis using mult_le_mono [of "nat ?n" 480 ?ch 2] ch(2) by simp
    qed simp
    have w: "words_kept buf (lc3plus_shift (nat ?n * ?ch) pcm) [map (lc3plus_shift (nat ?n * ?ch) pcm) [0..<nat ?n * ?ch]]"
      "words_kept buf pcm []" using s n by (auto simp: words_kept_def lc3plus_shift_eq)
    show ?thesis
      using hb w by (auto simp: a2dp_lc3plus_decoder_decode_packet_def g src lc3plus_decoded_def f Let_def)
  qed
qed

interpretation lc3plus_sink: sink_decoder a2dp_decoder_interface_lc3plus "lc3plus_call F E" "lc3plus_idle buf" "lc3plus_working buf"
  for F E buf
proof (unfold_locales, goal_cases)
  case (1 w ok)
  then show ?case
    by (auto simp: lc3plus_idle_def lc3plus_working_def a2dp_lc3plus_decoder_init_def lc3plus_has_def lc3plus_fits_def)
next
  case (2 w)
  then show ?case by (simp add: lc3plus_idle_def lc3plus_working_def cleanup_has)
next
  case (3 w)
  then show ?case by (simp add: has_decoder_reset_def)
next
  case (4 w info)
  then show ?case by (simp add: lc3plus_idle_def lc3plus_working_def configure_has Let_def)
next
  case (5 w p)
  obtain res q cb where h: "a2dp_lc3plus_decoder_decode_packet_header p (lw_cb w) = (res, q, cb)" by (metis prod_cases3)
  with 5 lc3plus_header_keeps [OF h] show ?case by (simp add: lc3plus_idle_def lc3plus_working_def lc3plus_has_def)
next
  case (6 w i p)
  then have "lc3plus_has (lw_cb w)" "l3_callback (lw_cb w)" by (simp_all add: lc3plus_idle_def lc3plus_working_def)
  from packet_has [OF this, of F "lw_packet w" "lw_buf w"] 6 words_kept_trans show ?case
    by (fastforce simp: lc3plus_idle_def lc3plus_working_def)
qed

lemma size_lc3plus: "btc_a2dp_sink_decode_buf_size BTAV_A2DP_CODEC_INDEX_SINK_LC3PLUS = 4096"
  by (simp add: btc_a2dp_sink_decode_buf_size_def)

subsection \<open>Examples\<close>

definition example_lc3plus_cb :: "unit tA2DP_LC3PLUS_DECODER_CB" where
  "example_lc3plus_cb = lc3plus_cb_zero\<lparr>l3_channels := 1, l3_sample_rate := 48000, l3_frame_duration := 10000, l3_hr_mode := True,
     l3_decoder := [Some example_lc3_decoder, None], l3_callback := True\<rparr>"

lemma example_lc3plus_ready: "lc3plus_ready (\<lambda>c. example_lc3_decoder) 480 example_lc3plus_cb"
  by (simp add: lc3plus_ready_def example_lc3plus_cb_def lc3plus_cb_zero_def lc3plus_fits_def lc3_hr_frame_samples_def
      resolve_dt_def resolve_srate_def lc3_ns_def ns_table example_lc3_decoder_def)

definition example_lc3plus_info :: buf where
  "example_lc3plus_info = bytes [12, 0, 0xFF, 0xA9, 0x08, 0, 0, 1, 0, 0x40, 0x40, 1, 0]"

lemma example_lc3plus_vendor:
  "A2DP_GetCodecType example_lc3plus_info = A2D_MEDIA_CT_NON_A2DP"
  "vendor_codec (A2DP_VendorCodecGetVendorId example_lc3plus_info) (A2DP_VendorCodecGetCodecId example_lc3plus_info) = Some V_LC3PLUS"
  by (simp_all add: vendor_ids example_lc3plus_info_def bytes_def vendor_codec_def rd32le_def rd16le_def
      A2DP_VendorCodecIsOpus_def a2dp_opus_is_android_def a2dp_opus_is_pipewire_def)

lemma example_lc3plus_valid: "A2DP_IsVendorPeerSinkCodecValidLc3Plus example_lc3plus_info"
  by (simp add: A2DP_IsVendorPeerSinkCodecValidLc3Plus_def A2DP_ParseInfoLc3Plus_def example_lc3plus_info_def bytes_def Let_def
      rd32le_def rd16le_def)

lemma example_lc3plus_interface:
  "A2DP_GetDecoderInterface example_lc3plus_info = Some a2dp_decoder_interface_lc3plus"
  "A2DP_SinkCodecIndex example_lc3plus_info = BTAV_A2DP_CODEC_INDEX_SINK_LC3PLUS"
  by (simp_all add: codec_dispatch vendor_dispatch example_lc3plus_vendor decoder_interfaces example_lc3plus_valid sink_indexes)

definition example_lc3plus_env :: "unit lc3plus_env" where
  "example_lc3plus_env = \<lparr>en_mem = \<lambda>n i. True, en_junk = \<lambda>n. example_lc3_decoder, en_local = \<lambda>n. lc3plus_cie_local\<rparr>"

definition example_lc3plus_decoders :: "bt_hdr decoders" where
  "example_lc3plus_decoders = \<lparr>init_answer = \<lambda>_. True, header_answer = \<lambda>_. 0\<rparr>"

text \<open>
  C11 (safety). The LC3plus decoder in the sink. Whatever the tasks do, from the start of the system on, and
  whatever the packets and allocations are: no call goes through a NULL pointer; the decoders of the
  configured channels keep to the layout of their memory; and every block that was handed over has at most
  3840 octets, which is less than the scratch buffer has, and nothing was written behind them. This rests on the
  parser, which loses the bit of 96 kHz, where a block would not fit.
\<close>

theorem sink_lc3plus_safe:
  assumes "sink_reach D (s, run, ps)"
  shows "\<exists>w. runs_decoder a2dp_decoder_interface_lc3plus (lc3plus_call F E) s (lc3plus_start buf) = Some w \<and>
    list_all (\<lambda>x. pred_option (lc3_layout (LC3_DECODER_BUFFER_COUNT (l3_frame_duration (lw_cb w)) (l3_sample_rate (lw_cb w)))) x)
      (take (l3_channels (lw_cb w)) (l3_decoder (lw_cb w))) \<and>
    list_all (\<lambda>b. 4 * length b \<le> 3840) (lw_pcm w) \<and>
    3840 \<le> btc_a2dp_sink_decode_buf_size BTAV_A2DP_CODEC_INDEX_SINK_LC3PLUS \<and>
    lw_buf w (3840 div 4 + i) = buf (3840 div 4 + i)"
proof -
  have "lc3plus_idle buf (lc3plus_start buf)"
    by (simp add: lc3plus_idle_def lc3plus_start_def words_kept_def lc3plus_has_def lc3plus_cb_zero_def lc3plus_fits_def)
  from lc3plus_sink.reach [OF assms this, of F E] obtain w where
    w: "runs_decoder a2dp_decoder_interface_lc3plus (lc3plus_call F E) s (lc3plus_start buf) = Some w" "lc3plus_idle buf w"
    by (auto simp: lc3plus_working_def split: if_splits)
  have h: "lc3plus_has (lw_cb w)" "words_kept buf (lw_buf w) (lw_pcm w)" using w(2) by (simp_all add: lc3plus_idle_def)
  have "list_all (\<lambda>b. 4 * length b \<le> 3840) (lw_pcm w)" "lw_buf w (3840 div 4 + i) = buf (3840 div 4 + i)"
    using h(2) by (auto simp: words_kept_def list_all_iff)
  moreover have "list_all (\<lambda>x. pred_option (lc3_layout (LC3_DECODER_BUFFER_COUNT (l3_frame_duration (lw_cb w)) (l3_sample_rate (lw_cb w)))) x)
      (take (l3_channels (lw_cb w)) (l3_decoder (lw_cb w)))"
    unfolding list_all_length
  proof (intro allI impI)
    fix n assume "n < length (take (l3_channels (lw_cb w)) (l3_decoder (lw_cb w)))"
    then have n: "n < l3_channels (lw_cb w)" by simp
    then have "l3_sample_rate (lw_cb w) = 48000" "lc3plus_slot (l3_frame_duration (lw_cb w)) (l3_decoder (lw_cb w) ! n)"
      using h(1) by (auto simp: lc3plus_has_def)
    then show "pred_option (lc3_layout (LC3_DECODER_BUFFER_COUNT (l3_frame_duration (lw_cb w)) (l3_sample_rate (lw_cb w))))
        (take (l3_channels (lw_cb w)) (l3_decoder (lw_cb w)) ! n)"
      using n by (cases "l3_decoder (lw_cb w) ! n") (simp_all add: lc3plus_slot_def)
  qed
  ultimately show ?thesis using w(1) by (simp add: size_lc3plus)
qed

lemma sink_lc3plus_safe_witness:
  "\<exists>s w. DecPacket a2dp_decoder_interface_lc3plus (media_example [0x01, 7]) 4096 \<in> set (acts s) \<and>
    runs_decoder a2dp_decoder_interface_lc3plus (lc3plus_call example_lc3_float example_lc3plus_env) s (lc3plus_start (\<lambda>_. 0)) = Some w \<and>
    list_all (\<lambda>b. 4 * length b \<le> 3840) (lw_pcm w)"
proof -
  obtain s where s: "sink_reach example_lc3plus_decoders (s, Some 0, [media_example [0x01, 7]])"
    "DecPacket a2dp_decoder_interface_lc3plus (media_example [0x01, 7]) 4096 \<in> set (acts s)"
    using packet_reach [OF example_lc3plus_interface(1), of example_lc3plus_decoders "media_example [0x01, 7]"]
    by (auto simp: example_lc3plus_decoders_def example_lc3plus_interface(2) size_lc3plus)
  from sink_lc3plus_safe [OF s(1), of example_lc3_float example_lc3plus_env "\<lambda>_. 0" 0] s(2) show ?thesis by blast
qed

text \<open>
  C25 (error). What is played of a good frame. The octets are parted among the channels without a gap, and
  of every sample of 24 bits the high octet is lost: the word that is handed over has the low 16 bits of the
  sample as its high ones, since the decoder aligns the sample to the left and the wrapper does so again.
\<close>

theorem lc3plus_top_octet_lost:
  assumes "lc3plus_ready d ns cb" "full_header p" "\<not> is_fragmented (frag p)" "frame_count (frag p) = 1"
    "list_all (\<lambda>c. lc3_good F (d c) (lc3plus_part (body p) (l3_channels cb) c)) [0..<l3_channels cb]"
  shows "concat (map (lc3plus_part (body p) (l3_channels cb)) [0..<l3_channels cb]) = body p \<and>
    (\<exists>cb' pcm'. lc3plus_packet F p (cb, pcm) = Some
      ([map (\<lambda>j. let c = j mod l3_channels cb; i = j div l3_channels cb
                 in push_bit 16 (word_of_int (take_bit 16 (lc3_sample F (d c) (lc3plus_part (body p) (l3_channels cb) c) i))))
         [0..<ns * l3_channels cb]], cb', pcm'))"
proof -
  have fit: "lc3plus_fits cb" and ch: "0 < l3_channels cb" using assms(1) by (simp_all add: lc3plus_ready_def)
  let ?cb = "cb\<lparr>l3_fragment_count := 0\<rparr>"
  have r: "lc3plus_receive p cb = (Source (body p), ?cb)"
    using assms(3,4) by (simp add: lc3plus_receive_eq [OF assms(2) fit])
  have "lc3plus_ready d ns ?cb" using assms(1) by (simp add: lc3plus_ready_def lc3plus_fits_def)
  from decoded_good [OF this, of F "body p" pcm] assms(5) show ?thesis
    using lc3plus_parts [OF ch] by (auto simp: lc3plus_packet_eq r Let_def)
qed

lemma lc3plus_top_octet_lost_witness:
  "\<exists>cb' pcm'. lc3plus_packet example_lc3_float (media_example (0x01 # replicate 100 0)) (example_lc3plus_cb, \<lambda>_. 0) =
    Some ([map (\<lambda>j. push_bit 16 (of_nat (960 + j))) [0..<480]], cb', pcm')"
proof -
  let ?p = "media_example (0x01 # replicate 100 0)"
  have c: "l3_channels example_lc3plus_cb = 1" by (simp add: example_lc3plus_cb_def)
  have part: "lc3plus_part (replicate 100 0) 1 0 = replicate 100 0" by (simp add: lc3plus_part_def lc3plus_at_def lc3plus_frame_size_def)
  have good: "lc3_good example_lc3_float example_lc3_decoder (replicate 100 0)"
    by (simp add: lc3_good_def example_lc3_float_def example_lc3_decoder_def lc3_max_frame_bytes_def lc3_hr_def lc3_frame_bytes_hr_lim_def)
  have m: "(66496 + int i) mod 65536 = 960 + int i" if "i < 480" for i
  proof -
    have "(66496 + int i) mod 65536 = (960 + int i + 65536) mod 65536" by (simp add: add.commute)
    also have "\<dots> = (960 + int i) mod 65536" by (rule mod_add_self2)
    also have "\<dots> = 960 + int i" using that by (intro mod_pos_pos_trivial) simp_all
    finally show ?thesis .
  qed
  have s: "take_bit 16 (lc3_sample example_lc3_float example_lc3_decoder (replicate 100 0) i) = int (960 + i)" if "i < 480" for i
    using that by (simp add: lc3_sample_def LC3_SAT24_def example_lc3_float_def example_lc3_decoder_def take_bit_eq_mod m)
  have "map (\<lambda>i. push_bit 16 (word_of_int (take_bit 16 (lc3_sample example_lc3_float example_lc3_decoder (replicate 100 0) i))) :: 32 word) [0..<480]
      = map (\<lambda>i. push_bit 16 (of_nat (960 + i))) [0..<480]"
    by (rule map_cong) (simp_all add: s)
  with lc3plus_top_octet_lost [OF example_lc3plus_ready, of ?p example_lc3_float "\<lambda>_. 0"] show ?thesis
    by (simp add: c example_packet example_headers part [unfolded One_nat_def] good Let_def)
qed

text \<open>
  C40 (error). The length of a packet is not checked. Of one that is shorter than its headers and has the
  marks of a first fragment where the payload header would be, the length wraps around, and 1250 octets, all of them from behind
  the packet, are taken for the start of a frame.
\<close>

theorem lc3plus_short_packet:
  assumes "unat (bh_len p) < 13" "unat (bh_offset p) + 13 < 2 ^ 16" "is_fragmented (frag p)" "is_first_fragment (frag p)" "1 < frame_count (frag p)"
  shows "fst (lc3plus_receive p cb) = More \<and>
    lc3plus_held (snd (lc3plus_receive p cb)) = map (\<lambda>i. pkt_at p (13 + i)) [0..<LC3PLUS_FRAGMENT_BUF_SIZE]"
proof -
  let ?q = "skip_octets 13 p"
  have "unat (bh_len ?q) = 2 ^ 16 + unat (bh_len p) - 13"
    using assms(1) by (simp add: skip_octets_def unat_sub_if' word_le_nat_alt)
  then have len: "1250 \<le> unat (bh_len ?q)" by simp
  have off: "unat (bh_offset ?q) = unat (bh_offset p) + 13"
    using assms(2) by (simp add: skip_octets_def unat_word_ariths)
  have data: "bh_data ?q = bh_data p" by (simp add: skip_octets_def)
  have o: "take 1250 (pkt_octets ?q) = map (\<lambda>i. pkt_at p (13 + i)) [0..<1250]"
    using len by (simp add: pkt_octets_def take_map pkt_at_def off data add.assoc min_absorb1 take_upt)
  have "map (store m 0 (take 1250 (pkt_octets ?q))) [0..<1250] = take 1250 (pkt_octets ?q)" for m
    using map_store [of m 0 "take 1250 (pkt_octets ?q)"] len by (simp add: min_absorb2)
  then show ?thesis
    using assms(3-5) len
    by (simp add: lc3plus_receive_def a2dp_lc3plus_decoder_decode_packet_header_def lc3plus_gather_def lc3plus_held_def min_absorb1 o Let_def)
qed

lemma lc3plus_short_packet_witness:
  "fst (lc3plus_receive \<lparr>bh_len = 3, bh_offset = 0, bh_layer_specific = 0, bh_data = (\<lambda>i. if i = 12 then 0xC2 else of_nat i)\<rparr> example_lc3plus_cb) = More"
  by (rule lc3plus_short_packet [THEN conjunct1]) (simp_all add: frag_def pkt_at_def payload_header_def)

end
